(* ===== verification/Prelude.thy ===== *)
theory Prelude
  imports Main "HOL-Library.Word" "HOL-Library.AList" "HOL-Library.Multiset"
    "HOL-Library.Signed_Division"
begin

text \<open>
  Shared ground of the development: Go's fixed-width integers, the run-time panics of Go as
  values, Go maps as association lists with distinct keys, decimal printing, and the library
  lemmas on lists that several components use. Nothing here models a file of the repository;
  it models the part of the Go language the modelled files rely on.
\<close>

unbundle bit_operations_syntax

section \<open>Fixed-width integers\<close>

type_synonym byte = "8 word"
type_synonym u16 = "16 word"
type_synonym u32 = "32 word"
type_synonym u64 = "64 word"

text \<open>
  Go's \<open>int64\<close> and (on the 64-bit targets the Makefiles build) \<open>int\<close> are two's complement
  and wrap around silently. A signed field is an \<open>int\<close>, and each arithmetic operation of the
  source on it goes through \<open>wrap64\<close>; \<open>wrap32\<close> is the same for \<open>int32\<close>.
\<close>

definition wrap64 :: "int \<Rightarrow> int" where
  "wrap64 x = (x + 2 ^ 63) mod 2 ^ 64 - 2 ^ 63"

definition wrap32 :: "int \<Rightarrow> int" where
  "wrap32 x = (x + 2 ^ 31) mod 2 ^ 32 - 2 ^ 31"

abbreviation add64 :: "int \<Rightarrow> int \<Rightarrow> int" where
  "add64 a b \<equiv> wrap64 (a + b)"

abbreviation sub64 :: "int \<Rightarrow> int \<Rightarrow> int" where
  "sub64 a b \<equiv> wrap64 (a - b)"

abbreviation add32 :: "int \<Rightarrow> int \<Rightarrow> int" where
  "add32 a b \<equiv> wrap32 (a + b)"

abbreviation in_int64 :: "int \<Rightarrow> bool" where
  "in_int64 x \<equiv> - (2 ^ 63) \<le> x \<and> x < 2 ^ 63"

abbreviation in_int32 :: "int \<Rightarrow> bool" where
  "in_int32 x \<equiv> - (2 ^ 31) \<le> x \<and> x < 2 ^ 31"

lemma wrap64_id [simp]: "in_int64 x \<Longrightarrow> wrap64 x = x"
  by (simp add: wrap64_def)

lemma wrap32_id [simp]: "in_int32 x \<Longrightarrow> wrap32 x = x"
  by (simp add: wrap32_def)

lemma wrap64_range: "- (2 ^ 63) \<le> wrap64 x" "wrap64 x < 2 ^ 63"
  by (simp_all add: wrap64_def)

lemma wrap32_range: "- (2 ^ 31) \<le> wrap32 x" "wrap32 x < 2 ^ 31"
  by (simp_all add: wrap32_def)

lemma wrap64_wrap_add: "wrap64 (wrap64 x + y) = wrap64 (x + y)"
proof -
  have "wrap64 (wrap64 x + y) = ((x + 2 ^ 63) mod 2 ^ 64 + y) mod 2 ^ 64 - 2 ^ 63"
    by (simp add: wrap64_def)
  also have "\<dots> = wrap64 (x + y)"
    unfolding mod_add_left_eq by (simp add: wrap64_def ac_simps)
  finally show ?thesis .
qed

lemma wrap64_add_wrap: "wrap64 (y + wrap64 x) = wrap64 (y + x)"
  using wrap64_wrap_add [of x y] by (simp only: add.commute)

lemma wrap64_wrap_diff: "wrap64 (wrap64 x - y) = wrap64 (x - y)"
  using wrap64_wrap_add [of x "- y"] by simp

definition sum64 :: "int list \<Rightarrow> int" where
  "sum64 xs = fold (\<lambda>x t. add64 t x) xs 0"

section \<open>Panics\<close>

text \<open>
  An operation of the source that can panic returns a sum: \<open>Inl\<close> the panic, \<open>Inr\<close> the
  value. \<open>and_then\<close> sequences two such operations.
\<close>

datatype panic =
    CloseOfClosedChannel
  | SendOnClosedChannel
  | IndexOutOfRange
  | SliceBoundsOutOfRange
  | NilDereference
  | IntegerDivideByZero
  | InvalidArgument
  | NilMapWrite

type_synonym 'a res = "panic + 'a"

definition and_then :: "'a res \<Rightarrow> ('a \<Rightarrow> 'b res) \<Rightarrow> 'b res" where
  "and_then r f = (case r of Inl p \<Rightarrow> Inl p | Inr x \<Rightarrow> f x)"

lemma and_then_Inr [simp]: "and_then (Inr x) f = f x"
  by (simp add: and_then_def)

lemma and_then_Inl [simp]: "and_then (Inl p) f = Inl p"
  by (simp add: and_then_def)

lemma and_then_eq_Inr_iff: "and_then r f = Inr y \<longleftrightarrow> (\<exists>x. r = Inr x \<and> f x = Inr y)"
  by (cases r) simp_all

lemma and_then_eq_Inl_iff:
  "and_then r f = Inl p \<longleftrightarrow> r = Inl p \<or> (\<exists>x. r = Inr x \<and> f x = Inl p)"
  by (cases r) simp_all

section \<open>Decimal printing\<close>

text \<open>\<open>itoa\<close> is what \<open>%d\<close> prints for a natural number, \<open>itoa_int\<close> for an integer.\<close>

fun itoa :: "nat \<Rightarrow> string" where
  "itoa n = (if n < 10 then [char_of (48 + n)] else itoa (n div 10) @ [char_of (48 + n mod 10)])"

declare itoa.simps [simp del]

definition itoa_int :: "int \<Rightarrow> string" where
  "itoa_int n = (if n < 0 then ''-'' @ itoa (nat (- n)) else itoa (nat n))"

definition is_digit :: "char \<Rightarrow> bool" where
  "is_digit c \<longleftrightarrow> 48 \<le> (of_char c :: nat) \<and> (of_char c :: nat) \<le> 57"

definition digit_value :: "char \<Rightarrow> nat" where
  "digit_value c = of_char c - 48"

definition decimal :: "string \<Rightarrow> nat" where
  "decimal s = foldl (\<lambda>n c. 10 * n + digit_value c) 0 s"

lemma digit_char: "n < 10 \<Longrightarrow> is_digit (char_of (48 + n)) \<and> digit_value (char_of (48 + n)) = n"
  by (simp add: is_digit_def digit_value_def)

lemma decimal_itoa: "list_all is_digit (itoa n) \<and> decimal (itoa n) = n \<and> itoa n \<noteq> []"
proof (induction n rule: itoa.induct)
  case (1 n)
  show ?case
  proof (cases "n < 10")
    case True
    then show ?thesis using digit_char by (simp add: itoa.simps [of n] decimal_def)
  next
    case False
    have "n mod 10 < 10" by simp
    then show ?thesis using 1 False digit_char [of "n mod 10"] by (simp add: itoa.simps [of n] decimal_def)
  qed
qed

lemma itoa_inject [simp]: "itoa m = itoa n \<longleftrightarrow> m = n"
  using decimal_itoa by metis

lemma itoa_no: "\<not> is_digit c \<Longrightarrow> c \<notin> set (itoa n)"
  using decimal_itoa by (metis list_all_iff)

lemma itoa_int_inject [simp]: "itoa_int m = itoa_int n \<longleftrightarrow> m = n"
proof -
  have "CHR ''-'' \<notin> set (itoa k)" for k by (rule itoa_no) (simp add: is_digit_def)
  then have "itoa k \<noteq> CHR ''-'' # x" for k x by (metis list.set_intros(1))
  then show ?thesis by (auto simp: itoa_int_def dest: not_sym)
qed

section \<open>Go maps\<close>

text \<open>
  A Go map is an association list with distinct keys; \<open>map_of\<close> looks a key up, \<open>AList.update\<close>
  and \<open>AList.delete\<close> write it. Go leaves the order of a \<open>range\<close> loop over a map open, so
  every operation of the model that ranges over a map takes the visiting order as an argument.
\<close>

abbreviation keys_of :: "('k \<times> 'v) list \<Rightarrow> 'k list" where
  "keys_of m \<equiv> map fst m"

abbreviation map_ok :: "('k \<times> 'v) list \<Rightarrow> bool" where
  "map_ok m \<equiv> distinct (keys_of m)"

definition range_order :: "('k \<times> 'v) list \<Rightarrow> 'k list \<Rightarrow> bool" where
  "range_order m ord \<longleftrightarrow> distinct ord \<and> set ord = set (keys_of m)"

lemma map_ok_update [simp]: "map_ok m \<Longrightarrow> map_ok (AList.update k v m)"
  by (rule distinct_update)

lemma map_ok_delete [simp]: "map_ok m \<Longrightarrow> map_ok (AList.delete k m)"
  by (rule distinct_delete)

lemma map_of_alist_update [simp]: "map_of (AList.update k v m) = (map_of m)(k \<mapsto> v)"
  by (rule update_conv')

lemma map_of_alist_delete [simp]: "map_of (AList.delete k m) = (map_of m)(k := None)"
  by (rule delete_conv')

lemma length_update_new: "k \<notin> set (keys_of m) \<Longrightarrow> length (AList.update k v m) = Suc (length m)"
  by (induction m) auto

lemma length_update_old: "k \<in> set (keys_of m) \<Longrightarrow> length (AList.update k v m) = length m"
  by (induction m) auto

lemma length_update_le: "length (AList.update k v m) \<le> Suc (length m)"
  by (induction m) auto

lemma length_delete_less: "k \<in> set (keys_of m) \<Longrightarrow> length (AList.delete k m) < length m"
  by (induction m) (force simp: less_Suc_eq_le AList.length_delete_le)+

lemma length_delete_old: "map_ok m \<Longrightarrow> k \<in> set (keys_of m) \<Longrightarrow> length m = Suc (length (AList.delete k m))"
proof (induction m)
  case (Cons x m)
  show ?case
  proof (cases "fst x = k")
    case True
    then have "k \<notin> set (keys_of m)" using Cons.prems(1) by auto
    then show ?thesis using True by (cases x) (simp add: delete_idem)
  qed (use Cons in \<open>cases x, simp\<close>)
qed simp

lemma set_alist_update: "set (AList.update k v m) \<subseteq> insert (k, v) (set m)"
  by (induction m) auto

lemma set_alist_update_eq: "map_ok m \<Longrightarrow> set (AList.update k v m) = insert (k, v) {x \<in> set m. fst x \<noteq> k}"
  by (induction m) (auto simp: image_iff)

lemma set_alist_delete [simp]: "set (AList.delete k m) = {x \<in> set m. fst x \<noteq> k}"
  by (induction m) auto

lemma distinct_vals_update:
  "distinct (map snd m) \<Longrightarrow> v \<notin> snd ` set m \<Longrightarrow> distinct (map snd (AList.update k v m))"
proof (induction m)
  case (Cons x m)
  then show ?case
    using set_alist_update [of k v m] by (cases x) force
qed simp

lemma distinct_vals_delete: "distinct (map snd m) \<Longrightarrow> distinct (map snd (AList.delete k m))"
  by (induction m) auto

lemma map_of_fold_update:
  "map_of (fold (\<lambda>r. AList.update (k r) r) rs m) = map_of m ++ map_of (rev (map (\<lambda>r. (k r, r)) rs))"
  by (induction rs arbitrary: m) (auto simp: fun_eq_iff map_add_def split: option.splits)

lemma map_of_rev_keyed:
  assumes "\<And>r r'. r \<in> set rs \<Longrightarrow> r' \<in> set rs \<Longrightarrow> k r = k r' \<Longrightarrow> r = r'"
  shows "map_of (rev (map (\<lambda>r. (k r, r)) rs)) x = Some r \<longleftrightarrow> r \<in> set rs \<and> k r = x"
proof
  assume "map_of (rev (map (\<lambda>r. (k r, r)) rs)) x = Some r"
  from map_of_SomeD [OF this] show "r \<in> set rs \<and> k r = x" by auto
next
  assume r: "r \<in> set rs \<and> k r = x"
  then have "map_of (rev (map (\<lambda>r. (k r, r)) rs)) x \<noteq> None"
    by (metis (no_types, lifting) image_eqI image_set map_of_eq_None_iff rev_map set_rev fst_conv)
  then obtain r' where r': "map_of (rev (map (\<lambda>r. (k r, r)) rs)) x = Some r'" by blast
  from map_of_SomeD [OF this] have "r' \<in> set rs" "k r' = x" by auto
  then show "map_of (rev (map (\<lambda>r. (k r, r)) rs)) x = Some r" using assms r r' by metis
qed

section \<open>Lists\<close>

lemma nth_map_upt_append:
  "map f [0..<m] @ map (\<lambda>i. f (m + i)) [0..<n] = map f [0..<m + n]"
  by (rule nth_equalityI) (auto simp: nth_append)

lemma take_map_upt: "k \<le> n \<Longrightarrow> take k (map f [0..<n]) = map f [0..<k]"
  by (simp add: take_map)

lemma drop_map_upt: "k \<le> n \<Longrightarrow> drop k (map f [0..<n]) = map (\<lambda>i. f (k + i)) [0..<n - k]"
  by (rule nth_equalityI) auto

end
