(* ===== verification/Go_IO.thy ===== *)
theory Go_IO
  imports Prelude
begin

text \<open>
  The parts of Go's \<open>io\<close>, \<open>net\<close> and \<open>encoding/binary\<close> packages that the multiplexer calls:
  \<open>io.ReadFull\<close> on a reader, \<open>Write\<close> and \<open>Close\<close> of a connection, and the big-endian 32-bit
  codec.
\<close>

section \<open>Readers\<close>

datatype io_err = EOF | ErrUnexpectedEOF | ErrNet | ErrClosed

text \<open>
  A reader is the bytes it will still deliver and the error it reports after them
  (\<open>EOF\<close> for an orderly shutdown of the peer).
\<close>

record reader =
  rd_bytes :: "byte list"
  rd_end :: io_err

text \<open>
  \<open>io.ReadFull\<close>: all \<open>n\<close> bytes, or what there was with the reader's error, where an \<open>EOF\<close>
  after at least one byte becomes \<open>ErrUnexpectedEOF\<close>.
\<close>

definition ReadFull :: "reader \<Rightarrow> nat \<Rightarrow> byte list \<times> reader \<times> io_err option" where
  "ReadFull r n =
     (if n \<le> length (rd_bytes r)
      then (take n (rd_bytes r), r\<lparr>rd_bytes := drop n (rd_bytes r)\<rparr>, None)
      else (rd_bytes r, r\<lparr>rd_bytes := []\<rparr>,
            Some (if rd_bytes r \<noteq> [] \<and> rd_end r = EOF then ErrUnexpectedEOF else rd_end r)))"

lemma ReadFull_append:
  "length xs = n \<Longrightarrow> ReadFull \<lparr>rd_bytes = xs @ ys, rd_end = e\<rparr> n =
     (xs, \<lparr>rd_bytes = ys, rd_end = e\<rparr>, None)"
  by (auto simp: ReadFull_def)

lemma ReadFull_short:
  "length (rd_bytes r) < n \<Longrightarrow> \<exists>e. ReadFull r n = (rd_bytes r, r\<lparr>rd_bytes := []\<rparr>, Some e)"
  by (simp add: ReadFull_def)

section \<open>Connections\<close>

text \<open>
  The writing half of a \<open>net.Conn\<close>: the bytes it has taken so far, and how many more it takes
  before it fails (\<open>None\<close>: it does not fail). A failing \<open>Write\<close> may take a part of its
  argument. After \<open>Close\<close> no byte is taken.
\<close>

record conn =
  c_out :: "byte list"
  c_room :: "nat option"

definition conn_Write :: "conn \<Rightarrow> byte list \<Rightarrow> conn \<times> int \<times> io_err option" where
  "conn_Write c bs =
     (case c_room c of
        None \<Rightarrow> (c\<lparr>c_out := c_out c @ bs\<rparr>, int (length bs), None)
      | Some k \<Rightarrow>
          (if length bs \<le> k
           then (c\<lparr>c_out := c_out c @ bs, c_room := Some (k - length bs)\<rparr>, int (length bs), None)
           else (c\<lparr>c_out := c_out c @ take k bs, c_room := Some 0\<rparr>, int k, Some ErrNet)))"

definition conn_Close :: "conn \<Rightarrow> conn" where
  "conn_Close c = c\<lparr>c_room := Some 0\<rparr>"

lemma conn_Write_ok [simp]:
  "c_room c = None \<Longrightarrow> conn_Write c bs = (c\<lparr>c_out := c_out c @ bs\<rparr>, int (length bs), None)"
  by (simp add: conn_Write_def)

lemma conn_Write_out:
  "conn_Write c bs = (c', n, e) \<Longrightarrow> \<exists>k. c_out c' = c_out c @ take k bs"
  by (auto simp: conn_Write_def split: option.splits if_splits intro: exI [of _ "length bs"])

lemma conn_Write_success:
  "conn_Write c bs = (c', n, None) \<Longrightarrow> c_out c' = c_out c @ bs \<and> n = int (length bs)"
  by (auto simp: conn_Write_def split: option.splits if_splits)

section \<open>Big-endian 32-bit integers\<close>

definition PutUint32 :: "u32 \<Rightarrow> byte list" where
  "PutUint32 v = [ucast (drop_bit 24 v), ucast (drop_bit 16 v), ucast (drop_bit 8 v), ucast v]"

definition Uint32 :: "byte list \<Rightarrow> u32 res" where
  "Uint32 b =
     (if length b < 4 then Inl IndexOutOfRange
      else Inr (ucast (b ! 3) OR push_bit 8 (ucast (b ! 2)) OR
                push_bit 16 (ucast (b ! 1)) OR push_bit 24 (ucast (b ! 0))))"

lemma length_PutUint32 [simp]: "length (PutUint32 v) = 4"
  by (simp add: PutUint32_def)

lemma be32_roundtrip:
  fixes v :: u32
  shows "ucast (ucast v :: byte) OR push_bit 8 (ucast (ucast (drop_bit 8 v) :: byte)) OR
         push_bit 16 (ucast (ucast (drop_bit 16 v) :: byte)) OR
         push_bit 24 (ucast (ucast (drop_bit 24 v) :: byte)) = v"
  apply (rule bit_word_eqI)
  subgoal for n
    by (cases "n < 16"; cases "n < 24") (auto simp: bit_simps not_le)
  done

lemma Uint32_PutUint32 [simp]: "Uint32 (PutUint32 v @ rest) = Inr v"
  by (simp add: Uint32_def PutUint32_def be32_roundtrip)

lemma Uint32_PutUint32_exact [simp]: "Uint32 (PutUint32 v) = Inr v"
  using Uint32_PutUint32 [of v "[]"] by simp

lemma Uint32_total: "4 \<le> length b \<Longrightarrow> \<exists>v. Uint32 b = Inr v"
  by (simp add: Uint32_def)

end
