(* ===== verification/Frame.thy ===== *)
theory Frame
  imports Go_IO
begin

text \<open>
  The wire format of the stream multiplexer (\<open>client/internal/multiplex/frame.go\<close> and the
  frame reader and writer of \<open>session.go\<close>): the frame structure and its constructors, the
  accessors, the encoder \<open>WriteTo\<close>, the decoder \<open>ReadFrom\<close> and the validator \<open>Validate\<close>.
  Lemmas: decoding inverts encoding, also for a sequence of frames on one connection; a
  truncated encoding is never accepted; a validated frame makes no accessor panic.
\<close>

section \<open>Frame types, flags and error codes\<close>

definition FrameTypeData :: byte where "FrameTypeData = 0x00"
definition FrameTypeWindowUpdate :: byte where "FrameTypeWindowUpdate = 0x01"
definition FrameTypeStreamClose :: byte where "FrameTypeStreamClose = 0x02"
definition FrameTypePing :: byte where "FrameTypePing = 0x03"
definition FrameTypePong :: byte where "FrameTypePong = 0x04"
definition FrameTypeGoAway :: byte where "FrameTypeGoAway = 0x05"
definition FrameTypeStreamReset :: byte where "FrameTypeStreamReset = 0x06"
definition FrameTypeSettings :: byte where "FrameTypeSettings = 0x07"
definition FrameTypeStreamOpen :: byte where "FrameTypeStreamOpen = 0x08"

lemmas frame_type_defs =
  FrameTypeData_def FrameTypeWindowUpdate_def FrameTypeStreamClose_def FrameTypePing_def
  FrameTypePong_def FrameTypeGoAway_def FrameTypeStreamReset_def FrameTypeSettings_def
  FrameTypeStreamOpen_def

text \<open>The nine codes are distinct; the second list gives the inequalities the other way round.\<close>

lemma frame_types_distinct:
  "distinct [FrameTypeData, FrameTypeWindowUpdate, FrameTypeStreamClose, FrameTypePing,
     FrameTypePong, FrameTypeGoAway, FrameTypeStreamReset, FrameTypeSettings, FrameTypeStreamOpen]"
  "distinct [FrameTypeStreamOpen, FrameTypeSettings, FrameTypeStreamReset, FrameTypeGoAway,
     FrameTypePong, FrameTypePing, FrameTypeStreamClose, FrameTypeWindowUpdate, FrameTypeData]"
  by (simp_all add: frame_type_defs)

lemmas frame_types_neq [simp] = frame_types_distinct [simplified]

definition FrameType_String :: "byte \<Rightarrow> string" where
  "FrameType_String ft =
     (if ft = FrameTypeData then ''DATA''
      else if ft = FrameTypeWindowUpdate then ''WINDOW_UPDATE''
      else if ft = FrameTypeStreamClose then ''STREAM_CLOSE''
      else if ft = FrameTypePing then ''PING''
      else if ft = FrameTypePong then ''PONG''
      else if ft = FrameTypeGoAway then ''GO_AWAY''
      else if ft = FrameTypeStreamReset then ''STREAM_RESET''
      else if ft = FrameTypeSettings then ''SETTINGS''
      else if ft = FrameTypeStreamOpen then ''STREAM_OPEN''
      else ''UNKNOWN_'' @ itoa (unat ft))"

type_synonym stream_id = u32

record frame =
  f_Type :: byte
  f_Flags :: byte
  f_StreamID :: stream_id
  f_Length :: u32
  f_Payload :: "byte list option"

text \<open>\<open>f_Payload\<close> is \<open>None\<close> for a nil slice. \<open>payload_bytes\<close> is the contents: none for nil.\<close>

definition payload_bytes :: "frame \<Rightarrow> byte list" where
  "payload_bytes f = (case f_Payload f of None \<Rightarrow> [] | Some p \<Rightarrow> p)"

definition FlagEndStream :: byte where "FlagEndStream = 0x01"
definition FlagAck :: byte where "FlagAck = 0x10"
definition FrameHeaderLength :: nat where "FrameHeaderLength = 10"
definition MaxFrameLength :: nat where "MaxFrameLength = 1024 * 1024"
definition MaxStreamID :: stream_id where "MaxStreamID = 0x7FFFFFFF"

definition ErrorCodeNoError :: u32 where "ErrorCodeNoError = 0x0"
definition ErrorCodeProtocolError :: u32 where "ErrorCodeProtocolError = 0x1"
definition ErrorCodeRefusedStream :: u32 where "ErrorCodeRefusedStream = 0x7"
definition ErrorCodeCancel :: u32 where "ErrorCodeCancel = 0x8"

definition ErrorCode_String :: "u32 \<Rightarrow> string" where
  "ErrorCode_String ec =
     (if ec = 0x0 then ''NO_ERROR''
      else if ec = 0x1 then ''PROTOCOL_ERROR''
      else if ec = 0x2 then ''INTERNAL_ERROR''
      else if ec = 0x3 then ''FLOW_CONTROL_ERROR''
      else if ec = 0x5 then ''STREAM_CLOSED''
      else if ec = 0x6 then ''FRAME_SIZE_ERROR''
      else if ec = 0x7 then ''REFUSED_STREAM''
      else if ec = 0x8 then ''CANCEL''
      else if ec = 0x9 then ''COMPRESSION_ERROR''
      else if ec = 0xa then ''CONNECT_ERROR''
      else if ec = 0xb then ''ENHANCE_YOUR_CALM''
      else if ec = 0xc then ''INADEQUATE_SECURITY''
      else if ec = 0xd then ''HTTP_1_1_REQUIRED''
      else ''UNKNOWN_ERROR_'' @ itoa (unat ec))"

section \<open>Constructors\<close>

definition NewFrame :: "byte \<Rightarrow> stream_id \<Rightarrow> byte list option \<Rightarrow> frame" where
  "NewFrame frameType streamID payload =
     \<lparr>f_Type = frameType, f_Flags = 0, f_StreamID = streamID,
      f_Length = (case payload of None \<Rightarrow> 0 | Some p \<Rightarrow> word_of_nat (length p)),
      f_Payload = payload\<rparr>"

definition NewDataFrame :: "stream_id \<Rightarrow> byte list option \<Rightarrow> bool \<Rightarrow> frame" where
  "NewDataFrame streamID data endStream =
     (let f = NewFrame FrameTypeData streamID data
      in if endStream then f\<lparr>f_Flags := f_Flags f OR FlagEndStream\<rparr> else f)"

definition NewWindowUpdateFrame :: "stream_id \<Rightarrow> u32 \<Rightarrow> frame" where
  "NewWindowUpdateFrame streamID increment =
     NewFrame FrameTypeWindowUpdate streamID (Some (PutUint32 increment))"

definition NewStreamCloseFrame :: "stream_id \<Rightarrow> frame" where
  "NewStreamCloseFrame streamID =
     (let f = NewFrame FrameTypeStreamClose streamID None
      in f\<lparr>f_Flags := f_Flags f OR FlagEndStream\<rparr>)"

definition NewStreamResetFrame :: "stream_id \<Rightarrow> u32 \<Rightarrow> frame" where
  "NewStreamResetFrame streamID errorCode =
     NewFrame FrameTypeStreamReset streamID (Some (PutUint32 errorCode))"

definition NewPingFrame :: "byte list option \<Rightarrow> bool \<Rightarrow> frame" where
  "NewPingFrame data ack =
     (let f = NewFrame FrameTypePing 0 data
      in if ack then f\<lparr>f_Flags := f_Flags f OR FlagAck\<rparr> else f)"

definition NewPongFrame :: "byte list option \<Rightarrow> frame" where
  "NewPongFrame data =
     (let f = NewFrame FrameTypePong 0 data
      in f\<lparr>f_Flags := f_Flags f OR FlagAck\<rparr>)"

definition NewGoAwayFrame :: "stream_id \<Rightarrow> u32 \<Rightarrow> byte list \<Rightarrow> frame" where
  "NewGoAwayFrame lastStreamID errorCode debugData =
     NewFrame FrameTypeGoAway 0
       (Some (PutUint32 lastStreamID @ PutUint32 errorCode @ debugData))"

definition NewStreamOpenFrame :: "stream_id \<Rightarrow> byte \<Rightarrow> frame" where
  "NewStreamOpenFrame streamID priority = NewFrame FrameTypeStreamOpen streamID (Some [priority])"

section \<open>Accessors\<close>

definition Frame_IsEndStream :: "frame \<Rightarrow> bool" where
  "Frame_IsEndStream f \<longleftrightarrow> f_Flags f AND FlagEndStream \<noteq> 0"

definition Frame_IsAck :: "frame \<Rightarrow> bool" where
  "Frame_IsAck f \<longleftrightarrow> f_Flags f AND FlagAck \<noteq> 0"

definition Frame_GetWindowIncrement :: "frame \<Rightarrow> u32 res" where
  "Frame_GetWindowIncrement f =
     (if f_Type f \<noteq> FrameTypeWindowUpdate \<or> length (payload_bytes f) < 4 then Inr 0
      else Uint32 (payload_bytes f))"

text \<open>
  \<open>Payload[4:8]\<close> panics when the payload is shorter than 8 bytes (a payload made by
  \<open>ReadFrom\<close> has no spare capacity).
\<close>

definition Frame_GetErrorCode :: "frame \<Rightarrow> u32 res" where
  "Frame_GetErrorCode f =
     (if (f_Type f \<noteq> FrameTypeStreamReset \<and> f_Type f \<noteq> FrameTypeGoAway) \<or>
         length (payload_bytes f) < 4 then Inr 0
      else if f_Type f = FrameTypeGoAway then
        (if length (payload_bytes f) < 8 then Inl SliceBoundsOutOfRange
         else Uint32 (take 4 (drop 4 (payload_bytes f))))
      else Uint32 (payload_bytes f))"

definition Frame_GetLastStreamID :: "frame \<Rightarrow> stream_id res" where
  "Frame_GetLastStreamID f =
     (if f_Type f \<noteq> FrameTypeGoAway \<or> length (payload_bytes f) < 4 then Inr 0
      else Uint32 (take 4 (payload_bytes f)))"

definition Frame_GetPriority :: "frame \<Rightarrow> byte" where
  "Frame_GetPriority f =
     (if f_Type f \<noteq> FrameTypeStreamOpen \<or> length (payload_bytes f) < 1 then 0
      else payload_bytes f ! 0)"

definition Frame_Clone :: "frame \<Rightarrow> frame" where
  "Frame_Clone f =
     \<lparr>f_Type = f_Type f, f_Flags = f_Flags f, f_StreamID = f_StreamID f, f_Length = f_Length f,
      f_Payload = (case f_Payload f of None \<Rightarrow> None | Some p \<Rightarrow> Some p)\<rparr>"

section \<open>Encoding and decoding\<close>

definition frame_header :: "frame \<Rightarrow> byte list" where
  "frame_header f = [f_Type f, f_Flags f] @ PutUint32 (f_StreamID f) @ PutUint32 (f_Length f)"

definition Frame_WriteTo :: "frame \<Rightarrow> conn \<Rightarrow> conn \<times> int \<times> io_err option" where
  "Frame_WriteTo f w =
     (case conn_Write w (frame_header f) of
        (w, n, Some e) \<Rightarrow> (w, n, Some e)
      | (w, n, None) \<Rightarrow>
          (case f_Payload f of
             Some p \<Rightarrow>
               (if f_Length f > 0
                then (case conn_Write w p of (w', n', e) \<Rightarrow> (w', n + n', e))
                else (w, n, None))
           | None \<Rightarrow> (w, n, None)))"

datatype read_err = IOErr io_err | FrameTooLong

text \<open>
  \<open>ReadFrom\<close> fills the frame it is called on and returns the number of bytes read. A short
  payload leaves the rest of the payload buffer zero.
\<close>

definition Frame_ReadFrom :: "frame \<Rightarrow> reader \<Rightarrow> frame \<times> reader \<times> int \<times> read_err option" where
  "Frame_ReadFrom f r =
     (case ReadFull r FrameHeaderLength of
        (header, r, Some e) \<Rightarrow> (f, r, int (length header), Some (IOErr e))
      | (header, r, None) \<Rightarrow>
          (case (Uint32 (take 4 (drop 2 header)), Uint32 (take 4 (drop 6 header))) of
             (Inr sid, Inr len) \<Rightarrow>
               (let read = int (length header);
                    f = f\<lparr>f_Type := header ! 0, f_Flags := header ! 1, f_StreamID := sid,
                          f_Length := len\<rparr>
                in if unat len > MaxFrameLength then (f, r, read, Some FrameTooLong)
                   else if len > 0 then
                     (case ReadFull r (unat len) of
                        (p, r, e) \<Rightarrow>
                          (f\<lparr>f_Payload := Some (p @ replicate (unat len - length p) 0)\<rparr>,
                           r, read + int (length p), map_option IOErr e))
                   else (f, r, read, None))
           | _ \<Rightarrow> (f, r, int (length header), None)))"

definition empty_frame :: frame where
  "empty_frame = \<lparr>f_Type = 0, f_Flags = 0, f_StreamID = 0, f_Length = 0, f_Payload = None\<rparr>"

definition FrameReader_ReadFrame :: "reader \<Rightarrow> frame \<times> reader \<times> read_err option" where
  "FrameReader_ReadFrame r =
     (case Frame_ReadFrom empty_frame r of (f, r', n, e) \<Rightarrow> (f, r', e))"

definition FrameWriter_WriteFrame :: "conn \<Rightarrow> frame \<Rightarrow> conn \<times> io_err option" where
  "FrameWriter_WriteFrame w f = (case Frame_WriteTo f w of (w', n, e) \<Rightarrow> (w', e))"

section \<open>Validation\<close>

datatype frame_err =
    InvalidStreamID | LengthMismatch | WindowUpdateLength | WindowUpdateZero
  | StreamResetLength | GoAwayLength | GoAwayStreamID | PingStreamID | SettingsStreamID

definition Frame_Validate :: "frame \<Rightarrow> (frame_err option) res" where
  "Frame_Validate f =
     (if f_StreamID f > MaxStreamID then Inr (Some InvalidStreamID)
      else if f_Length f \<noteq> word_of_nat (length (payload_bytes f)) then Inr (Some LengthMismatch)
      else if f_Type f = FrameTypeWindowUpdate then
        (if f_Length f \<noteq> 4 then Inr (Some WindowUpdateLength)
         else and_then (Frame_GetWindowIncrement f)
           (\<lambda>increment. Inr (if increment = 0 then Some WindowUpdateZero else None)))
      else if f_Type f = FrameTypeStreamReset then
        Inr (if f_Length f \<noteq> 4 then Some StreamResetLength else None)
      else if f_Type f = FrameTypeGoAway then
        Inr (if f_Length f < 8 then Some GoAwayLength
             else if f_StreamID f \<noteq> 0 then Some GoAwayStreamID else None)
      else if f_Type f = FrameTypePing \<or> f_Type f = FrameTypePong then
        Inr (if f_StreamID f \<noteq> 0 then Some PingStreamID else None)
      else if f_Type f = FrameTypeSettings then
        Inr (if f_StreamID f \<noteq> 0 then Some SettingsStreamID else None)
      else Inr None)"


section \<open>The encoding of a frame\<close>

text \<open>
  \<open>frame_bytes\<close> is what \<open>WriteTo\<close> puts on a healthy connection. A frame is a wire frame when
  its declared length is that of its payload and within the decoder's limit; \<open>wire_norm\<close> is
  the frame the decoder builds, whose empty payload is nil.
\<close>

definition frame_bytes :: "frame \<Rightarrow> byte list" where
  "frame_bytes f = frame_header f @ (if f_Length f > 0 then payload_bytes f else [])"

definition wire_frame :: "frame \<Rightarrow> bool" where
  "wire_frame f \<longleftrightarrow>
     f_Length f = word_of_nat (length (payload_bytes f)) \<and>
     length (payload_bytes f) \<le> MaxFrameLength"

definition wire_norm :: "frame \<Rightarrow> frame" where
  "wire_norm f = f\<lparr>f_Payload := (if f_Length f = 0 then None else Some (payload_bytes f))\<rparr>"

lemma length_frame_header [simp]: "length (frame_header f) = 10"
  by (simp add: frame_header_def)

lemma MaxFrameLength_small: "n \<le> MaxFrameLength \<Longrightarrow> n < 2 ^ 32"
  by (simp add: MaxFrameLength_def)

lemma wire_frame_length: "wire_frame f \<Longrightarrow> unat (f_Length f) = length (payload_bytes f)"
  by (auto simp: wire_frame_def unat_of_nat dest: MaxFrameLength_small)

lemma wire_frame_Length_0: "wire_frame f \<Longrightarrow> f_Length f = 0 \<longleftrightarrow> payload_bytes f = []"
  by (metis length_0_conv unat_eq_zero wire_frame_length)

lemma length_frame_bytes:
  "wire_frame f \<Longrightarrow> length (frame_bytes f) = 10 + length (payload_bytes f)"
  using wire_frame_Length_0 [of f] by (auto simp: frame_bytes_def word_neq_0_conv)

lemma Frame_WriteTo_healthy:
  "c_room w = None \<Longrightarrow>
     Frame_WriteTo f w = (w\<lparr>c_out := c_out w @ frame_bytes f\<rparr>, int (length (frame_bytes f)), None)"
  by (auto simp: Frame_WriteTo_def frame_bytes_def payload_bytes_def word_neq_0_conv
      split: option.splits)

lemma WriteFrame_healthy:
  "c_room w = None \<Longrightarrow>
     FrameWriter_WriteFrame w f = (w\<lparr>c_out := c_out w @ frame_bytes f\<rparr>, None)"
  by (simp add: FrameWriter_WriteFrame_def Frame_WriteTo_healthy)

text \<open>A successful \<open>WriteFrame\<close> has put exactly the encoding on the connection.\<close>

lemma WriteFrame_success:
  "FrameWriter_WriteFrame w f = (w', None) \<Longrightarrow> c_out w' = c_out w @ frame_bytes f"
  by (auto simp: FrameWriter_WriteFrame_def Frame_WriteTo_def frame_bytes_def payload_bytes_def
      word_neq_0_conv split: option.splits prod.splits if_splits dest!: conn_Write_success)

text \<open>The decoder on a header followed by anything.\<close>

lemma ReadFrom_header:
  "Frame_ReadFrom g \<lparr>rd_bytes = frame_header f @ rest, rd_end = e\<rparr> =
     (let f' = g\<lparr>f_Type := f_Type f, f_Flags := f_Flags f, f_StreamID := f_StreamID f,
                 f_Length := f_Length f\<rparr>;
          r = \<lparr>rd_bytes = rest, rd_end = e\<rparr>
      in if unat (f_Length f) > MaxFrameLength then (f', r, 10, Some FrameTooLong)
         else if f_Length f > 0 then
           (case ReadFull r (unat (f_Length f)) of
              (p, r', e') \<Rightarrow> (f'\<lparr>f_Payload := Some (p @ replicate (unat (f_Length f) - length p) 0)\<rparr>,
                              r', 10 + int (length p), map_option IOErr e'))
         else (f', r, 10, None))"
proof -
  have "Uint32 (take 4 (drop 2 (frame_header f))) = Inr (f_StreamID f)"
    by (simp add: frame_header_def)
  moreover have "Uint32 (take 4 (drop 6 (frame_header f))) = Inr (f_Length f)"
    by (simp add: frame_header_def PutUint32_def)
       (use Uint32_PutUint32_exact [of "f_Length f"] in \<open>simp add: PutUint32_def\<close>)
  moreover have "frame_header f ! 0 = f_Type f" "frame_header f ! 1 = f_Flags f"
    by (simp_all add: frame_header_def)
  moreover have "ReadFull \<lparr>rd_bytes = frame_header f @ rest, rd_end = e\<rparr> FrameHeaderLength =
      (frame_header f, \<lparr>rd_bytes = rest, rd_end = e\<rparr>, None)"
    by (rule ReadFull_append) (simp add: FrameHeaderLength_def)
  ultimately show ?thesis
    by (simp add: Frame_ReadFrom_def Let_def)
qed

lemma ReadFrame_frame_bytes:
  assumes "wire_frame f"
  shows "FrameReader_ReadFrame \<lparr>rd_bytes = frame_bytes f @ rest, rd_end = e\<rparr> =
           (wire_norm f, \<lparr>rd_bytes = rest, rd_end = e\<rparr>, None)"
proof (cases "f_Length f = 0")
  case True
  then show ?thesis
    by (simp add: FrameReader_ReadFrame_def frame_bytes_def ReadFrom_header empty_frame_def
        wire_norm_def)
next
  case False
  with assms have len: "unat (f_Length f) = length (payload_bytes f)"
    and small: "length (payload_bytes f) \<le> MaxFrameLength"
    using wire_frame_length [OF assms] by (simp_all add: wire_frame_def)
  have "ReadFull \<lparr>rd_bytes = payload_bytes f @ rest, rd_end = e\<rparr> (length (payload_bytes f)) =
      (payload_bytes f, \<lparr>rd_bytes = rest, rd_end = e\<rparr>, None)"
    by (rule ReadFull_append) simp
  with False len small show ?thesis
    by (simp add: FrameReader_ReadFrame_def frame_bytes_def ReadFrom_header empty_frame_def
        wire_norm_def word_neq_0_conv not_less Let_def)
qed

section \<open>Frames on a connection\<close>

text \<open>A sequence of \<open>WriteFrame\<close> calls, and as many \<open>ReadFrame\<close> calls as asked for.\<close>

primrec write_frames :: "conn \<Rightarrow> frame list \<Rightarrow> conn" where
  "write_frames w [] = w"
| "write_frames w (f # fs) = write_frames (fst (FrameWriter_WriteFrame w f)) fs"

primrec read_frames :: "nat \<Rightarrow> reader \<Rightarrow> frame list \<times> reader \<times> read_err option" where
  "read_frames 0 r = ([], r, None)"
| "read_frames (Suc n) r =
     (case FrameReader_ReadFrame r of
        (f, r', Some e) \<Rightarrow> ([], r', Some e)
      | (f, r', None) \<Rightarrow>
          (case read_frames n r' of (fs, r'', e) \<Rightarrow> (f # fs, r'', e)))"

lemma write_frames_healthy:
  "c_room w = None \<Longrightarrow> write_frames w fs = w\<lparr>c_out := c_out w @ concat (map frame_bytes fs)\<rparr>"
  by (induction fs arbitrary: w) (simp_all add: WriteFrame_healthy)

lemma read_frames_concat:
  "\<forall>f \<in> set fs. wire_frame f \<Longrightarrow>
     read_frames (length fs) \<lparr>rd_bytes = concat (map frame_bytes fs) @ rest, rd_end = e\<rparr> =
       (map wire_norm fs, \<lparr>rd_bytes = rest, rd_end = e\<rparr>, None)"
  by (induction fs) (simp_all add: ReadFrame_frame_bytes)

text \<open>
  C1: encoding any sequence of wire frames on a healthy connection and decoding what arrives
  yields the same sequence, in order, and leaves the bytes that follow untouched.
\<close>

theorem frame_sequence_roundtrip:
  assumes "\<forall>f \<in> set fs. wire_frame f"
  shows "read_frames (length fs)
           \<lparr>rd_bytes = c_out (write_frames \<lparr>c_out = [], c_room = None\<rparr> fs) @ rest, rd_end = e\<rparr> =
         (map wire_norm fs, \<lparr>rd_bytes = rest, rd_end = e\<rparr>, None)"
  using assms by (simp add: write_frames_healthy read_frames_concat)

theorem frame_sequence_roundtrip_witness:
  "read_frames 2
     \<lparr>rd_bytes = c_out (write_frames \<lparr>c_out = [], c_room = None\<rparr>
        [NewDataFrame 3 (Some [1, 2]) True, NewStreamCloseFrame 3]) @ [9], rd_end = EOF\<rparr> =
   ([NewDataFrame 3 (Some [1, 2]) True, NewStreamCloseFrame 3],
    \<lparr>rd_bytes = [9], rd_end = EOF\<rparr>, None)"
  using frame_sequence_roundtrip
    [of "[NewDataFrame 3 (Some [1, 2]) True, NewStreamCloseFrame 3]" "[9]" EOF]
  by (simp add: wire_frame_def wire_norm_def NewDataFrame_def NewStreamCloseFrame_def
      NewFrame_def payload_bytes_def MaxFrameLength_def numeral_2_eq_2
      del: write_frames.simps read_frames.simps)

text \<open>
  C8: a connection that ends inside an encoding never yields a frame. The decoder reports a
  plain \<open>EOF\<close>, which the read loop takes for an orderly end, exactly when nothing or the bare
  header arrived; any other cut is an unexpected end.
\<close>

theorem truncated_frame_rejected:
  assumes "wire_frame f" and "k < length (frame_bytes f)"
  shows "\<exists>g r. FrameReader_ReadFrame \<lparr>rd_bytes = take k (frame_bytes f), rd_end = EOF\<rparr> =
           (g, r, Some (IOErr (if k = 0 \<or> k = 10 then EOF else ErrUnexpectedEOF)))"
proof (cases "k < 10")
  case True
  then have "length (take k (frame_bytes f)) = k"
    using assms(2) by simp
  with True show ?thesis
    by (cases "k = 0")
       (auto simp: FrameReader_ReadFrame_def Frame_ReadFrom_def ReadFull_def FrameHeaderLength_def)
next
  case False
  with assms have pos: "f_Length f > 0" and len: "unat (f_Length f) = length (payload_bytes f)"
    and small: "length (payload_bytes f) \<le> MaxFrameLength"
    using length_frame_bytes [OF assms(1)] wire_frame_Length_0 [OF assms(1)]
      wire_frame_length [OF assms(1)]
    by (auto simp: word_neq_0_conv wire_frame_def)
  from False pos have cut: "take k (frame_bytes f) = frame_header f @ take (k - 10) (payload_bytes f)"
    by (simp add: frame_bytes_def)
  from False assms(2) have "k - 10 < length (payload_bytes f)"
    using length_frame_bytes [OF assms(1)] by linarith
  with False pos len small show ?thesis
    by (auto simp: cut FrameReader_ReadFrame_def ReadFrom_header ReadFull_def Let_def not_less)
qed

theorem truncated_frame_rejected_witness:
  "\<exists>g r. FrameReader_ReadFrame
     \<lparr>rd_bytes = take 11 (frame_bytes (NewDataFrame 3 (Some [1, 2]) False)), rd_end = EOF\<rparr> =
     (g, r, Some (IOErr ErrUnexpectedEOF))"
  using truncated_frame_rejected [of "NewDataFrame 3 (Some [1, 2]) False" 11]
  by (simp add: wire_frame_def NewDataFrame_def NewFrame_def payload_bytes_def
      MaxFrameLength_def frame_bytes_def)

section \<open>Validated frames\<close>

lemma payload_length_ge:
  "f_Length f = word_of_nat (length (payload_bytes f)) \<Longrightarrow> unat (f_Length f) \<le> length (payload_bytes f)"
  by (simp add: unat_of_nat)

lemma Frame_GetWindowIncrement_total: "\<exists>v. Frame_GetWindowIncrement f = Inr v"
  by (auto simp: Frame_GetWindowIncrement_def not_less Uint32_total)

lemma Frame_Validate_total: "\<exists>e. Frame_Validate f = Inr e"
  using Frame_GetWindowIncrement_total [of f] by (auto simp: Frame_Validate_def)

lemma Frame_GetLastStreamID_total: "\<exists>v. Frame_GetLastStreamID f = Inr v"
  by (auto simp: Frame_GetLastStreamID_def not_less intro!: Uint32_total)

lemma Frame_Validate_goaway:
  assumes "Frame_Validate f = Inr None" and "f_Type f = FrameTypeGoAway"
  shows "8 \<le> length (payload_bytes f)"
proof -
  from assms have len: "f_Length f = word_of_nat (length (payload_bytes f))" and "8 \<le> f_Length f"
    by (auto simp: Frame_Validate_def split: if_splits)
  then have "unat (8 :: u32) \<le> unat (f_Length f)"
    by (simp only: word_le_nat_alt)
  with payload_length_ge [OF len] show ?thesis by simp
qed

lemma Frame_GetErrorCode_total:
  assumes "Frame_Validate f = Inr None"
  shows "\<exists>v. Frame_GetErrorCode f = Inr v"
  using Frame_Validate_goaway [OF assms]
  by (auto simp: Frame_GetErrorCode_def not_less intro!: Uint32_total)

text \<open>
  C9: validation never panics, and on a frame it accepts none of the accessors does, although
  \<open>GetErrorCode\<close> on its own panics on a GO_AWAY frame whose payload has 4 to 7 bytes.
\<close>

theorem validated_frame_no_panic:
  "(\<exists>e. Frame_Validate f = Inr e) \<and>
   (Frame_Validate f = Inr None \<longrightarrow>
      (\<exists>inc code sid. Frame_GetWindowIncrement f = Inr inc \<and> Frame_GetErrorCode f = Inr code \<and>
                      Frame_GetLastStreamID f = Inr sid)) \<and>
   Frame_GetErrorCode (NewFrame FrameTypeGoAway 0 (Some [0, 0, 0, 0])) = Inl SliceBoundsOutOfRange"
  using Frame_Validate_total [of f] Frame_GetWindowIncrement_total [of f]
    Frame_GetErrorCode_total [of f] Frame_GetLastStreamID_total [of f]
  by (auto simp: Frame_GetErrorCode_def NewFrame_def payload_bytes_def)

theorem validated_frame_no_panic_witness:
  "Frame_Validate (NewGoAwayFrame 5 1 []) = Inr None \<and>
   (\<exists>inc code sid. Frame_GetWindowIncrement (NewGoAwayFrame 5 1 []) = Inr inc \<and>
      Frame_GetErrorCode (NewGoAwayFrame 5 1 []) = Inr code \<and>
      Frame_GetLastStreamID (NewGoAwayFrame 5 1 []) = Inr sid)"
proof -
  have "Frame_Validate (NewGoAwayFrame 5 1 []) = Inr None"
    by (simp add: Frame_Validate_def NewGoAwayFrame_def NewFrame_def payload_bytes_def MaxStreamID_def)
  then show ?thesis
    using validated_frame_no_panic [of "NewGoAwayFrame 5 1 []"] by blast
qed

lemma word_of_nat_8_plus: "n + 8 < 2 ^ 32 \<Longrightarrow> \<not> word_of_nat n + 8 < (8 :: u32)"
proof -
  assume "n + 8 < 2 ^ 32"
  then have "unat (word_of_nat (n + 8) :: u32) = n + 8"
    by (simp only: unat_of_nat) simp
  then show ?thesis by (simp add: word_less_nat_alt)
qed

lemmas frame_new_defs =
  NewFrame_def payload_bytes_def Frame_Validate_def not_less linorder_not_less

lemma NewDataFrame_valid:
  "sid \<le> MaxStreamID \<Longrightarrow> Frame_Validate (NewDataFrame sid payload fin) = Inr None"
  by (simp add: NewDataFrame_def frame_new_defs Let_def split: option.splits)

lemma NewDataFrame_IsEndStream: "Frame_IsEndStream (NewDataFrame sid payload fin) = fin"
  by (simp add: NewDataFrame_def NewFrame_def Frame_IsEndStream_def FlagEndStream_def Let_def)

lemma NewWindowUpdateFrame_increment:
  "Frame_GetWindowIncrement (NewWindowUpdateFrame sid increment) = Inr increment"
  by (simp add: NewWindowUpdateFrame_def NewFrame_def Frame_GetWindowIncrement_def payload_bytes_def)

lemma NewWindowUpdateFrame_valid:
  assumes "sid \<le> MaxStreamID" and "increment \<noteq> 0"
  shows "Frame_Validate (NewWindowUpdateFrame sid increment) = Inr None"
  using assms NewWindowUpdateFrame_increment [of sid increment]
  by (simp add: NewWindowUpdateFrame_def frame_new_defs)

lemma NewStreamCloseFrame_valid:
  "sid \<le> MaxStreamID \<Longrightarrow> Frame_Validate (NewStreamCloseFrame sid) = Inr None"
  by (simp add: NewStreamCloseFrame_def frame_new_defs Let_def)

lemma NewStreamResetFrame_valid:
  "sid \<le> MaxStreamID \<Longrightarrow> Frame_Validate (NewStreamResetFrame sid code) = Inr None"
  by (simp add: NewStreamResetFrame_def frame_new_defs)

lemma NewStreamResetFrame_code: "Frame_GetErrorCode (NewStreamResetFrame sid code) = Inr code"
  by (simp add: NewStreamResetFrame_def NewFrame_def Frame_GetErrorCode_def payload_bytes_def)

lemma NewStreamOpenFrame_valid:
  "sid \<le> MaxStreamID \<Longrightarrow> Frame_Validate (NewStreamOpenFrame sid prio) = Inr None"
  by (simp add: NewStreamOpenFrame_def frame_new_defs)

lemma NewStreamOpenFrame_priority: "Frame_GetPriority (NewStreamOpenFrame sid prio) = prio"
  by (simp add: NewStreamOpenFrame_def NewFrame_def Frame_GetPriority_def payload_bytes_def)

lemma NewPingFrame_valid: "Frame_Validate (NewPingFrame payload ack) = Inr None"
  by (simp add: NewPingFrame_def frame_new_defs Let_def split: option.splits)

lemma NewPongFrame_valid: "Frame_Validate (NewPongFrame payload) = Inr None"
  by (simp add: NewPongFrame_def frame_new_defs Let_def split: option.splits)

lemma NewGoAwayFrame_valid:
  "length debug + 8 < 2 ^ 32 \<Longrightarrow> Frame_Validate (NewGoAwayFrame sid code debug) = Inr None"
  using word_of_nat_8_plus [of "length debug"]
  by (simp add: NewGoAwayFrame_def frame_new_defs add_ac MaxStreamID_def)

lemma NewGoAwayFrame_fields:
  "Frame_GetLastStreamID (NewGoAwayFrame sid code debug) = Inr sid"
  "Frame_GetErrorCode (NewGoAwayFrame sid code debug) = Inr code"
  by (simp_all add: NewGoAwayFrame_def NewFrame_def Frame_GetLastStreamID_def
      Frame_GetErrorCode_def payload_bytes_def)

lemmas new_frame_valid =
  NewDataFrame_valid NewWindowUpdateFrame_valid NewStreamCloseFrame_valid
  NewStreamResetFrame_valid NewStreamOpenFrame_valid NewPingFrame_valid NewPongFrame_valid
  NewGoAwayFrame_valid

lemmas new_frame_fields =
  NewDataFrame_IsEndStream NewWindowUpdateFrame_increment NewStreamResetFrame_code
  NewStreamOpenFrame_priority NewGoAwayFrame_fields



end
