(* ===== verification/Fifo.thy ===== *)
theory Fifo
  imports Prelude
begin

text \<open>
  The interface of a bounded byte queue: what a stream relies on from the buffer between the
  session's read loop and the application. \<open>push\<close> takes a whole chunk or refuses it, \<open>pop\<close>
  takes up to a given number of elements off the front.
\<close>

datatype 'a fifo_op = Push "'a list" | Pop nat

text \<open>A run collects the elements that went in and the elements that came out.\<close>

fun fifo_run ::
    "('q \<Rightarrow> 'a list \<Rightarrow> ('e option \<times> 'q) res) \<Rightarrow>
     ('q \<Rightarrow> nat \<Rightarrow> ('a list \<times> 'e option \<times> 'q) res) \<Rightarrow>
     'q \<Rightarrow> 'a fifo_op list \<Rightarrow> ('a list \<times> 'a list \<times> 'q) res" where
  "fifo_run push pop q [] = Inr ([], [], q)"
| "fifo_run push pop q (Push xs # ops) =
     and_then (push q xs) (\<lambda>(e, q').
     and_then (fifo_run push pop q' ops) (\<lambda>(ins, outs, q'').
       Inr (case e of None \<Rightarrow> (xs @ ins, outs, q'') | Some _ \<Rightarrow> (ins, outs, q''))))"
| "fifo_run push pop q (Pop n # ops) =
     and_then (pop q n) (\<lambda>(ys, e, q').
     and_then (fifo_run push pop q' ops) (\<lambda>(ins, outs, q'').
       Inr (ins, ys @ outs, q'')))"

locale bounded_fifo =
  fixes content :: "'q \<Rightarrow> 'a list"
    and invar :: "'q \<Rightarrow> bool"
    and capacity :: "'q \<Rightarrow> nat"
    and push :: "'q \<Rightarrow> 'a list \<Rightarrow> ('e option \<times> 'q) res"
    and pop :: "'q \<Rightarrow> nat \<Rightarrow> ('a list \<times> 'e option \<times> 'q) res"
  assumes content_bounded: "invar q \<Longrightarrow> length (content q) \<le> capacity q"
    and push_fits: "invar q \<Longrightarrow> length (content q) + length xs \<le> capacity q \<Longrightarrow>
      \<exists>q'. push q xs = Inr (None, q') \<and> invar q' \<and> content q' = content q @ xs \<and>
           capacity q' = capacity q"
    and push_full: "invar q \<Longrightarrow> capacity q < length (content q) + length xs \<Longrightarrow>
      \<exists>e. push q xs = Inr (Some e, q)"
    and pop_takes: "invar q \<Longrightarrow>
      \<exists>e q'. pop q n = Inr (take n (content q), e, q') \<and> invar q' \<and>
             content q' = drop n (content q) \<and> capacity q' = capacity q"
begin

text \<open>No operation fails, and the bytes come out in the order in which they went in.\<close>

lemma run_fifo:
  assumes "invar q"
  shows "\<exists>ins outs q'. fifo_run push pop q ops = Inr (ins, outs, q') \<and> invar q' \<and>
           capacity q' = capacity q \<and> content q @ ins = outs @ content q'"
  using assms
proof (induction ops arbitrary: q)
  case Nil
  then show ?case by simp
next
  case (Cons op ops)
  show ?case
  proof (cases op)
    case (Push xs)
    show ?thesis
    proof (cases "length (content q) + length xs \<le> capacity q")
      case True
      from push_fits [OF Cons.prems True] obtain q1 where
        q1: "push q xs = Inr (None, q1)" "invar q1" "content q1 = content q @ xs"
          "capacity q1 = capacity q" by blast
      from Cons.IH [OF q1(2)] q1 show ?thesis by (force simp: Push)
    next
      case False
      then obtain e where "push q xs = Inr (Some e, q)"
        using push_full [OF Cons.prems] by (meson not_le)
      with Cons.IH [OF Cons.prems] show ?thesis by (force simp: Push)
    qed
  next
    case (Pop n)
    from pop_takes [OF Cons.prems] obtain e q1 where
      q1: "pop q n = Inr (take n (content q), e, q1)" "invar q1" "content q1 = drop n (content q)"
        "capacity q1 = capacity q" by blast
    from Cons.IH [OF q1(2)] obtain ins outs q2 where
      "fifo_run push pop q1 ops = Inr (ins, outs, q2)" "invar q2" "capacity q2 = capacity q1"
      "content q1 @ ins = outs @ content q2" by blast
    with q1 show ?thesis
      by (simp add: Pop) (metis append_assoc append_take_drop_id)
  qed
qed

end

end
