(* ===== verification/Ring_Buffer.thy ===== *)
theory Ring_Buffer
  imports Fifo
begin

text \<open>
  The ring buffer of a stream (\<open>RingBuffer\<close> in \<open>client/internal/multiplex/stream.go\<close>). The
  abstraction \<open>ring_content\<close> is the list of buffered bytes; the interpretation at the end shows
  that the buffer is a bounded FIFO queue and never indexes out of range.
\<close>

section \<open>The buffer\<close>

record ring =
  rb_buf :: "byte list"
  rb_start :: nat
  rb_end :: nat
  rb_size :: nat

datatype rb_err = BufferFull | BufferEmpty

definition NewRingBuffer :: "nat \<Rightarrow> ring" where
  "NewRingBuffer capacity = \<lparr>rb_buf = replicate capacity 0, rb_start = 0, rb_end = 0, rb_size = 0\<rparr>"

definition RingBuffer_available :: "ring \<Rightarrow> nat" where
  "RingBuffer_available rb = length (rb_buf rb) - rb_size rb"

definition RingBuffer_Len :: "ring \<Rightarrow> nat" where
  "RingBuffer_Len rb = rb_size rb"

text \<open>
  The write loop puts one byte per iteration; the size is updated in the last iteration only.
\<close>

fun ring_write_loop :: "nat \<Rightarrow> nat \<Rightarrow> byte list \<Rightarrow> ring \<Rightarrow> ring res" where
  "ring_write_loop dataLen i [] rb = Inr rb"
| "ring_write_loop dataLen i (b # bs) rb =
     (if rb_end rb < length (rb_buf rb) then
        (let rb = rb\<lparr>rb_buf := (rb_buf rb)[rb_end rb := b],
                     rb_end := (rb_end rb + 1) mod length (rb_buf rb)\<rparr>;
             rb = (if Suc i = dataLen then rb\<lparr>rb_size := rb_size rb + dataLen\<rparr> else rb)
         in ring_write_loop dataLen (Suc i) bs rb)
      else Inl IndexOutOfRange)"

definition RingBuffer_Write :: "ring \<Rightarrow> byte list \<Rightarrow> (rb_err option \<times> ring) res" where
  "RingBuffer_Write rb data =
     (if length data > RingBuffer_available rb then Inr (Some BufferFull, rb)
      else and_then (ring_write_loop (length data) 0 data rb) (\<lambda>rb'. Inr (None, rb')))"

fun ring_read_loop :: "nat \<Rightarrow> ring \<Rightarrow> (byte list \<times> ring) res" where
  "ring_read_loop 0 rb = Inr ([], rb)"
| "ring_read_loop (Suc n) rb =
     (if rb_start rb < length (rb_buf rb) then
        and_then (ring_read_loop n (rb\<lparr>rb_start := (rb_start rb + 1) mod length (rb_buf rb)\<rparr>))
          (\<lambda>(bs, rb'). Inr (rb_buf rb ! rb_start rb # bs, rb'))
      else Inl IndexOutOfRange)"

text \<open>
  \<open>Read\<close> into a slice of length \<open>plen\<close>: the bytes stored into it, the error and the buffer.
\<close>

definition RingBuffer_Read :: "ring \<Rightarrow> nat \<Rightarrow> (byte list \<times> rb_err option \<times> ring) res" where
  "RingBuffer_Read rb plen =
     (if rb_size rb = 0 then Inr ([], Some BufferEmpty, rb)
      else (let n = (if plen > rb_size rb then rb_size rb else plen)
            in and_then (ring_read_loop n rb)
                 (\<lambda>(bs, rb'). Inr (bs, None, rb'\<lparr>rb_size := rb_size rb' - n\<rparr>))))"

section \<open>Abstraction and invariant\<close>

definition ring_view :: "ring \<Rightarrow> nat \<Rightarrow> byte list" where
  "ring_view rb v = map (\<lambda>k. rb_buf rb ! ((rb_start rb + k) mod length (rb_buf rb))) [0..<v]"

definition ring_content :: "ring \<Rightarrow> byte list" where
  "ring_content rb = ring_view rb (rb_size rb)"

definition ring_capacity :: "ring \<Rightarrow> nat" where
  "ring_capacity rb = length (rb_buf rb)"

definition ring_ok :: "ring \<Rightarrow> bool" where
  "ring_ok rb \<longleftrightarrow>
     rb_size rb \<le> length (rb_buf rb) \<and>
     (rb_buf rb \<noteq> [] \<longrightarrow>
        rb_start rb < length (rb_buf rb) \<and>
        rb_end rb = (rb_start rb + rb_size rb) mod length (rb_buf rb))"

lemma length_ring_view [simp]: "length (ring_view rb v) = v"
  by (simp add: ring_view_def)

lemma length_ring_content [simp]: "length (ring_content rb) = rb_size rb"
  by (simp add: ring_content_def)

lemma ring_content_Nil_iff: "ring_content rb = [] \<longleftrightarrow> rb_size rb = 0"
  by (metis length_0_conv length_ring_content)

lemma NewRingBuffer_ok [simp]:
  "ring_ok (NewRingBuffer n)" "ring_content (NewRingBuffer n) = []" "ring_capacity (NewRingBuffer n) = n"
  by (simp_all add: ring_ok_def NewRingBuffer_def ring_content_def ring_view_def ring_capacity_def)

lemma mod_offset_neq:
  fixes a k v n :: nat
  assumes "k < v" and "v < n"
  shows "(a + k) mod n \<noteq> (a + v) mod n"
proof
  assume "(a + k) mod n = (a + v) mod n"
  then have "n dvd (a + v) - (a + k)"
    using assms(1) by (metis add_le_mono1 add.commute less_imp_le mod_eq_dvd_iff_nat)
  then have "n dvd v - k" by simp
  with assms show False by (simp add: nat_dvd_not_less)
qed

section \<open>Writing\<close>

text \<open>
  One iteration of the write loop appends a byte to the view; \<open>v\<close> is the number of bytes
  already in place, counted or not.
\<close>

lemma ring_view_put:
  assumes "v < length (rb_buf rb)" and "rb_end rb = (rb_start rb + v) mod length (rb_buf rb)"
    and "rb_buf rb' = (rb_buf rb)[rb_end rb := b]" and "rb_start rb' = rb_start rb"
  shows "ring_view rb' (Suc v) = ring_view rb v @ [b]"
proof (rule nth_equalityI)
  show "length (ring_view rb' (Suc v)) = length (ring_view rb v @ [b])" by simp
next
  fix k assume "k < length (ring_view rb' (Suc v))"
  then have "k < Suc v" by simp
  moreover have "k < v \<Longrightarrow> (rb_start rb + k) mod length (rb_buf rb) \<noteq> rb_end rb"
    using mod_offset_neq [of k v "length (rb_buf rb)" "rb_start rb"] assms(1,2) by simp
  moreover have "rb_end rb < length (rb_buf rb)"
    unfolding assms(2) by (rule mod_less_divisor) (use assms(1) in auto)
  ultimately show "ring_view rb' (Suc v) ! k = (ring_view rb v @ [b]) ! k"
    using assms(2-4) by (auto simp: ring_view_def nth_append less_Suc_eq simp del: upt_Suc)
qed

lemma ring_write_loop_ok:
  assumes "v + length bs \<le> length (rb_buf rb)" and "rb_start rb < length (rb_buf rb)"
    and "rb_end rb = (rb_start rb + v) mod length (rb_buf rb)" and "i + length bs = dataLen"
  shows "\<exists>rb'. ring_write_loop dataLen i bs rb = Inr rb' \<and>
           ring_view rb' (v + length bs) = ring_view rb v @ bs \<and>
           length (rb_buf rb') = length (rb_buf rb) \<and> rb_start rb' = rb_start rb \<and>
           rb_end rb' = (rb_start rb + v + length bs) mod length (rb_buf rb) \<and>
           rb_size rb' = (if bs = [] then rb_size rb else rb_size rb + dataLen)"
  using assms
proof (induction bs arbitrary: i rb v)
  case Nil
  then show ?case by simp
next
  case (Cons b bs)
  let ?n = "length (rb_buf rb)"
  define rb1 where "rb1 = rb\<lparr>rb_buf := (rb_buf rb)[rb_end rb := b], rb_end := (rb_end rb + 1) mod ?n\<rparr>"
  define rb2 where "rb2 = (if Suc i = dataLen then rb1\<lparr>rb_size := rb_size rb1 + dataLen\<rparr> else rb1)"
  have v: "v < ?n" using Cons.prems(1) by simp
  have in_range: "rb_end rb < ?n"
    unfolding Cons.prems(3) by (rule mod_less_divisor) (use v in auto)
  have step: "ring_write_loop dataLen i (b # bs) rb = ring_write_loop dataLen (Suc i) bs rb2"
    using in_range by (simp add: rb1_def rb2_def Let_def)
  have rb2: "rb_buf rb2 = (rb_buf rb)[rb_end rb := b]" "rb_start rb2 = rb_start rb"
    "rb_end rb2 = (rb_start rb + Suc v) mod ?n"
    "rb_size rb2 = (if bs = [] then rb_size rb + dataLen else rb_size rb)"
    using Cons.prems by (auto simp: rb1_def rb2_def mod_Suc_eq)
  have view: "ring_view rb2 (Suc v) = ring_view rb v @ [b]"
    by (rule ring_view_put [OF v Cons.prems(3) rb2(1,2)])
  have "Suc v + length bs \<le> length (rb_buf rb2)" "rb_start rb2 < length (rb_buf rb2)"
    "rb_end rb2 = (rb_start rb2 + Suc v) mod length (rb_buf rb2)" "Suc i + length bs = dataLen"
    using rb2 Cons.prems by auto
  from Cons.IH [OF this] view rb2 show ?case
    unfolding step by auto
qed

lemma RingBuffer_Write_fits:
  assumes "ring_ok rb" and "rb_size rb + length data \<le> ring_capacity rb"
  shows "\<exists>rb'. RingBuffer_Write rb data = Inr (None, rb') \<and> ring_ok rb' \<and>
           ring_content rb' = ring_content rb @ data \<and> ring_capacity rb' = ring_capacity rb"
proof (cases "rb_buf rb = []")
  case True
  with assms show ?thesis
    by (simp add: RingBuffer_Write_def ring_capacity_def ring_ok_def RingBuffer_available_def)
next
  case False
  with assms obtain rb' where
    "ring_write_loop (length data) 0 data rb = Inr rb'"
    "ring_view rb' (rb_size rb + length data) = ring_view rb (rb_size rb) @ data"
    "length (rb_buf rb') = length (rb_buf rb)" "rb_start rb' = rb_start rb"
    "rb_end rb' = (rb_start rb + rb_size rb + length data) mod length (rb_buf rb)"
    "rb_size rb' = rb_size rb + length data"
    using ring_write_loop_ok [of "rb_size rb" data rb 0 "length data"]
    by (auto simp: ring_ok_def ring_capacity_def)
  with assms False show ?thesis
    by (auto simp: RingBuffer_Write_def RingBuffer_available_def ring_ok_def ring_capacity_def
        ring_content_def add.assoc)
qed

lemma RingBuffer_Write_full:
  "ring_ok rb \<Longrightarrow> ring_capacity rb < rb_size rb + length data \<Longrightarrow>
     RingBuffer_Write rb data = Inr (Some BufferFull, rb)"
  by (auto simp: RingBuffer_Write_def RingBuffer_available_def ring_capacity_def ring_ok_def)

section \<open>Reading\<close>

lemma ring_view_Suc:
  assumes "rb_start rb < length (rb_buf rb)"
  shows "ring_view rb (Suc v) =
     rb_buf rb ! rb_start rb #
     ring_view (rb\<lparr>rb_start := (rb_start rb + 1) mod length (rb_buf rb)\<rparr>) v"
  using assms
  by (simp add: ring_view_def upt_rec [of 0 "Suc v"] map_Suc_upt [symmetric] mod_simps
      comp_def del: upt_Suc)

lemma ring_read_loop_ok:
  assumes "n \<le> v" and "rb_start rb < length (rb_buf rb)"
  shows "ring_read_loop n rb =
     Inr (take n (ring_view rb v),
          rb\<lparr>rb_start := (rb_start rb + n) mod length (rb_buf rb)\<rparr>)"
  using assms
proof (induction n arbitrary: rb v)
  case 0
  then show ?case by simp
next
  case (Suc n)
  then obtain w where w: "v = Suc w" "n \<le> w" by (cases v) auto
  have "rb_buf rb \<noteq> []" using Suc.prems(2) by auto
  with Suc.prems show ?case
    using Suc.IH [OF w(2), of "rb\<lparr>rb_start := (rb_start rb + 1) mod length (rb_buf rb)\<rparr>"]
    by (simp add: w(1) ring_view_Suc mod_simps)
qed

lemma ring_view_drop:
  "n \<le> v \<Longrightarrow>
   ring_view (rb\<lparr>rb_start := (rb_start rb + n) mod length (rb_buf rb), rb_size := s\<rparr>) (v - n) =
     drop n (ring_view rb v)"
  by (simp add: ring_view_def drop_map_upt mod_simps add.assoc)

lemma RingBuffer_Read_takes:
  assumes "ring_ok rb"
  shows "\<exists>rb'. RingBuffer_Read rb plen =
             Inr (take plen (ring_content rb), (if rb_size rb = 0 then Some BufferEmpty else None), rb') \<and>
           ring_ok rb' \<and> ring_content rb' = drop plen (ring_content rb) \<and>
           ring_capacity rb' = ring_capacity rb"
proof (cases "rb_size rb = 0")
  case True
  with assms show ?thesis
    by (simp add: RingBuffer_Read_def ring_content_Nil_iff [THEN iffD2])
next
  case False
  define n where "n = min plen (rb_size rb)"
  from assms False have start: "rb_start rb < length (rb_buf rb)"
    by (auto simp: ring_ok_def)
  have n: "n \<le> rb_size rb" "(if plen > rb_size rb then rb_size rb else plen) = n"
    by (auto simp: n_def)
  define rb' where "rb' = rb\<lparr>rb_start := (rb_start rb + n) mod length (rb_buf rb), rb_size := rb_size rb - n\<rparr>"
  have read: "RingBuffer_Read rb plen = Inr (take n (ring_content rb), None, rb')"
    using ring_read_loop_ok [OF n(1) start] False
    by (simp add: RingBuffer_Read_def n(2) Let_def rb'_def ring_content_def)
  have content: "ring_content rb' = drop n (ring_content rb)"
    using ring_view_drop [OF n(1)] by (simp add: ring_content_def rb'_def)
  have n_plen: "take n (ring_content rb) = take plen (ring_content rb)"
    "drop n (ring_content rb) = drop plen (ring_content rb)"
    by (auto simp: n_def min_def)
  have "((rb_start rb + n) mod length (rb_buf rb) + (rb_size rb - n)) mod length (rb_buf rb) =
      (rb_start rb + rb_size rb) mod length (rb_buf rb)"
    using n(1) by (simp only: mod_add_left_eq) simp
  then have "ring_ok rb'"
    using assms start by (auto simp: ring_ok_def rb'_def)
  moreover have "ring_capacity rb' = ring_capacity rb"
    by (simp add: rb'_def ring_capacity_def)
  ultimately show ?thesis
    using False read content n_plen by auto
qed

interpretation ring_fifo: bounded_fifo ring_content ring_ok ring_capacity RingBuffer_Write RingBuffer_Read
proof unfold_locales
  fix rb :: ring and data :: "byte list" and n :: nat
  assume ok: "ring_ok rb"
  then show "length (ring_content rb) \<le> ring_capacity rb"
    by (simp add: ring_ok_def ring_capacity_def)
  show "length (ring_content rb) + length data \<le> ring_capacity rb \<Longrightarrow>
      \<exists>rb'. RingBuffer_Write rb data = Inr (None, rb') \<and> ring_ok rb' \<and>
        ring_content rb' = ring_content rb @ data \<and> ring_capacity rb' = ring_capacity rb"
    using RingBuffer_Write_fits [OF ok] by simp
  show "ring_capacity rb < length (ring_content rb) + length data \<Longrightarrow>
      \<exists>e. RingBuffer_Write rb data = Inr (Some e, rb)"
    using RingBuffer_Write_full [OF ok] by simp
  show "\<exists>e rb'. RingBuffer_Read rb n = Inr (take n (ring_content rb), e, rb') \<and> ring_ok rb' \<and>
        ring_content rb' = drop n (ring_content rb) \<and> ring_capacity rb' = ring_capacity rb"
    using RingBuffer_Read_takes [OF ok, of n] by blast
qed

text \<open>
  C4: any sequence of writes and reads on a fresh buffer runs without an index panic, and the
  bytes read, followed by what is still buffered, are exactly the bytes accepted, in order; the
  buffer never holds more than its capacity.
\<close>

theorem ring_buffer_fifo:
  "\<exists>ins outs rb. fifo_run RingBuffer_Write RingBuffer_Read (NewRingBuffer cap) ops = Inr (ins, outs, rb) \<and>
     ins = outs @ ring_content rb \<and> RingBuffer_Len rb \<le> cap"
proof -
  from ring_fifo.run_fifo [OF NewRingBuffer_ok(1), of cap ops] obtain ins outs rb where
    "fifo_run RingBuffer_Write RingBuffer_Read (NewRingBuffer cap) ops = Inr (ins, outs, rb)"
    "ring_ok rb" "ring_capacity rb = cap" "ins = outs @ ring_content rb" by auto
  then show ?thesis
    by (auto simp: RingBuffer_Len_def ring_ok_def ring_capacity_def)
qed

end
