(* ===== verification/Stream.thy ===== *)
theory Stream
  imports Frame Ring_Buffer
begin

text \<open>
  One stream of the multiplexer (\<open>client/internal/multiplex/stream.go\<close>), with the part of the
  session it writes through (\<open>writeFrame\<close> in \<open>session.go\<close>). A method runs as one atomic step
  except where it parks in a \<open>select\<close>: \<open>Read\<close> and \<open>Write\<close> then return a waiting result, and
  a separate definition says how the call goes on when it is woken. Log calls have no effect
  on the modelled state.

  Lemmas: the flow-control invariant and its preservation by every operation, the exact bytes
  a \<open>Write\<close> puts on the connection, what \<open>Read\<close> delivers, and which sequences of frames make
  the stream close its notification channel twice.
\<close>

section \<open>The link to the session\<close>

datatype mux_err =
    SessionClosed
  | ConnErr io_err
  | InvalidFrame frame_err
  | StreamEOF
  | WriteSideClosed
  | Buffer rb_err
  | RecvWindowExhausted
  | ZeroIncrement
  | Canceled
  | TooManyStreams
  | AcceptTimeout

text \<open>The fields of \<open>Session\<close> that \<open>writeFrame\<close> reads and writes; \<open>Session\<close> extends them.\<close>

record link =
  ln_closed :: bool
  ln_conn :: conn
  ln_framesSent :: int
  ln_bytesSent :: int

definition Session_writeFrame :: "'a link_scheme \<Rightarrow> frame \<Rightarrow> mux_err option \<times> 'a link_scheme" where
  "Session_writeFrame l frame =
     (if ln_closed l then (Some SessionClosed, l)
      else case FrameWriter_WriteFrame (ln_conn l) frame of
        (c, Some e) \<Rightarrow> (Some (ConnErr e), l\<lparr>ln_conn := c\<rparr>)
      | (c, None) \<Rightarrow>
          (None, l\<lparr>ln_conn := c, ln_framesSent := add64 (ln_framesSent l) 1,
                   ln_bytesSent := add64 (ln_bytesSent l) (uint (f_Length frame + 10))\<rparr>))"

section \<open>Stream state\<close>

datatype stream_state =
    StreamStateIdle | StreamStateOpen | StreamStateHalfClosed | StreamStateClosed
  | StreamStateReservedLocal | StreamStateReservedRemote

fun StreamState_String :: "stream_state \<Rightarrow> string" where
  "StreamState_String StreamStateIdle = ''IDLE''"
| "StreamState_String StreamStateOpen = ''OPEN''"
| "StreamState_String StreamStateHalfClosed = ''HALF_CLOSED''"
| "StreamState_String StreamStateClosed = ''CLOSED''"
| "StreamState_String StreamStateReservedLocal = ''RESERVED_LOCAL''"
| "StreamState_String StreamStateReservedRemote = ''RESERVED_REMOTE''"

text \<open>
  The notification channels of capacity 1 are booleans (a token is pending); \<open>st_closeNotify\<close>
  says that the channel of that name has been closed, \<open>st_canceled\<close> that the stream's own
  context has been cancelled. Times are Unix seconds.
\<close>

record stream =
  st_id :: stream_id
  st_state :: stream_state
  st_priority :: byte
  st_readBuf :: ring
  st_writeBuf :: ring
  st_readClosed :: bool
  st_writeClosed :: bool
  st_sendWindow :: int
  st_recvWindow :: int
  st_maxRecvWindow :: int
  st_readNotify :: bool
  st_writeNotify :: bool
  st_closeNotify :: bool
  st_bytesRead :: int
  st_bytesWritten :: int
  st_createdAt :: int
  st_lastActivity :: int
  st_canceled :: bool

definition NewStream :: "stream_id \<Rightarrow> int \<Rightarrow> int \<Rightarrow> stream" where
  "NewStream sid initialWindow now =
     \<lparr>st_id = sid, st_state = StreamStateIdle, st_priority = 0,
      st_readBuf = NewRingBuffer (32 * 1024), st_writeBuf = NewRingBuffer (32 * 1024),
      st_readClosed = False, st_writeClosed = False,
      st_sendWindow = initialWindow, st_recvWindow = initialWindow,
      st_maxRecvWindow = initialWindow,
      st_readNotify = False, st_writeNotify = False, st_closeNotify = False,
      st_bytesRead = 0, st_bytesWritten = 0, st_createdAt = now, st_lastActivity = now,
      st_canceled = False\<rparr>"

definition Stream_setState :: "stream \<Rightarrow> stream_state \<Rightarrow> stream" where
  "Stream_setState s state = s\<lparr>st_state := state\<rparr>"

definition Stream_IsClosed :: "stream \<Rightarrow> bool" where
  "Stream_IsClosed s \<longleftrightarrow> st_state s = StreamStateClosed"

definition Stream_updateActivity :: "stream \<Rightarrow> int \<Rightarrow> stream" where
  "Stream_updateActivity s now = s\<lparr>st_lastActivity := now\<rparr>"

definition Stream_notifyRead :: "stream \<Rightarrow> stream" where
  "Stream_notifyRead s = s\<lparr>st_readNotify := True\<rparr>"

definition Stream_notifyWrite :: "stream \<Rightarrow> stream" where
  "Stream_notifyWrite s = s\<lparr>st_writeNotify := True\<rparr>"

definition close_closeNotify :: "stream \<Rightarrow> stream res" where
  "close_closeNotify s =
     (if st_closeNotify s then Inl CloseOfClosedChannel else Inr (s\<lparr>st_closeNotify := True\<rparr>))"

section \<open>Closing\<close>

definition Stream_CloseRead :: "stream \<Rightarrow> stream res" where
  "Stream_CloseRead s =
     (if st_readClosed s then Inr s
      else and_then (close_closeNotify (s\<lparr>st_readClosed := True\<rparr>))
             (\<lambda>s. Inr (Stream_notifyRead s)))"

definition Stream_CloseWrite :: "stream \<Rightarrow> 'a link_scheme \<Rightarrow> mux_err option \<times> stream \<times> 'a link_scheme" where
  "Stream_CloseWrite s l =
     (if st_writeClosed s then (None, s, l)
      else let s = s\<lparr>st_writeClosed := True\<rparr>
           in case Session_writeFrame l (NewStreamCloseFrame (st_id s)) of
                (Some e, l) \<Rightarrow> (Some e, s, l)
              | (None, l) \<Rightarrow> (None, Stream_notifyWrite s, l))"

definition Stream_Close :: "stream \<Rightarrow> 'a link_scheme \<Rightarrow> mux_err option \<times> stream \<times> 'a link_scheme" where
  "Stream_Close s l = Stream_CloseWrite s l"

definition Stream_forceClose :: "stream \<Rightarrow> stream res" where
  "Stream_forceClose s =
     (let s = s\<lparr>st_readClosed := True, st_writeClosed := True\<rparr>;
          s = Stream_setState s StreamStateClosed;
          s = s\<lparr>st_canceled := True\<rparr>;
          s = Stream_notifyWrite (Stream_notifyRead s)
      in close_closeNotify s)"

definition Stream_Reset ::
    "stream \<Rightarrow> 'a link_scheme \<Rightarrow> u32 \<Rightarrow> (mux_err option \<times> stream \<times> 'a link_scheme) res" where
  "Stream_Reset s l errorCode =
     (case Session_writeFrame l (NewStreamResetFrame (st_id s) errorCode) of
        (Some e, l) \<Rightarrow> Inr (Some e, s, l)
      | (None, l) \<Rightarrow> and_then (Stream_forceClose s) (\<lambda>s. Inr (None, s, l)))"

section \<open>Incoming frames\<close>

definition Stream_handleDataFrame :: "stream \<Rightarrow> frame \<Rightarrow> (mux_err option \<times> stream) res" where
  "Stream_handleDataFrame s frame =
     (if st_recvWindow s < uint (f_Length frame) then Inr (Some RecvWindowExhausted, s)
      else and_then
        (if f_Length frame > 0 then
           and_then (RingBuffer_Write (st_readBuf s) (payload_bytes frame)) (\<lambda>(e, rb).
             Inr (case e of
                Some e \<Rightarrow> (Some (Buffer e), s\<lparr>st_readBuf := rb\<rparr>)
              | None \<Rightarrow> (None, s\<lparr>st_readBuf := rb,
                                st_recvWindow := sub64 (st_recvWindow s) (uint (f_Length frame))\<rparr>)))
         else Inr (None, s))
        (\<lambda>(e, s). case e of
           Some e \<Rightarrow> Inr (Some e, s)
         | None \<Rightarrow>
             and_then (if Frame_IsEndStream frame then Stream_CloseRead s else Inr s)
               (\<lambda>s. Inr (None, Stream_notifyRead s))))"

definition Stream_handleWindowUpdateFrame :: "stream \<Rightarrow> frame \<Rightarrow> (mux_err option \<times> stream) res" where
  "Stream_handleWindowUpdateFrame s frame =
     and_then (Frame_GetWindowIncrement frame) (\<lambda>increment.
       Inr (if increment = 0 then (Some ZeroIncrement, s)
            else (None, Stream_notifyWrite
                          (s\<lparr>st_sendWindow := add64 (st_sendWindow s) (uint increment)\<rparr>))))"

definition Stream_handleStreamCloseFrame :: "stream \<Rightarrow> frame \<Rightarrow> (mux_err option \<times> stream) res" where
  "Stream_handleStreamCloseFrame s frame =
     and_then (Stream_CloseRead s) (\<lambda>s. Inr (None, s))"

definition Stream_handleStreamResetFrame :: "stream \<Rightarrow> frame \<Rightarrow> (mux_err option \<times> stream) res" where
  "Stream_handleStreamResetFrame s frame =
     and_then (Frame_GetErrorCode frame) (\<lambda>errorCode.
     and_then (Stream_forceClose s) (\<lambda>s. Inr (None, s)))"

definition Stream_handleFrame :: "stream \<Rightarrow> frame \<Rightarrow> int \<Rightarrow> (mux_err option \<times> stream) res" where
  "Stream_handleFrame s frame now =
     (let s = Stream_updateActivity s now in
      if f_Type frame = FrameTypeData then Stream_handleDataFrame s frame
      else if f_Type frame = FrameTypeWindowUpdate then Stream_handleWindowUpdateFrame s frame
      else if f_Type frame = FrameTypeStreamClose then Stream_handleStreamCloseFrame s frame
      else if f_Type frame = FrameTypeStreamReset then Stream_handleStreamResetFrame s frame
      else Inr (None, s))"

section \<open>Reading\<close>

definition Stream_updateRecvWindow :: "stream \<Rightarrow> 'a link_scheme \<Rightarrow> int \<Rightarrow> stream \<times> 'a link_scheme" where
  "Stream_updateRecvWindow s l consumed =
     (if consumed > st_maxRecvWindow s sdiv 2 then
        (case Session_writeFrame l (NewWindowUpdateFrame (st_id s) (word_of_int consumed)) of
           (Some e, l) \<Rightarrow> (s, l)
         | (None, l) \<Rightarrow> (s\<lparr>st_recvWindow := add64 (st_recvWindow s) consumed\<rparr>, l))
      else (s, l))"

datatype read_result = ReadDone "byte list" "mux_err option" | ReadWait

text \<open>The loop of \<open>Read\<close>, up to its return or to the \<open>select\<close>.\<close>

definition Stream_Read_loop ::
    "stream \<Rightarrow> 'a link_scheme \<Rightarrow> nat \<Rightarrow> int \<Rightarrow> (read_result \<times> stream \<times> 'a link_scheme) res" where
  "Stream_Read_loop s l plen now =
     and_then (RingBuffer_Read (st_readBuf s) plen) (\<lambda>(bs, e, rb).
       let s = s\<lparr>st_readBuf := rb\<rparr> in
       Inr (if length bs > 0 then
              (let s = s\<lparr>st_bytesRead := add64 (st_bytesRead s) (int (length bs))\<rparr>;
                   s = Stream_updateActivity s now;
                   (s, l) = Stream_updateRecvWindow s l (int (length bs))
               in (ReadDone bs None, s, l))
            else case e of
              Some e \<Rightarrow> (ReadDone [] (Some (Buffer e)), s, l)
            | None \<Rightarrow> (ReadWait, s, l)))"

definition Stream_Read ::
    "stream \<Rightarrow> 'a link_scheme \<Rightarrow> nat \<Rightarrow> int \<Rightarrow> (read_result \<times> stream \<times> 'a link_scheme) res" where
  "Stream_Read s l plen now =
     (if st_readClosed s then Inr (ReadDone [] (Some StreamEOF), s, l)
      else Stream_Read_loop s l plen now)"

datatype wake = WakeNotify | WakeClose | WakeCtx

text \<open>How a parked \<open>Read\<close> goes on, by the case of the \<open>select\<close> that fires.\<close>

fun Stream_Read_resume ::
    "wake \<Rightarrow> stream \<Rightarrow> 'a link_scheme \<Rightarrow> nat \<Rightarrow> int \<Rightarrow> (read_result \<times> stream \<times> 'a link_scheme) res" where
  "Stream_Read_resume WakeNotify s l plen now = Stream_Read_loop (s\<lparr>st_readNotify := False\<rparr>) l plen now"
| "Stream_Read_resume WakeClose s l plen now = Inr (ReadDone [] (Some StreamEOF), s, l)"
| "Stream_Read_resume WakeCtx s l plen now = Inr (ReadDone [] (Some Canceled), s, l)"

section \<open>Writing\<close>

text \<open>
  A finished \<open>Write\<close> reports the bytes written and the error; a waiting one has written that
  many bytes and is parked until the send window is positive again.
\<close>

datatype write_result = WriteDone nat "mux_err option" | WriteWait nat

function Stream_Write_loop ::
    "stream \<Rightarrow> 'a link_scheme \<Rightarrow> byte list \<Rightarrow> nat \<Rightarrow> int \<Rightarrow> write_result \<times> stream \<times> 'a link_scheme" where
  "Stream_Write_loop s l rest written now =
     (if rest = [] then (WriteDone written None, s, l)
      else if st_sendWindow s \<le> 0 then (WriteWait written, s, l)
      else
        let chunkSize = (if int (length rest) > st_sendWindow s then nat (st_sendWindow s)
                         else length rest)
        in case Session_writeFrame l (NewDataFrame (st_id s) (Some (take chunkSize rest)) False) of
             (Some e, l) \<Rightarrow> (WriteDone written (Some e), s, l)
           | (None, l) \<Rightarrow>
               (let s = s\<lparr>st_sendWindow := sub64 (st_sendWindow s) (int chunkSize),
                          st_bytesWritten := add64 (st_bytesWritten s) (int chunkSize)\<rparr>
                in Stream_Write_loop (Stream_updateActivity s now) l (drop chunkSize rest)
                     (written + chunkSize) now))"
  by pat_completeness auto
termination
  by (relation "measure (\<lambda>(s, l, rest, written, now). length rest)") (auto split: if_splits)

declare Stream_Write_loop.simps [simp del]

definition Stream_Write ::
    "stream \<Rightarrow> 'a link_scheme \<Rightarrow> byte list \<Rightarrow> int \<Rightarrow> write_result \<times> stream \<times> 'a link_scheme" where
  "Stream_Write s l p now =
     (if st_writeClosed s then (WriteDone 0 (Some WriteSideClosed), s, l)
      else Stream_Write_loop s l p 0 now)"

text \<open>How a parked \<open>Write\<close> of the bytes \<open>rest\<close> goes on; \<open>closeNotify\<close> is not among its cases.\<close>

fun Stream_Write_resume ::
    "wake \<Rightarrow> stream \<Rightarrow> 'a link_scheme \<Rightarrow> byte list \<Rightarrow> nat \<Rightarrow> int \<Rightarrow> write_result \<times> stream \<times> 'a link_scheme" where
  "Stream_Write_resume WakeNotify s l rest written now =
     Stream_Write_loop (s\<lparr>st_writeNotify := False\<rparr>) l rest written now"
| "Stream_Write_resume WakeCtx s l rest written now = (WriteDone written (Some Canceled), s, l)"
| "Stream_Write_resume WakeClose s l rest written now = (WriteWait written, s, l)"

end
