(* ===== verification/Stream_Props.thy ===== *)
theory Stream_Props
  imports Stream
begin

text \<open>
  Correctness of the stream operations: the flow-control invariant over every reachable
  stream, what \<open>Read\<close> and \<open>Write\<close> do, the credit a default stream grants its peer over its
  whole life, and the ways in which closing goes wrong.
\<close>

section \<open>The stream invariant\<close>

text \<open>
  The receive window never promises more than \<open>maxRecvWindow\<close> less the bytes still buffered,
  the read buffer is well-formed, and the notification channel is closed only together with the
  read side.
\<close>

definition stream_inv :: "stream \<Rightarrow> bool" where
  "stream_inv s \<longleftrightarrow>
     ring_ok (st_readBuf s) \<and> ring_capacity (st_readBuf s) = 32 * 1024 \<and>
     0 \<le> st_recvWindow s \<and>
     st_recvWindow s + int (rb_size (st_readBuf s)) \<le> st_maxRecvWindow s \<and>
     st_maxRecvWindow s < 2 ^ 63 \<and>
     (st_closeNotify s \<longrightarrow> st_readClosed s)"

lemmas stream_op_defs =
  Stream_updateActivity_def Stream_notifyRead_def Stream_notifyWrite_def Stream_setState_def

lemma stream_inv_cong:
  "st_readBuf s' = st_readBuf s \<Longrightarrow> st_recvWindow s' = st_recvWindow s \<Longrightarrow>
   st_maxRecvWindow s' = st_maxRecvWindow s \<Longrightarrow>
   (st_closeNotify s' \<longrightarrow> st_readClosed s') = (st_closeNotify s \<longrightarrow> st_readClosed s) \<Longrightarrow>
   stream_inv s' = stream_inv s"
  by (simp add: stream_inv_def)

lemma NewStream_sel [simp]:
  "st_id (NewStream sid w now) = sid" "\<not> st_readClosed (NewStream sid w now)"
  "\<not> st_writeClosed (NewStream sid w now)" "st_sendWindow (NewStream sid w now) = w"
  "st_recvWindow (NewStream sid w now) = w" "st_maxRecvWindow (NewStream sid w now) = w"
  "\<not> st_closeNotify (NewStream sid w now)" "ring_content (st_readBuf (NewStream sid w now)) = []"
  "ring_ok (st_readBuf (NewStream sid w now))" "rb_size (st_readBuf (NewStream sid w now)) = 0"
  "ring_capacity (st_readBuf (NewStream sid w now)) = 32 * 1024"
  by (simp_all add: NewStream_def) (simp add: NewRingBuffer_def)

lemma NewStream_inv:
  "0 \<le> w \<Longrightarrow> w < 2 ^ 63 \<Longrightarrow> stream_inv (NewStream sid w now)"
  by (simp add: stream_inv_def)

lemma updateActivity_inv [simp]: "stream_inv (Stream_updateActivity s now) = stream_inv s"
  by (simp add: stream_inv_def stream_op_defs)

lemma notify_inv [simp]:
  "stream_inv (Stream_notifyRead s) = stream_inv s" "stream_inv (Stream_notifyWrite s) = stream_inv s"
  by (simp_all add: stream_inv_def stream_op_defs)

lemma setState_inv [simp]: "stream_inv (Stream_setState s x) = stream_inv s"
  by (simp add: stream_inv_def stream_op_defs)

lemma CloseRead_ok:
  assumes "stream_inv s"
  shows "\<exists>s'. Stream_CloseRead s = Inr s' \<and> stream_inv s' \<and> st_readClosed s' \<and>
           st_readBuf s' = st_readBuf s \<and> st_recvWindow s' = st_recvWindow s \<and> st_id s' = st_id s"
  using assms
  by (auto simp: Stream_CloseRead_def close_closeNotify_def stream_inv_def stream_op_defs)

lemma CloseWrite_inv:
  "Stream_CloseWrite s l = (e, s', l') \<Longrightarrow> stream_inv s \<Longrightarrow> stream_inv s'"
  by (auto simp: Stream_CloseWrite_def Let_def stream_inv_def stream_op_defs
      split: if_splits prod.splits option.splits)

lemma forceClose_inv: "Stream_forceClose s = Inr s' \<Longrightarrow> stream_inv s \<Longrightarrow> stream_inv s'"
  by (auto simp: Stream_forceClose_def Let_def close_closeNotify_def stream_inv_def stream_op_defs
      split: if_splits)

lemma Reset_inv: "Stream_Reset s l c = Inr (e, s', l') \<Longrightarrow> stream_inv s \<Longrightarrow> stream_inv s'"
  by (auto simp: Stream_Reset_def and_then_eq_Inr_iff dest: forceClose_inv
      split: prod.splits option.splits)

section \<open>DATA frames\<close>

text \<open>The effect of a DATA frame whose declared length is that of its payload.\<close>

lemma handleDataFrame_accept:
  assumes inv: "stream_inv s" and f: "wire_frame f"
    and fits: "rb_size (st_readBuf s) + length (payload_bytes f) \<le> 32 * 1024"
    and win: "int (length (payload_bytes f)) \<le> st_recvWindow s"
  shows "\<exists>s'. Stream_handleDataFrame s f = Inr (None, s') \<and> stream_inv s' \<and>
           ring_content (st_readBuf s') = ring_content (st_readBuf s) @ payload_bytes f \<and>
           st_recvWindow s' = st_recvWindow s - int (length (payload_bytes f)) \<and>
           st_id s' = st_id s \<and> st_maxRecvWindow s' = st_maxRecvWindow s \<and>
           st_readClosed s' = (st_readClosed s \<or> Frame_IsEndStream f)"
proof -
  let ?n = "length (payload_bytes f)"
  have len: "uint (f_Length f) = int ?n"
    using wire_frame_length [OF f] by (metis uint_nat)
  obtain rb where rb: "RingBuffer_Write (st_readBuf s) (payload_bytes f) = Inr (None, rb)"
    "ring_ok rb" "ring_content rb = ring_content (st_readBuf s) @ payload_bytes f"
    "ring_capacity rb = ring_capacity (st_readBuf s)"
    using RingBuffer_Write_fits [of "st_readBuf s" "payload_bytes f"] inv fits
    by (auto simp: stream_inv_def)
  have size: "rb_size rb = rb_size (st_readBuf s) + ?n"
    using rb(3) by (metis length_append length_ring_content)
  define s1 where "s1 = (if f_Length f > 0 then s\<lparr>st_readBuf := rb,
      st_recvWindow := st_recvWindow s - int ?n\<rparr> else s)"
  have empty: "\<not> f_Length f > 0 \<Longrightarrow> payload_bytes f = []"
    using wire_frame_Length_0 [OF f] by (auto simp: word_neq_0_conv)
  have s1: "stream_inv s1" "ring_content (st_readBuf s1) = ring_content (st_readBuf s) @ payload_bytes f"
    "st_recvWindow s1 = st_recvWindow s - int ?n" "st_id s1 = st_id s"
    "st_maxRecvWindow s1 = st_maxRecvWindow s" "st_readClosed s1 = st_readClosed s"
    using inv rb win size empty by (auto simp: s1_def stream_inv_def)
  have "Stream_handleDataFrame s f =
      and_then (if Frame_IsEndStream f then Stream_CloseRead s1 else Inr s1)
        (\<lambda>s. Inr (None, Stream_notifyRead s))"
    using rb(1) win inv by (simp add: Stream_handleDataFrame_def len s1_def stream_inv_def)
  moreover obtain s2 where "Stream_CloseRead s1 = Inr s2" "stream_inv s2" "st_readClosed s2"
    "st_readBuf s2 = st_readBuf s1" "st_recvWindow s2 = st_recvWindow s1" "st_id s2 = st_id s1"
    using CloseRead_ok [OF s1(1)] by blast
  moreover have "st_maxRecvWindow s2 = st_maxRecvWindow s1"
    using \<open>Stream_CloseRead s1 = Inr s2\<close>
    by (auto simp: Stream_CloseRead_def close_closeNotify_def stream_op_defs split: if_splits)
  ultimately show ?thesis
    using s1 by (auto simp: stream_op_defs stream_inv_def)
qed

lemma handleDataFrame_no_window:
  "wire_frame f \<Longrightarrow> st_recvWindow s < int (length (payload_bytes f)) \<Longrightarrow>
     Stream_handleDataFrame s f = Inr (Some RecvWindowExhausted, s)"
  using wire_frame_length [of f] by (simp add: Stream_handleDataFrame_def uint_nat)

lemma handleDataFrame_no_room:
  assumes "stream_inv s" and "wire_frame f"
    and "32 * 1024 < rb_size (st_readBuf s) + length (payload_bytes f)"
    and "int (length (payload_bytes f)) \<le> st_recvWindow s"
  shows "Stream_handleDataFrame s f = Inr (Some (Buffer BufferFull), s)"
proof -
  have "payload_bytes f \<noteq> []"
    using assms(1,3) by (auto simp: stream_inv_def ring_ok_def ring_capacity_def)
  then have "f_Length f > 0"
    using wire_frame_Length_0 [OF assms(2)] by (simp add: word_neq_0_conv)
  moreover have "RingBuffer_Write (st_readBuf s) (payload_bytes f) = Inr (Some BufferFull, st_readBuf s)"
    using assms(1,3) by (intro RingBuffer_Write_full) (auto simp: stream_inv_def)
  ultimately show ?thesis
    using assms(4) wire_frame_length [OF assms(2)] by (simp add: Stream_handleDataFrame_def uint_nat)
qed

text \<open>The three outcomes are exhaustive, so a DATA frame never panics and keeps the invariant.\<close>

lemma handleDataFrame_cases:
  assumes "stream_inv s" and "wire_frame f"
  obtains (accept) s' where "Stream_handleDataFrame s f = Inr (None, s')" "stream_inv s'"
      "int (length (payload_bytes f)) \<le> st_recvWindow s"
      "st_recvWindow s' = st_recvWindow s - int (length (payload_bytes f))"
      "st_maxRecvWindow s' = st_maxRecvWindow s"
    | (refuse) e where "Stream_handleDataFrame s f = Inr (Some e, s)"
  using handleDataFrame_accept [OF assms] handleDataFrame_no_room [OF assms]
    handleDataFrame_no_window [OF assms(2)]
  by (metis not_le)

lemma handleWindowUpdate_inv:
  "stream_inv s \<Longrightarrow> Stream_handleWindowUpdateFrame s f = Inr (e, s') \<Longrightarrow> stream_inv s'"
  by (auto simp: Stream_handleWindowUpdateFrame_def and_then_eq_Inr_iff stream_inv_def
      stream_op_defs split: if_splits)

lemma handleFrame_inv:
  assumes "Stream_handleFrame s f now = Inr (e, s')" and "stream_inv s" and "wire_frame f"
  shows "stream_inv s'"
proof -
  let ?s = "Stream_updateActivity s now"
  have inv: "stream_inv ?s" using assms(2) by simp
  consider (data) "f_Type f = FrameTypeData" | (window) "f_Type f = FrameTypeWindowUpdate"
    | (close) "f_Type f = FrameTypeStreamClose" | (reset) "f_Type f = FrameTypeStreamReset"
    | (other) "f_Type f \<notin> {FrameTypeData, FrameTypeWindowUpdate, FrameTypeStreamClose, FrameTypeStreamReset}"
    by blast
  then show ?thesis
  proof cases
    case data
    with assms(1) have "Stream_handleDataFrame ?s f = Inr (e, s')"
      by (simp add: Stream_handleFrame_def)
    with handleDataFrame_cases [OF inv assms(3)] inv show ?thesis
      by (metis Inr_inject prod.inject)
  next
    case window
    with assms(1) have "Stream_handleWindowUpdateFrame ?s f = Inr (e, s')"
      by (simp add: Stream_handleFrame_def)
    with inv show ?thesis by (rule handleWindowUpdate_inv)
  next
    case close
    with assms(1) CloseRead_ok [OF inv] show ?thesis
      by (auto simp: Stream_handleFrame_def Stream_handleStreamCloseFrame_def)
  next
    case reset
    with assms(1) inv show ?thesis
      by (auto simp: Stream_handleFrame_def Stream_handleStreamResetFrame_def and_then_eq_Inr_iff
          dest: forceClose_inv)
  next
    case other
    with assms(1) inv show ?thesis by (auto simp: Stream_handleFrame_def)
  qed
qed

section \<open>Reading\<close>

lemma updateRecvWindow_cases:
  obtains (sent) l' where "Stream_updateRecvWindow s l n = (s\<lparr>st_recvWindow := add64 (st_recvWindow s) n\<rparr>, l')"
      "n > st_maxRecvWindow s sdiv 2"
    | (kept) l' where "Stream_updateRecvWindow s l n = (s, l')"
proof (cases "n > st_maxRecvWindow s sdiv 2")
  case True
  obtain e l' where w: "Session_writeFrame l (NewWindowUpdateFrame (st_id s) (word_of_int n)) = (e, l')"
    by fastforce
  with True show ?thesis
    by (cases e) (auto simp: Stream_updateRecvWindow_def intro: sent kept)
next
  case False
  then show ?thesis by (auto simp: Stream_updateRecvWindow_def intro: kept)
qed

lemma Read_loop_spec:
  assumes inv: "stream_inv s"
  shows "\<exists>r s' l'. Stream_Read_loop s l plen now = Inr (r, s', l') \<and> stream_inv s' \<and>
           ring_content (st_readBuf s') = drop plen (ring_content (st_readBuf s)) \<and>
           (plen > 0 \<longrightarrow> r = (if ring_content (st_readBuf s) = [] then ReadDone [] (Some (Buffer BufferEmpty))
                            else ReadDone (take plen (ring_content (st_readBuf s))) None))"
proof -
  let ?c = "ring_content (st_readBuf s)"
  obtain rb where rb: "RingBuffer_Read (st_readBuf s) plen =
      Inr (take plen ?c, (if rb_size (st_readBuf s) = 0 then Some BufferEmpty else None), rb)"
    "ring_ok rb" "ring_content rb = drop plen ?c" "ring_capacity rb = ring_capacity (st_readBuf s)"
    using RingBuffer_Read_takes [of "st_readBuf s" plen] inv by (auto simp: stream_inv_def)
  have size: "rb_size rb = rb_size (st_readBuf s) - plen"
    using rb(3) by (metis length_drop length_ring_content)
  let ?k = "min (rb_size (st_readBuf s)) plen"
  have len: "length (take plen ?c) = ?k" by simp
  define s1 where "s1 = s\<lparr>st_readBuf := rb\<rparr>"
  have s1: "stream_inv s1"
    using inv rb(2,4) size by (auto simp: stream_inv_def s1_def)
  define s2 where "s2 = Stream_updateActivity (s1\<lparr>st_bytesRead := add64 (st_bytesRead s1) (int ?k)\<rparr>) now"
  have s2: "stream_inv s2" "st_readBuf s2 = rb"
    using s1 by (simp_all add: s2_def stream_inv_def stream_op_defs s1_def)
  obtain s3 l3 where up: "Stream_updateRecvWindow s2 l (int ?k) = (s3, l3)"
    by (cases "Stream_updateRecvWindow s2 l (int ?k)") auto
  have win: "0 \<le> st_recvWindow s" "st_recvWindow s + int (rb_size (st_readBuf s)) \<le> st_maxRecvWindow s"
    "st_maxRecvWindow s < 2 ^ 63"
    using inv by (auto simp: stream_inv_def)
  have "add64 (st_recvWindow s2) (int ?k) = st_recvWindow s + int ?k"
    using win by (subst wrap64_id) (auto simp: s2_def s1_def stream_op_defs)
  then have s3: "stream_inv s3 \<and> st_readBuf s3 = rb"
    using up s2 win size
    by (cases rule: updateRecvWindow_cases [of s2 l "int ?k"])
       (auto simp: stream_inv_def s2_def s1_def stream_op_defs)
  have "Stream_Read_loop s l plen now =
      Inr (if ?k > 0 then (ReadDone (take plen ?c) None, s3, l3)
           else if rb_size (st_readBuf s) = 0 then (ReadDone [] (Some (Buffer BufferEmpty)), s1, l)
           else (ReadWait, s1, l))"
    using up rb(1)
    by (simp add: Stream_Read_loop_def Let_def s1_def [symmetric] len s2_def ring_content_Nil_iff)
  then show ?thesis
    using s1 s3 rb(3) by (auto simp: s1_def ring_content_Nil_iff split: if_splits)
qed

text \<open>
  C7: reading with a non-empty slice from an open stream never panics and never parks. It takes
  the first bytes of the buffer, at most as many as the slice holds, and leaves the others; when
  the buffer is empty the call fails at once with the buffer's error, instead of waiting for
  data as the comment above the \<open>select\<close> says.
\<close>

theorem stream_read_spec:
  assumes "stream_inv s" and "\<not> st_readClosed s" and "plen > 0"
  shows "\<exists>s' l'. Stream_Read s l plen now =
       Inr (if ring_content (st_readBuf s) = [] then ReadDone [] (Some (Buffer BufferEmpty))
            else ReadDone (take plen (ring_content (st_readBuf s))) None, s', l') \<and>
     stream_inv s' \<and> ring_content (st_readBuf s') = drop plen (ring_content (st_readBuf s))"
  using Read_loop_spec [OF assms(1), of l plen now] assms(2,3) by (auto simp: Stream_Read_def)

definition default_link :: link where
  "default_link = \<lparr>ln_closed = False, ln_conn = \<lparr>c_out = [], c_room = None\<rparr>,
     ln_framesSent = 0, ln_bytesSent = 0\<rparr>"

theorem stream_read_spec_witness:
  "\<exists>s' l'. Stream_Read (NewStream 3 65536 0) default_link 5 0 =
     Inr (ReadDone [] (Some (Buffer BufferEmpty)), s', l') \<and> stream_inv s'"
  using stream_read_spec [of "NewStream 3 65536 0" 5 default_link 0]
  by (auto simp: NewStream_inv)

section \<open>Writing\<close>

lemma Session_writeFrame_healthy:
  "\<not> ln_closed l \<Longrightarrow> c_room (ln_conn l) = None \<Longrightarrow>
   \<exists>l'. Session_writeFrame l f = (None, l') \<and> \<not> ln_closed l' \<and> c_room (ln_conn l') = None \<and>
        c_out (ln_conn l') = c_out (ln_conn l) @ frame_bytes f"
  by (simp add: Session_writeFrame_def WriteFrame_healthy)

text \<open>
  The loop on a healthy connection: one DATA frame with as much as the window allows, then it is
  done or parked.
\<close>

lemma Write_loop_healthy:
  assumes "\<not> ln_closed l" and "c_room (ln_conn l) = None"
    and "0 \<le> st_sendWindow s" and "st_sendWindow s < 2 ^ 63" and "rest \<noteq> []"
  defines "n \<equiv> min (length rest) (nat (st_sendWindow s))"
  shows "\<exists>s' l'. Stream_Write_loop s l rest written now =
       (if n = length rest then WriteDone (written + n) None else WriteWait (written + n), s', l') \<and>
     st_sendWindow s' = st_sendWindow s - int n \<and> st_id s' = st_id s \<and>
     \<not> ln_closed l' \<and> c_room (ln_conn l') = None \<and>
     c_out (ln_conn l') = c_out (ln_conn l) @
       (if n = 0 then [] else frame_bytes (NewDataFrame (st_id s) (Some (take n rest)) False))"
proof (cases "st_sendWindow s = 0")
  case True
  with assms show ?thesis by (subst Stream_Write_loop.simps) (simp add: n_def)
next
  case False
  with assms(3) have pos: "\<not> st_sendWindow s \<le> 0" by simp
  have n: "(if int (length rest) > st_sendWindow s then nat (st_sendWindow s) else length rest) = n"
    "n > 0" "int n \<le> st_sendWindow s"
    using assms(5) pos by (auto simp: n_def)
  obtain l1 where l1: "Session_writeFrame l (NewDataFrame (st_id s) (Some (take n rest)) False) = (None, l1)"
    "\<not> ln_closed l1" "c_room (ln_conn l1) = None"
    "c_out (ln_conn l1) = c_out (ln_conn l) @ frame_bytes (NewDataFrame (st_id s) (Some (take n rest)) False)"
    using Session_writeFrame_healthy [OF assms(1,2)] by blast
  define s1 where "s1 = Stream_updateActivity (s\<lparr>st_sendWindow := sub64 (st_sendWindow s) (int n),
      st_bytesWritten := add64 (st_bytesWritten s) (int n)\<rparr>) now"
  have s1: "st_sendWindow s1 = st_sendWindow s - int n" "st_id s1 = st_id s"
    using n(3) assms(3,4) by (simp_all add: s1_def stream_op_defs)
  have "Stream_Write_loop s l rest written now = Stream_Write_loop s1 l1 (drop n rest) (written + n) now"
    using assms(5) pos l1(1) by (subst Stream_Write_loop.simps) (simp add: n(1) s1_def Let_def)
  also have "\<dots> = (if n = length rest then WriteDone (written + n) None else WriteWait (written + n), s1, l1)"
    using s1(1) n(2) by (subst Stream_Write_loop.simps) (auto simp: n_def split: if_splits)
  finally show ?thesis
    using l1 s1 n(2) by simp
qed

text \<open>
  A \<open>Write\<close> that is parked and woken by WINDOW_UPDATE frames, one after the other: \<open>incs\<close> are
  the increments the peer grants.
\<close>

fun write_run ::
    "stream \<Rightarrow> 'a link_scheme \<Rightarrow> byte list \<Rightarrow> nat \<Rightarrow> u32 list \<Rightarrow> int \<Rightarrow> write_result \<times> stream \<times> 'a link_scheme" where
  "write_run s l rest written [] now = Stream_Write_loop s l rest written now"
| "write_run s l rest written (inc # incs) now =
     (case Stream_Write_loop s l rest written now of
        (WriteWait w, s', l') \<Rightarrow>
          (case Stream_handleWindowUpdateFrame s' (NewWindowUpdateFrame (st_id s') inc) of
             Inr (None, s'') \<Rightarrow>
               write_run (s''\<lparr>st_writeNotify := False\<rparr>) l' (drop (w - written) rest) w incs now
           | _ \<Rightarrow> (WriteWait w, s', l'))
      | r \<Rightarrow> r)"

lemma handleWindowUpdate_credit:
  assumes "inc \<noteq> 0" and "0 \<le> st_sendWindow s" and "st_sendWindow s + uint inc < 2 ^ 63"
  shows "Stream_handleWindowUpdateFrame s (NewWindowUpdateFrame sid inc) =
     Inr (None, s\<lparr>st_sendWindow := st_sendWindow s + uint inc, st_writeNotify := True\<rparr>)"
proof -
  have "in_int64 (st_sendWindow s + uint inc)"
    using assms(2,3) uint_ge_0 [of inc] by linarith
  then have "add64 (st_sendWindow s) (uint inc) = st_sendWindow s + uint inc"
    by (rule wrap64_id)
  with assms(1) show ?thesis
    by (simp add: Stream_handleWindowUpdateFrame_def NewWindowUpdateFrame_increment stream_op_defs)
qed

definition chunk_bytes :: "stream_id \<Rightarrow> byte list list \<Rightarrow> byte list" where
  "chunk_bytes sid chunks = concat (map (\<lambda>c. frame_bytes (NewDataFrame sid (Some c) False)) chunks)"

lemma write_run_sends:
  assumes "\<not> ln_closed l" and "c_room (ln_conn l) = None"
    and "0 \<le> st_sendWindow s" and "st_sendWindow s + sum_list (map uint incs) < 2 ^ 63"
    and "\<forall>inc \<in> set incs. inc \<noteq> 0"
    and "int (length rest) \<le> st_sendWindow s + sum_list (map uint incs)"
  shows "\<exists>chunks s' l'. write_run s l rest written incs now =
       (WriteDone (written + length rest) None, s', l') \<and> concat chunks = rest \<and>
     c_out (ln_conn l') = c_out (ln_conn l) @ chunk_bytes (st_id s) chunks"
  using assms
proof (induction incs arbitrary: s l rest written)
  case Nil
  show ?case
  proof (cases "rest = []")
    case True
    then show ?thesis
      by (auto simp: Stream_Write_loop.simps chunk_bytes_def intro: exI [of _ "[]"])
  next
    case False
    with Nil.prems have "min (length rest) (nat (st_sendWindow s)) = length rest" by simp
    with Write_loop_healthy [OF Nil.prems(1-3) _ False, of written now] Nil.prems False show ?thesis
      by (auto simp: chunk_bytes_def intro!: exI [of _ "[rest]"])
  qed
next
  case (Cons inc incs)
  show ?case
  proof (cases "rest = []")
    case True
    then show ?thesis
      by (auto simp: Stream_Write_loop.simps chunk_bytes_def intro: exI [of _ "[]"])
  next
    case False
    define n where "n = min (length rest) (nat (st_sendWindow s))"
    have nonneg: "0 \<le> sum_list (map uint incs)"
      by (rule sum_list_nonneg) auto
    have small: "st_sendWindow s < 2 ^ 63"
      using Cons.prems(4) nonneg uint_ge_0 [of inc] unfolding list.map sum_list.Cons by linarith
    from Write_loop_healthy [OF Cons.prems(1-3) small False, of written now]
    obtain s1 l1 where w1: "Stream_Write_loop s l rest written now =
        (if n = length rest then WriteDone (written + n) None else WriteWait (written + n), s1, l1)"
      "st_sendWindow s1 = st_sendWindow s - int n" "st_id s1 = st_id s"
      "\<not> ln_closed l1" "c_room (ln_conn l1) = None"
      "c_out (ln_conn l1) = c_out (ln_conn l) @
        chunk_bytes (st_id s) (if n = 0 then [] else [take n rest])"
      unfolding n_def chunk_bytes_def by (auto split: if_splits)
    show ?thesis
    proof (cases "n = length rest")
      case True
      with w1 False show ?thesis by (auto intro!: exI [of _ "[rest]"])
    next
      case False': False
      then have n: "int n = st_sendWindow s" "n < length rest"
        using Cons.prems(3) by (auto simp: n_def)
      define s2 where "s2 = s1\<lparr>st_sendWindow := uint inc, st_writeNotify := False\<rparr>"
      have upd: "Stream_handleWindowUpdateFrame s1 (NewWindowUpdateFrame (st_id s1) inc) =
          Inr (None, s1\<lparr>st_sendWindow := uint inc, st_writeNotify := True\<rparr>)"
        using handleWindowUpdate_credit [of inc s1 "st_id s1"] Cons.prems w1(2) n(1) nonneg by simp
      have "write_run s l rest written (inc # incs) now =
          write_run s2 l1 (drop n rest) (written + n) incs now"
        using w1(1) False' upd by (simp add: s2_def)
      moreover have "\<exists>chunks s' l'. write_run s2 l1 (drop n rest) (written + n) incs now =
           (WriteDone (written + n + length (drop n rest)) None, s', l') \<and> concat chunks = drop n rest \<and>
         c_out (ln_conn l') = c_out (ln_conn l1) @ chunk_bytes (st_id s2) chunks"
        using Cons.prems n w1 by (intro Cons.IH) (auto simp: s2_def)
      then obtain chunks s' l' where
        "write_run s2 l1 (drop n rest) (written + n) incs now =
           (WriteDone (written + length rest) None, s', l')" "concat chunks = drop n rest"
        "c_out (ln_conn l') = c_out (ln_conn l1) @ chunk_bytes (st_id s) chunks"
        using n(2) w1(3) by (auto simp: s2_def)
      moreover have "concat ((if n = 0 then [] else [take n rest]) @ chunks) = rest"
        using \<open>concat chunks = drop n rest\<close> by auto
      ultimately show ?thesis
        using w1(6) by (intro exI [of _ "(if n = 0 then [] else [take n rest]) @ chunks"] exI)
          (auto simp: chunk_bytes_def)
    qed
  qed
qed



section \<open>Every reachable stream\<close>

text \<open>
  The states a stream can be in, from its creation with window \<open>w\<close>, through the operations of
  the session and of the application in any order.
\<close>

inductive stream_reachable :: "int \<Rightarrow> stream \<Rightarrow> bool" for w :: int where
  new: "stream_reachable w (Stream_setState (NewStream sid w now) StreamStateOpen)"
| frame: "stream_reachable w s \<Longrightarrow> wire_frame f \<Longrightarrow> Stream_handleFrame s f now = Inr (e, s') \<Longrightarrow>
    stream_reachable w s'"
| do_read: "stream_reachable w s \<Longrightarrow> Stream_Read s (l :: link) plen now = Inr (r, s', l') \<Longrightarrow>
    stream_reachable w s'"
| read_resume: "stream_reachable w s \<Longrightarrow>
    Stream_Read_resume wk s (l :: link) plen now = Inr (r, s', l') \<Longrightarrow> stream_reachable w s'"
| do_write: "stream_reachable w s \<Longrightarrow> Stream_Write s (l :: link) p now = (wr, s', l') \<Longrightarrow>
    stream_reachable w s'"
| write_resume: "stream_reachable w s \<Longrightarrow>
    Stream_Write_resume wk s (l :: link) rest written now = (wr, s', l') \<Longrightarrow> stream_reachable w s'"
| close: "stream_reachable w s \<Longrightarrow> Stream_Close s (l :: link) = (e, s', l') \<Longrightarrow> stream_reachable w s'"
| close_read: "stream_reachable w s \<Longrightarrow> Stream_CloseRead s = Inr s' \<Longrightarrow> stream_reachable w s'"
| reset: "stream_reachable w s \<Longrightarrow> Stream_Reset s (l :: link) c = Inr (e, s', l') \<Longrightarrow> stream_reachable w s'"

lemma Write_loop_frame:
  "Stream_Write_loop s l rest written now = (r, s', l') \<Longrightarrow>
     st_readBuf s' = st_readBuf s \<and> st_recvWindow s' = st_recvWindow s \<and>
     st_maxRecvWindow s' = st_maxRecvWindow s \<and> st_closeNotify s' = st_closeNotify s \<and>
     st_readClosed s' = st_readClosed s"
proof (induction s l rest written now rule: Stream_Write_loop.induct)
  case (1 s l rest written now)
  show ?case
  proof (cases "rest = [] \<or> st_sendWindow s \<le> 0")
    case True
    with "1.prems" show ?thesis
      by (subst (asm) Stream_Write_loop.simps) (auto split: if_splits)
  next
    case False
    define n where "n = (if int (length rest) > st_sendWindow s then nat (st_sendWindow s) else length rest)"
    obtain e l1 where w: "Session_writeFrame l (NewDataFrame (st_id s) (Some (take n rest)) False) = (e, l1)"
      by fastforce
    show ?thesis
    proof (cases e)
      case None
      from "1.prems" False w None have "Stream_Write_loop (Stream_updateActivity
          (s\<lparr>st_sendWindow := sub64 (st_sendWindow s) (int n),
             st_bytesWritten := add64 (st_bytesWritten s) (int n)\<rparr>) now) l1 (drop n rest) (written + n) now
          = (r, s', l')"
        by (subst (asm) Stream_Write_loop.simps) (simp add: Let_def n_def)
      with "1.IH" [OF _ _ n_def w [symmetric] None refl] False show ?thesis
        by (simp add: stream_op_defs)
    next
      case (Some x)
      with "1.prems" False w show ?thesis
        by (subst (asm) Stream_Write_loop.simps) (auto simp: Let_def n_def)
    qed
  qed
qed

lemma Write_loop_inv:
  "Stream_Write_loop s l rest written now = (r, s', l') \<Longrightarrow> stream_inv s' = stream_inv s"
  by (drule Write_loop_frame) (simp add: stream_inv_def)

lemma Read_loop_inv: "stream_inv s \<Longrightarrow> Stream_Read_loop s l plen now = Inr (r, s', l') \<Longrightarrow> stream_inv s'"
  using Read_loop_spec [of s l plen now] by auto

text \<open>
  C5: the flow-control invariant. In every state a stream can reach, the receive window is not
  negative, and window and buffered bytes together stay within the window the stream was created
  with; the read buffer holds at most its 32 KiB; the notification channel is closed only when the
  read side is.
\<close>

theorem reachable_stream_inv:
  assumes "0 \<le> w" and "w < 2 ^ 63" and "stream_reachable w s"
  shows "stream_inv s"
  using assms(3)
proof (induction rule: stream_reachable.induct)
  case (new sid now)
  then show ?case using NewStream_inv assms(1,2) by simp
next
  case (frame s f now e s')
  then show ?case by (blast intro: handleFrame_inv)
next
  case (do_read s l plen now r s' l')
  then show ?case by (auto simp: Stream_Read_def dest: Read_loop_inv split: if_splits)
next
  case (read_resume s wk l plen now r s' l')
  moreover have "stream_inv (s\<lparr>st_readNotify := False\<rparr>) = stream_inv s"
    by (simp add: stream_inv_def)
  ultimately show ?case by (cases wk) (auto dest: Read_loop_inv)
next
  case (do_write s l p now wr s' l')
  then show ?case by (auto simp: Stream_Write_def dest: Write_loop_inv split: if_splits)
next
  case (write_resume s wk l rest written now wr s' l')
  moreover have "stream_inv (s\<lparr>st_writeNotify := False\<rparr>) = stream_inv s"
    by (simp add: stream_inv_def)
  ultimately show ?case by (cases wk) (auto dest: Write_loop_inv)
next
  case (close s l e s' l')
  then show ?case by (auto simp: Stream_Close_def dest: CloseWrite_inv)
next
  case (close_read s s')
  then show ?case using CloseRead_ok by fastforce
next
  case (reset s l c e s' l')
  then show ?case by (blast intro: Reset_inv)
qed

theorem reachable_stream_inv_witness:
  "stream_inv (Stream_setState (NewStream 3 65536 0) StreamStateOpen)"
  by (rule reachable_stream_inv [of 65536]) (simp_all add: stream_reachable.new)

section \<open>The credit of a default stream\<close>

text \<open>
  A receiving stream between its peer and its application: DATA frames arrive and are read in
  any interleaving. The run adds up the payload bytes accepted.
\<close>

datatype recv_event = RecvData frame | AppRead nat

fun recv_run :: "stream \<Rightarrow> 'a link_scheme \<Rightarrow> recv_event list \<Rightarrow> int \<Rightarrow> (nat \<times> stream \<times> 'a link_scheme) res" where
  "recv_run s l [] now = Inr (0, s, l)"
| "recv_run s l (RecvData f # evs) now =
     and_then (Stream_handleDataFrame s f) (\<lambda>(e, s').
     and_then (recv_run s' l evs now) (\<lambda>(n, s'', l').
       Inr ((if e = None then length (payload_bytes f) else 0) + n, s'', l')))"
| "recv_run s l (AppRead plen # evs) now =
     and_then (Stream_Read s l plen now) (\<lambda>(r, s', l'). recv_run s' l' evs now)"

lemma Read_no_update:
  assumes inv: "stream_inv s" and big: "2 * (32 * 1024) \<le> st_maxRecvWindow s"
    and r: "Stream_Read s l plen now = Inr (r, s', l')"
  shows "l' = l \<and> st_recvWindow s' = st_recvWindow s \<and> st_maxRecvWindow s' = st_maxRecvWindow s"
proof (cases "st_readClosed s")
  case True
  with r show ?thesis by (simp add: Stream_Read_def)
next
  case False
  obtain bs e rb where rb: "RingBuffer_Read (st_readBuf s) plen = Inr (bs, e, rb)"
    "bs = take plen (ring_content (st_readBuf s))"
    using RingBuffer_Read_takes [of "st_readBuf s" plen] inv by (auto simp: stream_inv_def)
  have "length bs \<le> 32 * 1024"
    using inv rb(2) by (auto simp: stream_inv_def ring_ok_def ring_capacity_def)
  moreover have "32 * 1024 \<le> st_maxRecvWindow s sdiv 2"
    using big by (simp add: signed_divide_int_def)
  ultimately have "\<not> int (length bs) > st_maxRecvWindow s sdiv 2" by linarith
  with False r rb(1) show ?thesis
    by (auto simp: Stream_Read_def Stream_Read_loop_def Let_def Stream_updateRecvWindow_def
        stream_op_defs split: if_splits option.splits)
qed

lemma Read_inv: "stream_inv s \<Longrightarrow> Stream_Read s l plen now = Inr (r, s', l') \<Longrightarrow> stream_inv s'"
  by (auto simp: Stream_Read_def dest: Read_loop_inv split: if_splits)

lemma Read_total: "stream_inv s \<Longrightarrow> \<exists>r s' l'. Stream_Read s l plen now = Inr (r, s', l')"
  using Read_loop_spec [of s l plen now] by (auto simp: Stream_Read_def)

lemma recv_run_credit:
  assumes "stream_inv s" and "2 * (32 * 1024) \<le> st_maxRecvWindow s"
    and "\<forall>f. RecvData f \<in> set evs \<longrightarrow> wire_frame f"
  shows "\<exists>n s'. recv_run s l evs now = Inr (n, s', l) \<and> int n + st_recvWindow s' = st_recvWindow s \<and>
           0 \<le> st_recvWindow s'"
  using assms
proof (induction evs arbitrary: s)
  case Nil
  then show ?case by (simp add: stream_inv_def)
next
  case (Cons ev evs)
  show ?case
  proof (cases ev)
    case (RecvData f)
    with Cons.prems(3) have "wire_frame f" by simp
    from Cons.prems(1) this show ?thesis
    proof (cases rule: handleDataFrame_cases)
      case (accept s1)
      with Cons.prems obtain n s' where "recv_run s1 l evs now = Inr (n, s', l)"
        "int n + st_recvWindow s' = st_recvWindow s1" "0 \<le> st_recvWindow s'"
        using Cons.IH [of s1] by auto
      with accept show ?thesis by (simp add: RecvData)
    next
      case (refuse e)
      with Cons.prems obtain n s' where "recv_run s l evs now = Inr (n, s', l)"
        "int n + st_recvWindow s' = st_recvWindow s" "0 \<le> st_recvWindow s'"
        using Cons.IH [of s] by auto
      with refuse show ?thesis by (simp add: RecvData)
    qed
  next
    case (AppRead plen)
    obtain r s1 l1 where r: "Stream_Read s l plen now = Inr (r, s1, l1)"
      using Read_total [OF Cons.prems(1)] by blast
    from Read_no_update [OF Cons.prems(1,2) r] Read_inv [OF Cons.prems(1) r] Cons.prems(2,3)
    show ?thesis
      using Cons.IH [of s1] by (simp add: AppRead r)
  qed
qed

text \<open>
  With the window of \<open>DefaultSessionConfig\<close> (64 KiB), a stream never sends a WINDOW_UPDATE
  frame: one \<open>Read\<close> delivers at most the 32 KiB buffer, which is not more than half the window.
  Whatever the application reads, and however often, the peer can send 65536 bytes over the
  whole life of the stream and not one more.
\<close>

theorem default_stream_starves:
  assumes "\<forall>f. RecvData f \<in> set evs \<longrightarrow> wire_frame f"
  shows "\<exists>n s'. recv_run (NewStream sid 65536 t) l evs now = Inr (n, s', l) \<and> n \<le> 65536 \<and>
           int n = 65536 - st_recvWindow s'"
proof -
  have "stream_inv (NewStream sid 65536 t)" by (rule NewStream_inv) simp_all
  from recv_run_credit [OF this, of evs l now] assms show ?thesis by auto
qed

theorem default_stream_starves_witness:
  "\<exists>n s'. recv_run (NewStream 3 65536 0) default_link
       [RecvData (NewDataFrame 3 (Some [1, 2]) False), AppRead 10] 0 = Inr (n, s', default_link) \<and>
     n \<le> 65536 \<and> int n = 65536 - st_recvWindow s'"
  by (rule default_stream_starves)
     (simp add: wire_frame_def NewDataFrame_def NewFrame_def payload_bytes_def MaxFrameLength_def)

text \<open>
  The window promises more than the buffer holds. A fresh stream advertises 64 KiB, and a
  DATA frame within that window but larger than the 32 KiB buffer is refused with an error, which
  the session answers by closing.
\<close>

theorem window_exceeds_buffer:
  assumes "32 * 1024 < length p" and "length p \<le> 65536"
  shows "Stream_handleDataFrame (NewStream sid 65536 t) (NewDataFrame sid (Some p) False) =
           Inr (Some (Buffer BufferFull), NewStream sid 65536 t) \<and>
         st_recvWindow (NewStream sid 65536 t) \<ge> int (length p)"
proof -
  have f: "wire_frame (NewDataFrame sid (Some p) False)"
    "payload_bytes (NewDataFrame sid (Some p) False) = p"
    using assms by (simp_all add: wire_frame_def NewDataFrame_def NewFrame_def payload_bytes_def
        MaxFrameLength_def)
  moreover have "stream_inv (NewStream sid 65536 t)"
    by (rule NewStream_inv) simp_all
  ultimately show ?thesis
    using handleDataFrame_no_room [of "NewStream sid 65536 t" "NewDataFrame sid (Some p) False"] assms
    by simp
qed

theorem window_exceeds_buffer_witness:
  "Stream_handleDataFrame (NewStream 3 65536 0) (NewDataFrame 3 (Some (replicate 40000 0)) False) =
     Inr (Some (Buffer BufferFull), NewStream 3 65536 0)"
  using window_exceeds_buffer [of "replicate 40000 0" 3 0] by simp

section \<open>Closing\<close>

text \<open>
  The end of the peer's data discards what was not read yet. When a DATA frame with the
  end-of-stream flag is accepted, its bytes are in the buffer, but the next \<open>Read\<close> reports the
  end of the stream without delivering them.
\<close>

theorem end_stream_discards_data:
  assumes "stream_inv s" and "wire_frame (NewDataFrame sid (Some p) True)"
    and "rb_size (st_readBuf s) + length p \<le> 32 * 1024" and "int (length p) \<le> st_recvWindow s"
  shows "\<exists>s'. Stream_handleDataFrame s (NewDataFrame sid (Some p) True) = Inr (None, s') \<and>
           ring_content (st_readBuf s') = ring_content (st_readBuf s) @ p \<and>
           (\<forall>l plen now. Stream_Read s' l plen now = Inr (ReadDone [] (Some StreamEOF), s', l))"
proof -
  have "payload_bytes (NewDataFrame sid (Some p) True) = p"
    by (simp add: NewDataFrame_def NewFrame_def payload_bytes_def Let_def)
  with handleDataFrame_accept [OF assms(1,2)] assms(3,4) NewDataFrame_IsEndStream [of sid "Some p" True]
  show ?thesis by (auto simp: Stream_Read_def)
qed

theorem end_stream_discards_data_witness:
  "\<exists>s'. Stream_handleDataFrame (NewStream 3 65536 0) (NewDataFrame 3 (Some [7, 8]) True) = Inr (None, s') \<and>
     ring_content (st_readBuf s') = [7, 8] \<and>
     Stream_Read s' default_link 10 0 = Inr (ReadDone [] (Some StreamEOF), s', default_link)"
  using end_stream_discards_data [of "NewStream 3 65536 0" 3 "[7, 8]"]
  by (auto simp: NewStream_inv wire_frame_def NewDataFrame_def NewFrame_def payload_bytes_def
      MaxFrameLength_def)

lemma forceClose_panics: "st_closeNotify s \<Longrightarrow> Stream_forceClose s = Inl CloseOfClosedChannel"
  by (simp add: Stream_forceClose_def close_closeNotify_def stream_op_defs Let_def)

lemma forceClose_total: "\<not> st_closeNotify s \<Longrightarrow> \<exists>s'. Stream_forceClose s = Inr s'"
  by (simp add: Stream_forceClose_def close_closeNotify_def stream_op_defs Let_def)

text \<open>
  The notification channel is closed twice. After the peer has closed its side of a stream
  with a STREAM_CLOSE frame, its STREAM_RESET frame makes \<open>forceClose\<close> close the channel again,
  which panics; a second STREAM_CLOSE alone is harmless.
\<close>

theorem close_then_reset_panics:
  assumes "\<not> st_readClosed s" and "\<not> st_closeNotify s" and "Frame_Validate g = Inr None"
  shows "\<exists>s'. Stream_handleStreamCloseFrame s f = Inr (None, s') \<and>
           Stream_handleStreamCloseFrame s' f = Inr (None, s') \<and>
           Stream_handleStreamResetFrame s' g = Inl CloseOfClosedChannel"
proof -
  define s' where "s' = Stream_notifyRead (s\<lparr>st_readClosed := True, st_closeNotify := True\<rparr>)"
  have "Stream_handleStreamCloseFrame s f = Inr (None, s')"
    using assms by (simp add: Stream_handleStreamCloseFrame_def Stream_CloseRead_def
        close_closeNotify_def s'_def)
  moreover have "Stream_handleStreamCloseFrame s' f = Inr (None, s')"
    by (simp add: Stream_handleStreamCloseFrame_def Stream_CloseRead_def s'_def stream_op_defs)
  moreover have "Stream_handleStreamResetFrame s' g = Inl CloseOfClosedChannel"
    using Frame_GetErrorCode_total [OF assms(3)] forceClose_panics [of s']
    by (auto simp: Stream_handleStreamResetFrame_def s'_def stream_op_defs)
  ultimately show ?thesis by blast
qed

theorem close_then_reset_panics_witness:
  "\<exists>s'. Stream_handleStreamCloseFrame (NewStream 3 65536 0) (NewStreamCloseFrame 3) = Inr (None, s') \<and>
     Stream_handleStreamResetFrame s' (NewStreamResetFrame 3 8) = Inl CloseOfClosedChannel"
  using close_then_reset_panics [of "NewStream 3 65536 0" "NewStreamResetFrame 3 8" "NewStreamCloseFrame 3"]
    NewStreamResetFrame_valid [of 3 8]
  by (auto simp: MaxStreamID_def)

end
