(* ===== verification/Session.thy ===== *)
theory Session
  imports Stream_Props
begin

text \<open>
  The multiplexing session (\<open>client/internal/multiplex/session.go\<close>). Streams are objects in a
  store and the session's table maps stream ids to their addresses, because the application
  keeps its pointer to a stream after the session has dropped the id. The connection's incoming
  side is an argument of the read loop; its outgoing side is part of the \<open>link\<close> the session
  extends. A call that parks (on the accept channel or on the wait group) yields a blocked
  result.
\<close>

section \<open>Configuration and state\<close>

text \<open>Durations are in nanoseconds.\<close>

record session_config =
  cfg_InitialWindowSize :: int
  cfg_MaxFrameSize :: u32
  cfg_MaxConcurrentStreams :: u32
  cfg_StreamIdleTimeout :: int
  cfg_PingInterval :: int
  cfg_PingTimeout :: int
  cfg_EnableFlowControl :: bool

definition DefaultSessionConfig :: session_config where
  "DefaultSessionConfig =
     \<lparr>cfg_InitialWindowSize = 65536, cfg_MaxFrameSize = 1024 * 1024,
      cfg_MaxConcurrentStreams = 1000, cfg_StreamIdleTimeout = 5 * 60 * 10 ^ 9,
      cfg_PingInterval = 30 * 10 ^ 9, cfg_PingTimeout = 10 * 10 ^ 9,
      cfg_EnableFlowControl = True\<rparr>"

record session = link +
  se_config :: session_config
  se_store :: "stream list"
  se_streams :: "(stream_id \<times> nat) list"
  se_nextStreamID :: u32
  se_isClient :: bool
  se_connectionSendWindow :: int
  se_connectionRecvWindow :: int
  se_closeReason :: "u32 option"
  se_canceled :: bool
  se_wg :: nat
  se_acceptCh :: "nat list"
  se_pongCh :: "byte list option list"
  se_streamsCreated :: int
  se_streamsClosed :: int
  se_framesReceived :: int
  se_bytesReceived :: int
  se_pingsSent :: int
  se_pongsReceived :: int

definition NewSession :: "conn \<Rightarrow> session_config option \<Rightarrow> bool \<Rightarrow> session" where
  "NewSession conn config isClient =
     (let config = (case config of None \<Rightarrow> DefaultSessionConfig | Some c \<Rightarrow> c) in
      \<lparr>ln_closed = False, ln_conn = conn, ln_framesSent = 0, ln_bytesSent = 0,
       se_config = config, se_store = [], se_streams = [],
       se_nextStreamID = (if isClient then 1 else 2), se_isClient = isClient,
       se_connectionSendWindow = cfg_InitialWindowSize config,
       se_connectionRecvWindow = cfg_InitialWindowSize config,
       se_closeReason = None, se_canceled = False, se_wg = 0, se_acceptCh = [], se_pongCh = [],
       se_streamsCreated = 0, se_streamsClosed = 0, se_framesReceived = 0, se_bytesReceived = 0,
       se_pingsSent = 0, se_pongsReceived = 0\<rparr>)"

text \<open>\<open>Start\<close> adds the three background loops to the wait group.\<close>

definition Session_Start :: "session \<Rightarrow> session" where
  "Session_Start s = s\<lparr>se_wg := se_wg s + 3\<rparr>"

text \<open>
  What a step takes from outside: the clock (Unix seconds), which ready case a \<open>select\<close> picks
  when the session's context is done too, and the order in which a \<open>range\<close> loop visits the
  stream table.
\<close>

record env =
  en_now :: int
  en_pickCtx :: bool
  en_order :: "(stream_id \<times> nat) list \<Rightarrow> stream_id list"

abbreviation put_stream :: "session \<Rightarrow> nat \<Rightarrow> stream \<Rightarrow> session" where
  "put_stream s a st \<equiv> s\<lparr>se_store := (se_store s)[a := st]\<rparr>"

section \<open>Stream ids\<close>

function Session_generateStreamID :: "bool \<Rightarrow> u32 \<Rightarrow> stream_id \<times> u32" where
  "Session_generateStreamID isClient nextStreamID =
     (let sid = nextStreamID + 2 in
      if sid \<le> MaxStreamID then (sid, sid)
      else Session_generateStreamID isClient (if isClient then 1 else 2))"
  by pat_completeness auto
termination
  by (relation "measure (\<lambda>(c, n). if n + 2 \<le> MaxStreamID then 0 else 1)")
     (auto simp: MaxStreamID_def)

declare Session_generateStreamID.simps [simp del]

definition Session_isValidStreamID :: "session \<Rightarrow> stream_id \<Rightarrow> bool" where
  "Session_isValidStreamID s streamID =
     (if streamID = 0 \<or> streamID > MaxStreamID then False
      else let isOdd = (streamID mod 2 = 1) in se_isClient s \<noteq> isOdd)"

definition Session_getLastStreamID :: "session \<Rightarrow> stream_id" where
  "Session_getLastStreamID s = fold max (keys_of (se_streams s)) 0"

definition Session_GetStream :: "session \<Rightarrow> stream_id \<Rightarrow> nat option" where
  "Session_GetStream s streamID = map_of (se_streams s) streamID"

section \<open>Removing and closing\<close>

definition Session_removeStream :: "session \<Rightarrow> stream_id \<Rightarrow> session res" where
  "Session_removeStream s streamID =
     (case map_of (se_streams s) streamID of
        None \<Rightarrow> Inr s
      | Some a \<Rightarrow>
          and_then (Stream_forceClose (se_store s ! a)) (\<lambda>st.
            Inr ((put_stream s a st)\<lparr>se_streams := AList.delete streamID (se_streams s),
                   se_streamsClosed := add64 (se_streamsClosed s) 1\<rparr>)))"

fun closeAllStreams_loop :: "stream_id list \<Rightarrow> session \<Rightarrow> session res" where
  "closeAllStreams_loop [] s = Inr s"
| "closeAllStreams_loop (i # ids) s =
     and_then (Session_removeStream s i) (closeAllStreams_loop ids)"

definition Session_closeAllStreams :: "env \<Rightarrow> session \<Rightarrow> session res" where
  "Session_closeAllStreams env s = closeAllStreams_loop (en_order env (se_streams s)) s"

datatype close_result = CloseReturned | CloseBlocked

text \<open>
  The GO_AWAY frame goes through \<open>writeFrame\<close>, whose result is dropped. The last thing the
  method does is wait for the background loops.
\<close>

definition Session_CloseWithError :: "env \<Rightarrow> session \<Rightarrow> u32 \<Rightarrow> (close_result \<times> session) res" where
  "Session_CloseWithError env s errorCode =
     (if ln_closed s then Inr (CloseReturned, s)
      else let s = s\<lparr>ln_closed := True, se_closeReason := Some errorCode\<rparr>;
               s = snd (Session_writeFrame s (NewGoAwayFrame (Session_getLastStreamID s) errorCode []));
               s = s\<lparr>se_canceled := True\<rparr>
           in and_then (Session_closeAllStreams env s) (\<lambda>s.
                Inr (if se_wg s = 0 then CloseReturned else CloseBlocked,
                     s\<lparr>ln_conn := conn_Close (ln_conn s)\<rparr>)))"

definition Session_Close :: "env \<Rightarrow> session \<Rightarrow> (close_result \<times> session) res" where
  "Session_Close env s = Session_CloseWithError env s ErrorCodeNoError"

section \<open>Opening and accepting\<close>

definition alloc_stream :: "session \<Rightarrow> stream_id \<Rightarrow> byte \<Rightarrow> int \<Rightarrow> session" where
  "alloc_stream s streamID priority now =
     (let st = NewStream streamID (cfg_InitialWindowSize (se_config s)) now;
          st = st\<lparr>st_priority := priority\<rparr>;
          st = Stream_setState st StreamStateOpen
      in s\<lparr>se_store := se_store s @ [st],
           se_streams := AList.update streamID (length (se_store s)) (se_streams s)\<rparr>)"

definition Session_OpenStreamWithPriority ::
    "env \<Rightarrow> session \<Rightarrow> byte \<Rightarrow> ((mux_err + nat) \<times> session) res" where
  "Session_OpenStreamWithPriority env s priority =
     (if ln_closed s then Inr (Inl SessionClosed, s)
      else if length (se_streams s) \<ge> unat (cfg_MaxConcurrentStreams (se_config s)) then
        Inr (Inl TooManyStreams, s)
      else let (streamID, next) = Session_generateStreamID (se_isClient s) (se_nextStreamID s);
               a = length (se_store s);
               s = alloc_stream (s\<lparr>se_nextStreamID := next\<rparr>) streamID priority (en_now env)
           in case Session_writeFrame s (NewStreamOpenFrame streamID priority) of
                (Some e, s) \<Rightarrow> and_then (Session_removeStream s streamID) (\<lambda>s. Inr (Inl e, s))
              | (None, s) \<Rightarrow> Inr (Inr a, s\<lparr>se_streamsCreated := add64 (se_streamsCreated s) 1\<rparr>))"

definition Session_OpenStream :: "env \<Rightarrow> session \<Rightarrow> ((mux_err + nat) \<times> session) res" where
  "Session_OpenStream env s = Session_OpenStreamWithPriority env s 0"

datatype accept_result = Accepted nat | AcceptErr mux_err | AcceptWait

definition Session_AcceptStream :: "env \<Rightarrow> session \<Rightarrow> accept_result \<times> session" where
  "Session_AcceptStream env s =
     (case se_acceptCh s of
        a # rest \<Rightarrow>
          (if se_canceled s \<and> en_pickCtx env then (AcceptErr Canceled, s)
           else (Accepted a, s\<lparr>se_acceptCh := rest\<rparr>))
      | [] \<Rightarrow> if se_canceled s then (AcceptErr Canceled, s) else (AcceptWait, s))"

text \<open>With a timeout, the parked call ends with an error of its own.\<close>

definition Session_AcceptStreamWithTimeout :: "env \<Rightarrow> session \<Rightarrow> accept_result \<times> session" where
  "Session_AcceptStreamWithTimeout env s =
     (case Session_AcceptStream env s of
        (AcceptWait, s) \<Rightarrow> (AcceptErr AcceptTimeout, s)
      | r \<Rightarrow> r)"

definition Session_Ping :: "session \<Rightarrow> byte list option \<Rightarrow> mux_err option \<times> session" where
  "Session_Ping s data =
     Session_writeFrame (s\<lparr>se_pingsSent := add64 (se_pingsSent s) 1\<rparr>) (NewPingFrame data False)"

section \<open>Incoming frames\<close>

datatype handle_result = Handled "mux_err option" | HandleBlocked

definition Session_handleStreamFrame :: "env \<Rightarrow> session \<Rightarrow> frame \<Rightarrow> (handle_result \<times> session) res" where
  "Session_handleStreamFrame env s frame =
     (case Session_GetStream s (f_StreamID frame) of
        None \<Rightarrow> Inr (Handled None, s)
      | Some a \<Rightarrow>
          and_then (Stream_handleFrame (se_store s ! a) frame (en_now env)) (\<lambda>(e, st).
            Inr (Handled e, put_stream s a st)))"

text \<open>The accept channel has room for 32 streams; a full channel parks the read loop.\<close>

definition Session_handleStreamOpenFrame :: "env \<Rightarrow> session \<Rightarrow> frame \<Rightarrow> handle_result \<times> session" where
  "Session_handleStreamOpenFrame env s frame =
     (let streamID = f_StreamID frame in
      if \<not> Session_isValidStreamID s streamID then
        (case Session_writeFrame s (NewStreamResetFrame streamID ErrorCodeProtocolError) of
           (e, s) \<Rightarrow> (Handled e, s))
      else if length (se_streams s) \<ge> unat (cfg_MaxConcurrentStreams (se_config s)) then
        (case Session_writeFrame s (NewStreamResetFrame streamID ErrorCodeRefusedStream) of
           (e, s) \<Rightarrow> (Handled e, s))
      else
        let a = length (se_store s);
            s = alloc_stream s streamID (Frame_GetPriority frame) (en_now env);
            s = s\<lparr>se_streamsCreated := add64 (se_streamsCreated s) 1\<rparr>
        in if length (se_acceptCh s) < 32 \<and> \<not> (se_canceled s \<and> en_pickCtx env) then
             (Handled None, s\<lparr>se_acceptCh := se_acceptCh s @ [a]\<rparr>)
           else if se_canceled s then (Handled (Some Canceled), s)
           else (HandleBlocked, s))"

definition push_pong :: "session \<Rightarrow> byte list option \<Rightarrow> session" where
  "push_pong s p = (if length (se_pongCh s) < 8 then s\<lparr>se_pongCh := se_pongCh s @ [p]\<rparr> else s)"

definition Session_handlePingFrame :: "session \<Rightarrow> frame \<Rightarrow> handle_result \<times> session" where
  "Session_handlePingFrame s frame =
     (if Frame_IsAck frame then (Handled None, push_pong s (f_Payload frame))
      else case Session_writeFrame s (NewPongFrame (f_Payload frame)) of (e, s) \<Rightarrow> (Handled e, s))"

definition Session_handlePongFrame :: "session \<Rightarrow> frame \<Rightarrow> handle_result \<times> session" where
  "Session_handlePongFrame s frame =
     (Handled None,
      push_pong (s\<lparr>se_pongsReceived := add64 (se_pongsReceived s) 1\<rparr>) (f_Payload frame))"

definition Session_handleGoAwayFrame :: "env \<Rightarrow> session \<Rightarrow> frame \<Rightarrow> (handle_result \<times> session) res" where
  "Session_handleGoAwayFrame env s frame =
     and_then (Frame_GetLastStreamID frame) (\<lambda>lastStreamID.
     and_then (Frame_GetErrorCode frame) (\<lambda>errorCode.
     and_then (Session_CloseWithError env s errorCode) (\<lambda>(r, s).
       Inr (case r of CloseReturned \<Rightarrow> Handled None | CloseBlocked \<Rightarrow> HandleBlocked, s))))"

definition Session_handleSettingsFrame :: "session \<Rightarrow> frame \<Rightarrow> handle_result \<times> session" where
  "Session_handleSettingsFrame s frame = (Handled None, s)"

definition Session_handleFrame :: "env \<Rightarrow> session \<Rightarrow> frame \<Rightarrow> (handle_result \<times> session) res" where
  "Session_handleFrame env s frame =
     and_then (Frame_Validate frame) (\<lambda>e. case e of
        Some e \<Rightarrow> Inr (Handled (Some (InvalidFrame e)), s)
      | None \<Rightarrow>
          if f_Type frame \<in> {FrameTypeData, FrameTypeWindowUpdate, FrameTypeStreamClose,
                              FrameTypeStreamReset} then Session_handleStreamFrame env s frame
          else if f_Type frame = FrameTypeStreamOpen then Inr (Session_handleStreamOpenFrame env s frame)
          else if f_Type frame = FrameTypePing then Inr (Session_handlePingFrame s frame)
          else if f_Type frame = FrameTypePong then Inr (Session_handlePongFrame s frame)
          else if f_Type frame = FrameTypeGoAway then Session_handleGoAwayFrame env s frame
          else if f_Type frame = FrameTypeSettings then Inr (Session_handleSettingsFrame s frame)
          else Inr (Handled None, s))"

section \<open>The read loop\<close>

lemma ReadFrame_shorter:
  "FrameReader_ReadFrame r = (f, r', None) \<Longrightarrow> length (rd_bytes r') < length (rd_bytes r)"
  by (auto simp: FrameReader_ReadFrame_def Frame_ReadFrom_def ReadFull_def FrameHeaderLength_def
      Let_def split: prod.splits if_splits sum.splits)

text \<open>
  How the read loop ends: it left the loop, it is parked for ever in a handler, or it is parked
  in the close it started itself. \<open>k\<close> counts the iterations, each with its own environment.
\<close>

datatype loop_end = LoopLeft | LoopParked | LoopCloseParked

function Session_readLoop :: "(nat \<Rightarrow> env) \<Rightarrow> nat \<Rightarrow> reader \<Rightarrow> session \<Rightarrow> (loop_end \<times> session) res" where
  "Session_readLoop env k r s =
     (if se_canceled s then Inr (LoopLeft, s)
      else case FrameReader_ReadFrame r of
        (frame, r', Some e) \<Rightarrow>
          (if e \<noteq> IOErr EOF \<and> \<not> ln_closed s then
             and_then (Session_CloseWithError (env k) s ErrorCodeProtocolError) (\<lambda>(c, s).
               Inr (if c = CloseReturned then LoopLeft else LoopCloseParked, s))
           else Inr (LoopLeft, s))
      | (frame, r', None) \<Rightarrow>
          (let s = s\<lparr>se_framesReceived := add64 (se_framesReceived s) 1,
                     se_bytesReceived := add64 (se_bytesReceived s) (uint (f_Length frame + 10))\<rparr>
           in case Session_handleFrame (env k) s frame of
                Inl p \<Rightarrow> Inl p
              | Inr (HandleBlocked, s) \<Rightarrow> Inr (LoopParked, s)
              | Inr (Handled (Some e), s) \<Rightarrow>
                  and_then (Session_CloseWithError (env k) s ErrorCodeProtocolError) (\<lambda>(c, s).
                    Inr (if c = CloseReturned then LoopLeft else LoopCloseParked, s))
              | Inr (Handled None, s) \<Rightarrow> Session_readLoop env (Suc k) r' s))"
  by pat_completeness auto
termination
  by (relation "measure (\<lambda>(env, k, r, s). length (rd_bytes r))") (auto dest!: ReadFrame_shorter [OF sym])

declare Session_readLoop.simps [simp del]

section \<open>Idle streams\<close>

fun cleanup_loop :: "stream_id list \<Rightarrow> session \<Rightarrow> session res" where
  "cleanup_loop [] s = Inr s"
| "cleanup_loop (i # ids) s =
     (case map_of (se_streams s) i of
        None \<Rightarrow> Inl NilDereference
      | Some a \<Rightarrow>
          and_then (Stream_Reset (se_store s ! a) s ErrorCodeCancel) (\<lambda>(e, st, s).
            cleanup_loop ids ((put_stream s a st)\<lparr>se_streams := AList.delete i (se_streams s),
              se_streamsClosed := add64 (se_streamsClosed s) 1\<rparr>)))"

definition Session_cleanupIdleStreams :: "env \<Rightarrow> session \<Rightarrow> session res" where
  "Session_cleanupIdleStreams env s =
     (let timeout = cfg_StreamIdleTimeout (se_config s) sdiv 10 ^ 9;
          toRemove = filter (\<lambda>i. case map_of (se_streams s) i of
              None \<Rightarrow> False
            | Some a \<Rightarrow> sub64 (en_now env) (st_lastActivity (se_store s ! a)) > timeout)
            (en_order env (se_streams s))
      in cleanup_loop toRemove s)"

end
