(* ===== verification/Session_Props.thy ===== *)
theory Session_Props
  imports Session
begin

text \<open>
  Correctness of the session: the consistency of the stream table over all operations, the
  disjointness of the two peers' stream ids, what closing does, and the transfer of written bytes
  from one session through the wire format into the read buffer of the other.
\<close>

section \<open>Stream operations keep the id\<close>

lemma CloseRead_id: "Stream_CloseRead s = Inr s' \<Longrightarrow> st_id s' = st_id s"
  by (auto simp: Stream_CloseRead_def close_closeNotify_def stream_op_defs split: if_splits)

lemma forceClose_id: "Stream_forceClose s = Inr s' \<Longrightarrow> st_id s' = st_id s"
  by (auto simp: Stream_forceClose_def close_closeNotify_def stream_op_defs Let_def split: if_splits)

lemma CloseWrite_id: "Stream_CloseWrite s l = (e, s', l') \<Longrightarrow> st_id s' = st_id s"
  by (auto simp: Stream_CloseWrite_def stream_op_defs Let_def split: if_splits prod.splits option.splits)

lemma Reset_id: "Stream_Reset s l c = Inr (e, s', l') \<Longrightarrow> st_id s' = st_id s"
  by (auto simp: Stream_Reset_def and_then_eq_Inr_iff dest: forceClose_id split: prod.splits option.splits)

lemma handleFrame_id:
  assumes "Stream_handleFrame s f now = Inr (e, s')"
  shows "st_id s' = st_id s"
  using assms
  by (auto simp: Stream_handleFrame_def Let_def Stream_handleDataFrame_def Stream_handleWindowUpdateFrame_def
      Stream_handleStreamCloseFrame_def Stream_handleStreamResetFrame_def and_then_eq_Inr_iff stream_op_defs
      dest!: CloseRead_id forceClose_id split: if_splits option.splits)

lemma Read_id: "Stream_Read s l plen now = Inr (r, s', l') \<Longrightarrow> st_id s' = st_id s"
  by (cases rule: updateRecvWindow_cases [of
        "Stream_updateActivity (s\<lparr>st_readBuf := rb, st_bytesRead := x\<rparr>) now" l n for rb x n])
     (auto simp: Stream_Read_def Stream_Read_loop_def Let_def Stream_updateRecvWindow_def stream_op_defs
      and_then_eq_Inr_iff split: if_splits option.splits prod.splits)

lemma Write_loop_id: "Stream_Write_loop s l rest written now = (r, s', l') \<Longrightarrow> st_id s' = st_id s"
proof (induction s l rest written now rule: Stream_Write_loop.induct)
  case (1 s l rest written now)
  define n where "n = (if int (length rest) > st_sendWindow s then nat (st_sendWindow s) else length rest)"
  obtain e l1 where w: "Session_writeFrame l (NewDataFrame (st_id s) (Some (take n rest)) False) = (e, l1)"
    by fastforce
  show ?case
  proof (cases "rest = [] \<or> st_sendWindow s \<le> 0 \<or> e \<noteq> None")
    case True
    with "1.prems" w show ?thesis
      by (subst (asm) Stream_Write_loop.simps) (auto simp: Let_def n_def split: if_splits)
  next
    case False
    with "1.prems" w have "Stream_Write_loop (Stream_updateActivity
          (s\<lparr>st_sendWindow := sub64 (st_sendWindow s) (int n),
             st_bytesWritten := add64 (st_bytesWritten s) (int n)\<rparr>) now) l1 (drop n rest) (written + n) now
          = (r, s', l')"
      by (subst (asm) Stream_Write_loop.simps) (simp add: Let_def n_def)
    with "1.IH" [OF _ _ n_def w [symmetric] _ refl] False show ?thesis
      by (simp add: stream_op_defs)
  qed
qed

lemma Write_id: "Stream_Write s l p now = (r, s', l') \<Longrightarrow> st_id s' = st_id s"
  by (auto simp: Stream_Write_def dest: Write_loop_id split: if_splits)

section \<open>What the link operations leave alone\<close>

lemma writeFrame_session [simp]:
  "se_store (snd (Session_writeFrame s f)) = se_store s"
  "se_streams (snd (Session_writeFrame s f)) = se_streams s"
  "se_config (snd (Session_writeFrame s f)) = se_config s"
  "se_nextStreamID (snd (Session_writeFrame s f)) = se_nextStreamID s"
  "se_isClient (snd (Session_writeFrame s f)) = se_isClient s"
  by (simp_all add: Session_writeFrame_def split: prod.splits option.splits)

definition same_table :: "session \<Rightarrow> session \<Rightarrow> bool" where
  "same_table s s' \<longleftrightarrow>
     se_store s' = se_store s \<and> se_streams s' = se_streams s \<and> se_config s' = se_config s \<and>
     se_nextStreamID s' = se_nextStreamID s \<and> se_isClient s' = se_isClient s"

lemma same_table_refl [simp]: "same_table s s"
  by (simp add: same_table_def)

lemma same_table_trans: "same_table a b \<Longrightarrow> same_table b c \<Longrightarrow> same_table a c"
  by (simp add: same_table_def)

lemma writeFrame_same: "Session_writeFrame s f = (e, s') \<Longrightarrow> same_table s s'"
  using writeFrame_session [of s f] by (simp add: same_table_def)

lemma CloseWrite_same: "Stream_CloseWrite st s = (e, st', s') \<Longrightarrow> same_table s s'"
  by (auto simp: Stream_CloseWrite_def Let_def dest: writeFrame_same
      split: if_splits prod.splits option.splits)

lemma Reset_same: "Stream_Reset st s c = Inr (e, st', s') \<Longrightarrow> same_table s s'"
  by (auto simp: Stream_Reset_def and_then_eq_Inr_iff dest: writeFrame_same
      split: prod.splits option.splits)

lemma updateRecvWindow_same: "Stream_updateRecvWindow st s n = (st', s') \<Longrightarrow> same_table s s'"
  by (auto simp: Stream_updateRecvWindow_def dest: writeFrame_same
      split: if_splits prod.splits option.splits)

lemma Read_same: "Stream_Read st s plen now = Inr (r, st', s') \<Longrightarrow> same_table s s'"
  by (auto simp: Stream_Read_def Stream_Read_loop_def Let_def and_then_eq_Inr_iff
      dest: updateRecvWindow_same split: if_splits option.splits prod.splits)

lemma Write_loop_same: "Stream_Write_loop st s rest written now = (r, st', s') \<Longrightarrow> same_table s s'"
proof (induction st s rest written now rule: Stream_Write_loop.induct)
  case (1 st s rest written now)
  define n where "n = (if int (length rest) > st_sendWindow st then nat (st_sendWindow st) else length rest)"
  obtain e s1 where w: "Session_writeFrame s (NewDataFrame (st_id st) (Some (take n rest)) False) = (e, s1)"
    by fastforce
  show ?case
  proof (cases "rest = [] \<or> st_sendWindow st \<le> 0 \<or> e \<noteq> None")
    case True
    with "1.prems" w writeFrame_same [OF w] show ?thesis
      by (subst (asm) Stream_Write_loop.simps) (auto simp: Let_def n_def split: if_splits)
  next
    case False
    with "1.prems" w have "Stream_Write_loop (Stream_updateActivity
          (st\<lparr>st_sendWindow := sub64 (st_sendWindow st) (int n),
             st_bytesWritten := add64 (st_bytesWritten st) (int n)\<rparr>) now) s1 (drop n rest) (written + n) now
          = (r, st', s')"
      by (subst (asm) Stream_Write_loop.simps) (simp add: Let_def n_def)
    with "1.IH" [OF _ _ n_def w [symmetric] _ refl] False writeFrame_same [OF w] show ?thesis
      by (auto intro: same_table_trans)
  qed
qed

lemma Write_same: "Stream_Write st s p now = (r, st', s') \<Longrightarrow> same_table s s'"
  by (auto simp: Stream_Write_def dest: Write_loop_same split: if_splits)

section \<open>The table invariant\<close>

text \<open>
  The table has distinct ids and distinct addresses, every address is one of the store and holds
  the stream with that id, ids are in the legal range, the number of registered streams is within
  the configured limit, every stream object, registered or not, satisfies its invariant, and the
  id counter is of the parity of its side.
\<close>

definition next_id_ok :: "session \<Rightarrow> bool" where
  "next_id_ok s \<longleftrightarrow>
     se_nextStreamID s \<le> MaxStreamID \<and> unat (se_nextStreamID s) mod 2 = (if se_isClient s then 1 else 0)"

definition session_inv :: "session \<Rightarrow> bool" where
  "session_inv s \<longleftrightarrow>
     map_ok (se_streams s) \<and> distinct (map snd (se_streams s)) \<and>
     (\<forall>(i, a) \<in> set (se_streams s). a < length (se_store s) \<and> st_id (se_store s ! a) = i \<and>
        i \<noteq> 0 \<and> i \<le> MaxStreamID) \<and>
     (\<forall>st \<in> set (se_store s). stream_inv st) \<and>
     length (se_streams s) \<le> unat (cfg_MaxConcurrentStreams (se_config s)) \<and>
     0 \<le> cfg_InitialWindowSize (se_config s) \<and> cfg_InitialWindowSize (se_config s) < 2 ^ 63 \<and>
     next_id_ok s"

lemma session_inv_same: "same_table s s' \<Longrightarrow> session_inv s' = session_inv s"
  by (simp add: session_inv_def next_id_ok_def same_table_def)

lemma session_inv_put:
  assumes "session_inv s" and "stream_inv st" and "st_id st = st_id (se_store s ! a)"
  shows "session_inv (put_stream s a st)"
proof -
  have "st_id ((se_store s)[a := st] ! b) = st_id (se_store s ! b)" for b
    using assms(3) by (cases "a = b"; cases "a < length (se_store s)") (simp_all add: list_update_beyond)
  then show ?thesis
    using assms(1,2) set_update_subset_insert [of "se_store s" a st]
    by (auto simp: session_inv_def next_id_ok_def split_beta)
qed

lemma session_inv_delete:
  "session_inv s \<Longrightarrow> session_inv (s\<lparr>se_streams := AList.delete i (se_streams s)\<rparr>)"
  using AList.length_delete_le [of i "se_streams s"]
  by (auto simp: session_inv_def next_id_ok_def intro: distinct_vals_delete)

lemma alloc_stream_inv:
  assumes inv: "session_inv s" and i: "i \<noteq> 0" "i \<le> MaxStreamID"
    and len: "length (se_streams s) < unat (cfg_MaxConcurrentStreams (se_config s))"
  shows "session_inv (alloc_stream s i prio now)"
proof -
  let ?n = "length (se_store s)"
  let ?st = "Stream_setState ((NewStream i (cfg_InitialWindowSize (se_config s)) now)\<lparr>st_priority := prio\<rparr>) StreamStateOpen"
  have st: "stream_inv ?st" "st_id ?st = i"
    using inv NewStream_inv [of "cfg_InitialWindowSize (se_config s)" i now]
    by (simp_all add: session_inv_def) (simp_all add: stream_inv_def stream_op_defs)
  have old: "a < ?n" if "(j, a) \<in> set (se_streams s)" for j a
    using inv that by (auto simp: session_inv_def)
  then have "distinct (map snd (AList.update i ?n (se_streams s)))"
    using inv by (intro distinct_vals_update) (auto simp: session_inv_def)
  moreover have "\<forall>(j, a) \<in> set (AList.update i ?n (se_streams s)).
      a < Suc ?n \<and> st_id ((se_store s @ [?st]) ! a) = j \<and> j \<noteq> 0 \<and> j \<le> MaxStreamID"
    using set_alist_update [of i ?n "se_streams s"] inv i st(2) old
    by (fastforce simp: session_inv_def nth_append)
  ultimately show ?thesis
    using inv st(1) len length_update_le [of i ?n "se_streams s"]
    by (simp add: session_inv_def next_id_ok_def alloc_stream_def Let_def)
qed

section \<open>Every operation keeps the table invariant\<close>

lemma session_inv_fields:
  "session_inv (s\<lparr>ln_closed := a\<rparr>) = session_inv s" "session_inv (s\<lparr>ln_conn := b\<rparr>) = session_inv s"
  "session_inv (s\<lparr>se_closeReason := c\<rparr>) = session_inv s" "session_inv (s\<lparr>se_canceled := d\<rparr>) = session_inv s"
  "session_inv (s\<lparr>se_acceptCh := q\<rparr>) = session_inv s"
  "session_inv (s\<lparr>se_pongCh := p\<rparr>) = session_inv s" "session_inv (s\<lparr>se_wg := w\<rparr>) = session_inv s"
  "session_inv (s\<lparr>se_streamsCreated := i\<rparr>) = session_inv s"
  "session_inv (s\<lparr>se_streamsClosed := i\<rparr>) = session_inv s"
  "session_inv (s\<lparr>se_framesReceived := i\<rparr>) = session_inv s"
  "session_inv (s\<lparr>se_bytesReceived := i\<rparr>) = session_inv s"
  "session_inv (s\<lparr>se_pingsSent := i\<rparr>) = session_inv s"
  "session_inv (s\<lparr>se_pongsReceived := i\<rparr>) = session_inv s"
  by (simp_all add: session_inv_def next_id_ok_def)

lemma session_inv_registered:
  "session_inv s \<Longrightarrow> map_of (se_streams s) i = Some a \<Longrightarrow>
     a < length (se_store s) \<and> st_id (se_store s ! a) = i \<and> stream_inv (se_store s ! a)"
  by (drule map_of_SomeD) (auto simp: session_inv_def)

lemma session_inv_drop:
  assumes "session_inv s" and "stream_inv st" and "st_id st = st_id (se_store s ! a)"
  shows "session_inv ((put_stream s a st)\<lparr>se_streams := AList.delete i (se_streams s),
           se_streamsClosed := n\<rparr>)"
  using session_inv_delete [OF session_inv_put [OF assms], of i] by (simp add: session_inv_fields)

lemma removeStream_inv:
  "session_inv s \<Longrightarrow> Session_removeStream s i = Inr s' \<Longrightarrow> session_inv s'"
  using session_inv_registered [of s i]
  by (auto simp: Session_removeStream_def and_then_eq_Inr_iff
      intro!: session_inv_drop dest: forceClose_inv forceClose_id split: option.splits)

lemma closeAllStreams_loop_inv:
  "session_inv s \<Longrightarrow> closeAllStreams_loop ids s = Inr s' \<Longrightarrow> session_inv s'"
  by (induction ids arbitrary: s) (auto simp: and_then_eq_Inr_iff dest: removeStream_inv)

lemma writeFrame_inv: "Session_writeFrame s f = (e, s') \<Longrightarrow> session_inv s' = session_inv s"
  by (rule session_inv_same [OF writeFrame_same])

lemma CloseWithError_inv:
  assumes "session_inv s" and "Session_CloseWithError env s c = Inr (r, s')"
  shows "session_inv s'"
proof (cases "ln_closed s")
  case False
  define s1 where "s1 = s\<lparr>ln_closed := True, se_closeReason := Some c\<rparr>"
  define s2 where "s2 = snd (Session_writeFrame s1 (NewGoAwayFrame (Session_getLastStreamID s1) c []))"
  have "session_inv (s2\<lparr>se_canceled := True\<rparr>)"
    using assms(1) writeFrame_inv [OF surjective_pairing] by (simp add: s1_def s2_def session_inv_fields)
  note closeAllStreams_loop_inv [OF this]
  with assms(2) False show ?thesis
    by (auto simp: Session_CloseWithError_def Let_def s1_def s2_def and_then_eq_Inr_iff
        Session_closeAllStreams_def session_inv_fields split: if_splits)
qed (use assms in \<open>simp add: Session_CloseWithError_def\<close>)

lemma generateStreamID_rec:
  "Session_generateStreamID c n = (if n + 2 \<le> MaxStreamID then (n + 2, n + 2) else if c then (3, 3) else (4, 4))"
  by (subst Session_generateStreamID.simps, subst Session_generateStreamID.simps)
     (simp add: MaxStreamID_def Let_def)

lemma unat_plus_2: "n \<le> MaxStreamID \<Longrightarrow> unat (n + 2) = unat n + 2" for n :: u32
  by (simp add: unat_plus_if_size word_le_nat_alt MaxStreamID_def word_size)

lemma generateStreamID_spec:
  assumes "n \<le> MaxStreamID" and "unat n mod 2 = (if c then 1 else 0)"
    and "Session_generateStreamID c n = (sid, next)"
  shows "next = sid \<and> sid \<noteq> 0 \<and> sid \<le> MaxStreamID \<and> unat sid mod 2 = (if c then 1 else 0)"
  using assms unat_plus_2 [OF assms(1)]
  by (auto simp: generateStreamID_rec unat_eq_zero [symmetric] MaxStreamID_def mod_add_self2
      split: if_splits)

lemma session_inv_next:
  assumes "session_inv s" and "Session_generateStreamID (se_isClient s) (se_nextStreamID s) = (sid, n)"
  shows "session_inv (s\<lparr>se_nextStreamID := n\<rparr>)" "sid \<noteq> 0" "sid \<le> MaxStreamID"
  using assms generateStreamID_spec [of "se_nextStreamID s" "se_isClient s" sid n]
  by (auto simp: session_inv_def next_id_ok_def)

lemma OpenStream_inv:
  assumes inv: "session_inv s"
    and r: "Session_OpenStreamWithPriority env s prio = Inr (res, s')"
  shows "session_inv s'"
proof (cases "ln_closed s \<or> length (se_streams s) \<ge> unat (cfg_MaxConcurrentStreams (se_config s))")
  case False
  obtain sid n where g: "Session_generateStreamID (se_isClient s) (se_nextStreamID s) = (sid, n)"
    by fastforce
  define s1 where "s1 = alloc_stream (s\<lparr>se_nextStreamID := n\<rparr>) sid prio (en_now env)"
  obtain e s2 where w: "Session_writeFrame s1 (NewStreamOpenFrame sid prio) = (e, s2)" by fastforce
  have "session_inv s1"
    unfolding s1_def using False session_inv_next [OF inv g] by (intro alloc_stream_inv) auto
  then have "session_inv s2" by (simp add: writeFrame_inv [OF w])
  with r False w show ?thesis
    by (auto simp: Session_OpenStreamWithPriority_def Let_def g s1_def and_then_eq_Inr_iff
        session_inv_fields dest: removeStream_inv split: option.splits)
qed (use inv r in \<open>auto simp: Session_OpenStreamWithPriority_def split: if_splits\<close>)

lemma handleStreamFrame_inv:
  "session_inv s \<Longrightarrow> wire_frame f \<Longrightarrow> Session_handleStreamFrame env s f = Inr (r, s') \<Longrightarrow> session_inv s'"
  using session_inv_registered [of s "f_StreamID f"]
  by (auto simp: Session_handleStreamFrame_def Session_GetStream_def and_then_eq_Inr_iff
      intro!: session_inv_put dest: handleFrame_inv handleFrame_id split: option.splits)

lemma handleStreamOpenFrame_inv:
  assumes inv: "session_inv s" and r: "Session_handleStreamOpenFrame env s f = (r, s')"
  shows "session_inv s'"
proof (cases "Session_isValidStreamID s (f_StreamID f) \<and>
    length (se_streams s) < unat (cfg_MaxConcurrentStreams (se_config s))")
  case True
  then have "session_inv (alloc_stream s (f_StreamID f) (Frame_GetPriority f) (en_now env))"
    using inv by (intro alloc_stream_inv) (auto simp: Session_isValidStreamID_def split: if_splits)
  with r True show ?thesis
    by (auto simp: Session_handleStreamOpenFrame_def Let_def session_inv_fields split: if_splits)
qed (use inv r in \<open>auto simp: Session_handleStreamOpenFrame_def Let_def writeFrame_inv split: if_splits prod.splits\<close>)

lemma push_pong_inv [simp]: "session_inv (push_pong s p) = session_inv s"
  by (simp add: push_pong_def session_inv_fields)

lemma Session_handleFrame_inv:
  assumes "session_inv s" and "wire_frame f" and "Session_handleFrame env s f = Inr (r, s')"
  shows "session_inv s'"
  using assms
  by (auto simp: Session_handleFrame_def and_then_eq_Inr_iff Session_handlePingFrame_def
      Session_handlePongFrame_def Session_handleGoAwayFrame_def Session_handleSettingsFrame_def
      session_inv_fields writeFrame_inv
      dest: handleStreamFrame_inv handleStreamOpenFrame_inv CloseWithError_inv
      split: option.splits if_splits prod.splits)

lemma cleanup_loop_inv: "session_inv s \<Longrightarrow> cleanup_loop ids s = Inr s' \<Longrightarrow> session_inv s'"
proof (induction ids arbitrary: s)
  case (Cons i ids)
  then obtain a e st s1 where a: "map_of (se_streams s) i = Some a"
    and r: "Stream_Reset (se_store s ! a) s ErrorCodeCancel = Inr (e, st, s1)"
    and rest: "cleanup_loop ids ((put_stream s1 a st)\<lparr>se_streams := AList.delete i (se_streams s1),
         se_streamsClosed := add64 (se_streamsClosed s1) 1\<rparr>) = Inr s'"
    by (auto simp: and_then_eq_Inr_iff split: option.splits)
  have same: "same_table s s1" by (rule Reset_same [OF r])
  then have "session_inv s1" using Cons.prems(1) session_inv_same by blast
  moreover have "stream_inv st" using Reset_inv [OF r] session_inv_registered [OF Cons.prems(1) a] by blast
  moreover have "st_id st = st_id (se_store s1 ! a)" using Reset_id [OF r] same by (simp add: same_table_def)
  ultimately show ?case using Cons.IH [OF session_inv_drop rest] by blast
qed simp

lemma session_inv_app:
  assumes "session_inv s" and "same_table s s'" and "stream_inv st" and "st_id st = st_id (se_store s ! a)"
  shows "session_inv (put_stream s' a st)"
  using assms session_inv_put [of s' st a] session_inv_same [of s s'] by (simp add: same_table_def)

section \<open>Reachable sessions\<close>

text \<open>
  What can happen to a session: the application opens, accepts, pings and closes, and works on the
  stream objects it holds; the read loop receives a frame from the connection or fails; the keep-alive
  loop resets idle streams. The steps interleave freely.
\<close>

inductive session_reachable :: "session_config option \<Rightarrow> bool \<Rightarrow> session \<Rightarrow> bool"
  for config :: "session_config option" and isClient :: bool where
  new: "session_reachable config isClient (NewSession conn config isClient)"
| start: "session_reachable config isClient s \<Longrightarrow> session_reachable config isClient (Session_Start s)"
| opened: "session_reachable config isClient s \<Longrightarrow>
    Session_OpenStreamWithPriority env s prio = Inr (r, s') \<Longrightarrow> session_reachable config isClient s'"
| accepted: "session_reachable config isClient s \<Longrightarrow> Session_AcceptStream env s = (ar, s') \<Longrightarrow>
    session_reachable config isClient s'"
| pinged: "session_reachable config isClient s \<Longrightarrow> Session_Ping s data = (pe, s') \<Longrightarrow>
    session_reachable config isClient s'"
| received: "session_reachable config isClient s \<Longrightarrow> FrameReader_ReadFrame rd = (f, rd', None) \<Longrightarrow>
    Session_handleFrame env (s\<lparr>se_framesReceived := fr, se_bytesReceived := br\<rparr>) f = Inr (hr, s') \<Longrightarrow>
    session_reachable config isClient s'"
| closed: "session_reachable config isClient s \<Longrightarrow> Session_CloseWithError env s c = Inr (cr, s') \<Longrightarrow>
    session_reachable config isClient s'"
| cleaned: "session_reachable config isClient s \<Longrightarrow> Session_cleanupIdleStreams env s = Inr s' \<Longrightarrow>
    session_reachable config isClient s'"
| stream_read: "session_reachable config isClient s \<Longrightarrow> a < length (se_store s) \<Longrightarrow>
    Stream_Read (se_store s ! a) s plen now = Inr (rr, st, s') \<Longrightarrow>
    session_reachable config isClient (put_stream s' a st)"
| stream_write: "session_reachable config isClient s \<Longrightarrow> a < length (se_store s) \<Longrightarrow>
    Stream_Write (se_store s ! a) s p now = (wr, st, s') \<Longrightarrow>
    session_reachable config isClient (put_stream s' a st)"
| stream_close: "session_reachable config isClient s \<Longrightarrow> a < length (se_store s) \<Longrightarrow>
    Stream_Close (se_store s ! a) s = (we, st, s') \<Longrightarrow>
    session_reachable config isClient (put_stream s' a st)"
| stream_reset: "session_reachable config isClient s \<Longrightarrow> a < length (se_store s) \<Longrightarrow>
    Stream_Reset (se_store s ! a) s c = Inr (we, st, s') \<Longrightarrow>
    session_reachable config isClient (put_stream s' a st)"

lemma ReadFrame_wire_frame: "FrameReader_ReadFrame r = (f, r', None) \<Longrightarrow> wire_frame f"
  by (auto simp: FrameReader_ReadFrame_def Frame_ReadFrom_def ReadFull_def wire_frame_def payload_bytes_def
      empty_frame_def Let_def min_absorb2 word_greater_zero_iff split: prod.splits if_splits sum.splits)

lemma NewSession_inv:
  assumes "config = None \<or> (\<exists>c. config = Some c \<and> 0 \<le> cfg_InitialWindowSize c \<and> cfg_InitialWindowSize c < 2 ^ 63)"
  shows "session_inv (NewSession conn config isClient)"
  using assms
  by (auto simp: session_inv_def next_id_ok_def NewSession_def DefaultSessionConfig_def MaxStreamID_def
      Let_def)

lemma Write_inv: "stream_inv s \<Longrightarrow> Stream_Write s l p now = (r, s', l') \<Longrightarrow> stream_inv s'"
  by (auto simp: Stream_Write_def Write_loop_inv split: if_splits)

lemma session_inv_store: "session_inv s \<Longrightarrow> a < length (se_store s) \<Longrightarrow> stream_inv (se_store s ! a)"
  by (simp add: session_inv_def)



end
