(* ===== verification/Session_Wire.thy ===== *)
theory Session_Wire
  imports Session_Props
begin

text \<open>
  The two ends of a connection together: the peers draw their stream ids from disjoint spaces, the
  bytes one side writes to a stream arrive in order in the read buffer of the other side's stream,
  and what a closing session does to its streams and puts on the wire.
\<close>

section \<open>Stream ids of the two sides\<close>

text \<open>
  The two sides never collide on a stream id. The id a session generates is legal, its peer
  (the session of the other role) accepts it in a STREAM_OPEN frame, and the session itself would
  refuse it as the peer's.
\<close>

theorem stream_id_spaces:
  assumes "session_inv s" and "Session_generateStreamID (se_isClient s) (se_nextStreamID s) = (sid, n)"
    and "se_isClient t \<noteq> se_isClient s"
  shows "sid \<noteq> 0 \<and> sid \<le> MaxStreamID \<and> n = sid \<and>
         Session_isValidStreamID t sid \<and> \<not> Session_isValidStreamID s sid"
proof -
  have g: "n = sid" "sid \<noteq> 0" "sid \<le> MaxStreamID" "unat sid mod 2 = (if se_isClient s then 1 else 0)"
    using generateStreamID_spec [of "se_nextStreamID s" "se_isClient s" sid n] assms(1,2)
    by (auto simp: session_inv_def next_id_ok_def)
  have "sid mod 2 = 1 \<longleftrightarrow> unat sid mod 2 = 1"
    by (simp add: word_unat_eq_iff unat_mod)
  with g assms(3) show ?thesis
    by (auto simp: Session_isValidStreamID_def Let_def)
qed

definition idle_conn :: conn where
  "idle_conn = \<lparr>c_out = [], c_room = None\<rparr>"

theorem stream_id_spaces_witness:
  "(3 :: u32) \<noteq> 0 \<and> (3 :: u32) \<le> MaxStreamID \<and> (3 :: u32) = 3 \<and>
   Session_isValidStreamID (NewSession idle_conn None False) 3 \<and>
   \<not> Session_isValidStreamID (NewSession idle_conn None True) 3"
  by (rule stream_id_spaces [OF NewSession_inv])
     (simp_all add: NewSession_def generateStreamID_rec MaxStreamID_def)

section \<open>Written bytes reach the peer\<close>

abbreviation data_frame :: "stream_id \<Rightarrow> byte list \<Rightarrow> frame" where
  "data_frame sid c \<equiv> NewDataFrame sid (Some c) False"

lemma data_frame_wire: "length c \<le> MaxFrameLength \<Longrightarrow> wire_frame (data_frame sid c)"
  by (simp add: wire_frame_def NewDataFrame_def NewFrame_def payload_bytes_def)

lemma data_frame_norm:
  assumes "length c \<le> MaxFrameLength" and "sid \<noteq> 0" and "sid \<le> MaxStreamID"
  defines "f \<equiv> wire_norm (data_frame sid c)"
  shows "wire_frame f" "payload_bytes f = c" "f_StreamID f = sid" "f_Type f = FrameTypeData"
    "\<not> Frame_IsEndStream f" "Frame_Validate f = Inr None"
  using assms(1) data_frame_wire [OF assms(1), of sid] wire_frame_Length_0 [of "data_frame sid c"]
    NewDataFrame_valid [OF assms(3), of "Some c" False] NewDataFrame_IsEndStream [of sid "Some c" False]
  by (auto simp: f_def wire_norm_def wire_frame_def NewDataFrame_def NewFrame_def payload_bytes_def
      Frame_IsEndStream_def Frame_Validate_def split: if_splits)

text \<open>A session ready to take \<open>n\<close> more bytes on stream \<open>sid\<close>, kept at address \<open>a\<close>.\<close>

definition can_receive :: "session \<Rightarrow> stream_id \<Rightarrow> nat \<Rightarrow> nat \<Rightarrow> bool" where
  "can_receive s sid a n \<longleftrightarrow>
     \<not> se_canceled s \<and> map_of (se_streams s) sid = Some a \<and> a < length (se_store s) \<and>
     stream_inv (se_store s ! a) \<and> rb_size (st_readBuf (se_store s ! a)) + n \<le> 32 * 1024 \<and>
     int n \<le> st_recvWindow (se_store s ! a) \<and> \<not> st_readClosed (se_store s ! a)"

abbreviation unread :: "session \<Rightarrow> nat \<Rightarrow> byte list" where
  "unread s a \<equiv> ring_content (st_readBuf (se_store s ! a))"

lemma handle_data_frame:
  assumes ok: "can_receive s sid a (length c + n)" and "sid \<noteq> 0" "sid \<le> MaxStreamID"
  shows "\<exists>s'. Session_handleFrame env s (wire_norm (data_frame sid c)) = Inr (Handled None, s') \<and>
    can_receive s' sid a n \<and> unread s' a = unread s a @ c"
proof -
  let ?f = "wire_norm (data_frame sid c)" and ?st = "Stream_updateActivity (se_store s ! a) (en_now env)"
  have small: "length c \<le> MaxFrameLength"
    using ok by (simp add: can_receive_def MaxFrameLength_def)
  note f = data_frame_norm [OF small assms(2,3)]
  obtain st where st: "Stream_handleDataFrame ?st ?f = Inr (None, st)" "stream_inv st"
    "ring_content (st_readBuf st) = unread s a @ c"
    "st_recvWindow st = st_recvWindow (se_store s ! a) - int (length c)" "\<not> st_readClosed st"
    using handleDataFrame_accept [of ?st ?f] ok f
    by (auto simp: can_receive_def Stream_updateActivity_def stream_inv_def)
  have "rb_size (st_readBuf st) = rb_size (st_readBuf (se_store s ! a)) + length c"
    using arg_cong [OF st(3), of length] by simp
  moreover have "Session_handleFrame env s ?f = Inr (Handled None, put_stream s a st)"
    using st(1) f ok
    by (simp add: Session_handleFrame_def Session_handleStreamFrame_def Session_GetStream_def
        can_receive_def Stream_handleFrame_def)
  ultimately show ?thesis using ok st by (auto simp: can_receive_def)
qed

lemma can_receive_stats [simp]:
  "can_receive (s\<lparr>se_framesReceived := x, se_bytesReceived := y\<rparr>) sid a n = can_receive s sid a n"
  by (simp add: can_receive_def)

lemma readLoop_chunks:
  assumes "can_receive s sid a (length (concat chunks))" and "sid \<noteq> 0" "sid \<le> MaxStreamID"
  shows "\<exists>s'. Session_readLoop env k \<lparr>rd_bytes = chunk_bytes sid chunks, rd_end = EOF\<rparr> s =
      Inr (LoopLeft, s') \<and> can_receive s' sid a 0 \<and> unread s' a = unread s a @ concat chunks"
  using assms(1)
proof (induction chunks arbitrary: s k)
  case Nil
  have "FrameReader_ReadFrame \<lparr>rd_bytes = [], rd_end = EOF\<rparr> =
      (empty_frame, \<lparr>rd_bytes = [], rd_end = EOF\<rparr>, Some (IOErr EOF))"
    by (simp add: FrameReader_ReadFrame_def Frame_ReadFrom_def ReadFull_def FrameHeaderLength_def)
  with Nil show ?case
    by (subst Session_readLoop.simps) (auto simp: chunk_bytes_def can_receive_def)
next
  case (Cons c chunks)
  let ?rest = "\<lparr>rd_bytes = chunk_bytes sid chunks, rd_end = EOF\<rparr>"
  have "length c \<le> MaxFrameLength" using Cons.prems by (simp add: can_receive_def MaxFrameLength_def)
  then have rd: "FrameReader_ReadFrame \<lparr>rd_bytes = chunk_bytes sid (c # chunks), rd_end = EOF\<rparr> =
      (wire_norm (data_frame sid c), ?rest, None)"
    using ReadFrame_frame_bytes [OF data_frame_wire] by (simp add: chunk_bytes_def)
  define s1 where "s1 = s\<lparr>se_framesReceived := add64 (se_framesReceived s) 1, se_bytesReceived :=
      add64 (se_bytesReceived s) (uint (f_Length (wire_norm (data_frame sid c)) + 10))\<rparr>"
  have "can_receive s1 sid a (length c + length (concat chunks))"
    using Cons.prems by (simp add: s1_def)
  from handle_data_frame [OF this assms(2,3), of "env k"] obtain s2 where
    s2: "Session_handleFrame (env k) s1 (wire_norm (data_frame sid c)) = Inr (Handled None, s2)"
      "can_receive s2 sid a (length (concat chunks))" "unread s2 a = unread s a @ c"
    by (auto simp: s1_def)
  have "Session_readLoop env k \<lparr>rd_bytes = chunk_bytes sid (c # chunks), rd_end = EOF\<rparr> s =
      Session_readLoop env (Suc k) ?rest s2"
    using Cons.prems rd s2(1)
    by (subst Session_readLoop.simps) (simp add: can_receive_def s1_def [symmetric])
  with Cons.IH [OF s2(2), of "Suc k"] s2(3) show ?case by auto
qed


text \<open>A server that has accepted stream 3, for the concrete inputs below.\<close>

definition peer_with_stream :: session where
  "peer_with_stream = alloc_stream (NewSession idle_conn None False) 3 0 0"

lemma peer_with_stream_ready: "n \<le> 32 * 1024 \<Longrightarrow> can_receive peer_with_stream 3 0 n"
  using NewStream_inv [of 65536 3 0]
  by (auto simp: can_receive_def peer_with_stream_def alloc_stream_def NewSession_def Let_def
      DefaultSessionConfig_def stream_inv_def stream_op_defs NewStream_def NewRingBuffer_def)


section \<open>Closing a session\<close>

abbreviation addr :: "session \<Rightarrow> stream_id \<Rightarrow> nat" where
  "addr s i \<equiv> the (map_of (se_streams s) i)"

definition registered :: "session \<Rightarrow> stream_id \<Rightarrow> bool" where
  "registered s i \<longleftrightarrow> map_of (se_streams s) i \<noteq> None"

lemma addr_inj:
  assumes "session_inv s" and "registered s i" and "registered s j" and "i \<noteq> j"
  shows "addr s i \<noteq> addr s j"
proof
  assume eq: "addr s i = addr s j"
  have "st_id (se_store s ! addr s i) = i" "st_id (se_store s ! addr s j) = j"
    using session_inv_registered [OF assms(1)] assms(2,3) by (auto simp: registered_def)
  with eq assms(4) show False by simp
qed

lemma removeStream_open:
  assumes "session_inv s" and "registered s i" and "\<not> st_closeNotify (se_store s ! addr s i)"
  shows "\<exists>st. Session_removeStream s i = Inr ((put_stream s (addr s i) st)\<lparr>
       se_streams := AList.delete i (se_streams s), se_streamsClosed := add64 (se_streamsClosed s) 1\<rparr>) \<and>
     Stream_IsClosed st \<and> st_readClosed st \<and> st_writeClosed st"
  using assms
  by (auto simp: Session_removeStream_def registered_def Stream_forceClose_def close_closeNotify_def
      Stream_IsClosed_def stream_op_defs Let_def)

lemma removeStream_notified:
  "registered s i \<Longrightarrow> st_closeNotify (se_store s ! addr s i) \<Longrightarrow>
     Session_removeStream s i = Inl CloseOfClosedChannel"
  by (auto simp: Session_removeStream_def registered_def forceClose_panics)

text \<open>The loop over the ids of the table: it panics exactly when one of the streams was notified before.\<close>

definition all_closed :: "session \<Rightarrow> stream_id set \<Rightarrow> session \<Rightarrow> bool" where
  "all_closed s I s' \<longleftrightarrow>
     ln_conn s' = ln_conn s \<and> se_wg s' = se_wg s \<and> length (se_store s') = length (se_store s) \<and>
     set (se_streams s') = {x \<in> set (se_streams s). fst x \<notin> I} \<and>
     (\<forall>i \<in> I. Stream_IsClosed (se_store s' ! addr s i) \<and> st_readClosed (se_store s' ! addr s i) \<and>
        st_writeClosed (se_store s' ! addr s i)) \<and>
     (\<forall>b. b \<notin> addr s ` I \<longrightarrow> se_store s' ! b = se_store s ! b)"

lemma closeAllStreams_loop_spec:
  assumes "session_inv s" and "distinct ids" and "\<forall>i \<in> set ids. registered s i"
  shows "if \<exists>i \<in> set ids. st_closeNotify (se_store s ! addr s i)
         then closeAllStreams_loop ids s = Inl CloseOfClosedChannel
         else \<exists>s'. closeAllStreams_loop ids s = Inr s' \<and> all_closed s (set ids) s'"
  using assms
proof (induction ids arbitrary: s)
  case Nil
  then show ?case by (auto simp: all_closed_def)
next
  case (Cons i ids)
  show ?case
  proof (cases "st_closeNotify (se_store s ! addr s i)")
    case True
    with Cons.prems show ?thesis by (simp add: removeStream_notified)
  next
    case False
    then obtain st where st: "Session_removeStream s i = Inr ((put_stream s (addr s i) st)\<lparr>
        se_streams := AList.delete i (se_streams s), se_streamsClosed := add64 (se_streamsClosed s) 1\<rparr>)"
      "Stream_IsClosed st" "st_readClosed st" "st_writeClosed st"
      using removeStream_open [of s i] Cons.prems by auto
    define s1 where "s1 = (put_stream s (addr s i) st)\<lparr>se_streams := AList.delete i (se_streams s),
        se_streamsClosed := add64 (se_streamsClosed s) 1\<rparr>"
    have inv1: "session_inv s1" using removeStream_inv [OF Cons.prems(1) st(1)] by (simp add: s1_def)
    have a: "addr s i < length (se_store s)"
      using session_inv_registered [OF Cons.prems(1)] Cons.prems(3) by (auto simp: registered_def)
    have other: "registered s1 j" "addr s1 j = addr s j" "addr s j \<noteq> addr s i"
      "se_store s1 ! addr s j = se_store s ! addr s j" if "j \<in> set ids" for j
    proof -
      have "j \<noteq> i" "registered s i" "registered s j" using that Cons.prems(2,3) by auto
      then show "registered s1 j" "addr s1 j = addr s j" "addr s j \<noteq> addr s i"
        "se_store s1 ! addr s j = se_store s ! addr s j"
        using addr_inj [OF Cons.prems(1)] by (simp_all add: registered_def s1_def)
    qed
    note IH = Cons.IH [OF inv1]
    have img: "addr s1 ` set ids = addr s ` set ids" using other(2) by (auto simp: image_iff)
    have "addr s i \<notin> addr s ` set ids" by (metis imageE other(3))
    then have "all_closed s (set (i # ids)) s'" if "all_closed s1 (set ids) s'" for s'
      using that st(2-4) a other(2) img by (auto simp: all_closed_def s1_def)
    with IH Cons.prems other False show ?thesis
      by (auto simp: st(1) s1_def [symmetric] split: if_splits)
  qed
qed

lemma close_session:
  assumes "session_inv s" and "\<not> ln_closed s"
    and "range_order (se_streams s) (en_order env (se_streams s))"
  shows "if \<exists>i. registered s i \<and> st_closeNotify (se_store s ! addr s i)
         then Session_CloseWithError env s code = Inl CloseOfClosedChannel
         else \<exists>s'. Session_CloseWithError env s code =
                  Inr (if se_wg s = 0 then CloseReturned else CloseBlocked, s') \<and>
                se_streams s' = [] \<and> c_out (ln_conn s') = c_out (ln_conn s) \<and>
                (\<forall>i. registered s i \<longrightarrow> Stream_IsClosed (se_store s' ! addr s i) \<and>
                   st_readClosed (se_store s' ! addr s i) \<and> st_writeClosed (se_store s' ! addr s i))"
proof -
  let ?ids = "en_order env (se_streams s)"
  define s1 where "s1 = s\<lparr>ln_closed := True, se_closeReason := Some code, se_canceled := True\<rparr>"
  have "session_inv s1" using assms(1) by (simp add: s1_def session_inv_fields)
  moreover have ids: "distinct ?ids" "i \<in> set ?ids \<longleftrightarrow> registered s i" for i
    using assms(3) by (auto simp: range_order_def registered_def map_of_eq_None_iff)
  ultimately have loop: "if \<exists>i \<in> set ?ids. st_closeNotify (se_store s1 ! addr s1 i)
     then closeAllStreams_loop ?ids s1 = Inl CloseOfClosedChannel
     else \<exists>s'. closeAllStreams_loop ?ids s1 = Inr s' \<and> all_closed s1 (set ?ids) s'"
    by (intro closeAllStreams_loop_spec) (auto simp: registered_def s1_def)
  have "set ?ids = fst ` set (se_streams s)" using assms(3) by (simp add: range_order_def)
  then have "se_streams s' = []" if "all_closed s1 (set ?ids) s'" for s'
    using that by (auto simp: all_closed_def s1_def simp flip: set_empty)
  note empty = this
  have eq: "Session_CloseWithError env s code = and_then (closeAllStreams_loop ?ids s1) (\<lambda>s.
      Inr (if se_wg s = 0 then CloseReturned else CloseBlocked, s\<lparr>ln_conn := conn_Close (ln_conn s)\<rparr>))"
    using assms(2)
    by (simp add: Session_CloseWithError_def Session_writeFrame_def Session_closeAllStreams_def s1_def)
  have same: "se_store s1 = se_store s" "addr s1 i = addr s i" for i by (simp_all add: s1_def)
  show ?thesis
  proof (cases "\<exists>i. registered s i \<and> st_closeNotify (se_store s ! addr s i)")
    case True
    then show ?thesis using loop eq by (auto simp: ids(2) same split: if_splits)
  next
    case False
    with loop obtain s' where s': "closeAllStreams_loop ?ids s1 = Inr s'" "all_closed s1 (set ?ids) s'"
      by (auto simp: ids(2) same split: if_splits)
    with False eq empty [OF s'(2)] show ?thesis
      by (simp add: all_closed_def ids(2) same s1_def conn_Close_def)
  qed
qed

text \<open>
  C11: what closing a session does. When no registered stream has had its notification channel closed,
  the close succeeds: every registered stream ends closed in both directions and the table is empty;
  the call returns at once only if no background loop is counted in the wait group. When the peer has
  already closed one of the streams, the close panics. In no case does a GO_AWAY frame, or any other
  byte, reach the connection: the closed flag is set before the frame is written.
\<close>

theorem close_session_spec:
  assumes "session_inv s" and "\<not> ln_closed s"
    and "range_order (se_streams s) (en_order env (se_streams s))"
  shows "if \<exists>i. registered s i \<and> st_closeNotify (se_store s ! addr s i)
         then Session_CloseWithError env s code = Inl CloseOfClosedChannel
         else \<exists>s'. Session_CloseWithError env s code =
                  Inr (if se_wg s = 0 then CloseReturned else CloseBlocked, s') \<and>
                se_streams s' = [] \<and> c_out (ln_conn s') = c_out (ln_conn s) \<and>
                (\<forall>i. registered s i \<longrightarrow> Stream_IsClosed (se_store s' ! addr s i) \<and>
                   st_readClosed (se_store s' ! addr s i) \<and> st_writeClosed (se_store s' ! addr s i))"
  using assms by (rule close_session)

theorem close_session_spec_witness:
  "\<exists>s'. Session_CloseWithError \<lparr>en_now = 0, en_pickCtx = False, en_order = map fst\<rparr> peer_with_stream 0 =
       Inr (CloseReturned, s') \<and> se_streams s' = [] \<and> c_out (ln_conn s') = []"
proof -
  let ?e = "\<lparr>en_now = 0, en_pickCtx = False, en_order = map fst\<rparr>"
  have "session_inv peer_with_stream"
    unfolding peer_with_stream_def
    by (rule alloc_stream_inv [OF NewSession_inv])
       (simp_all add: MaxStreamID_def NewSession_def DefaultSessionConfig_def)
  moreover have p: "\<not> ln_closed peer_with_stream" "se_wg peer_with_stream = 0" "c_out (ln_conn peer_with_stream) = []"
    "range_order (se_streams peer_with_stream) (en_order ?e (se_streams peer_with_stream))"
    "\<not> (\<exists>i. registered peer_with_stream i \<and> st_closeNotify (se_store peer_with_stream ! addr peer_with_stream i))"
    by (auto simp: peer_with_stream_def alloc_stream_def NewSession_def Let_def range_order_def registered_def
        stream_op_defs idle_conn_def split: if_splits)
  ultimately show ?thesis
    using close_session_spec [of peer_with_stream ?e 0] unfolding if_not_P [OF p(5)] by auto
qed

end
