(* ===== verification/Session_Lifecycle.thy ===== *)
theory Session_Lifecycle
  imports Session_Wire
begin

text \<open>
  The goroutines of a session and its wait group (\<open>Start\<close>, \<open>CloseWithError\<close>, \<open>readLoop\<close>,
  \<open>pingLoop\<close> and \<open>cleanupLoop\<close> of \<open>client/internal/multiplex/session.go\<close>), as a step relation:
  which goroutine is where, and who waits for whom. The data the loops work on is the subject of the
  other session theories; here a loop is running, parked inside the close it called itself, or gone.
\<close>

datatype loop_pc = Running | InClose | Gone

record life =
  lf_closed :: bool
  lf_canceled :: bool
  lf_wg :: nat
  lf_read :: loop_pc
  lf_ping :: loop_pc
  lf_clean :: loop_pc
  lf_waiting :: nat
  lf_returned :: nat

text \<open>The state after \<open>Start\<close>: three loops, each counted in the wait group.\<close>

definition life_start :: life where
  "life_start = \<lparr>lf_closed = False, lf_canceled = False, lf_wg = 3, lf_read = Running,
     lf_ping = Running, lf_clean = Running, lf_waiting = 0, lf_returned = 0\<rparr>"

text \<open>
  \<open>app_close\<close> and \<open>read_close\<close> are \<open>CloseWithError\<close> up to its \<open>wg.Wait\<close>, called by the application
  and by the read loop (a frame that cannot be read, a handler's error, or a GO_AWAY frame);
  a call on a closed session returns at once. A loop ends by its \<open>ctx.Done\<close> case; the read loop also at
  the end of the input and the ping loop also when its ping fails. The deferred \<open>wg.Done\<close> runs
  when a loop's function returns, so for the read loop only after its own close has returned.
\<close>

inductive life_step :: "life \<Rightarrow> life \<Rightarrow> bool" where
  app_close: "\<not> lf_closed s \<Longrightarrow>
    life_step s (s\<lparr>lf_closed := True, lf_canceled := True, lf_waiting := lf_waiting s + 1\<rparr>)"
| app_close_again: "lf_closed s \<Longrightarrow> life_step s (s\<lparr>lf_returned := lf_returned s + 1\<rparr>)"
| read_close: "lf_read s = Running \<Longrightarrow> \<not> lf_closed s \<Longrightarrow>
    life_step s (s\<lparr>lf_closed := True, lf_canceled := True, lf_read := InClose\<rparr>)"
| read_end: "lf_read s = Running \<Longrightarrow> life_step s (s\<lparr>lf_read := Gone, lf_wg := lf_wg s - 1\<rparr>)"
| ping_end: "lf_ping s = Running \<Longrightarrow> life_step s (s\<lparr>lf_ping := Gone, lf_wg := lf_wg s - 1\<rparr>)"
| clean_end: "lf_clean s = Running \<Longrightarrow> lf_canceled s \<Longrightarrow>
    life_step s (s\<lparr>lf_clean := Gone, lf_wg := lf_wg s - 1\<rparr>)"
| wait_over_app: "0 < lf_waiting s \<Longrightarrow> lf_wg s = 0 \<Longrightarrow>
    life_step s (s\<lparr>lf_waiting := lf_waiting s - 1, lf_returned := lf_returned s + 1\<rparr>)"
| wait_over_read: "lf_read s = InClose \<Longrightarrow> lf_wg s = 0 \<Longrightarrow>
    life_step s (s\<lparr>lf_read := Gone, lf_wg := lf_wg s - 1\<rparr>)"

abbreviation life_steps :: "life \<Rightarrow> life \<Rightarrow> bool" where
  "life_steps \<equiv> life_step\<^sup>*\<^sup>*"

text \<open>The wait group counts the loops that have not returned.\<close>

definition alive :: "loop_pc \<Rightarrow> nat" where
  "alive pc = (if pc = Gone then 0 else 1)"

definition life_inv :: "life \<Rightarrow> bool" where
  "life_inv s \<longleftrightarrow>
     lf_wg s = alive (lf_read s) + alive (lf_ping s) + alive (lf_clean s) \<and>
     lf_ping s \<noteq> InClose \<and> lf_clean s \<noteq> InClose \<and>
     (lf_read s = InClose \<longrightarrow> lf_closed s) \<and> (lf_closed s \<longrightarrow> lf_canceled s) \<and>
     (0 < lf_waiting s \<longrightarrow> lf_closed s \<and> lf_read s \<noteq> InClose)"

lemma life_inv_start: "life_inv life_start"
  by (simp add: life_inv_def life_start_def alive_def)

lemma life_inv_step: "life_step s s' \<Longrightarrow> life_inv s \<Longrightarrow> life_inv s'"
  by (induction rule: life_step.induct) (auto simp: life_inv_def alive_def split: if_splits)

lemma life_inv_steps: "life_steps s s' \<Longrightarrow> life_inv s \<Longrightarrow> life_inv s'"
  by (induction rule: rtranclp_induct) (auto intro: life_inv_step)

text \<open>A read loop parked in its own close holds the wait group above zero, so nothing frees it.\<close>

lemma read_parked_step: "life_step s s' \<Longrightarrow> life_inv s \<Longrightarrow> lf_read s = InClose \<Longrightarrow> lf_read s' = InClose"
  by (induction rule: life_step.induct) (auto simp: life_inv_def alive_def)

lemma read_parked_steps:
  assumes "life_steps s s'" and "life_inv s" and "lf_read s = InClose"
  shows "lf_read s' = InClose \<and> 0 < lf_wg s'"
proof -
  have "lf_read s' = InClose"
    using assms by (induction rule: rtranclp_induct) (auto intro: read_parked_step life_inv_steps)
  with life_inv_steps [OF assms(1,2)] show ?thesis by (simp add: life_inv_def alive_def)
qed

text \<open>Without that, the loops of a closed session can end one after the other.\<close>

lemma loops_end:
  assumes "life_inv s" and "lf_closed s" and "lf_read s \<noteq> InClose"
  shows "\<exists>s'. life_steps s s' \<and> lf_wg s' = 0 \<and> lf_waiting s' = lf_waiting s \<and> lf_returned s' = lf_returned s"
  using assms
proof (induction "lf_wg s" arbitrary: s rule: less_induct)
  case less
  have via: ?case if "life_step s t" "lf_wg t < lf_wg s" "lf_closed t" "lf_read t \<noteq> InClose"
      "lf_waiting t = lf_waiting s" "lf_returned t = lf_returned s" for t
    using less.hyps [OF that(2) life_inv_step [OF that(1) less.prems(1)] that(3,4)] that
    by (auto intro: converse_rtranclp_into_rtranclp)
  consider "lf_read s = Running" | "lf_ping s = Running" | "lf_clean s = Running" | "lf_wg s = 0"
    using less.prems by (cases "lf_read s"; cases "lf_ping s"; cases "lf_clean s") (auto simp: life_inv_def alive_def)
  then show ?case
  proof cases
    case 1
    show ?thesis by (rule via [OF read_end [OF 1]]) (use less.prems 1 in \<open>auto simp: life_inv_def alive_def\<close>)
  next
    case 2
    show ?thesis by (rule via [OF ping_end [OF 2]]) (use less.prems 2 in \<open>auto simp: life_inv_def alive_def\<close>)
  next
    case 3
    with less.prems have c: "lf_canceled s" by (simp add: life_inv_def)
    show ?thesis by (rule via [OF clean_end [OF 3 c]]) (use less.prems 3 in \<open>auto simp: life_inv_def alive_def\<close>)
  qed auto
qed

text \<open>
  C12: who can close a session. A close the application starts can always come to an end: the three
  loops can finish, after which the call returns. A close the read loop starts, on a bad frame or on
  the peer's GO_AWAY, never returns, whatever the other goroutines do: it waits for a group in which
  the read loop itself is counted.
\<close>

theorem session_close_liveness:
  assumes "life_steps life_start s"
  shows "(0 < lf_waiting s \<longrightarrow>
            (\<exists>s'. life_steps s s' \<and> lf_waiting s' < lf_waiting s \<and> lf_returned s' > lf_returned s)) \<and>
         (lf_read s = InClose \<longrightarrow> (\<forall>s'. life_steps s s' \<longrightarrow> lf_read s' = InClose \<and> 0 < lf_wg s'))"
proof -
  have inv: "life_inv s" using assms life_inv_start life_inv_steps by blast
  have "\<exists>s'. life_steps s s' \<and> lf_waiting s' < lf_waiting s \<and> lf_returned s' > lf_returned s"
    if w: "0 < lf_waiting s"
  proof -
    have "lf_closed s" "lf_read s \<noteq> InClose" using inv w by (auto simp: life_inv_def)
    from loops_end [OF inv this] obtain s1 where
      s1: "life_steps s s1" "lf_wg s1 = 0" "lf_waiting s1 = lf_waiting s" "lf_returned s1 = lf_returned s"
      by blast
    with w have "life_step s1 (s1\<lparr>lf_waiting := lf_waiting s1 - 1, lf_returned := lf_returned s1 + 1\<rparr>)"
      by (intro wait_over_app) simp_all
    with s1 w show ?thesis
      by (intro exI [of _ "s1\<lparr>lf_waiting := lf_waiting s1 - 1, lf_returned := lf_returned s1 + 1\<rparr>"])
         (auto intro: rtranclp.rtrancl_into_rtrancl)
  qed
  with read_parked_steps [OF _ inv] show ?thesis by blast
qed

text \<open>A session the application closes, and one whose read loop closes it.\<close>

definition life_app_closed :: life where
  "life_app_closed = life_start\<lparr>lf_closed := True, lf_canceled := True, lf_waiting := 1\<rparr>"

definition life_read_closed :: life where
  "life_read_closed = life_start\<lparr>lf_closed := True, lf_canceled := True, lf_read := InClose\<rparr>"

theorem session_close_liveness_witness:
  "(\<exists>s'. life_steps life_app_closed s' \<and> lf_waiting s' < 1 \<and> lf_returned s' > 0) \<and>
   (\<exists>s'. life_steps life_read_closed s' \<and> lf_ping s' = Gone \<and> lf_clean s' = Gone \<and>
      lf_read s' = InClose \<and> 0 < lf_wg s')"
proof -
  have "life_step life_start life_app_closed"
    using app_close [of life_start] by (simp add: life_app_closed_def life_start_def)
  from session_close_liveness [OF r_into_rtranclp, OF this]
  have 1: "\<exists>s'. life_steps life_app_closed s' \<and> lf_waiting s' < 1 \<and> lf_returned s' > 0"
    by (simp add: life_app_closed_def life_start_def)
  have "life_step life_start life_read_closed"
    using read_close [of life_start] by (simp add: life_read_closed_def life_start_def)
  note parked = session_close_liveness [OF r_into_rtranclp, OF this]
  let ?t = "life_read_closed\<lparr>lf_ping := Gone, lf_wg := 2\<rparr>"
  have "life_step life_read_closed ?t"
    using ping_end [of life_read_closed] by (simp add: life_read_closed_def life_start_def)
  moreover have "life_step ?t (?t\<lparr>lf_clean := Gone, lf_wg := 1\<rparr>)"
    using clean_end [of ?t] by (simp add: life_read_closed_def life_start_def)
  ultimately have "life_steps life_read_closed (?t\<lparr>lf_clean := Gone, lf_wg := 1\<rparr>)" by simp
  with parked have "\<exists>s'. life_steps life_read_closed s' \<and> lf_ping s' = Gone \<and> lf_clean s' = Gone \<and>
      lf_read s' = InClose \<and> 0 < lf_wg s'"
    by (intro exI [of _ "?t\<lparr>lf_clean := Gone, lf_wg := 1\<rparr>"]) (simp add: life_read_closed_def)
  with 1 show ?thesis by blast
qed

section \<open>The read loop closing its session\<close>

text \<open>
  The protocol error path ends there. When a running session (its loops counted in the wait group)
  reads an over-long or otherwise unreadable frame, the read loop closes the session and parks in that
  close; every stream is closed, and no GO_AWAY frame is sent.
\<close>

theorem protocol_error_parks_read_loop:
  assumes "session_inv s" and "\<not> ln_closed s" and "\<not> se_canceled s" and "0 < se_wg s"
    and "range_order (se_streams s) (en_order (env k) (se_streams s))"
    and "FrameReader_ReadFrame r = (f, r', Some e)" and "e \<noteq> IOErr EOF"
    and "\<forall>i. registered s i \<longrightarrow> \<not> st_closeNotify (se_store s ! addr s i)"
  shows "\<exists>s'. Session_readLoop env k r s = Inr (LoopCloseParked, s') \<and> se_streams s' = [] \<and>
           c_out (ln_conn s') = c_out (ln_conn s)"
proof -
  have no: "\<not> (\<exists>i. registered s i \<and> st_closeNotify (se_store s ! addr s i))" using assms(8) by blast
  obtain s' where "Session_CloseWithError (env k) s ErrorCodeProtocolError = Inr (CloseBlocked, s')"
    "se_streams s' = []" "c_out (ln_conn s') = c_out (ln_conn s)"
    using close_session [OF assms(1,2,5), of ErrorCodeProtocolError] assms(4) unfolding if_not_P [OF no]
    by auto
  with assms(2,3,6,7) show ?thesis
    by (subst Session_readLoop.simps) auto
qed

theorem protocol_error_parks_read_loop_witness:
  "\<exists>s'. Session_readLoop (\<lambda>_. \<lparr>en_now = 0, en_pickCtx = False, en_order = map fst\<rparr>) 0
      \<lparr>rd_bytes = [0, 0, 0], rd_end = EOF\<rparr> (Session_Start (NewSession idle_conn None True)) =
      Inr (LoopCloseParked, s') \<and> se_streams s' = [] \<and> c_out (ln_conn s') = []"
proof -
  let ?s = "Session_Start (NewSession idle_conn None True)"
  have "session_inv ?s" by (simp add: Session_Start_def session_inv_fields NewSession_inv)
  moreover have "FrameReader_ReadFrame \<lparr>rd_bytes = [0, 0, 0], rd_end = EOF\<rparr> =
      (empty_frame, \<lparr>rd_bytes = [], rd_end = EOF\<rparr>, Some (IOErr ErrUnexpectedEOF))"
    by (simp add: FrameReader_ReadFrame_def Frame_ReadFrom_def ReadFull_def FrameHeaderLength_def)
  ultimately show ?thesis
    using protocol_error_parks_read_loop [of ?s "\<lambda>_. \<lparr>en_now = 0, en_pickCtx = False, en_order = map fst\<rparr>" 0]
    by (simp add: Session_Start_def NewSession_def registered_def range_order_def idle_conn_def)
qed

end
