(* ===== verification/Mux_Manager.thy ===== *)
theory Mux_Manager
  imports Session_Wire
begin

text \<open>
  The session registry and the connection pool on top of the sessions
  (\<open>client/internal/multiplex/manager.go\<close>). Sessions are objects in a store and the registry maps
  a key, built from the two addresses and the role, to an address of the store; a goroutine per
  session waits for the session's context and then removes the key. Each such goroutine is an entry
  of \<open>mm_monitors\<close> until it has run. Methods run under the registry's lock and are one step each.
  \<open>Session.Close\<close> waits for the session's loops; the registry holds no lock while it waits, so the
  wait has no effect on the modelled state.
\<close>

section \<open>The registry\<close>

record mux_manager =
  mm_store :: "session list"
  mm_sessions :: "(string \<times> nat) list"
  mm_config :: session_config
  mm_totalSessions :: int
  mm_activeSessions :: int
  mm_monitors :: "(string \<times> nat) list"

definition NewManager :: "session_config option \<Rightarrow> mux_manager" where
  "NewManager config =
     \<lparr>mm_store = [], mm_sessions = [],
      mm_config = (case config of None \<Rightarrow> DefaultSessionConfig | Some c \<Rightarrow> c),
      mm_totalSessions = 0, mm_activeSessions = 0, mm_monitors = []\<rparr>"

definition New_manager :: mux_manager where
  "New_manager = NewManager None"

definition session_key :: "string \<Rightarrow> string \<Rightarrow> bool \<Rightarrow> string" where
  "session_key local remote isClient =
     local @ ''-'' @ remote @ ''-'' @ (if isClient then ''true'' else ''false'')"

definition Manager_CreateSession ::
    "mux_manager \<Rightarrow> conn \<Rightarrow> string \<Rightarrow> string \<Rightarrow> bool \<Rightarrow> nat \<times> mux_manager" where
  "Manager_CreateSession m conn local remote isClient =
     (let key = session_key local remote isClient in
      case map_of (mm_sessions m) key of
        Some a \<Rightarrow> (a, m)
      | None \<Rightarrow>
          let a = length (mm_store m);
              s = Session_Start (NewSession conn (Some (mm_config m)) isClient)
          in (a, m\<lparr>mm_store := mm_store m @ [s], mm_sessions := AList.update key a (mm_sessions m),
                   mm_totalSessions := add64 (mm_totalSessions m) 1,
                   mm_activeSessions := add64 (mm_activeSessions m) 1,
                   mm_monitors := (key, a) # mm_monitors m\<rparr>))"

definition Manager_GetSession :: "mux_manager \<Rightarrow> string \<Rightarrow> nat option" where
  "Manager_GetSession m key = map_of (mm_sessions m) key"

definition Manager_GetOrCreateSession ::
    "mux_manager \<Rightarrow> conn \<Rightarrow> string \<Rightarrow> string \<Rightarrow> bool \<Rightarrow> nat \<times> mux_manager" where
  "Manager_GetOrCreateSession m conn local remote isClient =
     (case Manager_GetSession m (session_key local remote isClient) of
        Some a \<Rightarrow> if \<not> ln_closed (mm_store m ! a) then (a, m)
                  else Manager_CreateSession m conn local remote isClient
      | None \<Rightarrow> Manager_CreateSession m conn local remote isClient)"

abbreviation put_session :: "mux_manager \<Rightarrow> nat \<Rightarrow> session \<Rightarrow> mux_manager" where
  "put_session m a s \<equiv> m\<lparr>mm_store := (mm_store m)[a := s]\<rparr>"

definition Manager_CloseSession :: "env \<Rightarrow> mux_manager \<Rightarrow> string \<Rightarrow> mux_manager res" where
  "Manager_CloseSession env m key =
     (case map_of (mm_sessions m) key of
        None \<Rightarrow> Inr m
      | Some a \<Rightarrow>
          let m = m\<lparr>mm_sessions := AList.delete key (mm_sessions m),
                    mm_activeSessions := sub64 (mm_activeSessions m) 1\<rparr>
          in and_then (Session_Close env (mm_store m ! a)) (\<lambda>(r, s). Inr (put_session m a s)))"

fun close_sessions_loop :: "env \<Rightarrow> nat list \<Rightarrow> mux_manager \<Rightarrow> mux_manager res" where
  "close_sessions_loop env [] m = Inr m"
| "close_sessions_loop env (a # as) m =
     and_then (Session_Close env (mm_store m ! a)) (\<lambda>(r, s). close_sessions_loop env as (put_session m a s))"

text \<open>\<open>as\<close> are the addresses of the sessions in the order the final \<open>range\<close> loop visits them.\<close>

definition Manager_CloseAllSessions :: "env \<Rightarrow> mux_manager \<Rightarrow> nat list \<Rightarrow> mux_manager res" where
  "Manager_CloseAllSessions env m as =
     close_sessions_loop env as (m\<lparr>mm_sessions := [], mm_activeSessions := 0\<rparr>)"

definition Manager_Stop :: "env \<Rightarrow> mux_manager \<Rightarrow> nat list \<Rightarrow> mux_manager res" where
  "Manager_Stop env m as = Manager_CloseAllSessions env m as"

text \<open>The deferred part of a monitor whose session's context is done.\<close>

definition Manager_monitorSession :: "mux_manager \<Rightarrow> string \<times> nat \<Rightarrow> mux_manager" where
  "Manager_monitorSession m mon =
     m\<lparr>mm_sessions := AList.delete (fst mon) (mm_sessions m),
       mm_activeSessions := sub64 (mm_activeSessions m) 1,
       mm_monitors := remove1 mon (mm_monitors m)\<rparr>"

record session_stats =
  ss_active_streams :: nat
  ss_bytes_sent :: int
  ss_bytes_received :: int

definition Session_GetStats :: "session \<Rightarrow> session_stats" where
  "Session_GetStats s =
     \<lparr>ss_active_streams = length (se_streams s), ss_bytes_sent = ln_bytesSent s,
      ss_bytes_received = se_bytesReceived s\<rparr>"

record manager_stats =
  ms_total_sessions :: int
  ms_active_sessions :: int
  ms_active_streams :: int
  ms_bytes_transferred :: int

definition Manager_GetStats :: "mux_manager \<Rightarrow> manager_stats" where
  "Manager_GetStats m =
     (let stats = map (\<lambda>(k, a). Session_GetStats (mm_store m ! a)) (mm_sessions m) in
      \<lparr>ms_total_sessions = mm_totalSessions m,
       ms_active_sessions = int (length (mm_sessions m)),
       ms_active_streams = fold (\<lambda>st n. add64 n (int (ss_active_streams st))) stats 0,
       ms_bytes_transferred =
         fold (\<lambda>st n. add64 (add64 n (ss_bytes_sent st)) (ss_bytes_received st)) stats 0\<rparr>)"

section \<open>Multiplexed connections and the pool\<close>

text \<open>A connection is a session with one stream, kept at its address in the session's store.\<close>

record mux_conn =
  mc_session :: nat
  mc_stream :: nat

definition NewMultiplexedConn ::
    "env \<Rightarrow> conn \<Rightarrow> bool \<Rightarrow> session_config option \<Rightarrow> ((mux_err \<times> session) + (session \<times> nat)) res" where
  "NewMultiplexedConn env conn isClient config =
     (let manager = NewManager config;
          (a, manager) = Manager_CreateSession manager conn [] [] isClient
      in and_then (Session_OpenStream env (mm_store manager ! a)) (\<lambda>(r, session).
           case r of
             Inl e \<Rightarrow> and_then (Session_Close env session) (\<lambda>(c, session). Inr (Inl (e, session)))
           | Inr st \<Rightarrow> Inr (Inr (session, st))))"

record conn_pool =
  cp_store :: "session list"
  cp_conns :: "(string \<times> mux_conn) list"
  cp_config :: "session_config option"
  cp_monitors :: "(string \<times> nat) list"

definition NewConnectionPool :: "session_config option \<Rightarrow> conn_pool" where
  "NewConnectionPool config = \<lparr>cp_store = [], cp_conns = [], cp_config = config, cp_monitors = []\<rparr>"

datatype pool_err = DialErr io_err | OpenErr mux_err

text \<open>
  The part of \<open>GetConnection\<close> after the second look-up; \<open>dialed\<close> is what the dialer returns. A
  connection whose stream cannot be opened is closed twice and dropped.
\<close>

definition pool_dial ::
    "env \<Rightarrow> conn_pool \<Rightarrow> string \<Rightarrow> (io_err + conn) \<Rightarrow> ((pool_err + mux_conn) \<times> conn_pool) res" where
  "pool_dial env cp address dialed =
     (case dialed of
        Inl e \<Rightarrow> Inr (Inl (DialErr e), cp)
      | Inr rawConn \<Rightarrow>
          and_then (NewMultiplexedConn env rawConn True (cp_config cp)) (\<lambda>r.
            Inr (case r of
               Inl (e, s) \<Rightarrow> (Inl (OpenErr e), cp\<lparr>cp_store := cp_store cp @ [s]\<rparr>)
             | Inr (s, st) \<Rightarrow>
                 let a = length (cp_store cp); c = \<lparr>mc_session = a, mc_stream = st\<rparr>
                 in (Inr c, cp\<lparr>cp_store := cp_store cp @ [s],
                               cp_conns := AList.update address c (cp_conns cp),
                               cp_monitors := (address, a) # cp_monitors cp\<rparr>))))"

definition ConnectionPool_GetConnection ::
    "env \<Rightarrow> conn_pool \<Rightarrow> string \<Rightarrow> (io_err + conn) \<Rightarrow> ((pool_err + mux_conn) \<times> conn_pool) res" where
  "ConnectionPool_GetConnection env cp address dialed =
     (case map_of (cp_conns cp) address of
        Some c \<Rightarrow>
          if \<not> ln_closed (cp_store cp ! mc_session c) then Inr (Inr c, cp)
          else pool_dial env (cp\<lparr>cp_conns := AList.delete address (cp_conns cp)\<rparr>) address dialed
      | None \<Rightarrow> pool_dial env cp address dialed)"

definition ConnectionPool_monitorConnection :: "conn_pool \<Rightarrow> string \<times> nat \<Rightarrow> conn_pool" where
  "ConnectionPool_monitorConnection cp mon =
     cp\<lparr>cp_conns := AList.delete (fst mon) (cp_conns cp), cp_monitors := remove1 mon (cp_monitors cp)\<rparr>"

fun close_conns_loop :: "env \<Rightarrow> nat list \<Rightarrow> conn_pool \<Rightarrow> conn_pool res" where
  "close_conns_loop env [] cp = Inr cp"
| "close_conns_loop env (a # as) cp =
     and_then (Session_Close env (cp_store cp ! a)) (\<lambda>(r, s).
       close_conns_loop env as (cp\<lparr>cp_store := (cp_store cp)[a := s]\<rparr>))"

definition ConnectionPool_CloseAll :: "env \<Rightarrow> conn_pool \<Rightarrow> nat list \<Rightarrow> conn_pool res" where
  "ConnectionPool_CloseAll env cp as = close_conns_loop env as (cp\<lparr>cp_conns := []\<rparr>)"

section \<open>Accounting of the registry\<close>

text \<open>
  What happens to a registry between a start and a stop: sessions are created and looked up, closed
  through the registry, change on their own, and end. \<open>n\<close> counts the closes that hit a session.
\<close>

inductive manager_run :: "session_config option \<Rightarrow> nat \<Rightarrow> mux_manager \<Rightarrow> bool"
  for config :: "session_config option" where
  start: "manager_run config 0 (NewManager config)"
| create: "manager_run config n m \<Longrightarrow>
    manager_run config n (snd (Manager_CreateSession m conn local remote isClient))"
| lookup: "manager_run config n m \<Longrightarrow>
    manager_run config n (snd (Manager_GetOrCreateSession m conn local remote isClient))"
| close: "manager_run config n m \<Longrightarrow> Manager_CloseSession env m key = Inr m' \<Longrightarrow>
    manager_run config (if Manager_GetSession m key = None then n else Suc n) m'"
| session: "manager_run config n m \<Longrightarrow> manager_run config n (put_session m a s)"
| monitor: "manager_run config n m \<Longrightarrow> (key, a) \<in> set (mm_monitors m) \<Longrightarrow> se_canceled (mm_store m ! a) \<Longrightarrow>
    manager_run config n (Manager_monitorSession m (key, a))"

lemma create_count:
  assumes "mm_activeSessions m = wrap64 (int (length (mm_monitors m)) - k)"
  shows "mm_activeSessions (snd (Manager_CreateSession m conn l r c)) =
     wrap64 (int (length (mm_monitors (snd (Manager_CreateSession m conn l r c)))) - k)"
  using assms
  by (auto simp: Manager_CreateSession_def Let_def wrap64_wrap_add split: option.splits)
     (simp add: algebra_simps)

text \<open>
  The registry's count of active sessions. Over any run, the counter is the number of sessions
  whose end has not been noticed yet, minus the number of sessions closed through the registry: a session
  closed by \<open>CloseSession\<close> is counted down there and again when its monitor runs. The counter is
  right exactly as long as nobody closes a session through the registry.
\<close>

theorem active_sessions_count:
  assumes "manager_run config n m"
  shows "mm_activeSessions m = wrap64 (int (length (mm_monitors m)) - int n)"
  using assms
proof (induction rule: manager_run.induct)
  case start
  then show ?case by (simp add: NewManager_def)
next
  case (create n m conn local remote isClient)
  show ?case by (rule create_count [OF create.IH])
next
  case (lookup n m conn local remote isClient)
  then show ?case
    using create_count by (auto simp: Manager_GetOrCreateSession_def split: option.splits)
next
  case (close n m env key m')
  then show ?case
    by (auto simp: Manager_CloseSession_def Manager_GetSession_def Let_def and_then_eq_Inr_iff
        wrap64_wrap_diff algebra_simps split: option.splits)
next
  case (session n m a s)
  then show ?case by simp
next
  case (monitor n m key a)
  then have "length (mm_monitors m) = Suc (length (remove1 (key, a) (mm_monitors m)))"
    by (simp add: length_remove1) (metis One_nat_def Suc_pred length_pos_if_in_set)
  with monitor show ?case
    by (simp add: Manager_monitorSession_def wrap64_wrap_diff algebra_simps)
qed

text \<open>One session created, closed through the registry and noticed by its monitor leaves the count at -1.\<close>

definition one_env :: env where
  "one_env = \<lparr>en_now = 0, en_pickCtx = False, en_order = map fst\<rparr>"

definition one_session :: mux_manager where
  "one_session = snd (Manager_CreateSession (NewManager None) idle_conn ''a'' ''b'' True)"

theorem active_sessions_count_witness:
  "\<exists>m. Manager_CloseSession one_env one_session ''a-b-true'' = Inr m \<and>
     mm_activeSessions (Manager_monitorSession m (''a-b-true'', 0)) = -1"
proof -
  have run: "manager_run None 0 one_session"
    unfolding one_session_def by (intro manager_run.create manager_run.start)
  have get: "Manager_GetSession one_session ''a-b-true'' = Some 0"
    and mons: "mm_monitors one_session = [(''a-b-true'', 0)]"
    by (simp_all add: one_session_def Manager_CreateSession_def Manager_GetSession_def NewManager_def
        session_key_def Let_def)
  obtain m where m: "Manager_CloseSession one_env one_session ''a-b-true'' = Inr m"
    "mm_monitors m = [(''a-b-true'', 0)]" "se_canceled (mm_store m ! 0)"
    by (simp add: one_session_def one_env_def Manager_CloseSession_def Manager_CreateSession_def NewManager_def
        session_key_def Session_Close_def Session_CloseWithError_def Session_closeAllStreams_def NewSession_def
        Session_Start_def Session_writeFrame_def Let_def)
  have "manager_run None (Suc 0) m" using manager_run.close [OF run m(1)] get by simp
  then have "manager_run None (Suc 0) (Manager_monitorSession m (''a-b-true'', 0))"
    by (rule manager_run.monitor) (simp_all add: m)
  from active_sessions_count [OF this] m show ?thesis
    by (auto simp: Manager_monitorSession_def)
qed

section \<open>What a lookup returns\<close>

text \<open>
  The lookup hands out closed sessions. While a closed session is still registered, which it is
  until its monitor has run, \<open>GetOrCreateSession\<close> returns that closed session and changes nothing,
  although it checks for the case: the creation it falls back to finds the same entry. On a key that is not
  registered it creates, registers and returns a fresh open session under exactly that key.
\<close>

theorem get_or_create_session:
  "(case Manager_GetSession m (session_key local remote isClient) of
           Some a \<Rightarrow> Manager_GetOrCreateSession m conn local remote isClient = (a, m)
         | None \<Rightarrow> (\<exists>m'. Manager_GetOrCreateSession m conn local remote isClient = (length (mm_store m), m') \<and>
             \<not> ln_closed (mm_store m' ! length (mm_store m)) \<and>
             mm_store m' = mm_store m @ [mm_store m' ! length (mm_store m)] \<and>
             Manager_GetSession m' =
               (Manager_GetSession m)(session_key local remote isClient \<mapsto> length (mm_store m))))"
  by (auto simp: Manager_GetOrCreateSession_def Manager_GetSession_def Manager_CreateSession_def Let_def
      Session_Start_def NewSession_def fun_eq_iff split: option.splits)

theorem get_or_create_session_witness:
  "Manager_GetOrCreateSession (put_session one_session 0 ((mm_store one_session ! 0)\<lparr>ln_closed := True\<rparr>))
     idle_conn ''a'' ''b'' True = (0, put_session one_session 0 ((mm_store one_session ! 0)\<lparr>ln_closed := True\<rparr>))"
  using get_or_create_session [of "put_session one_session 0 ((mm_store one_session ! 0)\<lparr>ln_closed := True\<rparr>)"
      idle_conn "''a''" "''b''" True]
  by (simp add: session_key_def one_session_def Manager_CreateSession_def NewManager_def Manager_GetSession_def
      Let_def)

lemma OpenStream_open:
  assumes "Session_OpenStream env s = Inr (Inr a, s')"
  shows "\<not> ln_closed s'"
proof -
  have "\<not> ln_closed s1" if "Session_writeFrame s0 f = (None, s1)" for s0 s1 :: session and f
    using that by (auto simp: Session_writeFrame_def split: if_splits prod.splits option.splits)
  with assms show ?thesis
    by (auto simp: Session_OpenStream_def Session_OpenStreamWithPriority_def Let_def and_then_eq_Inr_iff
        split: if_splits prod.splits option.splits)
qed

lemma NewMultiplexedConn_open:
  assumes "NewMultiplexedConn env conn isClient config = Inr (Inr (s, st))"
  shows "\<not> ln_closed s"
proof -
  obtain a m where m: "Manager_CreateSession (NewManager config) conn [] [] isClient = (a, m)" by fastforce
  from assms m obtain r s' where "Session_OpenStream env (mm_store m ! a) = Inr (r, s')"
    and "(case r of Inl e \<Rightarrow> and_then (Session_Close env s') (\<lambda>(c, s'). Inr (Inl (e, s')))
          | Inr st \<Rightarrow> Inr (Inr (s', st))) = Inr (Inr (s, st))"
    by (auto simp: NewMultiplexedConn_def and_then_eq_Inr_iff)
  then show ?thesis
    by (cases r) (auto simp: and_then_eq_Inr_iff dest: OpenStream_open)
qed

lemma pool_dial_open:
  assumes "pool_dial env q address dialed = Inr (Inr c, cp')"
  shows "\<not> ln_closed (cp_store cp' ! mc_session c) \<and> map_of (cp_conns cp') address = Some c \<and>
      (\<forall>other. other \<noteq> address \<longrightarrow> map_of (cp_conns cp') other = map_of (cp_conns q) other)"
proof -
  from assms obtain raw r where raw: "NewMultiplexedConn env raw True (cp_config q) = Inr r"
    and r: "(case r of
         Inl (e, s) \<Rightarrow> (Inl (OpenErr e), q\<lparr>cp_store := cp_store q @ [s]\<rparr>)
       | Inr (s, st) \<Rightarrow>
           let a = length (cp_store q); c = \<lparr>mc_session = a, mc_stream = st\<rparr>
           in (Inr c, q\<lparr>cp_store := cp_store q @ [s], cp_conns := AList.update address c (cp_conns q),
                  cp_monitors := (address, a) # cp_monitors q\<rparr>)) = (Inr c, cp')"
    by (cases dialed) (auto simp: pool_dial_def and_then_eq_Inr_iff)
  then obtain s st where "r = Inr (s, st)" "c = \<lparr>mc_session = length (cp_store q), mc_stream = st\<rparr>"
    "cp' = q\<lparr>cp_store := cp_store q @ [s], cp_conns := AList.update address c (cp_conns q),
           cp_monitors := (address, length (cp_store q)) # cp_monitors q\<rparr>"
    by (cases r) (auto simp: Let_def)
  then show ?thesis using NewMultiplexedConn_open raw by auto
qed

text \<open>
  The pool never hands out a closed connection. Whatever is registered under the address,
  \<open>GetConnection\<close> returns a connection whose session is open, registers it under the address
  and leaves the other addresses alone; if the dialer fails, or the stream cannot be opened, it returns
  that error.
\<close>

theorem pool_connection_open:
  assumes "ConnectionPool_GetConnection env cp address dialed = Inr (Inr c, cp')"
  shows "\<not> ln_closed (cp_store cp' ! mc_session c) \<and> map_of (cp_conns cp') address = Some c \<and>
         (\<forall>other. other \<noteq> address \<longrightarrow> map_of (cp_conns cp') other = map_of (cp_conns cp) other)"
  using assms pool_dial_open
  by (fastforce simp: ConnectionPool_GetConnection_def split: option.splits if_splits)

theorem pool_connection_open_witness:
  "\<exists>c cp. ConnectionPool_GetConnection one_env (NewConnectionPool None) ''srv'' (Inr idle_conn) = Inr (Inr c, cp) \<and>
     \<not> ln_closed (cp_store cp ! mc_session c) \<and> map_of (cp_conns cp) ''srv'' = Some c"
proof -
  have "\<exists>c cp. ConnectionPool_GetConnection one_env (NewConnectionPool None) ''srv'' (Inr idle_conn) = Inr (Inr c, cp)"
    by (simp add: ConnectionPool_GetConnection_def pool_dial_def NewConnectionPool_def NewMultiplexedConn_def
        Manager_CreateSession_def NewManager_def Session_OpenStream_def Session_OpenStreamWithPriority_def
        Session_Start_def NewSession_def DefaultSessionConfig_def generateStreamID_rec MaxStreamID_def
        alloc_stream_def Session_writeFrame_def WriteFrame_healthy idle_conn_def Let_def)
  then show ?thesis
    using pool_connection_open [of one_env "NewConnectionPool None" "''srv''" "Inr idle_conn"]
    by (auto simp: NewConnectionPool_def)
qed

text \<open>
  A monitor removes whoever holds its key. When a session is closed through the registry and a new
  one is created under the same key before the old monitor has run, that monitor unregisters the
  new, open session.
\<close>

theorem stale_monitor_unregisters:
  assumes "Manager_GetSession m (session_key local remote isClient) = Some a"
    and "Manager_CloseSession env m (session_key local remote isClient) = Inr m1"
    and "Manager_CreateSession m1 conn local remote isClient = (b, m2)"
  shows "\<not> ln_closed (mm_store m2 ! b) \<and> Manager_GetSession m2 (session_key local remote isClient) = Some b \<and>
         Manager_GetSession (Manager_monitorSession m2 (session_key local remote isClient, a))
           (session_key local remote isClient) = None"
  using assms
  by (auto simp: Manager_GetSession_def Manager_CloseSession_def Let_def and_then_eq_Inr_iff
      Manager_CreateSession_def Manager_monitorSession_def Session_Start_def NewSession_def nth_append)

theorem stale_monitor_unregisters_witness:
  "\<exists>m1 b m2. Manager_CloseSession one_env one_session (session_key ''a'' ''b'' True) = Inr m1 \<and>
     Manager_CreateSession m1 idle_conn ''a'' ''b'' True = (b, m2) \<and> \<not> ln_closed (mm_store m2 ! b) \<and>
     Manager_GetSession (Manager_monitorSession m2 (session_key ''a'' ''b'' True, 0)) (session_key ''a'' ''b'' True) = None"
proof -
  have g: "Manager_GetSession one_session (session_key ''a'' ''b'' True) = Some 0"
    by (simp add: one_session_def Manager_CreateSession_def Manager_GetSession_def NewManager_def Let_def)
  obtain m1 where m1: "Manager_CloseSession one_env one_session (session_key ''a'' ''b'' True) = Inr m1"
    by (simp add: one_session_def one_env_def Manager_CloseSession_def Manager_CreateSession_def NewManager_def
        Session_Close_def Session_CloseWithError_def Session_closeAllStreams_def NewSession_def
        Session_Start_def Session_writeFrame_def Let_def)
  obtain b m2 where m2: "Manager_CreateSession m1 idle_conn ''a'' ''b'' True = (b, m2)" by fastforce
  from stale_monitor_unregisters [OF g m1 m2] m1 m2 show ?thesis by blast
qed

end
