(* ===== verification/Go_Float.thy ===== *)
theory Go_Float
  imports Prelude Complex_Main "HOL-Library.Log_Nat"
begin

text \<open>
  Go's \<open>float64\<close> where the modelled files use it: rates, utilizations and backoff times, all of them
  far inside the range of the format, so that no operation overflows or underflows. A value is then a
  rational number, and every operation of the source is the exact one followed by \<open>fl\<close>, the
  rounding to the nearest 53-bit value with ties to even. The conversion to \<open>int64\<close>
  truncates; its result for a value outside \<open>int64\<close> depends on the processor and is a parameter.
\<close>

section \<open>Rounding\<close>

text \<open>The exponent of the leading bit of a positive rational.\<close>

definition leading :: "rat \<Rightarrow> int" where
  "leading x =
     (case quotient_of x of (a, b) \<Rightarrow>
        let e = int (floorlog 2 (nat a)) - int (floorlog 2 (nat b))
        in if 2 powi e \<le> x then e else e - 1)"

definition round_even :: "rat \<Rightarrow> int" where
  "round_even m =
     (let f = \<lfloor>m\<rfloor>; d = m - of_int f
      in if d < 1 / 2 then f else if d > 1 / 2 then f + 1 else if even f then f else f + 1)"

definition fl_pos :: "rat \<Rightarrow> rat" where
  "fl_pos x = (let u = 2 powi (leading x - 52) in of_int (round_even (x / u)) * u)"

definition fl :: "rat \<Rightarrow> rat" where
  "fl x = (if x = 0 then 0 else if x > 0 then fl_pos x else - fl_pos (- x))"

abbreviation float64 :: "int \<Rightarrow> rat" where
  "float64 n \<equiv> fl (of_int n)"

abbreviation fmul :: "rat \<Rightarrow> rat \<Rightarrow> rat" where
  "fmul a b \<equiv> fl (a * b)"

abbreviation fdiv :: "rat \<Rightarrow> rat \<Rightarrow> rat" where
  "fdiv a b \<equiv> fl (a / b)"

abbreviation fadd :: "rat \<Rightarrow> rat \<Rightarrow> rat" where
  "fadd a b \<equiv> fl (a + b)"

abbreviation fsub :: "rat \<Rightarrow> rat \<Rightarrow> rat" where
  "fsub a b \<equiv> fl (a - b)"

definition trunc :: "rat \<Rightarrow> int" where
  "trunc x = (if x \<ge> 0 then \<lfloor>x\<rfloor> else \<lceil>x\<rceil>)"

text \<open>\<open>oor\<close> is what the processor gives for a value out of range.\<close>

definition to_int64 :: "(rat \<Rightarrow> int) \<Rightarrow> rat \<Rightarrow> int" where
  "to_int64 oor x = (if in_int64 (trunc x) then trunc x else oor x)"

text \<open>
  The functions of \<open>math\<close> whose results are not fixed by the format, and the conversion out of range, as
  a parameter of the operations that call them.
\<close>

record go_math =
  gm_Exp :: "rat \<Rightarrow> rat"
  gm_Log10 :: "rat \<Rightarrow> rat"
  gm_Sqrt :: "rat \<Rightarrow> rat"
  gm_Pow :: "rat \<Rightarrow> rat \<Rightarrow> rat"
  gm_oor :: "rat \<Rightarrow> int"

section \<open>Error of one rounding\<close>

lemma floorlog2_bounds:
  assumes "0 < n"
  shows "(2 :: rat) powi (int (floorlog 2 n) - 1) \<le> of_nat n" "(of_nat n :: rat) < 2 powi int (floorlog 2 n)"
proof -
  have "2 ^ (floorlog 2 n - 1) \<le> n" "n < 2 ^ floorlog 2 n"
    using floorlog_bounds [of n 2] assms by auto
  then have le: "(2 :: rat) ^ (floorlog 2 n - 1) \<le> of_nat n" and lt: "(of_nat n :: rat) < 2 ^ floorlog 2 n"
    by (metis of_nat_le_iff of_nat_numeral of_nat_power) (metis \<open>n < 2 ^ floorlog 2 n\<close> of_nat_less_iff of_nat_numeral of_nat_power)
  have "floorlog 2 n > 0" using assms by (simp add: floorlog_def)
  then have "int (floorlog 2 n) - 1 = int (floorlog 2 n - 1)" by simp
  with le show "(2 :: rat) powi (int (floorlog 2 n) - 1) \<le> of_nat n"
    by (simp only: power_int_of_nat)
  show "(of_nat n :: rat) < 2 powi int (floorlog 2 n)" using lt by (simp add: power_int_of_nat)
qed

lemma leading_le:
  assumes "0 < x"
  shows "2 powi leading x \<le> x"
proof -
  obtain a b where q: "quotient_of x = (a, b)" by fastforce
  have b: "0 < b" using quotient_of_denom_pos [OF q] .
  have x: "x = of_int a / of_int b" using quotient_of_div [OF q] .
  have a: "0 < a" using assms b x by (simp add: zero_less_divide_iff)
  let ?la = "int (floorlog 2 (nat a))" and ?lb = "int (floorlog 2 (nat b))"
  have "(2 :: rat) powi (?la - 1) \<le> of_int a" using floorlog2_bounds(1) [of "nat a"] a by simp
  moreover have "(of_int b :: rat) < 2 powi ?lb" using floorlog2_bounds(2) [of "nat b"] b by simp
  moreover have "(2 :: rat) powi (?la - ?lb - 1) * 2 powi ?lb = 2 powi (?la - 1)"
    by (subst power_int_add [symmetric]) simp_all
  ultimately have "(2 :: rat) powi (?la - ?lb - 1) * of_int b \<le> of_int a"
    by (smt (verit, best) mult_left_mono zero_le_power_int zero_le_numeral less_imp_le order_trans)
  then have "(2 :: rat) powi (?la - ?lb - 1) \<le> x"
    using b by (simp add: x pos_le_divide_eq)
  then show ?thesis by (simp add: leading_def q Let_def)
qed

lemma round_even_error: "\<bar>of_int (round_even m) - m\<bar> \<le> 1 / 2"
proof -
  define f where "f = \<lfloor>m\<rfloor>"
  have "of_int f \<le> m" "m < of_int f + 1" unfolding f_def by linarith+
  then show ?thesis
    unfolding round_even_def Let_def f_def [symmetric] by (auto simp: abs_le_iff)
qed

lemma fl_pos_error:
  assumes "0 < x"
  shows "\<bar>fl_pos x - x\<bar> \<le> x / 2 ^ 53"
proof -
  define u :: rat where "u = 2 powi (leading x - 52)"
  have u: "0 < u" by (simp add: u_def)
  have "fl_pos x - x = (of_int (round_even (x / u)) - x / u) * u"
    using u by (simp add: fl_pos_def Let_def u_def [symmetric] left_diff_distrib)
  then have "\<bar>fl_pos x - x\<bar> = \<bar>of_int (round_even (x / u)) - x / u\<bar> * u"
    using u by (simp add: abs_mult)
  also have "\<dots> \<le> 1 / 2 * u"
    using u round_even_error [of "x / u"] by (intro mult_right_mono) auto
  also have "1 / 2 * u = 2 powi leading x / 2 ^ 53"
    by (simp add: u_def power_int_diff)
  also have "\<dots> \<le> x / 2 ^ 53" using leading_le [OF assms] by (intro divide_right_mono) auto
  finally show ?thesis .
qed

lemma fl_zero [simp]: "fl 0 = 0"
  by (simp add: fl_def)

lemma fl_error: "\<bar>fl x - x\<bar> \<le> \<bar>x\<bar> / 2 ^ 53"
proof -
  consider "x = 0" | "0 < x" | "x < 0" by linarith
  then show ?thesis
  proof cases
    case 3
    then have "fl x - x = - (fl_pos (- x) - (- x))" by (simp add: fl_def)
    then have "\<bar>fl x - x\<bar> = \<bar>fl_pos (- x) - (- x)\<bar>" by (simp only: abs_minus_cancel)
    then show ?thesis using fl_pos_error [of "- x"] 3 by simp
  qed (use fl_pos_error [of x] in \<open>simp_all add: fl_def\<close>)
qed

lemma fl_bounds:
  assumes "0 \<le> x"
  shows "fl x \<le> x * (1 + 1 / 2 ^ 53)" "x * (1 - 1 / 2 ^ 53) \<le> fl x"
proof -
  have "fl x - x \<le> x / 2 ^ 53" "x - fl x \<le> x / 2 ^ 53"
    using fl_error [of x] assms by linarith+
  then show "fl x \<le> x * (1 + 1 / 2 ^ 53)" "x * (1 - 1 / 2 ^ 53) \<le> fl x"
    by (simp_all add: distrib_left right_diff_distrib)
qed

lemma fl_nonneg: "0 \<le> x \<Longrightarrow> 0 \<le> fl x"
  by (rule order_trans [OF _ fl_bounds(2)]) simp_all

text \<open>Numbers the sources use that the format represents exactly.\<close>

lemma leading_less:
  assumes "0 < x"
  shows "x < 2 powi (leading x + 1)"
proof -
  obtain a b where q: "quotient_of x = (a, b)" by fastforce
  have b: "0 < b" using quotient_of_denom_pos [OF q] .
  have x: "x = of_int a / of_int b" using quotient_of_div [OF q] .
  have a: "0 < a" using assms b x by (simp add: zero_less_divide_iff)
  let ?la = "int (floorlog 2 (nat a))" and ?lb = "int (floorlog 2 (nat b))"
  have "(of_int a :: rat) < 2 powi ?la" using floorlog2_bounds(2) [of "nat a"] a by simp
  also have "(2 :: rat) powi ?la = 2 powi (?la - ?lb + 1) * 2 powi (?lb - 1)"
    by (subst power_int_add [symmetric]) simp_all
  also have "\<dots> \<le> 2 powi (?la - ?lb + 1) * of_int b"
    using floorlog2_bounds(1) [of "nat b"] b by (intro mult_left_mono) simp_all
  finally have "x < 2 powi (?la - ?lb + 1)" using b by (simp add: x pos_divide_less_eq)
  then show ?thesis by (auto simp: leading_def q Let_def not_le)
qed

lemma round_even_int [simp]: "round_even (of_int m) = m"
  by (simp add: round_even_def)

lemma fl_int:
  assumes "0 \<le> n" and "n < 2 ^ 53"
  shows "fl (of_int n) = of_int n"
proof (cases "n = 0")
  case False
  with assms have pos: "0 < (of_int n :: rat)" by simp
  have "(2 :: rat) powi leading (of_int n) < 2 powi 53"
  proof -
    have "(of_int n :: rat) < of_int (2 ^ 53)" using assms(2) by (simp only: of_int_less_iff)
    with leading_le [OF pos] show ?thesis by simp
  qed
  then have "leading (of_int n) \<le> 52"
    using power_int_increasing [of 53 "leading (of_int n)" "2 :: rat"] by (cases "53 \<le> leading (of_int n)") auto
  then obtain k where k: "leading (of_int n) - 52 = - int k"
    by (intro that [of "nat (52 - leading (of_int n))"]) simp
  have "(of_int n :: rat) / 2 powi (- int k) = of_int (n * 2 ^ k)"
    by (simp add: power_int_minus divide_inverse)
  then have "fl (of_int n) = of_int (n * 2 ^ k) * 2 powi (- int k)"
    using pos by (simp only: fl_def fl_pos_def Let_def k round_even_int) simp
  then show ?thesis by (simp add: power_int_minus)
qed simp

lemma fl_billion [simp]: "fl 1000000000 = 1000000000"
  using fl_int [of 1000000000] by simp

lemma trunc_bounds: "0 \<le> x \<Longrightarrow> 0 \<le> trunc x \<and> of_int (trunc x) \<le> x"
  by (simp add: trunc_def)

text \<open>
  The computation both buckets make: \<open>elapsed\<close> nanoseconds at \<open>rate\<close> per second, in floating point
  and truncated. It is never more than the exact amount, but for a factor of \<open>1 + 2 ^ -50\<close>.
\<close>

definition accrued :: "(rat \<Rightarrow> int) \<Rightarrow> int \<Rightarrow> int \<Rightarrow> int" where
  "accrued oor elapsed rate = to_int64 oor (fdiv (fmul (float64 elapsed) (float64 rate)) (float64 (10 ^ 9)))"

definition slack :: rat where
  "slack = 1 + 1 / 2 ^ 50"

lemma four_roundings: "(1 + 1 / 2 ^ 53 :: rat) * ((1 + 1 / 2 ^ 53) * ((1 + 1 / 2 ^ 53) * (1 + 1 / 2 ^ 53))) \<le> slack"
  by (simp add: slack_def field_simps)

lemma accrued_bounds:
  assumes "0 \<le> e" and "0 \<le> rate" and "e * rate < 10 ^ 9 * 2 ^ 61"
  shows "0 \<le> accrued oor e rate \<and> of_int (accrued oor e rate) \<le> of_int e * of_int rate / 10 ^ 9 * slack \<and>
         accrued oor e rate < 2 ^ 62"
proof -
  define u :: rat where "u = 1 + 1 / 2 ^ 53"
  have u: "0 \<le> u" by (simp add: u_def)
  define x where "x = fdiv (fmul (float64 e) (float64 rate)) (float64 (10 ^ 9))"
  have e: "0 \<le> float64 e" "float64 e \<le> of_int e * u"
    and r: "0 \<le> float64 rate" "float64 rate \<le> of_int rate * u"
    using assms fl_nonneg fl_bounds(1) by (simp_all add: u_def)
  have p: "0 \<le> fmul (float64 e) (float64 rate)" using e r by (simp add: fl_nonneg)
  have "fmul (float64 e) (float64 rate) \<le> float64 e * float64 rate * u"
    using fl_bounds(1) e r by (simp add: u_def)
  also have "\<dots> \<le> (of_int e * u) * (of_int rate * u) * u"
    using e r u by (intro mult_right_mono mult_mono) simp_all
  finally have m: "fmul (float64 e) (float64 rate) / 10 ^ 9 \<le> of_int e * of_int rate / 10 ^ 9 * (u * (u * u))"
    by (simp add: divide_right_mono ac_simps)
  have "x \<le> fmul (float64 e) (float64 rate) / 10 ^ 9 * u"
    using fl_bounds(1) [of "fmul (float64 e) (float64 rate) / 10 ^ 9"] p by (simp add: x_def u_def)
  also have "\<dots> \<le> of_int e * of_int rate / 10 ^ 9 * (u * (u * u)) * u"
    using m u by (rule mult_right_mono)
  also have "\<dots> = of_int e * of_int rate / 10 ^ 9 * (u * (u * (u * u)))" by simp
  also have "\<dots> \<le> of_int e * of_int rate / 10 ^ 9 * slack"
    using four_roundings assms(1,2) by (intro mult_left_mono) (simp_all add: u_def)
  finally have hi: "x \<le> of_int e * of_int rate / 10 ^ 9 * slack" .
  have "(of_int (e * rate) :: rat) < of_int (10 ^ 9 * 2 ^ 61)" using assms(3) by (simp only: of_int_less_iff)
  then have "of_int e * of_int rate / 10 ^ 9 < (2 ^ 61 :: rat)" by simp
  then have "of_int e * of_int rate / 10 ^ 9 * slack < (2 ^ 61 :: rat) * slack"
    by (rule mult_strict_right_mono) (simp add: slack_def)
  then have big: "x < 2 ^ 62" using hi by (simp add: slack_def)
  have "0 \<le> x" using p by (simp add: x_def fl_nonneg)
  from trunc_bounds [OF this] have t: "0 \<le> trunc x" "of_int (trunc x) \<le> x" by auto
  with big have "(of_int (trunc x) :: rat) < of_int (2 ^ 62)" by simp
  then have lt: "trunc x < 2 ^ 62" by (simp only: of_int_less_iff)
  then have "accrued oor e rate = trunc x"
    using t(1) unfolding accrued_def x_def [symmetric] by (simp add: to_int64_def)
  with t hi lt show ?thesis by simp
qed

end
