(* ===== verification/Token_Bucket.thy ===== *)
theory Token_Bucket
  imports Go_Float
begin

text \<open>
  Rate limiting (\<open>client/internal/traffic/bucket.go\<close>): the token bucket, the limiter with one bucket
  per identifier, and the leaky bucket. Times are nanoseconds since the epoch; every call takes the
  clock reading it makes. \<open>oor\<close> is the conversion of an out-of-range float, see \<open>Go_Float\<close>.

  Lemmas: how much a bucket can grant in a given time, with the rounding of the floating-point refill
  bounded, and that identifiers do not affect each other.
\<close>

section \<open>The token bucket\<close>

record token_bucket =
  tb_capacity :: int
  tb_tokens :: int
  tb_rate :: int
  tb_lastRefill :: int

definition NewTokenBucket :: "int \<Rightarrow> int \<Rightarrow> int \<Rightarrow> token_bucket" where
  "NewTokenBucket capacity rate now =
     \<lparr>tb_capacity = capacity, tb_tokens = capacity, tb_rate = rate, tb_lastRefill = now\<rparr>"

definition TokenBucket_refill :: "(rat \<Rightarrow> int) \<Rightarrow> int \<Rightarrow> token_bucket \<Rightarrow> token_bucket" where
  "TokenBucket_refill oor now tb =
     (let elapsed = sub64 now (tb_lastRefill tb) in
      if elapsed \<le> 0 then tb
      else let tokensToAdd = accrued oor elapsed (tb_rate tb) in
        if tokensToAdd > 0 then
          (let tokens = add64 (tb_tokens tb) tokensToAdd in
           tb\<lparr>tb_tokens := (if tokens > tb_capacity tb then tb_capacity tb else tokens),
              tb_lastRefill := now\<rparr>)
        else tb)"

definition TokenBucket_TryConsume :: "(rat \<Rightarrow> int) \<Rightarrow> int \<Rightarrow> token_bucket \<Rightarrow> int \<Rightarrow> bool \<times> token_bucket" where
  "TokenBucket_TryConsume oor now tb tokens =
     (let tb = TokenBucket_refill oor now tb in
      if tb_tokens tb \<ge> tokens then (True, tb\<lparr>tb_tokens := sub64 (tb_tokens tb) tokens\<rparr>)
      else (False, tb))"

definition TokenBucket_calculateWaitTime :: "(rat \<Rightarrow> int) \<Rightarrow> int \<Rightarrow> token_bucket \<Rightarrow> int \<Rightarrow> int \<times> token_bucket" where
  "TokenBucket_calculateWaitTime oor now tb tokens =
     (let tb = TokenBucket_refill oor now tb in
      if tb_tokens tb \<ge> tokens then (0, tb)
      else let needed = sub64 tokens (tb_tokens tb) in
        if tb_rate tb \<le> 0 then (3600 * 10 ^ 9, tb)
        else let waitSeconds = fdiv (float64 needed) (float64 (tb_rate tb))
             in (to_int64 oor (fmul waitSeconds (float64 (10 ^ 9))), tb))"

text \<open>
  The loop of \<open>Consume\<close>: each round tries, computes how long to wait and waits. A round is given by the
  two clock readings it makes and whether the context is done by the end of the wait; with the rounds
  used up the call is still waiting.
\<close>

datatype consume_result = Consumed | ConsumeCtxErr | ConsumeWaiting

fun TokenBucket_Consume ::
    "(rat \<Rightarrow> int) \<Rightarrow> (int \<times> int \<times> bool) list \<Rightarrow> token_bucket \<Rightarrow> int \<Rightarrow> consume_result \<times> token_bucket" where
  "TokenBucket_Consume oor [] tb tokens = (ConsumeWaiting, tb)"
| "TokenBucket_Consume oor ((now1, now2, ctxDone) # rounds) tb tokens =
     (case TokenBucket_TryConsume oor now1 tb tokens of
        (True, tb) \<Rightarrow> (Consumed, tb)
      | (False, tb) \<Rightarrow>
          (case TokenBucket_calculateWaitTime oor now2 tb tokens of (waitTime, tb) \<Rightarrow>
             if ctxDone then (ConsumeCtxErr, tb) else TokenBucket_Consume oor rounds tb tokens))"

definition TokenBucket_GetTokens :: "(rat \<Rightarrow> int) \<Rightarrow> int \<Rightarrow> token_bucket \<Rightarrow> int \<times> token_bucket" where
  "TokenBucket_GetTokens oor now tb =
     (let tb = TokenBucket_refill oor now tb in (tb_tokens tb, tb))"

definition TokenBucket_SetRate :: "token_bucket \<Rightarrow> int \<Rightarrow> token_bucket" where
  "TokenBucket_SetRate tb rate = tb\<lparr>tb_rate := rate\<rparr>"

definition TokenBucket_SetCapacity :: "token_bucket \<Rightarrow> int \<Rightarrow> token_bucket" where
  "TokenBucket_SetCapacity tb capacity =
     tb\<lparr>tb_capacity := capacity, tb_tokens := (if tb_tokens tb > capacity then capacity else tb_tokens tb)\<rparr>"

section \<open>One bucket per identifier\<close>

text \<open>Buckets are objects in a store; the limiter maps identifiers to addresses.\<close>

record rate_limiter =
  rl_store :: "token_bucket list"
  rl_buckets :: "(string \<times> nat) list"
  rl_defaultCapacity :: int
  rl_defaultRate :: int

definition NewRateLimiter :: "int \<Rightarrow> int \<Rightarrow> rate_limiter" where
  "NewRateLimiter defaultCapacity defaultRate =
     \<lparr>rl_store = [], rl_buckets = [], rl_defaultCapacity = defaultCapacity, rl_defaultRate = defaultRate\<rparr>"

definition RateLimiter_GetBucket :: "int \<Rightarrow> rate_limiter \<Rightarrow> string \<Rightarrow> nat \<times> rate_limiter" where
  "RateLimiter_GetBucket now rl identifier =
     (case map_of (rl_buckets rl) identifier of
        Some a \<Rightarrow> (a, rl)
      | None \<Rightarrow>
          (length (rl_store rl),
           rl\<lparr>rl_store := rl_store rl @ [NewTokenBucket (rl_defaultCapacity rl) (rl_defaultRate rl) now],
              rl_buckets := AList.update identifier (length (rl_store rl)) (rl_buckets rl)\<rparr>))"

abbreviation put_bucket :: "rate_limiter \<Rightarrow> nat \<Rightarrow> token_bucket \<Rightarrow> rate_limiter" where
  "put_bucket rl a tb \<equiv> rl\<lparr>rl_store := (rl_store rl)[a := tb]\<rparr>"

definition RateLimiter_TryConsume ::
    "(rat \<Rightarrow> int) \<Rightarrow> int \<Rightarrow> rate_limiter \<Rightarrow> string \<Rightarrow> int \<Rightarrow> bool \<times> rate_limiter" where
  "RateLimiter_TryConsume oor now rl identifier tokens =
     (case RateLimiter_GetBucket now rl identifier of (a, rl) \<Rightarrow>
        case TokenBucket_TryConsume oor now (rl_store rl ! a) tokens of (ok, tb) \<Rightarrow> (ok, put_bucket rl a tb))"

definition RateLimiter_Consume ::
    "(rat \<Rightarrow> int) \<Rightarrow> (int \<times> int \<times> bool) list \<Rightarrow> int \<Rightarrow> rate_limiter \<Rightarrow> string \<Rightarrow> int \<Rightarrow> consume_result \<times> rate_limiter" where
  "RateLimiter_Consume oor rounds now rl identifier tokens =
     (case RateLimiter_GetBucket now rl identifier of (a, rl) \<Rightarrow>
        case TokenBucket_Consume oor rounds (rl_store rl ! a) tokens of (r, tb) \<Rightarrow> (r, put_bucket rl a tb))"

definition RateLimiter_SetBucketConfig :: "int \<Rightarrow> rate_limiter \<Rightarrow> string \<Rightarrow> int \<Rightarrow> int \<Rightarrow> rate_limiter" where
  "RateLimiter_SetBucketConfig now rl identifier capacity rate =
     (case RateLimiter_GetBucket now rl identifier of (a, rl) \<Rightarrow>
        put_bucket rl a (TokenBucket_SetRate (TokenBucket_SetCapacity (rl_store rl ! a) capacity) rate))"

definition RateLimiter_RemoveBucket :: "rate_limiter \<Rightarrow> string \<Rightarrow> rate_limiter" where
  "RateLimiter_RemoveBucket rl identifier = rl\<lparr>rl_buckets := AList.delete identifier (rl_buckets rl)\<rparr>"

section \<open>The leaky bucket\<close>

record leaky_bucket =
  lb_capacity :: int
  lb_current :: int
  lb_leakRate :: int
  lb_lastLeak :: int
  lb_droppedPackets :: int
  lb_droppedBytes :: int

definition NewLeakyBucket :: "int \<Rightarrow> int \<Rightarrow> int \<Rightarrow> leaky_bucket" where
  "NewLeakyBucket capacity leakRate now =
     \<lparr>lb_capacity = capacity, lb_current = 0, lb_leakRate = leakRate, lb_lastLeak = now,
      lb_droppedPackets = 0, lb_droppedBytes = 0\<rparr>"

definition LeakyBucket_leak :: "(rat \<Rightarrow> int) \<Rightarrow> int \<Rightarrow> leaky_bucket \<Rightarrow> leaky_bucket" where
  "LeakyBucket_leak oor now lb =
     (let elapsed = sub64 now (lb_lastLeak lb) in
      if elapsed \<le> 0 then lb
      else let leaked = accrued oor elapsed (lb_leakRate lb) in
        if leaked > 0 then
          (let current = sub64 (lb_current lb) leaked in
           lb\<lparr>lb_current := (if current < 0 then 0 else current), lb_lastLeak := now\<rparr>)
        else lb)"

definition LeakyBucket_TryAdd :: "(rat \<Rightarrow> int) \<Rightarrow> int \<Rightarrow> leaky_bucket \<Rightarrow> int \<Rightarrow> bool \<times> leaky_bucket" where
  "LeakyBucket_TryAdd oor now lb sz =
     (let lb = LeakyBucket_leak oor now lb in
      if add64 (lb_current lb) sz \<le> lb_capacity lb then
        (True, lb\<lparr>lb_current := add64 (lb_current lb) sz\<rparr>)
      else (False, lb\<lparr>lb_droppedPackets := add64 (lb_droppedPackets lb) 1,
                      lb_droppedBytes := add64 (lb_droppedBytes lb) sz\<rparr>))"

section \<open>How much a token bucket grants\<close>

text \<open>
  The range in which a bucket is used: the level is between empty and full, and capacity, clock and
  accrued amounts stay clear of the limits of \<open>int64\<close>.
\<close>

definition tb_ok :: "int \<Rightarrow> token_bucket \<Rightarrow> bool" where
  "tb_ok horizon tb \<longleftrightarrow>
     0 \<le> tb_tokens tb \<and> tb_tokens tb \<le> tb_capacity tb \<and> tb_capacity tb < 2 ^ 62 \<and> 0 \<le> tb_rate tb \<and>
     0 \<le> tb_lastRefill tb \<and> tb_lastRefill tb \<le> horizon \<and> horizon < 2 ^ 62 \<and>
     (horizon - tb_lastRefill tb) * tb_rate tb < 10 ^ 9 * 2 ^ 61"

lemma refill_spec:
  fixes oor :: "rat \<Rightarrow> int"
  assumes ok: "tb_ok horizon tb" and now: "0 \<le> now" "now \<le> horizon"
  defines "tb' \<equiv> TokenBucket_refill oor now tb"
  shows "tb_ok horizon tb' \<and> tb_rate tb' = tb_rate tb \<and> tb_capacity tb' = tb_capacity tb \<and>
     tb_tokens tb \<le> tb_tokens tb' \<and> tb_lastRefill tb \<le> tb_lastRefill tb' \<and>
     of_int (tb_tokens tb') \<le> of_int (tb_tokens tb) +
       of_int (tb_lastRefill tb' - tb_lastRefill tb) * of_int (tb_rate tb) / 10 ^ 9 * slack"
proof -
  let ?e = "now - tb_lastRefill tb"
  have e64: "sub64 now (tb_lastRefill tb) = ?e" using ok now by (simp add: tb_ok_def)
  show ?thesis
  proof (cases "0 < ?e \<and> accrued oor ?e (tb_rate tb) > 0")
    case False
    then have "tb' = tb" by (auto simp: tb'_def TokenBucket_refill_def e64 Let_def)
    with ok show ?thesis by (simp add: tb_ok_def)
  next
    case True
    let ?a = "accrued oor ?e (tb_rate tb)"
    have "?e * tb_rate tb \<le> (horizon - tb_lastRefill tb) * tb_rate tb"
      using ok now by (intro mult_right_mono) (simp_all add: tb_ok_def)
    then have small: "?e * tb_rate tb < 10 ^ 9 * 2 ^ 61" using ok by (simp add: tb_ok_def)
    have a: "0 \<le> ?a" "of_int ?a \<le> of_int ?e * of_int (tb_rate tb) / 10 ^ 9 * slack" "?a < 2 ^ 62"
      using accrued_bounds [OF _ _ small, of oor] True ok by (auto simp: tb_ok_def)
    have sum: "add64 (tb_tokens tb) ?a = tb_tokens tb + ?a"
      using ok a(1,3) by (simp add: tb_ok_def)
    have tb': "tb' = tb\<lparr>tb_tokens := min (tb_capacity tb) (tb_tokens tb + ?a), tb_lastRefill := now\<rparr>"
      using True by (simp add: tb'_def TokenBucket_refill_def e64 Let_def sum min_def)
    have "(horizon - now) * tb_rate tb \<le> (horizon - tb_lastRefill tb) * tb_rate tb"
      using True ok by (intro mult_right_mono) (simp_all add: tb_ok_def)
    then have "tb_ok horizon tb'" using ok now a(1) by (auto simp: tb' tb_ok_def)
    moreover have "(of_int (tb_tokens tb') :: rat) \<le> of_int (tb_tokens tb) + of_int ?a"
      by (simp add: tb' flip: of_int_add)
    ultimately show ?thesis
      using True ok a by (auto simp: tb' tb_ok_def intro: order_trans)
  qed
qed

text \<open>A run of requests: clock reading and number of tokens asked for. The result adds up the tokens granted.\<close>

fun consume_run :: "(rat \<Rightarrow> int) \<Rightarrow> (int \<times> int) list \<Rightarrow> token_bucket \<Rightarrow> int \<times> token_bucket" where
  "consume_run oor [] tb = (0, tb)"
| "consume_run oor ((now, n) # reqs) tb =
     (case TokenBucket_TryConsume oor now tb n of (ok, tb) \<Rightarrow>
        case consume_run oor reqs tb of (g, tb) \<Rightarrow> ((if ok then n else 0) + g, tb))"

lemma consume_run_spec:
  assumes "tb_ok horizon tb" and "\<forall>(now, n) \<in> set reqs. 0 \<le> now \<and> now \<le> horizon \<and> 0 \<le> n"
  shows "tb_ok horizon (snd (consume_run oor reqs tb)) \<and> 0 \<le> fst (consume_run oor reqs tb) \<and>
     tb_rate (snd (consume_run oor reqs tb)) = tb_rate tb \<and>
     tb_lastRefill tb \<le> tb_lastRefill (snd (consume_run oor reqs tb)) \<and>
     of_int (fst (consume_run oor reqs tb) + tb_tokens (snd (consume_run oor reqs tb))) \<le> of_int (tb_tokens tb) +
       of_int (tb_lastRefill (snd (consume_run oor reqs tb)) - tb_lastRefill tb) * of_int (tb_rate tb) / 10 ^ 9 * slack"
  using assms
proof (induction reqs arbitrary: tb)
  case (Cons r reqs)
  obtain now n where r: "r = (now, n)" by fastforce
  define tb1 where "tb1 = TokenBucket_refill oor now tb"
  have n: "0 \<le> now" "now \<le> horizon" "0 \<le> n" using Cons.prems(2) r by auto
  note rf = refill_spec [OF Cons.prems(1) n(1,2), of oor, folded tb1_def]
  define ok where "ok = (tb_tokens tb1 \<ge> n)"
  define tb2 where "tb2 = (if ok then tb1\<lparr>tb_tokens := tb_tokens tb1 - n\<rparr> else tb1)"
  have "in_int64 (tb_tokens tb1 - n)" if ok using that rf n(3) by (simp add: tb_ok_def ok_def)
  then have t: "TokenBucket_TryConsume oor now tb n = (ok, tb2)"
    by (simp add: TokenBucket_TryConsume_def tb1_def [symmetric] Let_def ok_def [symmetric] tb2_def)
  have ok2: "tb_ok horizon tb2" using rf n(3) by (auto simp: tb2_def tb_ok_def ok_def)
  obtain g tb3 where run: "consume_run oor reqs tb2 = (g, tb3)" by fastforce
  note IH = Cons.IH [OF ok2, unfolded run fst_conv snd_conv]
  have res: "consume_run oor (r # reqs) tb = ((if ok then n else 0) + g, tb3)" by (simp add: r t run)
  have f2: "tb_rate tb2 = tb_rate tb" "tb_lastRefill tb2 = tb_lastRefill tb1"
    "tb_tokens tb2 = tb_tokens tb1 - (if ok then n else 0)" using rf by (simp_all add: tb2_def)
  define c :: rat where "c = of_int (tb_rate tb) / 10 ^ 9 * slack"
  have IH': "tb_ok horizon tb3" "0 \<le> g" "tb_rate tb3 = tb_rate tb" "tb_lastRefill tb1 \<le> tb_lastRefill tb3"
    "of_int (g + tb_tokens tb3) \<le> of_int (tb_tokens tb2) + of_int (tb_lastRefill tb3 - tb_lastRefill tb1) * c"
    using IH Cons.prems(2) by (simp_all add: f2 c_def)
  have rf': "of_int (tb_tokens tb1) \<le> of_int (tb_tokens tb) + of_int (tb_lastRefill tb1 - tb_lastRefill tb) * c"
    using rf by (simp add: c_def)
  have "of_int ((if ok then n else 0) + g + tb_tokens tb3) \<le>
      of_int (tb_tokens tb) + of_int (tb_lastRefill tb3 - tb_lastRefill tb) * c"
    using IH'(5) rf' by (simp add: f2(3) left_diff_distrib)
  then show ?case using IH' rf n(3) unfolding res by (auto simp: c_def add.assoc)
qed simp

text \<open>
  C14: the rate bound. Over any run of requests with clock readings up to \<open>horizon\<close>, in whatever order, a
  bucket grants at most the tokens it held plus its rate times the time from its last refill to the
  horizon, but for the factor \<open>1 + 2 ^ -50\<close> of the floating-point arithmetic; and its level stays between
  zero and the capacity.
\<close>

theorem token_bucket_rate_bound:
  assumes "tb_ok horizon tb" and "\<forall>(now, n) \<in> set reqs. 0 \<le> now \<and> now \<le> horizon \<and> 0 \<le> n"
    and "consume_run oor reqs tb = (granted, tb')"
  shows "of_int granted \<le> of_int (tb_tokens tb) +
           of_int (horizon - tb_lastRefill tb) * of_int (tb_rate tb) / 10 ^ 9 * slack \<and>
         0 \<le> tb_tokens tb' \<and> tb_tokens tb' \<le> tb_capacity tb'"
proof -
  note r = consume_run_spec [OF assms(1,2), of oor, unfolded assms(3) fst_conv snd_conv]
  have "of_int (tb_lastRefill tb' - tb_lastRefill tb) * (of_int (tb_rate tb) / 10 ^ 9 * slack) \<le>
        of_int (horizon - tb_lastRefill tb) * (of_int (tb_rate tb) / 10 ^ 9 * slack)"
    using r assms(1) by (intro mult_right_mono) (auto simp: tb_ok_def slack_def)
  moreover have "(of_int granted :: rat) \<le> of_int (granted + tb_tokens tb')"
    using r by (simp add: tb_ok_def)
  ultimately show ?thesis using r by (simp add: tb_ok_def)
qed

theorem token_bucket_rate_bound_witness:
  "\<exists>granted tb'. consume_run (\<lambda>_. 0) [(5, 3), (2000000005, 4)] (NewTokenBucket 10 2 5) = (granted, tb') \<and>
     (of_int granted :: rat) \<le> 10 + 4 * slack"
proof -
  obtain granted tb' where r: "consume_run (\<lambda>_. 0) [(5, 3), (2000000005, 4)] (NewTokenBucket 10 2 5) = (granted, tb')"
    by fastforce
  have "tb_ok 2000000005 (NewTokenBucket 10 2 5)" by (simp add: tb_ok_def NewTokenBucket_def)
  from token_bucket_rate_bound [OF this _ r] show ?thesis using r by (simp add: NewTokenBucket_def)
qed

section \<open>Identifiers are independent\<close>

definition rl_inv :: "rate_limiter \<Rightarrow> bool" where
  "rl_inv rl \<longleftrightarrow>
     map_ok (rl_buckets rl) \<and> distinct (map snd (rl_buckets rl)) \<and>
     (\<forall>(i, a) \<in> set (rl_buckets rl). a < length (rl_store rl))"

lemma rl_inv_lookup: "rl_inv rl \<Longrightarrow> map_of (rl_buckets rl) i = Some a \<Longrightarrow> a < length (rl_store rl)"
  by (drule map_of_SomeD) (auto simp: rl_inv_def)

lemma rl_inv_inj:
  assumes "rl_inv rl" and "map_of (rl_buckets rl) i = Some a" and "map_of (rl_buckets rl) j = Some a"
  shows "i = j"
proof -
  have "inj_on snd (set (rl_buckets rl))" using assms(1) by (simp add: rl_inv_def distinct_map)
  moreover have "(i, a) \<in> set (rl_buckets rl)" "(j, a) \<in> set (rl_buckets rl)"
    using assms(2,3) by (auto dest: map_of_SomeD)
  ultimately have "(i, a) = (j, a)" using inj_onD [of snd "set (rl_buckets rl)" "(i, a)" "(j, a)"] by simp
  then show ?thesis by simp
qed

lemma GetBucket_spec:
  assumes "rl_inv rl" and "RateLimiter_GetBucket now rl i = (a, rl')"
  shows "rl_inv rl' \<and> map_of (rl_buckets rl') i = Some a \<and>
     (\<forall>j. j \<noteq> i \<longrightarrow> map_of (rl_buckets rl') j = map_of (rl_buckets rl) j) \<and>
     (\<forall>b < length (rl_store rl). rl_store rl' ! b = rl_store rl ! b) \<and>
     rl_store rl' ! a = (case map_of (rl_buckets rl) i of Some b \<Rightarrow> rl_store rl ! b
        | None \<Rightarrow> NewTokenBucket (rl_defaultCapacity rl) (rl_defaultRate rl) now)"
proof (cases "map_of (rl_buckets rl) i")
  case (Some b)
  with assms show ?thesis by (auto simp: RateLimiter_GetBucket_def)
next
  case None
  let ?n = "length (rl_store rl)"
  have "?n \<notin> snd ` set (rl_buckets rl)" using assms(1) by (auto simp: rl_inv_def)
  then have "distinct (map snd (AList.update i ?n (rl_buckets rl)))"
    using assms(1) by (intro distinct_vals_update) (simp_all add: rl_inv_def)
  moreover have "\<forall>(j, b) \<in> set (AList.update i ?n (rl_buckets rl)). b < Suc ?n"
    using set_alist_update [of i ?n "rl_buckets rl"] assms(1) by (fastforce simp: rl_inv_def)
  ultimately show ?thesis
    using assms None by (auto simp: RateLimiter_GetBucket_def rl_inv_def nth_append)
qed

text \<open>
  Limiting by identifier. A request under one identifier is decided by that identifier's bucket alone
  (a fresh full one if it has none yet), stores back exactly what that bucket's \<open>TryConsume\<close> gives, and leaves
  the bucket of every other identifier untouched.
\<close>

theorem rate_limiter_isolation:
  assumes "rl_inv rl" and "RateLimiter_TryConsume oor now rl i n = (ok, rl')" and "j \<noteq> i"
  shows "rl_inv rl' \<and> map_of (rl_buckets rl') j = map_of (rl_buckets rl) j \<and>
         (case map_of (rl_buckets rl) j of None \<Rightarrow> True | Some b \<Rightarrow> rl_store rl' ! b = rl_store rl ! b) \<and>
         (ok, rl_store rl' ! the (map_of (rl_buckets rl') i)) = TokenBucket_TryConsume oor now
           (case map_of (rl_buckets rl) i of Some a \<Rightarrow> rl_store rl ! a
            | None \<Rightarrow> NewTokenBucket (rl_defaultCapacity rl) (rl_defaultRate rl) now) n"
proof -
  obtain a rl1 where g: "RateLimiter_GetBucket now rl i = (a, rl1)" by fastforce
  note s = GetBucket_spec [OF assms(1) g]
  obtain tb where t: "TokenBucket_TryConsume oor now (rl_store rl1 ! a) n = (ok, tb)" "rl' = put_bucket rl1 a tb"
    using assms(2) by (auto simp: RateLimiter_TryConsume_def g split: prod.splits)
  have a: "a < length (rl_store rl1)" using s rl_inv_lookup by blast
  have "rl_store rl' ! b = rl_store rl ! b" if b: "map_of (rl_buckets rl) j = Some b" for b
  proof -
    have "map_of (rl_buckets rl1) j = Some b" using s b assms(3) by simp
    then have "b \<noteq> a" using rl_inv_inj [of rl1 j a i] s assms(3) by auto
    then show ?thesis using s t(2) rl_inv_lookup [OF assms(1) b] by simp
  qed
  moreover have "rl_inv rl'" using s t(2) by (simp add: rl_inv_def)
  ultimately show ?thesis using s t a assms(3) by (simp split: option.splits)
qed

theorem rate_limiter_isolation_witness:
  "fst (RateLimiter_TryConsume (\<lambda>_. 0) 5 (NewRateLimiter 10 2) ''a'' 7) \<and>
   map_of (rl_buckets (snd (RateLimiter_TryConsume (\<lambda>_. 0) 5 (NewRateLimiter 10 2) ''a'' 7))) ''b'' = None"
proof -
  obtain ok rl' where r: "RateLimiter_TryConsume (\<lambda>_. 0) 5 (NewRateLimiter 10 2) ''a'' 7 = (ok, rl')" by fastforce
  have "rl_inv (NewRateLimiter 10 2)" by (simp add: rl_inv_def NewRateLimiter_def)
  from rate_limiter_isolation [OF this r, of "''b''"] r show ?thesis
    by (simp add: NewRateLimiter_def TokenBucket_TryConsume_def TokenBucket_refill_def NewTokenBucket_def)
qed

section \<open>How much a leaky bucket takes\<close>

definition lb_ok :: "int \<Rightarrow> leaky_bucket \<Rightarrow> bool" where
  "lb_ok horizon lb \<longleftrightarrow>
     0 \<le> lb_current lb \<and> lb_current lb \<le> lb_capacity lb \<and> lb_capacity lb < 2 ^ 62 \<and> 0 \<le> lb_leakRate lb \<and>
     0 \<le> lb_lastLeak lb \<and> lb_lastLeak lb \<le> horizon \<and> horizon < 2 ^ 62 \<and>
     (horizon - lb_lastLeak lb) * lb_leakRate lb < 10 ^ 9 * 2 ^ 61"

lemma leak_spec:
  fixes oor :: "rat \<Rightarrow> int"
  assumes ok: "lb_ok horizon lb" and now: "0 \<le> now" "now \<le> horizon"
  defines "lb' \<equiv> LeakyBucket_leak oor now lb"
  shows "lb_ok horizon lb' \<and> lb_leakRate lb' = lb_leakRate lb \<and> lb_capacity lb' = lb_capacity lb \<and>
     lb_current lb' \<le> lb_current lb \<and> lb_lastLeak lb \<le> lb_lastLeak lb' \<and>
     of_int (lb_current lb) \<le> of_int (lb_current lb') +
       of_int (lb_lastLeak lb' - lb_lastLeak lb) * of_int (lb_leakRate lb) / 10 ^ 9 * slack"
proof -
  let ?e = "now - lb_lastLeak lb"
  have e64: "sub64 now (lb_lastLeak lb) = ?e" using ok now by (simp add: lb_ok_def)
  show ?thesis
  proof (cases "0 < ?e \<and> accrued oor ?e (lb_leakRate lb) > 0")
    case False
    then have "lb' = lb" by (auto simp: lb'_def LeakyBucket_leak_def e64 Let_def)
    with ok show ?thesis by (simp add: lb_ok_def)
  next
    case True
    let ?a = "accrued oor ?e (lb_leakRate lb)"
    have "?e * lb_leakRate lb \<le> (horizon - lb_lastLeak lb) * lb_leakRate lb"
      using ok now by (intro mult_right_mono) (simp_all add: lb_ok_def)
    then have small: "?e * lb_leakRate lb < 10 ^ 9 * 2 ^ 61" using ok by (simp add: lb_ok_def)
    have a: "0 \<le> ?a" "of_int ?a \<le> of_int ?e * of_int (lb_leakRate lb) / 10 ^ 9 * slack" "?a < 2 ^ 62"
      using accrued_bounds [OF _ _ small, of oor] True ok by (auto simp: lb_ok_def)
    have diff: "sub64 (lb_current lb) ?a = lb_current lb - ?a"
      using ok a(1,3) by (simp add: lb_ok_def)
    have lb': "lb' = lb\<lparr>lb_current := max 0 (lb_current lb - ?a), lb_lastLeak := now\<rparr>"
      using True by (simp add: lb'_def LeakyBucket_leak_def e64 Let_def diff max_def)
    have "(horizon - now) * lb_leakRate lb \<le> (horizon - lb_lastLeak lb) * lb_leakRate lb"
      using True ok by (intro mult_right_mono) (simp_all add: lb_ok_def)
    then have "lb_ok horizon lb'" using ok now a(1) by (auto simp: lb' lb_ok_def)
    moreover have "(of_int (lb_current lb) :: rat) \<le> of_int (lb_current lb') + of_int ?a"
      by (simp add: lb' flip: of_int_add)
    ultimately show ?thesis
      using True ok a by (auto simp: lb' lb_ok_def intro: order_trans)
  qed
qed

fun add_run :: "(rat \<Rightarrow> int) \<Rightarrow> (int \<times> int) list \<Rightarrow> leaky_bucket \<Rightarrow> int \<times> leaky_bucket" where
  "add_run oor [] lb = (0, lb)"
| "add_run oor ((now, n) # reqs) lb =
     (case LeakyBucket_TryAdd oor now lb n of (ok, lb) \<Rightarrow>
        case add_run oor reqs lb of (g, lb) \<Rightarrow> ((if ok then n else 0) + g, lb))"

lemma add_run_spec:
  assumes "lb_ok horizon lb" and "\<forall>(now, n) \<in> set reqs. 0 \<le> now \<and> now \<le> horizon \<and> 0 \<le> n \<and> n < 2 ^ 62"
  shows "lb_ok horizon (snd (add_run oor reqs lb)) \<and> lb_leakRate (snd (add_run oor reqs lb)) = lb_leakRate lb \<and>
     lb_capacity (snd (add_run oor reqs lb)) = lb_capacity lb \<and>
     lb_lastLeak lb \<le> lb_lastLeak (snd (add_run oor reqs lb)) \<and>
     of_int (fst (add_run oor reqs lb) + lb_current lb) \<le> of_int (lb_current (snd (add_run oor reqs lb))) +
       of_int (lb_lastLeak (snd (add_run oor reqs lb)) - lb_lastLeak lb) * of_int (lb_leakRate lb) / 10 ^ 9 * slack"
  using assms
proof (induction reqs arbitrary: lb)
  case (Cons r reqs)
  obtain now n where r: "r = (now, n)" by fastforce
  define lb1 where "lb1 = LeakyBucket_leak oor now lb"
  have n: "0 \<le> now" "now \<le> horizon" "0 \<le> n" "n < 2 ^ 62" using Cons.prems(2) r by auto
  note lk = leak_spec [OF Cons.prems(1) n(1,2), of oor, folded lb1_def]
  define ok where "ok = (lb_current lb1 + n \<le> lb_capacity lb1)"
  have sum: "add64 (lb_current lb1) n = lb_current lb1 + n" using lk n by (simp add: lb_ok_def)
  obtain lb2 where t: "LeakyBucket_TryAdd oor now lb n = (ok, lb2)"
    and f2: "lb_current lb2 = lb_current lb1 + (if ok then n else 0)" "lb_lastLeak lb2 = lb_lastLeak lb1"
      "lb_leakRate lb2 = lb_leakRate lb1" "lb_capacity lb2 = lb_capacity lb1"
    by (cases ok) (simp_all add: LeakyBucket_TryAdd_def lb1_def [symmetric] Let_def ok_def [symmetric] sum)
  have ok2: "lb_ok horizon lb2" using lk n(3) by (auto simp: f2 lb_ok_def ok_def)
  obtain g lb3 where run: "add_run oor reqs lb2 = (g, lb3)" by fastforce
  note IH = Cons.IH [OF ok2, unfolded run fst_conv snd_conv]
  have res: "add_run oor (r # reqs) lb = ((if ok then n else 0) + g, lb3)" by (simp add: r t run)
  define c :: rat where "c = of_int (lb_leakRate lb) / 10 ^ 9 * slack"
  have IH': "lb_ok horizon lb3" "lb_leakRate lb3 = lb_leakRate lb" "lb_capacity lb3 = lb_capacity lb"
    "lb_lastLeak lb1 \<le> lb_lastLeak lb3"
    "of_int (g + lb_current lb2) \<le> of_int (lb_current lb3) + of_int (lb_lastLeak lb3 - lb_lastLeak lb1) * c"
    using IH Cons.prems(2) lk by (simp_all add: f2 c_def)
  have lk': "of_int (lb_current lb) \<le> of_int (lb_current lb1) + of_int (lb_lastLeak lb1 - lb_lastLeak lb) * c"
    using lk by (simp add: c_def)
  have "of_int ((if ok then n else 0) + g + lb_current lb) \<le>
      of_int (lb_current lb3) + of_int (lb_lastLeak lb3 - lb_lastLeak lb) * c"
    using IH'(5) lk' by (simp add: f2(1) left_diff_distrib)
  then show ?case using IH' lk unfolding res by (auto simp: c_def add.assoc)
qed simp

text \<open>
  The leaky bucket's bound. Over any run of additions, the bytes taken are at most the free room of the bucket
  plus the leak rate times the elapsed time, up to the same rounding factor, and the level never exceeds
  the capacity nor falls below zero.
\<close>

theorem leaky_bucket_bound:
  assumes "lb_ok horizon lb" and "\<forall>(now, n) \<in> set reqs. 0 \<le> now \<and> now \<le> horizon \<and> 0 \<le> n \<and> n < 2 ^ 62"
    and "add_run oor reqs lb = (taken, lb')"
  shows "of_int taken \<le> of_int (lb_capacity lb - lb_current lb) +
           of_int (horizon - lb_lastLeak lb) * of_int (lb_leakRate lb) / 10 ^ 9 * slack \<and>
         0 \<le> lb_current lb' \<and> lb_current lb' \<le> lb_capacity lb"
proof -
  note r = add_run_spec [OF assms(1,2), of oor, unfolded assms(3) fst_conv snd_conv]
  have "of_int (lb_lastLeak lb' - lb_lastLeak lb) * (of_int (lb_leakRate lb) / 10 ^ 9 * slack) \<le>
        of_int (horizon - lb_lastLeak lb) * (of_int (lb_leakRate lb) / 10 ^ 9 * slack)"
    using r assms(1) by (intro mult_right_mono) (auto simp: lb_ok_def slack_def)
  moreover have "(of_int (lb_current lb') :: rat) \<le> of_int (lb_capacity lb)" using r by (simp add: lb_ok_def)
  ultimately show ?thesis using r by (simp add: lb_ok_def)
qed

theorem leaky_bucket_bound_witness:
  "\<exists>taken lb'. add_run (\<lambda>_. 0) [(5, 3), (2000000005, 9)] (NewLeakyBucket 10 2 5) = (taken, lb') \<and>
     (of_int taken :: rat) \<le> 10 + 4 * slack"
proof -
  obtain taken lb' where r: "add_run (\<lambda>_. 0) [(5, 3), (2000000005, 9)] (NewLeakyBucket 10 2 5) = (taken, lb')"
    by fastforce
  have "lb_ok 2000000005 (NewLeakyBucket 10 2 5)" by (simp add: lb_ok_def NewLeakyBucket_def)
  from leaky_bucket_bound [OF this _ r] show ?thesis using r by (simp add: NewLeakyBucket_def)
qed

end
