(* ===== verification/Go_Heap.thy ===== *)
theory Go_Heap
  imports Prelude
begin

text \<open>
  Go's \<open>container/heap\<close> over a slice: \<open>up\<close>, \<open>down\<close>, \<open>Push\<close>, \<open>Pop\<close> and \<open>Remove\<close>, with the
  comparison as an argument. The locale \<open>heap_order\<close> states what a comparison must satisfy for the
  slice to be kept as a heap, and its lemmas say what each operation does to the order and to the
  multiset of elements; the priority queue of the traffic component interprets it. The interface methods of the
  program's heaps (\<open>Swap\<close>, \<open>Push\<close>, \<open>Pop\<close>) exchange two elements, append one and drop the last one: they are
  written out in the operations.
\<close>

section \<open>The operations\<close>

definition heap_swap :: "'a list \<Rightarrow> nat \<Rightarrow> nat \<Rightarrow> 'a list" where
  "heap_swap xs i j = xs[i := xs ! j, j := xs ! i]"

function heap_up :: "('a \<Rightarrow> 'a \<Rightarrow> bool) \<Rightarrow> 'a list \<Rightarrow> nat \<Rightarrow> 'a list" where
  "heap_up before xs j =
     (let i = (j - 1) div 2 in
      if i = j \<or> \<not> before (xs ! j) (xs ! i) then xs else heap_up before (heap_swap xs i j) i)"
  by pat_completeness auto
termination
  by (relation "measure (\<lambda>(before, xs, j). j)") auto

text \<open>\<open>down\<close> works on the first \<open>n\<close> elements and returns the place where it stopped.\<close>

function heap_down :: "('a \<Rightarrow> 'a \<Rightarrow> bool) \<Rightarrow> 'a list \<Rightarrow> nat \<Rightarrow> nat \<Rightarrow> 'a list \<times> nat" where
  "heap_down before xs i n =
     (let j1 = 2 * i + 1 in
      if j1 \<ge> n then (xs, i)
      else let j = (if j1 + 1 < n \<and> before (xs ! (j1 + 1)) (xs ! j1) then j1 + 1 else j1) in
        if \<not> before (xs ! j) (xs ! i) then (xs, i)
        else heap_down before (heap_swap xs i j) j n)"
  by pat_completeness auto
termination
  by (relation "measure (\<lambda>(before, xs, i, n). n - i)") (auto split: if_splits)

declare heap_up.simps [simp del] heap_down.simps [simp del]

definition heap_Push :: "('a \<Rightarrow> 'a \<Rightarrow> bool) \<Rightarrow> 'a list \<Rightarrow> 'a \<Rightarrow> 'a list" where
  "heap_Push before xs x = heap_up before (xs @ [x]) (length xs)"

definition heap_Pop :: "('a \<Rightarrow> 'a \<Rightarrow> bool) \<Rightarrow> 'a list \<Rightarrow> ('a \<times> 'a list) res" where
  "heap_Pop before xs =
     (if xs = [] then Inl IndexOutOfRange
      else let n = length xs - 1; ys = fst (heap_down before (heap_swap xs 0 n) 0 n)
           in Inr (ys ! n, take n ys))"

definition heap_Remove :: "('a \<Rightarrow> 'a \<Rightarrow> bool) \<Rightarrow> 'a list \<Rightarrow> nat \<Rightarrow> ('a \<times> 'a list) res" where
  "heap_Remove before xs i =
     (if xs = [] \<or> i \<ge> length xs then Inl IndexOutOfRange
      else let n = length xs - 1;
               ys = (if n \<noteq> i then
                       (let zs = heap_swap xs i n; (zs, k) = heap_down before zs i n
                        in if k > i then zs else heap_up before zs i)
                     else xs)
           in Inr (ys ! n, take n ys))"

section \<open>What does not depend on the comparison\<close>

lemma length_heap_swap [simp]: "length (heap_swap xs i j) = length xs"
  by (simp add: heap_swap_def)

lemma nth_heap_swap:
  "i < length xs \<Longrightarrow> j < length xs \<Longrightarrow>
     heap_swap xs i j ! k = (if k = j then xs ! i else if k = i then xs ! j else xs ! k)"
  by (auto simp: heap_swap_def nth_list_update)

lemma mset_heap_swap: "i < length xs \<Longrightarrow> j < length xs \<Longrightarrow> mset (heap_swap xs i j) = mset xs"
  by (simp add: heap_swap_def mset_swap)

lemma parent_less: "0 < j \<Longrightarrow> (j - 1) div 2 < (j :: nat)"
  by simp

lemma heap_up_frame:
  "j < length xs \<Longrightarrow> length (heap_up before xs j) = length xs \<and> mset (heap_up before xs j) = mset xs \<and>
     (\<forall>k. j < k \<longrightarrow> heap_up before xs j ! k = xs ! k)"
proof (induction before xs j rule: heap_up.induct)
  case (1 before xs j)
  let ?i = "(j - 1) div 2"
  show ?case
  proof (cases "?i = j \<or> \<not> before (xs ! j) (xs ! ?i)")
    case True
    then show ?thesis by (subst (1 2 3) heap_up.simps) (auto simp: Let_def)
  next
    case False
    then have i: "?i < j" by (cases "j = 0") auto
    have "heap_up before xs j = heap_up before (heap_swap xs ?i j) ?i"
      using False by (subst heap_up.simps) (simp add: Let_def)
    with 1 False i show ?thesis by (simp add: nth_heap_swap mset_heap_swap)
  qed
qed

lemma heap_down_frame:
  assumes "i < n" and "n \<le> length xs"
  shows "length (fst (heap_down before xs i n)) = length xs \<and> mset (fst (heap_down before xs i n)) = mset xs \<and>
     (\<forall>k. n \<le> k \<longrightarrow> fst (heap_down before xs i n) ! k = xs ! k) \<and> i \<le> snd (heap_down before xs i n)"
  using assms
proof (induction before xs i n rule: heap_down.induct)
  case (1 before xs i n)
  define j where "j = (if 2 * i + 1 + 1 < n \<and> before (xs ! (2 * i + 1 + 1)) (xs ! (2 * i + 1)) then 2 * i + 1 + 1 else 2 * i + 1)"
  show ?case
  proof (cases "2 * i + 1 \<ge> n \<or> \<not> before (xs ! j) (xs ! i)")
    case True
    then have "heap_down before xs i n = (xs, i)"
      by (subst heap_down.simps) (auto simp: Let_def j_def)
    then show ?thesis by simp
  next
    case False
    then have j: "j < n" "i < j" by (auto simp: j_def)
    have "heap_down before xs i n = heap_down before (heap_swap xs i j) j n"
      using False by (subst heap_down.simps) (auto simp: Let_def j_def split: if_splits)
    with "1.IH" [OF refl _ j_def] False j "1.prems" show ?thesis
      by (auto simp: nth_heap_swap mset_heap_swap)
  qed
qed

section \<open>Heap order\<close>

abbreviation parent :: "nat \<Rightarrow> nat" where
  "parent k \<equiv> (k - 1) div 2"

text \<open>The first \<open>n\<close> elements are a heap: nobody comes before its parent.\<close>

definition heap_ok :: "('a \<Rightarrow> 'a \<Rightarrow> bool) \<Rightarrow> nat \<Rightarrow> 'a list \<Rightarrow> bool" where
  "heap_ok before n xs \<longleftrightarrow> (\<forall>k. 0 < k \<longrightarrow> k < n \<longrightarrow> \<not> before (xs ! k) (xs ! parent k))"

text \<open>A heap but for the place \<open>i\<close>, whose children respect \<open>i\<close>'s parent.\<close>

definition heap_hole :: "('a \<Rightarrow> 'a \<Rightarrow> bool) \<Rightarrow> nat \<Rightarrow> nat \<Rightarrow> 'a list \<Rightarrow> bool" where
  "heap_hole before n i xs \<longleftrightarrow>
     (\<forall>k. 0 < k \<longrightarrow> k < n \<longrightarrow> k \<noteq> i \<longrightarrow> parent k \<noteq> i \<longrightarrow> \<not> before (xs ! k) (xs ! parent k)) \<and>
     (\<forall>k. 0 < k \<longrightarrow> k < n \<longrightarrow> parent k = i \<longrightarrow> 0 < i \<longrightarrow> \<not> before (xs ! k) (xs ! parent i))"

text \<open>The place itself is in order with its children, or with its parent.\<close>

definition below_ok :: "('a \<Rightarrow> 'a \<Rightarrow> bool) \<Rightarrow> nat \<Rightarrow> nat \<Rightarrow> 'a list \<Rightarrow> bool" where
  "below_ok before n i xs \<longleftrightarrow> (\<forall>k. 0 < k \<longrightarrow> k < n \<longrightarrow> parent k = i \<longrightarrow> \<not> before (xs ! k) (xs ! i))"

definition above_ok :: "('a \<Rightarrow> 'a \<Rightarrow> bool) \<Rightarrow> nat \<Rightarrow> 'a list \<Rightarrow> bool" where
  "above_ok before i xs \<longleftrightarrow> (0 < i \<longrightarrow> \<not> before (xs ! i) (xs ! parent i))"

lemma heap_ok_iff_hole:
  "i < n \<Longrightarrow> heap_ok before n xs \<Longrightarrow> below_ok before n i xs \<and> above_ok before i xs"
  by (auto simp: heap_ok_def below_ok_def above_ok_def)

lemma hole_filled:
  "heap_hole before n i xs \<Longrightarrow> below_ok before n i xs \<Longrightarrow> above_ok before i xs \<Longrightarrow> heap_ok before n xs"
  unfolding heap_ok_def
proof (intro allI impI)
  fix k assume "heap_hole before n i xs" "below_ok before n i xs" "above_ok before i xs" "0 < k" "k < n"
  then show "\<not> before (xs ! k) (xs ! parent k)"
    by (cases "k = i"; cases "parent k = i") (auto simp: heap_hole_def below_ok_def above_ok_def)
qed

lemma parent_cases: "0 < k \<Longrightarrow> parent k = i \<longleftrightarrow> k = 2 * i + 1 \<or> k = 2 * i + 1 + 1"
  by auto

lemma heap_ok_take: "n \<le> length xs \<Longrightarrow> heap_ok before n (take n xs) = heap_ok before n xs"
  by (auto simp: heap_ok_def)

lemma mset_take_last:
  assumes "xs \<noteq> []" and "n = length xs - 1"
  shows "mset xs = add_mset (xs ! n) (mset (take n xs))"
proof -
  have "xs = take n xs @ [xs ! n]"
    using assms by (metis append_butlast_last_id butlast_conv_take last_conv_nth)
  then have "mset xs = mset (take n xs @ [xs ! n])" by simp
  then show ?thesis by simp
qed

locale heap_order =
  fixes before :: "'a \<Rightarrow> 'a \<Rightarrow> bool"
  assumes asym: "before a b \<Longrightarrow> \<not> before b a"
    and neg_trans: "\<not> before a b \<Longrightarrow> \<not> before b c \<Longrightarrow> \<not> before a c"
begin

lemma up_heap:
  assumes "j < n" and "n \<le> length xs" and "heap_hole before n j xs" and "below_ok before n j xs"
  shows "heap_ok before n (heap_up before xs j)"
  using assms
proof (induction j arbitrary: xs rule: less_induct)
  case (less j)
  define i where "i = parent j"
  show ?case
  proof (cases "i = j \<or> \<not> before (xs ! j) (xs ! i)")
    case True
    then have "above_ok before j xs" by (cases "j = 0") (auto simp: above_ok_def i_def)
    with less.prems have "heap_ok before n xs" by (blast intro: hole_filled)
    with True show ?thesis by (subst heap_up.simps) (auto simp: Let_def i_def)
  next
    case False
    then have i: "i < j" and lt: "before (xs ! j) (xs ! i)" by (cases "j = 0"; auto simp: i_def)+
    let ?ys = "heap_swap xs i j"
    have y: "?ys ! k = (if k = j then xs ! i else if k = i then xs ! j else xs ! k)" for k
      using i less.prems by (simp add: nth_heap_swap)
    have old: "\<not> before (xs ! k) (xs ! parent k)" if "0 < k" "k < n" "k \<noteq> j" for k
      using that less.prems by (cases "parent k = j") (auto simp: heap_hole_def below_ok_def)
    have kids: "\<not> before (xs ! k) (xs ! i)" if "0 < k" "k < n" "parent k = j" for k
      using that less.prems(3) i by (auto simp: heap_hole_def i_def)
    have "below_ok before n i ?ys"
      unfolding below_ok_def
    proof (intro allI impI)
      fix k assume k: "0 < k" "k < n" "parent k = i"
      show "\<not> before (?ys ! k) (?ys ! i)"
      proof (cases "k = j")
        case True
        with i lt show ?thesis by (simp add: y asym)
      next
        case False
        with k i old [of k] asym [OF lt] have "\<not> before (xs ! k) (xs ! j)" by (metis neg_trans)
        moreover have "k \<noteq> i" using k parent_less [of k] by (metis less_irrefl)
        ultimately show ?thesis using False i by (simp add: y)
      qed
    qed
    moreover have "heap_hole before n i ?ys"
      unfolding heap_hole_def
    proof (intro conjI allI impI)
      fix k assume k: "0 < k" "k < n" "k \<noteq> i" "parent k \<noteq> i"
      then have "k \<noteq> j" by (auto simp: i_def)
      then show "\<not> before (?ys ! k) (?ys ! parent k)"
        using k kids [of k] old [of k] by (auto simp: y)
    next
      fix k assume k: "0 < k" "k < n" "parent k = i" "0 < i"
      have pi: "parent i \<noteq> j" "parent i \<noteq> i" using parent_less [OF k(4)] i by linarith+
      have up: "\<not> before (xs ! i) (xs ! parent i)" using old [of i] k(4) i less.prems(1) by simp
      have "k \<noteq> i" using k by (metis less_irrefl parent_less)
      then show "\<not> before (?ys ! k) (?ys ! parent i)"
        using up neg_trans [OF _ up, of "xs ! k"] old [of k] k pi i by (auto simp: y)
    qed
    ultimately have "heap_ok before n (heap_up before ?ys i)"
      using less.IH [OF i] i less.prems(1,2) by simp
    with False show ?thesis by (subst heap_up.simps) (simp add: Let_def i_def)
  qed
qed

text \<open>One step of \<open>down\<close>: the smaller child goes up and the hole moves down.\<close>

lemma down_step:
  assumes "n \<le> length xs" and "heap_hole before n i xs" and "2 * i + 1 < n"
  defines "j \<equiv> if 2 * i + 1 + 1 < n \<and> before (xs ! (2 * i + 1 + 1)) (xs ! (2 * i + 1)) then 2 * i + 1 + 1 else 2 * i + 1"
  assumes lt: "before (xs ! j) (xs ! i)"
  shows "heap_hole before n j (heap_swap xs i j) \<and> above_ok before j (heap_swap xs i j)"
proof -
  let ?ys = "heap_swap xs i j"
  have j: "j < n" "i < j" "parent j = i" "0 < j" using assms(3) by (auto simp: j_def)
  have y: "?ys ! k = (if k = j then xs ! i else if k = i then xs ! j else xs ! k)" for k
    using j assms(1) by (simp add: nth_heap_swap)
  have least: "\<not> before (xs ! k) (xs ! j)" if "0 < k" "k < n" "parent k = i" for k
    using that parent_cases [OF that(1), of i] asym [of "xs ! j" "xs ! k"] asym [of "xs ! k" "xs ! k"]
    by (auto simp: j_def split: if_splits)
  have old: "\<not> before (xs ! k) (xs ! parent k)" if "0 < k" "k < n" "k \<noteq> i" "parent k \<noteq> i" for k
    using that assms(2) by (auto simp: heap_hole_def)
  have top: "\<not> before (xs ! k) (xs ! parent i)" if "0 < k" "k < n" "parent k = i" "0 < i" for k
    using that assms(2) by (auto simp: heap_hole_def)
  have pi: "parent i \<noteq> j" "0 < i \<Longrightarrow> parent i \<noteq> i" using j(2) by auto
  have "heap_hole before n j ?ys"
    unfolding heap_hole_def
  proof (intro conjI allI impI)
    fix k assume k: "0 < k" "k < n" "k \<noteq> j" "parent k \<noteq> j"
    show "\<not> before (?ys ! k) (?ys ! parent k)"
      using k j least [of k] old [of k] top [of j] pi by (auto simp: y)
  next
    fix k assume k: "0 < k" "k < n" "parent k = j" "0 < j"
    then have "k \<noteq> i" "k \<noteq> j" using j(2) by auto
    then show "\<not> before (?ys ! k) (?ys ! parent j)"
      using k j old [of k] by (simp add: y)
  qed
  moreover have "above_ok before j ?ys"
    using j asym [OF lt] by (simp add: above_ok_def y)
  ultimately show ?thesis ..
qed

lemma down_heap:
  assumes "i < n" and "n \<le> length xs" and "heap_hole before n i xs"
  shows "(above_ok before i xs \<or> i < snd (heap_down before xs i n) \<longrightarrow> heap_ok before n (fst (heap_down before xs i n))) \<and>
         (snd (heap_down before xs i n) = i \<longrightarrow>
            fst (heap_down before xs i n) = xs \<and> below_ok before n i xs)"
  using assms
proof (induction "n - i" arbitrary: xs i rule: less_induct)
  case less
  define j where "j = (if 2 * i + 1 + 1 < n \<and> before (xs ! (2 * i + 1 + 1)) (xs ! (2 * i + 1)) then 2 * i + 1 + 1 else 2 * i + 1)"
  show ?case
  proof (cases "2 * i + 1 \<ge> n \<or> \<not> before (xs ! j) (xs ! i)")
    case True
    then have d: "heap_down before xs i n = (xs, i)"
      by (subst heap_down.simps) (auto simp: Let_def j_def)
    have "below_ok before n i xs"
      unfolding below_ok_def
    proof (intro allI impI)
      fix k assume k: "0 < k" "k < n" "parent k = i"
      then have "\<not> before (xs ! j) (xs ! i)" using True parent_cases [of k i] by auto
      moreover have "\<not> before (xs ! k) (xs ! j)"
        using k parent_cases [of k i] asym [of "xs ! j" "xs ! k"] asym [of "xs ! k" "xs ! k"]
        by (auto simp: j_def split: if_splits)
      ultimately show "\<not> before (xs ! k) (xs ! i)" by (metis neg_trans)
    qed
    with d less.prems show ?thesis by (auto intro: hole_filled)
  next
    case False
    then have lt: "before (xs ! j) (xs ! i)" "2 * i + 1 < n" by auto
    have j: "j < n" "i < j" using lt(2) by (auto simp: j_def)
    have step: "heap_hole before n j (heap_swap xs i j)" "above_ok before j (heap_swap xs i j)"
      using down_step [OF less.prems(2,3) lt(2)] lt(1) by (auto simp: j_def)
    have d: "heap_down before xs i n = heap_down before (heap_swap xs i j) j n"
      using False by (subst heap_down.simps) (auto simp: Let_def j_def split: if_splits)
    have "i < snd (heap_down before (heap_swap xs i j) j n)"
      using heap_down_frame [of j n "heap_swap xs i j" before] j less.prems(2) by simp
    moreover have "heap_ok before n (fst (heap_down before (heap_swap xs i j) j n))"
      using less.hyps [of j "heap_swap xs i j"] j step less.prems by simp
    ultimately show ?thesis by (simp add: d)
  qed
qed

lemma heap_ok_root: "heap_ok before n xs \<Longrightarrow> k < n \<Longrightarrow> \<not> before (xs ! k) (xs ! 0)"
proof (induction k rule: less_induct)
  case (less k)
  show ?case
  proof (cases "k = 0")
    case True
    then show ?thesis using asym by blast
  next
    case False
    then have "\<not> before (xs ! parent k) (xs ! 0)" using less by simp
    moreover have "\<not> before (xs ! k) (xs ! parent k)" using less.prems False by (simp add: heap_ok_def)
    ultimately show ?thesis by (metis neg_trans)
  qed
qed

lemma swap_hole:
  assumes "heap_ok before (length xs) xs" and "i < n" and "length xs = Suc n"
  shows "heap_hole before n i (heap_swap xs i n)"
proof -
  have y: "heap_swap xs i n ! k = (if k = n then xs ! i else if k = i then xs ! n else xs ! k)" for k
    using assms(2,3) by (simp add: nth_heap_swap)
  have old: "\<not> before (xs ! k) (xs ! parent k)" if "0 < k" "k < n" for k
    using assms(1,3) that by (simp add: heap_ok_def)
  have a: "\<not> before (heap_swap xs i n ! k) (heap_swap xs i n ! parent k)"
    if "0 < k" "k < n" "k \<noteq> i" "parent k \<noteq> i" for k
  proof -
    have "parent k \<noteq> n" using that by auto
    then show ?thesis using that old [of k] unfolding y by simp
  qed
  have b: "\<not> before (heap_swap xs i n ! k) (heap_swap xs i n ! parent i)"
    if k: "0 < k" "k < n" "parent k = i" "0 < i" for k
  proof -
    have "\<not> before (xs ! k) (xs ! parent i)"
      using old [of k] old [of i] k assms(2) neg_trans by metis
    moreover have "k \<noteq> i" "parent i \<noteq> i" "parent i \<noteq> n" using k assms(2) by auto
    ultimately show ?thesis using k(2) unfolding y by simp
  qed
  show ?thesis using a b by (auto simp: heap_hole_def)
qed

lemma Push_heap:
  assumes "heap_ok before (length xs) xs"
  shows "heap_ok before (Suc (length xs)) (heap_Push before xs x) \<and>
         mset (heap_Push before xs x) = add_mset x (mset xs) \<and> length (heap_Push before xs x) = Suc (length xs)"
proof -
  let ?n = "length xs"
  have old: "\<not> before ((xs @ [x]) ! k) ((xs @ [x]) ! parent k)" if "0 < k" "k < ?n" for k
    using assms that less_trans [OF parent_less [OF that(1)] that(2)] by (simp add: heap_ok_def nth_append)
  have par: "parent k \<noteq> ?n" if "0 < k" "k < Suc ?n" for k
    using parent_less [OF that(1)] that(2) by linarith
  have "heap_hole before (Suc ?n) ?n (xs @ [x])"
    unfolding heap_hole_def using old par less_Suc_eq by blast
  moreover have "below_ok before (Suc ?n) ?n (xs @ [x])"
    unfolding below_ok_def using par by blast
  ultimately show ?thesis
    using up_heap [of ?n "Suc ?n" "xs @ [x]"] heap_up_frame [of ?n "xs @ [x]" before]
    by (simp add: heap_Push_def)
qed

lemma Pop_heap:
  assumes "heap_ok before (length xs) xs" and "xs \<noteq> []"
  shows "\<exists>ys. heap_Pop before xs = Inr (xs ! 0, ys) \<and> heap_ok before (length ys) ys \<and>
           mset xs = add_mset (xs ! 0) (mset ys)"
proof -
  define n where "n = length xs - 1"
  have len: "length xs = Suc n" using assms(2) by (simp add: n_def)
  define zs where "zs = fst (heap_down before (heap_swap xs 0 n) 0 n)"
  have z: "length zs = length xs \<and> mset zs = mset xs \<and> zs ! n = xs ! 0 \<and> heap_ok before n zs"
  proof (cases "n = 0")
    case True
    then have "zs = heap_swap xs 0 0"
      unfolding zs_def by (subst heap_down.simps) simp
    with True show ?thesis
      using len by (simp add: mset_heap_swap nth_heap_swap heap_ok_def)
  next
    case False
    then have hole: "heap_hole before n 0 (heap_swap xs 0 n)"
      using swap_hole [OF assms(1), of 0 n] len by simp
    have "above_ok before 0 (heap_swap xs 0 n)" by (simp add: above_ok_def)
    with down_heap [of 0 n "heap_swap xs 0 n"] heap_down_frame [of 0 n "heap_swap xs 0 n" before] hole len False
    show ?thesis by (simp add: zs_def mset_heap_swap nth_heap_swap)
  qed
  have "heap_Pop before xs = Inr (zs ! n, take n zs)"
    using assms(2) by (simp add: heap_Pop_def zs_def n_def Let_def)
  moreover have "mset xs = add_mset (xs ! 0) (mset (take n zs))"
    using mset_take_last [of zs n] z assms(2) by (simp add: n_def) (metis length_0_conv)
  ultimately show ?thesis
    using z len heap_ok_take [of n zs before] by simp
qed

lemma Remove_heap:
  assumes "heap_ok before (length xs) xs" and "i < length xs"
  shows "\<exists>ys. heap_Remove before xs i = Inr (xs ! i, ys) \<and> heap_ok before (length ys) ys \<and>
           mset xs = add_mset (xs ! i) (mset ys)"
proof -
  define n where "n = length xs - 1"
  have len: "length xs = Suc n" using assms(2) by (simp add: n_def)
  define zs where "zs = (if n \<noteq> i then
      (let ws = heap_swap xs i n; (ws, k) = heap_down before ws i n
       in if k > i then ws else heap_up before ws i) else xs)"
  have z: "length zs = length xs \<and> mset zs = mset xs \<and> zs ! n = xs ! i \<and> heap_ok before n zs"
  proof (cases "n = i")
    case True
    then show ?thesis using assms by (auto simp: zs_def heap_ok_def)
  next
    case False
    then have i: "i < n" using assms(2) len by simp
    obtain ws k where d: "heap_down before (heap_swap xs i n) i n = (ws, k)" by fastforce
    have hole: "heap_hole before n i (heap_swap xs i n)"
      using swap_hole [OF assms(1) i] len by simp
    have w: "length ws = length xs" "mset ws = mset xs" "ws ! n = xs ! i" "i \<le> k"
      using heap_down_frame [of i n "heap_swap xs i n" before] d i len
      by (simp_all add: mset_heap_swap nth_heap_swap)
    have h: "i < k \<Longrightarrow> heap_ok before n ws" "k = i \<Longrightarrow> ws = heap_swap xs i n \<and> below_ok before n i ws"
      using down_heap [of i n "heap_swap xs i n"] hole d i len by simp_all
    show ?thesis
    proof (cases "i < k")
      case True
      then show ?thesis using w h False by (simp add: zs_def d)
    next
      case stay: False
      with w(4) h(2) have ws: "k = i" "ws = heap_swap xs i n" "below_ok before n i ws" by auto
      have "heap_ok before n (heap_up before ws i)"
        using up_heap [of i n ws] ws(3) hole i w(1) len unfolding ws(2) by simp
      with heap_up_frame [of i ws before] w i len ws(1) show ?thesis
        using False by (simp add: zs_def d)
    qed
  qed
  have "heap_Remove before xs i = Inr (zs ! n, take n zs)"
    using assms(2) by (auto simp: heap_Remove_def zs_def n_def Let_def)
  moreover have "mset xs = add_mset (xs ! i) (mset (take n zs))"
    using mset_take_last [of zs n] z assms(2) by (simp add: n_def) (metis length_0_conv not_less_zero)
  ultimately show ?thesis
    using z len heap_ok_take [of n zs before] by simp
qed

end

end
