(* ===== verification/Priority_Queue.thy ===== *)
theory Priority_Queue
  imports Go_Heap
begin

text \<open>
  The packet queue of the traffic component (\<open>client/internal/traffic/queue.go\<close>): packets, the
  bounded priority queue with expiry and eviction, and the registry of named queues. Times are
  nanoseconds; \<open>now\<close> is the clock, read once per packet where the code reads it per packet. The
  \<open>index\<close> field of a heap item and a packet's \<open>Metadata\<close> are written and never read, and are left out;
  the condition variable only wakes a parked \<open>Dequeue\<close>, whose loop body is one definition here.
\<close>

section \<open>Packets\<close>

definition PriorityLow :: int where "PriorityLow = 0"
definition PriorityNormal :: int where "PriorityNormal = 1"
definition PriorityHigh :: int where "PriorityHigh = 2"
definition PriorityCritical :: int where "PriorityCritical = 3"

definition Priority_String :: "int \<Rightarrow> string" where
  "Priority_String p =
     (if p = PriorityLow then ''LOW'' else if p = PriorityNormal then ''NORMAL''
      else if p = PriorityHigh then ''HIGH'' else if p = PriorityCritical then ''CRITICAL''
      else ''UNKNOWN'')"

record packet =
  pk_ID :: string
  pk_Data :: "byte list"
  pk_Priority :: int
  pk_Timestamp :: int
  pk_Deadline :: int
  pk_Retries :: int

definition NewPacket :: "string \<Rightarrow> byte list \<Rightarrow> int \<Rightarrow> int \<Rightarrow> packet" where
  "NewPacket i data priority now =
     \<lparr>pk_ID = i, pk_Data = data, pk_Priority = priority, pk_Timestamp = now,
      pk_Deadline = now + 30 * 10 ^ 9, pk_Retries = 0\<rparr>"

definition Packet_IsExpired :: "packet \<Rightarrow> int \<Rightarrow> bool" where
  "Packet_IsExpired p now \<longleftrightarrow> now > pk_Deadline p"

definition Packet_Size :: "packet \<Rightarrow> int" where
  "Packet_Size p = int (length (pk_Data p))"

text \<open>\<open>priorityQueue.Less\<close> on two packets.\<close>

definition packet_before :: "packet \<Rightarrow> packet \<Rightarrow> bool" where
  "packet_before p q =
     (if pk_Priority p \<noteq> pk_Priority q then pk_Priority p > pk_Priority q
      else pk_Timestamp p < pk_Timestamp q)"

interpretation pq_heap: heap_order packet_before
  by unfold_locales (auto simp: packet_before_def split: if_splits)

section \<open>The queue\<close>

record prio_stats =
  ps_Enqueued :: int
  ps_Dequeued :: int
  ps_Dropped :: int
  ps_Expired :: int

record pqueue =
  pq_queue :: "packet list"
  pq_maxSize :: int
  pq_maxWaitTime :: int
  pq_totalEnqueued :: int
  pq_totalDequeued :: int
  pq_totalDropped :: int
  pq_totalExpired :: int
  pq_priorityStats :: "(int \<times> prio_stats) list"
  pq_closed :: bool

definition no_stats :: prio_stats where
  "no_stats = \<lparr>ps_Enqueued = 0, ps_Dequeued = 0, ps_Dropped = 0, ps_Expired = 0\<rparr>"

definition NewPriorityQueue :: "int \<Rightarrow> int \<Rightarrow> pqueue" where
  "NewPriorityQueue maxSize maxWaitTime =
     \<lparr>pq_queue = [], pq_maxSize = maxSize, pq_maxWaitTime = maxWaitTime,
      pq_totalEnqueued = 0, pq_totalDequeued = 0, pq_totalDropped = 0, pq_totalExpired = 0,
      pq_priorityStats = map (\<lambda>p. (p, no_stats)) [PriorityLow, PriorityNormal, PriorityHigh, PriorityCritical],
      pq_closed = False\<rparr>"

text \<open>Counting for a priority dereferences its entry, which is nil for a priority outside the four.\<close>

definition count_stat :: "(prio_stats \<Rightarrow> prio_stats) \<Rightarrow> int \<Rightarrow> pqueue \<Rightarrow> pqueue res" where
  "count_stat f p pq =
     (case map_of (pq_priorityStats pq) p of
        None \<Rightarrow> Inl NilDereference
      | Some st \<Rightarrow> Inr (pq\<lparr>pq_priorityStats := AList.update p (f st) (pq_priorityStats pq)\<rparr>))"

abbreviation "count_Enqueued \<equiv> count_stat (\<lambda>st. st\<lparr>ps_Enqueued := add64 (ps_Enqueued st) 1\<rparr>)"
abbreviation "count_Dequeued \<equiv> count_stat (\<lambda>st. st\<lparr>ps_Dequeued := add64 (ps_Dequeued st) 1\<rparr>)"
abbreviation "count_Dropped \<equiv> count_stat (\<lambda>st. st\<lparr>ps_Dropped := add64 (ps_Dropped st) 1\<rparr>)"
abbreviation "count_Expired \<equiv> count_stat (\<lambda>st. st\<lparr>ps_Expired := add64 (ps_Expired st) 1\<rparr>)"

text \<open>The scan of \<open>tryDropLowPriority\<close>, from index \<open>i - 1\<close> down.\<close>

fun try_drop :: "nat \<Rightarrow> int \<Rightarrow> pqueue \<Rightarrow> (bool \<times> pqueue) res" where
  "try_drop 0 newPriority pq = Inr (False, pq)"
| "try_drop (Suc i) newPriority pq =
     (if pk_Priority (pq_queue pq ! i) < newPriority then
        and_then (heap_Remove packet_before (pq_queue pq) i) (\<lambda>(item, q).
        and_then (count_Dropped (pk_Priority item)
                   (pq\<lparr>pq_queue := q, pq_totalDropped := add64 (pq_totalDropped pq) 1\<rparr>)) (\<lambda>pq.
          Inr (True, pq)))
      else try_drop i newPriority pq)"

definition PriorityQueue_tryDropLowPriority :: "pqueue \<Rightarrow> int \<Rightarrow> (bool \<times> pqueue) res" where
  "PriorityQueue_tryDropLowPriority pq newPriority = try_drop (length (pq_queue pq)) newPriority pq"

datatype pq_err = QueueClosed | QueueFull | QueueCtxDone

definition pq_insert :: "pqueue \<Rightarrow> packet \<Rightarrow> (pq_err option \<times> pqueue) res" where
  "pq_insert pq packet =
     and_then (count_Enqueued (pk_Priority packet)
         (pq\<lparr>pq_queue := heap_Push packet_before (pq_queue pq) packet,
             pq_totalEnqueued := add64 (pq_totalEnqueued pq) 1\<rparr>)) (\<lambda>pq. Inr (None, pq))"

definition PriorityQueue_Enqueue :: "pqueue \<Rightarrow> packet \<Rightarrow> (pq_err option \<times> pqueue) res" where
  "PriorityQueue_Enqueue pq packet =
     (if pq_closed pq then Inr (Some QueueClosed, pq)
      else if int (length (pq_queue pq)) \<ge> pq_maxSize pq then
        and_then (PriorityQueue_tryDropLowPriority pq (pk_Priority packet)) (\<lambda>(ok, pq).
          if \<not> ok then
            and_then (count_Dropped (pk_Priority packet)
                       (pq\<lparr>pq_totalDropped := add64 (pq_totalDropped pq) 1\<rparr>)) (\<lambda>pq.
              Inr (Some QueueFull, pq))
          else pq_insert pq packet)
      else pq_insert pq packet)"

fun remove_indices :: "nat list \<Rightarrow> pqueue \<Rightarrow> pqueue res" where
  "remove_indices [] pq = Inr pq"
| "remove_indices (i # is) pq =
     and_then (heap_Remove packet_before (pq_queue pq) i) (\<lambda>(item, q).
     and_then (count_Expired (pk_Priority item)
                (pq\<lparr>pq_queue := q, pq_totalExpired := add64 (pq_totalExpired pq) 1\<rparr>))
       (remove_indices is))"

definition expired_indices :: "(nat \<Rightarrow> int) \<Rightarrow> packet list \<Rightarrow> nat list" where
  "expired_indices now q = filter (\<lambda>i. Packet_IsExpired (q ! i) (now i)) [0..<length q]"

definition PriorityQueue_cleanupExpired :: "(nat \<Rightarrow> int) \<Rightarrow> pqueue \<Rightarrow> pqueue res" where
  "PriorityQueue_cleanupExpired now pq = remove_indices (rev (expired_indices now (pq_queue pq))) pq"

definition pq_take :: "pqueue \<Rightarrow> (packet \<times> pqueue) res" where
  "pq_take pq =
     and_then (heap_Pop packet_before (pq_queue pq)) (\<lambda>(packet, q).
     and_then (count_Dequeued (pk_Priority packet)
                (pq\<lparr>pq_queue := q, pq_totalDequeued := add64 (pq_totalDequeued pq) 1\<rparr>)) (\<lambda>pq.
       Inr (packet, pq)))"

datatype deq_result = DeqPacket packet | DeqErr pq_err | DeqWait

text \<open>
  One round of \<open>Dequeue\<close>'s loop: it returns or parks on the condition variable. When it is woken it
  returns the context's error if there is one and otherwise goes round again.
\<close>

definition PriorityQueue_Dequeue :: "(nat \<Rightarrow> int) \<Rightarrow> pqueue \<Rightarrow> (deq_result \<times> pqueue) res" where
  "PriorityQueue_Dequeue now pq =
     (if pq_closed pq \<and> pq_queue pq = [] then Inr (DeqErr QueueClosed, pq)
      else and_then (PriorityQueue_cleanupExpired now pq) (\<lambda>pq.
        if pq_queue pq \<noteq> [] then
          and_then (pq_take pq) (\<lambda>(packet, pq). Inr (DeqPacket packet, pq))
        else Inr (DeqWait, pq)))"

definition PriorityQueue_Dequeue_resume ::
    "bool \<Rightarrow> (nat \<Rightarrow> int) \<Rightarrow> pqueue \<Rightarrow> (deq_result \<times> pqueue) res" where
  "PriorityQueue_Dequeue_resume ctxDone now pq =
     (if ctxDone then Inr (DeqErr QueueCtxDone, pq) else PriorityQueue_Dequeue now pq)"

definition PriorityQueue_TryDequeue :: "(nat \<Rightarrow> int) \<Rightarrow> pqueue \<Rightarrow> (packet option \<times> pqueue) res" where
  "PriorityQueue_TryDequeue now pq =
     and_then (PriorityQueue_cleanupExpired now pq) (\<lambda>pq.
       if pq_queue pq = [] then Inr (None, pq)
       else and_then (pq_take pq) (\<lambda>(packet, pq). Inr (Some packet, pq)))"

definition PriorityQueue_Size :: "pqueue \<Rightarrow> int" where
  "PriorityQueue_Size pq = int (length (pq_queue pq))"

definition PriorityQueue_IsEmpty :: "pqueue \<Rightarrow> bool" where
  "PriorityQueue_IsEmpty pq \<longleftrightarrow> PriorityQueue_Size pq = 0"

definition PriorityQueue_IsFull :: "pqueue \<Rightarrow> bool" where
  "PriorityQueue_IsFull pq \<longleftrightarrow> PriorityQueue_Size pq \<ge> pq_maxSize pq"

definition PriorityQueue_Close :: "pqueue \<Rightarrow> pqueue" where
  "PriorityQueue_Close pq = pq\<lparr>pq_closed := True\<rparr>"

section \<open>Named queues\<close>

text \<open>
  Queues are objects, kept in a store; a caller holds the address \<open>GetQueue\<close> returned also after the
  queue has been removed from the registry.
\<close>

record multi_queue =
  mq_store :: "pqueue list"
  mq_queues :: "(string \<times> nat) list"
  mq_defaultMaxSize :: int
  mq_defaultMaxWaitTime :: int

definition NewMultiQueue :: "int \<Rightarrow> int \<Rightarrow> multi_queue" where
  "NewMultiQueue defaultMaxSize defaultMaxWaitTime =
     \<lparr>mq_store = [], mq_queues = [], mq_defaultMaxSize = defaultMaxSize,
      mq_defaultMaxWaitTime = defaultMaxWaitTime\<rparr>"

definition MultiQueue_GetQueue :: "multi_queue \<Rightarrow> string \<Rightarrow> nat \<times> multi_queue" where
  "MultiQueue_GetQueue mq name =
     (case map_of (mq_queues mq) name of
        Some a \<Rightarrow> (a, mq)
      | None \<Rightarrow>
          (length (mq_store mq),
           mq\<lparr>mq_store := mq_store mq @ [NewPriorityQueue (mq_defaultMaxSize mq) (mq_defaultMaxWaitTime mq)],
              mq_queues := AList.update name (length (mq_store mq)) (mq_queues mq)\<rparr>))"

definition MultiQueue_RemoveQueue :: "multi_queue \<Rightarrow> string \<Rightarrow> multi_queue" where
  "MultiQueue_RemoveQueue mq name =
     (case map_of (mq_queues mq) name of
        None \<Rightarrow> mq
      | Some a \<Rightarrow> mq\<lparr>mq_store := (mq_store mq)[a := PriorityQueue_Close (mq_store mq ! a)],
                      mq_queues := AList.delete name (mq_queues mq)\<rparr>)"

definition MultiQueue_CloseAll :: "multi_queue \<Rightarrow> multi_queue" where
  "MultiQueue_CloseAll mq =
     mq\<lparr>mq_store := fold (\<lambda>(name, a) st. st[a := PriorityQueue_Close (st ! a)]) (mq_queues mq) (mq_store mq),
        mq_queues := []\<rparr>"

end
