(* ===== verification/Priority_Queue_Props.thy ===== *)
theory Priority_Queue_Props
  imports Priority_Queue
begin

text \<open>
  Correctness of the packet queue: the heap order and the accounting over all operations, what a full
  queue does with a new packet, the order in which packets leave, and what the removal of expired
  packets gets wrong.
\<close>

section \<open>Invariant\<close>

definition valid_priority :: "int \<Rightarrow> bool" where
  "valid_priority p \<longleftrightarrow> p \<in> {PriorityLow, PriorityNormal, PriorityHigh, PriorityCritical}"

definition pq_inv :: "pqueue \<Rightarrow> bool" where
  "pq_inv pq \<longleftrightarrow>
     heap_ok packet_before (length (pq_queue pq)) (pq_queue pq) \<and>
     (\<forall>p. valid_priority p \<longrightarrow> map_of (pq_priorityStats pq) p \<noteq> None) \<and>
     (\<forall>p \<in> set (pq_queue pq). valid_priority (pk_Priority p))"

lemma NewPriorityQueue_inv: "pq_inv (NewPriorityQueue m w)"
  by (auto simp: pq_inv_def NewPriorityQueue_def heap_ok_def valid_priority_def)

text \<open>Two queues that differ at most in the per-priority counters.\<close>

definition same_but_stats :: "pqueue \<Rightarrow> pqueue \<Rightarrow> bool" where
  "same_but_stats pq pq' \<longleftrightarrow>
     (\<exists>st. pq' = pq\<lparr>pq_priorityStats := st\<rparr> \<and> dom (map_of (pq_priorityStats pq)) \<subseteq> dom (map_of st))"

lemma count_stat_ok:
  assumes "map_of (pq_priorityStats pq) p \<noteq> None"
  shows "\<exists>pq'. count_stat f p pq = Inr pq' \<and> same_but_stats pq pq'"
proof -
  obtain st where st: "map_of (pq_priorityStats pq) p = Some st" using assms by blast
  have "same_but_stats pq (pq\<lparr>pq_priorityStats := AList.update p (f st) (pq_priorityStats pq)\<rparr>)"
    unfolding same_but_stats_def
    by (intro exI [of _ "AList.update p (f st) (pq_priorityStats pq)"]) auto
  with st show ?thesis by (simp add: count_stat_def)
qed

lemma same_but_stats_refl: "same_but_stats pq pq"
  unfolding same_but_stats_def by (intro exI [of _ "pq_priorityStats pq"]) simp

lemma same_but_statsD:
  assumes "same_but_stats pq pq'"
  shows "pq_queue pq' = pq_queue pq" "pq_maxSize pq' = pq_maxSize pq" "pq_closed pq' = pq_closed pq"
    "pq_totalEnqueued pq' = pq_totalEnqueued pq" "pq_totalDequeued pq' = pq_totalDequeued pq"
    "pq_totalDropped pq' = pq_totalDropped pq" "pq_totalExpired pq' = pq_totalExpired pq"
    "map_of (pq_priorityStats pq) p \<noteq> None \<Longrightarrow> map_of (pq_priorityStats pq') p \<noteq> None"
  using assms by (auto simp: same_but_stats_def dom_def)

lemma pq_inv_step:
  assumes "pq_inv pq" and "same_but_stats pq0 pq'" and "pq_priorityStats pq0 = pq_priorityStats pq"
    and "heap_ok packet_before (length (pq_queue pq0)) (pq_queue pq0)"
    and "\<forall>p \<in> set (pq_queue pq0). valid_priority (pk_Priority p)"
  shows "pq_inv pq'"
  using assms same_but_statsD [OF assms(2)] by (auto simp: pq_inv_def)

lemma pq_inv_remove:
  assumes "pq_inv pq" and "i < length (pq_queue pq)"
  shows "\<exists>q. heap_Remove packet_before (pq_queue pq) i = Inr (pq_queue pq ! i, q) \<and>
     heap_ok packet_before (length q) q \<and> mset (pq_queue pq) = add_mset (pq_queue pq ! i) (mset q) \<and>
     (\<forall>p \<in> set q. valid_priority (pk_Priority p)) \<and> valid_priority (pk_Priority (pq_queue pq ! i)) \<and>
     length (pq_queue pq) = Suc (length q)"
proof -
  from pq_heap.Remove_heap [of "pq_queue pq" i] assms obtain q where
    q: "heap_Remove packet_before (pq_queue pq) i = Inr (pq_queue pq ! i, q)"
      "heap_ok packet_before (length q) q" "mset (pq_queue pq) = add_mset (pq_queue pq ! i) (mset q)"
    by (auto simp: pq_inv_def)
  have "set (pq_queue pq) = insert (pq_queue pq ! i) (set q)"
    using arg_cong [OF q(3), of set_mset] by simp
  moreover have "length (pq_queue pq) = Suc (length q)"
    using arg_cong [OF q(3), of size] by simp
  ultimately show ?thesis using q assms by (auto simp: pq_inv_def)
qed

section \<open>The operations\<close>

text \<open>
  Making room: the scan removes the last packet in the slice whose priority is lower, if there is one.
\<close>

lemma try_drop_spec:
  assumes "pq_inv pq" and "i \<le> length (pq_queue pq)"
  shows "(\<exists>k q pq'. k < i \<and> pk_Priority (pq_queue pq ! k) < np \<and> try_drop i np pq = Inr (True, pq') \<and>
            mset (pq_queue pq) = add_mset (pq_queue pq ! k) (mset (pq_queue pq')) \<and> pq_inv pq' \<and>
            same_but_stats (pq\<lparr>pq_queue := q, pq_totalDropped := add64 (pq_totalDropped pq) 1\<rparr>) pq') \<or>
         (\<forall>k < i. np \<le> pk_Priority (pq_queue pq ! k)) \<and> try_drop i np pq = Inr (False, pq)"
  using assms(2)
proof (induction i)
  case (Suc i)
  show ?case
  proof (cases "pk_Priority (pq_queue pq ! i) < np")
    case True
    obtain q where q: "heap_Remove packet_before (pq_queue pq) i = Inr (pq_queue pq ! i, q)"
      "heap_ok packet_before (length q) q" "mset (pq_queue pq) = add_mset (pq_queue pq ! i) (mset q)"
      "\<forall>p \<in> set q. valid_priority (pk_Priority p)" "valid_priority (pk_Priority (pq_queue pq ! i))"
      using pq_inv_remove [OF assms(1), of i] Suc.prems by auto
    let ?pq = "pq\<lparr>pq_queue := q, pq_totalDropped := add64 (pq_totalDropped pq) 1\<rparr>"
    have "map_of (pq_priorityStats ?pq) (pk_Priority (pq_queue pq ! i)) \<noteq> None"
      using assms(1) q(5) by (simp add: pq_inv_def)
    from count_stat_ok [OF this] obtain pq' where
      c: "count_Dropped (pk_Priority (pq_queue pq ! i)) ?pq = Inr pq'" "same_but_stats ?pq pq'" by blast
    have "pq_inv pq'"
      using pq_inv_step [OF assms(1) c(2)] q(2,4) by simp
    with True q c same_but_statsD(1) [OF c(2)] show ?thesis
      by (intro disjI1 exI [of _ i] exI [of _ q] exI [of _ pq']) simp
  next
    case False
    with Suc show ?thesis by (auto simp: less_Suc_eq)
  qed
qed simp

lemma pq_insert_spec:
  assumes "pq_inv pq" and "valid_priority (pk_Priority p)"
  shows "\<exists>pq' q. pq_insert pq p = Inr (None, pq') \<and> pq_inv pq' \<and>
     mset (pq_queue pq') = add_mset p (mset (pq_queue pq)) \<and>
     same_but_stats (pq\<lparr>pq_queue := q, pq_totalEnqueued := add64 (pq_totalEnqueued pq) 1\<rparr>) pq'"
proof -
  let ?q = "heap_Push packet_before (pq_queue pq) p"
  let ?pq = "pq\<lparr>pq_queue := ?q, pq_totalEnqueued := add64 (pq_totalEnqueued pq) 1\<rparr>"
  have push: "heap_ok packet_before (length ?q) ?q" "mset ?q = add_mset p (mset (pq_queue pq))"
    using pq_heap.Push_heap [of "pq_queue pq" p] assms(1) by (auto simp: pq_inv_def)
  then have "set ?q = insert p (set (pq_queue pq))"
    by (metis set_mset_add_mset_insert set_mset_mset)
  then have v: "\<forall>r \<in> set ?q. valid_priority (pk_Priority r)" using assms by (auto simp: pq_inv_def)
  have "map_of (pq_priorityStats ?pq) (pk_Priority p) \<noteq> None" using assms by (simp add: pq_inv_def)
  from count_stat_ok [OF this] obtain pq' where
    c: "count_Enqueued (pk_Priority p) ?pq = Inr pq'" "same_but_stats ?pq pq'" by blast
  have "pq_inv pq'"
    using pq_inv_step [OF assms(1) c(2)] push(1) v by simp
  with c push same_but_statsD(1) [OF c(2)] show ?thesis
    by (intro exI [of _ pq'] exI [of _ ?q]) (simp add: pq_insert_def)
qed

lemma pq_take_spec:
  assumes "pq_inv pq" and "pq_queue pq \<noteq> []"
  shows "\<exists>p pq' q. pq_take pq = Inr (p, pq') \<and> pq_inv pq' \<and>
     mset (pq_queue pq) = add_mset p (mset (pq_queue pq')) \<and>
     (\<forall>r \<in> set (pq_queue pq). \<not> packet_before r p) \<and>
     same_but_stats (pq\<lparr>pq_queue := q, pq_totalDequeued := add64 (pq_totalDequeued pq) 1\<rparr>) pq'"
proof -
  let ?p = "pq_queue pq ! 0"
  obtain q where q: "heap_Pop packet_before (pq_queue pq) = Inr (?p, q)"
    "heap_ok packet_before (length q) q" "mset (pq_queue pq) = add_mset ?p (mset q)"
    using pq_heap.Pop_heap [of "pq_queue pq"] assms by (auto simp: pq_inv_def)
  have s: "set (pq_queue pq) = insert ?p (set q)" using arg_cong [OF q(3), of set_mset] by simp
  have root: "\<forall>r \<in> set (pq_queue pq). \<not> packet_before r ?p"
    using pq_heap.heap_ok_root assms(1) by (auto simp: pq_inv_def in_set_conv_nth)
  let ?pq = "pq\<lparr>pq_queue := q, pq_totalDequeued := add64 (pq_totalDequeued pq) 1\<rparr>"
  have v: "\<forall>r \<in> set q. valid_priority (pk_Priority r)" "map_of (pq_priorityStats ?pq) (pk_Priority ?p) \<noteq> None"
    using assms s by (auto simp: pq_inv_def)
  from count_stat_ok [OF v(2)] obtain pq' where
    c: "count_Dequeued (pk_Priority ?p) ?pq = Inr pq'" "same_but_stats ?pq pq'" by blast
  have "pq_inv pq'"
    using pq_inv_step [OF assms(1) c(2)] q(2) v(1) by simp
  with c q root same_but_statsD(1) [OF c(2)] show ?thesis
    by (intro exI [of _ ?p] exI [of _ pq'] exI [of _ q]) (simp add: pq_take_def)
qed

text \<open>
  Removing at indices taken from the largest down never runs out of range, and removes one packet each.
\<close>

primrec count_up64 :: "int \<Rightarrow> nat \<Rightarrow> int" where
  "count_up64 c 0 = c"
| "count_up64 c (Suc n) = count_up64 (add64 c 1) n"

lemma remove_indices_spec:
  assumes "pq_inv pq" and "sorted_wrt (>) is" and "\<forall>i \<in> set is. i < length (pq_queue pq)"
  shows "\<exists>pq' q. remove_indices is pq = Inr pq' \<and> pq_inv pq' \<and>
     length (pq_queue pq') + length is = length (pq_queue pq) \<and>
     mset (pq_queue pq') \<subseteq># mset (pq_queue pq) \<and>
     same_but_stats (pq\<lparr>pq_queue := q, pq_totalExpired := count_up64 (pq_totalExpired pq) (length is)\<rparr>) pq'"
  using assms
proof (induction "is" arbitrary: pq)
  case Nil
  show ?case
    using Nil.prems(1)
    by (intro exI [of _ pq] exI [of _ "pq_queue pq"]) (simp add: same_but_stats_refl)
next
  case (Cons i "is")
  obtain q where q: "heap_Remove packet_before (pq_queue pq) i = Inr (pq_queue pq ! i, q)"
    "heap_ok packet_before (length q) q" "mset (pq_queue pq) = add_mset (pq_queue pq ! i) (mset q)"
    "\<forall>p \<in> set q. valid_priority (pk_Priority p)" "valid_priority (pk_Priority (pq_queue pq ! i))"
    "length (pq_queue pq) = Suc (length q)"
    using pq_inv_remove [OF Cons.prems(1), of i] Cons.prems(3) by auto
  let ?pq = "pq\<lparr>pq_queue := q, pq_totalExpired := add64 (pq_totalExpired pq) 1\<rparr>"
  have "map_of (pq_priorityStats ?pq) (pk_Priority (pq_queue pq ! i)) \<noteq> None"
    using Cons.prems(1) q(5) by (simp add: pq_inv_def)
  from count_stat_ok [OF this] obtain pq1 where
    c: "count_Expired (pk_Priority (pq_queue pq ! i)) ?pq = Inr pq1" "same_but_stats ?pq pq1" by blast
  have inv1: "pq_inv pq1"
    using pq_inv_step [OF Cons.prems(1) c(2)] q(2,4) by simp
  note same = same_but_statsD [OF c(2)]
  have "\<forall>j \<in> set is. j < length (pq_queue pq1)"
    using Cons.prems(2,3) q(6) same(1) by fastforce
  from Cons.IH [OF inv1 _ this] Cons.prems(2) obtain pq' q' where
    r: "remove_indices is pq1 = Inr pq'" "pq_inv pq'" "length (pq_queue pq') + length is = length q"
      "mset (pq_queue pq') \<subseteq># mset q"
      "same_but_stats (pq1\<lparr>pq_queue := q', pq_totalExpired := count_up64 (pq_totalExpired pq1) (length is)\<rparr>) pq'"
    using same(1) by auto
  have "same_but_stats (pq\<lparr>pq_queue := q', pq_totalExpired := count_up64 (pq_totalExpired pq) (length (i # is))\<rparr>) pq'"
  proof -
    obtain st where st: "pq1 = ?pq\<lparr>pq_priorityStats := st\<rparr>"
      "dom (map_of (pq_priorityStats pq)) \<subseteq> dom (map_of st)"
      using c(2) by (auto simp: same_but_stats_def)
    with r(5) obtain st' where st': "pq' = pq\<lparr>pq_queue := q',
        pq_totalExpired := count_up64 (pq_totalExpired pq) (length (i # is)), pq_priorityStats := st'\<rparr>"
      "dom (map_of st) \<subseteq> dom (map_of st')"
      by (auto simp: same_but_stats_def)
    with st(2) show ?thesis
      unfolding same_but_stats_def by (intro exI [of _ st']) auto
  qed
  moreover have "mset q \<subseteq># mset (pq_queue pq)" by (simp add: q(3))
  then have "mset (pq_queue pq') \<subseteq># mset (pq_queue pq)" by (rule subset_mset.order_trans [OF r(4)])
  ultimately show ?case
    using r(1-3) q(1,6) c(1) by (intro exI [of _ pq'] exI [of _ q']) simp
qed

lemma cleanupExpired_spec:
  fixes now :: "nat \<Rightarrow> int"
  assumes "pq_inv pq"
  defines "n \<equiv> length (expired_indices now (pq_queue pq))"
  shows "\<exists>pq' q. PriorityQueue_cleanupExpired now pq = Inr pq' \<and> pq_inv pq' \<and>
     length (pq_queue pq') + n = length (pq_queue pq) \<and> mset (pq_queue pq') \<subseteq># mset (pq_queue pq) \<and>
     same_but_stats (pq\<lparr>pq_queue := q, pq_totalExpired := count_up64 (pq_totalExpired pq) n\<rparr>) pq'"
proof -
  have "sorted_wrt (<) (expired_indices now (pq_queue pq))"
    by (simp add: expired_indices_def sorted_wrt_filter)
  then have "sorted_wrt (>) (rev (expired_indices now (pq_queue pq)))" by (simp add: sorted_wrt_rev)
  from remove_indices_spec [OF assms(1) this] show ?thesis
    by (auto simp: PriorityQueue_cleanupExpired_def n_def expired_indices_def)
qed

section \<open>Accounting\<close>

text \<open>
  A queue from its creation on, with the packets producers hand in and the clock consumers read.
  \<open>refused\<close> counts the packets turned away because the queue was full.
\<close>

inductive pq_run :: "int \<Rightarrow> nat \<Rightarrow> pqueue \<Rightarrow> bool" for maxSize :: int where
  new: "pq_run maxSize 0 (NewPriorityQueue maxSize maxWait)"
| enqueue: "pq_run maxSize refused pq \<Longrightarrow> valid_priority (pk_Priority p) \<Longrightarrow>
    PriorityQueue_Enqueue pq p = Inr (e, pq') \<Longrightarrow>
    pq_run maxSize (if e = Some QueueFull then Suc refused else refused) pq'"
| try_dequeue: "pq_run maxSize refused pq \<Longrightarrow> PriorityQueue_TryDequeue now pq = Inr (r, pq') \<Longrightarrow>
    pq_run maxSize refused pq'"
| dequeue: "pq_run maxSize refused pq \<Longrightarrow> PriorityQueue_Dequeue now pq = Inr (d, pq') \<Longrightarrow>
    pq_run maxSize refused pq'"
| close: "pq_run maxSize refused pq \<Longrightarrow> pq_run maxSize refused (PriorityQueue_Close pq)"

text \<open>The counters are 64 bits wide, so sums of them agree modulo \<open>2 ^ 64\<close>.\<close>

definition balanced :: "nat \<Rightarrow> pqueue \<Rightarrow> bool" where
  "balanced refused pq \<longleftrightarrow>
     (2 ^ 64 :: int) dvd pq_totalEnqueued pq - pq_totalDequeued pq - pq_totalExpired pq
        - (pq_totalDropped pq - int refused) - int (length (pq_queue pq))"

lemma wrap64_shift: "\<exists>k. wrap64 x = x + k * 2 ^ 64"
proof -
  have "wrap64 x = x - (x + 2 ^ 63) div 2 ^ 64 * 2 ^ 64"
    unfolding wrap64_def by (simp add: minus_div_mult_eq_mod [symmetric])
  then have "wrap64 x = x + (- ((x + 2 ^ 63) div 2 ^ 64)) * 2 ^ 64" by simp
  then show ?thesis ..
qed

lemma count_up64_shift: "\<exists>k. count_up64 c n = c + int n + k * 2 ^ 64"
proof (induction n arbitrary: c)
  case (Suc n)
  obtain k where k: "add64 c 1 = c + 1 + k * 2 ^ 64" using wrap64_shift by blast
  obtain k' where "count_up64 (add64 c 1) n = add64 c 1 + int n + k' * 2 ^ 64" using Suc by blast
  with k have "count_up64 c (Suc n) = c + int (Suc n) + (k + k') * 2 ^ 64"
    by (simp add: algebra_simps)
  then show ?case ..
qed simp

lemma balanced_shift:
  assumes "balanced refused pq"
    and "pq_totalEnqueued pq' - pq_totalDequeued pq' - pq_totalExpired pq' - (pq_totalDropped pq' - int refused')
           - int (length (pq_queue pq')) =
         pq_totalEnqueued pq - pq_totalDequeued pq - pq_totalExpired pq - (pq_totalDropped pq - int refused)
           - int (length (pq_queue pq)) + k * 2 ^ 64"
  shows "balanced refused' pq'"
  using assms(1) unfolding balanced_def assms(2) by (rule dvd_add) simp

definition pq_fine :: "int \<Rightarrow> nat \<Rightarrow> pqueue \<Rightarrow> bool" where
  "pq_fine maxSize refused pq \<longleftrightarrow>
     pq_inv pq \<and> balanced refused pq \<and> pq_maxSize pq = maxSize \<and>
     int (length (pq_queue pq)) \<le> max 0 maxSize"

lemma insert_fine:
  assumes "pq_inv pq" and "balanced refused pq" and "pq_maxSize pq = m" and "int (length (pq_queue pq)) < m"
    and "valid_priority (pk_Priority p)"
  shows "\<exists>pq'. pq_insert pq p = Inr (None, pq') \<and> pq_fine m refused pq' \<and>
           mset (pq_queue pq') = add_mset p (mset (pq_queue pq))"
proof -
  obtain pq' q where r: "pq_insert pq p = Inr (None, pq')" "pq_inv pq'"
    "mset (pq_queue pq') = add_mset p (mset (pq_queue pq))"
    "same_but_stats (pq\<lparr>pq_queue := q, pq_totalEnqueued := add64 (pq_totalEnqueued pq) 1\<rparr>) pq'"
    using pq_insert_spec [OF assms(1,5)] by blast
  note same = same_but_statsD [OF r(4)]
  have len: "length (pq_queue pq') = Suc (length (pq_queue pq))" using arg_cong [OF r(3), of size] by simp
  obtain k where "add64 (pq_totalEnqueued pq) 1 = pq_totalEnqueued pq + 1 + k * 2 ^ 64"
    using wrap64_shift by blast
  then have "balanced refused pq'" by (intro balanced_shift [OF assms(2), of _ _ k]) (simp add: same(2-7) len)
  with r len same assms show ?thesis by (auto simp: pq_fine_def)
qed

text \<open>What an enqueue does, in full.\<close>

lemma Enqueue_spec:
  assumes fine: "pq_fine m refused pq" and v: "valid_priority (pk_Priority p)" and op: "\<not> pq_closed pq"
  shows "(\<exists>pq'. PriorityQueue_Enqueue pq p = Inr (None, pq') \<and> pq_fine m refused pq' \<and>
            int (length (pq_queue pq)) < m \<and> mset (pq_queue pq') = add_mset p (mset (pq_queue pq))) \<or>
         (\<exists>pq' d. PriorityQueue_Enqueue pq p = Inr (None, pq') \<and> pq_fine m refused pq' \<and>
            m \<le> int (length (pq_queue pq)) \<and> d \<in> set (pq_queue pq) \<and> pk_Priority d < pk_Priority p \<and>
            add_mset d (mset (pq_queue pq')) = add_mset p (mset (pq_queue pq))) \<or>
         (\<exists>pq'. PriorityQueue_Enqueue pq p = Inr (Some QueueFull, pq') \<and> pq_fine m (Suc refused) pq' \<and>
            m \<le> int (length (pq_queue pq)) \<and> (\<forall>d \<in> set (pq_queue pq). pk_Priority p \<le> pk_Priority d) \<and>
            pq_queue pq' = pq_queue pq)"
proof -
  have inv: "pq_inv pq" and bal: "balanced refused pq" and m: "pq_maxSize pq = m"
    and len: "int (length (pq_queue pq)) \<le> max 0 m"
    using fine by (simp_all add: pq_fine_def)
  consider (room) "int (length (pq_queue pq)) < m" | (full) "m \<le> int (length (pq_queue pq))" by linarith
  then show ?thesis
  proof cases
    case room
    from insert_fine [OF inv bal m room v] room m op show ?thesis
      by (auto simp: PriorityQueue_Enqueue_def)
  next
    case full
    from try_drop_spec [OF inv order_refl, of "pk_Priority p"] show ?thesis
    proof (elim disjE exE conjE)
      fix k q pq1
      assume k: "k < length (pq_queue pq)" "pk_Priority (pq_queue pq ! k) < pk_Priority p"
        and t: "try_drop (length (pq_queue pq)) (pk_Priority p) pq = Inr (True, pq1)"
        and ms: "mset (pq_queue pq) = add_mset (pq_queue pq ! k) (mset (pq_queue pq1))" and inv1: "pq_inv pq1"
        and same1: "same_but_stats (pq\<lparr>pq_queue := q, pq_totalDropped := add64 (pq_totalDropped pq) 1\<rparr>) pq1"
      note same = same_but_statsD [OF same1]
      have l1: "length (pq_queue pq) = Suc (length (pq_queue pq1))" using arg_cong [OF ms, of size] by simp
      obtain c where "add64 (pq_totalDropped pq) 1 = pq_totalDropped pq + 1 + c * 2 ^ 64"
        using wrap64_shift by blast
      then have bal1: "balanced refused pq1"
        by (intro balanced_shift [OF bal, of _ _ "- c"]) (simp add: same(2-7) l1)
      have "int (length (pq_queue pq1)) < m" using l1 len by simp
      from insert_fine [OF inv1 bal1 _ this v] same(2) m obtain pq' where
        "pq_insert pq1 p = Inr (None, pq')" "pq_fine m refused pq'"
        "mset (pq_queue pq') = add_mset p (mset (pq_queue pq1))" by auto
      with k t ms full m op show ?thesis
        by (intro disjI2 disjI1 exI [of _ pq'] exI [of _ "pq_queue pq ! k"])
           (simp add: PriorityQueue_Enqueue_def PriorityQueue_tryDropLowPriority_def add_mset_commute)
    next
      assume ge: "\<forall>k < length (pq_queue pq). pk_Priority p \<le> pk_Priority (pq_queue pq ! k)"
        and t: "try_drop (length (pq_queue pq)) (pk_Priority p) pq = Inr (False, pq)"
      let ?pq = "pq\<lparr>pq_totalDropped := add64 (pq_totalDropped pq) 1\<rparr>"
      have "map_of (pq_priorityStats ?pq) (pk_Priority p) \<noteq> None" using inv v by (simp add: pq_inv_def)
      from count_stat_ok [OF this] obtain pq' where
        c: "count_Dropped (pk_Priority p) ?pq = Inr pq'" "same_but_stats ?pq pq'" by blast
      note same = same_but_statsD [OF c(2)]
      have "pq_inv pq'" using pq_inv_step [OF inv c(2)] inv by (simp add: pq_inv_def)
      moreover obtain k where "add64 (pq_totalDropped pq) 1 = pq_totalDropped pq + 1 + k * 2 ^ 64"
        using wrap64_shift by blast
      then have "balanced (Suc refused) pq'"
        by (intro balanced_shift [OF bal, of _ _ "- k"]) (simp add: same)
      ultimately have "pq_fine m (Suc refused) pq'" using same m len by (simp add: pq_fine_def)
      moreover have "\<forall>d \<in> set (pq_queue pq). pk_Priority p \<le> pk_Priority d"
        using ge by (auto simp: in_set_conv_nth)
      ultimately show ?thesis
        using c(1) t full m op same(1)
        by (intro disjI2 exI [of _ pq'])
           (simp add: PriorityQueue_Enqueue_def PriorityQueue_tryDropLowPriority_def)
    qed
  qed
qed

lemma cleanup_fine:
  assumes "pq_fine m refused pq"
  shows "\<exists>pq'. PriorityQueue_cleanupExpired now pq = Inr pq' \<and> pq_fine m refused pq' \<and>
           mset (pq_queue pq') \<subseteq># mset (pq_queue pq) \<and>
           length (pq_queue pq') + length (expired_indices now (pq_queue pq)) = length (pq_queue pq)"
proof -
  have inv: "pq_inv pq" and bal: "balanced refused pq" using assms by (simp_all add: pq_fine_def)
  obtain pq' q where r: "PriorityQueue_cleanupExpired now pq = Inr pq'" "pq_inv pq'"
    "length (pq_queue pq') + length (expired_indices now (pq_queue pq)) = length (pq_queue pq)"
    "mset (pq_queue pq') \<subseteq># mset (pq_queue pq)"
    "same_but_stats (pq\<lparr>pq_queue := q,
       pq_totalExpired := count_up64 (pq_totalExpired pq) (length (expired_indices now (pq_queue pq)))\<rparr>) pq'"
    using cleanupExpired_spec [OF inv, of now] by blast
  note same = same_but_statsD [OF r(5)]
  obtain k where "count_up64 (pq_totalExpired pq) (length (expired_indices now (pq_queue pq))) =
      pq_totalExpired pq + int (length (expired_indices now (pq_queue pq))) + k * 2 ^ 64"
    using count_up64_shift by blast
  then have "balanced refused pq'"
    using r(3) by (intro balanced_shift [OF bal, of _ _ "- k"]) (simp add: same(2-7) r(3) [symmetric])
  with r same(2) assms show ?thesis by (auto simp: pq_fine_def)
qed

lemma take_fine:
  assumes "pq_fine m refused pq" and "pq_queue pq \<noteq> []"
  shows "\<exists>p pq'. pq_take pq = Inr (p, pq') \<and> pq_fine m refused pq' \<and>
     mset (pq_queue pq) = add_mset p (mset (pq_queue pq')) \<and> (\<forall>r \<in> set (pq_queue pq). \<not> packet_before r p)"
proof -
  have inv: "pq_inv pq" and bal: "balanced refused pq" using assms by (simp_all add: pq_fine_def)
  obtain p pq' q where r: "pq_take pq = Inr (p, pq')" "pq_inv pq'"
    "mset (pq_queue pq) = add_mset p (mset (pq_queue pq'))" "\<forall>r \<in> set (pq_queue pq). \<not> packet_before r p"
    "same_but_stats (pq\<lparr>pq_queue := q, pq_totalDequeued := add64 (pq_totalDequeued pq) 1\<rparr>) pq'"
    using pq_take_spec [OF inv assms(2)] by blast
  note same = same_but_statsD [OF r(5)]
  have len: "length (pq_queue pq) = Suc (length (pq_queue pq'))" using arg_cong [OF r(3), of size] by simp
  obtain k where "add64 (pq_totalDequeued pq) 1 = pq_totalDequeued pq + 1 + k * 2 ^ 64"
    using wrap64_shift by blast
  then have "balanced refused pq'"
    by (intro balanced_shift [OF bal, of _ _ "- k"]) (simp add: same(2-7) len)
  with r same(2) assms(1) len show ?thesis by (auto simp: pq_fine_def)
qed

lemma TryDequeue_fine:
  "pq_fine m refused pq \<Longrightarrow> PriorityQueue_TryDequeue now pq = Inr (r, pq') \<Longrightarrow> pq_fine m refused pq'"
  using cleanup_fine [of m refused pq now] take_fine
  by (fastforce simp: PriorityQueue_TryDequeue_def and_then_eq_Inr_iff split: if_splits)

lemma Dequeue_fine:
  "pq_fine m refused pq \<Longrightarrow> PriorityQueue_Dequeue now pq = Inr (r, pq') \<Longrightarrow> pq_fine m refused pq'"
  using cleanup_fine [of m refused pq now] take_fine
  by (fastforce simp: PriorityQueue_Dequeue_def and_then_eq_Inr_iff split: if_splits)

lemma pq_run_fine: "pq_run m refused pq \<Longrightarrow> pq_fine m refused pq"
proof (induction rule: pq_run.induct)
  case (new w)
  then show ?case
    using NewPriorityQueue_inv [of m w] by (simp add: pq_fine_def balanced_def NewPriorityQueue_def)
next
  case (enqueue refused pq p e pq')
  show ?case
  proof (cases "pq_closed pq")
    case True
    with enqueue show ?thesis by (auto simp: PriorityQueue_Enqueue_def)
  next
    case False
    from Enqueue_spec [OF enqueue.IH enqueue.hyps(2) False] enqueue.hyps(3) show ?thesis by auto
  qed
next
  case (try_dequeue refused pq now r pq')
  then show ?case by (blast intro: TryDequeue_fine)
next
  case (dequeue refused pq now d pq')
  then show ?case by (blast intro: Dequeue_fine)
next
  case (close refused pq)
  then show ?case by (simp add: pq_fine_def pq_inv_def balanced_def PriorityQueue_Close_def)
qed

text \<open>
  The queue over its whole life. After any sequence of enqueues (of the four priorities), dequeues and
  closing, the slice is a heap for the packet order, it holds at most \<open>maxSize\<close> packets, and the
  counters balance: packets enqueued are those dequeued, expired, dropped from inside the queue
  (dropped less refused) and still queued.
\<close>

theorem queue_accounting:
  assumes "pq_run maxSize refused pq"
  shows "heap_ok packet_before (length (pq_queue pq)) (pq_queue pq) \<and>
         int (length (pq_queue pq)) \<le> max 0 maxSize \<and>
         (2 ^ 64 :: int) dvd pq_totalEnqueued pq - pq_totalDequeued pq - pq_totalExpired pq
            - (pq_totalDropped pq - int refused) - int (length (pq_queue pq))"
  using pq_run_fine [OF assms] by (simp add: pq_fine_def pq_inv_def balanced_def)

theorem queue_accounting_witness:
  "int (length (pq_queue (PriorityQueue_Close (NewPriorityQueue 5 0)))) \<le> max 0 5"
  using queue_accounting [OF pq_run.close [OF pq_run.new]] by blast

section \<open>Admission\<close>

text \<open>
  Admission to a full queue. A packet that comes to a queue with room is added. When the queue is full,
  it is added in place of one queued packet of strictly lower priority if there is such a packet,
  and refused, with the queue unchanged, if every queued packet is at least as important.
\<close>

theorem enqueue_admission:
  assumes "pq_run m refused pq" and "valid_priority (pk_Priority p)" and "\<not> pq_closed pq"
  shows "if int (length (pq_queue pq)) < m then
           \<exists>pq'. PriorityQueue_Enqueue pq p = Inr (None, pq') \<and>
             mset (pq_queue pq') = add_mset p (mset (pq_queue pq))
         else if \<exists>d. d \<in> set (pq_queue pq) \<and> pk_Priority d < pk_Priority p then
           \<exists>pq' d. PriorityQueue_Enqueue pq p = Inr (None, pq') \<and> d \<in> set (pq_queue pq) \<and>
             pk_Priority d < pk_Priority p \<and> add_mset d (mset (pq_queue pq')) = add_mset p (mset (pq_queue pq))
         else \<exists>pq'. PriorityQueue_Enqueue pq p = Inr (Some QueueFull, pq') \<and> pq_queue pq' = pq_queue pq"
  using Enqueue_spec [OF pq_run_fine [OF assms(1)] assms(2,3)]
  by (elim disjE exE conjE) (auto simp: not_less)

theorem enqueue_admission_witness:
  "\<exists>pq'. PriorityQueue_Enqueue (NewPriorityQueue 1 0) (NewPacket ''a'' [] 2 7) = Inr (None, pq') \<and>
     mset (pq_queue pq') = {#NewPacket ''a'' [] 2 7#}"
  using enqueue_admission [OF pq_run.new, of "NewPacket ''a'' [] 2 7" 1 0]
  by (simp add: valid_priority_def NewPacket_def NewPriorityQueue_def PriorityHigh_def)

section \<open>The order of departure\<close>

fun drain :: "nat \<Rightarrow> (nat \<Rightarrow> int) \<Rightarrow> pqueue \<Rightarrow> (packet list \<times> pqueue) res" where
  "drain 0 now pq = Inr ([], pq)"
| "drain (Suc n) now pq =
     and_then (PriorityQueue_TryDequeue now pq) (\<lambda>(r, pq). case r of
        None \<Rightarrow> Inr ([], pq)
      | Some p \<Rightarrow> and_then (drain n now pq) (\<lambda>(ps, pq). Inr (p # ps, pq)))"

definition all_live :: "(nat \<Rightarrow> int) \<Rightarrow> pqueue \<Rightarrow> bool" where
  "all_live now pq \<longleftrightarrow> (\<forall>p \<in> set (pq_queue pq). \<forall>i. \<not> Packet_IsExpired p (now i))"

lemma cleanup_nothing: "all_live now pq \<Longrightarrow> PriorityQueue_cleanupExpired now pq = Inr pq"
  by (simp add: PriorityQueue_cleanupExpired_def expired_indices_def all_live_def)

lemma drain_sorted:
  assumes "pq_fine m refused pq" and "all_live now pq" and "length (pq_queue pq) = n"
  shows "\<exists>ps pq'. drain n now pq = Inr (ps, pq') \<and> mset ps = mset (pq_queue pq) \<and> pq_queue pq' = [] \<and>
           sorted_wrt (\<lambda>p r. \<not> packet_before r p) ps"
  using assms
proof (induction n arbitrary: pq)
  case (Suc n)
  then have ne: "pq_queue pq \<noteq> []" by auto
  from take_fine [OF Suc.prems(1) ne] obtain p pq1 where
    t: "pq_take pq = Inr (p, pq1)" "pq_fine m refused pq1" "mset (pq_queue pq) = add_mset p (mset (pq_queue pq1))"
      "\<forall>r \<in> set (pq_queue pq). \<not> packet_before r p" by blast
  have sub: "set (pq_queue pq) = insert p (set (pq_queue pq1))" using arg_cong [OF t(3), of set_mset] by simp
  then have "all_live now pq1" using Suc.prems(2) by (simp add: all_live_def)
  moreover have "length (pq_queue pq1) = n" using arg_cong [OF t(3), of size] Suc.prems(3) by simp
  ultimately obtain ps pq' where d: "drain n now pq1 = Inr (ps, pq')" "mset ps = mset (pq_queue pq1)"
    "pq_queue pq' = []" "sorted_wrt (\<lambda>p r. \<not> packet_before r p) ps" using Suc.IH t(2) by blast
  have "set ps = set (pq_queue pq1)" using arg_cong [OF d(2), of set_mset] by simp
  then have "sorted_wrt (\<lambda>p r. \<not> packet_before r p) (p # ps)" using d(4) t(4) sub by auto
  moreover have "PriorityQueue_TryDequeue now pq = Inr (Some p, pq1)"
    using cleanup_nothing [OF Suc.prems(2)] ne t(1) by (simp add: PriorityQueue_TryDequeue_def)
  ultimately show ?case using d t(3) by auto
qed simp

text \<open>
  C13: packets leave in order. Draining a queue none of whose packets has expired returns every packet of the
  queue exactly once, the more important before the less important and, within a priority, the older
  before the younger, and leaves the queue empty.
\<close>

theorem queue_drains_in_order:
  assumes "pq_run m refused pq" and "all_live now pq"
  shows "\<exists>ps pq'. drain (length (pq_queue pq)) now pq = Inr (ps, pq') \<and> mset ps = mset (pq_queue pq) \<and>
           pq_queue pq' = [] \<and>
           sorted_wrt (\<lambda>p r. pk_Priority p > pk_Priority r \<or>
              pk_Priority p = pk_Priority r \<and> pk_Timestamp p \<le> pk_Timestamp r) ps"
proof -
  obtain ps pq' where d: "drain (length (pq_queue pq)) now pq = Inr (ps, pq')" "mset ps = mset (pq_queue pq)"
    "pq_queue pq' = []" "sorted_wrt (\<lambda>p r. \<not> packet_before r p) ps"
    using drain_sorted [OF pq_run_fine [OF assms(1)] assms(2) refl] by blast
  have "sorted_wrt (\<lambda>p r. pk_Priority p > pk_Priority r \<or>
      pk_Priority p = pk_Priority r \<and> pk_Timestamp p \<le> pk_Timestamp r) ps"
    using d(4) by (rule sorted_wrt_mono_rel [rotated]) (auto simp: packet_before_def split: if_splits)
  with d show ?thesis by blast
qed

text \<open>A queue with packets of three priorities, filled in the order of the list.\<close>

definition demo_packet :: "int \<Rightarrow> int \<Rightarrow> int \<Rightarrow> packet" where
  "demo_packet prio ts deadline =
     \<lparr>pk_ID = [], pk_Data = [], pk_Priority = prio, pk_Timestamp = ts, pk_Deadline = deadline, pk_Retries = 0\<rparr>"

fun enqueue_all :: "packet list \<Rightarrow> pqueue \<Rightarrow> pqueue" where
  "enqueue_all [] pq = pq"
| "enqueue_all (p # ps) pq =
     (case PriorityQueue_Enqueue pq p of Inr (None, pq') \<Rightarrow> enqueue_all ps pq' | _ \<Rightarrow> pq)"

lemma enqueue_all_run:
  "pq_run m 0 pq \<Longrightarrow> \<forall>p \<in> set ps. valid_priority (pk_Priority p) \<Longrightarrow> pq_run m 0 (enqueue_all ps pq)"
proof (induction ps arbitrary: pq)
  case (Cons p ps)
  show ?case
  proof (cases "\<exists>pq'. PriorityQueue_Enqueue pq p = Inr (None, pq')")
    case True
    then obtain pq' where pq': "PriorityQueue_Enqueue pq p = Inr (None, pq')" ..
    have "pq_run m 0 pq'" using pq_run.enqueue [OF Cons.prems(1) _ pq'] Cons.prems(2) by simp
    with Cons pq' show ?thesis by simp
  next
    case False
    with Cons.prems show ?thesis by (auto split: sum.split option.split)
  qed
qed simp

theorem queue_drains_in_order_witness:
  "\<exists>ps pq'. drain 2 (\<lambda>_. 0) (enqueue_all [demo_packet 0 1 9, demo_packet 3 2 9] (NewPriorityQueue 10 0)) =
       Inr (ps, pq') \<and> mset ps = {#demo_packet 0 1 9, demo_packet 3 2 9#} \<and> pq_queue pq' = []"
proof -
  let ?q = "enqueue_all [demo_packet 0 1 9, demo_packet 3 2 9] (NewPriorityQueue 10 0)"
  have run: "pq_run 10 0 ?q"
    by (rule enqueue_all_run [OF pq_run.new])
       (simp add: valid_priority_def demo_packet_def PriorityLow_def PriorityCritical_def)
  have q: "pq_queue ?q = [demo_packet 3 2 9, demo_packet 0 1 9]" by code_simp
  have "all_live (\<lambda>_. 0) ?q" unfolding all_live_def q by (simp add: Packet_IsExpired_def demo_packet_def)
  from queue_drains_in_order [OF run this] show ?thesis
    unfolding q by (auto simp: add_mset_commute numeral_2_eq_2)
qed

section \<open>Expiry\<close>

lemma one_expired:
  assumes "expired_indices (\<lambda>_. t) q = [i]"
  shows "filter_mset (\<lambda>p. Packet_IsExpired p t) (mset q) = {#q ! i#}"
proof -
  have "q = map ((!) q) [0..<length q]" by (simp add: map_nth)
  then have "filter (\<lambda>p. Packet_IsExpired p t) q = map ((!) q) (expired_indices (\<lambda>_. t) q)"
    unfolding expired_indices_def by (metis (mono_tags, lifting) comp_apply filter_cong filter_map)
  with assms have "filter (\<lambda>p. Packet_IsExpired p t) q = [q ! i]" by simp
  then have "mset (filter (\<lambda>p. Packet_IsExpired p t) q) = {#q ! i#}" by simp
  then show ?thesis by (simp only: mset_filter)
qed

lemma cleanup_one:
  assumes "pq_inv pq" and "expired_indices (\<lambda>_. t) (pq_queue pq) = [i]"
    and "PriorityQueue_cleanupExpired (\<lambda>_. t) pq = Inr pq'"
  shows "mset (pq_queue pq) = add_mset (pq_queue pq ! i) (mset (pq_queue pq'))"
proof -
  have "i \<in> set (expired_indices (\<lambda>_. t) (pq_queue pq))" using assms(2) by simp
  then have "i < length (pq_queue pq)" by (simp add: expired_indices_def)
  from pq_inv_remove [OF assms(1) this] assms(2,3) show ?thesis
    by (auto simp: PriorityQueue_cleanupExpired_def and_then_eq_Inr_iff count_stat_def split: option.splits)
qed

text \<open>
  Removing expired packets. The cleanup never fails, keeps the heap, and takes out as many packets as
  are expired. When at most one packet is expired, it takes out exactly that one.
\<close>

theorem cleanup_expired_count:
  assumes "pq_run m refused pq"
  shows "\<exists>pq'. PriorityQueue_cleanupExpired (\<lambda>_. t) pq = Inr pq' \<and>
           heap_ok packet_before (length (pq_queue pq')) (pq_queue pq') \<and>
           mset (pq_queue pq') \<subseteq># mset (pq_queue pq) \<and>
           length (pq_queue pq') + length (expired_indices (\<lambda>_. t) (pq_queue pq)) = length (pq_queue pq) \<and>
           (length (expired_indices (\<lambda>_. t) (pq_queue pq)) \<le> 1 \<longrightarrow>
              mset (pq_queue pq') = filter_mset (\<lambda>p. \<not> Packet_IsExpired p t) (mset (pq_queue pq)))"
proof -
  have fine: "pq_fine m refused pq" by (rule pq_run_fine [OF assms])
  then have inv: "pq_inv pq" by (simp add: pq_fine_def)
  let ?e = "expired_indices (\<lambda>_. t) (pq_queue pq)"
  obtain pq' where c: "PriorityQueue_cleanupExpired (\<lambda>_. t) pq = Inr pq'" "pq_fine m refused pq'"
    "mset (pq_queue pq') \<subseteq># mset (pq_queue pq)" "length (pq_queue pq') + length ?e = length (pq_queue pq)"
    using cleanup_fine [OF fine, of "\<lambda>_. t"] by blast
  have "mset (pq_queue pq') = filter_mset (\<lambda>p. \<not> Packet_IsExpired p t) (mset (pq_queue pq))"
    if "length ?e \<le> 1"
  proof (cases ?e)
    case Nil
    then have "\<forall>p \<in> set (pq_queue pq). \<not> Packet_IsExpired p t"
      by (auto simp: expired_indices_def filter_empty_conv in_set_conv_nth)
    moreover from Nil c(1) have "pq' = pq" by (simp add: PriorityQueue_cleanupExpired_def)
    ultimately show ?thesis
      using filter_True [of "pq_queue pq" "\<lambda>p. \<not> Packet_IsExpired p t"] by (simp flip: mset_filter)
  next
    case (Cons i js)
    with that have e: "?e = [i]" by simp
    from cleanup_one [OF inv e c(1)] one_expired [OF e]
      multiset_partition [of "mset (pq_queue pq)" "\<lambda>p. Packet_IsExpired p t"]
    show ?thesis by simp
  qed
  with c show ?thesis by (auto simp: pq_fine_def pq_inv_def)
qed

theorem cleanup_expired_count_witness:
  "\<exists>pq'. PriorityQueue_cleanupExpired (\<lambda>_. 5) (enqueue_all [demo_packet 0 1 4, demo_packet 3 2 9] (NewPriorityQueue 10 0)) =
       Inr pq' \<and> mset (pq_queue pq') = {#demo_packet 3 2 9#}"
proof -
  let ?q = "enqueue_all [demo_packet 0 1 4, demo_packet 3 2 9] (NewPriorityQueue 10 0)"
  have run: "pq_run 10 0 ?q"
    by (rule enqueue_all_run [OF pq_run.new])
       (simp add: valid_priority_def demo_packet_def PriorityLow_def PriorityCritical_def)
  have q: "pq_queue ?q = [demo_packet 3 2 9, demo_packet 0 1 4]" by code_simp
  have "expired_indices (\<lambda>_. 5) (pq_queue ?q) = [1]" unfolding q
    by (simp add: expired_indices_def Packet_IsExpired_def demo_packet_def upt_rec)
  with cleanup_expired_count [OF run, of 5] show ?thesis
    unfolding q by (auto simp: Packet_IsExpired_def demo_packet_def)
qed

text \<open>
  With several expired packets, the wrong ones go. The indices are collected first and then removed from the
  largest down, but each removal moves a packet of the heap up past smaller indices. There is a queue,
  filled by plain enqueues, from which the cleanup takes a live packet of high priority and leaves an
  expired one.
\<close>

definition demo_queue :: pqueue where
  "demo_queue = enqueue_all
     [demo_packet 3 1 100, demo_packet 0 2 10, demo_packet 2 3 100, demo_packet 0 4 10,
      demo_packet 0 5 100, demo_packet 2 6 100, demo_packet 2 7 100] (NewPriorityQueue 10 0)"

theorem cleanup_removes_live_packet:
  "\<exists>pq'. pq_run 10 0 demo_queue \<and> PriorityQueue_cleanupExpired (\<lambda>_. 50) demo_queue = Inr pq' \<and>
     demo_packet 2 7 100 \<in> set (pq_queue demo_queue) \<and> \<not> Packet_IsExpired (demo_packet 2 7 100) 50 \<and>
     demo_packet 2 7 100 \<notin> set (pq_queue pq') \<and>
     demo_packet 0 2 10 \<in> set (pq_queue pq') \<and> Packet_IsExpired (demo_packet 0 2 10) 50"
proof -
  have "pq_run 10 0 demo_queue"
    unfolding demo_queue_def
    by (rule enqueue_all_run [OF pq_run.new])
       (simp add: valid_priority_def demo_packet_def PriorityLow_def PriorityHigh_def PriorityCritical_def)
  moreover have "map_sum id pq_queue (PriorityQueue_cleanupExpired (\<lambda>_. 50) demo_queue) =
      Inr [demo_packet 3 1 100, demo_packet 2 6 100, demo_packet 2 3 100, demo_packet 0 2 10, demo_packet 0 5 100]"
    by code_simp
  then obtain pq' where "PriorityQueue_cleanupExpired (\<lambda>_. 50) demo_queue = Inr pq'"
    "pq_queue pq' = [demo_packet 3 1 100, demo_packet 2 6 100, demo_packet 2 3 100, demo_packet 0 2 10, demo_packet 0 5 100]"
    by (cases "PriorityQueue_cleanupExpired (\<lambda>_. 50) demo_queue") auto
  moreover have "demo_packet 2 7 100 \<in> set (pq_queue demo_queue)" by code_simp
  ultimately show ?thesis by (simp add: demo_packet_def Packet_IsExpired_def)
qed

text \<open>
  A closed queue can park its reader. When a queue has been closed and all packets left in it have
  expired, \<open>Dequeue\<close> empties it and parks instead of reporting that the queue is closed; no one is
  left to signal it.
\<close>

theorem closed_queue_parks_reader:
  assumes "pq_run m refused pq" and "pq_closed pq" and "pq_queue pq \<noteq> []"
    and "\<forall>p \<in> set (pq_queue pq). Packet_IsExpired p t"
  shows "\<exists>pq'. PriorityQueue_Dequeue (\<lambda>_. t) pq = Inr (DeqWait, pq') \<and> pq_queue pq' = []"
proof -
  have "expired_indices (\<lambda>_. t) (pq_queue pq) = [0..<length (pq_queue pq)]"
    using assms(4) by (simp add: expired_indices_def)
  with cleanup_fine [OF pq_run_fine [OF assms(1)], of "\<lambda>_. t"] obtain pq' where
    "PriorityQueue_cleanupExpired (\<lambda>_. t) pq = Inr pq'" "pq_queue pq' = []" by auto
  with assms(3) show ?thesis by (simp add: PriorityQueue_Dequeue_def)
qed

theorem closed_queue_parks_reader_witness:
  "\<exists>pq'. PriorityQueue_Dequeue (\<lambda>_. 50) (PriorityQueue_Close (enqueue_all [demo_packet 0 1 4] (NewPriorityQueue 10 0))) =
     Inr (DeqWait, pq') \<and> pq_queue pq' = []"
proof -
  let ?q = "PriorityQueue_Close (enqueue_all [demo_packet 0 1 4] (NewPriorityQueue 10 0))"
  have "pq_run 10 0 ?q"
    by (rule pq_run.close, rule enqueue_all_run [OF pq_run.new])
       (simp add: valid_priority_def demo_packet_def PriorityLow_def)
  moreover have "pq_queue ?q = [demo_packet 0 1 4]" "pq_closed ?q" by code_simp+
  ultimately show ?thesis
    using closed_queue_parks_reader [of 10 0 ?q 50] by (simp add: demo_packet_def Packet_IsExpired_def)
qed

end
