(* ===== verification/Flow_Controller.thy ===== *)
theory Flow_Controller
  imports Token_Bucket Priority_Queue_Props
begin

text \<open>
  The flow controller (\<open>client/internal/traffic/controller.go\<close>) on top of the rate limiter and the
  named queues: admission of packets, back-pressure from the fill of the queues, the processing loop
  and shutdown. The clock, the order in which a map is ranged over, the rounds of a blocking consume
  and the packet handler are arguments. Signal texts are left out.

  Lemmas: what a submission does to the counters and the queue, the back-pressure level the controller computes
  from a nearly empty queue, and the processing loop after shutdown.
\<close>

section \<open>Configuration and state\<close>

record flow_config =
  fcfg_TokenBucketCapacity :: int
  fcfg_TokenBucketRate :: int
  fcfg_MaxQueueSize :: int
  fcfg_MaxWaitTime :: int
  fcfg_BackpressureThreshold :: rat
  fcfg_BackpressureWindow :: int
  fcfg_DropThreshold :: rat
  fcfg_AdaptiveDropping :: bool

definition DefaultFlowControlConfig :: flow_config where
  "DefaultFlowControlConfig =
     \<lparr>fcfg_TokenBucketCapacity = 1000, fcfg_TokenBucketRate = 100, fcfg_MaxQueueSize = 10000,
      fcfg_MaxWaitTime = 5 * 10 ^ 9, fcfg_BackpressureThreshold = fl (8 / 10),
      fcfg_BackpressureWindow = 10 ^ 9, fcfg_DropThreshold = fl (95 / 100),
      fcfg_AdaptiveDropping = True\<rparr>"

datatype bp_level =
    BackpressureLevelNone | BackpressureLevelLow | BackpressureLevelMedium
  | BackpressureLevelHigh | BackpressureLevelCritical

fun BackpressureLevel_String :: "bp_level \<Rightarrow> string" where
  "BackpressureLevel_String BackpressureLevelNone = ''NONE''"
| "BackpressureLevel_String BackpressureLevelLow = ''LOW''"
| "BackpressureLevel_String BackpressureLevelMedium = ''MEDIUM''"
| "BackpressureLevel_String BackpressureLevelHigh = ''HIGH''"
| "BackpressureLevel_String BackpressureLevelCritical = ''CRITICAL''"

record bp_signal =
  sig_Level :: bp_level
  sig_Severity :: rat
  sig_Timestamp :: int

record flow_controller =
  fc_config :: flow_config
  fc_rateLimiter :: rate_limiter
  fc_priorityQueue :: pqueue
  fc_multiQueue :: multi_queue
  fc_backpressureLevel :: bp_level
  fc_signals :: "bp_signal list"
  fc_signalsClosed :: bool
  fc_totalProcessed :: int
  fc_totalDropped :: int
  fc_totalBackpressure :: int
  fc_avgProcessingTime :: int
  fc_canceled :: bool

definition NewFlowController :: "flow_config option \<Rightarrow> flow_controller" where
  "NewFlowController config =
     (let config = (case config of None \<Rightarrow> DefaultFlowControlConfig | Some c \<Rightarrow> c) in
      \<lparr>fc_config = config,
       fc_rateLimiter = NewRateLimiter (fcfg_TokenBucketCapacity config) (fcfg_TokenBucketRate config),
       fc_priorityQueue = NewPriorityQueue (fcfg_MaxQueueSize config) (fcfg_MaxWaitTime config),
       fc_multiQueue = NewMultiQueue (fcfg_MaxQueueSize config) (fcfg_MaxWaitTime config),
       fc_backpressureLevel = BackpressureLevelNone, fc_signals = [], fc_signalsClosed = False,
       fc_totalProcessed = 0, fc_totalDropped = 0, fc_totalBackpressure = 0,
       fc_avgProcessingTime = 0, fc_canceled = False\<rparr>)"

text \<open>\<open>Stop\<close> closes the signal channel, which panics the second time.\<close>

definition FlowController_Stop :: "flow_controller \<Rightarrow> flow_controller res" where
  "FlowController_Stop fc =
     (let fc = fc\<lparr>fc_canceled := True,
                  fc_priorityQueue := PriorityQueue_Close (fc_priorityQueue fc),
                  fc_multiQueue := MultiQueue_CloseAll (fc_multiQueue fc)\<rparr>
      in if fc_signalsClosed fc then Inl CloseOfClosedChannel else Inr (fc\<lparr>fc_signalsClosed := True\<rparr>))"

section \<open>Submission\<close>

definition FlowController_shouldDrop :: "flow_controller \<Rightarrow> packet \<Rightarrow> bool" where
  "FlowController_shouldDrop fc packet =
     (if \<not> fcfg_AdaptiveDropping (fc_config fc) then False
      else if pk_Priority packet = PriorityCritical then False
      else case fc_backpressureLevel fc of
        BackpressureLevelNone \<Rightarrow> False
      | BackpressureLevelLow \<Rightarrow> False
      | BackpressureLevelMedium \<Rightarrow> pk_Priority packet = PriorityLow
      | BackpressureLevelHigh \<Rightarrow> pk_Priority packet \<le> PriorityNormal
      | BackpressureLevelCritical \<Rightarrow> pk_Priority packet < PriorityCritical)"

definition FlowController_updateAvgProcessingTime :: "flow_controller \<Rightarrow> int \<Rightarrow> flow_controller" where
  "FlowController_updateAvgProcessingTime fc newTime =
     fc\<lparr>fc_avgProcessingTime := add64 (wrap64 (fc_avgProcessingTime fc * 9)) newTime sdiv 10\<rparr>"

datatype submit_err = BackpressureDrop | NoTokens | CriticalNoTokens | EnqueueFailed pq_err

datatype submit_result = Submitted | SubmitErr submit_err | SubmitWaiting

definition drop_packet :: "flow_controller \<Rightarrow> submit_err \<Rightarrow> (submit_result \<times> flow_controller) res" where
  "drop_packet fc e = Inr (SubmitErr e, fc\<lparr>fc_totalDropped := add64 (fc_totalDropped fc) 1\<rparr>)"

text \<open>The last part of a submission, after the token check.\<close>

definition submit_enqueue :: "flow_controller \<Rightarrow> string \<Rightarrow> packet \<Rightarrow> (submit_result \<times> flow_controller) res" where
  "submit_enqueue fc queueName packet =
     (case MultiQueue_GetQueue (fc_multiQueue fc) queueName of (a, mq) \<Rightarrow>
        and_then (PriorityQueue_Enqueue (mq_store mq ! a) packet) (\<lambda>(e, q).
          let fc = fc\<lparr>fc_multiQueue := mq\<lparr>mq_store := (mq_store mq)[a := q]\<rparr>\<rparr> in
          case e of
            Some e \<Rightarrow> drop_packet fc (EnqueueFailed e)
          | None \<Rightarrow> Inr (Submitted, fc\<lparr>fc_totalProcessed := add64 (fc_totalProcessed fc) 1\<rparr>)))"

text \<open>
  \<open>submit_body\<close> is the method without its deferred time-keeping; \<open>rounds\<close> are those of the blocking consume
  a critical packet makes within one second.
\<close>

definition submit_body ::
    "(rat \<Rightarrow> int) \<Rightarrow> int \<Rightarrow> (int \<times> int \<times> bool) list \<Rightarrow> flow_controller \<Rightarrow> string \<Rightarrow> packet \<Rightarrow>
      (submit_result \<times> flow_controller) res" where
  "submit_body oor now rounds fc queueName packet =
     (if FlowController_shouldDrop fc packet then drop_packet fc BackpressureDrop
      else let tokenRequired = Packet_Size packet in
        case RateLimiter_TryConsume oor now (fc_rateLimiter fc) queueName tokenRequired of
          (True, rl) \<Rightarrow> submit_enqueue (fc\<lparr>fc_rateLimiter := rl\<rparr>) queueName packet
        | (False, rl) \<Rightarrow>
            if pk_Priority packet = PriorityCritical then
              (case RateLimiter_Consume oor rounds now rl queueName tokenRequired of
                 (Consumed, rl) \<Rightarrow> submit_enqueue (fc\<lparr>fc_rateLimiter := rl\<rparr>) queueName packet
               | (ConsumeCtxErr, rl) \<Rightarrow> drop_packet (fc\<lparr>fc_rateLimiter := rl\<rparr>) CriticalNoTokens
               | (ConsumeWaiting, rl) \<Rightarrow> Inr (SubmitWaiting, fc\<lparr>fc_rateLimiter := rl\<rparr>))
            else drop_packet (fc\<lparr>fc_rateLimiter := rl\<rparr>) NoTokens)"

definition FlowController_SubmitToQueue ::
    "(rat \<Rightarrow> int) \<Rightarrow> int \<Rightarrow> int \<Rightarrow> (int \<times> int \<times> bool) list \<Rightarrow> flow_controller \<Rightarrow> string \<Rightarrow> packet \<Rightarrow>
      (submit_result \<times> flow_controller) res" where
  "FlowController_SubmitToQueue oor now spent rounds fc queueName packet =
     and_then (submit_body oor now rounds fc queueName packet) (\<lambda>(r, fc).
       Inr (r, if r = SubmitWaiting then fc else FlowController_updateAvgProcessingTime fc spent))"

definition FlowController_Submit ::
    "(rat \<Rightarrow> int) \<Rightarrow> int \<Rightarrow> int \<Rightarrow> (int \<times> int \<times> bool) list \<Rightarrow> flow_controller \<Rightarrow> packet \<Rightarrow>
      (submit_result \<times> flow_controller) res" where
  "FlowController_Submit oor now spent rounds fc packet =
     FlowController_SubmitToQueue oor now spent rounds fc ''default'' packet"

section \<open>Back-pressure\<close>

text \<open>Utilizations as the code computes them; a queue of maximal size 0 gives 0/0 or 1/0.\<close>

datatype fval = Fin rat | FInf | FNaN

definition fv_less :: "fval \<Rightarrow> rat \<Rightarrow> bool" where
  "fv_less v t \<longleftrightarrow> (case v of Fin x \<Rightarrow> x < t | _ \<Rightarrow> False)"

fun fv_add :: "fval \<Rightarrow> fval \<Rightarrow> fval" where
  "fv_add (Fin a) (Fin b) = Fin (fadd a b)"
| "fv_add FNaN b = FNaN"
| "fv_add a FNaN = FNaN"
| "fv_add a b = FInf"

definition queue_utilization :: "pqueue \<Rightarrow> fval" where
  "queue_utilization q =
     (if pq_maxSize q = 0 then (if pq_queue q = [] then FNaN else FInf)
      else Fin (fmul (fdiv (float64 (int (length (pq_queue q)))) (float64 (pq_maxSize q))) 100))"

definition fv_average :: "fval list \<Rightarrow> fval" where
  "fv_average us =
     (case fold (\<lambda>u t. fv_add t u) us (Fin 0) of
        Fin t \<Rightarrow> Fin (fdiv t (float64 (int (length us)))) | v \<Rightarrow> v)"

definition bp_level_of :: "flow_config \<Rightarrow> fval \<Rightarrow> bp_level \<times> rat" where
  "bp_level_of config avg =
     (let x = (case avg of Fin x \<Rightarrow> x | _ \<Rightarrow> 0) in
      if fv_less avg (fcfg_BackpressureThreshold config) then (BackpressureLevelNone, 0)
      else if fv_less avg (fl (85 / 100)) then
        (BackpressureLevelLow, fdiv (fsub x (fcfg_BackpressureThreshold config))
                                 (fsub (fl (85 / 100)) (fcfg_BackpressureThreshold config)))
      else if fv_less avg (fl (90 / 100)) then
        (BackpressureLevelMedium, fdiv (fsub x (fl (85 / 100))) (fl (5 / 100)))
      else if fv_less avg (fcfg_DropThreshold config) then
        (BackpressureLevelHigh, fdiv (fsub x (fl (90 / 100))) (fsub (fcfg_DropThreshold config) (fl (90 / 100))))
      else (BackpressureLevelCritical, 1))"

text \<open>\<open>order\<close> is the order in which the map of queue statistics is ranged over; the channel holds 100 signals.\<close>

definition FlowController_checkBackpressure ::
    "((string \<times> nat) list \<Rightarrow> string list) \<Rightarrow> int \<Rightarrow> flow_controller \<Rightarrow> flow_controller" where
  "FlowController_checkBackpressure order now fc =
     (let mq = fc_multiQueue fc;
          names = order (mq_queues mq);
          us = map (\<lambda>name. queue_utilization (mq_store mq ! the (map_of (mq_queues mq) name))) names
      in if us = [] then fc
         else let (level, severity) = bp_level_of (fc_config fc) (fv_average us);
                  oldLevel = fc_backpressureLevel fc;
                  fc = fc\<lparr>fc_backpressureLevel := level\<rparr>
              in if level \<noteq> oldLevel \<and> length (fc_signals fc) < 100 then
                   fc\<lparr>fc_signals := fc_signals fc @
                        [\<lparr>sig_Level = level, sig_Severity = severity, sig_Timestamp = now\<rparr>],
                      fc_totalBackpressure := add64 (fc_totalBackpressure fc) 1\<rparr>
                 else fc)"

section \<open>Processing\<close>

datatype round_result = RoundReturned | RoundAgain | RoundWait

text \<open>
  One round of \<open>Process\<close> on the queue at address \<open>a\<close>: \<open>ctxDone\<close> at its start, \<open>ctxErr\<close> after a failed
  dequeue, and \<open>fails\<close> whether the handler fails on a packet.
\<close>

definition process_round ::
    "nat \<Rightarrow> bool \<Rightarrow> bool \<Rightarrow> (nat \<Rightarrow> int) \<Rightarrow> (packet \<Rightarrow> bool) \<Rightarrow> flow_controller \<Rightarrow>
      (round_result \<times> flow_controller) res" where
  "process_round a ctxDone ctxErr now fails fc =
     (if ctxDone then Inr (RoundReturned, fc)
      else let put = (\<lambda>q. fc\<lparr>fc_multiQueue := (fc_multiQueue fc)\<lparr>mq_store := (mq_store (fc_multiQueue fc))[a := q]\<rparr>\<rparr>)
      in and_then (PriorityQueue_Dequeue now (mq_store (fc_multiQueue fc) ! a)) (\<lambda>(d, q).
        case d of
          DeqErr e \<Rightarrow> Inr (if ctxErr then RoundReturned else RoundAgain, put q)
        | DeqWait \<Rightarrow> Inr (RoundWait, put q)
        | DeqPacket packet \<Rightarrow>
            if fails packet \<and> pk_Retries packet < 3 then
              and_then (PriorityQueue_Enqueue q (packet\<lparr>pk_Retries := add64 (pk_Retries packet) 1\<rparr>)) (\<lambda>(e, q).
                Inr (RoundAgain, put q))
            else Inr (RoundAgain, put q)))"

text \<open>\<open>Process\<close> for at most \<open>fuel\<close> rounds; \<open>None\<close> means it has not returned or parked by then.\<close>

fun FlowController_Process ::
    "nat \<Rightarrow> nat \<Rightarrow> (nat \<Rightarrow> bool \<times> bool \<times> (nat \<Rightarrow> int)) \<Rightarrow> (packet \<Rightarrow> bool) \<Rightarrow> flow_controller \<Rightarrow>
      ((round_result \<times> flow_controller) res) option" where
  "FlowController_Process 0 a env fails fc = None"
| "FlowController_Process (Suc n) a env fails fc =
     (case env n of (ctxDone, ctxErr, now) \<Rightarrow>
        case process_round a ctxDone ctxErr now fails fc of
          Inl p \<Rightarrow> Some (Inl p)
        | Inr (RoundAgain, fc) \<Rightarrow> FlowController_Process n a env fails fc
        | Inr r \<Rightarrow> Some (Inr r))"

section \<open>Submissions\<close>

lemma submit_enqueue_counts:
  assumes "submit_enqueue fc name p = Inr (r, fc')"
  shows "(r = Submitted \<and> fc_totalProcessed fc' = add64 (fc_totalProcessed fc) 1 \<and>
            fc_totalDropped fc' = fc_totalDropped fc) \<or>
         (\<exists>e. r = SubmitErr (EnqueueFailed e) \<and> fc_totalDropped fc' = add64 (fc_totalDropped fc) 1 \<and>
            fc_totalProcessed fc' = fc_totalProcessed fc)"
proof -
  obtain a mq where g: "MultiQueue_GetQueue (fc_multiQueue fc) name = (a, mq)" by fastforce
  obtain e q where en: "PriorityQueue_Enqueue (mq_store mq ! a) p = Inr (e, q)"
    using assms by (fastforce simp: submit_enqueue_def g and_then_eq_Inr_iff)
  show ?thesis
    using assms by (cases e) (simp_all add: submit_enqueue_def g en Let_def drop_packet_def, auto)
qed

lemma shouldDrop_critical: "pk_Priority p = PriorityCritical \<Longrightarrow> \<not> FlowController_shouldDrop fc p"
  by (simp add: FlowController_shouldDrop_def)

lemma submit_body_counts:
  assumes "submit_body oor now rounds fc name p = Inr (r, fc')"
  shows "(case r of
       Submitted \<Rightarrow> fc_totalProcessed fc' = add64 (fc_totalProcessed fc) 1 \<and> fc_totalDropped fc' = fc_totalDropped fc
     | SubmitErr e \<Rightarrow> fc_totalDropped fc' = add64 (fc_totalDropped fc) 1 \<and>
         fc_totalProcessed fc' = fc_totalProcessed fc \<and>
         (e = BackpressureDrop \<longrightarrow> FlowController_shouldDrop fc p \<and> fc_rateLimiter fc' = fc_rateLimiter fc \<and>
            fc_multiQueue fc' = fc_multiQueue fc) \<and>
         (e = NoTokens \<longrightarrow> pk_Priority p \<noteq> PriorityCritical \<and> fc_multiQueue fc' = fc_multiQueue fc)
     | SubmitWaiting \<Rightarrow> fc_totalProcessed fc' = fc_totalProcessed fc \<and> fc_totalDropped fc' = fc_totalDropped fc)"
proof (cases "FlowController_shouldDrop fc p")
  case True
  with assms show ?thesis by (auto simp: submit_body_def drop_packet_def)
next
  case False
  obtain ok rl where t: "RateLimiter_TryConsume oor now (fc_rateLimiter fc) name (Packet_Size p) = (ok, rl)" by fastforce
  obtain cr rl' where c: "RateLimiter_Consume oor rounds now rl name (Packet_Size p) = (cr, rl')" by fastforce
  from assms False consider
      (enq) rl'' where "submit_enqueue (fc\<lparr>fc_rateLimiter := rl''\<rparr>) name p = Inr (r, fc')"
    | (crit) "drop_packet (fc\<lparr>fc_rateLimiter := rl'\<rparr>) CriticalNoTokens = Inr (r, fc')"
    | (waiting) "Inr (SubmitWaiting, fc\<lparr>fc_rateLimiter := rl'\<rparr>) = (Inr (r, fc') :: (submit_result \<times> flow_controller) res)"
    | (tokens) "drop_packet (fc\<lparr>fc_rateLimiter := rl\<rparr>) NoTokens = Inr (r, fc')" "pk_Priority p \<noteq> PriorityCritical"
    unfolding submit_body_def Let_def t by (cases ok; cases cr) (simp_all add: c split: if_splits)
  then show ?thesis
  proof cases
    case enq
    from submit_enqueue_counts [OF enq] show ?thesis by (elim disjE exE conjE) simp_all
  next
    case crit
    then show ?thesis by (auto simp: drop_packet_def)
  next
    case waiting
    then show ?thesis by auto
  next
    case tokens
    then show ?thesis by (auto simp: drop_packet_def)
  qed
qed

text \<open>
  Every submission is accounted for. A finished submission either counts one processed packet or
  reports an error and counts one dropped packet, never both; a back-pressure drop touches neither tokens
  nor queues; a critical packet is never dropped by back-pressure and never for lack of tokens without having
  waited for them.
\<close>

theorem submission_accounting:
  assumes "FlowController_SubmitToQueue oor now spent rounds fc name p = Inr (r, fc')"
  shows "(case r of
       Submitted \<Rightarrow> fc_totalProcessed fc' = add64 (fc_totalProcessed fc) 1 \<and> fc_totalDropped fc' = fc_totalDropped fc
     | SubmitErr e \<Rightarrow> fc_totalDropped fc' = add64 (fc_totalDropped fc) 1 \<and>
         fc_totalProcessed fc' = fc_totalProcessed fc \<and>
         (pk_Priority p = PriorityCritical \<longrightarrow> e \<noteq> BackpressureDrop \<and> e \<noteq> NoTokens) \<and>
         (e = BackpressureDrop \<longrightarrow> fc_rateLimiter fc' = fc_rateLimiter fc \<and> fc_multiQueue fc' = fc_multiQueue fc)
     | SubmitWaiting \<Rightarrow> fc_totalProcessed fc' = fc_totalProcessed fc \<and> fc_totalDropped fc' = fc_totalDropped fc)"
proof -
  obtain fc1 where b: "submit_body oor now rounds fc name p = Inr (r, fc1)"
    and fc': "fc' = (if r = SubmitWaiting then fc1 else FlowController_updateAvgProcessingTime fc1 spent)"
    using assms by (auto simp: FlowController_SubmitToQueue_def and_then_eq_Inr_iff)
  from submit_body_counts [OF b] shouldDrop_critical [of p fc] show ?thesis
    by (auto simp: fc' FlowController_updateAvgProcessingTime_def split: submit_result.splits)
qed

theorem submission_accounting_witness:
  "\<exists>fc'. FlowController_SubmitToQueue (\<lambda>_. 0) 5 7 [] ((NewFlowController None)\<lparr>fc_backpressureLevel := BackpressureLevelHigh\<rparr>)
       ''q'' (NewPacket ''a'' [1, 2] 1 5) = Inr (SubmitErr BackpressureDrop, fc') \<and> fc_totalDropped fc' = 1"
proof -
  let ?fc = "(NewFlowController None)\<lparr>fc_backpressureLevel := BackpressureLevelHigh\<rparr>"
  have "\<exists>fc'. FlowController_SubmitToQueue (\<lambda>_. 0) 5 7 [] ?fc ''q'' (NewPacket ''a'' [1, 2] 1 5) =
      Inr (SubmitErr BackpressureDrop, fc')"
    by (simp add: FlowController_SubmitToQueue_def submit_body_def FlowController_shouldDrop_def NewFlowController_def
        DefaultFlowControlConfig_def NewPacket_def PriorityCritical_def PriorityNormal_def drop_packet_def)
  then obtain fc' where "FlowController_SubmitToQueue (\<lambda>_. 0) 5 7 [] ?fc ''q'' (NewPacket ''a'' [1, 2] 1 5) =
      Inr (SubmitErr BackpressureDrop, fc')" ..
  with submission_accounting [OF this] show ?thesis by (simp add: NewFlowController_def)
qed

section \<open>Back-pressure of a nearly empty queue\<close>

lemma fl_lower_chain:
  assumes "0 \<le> c" and "c * (1 - 1 / 2 ^ 53) ^ k \<le> x"
  shows "c * (1 - 1 / 2 ^ 53) ^ Suc k \<le> fl x"
proof -
  let ?v = "1 - 1 / 2 ^ 53 :: rat"
  have v: "0 \<le> ?v" by simp
  have "0 \<le> c * ?v ^ k" using assms(1) v by (intro mult_nonneg_nonneg zero_le_power)
  then have "0 \<le> x" using assms(2) by (rule order_trans)
  have "c * ?v ^ Suc k = c * ?v ^ k * ?v" by simp
  also have "\<dots> \<le> x * ?v" using assms(2) v by (rule mult_right_mono)
  also have "\<dots> \<le> fl x" by (rule fl_bounds(2) [OF \<open>0 \<le> x\<close>])
  finally show ?thesis .
qed

lemma utilization_lower:
  assumes "96 \<le> length (pq_queue q)" and "length (pq_queue q) \<le> 10000" and "pq_maxSize q = 10000"
  shows "\<exists>x. fv_average [queue_utilization q] = Fin x \<and> fl (95 / 100) \<le> x"
proof -
  let ?n = "int (length (pq_queue q))" and ?v = "1 - 1 / 2 ^ 53 :: rat"
  have n: "float64 ?n = of_int ?n" using assms(2) by (intro fl_int) simp_all
  have m: "fl 10000 = 10000" and one: "fl 1 = 1" using fl_int [of 10000] fl_int [of 1] by simp_all
  let ?a = "fdiv (of_int ?n) 10000" and ?c = "96 / 100 :: rat"
  have "96 / 10000 \<le> (of_int ?n / 10000 :: rat)" using assms(1) by (simp add: divide_right_mono)
  then have a: "96 / 10000 * ?v ^ Suc 0 \<le> ?a" by (intro fl_lower_chain) simp_all
  then have "?c * ?v ^ Suc 0 \<le> ?a * 100" by simp
  then have b: "?c * ?v ^ Suc (Suc 0) \<le> fmul ?a 100" by (intro fl_lower_chain) simp_all
  then have "?c * ?v ^ Suc (Suc (Suc 0)) \<le> fadd 0 (fmul ?a 100)" by (intro fl_lower_chain) simp_all
  then have d: "?c * ?v ^ Suc (Suc (Suc (Suc 0))) \<le> fdiv (fadd 0 (fmul ?a 100)) 1"
    by (intro fl_lower_chain) simp_all
  have "fl (95 / 100) \<le> 95 / 100 * (1 + 1 / 2 ^ 53)" by (rule fl_bounds(1)) simp
  also have "\<dots> \<le> ?c * ?v ^ Suc (Suc (Suc (Suc 0)))" by (simp add: field_simps)
  also note d
  finally have "fl (95 / 100) \<le> fdiv (fadd 0 (fmul ?a 100)) 1" .
  moreover have "fv_average [queue_utilization q] = Fin (fdiv (fadd 0 (fmul ?a 100)) 1)"
    using assms(3) n by (simp add: fv_average_def queue_utilization_def m one)
  ultimately show ?thesis by blast
qed

lemma fl_thresholds: "fl (8 / 10) \<le> fl (95 / 100)" "fl (85 / 100) \<le> fl (95 / 100)" "fl (90 / 100) \<le> fl (95 / 100)"
proof -
  have lo: "94 / 100 \<le> fl (95 / 100)" by (rule order_trans [OF _ fl_bounds(2)]) simp_all
  have "fl (8 / 10) \<le> 94 / 100" "fl (85 / 100) \<le> 94 / 100" "fl (90 / 100) \<le> 94 / 100"
    by (rule order_trans [OF fl_bounds(1)]; simp)+
  with lo show "fl (8 / 10) \<le> fl (95 / 100)" "fl (85 / 100) \<le> fl (95 / 100)" "fl (90 / 100) \<le> fl (95 / 100)"
    by linarith+
qed

text \<open>
  Back-pressure trips at one percent. With the default configuration and one queue holding between 96 and
  10000 of its 10000 packets, the controller goes to the critical level and from then on refuses every
  packet that is not critical: the utilization is a percentage, the thresholds it is compared with
  (0.8 to 0.95) are fractions.
\<close>

theorem backpressure_at_one_percent:
  assumes "fc_config fc = DefaultFlowControlConfig" and "mq_queues (fc_multiQueue fc) = [(name, a)]"
    and "q = mq_store (fc_multiQueue fc) ! a" and "pq_maxSize q = 10000"
    and "96 \<le> length (pq_queue q)" and "length (pq_queue q) \<le> 10000"
    and "pk_Priority p < PriorityCritical"
  shows "\<exists>fc'. fc' = FlowController_checkBackpressure (map fst) now fc \<and>
           fc_backpressureLevel fc' = BackpressureLevelCritical \<and>
           (\<exists>fc''. FlowController_SubmitToQueue oor now spent rounds fc' name p =
              Inr (SubmitErr BackpressureDrop, fc''))"
proof -
  define fc' where "fc' = FlowController_checkBackpressure (map fst) now fc"
  obtain x where x: "fv_average [queue_utilization q] = Fin x" "fl (95 / 100) \<le> x"
    using utilization_lower [OF assms(5,6,4)] by blast
  have "\<not> x < fl (8 / 10)" "\<not> x < fl (85 / 100)" "\<not> x < fl (90 / 100)" "\<not> x < fl (95 / 100)"
    using fl_thresholds x(2) by (auto simp: not_less intro: order_trans)
  then have "bp_level_of (fc_config fc) (fv_average [queue_utilization q]) = (BackpressureLevelCritical, 1)"
    by (simp only: bp_level_of_def x(1) fv_less_def fval.case assms(1)) (simp add: DefaultFlowControlConfig_def)
  then have lv: "fc_backpressureLevel fc' = BackpressureLevelCritical" "fc_config fc' = fc_config fc"
    by (simp_all add: fc'_def FlowController_checkBackpressure_def Let_def assms(2,3))
  then have "FlowController_shouldDrop fc' p"
    using assms(1,7) by (simp add: FlowController_shouldDrop_def DefaultFlowControlConfig_def)
  then show ?thesis
    using lv(1) by (simp add: fc'_def [symmetric] FlowController_SubmitToQueue_def submit_body_def drop_packet_def)
qed

definition filled_controller :: flow_controller where
  "filled_controller = (NewFlowController None)\<lparr>fc_multiQueue :=
     (NewMultiQueue 10000 0)\<lparr>mq_queues := [(''q'', 0)],
        mq_store := [(NewPriorityQueue 10000 0)\<lparr>pq_queue := replicate 100 (NewPacket ''a'' [] 1 0)\<rparr>]\<rparr>\<rparr>"

theorem backpressure_at_one_percent_witness:
  "fc_backpressureLevel (FlowController_checkBackpressure (map fst) 0 filled_controller) = BackpressureLevelCritical"
  using backpressure_at_one_percent [of filled_controller "''q''" 0 "mq_store (fc_multiQueue filled_controller) ! 0"
      "NewPacket ''b'' [] 2 0" 0 "\<lambda>_. 0" 0 "[]"]
  by (auto simp: filled_controller_def NewFlowController_def NewPriorityQueue_def NewPacket_def PriorityCritical_def)

section \<open>The processing loop after shutdown\<close>

text \<open>
  \<open>Process\<close> spins on a closed queue. When the queue it serves has been closed and is empty while the
  caller's context is still open, no number of rounds makes it return or park, and the rounds change
  nothing.
\<close>

theorem process_spins_on_closed_queue:
  assumes "a < length (mq_store (fc_multiQueue fc))" and "pq_closed (mq_store (fc_multiQueue fc) ! a)"
    and "pq_queue (mq_store (fc_multiQueue fc) ! a) = []" and "\<forall>n. \<exists>now. env n = (False, False, now)"
  shows "FlowController_Process fuel a env fails fc = None \<and>
         process_round a False False now fails fc = Inr (RoundAgain, fc)"
proof -
  have r: "process_round a False False now fails fc = Inr (RoundAgain, fc)" for now
    using assms(2,3) by (simp add: process_round_def PriorityQueue_Dequeue_def)
  moreover have "FlowController_Process fuel a env fails fc = None"
  proof (induction fuel)
    case (Suc n)
    obtain now where "env n = (False, False, now)" using assms(4) by blast
    with Suc r show ?case by simp
  qed simp
  ultimately show ?thesis by blast
qed

theorem process_spins_on_closed_queue_witness:
  "FlowController_Process 1000 0 (\<lambda>_. (False, False, \<lambda>_. 0)) (\<lambda>_. False)
     ((NewFlowController None)\<lparr>fc_multiQueue := (NewMultiQueue 10 0)\<lparr>
        mq_store := [PriorityQueue_Close (NewPriorityQueue 10 0)]\<rparr>\<rparr>) = None"
  by (rule process_spins_on_closed_queue [THEN conjunct1])
     (simp_all add: PriorityQueue_Close_def NewPriorityQueue_def NewMultiQueue_def)

end
