(* ===== verification/Circuit_Breaker.thy ===== *)
theory Circuit_Breaker
  imports Prelude
begin

text \<open>
  The circuit breaker (\<open>client/internal/recovery/circuit_breaker.go\<close>) and the breakers the recovery
  manager keeps per component and error type. Clock readings are nanoseconds; the time of the last
  failure is kept in whole seconds, as in the code. \<open>time.Since\<close> saturates, which does not change the
  outcome of a comparison with a duration.

  Lemmas: the transitions between closed, open and half-open, and how long an open breaker refuses.
\<close>

section \<open>The breaker\<close>

datatype cb_state = StateClosed | StateOpen | StateHalfOpen

fun CircuitBreakerState_String :: "cb_state \<Rightarrow> string" where
  "CircuitBreakerState_String StateClosed = ''CLOSED''"
| "CircuitBreakerState_String StateOpen = ''OPEN''"
| "CircuitBreakerState_String StateHalfOpen = ''HALF_OPEN''"

record cb_config =
  cc_Enabled :: bool
  cc_FailureThreshold :: int
  cc_SuccessThreshold :: int
  cc_Timeout :: int

record breaker =
  cb_name :: string
  cb_config :: cb_config
  cb_state :: cb_state
  cb_failureCount :: int
  cb_successCount :: int
  cb_lastFailureTime :: int
  cb_totalRequests :: int
  cb_totalFailures :: int
  cb_totalSuccesses :: int

definition NewCircuitBreaker :: "string \<Rightarrow> cb_config option \<Rightarrow> breaker" where
  "NewCircuitBreaker name config =
     \<lparr>cb_name = name,
      cb_config = (case config of Some c \<Rightarrow> c
        | None \<Rightarrow> \<lparr>cc_Enabled = False, cc_FailureThreshold = 5, cc_SuccessThreshold = 3, cc_Timeout = 60 * 10 ^ 9\<rparr>),
      cb_state = StateClosed, cb_failureCount = 0, cb_successCount = 0, cb_lastFailureTime = 0,
      cb_totalRequests = 0, cb_totalFailures = 0, cb_totalSuccesses = 0\<rparr>"

definition CircuitBreaker_setState :: "breaker \<Rightarrow> cb_state \<Rightarrow> breaker" where
  "CircuitBreaker_setState cb newState = cb\<lparr>cb_state := newState\<rparr>"

definition CircuitBreaker_shouldAttemptReset :: "int \<Rightarrow> breaker \<Rightarrow> bool" where
  "CircuitBreaker_shouldAttemptReset now cb \<longleftrightarrow>
     now - cb_lastFailureTime cb * 10 ^ 9 \<ge> cc_Timeout (cb_config cb)"

definition CircuitBreaker_AllowRequest :: "int \<Rightarrow> breaker \<Rightarrow> bool \<times> breaker" where
  "CircuitBreaker_AllowRequest now cb =
     (case cb_state cb of
        StateClosed \<Rightarrow> (True, cb)
      | StateOpen \<Rightarrow>
          if CircuitBreaker_shouldAttemptReset now cb then (True, CircuitBreaker_setState cb StateHalfOpen)
          else (False, cb)
      | StateHalfOpen \<Rightarrow> (True, cb))"

definition CircuitBreaker_RecordSuccess :: "breaker \<Rightarrow> breaker" where
  "CircuitBreaker_RecordSuccess cb =
     (let cb = cb\<lparr>cb_totalSuccesses := add64 (cb_totalSuccesses cb) 1\<rparr> in
      case cb_state cb of
        StateClosed \<Rightarrow> cb\<lparr>cb_failureCount := 0\<rparr>
      | StateHalfOpen \<Rightarrow>
          (let successCount = add32 (cb_successCount cb) 1; cb = cb\<lparr>cb_successCount := successCount\<rparr> in
           if successCount \<ge> cc_SuccessThreshold (cb_config cb) then
             (CircuitBreaker_setState cb StateClosed)\<lparr>cb_failureCount := 0, cb_successCount := 0\<rparr>
           else cb)
      | StateOpen \<Rightarrow> cb)"

definition CircuitBreaker_RecordFailure :: "int \<Rightarrow> breaker \<Rightarrow> breaker" where
  "CircuitBreaker_RecordFailure now cb =
     (let cb = cb\<lparr>cb_totalFailures := add64 (cb_totalFailures cb) 1, cb_lastFailureTime := now div 10 ^ 9\<rparr>;
          state = cb_state cb;
          failureCount = add32 (cb_failureCount cb) 1;
          cb = cb\<lparr>cb_failureCount := failureCount\<rparr>
      in case state of
        StateClosed \<Rightarrow>
          if failureCount \<ge> cc_FailureThreshold (cb_config cb) then CircuitBreaker_setState cb StateOpen else cb
      | StateHalfOpen \<Rightarrow> (CircuitBreaker_setState cb StateOpen)\<lparr>cb_successCount := 0\<rparr>
      | StateOpen \<Rightarrow> cb)"

datatype call_result = CallRefused | CallFailed | CallOK

text \<open>
  \<open>Call\<close> with the clock reading of its admission, whether the protected function fails, and the clock
  reading when it does.
\<close>

definition CircuitBreaker_Call :: "int \<Rightarrow> bool \<Rightarrow> int \<Rightarrow> breaker \<Rightarrow> call_result \<times> breaker" where
  "CircuitBreaker_Call now fails later cb =
     (case CircuitBreaker_AllowRequest now cb of
        (False, cb) \<Rightarrow> (CallRefused, cb)
      | (True, cb) \<Rightarrow>
          let cb = cb\<lparr>cb_totalRequests := add64 (cb_totalRequests cb) 1\<rparr> in
          if fails then (CallFailed, CircuitBreaker_RecordFailure later cb)
          else (CallOK, CircuitBreaker_RecordSuccess cb))"

definition CircuitBreaker_IsOpen :: "breaker \<Rightarrow> bool" where
  "CircuitBreaker_IsOpen cb \<longleftrightarrow> cb_state cb = StateOpen"

definition CircuitBreaker_Reset :: "breaker \<Rightarrow> breaker" where
  "CircuitBreaker_Reset cb =
     (CircuitBreaker_setState cb StateClosed)\<lparr>cb_failureCount := 0, cb_successCount := 0\<rparr>"

section \<open>The manager's breakers\<close>

datatype error_type =
    ErrorTypeConnection | ErrorTypeRuleSync | ErrorTypeAuthentication | ErrorTypeCertificate
  | ErrorTypeNetwork | ErrorTypeTimeout | ErrorTypeUnknown

fun ErrorType_String :: "error_type \<Rightarrow> string" where
  "ErrorType_String ErrorTypeConnection = ''CONNECTION''"
| "ErrorType_String ErrorTypeRuleSync = ''RULE_SYNC''"
| "ErrorType_String ErrorTypeAuthentication = ''AUTHENTICATION''"
| "ErrorType_String ErrorTypeCertificate = ''CERTIFICATE''"
| "ErrorType_String ErrorTypeNetwork = ''NETWORK''"
| "ErrorType_String ErrorTypeTimeout = ''TIMEOUT''"
| "ErrorType_String ErrorTypeUnknown = ''UNKNOWN''"

text \<open>The map of breakers, under keys \<open>component:type\<close>; the configuration is the manager's.\<close>

definition breaker_key :: "string \<Rightarrow> error_type \<Rightarrow> string" where
  "breaker_key component errorType = component @ '':'' @ ErrorType_String errorType"

definition Manager_isCircuitBreakerOpen ::
    "cb_config \<Rightarrow> (string \<times> breaker) list \<Rightarrow> string \<Rightarrow> error_type \<Rightarrow> bool" where
  "Manager_isCircuitBreakerOpen config breakers component errorType =
     (if \<not> cc_Enabled config then False
      else case map_of breakers (breaker_key component errorType) of
        None \<Rightarrow> False
      | Some cb \<Rightarrow> CircuitBreaker_IsOpen cb)"

definition Manager_updateCircuitBreaker ::
    "cb_config \<Rightarrow> int \<Rightarrow> (string \<times> breaker) list \<Rightarrow> string \<Rightarrow> error_type \<Rightarrow> bool \<Rightarrow> (string \<times> breaker) list" where
  "Manager_updateCircuitBreaker config now breakers component errorType success =
     (if \<not> cc_Enabled config then breakers
      else let cbKey = breaker_key component errorType;
               cb = (case map_of breakers cbKey of Some cb \<Rightarrow> cb | None \<Rightarrow> NewCircuitBreaker cbKey (Some config))
           in AList.update cbKey
                (if success then CircuitBreaker_RecordSuccess cb else CircuitBreaker_RecordFailure now cb) breakers)"

definition Manager_resetExpiredCircuitBreakers :: "int \<Rightarrow> (string \<times> breaker) list \<Rightarrow> (string \<times> breaker) list" where
  "Manager_resetExpiredCircuitBreakers now breakers =
     map (\<lambda>(k, cb). (k, if cb_state cb = StateOpen \<and> CircuitBreaker_shouldAttemptReset now cb
                         then CircuitBreaker_setState cb StateHalfOpen else cb)) breakers"

section \<open>Transitions\<close>

lemmas cb_defs = CircuitBreaker_Call_def CircuitBreaker_AllowRequest_def CircuitBreaker_RecordSuccess_def
  CircuitBreaker_RecordFailure_def CircuitBreaker_setState_def Let_def

definition cb_ok :: "breaker \<Rightarrow> bool" where
  "cb_ok cb \<longleftrightarrow>
     1 \<le> cc_FailureThreshold (cb_config cb) \<and> cc_FailureThreshold (cb_config cb) < 2 ^ 31 \<and>
     1 \<le> cc_SuccessThreshold (cb_config cb) \<and> cc_SuccessThreshold (cb_config cb) < 2 ^ 31 \<and>
     (cb_state cb = StateClosed \<longrightarrow>
        0 \<le> cb_failureCount cb \<and> cb_failureCount cb < cc_FailureThreshold (cb_config cb)) \<and>
     (if cb_state cb = StateHalfOpen
      then 0 \<le> cb_successCount cb \<and> cb_successCount cb < cc_SuccessThreshold (cb_config cb)
      else cb_successCount cb = 0)"

lemma Call_ok: "cb_ok cb \<Longrightarrow> cb_ok (snd (CircuitBreaker_Call now fails later cb))"
  by (cases "cb_state cb") (auto simp: cb_ok_def cb_defs split: if_splits)

text \<open>A run of calls, each with its clock readings and outcome.\<close>

fun call_run :: "(int \<times> bool \<times> int) list \<Rightarrow> breaker \<Rightarrow> breaker" where
  "call_run [] cb = cb"
| "call_run ((now, fails, later) # calls) cb = call_run calls (snd (CircuitBreaker_Call now fails later cb))"

lemma call_run_ok: "cb_ok cb \<Longrightarrow> cb_ok (call_run calls cb)"
  by (induction calls cb rule: call_run.induct) (simp_all add: Call_ok)

lemma failures_in_closed:
  assumes "cb_state cb = StateClosed" and "cb_ok cb" and "\<forall>(now, fails, later) \<in> set calls. fails"
    and "cb_failureCount cb + int (length calls) < cc_FailureThreshold (cb_config cb)"
  shows "cb_state (call_run calls cb) = StateClosed \<and> cb_config (call_run calls cb) = cb_config cb \<and>
         cb_failureCount (call_run calls cb) = cb_failureCount cb + int (length calls)"
  using assms
proof (induction calls arbitrary: cb)
  case (Cons c calls)
  obtain now later where c: "c = (now, True, later)" using Cons.prems(3) by (cases c) auto
  have b: "0 \<le> cb_failureCount cb" "cb_failureCount cb < 2 ^ 31 - 1"
    using Cons.prems(1,2,4) by (auto simp: cb_ok_def)
  let ?cb = "snd (CircuitBreaker_Call now True later cb)"
  have s: "cb_state ?cb = StateClosed" "cb_failureCount ?cb = cb_failureCount cb + 1" "cb_config ?cb = cb_config cb"
    using Cons.prems(1,4) b by (simp_all add: cb_defs)
  have "cb_ok ?cb" using Cons.prems(2) by (rule Call_ok)
  from Cons.IH [OF s(1) this] Cons.prems(3,4) s c show ?case by simp
qed simp

lemma Call_closed_fail:
  assumes "cb_state cb = StateClosed" and "cb_ok cb"
    and "cb_failureCount cb + 1 \<ge> cc_FailureThreshold (cb_config cb)"
  shows "cb_state (snd (CircuitBreaker_Call now True later cb)) = StateOpen"
  using assms by (simp add: cb_defs cb_ok_def)

lemma call_run_append: "call_run (xs @ ys) cb = call_run ys (call_run xs cb)"
  by (induction xs cb rule: call_run.induct) simp_all

lemma successes_in_half_open:
  assumes "cb_state cb = StateHalfOpen" and "cb_ok cb" and "\<forall>(now, fails, later) \<in> set calls. \<not> fails"
    and "cb_successCount cb + int (length calls) < cc_SuccessThreshold (cb_config cb)"
  shows "cb_state (call_run calls cb) = StateHalfOpen \<and> cb_config (call_run calls cb) = cb_config cb \<and>
         cb_successCount (call_run calls cb) = cb_successCount cb + int (length calls)"
  using assms
proof (induction calls arbitrary: cb)
  case (Cons c calls)
  obtain now later where c: "c = (now, False, later)" using Cons.prems(3) by (cases c) auto
  have b: "0 \<le> cb_successCount cb" "cb_successCount cb < 2 ^ 31 - 1"
    using Cons.prems(1,2,4) by (auto simp: cb_ok_def)
  let ?cb = "snd (CircuitBreaker_Call now False later cb)"
  have s: "cb_state ?cb = StateHalfOpen" "cb_successCount ?cb = cb_successCount cb + 1" "cb_config ?cb = cb_config cb"
    using Cons.prems(1,4) b by (simp_all add: cb_defs)
  have "cb_ok ?cb" using Cons.prems(2) by (rule Call_ok)
  from Cons.IH [OF s(1) this] Cons.prems(3,4) s c show ?case by simp
qed simp

text \<open>
  When the breaker changes state. A closed breaker whose counters are clear stays closed through fewer than
  \<open>FailureThreshold\<close> failing calls in a row and is open after exactly that many; a half-open one
  stays half-open through fewer than \<open>SuccessThreshold\<close> successes in a row, is closed with clear counters
  after exactly that many, and is open again after any failing call.
\<close>

theorem breaker_transitions:
  assumes "cb_ok cb"
  shows "(\<forall>calls. cb_state cb = StateClosed \<longrightarrow> cb_failureCount cb = 0 \<longrightarrow> (\<forall>(now, fails, later) \<in> set calls. fails) \<longrightarrow>
            int (length calls) \<le> cc_FailureThreshold (cb_config cb) \<longrightarrow>
            cb_state (call_run calls cb) =
              (if int (length calls) < cc_FailureThreshold (cb_config cb) then StateClosed else StateOpen)) \<and>
         (\<forall>calls. cb_state cb = StateHalfOpen \<longrightarrow> cb_successCount cb = 0 \<longrightarrow>
            (\<forall>(now, fails, later) \<in> set calls. \<not> fails) \<longrightarrow>
            int (length calls) \<le> cc_SuccessThreshold (cb_config cb) \<longrightarrow>
            cb_state (call_run calls cb) =
              (if int (length calls) < cc_SuccessThreshold (cb_config cb) then StateHalfOpen else StateClosed)) \<and>
         (\<forall>now later. cb_state cb = StateHalfOpen \<longrightarrow>
            cb_state (snd (CircuitBreaker_Call now True later cb)) = StateOpen)"
proof (intro conjI allI impI)
  fix calls :: "(int \<times> bool \<times> int) list"
  assume st: "cb_state cb = StateClosed" "cb_failureCount cb = 0" and f: "\<forall>(now, fails, later) \<in> set calls. fails"
    and le: "int (length calls) \<le> cc_FailureThreshold (cb_config cb)"
  show "cb_state (call_run calls cb) =
      (if int (length calls) < cc_FailureThreshold (cb_config cb) then StateClosed else StateOpen)"
  proof (cases "int (length calls) < cc_FailureThreshold (cb_config cb)")
    case True
    then show ?thesis using failures_in_closed [OF st(1) assms f] st(2) by simp
  next
    case False
    with le assms obtain cs now later where cs: "calls = cs @ [(now, True, later)]"
      using f by (cases calls rule: rev_cases) (auto simp: cb_ok_def)
    with f le st(2) have r: "cb_state (call_run cs cb) = StateClosed" "cb_config (call_run cs cb) = cb_config cb"
      "cb_failureCount (call_run cs cb) = int (length cs)"
      using failures_in_closed [OF st(1) assms, of cs] by auto
    from Call_closed_fail [OF r(1) call_run_ok [OF assms]] r False cs show ?thesis
      by (simp add: call_run_append)
  qed
next
  fix calls :: "(int \<times> bool \<times> int) list"
  assume st: "cb_state cb = StateHalfOpen" "cb_successCount cb = 0" and f: "\<forall>(now, fails, later) \<in> set calls. \<not> fails"
    and le: "int (length calls) \<le> cc_SuccessThreshold (cb_config cb)"
  show "cb_state (call_run calls cb) =
      (if int (length calls) < cc_SuccessThreshold (cb_config cb) then StateHalfOpen else StateClosed)"
  proof (cases "int (length calls) < cc_SuccessThreshold (cb_config cb)")
    case True
    then show ?thesis using successes_in_half_open [OF st(1) assms f] st(2) by simp
  next
    case False
    with le assms obtain cs now later where cs: "calls = cs @ [(now, False, later)]"
      using f by (cases calls rule: rev_cases) (auto simp: cb_ok_def)
    with f le st(2) have r: "cb_state (call_run cs cb) = StateHalfOpen" "cb_config (call_run cs cb) = cb_config cb"
      "cb_successCount (call_run cs cb) = int (length cs)"
      using successes_in_half_open [OF st(1) assms, of cs] by auto
    have "cb_ok (call_run cs cb)" by (rule call_run_ok [OF assms])
    with r False cs show ?thesis by (simp add: call_run_append cb_defs cb_ok_def)
  qed
next
  fix now later assume "cb_state cb = StateHalfOpen"
  then show "cb_state (snd (CircuitBreaker_Call now True later cb)) = StateOpen" by (simp add: cb_defs)
qed

theorem breaker_transitions_witness:
  "cb_state (call_run (replicate 5 (0, True, 0)) (NewCircuitBreaker ''x'' None)) = StateOpen \<and>
   cb_state (call_run (replicate 4 (0, True, 0)) (NewCircuitBreaker ''x'' None)) = StateClosed"
proof -
  let ?cb = "NewCircuitBreaker ''x'' None"
  have ok: "cb_ok ?cb" by (simp add: cb_ok_def NewCircuitBreaker_def)
  have n: "cb_state ?cb = StateClosed" "cb_failureCount ?cb = 0" "cc_FailureThreshold (cb_config ?cb) = 5"
    by (simp_all add: NewCircuitBreaker_def)
  note t = breaker_transitions [OF ok, THEN conjunct1, rule_format, OF n(1,2)]
  have "cb_state (call_run (replicate 5 (0, True, 0)) ?cb) = StateOpen"
    by (subst t) (simp_all add: n(3))
  moreover have "cb_state (call_run (replicate 4 (0, True, 0)) ?cb) = StateClosed"
    by (subst t) (simp_all add: n(3))
  ultimately show ?thesis ..
qed

section \<open>How long an open breaker refuses\<close>

text \<open>
  The refusal window. After a failure at time \<open>t\<close> has opened the breaker, every call from then until one
  second before \<open>t + Timeout\<close> is refused without change, and any call from \<open>t + Timeout\<close> on is let
  through as a trial. In the last second the outcome depends on the fraction of a second the recorded
  failure time has dropped, so the breaker may reopen up to a second early.
\<close>

theorem breaker_refusal_window:
  assumes "cb_state cb = StateOpen" and "cb_lastFailureTime cb = t div 10 ^ 9"
  shows "(now \<le> t + cc_Timeout (cb_config cb) - 10 ^ 9 \<longrightarrow>
            CircuitBreaker_Call now fails later cb = (CallRefused, cb)) \<and>
         (now \<ge> t + cc_Timeout (cb_config cb) \<longrightarrow>
            fst (CircuitBreaker_Call now fails later cb) = (if fails then CallFailed else CallOK))"
proof -
  have "t div 10 ^ 9 * 10 ^ 9 = t - t mod 10 ^ 9" by (rule minus_mod_eq_div_mult [symmetric])
  moreover have "0 \<le> t mod 10 ^ 9" "t mod 10 ^ 9 < 10 ^ 9" by simp_all
  ultimately have "t div 10 ^ 9 * 10 ^ 9 \<le> t" "t < t div 10 ^ 9 * 10 ^ 9 + 10 ^ 9" by linarith+
  with assms show ?thesis
    by (auto simp: cb_defs CircuitBreaker_shouldAttemptReset_def split: if_splits)
qed

theorem breaker_refusal_window_witness:
  "CircuitBreaker_Call 50000000000 False 0 (CircuitBreaker_RecordFailure 2000000007
      ((NewCircuitBreaker ''x'' None)\<lparr>cb_failureCount := 4\<rparr>)) =
    (CallRefused, CircuitBreaker_RecordFailure 2000000007 ((NewCircuitBreaker ''x'' None)\<lparr>cb_failureCount := 4\<rparr>))"
  by (rule breaker_refusal_window [THEN conjunct1, rule_format, where t = 2000000007])
     (simp_all add: NewCircuitBreaker_def cb_defs)

end
