(* ===== verification/Retry.thy ===== *)
theory Retry
  imports Go_Float "HOL-Library.Sublist"
begin

text \<open>
  Retrying (\<open>client/internal/recovery/retry.go\<close>): the four policies, the retrier's loop, the
  classification of errors by their text, and the retry budget. Durations are nanoseconds.
  Arguments from outside: \<open>pow\<close> is \<open>math.Pow\<close>, \<open>oor\<close> the conversion of out-of-range floats,
  \<open>rnd\<close> the random numbers, and for the loop the outcome of the operation and whether the context ends
  during the wait, per attempt.

  Lemmas: how often the loop runs the operation and what it returns, the substring test against its
  specification, the budget's bound, and the overflow of the exponential delay.
\<close>

section \<open>Classification of errors\<close>

definition findSubstring :: "string \<Rightarrow> string \<Rightarrow> bool" where
  "findSubstring s substr =
     (length substr \<le> length s \<and>
      list_ex (\<lambda>i. take (length substr) (drop i s) = substr) [0..<length s - length substr + 1])"

definition contains_str :: "string \<Rightarrow> string \<Rightarrow> bool" where
  "contains_str s substr =
     (length s \<ge> length substr \<and>
       (s = substr \<or>
         (length s > length substr \<and>
           (take (length substr) s = substr \<or> drop (length s - length substr) s = substr \<or>
            findSubstring s substr))))"

definition retryableErrors :: "string list" where
  "retryableErrors =
     [''connection refused'', ''connection reset'', ''connection timeout'', ''network unreachable'',
      ''temporary failure'', ''timeout'', ''i/o timeout'', ''broken pipe'', ''no route to host'']"

definition nonRetryableErrors :: "string list" where
  "nonRetryableErrors =
     [''authentication failed'', ''permission denied'', ''not found'', ''bad request'',
      ''invalid argument'', ''certificate'']"

definition isRetryableError :: "string option \<Rightarrow> bool" where
  "isRetryableError err =
     (case err of
        None \<Rightarrow> False
      | Some errStr \<Rightarrow>
          if list_ex (contains_str errStr) retryableErrors then True
          else if list_ex (contains_str errStr) nonRetryableErrors then False
          else True)"

section \<open>Policies\<close>

record exp_policy =
  xp_InitialDelay :: int
  xp_MaxDelay :: int
  xp_MaxAttempts :: int
  xp_BackoffFactor :: rat
  xp_Jitter :: bool

record lin_policy =
  lp_InitialDelay :: int
  lp_MaxDelay :: int
  lp_MaxAttempts :: int
  lp_Increment :: int

record fix_policy =
  fp_Delay :: int
  fp_MaxAttempts :: int

record adaptive_policy =
  ap_InitialDelay :: int
  ap_MaxDelay :: int
  ap_MaxAttempts :: int
  ap_SuccessRate :: rat
  ap_RecentAttempts :: "bool list"
  ap_windowSize :: int

datatype retry_policy =
    ExponentialBackoff exp_policy | LinearBackoff lin_policy | FixedDelay fix_policy | Adaptive adaptive_policy

definition NewExponentialBackoffRetryPolicy :: "int \<Rightarrow> int \<Rightarrow> int \<Rightarrow> exp_policy" where
  "NewExponentialBackoffRetryPolicy initialDelay maxDelay maxAttempts =
     \<lparr>xp_InitialDelay = initialDelay, xp_MaxDelay = maxDelay, xp_MaxAttempts = maxAttempts,
      xp_BackoffFactor = 2, xp_Jitter = True\<rparr>"

definition NewLinearBackoffRetryPolicy :: "int \<Rightarrow> int \<Rightarrow> int \<Rightarrow> lin_policy" where
  "NewLinearBackoffRetryPolicy initialDelay maxDelay maxAttempts =
     \<lparr>lp_InitialDelay = initialDelay, lp_MaxDelay = maxDelay, lp_MaxAttempts = maxAttempts,
      lp_Increment = initialDelay\<rparr>"

definition NewFixedDelayRetryPolicy :: "int \<Rightarrow> int \<Rightarrow> fix_policy" where
  "NewFixedDelayRetryPolicy delay maxAttempts = \<lparr>fp_Delay = delay, fp_MaxAttempts = maxAttempts\<rparr>"

definition NewAdaptiveRetryPolicy :: "int \<Rightarrow> int \<Rightarrow> int \<Rightarrow> adaptive_policy" where
  "NewAdaptiveRetryPolicy initialDelay maxDelay maxAttempts =
     \<lparr>ap_InitialDelay = initialDelay, ap_MaxDelay = maxDelay, ap_MaxAttempts = maxAttempts,
      ap_SuccessRate = 1 / 2, ap_RecentAttempts = [], ap_windowSize = 100\<rparr>"

definition ExponentialBackoffRetryPolicy_ShouldRetry :: "exp_policy \<Rightarrow> int \<Rightarrow> string option \<Rightarrow> bool" where
  "ExponentialBackoffRetryPolicy_ShouldRetry p attempt err =
     (if attempt \<ge> xp_MaxAttempts p then False else if \<not> isRetryableError err then False else True)"

definition LinearBackoffRetryPolicy_ShouldRetry :: "lin_policy \<Rightarrow> int \<Rightarrow> string option \<Rightarrow> bool" where
  "LinearBackoffRetryPolicy_ShouldRetry p attempt err =
     (if attempt \<ge> lp_MaxAttempts p then False else isRetryableError err)"

definition FixedDelayRetryPolicy_ShouldRetry :: "fix_policy \<Rightarrow> int \<Rightarrow> string option \<Rightarrow> bool" where
  "FixedDelayRetryPolicy_ShouldRetry p attempt err =
     (if attempt \<ge> fp_MaxAttempts p then False else isRetryableError err)"

definition AdaptiveRetryPolicy_ShouldRetry :: "adaptive_policy \<Rightarrow> int \<Rightarrow> string option \<Rightarrow> bool" where
  "AdaptiveRetryPolicy_ShouldRetry p attempt err =
     (if attempt \<ge> ap_MaxAttempts p then False
      else if \<not> isRetryableError err then False
      else if ap_SuccessRate p < fl (1 / 10) \<and> attempt > 2 then False
      else True)"

fun ShouldRetry :: "retry_policy \<Rightarrow> int \<Rightarrow> string option \<Rightarrow> bool" where
  "ShouldRetry (ExponentialBackoff p) attempt err = ExponentialBackoffRetryPolicy_ShouldRetry p attempt err"
| "ShouldRetry (LinearBackoff p) attempt err = LinearBackoffRetryPolicy_ShouldRetry p attempt err"
| "ShouldRetry (FixedDelay p) attempt err = FixedDelayRetryPolicy_ShouldRetry p attempt err"
| "ShouldRetry (Adaptive p) attempt err = AdaptiveRetryPolicy_ShouldRetry p attempt err"

fun MaxAttempts :: "retry_policy \<Rightarrow> int" where
  "MaxAttempts (ExponentialBackoff p) = xp_MaxAttempts p"
| "MaxAttempts (LinearBackoff p) = lp_MaxAttempts p"
| "MaxAttempts (FixedDelay p) = fp_MaxAttempts p"
| "MaxAttempts (Adaptive p) = ap_MaxAttempts p"

definition ExponentialBackoffRetryPolicy_GetDelay ::
    "(rat \<Rightarrow> rat \<Rightarrow> rat) \<Rightarrow> (rat \<Rightarrow> int) \<Rightarrow> rat \<Rightarrow> exp_policy \<Rightarrow> int \<Rightarrow> int" where
  "ExponentialBackoffRetryPolicy_GetDelay pow oor rnd p attempt =
     (let delay = to_int64 oor (fmul (float64 (xp_InitialDelay p)) (pow (xp_BackoffFactor p) (float64 (attempt - 1))));
          delay = (if delay > xp_MaxDelay p then xp_MaxDelay p else delay)
      in if xp_Jitter p then
           add64 delay (to_int64 oor (fmul (fmul (float64 delay) (fl (1 / 10))) (fsub (fmul 2 rnd) 1)))
         else delay)"

definition LinearBackoffRetryPolicy_GetDelay :: "lin_policy \<Rightarrow> int \<Rightarrow> int" where
  "LinearBackoffRetryPolicy_GetDelay p attempt =
     (let delay = add64 (lp_InitialDelay p) (wrap64 ((attempt - 1) * lp_Increment p)) in
      if delay > lp_MaxDelay p then lp_MaxDelay p else delay)"

definition FixedDelayRetryPolicy_GetDelay :: "fix_policy \<Rightarrow> int \<Rightarrow> int" where
  "FixedDelayRetryPolicy_GetDelay p attempt = fp_Delay p"

definition AdaptiveRetryPolicy_GetDelay ::
    "(rat \<Rightarrow> rat \<Rightarrow> rat) \<Rightarrow> (rat \<Rightarrow> int) \<Rightarrow> adaptive_policy \<Rightarrow> int \<Rightarrow> int" where
  "AdaptiveRetryPolicy_GetDelay pow oor p attempt =
     (let successRate = ap_SuccessRate p;
          baseDelay = to_int64 oor (fmul (float64 (ap_InitialDelay p)) (pow 2 (float64 (attempt - 1))));
          baseDelay = (if successRate < fl (3 / 10) then to_int64 oor (fmul (float64 baseDelay) (3 / 2))
                       else if successRate > fl (8 / 10) then to_int64 oor (fmul (float64 baseDelay) (fl (8 / 10)))
                       else baseDelay)
      in if baseDelay > ap_MaxDelay p then ap_MaxDelay p else baseDelay)"

fun GetDelay :: "(rat \<Rightarrow> rat \<Rightarrow> rat) \<Rightarrow> (rat \<Rightarrow> int) \<Rightarrow> rat \<Rightarrow> retry_policy \<Rightarrow> int \<Rightarrow> int" where
  "GetDelay pow oor rnd (ExponentialBackoff p) attempt = ExponentialBackoffRetryPolicy_GetDelay pow oor rnd p attempt"
| "GetDelay pow oor rnd (LinearBackoff p) attempt = LinearBackoffRetryPolicy_GetDelay p attempt"
| "GetDelay pow oor rnd (FixedDelay p) attempt = FixedDelayRetryPolicy_GetDelay p attempt"
| "GetDelay pow oor rnd (Adaptive p) attempt = AdaptiveRetryPolicy_GetDelay pow oor p attempt"

definition AdaptiveRetryPolicy_UpdateSuccessRate :: "adaptive_policy \<Rightarrow> bool \<Rightarrow> adaptive_policy" where
  "AdaptiveRetryPolicy_UpdateSuccessRate p success =
     (let recent = ap_RecentAttempts p @ [success];
          recent = (if int (length recent) > ap_windowSize p then tl recent else recent);
          successCount = length (filter id recent)
      in p\<lparr>ap_RecentAttempts := recent,
           ap_SuccessRate := fdiv (float64 (int successCount)) (float64 (int (length recent)))\<rparr>)"

fun update_policy :: "retry_policy \<Rightarrow> bool \<Rightarrow> retry_policy" where
  "update_policy (Adaptive p) success = Adaptive (AdaptiveRetryPolicy_UpdateSuccessRate p success)"
| "update_policy p success = p"

record recovery_strategy =
  rs_MaxAttempts :: int
  rs_InitialDelay :: int
  rs_MaxDelay :: int
  rs_BackoffFactor :: rat
  rs_Jitter :: bool
  rs_CircuitBreaker :: bool
  rs_TimeoutDuration :: int

definition DefaultRecoveryStrategy :: recovery_strategy where
  "DefaultRecoveryStrategy =
     \<lparr>rs_MaxAttempts = 5, rs_InitialDelay = 10 ^ 9, rs_MaxDelay = 60 * 10 ^ 9, rs_BackoffFactor = 2,
      rs_Jitter = True, rs_CircuitBreaker = True, rs_TimeoutDuration = 30 * 10 ^ 9\<rparr>"

definition CreateRetryPolicy :: "string \<Rightarrow> recovery_strategy \<Rightarrow> retry_policy" where
  "CreateRetryPolicy strategyType config =
     (if strategyType = ''exponential'' then
        ExponentialBackoff (NewExponentialBackoffRetryPolicy (rs_InitialDelay config) (rs_MaxDelay config) (rs_MaxAttempts config))
      else if strategyType = ''linear'' then
        LinearBackoff (NewLinearBackoffRetryPolicy (rs_InitialDelay config) (rs_MaxDelay config) (rs_MaxAttempts config))
      else if strategyType = ''fixed'' then
        FixedDelay (NewFixedDelayRetryPolicy (rs_InitialDelay config) (rs_MaxAttempts config))
      else if strategyType = ''adaptive'' then
        Adaptive (NewAdaptiveRetryPolicy (rs_InitialDelay config) (rs_MaxDelay config) (rs_MaxAttempts config))
      else
        ExponentialBackoff (NewExponentialBackoffRetryPolicy (rs_InitialDelay config) (rs_MaxDelay config) (rs_MaxAttempts config)))"

section \<open>The retrier\<close>

record retrier =
  re_policy :: retry_policy
  re_TotalAttempts :: int
  re_SuccessfulRetries :: int
  re_FailedRetries :: int
  re_TotalDelay :: int

definition NewRetrier :: "retry_policy \<Rightarrow> retrier" where
  "NewRetrier policy =
     \<lparr>re_policy = policy, re_TotalAttempts = 0, re_SuccessfulRetries = 0, re_FailedRetries = 0, re_TotalDelay = 0\<rparr>"

record retry_env =
  ry_pow :: "rat \<Rightarrow> rat \<Rightarrow> rat"
  ry_oor :: "rat \<Rightarrow> int"
  ry_rnd :: "nat \<Rightarrow> rat"
  ry_outcome :: "nat \<Rightarrow> string option"
  ry_canceled :: "nat \<Rightarrow> bool"

datatype retry_result = RetryOK | RetryCanceled | RetryFailed string

lemma ShouldRetry_less: "ShouldRetry p attempt err \<Longrightarrow> attempt < MaxAttempts p"
  by (cases p) (auto simp: ExponentialBackoffRetryPolicy_ShouldRetry_def LinearBackoffRetryPolicy_ShouldRetry_def
      FixedDelayRetryPolicy_ShouldRetry_def AdaptiveRetryPolicy_ShouldRetry_def split: if_splits)

text \<open>
  The loop from attempt \<open>n\<close> on. Besides the result and the retrier it returns the calls of the callback, one
  per attempt, so that the attempts can be read off.
\<close>

function ExecuteWithCallback_loop ::
    "retry_env \<Rightarrow> nat \<Rightarrow> retrier \<Rightarrow> retry_result \<times> (nat \<times> string option) list \<times> retrier" where
  "ExecuteWithCallback_loop env n r =
     (let r = r\<lparr>re_TotalAttempts := add64 (re_TotalAttempts r) 1\<rparr> in
      case ry_outcome env n of
        None \<Rightarrow>
          (RetryOK, [(n, None)],
           r\<lparr>re_SuccessfulRetries := add64 (re_SuccessfulRetries r) 1, re_policy := update_policy (re_policy r) True\<rparr>)
      | Some err \<Rightarrow>
          if \<not> ShouldRetry (re_policy r) (int n) (Some err) then
            (RetryFailed err, [(n, Some err)],
             r\<lparr>re_FailedRetries := add64 (re_FailedRetries r) 1, re_policy := update_policy (re_policy r) False\<rparr>)
          else let delay = GetDelay (ry_pow env) (ry_oor env) (ry_rnd env n) (re_policy r) (int n);
                   r = r\<lparr>re_TotalDelay := add64 (re_TotalDelay r) (delay sdiv 10 ^ 6)\<rparr>
               in if ry_canceled env n then (RetryCanceled, [(n, Some err)], r)
                  else case ExecuteWithCallback_loop env (Suc n) r of
                    (res, calls, r) \<Rightarrow> (res, (n, Some err) # calls, r))"
  by pat_completeness auto
termination
  by (relation "measure (\<lambda>(env, n, r). nat (MaxAttempts (re_policy r) - int n))")
     (auto dest: ShouldRetry_less)

declare ExecuteWithCallback_loop.simps [simp del]

definition Retrier_ExecuteWithCallback ::
    "retry_env \<Rightarrow> retrier \<Rightarrow> retry_result \<times> (nat \<times> string option) list \<times> retrier" where
  "Retrier_ExecuteWithCallback env r = ExecuteWithCallback_loop env 1 r"

definition Retrier_Execute :: "retry_env \<Rightarrow> retrier \<Rightarrow> retry_result \<times> retrier" where
  "Retrier_Execute env r = (case Retrier_ExecuteWithCallback env r of (res, calls, r) \<Rightarrow> (res, r))"

section \<open>The budget\<close>

record retry_budget =
  bu_maxRetries :: int
  bu_currentRetries :: int
  bu_windowSize :: int
  bu_resetTime :: int

definition NewRetryBudget :: "int \<Rightarrow> int \<Rightarrow> int \<Rightarrow> retry_budget" where
  "NewRetryBudget maxRetries windowSize now =
     \<lparr>bu_maxRetries = maxRetries, bu_currentRetries = 0, bu_windowSize = windowSize,
      bu_resetTime = (now + windowSize) div 10 ^ 9\<rparr>"

definition RetryBudget_CanRetry :: "int \<Rightarrow> retry_budget \<Rightarrow> bool \<times> retry_budget" where
  "RetryBudget_CanRetry now rb =
     (let rb = (if now > bu_resetTime rb * 10 ^ 9 then
                  rb\<lparr>bu_currentRetries := 0, bu_resetTime := (now + bu_windowSize rb) div 10 ^ 9\<rparr>
                else rb)
      in (bu_currentRetries rb < bu_maxRetries rb, rb))"

definition RetryBudget_ConsumeRetry :: "int \<Rightarrow> retry_budget \<Rightarrow> bool \<times> retry_budget" where
  "RetryBudget_ConsumeRetry now rb =
     (case RetryBudget_CanRetry now rb of
        (False, rb) \<Rightarrow> (False, rb)
      | (True, rb) \<Rightarrow> (True, rb\<lparr>bu_currentRetries := add32 (bu_currentRetries rb) 1\<rparr>))"

section \<open>The loop\<close>

text \<open>What a finished run says about the attempts it made, from attempt \<open>n\<close> on.\<close>

definition retry_trace :: "retry_env \<Rightarrow> retry_policy \<Rightarrow> nat \<Rightarrow> retry_result \<Rightarrow> (nat \<times> string option) list \<Rightarrow> bool" where
  "retry_trace env p n res calls \<longleftrightarrow>
     calls \<noteq> [] \<and>
     (\<forall>k < length calls. calls ! k = (n + k, ry_outcome env (n + k))) \<and>
     (\<forall>k < length calls - 1. ShouldRetry p (int (n + k)) (ry_outcome env (n + k)) \<and> \<not> ry_canceled env (n + k)) \<and>
     (let m = n + length calls - 1 in
      case res of
        RetryOK \<Rightarrow> ry_outcome env m = None
      | RetryFailed e \<Rightarrow> ry_outcome env m = Some e \<and> \<not> ShouldRetry p (int m) (Some e)
      | RetryCanceled \<Rightarrow> (\<exists>e. ry_outcome env m = Some e \<and> ShouldRetry p (int m) (Some e)) \<and> ry_canceled env m)"

lemma retry_trace_single:
  "retry_trace env p n res [(n, ry_outcome env n)] =
     (case res of
        RetryOK \<Rightarrow> ry_outcome env n = None
      | RetryFailed e \<Rightarrow> ry_outcome env n = Some e \<and> \<not> ShouldRetry p (int n) (Some e)
      | RetryCanceled \<Rightarrow> (\<exists>e. ry_outcome env n = Some e \<and> ShouldRetry p (int n) (Some e)) \<and> ry_canceled env n)"
  by (simp add: retry_trace_def split: retry_result.splits)

lemma retry_trace_Cons:
  assumes "retry_trace env p (Suc n) res calls" and "ry_outcome env n = Some e"
    and "ShouldRetry p (int n) (Some e)" and "\<not> ry_canceled env n"
  shows "retry_trace env p n res ((n, Some e) # calls)"
proof -
  have "((n, Some e) # calls) ! k = (n + k, ry_outcome env (n + k))" if "k < Suc (length calls)" for k
    using that assms(1,2) by (cases k) (auto simp: retry_trace_def)
  moreover have "ShouldRetry p (int (n + k)) (ry_outcome env (n + k)) \<and> \<not> ry_canceled env (n + k)"
    if "k < length calls" for k
  proof (cases k)
    case (Suc j)
    with that have "j < length calls - 1" by simp
    with assms(1) Suc show ?thesis unfolding retry_trace_def by (metis add_Suc_shift)
  qed (use assms in simp)
  moreover have "n + length ((n, Some e) # calls) - 1 = Suc n + length calls - 1" by simp
  ultimately show ?thesis using assms(1) unfolding retry_trace_def by simp
qed

lemma loop_trace:
  assumes "ExecuteWithCallback_loop env n r = (res, calls, r')"
  shows "retry_trace env (re_policy r) n res calls"
  using assms
proof (induction env n r arbitrary: res calls r' rule: ExecuteWithCallback_loop.induct)
  case (1 env n r)
  show ?case
  proof (cases "ry_outcome env n")
    case None
    with "1.prems" show ?thesis
      by (subst (asm) ExecuteWithCallback_loop.simps) (auto simp: Let_def retry_trace_single [of env _ n, unfolded None])
  next
    case (Some e)
    note single = retry_trace_single [of env "re_policy r" n, unfolded Some]
    consider (stop) "\<not> ShouldRetry (re_policy r) (int n) (Some e)"
      | (cancel) "ShouldRetry (re_policy r) (int n) (Some e)" "ry_canceled env n"
      | (again) "ShouldRetry (re_policy r) (int n) (Some e)" "\<not> ry_canceled env n" by blast
    then show ?thesis
    proof cases
      case stop
      with Some "1.prems" show ?thesis
        by (subst (asm) ExecuteWithCallback_loop.simps) (auto simp: Let_def single)
    next
      case cancel
      with Some "1.prems" show ?thesis
        by (subst (asm) ExecuteWithCallback_loop.simps) (auto simp: Let_def single)
    next
      case again
      define r1 where "r1 = r\<lparr>re_TotalAttempts := add64 (re_TotalAttempts r) 1,
          re_TotalDelay := add64 (re_TotalDelay r)
            (GetDelay (ry_pow env) (ry_oor env) (ry_rnd env n) (re_policy r) (int n) sdiv 10 ^ 6)\<rparr>"
      obtain res1 calls1 r2 where l: "ExecuteWithCallback_loop env (Suc n) r1 = (res1, calls1, r2)"
        by (cases "ExecuteWithCallback_loop env (Suc n) r1") auto
      have eq: "res = res1" "calls = (n, Some e) # calls1"
        using "1.prems" Some again l
        by (subst (asm) ExecuteWithCallback_loop.simps, simp add: Let_def r1_def)+
      have "retry_trace env (re_policy r) (Suc n) res1 calls1"
        using "1.IH" [OF refl Some _ refl refl, of res1 calls1 r2] again l by (simp add: r1_def)
      from retry_trace_Cons [OF this Some again] show ?thesis by (simp add: eq)
    qed
  qed
qed

text \<open>
  C15: the retrier terminates and does what it says. For every policy, outcome of the attempts and cancellation,
  it runs the operation at most \<open>MaxAttempts\<close> times (once if that is not positive), attempt by attempt
  from 1, reporting each to the callback; every attempt but the last failed with an error the policy
  retries. It returns success exactly when the last attempt succeeded, the last error when the policy
  stops, and cancellation when the context ended during the wait.
\<close>

theorem retrier_attempts:
  assumes "Retrier_ExecuteWithCallback env r = (res, calls, r')"
  shows "retry_trace env (re_policy r) 1 res calls \<and> int (length calls) \<le> max 1 (MaxAttempts (re_policy r))"
proof -
  have t: "retry_trace env (re_policy r) 1 res calls"
    using loop_trace assms by (simp add: Retrier_ExecuteWithCallback_def)
  moreover have "int (length calls) \<le> max 1 (MaxAttempts (re_policy r))"
  proof (cases "length calls \<le> 1")
    case False
    then have "length calls - 2 < length calls - 1" by simp
    with t have "ShouldRetry (re_policy r) (int (1 + (length calls - 2))) (ry_outcome env (1 + (length calls - 2)))"
      unfolding retry_trace_def by blast
    from ShouldRetry_less [OF this] False show ?thesis by simp
  qed simp
  ultimately show ?thesis ..
qed

definition demo_env :: retry_env where
  "demo_env = \<lparr>ry_pow = (\<lambda>a b. a), ry_oor = (\<lambda>_. 0), ry_rnd = (\<lambda>_. 0), ry_outcome = (\<lambda>_. Some ''timeout''),
     ry_canceled = (\<lambda>_. False)\<rparr>"

theorem retrier_attempts_witness:
  "\<exists>res calls r'. Retrier_ExecuteWithCallback demo_env (NewRetrier (FixedDelay (NewFixedDelayRetryPolicy 5 3))) =
     (res, calls, r') \<and> int (length calls) \<le> 3"
proof -
  let ?r = "NewRetrier (FixedDelay (NewFixedDelayRetryPolicy 5 3))"
  obtain res calls r' where e: "Retrier_ExecuteWithCallback demo_env ?r = (res, calls, r')"
    by (cases "Retrier_ExecuteWithCallback demo_env ?r") auto
  from retrier_attempts [OF e] e show ?thesis
    by (simp add: NewRetrier_def NewFixedDelayRetryPolicy_def)
qed

section \<open>The substring test\<close>

lemma contains_iff_sublist: "contains_str s t \<longleftrightarrow> sublist t s"
proof
  assume "contains_str s t"
  then consider "s = t" | "take (length t) s = t" | "drop (length s - length t) s = t" | "findSubstring s t"
    by (auto simp: contains_str_def)
  then show "sublist t s"
  proof cases
    case 2
    then show ?thesis by (metis sublist_take)
  next
    case 3
    then show ?thesis by (metis sublist_drop)
  next
    case 4
    then obtain i where "take (length t) (drop i s) = t" by (auto simp: findSubstring_def list_ex_iff simp del: upt_Suc)
    then show ?thesis by (metis sublist_drop sublist_order.order_trans sublist_take)
  qed simp
next
  assume "sublist t s"
  then obtain u v where s: "s = u @ t @ v" by (auto simp: sublist_def)
  have "findSubstring s t"
    unfolding findSubstring_def list_ex_iff using s by (intro conjI bexI [of _ "length u"]) auto
  then show "contains_str s t" using s by (auto simp: contains_str_def)
qed

text \<open>
  Which errors are retried. The hand-written substring search is exactly the substring relation, so an error
  is retried if its text contains one of the retryable phrases, not retried if it contains none of
  these but one of the final phrases, and retried otherwise. The search is case-sensitive: \<open>Timeout\<close> does
  not contain \<open>timeout\<close>, and \<open>Permission denied\<close> is retried.
\<close>

theorem retryable_classification:
  "isRetryableError (Some e) =
     (if \<exists>p. p \<in> set retryableErrors \<and> sublist p e then True
      else if \<exists>p. p \<in> set nonRetryableErrors \<and> sublist p e then False else True) \<and>
   contains_str e p = sublist p e \<and>
   \<not> contains_str ''Timeout'' ''timeout'' \<and> isRetryableError (Some ''Permission denied'') \<and>
   \<not> isRetryableError (Some ''permission denied'')"
proof -
  have "\<not> contains_str ''Timeout'' ''timeout''" "isRetryableError (Some ''Permission denied'')"
    "\<not> isRetryableError (Some ''permission denied'')"
    by code_simp+
  moreover have "isRetryableError (Some e) =
     (if \<exists>p. p \<in> set retryableErrors \<and> sublist p e then True
      else if \<exists>p. p \<in> set nonRetryableErrors \<and> sublist p e then False else True)"
    by (auto simp: isRetryableError_def list_ex_iff contains_iff_sublist)
  ultimately show ?thesis by (simp add: contains_iff_sublist)
qed

section \<open>The budget\<close>

fun budget_run :: "int list \<Rightarrow> retry_budget \<Rightarrow> nat \<times> retry_budget" where
  "budget_run [] rb = (0, rb)"
| "budget_run (now # ts) rb =
     (case RetryBudget_ConsumeRetry now rb of (ok, rb) \<Rightarrow>
        case budget_run ts rb of (n, rb) \<Rightarrow> ((if ok then Suc n else n), rb))"

lemma ConsumeRetry_same_window:
  assumes "now \<le> bu_resetTime rb * 10 ^ 9" and "0 \<le> bu_currentRetries rb" and "bu_maxRetries rb < 2 ^ 31"
  shows "RetryBudget_ConsumeRetry now rb =
    (if bu_currentRetries rb < bu_maxRetries rb then (True, rb\<lparr>bu_currentRetries := bu_currentRetries rb + 1\<rparr>)
     else (False, rb))"
  using assms by (simp add: RetryBudget_ConsumeRetry_def RetryBudget_CanRetry_def)

lemma budget_same_window:
  assumes "\<forall>t \<in> set ts. t \<le> bu_resetTime rb * 10 ^ 9" and "0 \<le> bu_currentRetries rb" and "bu_maxRetries rb < 2 ^ 31"
  shows "int (fst (budget_run ts rb)) \<le> max 0 (bu_maxRetries rb - bu_currentRetries rb)"
  using assms
proof (induction ts arbitrary: rb)
  case (Cons t ts)
  note c = ConsumeRetry_same_window [of t rb]
  show ?case
  proof (cases "bu_currentRetries rb < bu_maxRetries rb")
    case True
    from Cons.IH [of "rb\<lparr>bu_currentRetries := bu_currentRetries rb + 1\<rparr>"] Cons.prems True c
    show ?thesis by (auto split: prod.splits)
  next
    case False
    from Cons.IH [of rb] Cons.prems False c show ?thesis by (auto split: prod.splits)
  qed
qed simp

lemma budget_two_windows:
  assumes "\<forall>t \<in> set ts. a \<le> t \<and> t \<le> a + bu_windowSize rb - 10 ^ 9" and "0 \<le> bu_currentRetries rb"
    and "bu_maxRetries rb < 2 ^ 31" and "0 \<le> bu_maxRetries rb"
  shows "int (fst (budget_run ts rb)) \<le> max 0 (bu_maxRetries rb - bu_currentRetries rb) + bu_maxRetries rb"
  using assms
proof (induction ts arbitrary: rb)
  case (Cons t ts)
  show ?case
  proof (cases "t > bu_resetTime rb * 10 ^ 9")
    case False
    note c = ConsumeRetry_same_window [of t rb]
    show ?thesis
    proof (cases "bu_currentRetries rb < bu_maxRetries rb")
      case True
      from Cons.IH [of "rb\<lparr>bu_currentRetries := bu_currentRetries rb + 1\<rparr>"] Cons.prems False True c
      show ?thesis by (auto split: prod.splits)
    next
      case full: False
      from Cons.IH [of rb] Cons.prems False full c show ?thesis by (auto split: prod.splits)
    qed
  next
    case True
    define rb1 where "rb1 = rb\<lparr>bu_currentRetries := 0, bu_resetTime := (t + bu_windowSize rb) div 10 ^ 9\<rparr>"
    have "(t + bu_windowSize rb) div 10 ^ 9 * 10 ^ 9 = t + bu_windowSize rb - (t + bu_windowSize rb) mod 10 ^ 9"
      by (rule minus_mod_eq_div_mult [symmetric])
    moreover have "(t + bu_windowSize rb) mod 10 ^ 9 < 10 ^ 9" by simp
    ultimately have "t + bu_windowSize rb - 10 ^ 9 < bu_resetTime rb1 * 10 ^ 9" by (simp add: rb1_def)
    moreover have "a \<le> t" using Cons.prems(1) by simp
    ultimately have in_window: "\<forall>u \<in> set (t # ts). u \<le> bu_resetTime rb1 * 10 ^ 9"
      using Cons.prems(1) by fastforce
    have "RetryBudget_ConsumeRetry t rb = RetryBudget_ConsumeRetry t rb1"
      using True in_window by (simp add: RetryBudget_ConsumeRetry_def RetryBudget_CanRetry_def rb1_def Let_def)
    then have "budget_run (t # ts) rb = budget_run (t # ts) rb1" by simp
    moreover have "int (fst (budget_run (t # ts) rb1)) \<le> max 0 (bu_maxRetries rb1 - bu_currentRetries rb1)"
      using Cons.prems(3) by (intro budget_same_window [OF in_window]) (simp_all add: rb1_def)
    ultimately show ?thesis using Cons.prems(4) by (simp add: rb1_def)
  qed
qed simp

text \<open>
  The budget's bound. In one window, the budget grants at most what is left of \<open>maxRetries\<close>. In any span of time
  one second shorter than the window, wherever it lies, it grants at most twice \<open>maxRetries\<close>, the span
  meeting at most two windows.
\<close>

theorem retry_budget_bound:
  assumes "0 \<le> bu_currentRetries rb" and "0 \<le> bu_maxRetries rb" and "bu_maxRetries rb < 2 ^ 31"
  shows "((\<forall>t \<in> set ts. t \<le> bu_resetTime rb * 10 ^ 9) \<longrightarrow>
            int (fst (budget_run ts rb)) \<le> max 0 (bu_maxRetries rb - bu_currentRetries rb)) \<and>
         ((\<forall>t \<in> set ts. a \<le> t \<and> t \<le> a + bu_windowSize rb - 10 ^ 9) \<longrightarrow>
            int (fst (budget_run ts rb)) \<le> 2 * bu_maxRetries rb)"
  using budget_same_window [of ts rb] budget_two_windows [of ts a rb] assms by auto

theorem retry_budget_bound_witness:
  "int (fst (budget_run [1, 2, 3, 4] (NewRetryBudget 2 60000000000 0))) \<le> 2"
  using retry_budget_bound [of "NewRetryBudget 2 60000000000 0" "[1, 2, 3, 4]" 0]
  by (simp add: NewRetryBudget_def)

section \<open>Overflow of the exponential delay\<close>

text \<open>
  The exponential delay overflows. On a processor that converts an out-of-range float to the smallest
  \<open>int64\<close> (as amd64 does), once the initial delay doubled \<open>attempt - 1\<close> times reaches \<open>2 ^ 64\<close>
  nanoseconds the delay is that negative number, which the cap at \<open>MaxDelay\<close> does not catch: the retrier
  then does not wait at all.
\<close>

theorem backoff_overflow:
  assumes "pow 2 (of_nat k) = 2 ^ k" and "\<forall>x. 2 ^ 63 \<le> x \<longrightarrow> oor x = - (2 ^ 63)"
    and "xp_BackoffFactor p = 2" and "\<not> xp_Jitter p" and "0 \<le> xp_MaxDelay p"
    and "0 < xp_InitialDelay p" and "xp_InitialDelay p < 2 ^ 53" and "k < 2 ^ 53"
    and "2 ^ 64 \<le> xp_InitialDelay p * 2 ^ k"
  shows "ExponentialBackoffRetryPolicy_GetDelay pow oor rnd p (int k + 1) = - (2 ^ 63)"
proof -
  let ?d = "of_int (xp_InitialDelay p) :: rat"
  have k: "fl (of_nat k) = of_nat k" using fl_int [of "int k"] assms(8) by simp
  have d: "float64 (xp_InitialDelay p) = ?d" using fl_int assms(6,7) by simp
  have "(of_int (2 ^ 64) :: rat) \<le> of_int (xp_InitialDelay p * 2 ^ k)" using assms(9) by (simp only: of_int_le_iff)
  then have big: "(2 ^ 64 :: rat) \<le> ?d * 2 ^ k" by simp
  have "(2 ^ 63 :: rat) \<le> 2 ^ 64 * (1 - 1 / 2 ^ 53)" by simp
  also have "\<dots> \<le> ?d * 2 ^ k * (1 - 1 / 2 ^ 53)" using big by (rule mult_right_mono) simp
  also have "\<dots> \<le> fl (?d * 2 ^ k)" using assms(6) by (intro fl_bounds(2)) simp
  finally have x: "2 ^ 63 \<le> fl (?d * 2 ^ k)" .
  then have "(2 ^ 63 :: int) \<le> \<lfloor>fl (?d * 2 ^ k)\<rfloor>" by (simp add: le_floor_iff)
  moreover have "0 \<le> fl (?d * 2 ^ k)" using assms(6) by (intro fl_nonneg) simp
  ultimately have "to_int64 oor (fl (?d * 2 ^ k)) = oor (fl (?d * 2 ^ k))"
    by (simp add: to_int64_def trunc_def)
  with assms(2) x have "to_int64 oor (fl (?d * 2 ^ k)) = - (2 ^ 63)" by simp
  then show ?thesis
    using assms(1,3,4,5) by (simp add: ExponentialBackoffRetryPolicy_GetDelay_def k d Let_def)
qed

theorem backoff_overflow_witness:
  "ExponentialBackoffRetryPolicy_GetDelay (\<lambda>a b. a ^ nat \<lfloor>b\<rfloor>) (\<lambda>_. - (2 ^ 63)) 0
     ((NewExponentialBackoffRetryPolicy (10 ^ 9) (30 * 10 ^ 9) 100)\<lparr>xp_Jitter := False\<rparr>) (int 35 + 1) = - (2 ^ 63)"
  by (rule backoff_overflow) (simp_all add: NewExponentialBackoffRetryPolicy_def)

end
