(* ===== verification/Rules.thy ===== *)
theory Rules
  imports Prelude "HOL-Library.Sublist"
begin

text \<open>
  The rule language of \<open>client/internal/rules/types.go\<close>: port and address ranges, the match
  predicates of a rule, and rule sets with their bubble sort. A Go string is the list of its
  bytes, so that \<open>toLower\<close>, which ranges over runes but writes them at byte positions, is
  translated with the UTF-8 decoder and encoder of the language. A \<open>net.IP\<close> is the list of its
  bytes; \<open>nil\<close> is the empty list. Times are nanoseconds, and a \<open>*time.Time\<close> an option. An
  operation that reads the clock takes the instant as an argument. \<open>Clone\<close> copies a value and is
  not an operation here, where values are never shared; the rule pointers of a rule set are its rules,
  none of them \<open>nil\<close>.
\<close>

section \<open>Rule types, actions and states\<close>

definition RuleTypeTCP :: int where "RuleTypeTCP = 0"
definition RuleTypeUDP :: int where "RuleTypeUDP = 1"
definition RuleTypeHTTP :: int where "RuleTypeHTTP = 2"
definition RuleTypeHTTPS :: int where "RuleTypeHTTPS = 3"
definition RuleTypeSOCKS5 :: int where "RuleTypeSOCKS5 = 4"
definition RuleTypeMixed :: int where "RuleTypeMixed = 5"

definition RuleType_String :: "int \<Rightarrow> string" where
  "RuleType_String rt =
     (if rt = RuleTypeTCP then ''TCP'' else if rt = RuleTypeUDP then ''UDP''
      else if rt = RuleTypeHTTP then ''HTTP'' else if rt = RuleTypeHTTPS then ''HTTPS''
      else if rt = RuleTypeSOCKS5 then ''SOCKS5'' else if rt = RuleTypeMixed then ''MIXED''
      else ''UNKNOWN'')"

definition RuleActionAllow :: int where "RuleActionAllow = 0"
definition RuleActionDeny :: int where "RuleActionDeny = 1"
definition RuleActionReject :: int where "RuleActionReject = 2"
definition RuleActionRelay :: int where "RuleActionRelay = 3"

definition RuleAction_String :: "int \<Rightarrow> string" where
  "RuleAction_String ra =
     (if ra = RuleActionAllow then ''ALLOW'' else if ra = RuleActionDeny then ''DENY''
      else if ra = RuleActionReject then ''REJECT'' else if ra = RuleActionRelay then ''RELAY''
      else ''UNKNOWN'')"

definition RuleStatusPending :: int where "RuleStatusPending = 0"
definition RuleStatusActive :: int where "RuleStatusActive = 1"
definition RuleStatusInactive :: int where "RuleStatusInactive = 2"
definition RuleStatusDeleted :: int where "RuleStatusDeleted = 3"

definition RuleStatus_String :: "int \<Rightarrow> string" where
  "RuleStatus_String rs =
     (if rs = RuleStatusPending then ''PENDING'' else if rs = RuleStatusActive then ''ACTIVE''
      else if rs = RuleStatusInactive then ''INACTIVE'' else if rs = RuleStatusDeleted then ''DELETED''
      else ''UNKNOWN'')"

section \<open>Port ranges\<close>

record port_range =
  pr_Start :: u16
  pr_End :: u16

definition PortRange_Contains :: "port_range \<Rightarrow> u16 \<Rightarrow> bool" where
  "PortRange_Contains pr port \<longleftrightarrow> port \<ge> pr_Start pr \<and> port \<le> pr_End pr"

definition PortRange_String :: "port_range \<Rightarrow> string" where
  "PortRange_String pr =
     (if pr_Start pr = pr_End pr then itoa (unat (pr_Start pr))
      else itoa (unat (pr_Start pr)) @ ''-'' @ itoa (unat (pr_End pr)))"

section \<open>Address ranges\<close>

text \<open>The part of package \<open>net\<close> that address ranges use.\<close>

type_synonym ip = "byte list"

record ipnet =
  net_IP :: ip
  net_Mask :: "byte list"

definition v4InV6Prefix :: ip where
  "v4InV6Prefix = replicate 10 0 @ [0xff, 0xff]"

definition IP_To4 :: "ip \<Rightarrow> ip option" where
  "IP_To4 ip =
     (if length ip = 4 then Some ip
      else if length ip = 16 \<and> take 12 ip = v4InV6Prefix then Some (drop 12 ip)
      else None)"

definition IP_To16 :: "ip \<Rightarrow> ip" where
  "IP_To16 ip =
     (if length ip = 4 then v4InV6Prefix @ ip
      else if length ip = 16 then ip
      else [])"

definition networkNumberAndMask :: "ipnet \<Rightarrow> ip \<times> byte list" where
  "networkNumberAndMask n =
     (let ip = (case IP_To4 (net_IP n) of Some x \<Rightarrow> x | None \<Rightarrow> net_IP n); m = net_Mask n in
      if IP_To4 (net_IP n) = None \<and> length ip \<noteq> 16 then ([], [])
      else if length m = 4 then (if length ip \<noteq> 4 then ([], []) else (ip, m))
      else if length m = 16 then (if length ip = 4 then (ip, drop 12 m) else (ip, m))
      else ([], []))"

definition IPNet_Contains :: "ipnet \<Rightarrow> ip \<Rightarrow> bool" where
  "IPNet_Contains n ip0 =
     (let (nn, m) = networkNumberAndMask n;
          ip = (case IP_To4 ip0 of Some x \<Rightarrow> x | None \<Rightarrow> ip0) in
      length ip = length nn \<and> list_all (\<lambda>i. nn ! i AND m ! i = ip ! i AND m ! i) [0..<length ip])"

text \<open>The ranges of \<open>types.go\<close>.\<close>

record ip_range =
  ipr_Network :: "ipnet option"
  ipr_Start :: "ip option"
  ipr_End :: "ip option"

fun bytesCompare_loop :: "ip \<Rightarrow> ip \<Rightarrow> int" where
  "bytesCompare_loop (x # a) (y # b) =
     (if x < y then -1 else if x > y then 1 else bytesCompare_loop a b)"
| "bytesCompare_loop _ _ = 0"

definition bytesCompare :: "ip \<Rightarrow> ip \<Rightarrow> int" where
  "bytesCompare a b = bytesCompare_loop (IP_To16 a) (IP_To16 b)"

definition IPRange_Contains :: "ip_range \<Rightarrow> ip \<Rightarrow> bool" where
  "IPRange_Contains ir ip =
     (case ipr_Network ir of
        Some n \<Rightarrow> IPNet_Contains n ip
      | None \<Rightarrow>
          (case (ipr_Start ir, ipr_End ir) of
             (Some s, Some e) \<Rightarrow> bytesCompare ip s \<ge> 0 \<and> bytesCompare ip e \<le> 0
           | _ \<Rightarrow> False))"

section \<open>Strings\<close>

text \<open>
  Go's decoding of the first rune of a string, with its width in bytes; a byte that starts no
  well-formed sequence is the replacement rune with width 1.
\<close>

definition RuneError :: nat where "RuneError = 0xFFFD"

definition in_bytes :: "nat \<Rightarrow> nat \<Rightarrow> nat \<Rightarrow> bool" where
  "in_bytes lo hi b \<longleftrightarrow> lo \<le> b \<and> b \<le> hi"

definition decode2 :: "nat \<Rightarrow> nat list \<Rightarrow> nat \<times> nat" where
  "decode2 b0 rest =
     (case rest of
        b1 # _ \<Rightarrow> if in_bytes 0x80 0xBF b1 then ((b0 - 0xC0) * 64 + (b1 - 0x80), 2) else (RuneError, 1)
      | [] \<Rightarrow> (RuneError, 1))"

definition decode3 :: "nat \<Rightarrow> nat list \<Rightarrow> nat \<times> nat" where
  "decode3 b0 rest =
     (case rest of
        b1 # b2 # _ \<Rightarrow>
          if in_bytes (if b0 = 0xE0 then 0xA0 else 0x80) (if b0 = 0xED then 0x9F else 0xBF) b1
             \<and> in_bytes 0x80 0xBF b2
          then ((b0 - 0xE0) * 4096 + (b1 - 0x80) * 64 + (b2 - 0x80), 3) else (RuneError, 1)
      | _ \<Rightarrow> (RuneError, 1))"

definition decode4 :: "nat \<Rightarrow> nat list \<Rightarrow> nat \<times> nat" where
  "decode4 b0 rest =
     (case rest of
        b1 # b2 # b3 # _ \<Rightarrow>
          if in_bytes (if b0 = 0xF0 then 0x90 else 0x80) (if b0 = 0xF4 then 0x8F else 0xBF) b1
             \<and> in_bytes 0x80 0xBF b2 \<and> in_bytes 0x80 0xBF b3
          then ((b0 - 0xF0) * 262144 + (b1 - 0x80) * 4096 + (b2 - 0x80) * 64 + (b3 - 0x80), 4)
          else (RuneError, 1)
      | _ \<Rightarrow> (RuneError, 1))"

definition decode_rune :: "nat \<Rightarrow> nat list \<Rightarrow> nat \<times> nat" where
  "decode_rune b0 rest =
     (if b0 < 0x80 then (b0, 1)
      else if in_bytes 0xC2 0xDF b0 then decode2 b0 rest
      else if in_bytes 0xE0 0xEF b0 then decode3 b0 rest
      else if in_bytes 0xF0 0xF4 b0 then decode4 b0 rest
      else (RuneError, 1))"

text \<open>Go's encoding of a rune, as in the conversion of a rune slice to a string.\<close>

definition encode_rune :: "nat \<Rightarrow> nat list" where
  "encode_rune r0 =
     (let r = (if r0 > 0x10FFFF \<or> in_bytes 0xD800 0xDFFF r0 then RuneError else r0) in
      if r < 0x80 then [r]
      else if r < 0x800 then [0xC0 + r div 64, 0x80 + r mod 64]
      else if r < 0x10000 then [0xE0 + r div 4096, 0x80 + (r div 64) mod 64, 0x80 + r mod 64]
      else [0xF0 + r div 262144, 0x80 + (r div 4096) mod 64, 0x80 + (r div 64) mod 64, 0x80 + r mod 64])"

definition lower_rune :: "nat \<Rightarrow> nat" where
  "lower_rune r = (if r \<ge> 65 \<and> r \<le> 90 then r + 32 else r)"

text \<open>
  The loop of \<open>toLower\<close>: at byte position \<open>i\<close> of the string, with the rest of its bytes and the
  rune slice, which has one element per byte.
\<close>

function toLower_loop :: "nat \<Rightarrow> nat list \<Rightarrow> nat list \<Rightarrow> nat list" where
  "toLower_loop i [] result = result"
| "toLower_loop i (b0 # rest) result =
     (let (r, w) = decode_rune b0 rest in
      toLower_loop (i + w) (drop (w - 1) rest) (result[i := lower_rune r]))"
  by pat_completeness auto
termination
  by (relation "measure (\<lambda>(i, s, result). length s)") auto

definition toLower :: "string \<Rightarrow> string" where
  "toLower s =
     map char_of (concat (map encode_rune
       (toLower_loop 0 (map of_char s) (replicate (length s) 0))))"

text \<open>
  \<open>indexOf\<close> compares the substrings from the left; \<open>None\<close> stands for the result \<open>-1\<close>. The
  argument \<open>n\<close> is the number of places left, \<open>len(s)-len(substr)+1\<close> at the start and none when the
  bound is negative.
\<close>

fun indexOf_loop :: "nat \<Rightarrow> nat \<Rightarrow> string \<Rightarrow> string \<Rightarrow> nat option" where
  "indexOf_loop 0 i s substr = None"
| "indexOf_loop (Suc n) i s substr =
     (if take (length substr) (drop i s) = substr then Some i else indexOf_loop n (Suc i) s substr)"

definition indexOf :: "string \<Rightarrow> string \<Rightarrow> nat option" where
  "indexOf s substr = indexOf_loop (length s + 1 - length substr) 0 s substr"

definition rules_contains :: "string \<Rightarrow> string \<Rightarrow> bool" where
  "rules_contains s substr \<longleftrightarrow> length s \<ge> length substr \<and> indexOf s substr \<noteq> None"

definition containsIgnoreCase :: "string \<Rightarrow> string \<Rightarrow> bool" where
  "containsIgnoreCase s substr = rules_contains (toLower s) (toLower substr)"

definition matchDomain :: "string \<Rightarrow> string \<Rightarrow> bool" where
  "matchDomain domain pattern =
     (if pattern = ''*'' then True
      else if pattern = domain then True
      else if length pattern > 2 \<and> take 2 pattern = ''*.'' then
        (let suffix = drop 1 pattern in
         length domain \<ge> length suffix \<and> drop (length domain - length suffix) domain = suffix)
      else False)"

section \<open>Rules\<close>

record traffic_limit =
  tl_BytesPerSecond :: int
  tl_ConnectionsLimit :: int
  tl_RequestsPerMin :: int
  tl_BurstSize :: int
  tl_Enabled :: bool

definition TrafficLimit_IsEmpty :: "traffic_limit \<Rightarrow> bool" where
  "TrafficLimit_IsEmpty lim \<longleftrightarrow>
     tl_BytesPerSecond lim = 0 \<and> tl_ConnectionsLimit lim = 0 \<and> tl_RequestsPerMin lim = 0"

text \<open>The values of the metadata map are opaque to the code; they stand here as their JSON text.\<close>

record rule =
  r_ID :: string
  r_Name :: string
  r_Description :: string
  r_Type :: int
  r_SourceIPs :: "ip_range list"
  r_TargetIPs :: "ip_range list"
  r_SourcePorts :: "port_range list"
  r_TargetPorts :: "port_range list"
  r_Domains :: "string list"
  r_Keywords :: "string list"
  r_Action :: int
  r_TargetAddr :: string
  r_TrafficLimit :: traffic_limit
  r_ValidFrom :: "int option"
  r_ValidUntil :: "int option"
  r_Status :: int
  r_Priority :: int
  r_CreatedAt :: int
  r_UpdatedAt :: int
  r_Version :: int
  r_HitCount :: int
  r_BytesTotal :: int
  r_LastHit :: "int option"
  r_Metadata :: "(string \<times> string) list"

definition no_limit :: traffic_limit where
  "no_limit = \<lparr> tl_BytesPerSecond = 0, tl_ConnectionsLimit = 0, tl_RequestsPerMin = 0,
                tl_BurstSize = 0, tl_Enabled = False \<rparr>"

definition NewRule :: "int \<Rightarrow> string \<Rightarrow> string \<Rightarrow> int \<Rightarrow> int \<Rightarrow> rule" where
  "NewRule now rid nm ruleType act =
     \<lparr> r_ID = rid, r_Name = nm, r_Description = [], r_Type = ruleType,
       r_SourceIPs = [], r_TargetIPs = [], r_SourcePorts = [], r_TargetPorts = [],
       r_Domains = [], r_Keywords = [], r_Action = act, r_TargetAddr = [],
       r_TrafficLimit = no_limit, r_ValidFrom = None, r_ValidUntil = None,
       r_Status = RuleStatusPending, r_Priority = 0, r_CreatedAt = now, r_UpdatedAt = now,
       r_Version = 1, r_HitCount = 0, r_BytesTotal = 0, r_LastHit = None, r_Metadata = [] \<rparr>"

definition Rule_IsValid :: "int \<Rightarrow> rule \<Rightarrow> bool" where
  "Rule_IsValid now r =
     (if r_Status r \<noteq> RuleStatusActive then False
      else if (case r_ValidFrom r of Some t \<Rightarrow> now < t | None \<Rightarrow> False) then False
      else if (case r_ValidUntil r of Some t \<Rightarrow> now > t | None \<Rightarrow> False) then False
      else True)"

definition Rule_IsExpired :: "int \<Rightarrow> rule \<Rightarrow> bool" where
  "Rule_IsExpired now r = (case r_ValidUntil r of None \<Rightarrow> False | Some t \<Rightarrow> now > t)"

definition Rule_MatchesIP :: "rule \<Rightarrow> ip \<Rightarrow> ip \<Rightarrow> bool" where
  "Rule_MatchesIP r srcIP dstIP =
     (if length (r_SourceIPs r) > 0 \<and> \<not> list_ex (\<lambda>ir. IPRange_Contains ir srcIP) (r_SourceIPs r) then False
      else if length (r_TargetIPs r) > 0 \<and> \<not> list_ex (\<lambda>ir. IPRange_Contains ir dstIP) (r_TargetIPs r) then False
      else True)"

definition Rule_MatchesPort :: "rule \<Rightarrow> u16 \<Rightarrow> u16 \<Rightarrow> bool" where
  "Rule_MatchesPort r srcPort dstPort =
     (if length (r_SourcePorts r) > 0 \<and> \<not> list_ex (\<lambda>p. PortRange_Contains p srcPort) (r_SourcePorts r) then False
      else if length (r_TargetPorts r) > 0 \<and> \<not> list_ex (\<lambda>p. PortRange_Contains p dstPort) (r_TargetPorts r) then False
      else True)"

definition Rule_MatchesDomain :: "rule \<Rightarrow> string \<Rightarrow> bool" where
  "Rule_MatchesDomain r domain =
     (if length (r_Domains r) = 0 then True else list_ex (\<lambda>d. matchDomain domain d) (r_Domains r))"

definition Rule_MatchesKeyword :: "rule \<Rightarrow> string \<Rightarrow> bool" where
  "Rule_MatchesKeyword r content =
     (if length (r_Keywords r) = 0 then True else list_ex (\<lambda>k. containsIgnoreCase content k) (r_Keywords r))"

definition Rule_IncrementHit :: "int \<Rightarrow> rule \<Rightarrow> int \<Rightarrow> rule" where
  "Rule_IncrementHit now r bytes =
     r\<lparr> r_HitCount := add64 (r_HitCount r) 1, r_BytesTotal := add64 (r_BytesTotal r) bytes,
        r_LastHit := Some now \<rparr>"

definition Rule_UpdateVersion :: "int \<Rightarrow> rule \<Rightarrow> rule" where
  "Rule_UpdateVersion now r = r\<lparr> r_Version := add64 (r_Version r) 1, r_UpdatedAt := now \<rparr>"

section \<open>Rule sets\<close>

record rule_set =
  rs_ID :: string
  rs_Name :: string
  rs_Description :: string
  rs_Rules :: "rule list"
  rs_Version :: int
  rs_CreatedAt :: int
  rs_UpdatedAt :: int

definition NewRuleSet :: "int \<Rightarrow> string \<Rightarrow> string \<Rightarrow> rule_set" where
  "NewRuleSet now sid nm =
     \<lparr> rs_ID = sid, rs_Name = nm, rs_Description = [], rs_Rules = [], rs_Version = 1,
       rs_CreatedAt = now, rs_UpdatedAt = now \<rparr>"

definition RuleSet_AddRule :: "int \<Rightarrow> rule_set \<Rightarrow> rule \<Rightarrow> rule_set" where
  "RuleSet_AddRule now rs r =
     rs\<lparr> rs_Rules := rs_Rules rs @ [r], rs_Version := add64 (rs_Version rs) 1, rs_UpdatedAt := now \<rparr>"

fun remove_rule :: "string \<Rightarrow> rule list \<Rightarrow> rule list option" where
  "remove_rule rid [] = None"
| "remove_rule rid (r # rs) =
     (if r_ID r = rid then Some rs else map_option ((#) r) (remove_rule rid rs))"

definition RuleSet_RemoveRule :: "int \<Rightarrow> rule_set \<Rightarrow> string \<Rightarrow> bool \<times> rule_set" where
  "RuleSet_RemoveRule now rs rid =
     (case remove_rule rid (rs_Rules rs) of
        Some rules \<Rightarrow>
          (True, rs\<lparr> rs_Rules := rules, rs_Version := add64 (rs_Version rs) 1, rs_UpdatedAt := now \<rparr>)
      | None \<Rightarrow> (False, rs))"

definition RuleSet_GetRule :: "rule_set \<Rightarrow> string \<Rightarrow> rule option" where
  "RuleSet_GetRule rs rid = find (\<lambda>r. r_ID r = rid) (rs_Rules rs)"

text \<open>The inner loop runs from place \<open>j\<close> for \<open>k\<close> rounds.\<close>

fun sort_inner :: "nat \<Rightarrow> nat \<Rightarrow> rule list \<Rightarrow> rule list" where
  "sort_inner j 0 rules = rules"
| "sort_inner j (Suc k) rules =
     sort_inner (Suc j) k
       (if r_Priority (rules ! j) < r_Priority (rules ! Suc j)
        then rules[j := rules ! Suc j, Suc j := rules ! j] else rules)"

definition RuleSet_SortByPriority :: "rule_set \<Rightarrow> rule_set" where
  "RuleSet_SortByPriority rs =
     (let n = length (rs_Rules rs) in
      rs\<lparr> rs_Rules := fold (\<lambda>i. sort_inner 0 (n - i - 1)) [0..<n - 1] (rs_Rules rs) \<rparr>)"

text \<open>Each rule is checked against a reading of the clock of its own.\<close>

definition RuleSet_GetActiveRules :: "(nat \<Rightarrow> int) \<Rightarrow> rule_set \<Rightarrow> rule list" where
  "RuleSet_GetActiveRules now rs =
     map snd (filter (\<lambda>(i, r). Rule_IsValid (now i) r) (enumerate 0 (rs_Rules rs)))"

end
