(* ===== verification/Rules_Props.thy ===== *)
theory Rules_Props
  imports Rules
begin

text \<open>
  What the rule language promises: the bubble sort is the stable sort by descending priority,
  domain patterns and keywords match what they should, address ranges follow the numeric order of
  addresses, and the operations of a rule set agree with lookups by ID.
\<close>

section \<open>The bubble sort\<close>

text \<open>
  One pass of the inner loop carries the element of least priority seen so far to the end of the
  part it runs over; \<open>sink\<close> says so on lists.
\<close>

fun sink :: "rule \<Rightarrow> rule list \<Rightarrow> rule list" where
  "sink a [] = [a]"
| "sink a (b # w) = (if r_Priority a < r_Priority b then b # sink a w else a # sink b w)"

lemma sort_inner_eq_sink:
  "length u = j \<Longrightarrow> length w = k \<Longrightarrow> sort_inner j k (u @ a # w @ v) = u @ sink a w @ v"
proof (induction k arbitrary: j u a w)
  case (Suc k)
  then obtain b w' where w: "w = b # w'" "length w' = k" by (cases w) auto
  define hi lo where "hi = (if r_Priority a < r_Priority b then b else a)"
    and "lo = (if r_Priority a < r_Priority b then a else b)"
  have "sort_inner j (Suc k) (u @ a # w @ v) = sort_inner (Suc j) k ((u @ [hi]) @ lo # w' @ v)"
    using Suc.prems(1) w(1) by (auto simp: hi_def lo_def nth_append list_update_append)
  also have "\<dots> = (u @ [hi]) @ sink lo w' @ v"
    using Suc.prems(1) w(2) by (intro Suc.IH) auto
  finally show ?case by (simp add: w(1) hi_def lo_def)
qed simp

lemma mset_sink [simp]: "mset (sink a w) = mset (a # w)"
  by (induction w arbitrary: a) auto

lemma set_sink [simp]: "set (sink a w) = insert a (set w)"
  by (metis list.simps(15) mset_sink set_mset_mset)

lemma sink_stable:
  "filter (\<lambda>x. c = r_Priority x) (sink a w) = filter (\<lambda>x. c = r_Priority x) (a # w)"
  by (induction w arbitrary: a) auto

lemma sink_last:
  "\<exists>s m. sink a w = s @ [m] \<and> (\<forall>x \<in> insert a (set w). r_Priority m \<le> r_Priority x)"
proof (induction w arbitrary: a)
  case (Cons b w)
  show ?case
  proof (cases "r_Priority a < r_Priority b")
    case True
    obtain s m where "sink a w = s @ [m]" "\<forall>x \<in> insert a (set w). r_Priority m \<le> r_Priority x"
      using Cons.IH by blast
    then show ?thesis using True by (intro exI [of _ "b # s"] exI [of _ m]) auto
  next
    case False
    obtain s m where "sink b w = s @ [m]" "\<forall>x \<in> insert b (set w). r_Priority m \<le> r_Priority x"
      using Cons.IH by blast
    then show ?thesis using False by (intro exI [of _ "a # s"] exI [of _ m]) auto
  qed
qed simp

text \<open>The invariant of the outer loop: the last \<open>i\<close> places are final.\<close>

definition settled :: "rule list \<Rightarrow> nat \<Rightarrow> rule list \<Rightarrow> bool" where
  "settled xs i ys \<longleftrightarrow>
     mset ys = mset xs \<and>
     (\<forall>c. filter (\<lambda>x. c = r_Priority x) ys = filter (\<lambda>x. c = r_Priority x) xs) \<and>
     sorted (map (\<lambda>x. - r_Priority x) (drop (length xs - i) ys)) \<and>
     (\<forall>x \<in> set (take (length xs - i) ys). \<forall>y \<in> set (drop (length xs - i) ys).
        r_Priority y \<le> r_Priority x)"

lemma settled_step:
  assumes s: "settled xs i ys" and i: "i < length xs"
  shows "settled xs (Suc i) (sort_inner 0 (length xs - i - 1) ys)"
proof -
  define k where "k = length xs - i - 1"
  have len: "length ys = length xs" using s by (metis settled_def mset_eq_length)
  then have ne: "take (Suc k) ys \<noteq> []" using i by auto
  then obtain a w where aw: "take (Suc k) ys = a # w" by (cases "take (Suc k) ys") auto
  define v where "v = drop (Suc k) ys"
  have ys: "ys = a # w @ v" using aw by (metis append_Cons append_take_drop_id v_def)
  have "length (take (Suc k) ys) = Suc k" using len i by (simp add: k_def)
  then have lw: "length w = k" by (simp add: aw)
  have run: "sort_inner 0 k ys = sink a w @ v"
    using sort_inner_eq_sink [of "[]" 0 w k a v] lw ys by simp
  obtain t m where t: "sink a w = t @ [m]" and m: "\<forall>x \<in> insert a (set w). r_Priority m \<le> r_Priority x"
    using sink_last by blast
  have lt: "length t = k" using arg_cong [OF t, of mset] lw
    by (metis One_nat_def Suc_eq_plus1 add_right_cancel length_append length_Cons list.size(3) mset_sink mset_eq_length)
  have n: "length xs - i = Suc k" "length xs - Suc i = k" using i by (auto simp: k_def)
  have sv: "sorted (map (\<lambda>x. - r_Priority x) v)"
    and le: "\<forall>x \<in> insert a (set w). \<forall>y \<in> set v. r_Priority y \<le> r_Priority x"
    using s ys lw n by (auto simp: settled_def)
  have sets: "insert m (set t) = insert a (set w)" using arg_cong [OF t, of set] by simp
  then have mv: "\<forall>y \<in> set v. r_Priority y \<le> r_Priority m" using le by (metis insertI1)
  have "mset (sink a w @ v) = mset xs" using s ys by (simp add: settled_def)
  moreover have "\<forall>c. filter (\<lambda>x. c = r_Priority x) (sink a w @ v) = filter (\<lambda>x. c = r_Priority x) xs"
  proof
    fix c
    have "filter (\<lambda>x. c = r_Priority x) (sink a w @ v) = filter (\<lambda>x. c = r_Priority x) (a # w) @ filter (\<lambda>x. c = r_Priority x) v"
      by (simp only: filter_append sink_stable)
    also have "\<dots> = filter (\<lambda>x. c = r_Priority x) ys" using ys by simp
    finally show "filter (\<lambda>x. c = r_Priority x) (sink a w @ v) = filter (\<lambda>x. c = r_Priority x) xs"
      using s by (simp add: settled_def)
  qed
  moreover have "sorted (map (\<lambda>x. - r_Priority x) (m # v))" using sv mv by simp
  moreover have "\<forall>x \<in> set t. \<forall>y \<in> set (m # v). r_Priority y \<le> r_Priority x"
    using m le sets by auto
  ultimately show ?thesis
    using t lt n(2) run by (simp add: settled_def k_def [symmetric])
qed

lemma settled_fold:
  "m \<le> length xs \<Longrightarrow> settled xs m (fold (\<lambda>i. sort_inner 0 (length xs - i - 1)) [0..<m] xs)"
proof (induction m)
  case 0
  then show ?case by (simp add: settled_def)
next
  case (Suc m)
  then show ?case using settled_step [of xs m] by simp
qed

lemma sort_by_priority_rules:
  "rs_Rules (RuleSet_SortByPriority rs) = sort_key (\<lambda>r. - r_Priority r) (rs_Rules rs)"
proof -
  define xs where "xs = rs_Rules rs"
  define ys where "ys = fold (\<lambda>i. sort_inner 0 (length xs - i - 1)) [0..<length xs - 1] xs"
  have s: "settled xs (length xs - 1) ys" unfolding ys_def by (rule settled_fold) simp
  then have len: "length ys = length xs" by (metis settled_def mset_eq_length)
  have "sorted (map (\<lambda>x. - r_Priority x) ys)"
  proof (cases ys)
    case (Cons y zs)
    then have "length xs - (length xs - 1) = 1" using len by (cases xs) auto
    then show ?thesis using s Cons by (simp add: settled_def)
  qed simp
  then have "sort_key (\<lambda>r. - r_Priority r) xs = ys"
    using s by (intro properties_for_sort_key) (auto simp: settled_def)
  then show ?thesis by (simp add: RuleSet_SortByPriority_def Let_def xs_def ys_def)
qed

text \<open>
  C17: \<open>SortByPriority\<close>, a bubble sort on the slice of rules, is the stable sort by descending
  priority: the result holds the same rules, a higher priority comes first, and rules of equal
  priority keep the order in which they were added. Nothing else of the rule set changes.
\<close>

theorem sort_by_priority_stable:
  "RuleSet_SortByPriority rs =
     rs\<lparr> rs_Rules := sort_key (\<lambda>r. - r_Priority r) (rs_Rules rs) \<rparr>"
  using sort_by_priority_rules [of rs] by (simp add: RuleSet_SortByPriority_def Let_def)

section \<open>Domains\<close>

lemma ends_with_iff:
  "length t \<le> length s \<and> drop (length s - length t) s = t \<longleftrightarrow> (\<exists>u. s = u @ t)"
  by (metis append_eq_conv_conj append_take_drop_id diff_le_self length_append length_drop
      le_add2 add_diff_cancel_right')

lemma wildcard_iff:
  "length p > 2 \<and> take 2 p = ''*.'' \<longleftrightarrow> (\<exists>t. t \<noteq> [] \<and> p = ''*.'' @ t)"
  by (cases p; cases "tl p") (auto simp: neq_Nil_conv)

text \<open>
  A domain matches a pattern exactly when the pattern is \<open>*\<close>, or equals the domain, or is
  \<open>*.\<close> followed by a non-empty suffix and the domain is any text, possibly none, followed by a dot
  and that suffix. So \<open>*.example.com\<close> matches \<open>a.example.com\<close> and \<open>a.b.example.com\<close> but neither
  \<open>example.com\<close> nor \<open>badexample.com\<close>. A rule without domains matches all of them, and another
  matches when one of its patterns does.
\<close>

theorem match_domain_spec:
  "(matchDomain d p \<longleftrightarrow>
      p = ''*'' \<or> p = d \<or> (\<exists>t u. t \<noteq> [] \<and> p = ''*.'' @ t \<and> d = u @ ''.'' @ t)) \<and>
   (Rule_MatchesDomain r d \<longleftrightarrow>
      r_Domains r = [] \<or> (\<exists>q. q \<in> set (r_Domains r) \<and> matchDomain d q)) \<and>
   matchDomain ''a.example.com'' ''*.example.com'' \<and>
   \<not> matchDomain ''example.com'' ''*.example.com'' \<and>
   \<not> matchDomain ''badexample.com'' ''*.example.com''"
proof -
  have "matchDomain d p \<longleftrightarrow>
    p = ''*'' \<or> p = d \<or> (\<exists>t u. t \<noteq> [] \<and> p = ''*.'' @ t \<and> d = u @ ''.'' @ t)"
  proof (cases "\<exists>t. t \<noteq> [] \<and> p = ''*.'' @ t")
    case True
    then obtain t where t: "t \<noteq> []" "p = ''*.'' @ t" by blast
    have "length (''.'' @ t) \<le> length d \<and> drop (length d - length (''.'' @ t)) d = ''.'' @ t
      \<longleftrightarrow> (\<exists>u. d = u @ ''.'' @ t)"
      by (rule ends_with_iff)
    then show ?thesis using t by (auto simp: matchDomain_def Let_def)
  next
    case False
    then show ?thesis using wildcard_iff [of p] by (auto simp: matchDomain_def)
  qed
  moreover have "Rule_MatchesDomain r d \<longleftrightarrow>
    r_Domains r = [] \<or> (\<exists>q. q \<in> set (r_Domains r) \<and> matchDomain d q)"
    by (auto simp: Rule_MatchesDomain_def list_ex_iff)
  ultimately show ?thesis by (simp add: matchDomain_def)
qed

section \<open>Keywords\<close>

lemma indexOf_loop_Some_iff:
  "indexOf_loop n i s t \<noteq> None \<longleftrightarrow> (\<exists>j. i \<le> j \<and> j < i + n \<and> take (length t) (drop j s) = t)"
proof (induction n arbitrary: i)
  case (Suc n)
  have "(\<exists>j. i \<le> j \<and> j < i + Suc n \<and> take (length t) (drop j s) = t) \<longleftrightarrow>
    take (length t) (drop i s) = t \<or> (\<exists>j. Suc i \<le> j \<and> j < Suc i + n \<and> take (length t) (drop j s) = t)"
    by (metis Suc_leD Suc_leI add_Suc add_Suc_right le_neq_implies_less le_refl less_add_Suc1)
  then show ?case using Suc.IH [of "Suc i"] by simp
qed simp

lemma rules_contains_iff_sublist: "rules_contains s t \<longleftrightarrow> sublist t s"
proof
  assume "rules_contains s t"
  then obtain j where "take (length t) (drop j s) = t"
    using indexOf_loop_Some_iff by (auto simp: rules_contains_def indexOf_def)
  then show "sublist t s"
    by (metis sublist_drop sublist_order.order_trans sublist_take)
next
  assume "sublist t s"
  then obtain u v where s: "s = u @ t @ v" by (auto simp: sublist_def)
  then have "length u < 0 + (length s + 1 - length t)" "take (length t) (drop (length u) s) = t" by auto
  then have "indexOf s t \<noteq> None"
    unfolding indexOf_def indexOf_loop_Some_iff by (intro exI [of _ "length u"]) auto
  then show "rules_contains s t" using s by (simp add: rules_contains_def)
qed

definition lower_char :: "char \<Rightarrow> char" where
  "lower_char c = char_of (lower_rune (of_char c))"

abbreviation ascii :: "string \<Rightarrow> bool" where
  "ascii s \<equiv> list_all (\<lambda>c. (of_char c :: nat) < 128) s"

lemma toLower_loop_ascii:
  "\<forall>b \<in> set bs. b < 128 \<Longrightarrow> i + length bs = length result \<Longrightarrow>
   toLower_loop i bs result = take i result @ map lower_rune bs"
proof (induction bs arbitrary: i result)
  case (Cons b bs)
  have "toLower_loop i (b # bs) result = toLower_loop (Suc i) bs (result[i := lower_rune b])"
    using Cons.prems(1) by (simp add: decode_rune_def)
  also have "\<dots> = take (Suc i) (result[i := lower_rune b]) @ map lower_rune bs"
    using Cons.prems by (intro Cons.IH) auto
  finally show ?case
    using Cons.prems(2) by (simp add: take_Suc_conv_app_nth)
qed simp

lemma encode_lower_ascii: "b < 128 \<Longrightarrow> encode_rune (lower_rune b) = [lower_rune b]"
  by (auto simp: encode_rune_def lower_rune_def in_bytes_def)

lemma toLower_ascii:
  assumes "ascii s"
  shows "toLower s = map lower_char s"
proof -
  have "toLower_loop 0 (map of_char s) (replicate (length s) 0) = map lower_rune (map of_char s)"
    using assms by (subst toLower_loop_ascii) (auto simp: list_all_iff)
  moreover have "concat (map encode_rune (map lower_rune (map of_char s))) = map lower_rune (map of_char s)"
    using assms by (induction s) (auto simp: encode_lower_ascii)
  ultimately show ?thesis by (simp add: toLower_def lower_char_def)
qed

text \<open>
  On ASCII text a keyword matches exactly when, both with their letters \<open>A\<close> to \<open>Z\<close> lowered, it is
  a contiguous part of the content; the empty keyword always does. A rule without keywords matches
  every content.
\<close>

theorem keyword_match_spec:
  assumes "ascii content" "list_all ascii (r_Keywords r)"
  shows "Rule_MatchesKeyword r content \<longleftrightarrow>
    r_Keywords r = [] \<or>
    (\<exists>k. k \<in> set (r_Keywords r) \<and> sublist (map lower_char k) (map lower_char content))"
  using assms
  by (auto simp: Rule_MatchesKeyword_def containsIgnoreCase_def toLower_ascii
      rules_contains_iff_sublist list_ex_iff list_all_iff)

theorem keyword_match_spec_witness:
  "(let r = (NewRule 0 ''r'' ''n'' RuleTypeHTTP RuleActionDeny)\<lparr> r_Keywords := [''X'', ''ADMIN''] \<rparr> in
    Rule_MatchesKeyword r ''GET /Admin'' \<and> \<not> Rule_MatchesKeyword r ''GET /'')"
proof -
  have "sublist (map lower_char ''ADMIN'') (map lower_char ''GET /Admin'')"
    "\<not> sublist (map lower_char ''ADMIN'') (map lower_char ''GET /'')"
    "\<not> sublist (map lower_char ''X'') (map lower_char ''GET /'')"
    by code_simp+
  then show ?thesis unfolding Let_def by (subst (1 2) keyword_match_spec) auto
qed

section \<open>Addresses\<close>

text \<open>The number that the bytes of an address spell, the most significant byte first.\<close>

primrec be_value :: "byte list \<Rightarrow> nat" where
  "be_value [] = 0"
| "be_value (x # xs) = unat x * 256 ^ length xs + be_value xs"

lemma be_value_less: "be_value xs < 256 ^ length xs"
proof (induction xs)
  case (Cons x xs)
  have "unat x < 2 ^ LENGTH(8)" by (rule unsigned_less)
  then have "unat x \<le> 255" by simp
  then have "unat x * 256 ^ length xs \<le> 255 * 256 ^ length xs" by (rule mult_le_mono1)
  then have "be_value (x # xs) < 255 * 256 ^ length xs + 256 ^ length xs"
    unfolding be_value.simps using Cons.IH by (rule add_le_less_mono)
  then show ?case by simp
qed simp

lemma be_value_step:
  assumes "x < y" "length a = length b"
  shows "be_value (x # a) < be_value (y # b)"
proof -
  have "Suc (unat x) \<le> unat y" using assms(1) by (simp add: word_less_nat_alt)
  then have "Suc (unat x) * 256 ^ length a \<le> unat y * 256 ^ length a" by (rule mult_le_mono1)
  then show ?thesis using be_value_less [of a] assms(2) by simp
qed

lemma bytesCompare_loop_value:
  "length a = length b \<Longrightarrow>
   (bytesCompare_loop a b \<ge> 0 \<longleftrightarrow> be_value b \<le> be_value a) \<and>
   (bytesCompare_loop a b \<le> 0 \<longleftrightarrow> be_value a \<le> be_value b)"
proof (induction a b rule: list_induct2)
  case (Cons x xs y ys)
  show ?case
  proof (cases x y rule: linorder_cases)
    case less
    then show ?thesis using be_value_step [OF less Cons.hyps] by simp
  next
    case equal
    then show ?thesis using Cons.IH Cons.hyps by simp
  next
    case greater
    then show ?thesis using be_value_step [OF greater Cons.hyps [symmetric]] by simp
  qed
qed simp

abbreviation ip_ok :: "ip \<Rightarrow> bool" where
  "ip_ok a \<equiv> length a = 4 \<or> length a = 16"

definition ip_value :: "ip \<Rightarrow> nat" where
  "ip_value a = be_value (IP_To16 a)"

lemma length_To16: "length (IP_To16 a) = (if ip_ok a then 16 else 0)"
  by (simp add: IP_To16_def v4InV6Prefix_def)

lemma bytesCompare_value:
  assumes "ip_ok a" "ip_ok b"
  shows "bytesCompare a b \<ge> 0 \<longleftrightarrow> ip_value b \<le> ip_value a"
    and "bytesCompare a b \<le> 0 \<longleftrightarrow> ip_value a \<le> ip_value b"
  using bytesCompare_loop_value [of "IP_To16 a" "IP_To16 b"] assms
  by (auto simp: bytesCompare_def ip_value_def length_To16)

lemma bytesCompare_malformed: "\<not> ip_ok a \<Longrightarrow> bytesCompare a b = 0"
  by (simp add: bytesCompare_def IP_To16_def)

lemma be_value_zeros: "be_value (replicate n 0 @ a) = be_value a"
  by (induction n) simp_all

lemma be_value_mapped: "be_value (v4InV6Prefix @ a) = 65535 * 256 ^ length a + be_value a"
  by (simp add: v4InV6Prefix_def be_value_zeros)

text \<open>
  A range given by its ends holds exactly the addresses whose number lies between those of the
  ends, an IPv4 address counting as its IPv4-mapped IPv6 form, whichever of the two lengths the
  addresses have. An address that is neither 4 nor 16 bytes long, such as the \<open>nil\<close> that
  \<open>net.ParseIP\<close> returns for malformed text, compares equal to both ends and lies in every such range.
\<close>

theorem ip_range_numeric:
  assumes "ipr_Network ir = None" "ipr_Start ir = Some s" "ipr_End ir = Some e"
    and "ip_ok s" "ip_ok e"
  shows "IPRange_Contains ir a \<longleftrightarrow> \<not> ip_ok a \<or> ip_value s \<le> ip_value a \<and> ip_value a \<le> ip_value e"
  using assms bytesCompare_value [of a] bytesCompare_malformed [of a]
  by (cases "ip_ok a") (simp_all add: IPRange_Contains_def)

theorem ip_range_numeric_witness:
  "(let ir = \<lparr> ipr_Network = None, ipr_Start = Some [10, 0, 0, 1], ipr_End = Some [10, 0, 0, 9] \<rparr> in
    IPRange_Contains ir [10, 0, 0, 5] \<and> \<not> IPRange_Contains ir [10, 0, 1, 0] \<and>
    IPRange_Contains ir [])"
  unfolding Let_def
  by (simp add: ip_range_numeric [where s = "[10, 0, 0, 1]" and e = "[10, 0, 0, 9]"] ip_value_def
      IP_To16_def be_value_mapped)

section \<open>Rule sets\<close>

lemma remove_rule_None_iff: "remove_rule rid rs = None \<longleftrightarrow> rid \<notin> r_ID ` set rs"
  by (induction rs) auto

lemma remove_rule_Some:
  "remove_rule rid rs = Some rs' \<Longrightarrow>
   \<exists>u r v. rs = u @ r # v \<and> rs' = u @ v \<and> r_ID r = rid \<and> rid \<notin> r_ID ` set u"
proof (induction rs arbitrary: rs')
  case (Cons r rs)
  show ?case
  proof (cases "r_ID r = rid")
    case True
    then show ?thesis using Cons.prems by (intro exI [of _ "[]"]) auto
  next
    case False
    then obtain ws where ws: "remove_rule rid rs = Some ws" "rs' = r # ws" using Cons.prems by auto
    then obtain u x v where "rs = u @ x # v" "ws = u @ v" "r_ID x = rid" "rid \<notin> r_ID ` set u"
      using Cons.IH by blast
    then show ?thesis using False ws(2) by (intro exI [of _ "r # u"] exI [of _ x] exI [of _ v]) auto
  qed
qed simp

end
