(* ===== verification/Rule_Manager.thy ===== *)
theory Rule_Manager
  imports Rules_Props "HOL-Library.List_Lexorder" "HOL-Library.Char_ord"
begin

text \<open>
  The rule manager of \<open>client/internal/rules/manager.go\<close>: the table of rules, its files and their
  backups, and the synchronisation with the control plane. The file system is a map from cleaned
  paths to directories and files. What the operating system decides (whether a call fails, how the
  unstable \<open>sort.Slice\<close> orders files of equal age, how a time is formatted) is a record of
  functions that every operation takes; the clock is a sequence of readings. A file
  \<open>MarshalIndent\<close> wrote holds the rule that \<open>Unmarshal\<close> reads from it. Logging is left out, and so
  are the parts of the source that are commented out (port indexing, forwarding).
\<close>

section \<open>Paths\<close>

type_synonym path = "string list"

text \<open>
  \<open>filepath.Clean\<close>: the components of a path, the empty string first when the path is rooted.
\<close>

fun split_slash :: "string \<Rightarrow> string list" where
  "split_slash [] = [[]]"
| "split_slash (c # s) =
     (if c = CHR ''/'' then [] # split_slash s
      else (case split_slash s of [] \<Rightarrow> [[c]] | x # xs \<Rightarrow> (c # x) # xs))"

definition clean_step :: "string \<Rightarrow> path \<Rightarrow> path" where
  "clean_step c acc =
     (if c = [] \<or> c = ''.'' then acc
      else if c = ''..'' then
        (if acc = [] \<or> last acc = ''..'' then acc @ [c] else if last acc = [] then acc else butlast acc)
      else acc @ [c])"

definition path_Clean :: "string \<Rightarrow> path" where
  "path_Clean s = fold clean_step (split_slash s) (if take 1 s = ''/'' then [[]] else [])"

fun join_slash :: "string list \<Rightarrow> string" where
  "join_slash [] = []"
| "join_slash [x] = x"
| "join_slash (x # xs) = x @ ''/'' @ join_slash xs"

definition filepath_Join :: "string list \<Rightarrow> path" where
  "filepath_Join elems = path_Clean (join_slash (filter (\<lambda>e. e \<noteq> []) elems))"

definition filepath_Ext :: "string \<Rightarrow> string" where
  "filepath_Ext nm =
     (let tail = takeWhile (\<lambda>c. c \<noteq> CHR ''.'') (rev nm) in
      if length tail = length nm then [] else CHR ''.'' # rev tail)"

section \<open>The file system\<close>

datatype content = JSON rule | Garbled

datatype node = Dir | File content

record entry =
  e_node :: node
  e_mtime :: int

type_synonym fs = "(path \<times> entry) list"

text \<open>A write can fail before it opens the file, or after it has truncated it.\<close>

datatype write_outcome = Wr_done | Wr_not_opened | Wr_truncated

record os_env =
  env_write :: "path \<Rightarrow> write_outcome"
  env_read :: "path \<Rightarrow> bool"
  env_readdir :: "path \<Rightarrow> bool"
  env_remove :: "path \<Rightarrow> bool"
  env_mkdir :: "path \<Rightarrow> bool"
  env_marshal :: "rule \<Rightarrow> bool"
  env_sort :: "(path \<times> entry) list \<Rightarrow> (path \<times> entry) list"
  env_format :: "int \<Rightarrow> string"

definition fs_is_dir :: "fs \<Rightarrow> path \<Rightarrow> bool" where
  "fs_is_dir fs p \<longleftrightarrow> p = [] \<or> p = [[]] \<or> map_option e_node (map_of fs p) = Some Dir"

definition fs_children :: "fs \<Rightarrow> path \<Rightarrow> (path \<times> entry) list" where
  "fs_children fs p = filter (\<lambda>(q, e). q \<noteq> [] \<and> q \<noteq> [[]] \<and> butlast q = p) fs"

definition ioutil_ReadDir :: "os_env \<Rightarrow> fs \<Rightarrow> path \<Rightarrow> (path \<times> entry) list option" where
  "ioutil_ReadDir env fs p =
     (if env_readdir env p \<and> fs_is_dir fs p then Some (sort_key (\<lambda>x. last (fst x)) (fs_children fs p))
      else None)"

definition ioutil_WriteFile :: "os_env \<Rightarrow> fs \<Rightarrow> path \<Rightarrow> content \<Rightarrow> int \<Rightarrow> bool \<times> fs" where
  "ioutil_WriteFile env fs p c t =
     (if env_write env p = Wr_not_opened \<or> \<not> fs_is_dir fs (butlast p) \<or> fs_is_dir fs p then (False, fs)
      else if env_write env p = Wr_done then (True, AList.update p \<lparr> e_node = File c, e_mtime = t \<rparr> fs)
      else (False, AList.update p \<lparr> e_node = File Garbled, e_mtime = t \<rparr> fs))"

definition os_MkdirAll :: "os_env \<Rightarrow> fs \<Rightarrow> path \<Rightarrow> int \<Rightarrow> bool \<times> fs" where
  "os_MkdirAll env fs p t =
     (let pres = map (\<lambda>n. take n p) [1..<Suc (length p)] in
      if \<not> env_mkdir env p \<or> list_ex (\<lambda>q. map_of fs q \<noteq> None \<and> \<not> fs_is_dir fs q) pres then (False, fs)
      else (True, fold (\<lambda>q fs. if fs_is_dir fs q then fs
                              else AList.update q \<lparr> e_node = Dir, e_mtime = t \<rparr> fs) pres fs))"

datatype remove_outcome = Rm_done | Rm_not_exist | Rm_failed

definition os_Remove :: "os_env \<Rightarrow> fs \<Rightarrow> path \<Rightarrow> remove_outcome \<times> fs" where
  "os_Remove env fs p =
     (case map_of fs p of
        None \<Rightarrow> (Rm_not_exist, fs)
      | Some e \<Rightarrow>
          if \<not> env_remove env p \<or> (e_node e = Dir \<and> fs_children fs p \<noteq> []) then (Rm_failed, fs)
          else (Rm_done, AList.delete p fs))"

section \<open>The manager\<close>

record rules_config =
  rc_RulesDir :: string
  rc_CacheRules :: bool
  rc_AutoReload :: bool
  rc_ReloadInterval :: int
  rc_BackupRules :: bool
  rc_MaxBackups :: int
  rc_EnableVersioning :: bool

definition DefaultRulesConfig :: rules_config where
  "DefaultRulesConfig =
     \<lparr> rc_RulesDir = ''./data/rules'', rc_CacheRules = True, rc_AutoReload = True,
       rc_ReloadInterval = 5 * 60 * 10 ^ 9, rc_BackupRules = True, rc_MaxBackups = 10,
       rc_EnableVersioning = True \<rparr>"

text \<open>\<open>rm_forwarder\<close> says whether the manager was given a forwarder.\<close>

record rule_manager =
  rm_config :: rules_config
  rm_forwarder :: bool
  rm_rules :: "(string \<times> rule) list"
  rm_rulesByPort :: "(int \<times> rule list) list"
  rm_version :: int

datatype rule_err =
    RE_mkdir
  | RE_readdir
  | RE_nil
  | RE_empty_id
  | RE_exists string
  | RE_not_found string
  | RE_marshal
  | RE_write
  | RE_remove

definition NewRuleManager ::
    "os_env \<Rightarrow> int \<Rightarrow> rules_config option \<Rightarrow> bool \<Rightarrow> fs \<Rightarrow> (rule_err + rule_manager) \<times> fs" where
  "NewRuleManager env now config fwd fs =
     (let cfg = (case config of None \<Rightarrow> DefaultRulesConfig | Some c \<Rightarrow> c);
          (ok, fs') = os_MkdirAll env fs (path_Clean (rc_RulesDir cfg)) now in
      if \<not> ok then (Inl RE_mkdir, fs')
      else (Inr \<lparr> rm_config = cfg, rm_forwarder = fwd, rm_rules = [], rm_rulesByPort = [], rm_version = 0 \<rparr>,
            fs'))"

text \<open>Both branches return \<open>nil\<close>: the forwarding of rules is commented out.\<close>

definition Rules_applyRules :: "rule_manager \<Rightarrow> rule_err option" where
  "Rules_applyRules m = (if \<not> rm_forwarder m then None else None)"

definition load_file :: "os_env \<Rightarrow> path \<times> entry \<Rightarrow> rule_manager \<Rightarrow> rule_manager" where
  "load_file env x m =
     (case e_node (snd x) of
        Dir \<Rightarrow> m
      | File c \<Rightarrow>
          if filepath_Ext (last (fst x)) \<noteq> ''.json'' then m
          else if \<not> env_read env (fst x) then m
          else (case c of
                  Garbled \<Rightarrow> m
                | JSON r \<Rightarrow>
                    m\<lparr> rm_rules := AList.update (r_ID r) r (rm_rules m),
                       rm_version := (if r_Version r > rm_version m then r_Version r else rm_version m) \<rparr>))"

definition Rules_loadRules :: "os_env \<Rightarrow> rule_manager \<Rightarrow> fs \<Rightarrow> rule_err option \<times> rule_manager" where
  "Rules_loadRules env m0 fs =
     (let m = m0\<lparr> rm_rules := [], rm_rulesByPort := [] \<rparr> in
      case ioutil_ReadDir env fs (path_Clean (rc_RulesDir (rm_config m))) of
        None \<Rightarrow> (Some RE_readdir, m)
      | Some files \<Rightarrow>
          (let m' = fold (load_file env) files m in (Rules_applyRules m', m')))"

text \<open>\<open>Start\<close> logs an error of \<open>loadRules\<close> and returns \<open>nil\<close>; the reload loop calls \<open>loadRules\<close> again.\<close>

definition Rules_Start :: "os_env \<Rightarrow> rule_manager \<Rightarrow> fs \<Rightarrow> rule_manager" where
  "Rules_Start env m fs = snd (Rules_loadRules env m fs)"

definition Rules_GetRule :: "rule_manager \<Rightarrow> string \<Rightarrow> rule option" where
  "Rules_GetRule m rid = map_of (rm_rules m) rid"

definition Rules_GetRules :: "string list \<Rightarrow> rule_manager \<Rightarrow> rule list" where
  "Rules_GetRules ord m = map (\<lambda>k. the (map_of (rm_rules m) k)) ord"

definition Rules_GetRulesByPort :: "rule_manager \<Rightarrow> int \<Rightarrow> rule list" where
  "Rules_GetRulesByPort m port = (case map_of (rm_rulesByPort m) port of None \<Rightarrow> [] | Some rules \<Rightarrow> rules)"

definition Rules_GetVersion :: "rule_manager \<Rightarrow> int" where
  "Rules_GetVersion m = rm_version m"

definition Rules_saveRule ::
    "os_env \<Rightarrow> int \<Rightarrow> rule_manager \<Rightarrow> rule \<Rightarrow> fs \<Rightarrow> rule_err option \<times> fs" where
  "Rules_saveRule env t m r fs =
     (if \<not> env_marshal env r then (Some RE_marshal, fs)
      else
        (let filePath = filepath_Join [rc_RulesDir (rm_config m), r_ID r @ ''.json''];
             (ok, fs') = ioutil_WriteFile env fs filePath (JSON r) t in
         if ok then (None, fs') else (Some RE_write, fs')))"

text \<open>The pruning of old backups: a file that cannot be removed is logged and stays.\<close>

definition prune_backups :: "os_env \<Rightarrow> int \<Rightarrow> path \<Rightarrow> fs \<Rightarrow> fs" where
  "prune_backups env maxBackups backupDir fs =
     (if maxBackups > 0 then
        (case ioutil_ReadDir env fs backupDir of
           None \<Rightarrow> fs
         | Some files \<Rightarrow>
             if int (length files) > maxBackups then
               fold (\<lambda>x fs. snd (os_Remove env fs (backupDir @ [last (fst x)])))
                 (take (length files - nat maxBackups) (env_sort env files)) fs
             else fs)
      else fs)"

definition Rules_backupRule ::
    "os_env \<Rightarrow> (nat \<Rightarrow> int) \<Rightarrow> rule_manager \<Rightarrow> rule \<Rightarrow> fs \<Rightarrow> rule_err option \<times> fs" where
  "Rules_backupRule env clk m r fs =
     (let backupDir = filepath_Join [rc_RulesDir (rm_config m), ''backups'', r_ID r];
          (ok, fs1) = os_MkdirAll env fs backupDir (clk 0) in
      if \<not> ok then (Some RE_mkdir, fs1)
      else if \<not> env_marshal env r then (Some RE_marshal, fs1)
      else
        (let backupPath = backupDir @ [''v'' @ itoa_int (r_Version r) @ ''_'' @ env_format env (clk 1) @ ''.json''];
             (ok, fs2) = ioutil_WriteFile env fs1 backupPath (JSON r) (clk 2) in
         if \<not> ok then (Some RE_write, fs2)
         else (None, prune_backups env (rc_MaxBackups (rm_config m)) backupDir fs2)))"

definition Rules_AddRule ::
    "os_env \<Rightarrow> (nat \<Rightarrow> int) \<Rightarrow> rule_manager \<Rightarrow> rule option \<Rightarrow> fs \<Rightarrow> rule_err option \<times> rule_manager \<times> fs" where
  "Rules_AddRule env clk m rule fs =
     (case rule of
        None \<Rightarrow> (Some RE_nil, m, fs)
      | Some r \<Rightarrow>
          if r_ID r = [] then (Some RE_empty_id, m, fs)
          else if map_of (rm_rules m) (r_ID r) \<noteq> None then (Some (RE_exists (r_ID r)), m, fs)
          else
            (let r1 = r\<lparr> r_CreatedAt := clk 0, r_UpdatedAt := clk 0, r_Version := add64 (rm_version m) 1 \<rparr>;
                 m1 = m\<lparr> rm_version := r_Version r1, rm_rules := AList.update (r_ID r1) r1 (rm_rules m) \<rparr>;
                 (err, fs1) = Rules_saveRule env (clk 1) m1 r1 fs in
             (err, m1, fs1)))"

definition Rules_UpdateRule ::
    "os_env \<Rightarrow> (nat \<Rightarrow> int) \<Rightarrow> rule_manager \<Rightarrow> rule option \<Rightarrow> fs \<Rightarrow> rule_err option \<times> rule_manager \<times> fs" where
  "Rules_UpdateRule env clk m rule fs =
     (case rule of
        None \<Rightarrow> (Some RE_nil, m, fs)
      | Some r \<Rightarrow>
          if r_ID r = [] then (Some RE_empty_id, m, fs)
          else
            (case map_of (rm_rules m) (r_ID r) of
               None \<Rightarrow> (Some (RE_not_found (r_ID r)), m, fs)
             | Some old \<Rightarrow>
                 (let fs1 = (if rc_BackupRules (rm_config m) then snd (Rules_backupRule env clk m old fs) else fs);
                      r1 = r\<lparr> r_CreatedAt := r_CreatedAt old, r_UpdatedAt := clk 3,
                              r_Version := add64 (r_Version old) 1 \<rparr>;
                      m1 = m\<lparr> rm_version := (if r_Version r1 > rm_version m then r_Version r1 else rm_version m),
                              rm_rules := AList.update (r_ID r1) r1 (rm_rules m) \<rparr>;
                      (err, fs2) = Rules_saveRule env (clk 4) m1 r1 fs1 in
                  (err, m1, fs2))))"

definition Rules_DeleteRule ::
    "os_env \<Rightarrow> (nat \<Rightarrow> int) \<Rightarrow> rule_manager \<Rightarrow> string \<Rightarrow> fs \<Rightarrow> rule_err option \<times> rule_manager \<times> fs" where
  "Rules_DeleteRule env clk m rid fs =
     (case map_of (rm_rules m) rid of
        None \<Rightarrow> (Some (RE_not_found rid), m, fs)
      | Some r \<Rightarrow>
          (let fs1 = (if rc_BackupRules (rm_config m) then snd (Rules_backupRule env clk m r fs) else fs);
               m1 = m\<lparr> rm_rules := AList.delete rid (rm_rules m) \<rparr>;
               filePath = filepath_Join [rc_RulesDir (rm_config m), rid @ ''.json''];
               (out, fs2) = os_Remove env fs1 filePath in
           (if out = Rm_failed then Some RE_remove else None, m1, fs2)))"

text \<open>The loop of \<open>SyncRules\<close>, whose \<open>i\<close>-th round reads the clock twice.\<close>

definition sync_rule ::
    "os_env \<Rightarrow> (nat \<Rightarrow> int) \<Rightarrow> nat \<times> rule \<Rightarrow> rule_manager \<times> fs \<Rightarrow> rule_manager \<times> fs" where
  "sync_rule env clk x s =
     (let r = (snd x)\<lparr> r_UpdatedAt := clk (2 * fst x) \<rparr>;
          m = (fst s)\<lparr> rm_rules := AList.update (r_ID r) r (rm_rules (fst s)) \<rparr> in
      (m, snd (Rules_saveRule env (clk (2 * fst x + 1)) m r (snd s))))"

definition Rules_SyncRules ::
    "os_env \<Rightarrow> (nat \<Rightarrow> int) \<Rightarrow> rule_manager \<Rightarrow> rule list \<Rightarrow> int \<Rightarrow> bool \<Rightarrow> fs \<Rightarrow>
     rule_err option \<times> rule_manager \<times> fs" where
  "Rules_SyncRules env clk m rules version fullSync fs =
     (if version \<le> rm_version m \<and> \<not> fullSync then (None, m, fs)
      else
        (let m1 = (if fullSync then m\<lparr> rm_rules := [], rm_rulesByPort := [] \<rparr> else m);
             (m2, fs2) = fold (sync_rule env clk) (enumerate 0 rules) (m1, fs);
             m3 = m2\<lparr> rm_version := version \<rparr> in
         (Rules_applyRules m3, m3, fs2)))"

end
