(* ===== verification/Rule_Manager_Props.thy ===== *)
theory Rule_Manager_Props
  imports Rule_Manager
begin

text \<open>
  What the rule manager promises: the table is keyed by the rules' own IDs, the files mirror it as
  long as the storage works, so that a restart restores it, backups stay within their bound, and a
  synchronisation installs what it is given. The abstraction of a file system is \<open>rule_files\<close>, the
  map from names to contents of the regular files in the rules directory.
\<close>

section \<open>Paths\<close>

definition name_ok :: "string \<Rightarrow> bool" where
  "name_ok s \<longleftrightarrow> CHR ''/'' \<notin> set s \<and> s \<noteq> [] \<and> s \<noteq> ''.'' \<and> s \<noteq> ''..''"

lemma split_slash_not_Nil [simp]: "split_slash s \<noteq> []"
  by (induction s) (auto split: list.splits)

lemma split_slash_append: "split_slash (a @ CHR ''/'' # b) = split_slash a @ split_slash b"
  by (induction a) (auto split: list.splits)

lemma split_slash_plain: "CHR ''/'' \<notin> set b \<Longrightarrow> split_slash b = [b]"
  by (induction b) auto

lemma path_Clean_append:
  assumes "a \<noteq> []" "name_ok b"
  shows "path_Clean (a @ ''/'' @ b) = path_Clean a @ [b]"
proof -
  have "split_slash (a @ ''/'' @ b) = split_slash a @ [b]"
    using assms(2) by (simp add: split_slash_append split_slash_plain name_ok_def)
  moreover have "take 1 (a @ ''/'' @ b) = take 1 a" using assms(1) by (cases a) auto
  ultimately show ?thesis using assms(2) by (simp add: path_Clean_def clean_step_def name_ok_def)
qed

lemma path_Clean_name: "name_ok b \<Longrightarrow> path_Clean b = [b]"
  by (cases b) (auto simp: path_Clean_def split_slash_plain name_ok_def clean_step_def)

lemma path_Clean_Nil [simp]: "path_Clean [] = []"
  by (simp add: path_Clean_def clean_step_def)

lemma Join_name: "name_ok b \<Longrightarrow> filepath_Join [a, b] = path_Clean a @ [b]"
  using path_Clean_append [of a b] path_Clean_name [of b]
  by (cases "a = []") (auto simp: filepath_Join_def name_ok_def)

lemma Join_backups:
  assumes "name_ok b"
  shows "filepath_Join [a, ''backups'', b] = path_Clean a @ [''backups'', b]"
proof (cases "a = []")
  case True
  have "path_Clean (''backups'' @ ''/'' @ b) = path_Clean ''backups'' @ [b]"
    by (rule path_Clean_append) (use assms in auto)
  moreover have "path_Clean ''backups'' = [''backups'']" by (rule path_Clean_name) (simp add: name_ok_def)
  ultimately show ?thesis using True assms by (simp add: filepath_Join_def name_ok_def)
next
  case False
  have "path_Clean ((a @ ''/'' @ ''backups'') @ ''/'' @ b) = path_Clean (a @ ''/'' @ ''backups'') @ [b]"
    by (rule path_Clean_append) (use assms in auto)
  moreover have "path_Clean (a @ ''/'' @ ''backups'') = path_Clean a @ [''backups'']"
    by (rule path_Clean_append) (use False in \<open>auto simp: name_ok_def\<close>)
  ultimately show ?thesis using False assms by (simp add: filepath_Join_def name_ok_def)
qed

lemma name_ok_json: "name_ok rid \<Longrightarrow> name_ok (rid @ ''.json'')"
  by (auto simp: name_ok_def)

lemma Ext_json [simp]: "filepath_Ext (rid @ ''.json'') = ''.json''"
  by (simp add: filepath_Ext_def)

section \<open>The files of the rules directory\<close>

abbreviation rdir :: "rule_manager \<Rightarrow> path" where
  "rdir m \<equiv> path_Clean (rc_RulesDir (rm_config m))"

definition rule_files :: "fs \<Rightarrow> path \<Rightarrow> string \<Rightarrow> content option" where
  "rule_files fs dir nm =
     (case map_of fs (dir @ [nm]) of
        None \<Rightarrow> None
      | Some e \<Rightarrow> (case e_node e of Dir \<Rightarrow> None | File c \<Rightarrow> Some c))"

definition disk_rule :: "fs \<Rightarrow> path \<Rightarrow> string \<Rightarrow> rule option" where
  "disk_rule fs dir rid =
     (case rule_files fs dir (rid @ ''.json'') of Some (JSON r) \<Rightarrow> Some r | _ \<Rightarrow> None)"

definition well_named :: "fs \<Rightarrow> path \<Rightarrow> bool" where
  "well_named fs dir \<longleftrightarrow>
     (\<forall>nm r. rule_files fs dir nm = Some (JSON r) \<longrightarrow> filepath_Ext nm = ''.json'' \<longrightarrow> nm = r_ID r @ ''.json'')"

definition store_ok :: "fs \<Rightarrow> path \<Rightarrow> bool" where
  "store_ok fs dir \<longleftrightarrow> map_ok fs \<and> fs_is_dir fs dir \<and> well_named fs dir"

text \<open>An operation that leaves the files of the rules directory alone.\<close>

definition keeps :: "path \<Rightarrow> fs \<Rightarrow> fs \<Rightarrow> bool" where
  "keeps dir fs fs' \<longleftrightarrow>
     (map_ok fs \<longrightarrow> map_ok fs') \<and> (fs_is_dir fs dir \<longrightarrow> fs_is_dir fs' dir) \<and>
     rule_files fs' dir = rule_files fs dir"

lemma keeps_refl [simp]: "keeps dir fs fs"
  by (simp add: keeps_def)

lemma keeps_trans: "keeps dir fs fs1 \<Longrightarrow> keeps dir fs1 fs2 \<Longrightarrow> keeps dir fs fs2"
  by (simp add: keeps_def)

lemma keeps_store: "keeps dir fs fs' \<Longrightarrow> store_ok fs dir \<Longrightarrow> store_ok fs' dir"
  by (simp add: keeps_def store_ok_def well_named_def)

lemma keeps_disk: "keeps dir fs fs' \<Longrightarrow> disk_rule fs' dir = disk_rule fs dir"
  by (simp add: keeps_def disk_rule_def fun_eq_iff)

lemma keeps_update_elsewhere:
  assumes "p \<noteq> dir" "butlast p \<noteq> dir"
  shows "keeps dir fs (AList.update p e fs)"
  using assms by (auto simp: keeps_def fs_is_dir_def rule_files_def fun_eq_iff)

lemma keeps_update_dir:
  assumes "map_of fs q = None" "e_node e = Dir"
  shows "keeps dir fs (AList.update q e fs)"
  using assms by (auto simp: keeps_def fs_is_dir_def rule_files_def fun_eq_iff)

lemma keeps_delete_elsewhere:
  assumes "p \<noteq> dir" "butlast p \<noteq> dir"
  shows "keeps dir fs (AList.delete p fs)"
  using assms by (auto simp: keeps_def fs_is_dir_def rule_files_def fun_eq_iff)

lemma keeps_mkdir: "keeps dir fs (snd (os_MkdirAll env fs p t))"
proof -
  have *: "list_all (\<lambda>q. map_of fs q \<noteq> None \<longrightarrow> fs_is_dir fs q) qs \<Longrightarrow>
    keeps dir fs (fold (\<lambda>q fs. if fs_is_dir fs q then fs
        else AList.update q \<lparr> e_node = Dir, e_mtime = t \<rparr> fs) qs fs)" for qs fs
  proof (induction qs arbitrary: fs)
    case (Cons q qs)
    define fs1 where "fs1 = (if fs_is_dir fs q then fs
      else AList.update q \<lparr> e_node = Dir, e_mtime = t \<rparr> fs)"
    have "keeps dir fs fs1"
      using Cons.prems by (auto simp: fs1_def intro!: keeps_update_dir)
    moreover have "list_all (\<lambda>q. map_of fs1 q \<noteq> None \<longrightarrow> fs_is_dir fs1 q) qs"
      using Cons.prems by (auto simp: fs1_def list_all_iff fs_is_dir_def)
    ultimately have "keeps dir fs (fold (\<lambda>q fs. if fs_is_dir fs q then fs
        else AList.update q \<lparr> e_node = Dir, e_mtime = t \<rparr> fs) qs fs1)"
      by (rule keeps_trans [OF _ Cons.IH])
    then show ?case by (simp add: fs1_def)
  qed simp
  have "\<not> list_ex (\<lambda>q. map_of fs q \<noteq> None \<and> \<not> fs_is_dir fs q) qs \<Longrightarrow>
    list_all (\<lambda>q. map_of fs q \<noteq> None \<longrightarrow> fs_is_dir fs q) qs" for qs
    by (auto simp: list_all_iff list_ex_iff)
  then show ?thesis using * by (simp add: os_MkdirAll_def Let_def)
qed

lemma keeps_write_elsewhere:
  "p \<noteq> dir \<Longrightarrow> butlast p \<noteq> dir \<Longrightarrow> keeps dir fs (snd (ioutil_WriteFile env fs p c t))"
  by (simp add: ioutil_WriteFile_def keeps_update_elsewhere)

lemma keeps_remove_elsewhere:
  "p \<noteq> dir \<Longrightarrow> butlast p \<noteq> dir \<Longrightarrow> keeps dir fs (snd (os_Remove env fs p))"
  by (simp add: os_Remove_def keeps_delete_elsewhere split: option.splits)

lemma keeps_fold:
  "(\<And>x fs. keeps dir fs (f x fs)) \<Longrightarrow> keeps dir fs (fold f xs fs)"
  by (induction xs arbitrary: fs) (auto intro: keeps_trans)

lemma keeps_prune:
  assumes "length dir < length bdir"
  shows "keeps dir fs (prune_backups env k bdir fs)"
proof -
  have "bdir @ [x] \<noteq> dir" "bdir \<noteq> dir" for x using assms by auto
  then show ?thesis
    by (auto simp: prune_backups_def keeps_remove_elsewhere intro!: keeps_fold split: option.splits)
qed

lemma keeps_backup:
  assumes "name_ok (r_ID r)"
  shows "keeps (rdir m) fs (snd (Rules_backupRule env clk m r fs))"
proof -
  define bdir where "bdir = rdir m @ [''backups'', r_ID r]"
  define fs1 where "fs1 = snd (os_MkdirAll env fs bdir (clk 0))"
  define p where "p = bdir @ [''v'' @ itoa_int (r_Version r) @ ''_'' @ env_format env (clk 1) @ ''.json'']"
  define fs2 where "fs2 = snd (ioutil_WriteFile env fs1 p (JSON r) (clk 2))"
  have 1: "keeps (rdir m) fs fs1" by (simp add: fs1_def keeps_mkdir)
  have 2: "keeps (rdir m) fs1 fs2" by (auto simp: fs2_def p_def bdir_def butlast_append intro!: keeps_write_elsewhere)
  have 3: "keeps (rdir m) fs2 (prune_backups env k bdir fs2)" for k
    by (rule keeps_prune) (simp add: bdir_def)
  have "snd (Rules_backupRule env clk m r fs) \<in> {fs1, fs2, prune_backups env (rc_MaxBackups (rm_config m)) bdir fs2}"
    using Join_backups [OF assms, of "rc_RulesDir (rm_config m)"]
    by (simp add: Rules_backupRule_def fs1_def fs2_def p_def bdir_def Let_def split: prod.splits)
  then show ?thesis using 1 2 3 by (auto intro: keeps_trans)
qed

section \<open>Saving\<close>

lemma disk_rule_update:
  "rule_files fs' dir = (rule_files fs dir)(rid @ ''.json'' \<mapsto> JSON r) \<Longrightarrow>
   disk_rule fs' dir = (disk_rule fs dir)(rid \<mapsto> r)"
  by (simp add: disk_rule_def fun_eq_iff)

lemma rule_files_write:
  "rule_files (AList.update (dir @ [nm]) \<lparr> e_node = File c, e_mtime = t \<rparr> fs) dir = (rule_files fs dir)(nm \<mapsto> c)"
  by (simp add: rule_files_def fun_eq_iff)

lemma is_dir_write:
  "fs_is_dir fs dir \<Longrightarrow> fs_is_dir (AList.update (dir @ [nm]) e fs) dir"
  by (simp add: fs_is_dir_def)

text \<open>The three outcomes of saving a rule with a proper name.\<close>

lemma save_cases:
  assumes "name_ok (r_ID r)" "Rules_saveRule env t m r fs = (err, fs')"
  obtains "err \<noteq> None" "fs' = fs"
    | "err \<noteq> None" "fs' = AList.update (rdir m @ [r_ID r @ ''.json'']) \<lparr> e_node = File Garbled, e_mtime = t \<rparr> fs"
    | "err = None" "fs' = AList.update (rdir m @ [r_ID r @ ''.json'']) \<lparr> e_node = File (JSON r), e_mtime = t \<rparr> fs"
  using assms Join_name [OF name_ok_json [OF assms(1)], of "rc_RulesDir (rm_config m)"]
  by (auto simp: Rules_saveRule_def ioutil_WriteFile_def Let_def split: if_splits)

lemma save_store:
  assumes "name_ok (r_ID r)" "Rules_saveRule env t m r fs = (err, fs')" "store_ok fs (rdir m)"
  shows "store_ok fs' (rdir m)"
  using assms(1,2)
proof (cases rule: save_cases)
  case 1
  then show ?thesis using assms(3) by simp
next
  case 2
  then show ?thesis using assms(3)
    by (simp add: store_ok_def is_dir_write well_named_def rule_files_write)
next
  case 3
  then show ?thesis using assms(3)
    by (simp add: store_ok_def is_dir_write well_named_def rule_files_write)
qed

lemma save_disk:
  assumes "name_ok (r_ID r)" "Rules_saveRule env t m r fs = (None, fs')"
  shows "disk_rule fs' (rdir m) = (disk_rule fs (rdir m))(r_ID r \<mapsto> r)"
  using assms
proof (cases rule: save_cases)
  case 3
  then show ?thesis by (simp add: disk_rule_update rule_files_write)
qed auto

lemma save_other_files:
  assumes "name_ok (r_ID r)" "Rules_saveRule env t m r fs = (err, fs')" "rid \<noteq> r_ID r"
  shows "disk_rule fs' (rdir m) rid = disk_rule fs (rdir m) rid"
  using assms(1,2)
  by (cases rule: save_cases) (use assms(3) in \<open>simp_all add: disk_rule_def rule_files_write\<close>)

section \<open>Loading\<close>

definition loaded :: "os_env \<Rightarrow> path \<times> entry \<Rightarrow> rule option" where
  "loaded env x =
     (case e_node (snd x) of
        File (JSON r) \<Rightarrow> if filepath_Ext (last (fst x)) = ''.json'' \<and> env_read env (fst x) then Some r else None
      | _ \<Rightarrow> None)"

lemma loaded_iff:
  "loaded env x = Some r \<longleftrightarrow>
     e_node (snd x) = File (JSON r) \<and> filepath_Ext (last (fst x)) = ''.json'' \<and> env_read env (fst x)"
  by (auto simp: loaded_def split: node.splits content.splits)

lemma load_file_eq:
  "load_file env x m =
     (case loaded env x of
        None \<Rightarrow> m
      | Some r \<Rightarrow> m\<lparr> rm_rules := AList.update (r_ID r) r (rm_rules m),
                       rm_version := (if r_Version r > rm_version m then r_Version r else rm_version m) \<rparr>)"
  by (auto simp: load_file_def loaded_def split: node.splits content.splits)

lemma load_fold:
  "rm_rules (fold (load_file env) xs m) =
     fold (\<lambda>r. AList.update (r_ID r) r) (List.map_filter (loaded env) xs) (rm_rules m)"
  "rm_rulesByPort (fold (load_file env) xs m) = rm_rulesByPort m"
  "rm_config (fold (load_file env) xs m) = rm_config m"
  by (induction xs arbitrary: m) (auto simp: load_file_eq List.map_filter_simps split: option.splits)

lemma set_map_filter: "set (List.map_filter f xs) = {y. \<exists>x \<in> set xs. f x = Some y}"
  by (auto simp: List.map_filter_def image_iff) force

lemma json_child_iff:
  assumes "map_ok fs" "store_ok fs dir"
  shows "(\<exists>x \<in> set (fs_children fs dir). e_node (snd x) = File (JSON r) \<and>
            filepath_Ext (last (fst x)) = ''.json'') \<longleftrightarrow>
         disk_rule fs dir (r_ID r) = Some r"
proof
  assume "\<exists>x \<in> set (fs_children fs dir). e_node (snd x) = File (JSON r) \<and>
    filepath_Ext (last (fst x)) = ''.json''"
  then obtain q e where q: "(q, e) \<in> set fs" "q \<noteq> []" "butlast q = dir" "e_node e = File (JSON r)"
    "filepath_Ext (last q) = ''.json''"
    by (auto simp: fs_children_def)
  then have "map_of fs (dir @ [last q]) = Some e" using assms(1) by (metis append_butlast_last_id map_of_eq_Some_iff)
  then have f: "rule_files fs dir (last q) = Some (JSON r)" using q(4) by (simp add: rule_files_def)
  then have "last q = r_ID r @ ''.json''" using assms(2) q(5) by (simp add: store_ok_def well_named_def)
  then show "disk_rule fs dir (r_ID r) = Some r" using f by (simp add: disk_rule_def)
next
  assume "disk_rule fs dir (r_ID r) = Some r"
  then obtain e where e: "map_of fs (dir @ [r_ID r @ ''.json'']) = Some e" "e_node e = File (JSON r)"
    by (auto simp: disk_rule_def rule_files_def split: option.splits content.splits node.splits)
  then have "(dir @ [r_ID r @ ''.json''], e) \<in> set (fs_children fs dir)"
    by (auto simp: fs_children_def dest: map_of_SomeD)
  then show "\<exists>x \<in> set (fs_children fs dir). e_node (snd x) = File (JSON r) \<and>
    filepath_Ext (last (fst x)) = ''.json''"
    using e(2) by (intro bexI [of _ "(dir @ [r_ID r @ ''.json''], e)"]) auto
qed

text \<open>With the rules directory readable, loading installs exactly the rules of its files.\<close>

lemma load_spec:
  assumes "store_ok fs (rdir m)" "env_readdir env (rdir m)" "\<And>p. env_read env p"
  shows "map_of (rm_rules (Rules_Start env m fs)) = disk_rule fs (rdir m)"
proof
  fix rid
  define files where "files = sort_key (\<lambda>x. last (fst x)) (fs_children fs (rdir m))"
  define rs where "rs = List.map_filter (loaded env) files"
  have ok: "map_ok fs" using assms(1) by (simp add: store_ok_def)
  have "fs_is_dir fs (rdir m)" using assms(1) by (simp add: store_ok_def)
  then have run: "rm_rules (Rules_Start env m fs) = fold (\<lambda>r. AList.update (r_ID r) r) rs []"
    using assms(2) by (simp add: Rules_Start_def Rules_loadRules_def ioutil_ReadDir_def files_def rs_def load_fold Let_def)
  have in_rs: "r \<in> set rs \<longleftrightarrow> disk_rule fs (rdir m) (r_ID r) = Some r" for r
  proof -
    have "r \<in> set rs \<longleftrightarrow> (\<exists>x \<in> set (fs_children fs (rdir m)).
        e_node (snd x) = File (JSON r) \<and> filepath_Ext (last (fst x)) = ''.json'')"
      using assms(3) by (simp add: rs_def files_def set_map_filter loaded_iff)
    then show ?thesis using json_child_iff [OF ok assms(1)] by blast
  qed
  have key: "r = r'" if "r \<in> set rs" "r' \<in> set rs" "r_ID r = r_ID r'" for r r'
    using that by (simp add: in_rs)
  have named: "disk_rule fs (rdir m) rid = Some r \<Longrightarrow> r_ID r = rid" for r
    using assms(1) by (fastforce simp: store_ok_def well_named_def disk_rule_def split: option.splits content.splits)
  have "map_of (rm_rules (Rules_Start env m fs)) rid = Some r \<longleftrightarrow> disk_rule fs (rdir m) rid = Some r" for r
    unfolding run map_of_fold_update using map_of_rev_keyed [of rs r_ID rid r] key in_rs named by auto
  then show "map_of (rm_rules (Rules_Start env m fs)) rid = disk_rule fs (rdir m) rid"
    by (metis not_Some_eq)
qed

section \<open>The files mirror the table\<close>

definition mirrors :: "rule_manager \<Rightarrow> fs \<Rightarrow> bool" where
  "mirrors m fs \<longleftrightarrow>
     store_ok fs (rdir m) \<and> map_of (rm_rules m) = disk_rule fs (rdir m) \<and>
     (\<forall>rid \<in> dom (map_of (rm_rules m)). name_ok rid)"

definition storage_err :: "rule_err option \<Rightarrow> bool" where
  "storage_err e \<longleftrightarrow> e \<in> {Some RE_marshal, Some RE_write, Some RE_remove}"

lemma saved_or_storage_err: "Rules_saveRule env t m r fs = (err, fs') \<Longrightarrow> \<not> storage_err err \<Longrightarrow> err = None"
  by (auto simp: Rules_saveRule_def storage_err_def Let_def split: if_splits prod.splits)

lemma mirrors_save:
  assumes "mirrors m fs0" "keeps (rdir m) fs0 fs" "name_ok (r_ID r)"
    and "rm_config m' = rm_config m" "rm_rules m' = AList.update (r_ID r) r (rm_rules m)"
    and "Rules_saveRule env t m' r fs = (None, fs')"
  shows "mirrors m' fs'"
proof -
  have "store_ok fs (rdir m')" "disk_rule fs (rdir m') = map_of (rm_rules m)"
    using assms(1,2,4) keeps_store keeps_disk by (auto simp: mirrors_def)
  then show ?thesis
    using save_store [OF assms(3,6)] save_disk [OF assms(3,6)] assms(1,3,5)
    by (auto simp: mirrors_def)
qed

lemma mirrors_add:
  assumes "mirrors m fs" "name_ok (r_ID r)"
    and "Rules_AddRule env clk m (Some r) fs = (err, m', fs')" "\<not> storage_err err"
  shows "mirrors m' fs'"
proof (cases "map_of (rm_rules m) (r_ID r)")
  case None
  have "r_ID r \<noteq> []" using assms(2) by (simp add: name_ok_def)
  then obtain t r1 where "Rules_saveRule env t m' r1 fs = (err, fs')" "rm_config m' = rm_config m"
    "rm_rules m' = AList.update (r_ID r1) r1 (rm_rules m)" "r_ID r1 = r_ID r"
    using assms(3) None by (auto simp: Rules_AddRule_def Let_def split: prod.splits)
  then show ?thesis using mirrors_save [OF assms(1) keeps_refl] saved_or_storage_err assms(2,4) by metis
next
  case (Some old)
  then show ?thesis using assms by (auto simp: Rules_AddRule_def name_ok_def)
qed

lemma mirrors_update:
  assumes "mirrors m fs" "Rules_UpdateRule env clk m rule fs = (err, m', fs')" "\<not> storage_err err"
  shows "mirrors m' fs'"
proof (cases "(m', fs') = (m, fs)")
  case False
  then obtain r old where r: "rule = Some r" "r_ID r \<noteq> []" "map_of (rm_rules m) (r_ID r) = Some old"
    using assms(2) by (auto simp: Rules_UpdateRule_def split: option.splits if_splits)
  define fs1 where "fs1 = (if rc_BackupRules (rm_config m) then snd (Rules_backupRule env clk m old fs) else fs)"
  obtain t r1 where s: "Rules_saveRule env t m' r1 fs1 = (err, fs')" "rm_config m' = rm_config m"
    "rm_rules m' = AList.update (r_ID r1) r1 (rm_rules m)" "r_ID r1 = r_ID r"
    using assms(2) r by (auto simp: Rules_UpdateRule_def fs1_def Let_def split: prod.splits)
  have ok: "name_ok (r_ID r)" using assms(1) r(3) by (auto simp: mirrors_def)
  have "well_named fs (rdir m)" "disk_rule fs (rdir m) (r_ID r) = Some old"
    using assms(1) r(3) by (auto simp: mirrors_def store_ok_def)
  then have "r_ID old = r_ID r"
    by (fastforce simp: well_named_def disk_rule_def split: option.splits content.splits)
  then have "keeps (rdir m) fs fs1" using ok keeps_backup by (simp add: fs1_def)
  then show ?thesis using mirrors_save [OF assms(1)] s ok saved_or_storage_err assms(3) by metis
qed (use assms(1) in simp)

lemma rule_files_delete:
  "rule_files (AList.delete (dir @ [nm]) fs) dir = (rule_files fs dir)(nm := None)"
  by (simp add: rule_files_def fun_eq_iff)

lemma is_dir_delete:
  "fs_is_dir fs dir \<Longrightarrow> fs_is_dir (AList.delete (dir @ [nm]) fs) dir"
  by (simp add: fs_is_dir_def)

lemma remove_cases:
  assumes "os_Remove env fs p = (out, fs')"
  obtains "out = Rm_failed" "fs' = fs" | "out = Rm_not_exist" "fs' = fs" "map_of fs p = None"
    | "out = Rm_done" "fs' = AList.delete p fs"
  using assms by (auto simp: os_Remove_def split: option.splits if_splits)

lemma remove_store:
  assumes "store_ok fs dir" "os_Remove env fs (dir @ [nm]) = (out, fs')"
  shows "store_ok fs' dir"
  using assms(2)
proof (cases rule: remove_cases)
  case 3
  then show ?thesis using assms(1)
    by (simp add: store_ok_def is_dir_delete well_named_def rule_files_delete)
qed (use assms(1) in simp_all)

lemma remove_disk:
  assumes "os_Remove env fs (dir @ [rid @ ''.json'']) = (out, fs')" "out \<noteq> Rm_failed"
  shows "disk_rule fs' dir = (disk_rule fs dir)(rid := None)"
  using assms(1)
proof (cases rule: remove_cases)
  case 2
  then have "disk_rule fs dir rid = None" by (simp add: disk_rule_def rule_files_def)
  then show ?thesis using 2 by auto
next
  case 3
  then show ?thesis by (simp add: disk_rule_def rule_files_delete fun_eq_iff)
qed (use assms(2) in simp)

lemma mirrors_delete:
  assumes "mirrors m fs" "Rules_DeleteRule env clk m rid fs = (err, m', fs')" "\<not> storage_err err"
  shows "mirrors m' fs'"
proof (cases "map_of (rm_rules m) rid")
  case (Some r)
  define fs1 where "fs1 = (if rc_BackupRules (rm_config m) then snd (Rules_backupRule env clk m r fs) else fs)"
  have ok: "name_ok rid" using assms(1) Some by (auto simp: mirrors_def)
  have "well_named fs (rdir m)" "disk_rule fs (rdir m) rid = Some r"
    using assms(1) Some by (auto simp: mirrors_def store_ok_def)
  then have "r_ID r = rid"
    by (fastforce simp: well_named_def disk_rule_def split: option.splits content.splits)
  then have k: "keeps (rdir m) fs fs1" using ok keeps_backup by (simp add: fs1_def)
  obtain out where out: "os_Remove env fs1 (rdir m @ [rid @ ''.json'']) = (out, fs')"
    "m' = m\<lparr> rm_rules := AList.delete rid (rm_rules m) \<rparr>" "err = (if out = Rm_failed then Some RE_remove else None)"
    using assms(2) Some Join_name [OF name_ok_json [OF ok], of "rc_RulesDir (rm_config m)"]
    by (auto simp: Rules_DeleteRule_def fs1_def Let_def split: prod.splits)
  then have "out \<noteq> Rm_failed" using assms(3) by (auto simp: storage_err_def)
  moreover have "store_ok fs1 (rdir m)" using k assms(1) keeps_store by (auto simp: mirrors_def)
  ultimately show ?thesis
    using remove_store [OF _ out(1)] remove_disk [OF out(1)] keeps_disk [OF k] out(2) assms(1) by (auto simp: mirrors_def)
next
  case None
  then show ?thesis using assms by (auto simp: Rules_DeleteRule_def)
qed

lemma mkdir_is_dir:
  assumes "os_MkdirAll env fs p t = (True, fs')"
  shows "fs_is_dir fs' p"
proof (cases "p = []")
  case True
  then show ?thesis by (simp add: fs_is_dir_def)
next
  case False
  define f where "f = (\<lambda>q fs. if fs_is_dir fs q then fs else AList.update q \<lparr> e_node = Dir, e_mtime = t \<rparr> fs)"
  have keep: "fs_is_dir fs q \<Longrightarrow> fs_is_dir (fold f qs fs) q" for q qs fs
    by (induction qs arbitrary: fs) (auto simp: f_def fs_is_dir_def)
  have "q \<in> set qs \<Longrightarrow> fs_is_dir (fold f qs fs) q" for q qs fs
  proof (induction qs arbitrary: fs)
    case (Cons a qs)
    show ?case
    proof (cases "q = a")
      case True
      then have "fs_is_dir (f a fs) q" by (auto simp: f_def fs_is_dir_def)
      then show ?thesis by (simp add: keep)
    next
      case False
      then show ?thesis using Cons by simp
    qed
  qed simp
  moreover have "p \<in> set (map (\<lambda>n. take n p) [1..<Suc (length p)])"
    using False by (auto simp: image_iff Suc_le_eq intro!: bexI [of _ "length p"] simp del: upt_Suc)
  moreover have "fs' = fold f (map (\<lambda>n. take n p) [1..<Suc (length p)]) fs"
    using assms by (auto simp: os_MkdirAll_def f_def Let_def split: if_splits)
  ultimately show ?thesis by blast
qed

lemma mirrors_new:
  assumes "map_ok fs" "NewRuleManager env now config fwd fs = (Inr m, fs')"
    and "\<And>nm. filepath_Ext nm = ''.json'' \<Longrightarrow> rule_files fs (rdir m) nm = None"
  shows "mirrors m fs'"
proof -
  have mk: "os_MkdirAll env fs (rdir m) now = (True, fs')" and e: "rm_rules m = []"
    using assms(2) by (auto simp: NewRuleManager_def Let_def split: prod.splits if_splits)
  have "keeps (rdir m) fs fs'" using keeps_mkdir [of "rdir m" fs env "rdir m" now] mk by simp
  moreover have "fs_is_dir fs' (rdir m)" using mkdir_is_dir [OF mk] .
  ultimately show ?thesis
    using assms(1,3) e by (auto simp: mirrors_def store_ok_def well_named_def keeps_def disk_rule_def fun_eq_iff)
qed

text \<open>A write of the synchronisation that the storage carries out.\<close>

definition writable :: "os_env \<Rightarrow> path \<Rightarrow> fs \<Rightarrow> rule \<Rightarrow> bool" where
  "writable env dir fs r \<longleftrightarrow>
     name_ok (r_ID r) \<and> env_write env (dir @ [r_ID r @ ''.json'']) = Wr_done \<and>
     \<not> fs_is_dir fs (dir @ [r_ID r @ ''.json''])"

lemma save_writable:
  assumes "writable env (rdir m) fs r" "env_marshal env r" "fs_is_dir fs (rdir m)"
  shows "Rules_saveRule env t m r fs =
    (None, AList.update (rdir m @ [r_ID r @ ''.json'']) \<lparr> e_node = File (JSON r), e_mtime = t \<rparr> fs)"
proof -
  have "filepath_Join [rc_RulesDir (rm_config m), r_ID r @ ''.json''] = rdir m @ [r_ID r @ ''.json'']"
    by (rule Join_name [OF name_ok_json]) (use assms(1) in \<open>simp add: writable_def\<close>)
  then show ?thesis using assms by (simp add: Rules_saveRule_def ioutil_WriteFile_def writable_def)
qed

lemma mirrors_sync_fold:
  assumes "mirrors m fs" "\<forall>r. env_marshal env r" "\<forall>x \<in> set xs. writable env (rdir m) fs (snd x)"
  shows "case fold (sync_rule env clk) xs (m, fs) of (m', fs') \<Rightarrow> mirrors m' fs'"
  using assms
proof (induction xs arbitrary: m fs)
  case (Cons x xs)
  define r where "r = (snd x)\<lparr> r_UpdatedAt := clk (2 * fst x) \<rparr>"
  define m1 where "m1 = m\<lparr> rm_rules := AList.update (r_ID r) r (rm_rules m) \<rparr>"
  define fs1 where "fs1 = snd (Rules_saveRule env (clk (2 * fst x + 1)) m1 r fs)"
  have w: "writable env (rdir m1) fs r" using Cons.prems(3) by (simp add: m1_def r_def writable_def)
  have d: "fs_is_dir fs (rdir m1)" using Cons.prems(1) by (simp add: mirrors_def store_ok_def m1_def)
  have sv: "Rules_saveRule env (clk (2 * fst x + 1)) m1 r fs = (None, fs1)"
    using save_writable [OF w] Cons.prems(2) d by (simp add: fs1_def)
  have "mirrors m1 fs1"
    by (rule mirrors_save [OF Cons.prems(1) keeps_refl _ _ _ sv])
      (use w in \<open>auto simp: m1_def writable_def\<close>)
  moreover have "\<forall>y \<in> set xs. writable env (rdir m1) fs1 (snd y)"
    using Cons.prems(3) save_writable [OF w] Cons.prems(2) d
    by (auto simp: fs1_def m1_def writable_def fs_is_dir_def)
  moreover have "fold (sync_rule env clk) (x # xs) (m, fs) = fold (sync_rule env clk) xs (m1, fs1)"
    by (simp add: sync_rule_def Let_def r_def m1_def fs1_def)
  ultimately show ?case using Cons.IH [of m1 fs1] Cons.prems(2) by simp
qed simp

lemma mirrors_sync:
  assumes "mirrors m fs" "\<forall>r. env_marshal env r" "\<forall>r \<in> set rules. writable env (rdir m) fs r"
    and "Rules_SyncRules env clk m rules v False fs = (err, m', fs')"
  shows "mirrors m' fs'"
proof (cases "v \<le> rm_version m")
  case False
  obtain m2 fs2 where f: "fold (sync_rule env clk) (enumerate 0 rules) (m, fs) = (m2, fs2)"
    by (metis surj_pair)
  have "\<forall>x \<in> set (enumerate 0 rules). snd x \<in> set rules" by (auto simp: in_set_enumerate_eq)
  then have "mirrors m2 fs2"
    using mirrors_sync_fold [OF assms(1,2), of "enumerate 0 rules" clk] assms(3) f by fastforce
  then show ?thesis using assms(4) False f by (auto simp: Rules_SyncRules_def mirrors_def Let_def)
qed (use assms in \<open>simp add: Rules_SyncRules_def\<close>)

text \<open>
  The runs of a manager that starts on an empty rules directory and whose operations do not meet a
  storage error.
\<close>

inductive rule_run :: "rule_manager \<Rightarrow> fs \<Rightarrow> bool" where
  run_new: "map_ok fs \<Longrightarrow> NewRuleManager env now config fwd fs = (Inr m, fs') \<Longrightarrow>
    (\<And>nm. filepath_Ext nm = ''.json'' \<Longrightarrow> rule_files fs (rdir m) nm = None) \<Longrightarrow> rule_run m fs'"
| run_add: "rule_run m fs \<Longrightarrow> name_ok (r_ID r) \<Longrightarrow>
    Rules_AddRule env clk m (Some r) fs = (err, m', fs') \<Longrightarrow> \<not> storage_err err \<Longrightarrow> rule_run m' fs'"
| run_update: "rule_run m fs \<Longrightarrow> Rules_UpdateRule env clk m rule fs = (err, m', fs') \<Longrightarrow>
    \<not> storage_err err \<Longrightarrow> rule_run m' fs'"
| run_delete: "rule_run m fs \<Longrightarrow> Rules_DeleteRule env clk m rid fs = (err, m', fs') \<Longrightarrow>
    \<not> storage_err err \<Longrightarrow> rule_run m' fs'"
| run_sync: "rule_run m fs \<Longrightarrow> \<forall>r. env_marshal env r \<Longrightarrow>
    \<forall>r \<in> set rules. writable env (rdir m) fs r \<Longrightarrow>
    Rules_SyncRules env clk m rules v False fs = (err, m', fs') \<Longrightarrow> rule_run m' fs'"

lemma rule_run_mirrors: "rule_run m fs \<Longrightarrow> mirrors m fs"
proof (induction rule: rule_run.induct)
  case (run_new fs env now config fwd m fs')
  show ?case by (rule mirrors_new [OF run_new(1,2)]) (rule run_new(3))
next
  case (run_add m fs r env clk err m' fs')
  show ?case by (rule mirrors_add [OF run_add.IH run_add.hyps(2-4)])
next
  case (run_update m fs env clk rule err m' fs')
  show ?case by (rule mirrors_update [OF run_update.IH run_update.hyps(2,3)])
next
  case (run_delete m fs env clk rid err m' fs')
  show ?case by (rule mirrors_delete [OF run_delete.IH run_delete.hyps(2,3)])
next
  case (run_sync m fs env rules clk v err m' fs')
  show ?case by (rule mirrors_sync [OF run_sync.IH run_sync.hyps(2-4)])
qed

text \<open>A working system and one rule, to run the manager on.\<close>

definition ok_env :: os_env where
  "ok_env = \<lparr> env_write = (\<lambda>_. Wr_done), env_read = (\<lambda>_. True), env_readdir = (\<lambda>_. True),
     env_remove = (\<lambda>_. True), env_mkdir = (\<lambda>_. True), env_marshal = (\<lambda>_. True),
     env_sort = sort_key (\<lambda>x. e_mtime (snd x)), env_format = (\<lambda>t. itoa (nat t)) \<rparr>"

definition demo_rule :: rule where
  "demo_rule = NewRule 0 ''r1'' ''web'' RuleTypeHTTP RuleActionAllow"

definition demo_start :: "rule_manager \<times> fs" where
  "demo_start = (case NewRuleManager ok_env 0 None False [] of (Inr m, fs) \<Rightarrow> (m, fs))"

definition demo_run :: "rule_manager \<times> fs" where
  "demo_run = snd (Rules_AddRule ok_env int (fst demo_start) (Some demo_rule) (snd demo_start))"

lemma demo_start_run: "rule_run (fst demo_start) (snd demo_start)"
proof -
  have "NewRuleManager ok_env 0 None False [] = (Inr (fst demo_start), snd demo_start)"
    by (simp add: demo_start_def NewRuleManager_def os_MkdirAll_def ok_env_def list_ex_iff Let_def)
  then show ?thesis by (rule run_new [rotated]) (simp_all add: rule_files_def)
qed

lemma demo_run_run: "rule_run (fst demo_run) (snd demo_run)"
proof (rule run_add [OF demo_start_run])
  show "name_ok (r_ID demo_rule)" by (simp add: demo_rule_def NewRule_def name_ok_def)
  show "Rules_AddRule ok_env int (fst demo_start) (Some demo_rule) (snd demo_start) =
      (fst (Rules_AddRule ok_env int (fst demo_start) (Some demo_rule) (snd demo_start)), fst demo_run, snd demo_run)"
    by (simp add: demo_run_def)
  show "\<not> storage_err (fst (Rules_AddRule ok_env int (fst demo_start) (Some demo_rule) (snd demo_start)))"
    by code_simp
qed



section \<open>Synchronisation\<close>

abbreviation stamped :: "(nat \<Rightarrow> int) \<Rightarrow> rule list \<Rightarrow> rule list" where
  "stamped clk rules \<equiv> map (\<lambda>(i, r). r\<lparr> r_UpdatedAt := clk (2 * i) \<rparr>) (enumerate 0 rules)"

lemma sync_rule_apply:
  "sync_rule env clk (i, r) (m, fs) =
     (let r1 = r\<lparr> r_UpdatedAt := clk (2 * i) \<rparr>; m1 = m\<lparr> rm_rules := AList.update (r_ID r1) r1 (rm_rules m) \<rparr> in
      (m1, snd (Rules_saveRule env (clk (2 * i + 1)) m1 r1 fs)))"
  by (simp add: sync_rule_def)

lemma Rules_GetRule_eq: "Rules_GetRule m = map_of (rm_rules m)"
  by (simp add: Rules_GetRule_def fun_eq_iff)

lemma sync_fold_table:
  "fold (sync_rule env clk) xs (m, fs) = (m', fs') \<Longrightarrow>
   m' = m\<lparr> rm_rules := fold (\<lambda>r. AList.update (r_ID r) r) (map (\<lambda>(i, r). r\<lparr> r_UpdatedAt := clk (2 * i) \<rparr>) xs) (rm_rules m) \<rparr>"
proof (induction xs arbitrary: m fs)
  case (Cons x xs)
  obtain i r where x: "x = (i, r)" by (cases x)
  show ?case using Cons.prems x by (auto simp: sync_rule_apply Let_def dest!: Cons.IH)
qed simp

lemma sync_fold_files:
  "fold (sync_rule env clk) xs (m, fs) = (m', fs') \<Longrightarrow> \<forall>x \<in> set xs. name_ok (r_ID (snd x)) \<and> r_ID (snd x) \<noteq> rid \<Longrightarrow>
   store_ok fs (rdir m) \<Longrightarrow> store_ok fs' (rdir m) \<and> disk_rule fs' (rdir m) rid = disk_rule fs (rdir m) rid"
proof (induction xs arbitrary: m fs)
  case (Cons x xs)
  obtain i r0 where x: "x = (i, r0)" by (cases x)
  define r where "r = r0\<lparr> r_UpdatedAt := clk (2 * i) \<rparr>"
  define m1 where "m1 = m\<lparr> rm_rules := AList.update (r_ID r) r (rm_rules m) \<rparr>"
  obtain err fs1 where sv: "Rules_saveRule env (clk (2 * i + 1)) m1 r fs = (err, fs1)" by (metis surj_pair)
  have c: "rdir m1 = rdir m" "name_ok (r_ID r)" "rid \<noteq> r_ID r"
    using Cons.prems(2) x by (auto simp: m1_def r_def)
  have "fold (sync_rule env clk) xs (m1, fs1) = (m', fs')"
    using Cons.prems(1) sv x by (simp add: sync_rule_apply Let_def r_def [symmetric] m1_def [symmetric])
  then have "store_ok fs' (rdir m1) \<and> disk_rule fs' (rdir m1) rid = disk_rule fs1 (rdir m1) rid"
    using save_store [OF c(2) sv] Cons.prems(2,3) c(1) by (intro Cons.IH) auto
  then show ?case using save_other_files [OF c(2) sv c(3)] c(1) by simp
qed simp

lemma sync_spec:
  "Rules_SyncRules env clk m rules v full fs = (err, m', fs') \<Longrightarrow> \<not> (v \<le> rm_version m \<and> \<not> full) \<Longrightarrow>
   err = None \<and>
   m' = m\<lparr> rm_rules := fold (\<lambda>r. AList.update (r_ID r) r) (stamped clk rules) (if full then [] else rm_rules m),
           rm_rulesByPort := (if full then [] else rm_rulesByPort m), rm_version := v \<rparr>"
  by (auto simp: Rules_SyncRules_def Rules_applyRules_def Let_def dest!: sync_fold_table split: prod.splits if_splits)

text \<open>
  A synchronisation from the control plane. A partial one whose version is not newer than the
  manager's changes nothing, neither table nor files. Any other one never reports an error and leaves
  the given version, and a table in which each given rule, stamped with the time of its round, stands
  under its ID, the last one winning among equal IDs; a full one keeps nothing else of the old table,
  a partial one keeps the rest.
\<close>

theorem sync_rules_spec:
  "case Rules_SyncRules env clk m rules v full fs of (err, m', fs') \<Rightarrow>
     err = None \<and>
     (if v \<le> rm_version m \<and> \<not> full then m' = m \<and> fs' = fs
      else Rules_GetVersion m' = v \<and>
           Rules_GetRule m' = (if full then Map.empty else Rules_GetRule m) ++
             map_of (rev (map (\<lambda>r. (r_ID r, r)) (stamped clk rules))))"
proof -
  obtain err m' fs' where s: "Rules_SyncRules env clk m rules v full fs = (err, m', fs')" by (metis surj_pair)
  show ?thesis
  proof (cases "v \<le> rm_version m \<and> \<not> full")
    case True
    then show ?thesis by (simp add: Rules_SyncRules_def)
  next
    case False
    then have "map_of (rm_rules m') = map_of (if full then [] else rm_rules m) ++
        map_of (rev (map (\<lambda>r. (r_ID r, r)) (stamped clk rules)))"
      using sync_spec [OF s] by (simp add: map_of_fold_update del: map_map)
    then show ?thesis
      using False sync_spec [OF s False] s by (auto simp: Rules_GetRule_eq Rules_GetVersion_def)
  qed
qed

text \<open>
  A full synchronisation does not delete files. A rule the manager held and the control plane no
  longer lists is gone from the table after it, but its file remains, and the next load, at a restart
  or by the reload loop, brings the rule back.
\<close>

theorem full_sync_resurrects:
  assumes "rule_run m fs" "Rules_GetRule m rid = Some r"
    and "\<forall>x \<in> set rules. name_ok (r_ID x) \<and> r_ID x \<noteq> rid"
    and "Rules_SyncRules env clk m rules v True fs = (err, m', fs')"
    and "env_readdir env' (path_Clean (rc_RulesDir (rm_config m)))" "\<And>p. env_read env' p"
  shows "Rules_GetRule m' rid = None \<and> Rules_GetRule (Rules_Start env' m' fs') rid = Some r"
proof -
  have mir: "mirrors m fs" using assms(1) by (rule rule_run_mirrors)
  have m': "m' = m\<lparr> rm_rules := fold (\<lambda>r. AList.update (r_ID r) r) (stamped clk rules) [],
      rm_rulesByPort := [], rm_version := v \<rparr>"
    using sync_spec [OF assms(4)] by simp
  have "rid \<notin> fst ` set (rev (map (\<lambda>r. (r_ID r, r)) (stamped clk rules)))"
    using assms(3) by (force simp: in_set_enumerate_eq)
  then have "map_of (rm_rules m') rid = None"
    unfolding m' by (simp add: map_of_fold_update map_of_eq_None_iff map_add_def del: map_map set_map)
  moreover obtain m2 where f: "fold (sync_rule env clk) (enumerate 0 rules)
      (m\<lparr> rm_rules := [], rm_rulesByPort := [] \<rparr>, fs) = (m2, fs')"
    using assms(4) by (auto simp: Rules_SyncRules_def Let_def split: prod.splits)
  have "\<forall>x \<in> set (enumerate 0 rules). name_ok (r_ID (snd x)) \<and> r_ID (snd x) \<noteq> rid"
    using assms(3) by (auto simp: in_set_enumerate_eq)
  then have "store_ok fs' (rdir m) \<and> disk_rule fs' (rdir m) rid = disk_rule fs (rdir m) rid"
    using sync_fold_files [OF f, where rid = rid] mir by (simp add: mirrors_def)
  then have "map_of (rm_rules (Rules_Start env' m' fs')) rid = Some r"
    using load_spec [of fs' m' env'] assms(2,5,6) mir m' by (simp add: mirrors_def Rules_GetRule_def)
  ultimately show ?thesis by (simp add: Rules_GetRule_def)
qed

theorem full_sync_resurrects_witness:
  "(let (err, m', fs') = Rules_SyncRules ok_env int (fst demo_run) [] 7 True (snd demo_run) in
    Rules_GetRule m' ''r1'' = None \<and> Rules_GetRule (Rules_Start ok_env m' fs') ''r1'' \<noteq> None)"
proof -
  obtain err m' fs' where s: "Rules_SyncRules ok_env int (fst demo_run) [] 7 True (snd demo_run) = (err, m', fs')"
    by (metis surj_pair)
  have "Rules_GetRule (fst demo_run) ''r1'' \<noteq> None" by code_simp
  then obtain r where "Rules_GetRule (fst demo_run) ''r1'' = Some r" by blast
  from full_sync_resurrects [OF demo_run_run this _ s, of ok_env] show ?thesis
    using s by (simp add: ok_env_def)
qed

section \<open>The table under arbitrary operations\<close>

text \<open>All states a manager can reach, whatever the storage and the callers do.\<close>

inductive rule_reach :: "rule_manager \<Rightarrow> fs \<Rightarrow> bool" where
  reach_new: "NewRuleManager env now config fwd fs = (Inr m, fs') \<Longrightarrow> rule_reach m fs'"
| reach_disk: "rule_reach m fs \<Longrightarrow> rule_reach m fs'"
| reach_load: "rule_reach m fs \<Longrightarrow> Rules_loadRules env m fs = (err, m') \<Longrightarrow> rule_reach m' fs"
| reach_add: "rule_reach m fs \<Longrightarrow> Rules_AddRule env clk m rule fs = (err, m', fs') \<Longrightarrow> rule_reach m' fs'"
| reach_update: "rule_reach m fs \<Longrightarrow> Rules_UpdateRule env clk m rule fs = (err, m', fs') \<Longrightarrow> rule_reach m' fs'"
| reach_delete: "rule_reach m fs \<Longrightarrow> Rules_DeleteRule env clk m rid fs = (err, m', fs') \<Longrightarrow> rule_reach m' fs'"
| reach_sync: "rule_reach m fs \<Longrightarrow> Rules_SyncRules env clk m rules v full fs = (err, m', fs') \<Longrightarrow> rule_reach m' fs'"

definition table_ok :: "rule_manager \<Rightarrow> bool" where
  "table_ok m \<longleftrightarrow>
     map_ok (rm_rules m) \<and> list_all (\<lambda>(k, r). r_ID r = k) (rm_rules m) \<and> rm_rulesByPort m = []"

lemma keyed_update:
  "list_all (\<lambda>(k, r). r_ID r = k) xs \<Longrightarrow> list_all (\<lambda>(k, r). r_ID r = k) (AList.update (r_ID r) r xs)"
  by (induction xs) auto

lemma keyed_fold_update:
  "map_ok xs \<Longrightarrow> list_all (\<lambda>(k, r). r_ID r = k) xs \<Longrightarrow>
   map_ok (fold (\<lambda>r. AList.update (r_ID r) r) rs xs) \<and>
   list_all (\<lambda>(k, r). r_ID r = k) (fold (\<lambda>r. AList.update (r_ID r) r) rs xs)"
  by (induction rs arbitrary: xs) (auto simp: keyed_update)

lemma table_ok_add:
  "table_ok m \<Longrightarrow> Rules_AddRule env clk m rule fs = (err, m', fs') \<Longrightarrow> table_ok m'"
  by (auto simp: Rules_AddRule_def table_ok_def Let_def
      intro!: keyed_update [of _ "r\<lparr> r_CreatedAt := a, r_UpdatedAt := b, r_Version := c \<rparr>" for r a b c, simplified]
      split: option.splits if_splits prod.splits)

lemma table_ok_update:
  "table_ok m \<Longrightarrow> Rules_UpdateRule env clk m rule fs = (err, m', fs') \<Longrightarrow> table_ok m'"
  by (auto simp: Rules_UpdateRule_def table_ok_def Let_def
      intro!: keyed_update [of _ "r\<lparr> r_CreatedAt := a, r_UpdatedAt := b, r_Version := c \<rparr>" for r a b c, simplified]
      split: option.splits if_splits prod.splits)

lemma table_ok_delete:
  "table_ok m \<Longrightarrow> Rules_DeleteRule env clk m rid fs = (err, m', fs') \<Longrightarrow> table_ok m'"
  by (auto simp: Rules_DeleteRule_def table_ok_def Let_def list_all_iff split: option.splits prod.splits)

lemma table_ok_load: "Rules_loadRules env m fs = (err, m') \<Longrightarrow> table_ok m'"
  using keyed_fold_update [of "[] :: (string \<times> rule) list"]
  by (auto simp: Rules_loadRules_def table_ok_def Let_def load_fold split: option.splits)

lemma table_ok_sync:
  assumes "table_ok m" "Rules_SyncRules env clk m rules v full fs = (err, m', fs')"
  shows "table_ok m'"
proof (cases "v \<le> rm_version m \<and> \<not> full")
  case True
  then show ?thesis using assms by (simp add: Rules_SyncRules_def)
next
  case False
  from sync_spec [OF assms(2) this] show ?thesis
    using keyed_fold_update [of "[] :: (string \<times> rule) list"] keyed_fold_update [of "rm_rules m"] assms(1)
    by (simp add: table_ok_def)
qed

lemma rule_reach_ok: "rule_reach m fs \<Longrightarrow> table_ok m"
proof (induction rule: rule_reach.induct)
  case (reach_new env now config fwd fs m fs')
  then show ?case by (auto simp: NewRuleManager_def table_ok_def Let_def split: prod.splits if_splits)
next
  case (reach_load m fs env err m')
  then show ?case by (blast intro: table_ok_load)
next
  case (reach_add m fs env clk rule err m' fs')
  then show ?case by (blast intro: table_ok_add)
next
  case (reach_update m fs env clk rule err m' fs')
  then show ?case by (blast intro: table_ok_update)
next
  case (reach_delete m fs env clk rid err m' fs')
  then show ?case by (blast intro: table_ok_delete)
next
  case (reach_sync m fs env clk rules v full err m' fs')
  then show ?case by (blast intro: table_ok_sync)
qed

text \<open>
  In every state a manager can reach, under any storage failures and any changes made to the files
  behind its back, a rule found under an ID has that ID, and a rule listed by \<open>GetRules\<close> is one
  \<open>GetRule\<close> finds. The index by port is never filled: \<open>GetRulesByPort\<close> returns no rules for any port.
\<close>

theorem rule_table_inv:
  assumes "rule_reach m fs" "range_order (rm_rules m) ord"
  shows "(case Rules_GetRule m rid of Some r \<Rightarrow> r_ID r = rid | None \<Rightarrow> rid \<notin> set ord) \<and>
    set (Rules_GetRules ord m) = ran (Rules_GetRule m) \<and> length (Rules_GetRules ord m) = card (dom (Rules_GetRule m)) \<and>
    Rules_GetRulesByPort m port = []"
proof -
  have ok: "map_ok (rm_rules m)" "list_all (\<lambda>(k, r). r_ID r = k) (rm_rules m)" "rm_rulesByPort m = []"
    using rule_reach_ok [OF assms(1)] by (auto simp: table_ok_def)
  have ord: "distinct ord" "set ord = dom (Rules_GetRule m)"
    using assms(2) by (auto simp: range_order_def Rules_GetRule_eq dom_map_of_conv_image_fst)
  have "set (Rules_GetRules ord m) = ran (Rules_GetRule m)"
    using ord(2) by (force simp: Rules_GetRules_def Rules_GetRule_eq ran_def)
  moreover have "length (Rules_GetRules ord m) = card (dom (Rules_GetRule m))"
    using ord by (metis Rules_GetRules_def distinct_card length_map)
  moreover have "case Rules_GetRule m rid of Some r \<Rightarrow> r_ID r = rid | None \<Rightarrow> rid \<notin> set ord"
    using ok(2) ord(2) by (auto simp: Rules_GetRule_eq list_all_iff dest: map_of_SomeD split: option.splits)
  ultimately show ?thesis using ok(3) by (simp add: Rules_GetRulesByPort_def)
qed

theorem rule_table_inv_witness:
  "set (Rules_GetRules [''r1''] (fst demo_run)) = ran (Rules_GetRule (fst demo_run)) \<and>
   Rules_GetRulesByPort (fst demo_run) 80 = []"
proof -
  have "NewRuleManager ok_env 0 None False [] = (Inr (fst demo_start), snd demo_start)"
    by (simp add: demo_start_def NewRuleManager_def os_MkdirAll_def ok_env_def list_ex_iff Let_def)
  from reach_new [OF this] have "rule_reach (fst demo_run) (snd demo_run)"
    by (rule reach_add) (simp add: demo_run_def prod_eq_iff)
  moreover have "keys_of (rm_rules (fst demo_run)) = [''r1'']" by code_simp
  then have "range_order (rm_rules (fst demo_run)) [''r1'']" by (simp add: range_order_def)
  ultimately show ?thesis using rule_table_inv by blast
qed

section \<open>A rule that could not be saved\<close>

text \<open>
  When the file of a new rule cannot be written, \<open>AddRule\<close> reports the error but keeps the rule in
  the table: it is found by lookups, the version has moved on, and a second attempt to add it, with
  the storage working again, is refused because the rule exists.
\<close>

theorem add_rule_unsaved:
  assumes "Rules_AddRule env clk m (Some r) fs = (err, m', fs')" "storage_err err"
  shows "Rules_GetRule m (r_ID r) = None \<and>
    Rules_GetRule m' (r_ID r) =
      Some (r\<lparr> r_CreatedAt := clk 0, r_UpdatedAt := clk 0, r_Version := add64 (Rules_GetVersion m) 1 \<rparr>) \<and>
    Rules_GetVersion m' = add64 (Rules_GetVersion m) 1 \<and>
    Rules_AddRule env' clk' m' (Some r) fs'' = (Some (RE_exists (r_ID r)), m', fs'')"
proof -
  have "r_ID r \<noteq> []" "map_of (rm_rules m) (r_ID r) = None"
    using assms by (auto simp: Rules_AddRule_def storage_err_def split: if_splits)
  then show ?thesis
    using assms(1) by (auto simp: Rules_AddRule_def Rules_GetRule_def Rules_GetVersion_def Let_def split: prod.splits)
qed

theorem add_rule_unsaved_witness:
  "(let env = ok_env\<lparr> env_write := (\<lambda>_. Wr_not_opened) \<rparr>;
        (err, m', fs') = Rules_AddRule env int (fst demo_start) (Some demo_rule) (snd demo_start) in
    Rules_GetRule m' (r_ID demo_rule) \<noteq> None \<and>
    Rules_AddRule ok_env int m' (Some demo_rule) fs' = (Some (RE_exists (r_ID demo_rule)), m', fs'))"
proof -
  define env where "env = ok_env\<lparr> env_write := (\<lambda>_. Wr_not_opened) \<rparr>"
  obtain err m' fs' where a: "Rules_AddRule env int (fst demo_start) (Some demo_rule) (snd demo_start) = (err, m', fs')"
    by (metis surj_pair)
  have "storage_err (fst (Rules_AddRule env int (fst demo_start) (Some demo_rule) (snd demo_start)))"
    unfolding env_def by code_simp
  then have "storage_err err" using a by simp
  from add_rule_unsaved [OF a this, of ok_env int fs'] show ?thesis
    using a by (simp add: env_def [symmetric])
qed

section \<open>Backups\<close>

text \<open>What \<open>sort.Slice\<close> with the comparison of modification times promises.\<close>

definition sorts_by_age :: "os_env \<Rightarrow> bool" where
  "sorts_by_age env \<longleftrightarrow>
     (\<forall>xs. mset (env_sort env xs) = mset xs \<and> sorted (map (\<lambda>x. e_mtime (snd x)) (env_sort env xs)))"

lemma fs_children_delete:
  "fs_children (AList.delete p fs) b = filter (\<lambda>x. fst x \<noteq> p) (fs_children fs b)"
  by (induction fs) (auto simp: fs_children_def AList.delete_eq)

lemma remove_file:
  assumes "\<And>p. env_remove env p" "\<And>e. map_of fs p = Some e \<Longrightarrow> e_node e \<noteq> Dir"
  shows "snd (os_Remove env fs p) = AList.delete p fs"
  using assms(2) by (auto simp: os_Remove_def assms(1) delete_idem map_of_eq_None_iff split: option.splits)

lemma remove_files_fold:
  assumes "\<And>p. env_remove env p" "map_ok fs" "\<forall>x \<in> set xs. \<forall>e. map_of fs (fst x) = Some e \<longrightarrow> e_node e \<noteq> Dir"
  shows "fs_children (fold (\<lambda>x fs. snd (os_Remove env fs (fst x))) xs fs) b =
    filter (\<lambda>y. fst y \<notin> fst ` set xs) (fs_children fs b)"
  using assms(2,3)
proof (induction xs arbitrary: fs)
  case (Cons x xs)
  have rm: "snd (os_Remove env fs (fst x)) = AList.delete (fst x) fs"
    using Cons.prems(2) by (intro remove_file assms(1)) auto
  have "fs_children (fold (\<lambda>x fs. snd (os_Remove env fs (fst x))) xs (AList.delete (fst x) fs)) b =
      filter (\<lambda>y. fst y \<notin> fst ` set xs) (fs_children (AList.delete (fst x) fs) b)"
    using Cons.prems by (intro Cons.IH) auto
  then show ?case by (simp add: rm fs_children_delete conj_commute)
qed simp

lemma filter_out_take:
  assumes "mset ys = mset xs" "distinct (map f xs)" "n \<le> length xs"
  shows "mset (filter (\<lambda>y. f y \<notin> f ` set (take n ys)) xs) = mset (drop n ys)"
proof -
  have d: "distinct (map f ys)" using assms(1,2) by (metis mset_eq_imp_distinct_iff mset_map)
  then have "set (map f (take n ys)) \<inter> set (map f (drop n ys)) = {}"
    by (metis append_take_drop_id distinct_append map_append)
  then have "filter (\<lambda>y. f y \<notin> f ` set (take n ys)) (drop n ys) = drop n ys"
    by (intro filter_True) auto
  moreover have "filter (\<lambda>y. f y \<notin> f ` set (take n ys)) (take n ys) = []" by simp
  ultimately have "filter (\<lambda>y. f y \<notin> f ` set (take n ys)) ys = drop n ys"
    by (metis append_take_drop_id filter_append self_append_conv2)
  then show ?thesis using assms(1) by (metis mset_filter)
qed

lemma sorted_parts:
  assumes "sorted (map f ys)"
  shows "\<forall>x \<in> set (take n ys). \<forall>y \<in> set (drop n ys). f x \<le> f y"
proof -
  have "sorted (map f (take n ys) @ map f (drop n ys))" using assms by (metis append_take_drop_id map_append)
  then show ?thesis by (auto simp: sorted_append)
qed

lemma prune_spec:
  assumes "map_ok fs" "sorts_by_age env" "\<And>p. env_remove env p" "env_readdir env b" "fs_is_dir fs b"
    and "k > 0" "\<forall>x \<in> set (fs_children fs b). e_node (snd x) \<noteq> Dir"
  defines "old \<equiv> fs_children fs b" and "new \<equiv> fs_children (prune_backups env k b fs) b"
  shows "int (length new) = min k (int (length old)) \<and> set new \<subseteq> set old \<and>
    (\<forall>x \<in> set old - set new. \<forall>y \<in> set new. e_mtime (snd x) \<le> e_mtime (snd y))"
proof -
  define files where "files = sort_key (\<lambda>x. last (fst x)) old"
  define ys where "ys = env_sort env files"
  define n where "n = length old - nat k"
  have rd: "ioutil_ReadDir env fs b = Some files" using assms(4,5) by (simp add: ioutil_ReadDir_def files_def old_def)
  have len: "length files = length old" by (simp add: files_def)
  show ?thesis
  proof (cases "int (length old) > k")
    case False
    then have "new = old" using rd len assms(6) by (simp add: new_def old_def prune_backups_def)
    then show ?thesis using False by simp
  next
    case True
    have my: "mset ys = mset old" and sy: "sorted (map (\<lambda>x. e_mtime (snd x)) ys)"
      using assms(2) by (auto simp: ys_def sorts_by_age_def files_def)
    have sub: "set (take n ys) \<subseteq> set old" using my by (metis mset_eq_setD set_take_subset)
    have path: "b @ [last (fst x)] = fst x" if "x \<in> set (take n ys)" for x
    proof -
      have "x \<in> set old" using that sub by blast
      then have "fst x \<noteq> []" "butlast (fst x) = b" by (auto simp: old_def fs_children_def)
      then show ?thesis by (metis append_butlast_last_id)
    qed
    have files: "\<forall>x \<in> set (take n ys). \<forall>e. map_of fs (fst x) = Some e \<longrightarrow> e_node e \<noteq> Dir"
    proof (intro ballI allI impI)
      fix x e
      assume "x \<in> set (take n ys)" and e: "map_of fs (fst x) = Some e"
      then have x: "x \<in> set old" using sub by blast
      then have "map_of fs (fst x) = Some (snd x)"
        using assms(1) by (simp add: old_def fs_children_def)
      then show "e_node e \<noteq> Dir" using assms(7) x e by (simp add: old_def)
    qed
    have "prune_backups env k b fs = fold (\<lambda>x fs. snd (os_Remove env fs (b @ [last (fst x)]))) (take n ys) fs"
      using rd len True assms(6) by (simp add: prune_backups_def ys_def n_def)
    also have "\<dots> = fold (\<lambda>x fs. snd (os_Remove env fs (fst x))) (take n ys) fs"
      by (rule fold_cong) (use path in auto)
    finally have "new = filter (\<lambda>y. fst y \<notin> fst ` set (take n ys)) old"
      using remove_files_fold [OF assms(3,1) files, of b] by (simp add: new_def old_def)
    moreover have "distinct (map fst old)"
      using assms(1) by (simp add: old_def fs_children_def distinct_map_filter)
    ultimately have mn: "mset new = mset (drop n ys)"
      using filter_out_take [OF my, of fst n] by (simp add: n_def)
    have "length ys = length old" using my by (rule mset_eq_length)
    then have "int (length new) = k" using mset_eq_length [OF mn] True assms(6) by (simp add: n_def)
    moreover have sets: "set new = set (drop n ys)" "set old = set (take n ys) \<union> set (drop n ys)"
      using mset_eq_setD [OF mn] mset_eq_setD [OF my] by (metis, metis append_take_drop_id set_append)
    moreover have "\<forall>x \<in> set (take n ys). \<forall>y \<in> set (drop n ys). e_mtime (snd x) \<le> e_mtime (snd y)"
      using sorted_parts [OF sy] by blast
    ultimately show ?thesis using True by auto
  qed
qed

lemma fs_children_update_other: "butlast q \<noteq> b \<Longrightarrow> fs_children (AList.update q e fs) b = fs_children fs b"
  by (induction fs) (auto simp: fs_children_def)

lemma fs_children_write:
  assumes "map_ok fs" "b \<noteq> []"
  shows "set (fs_children (AList.update (b @ [nm]) e fs) b) =
    insert (b @ [nm], e) {x \<in> set (fs_children fs b). fst x \<noteq> b @ [nm]}"
  using assms by (auto simp: fs_children_def set_alist_update_eq)

lemma mkdir_children:
  assumes "os_MkdirAll env fs b t = (ok, fs1)"
  shows "fs_children fs1 b = fs_children fs b"
proof -
  have *: "list_all (\<lambda>q. length q \<le> length b \<and> q \<noteq> []) qs \<Longrightarrow>
    fs_children (fold (\<lambda>q fs. if fs_is_dir fs q then fs
        else AList.update q \<lparr> e_node = Dir, e_mtime = t \<rparr> fs) qs fs) b = fs_children fs b" for qs fs
  proof (induction qs arbitrary: fs)
    case (Cons q qs)
    have "length (butlast q) \<noteq> length b" using Cons.prems by (cases q rule: rev_cases) auto
    then have "butlast q \<noteq> b" by metis
    then show ?case using Cons by (simp add: fs_children_update_other)
  qed simp
  have "list_all (\<lambda>q. length q \<le> length b \<and> q \<noteq> []) (map (\<lambda>n. take n b) [1..<Suc (length b)])"
    by (auto simp: list_all_iff)
  then show ?thesis using assms * by (auto simp: os_MkdirAll_def Let_def split: if_splits simp del: upt_Suc)
qed

lemma backup_steps:
  assumes "name_ok (r_ID r)" "Rules_backupRule env clk m r fs = (None, fs')"
  defines "b \<equiv> rdir m @ [''backups'', r_ID r]"
  obtains fs1 nm where "os_MkdirAll env fs b (clk 0) = (True, fs1)"
    "fs' = prune_backups env (rc_MaxBackups (rm_config m)) b
       (AList.update (b @ [nm]) \<lparr> e_node = File (JSON r), e_mtime = clk 2 \<rparr> fs1)"
proof -
  obtain ok fs1 where mk: "os_MkdirAll env fs b (clk 0) = (ok, fs1)" by (metis surj_pair)
  have b: "filepath_Join [rc_RulesDir (rm_config m), ''backups'', r_ID r] = b"
    unfolding b_def by (rule Join_backups [OF assms(1)])
  have ok: ok using assms(2) mk b by (auto simp: Rules_backupRule_def split: if_splits)
  define nm where "nm = ''v'' @ itoa_int (r_Version r) @ ''_'' @ env_format env (clk 1) @ ''.json''"
  have "fst (ioutil_WriteFile env fs1 (b @ [nm]) (JSON r) (clk 2)) \<and>
      fs' = prune_backups env (rc_MaxBackups (rm_config m)) b (snd (ioutil_WriteFile env fs1 (b @ [nm]) (JSON r) (clk 2)))"
    using assms(2) mk b ok by (auto simp: Rules_backupRule_def nm_def Let_def split: if_splits prod.splits)
  then have "fs' = prune_backups env (rc_MaxBackups (rm_config m)) b
       (AList.update (b @ [nm]) \<lparr> e_node = File (JSON r), e_mtime = clk 2 \<rparr> fs1)"
    by (auto simp: ioutil_WriteFile_def split: if_splits)
  then show thesis using that mk ok by auto
qed

text \<open>
  The backups of a rule stay within \<open>MaxBackups\<close>. After a successful backup on a system that lets
  the files be listed and removed, the backup directory of the rule holds at most that many files;
  a file that was there and is gone, unless overwritten by one with the name of the new backup, is no
  newer than any that remains; and a new backup that is newer than all the others is kept.
\<close>

theorem backups_bounded:
  assumes "map_ok fs" "sorts_by_age env" "\<And>p. env_remove env p" "\<And>p. env_readdir env p"
    and "rc_MaxBackups (rm_config m) > 0" "name_ok (r_ID r)"
    and "\<forall>x \<in> set (fs_children fs (rdir m @ [''backups'', r_ID r])). e_node (snd x) \<noteq> Dir"
    and "Rules_backupRule env clk m r fs = (None, fs')"
  shows "\<exists>nm. let b = rdir m @ [''backups'', r_ID r]; old = set (fs_children fs b); new = fs_children fs' b in
    int (length new) \<le> rc_MaxBackups (rm_config m) \<and>
    (\<forall>x \<in> old - set new. fst x \<noteq> b @ [nm] \<longrightarrow> (\<forall>y \<in> set new. e_mtime (snd x) \<le> e_mtime (snd y))) \<and>
    ((\<forall>x \<in> old. e_mtime (snd x) < clk 2) \<longrightarrow>
       (b @ [nm], \<lparr> e_node = File (JSON r), e_mtime = clk 2 \<rparr>) \<in> set new)"
proof -
  define b where "b = rdir m @ [''backups'', r_ID r]"
  obtain fs1 nm where mk: "os_MkdirAll env fs b (clk 0) = (True, fs1)" and
    fs': "fs' = prune_backups env (rc_MaxBackups (rm_config m)) b
       (AList.update (b @ [nm]) \<lparr> e_node = File (JSON r), e_mtime = clk 2 \<rparr> fs1)"
    using backup_steps [OF assms(6,8)] unfolding b_def by blast
  define new where "new = fs_children fs' b"
  define fs2 where "fs2 = AList.update (b @ [nm]) \<lparr> e_node = File (JSON r), e_mtime = clk 2 \<rparr> fs1"
  have ok1: "map_ok fs1" using keeps_mkdir [of b fs env b "clk 0"] mk assms(1) by (simp add: keeps_def)
  have bne: "b \<noteq> []" by (simp add: b_def)
  have set2: "set (fs_children fs2 b) = insert (b @ [nm], \<lparr> e_node = File (JSON r), e_mtime = clk 2 \<rparr>)
      {x \<in> set (fs_children fs b). fst x \<noteq> b @ [nm]}"
    using fs_children_write [OF ok1, of b] mkdir_children [OF mk] bne by (simp add: fs2_def)
  have files: "\<forall>x \<in> set (fs_children fs2 b). e_node (snd x) \<noteq> Dir"
    unfolding set2 using assms(7) by (auto simp: b_def)
  have dir2: "fs_is_dir fs2 b" using mkdir_is_dir [OF mk] by (simp add: fs2_def is_dir_write)
  have ok2: "map_ok fs2" using ok1 by (simp add: fs2_def)
  have sp: "int (length new) = min (rc_MaxBackups (rm_config m)) (int (length (fs_children fs2 b)))"
    "set new \<subseteq> set (fs_children fs2 b)"
    "\<forall>x \<in> set (fs_children fs2 b) - set new. \<forall>y \<in> set new. e_mtime (snd x) \<le> e_mtime (snd y)"
    using prune_spec [OF ok2 assms(2,3,4) dir2 assms(5) files] by (simp_all add: new_def fs' fs2_def)
  have "fs_children fs2 b \<noteq> []" using set2 by auto
  then have "new \<noteq> []" using sp(1) assms(5) by (auto simp: min_def split: if_splits)
  then obtain y where y: "y \<in> set new" by (cases new) auto
  have "(b @ [nm], \<lparr> e_node = File (JSON r), e_mtime = clk 2 \<rparr>) \<in> set new"
    if old: "\<forall>x \<in> set (fs_children fs b). e_mtime (snd x) < clk 2"
  proof (rule ccontr)
    assume gone: "(b @ [nm], \<lparr> e_node = File (JSON r), e_mtime = clk 2 \<rparr>) \<notin> set new"
    have "y \<in> set (fs_children fs2 b)" using sp(2) y by (rule subsetD)
    moreover have "y \<noteq> (b @ [nm], \<lparr> e_node = File (JSON r), e_mtime = clk 2 \<rparr>)" using gone y by metis
    ultimately have "y \<in> set (fs_children fs b)" unfolding set2 by simp
    then have "e_mtime (snd y) < clk 2" using old by blast
    moreover have "(b @ [nm], \<lparr> e_node = File (JSON r), e_mtime = clk 2 \<rparr>) \<in> set (fs_children fs2 b) - set new"
      using gone by (simp add: set2)
    from bspec [OF bspec [OF sp(3) this] y] have "clk 2 \<le> e_mtime (snd y)" by simp
    ultimately show False by simp
  qed
  moreover have "\<forall>x \<in> set (fs_children fs b) - set new. fst x \<noteq> b @ [nm] \<longrightarrow>
      (\<forall>y \<in> set new. e_mtime (snd x) \<le> e_mtime (snd y))"
    using sp(3) set2 by blast
  moreover have "int (length new) \<le> rc_MaxBackups (rm_config m)" using sp(1) by simp
  ultimately show ?thesis unfolding Let_def b_def [symmetric] new_def [symmetric] by blast
qed

theorem backups_bounded_witness:
  "(let m = (fst demo_run)\<lparr> rm_config := (rm_config (fst demo_run))\<lparr> rc_MaxBackups := 1 \<rparr> \<rparr>;
        fs1 = snd (Rules_backupRule ok_env int m demo_rule (snd demo_run));
        fs2 = snd (Rules_backupRule ok_env (\<lambda>i. 100 + int i) m demo_rule fs1) in
    length (fs_children fs1 [''data'', ''rules'', ''backups'', ''r1'']) = 1 \<and>
    length (fs_children fs2 [''data'', ''rules'', ''backups'', ''r1'']) \<le> 1)"
proof -
  define m where "m = (fst demo_run)\<lparr> rm_config := (rm_config (fst demo_run))\<lparr> rc_MaxBackups := 1 \<rparr> \<rparr>"
  define fs1 where "fs1 = snd (Rules_backupRule ok_env int m demo_rule (snd demo_run))"
  define fs2 where "fs2 = snd (Rules_backupRule ok_env (\<lambda>i. 100 + int i) m demo_rule fs1)"
  have fs1: "map_ok fs1" "list_all (\<lambda>x. e_node (snd x) \<noteq> Dir) (fs_children fs1 [''data'', ''rules'', ''backups'', ''r1''])"
    "length (fs_children fs1 [''data'', ''rules'', ''backups'', ''r1'']) = 1"
    unfolding fs1_def m_def by code_simp+
  have "fst (Rules_backupRule ok_env (\<lambda>i. 100 + int i) m demo_rule fs1) = None"
    unfolding fs1_def m_def by code_simp
  then have run: "Rules_backupRule ok_env (\<lambda>i. 100 + int i) m demo_rule fs1 = (None, fs2)"
    by (simp add: fs2_def prod_eq_iff)
  have b: "rdir m @ [''backups'', r_ID demo_rule] = [''data'', ''rules'', ''backups'', ''r1'']"
    "rc_MaxBackups (rm_config m) = 1"
    unfolding m_def by code_simp+
  have "sorts_by_age ok_env" by (simp add: sorts_by_age_def ok_env_def)
  from backups_bounded [OF fs1(1) this _ _ _ _ _ run] have "length (fs_children fs2 [''data'', ''rules'', ''backups'', ''r1'']) \<le> 1"
    using fs1(2) b by (auto simp: ok_env_def demo_rule_def NewRule_def name_ok_def list_all_iff Let_def)
  then show ?thesis using fs1(3) by (simp add: m_def fs1_def fs2_def)
qed

end
