(* ===== verification/Login_Limiter.thy ===== *)
theory Login_Limiter
  imports Prelude
begin

text \<open>
  The limiter of login requests in the control plane, \<open>plane/internal/api/middleware/rate_limit.go\<close>:
  a sliding window of request times per address. Times are nanoseconds; a handler takes the instant it
  reads from the clock. The slice \<open>attempts[:0]\<close> that the source filters into shares its array with
  the slice it reads, but is never ahead of it, so the result is the filtered list. The response to a
  refused request (status 429) is the result \<open>False\<close>.
\<close>

section \<open>The limiter\<close>

record login_limiter =
  ll_attempts :: "(string \<times> int list) list"
  ll_maxAttempts :: int
  ll_window :: int
  ll_stopClosed :: bool

definition NewLoginRateLimiter :: "int \<Rightarrow> int \<Rightarrow> login_limiter" where
  "NewLoginRateLimiter maxAttempts window =
     \<lparr> ll_attempts = [], ll_maxAttempts = maxAttempts, ll_window = window, ll_stopClosed = False \<rparr>"

definition LoginRateLimiter_Stop :: "login_limiter \<Rightarrow> login_limiter res" where
  "LoginRateLimiter_Stop rl =
     (if ll_stopClosed rl then Inl CloseOfClosedChannel else Inr (rl\<lparr> ll_stopClosed := True \<rparr>))"

definition attempts_of :: "login_limiter \<Rightarrow> string \<Rightarrow> int list" where
  "attempts_of rl ip = (case map_of (ll_attempts rl) ip of None \<Rightarrow> [] | Some ts \<Rightarrow> ts)"

definition LoginRateLimiter_Middleware :: "int \<Rightarrow> string \<Rightarrow> login_limiter \<Rightarrow> bool \<times> login_limiter" where
  "LoginRateLimiter_Middleware now ip rl =
     (let cutoff = now - ll_window rl;
          valid = filter (\<lambda>t. t > cutoff) (attempts_of rl ip) in
      if int (length valid) \<ge> ll_maxAttempts rl
      then (False, rl\<lparr> ll_attempts := AList.update ip valid (ll_attempts rl) \<rparr>)
      else (True, rl\<lparr> ll_attempts := AList.update ip (valid @ [now]) (ll_attempts rl) \<rparr>))"

text \<open>
  One round of the cleaning loop. Each address is treated by itself, so the order in which the loop
  visits the map does not matter.
\<close>

definition LoginRateLimiter_cleanup :: "int \<Rightarrow> login_limiter \<Rightarrow> login_limiter" where
  "LoginRateLimiter_cleanup now rl =
     (let cutoff = now - ll_window rl in
      rl\<lparr> ll_attempts :=
            List.map_filter
              (\<lambda>(ip, ts). let valid = filter (\<lambda>t. t > cutoff) ts in if valid = [] then None else Some (ip, valid))
              (ll_attempts rl) \<rparr>)"

section \<open>The bound of the sliding window\<close>

lemma attempts_of_update [simp]:
  "attempts_of (rl\<lparr> ll_attempts := AList.update ip ts (ll_attempts rl) \<rparr>) x = (if x = ip then ts else attempts_of rl x)"
  by (simp add: attempts_of_def)

lemma attempts_of_cleanup:
  assumes "map_ok (ll_attempts rl)"
  shows "attempts_of (LoginRateLimiter_cleanup now rl) ip =
    filter (\<lambda>t. t > now - ll_window rl) (attempts_of rl ip)"
proof -
  have "map_ok xs \<Longrightarrow>
    (case map_of (List.map_filter (\<lambda>(k, ts). let v = filter P ts in if v = [] then None else Some (k, v)) xs) ip of
       None \<Rightarrow> [] | Some ts \<Rightarrow> ts) =
    filter P (case map_of xs ip of None \<Rightarrow> [] | Some ts \<Rightarrow> ts)" for xs :: "(string \<times> int list) list" and P
  proof (induction xs)
    case (Cons x xs)
    have "map_of (List.map_filter (\<lambda>(k, ts). let v = filter P ts in if v = [] then None else Some (k, v)) xs) k = None"
      if "k \<notin> fst ` set xs" for k
      using that by (induction xs) (auto simp: List.map_filter_simps Let_def)
    then show ?case using Cons by (cases x) (auto simp: List.map_filter_simps Let_def)
  qed (simp add: List.map_filter_simps)
  then show ?thesis using assms by (simp add: attempts_of_def LoginRateLimiter_cleanup_def Let_def)
qed

lemma map_ok_cleanup:
  assumes "map_ok (ll_attempts rl)"
  shows "map_ok (ll_attempts (LoginRateLimiter_cleanup now rl))"
proof -
  have "map fst (List.map_filter (\<lambda>(k, ts). let v = filter P ts in if v = [] then None else Some (k, v)) xs) =
      map fst (filter (\<lambda>(k, ts). filter P ts \<noteq> []) xs)" for xs :: "(string \<times> int list) list" and P
    by (induction xs) (auto simp: List.map_filter_simps Let_def)
  then show ?thesis
    using assms by (simp add: LoginRateLimiter_cleanup_def Let_def distinct_map_filter)
qed

text \<open>
  The runs of a limiter: requests and rounds of cleaning, at instants that do not go back. The last
  component holds the requests let through, with their addresses, in order.
\<close>

inductive limiter_run :: "int \<Rightarrow> int \<Rightarrow> login_limiter \<Rightarrow> int \<Rightarrow> (string \<times> int) list \<Rightarrow> bool" for maxA w where
  lr_new: "limiter_run maxA w (NewLoginRateLimiter maxA w) t []"
| lr_request: "limiter_run maxA w rl t gs \<Longrightarrow> t \<le> now \<Longrightarrow>
    LoginRateLimiter_Middleware now ip rl = (ok, rl') \<Longrightarrow>
    limiter_run maxA w rl' now (if ok then gs @ [(ip, now)] else gs)"
| lr_clean: "limiter_run maxA w rl t gs \<Longrightarrow> t \<le> now \<Longrightarrow>
    limiter_run maxA w (LoginRateLimiter_cleanup now rl) now gs"

abbreviation passed :: "string \<Rightarrow> (string \<times> int) list \<Rightarrow> int list" where
  "passed ip gs \<equiv> map snd (filter (\<lambda>g. fst g = ip) gs)"

definition limiter_inv :: "int \<Rightarrow> int \<Rightarrow> login_limiter \<Rightarrow> int \<Rightarrow> (string \<times> int) list \<Rightarrow> bool" where
  "limiter_inv maxA w rl now gs \<longleftrightarrow>
     ll_maxAttempts rl = maxA \<and> ll_window rl = w \<and> map_ok (ll_attempts rl) \<and>
     (\<forall>ip. filter (\<lambda>t. t > now - w) (attempts_of rl ip) = filter (\<lambda>t. t > now - w) (passed ip gs))"

lemma filter_later:
  assumes "(a :: int) \<le> b" "filter (\<lambda>t. t > a) xs = filter (\<lambda>t. t > a) ys"
  shows "filter (\<lambda>t. t > b) xs = filter (\<lambda>t. t > b) ys"
proof -
  have "filter (\<lambda>t. t > b) zs = filter (\<lambda>t. t > b) (filter (\<lambda>t. t > a) zs)" for zs
    using assms(1) by (induction zs) auto
  then show ?thesis using assms(2) by metis
qed

lemma middleware_cases:
  assumes "LoginRateLimiter_Middleware now ip rl = (ok, rl')"
  obtains ts where "rl' = rl\<lparr> ll_attempts := AList.update ip ts (ll_attempts rl) \<rparr>"
    "ts = filter (\<lambda>t. t > now - ll_window rl) (attempts_of rl ip) @ (if ok then [now] else [])"
    "ok \<Longrightarrow> int (length (filter (\<lambda>t. t > now - ll_window rl) (attempts_of rl ip))) < ll_maxAttempts rl"
  using assms that by (auto simp: LoginRateLimiter_Middleware_def Let_def split: if_splits)

lemma inv_later:
  assumes "limiter_inv maxA w rl t gs" "t \<le> now"
  shows "filter (\<lambda>u. u > now - w) (attempts_of rl x) = filter (\<lambda>u. u > now - w) (passed x gs)"
  using assms filter_later [of "t - w" "now - w" "attempts_of rl x" "passed x gs"] by (simp add: limiter_inv_def)

lemma limiter_run_inv: "limiter_run maxA w rl t gs \<Longrightarrow> limiter_inv maxA w rl t gs"
proof (induction rule: limiter_run.induct)
  case (lr_new t)
  then show ?case by (simp add: limiter_inv_def NewLoginRateLimiter_def attempts_of_def)
next
  case (lr_request rl t gs now ip ok rl')
  note same = inv_later [OF lr_request.IH lr_request.hyps(2)]
  from lr_request.hyps(3) obtain ts where
    ts: "rl' = rl\<lparr> ll_attempts := AList.update ip ts (ll_attempts rl) \<rparr>"
    "ts = filter (\<lambda>t. t > now - ll_window rl) (attempts_of rl ip) @ (if ok then [now] else [])"
    by (rule middleware_cases)
  have w: "ll_window rl = w" "ll_maxAttempts rl = maxA" "map_ok (ll_attempts rl)"
    using lr_request.IH by (auto simp: limiter_inv_def)
  have "filter (\<lambda>u. u > now - w) (attempts_of rl' x) =
      filter (\<lambda>u. u > now - w) (passed x (if ok then gs @ [(ip, now)] else gs))" for x
    using same [of x] ts w(1) by (cases "x = ip") auto
  then show ?case using w ts(1) by (simp add: limiter_inv_def)
next
  case (lr_clean rl t gs now)
  have w: "ll_window rl = w" "ll_maxAttempts rl = maxA" "map_ok (ll_attempts rl)"
    using lr_clean.IH by (auto simp: limiter_inv_def)
  have "filter (\<lambda>u. u > now - w) (attempts_of (LoginRateLimiter_cleanup now rl) x) =
      filter (\<lambda>u. u > now - w) (passed x gs)" for x
    using inv_later [OF lr_clean.IH lr_clean.hyps(2), of x] w by (simp add: attempts_of_cleanup)
  moreover have "ll_window (LoginRateLimiter_cleanup now rl) = w" "ll_maxAttempts (LoginRateLimiter_cleanup now rl) = maxA"
    using w by (simp_all add: LoginRateLimiter_cleanup_def Let_def)
  ultimately show ?case using map_ok_cleanup [OF w(3)] by (simp add: limiter_inv_def)
qed

lemma window_count_mono:
  assumes "\<And>t. P t \<Longrightarrow> Q t"
  shows "length (filter P ts) \<le> length (filter Q ts)"
  using assms by (induction ts) auto

lemma limiter_bound:
  "limiter_run maxA w rl t gs \<Longrightarrow> 0 \<le> maxA \<Longrightarrow>
   int (length (filter (\<lambda>u. a < u \<and> u \<le> a + w) (passed ip gs))) \<le> maxA"
proof (induction rule: limiter_run.induct)
  case (lr_request rl t gs now jp ok rl')
  show ?case
  proof (cases "ok \<and> jp = ip \<and> a < now \<and> now \<le> a + w")
    case True
    have inv: "limiter_inv maxA w rl t gs" using limiter_run_inv lr_request.hyps(1) by blast
    then have w: "ll_window rl = w" "ll_maxAttempts rl = maxA" by (auto simp: limiter_inv_def)
    from lr_request.hyps(3) have
      "int (length (filter (\<lambda>t. t > now - ll_window rl) (attempts_of rl jp))) < ll_maxAttempts rl"
      by (rule middleware_cases) (use True in simp)
    then have "int (length (filter (\<lambda>u. u > now - w) (passed ip gs))) < maxA"
      using inv_later [OF inv lr_request.hyps(2), of ip] True w by simp
    moreover have "length (filter (\<lambda>u. a < u \<and> u \<le> a + w) (passed ip gs)) \<le>
        length (filter (\<lambda>u. u > now - w) (passed ip gs))"
      using True by (intro window_count_mono) auto
    ultimately show ?thesis using True by simp
  next
    case False
    then show ?thesis using lr_request.IH lr_request.prems by (auto split: if_splits)
  qed
qed simp_all

text \<open>
  The sliding window holds. In any run of requests and cleaning rounds, from any mix of addresses,
  at most \<open>maxAttempts\<close> requests of one address are let through in any span of the length of the window.
\<close>

theorem login_window_bound:
  assumes "limiter_run maxA w rl t gs" "0 \<le> maxA"
  shows "int (length (filter (\<lambda>u. a < u \<and> u \<le> a + w) (passed ip gs))) \<le> maxA"
  using assms by (rule limiter_bound)

text \<open>A run with a limit of one request in ten: the second request is refused, the third let through.\<close>

definition demo_requests :: "login_limiter \<Rightarrow> bool list" where
  "demo_requests rl0 =
     (let (a, rl1) = LoginRateLimiter_Middleware 5 ''h'' rl0;
          (b, rl2) = LoginRateLimiter_Middleware 9 ''h'' rl1;
          (c, rl3) = LoginRateLimiter_Middleware 15 ''h'' (LoginRateLimiter_cleanup 12 rl2) in [a, b, c])"

theorem login_window_bound_witness:
  "demo_requests (NewLoginRateLimiter 1 10) = [True, False, True] \<and>
   length (filter (\<lambda>u. 4 < u \<and> u \<le> (4 :: int) + 10) (passed ''h'' [(''h'', 5)])) \<le> 1"
proof -
  have "LoginRateLimiter_Middleware 5 ''h'' (NewLoginRateLimiter 1 10) =
      (True, (NewLoginRateLimiter 1 10)\<lparr> ll_attempts := [(''h'', [5])] \<rparr>)"
    by (simp add: LoginRateLimiter_Middleware_def NewLoginRateLimiter_def attempts_of_def)
  from lr_request [OF lr_new [of 1 10 0] _ this]
  have "limiter_run 1 10 ((NewLoginRateLimiter 1 10)\<lparr> ll_attempts := [(''h'', [5])] \<rparr>) 5 [(''h'', 5)]"
    by simp
  from login_window_bound [OF this, of 4 "''h''"] have
    "length (filter (\<lambda>u. 4 < u \<and> u \<le> (4 :: int) + 10) (passed ''h'' [(''h'', 5)])) \<le> 1"
    by simp
  moreover have "demo_requests (NewLoginRateLimiter 1 10) = [True, False, True]" by code_simp
  ultimately show ?thesis by simp
qed

end
