(* ===== verification/Plane_Ports.thy ===== *)
theory Plane_Ports
  imports Prelude
begin

text \<open>
  The port manager of the control plane, \<open>plane/internal/service/port_manager.go\<close>: which tunnel of an
  ingress group holds which listening port. The locale \<open>port_registry\<close> states what its users rely on;
  the manager's two-level map interprets it. Of a tunnel row only the fields the manager reads are
  kept; the query for the enabled tunnels is a filter on the rows.
\<close>

section \<open>The interface\<close>

datatype port_op = Occupy string int string | Release string int

locale port_registry =
  fixes owner :: "'s \<Rightarrow> string \<Rightarrow> int \<Rightarrow> string option"
    and occupy :: "string \<Rightarrow> int \<Rightarrow> string \<Rightarrow> 's \<Rightarrow> bool \<times> 's"
    and release :: "string \<Rightarrow> int \<Rightarrow> 's \<Rightarrow> 's"
  assumes occupy_result: "fst (occupy g p t s) \<longleftrightarrow> owner s g p = None \<or> owner s g p = Some t"
    and occupy_owner: "owner (snd (occupy g p t s)) =
      (if fst (occupy g p t s) then (owner s)(g := (owner s g)(p \<mapsto> t)) else owner s)"
    and release_owner: "owner (release g p s) = (owner s)(g := (owner s g)(p := None))"
begin

primrec step :: "port_op \<Rightarrow> 's \<Rightarrow> bool \<times> 's" where
  "step (Occupy g p t) s = occupy g p t s"
| "step (Release g p) s = (True, release g p s)"

fun run :: "port_op list \<Rightarrow> 's \<Rightarrow> (port_op \<times> bool) list \<times> 's" where
  "run [] s = ([], s)"
| "run (x # xs) s = (let (ok, s1) = step x s; (log, s2) = run xs s1 in ((x, ok) # log, s2))"

lemma step_keeps:
  assumes "owner s g p = Some t" "x \<noteq> Release g p"
  shows "owner (snd (step x s)) g p = Some t"
proof (cases x)
  case (Occupy g' p' t')
  then show ?thesis
    using assms occupy_result [of g' p' t' s] by (auto simp: occupy_owner)
next
  case (Release g' p')
  then show ?thesis using assms by (auto simp: release_owner)
qed

lemma held_port:
  assumes "owner s g p = Some t" "Release g p \<notin> set xs"
  shows "owner (snd (run xs s)) g p = Some t \<and>
    (\<forall>t' ok. (Occupy g p t', ok) \<in> set (fst (run xs s)) \<longrightarrow> (ok \<longleftrightarrow> t' = t))"
  using assms
proof (induction xs arbitrary: s)
  case (Cons x xs)
  obtain ok s1 where st: "step x s = (ok, s1)" by (metis surj_pair)
  obtain log s2 where rn: "run xs s1 = (log, s2)" by (metis surj_pair)
  have "owner s1 g p = Some t" using step_keeps [of s g p t x] Cons.prems st by auto
  then have IH: "owner s2 g p = Some t \<and> (\<forall>t' ok. (Occupy g p t', ok) \<in> set log \<longrightarrow> (ok \<longleftrightarrow> t' = t))"
    using Cons.IH [of s1] Cons.prems(2) rn by simp
  moreover have "ok \<longleftrightarrow> t' = t" if "x = Occupy g p t'" for t'
    using st that occupy_result [of g p t' s] Cons.prems(1) by auto
  ultimately show ?case using st rn by auto
qed simp

lemma occupied_until_released:
  assumes "occupy g p t s = (True, s1)" "Release g p \<notin> set xs"
  shows "owner (snd (run xs s1)) g p = Some t \<and>
    (\<forall>t' ok. (Occupy g p t', ok) \<in> set (fst (run xs s1)) \<longrightarrow> (ok \<longleftrightarrow> t' = t))"
proof (rule held_port)
  show "owner s1 g p = Some t" using occupy_owner [of g p t s] assms(1) by simp
qed (rule assms(2))

end

section \<open>The manager\<close>

record tunnel_row =
  tn_ID :: string
  tn_IngressGroupID :: string
  tn_ListenPort :: int
  tn_Enabled :: bool

record port_manager =
  pm_groupPorts :: "(string \<times> (int \<times> string) list) list"

definition group_ports :: "port_manager \<Rightarrow> string \<Rightarrow> (int \<times> string) list" where
  "group_ports pm g = (case map_of (pm_groupPorts pm) g of None \<Rightarrow> [] | Some ps \<Rightarrow> ps)"

definition PortManager_loadOccupiedPorts :: "tunnel_row list \<Rightarrow> port_manager \<Rightarrow> port_manager" where
  "PortManager_loadOccupiedPorts db pm =
     fold (\<lambda>tunnel pm.
             pm\<lparr> pm_groupPorts :=
                  AList.update (tn_IngressGroupID tunnel)
                    (AList.update (tn_ListenPort tunnel) (tn_ID tunnel) (group_ports pm (tn_IngressGroupID tunnel)))
                    (pm_groupPorts pm) \<rparr>)
       (filter tn_Enabled db) (pm\<lparr> pm_groupPorts := [] \<rparr>)"

definition PortManager_IsPortAvailableInGroup :: "port_manager \<Rightarrow> string \<Rightarrow> int \<Rightarrow> string \<Rightarrow> bool" where
  "PortManager_IsPortAvailableInGroup pm groupID port excludeTunnelID =
     (case map_of (pm_groupPorts pm) groupID of
        None \<Rightarrow> True
      | Some ps \<Rightarrow> (case map_of ps port of None \<Rightarrow> True | Some tunnelID \<Rightarrow> tunnelID = excludeTunnelID))"

text \<open>The first component says that no error is returned.\<close>

definition PortManager_OccupyPortInGroup :: "string \<Rightarrow> int \<Rightarrow> string \<Rightarrow> port_manager \<Rightarrow> bool \<times> port_manager" where
  "PortManager_OccupyPortInGroup groupID port tunnelID pm =
     (let pm1 = (if map_of (pm_groupPorts pm) groupID = None
                 then pm\<lparr> pm_groupPorts := AList.update groupID [] (pm_groupPorts pm) \<rparr> else pm);
          ps = group_ports pm1 groupID in
      if (case map_of ps port of None \<Rightarrow> False | Some existing \<Rightarrow> existing \<noteq> tunnelID) then (False, pm1)
      else (True, pm1\<lparr> pm_groupPorts := AList.update groupID (AList.update port tunnelID ps) (pm_groupPorts pm1) \<rparr>))"

definition PortManager_ReleasePortInGroup :: "string \<Rightarrow> int \<Rightarrow> port_manager \<Rightarrow> port_manager" where
  "PortManager_ReleasePortInGroup groupID port pm =
     (case map_of (pm_groupPorts pm) groupID of
        None \<Rightarrow> pm
      | Some ps \<Rightarrow>
          (case map_of ps port of
             None \<Rightarrow> pm
           | Some _ \<Rightarrow> pm\<lparr> pm_groupPorts := AList.update groupID (AList.delete port ps) (pm_groupPorts pm) \<rparr>))"

definition PortManager_GetOccupiedPortsInGroup :: "port_manager \<Rightarrow> string \<Rightarrow> (int \<times> string) list" where
  "PortManager_GetOccupiedPortsInGroup pm groupID = group_ports pm groupID"

definition PortManager_GetAllOccupiedPorts :: "port_manager \<Rightarrow> (string \<times> (int \<times> string) list) list" where
  "PortManager_GetAllOccupiedPorts pm = pm_groupPorts pm"

datatype port_err = PE_range | PE_reserved

definition ValidatePort :: "int \<Rightarrow> port_err option" where
  "ValidatePort port =
     (if port < 1 \<or> port > 65535 then Some PE_range
      else if port < 1024 then Some PE_reserved else None)"

section \<open>The manager provides the interface\<close>

definition port_owner :: "port_manager \<Rightarrow> string \<Rightarrow> int \<Rightarrow> string option" where
  "port_owner pm g p = map_of (group_ports pm g) p"

lemma port_owner_occupy:
  "fst (PortManager_OccupyPortInGroup g p t pm) \<longleftrightarrow> port_owner pm g p = None \<or> port_owner pm g p = Some t"
  "port_owner (snd (PortManager_OccupyPortInGroup g p t pm)) =
     (if fst (PortManager_OccupyPortInGroup g p t pm) then (port_owner pm)(g := (port_owner pm g)(p \<mapsto> t))
      else port_owner pm)"
  by (auto simp: PortManager_OccupyPortInGroup_def port_owner_def group_ports_def Let_def fun_eq_iff
      split: option.splits)

lemma port_owner_release:
  "port_owner (PortManager_ReleasePortInGroup g p pm) = (port_owner pm)(g := (port_owner pm g)(p := None))"
  by (auto simp: PortManager_ReleasePortInGroup_def port_owner_def group_ports_def fun_eq_iff split: option.splits)

interpretation ports: port_registry port_owner PortManager_OccupyPortInGroup PortManager_ReleasePortInGroup
  by unfold_locales (rule port_owner_occupy port_owner_release)+

lemma available_iff:
  "PortManager_IsPortAvailableInGroup pm g p t \<longleftrightarrow> port_owner pm g p = None \<or> port_owner pm g p = Some t"
  by (auto simp: PortManager_IsPortAvailableInGroup_def port_owner_def group_ports_def split: option.splits)

lemma loaded_owner:
  "port_owner (PortManager_loadOccupiedPorts db pm) g =
     map_of (rev (map (\<lambda>r. (tn_ListenPort r, tn_ID r)) (filter (\<lambda>r. tn_Enabled r \<and> tn_IngressGroupID r = g) db)))"
proof -
  define f :: "tunnel_row \<Rightarrow> port_manager \<Rightarrow> port_manager" where "f = (\<lambda>tunnel pm. pm\<lparr> pm_groupPorts :=
      AList.update (tn_IngressGroupID tunnel)
        (AList.update (tn_ListenPort tunnel) (tn_ID tunnel) (group_ports pm (tn_IngressGroupID tunnel)))
        (pm_groupPorts pm) \<rparr>)"
  have step: "port_owner (f r q) g =
      (if tn_IngressGroupID r = g then (port_owner q g)(tn_ListenPort r \<mapsto> tn_ID r) else port_owner q g)" for r q
    by (auto simp: f_def port_owner_def group_ports_def fun_eq_iff split: option.splits)
  have "port_owner (fold f xs q) g = port_owner q g ++
      map_of (rev (map (\<lambda>r. (tn_ListenPort r, tn_ID r)) (filter (\<lambda>r. tn_IngressGroupID r = g) xs)))" for xs q
    by (induction xs arbitrary: q) (auto simp: step fun_eq_iff map_add_def split: option.splits)
  moreover have "port_owner (pm\<lparr> pm_groupPorts := [] \<rparr>) g = Map.empty"
    by (simp add: port_owner_def group_ports_def fun_eq_iff)
  ultimately show ?thesis
    by (simp add: PortManager_loadOccupiedPorts_def f_def [symmetric] conj_commute)
qed

text \<open>
  A port of an ingress group belongs to one tunnel at a time. Once a tunnel has occupied the port,
  then through any sequence of other occupations and releases, in this and other groups, that does not
  release this very port, the port stays the tunnel's: every attempt of another tunnel to occupy it is
  refused and every repeated one of the tunnel itself succeeds, and the port is reported available to
  the tunnel alone.
\<close>

theorem port_exclusive:
  assumes "PortManager_OccupyPortInGroup g p t pm = (True, pm1)" "Release g p \<notin> set ops"
    and "ports.run ops pm1 = (log, pm2)"
  shows "((Occupy g p t', ok) \<in> set log \<longrightarrow> (ok \<longleftrightarrow> t' = t)) \<and>
    (PortManager_IsPortAvailableInGroup pm2 g p t' \<longleftrightarrow> t' = t) \<and>
    map_of (PortManager_GetOccupiedPortsInGroup pm2 g) p = Some t"
proof -
  have "port_owner pm2 g p = Some t" "\<forall>t' ok. (Occupy g p t', ok) \<in> set log \<longrightarrow> (ok \<longleftrightarrow> t' = t)"
    using ports.occupied_until_released [OF assms(1,2)] assms(3) by auto
  then show ?thesis
    by (auto simp: available_iff PortManager_GetOccupiedPortsInGroup_def port_owner_def)
qed

theorem port_exclusive_witness:
  "(let pm = \<lparr> pm_groupPorts = [] \<rparr>;
        pm1 = snd (PortManager_OccupyPortInGroup ''g'' 8080 ''a'' pm);
        pm2 = snd (ports.run [Occupy ''g'' 8080 ''b'', Occupy ''h'' 8080 ''b'', Release ''g'' 9090] pm1) in
    PortManager_IsPortAvailableInGroup pm2 ''g'' 8080 ''a'' \<and> \<not> PortManager_IsPortAvailableInGroup pm2 ''g'' 8080 ''b'')"
proof -
  define pm1 where "pm1 = snd (PortManager_OccupyPortInGroup ''g'' 8080 ''a'' \<lparr> pm_groupPorts = [] \<rparr>)"
  have occ: "PortManager_OccupyPortInGroup ''g'' 8080 ''a'' \<lparr> pm_groupPorts = [] \<rparr> = (True, pm1)"
    by (simp add: pm1_def PortManager_OccupyPortInGroup_def group_ports_def)
  obtain log pm2 where rn: "ports.run [Occupy ''g'' 8080 ''b'', Occupy ''h'' 8080 ''b'', Release ''g'' 9090] pm1 = (log, pm2)"
    by (metis surj_pair)
  show ?thesis
    using port_exclusive [OF occ _ rn, of "''a''"] port_exclusive [OF occ _ rn, of "''b''"] rn
    by (simp add: pm1_def [symmetric] Let_def)
qed

end
