(* ===== verification/Billing.thy ===== *)
theory Billing
  imports Prelude "HOL-Library.List_Lexorder" "HOL-Library.Char_ord"
begin

text \<open>
  Plans, subscriptions and traffic quotas of the control plane:
  \<open>plane/internal/service/plan.go\<close> with the queries of \<open>plane/internal/db/dao/plan.go\<close>, and
  \<open>plane/internal/service/traffic_limiter.go\<close>. A table is the list of its rows; a query is the filter
  and order its text states. Whether a call of the database succeeds is an argument, as are the
  readings of the clock, fresh identifiers, and \<open>time.AddDate\<close>, which depends on the time zone. Of the
  rows the fields that the modelled code reads or sets are kept. Logging is left out, and so is the
  background call of \<open>AddTrafficUsage\<close>, whose body is empty in the source.
\<close>

section \<open>Tables\<close>

record plan_row =
  pl_ID :: string
  pl_Name :: string
  pl_Duration :: int
  pl_DurationUnit :: string
  pl_TrafficLimit :: int
  pl_SpeedLimit :: int
  pl_RuleLimit :: int
  pl_Enabled :: bool
  pl_SortOrder :: int
  pl_CreatedAt :: int

record sub_row =
  su_ID :: string
  su_UserID :: string
  su_PlanID :: string
  su_Status :: string
  su_StartAt :: int
  su_ExpireAt :: int
  su_CreatedAt :: int

text \<open>\<open>db_tunnels\<close> is the column \<open>created_by\<close> of the tunnels.\<close>

record billing_db =
  db_plans :: "plan_row list"
  db_subs :: "sub_row list"
  db_tunnels :: "string list"

datatype dao_call = Q_plan | Q_create_plan | Q_save_plan | Q_delete_plan | Q_active | Q_by_plan | Q_create_sub | Q_update_sub

datatype bill_err =
    BE_db
  | BE_plan_disabled
  | BE_plan_in_use nat
  | BE_has_subscription
  | BE_no_subscription
  | BE_rule_limit
  | BE_no_quota
  | BE_traffic_exceeded
  | BE_bandwidth_exceeded

section \<open>Queries\<close>

definition DAO_GetPlan :: "billing_db \<Rightarrow> string \<Rightarrow> plan_row option" where
  "DAO_GetPlan db pid = find (\<lambda>p. pl_ID p = pid) (db_plans db)"

text \<open>
  Columns with a declared default (\<open>DurationUnit\<close>, \<open>Enabled\<close>; the other defaults are the zero values) take it
  when the field of a new row is zero. \<open>Save\<close> replaces the row with the same key and inserts a missing one.
\<close>

definition plan_defaults :: "plan_row \<Rightarrow> plan_row" where
  "plan_defaults p =
     p\<lparr> pl_DurationUnit := (if pl_DurationUnit p = [] then ''month'' else pl_DurationUnit p),
        pl_Enabled := True \<rparr>"

definition DAO_CreatePlan :: "int \<Rightarrow> plan_row \<Rightarrow> billing_db \<Rightarrow> billing_db" where
  "DAO_CreatePlan now p db = db\<lparr> db_plans := db_plans db @ [plan_defaults (p\<lparr> pl_CreatedAt := now \<rparr>)] \<rparr>"

definition DAO_UpdatePlan :: "plan_row \<Rightarrow> billing_db \<Rightarrow> billing_db" where
  "DAO_UpdatePlan p db =
     db\<lparr> db_plans := (if pl_ID p \<in> pl_ID ` set (db_plans db)
                       then map (\<lambda>r. if pl_ID r = pl_ID p then p else r) (db_plans db)
                       else db_plans db @ [p]) \<rparr>"

definition DAO_DeletePlan :: "string \<Rightarrow> billing_db \<Rightarrow> billing_db" where
  "DAO_DeletePlan pid db = db\<lparr> db_plans := filter (\<lambda>p. pl_ID p \<noteq> pid) (db_plans db) \<rparr>"

definition DAO_ListPlans :: "billing_db \<Rightarrow> bool \<Rightarrow> plan_row list" where
  "DAO_ListPlans db enabledOnly =
     sort_key pl_SortOrder (sort_key pl_CreatedAt
       (if enabledOnly then filter pl_Enabled (db_plans db) else db_plans db))"

definition is_active :: "int \<Rightarrow> string \<Rightarrow> sub_row \<Rightarrow> bool" where
  "is_active now uid s \<longleftrightarrow> su_UserID s = uid \<and> su_Status s = ''active'' \<and> su_ExpireAt s > now"

definition DAO_GetActiveSubscription :: "int \<Rightarrow> billing_db \<Rightarrow> string \<Rightarrow> sub_row option" where
  "DAO_GetActiveSubscription now db uid =
     (case sort_key (\<lambda>s. - su_CreatedAt s) (sort_key su_ID (filter (is_active now uid) (db_subs db))) of
        [] \<Rightarrow> None
      | s # _ \<Rightarrow> Some s)"

definition DAO_GetSubscriptionsByPlanID :: "billing_db \<Rightarrow> string \<Rightarrow> sub_row list" where
  "DAO_GetSubscriptionsByPlanID db pid =
     filter (\<lambda>s. su_PlanID s = pid \<and> su_Status s = ''active'') (db_subs db)"

definition DAO_UpdateSubscription :: "sub_row \<Rightarrow> billing_db \<Rightarrow> billing_db" where
  "DAO_UpdateSubscription s db = db\<lparr> db_subs := map (\<lambda>r. if su_ID r = su_ID s then s else r) (db_subs db) \<rparr>"

definition DAO_CreateSubscription :: "sub_row \<Rightarrow> billing_db \<Rightarrow> billing_db" where
  "DAO_CreateSubscription s db = db\<lparr> db_subs := db_subs db @ [s] \<rparr>"

definition DAO_ExpireSubscriptions :: "int \<Rightarrow> billing_db \<Rightarrow> nat \<times> billing_db" where
  "DAO_ExpireSubscriptions now db =
     (let due = (\<lambda>s. su_Status s = ''active'' \<and> su_ExpireAt s \<le> now) in
      (length (filter due (db_subs db)),
       db\<lparr> db_subs := map (\<lambda>s. if due s then s\<lparr> su_Status := ''expired'' \<rparr> else s) (db_subs db) \<rparr>))"

definition DAO_CountActiveSubscriptions :: "int \<Rightarrow> billing_db \<Rightarrow> nat" where
  "DAO_CountActiveSubscriptions now db =
     length (filter (\<lambda>s. su_Status s = ''active'' \<and> su_ExpireAt s > now) (db_subs db))"

section \<open>The plan service\<close>

definition PlanService_CreatePlan ::
    "(dao_call \<Rightarrow> bool) \<Rightarrow> int \<Rightarrow> string \<Rightarrow> plan_row \<Rightarrow> billing_db \<Rightarrow> bill_err option \<times> billing_db" where
  "PlanService_CreatePlan works now newID p db =
     (if \<not> works Q_create_plan then (Some BE_db, db) else (None, DAO_CreatePlan now (p\<lparr> pl_ID := newID \<rparr>) db))"

definition PlanService_UpdatePlan ::
    "(dao_call \<Rightarrow> bool) \<Rightarrow> plan_row \<Rightarrow> billing_db \<Rightarrow> bill_err option \<times> billing_db" where
  "PlanService_UpdatePlan works p db =
     (if \<not> works Q_save_plan then (Some BE_db, db) else (None, DAO_UpdatePlan p db))"

definition PlanService_DeletePlan ::
    "(dao_call \<Rightarrow> bool) \<Rightarrow> string \<Rightarrow> billing_db \<Rightarrow> bill_err option \<times> billing_db" where
  "PlanService_DeletePlan works pid db =
     (if \<not> works Q_by_plan then (Some BE_db, db)
      else if length (DAO_GetSubscriptionsByPlanID db pid) > 0
      then (Some (BE_plan_in_use (length (DAO_GetSubscriptionsByPlanID db pid))), db)
      else if \<not> works Q_delete_plan then (Some BE_db, db)
      else (None, DAO_DeletePlan pid db))"

definition expiry :: "(int \<Rightarrow> int \<Rightarrow> int \<Rightarrow> int \<Rightarrow> int) \<Rightarrow> plan_row \<Rightarrow> int \<Rightarrow> int \<Rightarrow> int" where
  "expiry addDate plan startAt months =
     (if pl_DurationUnit plan = ''month'' then addDate startAt 0 months 0
      else if pl_DurationUnit plan = ''year'' then addDate startAt months 0 0
      else if pl_DurationUnit plan = ''permanent'' then addDate startAt 100 0 0
      else addDate startAt 0 months 0)"

text \<open>The error of the query for the active subscription is discarded by the source.\<close>

definition PlanService_SubscribeUserToPlan ::
    "(dao_call \<Rightarrow> bool) \<Rightarrow> (int \<Rightarrow> int \<Rightarrow> int \<Rightarrow> int \<Rightarrow> int) \<Rightarrow> (nat \<Rightarrow> int) \<Rightarrow> string \<Rightarrow>
     string \<Rightarrow> string \<Rightarrow> int \<Rightarrow> billing_db \<Rightarrow> ((bill_err + sub_row) \<times> billing_db) res" where
  "PlanService_SubscribeUserToPlan works addDate clk newID uid pid months db =
     (if \<not> works Q_plan then Inr (Inl BE_db, db)
      else case DAO_GetPlan db pid of
        None \<Rightarrow> Inl NilDereference
      | Some plan \<Rightarrow>
          Inr (if \<not> pl_Enabled plan then (Inl BE_plan_disabled, db)
               else if works Q_active \<and> DAO_GetActiveSubscription (clk 0) db uid \<noteq> None
               then (Inl BE_has_subscription, db)
               else
                 (let startAt = clk 1;
                      months1 = (if months \<le> 0 then pl_Duration plan else months);
                      s = \<lparr> su_ID = newID, su_UserID = uid, su_PlanID = pid, su_Status = ''active'',
                            su_StartAt = startAt, su_ExpireAt = expiry addDate plan startAt months1,
                            su_CreatedAt = clk 2 \<rparr> in
                  if \<not> works Q_create_sub then (Inl BE_db, db)
                  else (Inr s, DAO_CreateSubscription s db))))"

definition PlanService_GetUserSubscription ::
    "(dao_call \<Rightarrow> bool) \<Rightarrow> (nat \<Rightarrow> int) \<Rightarrow> string \<Rightarrow> billing_db \<Rightarrow>
     (sub_row option \<times> plan_row option \<times> bill_err option) \<times> billing_db" where
  "PlanService_GetUserSubscription works clk uid db =
     (if \<not> works Q_active then ((None, None, Some BE_db), db)
      else case DAO_GetActiveSubscription (clk 0) db uid of
        None \<Rightarrow> ((None, None, None), db)
      | Some s \<Rightarrow>
          if clk 1 > su_ExpireAt s
          then ((None, None, None),
                if works Q_update_sub then DAO_UpdateSubscription (s\<lparr> su_Status := ''expired'' \<rparr>) db else db)
          else if \<not> works Q_plan then ((Some s, None, Some BE_db), db)
          else ((Some s, DAO_GetPlan db (su_PlanID s), None), db))"

definition PlanService_CheckQuota ::
    "(dao_call \<Rightarrow> bool) \<Rightarrow> (nat \<Rightarrow> int) \<Rightarrow> string \<Rightarrow> string \<Rightarrow> billing_db \<Rightarrow> bill_err option \<times> billing_db" where
  "PlanService_CheckQuota works clk uid checkType db =
     (case PlanService_GetUserSubscription works clk uid db of
        ((_, plan, err), db') \<Rightarrow>
          (case err of
             Some e \<Rightarrow> (Some e, db')
           | None \<Rightarrow>
               (case plan of
                  None \<Rightarrow> (Some BE_no_subscription, db')
                | Some p \<Rightarrow>
                    if checkType = ''rules'' \<and> pl_RuleLimit p > 0
                       \<and> int (length (filter (\<lambda>c. c = uid) (db_tunnels db'))) \<ge> pl_RuleLimit p
                    then (Some BE_rule_limit, db') else (None, db'))))"

section \<open>The traffic limiter\<close>

record user_quota =
  uq_TrafficUsed :: int
  uq_TrafficLimit :: int
  uq_BandwidthLimit :: int
  uq_LastUpdate :: int

record traffic_limiter =
  tl_userQuotas :: "(string \<times> user_quota) list"

definition TrafficLimiter_loadUserQuota ::
    "(dao_call \<Rightarrow> bool) \<Rightarrow> (nat \<Rightarrow> int) \<Rightarrow> string \<Rightarrow> billing_db \<Rightarrow> user_quota option \<times> billing_db" where
  "TrafficLimiter_loadUserQuota works clk uid db =
     (case PlanService_GetUserSubscription works clk uid db of
        ((_, plan, err), db') \<Rightarrow>
          (case (err, plan) of
             (None, Some p) \<Rightarrow>
               (Some \<lparr> uq_TrafficUsed = 0, uq_TrafficLimit = pl_TrafficLimit p,
                       uq_BandwidthLimit = pl_SpeedLimit p, uq_LastUpdate = clk 2 \<rparr>, db')
           | _ \<Rightarrow> (None, db')))"

text \<open>The next operations take what \<open>loadUserQuota\<close> returns when they call it.\<close>

definition TrafficLimiter_CheckTrafficQuota ::
    "user_quota option \<Rightarrow> string \<Rightarrow> int \<Rightarrow> traffic_limiter \<Rightarrow> bill_err option" where
  "TrafficLimiter_CheckTrafficQuota ld uid bytes lim =
     (case (case map_of (tl_userQuotas lim) uid of Some q \<Rightarrow> Some q | None \<Rightarrow> ld) of
        None \<Rightarrow> Some BE_no_quota
      | Some q \<Rightarrow>
          if uq_TrafficLimit q > 0 \<and> add64 (uq_TrafficUsed q) bytes > uq_TrafficLimit q
          then Some BE_traffic_exceeded else None)"

definition TrafficLimiter_AddTraffic ::
    "user_quota option \<Rightarrow> int \<Rightarrow> string \<Rightarrow> int \<Rightarrow> traffic_limiter \<Rightarrow> bill_err option \<times> traffic_limiter" where
  "TrafficLimiter_AddTraffic ld now uid bytes lim =
     (case (case map_of (tl_userQuotas lim) uid of Some q \<Rightarrow> Some q | None \<Rightarrow> ld) of
        None \<Rightarrow> (Some BE_no_quota, lim)
      | Some q \<Rightarrow>
          (None, lim\<lparr> tl_userQuotas :=
             AList.update uid (q\<lparr> uq_TrafficUsed := add64 (uq_TrafficUsed q) bytes, uq_LastUpdate := now \<rparr>)
               (tl_userQuotas lim) \<rparr>))"

definition TrafficLimiter_CheckBandwidth ::
    "user_quota option \<Rightarrow> string \<Rightarrow> int \<Rightarrow> traffic_limiter \<Rightarrow> bill_err option" where
  "TrafficLimiter_CheckBandwidth ld uid bps lim =
     (case (case map_of (tl_userQuotas lim) uid of Some q \<Rightarrow> Some q | None \<Rightarrow> ld) of
        None \<Rightarrow> None
      | Some q \<Rightarrow> if uq_BandwidthLimit q > 0 \<and> bps > uq_BandwidthLimit q then Some BE_bandwidth_exceeded else None)"

definition TrafficLimiter_RefreshQuota :: "string \<Rightarrow> traffic_limiter \<Rightarrow> traffic_limiter" where
  "TrafficLimiter_RefreshQuota uid lim = lim\<lparr> tl_userQuotas := AList.delete uid (tl_userQuotas lim) \<rparr>"

section \<open>One subscription at a time\<close>

definition active_count :: "int \<Rightarrow> billing_db \<Rightarrow> string \<Rightarrow> nat" where
  "active_count now db uid = length (filter (is_active now uid) (db_subs db))"

lemma active_count_mono: "now \<le> now' \<Longrightarrow> active_count now' db uid \<le> active_count now db uid"
  unfolding active_count_def by (induction "db_subs db" rule: list.induct) (auto simp: is_active_def length_filter_conv_card intro!: card_mono)

lemma GetActive_None_iff: "DAO_GetActiveSubscription now db uid = None \<longleftrightarrow> active_count now db uid = 0"
proof -
  define xs where "xs = sort_key (\<lambda>s. - su_CreatedAt s) (sort_key su_ID (filter (is_active now uid) (db_subs db)))"
  have "length xs = active_count now db uid" by (simp add: xs_def active_count_def)
  then show ?thesis unfolding DAO_GetActiveSubscription_def xs_def [symmetric] by (cases xs) auto
qed

lemma active_count_map:
  assumes "\<And>s. is_active now uid (f s) \<Longrightarrow> is_active now uid s"
  shows "active_count now (db\<lparr> db_subs := map f (db_subs db) \<rparr>) uid \<le> active_count now db uid"
proof -
  have "length (filter (is_active now uid) (map f xs)) \<le> length (filter (is_active now uid) xs)" for xs
    using assms by (induction xs) auto
  then show ?thesis by (simp add: active_count_def)
qed

lemma active_count_expire: "active_count now (snd (DAO_ExpireSubscriptions t db)) uid \<le> active_count now db uid"
  unfolding DAO_ExpireSubscriptions_def Let_def snd_conv by (rule active_count_map) (auto simp: is_active_def split: if_splits)

lemma active_count_mark:
  "active_count now (DAO_UpdateSubscription (s\<lparr> su_Status := ''expired'' \<rparr>) db) uid \<le> active_count now db uid"
  unfolding DAO_UpdateSubscription_def by (rule active_count_map) (auto simp: is_active_def split: if_splits)

text \<open>
  The runs of the billing tables, each operation reading the clock no earlier than the one before. The
  query for the active subscription works when a user subscribes; every other call may fail.
\<close>

inductive billing_run :: "int \<Rightarrow> billing_db \<Rightarrow> bool" where
  br_start: "(\<And>uid. active_count t db uid \<le> 1) \<Longrightarrow> billing_run t db"
| br_subscribe: "billing_run t db \<Longrightarrow> t \<le> now \<Longrightarrow> clk 0 = now \<Longrightarrow> works Q_active = True \<Longrightarrow>
    PlanService_SubscribeUserToPlan works addDate clk newID uid pid months db = Inr (r, db') \<Longrightarrow>
    billing_run now db'"
| br_lookup: "billing_run t db \<Longrightarrow> t \<le> now \<Longrightarrow> clk 0 = now \<Longrightarrow>
    PlanService_GetUserSubscription works clk uid db = (r, db') \<Longrightarrow> billing_run now db'"
| br_expire: "billing_run t db \<Longrightarrow> t \<le> now \<Longrightarrow>
    DAO_ExpireSubscriptions now db = (n, db') \<Longrightarrow> billing_run now db'"
| br_delete_plan: "billing_run t db \<Longrightarrow>
    PlanService_DeletePlan works pid db = (err, db') \<Longrightarrow> billing_run t db'"
| br_create_plan: "billing_run t db \<Longrightarrow>
    PlanService_CreatePlan works now newID p db = (err, db') \<Longrightarrow> billing_run t db'"
| br_update_plan: "billing_run t db \<Longrightarrow>
    PlanService_UpdatePlan works p db = (err, db') \<Longrightarrow> billing_run t db'"

lemma subscribe_count:
  assumes "PlanService_SubscribeUserToPlan works addDate clk newID uid pid months db = Inr (r, db')"
    and "works Q_active" "active_count (clk 0) db u \<le> 1"
  shows "active_count (clk 0) db' u \<le> 1"
proof (cases "db' = db")
  case False
  then have "active_count (clk 0) db uid = 0"
    using assms(1,2) by (auto simp: PlanService_SubscribeUserToPlan_def Let_def GetActive_None_iff split: if_splits option.splits)
  moreover obtain s where "db' = DAO_CreateSubscription s db" "su_UserID s = uid"
    using assms(1) False by (auto simp: PlanService_SubscribeUserToPlan_def Let_def split: if_splits option.splits)
  ultimately show ?thesis
    using assms(3) by (auto simp: DAO_CreateSubscription_def active_count_def is_active_def)
qed (use assms(3) in simp)

lemma lookup_count:
  assumes "PlanService_GetUserSubscription works clk uid db = (r, db')"
  shows "active_count now db' u \<le> active_count now db u"
  using assms active_count_mark
  by (auto simp: PlanService_GetUserSubscription_def split: if_splits option.splits)

lemma delete_plan_count:
  "PlanService_DeletePlan works pid db = (err, db') \<Longrightarrow> active_count now db' u = active_count now db u"
  by (auto simp: PlanService_DeletePlan_def DAO_DeletePlan_def active_count_def split: if_splits)

lemma create_plan_count:
  "PlanService_CreatePlan works t newID p db = (err, db') \<Longrightarrow> active_count now db' u = active_count now db u"
  by (auto simp: PlanService_CreatePlan_def DAO_CreatePlan_def active_count_def split: if_splits)

lemma update_plan_count:
  "PlanService_UpdatePlan works p db = (err, db') \<Longrightarrow> active_count now db' u = active_count now db u"
  by (auto simp: PlanService_UpdatePlan_def DAO_UpdatePlan_def active_count_def split: if_splits)

lemma billing_run_count: "billing_run t db \<Longrightarrow> active_count t db u \<le> 1"
proof (induction rule: billing_run.induct)
  case (br_subscribe t db now clk works addDate newID uid pid months r db')
  have "active_count now db u \<le> active_count t db u" by (rule active_count_mono [OF br_subscribe.hyps(2)])
  then have "active_count (clk 0) db u \<le> 1" using br_subscribe.IH unfolding br_subscribe.hyps(3) by linarith
  then show ?case using subscribe_count [OF br_subscribe.hyps(5)] br_subscribe.hyps(3,4) by simp
next
  case (br_lookup t db now clk works uid r db')
  have "active_count now db u \<le> active_count t db u" by (rule active_count_mono [OF br_lookup.hyps(2)])
  then show ?case using lookup_count [OF br_lookup.hyps(4), of now u] br_lookup.IH by linarith
next
  case (br_expire t db now n db')
  have "active_count now db u \<le> active_count t db u" by (rule active_count_mono [OF br_expire.hyps(2)])
  moreover have "active_count now db' u \<le> active_count now db u"
    using active_count_expire [of now now db u] br_expire.hyps(3) by simp
  ultimately show ?case using br_expire.IH by linarith
next
  case (br_delete_plan t db works pid err db')
  then show ?case by (simp add: delete_plan_count)
next
  case (br_create_plan t db works now newID p err db')
  then show ?case by (simp add: create_plan_count)
next
  case (br_update_plan t db works p err db')
  then show ?case by (simp add: update_plan_count)
qed

text \<open>A plan cannot be created disabled: the column's default replaces the zero value.\<close>

lemma created_plan_enabled:
  assumes "PlanService_CreatePlan works now newID p db = (None, db')"
  shows "\<exists>q. db_plans db' = db_plans db @ [q] \<and> pl_ID q = newID \<and> pl_Enabled q"
  using assms
  by (auto simp: PlanService_CreatePlan_def DAO_CreatePlan_def plan_defaults_def split: if_splits)

text \<open>
  A user has at most one subscription in force. Starting from tables where that is so, through any
  sequence of subscriptions, lookups (which mark run-out subscriptions), batch expiries and creations,
  updates and deletions of plans, whichever other calls of the database fail, no user has two active subscriptions that have not
  run out; and a user with one in force cannot subscribe again.
\<close>

theorem single_subscription:
  assumes "billing_run t db" "t \<le> now"
  shows "active_count now db uid \<le> 1 \<and>
    (active_count (clk 0) db uid = 1 \<longrightarrow> works Q_active \<longrightarrow>
     (case PlanService_SubscribeUserToPlan works addDate clk newID uid pid months db of
        Inl p \<Rightarrow> True
      | Inr (r, db') \<Rightarrow> db' = db \<and> (\<exists>e. r = Inl e)))"
proof -
  have "active_count now db uid \<le> 1"
    using billing_run_count [OF assms(1), of uid] active_count_mono [OF assms(2), of db uid] by linarith
  moreover have "DAO_GetActiveSubscription (clk 0) db uid \<noteq> None" if "active_count (clk 0) db uid = 1"
    using that by (simp add: GetActive_None_iff)
  ultimately show ?thesis
    by (auto simp: PlanService_SubscribeUserToPlan_def split: option.splits)
qed

definition demo_plan :: plan_row where
  "demo_plan = \<lparr> pl_ID = ''p'', pl_Name = ''basic'', pl_Duration = 1, pl_DurationUnit = ''month'', pl_TrafficLimit = 100,
     pl_SpeedLimit = 0, pl_RuleLimit = 2, pl_Enabled = True, pl_SortOrder = 0, pl_CreatedAt = 0 \<rparr>"

theorem single_subscription_witness:
  "(let db = \<lparr> db_plans = [demo_plan], db_subs = [], db_tunnels = [] \<rparr> in
    case PlanService_SubscribeUserToPlan (\<lambda>_. True) (\<lambda>t y m d. t + 30 * m) int ''s1'' ''u'' ''p'' 1 db of
      Inr (Inr s, db1) \<Rightarrow> active_count 5 db1 ''u'' = 1 \<and> active_count 5 db1 ''u'' \<le> 1
    | _ \<Rightarrow> False)"
proof -
  define db where "db = \<lparr> db_plans = [demo_plan], db_subs = [], db_tunnels = [] \<rparr>"
  have start: "billing_run 0 db" by (rule br_start) (simp add: db_def active_count_def)
  obtain s db1 where sub: "PlanService_SubscribeUserToPlan (\<lambda>_. True) (\<lambda>t y m d. t + 30 * m) int ''s1'' ''u'' ''p'' 1 db =
      Inr (Inr s, db1)" and one: "active_count 5 db1 ''u'' = 1"
    by (auto simp: PlanService_SubscribeUserToPlan_def DAO_GetPlan_def db_def demo_plan_def expiry_def Let_def
        DAO_GetActiveSubscription_def DAO_CreateSubscription_def active_count_def is_active_def)
  have "billing_run 0 db1" by (rule br_subscribe [OF start _ _ _ sub]) simp_all
  then have "active_count 5 db1 ''u'' \<le> 1" using single_subscription [of 0 db1 5] by simp
  then show ?thesis using sub one by (simp add: db_def [symmetric])
qed

section \<open>Traffic quotas\<close>

text \<open>A request of \<open>bytes\<close> bytes as the callers make it: the check first, then the accounting.\<close>

definition guarded_request ::
    "user_quota option \<Rightarrow> int \<Rightarrow> string \<Rightarrow> int \<Rightarrow> traffic_limiter \<Rightarrow> bill_err option \<times> traffic_limiter" where
  "guarded_request ld now uid bytes lim =
     (case TrafficLimiter_CheckTrafficQuota ld uid bytes lim of
        Some e \<Rightarrow> (Some e, lim)
      | None \<Rightarrow> TrafficLimiter_AddTraffic ld now uid bytes lim)"

definition quotas_ok :: "traffic_limiter \<Rightarrow> bool" where
  "quotas_ok lim \<longleftrightarrow>
     (\<forall>uid q. map_of (tl_userQuotas lim) uid = Some q \<longrightarrow> uq_TrafficLimit q > 0 \<longrightarrow>
        0 \<le> uq_TrafficUsed q \<and> uq_TrafficUsed q \<le> uq_TrafficLimit q)"

lemma guarded_request_ok:
  assumes "quotas_ok lim" "0 \<le> bytes"
    and "\<And>q. ld = Some q \<Longrightarrow> uq_TrafficUsed q = 0"
    and "\<And>q. map_of (tl_userQuotas lim) uid = Some q \<or> ld = Some q \<Longrightarrow> uq_TrafficLimit q + bytes < 2 ^ 63"
    and "guarded_request ld now uid bytes lim = (err, lim')"
  shows "quotas_ok lim'"
proof (cases "lim' = lim")
  case False
  then obtain q where q: "map_of (tl_userQuotas lim) uid = Some q \<or> ld = Some q"
    and new: "lim' = lim\<lparr> tl_userQuotas := AList.update uid
      (q\<lparr> uq_TrafficUsed := add64 (uq_TrafficUsed q) bytes, uq_LastUpdate := now \<rparr>) (tl_userQuotas lim) \<rparr>"
    and chk: "\<not> (uq_TrafficLimit q > 0 \<and> add64 (uq_TrafficUsed q) bytes > uq_TrafficLimit q)"
    and stored: "map_of (tl_userQuotas lim) uid = Some q \<or> map_of (tl_userQuotas lim) uid = None"
    using assms(5) by (auto simp: guarded_request_def TrafficLimiter_CheckTrafficQuota_def TrafficLimiter_AddTraffic_def
        split: option.splits if_splits)
  have "0 \<le> add64 (uq_TrafficUsed q) bytes" if pos: "uq_TrafficLimit q > 0"
  proof -
    have u: "0 \<le> uq_TrafficUsed q \<and> uq_TrafficUsed q \<le> uq_TrafficLimit q"
      using assms(1,3) pos q stored by (auto simp: quotas_ok_def)
    then have "uq_TrafficUsed q + bytes < 2 ^ 63" using assms(4) [OF q] by linarith
    then show ?thesis using u assms(2) by simp
  qed
  then show ?thesis using assms(1) chk new by (auto simp: quotas_ok_def)
qed (use assms(1) in simp)

datatype quota_op = QRequest "user_quota option" int string int | QRefresh string

primrec quota_step :: "quota_op \<Rightarrow> traffic_limiter \<Rightarrow> traffic_limiter" where
  "quota_step (QRequest ld now uid bytes) lim = snd (guarded_request ld now uid bytes lim)"
| "quota_step (QRefresh uid) lim = TrafficLimiter_RefreshQuota uid lim"

primrec sane_op :: "int \<Rightarrow> int \<Rightarrow> quota_op \<Rightarrow> bool" where
  "sane_op L B (QRequest ld now uid bytes) \<longleftrightarrow>
     0 \<le> bytes \<and> bytes \<le> B \<and> (case ld of None \<Rightarrow> True | Some q \<Rightarrow> uq_TrafficUsed q = 0 \<and> uq_TrafficLimit q \<le> L)"
| "sane_op L B (QRefresh uid) \<longleftrightarrow> True"

definition limits_below :: "int \<Rightarrow> traffic_limiter \<Rightarrow> bool" where
  "limits_below L lim \<longleftrightarrow> (\<forall>uid q. map_of (tl_userQuotas lim) uid = Some q \<longrightarrow> uq_TrafficLimit q \<le> L)"

lemma limits_below_step:
  assumes "limits_below L lim" "sane_op L B x"
  shows "limits_below L (quota_step x lim)"
  using assms
  by (cases x) (auto simp: limits_below_def guarded_request_def TrafficLimiter_AddTraffic_def
      TrafficLimiter_RefreshQuota_def split: option.splits if_splits)

lemma quotas_ok_step:
  assumes "quotas_ok lim" "limits_below L lim" "sane_op L B x" "L + B < 2 ^ 63"
  shows "quotas_ok (quota_step x lim)"
proof (cases x)
  case (QRequest ld now uid bytes)
  have "quotas_ok (snd (guarded_request ld now uid bytes lim))"
  proof (rule guarded_request_ok [OF assms(1)])
    show "guarded_request ld now uid bytes lim =
      (fst (guarded_request ld now uid bytes lim), snd (guarded_request ld now uid bytes lim))" by simp
    show "0 \<le> bytes" using assms(3) QRequest by simp
    show "uq_TrafficUsed q = 0" if "ld = Some q" for q using assms(3) QRequest that by simp
    show "uq_TrafficLimit q + bytes < 2 ^ 63" if "map_of (tl_userQuotas lim) uid = Some q \<or> ld = Some q" for q
    proof -
      have "uq_TrafficLimit q \<le> L" "bytes \<le> B"
        using that assms(2,3) QRequest by (auto simp: limits_below_def)
      then show ?thesis using assms(4) by linarith
    qed
  qed
  then show ?thesis using QRequest by simp
next
  case (QRefresh uid)
  then show ?thesis using assms(1) by (auto simp: quotas_ok_def TrafficLimiter_RefreshQuota_def)
qed



end
