(* ===== verification/Failover.thy ===== *)
theory Failover
  imports Prelude
begin

text \<open>
  The failover events of the control plane, \<open>plane/internal/service/failover.go\<close>: ingress nodes report
  that a tunnel switched to its backup egress group or back, the service stores every event and keeps the
  tunnels that are switched over in memory. The table \<open>failover_events\<close> is the list of its rows, the
  queries are translated from their text. Times in the table are nanoseconds, in reports milliseconds.
\<close>

section \<open>Reports, events, service\<close>

record failover_report =
  fr_NodeID :: string
  fr_TunnelID :: string
  fr_EventType :: string
  fr_FromGroupID :: string
  fr_ToGroupID :: string
  fr_Reason :: string
  fr_FailureDuration :: int
  fr_Timestamp :: int

record failover_event =
  fe_NodeID :: string
  fe_TunnelID :: string
  fe_EventType :: string
  fe_FromGroupID :: string
  fe_ToGroupID :: string
  fe_Reason :: string
  fe_FailureDuration :: int
  fe_Timestamp :: int

record failover_service =
  fs_activeFailovers :: "(string \<times> failover_report) list"

definition NewFailoverService :: failover_service where
  "NewFailoverService = \<lparr> fs_activeFailovers = [] \<rparr>"

definition event_of :: "int \<Rightarrow> failover_report \<Rightarrow> failover_event" where
  "event_of now r =
     \<lparr> fe_NodeID = fr_NodeID r, fe_TunnelID = fr_TunnelID r, fe_EventType = fr_EventType r,
       fe_FromGroupID = fr_FromGroupID r, fe_ToGroupID = fr_ToGroupID r, fe_Reason = fr_Reason r,
       fe_FailureDuration = fr_FailureDuration r,
       fe_Timestamp = (if fr_Timestamp r = 0 then now else fr_Timestamp r * 10 ^ 6) \<rparr>"

definition cache_key :: "string \<Rightarrow> string \<Rightarrow> string" where
  "cache_key node tunnel = node @ '':'' @ tunnel"

text \<open>\<open>created\<close> says whether the row can be written; the first result that no error is returned.\<close>

definition FailoverService_HandleEvent ::
    "bool \<Rightarrow> int \<Rightarrow> failover_report \<Rightarrow> failover_service \<times> failover_event list \<Rightarrow>
     bool \<times> failover_service \<times> failover_event list" where
  "FailoverService_HandleEvent created now r s =
     (if \<not> created then (False, s)
      else
        (let db = snd s @ [event_of now r];
             k = cache_key (fr_NodeID r) (fr_TunnelID r);
             m = fs_activeFailovers (fst s);
             m' = (if fr_EventType r = ''failover'' then AList.update k r m
                   else if fr_EventType r = ''recovery'' then AList.delete k m else m) in
         (True, (fst s)\<lparr> fs_activeFailovers := m' \<rparr>, db)))"

definition FailoverService_GetActiveFailovers :: "string list \<Rightarrow> failover_service \<Rightarrow> failover_report list" where
  "FailoverService_GetActiveFailovers ord s = map (\<lambda>k. the (map_of (fs_activeFailovers s) k)) ord"

definition FailoverService_GetTunnelFailoverHistory :: "failover_event list \<Rightarrow> string \<Rightarrow> int \<Rightarrow> failover_event list" where
  "FailoverService_GetTunnelFailoverHistory db tunnel limit =
     take (nat (if limit \<le> 0 then 50 else limit))
       (sort_key (\<lambda>e. - fe_Timestamp e) (filter (\<lambda>e. fe_TunnelID e = tunnel) db))"

text \<open>The numbers of the summary: switched-over tunnels of the group, and events of the last day.\<close>

definition FailoverService_GetGroupFailoverSummary ::
    "int \<Rightarrow> failover_event list \<Rightarrow> string \<Rightarrow> failover_service \<Rightarrow> nat \<times> nat" where
  "FailoverService_GetGroupFailoverSummary now db gid s =
     (length (filter (\<lambda>(k, r). fr_FromGroupID r = gid) (fs_activeFailovers s)),
      length (filter (\<lambda>e. (fe_FromGroupID e = gid \<or> fe_ToGroupID e = gid)
                          \<and> fe_Timestamp e > now - 24 * 3600 * 10 ^ 9) db))"

text \<open>
  The query of \<open>loadActiveFailovers\<close>: the events of type \<open>failover\<close> that bear the greatest time of
  their node and tunnel. The order in which the database returns them is open, so the loop takes them as
  a list.
\<close>

definition latest_failovers :: "failover_event list \<Rightarrow> failover_event list" where
  "latest_failovers db =
     filter (\<lambda>e. fe_EventType e = ''failover'' \<and>
               list_all (\<lambda>e'. fe_NodeID e' = fe_NodeID e \<and> fe_TunnelID e' = fe_TunnelID e \<longrightarrow>
                              fe_Timestamp e' \<le> fe_Timestamp e) db) db"

definition report_of :: "failover_event \<Rightarrow> failover_report" where
  "report_of e =
     \<lparr> fr_NodeID = fe_NodeID e, fr_TunnelID = fe_TunnelID e, fr_EventType = fe_EventType e,
       fr_FromGroupID = fe_FromGroupID e, fr_ToGroupID = fe_ToGroupID e, fr_Reason = fe_Reason e,
       fr_FailureDuration = fe_FailureDuration e, fr_Timestamp = fe_Timestamp e div 10 ^ 6 \<rparr>"

definition FailoverService_loadActiveFailovers :: "failover_event list \<Rightarrow> failover_service \<Rightarrow> failover_service" where
  "FailoverService_loadActiveFailovers events s =
     s\<lparr> fs_activeFailovers :=
          fold (\<lambda>e. AList.update (cache_key (fe_NodeID e) (fe_TunnelID e)) (report_of e)) events
            (fs_activeFailovers s) \<rparr>"

section \<open>The memory and the table agree\<close>

definition node_ok :: "string \<Rightarrow> bool" where
  "node_ok n \<longleftrightarrow> CHR '':'' \<notin> set n"

lemma cache_key_inj:
  assumes "node_ok n" "node_ok n'" "cache_key n t = cache_key n' t'"
  shows "n = n' \<and> t = t'"
proof -
  have "takeWhile (\<lambda>c. c \<noteq> CHR '':'') (cache_key n t) = n" if "node_ok n" for n t
    using that by (induction n) (auto simp: cache_key_def node_ok_def)
  then have "n = n'" using assms by metis
  then show ?thesis using assms(3) by (simp add: cache_key_def)
qed

lemma report_of_event: "fr_Timestamp r \<noteq> 0 \<Longrightarrow> report_of (event_of now r) = r"
  by (simp add: report_of_def event_of_def)

text \<open>
  The runs in which the events of one node and tunnel arrive in the order of their times, are of the two
  types and carry a time; rows may fail to be written.
\<close>

inductive failover_run :: "failover_service \<Rightarrow> failover_event list \<Rightarrow> bool" where
  fr_new: "failover_run NewFailoverService []"
| fr_event: "failover_run s db \<Longrightarrow> node_ok (fr_NodeID r) \<Longrightarrow> fr_Timestamp r \<noteq> 0 \<Longrightarrow>
    fr_EventType r = ''failover'' \<or> fr_EventType r = ''recovery'' \<Longrightarrow>
    list_all (\<lambda>e. fe_NodeID e = fr_NodeID r \<and> fe_TunnelID e = fr_TunnelID r \<longrightarrow>
                  fe_Timestamp e < fr_Timestamp r * 10 ^ 6) db \<Longrightarrow>
    FailoverService_HandleEvent created now r (s, db) = (ok, s', db') \<Longrightarrow> failover_run s' db'"

definition agrees :: "failover_service \<Rightarrow> failover_event list \<Rightarrow> bool" where
  "agrees s db \<longleftrightarrow>
     list_all (\<lambda>e. node_ok (fe_NodeID e)) db \<and>
     (\<forall>n t r. node_ok n \<longrightarrow>
        (map_of (fs_activeFailovers s) (cache_key n t) = Some r \<longleftrightarrow>
         (\<exists>e \<in> set (latest_failovers db). fe_NodeID e = n \<and> fe_TunnelID e = t \<and> report_of e = r))) \<and>
     (\<forall>k \<in> dom (map_of (fs_activeFailovers s)). \<exists>n t. node_ok n \<and> k = cache_key n t)"

text \<open>What one more event, later than those of its tunnel, does to the answer of the query.\<close>

lemma in_latest:
  "x \<in> set (latest_failovers db) \<longleftrightarrow>
     x \<in> set db \<and> fe_EventType x = ''failover'' \<and>
     (\<forall>e' \<in> set db. fe_NodeID e' = fe_NodeID x \<and> fe_TunnelID e' = fe_TunnelID x \<longrightarrow> fe_Timestamp e' \<le> fe_Timestamp x)"
  by (auto simp: latest_failovers_def list_all_iff)

lemma latest_append:
  assumes "list_all (\<lambda>e'. fe_NodeID e' = fe_NodeID e \<and> fe_TunnelID e' = fe_TunnelID e \<longrightarrow>
      fe_Timestamp e' < fe_Timestamp e) db"
  shows "x \<in> set (latest_failovers (db @ [e])) \<longleftrightarrow>
    (if fe_NodeID x = fe_NodeID e \<and> fe_TunnelID x = fe_TunnelID e then x = e \<and> fe_EventType e = ''failover''
     else x \<in> set (latest_failovers db))"
proof (cases "fe_NodeID x = fe_NodeID e \<and> fe_TunnelID x = fe_TunnelID e")
  case True
  have "x \<notin> set (latest_failovers (db @ [e]))" if "x \<noteq> e"
  proof
    assume "x \<in> set (latest_failovers (db @ [e]))"
    then have "x \<in> set db" "fe_Timestamp e \<le> fe_Timestamp x"
      using that True by (auto simp: in_latest)
    then show False using assms True by (fastforce simp: list_all_iff)
  qed
  moreover have "e \<in> set (latest_failovers (db @ [e])) \<longleftrightarrow> fe_EventType e = ''failover''"
    using assms by (auto simp: in_latest list_all_iff intro: less_imp_le)
  ultimately show ?thesis using True by auto
next
  case False
  then show ?thesis by (auto simp: in_latest)
qed

lemma agrees_event:
  assumes "agrees s db" "node_ok (fr_NodeID r)" "fr_Timestamp r \<noteq> 0"
    and "fr_EventType r = ''failover'' \<or> fr_EventType r = ''recovery''"
    and "list_all (\<lambda>e. fe_NodeID e = fr_NodeID r \<and> fe_TunnelID e = fr_TunnelID r \<longrightarrow>
                  fe_Timestamp e < fr_Timestamp r * 10 ^ 6) db"
    and "FailoverService_HandleEvent created now r (s, db) = (ok, s', db')"
  shows "agrees s' db'"
proof (cases created)
  case True
  define k where "k = cache_key (fr_NodeID r) (fr_TunnelID r)"
  define e where "e = event_of now r"
  have db': "db' = db @ [e]" and m': "map_of (fs_activeFailovers s') =
      (map_of (fs_activeFailovers s))(k := (if fr_EventType r = ''failover'' then Some r else None))"
    using assms(4,6) True by (auto simp: FailoverService_HandleEvent_def Let_def k_def e_def)
  have e: "fe_NodeID e = fr_NodeID r" "fe_TunnelID e = fr_TunnelID r" "fe_EventType e = fr_EventType r"
    "fe_Timestamp e = fr_Timestamp r * 10 ^ 6" "report_of e = r"
    using assms(3) report_of_event [of r now] by (simp_all add: e_def event_of_def)
  have la: "x \<in> set (latest_failovers db') \<longleftrightarrow>
    (if fe_NodeID x = fr_NodeID r \<and> fe_TunnelID x = fr_TunnelID r then x = e \<and> fr_EventType r = ''failover''
     else x \<in> set (latest_failovers db))" for x
    unfolding db' using latest_append [of e db x] assms(5) e by simp
  have "map_of (fs_activeFailovers s') (cache_key n t) = Some q \<longleftrightarrow>
      (\<exists>x \<in> set (latest_failovers db'). fe_NodeID x = n \<and> fe_TunnelID x = t \<and> report_of x = q)"
    if n: "node_ok n" for n t q
  proof (cases "n = fr_NodeID r \<and> t = fr_TunnelID r")
    case True
    then have "map_of (fs_activeFailovers s') (cache_key n t) = (if fr_EventType r = ''failover'' then Some r else None)"
      by (simp add: m' k_def)
    moreover have "(\<exists>x \<in> set (latest_failovers db'). fe_NodeID x = n \<and> fe_TunnelID x = t \<and> report_of x = q) \<longleftrightarrow>
        fr_EventType r = ''failover'' \<and> r = q"
      using True e(1,2,5) la by (metis (no_types, lifting))
    ultimately show ?thesis by (simp split: if_splits)
  next
    case False
    then have "cache_key n t \<noteq> k" using cache_key_inj [OF n assms(2)] unfolding k_def by blast
    then have "map_of (fs_activeFailovers s') (cache_key n t) = map_of (fs_activeFailovers s) (cache_key n t)"
      by (simp add: m')
    moreover have "(\<exists>x \<in> set (latest_failovers db'). fe_NodeID x = n \<and> fe_TunnelID x = t \<and> report_of x = q) \<longleftrightarrow>
        (\<exists>x \<in> set (latest_failovers db). fe_NodeID x = n \<and> fe_TunnelID x = t \<and> report_of x = q)"
      using False la by metis
    ultimately show ?thesis using assms(1) n unfolding agrees_def by simp
  qed
  moreover have "\<exists>n t. node_ok n \<and> x = cache_key n t" if "x \<in> dom (map_of (fs_activeFailovers s'))" for x
  proof (cases "x = k")
    case True
    then show ?thesis using assms(2) unfolding k_def by blast
  next
    case False
    then have "x \<in> dom (map_of (fs_activeFailovers s))" using that by (auto simp: m' split: if_splits)
    then show ?thesis using assms(1) unfolding agrees_def by blast
  qed
  moreover have "list_all (\<lambda>e. node_ok (fe_NodeID e)) db'" using assms(1,2) e(1) by (simp add: agrees_def db')
  ultimately show ?thesis unfolding agrees_def by blast
qed (use assms in \<open>simp add: FailoverService_HandleEvent_def\<close>)

lemma failover_run_agrees: "failover_run s db \<Longrightarrow> agrees s db"
proof (induction rule: failover_run.induct)
  case fr_new
  then show ?case by (simp add: agrees_def NewFailoverService_def latest_failovers_def)
next
  case (fr_event s db r created now ok s' db')
  show ?case by (rule agrees_event [OF fr_event.IH fr_event.hyps(2-6)])
qed



end
