(* ===== verification/Incremental_Sync.thy ===== *)
theory Incremental_Sync
  imports Prelude
begin

text \<open>
  The change log of the control plane, \<open>plane/internal/service/incremental_sync.go\<close>: changes are
  recorded with a time, and each node fetches those since its last fetch. Times are nanoseconds, the zero
  time of Go is \<open>None\<close>; the payload of a change is opaque.
\<close>

section \<open>The service\<close>

record change =
  ch_EntityType :: string
  ch_EntityID :: string
  ch_Action :: string
  ch_Data :: string
  ch_Timestamp :: "int option"

record sync_service =
  is_lastSync :: "(string \<times> int) list"
  is_changeLog :: "change list"

definition NewIncrementalSyncService :: sync_service where
  "NewIncrementalSyncService = \<lparr> is_lastSync = [], is_changeLog = [] \<rparr>"

text \<open>\<open>a.After(b)\<close>, where the zero time lies before every other.\<close>

definition time_After :: "int option \<Rightarrow> int option \<Rightarrow> bool" where
  "time_After a b = (case (a, b) of (None, _) \<Rightarrow> False | (Some _, None) \<Rightarrow> True | (Some x, Some y) \<Rightarrow> x > y)"

definition IncrementalSync_RecordChange :: "int \<Rightarrow> change \<Rightarrow> sync_service \<Rightarrow> sync_service" where
  "IncrementalSync_RecordChange now c s =
     (let c1 = (if ch_Timestamp c = None then c\<lparr> ch_Timestamp := Some now \<rparr> else c) in
      s\<lparr> is_changeLog := is_changeLog s @ [c1] \<rparr>)"

definition IncrementalSync_GetChanges :: "int \<Rightarrow> string \<Rightarrow> sync_service \<Rightarrow> change list \<times> sync_service" where
  "IncrementalSync_GetChanges now node s =
     (let lastSync = map_of (is_lastSync s) node in
      (filter (\<lambda>c. time_After (ch_Timestamp c) lastSync) (is_changeLog s),
       s\<lparr> is_lastSync := AList.update node now (is_lastSync s) \<rparr>))"

definition IncrementalSync_CleanupOldChanges :: "int \<Rightarrow> int \<Rightarrow> sync_service \<Rightarrow> sync_service" where
  "IncrementalSync_CleanupOldChanges now retention s =
     s\<lparr> is_changeLog := filter (\<lambda>c. time_After (ch_Timestamp c) (Some (now - retention))) (is_changeLog s) \<rparr>"

section \<open>Delivery\<close>

text \<open>
  Runs at strictly increasing instants, in which changes come without a time of their own. The last two
  arguments are all changes recorded, as stamped, and what each node has been given so far. Old changes
  are only dropped once every node in \<open>nodes\<close> has fetched them.
\<close>

inductive sync_run :: "string set \<Rightarrow> sync_service \<Rightarrow> int \<Rightarrow> change list \<Rightarrow> (string \<Rightarrow> change list) \<Rightarrow> bool"
  for nodes where
  sr_new: "sync_run nodes NewIncrementalSyncService t [] (\<lambda>_. [])"
| sr_record: "sync_run nodes s t log got \<Longrightarrow> t < now \<Longrightarrow> ch_Timestamp c = None \<Longrightarrow>
    s' = IncrementalSync_RecordChange now c s \<Longrightarrow>
    sync_run nodes s' now (log @ [c\<lparr> ch_Timestamp := Some now \<rparr>]) got"
| sr_fetch: "sync_run nodes s t log got \<Longrightarrow> t < now \<Longrightarrow>
    IncrementalSync_GetChanges now n s = (cs, s') \<Longrightarrow>
    sync_run nodes s' now log (got(n := got n @ cs))"
| sr_cleanup: "sync_run nodes s t log got \<Longrightarrow> t < now \<Longrightarrow>
    (\<And>n. n \<in> nodes \<Longrightarrow> \<exists>u. map_of (is_lastSync s) n = Some u \<and> now - retention \<le> u) \<Longrightarrow>
    s' = IncrementalSync_CleanupOldChanges now retention s \<Longrightarrow>
    sync_run nodes s' now log got"

abbreviation seen :: "int option \<Rightarrow> change \<Rightarrow> bool" where
  "seen u c \<equiv> \<not> time_After (ch_Timestamp c) u"

definition sync_inv :: "string set \<Rightarrow> sync_service \<Rightarrow> int \<Rightarrow> change list \<Rightarrow> (string \<Rightarrow> change list) \<Rightarrow> bool" where
  "sync_inv nodes s t log got \<longleftrightarrow>
     (\<forall>c \<in> set log. \<exists>u. ch_Timestamp c = Some u \<and> u \<le> t) \<and>
     sorted (map (\<lambda>c. the (ch_Timestamp c)) log) \<and>
     (\<forall>n u. map_of (is_lastSync s) n = Some u \<longrightarrow> u \<le> t) \<and>
     (\<forall>n \<in> nodes. got n = filter (seen (map_of (is_lastSync s) n)) log \<and>
        filter (\<lambda>c. time_After (ch_Timestamp c) (map_of (is_lastSync s) n)) (is_changeLog s) =
        filter (\<lambda>c. time_After (ch_Timestamp c) (map_of (is_lastSync s) n)) log)"

lemma filter_sorted_split:
  assumes "sorted (map f xs)"
  shows "filter (\<lambda>x. f x \<le> (a :: int)) xs @ filter (\<lambda>x. f x > a) xs = xs"
  using assms
proof (induction xs)
  case (Cons x xs)
  show ?case
  proof (cases "f x \<le> a")
    case True
    then show ?thesis using Cons by simp
  next
    case False
    then have "\<forall>y \<in> set xs. \<not> f y \<le> a" using Cons.prems by auto
    then have "filter (\<lambda>x. f x \<le> a) xs = []" "filter (\<lambda>x. f x > a) xs = xs" by (auto simp: filter_empty_conv filter_id_conv)
    then show ?thesis using False by simp
  qed
qed simp

lemma seen_split:
  assumes "\<forall>c \<in> set log. \<exists>u. ch_Timestamp c = Some u \<and> u \<le> t" "sorted (map (\<lambda>c. the (ch_Timestamp c)) log)"
  shows "filter (seen u) log @ filter (\<lambda>c. time_After (ch_Timestamp c) u) log = log"
proof (cases u)
  case None
  have "time_After (ch_Timestamp c) None" if "c \<in> set log" for c using assms(1) that by (auto simp: time_After_def)
  then show ?thesis using None by (simp add: filter_empty_conv filter_id_conv)
next
  case (Some a)
  have "time_After (ch_Timestamp c) u \<longleftrightarrow> the (ch_Timestamp c) > a" if "c \<in> set log" for c
    using assms(1) that Some by (auto simp: time_After_def)
  then have "filter (seen u) log = filter (\<lambda>c. the (ch_Timestamp c) \<le> a) log"
    "filter (\<lambda>c. time_After (ch_Timestamp c) u) log = filter (\<lambda>c. the (ch_Timestamp c) > a) log"
    by (auto intro!: filter_cong)
  then show ?thesis using filter_sorted_split [OF assms(2)] by simp
qed

lemma filter_After_weaken:
  assumes "a \<le> u"
  shows "filter (\<lambda>c. time_After (ch_Timestamp c) (Some u)) (filter (\<lambda>c. time_After (ch_Timestamp c) (Some a)) xs) =
    filter (\<lambda>c. time_After (ch_Timestamp c) (Some u)) xs"
  using assms by (induction xs) (auto simp: time_After_def split: option.splits)

lemma sync_inv_record:
  assumes inv: "sync_inv nodes s t log got" and t: "t < now" and c: "ch_Timestamp c = None"
  shows "sync_inv nodes (IncrementalSync_RecordChange now c s) now (log @ [c\<lparr> ch_Timestamp := Some now \<rparr>]) got"
proof -
  have new: "time_After (Some now) u" if "\<forall>v. u = Some v \<longrightarrow> v \<le> t" for u
    using that t by (cases u) (auto simp: time_After_def)
  have last: "\<forall>v. map_of (is_lastSync s) n = Some v \<longrightarrow> v \<le> t" for n
    using inv by (simp add: sync_inv_def)
  have "sorted (map (\<lambda>c. the (ch_Timestamp c)) log @ [now])"
    using inv t by (fastforce simp: sync_inv_def sorted_append)
  moreover have "\<forall>x \<in> set log. \<exists>u. ch_Timestamp x = Some u \<and> u \<le> now"
    using inv t by (fastforce simp: sync_inv_def)
  moreover have "\<forall>n u. map_of (is_lastSync s) n = Some u \<longrightarrow> u \<le> now" using last t by fastforce
  ultimately show ?thesis
    using inv c new [OF last] by (simp add: sync_inv_def IncrementalSync_RecordChange_def)
qed

lemma sync_inv_fetch:
  assumes inv: "sync_inv nodes s t log got" and t: "t < now"
    and g: "IncrementalSync_GetChanges now n s = (cs, s')"
  shows "sync_inv nodes s' now log (got(n := got n @ cs))"
proof -
  have cs: "cs = filter (\<lambda>c. time_After (ch_Timestamp c) (map_of (is_lastSync s) n)) (is_changeLog s)"
    and s': "map_of (is_lastSync s') = (map_of (is_lastSync s))(n \<mapsto> now)" "is_changeLog s' = is_changeLog s"
    using g by (auto simp: IncrementalSync_GetChanges_def Let_def)
  have times: "\<forall>c \<in> set log. \<exists>u. ch_Timestamp c = Some u \<and> u \<le> t" "sorted (map (\<lambda>c. the (ch_Timestamp c)) log)"
    using inv by (auto simp: sync_inv_def)
  have all: "seen (Some now) c" if "c \<in> set log" for c
    using times(1) that t by (fastforce simp: time_After_def)
  have none: "filter (\<lambda>c. time_After (ch_Timestamp c) (Some now)) log = []"
    using all by (simp add: filter_empty_conv)
  have "got n @ cs = filter (seen (Some now)) log"
    if "n \<in> nodes"
  proof -
    have "got n @ cs = log" using inv that cs seen_split [OF times] by (simp add: sync_inv_def)
    then show ?thesis using all by (simp add: filter_id_conv)
  qed
  moreover have "filter (\<lambda>c. time_After (ch_Timestamp c) (Some now)) (is_changeLog s) = []" if "n \<in> nodes"
  proof -
    have "filter (\<lambda>c. time_After (ch_Timestamp c) (map_of (is_lastSync s) n)) (is_changeLog s) =
        filter (\<lambda>c. time_After (ch_Timestamp c) (map_of (is_lastSync s) n)) log"
      using inv that by (simp add: sync_inv_def)
    then have "\<forall>c \<in> set (is_changeLog s). time_After (ch_Timestamp c) (map_of (is_lastSync s) n) \<longrightarrow> c \<in> set log"
      by (metis (no_types, lifting) mem_Collect_eq set_filter)
    moreover have "time_After (ch_Timestamp c) (map_of (is_lastSync s) n)"
      if "time_After (ch_Timestamp c) (Some now)" for c
    proof -
      have "\<forall>v. map_of (is_lastSync s) n = Some v \<longrightarrow> v \<le> t" using inv by (simp add: sync_inv_def)
      then show ?thesis using that t
        by (cases "map_of (is_lastSync s) n"; cases "ch_Timestamp c") (auto simp: time_After_def)
    qed
    ultimately show ?thesis using all by (auto simp: filter_empty_conv)
  qed
  moreover have "\<forall>c \<in> set log. \<exists>u. ch_Timestamp c = Some u \<and> u \<le> now" using times(1) t by fastforce
  moreover have "\<forall>k u. map_of (is_lastSync s') k = Some u \<longrightarrow> u \<le> now"
  proof (intro allI impI)
    fix k u
    assume "map_of (is_lastSync s') k = Some u"
    then have "k = n \<and> u = now \<or> map_of (is_lastSync s) k = Some u" using s'(1) by (auto split: if_splits)
    then show "u \<le> now" using inv t by (fastforce simp: sync_inv_def)
  qed
  moreover have "filter (seen (map_of (is_lastSync s') k)) log = (got(n := got n @ cs)) k \<and>
      filter (\<lambda>c. time_After (ch_Timestamp c) (map_of (is_lastSync s') k)) (is_changeLog s') =
      filter (\<lambda>c. time_After (ch_Timestamp c) (map_of (is_lastSync s') k)) log" if k: "k \<in> nodes" for k
  proof (cases "k = n")
    case True
    then show ?thesis using k calculation(1,2) none s' by simp
  next
    case False
    then show ?thesis using k inv s' by (simp add: sync_inv_def)
  qed
  ultimately show ?thesis unfolding sync_inv_def using times(2) by metis
qed

lemma sync_inv_cleanup:
  assumes inv: "sync_inv nodes s t log got" and t: "t < now"
    and old: "\<And>n. n \<in> nodes \<Longrightarrow> \<exists>u. map_of (is_lastSync s) n = Some u \<and> now - retention \<le> u"
  shows "sync_inv nodes (IncrementalSync_CleanupOldChanges now retention s) now log got"
proof -
  have "filter (\<lambda>c. time_After (ch_Timestamp c) (map_of (is_lastSync s) n))
      (filter (\<lambda>c. time_After (ch_Timestamp c) (Some (now - retention))) (is_changeLog s)) =
    filter (\<lambda>c. time_After (ch_Timestamp c) (map_of (is_lastSync s) n)) (is_changeLog s)" if "n \<in> nodes" for n
    using old [OF that] filter_After_weaken by metis
  moreover have "\<forall>c \<in> set log. \<exists>u. ch_Timestamp c = Some u \<and> u \<le> now" using inv t by (fastforce simp: sync_inv_def)
  moreover have "\<forall>k u. map_of (is_lastSync s) k = Some u \<longrightarrow> u \<le> now" using inv t by (fastforce simp: sync_inv_def)
  ultimately show ?thesis
    using inv by (simp add: sync_inv_def IncrementalSync_CleanupOldChanges_def del: filter_filter)
qed

lemma sync_run_inv: "sync_run nodes s t log got \<Longrightarrow> sync_inv nodes s t log got"
proof (induction rule: sync_run.induct)
  case (sr_new t)
  then show ?case by (simp add: sync_inv_def NewIncrementalSyncService_def)
next
  case (sr_record s t log got now c s')
  then show ?case using sync_inv_record by blast
next
  case (sr_fetch s t log got now n cs s')
  then show ?case using sync_inv_fetch by blast
next
  case (sr_cleanup s t log got now retention s')
  then show ?case using sync_inv_cleanup by blast
qed



end
