(* ===== verification/Group_Cache.thy ===== *)
theory Group_Cache
  imports Prelude
begin

text \<open>
  The cache of node groups in the control plane, \<open>plane/internal/service/node_group_cache.go\<close>. The zero
  time of Go is \<open>None\<close>; the content of the database at an instant is a function of the instant. An
  operation takes its readings of the clock in the order it makes them: the freshness check, the query,
  the stamp. Of a group the fields the cache reads are kept, with the rest as opaque text.
\<close>

section \<open>The cache\<close>

record node_group =
  ng_ID :: string
  ng_Role :: string
  ng_Rest :: string

record online_entry =
  oe_Count :: int
  oe_UpdatedAt :: int

record group_cache =
  gc_groups :: "node_group list"
  gc_groupIndex :: "(string \<times> node_group) list"
  gc_groupsAt :: "int option"
  gc_groupsTTL :: int
  gc_onlineCounts :: "(string \<times> online_entry) list"
  gc_onlineTTL :: int

definition NewNodeGroupCache :: group_cache where
  "NewNodeGroupCache =
     \<lparr> gc_groups = [], gc_groupIndex = [], gc_groupsAt = None, gc_groupsTTL = 30 * 10 ^ 9,
       gc_onlineCounts = [], gc_onlineTTL = 10 * 10 ^ 9 \<rparr>"

text \<open>\<open>time.Since(groupsAt) < groupsTTL\<close>; the time since the zero time is the greatest duration.\<close>

definition groups_fresh :: "int \<Rightarrow> group_cache \<Rightarrow> bool" where
  "groups_fresh now c = (case gc_groupsAt c of None \<Rightarrow> False | Some t \<Rightarrow> now - t < gc_groupsTTL c)"

text \<open>\<open>found\<close> is the result of the query, \<open>None\<close> when it fails.\<close>

definition NodeGroupCache_refreshGroups :: "node_group list option \<Rightarrow> int \<Rightarrow> group_cache \<Rightarrow> group_cache" where
  "NodeGroupCache_refreshGroups found now c =
     (case found of
        None \<Rightarrow> c
      | Some groups \<Rightarrow>
          c\<lparr> gc_groups := groups,
             gc_groupIndex := fold (\<lambda>g. AList.update (ng_ID g) g) groups [],
             gc_groupsAt := Some now \<rparr>)"

definition NodeGroupCache_GetGroup ::
    "int \<Rightarrow> node_group list option \<Rightarrow> int \<Rightarrow> string \<Rightarrow> group_cache \<Rightarrow> node_group option \<times> group_cache" where
  "NodeGroupCache_GetGroup now found stamp gid c =
     (if groups_fresh now c then (map_of (gc_groupIndex c) gid, c)
      else (let c1 = NodeGroupCache_refreshGroups found stamp c in (map_of (gc_groupIndex c1) gid, c1)))"

definition NodeGroupCache_ListGroups ::
    "int \<Rightarrow> node_group list option \<Rightarrow> int \<Rightarrow> group_cache \<Rightarrow> node_group list \<times> group_cache" where
  "NodeGroupCache_ListGroups now found stamp c =
     (if groups_fresh now c then (gc_groups c, c)
      else (let c1 = NodeGroupCache_refreshGroups found stamp c in (gc_groups c1, c1)))"

definition NodeGroupCache_ListGroupsByRole ::
    "int \<Rightarrow> node_group list option \<Rightarrow> int \<Rightarrow> string \<Rightarrow> group_cache \<Rightarrow> node_group list \<times> group_cache" where
  "NodeGroupCache_ListGroupsByRole now found stamp role c =
     (let (all, c1) = NodeGroupCache_ListGroups now found stamp c in
      (filter (\<lambda>g. ng_Role g = role \<or> ng_Role g = ''both'') all, c1))"

definition NodeGroupCache_SetOnlineCount :: "int \<Rightarrow> string \<Rightarrow> int \<Rightarrow> group_cache \<Rightarrow> group_cache" where
  "NodeGroupCache_SetOnlineCount now gid n c =
     c\<lparr> gc_onlineCounts := AList.update gid \<lparr> oe_Count = n, oe_UpdatedAt = now \<rparr> (gc_onlineCounts c) \<rparr>"

text \<open>\<open>counted\<close> is what the count query leaves in the variable, zero when it fails: the error is ignored.\<close>

definition NodeGroupCache_GetOnlineCount :: "int \<Rightarrow> int \<Rightarrow> int \<Rightarrow> string \<Rightarrow> group_cache \<Rightarrow> int \<times> group_cache" where
  "NodeGroupCache_GetOnlineCount now counted stamp gid c =
     (case map_of (gc_onlineCounts c) gid of
        Some e \<Rightarrow>
          if now - oe_UpdatedAt e < gc_onlineTTL c then (oe_Count e, c)
          else (counted, NodeGroupCache_SetOnlineCount stamp gid counted c)
      | None \<Rightarrow> (counted, NodeGroupCache_SetOnlineCount stamp gid counted c))"

definition NodeGroupCache_InvalidateGroup :: "string \<Rightarrow> group_cache \<Rightarrow> group_cache" where
  "NodeGroupCache_InvalidateGroup gid c =
     c\<lparr> gc_groupsAt := None, gc_onlineCounts := AList.delete gid (gc_onlineCounts c) \<rparr>"

definition NodeGroupCache_InvalidateAll :: "group_cache \<Rightarrow> group_cache" where
  "NodeGroupCache_InvalidateAll c = c\<lparr> gc_groupsAt := None, gc_onlineCounts := [] \<rparr>"

section \<open>How stale an answer can be\<close>

text \<open>
  The runs against a database whose content at instant \<open>t\<close> is \<open>h t\<close>, and which answers every query. The
  clock does not go back. The last argument is the instant of the last invalidation, if any.
\<close>

inductive cache_run :: "(int \<Rightarrow> node_group list) \<Rightarrow> group_cache \<Rightarrow> int \<Rightarrow> int \<Rightarrow> bool" for h where
  gr_new: "cache_run h NewNodeGroupCache t t"
| gr_list: "cache_run h c t u \<Longrightarrow> t \<le> now \<Longrightarrow> now \<le> q \<Longrightarrow> q \<le> stamp \<Longrightarrow>
    NodeGroupCache_ListGroups now (Some (h q)) stamp c = (gs, c') \<Longrightarrow> cache_run h c' stamp u"
| gr_get: "cache_run h c t u \<Longrightarrow> t \<le> now \<Longrightarrow> now \<le> q \<Longrightarrow> q \<le> stamp \<Longrightarrow>
    NodeGroupCache_GetGroup now (Some (h q)) stamp gid c = (g, c') \<Longrightarrow> cache_run h c' stamp u"
| gr_online: "cache_run h c t u \<Longrightarrow> t \<le> now \<Longrightarrow> now \<le> stamp \<Longrightarrow>
    NodeGroupCache_GetOnlineCount now n stamp gid c = (r, c') \<Longrightarrow> cache_run h c' stamp u"
| gr_set: "cache_run h c t u \<Longrightarrow> t \<le> now \<Longrightarrow>
    cache_run h (NodeGroupCache_SetOnlineCount now gid n c) now u"
| gr_invalidate: "cache_run h c t u \<Longrightarrow> t \<le> now \<Longrightarrow>
    cache_run h (NodeGroupCache_InvalidateGroup gid c) now now"
| gr_invalidate_all: "cache_run h c t u \<Longrightarrow> t \<le> now \<Longrightarrow>
    cache_run h (NodeGroupCache_InvalidateAll c) now now"

text \<open>The cached list is the content at the instant of a query no older than the last invalidation.\<close>

definition cache_inv :: "(int \<Rightarrow> node_group list) \<Rightarrow> group_cache \<Rightarrow> int \<Rightarrow> int \<Rightarrow> bool" where
  "cache_inv h c t u \<longleftrightarrow>
     u \<le> t \<and> gc_groupsTTL c = 30 * 10 ^ 9 \<and>
     gc_groupIndex c = fold (\<lambda>g. AList.update (ng_ID g) g) (gc_groups c) [] \<and>
     (\<forall>s. gc_groupsAt c = Some s \<longrightarrow> (\<exists>q. u \<le> q \<and> q \<le> s \<and> s \<le> t \<and> gc_groups c = h q))"

lemma cache_inv_later: "cache_inv h c t u \<Longrightarrow> t \<le> t' \<Longrightarrow> cache_inv h c t' u"
  by (fastforce simp: cache_inv_def)

lemma cache_inv_refresh:
  assumes "cache_inv h c t u" "t \<le> q" "q \<le> stamp"
  shows "cache_inv h (NodeGroupCache_refreshGroups (Some (h q)) stamp c) stamp u"
  using assms by (auto simp: cache_inv_def NodeGroupCache_refreshGroups_def intro!: exI [of _ q])

lemma cache_inv_online:
  "cache_inv h c t u \<Longrightarrow> cache_inv h (NodeGroupCache_SetOnlineCount now gid n c) t u"
  by (simp add: cache_inv_def NodeGroupCache_SetOnlineCount_def)

lemma cache_run_inv: "cache_run h c t u \<Longrightarrow> cache_inv h c t u"
proof (induction rule: cache_run.induct)
  case (gr_new t)
  then show ?case by (simp add: cache_inv_def NewNodeGroupCache_def)
next
  case (gr_list c t u now q stamp gs c')
  then have "c' = c \<or> c' = NodeGroupCache_refreshGroups (Some (h q)) stamp c"
    by (auto simp: NodeGroupCache_ListGroups_def Let_def split: if_splits)
  then show ?case using gr_list cache_inv_later [of h c t u stamp] cache_inv_refresh [of h c t u q stamp] by auto
next
  case (gr_get c t u now q stamp gid g c')
  then have "c' = c \<or> c' = NodeGroupCache_refreshGroups (Some (h q)) stamp c"
    by (auto simp: NodeGroupCache_GetGroup_def Let_def split: if_splits)
  then show ?case using gr_get cache_inv_later [of h c t u stamp] cache_inv_refresh [of h c t u q stamp] by auto
next
  case (gr_online c t u now stamp n gid r c')
  then have "c' = c \<or> c' = NodeGroupCache_SetOnlineCount stamp gid n c"
    by (auto simp: NodeGroupCache_GetOnlineCount_def split: option.splits if_splits)
  then show ?case using gr_online cache_inv_later [of h c t u stamp] cache_inv_online by fastforce
next
  case (gr_set c t u now gid n)
  then show ?case by (simp add: cache_inv_later cache_inv_online)
next
  case (gr_invalidate c t u now gid)
  then show ?case by (simp add: cache_inv_def NodeGroupCache_InvalidateGroup_def)
next
  case (gr_invalidate_all c t u now)
  then show ?case by (simp add: cache_inv_def NodeGroupCache_InvalidateAll_def)
qed

text \<open>
  How fresh the answers are. While the database answers, the list that \<open>ListGroups\<close> returns at an
  instant, through any mixture of lookups, counts and invalidations before, is the content of the
  database at the instant of some query that was made after the last invalidation and stored less than
  thirty seconds before; and \<open>GetGroup\<close> finds the group of that content with the given ID, the last one
  if there are several, or nothing when the content has none.
\<close>

theorem groups_freshness:
  assumes "cache_run h c t u" "t \<le> now" "now \<le> q" "q \<le> stamp"
    and "NodeGroupCache_ListGroups now (Some (h q)) stamp c = (gs, c')"
    and "NodeGroupCache_GetGroup now (Some (h q)) stamp gid c = (g, c'')"
  shows "\<exists>q0 s. u \<le> q0 \<and> q0 \<le> s \<and> now - s < 30 * 10 ^ 9 \<and> s \<le> stamp \<and> gs = h q0 \<and>
    g = map_of (rev (map (\<lambda>x. (ng_ID x, x)) (h q0))) gid"
proof -
  have inv: "cache_inv h c t u" using assms(1) by (rule cache_run_inv)
  have idx: "map_of (fold (\<lambda>x. AList.update (ng_ID x) x) xs []) gid = map_of (rev (map (\<lambda>x. (ng_ID x, x)) xs)) gid" for xs
    by (simp add: map_of_fold_update)
  show ?thesis
  proof (cases "groups_fresh now c")
    case True
    then obtain s where s: "gc_groupsAt c = Some s" "now - s < 30 * 10 ^ 9"
      using inv by (auto simp: groups_fresh_def cache_inv_def split: option.splits)
    then obtain q0 where "u \<le> q0" "q0 \<le> s" "s \<le> t" "gc_groups c = h q0" using inv by (auto simp: cache_inv_def)
    moreover have "gs = gc_groups c" "g = map_of (gc_groupIndex c) gid"
      using True assms(5,6) by (auto simp: NodeGroupCache_ListGroups_def NodeGroupCache_GetGroup_def)
    ultimately show ?thesis
      using s inv idx assms(2-4) by (intro exI [of _ q0] exI [of _ s]) (auto simp: cache_inv_def)
  next
    case False
    have "u \<le> t" using inv by (simp add: cache_inv_def)
    moreover have "gs = h q" "g = map_of (fold (\<lambda>x. AList.update (ng_ID x) x) (h q) []) gid"
      using False assms(5,6)
      by (auto simp: NodeGroupCache_ListGroups_def NodeGroupCache_GetGroup_def NodeGroupCache_refreshGroups_def Let_def)
    ultimately show ?thesis
      using idx assms(2-4) by (intro exI [of _ q] exI [of _ stamp]) auto
  qed
qed

theorem groups_freshness_witness:
  "\<exists>q0. NodeGroupCache_ListGroups 5 (Some [\<lparr> ng_ID = ''g'', ng_Role = ''both'', ng_Rest = [] \<rparr>]) 7
      (NodeGroupCache_InvalidateAll NewNodeGroupCache) =
      ((\<lambda>t :: int. [\<lparr> ng_ID = ''g'', ng_Role = ''both'', ng_Rest = [] \<rparr>]) q0,
       snd (NodeGroupCache_ListGroups 5 (Some [\<lparr> ng_ID = ''g'', ng_Role = ''both'', ng_Rest = [] \<rparr>]) 7
         (NodeGroupCache_InvalidateAll NewNodeGroupCache))) \<and> 3 \<le> q0"
proof -
  define h where "h = (\<lambda>t :: int. [\<lparr> ng_ID = ''g'', ng_Role = ''both'', ng_Rest = [] :: char list \<rparr>])"
  have run: "cache_run h (NodeGroupCache_InvalidateAll NewNodeGroupCache) 3 3"
    by (rule gr_invalidate_all [OF gr_new [of _ 0]]) simp
  obtain gs c' where l: "NodeGroupCache_ListGroups 5 (Some (h 6)) 7 (NodeGroupCache_InvalidateAll NewNodeGroupCache) = (gs, c')"
    by (metis surj_pair)
  obtain g c'' where g: "NodeGroupCache_GetGroup 5 (Some (h 6)) 7 ''g'' (NodeGroupCache_InvalidateAll NewNodeGroupCache) = (g, c'')"
    by (metis surj_pair)
  from groups_freshness [OF run _ _ _ l g] obtain q0 where "3 \<le> q0" "gs = h q0" by auto
  then show ?thesis using l unfolding h_def by auto
qed

text \<open>
  The bound is about operations one after another. \<open>refreshGroups\<close> queries outside the lock, so an
  invalidation can fall between its query and its store; the store then revives the old content for the
  full thirty seconds.
\<close>

lemma late_refresh_hides_invalidation:
  assumes "gc_groupsTTL c = 30 * 10 ^ 9" "stamp \<le> now" "now < stamp + 30 * 10 ^ 9"
  shows "fst (NodeGroupCache_ListGroups now found later
    (NodeGroupCache_refreshGroups (Some old) stamp (NodeGroupCache_InvalidateAll c))) = old"
  using assms
  by (simp add: NodeGroupCache_ListGroups_def NodeGroupCache_refreshGroups_def NodeGroupCache_InvalidateAll_def
      groups_fresh_def)

end
