(* ===== verification/Go_Hex.thy ===== *)
theory Go_Hex
  imports Prelude
begin

text \<open>
  The part of Go's \<open>encoding/hex\<close> the control plane uses for connection keys, tunnel keys and payment
  signatures, with the round trip the components rely on.
\<close>

section \<open>Hexadecimal text\<close>

text \<open>\<open>encoding/hex\<close>: the encoder writes lower-case digits, the decoder reads both cases.\<close>

definition hex_digit :: "nat \<Rightarrow> char" where
  "hex_digit n = (if n < 10 then char_of (48 + n) else char_of (87 + n))"

definition hex_value :: "char \<Rightarrow> nat option" where
  "hex_value c =
     (let n = of_char c in
      if 48 \<le> n \<and> n \<le> 57 then Some (n - 48)
      else if 97 \<le> n \<and> n \<le> 102 then Some (n - 87)
      else if 65 \<le> n \<and> n \<le> 70 then Some (n - 55)
      else None)"

definition hex_EncodeToString :: "byte list \<Rightarrow> string" where
  "hex_EncodeToString bs = concat (map (\<lambda>b. [hex_digit (unat b div 16), hex_digit (unat b mod 16)]) bs)"

fun hex_DecodeString :: "string \<Rightarrow> byte list option" where
  "hex_DecodeString [] = Some []"
| "hex_DecodeString [c] = None"
| "hex_DecodeString (c # d # s) =
     (case (hex_value c, hex_value d) of
        (Some a, Some b) \<Rightarrow> map_option ((#) (of_nat (16 * a + b))) (hex_DecodeString s)
      | _ \<Rightarrow> None)"

lemma hex_value_digit: "n < 16 \<Longrightarrow> hex_value (hex_digit n) = Some n"
  by (auto simp: hex_value_def hex_digit_def Let_def)

lemma hex_decode_encode: "hex_DecodeString (hex_EncodeToString bs) = Some bs"
proof (induction bs)
  case (Cons b bs)
  have "unat b < 2 ^ LENGTH(8)" by (rule unsigned_less)
  then have "unat b div 16 < 16" "unat b mod 16 < 16" "16 * (unat b div 16) + unat b mod 16 = unat b" by auto
  then show ?case using Cons by (simp add: hex_EncodeToString_def hex_value_digit)
qed (simp add: hex_EncodeToString_def)

lemma length_hex_encode: "length (hex_EncodeToString bs) = 2 * length bs"
  by (induction bs) (auto simp: hex_EncodeToString_def)

lemma hex_decode_iff:
  "hex_DecodeString s \<noteq> None \<longleftrightarrow> even (length s) \<and> list_all (\<lambda>c. hex_value c \<noteq> None) s"
  by (induction s rule: hex_DecodeString.induct) (auto split: option.splits)

lemma hex_encode_inject: "hex_EncodeToString a = hex_EncodeToString b \<longleftrightarrow> a = b"
  using hex_decode_encode [of a] hex_decode_encode [of b] by (metis option.inject)

end
