(* ===== verification/Plane_Keys.thy ===== *)
theory Plane_Keys
  imports Go_Hex "HOL-Library.List_Lexorder" "HOL-Library.Char_ord"
begin

text \<open>
  Keys of the control plane: connection keys (\<open>plane/internal/auth/ck.go\<close>) and the encryption keys of
  tunnels (\<open>plane/internal/service/encryption_key.go\<close>). Random bytes are an argument, \<open>None\<close> when the
  generator fails; the table of tunnel keys is the list of its rows, and whether a statement succeeds is
  an argument.
\<close>

section \<open>Connection keys\<close>

text \<open>\<open>crypto/rand.Read\<close> on a slice of \<open>n\<close> bytes: the bytes it is filled with, or \<open>None\<close> on an error.\<close>

type_synonym rand_source = "nat \<Rightarrow> byte list option"

definition rand_fills :: "rand_source \<Rightarrow> bool" where
  "rand_fills rnd \<longleftrightarrow> (\<forall>n bs. rnd n = Some bs \<longrightarrow> length bs = n)"

definition GenerateCK :: "rand_source \<Rightarrow> string option" where
  "GenerateCK rnd = (case rnd 32 of None \<Rightarrow> None | Some bs \<Rightarrow> Some (''gkp_'' @ hex_EncodeToString bs))"

datatype ck_err = CK_length | CK_prefix | CK_format

definition ValidateCK :: "string \<Rightarrow> ck_err option" where
  "ValidateCK ck =
     (if length ck \<noteq> 68 then Some CK_length
      else if take 4 ck \<noteq> ''gkp_'' then Some CK_prefix
      else if hex_DecodeString (drop 4 ck) = None then Some CK_format
      else None)"

record connection_key =
  ck_NodeID :: string
  ck_Key :: string
  ck_Type :: string
  ck_Label :: string
  ck_ExpiresAt :: int
  ck_Revoked :: bool
  ck_LastUsed :: "int option"

definition CreateNodeCK :: "rand_source \<Rightarrow> int \<Rightarrow> string \<Rightarrow> int \<Rightarrow> connection_key option" where
  "CreateNodeCK rnd now nodeID expiresIn =
     (case GenerateCK rnd of
        None \<Rightarrow> None
      | Some ck \<Rightarrow> Some \<lparr> ck_NodeID = nodeID, ck_Key = ck, ck_Type = ''node'', ck_Label = ''node-ck'',
                         ck_ExpiresAt = now + expiresIn, ck_Revoked = False, ck_LastUsed = None \<rparr>)"

definition CreateUserCK :: "rand_source \<Rightarrow> int \<Rightarrow> string \<Rightarrow> int \<Rightarrow> connection_key option" where
  "CreateUserCK rnd now userID expiresIn =
     (case GenerateCK rnd of
        None \<Rightarrow> None
      | Some ck \<Rightarrow> Some \<lparr> ck_NodeID = userID, ck_Key = ck, ck_Type = ''user'', ck_Label = ''user-ck'',
                         ck_ExpiresAt = now + expiresIn, ck_Revoked = False, ck_LastUsed = None \<rparr>)"

definition GenerateID :: "rand_source \<Rightarrow> string option" where
  "GenerateID rnd = map_option hex_EncodeToString (rnd 16)"

definition CK_IsExpired :: "int \<Rightarrow> connection_key \<Rightarrow> bool" where
  "CK_IsExpired now ck \<longleftrightarrow> now > ck_ExpiresAt ck"

lemma ValidateCK_iff:
  "ValidateCK ck = None \<longleftrightarrow>
     (\<exists>s. ck = ''gkp_'' @ s \<and> length s = 64 \<and> list_all (\<lambda>c. hex_value c \<noteq> None) s)"
proof
  assume "ValidateCK ck = None"
  then have "length ck = 68" "take 4 ck = ''gkp_''" "hex_DecodeString (drop 4 ck) \<noteq> None"
    by (auto simp: ValidateCK_def split: if_splits)
  then have "ck = ''gkp_'' @ drop 4 ck \<and> length (drop 4 ck) = 64 \<and> list_all (\<lambda>c. hex_value c \<noteq> None) (drop 4 ck)"
    using append_take_drop_id [of 4 ck] hex_decode_iff [of "drop 4 ck"] by simp
  then show "\<exists>s. ck = ''gkp_'' @ s \<and> length s = 64 \<and> list_all (\<lambda>c. hex_value c \<noteq> None) s" ..
next
  assume "\<exists>s. ck = ''gkp_'' @ s \<and> length s = 64 \<and> list_all (\<lambda>c. hex_value c \<noteq> None) s"
  then obtain s where s: "ck = ''gkp_'' @ s" "length s = 64" "list_all (\<lambda>c. hex_value c \<noteq> None) s" by blast
  have "hex_DecodeString s \<noteq> None" unfolding hex_decode_iff using s(2,3) by simp
  then show "ValidateCK ck = None" using s(1,2) by (simp add: ValidateCK_def)
qed

text \<open>
  The format check and the generator agree. \<open>ValidateCK\<close> accepts exactly the texts that are the
  prefix \<open>gkp_\<close> followed by 64 hexadecimal digits of either case; every generated key is accepted, spells
  the 32 random bytes it was made from, and two generators give the same key only from the same bytes.
\<close>

theorem connection_key_format:
  assumes "rand_fills rnd" and "GenerateCK rnd = Some k"
  shows "(ValidateCK ck = None \<longleftrightarrow>
            (\<exists>s. ck = ''gkp_'' @ s \<and> length s = 64 \<and> list_all (\<lambda>c. hex_value c \<noteq> None) s)) \<and>
         ValidateCK k = None \<and> hex_DecodeString (drop 4 k) = rnd 32 \<and>
         (GenerateCK rnd' = Some k \<longrightarrow> rnd' 32 = rnd 32)"
proof -
  obtain bs where bs: "rnd 32 = Some bs" "k = ''gkp_'' @ hex_EncodeToString bs"
    using assms(2) by (auto simp: GenerateCK_def split: option.splits)
  have "length bs = 32" using assms(1) bs(1) by (auto simp: rand_fills_def)
  then have "ValidateCK k = None" using bs(2) by (simp add: ValidateCK_def length_hex_encode hex_decode_encode)
  moreover have "rnd' 32 = rnd 32" if "GenerateCK rnd' = Some k"
    using that bs by (auto simp: GenerateCK_def hex_encode_inject split: option.splits)
  ultimately show ?thesis using bs by (auto simp: ValidateCK_iff hex_decode_encode)
qed

theorem connection_key_format_witness:
  "ValidateCK (''gkp_'' @ hex_EncodeToString (replicate 32 171)) = None \<and>
   hex_DecodeString (drop 4 (''gkp_'' @ hex_EncodeToString (replicate 32 171))) = Some (replicate 32 171)"
  using connection_key_format [of "\<lambda>n. Some (replicate n 171)" "''gkp_'' @ hex_EncodeToString (replicate 32 171)"]
  by (simp add: GenerateCK_def rand_fills_def)

section \<open>Encryption keys of tunnels\<close>

text \<open>
  A soft-deleted row is invisible to every query of the service, so the table is the list of the rows that
  are not deleted. The identifier of a new row (a fresh UUID from the \<open>BeforeCreate\<close> hook) is an argument.
  Times are nanoseconds; versions are unbounded integers.
\<close>

record tunnel_key =
  tk_ID :: string
  tk_TunnelID :: string
  tk_Algorithm :: string
  tk_KeyHex :: string
  tk_KeySize :: nat
  tk_Version :: int
  tk_Active :: bool
  tk_ExpiresAt :: int
  tk_RotatedFrom :: string

text \<open>Which statements the database executes: looking up the active key, deactivating the old keys, reading
  the highest version, inserting the row and saving it again.\<close>

record key_stmts =
  ks_find :: bool
  ks_deactivate :: bool
  ks_max :: bool
  ks_create :: bool
  ks_save :: bool

datatype key_err = Key_unsupported | Key_random | Key_store | Key_save

definition key_lifetime :: int where
  "key_lifetime = 30 * 24 * 3600 * 10 ^ 9"

definition getKeySize :: "string \<Rightarrow> nat option" where
  "getKeySize algorithm =
     (if algorithm = ''aes-128-gcm'' then Some 16
      else if algorithm = ''aes-192-gcm'' then Some 24
      else if algorithm = ''aes-256-gcm'' then Some 32
      else if algorithm = ''chacha20-poly1305'' then Some 32
      else None)"

definition deactivate_keys :: "string \<Rightarrow> tunnel_key list \<Rightarrow> tunnel_key list" where
  "deactivate_keys tid tab =
     map (\<lambda>r. if tk_TunnelID r = tid \<and> tk_Active r then r\<lparr>tk_Active := False\<rparr> else r) tab"

definition max_version :: "string \<Rightarrow> tunnel_key list \<Rightarrow> int" where
  "max_version tid tab =
     (case map tk_Version (filter (\<lambda>r. tk_TunnelID r = tid) tab) of [] \<Rightarrow> 0 | v # vs \<Rightarrow> fold max vs v)"

definition GenerateKeyForTunnel ::
  "rand_source \<Rightarrow> key_stmts \<Rightarrow> int \<Rightarrow> string \<Rightarrow> string \<Rightarrow> string \<Rightarrow> tunnel_key list
     \<Rightarrow> (key_err + tunnel_key) \<times> tunnel_key list" where
  "GenerateKeyForTunnel rnd st now newid tid algorithm tab =
     (case getKeySize algorithm of
        None \<Rightarrow> (Inl Key_unsupported, tab)
      | Some keySize \<Rightarrow>
          (case rnd keySize of
             None \<Rightarrow> (Inl Key_random, tab)
           | Some keyBytes \<Rightarrow>
               (let tab1 = (if ks_deactivate st then deactivate_keys tid tab else tab);
                    maxVersion = (if ks_max st then max_version tid tab1 else 0);
                    key = \<lparr> tk_ID = newid, tk_TunnelID = tid, tk_Algorithm = algorithm,
                            tk_KeyHex = hex_EncodeToString keyBytes, tk_KeySize = keySize,
                            tk_Version = maxVersion + 1, tk_Active = True,
                            tk_ExpiresAt = now + key_lifetime, tk_RotatedFrom = [] \<rparr>
                in if ks_create st \<and> newid \<notin> tk_ID ` set tab1 then (Inr key, tab1 @ [key])
                   else (Inl Key_store, tab1))))"

text \<open>\<open>First\<close> with \<open>Order("version DESC")\<close>: the highest version, and among equal ones the smallest primary key.\<close>

definition key_before :: "tunnel_key \<Rightarrow> tunnel_key \<Rightarrow> bool" where
  "key_before a b \<longleftrightarrow> tk_Version a > tk_Version b \<or> tk_Version a = tk_Version b \<and> tk_ID a < tk_ID b"

definition usable_key :: "int \<Rightarrow> string \<Rightarrow> tunnel_key \<Rightarrow> bool" where
  "usable_key now tid r \<longleftrightarrow> tk_TunnelID r = tid \<and> tk_Active r \<and> tk_ExpiresAt r > now"

definition GetActiveKey :: "bool \<Rightarrow> int \<Rightarrow> string \<Rightarrow> tunnel_key list \<Rightarrow> tunnel_key option" where
  "GetActiveKey found now tid tab =
     (if \<not> found then None
      else case filter (usable_key now tid) tab of
             [] \<Rightarrow> None
           | r # rs \<Rightarrow> Some (fold (\<lambda>b a. if key_before b a then b else a) rs r))"

definition GetKeyBytes :: "tunnel_key \<Rightarrow> byte list option" where
  "GetKeyBytes key = hex_DecodeString (tk_KeyHex key)"

definition RotateKey ::
  "rand_source \<Rightarrow> key_stmts \<Rightarrow> int \<Rightarrow> int \<Rightarrow> string \<Rightarrow> string \<Rightarrow> tunnel_key list
     \<Rightarrow> (key_err + tunnel_key) \<times> tunnel_key list" where
  "RotateKey rnd st now now' newid tid tab =
     (case GetActiveKey (ks_find st) now tid tab of
        None \<Rightarrow> GenerateKeyForTunnel rnd st now' newid tid ''aes-256-gcm'' tab
      | Some currentKey \<Rightarrow>
          (case GenerateKeyForTunnel rnd st now' newid tid (tk_Algorithm currentKey) tab of
             (Inl e, tab1) \<Rightarrow> (Inl e, tab1)
           | (Inr newKey, tab1) \<Rightarrow>
               (let newKey' = newKey\<lparr>tk_RotatedFrom := tk_ID currentKey\<rparr>
                in if ks_save st
                   then (Inr newKey', map (\<lambda>r. if tk_ID r = tk_ID newKey' then newKey' else r) tab1)
                   else (Inl Key_save, tab1))))"

definition EnsureKeyForTunnel ::
  "rand_source \<Rightarrow> key_stmts \<Rightarrow> int \<Rightarrow> int \<Rightarrow> string \<Rightarrow> string \<Rightarrow> bool \<Rightarrow> string \<Rightarrow> tunnel_key list
     \<Rightarrow> (key_err + tunnel_key option) \<times> tunnel_key list" where
  "EnsureKeyForTunnel rnd st now now' newid tid enableEncryption encryptionMethod tab =
     (if \<not> enableEncryption then (Inr None, tab)
      else case GetActiveKey (ks_find st) now tid tab of
             Some key \<Rightarrow> (Inr (Some key), tab)
           | None \<Rightarrow>
               (let algorithm = (if encryptionMethod = [] then ''aes-256-gcm'' else encryptionMethod)
                in map_prod (map_sum id Some) id (GenerateKeyForTunnel rnd st now' newid tid algorithm tab)))"

definition CleanExpiredKeys :: "bool \<Rightarrow> int \<Rightarrow> tunnel_key list \<Rightarrow> nat option \<times> tunnel_key list" where
  "CleanExpiredKeys ok now tab =
     (if \<not> ok then (None, tab)
      else (let gone = (\<lambda>r. tk_ExpiresAt r < now \<and> \<not> tk_Active r)
            in (Some (length (filter gone tab)), filter (\<lambda>r. \<not> gone r) tab)))"

subsection \<open>The choice of the active key\<close>

lemma fold_best_last:
  assumes "\<forall>r \<in> set rs. key_before k r" "key_before k r0"
  shows "fold (\<lambda>b a. if key_before b a then b else a) (rs @ [k]) r0 = k"
proof -
  have "fold (\<lambda>b a. if key_before b a then b else a) rs r0 \<in> insert r0 (set rs)" for r0
  proof (induction rs arbitrary: r0)
    case (Cons x rs)
    show ?case using Cons [of "if key_before x r0 then x else r0"] by (auto split: if_splits)
  qed simp
  from this [of r0] have "key_before k (fold (\<lambda>b a. if key_before b a then b else a) rs r0)"
    by (rule insertE) (use assms in auto)
  then show ?thesis by simp
qed

lemma GetActiveKey_append:
  assumes "usable_key t tid k" "\<forall>r \<in> set tab. usable_key t tid r \<longrightarrow> key_before k r"
  shows "GetActiveKey True t tid (tab @ [k]) = Some k"
proof (cases "filter (usable_key t tid) tab")
  case (Cons r rs)
  then have "\<forall>x \<in> set (r # rs). key_before k x" using assms(2) set_filter [of "usable_key t tid" tab] by auto
  then show ?thesis using Cons assms(1) fold_best_last [of rs k r] by (simp add: GetActiveKey_def)
qed (use assms(1) in \<open>simp add: GetActiveKey_def\<close>)

lemma GetActiveKey_other:
  assumes "filter (usable_key t tid) tab' = filter (usable_key t tid) tab"
  shows "GetActiveKey found t tid tab' = GetActiveKey found t tid tab"
  using assms by (simp add: GetActiveKey_def)

lemma max_version_ge:
  assumes "r \<in> set tab" "tk_TunnelID r = tid"
  shows "tk_Version r \<le> max_version tid tab"
proof -
  have mono: "(a :: int) \<le> fold max vs a" for vs a
    by (induction vs arbitrary: a) (auto intro: order_trans [OF max.cobounded2])
  have up: "x \<in> set (v # vs) \<Longrightarrow> (x :: int) \<le> fold max vs v" for vs v x
    by (induction vs arbitrary: v) (auto intro: mono order_trans [OF max.cobounded2 mono] order_trans [OF max.cobounded1 mono])
  have "tk_Version r \<in> set (map tk_Version (filter (\<lambda>r. tk_TunnelID r = tid) tab))" using assms by auto
  moreover obtain v vs where "map tk_Version (filter (\<lambda>r. tk_TunnelID r = tid) tab) = v # vs"
    using calculation by (metis in_set_conv_decomp_first list.exhaust append_is_Nil_conv list.distinct(1))
  ultimately show ?thesis unfolding max_version_def using up by (metis list.simps(5))
qed

lemma filter_deactivate_other:
  "tid' \<noteq> tid \<Longrightarrow> filter (usable_key t tid') (deactivate_keys tid tab) = filter (usable_key t tid') tab"
  by (induction tab) (auto simp: deactivate_keys_def usable_key_def)

lemma filter_deactivate_own: "filter (usable_key t tid) (deactivate_keys tid tab) = []"
  by (induction tab) (auto simp: deactivate_keys_def usable_key_def)

lemma max_version_deactivate: "max_version tid (deactivate_keys tid tab) = max_version tid tab"
proof -
  have "map tk_Version (filter (\<lambda>r. tk_TunnelID r = tid) (deactivate_keys tid tab))
      = map tk_Version (filter (\<lambda>r. tk_TunnelID r = tid) tab)"
    by (induction tab) (auto simp: deactivate_keys_def)
  then show ?thesis by (simp add: max_version_def)
qed

lemma GenerateKey_Inr:
  assumes "GenerateKeyForTunnel rnd st now newid tid algorithm tab = (Inr key, tab')"
  obtains n bs T where "getKeySize algorithm = Some n" "rnd n = Some bs"
    "T = (if ks_deactivate st then deactivate_keys tid tab else tab)"
    "key = \<lparr> tk_ID = newid, tk_TunnelID = tid, tk_Algorithm = algorithm, tk_KeyHex = hex_EncodeToString bs,
             tk_KeySize = n, tk_Version = (if ks_max st then max_version tid tab else 0) + 1, tk_Active = True,
             tk_ExpiresAt = now + key_lifetime, tk_RotatedFrom = [] \<rparr>"
    "tab' = T @ [key]" "newid \<notin> tk_ID ` set T"
  using assms
  by (auto simp: GenerateKeyForTunnel_def Let_def max_version_deactivate split: option.splits if_splits)

lemma RotateKey_Inr:
  assumes "RotateKey rnd st now now' newid tid tab = (Inr key, tab')"
  obtains n bs T where "getKeySize (tk_Algorithm key) = Some n" "rnd n = Some bs"
    "T = (if ks_deactivate st then deactivate_keys tid tab else tab)"
    "key = \<lparr> tk_ID = newid, tk_TunnelID = tid,
             tk_Algorithm = (case GetActiveKey (ks_find st) now tid tab of
                               None \<Rightarrow> ''aes-256-gcm'' | Some old \<Rightarrow> tk_Algorithm old),
             tk_KeyHex = hex_EncodeToString bs,
             tk_KeySize = n, tk_Version = (if ks_max st then max_version tid tab else 0) + 1, tk_Active = True,
             tk_ExpiresAt = now' + key_lifetime,
             tk_RotatedFrom = (case GetActiveKey (ks_find st) now tid tab of None \<Rightarrow> [] | Some old \<Rightarrow> tk_ID old) \<rparr>"
    "tab' = T @ [key]"
proof (cases "GetActiveKey (ks_find st) now tid tab")
  case None
  then have "GenerateKeyForTunnel rnd st now' newid tid ''aes-256-gcm'' tab = (Inr key, tab')"
    using assms by (simp add: RotateKey_def)
  then show ?thesis by (rule GenerateKey_Inr) (rule that, auto simp: None)
next
  case (Some old)
  then obtain k1 tab1 where g: "GenerateKeyForTunnel rnd st now' newid tid (tk_Algorithm old) tab = (Inr k1, tab1)"
      and k: "key = k1\<lparr>tk_RotatedFrom := tk_ID old\<rparr>"
      and t: "tab' = map (\<lambda>r. if tk_ID r = tk_ID key then key else r) tab1"
    using assms by (auto simp: RotateKey_def Let_def split: prod.splits sum.splits if_splits)
  from g show ?thesis
  proof (rule GenerateKey_Inr, goal_cases)
    case (1 n bs T)
    have "map (\<lambda>r. if tk_ID r = tk_ID key then key else r) T = T"
      using 1(6) by (intro map_idI) (auto simp: k 1(4))
    then have "tab' = T @ [key]" by (simp add: t 1(5)) (simp add: k 1(4))
    then show ?case by (intro that [of n bs T]) (simp_all add: 1 k Some)
  qed
qed

text \<open>
  A successful rotation replaces the key of one tunnel and of no other. Until the new key expires it is
  the one \<open>GetActiveKey\<close> returns, even when the old keys could not be deactivated (its version is above
  theirs) or the highest version could not be read (the old keys are inactive); its bytes are the random
  bytes, as many as the algorithm needs; it keeps the algorithm of the key it replaces and names it in
  \<open>RotatedFrom\<close>, and with no usable key it is an \<open>aes-256-gcm\<close> key. Other tunnels keep their active key.
\<close>

theorem tunnel_key_rotation:
  assumes "RotateKey rnd st now now' newid tid tab = (Inr key, tab')"
    and "rand_fills rnd"
    and "ks_deactivate st \<or> ks_max st"
    and "t < now' + key_lifetime"
  shows "GetActiveKey True t tid tab' = Some key \<and>
         (\<exists>bs. GetKeyBytes key = Some bs \<and> rnd (tk_KeySize key) = Some bs \<and> length bs = tk_KeySize key \<and>
               getKeySize (tk_Algorithm key) = Some (length bs)) \<and>
         (case GetActiveKey (ks_find st) now tid tab of
            None \<Rightarrow> tk_Algorithm key = ''aes-256-gcm'' \<and> tk_RotatedFrom key = []
          | Some old \<Rightarrow> tk_Algorithm key = tk_Algorithm old \<and> tk_RotatedFrom key = tk_ID old) \<and>
         (tid' \<noteq> tid \<longrightarrow> GetActiveKey True t tid' tab' = GetActiveKey True t tid' tab)"
  using assms(1)
proof (rule RotateKey_Inr, goal_cases)
  case (1 n bs T)
  note key = 1(4)
  have before: "key_before key r" if r: "r \<in> set T" "usable_key t tid r" for r
  proof (cases "ks_deactivate st")
    case True
    then have "r \<in> set (filter (usable_key t tid) (deactivate_keys tid tab))" using r 1(3) by simp
    then show ?thesis by (simp add: filter_deactivate_own)
  next
    case False
    then have "tk_Version r \<le> max_version tid tab"
      using r 1(3) by (auto simp: usable_key_def intro: max_version_ge)
    then show ?thesis using False assms(3) by (simp add: key_before_def key)
  qed
  have "usable_key t tid key" using assms(4) by (simp add: usable_key_def key)
  then have a: "GetActiveKey True t tid tab' = Some key"
    unfolding 1(5) by (rule GetActiveKey_append) (use before in blast)
  have "length bs = n" using assms(2) 1(2) by (simp add: rand_fills_def)
  then have b: "\<exists>bs. GetKeyBytes key = Some bs \<and> rnd (tk_KeySize key) = Some bs \<and> length bs = tk_KeySize key \<and>
      getKeySize (tk_Algorithm key) = Some (length bs)"
    using 1(1,2) by (intro exI [of _ bs]) (simp add: key GetKeyBytes_def hex_decode_encode)
  have c: "GetActiveKey True t tid' tab' = GetActiveKey True t tid' tab" if "tid' \<noteq> tid"
    using that by (intro GetActiveKey_other) (simp add: 1(3,5) filter_deactivate_other usable_key_def key)
  show ?case using a b c by (simp add: key split: option.splits)
qed

theorem tunnel_key_rotation_witness:
  "\<exists>key tab'.
     RotateKey (\<lambda>n. Some (replicate n 7))
       \<lparr> ks_find = True, ks_deactivate = False, ks_max = True, ks_create = True, ks_save = True \<rparr> 5 6 ''k2'' ''t''
       [\<lparr> tk_ID = ''k1'', tk_TunnelID = ''t'', tk_Algorithm = ''aes-128-gcm'', tk_KeyHex = ''00'', tk_KeySize = 16,
          tk_Version = 3, tk_Active = True, tk_ExpiresAt = 9, tk_RotatedFrom = [] \<rparr>] = (Inr key, tab') \<and>
     length tab' = 2 \<and> GetActiveKey True 7 ''t'' tab' = Some key \<and> tk_RotatedFrom key = ''k1'' \<and>
     tk_Algorithm key = ''aes-128-gcm'' \<and> GetKeyBytes key = Some (replicate 16 7)"
proof -
  define st where "st = \<lparr> ks_find = True, ks_deactivate = False, ks_max = True, ks_create = True, ks_save = True \<rparr>"
  define k1 :: tunnel_key where "k1 = \<lparr> tk_ID = ''k1'', tk_TunnelID = ''t'', tk_Algorithm = ''aes-128-gcm'', tk_KeyHex = ''00'',
    tk_KeySize = 16, tk_Version = 3, tk_Active = True, tk_ExpiresAt = 9, tk_RotatedFrom = [] \<rparr>"
  define k2 :: tunnel_key where "k2 = \<lparr> tk_ID = ''k2'', tk_TunnelID = ''t'', tk_Algorithm = ''aes-128-gcm'',
    tk_KeyHex = hex_EncodeToString (replicate 16 7), tk_KeySize = 16, tk_Version = 4, tk_Active = True,
    tk_ExpiresAt = 6 + key_lifetime, tk_RotatedFrom = ''k1'' \<rparr>"
  have r: "RotateKey (\<lambda>n. Some (replicate n 7)) st 5 6 ''k2'' ''t'' [k1] = (Inr k2, [k1, k2])"
    by (simp add: RotateKey_def GetActiveKey_def usable_key_def GenerateKeyForTunnel_def getKeySize_def
        max_version_def Let_def st_def k1_def k2_def)
  have "GetActiveKey True 7 ''t'' [k1, k2] = Some k2"
    using tunnel_key_rotation [OF r, of 7] by (simp add: rand_fills_def st_def key_lifetime_def)
  moreover have "GetKeyBytes k2 = Some (replicate 16 7)" by (simp only: GetKeyBytes_def k2_def hex_decode_encode tunnel_key.simps)
  moreover have "tk_RotatedFrom k2 = ''k1''" "tk_Algorithm k2 = ''aes-128-gcm''" by (simp_all add: k2_def)
  ultimately have "RotateKey (\<lambda>n. Some (replicate n 7)) st 5 6 ''k2'' ''t'' [k1] = (Inr k2, [k1, k2]) \<and>
     length [k1, k2] = 2 \<and> GetActiveKey True 7 ''t'' [k1, k2] = Some k2 \<and> tk_RotatedFrom k2 = ''k1'' \<and>
     tk_Algorithm k2 = ''aes-128-gcm'' \<and> GetKeyBytes k2 = Some (replicate 16 7)" using r by simp
  then show ?thesis unfolding st_def k1_def by blast
qed

text \<open>
  The old keys are deactivated before the new one is stored and the two statements are not one transaction:
  when the insert fails, the tunnel is left without a usable key.
\<close>

lemma failed_generation_drops_key:
  assumes "GenerateKeyForTunnel rnd st now newid tid algorithm tab = (Inl Key_store, tab')" "ks_deactivate st"
  shows "GetActiveKey found t tid tab' = None"
proof -
  have "tab' = deactivate_keys tid tab"
    using assms by (auto simp: GenerateKeyForTunnel_def Let_def split: option.splits if_splits)
  then show ?thesis by (simp add: GetActiveKey_def filter_deactivate_own)
qed

text \<open>Cleaning never removes a key that is or could become the active one, whatever its version.\<close>

lemma cleanup_keeps_active:
  assumes "CleanExpiredKeys ok now tab = (r, tab')"
  shows "GetActiveKey found t tid tab' = GetActiveKey found t tid tab"
proof (rule GetActiveKey_other)
  have "filter (usable_key t tid) (filter (\<lambda>r. \<not> (tk_ExpiresAt r < now \<and> \<not> tk_Active r)) tab)
      = filter (usable_key t tid) tab"
    unfolding filter_filter by (rule filter_cong) (auto simp: usable_key_def)
  then show "filter (usable_key t tid) tab' = filter (usable_key t tid) tab"
    using assms by (auto simp: CleanExpiredKeys_def Let_def split: if_splits)
qed

end
