(* ===== verification/Load_Balancer.thy ===== *)
theory Load_Balancer
  imports Prelude
begin

text \<open>
  The load balancer of the client's relays, \<open>client/internal/relay/load_balancer.go\<close>. A pointer to a
  backend is its position in the list of backends. The random numbers are an argument (what \<open>rand.Intn\<close>
  returns for its bound), the client address is the list of its code points. Logging and \<open>GetStats\<close> are
  left out.
\<close>

section \<open>State\<close>

record backend =
  be_Host :: string
  be_Port :: int
  be_Weight :: int
  be_Healthy :: bool
  be_ActiveConns :: int
  be_FailCount :: int

record balancer =
  lb_mode :: string
  lb_backends :: "backend list"
  lb_counter :: u64
  lb_maxFailCount :: int
  lb_stopped :: bool

definition Backend_Address :: "backend \<Rightarrow> string" where
  "Backend_Address b = be_Host b @ '':'' @ itoa_int (be_Port b)"

definition NewLoadBalancer :: "string \<Rightarrow> balancer" where
  "NewLoadBalancer mode =
     \<lparr> lb_mode = mode, lb_backends = [], lb_counter = 0, lb_maxFailCount = 3, lb_stopped = False \<rparr>"

definition LoadBalancer_AddBackend :: "string \<Rightarrow> int \<Rightarrow> int \<Rightarrow> balancer \<Rightarrow> balancer" where
  "LoadBalancer_AddBackend host port weight lb =
     lb\<lparr> lb_backends := lb_backends lb @
           [\<lparr> be_Host = host, be_Port = port, be_Weight = weight, be_Healthy = True,
              be_ActiveConns = 0, be_FailCount = 0 \<rparr>] \<rparr>"

text \<open>The loops over the backends stop at the first one with the address.\<close>

fun remove_first :: "('a \<Rightarrow> bool) \<Rightarrow> 'a list \<Rightarrow> 'a list" where
  "remove_first P [] = []"
| "remove_first P (x # xs) = (if P x then xs else x # remove_first P xs)"

fun update_first :: "('a \<Rightarrow> bool) \<Rightarrow> ('a \<Rightarrow> 'a) \<Rightarrow> 'a list \<Rightarrow> 'a list" where
  "update_first P f [] = []"
| "update_first P f (x # xs) = (if P x then f x # xs else x # update_first P f xs)"

definition at_addr :: "string \<Rightarrow> int \<Rightarrow> backend \<Rightarrow> bool" where
  "at_addr host port b \<longleftrightarrow> Backend_Address b = host @ '':'' @ itoa_int port"

definition LoadBalancer_RemoveBackend :: "string \<Rightarrow> int \<Rightarrow> balancer \<Rightarrow> balancer" where
  "LoadBalancer_RemoveBackend host port lb =
     lb\<lparr> lb_backends := remove_first (at_addr host port) (lb_backends lb) \<rparr>"

section \<open>Choosing a backend\<close>

definition LoadBalancer_getHealthyBackends :: "balancer \<Rightarrow> nat list" where
  "LoadBalancer_getHealthyBackends lb =
     filter (\<lambda>i. be_Healthy (lb_backends lb ! i)) [0..<length (lb_backends lb)]"

text \<open>The index of the choice and the new counter; \<open>counter.Add(1) - 1\<close> wraps around at 64 bits.\<close>

definition LoadBalancer_roundRobin :: "nat list \<Rightarrow> balancer \<Rightarrow> nat \<times> balancer" where
  "LoadBalancer_roundRobin backends lb =
     (let c = lb_counter lb + 1; idx = c - 1
      in (backends ! unat (idx mod of_nat (length backends)), lb\<lparr> lb_counter := c \<rparr>))"

definition Intn :: "(int \<Rightarrow> int) \<Rightarrow> int \<Rightarrow> int res" where
  "Intn rnd n = (if n \<le> 0 then Inl InvalidArgument else Inr (rnd n))"

definition LoadBalancer_random :: "(int \<Rightarrow> int) \<Rightarrow> nat list \<Rightarrow> nat res" where
  "LoadBalancer_random rnd backends =
     and_then (Intn rnd (int (length backends))) (\<lambda>r. Inr (backends ! nat r))"

fun weighted_pick :: "(nat \<Rightarrow> int) \<Rightarrow> int \<Rightarrow> nat list \<Rightarrow> nat option" where
  "weighted_pick w r [] = None"
| "weighted_pick w r (i # is') = (let r' = sub64 r (w i) in if r' < 0 then Some i else weighted_pick w r' is')"

definition LoadBalancer_weighted :: "(int \<Rightarrow> int) \<Rightarrow> nat list \<Rightarrow> balancer \<Rightarrow> (nat \<times> balancer) res" where
  "LoadBalancer_weighted rnd backends lb =
     (let w = (\<lambda>i. be_Weight (lb_backends lb ! i));
          totalWeight = fold (\<lambda>i t. add64 t (w i)) backends 0
      in if totalWeight = 0 then Inr (LoadBalancer_roundRobin backends lb)
         else and_then (Intn rnd totalWeight) (\<lambda>r.
           Inr (case weighted_pick w r backends of Some i \<Rightarrow> i | None \<Rightarrow> backends ! 0, lb)))"

definition LoadBalancer_leastConn :: "nat list \<Rightarrow> balancer \<Rightarrow> nat option" where
  "LoadBalancer_leastConn backends lb =
     snd (fold (\<lambda>i (m, sel). let conns = be_ActiveConns (lb_backends lb ! i)
                             in if conns < m then (conns, Some i) else (m, sel))
          backends (2 ^ 63 - 1, None))"

definition ip_hash :: "nat list \<Rightarrow> u64" where
  "ip_hash clientIP = fold (\<lambda>c h. h * 31 + of_nat c) clientIP 0"

definition LoadBalancer_ipHash :: "nat list \<Rightarrow> nat list \<Rightarrow> nat" where
  "LoadBalancer_ipHash backends clientIP =
     backends ! unat (ip_hash clientIP mod of_nat (length backends))"

text \<open>\<open>Inl\<close> is a panic; otherwise \<open>None\<close> is the error that no backend is available, and \<open>Some None\<close> the nil
  pointer \<open>leastConn\<close> returns when it selects nothing.\<close>

definition LoadBalancer_Next ::
    "(int \<Rightarrow> int) \<Rightarrow> nat list \<Rightarrow> balancer \<Rightarrow> (nat option option \<times> balancer) res" where
  "LoadBalancer_Next rnd clientIP lb =
     (let healthy = LoadBalancer_getHealthyBackends lb in
      if length healthy = 0 then Inr (None, lb)
      else if lb_mode lb = ''random''
      then and_then (LoadBalancer_random rnd healthy) (\<lambda>i. Inr (Some (Some i), lb))
      else if lb_mode lb = ''weighted''
      then and_then (LoadBalancer_weighted rnd healthy lb) (\<lambda>(i, lb'). Inr (Some (Some i), lb'))
      else if lb_mode lb = ''least-conn'' then Inr (Some (LoadBalancer_leastConn healthy lb), lb)
      else if lb_mode lb = ''ip-hash'' then Inr (Some (Some (LoadBalancer_ipHash healthy clientIP)), lb)
      else case LoadBalancer_roundRobin healthy lb of (i, lb') \<Rightarrow> Inr (Some (Some i), lb'))"

section \<open>Health\<close>

definition LoadBalancer_MarkUnhealthy :: "string \<Rightarrow> int \<Rightarrow> balancer \<Rightarrow> balancer" where
  "LoadBalancer_MarkUnhealthy host port lb =
     lb\<lparr> lb_backends := update_first (at_addr host port)
           (\<lambda>b. let count = add64 (be_FailCount b) 1
                in b\<lparr> be_FailCount := count,
                      be_Healthy := (if count \<ge> lb_maxFailCount lb then False else be_Healthy b) \<rparr>)
           (lb_backends lb) \<rparr>"

definition LoadBalancer_MarkHealthy :: "string \<Rightarrow> int \<Rightarrow> balancer \<Rightarrow> balancer" where
  "LoadBalancer_MarkHealthy host port lb =
     lb\<lparr> lb_backends := update_first (at_addr host port)
           (\<lambda>b. b\<lparr> be_Healthy := True, be_FailCount := 0 \<rparr>) (lb_backends lb) \<rparr>"

definition LoadBalancer_Stop :: "balancer \<Rightarrow> balancer res" where
  "LoadBalancer_Stop lb =
     (if lb_stopped lb then Inl CloseOfClosedChannel else Inr (lb\<lparr> lb_stopped := True \<rparr>))"

section \<open>Correctness of the choice\<close>

text \<open>\<open>intn_ok\<close> is the documented range of \<open>rand.Intn\<close>; \<open>lb_sane\<close> bounds the configured weights and the
  connection counts so that the sums of \<open>int\<close> values do not wrap around.\<close>

definition intn_ok :: "(int \<Rightarrow> int) \<Rightarrow> bool" where
  "intn_ok rnd \<longleftrightarrow> (\<forall>n > 0. 0 \<le> rnd n \<and> rnd n < n)"

definition lb_sane :: "balancer \<Rightarrow> bool" where
  "lb_sane lb \<longleftrightarrow>
     length (lb_backends lb) < 2 ^ 63 \<and>
     (\<forall>b \<in> set (lb_backends lb). 0 \<le> be_Weight b \<and> be_ActiveConns b < 2 ^ 63 - 1) \<and>
     sum_list (map be_Weight (lb_backends lb)) < 2 ^ 63"

lemma set_healthy:
  "i \<in> set (LoadBalancer_getHealthyBackends lb) \<longleftrightarrow>
     i < length (lb_backends lb) \<and> be_Healthy (lb_backends lb ! i)"
  by (auto simp: LoadBalancer_getHealthyBackends_def)

lemma distinct_healthy: "distinct (LoadBalancer_getHealthyBackends lb)"
  by (simp add: LoadBalancer_getHealthyBackends_def)

lemma length_healthy_le: "length (LoadBalancer_getHealthyBackends lb) \<le> length (lb_backends lb)"
  unfolding LoadBalancer_getHealthyBackends_def
  by (rule order_trans [OF length_filter_le]) simp

lemma healthy_weights:
  assumes "lb_sane lb" "H = LoadBalancer_getHealthyBackends lb"
  shows "\<forall>i \<in> set H. 0 \<le> be_Weight (lb_backends lb ! i)"
    and "sum_list (map (\<lambda>i. be_Weight (lb_backends lb ! i)) H) < 2 ^ 63"
proof -
  have nn: "\<forall>i < length (lb_backends lb). 0 \<le> be_Weight (lb_backends lb ! i)"
    using assms(1) by (auto simp: lb_sane_def)
  then show "\<forall>i \<in> set H. 0 \<le> be_Weight (lb_backends lb ! i)" using set_healthy assms(2) by auto
  have sub: "sum_list (map f (filter P xs)) \<le> sum_list (map f xs)" if "\<forall>x \<in> set xs. 0 \<le> f x"
    for f :: "nat \<Rightarrow> int" and P xs
    using that by (induction xs) auto
  have "map be_Weight (lb_backends lb) = map (\<lambda>i. be_Weight (lb_backends lb ! i)) [0..<length (lb_backends lb)]"
    by (rule nth_equalityI) auto
  then have "sum_list (map (\<lambda>i. be_Weight (lb_backends lb ! i)) H) \<le> sum_list (map be_Weight (lb_backends lb))"
    using sub [of "[0..<length (lb_backends lb)]" "\<lambda>i. be_Weight (lb_backends lb ! i)"] nn assms(2)
    by (simp add: LoadBalancer_getHealthyBackends_def)
  then show "sum_list (map (\<lambda>i. be_Weight (lb_backends lb ! i)) H) < 2 ^ 63" using assms(1) by (simp add: lb_sane_def)
qed

lemma total_weight:
  assumes "\<forall>i \<in> set H. 0 \<le> w i" "0 \<le> t" "t + sum_list (map w H) < 2 ^ 63"
  shows "fold (\<lambda>i t. add64 t (w i)) H t = t + sum_list (map w H)"
  using assms
proof (induction H arbitrary: t)
  case (Cons i H)
  have "0 \<le> sum_list (map w H)" using Cons.prems(1) by (intro sum_list_nonneg) auto
  then have "add64 t (w i) = t + w i" using Cons.prems by (intro wrap64_id) auto
  then show ?case using Cons.IH [of "t + w i"] Cons.prems by (simp add: add.assoc)
qed simp

lemma pick_step:
  assumes "0 \<le> r" "r < 2 ^ 63" "0 \<le> w i" "w i < 2 ^ 63"
  shows "weighted_pick w r (i # H) = (if r < w i then Some i else weighted_pick w (r - w i) H)"
  using assms by (simp add: Let_def)

lemma weighted_pick_Some:
  assumes "\<forall>i \<in> set H. 0 \<le> w i" "0 \<le> r" "r < sum_list (map w H)" "sum_list (map w H) < 2 ^ 63"
  shows "\<exists>i \<in> set H. weighted_pick w r H = Some i"
  using assms
proof (induction H arbitrary: r)
  case (Cons i H)
  have "0 \<le> sum_list (map w H)" using Cons.prems(1) by (intro sum_list_nonneg) auto
  then have "weighted_pick w r (i # H) = (if r < w i then Some i else weighted_pick w (r - w i) H)"
    using Cons.prems by (intro pick_step) auto
  then show ?case using Cons.IH [of "r - w i"] Cons.prems \<open>0 \<le> sum_list (map w H)\<close> by (cases "r < w i") auto
qed simp

lemma pick_in: "weighted_pick w r H = Some i \<Longrightarrow> i \<in> set H"
  by (induction w r H rule: weighted_pick.induct) (auto simp: Let_def split: if_splits)

lemma pick_shares:
  assumes "distinct H" "\<forall>i \<in> set H. 0 \<le> w i" "sum_list (map w H) < 2 ^ 63" "i \<in> set H"
  shows "card {r \<in> {0..<sum_list (map w H)}. weighted_pick w r H = Some i} = nat (w i)"
  using assms
proof (induction H)
  case (Cons j H)
  let ?S = "sum_list (map w H)"
  have S: "0 \<le> ?S" using Cons.prems(2) by (intro sum_list_nonneg) auto
  have step: "weighted_pick w r (j # H) = (if r < w j then Some j else weighted_pick w (r - w j) H)"
    if "0 \<le> r" "r < w j + ?S" for r
    using that Cons.prems S by (intro pick_step) auto
  show ?case
  proof (cases "i = j")
    case True
    then have "weighted_pick w r H \<noteq> Some i" for r using Cons.prems(1) pick_in by fastforce
    then have "{r \<in> {0..<w j + ?S}. weighted_pick w r (j # H) = Some i} = {0..<w j}"
      using step True S by (auto split: if_splits)
    then show ?thesis using True by simp
  next
    case False
    have "{r \<in> {0..<w j + ?S}. weighted_pick w r (j # H) = Some i}
        = (+) (w j) ` {r \<in> {0..<?S}. weighted_pick w r H = Some i}"
    proof (intro set_eqI iffI)
      fix r assume r: "r \<in> {r \<in> {0..<w j + ?S}. weighted_pick w r (j # H) = Some i}"
      then have "weighted_pick w r (j # H) = (if r < w j then Some j else weighted_pick w (r - w j) H)"
        using step by auto
      then show "r \<in> (+) (w j) ` {r \<in> {0..<?S}. weighted_pick w r H = Some i}"
        using r False by (intro image_eqI [of _ _ "r - w j"]) (auto split: if_splits)
    next
      fix r assume "r \<in> (+) (w j) ` {r \<in> {0..<?S}. weighted_pick w r H = Some i}"
      then obtain r' where r': "r = w j + r'" "0 \<le> r'" "r' < ?S" "weighted_pick w r' H = Some i" by auto
      then show "r \<in> {r \<in> {0..<w j + ?S}. weighted_pick w r (j # H) = Some i}"
        using step [of r] Cons.prems(2) by auto
    qed
    then have "card {r \<in> {0..<w j + ?S}. weighted_pick w r (j # H) = Some i}
        = card {r \<in> {0..<?S}. weighted_pick w r H = Some i}"
      by (simp add: card_image)
    then show ?thesis using Cons.IH Cons.prems False S by auto
  qed
qed simp

definition least_step :: "(nat \<Rightarrow> int) \<Rightarrow> nat \<Rightarrow> int \<times> nat option \<Rightarrow> int \<times> nat option" where
  "least_step f i = (\<lambda>(m, sel). let conns = f i in if conns < m then (conns, Some i) else (m, sel))"

lemma least_step_pair: "least_step f i (m, s) = (if f i < m then (f i, Some i) else (m, s))"
  by (simp add: least_step_def)

lemma least_fold_min: "fst (fold (least_step f) H (m0, s0)) \<le> m0 \<and> (\<forall>i \<in> set H. fst (fold (least_step f) H (m0, s0)) \<le> f i)"
proof (induction H arbitrary: m0 s0)
  case (Cons i H)
  show ?case using Cons [of "f i" "Some i"] Cons [of m0 s0] by (cases "f i < m0") (auto simp: least_step_pair)
qed simp

lemma least_fold_sel:
  "snd (fold (least_step f) H (m0, s0)) = s0 \<and> fst (fold (least_step f) H (m0, s0)) = m0 \<or>
   (\<exists>i \<in> set H. snd (fold (least_step f) H (m0, s0)) = Some i \<and> fst (fold (least_step f) H (m0, s0)) = f i)"
proof (induction H arbitrary: m0 s0)
  case (Cons i H)
  then show ?case using Cons [of "f i" "Some i"] Cons [of m0 s0] by (cases "f i < m0") (auto simp: least_step_pair)
qed simp

lemma leastConn_spec:
  assumes "H \<noteq> []" "\<forall>i \<in> set H. be_ActiveConns (lb_backends lb ! i) < 2 ^ 63 - 1"
  shows "\<exists>i \<in> set H. LoadBalancer_leastConn H lb = Some i \<and>
    (\<forall>j \<in> set H. be_ActiveConns (lb_backends lb ! i) \<le> be_ActiveConns (lb_backends lb ! j))"
proof -
  define r where "r = fold (least_step (\<lambda>i. be_ActiveConns (lb_backends lb ! i))) H (2 ^ 63 - 1, None)"
  have e: "LoadBalancer_leastConn H lb = snd r"
    unfolding LoadBalancer_leastConn_def r_def least_step_def by simp
  have min: "\<forall>j \<in> set H. fst r \<le> be_ActiveConns (lb_backends lb ! j)"
    unfolding r_def using least_fold_min by blast
  obtain h where "h \<in> set H" using assms(1) by (cases H) auto
  then have "fst r \<noteq> 2 ^ 63 - 1" using min assms(2) by fastforce
  then have "\<exists>i \<in> set H. snd r = Some i \<and> fst r = be_ActiveConns (lb_backends lb ! i)"
    unfolding r_def using least_fold_sel by blast
  then show ?thesis using min e by auto
qed

lemma roundRobin_choice:
  assumes "H \<noteq> []" "length H < 2 ^ 64"
  shows "LoadBalancer_roundRobin H lb =
    (H ! (unat (lb_counter lb) mod length H), lb\<lparr> lb_counter := lb_counter lb + 1 \<rparr>)"
proof -
  have "unat (of_nat (length H) :: u64) = length H" using assms(2) by (simp add: unat_of_nat)
  then have "unat (lb_counter lb mod of_nat (length H)) = unat (lb_counter lb) mod length H"
    by (simp add: unat_mod_distrib)
  then show ?thesis by (simp add: LoadBalancer_roundRobin_def)
qed

lemma roundRobin_in: "H \<noteq> [] \<Longrightarrow> length H < 2 ^ 64 \<Longrightarrow> fst (LoadBalancer_roundRobin H lb) \<in> set H"
  by (simp add: roundRobin_choice)

lemma weighted_choice:
  assumes "H \<noteq> []" "length H < 2 ^ 64" "intn_ok rnd"
    and "\<forall>i \<in> set H. 0 \<le> be_Weight (lb_backends lb ! i)"
    and "sum_list (map (\<lambda>i. be_Weight (lb_backends lb ! i)) H) < 2 ^ 63"
  shows "\<exists>i lb'. LoadBalancer_weighted rnd H lb = Inr (i, lb') \<and> i \<in> set H \<and> lb_backends lb' = lb_backends lb"
proof -
  let ?w = "\<lambda>i. be_Weight (lb_backends lb ! i)"
  have t: "fold (\<lambda>i t. add64 t (?w i)) H 0 = sum_list (map ?w H)" using total_weight [of H ?w 0] assms by simp
  have "0 \<le> sum_list (map ?w H)" using assms(4) by (intro sum_list_nonneg) auto
  then consider (zero) "sum_list (map ?w H) = 0" | (pos) "0 < sum_list (map ?w H)" by linarith
  then show ?thesis
  proof cases
    case zero
    then show ?thesis
      using roundRobin_choice [OF assms(1,2), of lb] assms(1) t by (simp add: LoadBalancer_weighted_def)
  next
    case pos
    then obtain i where "i \<in> set H" "weighted_pick ?w (rnd (sum_list (map ?w H))) H = Some i"
      using weighted_pick_Some [OF assms(4) _ _ assms(5)] assms(3) unfolding intn_ok_def by blast
    then show ?thesis using pos t by (simp add: LoadBalancer_weighted_def Intn_def)
  qed
qed

text \<open>
  A healthy backend is found whenever there is one. With weights and connection counts in range,
  \<open>Next\<close> never panics and never returns a nil backend, in every mode: it reports an error exactly when no
  backend is healthy and otherwise returns a backend of the list that is marked healthy; in least-conn mode
  no healthy backend has fewer connections. It never changes the backends.
\<close>

theorem next_healthy:
  assumes "intn_ok rnd" and "lb_sane lb"
  shows "\<exists>r lb'. LoadBalancer_Next rnd clientIP lb = Inr (r, lb') \<and> lb_backends lb' = lb_backends lb \<and>
    (case r of
       None \<Rightarrow> \<forall>b \<in> set (lb_backends lb). \<not> be_Healthy b
     | Some None \<Rightarrow> False
     | Some (Some i) \<Rightarrow> i < length (lb_backends lb) \<and> be_Healthy (lb_backends lb ! i) \<and>
         (lb_mode lb = ''least-conn'' \<longrightarrow>
            (\<forall>b \<in> set (lb_backends lb). be_Healthy b \<longrightarrow> be_ActiveConns (lb_backends lb ! i) \<le> be_ActiveConns b)))"
proof -
  define H where "H = LoadBalancer_getHealthyBackends lb"
  have len: "length H < 2 ^ 63" using length_healthy_le [of lb] assms(2) unfolding H_def lb_sane_def by linarith
  have inH: "i \<in> set H \<longleftrightarrow> i < length (lb_backends lb) \<and> be_Healthy (lb_backends lb ! i)" for i
    unfolding H_def by (rule set_healthy)
  show ?thesis
  proof (cases "H = []")
    case True
    then have "\<forall>b \<in> set (lb_backends lb). \<not> be_Healthy b" using inH by (metis in_set_conv_nth list.set(1) empty_iff)
    then show ?thesis using True by (simp add: LoadBalancer_Next_def H_def)
  next
    case False
    let ?rnd = "LoadBalancer_random rnd H"
    have random: "\<exists>i \<in> set H. ?rnd = Inr i"
    proof -
      have "0 \<le> rnd (int (length H))" "rnd (int (length H)) < int (length H)" using assms(1) False by (auto simp: intn_ok_def)
      then show ?thesis using False by (auto simp: LoadBalancer_random_def Intn_def nat_less_iff)
    qed
    obtain iw lbw where weighted: "LoadBalancer_weighted rnd H lb = Inr (iw, lbw)" "iw \<in> set H" "lb_backends lbw = lb_backends lb"
      using weighted_choice [OF False _ assms(1) healthy_weights [OF assms(2) H_def]] len by auto
    have "\<forall>i \<in> set H. be_ActiveConns (lb_backends lb ! i) < 2 ^ 63 - 1" using assms(2) inH by (auto simp: lb_sane_def)
    then obtain il where least: "il \<in> set H" "LoadBalancer_leastConn H lb = Some il"
        "\<forall>j \<in> set H. be_ActiveConns (lb_backends lb ! il) \<le> be_ActiveConns (lb_backends lb ! j)"
      using leastConn_spec [OF False] by blast
    have "unat (ip_hash clientIP mod of_nat (length H)) < length H"
      using False len by (simp add: unat_mod_distrib unat_of_nat)
    then have hash: "LoadBalancer_ipHash H clientIP \<in> set H" by (simp add: LoadBalancer_ipHash_def)
    have rr: "fst (LoadBalancer_roundRobin H lb) \<in> set H" using roundRobin_in [OF False] len by simp
    have lc: "be_ActiveConns (lb_backends lb ! il) \<le> be_ActiveConns b" if "b \<in> set (lb_backends lb)" "be_Healthy b" for b
      using least(3) inH that by (metis in_set_conv_nth)
    show ?thesis
      using random weighted least(1,2) hash rr lc False len
      by (auto simp: LoadBalancer_Next_def H_def [symmetric] inH roundRobin_choice split: prod.splits)
  qed
qed

theorem next_healthy_witness:
  "\<exists>i lb'. LoadBalancer_Next (\<lambda>n. n - 1) [49] (LoadBalancer_AddBackend ''a'' 1 5 (NewLoadBalancer ''weighted'')) =
     Inr (Some (Some i), lb') \<and> i = 0"
proof -
  define lb where "lb = LoadBalancer_AddBackend ''a'' 1 5 (NewLoadBalancer ''weighted'')"
  have lb: "length (lb_backends lb) = 1" "\<exists>b \<in> set (lb_backends lb). be_Healthy b" "lb_sane lb"
    by (simp_all add: lb_def lb_sane_def LoadBalancer_AddBackend_def NewLoadBalancer_def)
  have "intn_ok (\<lambda>n. n - 1)" by (simp add: intn_ok_def)
  from next_healthy [OF this lb(3), of "[49]"] show ?thesis
  proof (elim exE conjE, goal_cases)
    case (1 r lb')
    then have "r = Some (Some 0)" using lb(1,2) by (cases r) (simp, auto split: option.splits)
    then show ?case using 1(1) unfolding lb_def by simp
  qed
qed

section \<open>Shares of the backends\<close>

fun next_run :: "(int \<Rightarrow> int) \<Rightarrow> nat list list \<Rightarrow> balancer \<Rightarrow> (nat option option list \<times> balancer) res" where
  "next_run rnd [] lb = Inr ([], lb)"
| "next_run rnd (ip # ips) lb =
     and_then (LoadBalancer_Next rnd ip lb) (\<lambda>(r, lb1).
       and_then (next_run rnd ips lb1) (\<lambda>(rs, lb2). Inr (r # rs, lb2)))"

lemma healthy_counter [simp]:
  "LoadBalancer_getHealthyBackends (lb\<lparr> lb_counter := c \<rparr>) = LoadBalancer_getHealthyBackends lb"
  by (simp add: LoadBalancer_getHealthyBackends_def)

lemma next_run_rr:
  assumes "lb_mode lb = ''round-robin''" "H = LoadBalancer_getHealthyBackends lb" "H \<noteq> []" "length H < 2 ^ 64"
    and "unat (lb_counter lb) + length ips \<le> 2 ^ 64"
  shows "\<exists>c. next_run rnd ips lb =
    Inr (map (\<lambda>j. Some (Some (H ! ((unat (lb_counter lb) + j) mod length H)))) [0..<length ips], lb\<lparr> lb_counter := c \<rparr>)"
  using assms
proof (induction ips arbitrary: lb)
  case (Cons ip ips)
  let ?c = "lb_counter lb" and ?lb1 = "lb\<lparr> lb_counter := lb_counter lb + 1 \<rparr>"
  let ?g = "\<lambda>n. map (\<lambda>j. Some (Some (H ! ((n + j) mod length H)))) [0..<length ips]"
  have nxt: "LoadBalancer_Next rnd ip lb = Inr (Some (Some (H ! (unat ?c mod length H))), ?lb1)"
    using Cons.prems by (simp add: LoadBalancer_Next_def roundRobin_choice Let_def)
  have "\<exists>c. next_run rnd ips ?lb1 = Inr (?g (unat ?c + 1), lb\<lparr> lb_counter := c \<rparr>)"
  proof (cases ips)
    case (Cons a as)
    then have "unat (?c + 1) = unat ?c + 1" using Cons.prems(5) by (simp add: unat_word_ariths)
    then show ?thesis using Cons.IH [of ?lb1] Cons.prems by simp
  qed auto
  then obtain c where "next_run rnd ips ?lb1 = Inr (?g (unat ?c + 1), lb\<lparr> lb_counter := c \<rparr>)" ..
  moreover have "map (\<lambda>j. Some (Some (H ! ((unat ?c + j) mod length H)))) [0..<Suc (length ips)]
      = Some (Some (H ! (unat ?c mod length H))) # ?g (unat ?c + 1)"
    by (simp add: upt_conv_Cons map_Suc_upt [symmetric] del: upt_Suc)
  ultimately show ?case using nxt by auto
next
  case Nil
  show ?case by (intro exI [of _ "lb_counter lb"]) simp
qed

lemma rotation_block:
  "map (\<lambda>j. H ! ((c + j) mod length H)) [0..<length H] = rotate c H"
  by (rule nth_equalityI) (auto simp: nth_rotate)

lemma rounds_count:
  assumes "distinct H" "i \<in> set H"
  shows "count (mset (map (\<lambda>j. H ! ((c + j) mod length H)) [0..<k * length H])) i = k"
proof (induction k)
  case (Suc k)
  have "[0..<Suc k * length H] = [0..<k * length H] @ map ((+) (k * length H)) [0..<length H]"
    using upt_add_eq_append [of 0 "k * length H" "length H"] map_add_upt [of "k * length H" "length H"]
    by (simp add: add.commute [of _ "k * length H"] add.commute [of "length H"])
  then have "mset (map (\<lambda>j. H ! ((c + j) mod length H)) [0..<Suc k * length H])
      = mset (map (\<lambda>j. H ! ((c + j) mod length H)) [0..<k * length H])
        + mset (map (\<lambda>j. H ! ((c + k * length H + j) mod length H)) [0..<length H])"
    by (simp add: comp_def add.assoc)
  moreover have "count (mset (rotate (c + k * length H) H)) i = 1"
    using assms by (metis distinct_count_atmost_1 distinct_rotate set_rotate)
  ultimately show ?case using Suc by (simp only: rotation_block count_union)
qed simp

text \<open>
  Round-robin is fair. While the set of healthy backends stays the same and the 64-bit counter does not
  wrap around, any \<open>k\<close> times as many consecutive calls of \<open>Next\<close> as there are healthy backends select each
  of them exactly \<open>k\<close> times, wherever the counter starts.
\<close>

theorem round_robin_fair:
  assumes "lb_mode lb = ''round-robin''" and "H = LoadBalancer_getHealthyBackends lb" and "length H < 2 ^ 64"
    and "length ips = k * length H" and "unat (lb_counter lb) + length ips \<le> 2 ^ 64"
    and "i < length (lb_backends lb)" and "be_Healthy (lb_backends lb ! i)"
  shows "\<exists>rs lb'. next_run rnd ips lb = Inr (rs, lb') \<and> lb_backends lb' = lb_backends lb \<and>
    count (mset rs) (Some (Some i)) = k"
proof -
  have i: "i \<in> set H" using assms(2,6,7) by (simp add: set_healthy)
  then have ne: "H \<noteq> []" by auto
  define js where "js = map (\<lambda>j. H ! ((unat (lb_counter lb) + j) mod length H)) [0..<k * length H]"
  obtain c where "next_run rnd ips lb = Inr (map (Some \<circ> Some) js, lb\<lparr> lb_counter := c \<rparr>)"
    using next_run_rr [OF assms(1,2) ne assms(3,5), of rnd] assms(4) unfolding js_def by auto
  moreover have "count (mset (map (Some \<circ> Some) js)) (Some (Some i)) = count (mset js) i"
    by (induction js) auto
  moreover have "count (mset js) i = k"
    unfolding js_def using rounds_count [OF _ i] assms(2) distinct_healthy by auto
  ultimately show ?thesis by auto
qed

theorem round_robin_fair_witness:
  "\<exists>rs lb'. next_run (\<lambda>n. 0) [[], [], [], []]
     (LoadBalancer_AddBackend ''b'' 2 0 (LoadBalancer_AddBackend ''a'' 1 0 (NewLoadBalancer ''round-robin''))) = Inr (rs, lb') \<and>
     count (mset rs) (Some (Some 1)) = 2"
proof -
  let ?lb = "LoadBalancer_AddBackend ''b'' 2 0 (LoadBalancer_AddBackend ''a'' 1 0 (NewLoadBalancer ''round-robin''))"
  have "LoadBalancer_getHealthyBackends ?lb = [0, 1]"
    by (simp add: LoadBalancer_getHealthyBackends_def LoadBalancer_AddBackend_def NewLoadBalancer_def)
  then show ?thesis
    using round_robin_fair [of ?lb "[0, 1]" "[[], [], [], []]" 2 1 "\<lambda>n. 0"]
    by (auto simp: LoadBalancer_AddBackend_def NewLoadBalancer_def)
qed

text \<open>
  The weighted mode is exact. Of the numbers \<open>rand.Intn\<close> may return for the total weight \<open>W\<close> of the
  healthy backends, exactly as many as a backend's weight lead to that backend; so under a uniform draw its
  share is weight over \<open>W\<close>, and a backend of weight 0 is never chosen while another has weight.
\<close>

theorem weighted_shares:
  assumes "lb_mode lb = ''weighted''" and "lb_sane lb" and "H = LoadBalancer_getHealthyBackends lb"
    and "W = sum_list (map (\<lambda>i. be_Weight (lb_backends lb ! i)) H)" and "0 < W"
    and "i < length (lb_backends lb)" and "be_Healthy (lb_backends lb ! i)"
  shows "card {r. 0 \<le> r \<and> r < W \<and> LoadBalancer_Next (\<lambda>n. r) clientIP lb = Inr (Some (Some i), lb)}
       = nat (be_Weight (lb_backends lb ! i))"
proof -
  let ?w = "\<lambda>i. be_Weight (lb_backends lb ! i)"
  note w = healthy_weights [OF assms(2,3)]
  have i: "i \<in> set H" using assms(3,6,7) by (simp add: set_healthy)
  have t: "fold (\<lambda>i t. add64 t (?w i)) H 0 = W" using total_weight [OF w(1), of 0] w(2) assms(4) by simp
  have "LoadBalancer_Next (\<lambda>n. r) clientIP lb = Inr (Some (Some i), lb) \<longleftrightarrow> weighted_pick ?w r H = Some i"
    if r: "0 \<le> r" "r < W" for r
  proof -
    obtain j where j: "weighted_pick ?w r H = Some j" using weighted_pick_Some [OF w(1) r(1) _ w(2)] r(2) assms(4) by auto
    have "LoadBalancer_weighted (\<lambda>n. r) H lb = Inr (j, lb)"
      using t assms(5) j by (simp add: LoadBalancer_weighted_def Intn_def)
    then show ?thesis using i j assms(1) by (auto simp: LoadBalancer_Next_def assms(3) [symmetric])
  qed
  then have "{r. 0 \<le> r \<and> r < W \<and> LoadBalancer_Next (\<lambda>n. r) clientIP lb = Inr (Some (Some i), lb)}
      = {r \<in> {0..<W}. weighted_pick ?w r H = Some i}" by auto
  then show ?thesis using pick_shares [OF _ w i] assms(3,4) distinct_healthy by auto
qed

theorem weighted_shares_witness:
  "card {r. 0 \<le> r \<and> r < 4 \<and> LoadBalancer_Next (\<lambda>n. r) []
       (LoadBalancer_AddBackend ''b'' 2 3 (LoadBalancer_AddBackend ''a'' 1 1 (NewLoadBalancer ''weighted'')))
     = Inr (Some (Some 1), LoadBalancer_AddBackend ''b'' 2 3 (LoadBalancer_AddBackend ''a'' 1 1 (NewLoadBalancer ''weighted'')))} = 3"
proof -
  define lb where "lb = LoadBalancer_AddBackend ''b'' 2 3 (LoadBalancer_AddBackend ''a'' 1 1 (NewLoadBalancer ''weighted''))"
  have lb: "lb_mode lb = ''weighted''" "lb_sane lb" "[0, 1] = LoadBalancer_getHealthyBackends lb"
      "4 = sum_list (map (\<lambda>i. be_Weight (lb_backends lb ! i)) [0, 1])" "1 < length (lb_backends lb)"
      "be_Healthy (lb_backends lb ! 1)" "nat (be_Weight (lb_backends lb ! 1)) = 3"
    by (simp_all add: lb_def lb_sane_def LoadBalancer_getHealthyBackends_def LoadBalancer_AddBackend_def NewLoadBalancer_def)
  show ?thesis using weighted_shares [OF lb(1-4) _ lb(5,6), of "[]"] lb(7) unfolding lb_def by (simp only: zero_less_numeral)
qed

end
