(* ===== verification/Wallet.thy ===== *)
theory Wallet
  imports Go_Float Go_Hex
begin

text \<open>
  Wallets, recharge orders and watched payments of the control plane: the handlers
  \<open>plane/internal/api/handler/user/wallet.go\<close> and \<open>payment.go\<close>, the monitor
  \<open>plane/internal/service/payment_monitor.go\<close> and the queries of \<open>plane/internal/db/dao/wallet.go\<close>,
  \<open>payment.go\<close> and \<open>stats.go\<close> they use. A table is the list of its rows; the success of each statement, fresh
  identifiers and the clock are arguments. Amounts are Go's \<open>float64\<close>, so an addition rounds, and \<open>col\<close> is
  what a \<open>decimal\<close> column keeps of the value written to it, which depends on the database. MD5, the format
  \<open>%.2f\<close> and the answers of the payment services are arguments too. Requests arrive as their decoded
  fields; logging and the rendering of answers are left out.
\<close>

section \<open>Tables\<close>

record wallet =
  w_ID :: string
  w_UserID :: string
  w_Balance :: rat
  w_FrozenAmount :: rat

record txn =
  t_ID :: string
  t_WalletID :: string
  t_Type :: string
  t_Status :: string
  t_Amount :: rat
  t_Balance :: rat
  t_Description :: string
  t_OrderID :: string

record order =
  o_ID :: string
  o_UserID :: string
  o_Type :: string
  o_Status :: string
  o_Amount :: rat
  o_PayMethod :: string
  o_PlanID :: string
  o_PaidAt :: "int option"
  o_ExternalID :: string

record pay_monitor =
  m_ID :: string
  m_TransactionID :: string
  m_PaymentType :: string
  m_ExpectedAmount :: rat
  m_Status :: string
  m_ConfirmCount :: int
  m_LastCheckAt :: "int option"
  m_ExpiresAt :: int
  m_CreatedAt :: int

record wallet_db =
  db_wallets :: "wallet list"
  db_txns :: "txn list"
  db_orders :: "order list"
  db_monitors :: "pay_monitor list"

datatype wcall =
    Q_wallet | Q_create_wallet | Q_balance | Q_create_txn | Q_commit | Q_create_order | Q_order
  | Q_order_status | Q_pending | Q_monitor_status | Q_txn | Q_txn_status | Q_create_monitor

section \<open>Queries\<close>

text \<open>An insert fails when its primary key, or the unique user of a wallet, is already there. Empty fields
  with a declared default get it: the status of a transaction, an order or a monitor.\<close>

definition dflt :: "string \<Rightarrow> string \<Rightarrow> string" where
  "dflt d s = (if s = [] then d else s)"

definition DAO_GetWalletByUserID :: "wallet_db \<Rightarrow> string \<Rightarrow> wallet option" where
  "DAO_GetWalletByUserID db uid = find (\<lambda>w. w_UserID w = uid) (db_wallets db)"

definition DAO_GetWalletByID :: "wallet_db \<Rightarrow> string \<Rightarrow> wallet option" where
  "DAO_GetWalletByID db wid = find (\<lambda>w. w_ID w = wid) (db_wallets db)"

definition DAO_GetOrCreateWallet ::
    "(wcall \<Rightarrow> bool) \<Rightarrow> string \<Rightarrow> string \<Rightarrow> wallet_db \<Rightarrow> wallet option \<times> wallet_db" where
  "DAO_GetOrCreateWallet works newID uid db =
     (if \<not> works Q_wallet then (None, db)
      else case DAO_GetWalletByUserID db uid of
        Some w \<Rightarrow> (Some w, db)
      | None \<Rightarrow>
          (let w = \<lparr> w_ID = newID, w_UserID = uid, w_Balance = 0, w_FrozenAmount = 0 \<rparr>
           in if works Q_create_wallet \<and> newID \<notin> w_ID ` set (db_wallets db)
              then (Some w, db\<lparr> db_wallets := db_wallets db @ [w] \<rparr>)
              else (None, db)))"

definition DAO_UpdateWalletBalance :: "(rat \<Rightarrow> rat) \<Rightarrow> string \<Rightarrow> rat \<Rightarrow> rat \<Rightarrow> wallet_db \<Rightarrow> wallet_db" where
  "DAO_UpdateWalletBalance col wid balance frozen db =
     db\<lparr> db_wallets := map (\<lambda>w. if w_ID w = wid then w\<lparr> w_Balance := col balance, w_FrozenAmount := col frozen \<rparr> else w)
                        (db_wallets db) \<rparr>"

definition DAO_CreateTransaction :: "(wcall \<Rightarrow> bool) \<Rightarrow> (rat \<Rightarrow> rat) \<Rightarrow> txn \<Rightarrow> wallet_db \<Rightarrow> bool \<times> wallet_db" where
  "DAO_CreateTransaction works col t db =
     (if works Q_create_txn \<and> t_ID t \<notin> t_ID ` set (db_txns db)
      then (True, db\<lparr> db_txns := db_txns db @
             [t\<lparr> t_Status := dflt ''pending'' (t_Status t), t_Amount := col (t_Amount t), t_Balance := col (t_Balance t) \<rparr>] \<rparr>)
      else (False, db))"

definition DAO_GetTransactionByID :: "wallet_db \<Rightarrow> string \<Rightarrow> txn option" where
  "DAO_GetTransactionByID db tid = find (\<lambda>t. t_ID t = tid) (db_txns db)"

definition DAO_UpdateTransactionStatus :: "(rat \<Rightarrow> rat) \<Rightarrow> string \<Rightarrow> string \<Rightarrow> rat \<Rightarrow> wallet_db \<Rightarrow> wallet_db" where
  "DAO_UpdateTransactionStatus col tid status balance db =
     db\<lparr> db_txns := map (\<lambda>t. if t_ID t = tid then t\<lparr> t_Status := status, t_Balance := col balance \<rparr> else t) (db_txns db) \<rparr>"

definition DAO_CreateOrder :: "(wcall \<Rightarrow> bool) \<Rightarrow> (rat \<Rightarrow> rat) \<Rightarrow> order \<Rightarrow> wallet_db \<Rightarrow> bool \<times> wallet_db" where
  "DAO_CreateOrder works col ord db =
     (if works Q_create_order \<and> o_ID ord \<notin> o_ID ` set (db_orders db)
      then (True, db\<lparr> db_orders := db_orders db @
             [ord\<lparr> o_Status := dflt ''pending'' (o_Status ord), o_Amount := col (o_Amount ord) \<rparr>] \<rparr>)
      else (False, db))"

definition DAO_GetOrder :: "wallet_db \<Rightarrow> string \<Rightarrow> order option" where
  "DAO_GetOrder db oid = find (\<lambda>x. o_ID x = oid) (db_orders db)"

definition DAO_UpdateOrderStatus :: "int \<Rightarrow> string \<Rightarrow> string \<Rightarrow> string \<Rightarrow> wallet_db \<Rightarrow> wallet_db" where
  "DAO_UpdateOrderStatus now oid status externalID db =
     db\<lparr> db_orders := map (\<lambda>x. if o_ID x = oid
         then x\<lparr> o_Status := status,
                o_PaidAt := (if status = ''completed'' \<or> status = ''paid'' then Some now else o_PaidAt x),
                o_ExternalID := (if externalID \<noteq> [] then externalID else o_ExternalID x) \<rparr>
         else x) (db_orders db) \<rparr>"

definition DAO_CreatePaymentMonitor :: "(wcall \<Rightarrow> bool) \<Rightarrow> (rat \<Rightarrow> rat) \<Rightarrow> pay_monitor \<Rightarrow> wallet_db \<Rightarrow> bool \<times> wallet_db" where
  "DAO_CreatePaymentMonitor works col m db =
     (if works Q_create_monitor \<and> m_ID m \<notin> m_ID ` set (db_monitors db)
      then (True, db\<lparr> db_monitors := db_monitors db @
             [m\<lparr> m_Status := dflt ''monitoring'' (m_Status m), m_ExpectedAmount := col (m_ExpectedAmount m) \<rparr>] \<rparr>)
      else (False, db))"

definition DAO_ListPendingMonitors :: "int \<Rightarrow> wallet_db \<Rightarrow> pay_monitor list" where
  "DAO_ListPendingMonitors now db =
     sort_key m_CreatedAt (filter (\<lambda>m. m_Status m = ''monitoring'' \<and> m_ExpiresAt m > now) (db_monitors db))"

definition DAO_UpdatePaymentMonitorStatus :: "int \<Rightarrow> string \<Rightarrow> string \<Rightarrow> int \<Rightarrow> wallet_db \<Rightarrow> wallet_db" where
  "DAO_UpdatePaymentMonitorStatus now mid status confirmCount db =
     db\<lparr> db_monitors := map (\<lambda>m. if m_ID m = mid
         then m\<lparr> m_Status := status, m_ConfirmCount := confirmCount, m_LastCheckAt := Some now \<rparr> else m) (db_monitors db) \<rparr>"

text \<open>\<open>DAO.Transaction\<close>: the function's changes are kept when it returns no error and the commit succeeds.\<close>

definition DAO_Transaction :: "(wcall \<Rightarrow> bool) \<Rightarrow> (wallet_db \<Rightarrow> 'a option \<times> wallet_db) \<Rightarrow> wallet_db \<Rightarrow> 'a option \<times> wallet_db" where
  "DAO_Transaction works fn db =
     (case fn db of
        (None, _) \<Rightarrow> (None, db)
      | (Some x, db') \<Rightarrow> if works Q_commit then (Some x, db') else (None, db))"

section \<open>Recharging a wallet directly\<close>

datatype reply =
    R_bad_request | R_not_found | R_internal | R_processed
  | R_ok rat

text \<open>
  Both handlers read the wallet first and write the new balance in a transaction later. The second part is
  a definition of its own, since requests run concurrently.
\<close>

definition recharge_commit ::
    "(wcall \<Rightarrow> bool) \<Rightarrow> (rat \<Rightarrow> rat) \<Rightarrow> string \<Rightarrow> string \<Rightarrow> string \<Rightarrow> wallet \<Rightarrow> rat \<Rightarrow> wallet_db \<Rightarrow> reply \<times> wallet_db" where
  "recharge_commit works col newTID description orderID wallet amount db =
     (let newBalance = fadd (w_Balance wallet) amount in
      case DAO_Transaction works (\<lambda>db.
             if \<not> works Q_balance then (None, db)
             else (let db1 = DAO_UpdateWalletBalance col (w_ID wallet) newBalance (w_FrozenAmount wallet) db;
                       t = \<lparr> t_ID = newTID, t_WalletID = w_ID wallet, t_Type = ''recharge'', t_Status = [],
                             t_Amount = amount, t_Balance = newBalance, t_Description = description, t_OrderID = orderID \<rparr>
                   in case DAO_CreateTransaction works col t db1 of
                        (True, db2) \<Rightarrow> (Some (), db2)
                      | (False, db2) \<Rightarrow> (None, db2))) db of
        (None, db') \<Rightarrow> (R_internal, db')
      | (Some _, db') \<Rightarrow> (R_ok newBalance, db'))"

definition WalletHandler_Recharge ::
    "(wcall \<Rightarrow> bool) \<Rightarrow> (rat \<Rightarrow> rat) \<Rightarrow> string \<Rightarrow> string \<Rightarrow> string \<Rightarrow> string \<Rightarrow> rat \<Rightarrow> wallet_db \<Rightarrow> reply \<times> wallet_db" where
  "WalletHandler_Recharge works col label newWID newTID uid amount db =
     (if amount \<le> 0 then (R_bad_request, db)
      else case DAO_GetOrCreateWallet works newWID uid db of
        (None, db1) \<Rightarrow> (R_internal, db1)
      | (Some wallet, db1) \<Rightarrow> recharge_commit works col newTID label [] wallet amount db1)"

definition PaymentHandler_ManualRecharge ::
    "(wcall \<Rightarrow> bool) \<Rightarrow> (rat \<Rightarrow> rat) \<Rightarrow> (rat \<Rightarrow> string) \<Rightarrow> string \<Rightarrow> string \<Rightarrow> string \<Rightarrow> rat \<Rightarrow> string \<Rightarrow> wallet_db
       \<Rightarrow> reply \<times> wallet_db" where
  "PaymentHandler_ManualRecharge works col label newTID adminID uid amount description db =
     (if uid = [] \<or> amount \<le> 0 then (R_bad_request, db)
      else if \<not> works Q_wallet then (R_bad_request, db)
      else case DAO_GetWalletByUserID db uid of
        None \<Rightarrow> (R_bad_request, db)
      | Some wallet \<Rightarrow>
          recharge_commit works col newTID (if description = [] then label amount else description)
            (''admin_'' @ adminID) wallet amount db)"

section \<open>Recharge orders\<close>

definition valid_method :: "string \<Rightarrow> bool" where
  "valid_method m \<longleftrightarrow> m \<in> {''alipay'', ''wechat'', ''crypto'', ''usdt''}"

definition PaymentHandler_CreateRechargeOrder ::
    "(wcall \<Rightarrow> bool) \<Rightarrow> (rat \<Rightarrow> rat) \<Rightarrow> string \<Rightarrow> string \<Rightarrow> rat \<Rightarrow> string \<Rightarrow> wallet_db \<Rightarrow> reply \<times> wallet_db" where
  "PaymentHandler_CreateRechargeOrder works col newID uid amount payMethod db =
     (if amount < 10 \<or> payMethod = [] then (R_bad_request, db)
      else if \<not> valid_method payMethod then (R_bad_request, db)
      else case DAO_CreateOrder works col
             \<lparr> o_ID = newID, o_UserID = uid, o_Type = ''recharge'', o_Status = ''pending'', o_Amount = amount,
               o_PayMethod = payMethod, o_PlanID = [], o_PaidAt = None, o_ExternalID = [] \<rparr> db of
        (False, db') \<Rightarrow> (R_internal, db')
      | (True, db') \<Rightarrow> (R_ok amount, db'))"

definition PaymentHandler_verifyPaymentSign ::
    "(string \<Rightarrow> byte list) \<Rightarrow> (rat \<Rightarrow> string) \<Rightarrow> string \<Rightarrow> string \<Rightarrow> string \<Rightarrow> string \<Rightarrow> rat \<Rightarrow> string \<Rightarrow> string \<Rightarrow> bool" where
  "PaymentHandler_verifyPaymentSign md5 fmt2 callbackSecret jwtSecret orderID payMethod amount transactionID sign =
     (let secret = (if callbackSecret = [] then jwtSecret else callbackSecret);
          signStr = orderID @ ''|'' @ payMethod @ ''|'' @ fmt2 amount @ ''|'' @ transactionID @ ''|'' @ secret
      in sign = hex_EncodeToString (md5 signStr))"

text \<open>The statements of the callback are not one transaction: each takes effect when it succeeds.\<close>

definition PaymentHandler_PaymentCallback ::
    "(wcall \<Rightarrow> bool) \<Rightarrow> (rat \<Rightarrow> rat) \<Rightarrow> (string \<Rightarrow> byte list) \<Rightarrow> (rat \<Rightarrow> string) \<Rightarrow> string \<Rightarrow> string \<Rightarrow> int
       \<Rightarrow> string \<Rightarrow> string \<Rightarrow> rat \<Rightarrow> string \<Rightarrow> string \<Rightarrow> wallet_db \<Rightarrow> reply \<times> wallet_db" where
  "PaymentHandler_PaymentCallback works col md5 fmt2 callbackSecret jwtSecret now orderID payMethod amount transactionID sign db =
     (if orderID = [] \<or> payMethod = [] \<or> amount = 0 then (R_bad_request, db)
      else if \<not> PaymentHandler_verifyPaymentSign md5 fmt2 callbackSecret jwtSecret orderID payMethod amount transactionID sign
      then (R_bad_request, db)
      else case (if works Q_order then DAO_GetOrder db orderID else None) of
        None \<Rightarrow> (R_not_found, db)
      | Some ord \<Rightarrow>
          if o_Status ord \<noteq> ''pending'' then (R_processed, db)
          else if o_Amount ord \<noteq> amount then (R_bad_request, db)
          else case (if works Q_wallet then DAO_GetWalletByUserID db (o_UserID ord) else None) of
            None \<Rightarrow> (R_internal, db)
          | Some wallet \<Rightarrow>
              (let newBalance = fadd (w_Balance wallet) amount in
               if \<not> works Q_balance then (R_internal, db)
               else (let db1 = DAO_UpdateWalletBalance col (w_ID wallet) newBalance (w_FrozenAmount wallet) db in
                     if \<not> works Q_order_status then (R_internal, db1)
                     else (R_ok newBalance, DAO_UpdateOrderStatus now orderID ''completed'' transactionID db1))))"

section \<open>The payment monitor\<close>

text \<open>The result of a confirmation is the wallet and the new balance it logs.\<close>

definition PaymentMonitor_confirmPayment ::
    "(wcall \<Rightarrow> bool) \<Rightarrow> (rat \<Rightarrow> rat) \<Rightarrow> int \<Rightarrow> pay_monitor \<Rightarrow> wallet_db \<Rightarrow> (string \<times> rat) option \<times> wallet_db" where
  "PaymentMonitor_confirmPayment works col now m =
     DAO_Transaction works (\<lambda>db.
       if \<not> works Q_monitor_status then (None, db)
       else (let db1 = DAO_UpdatePaymentMonitorStatus now (m_ID m) ''confirmed'' (add64 (m_ConfirmCount m) 1) db in
             case (if works Q_txn then DAO_GetTransactionByID db1 (m_TransactionID m) else None) of
               None \<Rightarrow> (None, db1)
             | Some t \<Rightarrow>
                 (case (if works Q_wallet then DAO_GetWalletByID db1 (t_WalletID t) else None) of
                    None \<Rightarrow> (None, db1)
                  | Some w \<Rightarrow>
                      (let newBalance = fadd (w_Balance w) (m_ExpectedAmount m) in
                       if \<not> works Q_balance then (None, db1)
                       else (let db2 = DAO_UpdateWalletBalance col (w_ID w) newBalance (w_FrozenAmount w) db1 in
                             if \<not> works Q_txn_status then (None, db2)
                             else (Some (w_ID w, newBalance),
                                   DAO_UpdateTransactionStatus col (m_TransactionID m) ''completed'' newBalance db2))))))"

definition PaymentMonitor_handleTimeout ::
    "(wcall \<Rightarrow> bool) \<Rightarrow> (rat \<Rightarrow> rat) \<Rightarrow> int \<Rightarrow> pay_monitor \<Rightarrow> wallet_db \<Rightarrow> wallet_db" where
  "PaymentMonitor_handleTimeout works col now m db =
     (if \<not> works Q_monitor_status then db
      else (let db1 = DAO_UpdatePaymentMonitorStatus now (m_ID m) ''timeout'' (m_ConfirmCount m) db in
            if \<not> works Q_txn_status then db1
            else DAO_UpdateTransactionStatus col (m_TransactionID m) ''failed'' 0 db1))"

text \<open>
  What the payment services and their configuration answer while one monitor is checked: whether the
  configuration is there, enabled and readable, whether the block-chain query returns, and the status of the
  order at the payment provider. \<open>checkTRC20Balance\<close> returns 0 when its query succeeds.
\<close>

record pay_env =
  pe_crypto_config :: bool
  pe_epay_config :: bool
  pe_trc20 :: bool
  pe_epay :: "string option"

definition PaymentMonitor_checkTRC20Balance :: "pay_env \<Rightarrow> rat option" where
  "PaymentMonitor_checkTRC20Balance env = (if pe_trc20 env then Some 0 else None)"

definition PaymentMonitor_checkCryptoPayment ::
    "(wcall \<Rightarrow> bool) \<Rightarrow> (rat \<Rightarrow> rat) \<Rightarrow> pay_env \<Rightarrow> int \<Rightarrow> pay_monitor \<Rightarrow> wallet_db \<Rightarrow> (string \<times> rat) option \<times> wallet_db" where
  "PaymentMonitor_checkCryptoPayment works col env now m db =
     (if \<not> pe_crypto_config env then (None, db)
      else case PaymentMonitor_checkTRC20Balance env of
        None \<Rightarrow> (None, db)
      | Some received \<Rightarrow>
          if received \<ge> m_ExpectedAmount m then PaymentMonitor_confirmPayment works col now m db else (None, db))"

definition PaymentMonitor_checkEpayPayment ::
    "(wcall \<Rightarrow> bool) \<Rightarrow> (rat \<Rightarrow> rat) \<Rightarrow> pay_env \<Rightarrow> int \<Rightarrow> pay_monitor \<Rightarrow> wallet_db \<Rightarrow> (string \<times> rat) option \<times> wallet_db" where
  "PaymentMonitor_checkEpayPayment works col env now m db =
     (if \<not> pe_epay_config env then (None, db)
      else if pe_epay env = Some ''success'' then PaymentMonitor_confirmPayment works col now m db
      else (None, db))"

text \<open>
  One round of the monitor: \<open>now\<close> is the clock of the query, \<open>clk (2 * i)\<close> and \<open>clk (2 * i + 1)\<close> are its
  readings for the expiry and the update of the \<open>i\<close>-th monitor, \<open>env i\<close> what its check meets. The result lists the confirmed monitors with the wallets and amounts.
\<close>

fun check_monitors ::
    "(nat \<Rightarrow> wcall \<Rightarrow> bool) \<Rightarrow> (rat \<Rightarrow> rat) \<Rightarrow> (nat \<Rightarrow> pay_env) \<Rightarrow> (nat \<Rightarrow> int) \<Rightarrow> nat \<Rightarrow> pay_monitor list \<Rightarrow> wallet_db
       \<Rightarrow> (string \<times> string \<times> rat) list \<times> wallet_db" where
  "check_monitors works col env clk i [] db = ([], db)"
| "check_monitors works col env clk i (m # ms) db =
     (let now = clk (2 * i); upd = clk (2 * i + 1);
          (c, db1) =
        (if now > m_ExpiresAt m then (None, PaymentMonitor_handleTimeout (works i) col upd m db)
         else if m_PaymentType m = ''crypto'' then PaymentMonitor_checkCryptoPayment (works i) col (env i) upd m db
         else if m_PaymentType m = ''epay'' then PaymentMonitor_checkEpayPayment (works i) col (env i) upd m db
         else (None, db));
          (cs, db2) = check_monitors works col env clk (Suc i) ms db1
      in (case c of None \<Rightarrow> cs | Some (wid, _) \<Rightarrow> (m_ID m, wid, m_ExpectedAmount m) # cs, db2))"

definition PaymentMonitor_checkPendingPayments ::
    "bool \<Rightarrow> (nat \<Rightarrow> wcall \<Rightarrow> bool) \<Rightarrow> (rat \<Rightarrow> rat) \<Rightarrow> (nat \<Rightarrow> pay_env) \<Rightarrow> int \<Rightarrow> (nat \<Rightarrow> int) \<Rightarrow> wallet_db
       \<Rightarrow> (string \<times> string \<times> rat) list \<times> wallet_db" where
  "PaymentMonitor_checkPendingPayments listed works col env now clk db =
     (if \<not> listed then ([], db)
      else check_monitors works col env clk 0 (DAO_ListPendingMonitors now db) db)"

section \<open>Balances and credits\<close>

definition balance :: "wallet_db \<Rightarrow> string \<Rightarrow> rat" where
  "balance db wid = (case DAO_GetWalletByID db wid of None \<Rightarrow> 0 | Some w \<Rightarrow> w_Balance w)"

text \<open>A credit names what caused it, the wallet and the amount; the ledger replays the additions.\<close>

datatype credit_src = By_order string | By_monitor string | By_request

type_synonym credit = "credit_src \<times> string \<times> rat"

definition ledger :: "(rat \<Rightarrow> rat) \<Rightarrow> rat \<Rightarrow> credit list \<Rightarrow> string \<Rightarrow> rat" where
  "ledger col b cs wid = fold (\<lambda>(_, w, a) b. if w = wid then col (fadd b a) else b) cs b"

definition user_wallet :: "wallet_db \<Rightarrow> string \<Rightarrow> string" where
  "user_wallet db uid = (case DAO_GetWalletByUserID db uid of None \<Rightarrow> [] | Some w \<Rightarrow> w_ID w)"

definition order_wallet :: "wallet_db \<Rightarrow> string \<Rightarrow> string" where
  "order_wallet db oid = (case DAO_GetOrder db oid of None \<Rightarrow> [] | Some x \<Rightarrow> user_wallet db (o_UserID x))"

definition credit_of :: "reply \<Rightarrow> credit_src \<Rightarrow> string \<Rightarrow> rat \<Rightarrow> credit list" where
  "credit_of r src wid amount = (case r of R_ok _ \<Rightarrow> [(src, wid, amount)] | _ \<Rightarrow> [])"

definition wallet_ok :: "wallet_db \<Rightarrow> bool" where
  "wallet_ok db \<longleftrightarrow> distinct (map w_ID (db_wallets db)) \<and> distinct (map o_ID (db_orders db)) \<and>
     distinct (map m_ID (db_monitors db))"

lemma find_map_same:
  assumes "\<And>x. P (f x) = P x"
  shows "find P (map f xs) = map_option f (find P xs)"
  using assms by (induction xs) auto

lemma find_SomeD: "find P xs = Some x \<Longrightarrow> x \<in> set xs \<and> P x"
  by (induction xs) (auto split: if_splits)

lemma find_key:
  assumes "distinct (map k xs)" "x \<in> set xs"
  shows "find (\<lambda>y. k y = k x) xs = Some x"
  using assms by (induction xs) (auto simp: image_iff)

lemma balance_update:
  "balance (DAO_UpdateWalletBalance col wid b f db) x =
     (if x = wid \<and> DAO_GetWalletByID db wid \<noteq> None then col b else balance db x)"
proof -
  have "DAO_GetWalletByID (DAO_UpdateWalletBalance col wid b f db) x =
      map_option (\<lambda>w. if w_ID w = wid then w\<lparr> w_Balance := col b, w_FrozenAmount := col f \<rparr> else w) (DAO_GetWalletByID db x)"
    unfolding DAO_GetWalletByID_def DAO_UpdateWalletBalance_def by (simp add: find_map_same)
  then show ?thesis
    by (cases "DAO_GetWalletByID db x") (auto simp: balance_def DAO_GetWalletByID_def dest: find_SomeD)
qed

lemma user_wallet_update [simp]:
  "user_wallet (DAO_UpdateWalletBalance col wid b f db) uid = user_wallet db uid"
proof -
  have "DAO_GetWalletByUserID (DAO_UpdateWalletBalance col wid b f db) uid =
      map_option (\<lambda>w. if w_ID w = wid then w\<lparr> w_Balance := col b, w_FrozenAmount := col f \<rparr> else w) (DAO_GetWalletByUserID db uid)"
    unfolding DAO_GetWalletByUserID_def DAO_UpdateWalletBalance_def by (simp add: find_map_same)
  then show ?thesis by (auto simp: user_wallet_def split: option.splits)
qed

lemma balance_cong: "db_wallets db' = db_wallets db \<Longrightarrow> balance db' x = balance db x"
  by (simp add: balance_def DAO_GetWalletByID_def)

lemma user_wallet_cong: "db_wallets db' = db_wallets db \<Longrightarrow> user_wallet db' uid = user_wallet db uid"
  by (simp add: user_wallet_def DAO_GetWalletByUserID_def)

text \<open>
  \<open>src_settled\<close> is what makes a second credit impossible: the order or monitor is there and no longer open. Every
  operation keeps the identifiers and never opens a row again (\<open>keeps_settled\<close>).
\<close>

definition src_settled :: "wallet_db \<Rightarrow> credit_src \<Rightarrow> bool" where
  "src_settled db src =
     (case src of
        By_order oid \<Rightarrow> oid \<in> o_ID ` set (db_orders db) \<and> (\<forall>x \<in> set (db_orders db). o_ID x = oid \<longrightarrow> o_Status x \<noteq> ''pending'')
      | By_monitor mid \<Rightarrow> mid \<in> m_ID ` set (db_monitors db) \<and>
          (\<forall>x \<in> set (db_monitors db). m_ID x = mid \<longrightarrow> m_Status x \<noteq> ''monitoring'')
      | By_request \<Rightarrow> True)"

definition keeps_settled :: "wallet_db \<Rightarrow> wallet_db \<Rightarrow> bool" where
  "keeps_settled db db' \<longleftrightarrow> wallet_ok db' \<and> (\<forall>src. src_settled db src \<longrightarrow> src_settled db' src)"

definition credits_wallet :: "(rat \<Rightarrow> rat) \<Rightarrow> wallet_db \<Rightarrow> wallet_db \<Rightarrow> string \<Rightarrow> rat \<Rightarrow> bool" where
  "credits_wallet col db db' wid a \<longleftrightarrow>
     (\<forall>x. balance db' x = (if x = wid then col (fadd (balance db wid) a) else balance db x))"

lemma settled_cong:
  "db_orders db' = db_orders db \<Longrightarrow> db_monitors db' = db_monitors db \<Longrightarrow> src_settled db' src = src_settled db src"
  by (cases src) (auto simp: src_settled_def)

lemma wkeeps_refl: "wallet_ok db \<Longrightarrow> keeps_settled db db"
  by (simp add: keeps_settled_def)

lemma wkeeps_trans: "keeps_settled db1 db2 \<Longrightarrow> keeps_settled db2 db3 \<Longrightarrow> keeps_settled db1 db3"
  by (simp add: keeps_settled_def)

lemma keeps_same:
  assumes "wallet_ok db" "map w_ID (db_wallets db') = map w_ID (db_wallets db)"
    and "db_orders db' = db_orders db" "db_monitors db' = db_monitors db"
  shows "keeps_settled db db'"
  using assms settled_cong [OF assms(3,4)] unfolding keeps_settled_def wallet_ok_def by simp

lemma keeps_balance: "wallet_ok db \<Longrightarrow> keeps_settled db (DAO_UpdateWalletBalance col wid b f db)"
  by (rule keeps_same) (auto simp: DAO_UpdateWalletBalance_def)

lemma keeps_order_status:
  assumes "wallet_ok db" "status \<noteq> ''pending''"
  shows "keeps_settled db (DAO_UpdateOrderStatus now oid status ext db)"
    and "oid \<in> o_ID ` set (db_orders db) \<Longrightarrow> src_settled (DAO_UpdateOrderStatus now oid status ext db) (By_order oid)"
proof -
  have "map o_ID (db_orders (DAO_UpdateOrderStatus now oid status ext db)) = map o_ID (db_orders db)"
    by (auto simp: DAO_UpdateOrderStatus_def)
  then have ids: "o_ID ` set (db_orders (DAO_UpdateOrderStatus now oid status ext db)) = o_ID ` set (db_orders db)"
      "distinct (map o_ID (db_orders (DAO_UpdateOrderStatus now oid status ext db)))"
    using assms(1) by (metis list.set_map, simp add: wallet_ok_def)
  have "src_settled (DAO_UpdateOrderStatus now oid status ext db) src" if "src_settled db src" for src
    using that ids(1) assms(2) by (cases src) (auto simp: src_settled_def DAO_UpdateOrderStatus_def)
  then show "keeps_settled db (DAO_UpdateOrderStatus now oid status ext db)"
    using ids(2) assms(1) by (simp add: keeps_settled_def wallet_ok_def DAO_UpdateOrderStatus_def)
  show "src_settled (DAO_UpdateOrderStatus now oid status ext db) (By_order oid)" if "oid \<in> o_ID ` set (db_orders db)"
    using that ids(1) assms(2) by (auto simp: src_settled_def DAO_UpdateOrderStatus_def)
qed

lemma keeps_monitor_status:
  assumes "wallet_ok db" "status \<noteq> ''monitoring''"
  shows "keeps_settled db (DAO_UpdatePaymentMonitorStatus now mid status n db)"
    and "mid \<in> m_ID ` set (db_monitors db) \<Longrightarrow> src_settled (DAO_UpdatePaymentMonitorStatus now mid status n db) (By_monitor mid)"
proof -
  have "map m_ID (db_monitors (DAO_UpdatePaymentMonitorStatus now mid status n db)) = map m_ID (db_monitors db)"
    by (auto simp: DAO_UpdatePaymentMonitorStatus_def)
  then have ids: "m_ID ` set (db_monitors (DAO_UpdatePaymentMonitorStatus now mid status n db)) = m_ID ` set (db_monitors db)"
      "distinct (map m_ID (db_monitors (DAO_UpdatePaymentMonitorStatus now mid status n db)))"
    using assms(1) by (metis list.set_map, simp add: wallet_ok_def)
  have "src_settled (DAO_UpdatePaymentMonitorStatus now mid status n db) src" if "src_settled db src" for src
    using that ids(1) assms(2) by (cases src) (auto simp: src_settled_def DAO_UpdatePaymentMonitorStatus_def)
  then show "keeps_settled db (DAO_UpdatePaymentMonitorStatus now mid status n db)"
    using ids(2) assms(1) by (simp add: keeps_settled_def wallet_ok_def DAO_UpdatePaymentMonitorStatus_def)
  show "src_settled (DAO_UpdatePaymentMonitorStatus now mid status n db) (By_monitor mid)" if "mid \<in> m_ID ` set (db_monitors db)"
    using that ids(1) assms(2) by (auto simp: src_settled_def DAO_UpdatePaymentMonitorStatus_def)
qed

lemma keeps_txns: "wallet_ok db \<Longrightarrow> keeps_settled db (db\<lparr> db_txns := ts \<rparr>)"
  by (rule keeps_same) simp_all

lemma credits_update:
  assumes "DAO_GetWalletByID db wid = Some w"
  shows "credits_wallet col db (DAO_UpdateWalletBalance col wid (fadd (w_Balance w) a) f db) wid a"
  using assms by (simp add: credits_wallet_def balance_update) (simp add: balance_def)

lemma user_wallet_row:
  assumes "wallet_ok db" "DAO_GetWalletByUserID db uid = Some w"
  shows "DAO_GetWalletByID db (w_ID w) = Some w" "user_wallet db uid = w_ID w"
  using assms find_SomeD [of _ _ w] find_key [of w_ID "db_wallets db" w]
  by (auto simp: DAO_GetWalletByID_def DAO_GetWalletByUserID_def user_wallet_def wallet_ok_def)

lemma credits_cong:
  "db_wallets db2 = db_wallets db1 \<Longrightarrow> credits_wallet col db db2 wid a = credits_wallet col db db1 wid a"
  by (simp add: credits_wallet_def balance_cong [of db2 db1])

section \<open>What each operation does\<close>

lemma recharge_commit_cases:
  assumes "recharge_commit works col newTID desc oid w amount db = (r, db')"
  obtains (paid) nb ts where "r = R_ok nb"
      "db' = (DAO_UpdateWalletBalance col (w_ID w) (fadd (w_Balance w) amount) (w_FrozenAmount w) db)\<lparr> db_txns := ts \<rparr>"
    | (failed) "r = R_internal" "db' = db"
  using assms
  by (auto simp: recharge_commit_def DAO_Transaction_def DAO_CreateTransaction_def Let_def split: if_splits)

lemma recharge_commit_credits:
  assumes "recharge_commit works col newTID desc oid w amount db = (r, db')"
    and "wallet_ok db" "DAO_GetWalletByUserID db uid = Some w"
  shows "keeps_settled db db'"
    and "case r of R_ok _ \<Rightarrow> credits_wallet col db db' (user_wallet db' uid) amount | _ \<Rightarrow> db' = db"
proof -
  note row = user_wallet_row [OF assms(2,3)]
  from assms(1) have "keeps_settled db db' \<and>
      (case r of R_ok _ \<Rightarrow> credits_wallet col db db' (user_wallet db' uid) amount | _ \<Rightarrow> db' = db)"
  proof (cases rule: recharge_commit_cases)
    case (paid nb ts)
    let ?u = "DAO_UpdateWalletBalance col (w_ID w) (fadd (w_Balance w) amount) (w_FrozenAmount w) db"
    have "keeps_settled db db'"
      using wkeeps_trans [OF keeps_balance keeps_txns] keeps_balance assms(2) unfolding paid(2) keeps_settled_def by blast
    moreover have "user_wallet db' uid = w_ID w"
      unfolding paid(2) using row(2) user_wallet_cong [of "?u\<lparr> db_txns := ts \<rparr>" ?u] by simp
    moreover have "credits_wallet col db db' (w_ID w) amount"
      unfolding paid(2) using credits_update [OF row(1)] credits_cong [of "?u\<lparr> db_txns := ts \<rparr>" ?u] by simp
    ultimately show ?thesis using paid(1) by simp
  next
    case failed
    then show ?thesis using wkeeps_refl [OF assms(2)] by simp
  qed
  then show "keeps_settled db db'"
    and "case r of R_ok _ \<Rightarrow> credits_wallet col db db' (user_wallet db' uid) amount | _ \<Rightarrow> db' = db" by blast+
qed

text \<open>A new wallet starts at 0, which is also the balance of a wallet that is not there.\<close>

lemma GetOrCreateWallet_row:
  assumes "DAO_GetOrCreateWallet works newID uid db = (x, db')" "wallet_ok db"
  shows "keeps_settled db db' \<and> (\<forall>wid. balance db' wid = balance db wid) \<and>
    (\<forall>w. x = Some w \<longrightarrow> DAO_GetWalletByUserID db' uid = Some w)"
proof (cases "works Q_wallet \<and> DAO_GetWalletByUserID db uid = None \<and> works Q_create_wallet \<and> newID \<notin> w_ID ` set (db_wallets db)")
  case True
  define w where "w = \<lparr> w_ID = newID, w_UserID = uid, w_Balance = 0, w_FrozenAmount = 0 \<rparr>"
  have x: "x = Some w" "db' = db\<lparr> db_wallets := db_wallets db @ [w] \<rparr>"
    using assms(1) True by (auto simp: DAO_GetOrCreateWallet_def Let_def w_def)
  have app: "find P (xs @ [y]) = (case find P xs of None \<Rightarrow> if P y then Some y else None | Some z \<Rightarrow> Some z)"
    for P and xs :: "wallet list" and y by (induction xs) auto
  have "keeps_settled db db'"
    using assms(2) True settled_cong [of db' db] unfolding keeps_settled_def wallet_ok_def x(2) by (auto simp: w_def)
  moreover have "balance db' wid = balance db wid" for wid
    unfolding x(2) balance_def DAO_GetWalletByID_def by (auto simp: app w_def split: option.splits)
  moreover have "DAO_GetWalletByUserID db' uid = Some w"
    using True unfolding x(2) DAO_GetWalletByUserID_def by (simp add: app w_def)
  ultimately show ?thesis using x(1) by blast
next
  case False
  then have "db' = db \<and> (\<forall>w. x = Some w \<longrightarrow> DAO_GetWalletByUserID db uid = Some w)"
    using assms(1) by (auto simp: DAO_GetOrCreateWallet_def Let_def split: if_splits option.splits)
  then show ?thesis using wkeeps_refl [OF assms(2)] by simp
qed

lemma Recharge_credits:
  assumes "WalletHandler_Recharge works col label newWID newTID uid amount db = (r, db')" "wallet_ok db"
  shows "keeps_settled db db' \<and>
    (case r of R_ok _ \<Rightarrow> credits_wallet col db db' (user_wallet db' uid) amount | _ \<Rightarrow> (\<forall>x. balance db' x = balance db x))"
proof (cases "amount \<le> 0")
  case False
  obtain x db1 where g: "DAO_GetOrCreateWallet works newWID uid db = (x, db1)" by (metis surj_pair)
  note g' = GetOrCreateWallet_row [OF g assms(2)]
  show ?thesis
  proof (cases x)
    case None
    then have "r = R_internal" "db' = db1" using assms(1) False g by (simp_all add: WalletHandler_Recharge_def)
    then show ?thesis using g' by simp
  next
    case (Some w)
    then have c: "recharge_commit works col newTID label [] w amount db1 = (r, db')"
      using assms(1) False g by (simp add: WalletHandler_Recharge_def)
    have ok: "wallet_ok db1" "DAO_GetWalletByUserID db1 uid = Some w" using g' Some by (simp_all add: keeps_settled_def)
    note cc = recharge_commit_credits [OF c ok]
    have "keeps_settled db db'" using g' cc(1) wkeeps_trans by blast
    then show ?thesis using cc(2) g' by (cases r) (auto simp: credits_wallet_def)
  qed
qed (use assms in \<open>auto simp: WalletHandler_Recharge_def wkeeps_refl\<close>)

lemma ManualRecharge_credits:
  assumes "PaymentHandler_ManualRecharge works col label newTID adminID uid amount desc db = (r, db')" "wallet_ok db"
  shows "keeps_settled db db' \<and>
    (case r of R_ok _ \<Rightarrow> credits_wallet col db db' (user_wallet db' uid) amount | _ \<Rightarrow> (\<forall>x. balance db' x = balance db x))"
proof (cases "uid = [] \<or> amount \<le> 0 \<or> \<not> works Q_wallet \<or> DAO_GetWalletByUserID db uid = None")
  case True
  then have "r = R_bad_request" "db' = db"
    using assms(1) by (auto simp: PaymentHandler_ManualRecharge_def split: if_splits)
  then show ?thesis using wkeeps_refl [OF assms(2)] by simp
next
  case False
  then obtain w where w: "DAO_GetWalletByUserID db uid = Some w" by auto
  have c: "recharge_commit works col newTID (if desc = [] then label amount else desc) (''admin_'' @ adminID) w amount db = (r, db')"
    using assms(1) False w by (simp add: PaymentHandler_ManualRecharge_def)
  show ?thesis using recharge_commit_credits [OF c assms(2) w] by (cases r) auto
qed

lemma CreateOrder_keeps:
  assumes "DAO_CreateOrder works col ord db = (b, db')" "wallet_ok db"
  shows "keeps_settled db db' \<and> db_wallets db' = db_wallets db"
proof -
  have "src_settled db' src" if "src_settled db src" for src
    using assms(1) that by (cases src) (auto simp: src_settled_def DAO_CreateOrder_def split: if_splits)
  then show ?thesis using assms by (auto simp: keeps_settled_def wallet_ok_def DAO_CreateOrder_def split: if_splits)
qed

lemma CreateMonitor_keeps:
  assumes "DAO_CreatePaymentMonitor works col m db = (b, db')" "wallet_ok db"
  shows "keeps_settled db db' \<and> db_wallets db' = db_wallets db"
proof -
  have "src_settled db' src" if "src_settled db src" for src
    using assms(1) that by (cases src) (auto simp: src_settled_def DAO_CreatePaymentMonitor_def split: if_splits)
  then show ?thesis using assms by (auto simp: keeps_settled_def wallet_ok_def DAO_CreatePaymentMonitor_def split: if_splits)
qed

lemma order_user_status:
  "map_option o_UserID (DAO_GetOrder (DAO_UpdateOrderStatus now oid st ext db) x) = map_option o_UserID (DAO_GetOrder db x)"
proof -
  let ?f = "\<lambda>x. if o_ID x = oid
         then x\<lparr> o_Status := st, o_PaidAt := (if st = ''completed'' \<or> st = ''paid'' then Some now else o_PaidAt x),
                o_ExternalID := (if ext \<noteq> [] then ext else o_ExternalID x) \<rparr> else x"
  have "DAO_GetOrder (DAO_UpdateOrderStatus now oid st ext db) x = map_option ?f (DAO_GetOrder db x)"
    using find_map_same [of "\<lambda>y. o_ID y = x" ?f "db_orders db"] by (simp add: DAO_GetOrder_def DAO_UpdateOrderStatus_def)
  then show ?thesis by (cases "DAO_GetOrder db x") simp_all
qed

text \<open>A callback that is answered with success had an open order and settles it.\<close>

lemma PaymentCallback_credits:
  assumes "PaymentHandler_PaymentCallback works col md5 fmt2 cs js now oid meth amount tid sign db = (r, db')"
    and "wallet_ok db" "works Q_order_status"
  shows "keeps_settled db db' \<and>
    (case r of
       R_ok _ \<Rightarrow> credits_wallet col db db' (order_wallet db' oid) amount \<and>
                 \<not> src_settled db (By_order oid) \<and> src_settled db' (By_order oid)
     | _ \<Rightarrow> (\<forall>x. balance db' x = balance db x))"
proof (cases "\<exists>nb. r = R_ok nb")
  case False
  then have "db' = db" using assms(1,3)
    by (auto simp: PaymentHandler_PaymentCallback_def Let_def split: if_splits option.splits)
  then show ?thesis using False wkeeps_refl [OF assms(2)] by (cases r) auto
next
  case True
  then obtain ord w where ow: "DAO_GetOrder db oid = Some ord" "o_Status ord = ''pending''"
      "DAO_GetWalletByUserID db (o_UserID ord) = Some w"
      and db': "db' = DAO_UpdateOrderStatus now oid ''completed'' tid
                 (DAO_UpdateWalletBalance col (w_ID w) (fadd (w_Balance w) amount) (w_FrozenAmount w) db)"
    using assms(1) by (auto simp: PaymentHandler_PaymentCallback_def Let_def split: if_splits option.splits)
  define u where "u = DAO_UpdateWalletBalance col (w_ID w) (fadd (w_Balance w) amount) (w_FrozenAmount w) db"
  note row = user_wallet_row [OF assms(2) ow(3)]
  have ord: "ord \<in> set (db_orders db)" "o_ID ord = oid" using ow(1) by (auto simp: DAO_GetOrder_def dest: find_SomeD)
  have u: "keeps_settled db u" unfolding u_def by (rule keeps_balance [OF assms(2)])
  have uo: "db_orders u = db_orders db" by (simp add: u_def DAO_UpdateWalletBalance_def)
  have ks: "keeps_settled u db'" "src_settled db' (By_order oid)"
    using keeps_order_status [where db = u and status = "''completed''" and now = now and oid = oid and ext = tid] u ord uo
    unfolding db' u_def [symmetric] keeps_settled_def by auto
  have same: "db_wallets db' = db_wallets u" unfolding db' u_def [symmetric] by (simp add: DAO_UpdateOrderStatus_def)
  have "order_wallet db' oid = user_wallet u (o_UserID ord)"
    using ow(1) uo user_wallet_cong [OF same] order_user_status [of now oid "''completed''" tid u oid]
    unfolding db' u_def [symmetric] by (auto simp: order_wallet_def DAO_GetOrder_def)
  then have "order_wallet db' oid = w_ID w" using row(2) by (simp add: u_def)
  moreover have "credits_wallet col db db' (w_ID w) amount"
    using credits_update [OF row(1)] credits_cong [OF same] by (simp add: u_def)
  moreover have "\<not> src_settled db (By_order oid)" using ord ow(2) by (auto simp: src_settled_def)
  ultimately show ?thesis using True ks wkeeps_trans [OF u ks(1)] by auto
qed

lemma confirmPayment_credits:
  assumes "PaymentMonitor_confirmPayment works col now m db = (c, db')" "wallet_ok db"
  shows "keeps_settled db db' \<and>
    (case c of
       None \<Rightarrow> db' = db
     | Some (wid, _) \<Rightarrow> credits_wallet col db db' wid (m_ExpectedAmount m) \<and>
         (m_ID m \<in> m_ID ` set (db_monitors db) \<longrightarrow> src_settled db' (By_monitor (m_ID m))))"
proof (cases c)
  case None
  then have "db' = db"
    using assms(1) by (auto simp: PaymentMonitor_confirmPayment_def DAO_Transaction_def Let_def split: if_splits option.splits)
  then show ?thesis using None wkeeps_refl [OF assms(2)] by simp
next
  case (Some x)
  define db1 where "db1 = DAO_UpdatePaymentMonitorStatus now (m_ID m) ''confirmed'' (add64 (m_ConfirmCount m) 1) db"
  obtain t where t: "works Q_monitor_status" "works Q_txn" "DAO_GetTransactionByID db1 (m_TransactionID m) = Some t"
    using assms(1) Some unfolding db1_def
    by (auto simp: PaymentMonitor_confirmPayment_def DAO_Transaction_def Let_def split: if_splits option.splits)
  then obtain w where w: "works Q_wallet" "DAO_GetWalletByID db1 (t_WalletID t) = Some w"
    using assms(1) Some unfolding db1_def
    by (auto simp: PaymentMonitor_confirmPayment_def DAO_Transaction_def Let_def split: if_splits option.splits)
  have x: "fst x = w_ID w"
      and db': "db' = DAO_UpdateTransactionStatus col (m_TransactionID m) ''completed'' (fadd (w_Balance w) (m_ExpectedAmount m))
         (DAO_UpdateWalletBalance col (w_ID w) (fadd (w_Balance w) (m_ExpectedAmount m)) (w_FrozenAmount w) db1)"
    using assms(1) Some t w
    by (auto simp: PaymentMonitor_confirmPayment_def DAO_Transaction_def Let_def db1_def [symmetric] split: if_splits)
  define u where "u = DAO_UpdateWalletBalance col (w_ID w) (fadd (w_Balance w) (m_ExpectedAmount m)) (w_FrozenAmount w) db1"
  have k1: "keeps_settled db db1" "m_ID m \<in> m_ID ` set (db_monitors db) \<Longrightarrow> src_settled db1 (By_monitor (m_ID m))"
    unfolding db1_def by (rule keeps_monitor_status [OF assms(2)], simp) (rule keeps_monitor_status(2) [OF assms(2)], simp)
  then have ok1: "wallet_ok db1" by (simp add: keeps_settled_def)
  have k2: "keeps_settled db1 u" unfolding u_def by (rule keeps_balance [OF ok1])
  then have "wallet_ok u" by (simp add: keeps_settled_def)
  then have k3: "keeps_settled u db'" unfolding db' u_def [symmetric] DAO_UpdateTransactionStatus_def by (rule keeps_txns)
  have same: "db_wallets db' = db_wallets u" "db_wallets db1 = db_wallets db"
    unfolding db' u_def [symmetric] by (simp_all add: DAO_UpdateTransactionStatus_def db1_def DAO_UpdatePaymentMonitorStatus_def)
  have "DAO_GetWalletByID db1 (w_ID w) = Some w" using w(2) find_SomeD by (fastforce simp: DAO_GetWalletByID_def)
  from credits_update [OF this] have "credits_wallet col db1 db' (w_ID w) (m_ExpectedAmount m)"
    using credits_cong [OF same(1)] by (simp add: u_def)
  then have "credits_wallet col db db' (w_ID w) (m_ExpectedAmount m)"
    by (simp add: credits_wallet_def balance_cong [OF same(2)])
  moreover have "keeps_settled db db'" using k1 k2 k3 wkeeps_trans by blast
  moreover have "src_settled db' (By_monitor (m_ID m))" if "m_ID m \<in> m_ID ` set (db_monitors db)"
    using k1(2) [OF that] k2 k3 by (simp add: keeps_settled_def)
  ultimately show ?thesis using Some x by (auto split: prod.splits)
qed

lemma handleTimeout_keeps:
  assumes "wallet_ok db"
  shows "keeps_settled db (PaymentMonitor_handleTimeout works col now m db) \<and>
    db_wallets (PaymentMonitor_handleTimeout works col now m db) = db_wallets db"
proof -
  let ?db1 = "DAO_UpdatePaymentMonitorStatus now (m_ID m) ''timeout'' (m_ConfirmCount m) db"
  have k1: "keeps_settled db ?db1" by (rule keeps_monitor_status [OF assms]) simp
  have "keeps_settled ?db1 (DAO_UpdateTransactionStatus col (m_TransactionID m) ''failed'' 0 ?db1)"
    unfolding DAO_UpdateTransactionStatus_def by (rule keeps_txns) (use k1 in \<open>simp add: keeps_settled_def\<close>)
  then have "keeps_settled db (DAO_UpdateTransactionStatus col (m_TransactionID m) ''failed'' 0 ?db1)" by (rule wkeeps_trans [OF k1])
  then show ?thesis using k1 wkeeps_refl [OF assms]
    by (simp add: PaymentMonitor_handleTimeout_def Let_def DAO_UpdateTransactionStatus_def DAO_UpdatePaymentMonitorStatus_def)
qed

definition check_monitor ::
    "(wcall \<Rightarrow> bool) \<Rightarrow> (rat \<Rightarrow> rat) \<Rightarrow> pay_env \<Rightarrow> int \<Rightarrow> int \<Rightarrow> pay_monitor \<Rightarrow> wallet_db \<Rightarrow> (string \<times> rat) option \<times> wallet_db" where
  "check_monitor works col env now upd m db =
     (if now > m_ExpiresAt m then (None, PaymentMonitor_handleTimeout works col upd m db)
      else if m_PaymentType m = ''crypto'' then PaymentMonitor_checkCryptoPayment works col env upd m db
      else if m_PaymentType m = ''epay'' then PaymentMonitor_checkEpayPayment works col env upd m db
      else (None, db))"

lemma check_monitor_result:
  "check_monitor works col env now upd m db \<in>
     {(None, PaymentMonitor_handleTimeout works col upd m db), PaymentMonitor_confirmPayment works col upd m db, (None, db)}"
  by (simp add: check_monitor_def PaymentMonitor_checkCryptoPayment_def PaymentMonitor_checkEpayPayment_def split: option.split)

lemma check_monitor_ids:
  "m_ID ` set (db_monitors db) \<subseteq> m_ID ` set (db_monitors (snd (check_monitor works col env now upd m db)))"
proof -
  have status: "m_ID ` set (db_monitors (DAO_UpdatePaymentMonitorStatus t mid st n db)) = m_ID ` set (db_monitors db)" for t mid st n
  proof -
    have "map m_ID (db_monitors (DAO_UpdatePaymentMonitorStatus t mid st n db)) = map m_ID (db_monitors db)"
      by (simp add: DAO_UpdatePaymentMonitorStatus_def)
    then show ?thesis by (metis list.set_map)
  qed
  have "m_ID ` set (db_monitors (PaymentMonitor_handleTimeout works col upd m db)) = m_ID ` set (db_monitors db)"
    by (simp add: PaymentMonitor_handleTimeout_def Let_def DAO_UpdateTransactionStatus_def status)
  moreover have "m_ID ` set (db_monitors (snd (PaymentMonitor_confirmPayment works col upd m db))) = m_ID ` set (db_monitors db)"
    by (simp add: PaymentMonitor_confirmPayment_def DAO_Transaction_def Let_def DAO_UpdateTransactionStatus_def
        DAO_UpdateWalletBalance_def status split: option.split)
  ultimately show ?thesis using check_monitor_result [of works col env now upd m db] by auto
qed

lemma check_monitor_credits:
  assumes "check_monitor works col env now upd m db = (c, db')" "wallet_ok db"
  shows "keeps_settled db db' \<and>
    (case c of
       None \<Rightarrow> (\<forall>x. balance db' x = balance db x)
     | Some (wid, _) \<Rightarrow> credits_wallet col db db' wid (m_ExpectedAmount m) \<and>
         (m_ID m \<in> m_ID ` set (db_monitors db) \<longrightarrow> src_settled db' (By_monitor (m_ID m))))"
proof -
  consider (timeout) "c = None" "db' = PaymentMonitor_handleTimeout works col upd m db"
    | (confirm) "PaymentMonitor_confirmPayment works col upd m db = (c, db')" | (nothing) "c = None" "db' = db"
    using check_monitor_result [of works col env now upd m db] unfolding assms(1) by (metis empty_iff insert_iff prod.inject)
  then show ?thesis
  proof cases
    case timeout
    have "balance db' x = balance db x" for x
      unfolding timeout(2) by (rule balance_cong) (use handleTimeout_keeps [OF assms(2)] in blast)
    then show ?thesis using handleTimeout_keeps [OF assms(2)] timeout by simp
  next
    case confirm
    then show ?thesis using confirmPayment_credits [OF confirm assms(2)] wkeeps_refl [OF assms(2)] by (cases c) simp_all
  next
    case nothing
    then show ?thesis using wkeeps_refl [OF assms(2)] by simp
  qed
qed

definition monitor_credits :: "(string \<times> string \<times> rat) list \<Rightarrow> credit list" where
  "monitor_credits conf = map (\<lambda>(m, w, a). (By_monitor m, w, a)) conf"

lemma ledger_Cons:
  "ledger col b ((src, w, a) # cs) wid = ledger col (if w = wid then col (fadd b a) else b) cs wid"
  by (simp add: ledger_def)

lemma ledger_append: "ledger col b (cs @ ds) wid = ledger col (ledger col b cs wid) ds wid"
  by (simp add: ledger_def)

lemma check_monitors_credits:
  assumes "check_monitors works col env clk i ms db = (conf, db')" "wallet_ok db"
    and "distinct (map m_ID ms)" "\<forall>m \<in> set ms. m_ID m \<in> m_ID ` set (db_monitors db)"
  shows "keeps_settled db db' \<and> (\<forall>wid. balance db' wid = ledger col (balance db wid) (monitor_credits conf) wid) \<and>
    distinct (map fst conf) \<and> set (map fst conf) \<subseteq> m_ID ` set ms \<and> (\<forall>mid \<in> fst ` set conf. src_settled db' (By_monitor mid))"
  using assms
proof (induction ms arbitrary: i db conf db')
  case Nil
  then show ?case using wkeeps_refl by (simp add: ledger_def monitor_credits_def)
next
  case (Cons m ms)
  obtain c db1 where c: "check_monitor (works i) col (env i) (clk (2 * i)) (clk (2 * i + 1)) m db = (c, db1)" by (metis surj_pair)
  obtain cs db2 where r: "check_monitors works col env clk (Suc i) ms db1 = (cs, db2)" by (metis surj_pair)
  have res: "conf = (case c of None \<Rightarrow> cs | Some (wid, _) \<Rightarrow> (m_ID m, wid, m_ExpectedAmount m) # cs)" "db' = db2"
    using Cons.prems(1) c r by (simp_all add: check_monitor_def Let_def)
  note cc = check_monitor_credits [OF c Cons.prems(2)]
  have k1: "keeps_settled db db1" using cc by blast
  then have ok1: "wallet_ok db1" by (simp add: keeps_settled_def)
  have "m_ID ` set (db_monitors db) \<subseteq> m_ID ` set (db_monitors db1)"
    using c check_monitor_ids [of db "works i" col "env i" "clk (2 * i)" "clk (2 * i + 1)" m] by simp
  then have mem: "\<forall>x \<in> set ms. m_ID x \<in> m_ID ` set (db_monitors db1)" using Cons.prems(4) by auto
  have ih: "keeps_settled db1 db2" "\<forall>wid. balance db2 wid = ledger col (balance db1 wid) (monitor_credits cs) wid"
      "distinct (map fst cs)" "set (map fst cs) \<subseteq> m_ID ` set ms" "\<forall>mid \<in> fst ` set cs. src_settled db2 (By_monitor mid)"
    using Cons.IH [OF r ok1 _ mem] Cons.prems(3) by auto
  have "m_ID m \<notin> set (map fst cs)" using ih(4) Cons.prems(3) by auto
  moreover have "src_settled db2 (By_monitor (m_ID m))" if "c \<noteq> None"
    using that cc Cons.prems(4) ih(1) by (auto simp: keeps_settled_def split: option.splits)
  moreover have "balance db2 wid = ledger col (balance db wid) (monitor_credits conf) wid" for wid
    using ih(2) cc by (cases c) (auto simp: res monitor_credits_def ledger_Cons credits_wallet_def)
  ultimately show ?case using ih wkeeps_trans [OF k1 ih(1)] by (cases c) (auto simp: res)
qed

lemma pass_credits:
  assumes "PaymentMonitor_checkPendingPayments listed works col env now clk db = (conf, db')" "wallet_ok db"
  shows "keeps_settled db db' \<and> (\<forall>wid. balance db' wid = ledger col (balance db wid) (monitor_credits conf) wid) \<and>
    distinct (map fst conf) \<and>
    (\<forall>mid \<in> fst ` set conf. \<not> src_settled db (By_monitor mid) \<and> src_settled db' (By_monitor mid))"
proof (cases listed)
  case True
  let ?ms = "DAO_ListPendingMonitors now db"
  have ms: "set ?ms \<subseteq> set (db_monitors db)" "\<forall>m \<in> set ?ms. m_Status m = ''monitoring''"
    by (auto simp: DAO_ListPendingMonitors_def)
  have "distinct (map m_ID (filter P (db_monitors db)))" for P
    using assms(2) by (simp add: wallet_ok_def distinct_map_filter)
  moreover have "mset (map m_ID ?ms) = mset (map m_ID (filter (\<lambda>m. m_Status m = ''monitoring'' \<and> m_ExpiresAt m > now) (db_monitors db)))"
    by (simp add: DAO_ListPendingMonitors_def)
  ultimately have d: "distinct (map m_ID ?ms)" using mset_eq_imp_distinct_iff by blast
  have mem: "\<forall>m \<in> set ?ms. m_ID m \<in> m_ID ` set (db_monitors db)" using ms(1) by auto
  have c: "check_monitors works col env clk 0 ?ms db = (conf, db')"
    using assms(1) True by (simp add: PaymentMonitor_checkPendingPayments_def)
  note cc = check_monitors_credits [OF c assms(2) d mem]
  have "\<not> src_settled db (By_monitor mid)" if "mid \<in> fst ` set conf" for mid
  proof -
    have "mid \<in> m_ID ` set ?ms" using that cc by auto
    then show ?thesis using ms by (auto simp: src_settled_def)
  qed
  then show ?thesis using cc by simp
qed (use assms in \<open>simp add: PaymentMonitor_checkPendingPayments_def wkeeps_refl ledger_def monitor_credits_def\<close>)

section \<open>Runs of the payment handlers\<close>

text \<open>
  The handlers and the monitor run one after the other, on tables with distinct keys. Every statement may
  fail, but the callback's last one: \<open>UpdateOrderStatus\<close> succeeds when it is reached.
\<close>

inductive wallet_run :: "(rat \<Rightarrow> rat) \<Rightarrow> wallet_db \<Rightarrow> wallet_db \<Rightarrow> credit list \<Rightarrow> bool" where
  wr_start: "wallet_ok db \<Longrightarrow> wallet_run col db db []"
| wr_recharge: "wallet_run col db0 db cs \<Longrightarrow>
    WalletHandler_Recharge works col label newWID newTID uid amount db = (r, db') \<Longrightarrow>
    wallet_run col db0 db' (cs @ credit_of r By_request (user_wallet db' uid) amount)"
| wr_manual: "wallet_run col db0 db cs \<Longrightarrow>
    PaymentHandler_ManualRecharge works col label2 newTID adminID uid amount desc db = (r, db') \<Longrightarrow>
    wallet_run col db0 db' (cs @ credit_of r By_request (user_wallet db' uid) amount)"
| wr_order: "wallet_run col db0 db cs \<Longrightarrow>
    PaymentHandler_CreateRechargeOrder works col newOID uid amount meth db = (r, db') \<Longrightarrow> wallet_run col db0 db' cs"
| wr_callback: "wallet_run col db0 db cs \<Longrightarrow> works Q_order_status = True \<Longrightarrow>
    PaymentHandler_PaymentCallback works col md5 fmt2 secret jwt now oid meth amount tid sign db = (r, db') \<Longrightarrow>
    wallet_run col db0 db' (cs @ credit_of r (By_order oid) (order_wallet db' oid) amount)"
| wr_txn: "wallet_run col db0 db cs \<Longrightarrow> DAO_CreateTransaction works col t db = (b, db') \<Longrightarrow> wallet_run col db0 db' cs"
| wr_watch: "wallet_run col db0 db cs \<Longrightarrow> DAO_CreatePaymentMonitor works col m db = (b, db') \<Longrightarrow> wallet_run col db0 db' cs"
| wr_round: "wallet_run col db0 db cs \<Longrightarrow>
    PaymentMonitor_checkPendingPayments listed works2 col env now clk db = (conf, db') \<Longrightarrow>
    wallet_run col db0 db' (cs @ monitor_credits conf)"

definition run_ok :: "(rat \<Rightarrow> rat) \<Rightarrow> wallet_db \<Rightarrow> wallet_db \<Rightarrow> credit list \<Rightarrow> bool" where
  "run_ok col db0 db cs \<longleftrightarrow> wallet_ok db \<and> (\<forall>wid. balance db wid = ledger col (balance db0 wid) cs wid) \<and>
     distinct (filter (\<lambda>s. s \<noteq> By_request) (map fst cs)) \<and> (\<forall>src \<in> fst ` set cs. src_settled db src)"

lemma run_ok_same:
  assumes "run_ok col db0 db cs" "keeps_settled db db'" "\<forall>x. balance db' x = balance db x"
  shows "run_ok col db0 db' cs"
  using assms by (auto simp: run_ok_def keeps_settled_def)

lemma run_ok_credit:
  assumes "run_ok col db0 db cs" "keeps_settled db db'" "credits_wallet col db db' wid a"
    and "src = By_request \<or> \<not> src_settled db src \<and> src_settled db' src"
  shows "run_ok col db0 db' (cs @ [(src, wid, a)])"
proof -
  have "src = By_request \<or> src \<notin> fst ` set cs" using assms(1,4) by (auto simp: run_ok_def)
  moreover have "src_settled db' src" using assms(4) by (auto simp: src_settled_def)
  ultimately show ?thesis
    using assms(1-3) by (auto simp: run_ok_def keeps_settled_def credits_wallet_def ledger_append ledger_Cons ledger_def)
qed

lemma run_ok_reply:
  assumes "run_ok col db0 db cs"
    and "keeps_settled db db' \<and> (case r of R_ok _ \<Rightarrow> credits_wallet col db db' wid a | _ \<Rightarrow> (\<forall>x. balance db' x = balance db x))"
    and "src = By_request \<or> (\<forall>nb. r = R_ok nb \<longrightarrow> \<not> src_settled db src \<and> src_settled db' src)"
  shows "run_ok col db0 db' (cs @ credit_of r src wid a)"
  using assms run_ok_same [OF assms(1)] run_ok_credit [OF assms(1)]
  by (cases r) (auto simp: credit_of_def)

lemma run_ok_round:
  assumes "run_ok col db0 db cs" "keeps_settled db db'"
    and "\<forall>wid. balance db' wid = ledger col (balance db wid) (monitor_credits conf) wid" "distinct (map fst conf)"
    and new: "\<forall>mid \<in> fst ` set conf. \<not> src_settled db (By_monitor mid) \<and> src_settled db' (By_monitor mid)"
  shows "run_ok col db0 db' (cs @ monitor_credits conf)"
proof -
  let ?ds = "monitor_credits conf"
  have src: "map fst ?ds = map By_monitor (map fst conf)" by (simp add: monitor_credits_def case_prod_beta comp_def)
  then have m: "filter (\<lambda>s. s \<noteq> By_request) (map fst ?ds) = map By_monitor (map fst conf)" by (simp add: comp_def)
  have old: "\<forall>s \<in> set (map fst cs). src_settled db s" using assms(1) by (simp add: run_ok_def)
  have "set (filter (\<lambda>s. s \<noteq> By_request) (map fst cs)) \<inter> set (map By_monitor (map fst conf)) = {}"
    using old new by fastforce
  moreover have "distinct (map By_monitor (map fst conf))" using assms(4) by (simp add: distinct_map inj_on_def)
  moreover have "distinct (filter (\<lambda>s. s \<noteq> By_request) (map fst cs))" using assms(1) by (simp add: run_ok_def)
  ultimately have d: "distinct (filter (\<lambda>s. s \<noteq> By_request) (map fst (cs @ ?ds)))"
    unfolding map_append filter_append m distinct_append by blast
  have "\<forall>s \<in> set (map fst (cs @ ?ds)). src_settled db' s"
    unfolding map_append src set_append using old new assms(2) by (auto simp: keeps_settled_def)
  then have "\<forall>s \<in> fst ` set (cs @ ?ds). src_settled db' s" unfolding set_map .
  then show ?thesis using d assms(1-3) unfolding run_ok_def keeps_settled_def ledger_append by simp
qed

lemma wallet_run_ok: "wallet_run col db0 db cs \<Longrightarrow> run_ok col db0 db cs"
proof (induction rule: wallet_run.induct)
  case (wr_start db col)
  then show ?case by (simp add: run_ok_def ledger_def)
next
  case (wr_recharge col db0 db cs works label newWID newTID uid amount r db')
  then show ?case using Recharge_credits [OF wr_recharge(2)] by (intro run_ok_reply) (auto simp: run_ok_def)
next
  case (wr_manual col db0 db cs works label2 newTID adminID uid amount desc r db')
  then show ?case using ManualRecharge_credits [OF wr_manual(2)] by (intro run_ok_reply) (auto simp: run_ok_def)
next
  case (wr_order col db0 db cs works newOID uid amount meth r db')
  have ok: "wallet_ok db" using wr_order(3) by (simp add: run_ok_def)
  have "db' = db \<or> (\<exists>ord b. DAO_CreateOrder works col ord db = (b, db'))"
    using wr_order(2) by (auto simp: PaymentHandler_CreateRechargeOrder_def split: if_splits prod.splits bool.splits)
  then have k: "keeps_settled db db'" "db_wallets db' = db_wallets db" using CreateOrder_keeps ok wkeeps_refl by blast+
  then show ?case using run_ok_same [OF wr_order(3) k(1)] balance_cong [OF k(2)] by simp
next
  case (wr_callback col db0 db cs works md5 fmt2 secret jwt now oid meth amount tid sign r db')
  have "wallet_ok db" using wr_callback(4) by (simp add: run_ok_def)
  then have "keeps_settled db db' \<and>
    (case r of
       R_ok _ \<Rightarrow> credits_wallet col db db' (order_wallet db' oid) amount \<and>
                 \<not> src_settled db (By_order oid) \<and> src_settled db' (By_order oid)
     | _ \<Rightarrow> (\<forall>x. balance db' x = balance db x))"
    using PaymentCallback_credits [OF wr_callback(3)] wr_callback(2) by simp
  then show ?case using wr_callback(4) by (intro run_ok_reply) (cases r, auto)+
next
  case (wr_txn col db0 db cs works t b db')
  have ok: "wallet_ok db" using wr_txn(3) by (simp add: run_ok_def)
  have same: "db_wallets db' = db_wallets db" "db_orders db' = db_orders db" "db_monitors db' = db_monitors db"
    using wr_txn(2) by (auto simp: DAO_CreateTransaction_def split: if_splits)
  then have "keeps_settled db db'" using keeps_same [OF ok] by simp
  then show ?case using run_ok_same [OF wr_txn(3)] balance_cong [OF same(1)] by simp
next
  case (wr_watch col db0 db cs works m b db')
  have "wallet_ok db" using wr_watch(3) by (simp add: run_ok_def)
  then have k: "keeps_settled db db'" "db_wallets db' = db_wallets db" using CreateMonitor_keeps [OF wr_watch(2)] by blast+
  then show ?case using run_ok_same [OF wr_watch(3) k(1)] balance_cong [OF k(2)] by simp
next
  case (wr_round col db0 db cs listed works2 env now clk conf db')
  have "wallet_ok db" using wr_round(3) by (simp add: run_ok_def)
  note p = pass_credits [OF wr_round(2) this]
  show ?case by (rule run_ok_round [OF wr_round(3)]) (use p in blast)+
qed


definition demo_wallets :: wallet_db where
  "demo_wallets =
     \<lparr> db_wallets = [\<lparr> w_ID = ''w'', w_UserID = ''u'', w_Balance = 5, w_FrozenAmount = 0 \<rparr>], db_txns = [],
       db_orders = [], db_monitors = [] \<rparr>"

lemma fl_small: "fl 12 = 12" "fl 7 = 7"
  using fl_int [of 12] fl_int [of 7] by simp_all


section \<open>What goes wrong when requests overlap or a statement fails\<close>

text \<open>
  The balance is read before the transaction that writes it. When two recharges of a user have both read the
  wallet before either writes, the one that commits last overwrites the other's credit: the balance is that
  of a single recharge, although both are answered with success and both transactions are recorded.
\<close>

lemma overlapping_recharges_lose_credit:
  assumes "wallet_ok db" "DAO_GetWalletByUserID db uid = Some w"
    and "recharge_commit works1 col tid1 d1 o1 w a db = (R_ok n1, db1)"
    and "recharge_commit works2 col tid2 d2 o2 w b db1 = (R_ok n2, db2)"
  shows "balance db2 (w_ID w) = col (fadd (balance db (w_ID w)) b) \<and> length (db_txns db2) = length (db_txns db) + 2"
proof -
  have row: "DAO_GetWalletByID db (w_ID w) = Some w" by (rule user_wallet_row [OF assms(1,2)])
  obtain ts1 where db1: "db1 = (DAO_UpdateWalletBalance col (w_ID w) (fadd (w_Balance w) a) (w_FrozenAmount w) db)\<lparr> db_txns := ts1 \<rparr>"
    using assms(3) by (cases rule: recharge_commit_cases) auto
  obtain ts2 where db2: "db2 = (DAO_UpdateWalletBalance col (w_ID w) (fadd (w_Balance w) b) (w_FrozenAmount w) db1)\<lparr> db_txns := ts2 \<rparr>"
    using assms(4) by (cases rule: recharge_commit_cases) auto
  have "DAO_GetWalletByID db1 (w_ID w) \<noteq> None"
    using row unfolding db1 DAO_GetWalletByID_def DAO_UpdateWalletBalance_def by (simp add: find_map_same)
  then have "balance db2 (w_ID w) = col (fadd (w_Balance w) b)"
    using balance_update [of col "w_ID w" "fadd (w_Balance w) b" "w_FrozenAmount w" db1 "w_ID w"]
      balance_cong [of db2 "DAO_UpdateWalletBalance col (w_ID w) (fadd (w_Balance w) b) (w_FrozenAmount w) db1"]
    by (simp add: db2)
  moreover have "length (db_txns db2) = length (db_txns db) + 2"
    using assms(3,4) by (auto simp: recharge_commit_def DAO_Transaction_def DAO_CreateTransaction_def DAO_UpdateWalletBalance_def
        Let_def split: if_splits)
  ultimately show ?thesis using row by (simp add: balance_def)
qed

text \<open>
  The statements of the callback are not one transaction. When the wallet is credited and the update of the
  order fails, the order stays open: the provider, answered with an error, calls again, and the same order is
  credited a second time.
\<close>

lemma failed_callback_credits_again:
  assumes "wallet_ok db" "\<not> works Q_order_status" "works Q_balance"
    and "PaymentHandler_PaymentCallback works col md5 fmt2 cs js now oid meth a tid sign db = (r, db')" "db' \<noteq> db"
  shows "r = R_internal \<and> DAO_GetOrder db' oid = DAO_GetOrder db oid \<and> credits_wallet col db db' (order_wallet db oid) a"
proof -
  obtain ord w where ow: "DAO_GetOrder db oid = Some ord" "DAO_GetWalletByUserID db (o_UserID ord) = Some w"
      and r: "r = R_internal" "db' = DAO_UpdateWalletBalance col (w_ID w) (fadd (w_Balance w) a) (w_FrozenAmount w) db"
    using assms(2-5) by (auto simp: PaymentHandler_PaymentCallback_def Let_def split: if_splits option.splits)
  note row = user_wallet_row [OF assms(1) ow(2)]
  show ?thesis using credits_update [OF row(1)] row(2) ow(1) r
    by (auto simp: order_wallet_def DAO_GetOrder_def DAO_UpdateWalletBalance_def)
qed

text \<open>\<open>checkTRC20Balance\<close> reports nothing received, so no crypto payment with a positive amount is confirmed.\<close>

lemma crypto_payment_never_confirmed:
  "0 < m_ExpectedAmount m \<Longrightarrow> PaymentMonitor_checkCryptoPayment works col env now m db = (None, db)"
  by (simp add: PaymentMonitor_checkCryptoPayment_def PaymentMonitor_checkTRC20Balance_def)

text \<open>Expired monitors are filtered out of the query, so the time-out branch is reached only when a monitor
  expires between the query and its check.\<close>

lemma listed_monitors_unexpired: "m \<in> set (DAO_ListPendingMonitors now db) \<Longrightarrow> now < m_ExpiresAt m"
  by (auto simp: DAO_ListPendingMonitors_def)

end
