(* ===== verification/Ws_Hub.thy ===== *)
theory Ws_Hub
  imports Prelude
begin

text \<open>
  The registry of the nodes' WebSocket connections on the control plane:
  \<open>plane/internal/ws/manager.go\<close>, with the part of \<open>plane/internal/ws/handler.go\<close> that creates a connection,
  registers it and unregisters it at the end of its read loop. A pointer to a connection is its position in
  the list of all connections ever made. The messages are abstract. A buffered channel is the list of its
  elements; an operation that would block forever has no result. Logging is left out.
\<close>

section \<open>State\<close>

record 'm node_conn =
  nc_NodeID :: string
  nc_Send :: "'m list"
  nc_SendClosed :: bool
  nc_ConnClosed :: bool
  nc_LastSeen :: int
  nc_IsAlive :: bool

record 'm hub =
  hub_heap :: "'m node_conn list"
  hub_connections :: "(string \<times> nat) list"
  hub_register :: "nat list"
  hub_unregister :: "nat list"
  hub_broadcast :: "'m list"
  hub_maxConnections :: int
  hub_onDisconnect :: bool
  hub_offline :: "string list"
  hub_stopped :: bool

text \<open>\<open>hub_offline\<close> records the calls of the disconnect call-back, which marks a node as off-line.\<close>

definition send_cap :: nat where "send_cap = 256"
definition queue_cap :: nat where "queue_cap = 10"

definition NewHub :: "int list \<Rightarrow> 'm hub" where
  "NewHub maxConnections =
     \<lparr> hub_heap = [], hub_connections = [], hub_register = [], hub_unregister = [], hub_broadcast = [],
       hub_maxConnections = (case maxConnections of [] \<Rightarrow> 0 | n # _ \<Rightarrow> if n > 0 then n else 0),
       hub_onDisconnect = False, hub_offline = [], hub_stopped = False \<rparr>"

definition Hub_SetOnDisconnect :: "'m hub \<Rightarrow> 'm hub" where
  "Hub_SetOnDisconnect h = h\<lparr> hub_onDisconnect := True \<rparr>"

definition Hub_IsAtCapacity :: "'m hub \<Rightarrow> bool" where
  "Hub_IsAtCapacity h \<longleftrightarrow> hub_maxConnections h > 0 \<and> int (length (hub_connections h)) \<ge> hub_maxConnections h"

section \<open>Operations\<close>

definition closeSend :: "'m node_conn \<Rightarrow> 'm node_conn" where
  "closeSend c = c\<lparr> nc_SendClosed := True \<rparr>"

definition NodeConnection_UpdateLastSeen :: "int \<Rightarrow> 'm node_conn \<Rightarrow> 'm node_conn" where
  "NodeConnection_UpdateLastSeen now c = c\<lparr> nc_LastSeen := now, nc_IsAlive := True \<rparr>"

definition NodeConnection_Close :: "'m node_conn \<Rightarrow> 'm node_conn" where
  "NodeConnection_Close c = c\<lparr> nc_ConnClosed := True, nc_IsAlive := False \<rparr>"

definition on_conn :: "nat \<Rightarrow> ('m node_conn \<Rightarrow> 'm node_conn) \<Rightarrow> 'm hub \<Rightarrow> 'm hub" where
  "on_conn a f h = h\<lparr> hub_heap := (hub_heap h)[a := f (hub_heap h ! a)] \<rparr>"

definition Hub_registerNode :: "nat \<Rightarrow> 'm hub \<Rightarrow> 'm hub" where
  "Hub_registerNode a h =
     (let nodeID = nc_NodeID (hub_heap h ! a);
          h1 = (case map_of (hub_connections h) nodeID of
                  None \<Rightarrow> h
                | Some old \<Rightarrow> on_conn old (\<lambda>c. (closeSend c)\<lparr> nc_ConnClosed := True \<rparr>) h)
      in h1\<lparr> hub_connections := AList.update nodeID a (hub_connections h1) \<rparr>)"

definition Hub_unregisterNode :: "nat \<Rightarrow> 'm hub \<Rightarrow> 'm hub" where
  "Hub_unregisterNode a h =
     (let nodeID = nc_NodeID (hub_heap h ! a) in
      if map_of (hub_connections h) nodeID = None then h
      else on_conn a closeSend
             (h\<lparr> hub_connections := AList.delete nodeID (hub_connections h),
                 hub_offline := (if hub_onDisconnect h then hub_offline h @ [nodeID] else hub_offline h) \<rparr>))"

datatype ws_err = ErrNodeNotConnected | ErrSendTimeout

text \<open>\<open>drained\<close> tells whether the connection's write loop takes a message within the five seconds a sender waits
  for room.\<close>

definition Hub_SendToNode :: "bool \<Rightarrow> string \<Rightarrow> 'm \<Rightarrow> 'm hub \<Rightarrow> (ws_err option \<times> 'm hub) res" where
  "Hub_SendToNode drained nodeID msg h =
     (case map_of (hub_connections h) nodeID of
        None \<Rightarrow> Inr (Some ErrNodeNotConnected, h)
      | Some a \<Rightarrow>
          (let c = hub_heap h ! a in
           if nc_SendClosed c then Inl SendOnClosedChannel
           else if length (nc_Send c) < send_cap
           then Inr (None, on_conn a (\<lambda>c. c\<lparr> nc_Send := nc_Send c @ [msg] \<rparr>) h)
           else if drained
           then Inr (None, on_conn a (\<lambda>c. c\<lparr> nc_Send := drop 1 (nc_Send c) @ [msg] \<rparr>) h)
           else Inr (Some ErrSendTimeout, h)))"

fun Hub_SendToGroup ::
    "(string \<Rightarrow> bool) \<Rightarrow> string list \<Rightarrow> 'm \<Rightarrow> 'm hub \<Rightarrow> ((string \<times> ws_err) list \<times> 'm hub) res" where
  "Hub_SendToGroup drained [] msg h = Inr ([], h)"
| "Hub_SendToGroup drained (n # ns) msg h =
     and_then (Hub_SendToNode (drained n) n msg h) (\<lambda>(e, h1).
       and_then (Hub_SendToGroup drained ns msg h1) (\<lambda>(es, h2).
         Inr (case e of None \<Rightarrow> es | Some x \<Rightarrow> (if n \<in> fst ` set es then es else (n, x) # es), h2)))"

text \<open>A broadcast drops the message for a connection whose buffer is full. \<open>ord\<close> is the order of the map.\<close>

fun broadcast_loop :: "'m \<Rightarrow> nat list \<Rightarrow> 'm hub \<Rightarrow> 'm hub res" where
  "broadcast_loop msg [] h = Inr h"
| "broadcast_loop msg (a # as) h =
     (let c = hub_heap h ! a in
      if nc_SendClosed c then Inl SendOnClosedChannel
      else if length (nc_Send c) < send_cap
      then broadcast_loop msg as (on_conn a (\<lambda>c. c\<lparr> nc_Send := nc_Send c @ [msg] \<rparr>) h)
      else broadcast_loop msg as h)"

definition Hub_broadcastMessage :: "string list \<Rightarrow> 'm \<Rightarrow> 'm hub \<Rightarrow> 'm hub res" where
  "Hub_broadcastMessage ord msg h = broadcast_loop msg (map (\<lambda>n. the (map_of (hub_connections h) n)) ord) h"

definition Hub_GetConnection :: "'m hub \<Rightarrow> string \<Rightarrow> nat option" where
  "Hub_GetConnection h nodeID = map_of (hub_connections h) nodeID"

definition Hub_GetNodeCount :: "'m hub \<Rightarrow> nat" where
  "Hub_GetNodeCount h = length (hub_connections h)"

definition dead_conns :: "string list \<Rightarrow> int \<Rightarrow> 'm hub \<Rightarrow> nat list" where
  "dead_conns ord now h =
     filter (\<lambda>a. now - nc_LastSeen (hub_heap h ! a) > 90 * 10 ^ 9)
       (map (\<lambda>n. the (map_of (hub_connections h) n)) ord)"

text \<open>
  The check runs in the goroutine of \<open>Run\<close>, the only receiver of the channel it sends to: when the dead
  connections do not fit into the free slots of the channel, the send never returns (\<open>None\<close>).
\<close>

definition Hub_checkDeadConnections :: "string list \<Rightarrow> int \<Rightarrow> 'm hub \<Rightarrow> 'm hub option" where
  "Hub_checkDeadConnections ord now h =
     (let dead = dead_conns ord now h in
      if length (hub_unregister h) + length dead \<le> queue_cap
      then Some (h\<lparr> hub_unregister := hub_unregister h @ dead \<rparr>)
      else None)"

definition Hub_closeAllConnections :: "'m hub \<Rightarrow> 'm hub" where
  "Hub_closeAllConnections h =
     (fold (\<lambda>a. on_conn a (\<lambda>c. (closeSend c)\<lparr> nc_ConnClosed := True \<rparr>)) (map snd (hub_connections h)) h)
       \<lparr> hub_connections := [] \<rparr>"

definition Hub_Stop :: "'m hub \<Rightarrow> 'm hub res" where
  "Hub_Stop h = (if hub_stopped h then Inl CloseOfClosedChannel else Inr (h\<lparr> hub_stopped := True \<rparr>))"

section \<open>Connections of the handler\<close>

text \<open>\<open>HandleConnection\<close> after the checks of the first message: a new connection is queued for
  registration. The end of its read loop queues it for removal and closes it.\<close>

definition Handler_connect :: "int \<Rightarrow> string \<Rightarrow> 'm hub \<Rightarrow> 'm hub option" where
  "Handler_connect now nodeID h =
     (if length (hub_register h) < queue_cap
      then Some (h\<lparr> hub_heap := hub_heap h @
                   [\<lparr> nc_NodeID = nodeID, nc_Send = [], nc_SendClosed = False, nc_ConnClosed = False,
                      nc_LastSeen = now, nc_IsAlive = True \<rparr>],
                   hub_register := hub_register h @ [length (hub_heap h)] \<rparr>)
      else None)"

definition Handler_read_end :: "nat \<Rightarrow> 'm hub \<Rightarrow> 'm hub option" where
  "Handler_read_end a h =
     (if length (hub_unregister h) < queue_cap
      then Some (on_conn a NodeConnection_Close (h\<lparr> hub_unregister := hub_unregister h @ [a] \<rparr>))
      else None)"

section \<open>Runs and their invariant\<close>

text \<open>
  The loop of \<open>Run\<close> serves its channels in any order. The runs below are those in which it takes a
  connection from the removal queue only after its registration; \<open>R\<close> is the set of registered connections.
  Message queues are emptied by the write loops, and \<open>UpdateLastSeen\<close> may come at any moment.
\<close>

inductive hub_run :: "'m hub \<Rightarrow> nat set \<Rightarrow> bool" where
  hr_new: "hub_run (NewHub maxc) {}"
| hr_callback: "hub_run h R \<Longrightarrow> hub_run (Hub_SetOnDisconnect h) R"
| hr_connect: "hub_run h R \<Longrightarrow> Handler_connect now n h = Some h' \<Longrightarrow> hub_run h' R"
| hr_seen: "hub_run h R \<Longrightarrow> a < length (hub_heap h) \<Longrightarrow> hub_run (on_conn a (NodeConnection_UpdateLastSeen now) h) R"
| hr_written: "hub_run h R \<Longrightarrow> a < length (hub_heap h) \<Longrightarrow> hub_run (on_conn a (\<lambda>c. c\<lparr> nc_Send := drop 1 (nc_Send c) \<rparr>) h) R"
| hr_read_end: "hub_run h R \<Longrightarrow> a < length (hub_heap h) \<Longrightarrow> Handler_read_end a h = Some h' \<Longrightarrow> hub_run h' R"
| hr_register: "hub_run h R \<Longrightarrow> hub_register h = a # q \<Longrightarrow>
    hub_run (Hub_registerNode a (h\<lparr> hub_register := q \<rparr>)) (insert a R)"
| hr_unregister: "hub_run h R \<Longrightarrow> hub_unregister h = a # q \<Longrightarrow> a \<in> R \<Longrightarrow>
    hub_run (Hub_unregisterNode a (h\<lparr> hub_unregister := q \<rparr>)) R"
| hr_dead: "hub_run h R \<Longrightarrow> range_order (hub_connections h) ord \<Longrightarrow> Hub_checkDeadConnections ord now h = Some h' \<Longrightarrow> hub_run h' R"
| hr_send: "hub_run h R \<Longrightarrow> Hub_SendToNode drained n msg h = Inr (e, h') \<Longrightarrow> hub_run h' R"
| hr_broadcast: "hub_run h R \<Longrightarrow> range_order (hub_connections h) ord \<Longrightarrow> Hub_broadcastMessage ord msg h = Inr h' \<Longrightarrow> hub_run h' R"
| hr_stop: "hub_run h R \<Longrightarrow> hub_run (Hub_closeAllConnections h) R"

definition hub_inv :: "'m hub \<Rightarrow> nat set \<Rightarrow> bool" where
  "hub_inv h R \<longleftrightarrow>
     map_ok (hub_connections h) \<and> R \<subseteq> {..<length (hub_heap h)} \<and>
     (\<forall>(n, a) \<in> set (hub_connections h). a \<in> R \<and> nc_NodeID (hub_heap h ! a) = n \<and> \<not> nc_SendClosed (hub_heap h ! a)) \<and>
     distinct (hub_register h) \<and>
     (\<forall>a \<in> set (hub_register h). a < length (hub_heap h) \<and> a \<notin> R \<and> \<not> nc_SendClosed (hub_heap h ! a))"

lemma on_conn_heap:
  "length (hub_heap (on_conn a f h)) = length (hub_heap h)"
  "b < length (hub_heap h) \<Longrightarrow> hub_heap (on_conn a f h) ! b = (if a = b then f (hub_heap h ! b) else hub_heap h ! b)"
  by (auto simp: on_conn_def nth_list_update)

lemma on_conn_rest [simp]:
  "hub_connections (on_conn a f h) = hub_connections h" "hub_register (on_conn a f h) = hub_register h"
  "hub_unregister (on_conn a f h) = hub_unregister h"
  by (simp_all add: on_conn_def)

text \<open>What the invariant looks at is kept when the connections keep their node and the open ones stay open.\<close>

lemma hub_inv_heap:
  assumes "hub_inv h R" "hub_connections h' = hub_connections h" "hub_register h' = hub_register h"
    and "length (hub_heap h') = length (hub_heap h)"
    and "\<And>b. b < length (hub_heap h) \<Longrightarrow> nc_NodeID (hub_heap h' ! b) = nc_NodeID (hub_heap h ! b)"
    and "\<And>b. b < length (hub_heap h) \<Longrightarrow> nc_SendClosed (hub_heap h' ! b) = nc_SendClosed (hub_heap h ! b)"
  shows "hub_inv h' R"
proof -
  have len: "b < length (hub_heap h)" if "(n, b) \<in> set (hub_connections h)" for n b
    using assms(1) that by (auto simp: hub_inv_def)
  show ?thesis using assms len unfolding hub_inv_def by (auto simp: case_prod_beta)
qed

lemma hub_inv_on_conn:
  assumes "hub_inv h R" "\<And>c. nc_NodeID (f c) = nc_NodeID c" "\<And>c. nc_SendClosed (f c) = nc_SendClosed c"
  shows "hub_inv (on_conn a f h) R"
  by (rule hub_inv_heap [OF assms(1)]) (auto simp: on_conn_heap assms(2,3))

lemma hub_inv_connect:
  assumes "hub_inv h R" "Handler_connect now n h = Some h'"
  shows "hub_inv h' R"
proof -
  have "h' = h\<lparr> hub_heap := hub_heap h @ [\<lparr> nc_NodeID = n, nc_Send = [], nc_SendClosed = False, nc_ConnClosed = False,
      nc_LastSeen = now, nc_IsAlive = True \<rparr>], hub_register := hub_register h @ [length (hub_heap h)] \<rparr>"
    using assms(2) by (auto simp: Handler_connect_def split: if_splits)
  then show ?thesis using assms(1) by (fastforce simp: hub_inv_def nth_append)
qed

text \<open>Closing connections of the set \<open>D\<close> and dropping or replacing their entries.\<close>

lemma hub_inv_closing:
  assumes "hub_inv h R" "map_ok (hub_connections h')" "R \<subseteq> R'" "R' \<subseteq> {..<length (hub_heap h)}"
    and "length (hub_heap h') = length (hub_heap h)"
    and "\<And>b. b < length (hub_heap h) \<Longrightarrow> nc_NodeID (hub_heap h' ! b) = nc_NodeID (hub_heap h ! b)"
    and "\<And>b. b < length (hub_heap h) \<Longrightarrow> b \<notin> D \<Longrightarrow> nc_SendClosed (hub_heap h' ! b) = nc_SendClosed (hub_heap h ! b)"
    and "\<And>n b. (n, b) \<in> set (hub_connections h') \<Longrightarrow> b \<in> R' \<and> b \<notin> D \<and> nc_NodeID (hub_heap h ! b) = n \<and> \<not> nc_SendClosed (hub_heap h ! b)"
    and "distinct (hub_register h')" "set (hub_register h') \<subseteq> set (hub_register h) - R'" "D \<subseteq> R"
  shows "hub_inv h' R'"
proof -
  have "b \<in> R' \<and> nc_NodeID (hub_heap h' ! b) = n \<and> \<not> nc_SendClosed (hub_heap h' ! b)" if "(n, b) \<in> set (hub_connections h')" for n b
    using assms(8) [OF that] assms(4,6,7) by (metis lessThan_iff subsetD)
  moreover have "b < length (hub_heap h') \<and> b \<notin> R' \<and> \<not> nc_SendClosed (hub_heap h' ! b)" if "b \<in> set (hub_register h')" for b
  proof -
    have b: "b \<in> set (hub_register h)" "b \<notin> R'" using that assms(10) by auto
    then have "b < length (hub_heap h)" "\<not> nc_SendClosed (hub_heap h ! b)" using assms(1) by (auto simp: hub_inv_def)
    moreover have "b \<notin> D" using b(2) assms(3,11) by blast
    ultimately show ?thesis using b(2) assms(5,7) by simp
  qed
  ultimately show ?thesis unfolding hub_inv_def using assms(2,4,5,9) by auto
qed

lemma hub_inv_register:
  assumes inv: "hub_inv h R" and q: "hub_register h = a # q"
  shows "hub_inv (Hub_registerNode a (h\<lparr> hub_register := q \<rparr>)) (insert a R)"
proof -
  let ?n = "nc_NodeID (hub_heap h ! a)"
  define D where "D = set_option (map_of (hub_connections h) ?n)"
  have a: "a < length (hub_heap h)" "a \<notin> R" "\<not> nc_SendClosed (hub_heap h ! a)" "a \<notin> set q" "distinct q"
      "set q \<inter> R = {}"
    using inv q by (auto simp: hub_inv_def)
  have entry: "b \<in> R \<and> nc_NodeID (hub_heap h ! b) = n \<and> \<not> nc_SendClosed (hub_heap h ! b)" if "(n, b) \<in> set (hub_connections h)" for n b
    using inv that by (auto simp: hub_inv_def)
  have D: "b \<in> R \<and> nc_NodeID (hub_heap h ! b) = ?n" if "b \<in> D" for b
    using that entry by (auto simp: D_def dest: map_of_SomeD)
  have R: "R \<subseteq> {..<length (hub_heap h)}" using inv by (simp add: hub_inv_def)
  have heap: "hub_heap (Hub_registerNode a (h\<lparr> hub_register := q \<rparr>)) ! b =
      (if b \<in> D then (closeSend (hub_heap h ! b))\<lparr> nc_ConnClosed := True \<rparr> else hub_heap h ! b)" if "b < length (hub_heap h)" for b
    using that by (auto simp: Hub_registerNode_def Let_def D_def on_conn_def nth_list_update split: option.splits)
  have rest: "length (hub_heap (Hub_registerNode a (h\<lparr> hub_register := q \<rparr>))) = length (hub_heap h)"
      "hub_register (Hub_registerNode a (h\<lparr> hub_register := q \<rparr>)) = q"
      "hub_connections (Hub_registerNode a (h\<lparr> hub_register := q \<rparr>)) = AList.update ?n a (hub_connections h)"
    by (auto simp: Hub_registerNode_def Let_def on_conn_def split: option.splits)
  have ok: "map_ok (hub_connections h)" using inv by (simp add: hub_inv_def)
  show ?thesis
  proof (rule hub_inv_closing [OF inv, where D = D])
    show "map_ok (hub_connections (Hub_registerNode a (h\<lparr> hub_register := q \<rparr>)))" using ok by (simp add: rest)
    fix n b assume "(n, b) \<in> set (hub_connections (Hub_registerNode a (h\<lparr> hub_register := q \<rparr>)))"
    then have "n = ?n \<and> b = a \<or> n \<noteq> ?n \<and> (n, b) \<in> set (hub_connections h)" using ok by (auto simp: rest set_alist_update_eq)
    then show "b \<in> insert a R \<and> b \<notin> D \<and> nc_NodeID (hub_heap h ! b) = n \<and> \<not> nc_SendClosed (hub_heap h ! b)"
      using a D entry by auto
  qed (use a R q D heap rest in \<open>auto simp: closeSend_def hub_inv_def inv\<close>)
qed

lemma hub_inv_unregister:
  assumes inv: "hub_inv h R" and a: "a \<in> R"
  shows "hub_inv (Hub_unregisterNode a h) R"
proof (cases "map_of (hub_connections h) (nc_NodeID (hub_heap h ! a)) = None")
  case True
  then show ?thesis using inv by (simp add: Hub_unregisterNode_def)
next
  case False
  let ?n = "nc_NodeID (hub_heap h ! a)" and ?h = "Hub_unregisterNode a h"
  have R: "R \<subseteq> {..<length (hub_heap h)}" and ok: "map_ok (hub_connections h)" using inv by (simp_all add: hub_inv_def)
  have heap: "hub_heap ?h ! b = (if b = a then closeSend (hub_heap h ! b) else hub_heap h ! b)" if "b < length (hub_heap h)" for b
    using that False by (auto simp: Hub_unregisterNode_def Let_def on_conn_def nth_list_update)
  have rest: "length (hub_heap ?h) = length (hub_heap h)" "hub_register ?h = hub_register h"
      "hub_connections ?h = AList.delete ?n (hub_connections h)"
    using False by (auto simp: Hub_unregisterNode_def Let_def on_conn_def)
  show ?thesis
  proof (rule hub_inv_closing [OF inv, where D = "{a}"])
    show "map_ok (hub_connections ?h)" using ok by (simp add: rest)
    fix n b assume "(n, b) \<in> set (hub_connections ?h)"
    then have "(n, b) \<in> set (hub_connections h)" "n \<noteq> ?n" by (auto simp: rest)
    then show "b \<in> R \<and> b \<notin> {a} \<and> nc_NodeID (hub_heap h ! b) = n \<and> \<not> nc_SendClosed (hub_heap h ! b)"
      using inv by (auto simp: hub_inv_def)
  qed (use a R heap rest inv in \<open>auto simp: closeSend_def hub_inv_def\<close>)
qed

lemma hub_inv_unqueue: "hub_inv h R \<Longrightarrow> hub_inv (h\<lparr> hub_unregister := q \<rparr>) R"
  by (simp add: hub_inv_def)

lemma close_fold:
  fixes h :: "'m hub"
  defines "f \<equiv> fold (\<lambda>a. on_conn a (\<lambda>c. (closeSend c)\<lparr> nc_ConnClosed := True \<rparr>))"
  shows "length (hub_heap (f as h)) = length (hub_heap h) \<and> hub_register (f as h) = hub_register h \<and>
    (\<forall>b < length (hub_heap h). nc_NodeID (hub_heap (f as h) ! b) = nc_NodeID (hub_heap h ! b) \<and>
       (b \<notin> set as \<longrightarrow> nc_SendClosed (hub_heap (f as h) ! b) = nc_SendClosed (hub_heap h ! b)))"
  unfolding f_def by (induction as arbitrary: h) (auto simp: on_conn_heap closeSend_def)

lemma hub_inv_stop:
  assumes "hub_inv h R"
  shows "hub_inv (Hub_closeAllConnections h) R"
proof (rule hub_inv_closing [OF assms, where D = "snd ` set (hub_connections h)"])
  note cf = close_fold [of "map snd (hub_connections h)" h]
  show "length (hub_heap (Hub_closeAllConnections h)) = length (hub_heap h)"
    using cf by (simp add: Hub_closeAllConnections_def)
  show "distinct (hub_register (Hub_closeAllConnections h))"
    "set (hub_register (Hub_closeAllConnections h)) \<subseteq> set (hub_register h) - R"
    using cf assms by (auto simp: Hub_closeAllConnections_def hub_inv_def)
  show "map_ok (hub_connections (Hub_closeAllConnections h))" by (simp add: Hub_closeAllConnections_def)
  fix b assume "b < length (hub_heap h)"
  then show "nc_NodeID (hub_heap (Hub_closeAllConnections h) ! b) = nc_NodeID (hub_heap h ! b)"
    "b \<notin> snd ` set (hub_connections h) \<Longrightarrow>
       nc_SendClosed (hub_heap (Hub_closeAllConnections h) ! b) = nc_SendClosed (hub_heap h ! b)"
    using cf by (simp_all add: Hub_closeAllConnections_def)
qed (use assms in \<open>auto simp: Hub_closeAllConnections_def hub_inv_def\<close>)

text \<open>Sending touches only message queues.\<close>

lemma SendToNode_cases:
  assumes "Hub_SendToNode drained n msg h = Inr (e, h')"
  obtains "h' = h" | a f where "h' = on_conn a f h" "\<And>c. nc_NodeID (f c) = nc_NodeID c" "\<And>c. nc_SendClosed (f c) = nc_SendClosed c"
proof -
  have "h' = h \<or> (\<exists>a q. h' = on_conn a (\<lambda>c. c\<lparr> nc_Send := q c \<rparr>) h)"
    using assms by (auto simp: Hub_SendToNode_def Let_def split: option.splits if_splits)
  then show ?thesis
  proof (elim disjE exE)
    fix a q assume "h' = on_conn a (\<lambda>c. c\<lparr> nc_Send := q c \<rparr>) h"
    then show ?thesis by (rule that(2)) simp_all
  qed (rule that(1))
qed

lemma broadcast_spec:
  assumes "distinct as" "\<forall>a \<in> set as. a < length (hub_heap h) \<and> \<not> nc_SendClosed (hub_heap h ! a)"
  shows "\<exists>h'. broadcast_loop msg as h = Inr h' \<and> hub_connections h' = hub_connections h \<and> hub_register h' = hub_register h \<and>
    length (hub_heap h') = length (hub_heap h) \<and>
    (\<forall>b < length (hub_heap h). hub_heap h' ! b =
       (if b \<in> set as \<and> length (nc_Send (hub_heap h ! b)) < send_cap
        then (hub_heap h ! b)\<lparr> nc_Send := nc_Send (hub_heap h ! b) @ [msg] \<rparr> else hub_heap h ! b))"
  using assms
proof (induction as arbitrary: h)
  case (Cons a as)
  let ?h = "if length (nc_Send (hub_heap h ! a)) < send_cap then on_conn a (\<lambda>c. c\<lparr> nc_Send := nc_Send c @ [msg] \<rparr>) h else h"
  have "\<forall>b \<in> set as. b < length (hub_heap ?h) \<and> \<not> nc_SendClosed (hub_heap ?h ! b)"
    using Cons.prems by (auto simp: on_conn_heap)
  from Cons.IH [OF _ this] Cons.prems obtain h' where h': "broadcast_loop msg as ?h = Inr h'" "hub_connections h' = hub_connections ?h"
      "hub_register h' = hub_register ?h" "length (hub_heap h') = length (hub_heap ?h)"
      "\<forall>b < length (hub_heap ?h). hub_heap h' ! b =
       (if b \<in> set as \<and> length (nc_Send (hub_heap ?h ! b)) < send_cap
        then (hub_heap ?h ! b)\<lparr> nc_Send := nc_Send (hub_heap ?h ! b) @ [msg] \<rparr> else hub_heap ?h ! b)" by auto
  moreover have "broadcast_loop msg (a # as) h = broadcast_loop msg as ?h" using Cons.prems by (simp add: Let_def)
  ultimately show ?case using Cons.prems by (intro exI [of _ h']) (auto simp: on_conn_heap)
qed simp

lemma range_conns:
  assumes "hub_inv h R" "range_order (hub_connections h) ord"
  defines "as \<equiv> map (\<lambda>n. the (map_of (hub_connections h) n)) ord"
  shows "distinct as" "set as = snd ` set (hub_connections h)"
    "\<forall>a \<in> set as. a < length (hub_heap h) \<and> \<not> nc_SendClosed (hub_heap h ! a)"
proof -
  have ok: "map_ok (hub_connections h)" "distinct ord" "set ord = fst ` set (hub_connections h)"
    using assms(1,2) by (auto simp: hub_inv_def range_order_def)
  have ent: "(n, the (map_of (hub_connections h) n)) \<in> set (hub_connections h)" if "n \<in> set ord" for n
    using that ok(3) by (metis domD dom_map_of_conv_image_fst map_of_SomeD option.sel)
  have node: "nc_NodeID (hub_heap h ! a) = n \<and> a < length (hub_heap h) \<and> \<not> nc_SendClosed (hub_heap h ! a)"
    if "(n, a) \<in> set (hub_connections h)" for n a
    using that assms(1) by (auto simp: hub_inv_def)
  have "inj_on (\<lambda>n. the (map_of (hub_connections h) n)) (set ord)"
    by (rule inj_onI) (metis ent node)
  then show "distinct as" using ok(2) by (simp add: as_def distinct_map)
  show "set as = snd ` set (hub_connections h)"
  proof (intro set_eqI iffI)
    fix a assume "a \<in> snd ` set (hub_connections h)"
    then obtain n where "(n, a) \<in> set (hub_connections h)" by auto
    then have "map_of (hub_connections h) n = Some a" "n \<in> set ord" using ok by (auto intro: map_of_is_SomeI rev_image_eqI)
    then show "a \<in> set as" by (force simp: as_def)
  qed (use ent in \<open>force simp: as_def\<close>)
  then show "\<forall>a \<in> set as. a < length (hub_heap h) \<and> \<not> nc_SendClosed (hub_heap h ! a)" using node by fastforce
qed

lemma hub_run_inv: "hub_run h R \<Longrightarrow> hub_inv h R"
proof (induction rule: hub_run.induct)
  case (hr_read_end h R a h')
  have "h' = on_conn a NodeConnection_Close (h\<lparr> hub_unregister := hub_unregister h @ [a] \<rparr>)"
    using hr_read_end(3) by (auto simp: Handler_read_end_def split: if_splits)
  then show ?case using hub_inv_on_conn [OF hub_inv_unqueue [OF hr_read_end(4)]] by (simp add: NodeConnection_Close_def)
next
  case (hr_unregister h R a q)
  then show ?case by (intro hub_inv_unregister hub_inv_unqueue)
next
  case (hr_dead h R ord now h')
  then show ?case by (auto simp: Hub_checkDeadConnections_def Let_def hub_inv_unqueue split: if_splits)
next
  case (hr_send h R drained n msg e h')
  from hr_send(2) show ?case
  proof (cases rule: SendToNode_cases)
    case (2 a f)
    then show ?thesis using hub_inv_on_conn [OF hr_send(3)] by simp
  qed (use hr_send(3) in simp)
next
  case (hr_broadcast h R ord msg h')
  note as = range_conns [OF hr_broadcast(4,2)]
  have b: "hub_connections h' = hub_connections h" "hub_register h' = hub_register h" "length (hub_heap h') = length (hub_heap h)"
      "\<forall>b < length (hub_heap h). hub_heap h' ! b = hub_heap h ! b \<or>
         hub_heap h' ! b = (hub_heap h ! b)\<lparr> nc_Send := nc_Send (hub_heap h ! b) @ [msg] \<rparr>"
    using broadcast_spec [OF as(1,3), of msg] hr_broadcast(3) by (auto simp: Hub_broadcastMessage_def)
  show ?case by (rule hub_inv_heap [OF hr_broadcast(4) b(1-3)]) (use b(4) in fastforce)+
next
  case (hr_new maxc)
  show ?case by (simp add: hub_inv_def NewHub_def)
next
  case (hr_callback h R)
  then show ?case by (simp add: hub_inv_def Hub_SetOnDisconnect_def)
next
  case (hr_connect h R now n h')
  show ?case by (rule hub_inv_connect [OF hr_connect(3,2)])
next
  case (hr_seen h R a now)
  show ?case by (rule hub_inv_on_conn [OF hr_seen(3)]) (simp_all add: NodeConnection_UpdateLastSeen_def)
next
  case (hr_written h R a)
  show ?case by (rule hub_inv_on_conn [OF hr_written(3)]) simp_all
next
  case (hr_register h R a q)
  show ?case by (rule hub_inv_register [OF hr_register(3,2)])
next
  case (hr_stop h R)
  show ?case by (rule hub_inv_stop [OF hr_stop(2)])
qed


definition demo_hub :: "nat hub" where
  "demo_hub = Hub_registerNode 0 ((the (Handler_connect 5 ''n'' (NewHub [])))\<lparr> hub_register := [] \<rparr>)"


section \<open>What the order of events can break\<close>

text \<open>
  A node that connects again replaces its old connection, whose socket \<open>registerNode\<close> closes; that ends the
  old read loop, which unregisters the old connection. \<open>unregisterNode\<close> removes the entry of the node without
  comparing connections: the node is left without an entry and reported off-line while its new connection is open.
\<close>

lemma reconnect_unregisters:
  assumes "map_of (hub_connections h) n = Some old" "old < length (hub_heap h)" "new < length (hub_heap h)" "old \<noteq> new"
    and "nc_NodeID (hub_heap h ! old) = n" "nc_NodeID (hub_heap h ! new) = n" "\<not> nc_ConnClosed (hub_heap h ! new)" "hub_onDisconnect h"
  defines "h1 \<equiv> Hub_registerNode new h"
  shows "Hub_GetConnection h1 n = Some new \<and> nc_ConnClosed (hub_heap h1 ! old) \<and>
    Hub_GetConnection (Hub_unregisterNode old h1) n = None \<and>
    \<not> nc_ConnClosed (hub_heap (Hub_unregisterNode old h1) ! new) \<and>
    hub_offline (Hub_unregisterNode old h1) = hub_offline h @ [n]"
  using assms
  by (simp add: Hub_registerNode_def Hub_unregisterNode_def Hub_GetConnection_def Let_def on_conn_def closeSend_def nth_list_update)

text \<open>
  The two queues are separate channels, so the removal of a connection may be served before its
  registration. When the node still has its previous entry, the removal closes the channel of the new
  connection, the registration then enters it, and the next message to the node is a send on a closed
  channel, a panic of the control plane.
\<close>

lemma overtaking_removal_panics:
  assumes "map_of (hub_connections h) n = Some old" "new < length (hub_heap h)" "nc_NodeID (hub_heap h ! new) = n"
  shows "Hub_SendToNode drained n msg (Hub_registerNode new (Hub_unregisterNode new h)) = Inl SendOnClosedChannel"
  using assms
  by (simp add: Hub_registerNode_def Hub_unregisterNode_def Hub_SendToNode_def Let_def on_conn_def closeSend_def)

text \<open>Eleven nodes that fall silent together stop the registry: the check for dead connections blocks on the
  channel only its own goroutine empties.\<close>

lemma eleven_dead_block_hub:
  assumes "length (dead_conns ord now h) \<ge> 11"
  shows "Hub_checkDeadConnections ord now h = None"
  using assms by (simp add: Hub_checkDeadConnections_def Let_def queue_cap_def)

end
