(* ===== verification/Ws_Pool.thy ===== *)
theory Ws_Pool
  imports Go_Float
begin

text \<open>
  The pool of node connections on the control plane, \<open>plane/internal/ws/pool.go\<close>: admission, replacement,
  clean-up, and the quality metrics of each connection. The connections are held by node in a Go map, which is
  nil after \<open>Close\<close>. The clock is an argument, and so is the order in which the map is visited. The
  snapshots for display and logging are left out.
\<close>

section \<open>State\<close>

record enh_conn =
  ec_NodeID :: string
  ec_rtt :: int
  ec_packetLoss :: int
  ec_totalPackets :: int
  ec_bytesIn :: int
  ec_bytesOut :: int
  ec_heartbeatInterval :: int
  ec_missedHeartbeats :: int
  ec_createdAt :: int
  ec_lastActivityAt :: int
  ec_idleTime :: int
  ec_qualityScore :: int

record enh_pool =
  cp_connections :: "(string \<times> enh_conn) list option"
  cp_maxConnections :: int
  cp_currentCount :: int
  cp_total :: int
  cp_active :: int
  cp_rejected :: int
  cp_timeout :: int
  cp_error :: int
  cp_idleTimeout :: int
  cp_stopped :: bool

definition second :: int where "second = 10 ^ 9"

definition NewEnhPool :: "int \<Rightarrow> enh_pool" where
  "NewEnhPool maxConn =
     \<lparr> cp_connections = Some [], cp_maxConnections = maxConn, cp_currentCount = 0, cp_total = 0, cp_active = 0,
       cp_rejected = 0, cp_timeout = 0, cp_error = 0, cp_idleTimeout = 300 * second, cp_stopped = False \<rparr>"

section \<open>Metrics of a connection\<close>

definition Enh_RecordActivity :: "int \<Rightarrow> enh_conn \<Rightarrow> enh_conn" where
  "Enh_RecordActivity now c = c\<lparr> ec_lastActivityAt := now, ec_idleTime := 0 \<rparr>"

definition Enh_IsIdle :: "int \<Rightarrow> int \<Rightarrow> enh_conn \<Rightarrow> bool" where
  "Enh_IsIdle now timeout c \<longleftrightarrow> now - ec_lastActivityAt c > timeout"

definition Enh_adjustHeartbeatInterval :: "int \<Rightarrow> enh_conn \<Rightarrow> enh_conn" where
  "Enh_adjustHeartbeatInterval rtt c =
     (let newInterval = (if rtt < 50 * 10 ^ 6 then 30 * second
                         else if rtt < 200 * 10 ^ 6 then 20 * second else 15 * second)
      in if newInterval \<noteq> ec_heartbeatInterval c then c\<lparr> ec_heartbeatInterval := newInterval \<rparr> else c)"

definition rtt_penalty :: "int \<Rightarrow> int" where
  "rtt_penalty rtt = (if rtt > 500 * 10 ^ 6 then 30 else if rtt > 200 * 10 ^ 6 then 20 else if rtt > 100 * 10 ^ 6 then 10 else 0)"

definition loss_penalty :: "int \<Rightarrow> int \<Rightarrow> int" where
  "loss_penalty lost totalPkts =
     (if totalPkts > 0
      then (let lossRate = fdiv (float64 lost) (float64 totalPkts)
            in if lossRate > fl (1 / 10) then 40 else if lossRate > fl (5 / 100) then 25
               else if lossRate > fl (1 / 100) then 10 else 0)
      else 0)"

definition Enh_updateQualityScore :: "enh_conn \<Rightarrow> enh_conn" where
  "Enh_updateQualityScore c =
     (let score1 = 100 - rtt_penalty (ec_rtt c);
          score2 = score1 - loss_penalty (ec_packetLoss c) (ec_totalPackets c);
          missed = ec_missedHeartbeats c;
          score3 = (if missed > 0 then score2 - wrap32 (missed * 10) else score2);
          score4 = (if score3 < 0 then 0 else score3)
      in c\<lparr> ec_qualityScore := wrap32 score4 \<rparr>)"

definition Enh_RecordRTT :: "int \<Rightarrow> enh_conn \<Rightarrow> enh_conn" where
  "Enh_RecordRTT rtt c = Enh_updateQualityScore (Enh_adjustHeartbeatInterval rtt (c\<lparr> ec_rtt := rtt \<rparr>))"

definition Enh_RecordPacket :: "bool \<Rightarrow> enh_conn \<Rightarrow> enh_conn" where
  "Enh_RecordPacket lost c =
     Enh_updateQualityScore
       (c\<lparr> ec_totalPackets := add64 (ec_totalPackets c) 1,
           ec_packetLoss := (if lost then add64 (ec_packetLoss c) 1 else ec_packetLoss c) \<rparr>)"

definition Enh_RecordTraffic :: "int \<Rightarrow> int \<Rightarrow> int \<Rightarrow> enh_conn \<Rightarrow> enh_conn" where
  "Enh_RecordTraffic now bytesIn bytesOut c =
     Enh_RecordActivity now
       (c\<lparr> ec_bytesIn := add64 (ec_bytesIn c) bytesIn, ec_bytesOut := add64 (ec_bytesOut c) bytesOut \<rparr>)"

section \<open>The pool\<close>

text \<open>\<open>Add\<close> tests the limit before it takes the lock, so the test and the insertion are definitions of their
  own.\<close>

definition add_admitted :: "enh_pool \<Rightarrow> bool" where
  "add_admitted p \<longleftrightarrow> cp_currentCount p < cp_maxConnections p"

definition add_insert :: "int \<Rightarrow> string \<Rightarrow> string \<Rightarrow> enh_pool \<Rightarrow> enh_pool res" where
  "add_insert now nodeID connID p =
     (let count1 = (if cp_connections p \<noteq> None \<and> map_of (the (cp_connections p)) nodeID \<noteq> None
                    then add32 (cp_currentCount p) (- 1) else cp_currentCount p);
          c = \<lparr> ec_NodeID = connID, ec_rtt = 0, ec_packetLoss = 0, ec_totalPackets = 0, ec_bytesIn = 0, ec_bytesOut = 0,
                ec_heartbeatInterval = 30 * second, ec_missedHeartbeats = 0, ec_createdAt = now,
                ec_lastActivityAt = now, ec_idleTime = 0, ec_qualityScore = 100 \<rparr>
      in case cp_connections p of
           None \<Rightarrow> Inl NilMapWrite
         | Some m \<Rightarrow>
             Inr (p\<lparr> cp_connections := Some (AList.update nodeID c m), cp_currentCount := add32 count1 1,
                     cp_total := add64 (cp_total p) 1, cp_active := add32 count1 1 \<rparr>))"

definition Pool_Add :: "int \<Rightarrow> string \<Rightarrow> string \<Rightarrow> enh_pool \<Rightarrow> (bool \<times> enh_pool) res" where
  "Pool_Add now nodeID connID p =
     (if \<not> add_admitted p then Inr (False, p\<lparr> cp_rejected := add64 (cp_rejected p) 1 \<rparr>)
      else and_then (add_insert now nodeID connID p) (\<lambda>p'. Inr (True, p')))"

definition pool_map :: "enh_pool \<Rightarrow> (string \<times> enh_conn) list" where
  "pool_map p = (case cp_connections p of None \<Rightarrow> [] | Some m \<Rightarrow> m)"

definition drop_conn :: "string \<Rightarrow> enh_pool \<Rightarrow> enh_pool" where
  "drop_conn nodeID p =
     (if map_of (pool_map p) nodeID = None then p
      else p\<lparr> cp_connections := map_option (AList.delete nodeID) (cp_connections p),
              cp_currentCount := add32 (cp_currentCount p) (- 1) \<rparr>)"

definition Pool_Remove :: "string \<Rightarrow> enh_pool \<Rightarrow> enh_pool" where
  "Pool_Remove nodeID p =
     (if map_of (pool_map p) nodeID = None then p
      else (let p1 = drop_conn nodeID p in p1\<lparr> cp_active := cp_currentCount p1 \<rparr>))"

definition on_pooled :: "string \<Rightarrow> (enh_conn \<Rightarrow> enh_conn) \<Rightarrow> enh_pool \<Rightarrow> enh_pool" where
  "on_pooled nodeID f p =
     (case map_of (pool_map p) nodeID of
        None \<Rightarrow> p
      | Some c \<Rightarrow> p\<lparr> cp_connections := map_option (AList.update nodeID (f c)) (cp_connections p) \<rparr>)"

definition Pool_Get :: "int \<Rightarrow> string \<Rightarrow> enh_pool \<Rightarrow> enh_conn option \<times> enh_pool" where
  "Pool_Get now nodeID p =
     (let p' = on_pooled nodeID (Enh_RecordActivity now) p in (map_of (pool_map p') nodeID, p'))"

datatype verdict = V_keep | V_timeout | V_error

definition clean_verdict :: "int \<Rightarrow> enh_pool \<Rightarrow> enh_conn \<Rightarrow> verdict" where
  "clean_verdict now p c =
     (if Enh_IsIdle now (cp_idleTimeout p) c then V_timeout
      else if ec_missedHeartbeats c \<ge> 5 then V_timeout
      else if ec_qualityScore c < 20 then V_error
      else V_keep)"

definition Pool_cleanup :: "int \<Rightarrow> string list \<Rightarrow> enh_pool \<Rightarrow> enh_pool" where
  "Pool_cleanup now ord p =
     (let verdict = (\<lambda>n. clean_verdict now p (the (map_of (pool_map p) n)));
          toRemove = filter (\<lambda>n. verdict n \<noteq> V_keep) ord;
          p1 = fold (\<lambda>n p. case verdict n of
                        V_timeout \<Rightarrow> p\<lparr> cp_timeout := add64 (cp_timeout p) 1 \<rparr>
                      | V_error \<Rightarrow> p\<lparr> cp_error := add64 (cp_error p) 1 \<rparr>
                      | V_keep \<Rightarrow> p) ord p
      in fold drop_conn toRemove p1)"

definition Pool_Close :: "enh_pool \<Rightarrow> enh_pool res" where
  "Pool_Close p =
     (if cp_stopped p then Inl CloseOfClosedChannel
      else Inr (p\<lparr> cp_stopped := True, cp_connections := None \<rparr>))"

section \<open>Invariant\<close>

text \<open>The runs of an open pool.\<close>

inductive pool_run :: "int \<Rightarrow> enh_pool \<Rightarrow> bool" where
  po_new: "0 \<le> maxc \<Longrightarrow> maxc < 2 ^ 31 \<Longrightarrow> pool_run maxc (NewEnhPool maxc)"
| po_add: "pool_run maxc p \<Longrightarrow> Pool_Add now n cid p = Inr (b, p') \<Longrightarrow> pool_run maxc p'"
| po_remove: "pool_run maxc p \<Longrightarrow> pool_run maxc (Pool_Remove n p)"
| po_get: "pool_run maxc p \<Longrightarrow> Pool_Get now n p = (r, p') \<Longrightarrow> pool_run maxc p'"
| po_rtt: "pool_run maxc p \<Longrightarrow> pool_run maxc (on_pooled n (Enh_RecordRTT rtt) p)"
| po_packet: "pool_run maxc p \<Longrightarrow> pool_run maxc (on_pooled n (Enh_RecordPacket lost) p)"
| po_traffic: "pool_run maxc p \<Longrightarrow> pool_run maxc (on_pooled n (Enh_RecordTraffic now bi bo) p)"
| po_cleanup: "pool_run maxc p \<Longrightarrow> range_order (pool_map p) ord \<Longrightarrow> pool_run maxc (Pool_cleanup now ord p)"

definition conn_ok :: "enh_conn \<Rightarrow> bool" where
  "conn_ok c \<longleftrightarrow> ec_missedHeartbeats c = 0 \<and> 30 \<le> ec_qualityScore c \<and> ec_qualityScore c \<le> 100 \<and>
     ec_heartbeatInterval c \<in> {15 * second, 20 * second, 30 * second}"

definition pool_inv :: "int \<Rightarrow> enh_pool \<Rightarrow> bool" where
  "pool_inv maxc p \<longleftrightarrow>
     (\<exists>m. cp_connections p = Some m \<and> map_ok m \<and> cp_currentCount p = int (length m) \<and> int (length m) \<le> maxc \<and>
          (\<forall>c \<in> snd ` set m. conn_ok c)) \<and>
     cp_maxConnections p = maxc \<and> maxc < 2 ^ 31"

lemma penalty_bounds: "0 \<le> rtt_penalty r" "rtt_penalty r \<le> 30" "0 \<le> loss_penalty l t" "loss_penalty l t \<le> 40"
  by (auto simp: rtt_penalty_def loss_penalty_def Let_def)

lemma conn_ok_score: "ec_missedHeartbeats c = 0 \<Longrightarrow> ec_heartbeatInterval c \<in> {15 * second, 20 * second, 30 * second} \<Longrightarrow>
    conn_ok (Enh_updateQualityScore c)"
  using penalty_bounds(1,2) [of "ec_rtt c"] penalty_bounds(3,4) [of "ec_packetLoss c" "ec_totalPackets c"]
  by (simp add: conn_ok_def Enh_updateQualityScore_def Let_def)

lemma conn_ok_records:
  assumes "conn_ok c"
  shows "conn_ok (Enh_RecordActivity now c)" "conn_ok (Enh_RecordRTT rtt c)" "conn_ok (Enh_RecordPacket lost c)"
    "conn_ok (Enh_RecordTraffic now bi bo c)"
proof -
  show "conn_ok (Enh_RecordActivity now c)" "conn_ok (Enh_RecordTraffic now bi bo c)"
    using assms by (simp_all add: conn_ok_def Enh_RecordActivity_def Enh_RecordTraffic_def)
  show "conn_ok (Enh_RecordRTT rtt c)" "conn_ok (Enh_RecordPacket lost c)"
    unfolding Enh_RecordRTT_def Enh_RecordPacket_def
    by (rule conn_ok_score; use assms in \<open>simp add: conn_ok_def Enh_adjustHeartbeatInterval_def Let_def\<close>)+
qed

lemma pool_inv_on_pooled:
  assumes "pool_inv maxc p" "\<And>c. conn_ok c \<Longrightarrow> conn_ok (f c)"
  shows "pool_inv maxc (on_pooled n f p)"
proof (cases "map_of (pool_map p) n")
  case (Some c)
  obtain m where m: "cp_connections p = Some m" "map_ok m" "cp_currentCount p = int (length m)" "int (length m) \<le> maxc"
      "\<forall>c \<in> snd ` set m. conn_ok c" using assms(1) by (auto simp: pool_inv_def)
  have c: "(n, c) \<in> set m" using Some m(1) by (auto simp: pool_map_def dest: map_of_SomeD)
  then have "length (AList.update n (f c) m) = length m" by (intro length_update_old) force
  moreover have "\<forall>x \<in> snd ` set (AList.update n (f c) m). conn_ok x"
    using m(2,5) assms(2) c by (force simp: set_alist_update_eq)
  ultimately show ?thesis using Some m assms(1) by (auto simp: on_pooled_def pool_inv_def)
qed (use assms(1) in \<open>simp add: on_pooled_def\<close>)

lemma pool_inv_add:
  assumes "pool_inv maxc p" "Pool_Add now n cid p = Inr (b, p')"
  shows "pool_inv maxc p'"
proof (cases "add_admitted p")
  case True
  obtain m where m: "cp_connections p = Some m" "map_ok m" "cp_currentCount p = int (length m)" "int (length m) \<le> maxc"
      "\<forall>c \<in> snd ` set m. conn_ok c" "cp_maxConnections p = maxc" "maxc < 2 ^ 31" using assms(1) by (auto simp: pool_inv_def)
  obtain c cnt where p': "p' = p\<lparr> cp_connections := Some (AList.update n c m), cp_currentCount := add32 cnt 1,
        cp_total := add64 (cp_total p) 1, cp_active := add32 cnt 1 \<rparr>" and c: "conn_ok c"
      and cnt: "cnt = (if map_of m n \<noteq> None then add32 (cp_currentCount p) (- 1) else cp_currentCount p)"
    using assms(2) True m(1) by (auto simp: Pool_Add_def add_insert_def conn_ok_def Let_def and_then_eq_Inr_iff)
  have lt: "int (length m) < maxc" using True m by (simp add: add_admitted_def)
  have "add32 cnt 1 = int (length (AList.update n c m)) \<and> int (length (AList.update n c m)) \<le> maxc"
  proof (cases "n \<in> set (keys_of m)")
    case old: True
    then have "map_of m n \<noteq> None" "0 < length m" by (auto simp: map_of_eq_None_iff)
    then show ?thesis using cnt lt m(3,7) old by (simp add: length_update_old)
  next
    case False
    then have "map_of m n = None" by (simp add: map_of_eq_None_iff)
    then show ?thesis using cnt lt m(3,7) False by (simp add: length_update_new)
  qed
  moreover have "\<forall>x \<in> snd ` set (AList.update n c m). conn_ok x" using m(2,5) c by (force simp: set_alist_update_eq)
  ultimately show ?thesis using m p' by (simp add: pool_inv_def)
qed (use assms in \<open>auto simp: Pool_Add_def pool_inv_def\<close>)

lemma pool_inv_drop:
  assumes "pool_inv maxc p"
  shows "pool_inv maxc (drop_conn n p)"
proof (cases "map_of (pool_map p) n = None")
  case False
  obtain m where m: "cp_connections p = Some m" "map_ok m" "cp_currentCount p = int (length m)" "int (length m) \<le> maxc"
      "\<forall>c \<in> snd ` set m. conn_ok c" "cp_maxConnections p = maxc" "maxc < 2 ^ 31" using assms(1) by (auto simp: pool_inv_def)
  have n: "n \<in> set (keys_of m)" using False m(1) by (auto simp: pool_map_def map_of_eq_None_iff)
  have "Suc (length (AList.delete n m)) = length m" using length_delete_old [OF m(2) n] by simp
  then show ?thesis using False m by (auto simp: drop_conn_def pool_inv_def)
qed (use assms in \<open>simp add: drop_conn_def\<close>)

lemma pool_inv_stats:
  "pool_inv maxc p \<Longrightarrow> pool_inv maxc (p\<lparr> cp_timeout := a \<rparr>)" "pool_inv maxc p \<Longrightarrow> pool_inv maxc (p\<lparr> cp_error := a \<rparr>)"
  "pool_inv maxc p \<Longrightarrow> pool_inv maxc (p\<lparr> cp_active := a \<rparr>)"
  by (simp_all add: pool_inv_def)

lemma pool_inv_fold: "(\<And>x p. pool_inv maxc p \<Longrightarrow> pool_inv maxc (f x p)) \<Longrightarrow> pool_inv maxc p \<Longrightarrow> pool_inv maxc (fold f xs p)"
  by (induction xs arbitrary: p) auto

lemma pool_run_inv: "pool_run maxc p \<Longrightarrow> pool_inv maxc p"
proof (induction rule: pool_run.induct)
  case (po_new maxc)
  then show ?case by (simp add: pool_inv_def NewEnhPool_def)
next
  case (po_remove maxc p n)
  then show ?case by (simp add: Pool_Remove_def Let_def pool_inv_drop pool_inv_stats)
next
  case (po_get maxc p now n r p')
  then show ?case by (auto simp: Pool_Get_def Let_def intro!: pool_inv_on_pooled conn_ok_records)
next
  case (po_cleanup maxc p ord now)
  then show ?case unfolding Pool_cleanup_def Let_def
    by (intro pool_inv_fold) (auto simp: pool_inv_drop pool_inv_stats split: verdict.split)
qed (auto intro!: pool_inv_on_pooled conn_ok_records intro: pool_inv_add)

text \<open>
  The pool counts right and never overfills. In every state of an open pool reached by one operation
  after the other, \<open>currentCount\<close> is the number of connections and at most the limit (below \<open>2 ^ 31\<close>), so
  \<open>Add\<close> accepts exactly while the limit is not reached and never panics; every score lies between 30 and
  100 and every heartbeat interval is 15, 20 or 30 seconds. A score below 20 does not occur, so the clean-up
  never removes a connection for its quality, and only idle connections go.
\<close>

theorem pool_counts:
  assumes "pool_run maxc p"
  shows "\<exists>m. cp_connections p = Some m \<and> cp_currentCount p = int (length m) \<and> int (length m) \<le> maxc \<and>
    (\<exists>p'. Pool_Add now n cid p = Inr (int (length m) < maxc, p')) \<and>
    (\<forall>c \<in> snd ` set m. 30 \<le> ec_qualityScore c \<and> ec_qualityScore c \<le> 100 \<and>
       ec_heartbeatInterval c \<in> {15 * second, 20 * second, 30 * second} \<and>
       clean_verdict now p c = (if Enh_IsIdle now (cp_idleTimeout p) c then V_timeout else V_keep))"
proof -
  obtain m where m: "cp_connections p = Some m" "cp_currentCount p = int (length m)" "int (length m) \<le> maxc"
      "\<forall>c \<in> snd ` set m. conn_ok c" "cp_maxConnections p = maxc"
    using pool_run_inv [OF assms] by (auto simp: pool_inv_def)
  moreover have "\<exists>p'. Pool_Add now n cid p = Inr (int (length m) < maxc, p')"
    using m by (simp add: Pool_Add_def add_admitted_def add_insert_def Let_def)
  ultimately show ?thesis by (auto simp: conn_ok_def clean_verdict_def)
qed

theorem pool_counts_witness:
  "\<exists>p m. Pool_Add 0 ''n'' ''n'' (NewEnhPool 1) = Inr (True, p) \<and> cp_connections p = Some m \<and>
     cp_currentCount p = int (length m) \<and> length m = 1"
proof -
  obtain p where p: "Pool_Add 0 ''n'' ''n'' (NewEnhPool 1) = Inr (True, p)"
    by (simp add: Pool_Add_def add_admitted_def add_insert_def NewEnhPool_def Let_def)
  have "pool_run 1 (NewEnhPool 1)" by (rule po_new) simp_all
  then have "pool_run 1 p" by (rule po_add [OF _ p])
  moreover have "\<exists>m. cp_connections p = Some m \<and> length m = 1"
    using p by (auto simp: Pool_Add_def add_admitted_def add_insert_def NewEnhPool_def Let_def)
  ultimately show ?thesis using pool_counts [of 1 p] p by auto
qed

section \<open>What overlap and closing can break\<close>

text \<open>Two calls of \<open>Add\<close> that both test the limit before either inserts put the pool over its limit.\<close>

lemma overlapping_adds_overfill:
  assumes "pool_run maxc p" "add_admitted p" "cp_currentCount p = maxc - 1" "n \<noteq> k"
    and "map_of (pool_map p) n = None" "map_of (pool_map p) k = None" "maxc + 1 < 2 ^ 31"
    and "add_insert t n c1 p = Inr p1" "add_insert u k c2 p1 = Inr p2"
  shows "cp_currentCount p2 = maxc + 1"
proof -
  have inv: "pool_inv maxc p" by (rule pool_run_inv [OF assms(1)])
  obtain m where m: "cp_connections p = Some m" "0 \<le> maxc" using inv by (auto simp: pool_inv_def)
  then show ?thesis using assms(3-9) by (auto simp: add_insert_def Let_def pool_map_def)
qed

text \<open>A closed pool that still admits a connection panics on the nil map.\<close>

lemma add_after_close_panics:
  "Pool_Close p = Inr p' \<Longrightarrow> add_admitted p \<Longrightarrow> Pool_Add now n cid p' = Inl NilMapWrite"
  by (auto simp: Pool_Close_def Pool_Add_def add_admitted_def add_insert_def Let_def split: if_splits)

end
