(* ===== verification/Smart_Cache.thy ===== *)
theory Smart_Cache
  imports Go_Heap Go_Float
begin

text \<open>
  The client's cache: \<open>client/internal/cache/cache.go\<close> and the eviction policies of \<open>eviction.go\<close>. The entries
  of a shard form a doubly linked list in memory, so a shard has a store: an address is a position in the list
  of all entries the shard ever allocated, the first two being the sentinels of the list. MD5, the clock and
  random numbers are arguments. The prefetcher, which only watches hits and misses and loads entries on its own
  account, the display of statistics and the two policy wrappers no constructor of the cache uses are left out.
\<close>

section \<open>Entries and policies\<close>

record centry =
  e_Key :: string
  e_Value :: "byte list"
  e_Size :: int
  e_TTL :: int
  e_CreatedAt :: int
  e_AccessedAt :: int
  e_AccessCount :: int
  e_Compressed :: bool
  e_prev :: "nat option"
  e_next :: "nat option"

definition CacheEntry_IsExpired :: "int \<Rightarrow> centry \<Rightarrow> bool" where
  "CacheEntry_IsExpired now e \<longleftrightarrow> e_TTL e > 0 \<and> now - e_CreatedAt e > e_TTL e"

text \<open>
  A policy holds addresses of entries; the nodes of the LFU heap are pairs of an address and a frequency. The
  map from entries to their nodes holds exactly the nodes of the heap, and a node's index is its position.
\<close>

datatype policy =
    P_LRU
  | P_LFU "(nat \<times> int) list"
  | P_FIFO "nat list"
  | P_Random "nat list"
  | P_Adaptive string "(nat \<times> int) list" "rat list"

definition createEvictionPolicy :: "string \<Rightarrow> policy" where
  "createEvictionPolicy policyName =
     (if policyName = ''lfu'' then P_LFU []
      else if policyName = ''fifo'' then P_FIFO []
      else if policyName = ''random'' then P_Random []
      else if policyName = ''adaptive'' then P_Adaptive ''lru'' [] []
      else P_LRU)"

definition freq_less :: "nat \<times> int \<Rightarrow> nat \<times> int \<Rightarrow> bool" where
  "freq_less x y \<longleftrightarrow> snd x < snd y"

definition heap_Fix :: "('a \<Rightarrow> 'a \<Rightarrow> bool) \<Rightarrow> 'a list \<Rightarrow> nat \<Rightarrow> 'a list" where
  "heap_Fix before xs i =
     (case heap_down before xs i (length xs) of (ys, k) \<Rightarrow> if k > i then ys else heap_up before ys i)"

definition LFU_OnAccess :: "nat \<Rightarrow> centry \<Rightarrow> (nat \<times> int) list \<Rightarrow> (nat \<times> int) list" where
  "LFU_OnAccess a e h =
     (let i = length (takeWhile (\<lambda>x. fst x \<noteq> a) h) in
      if i < length h then heap_Fix freq_less (h[i := (a, e_AccessCount e)]) i else h)"

definition LFU_OnAdd :: "nat \<Rightarrow> centry \<Rightarrow> (nat \<times> int) list \<Rightarrow> (nat \<times> int) list" where
  "LFU_OnAdd a e h = heap_Push freq_less h (a, e_AccessCount e)"

definition LFU_OnEvict :: "(nat \<times> int) list \<Rightarrow> nat option \<times> (nat \<times> int) list" where
  "LFU_OnEvict h = (case heap_Pop freq_less h of Inl _ \<Rightarrow> (None, h) | Inr (x, h') \<Rightarrow> (Some (fst x), h'))"

definition FIFO_OnAdd :: "nat \<Rightarrow> nat list \<Rightarrow> nat list" where
  "FIFO_OnAdd a q = q @ [a]"

definition FIFO_OnEvict :: "nat list \<Rightarrow> nat option \<times> nat list" where
  "FIFO_OnEvict q = (case q of [] \<Rightarrow> (None, q) | a # q' \<Rightarrow> (Some a, q'))"

definition Random_OnAdd :: "nat \<Rightarrow> nat list \<Rightarrow> nat list" where
  "Random_OnAdd a q = q @ [a]"

text \<open>\<open>rnd\<close> is what \<open>rand.Intn\<close> returns for a bound; the last element takes the place of the chosen one.\<close>

definition Random_OnEvict :: "(nat \<Rightarrow> nat) \<Rightarrow> nat list \<Rightarrow> nat option \<times> nat list" where
  "Random_OnEvict rnd q =
     (if q = [] then (None, q)
      else (let i = rnd (length q) in (Some (q ! i), butlast (q[i := last q]))))"

definition OnAccess :: "nat \<Rightarrow> centry \<Rightarrow> policy \<Rightarrow> policy" where
  "OnAccess a e p =
     (case p of
        P_LFU h \<Rightarrow> P_LFU (LFU_OnAccess a e h)
      | P_Adaptive md h rates \<Rightarrow> if md = ''lru'' then p else P_Adaptive md (LFU_OnAccess a e h) rates
      | _ \<Rightarrow> p)"

definition OnAdd :: "nat \<Rightarrow> centry \<Rightarrow> policy \<Rightarrow> policy" where
  "OnAdd a e p =
     (case p of
        P_LRU \<Rightarrow> p
      | P_LFU h \<Rightarrow> P_LFU (LFU_OnAdd a e h)
      | P_FIFO q \<Rightarrow> P_FIFO (FIFO_OnAdd a q)
      | P_Random q \<Rightarrow> P_Random (Random_OnAdd a q)
      | P_Adaptive md h rates \<Rightarrow> if md = ''lru'' then p else P_Adaptive md (LFU_OnAdd a e h) rates)"

definition OnEvict :: "(nat \<Rightarrow> nat) \<Rightarrow> policy \<Rightarrow> nat option \<times> policy" where
  "OnEvict rnd p =
     (case p of
        P_LRU \<Rightarrow> (None, p)
      | P_LFU h \<Rightarrow> (case LFU_OnEvict h of (r, h') \<Rightarrow> (r, P_LFU h'))
      | P_FIFO q \<Rightarrow> (case FIFO_OnEvict q of (r, q') \<Rightarrow> (r, P_FIFO q'))
      | P_Random q \<Rightarrow> (case Random_OnEvict rnd q of (r, q') \<Rightarrow> (r, P_Random q'))
      | P_Adaptive md h rates \<Rightarrow>
          if md = ''lru'' then (None, p)
          else (case LFU_OnEvict h of (r, h') \<Rightarrow> (r, P_Adaptive md h' rates)))"

definition AdaptivePolicy_evaluateStrategy :: "string \<Rightarrow> rat list \<Rightarrow> string" where
  "AdaptivePolicy_evaluateStrategy md rates =
     (let avg = fdiv (fold (\<lambda>r s. fadd s r) rates 0) (float64 (int (length rates)))
      in if avg < fl (6 / 10) \<and> md = ''lru'' then ''lfu''
         else if avg > fl (8 / 10) \<and> md = ''lfu'' then ''lru'' else md)"

definition AdaptivePolicy_UpdateHitRate :: "rat \<Rightarrow> policy \<Rightarrow> policy" where
  "AdaptivePolicy_UpdateHitRate hitRate p =
     (case p of
        P_Adaptive md h rates \<Rightarrow>
          (let rates1 = rates @ [hitRate];
               rates2 = (if length rates1 > 10 then tl rates1 else rates1)
           in P_Adaptive (if length rates2 \<ge> 10 then AdaptivePolicy_evaluateStrategy md rates2 else md) h rates2)
      | _ \<Rightarrow> p)"

section \<open>A shard\<close>

record shard =
  sh_store :: "centry list"
  sh_entries :: "(string \<times> nat) list"
  sh_lruHead :: nat
  sh_lruTail :: nat
  sh_currentSize :: int
  sh_maxSize :: int
  sh_maxEntries :: int
  sh_policy :: policy

definition sentinel :: centry where
  "sentinel = \<lparr> e_Key = [], e_Value = [], e_Size = 0, e_TTL = 0, e_CreatedAt = 0, e_AccessedAt = 0, e_AccessCount = 0,
     e_Compressed = False, e_prev = None, e_next = None \<rparr>"

text \<open>\<open>initLRUList\<close> allocates two fresh sentinels and links them.\<close>

definition initLRUList :: "shard \<Rightarrow> shard" where
  "initLRUList sh =
     (let hd = length (sh_store sh); tl = Suc hd
      in sh\<lparr> sh_store := sh_store sh @ [sentinel\<lparr> e_next := Some tl \<rparr>, sentinel\<lparr> e_prev := Some hd \<rparr>],
             sh_lruHead := hd, sh_lruTail := tl \<rparr>)"

definition new_shard :: "int \<Rightarrow> int \<Rightarrow> policy \<Rightarrow> shard" where
  "new_shard maxSize maxEntries pol =
     initLRUList \<lparr> sh_store = [], sh_entries = [], sh_lruHead = 0, sh_lruTail = 0, sh_currentSize = 0,
       sh_maxSize = maxSize, sh_maxEntries = maxEntries, sh_policy = pol \<rparr>"

definition put :: "nat \<Rightarrow> (centry \<Rightarrow> centry) \<Rightarrow> shard \<Rightarrow> shard" where
  "put a f sh = sh\<lparr> sh_store := (sh_store sh)[a := f (sh_store sh ! a)] \<rparr>"

definition addToFront :: "nat \<Rightarrow> shard \<Rightarrow> shard res" where
  "addToFront a sh =
     (case e_next (sh_store sh ! sh_lruHead sh) of
        None \<Rightarrow> Inl NilDereference
      | Some n \<Rightarrow>
          Inr (put (sh_lruHead sh) (\<lambda>e. e\<lparr> e_next := Some a \<rparr>)
                (put n (\<lambda>e. e\<lparr> e_prev := Some a \<rparr>)
                  (put a (\<lambda>e. e\<lparr> e_next := Some n, e_prev := Some (sh_lruHead sh) \<rparr>) sh))))"

definition removeFromLRU :: "nat \<Rightarrow> shard \<Rightarrow> shard" where
  "removeFromLRU a sh =
     (let nx = e_next (sh_store sh ! a); pv = e_prev (sh_store sh ! a);
          sh1 = (case pv of None \<Rightarrow> sh | Some p \<Rightarrow> put p (\<lambda>e. e\<lparr> e_next := nx \<rparr>) sh);
          sh2 = (case nx of None \<Rightarrow> sh1 | Some n \<Rightarrow> put n (\<lambda>e. e\<lparr> e_prev := pv \<rparr>) sh1)
      in put a (\<lambda>e. e\<lparr> e_prev := None, e_next := None \<rparr>) sh2)"

definition moveToFront :: "nat \<Rightarrow> shard \<Rightarrow> shard res" where
  "moveToFront a sh = addToFront a (removeFromLRU a sh)"

text \<open>
  One round of \<open>evictEntries\<close>; the tail of the list is never nil, so the error for a full cache is not
  reached. \<open>ensure_loop\<close> is the loop of \<open>ensureCapacity\<close> over the size: \<open>None\<close> when it does not end. \<open>rnd k\<close>
  serves the \<open>k\<close>-th eviction; the number of evictions is returned for the statistics.
\<close>

definition evictEntry :: "(nat \<Rightarrow> nat) \<Rightarrow> shard \<Rightarrow> int \<times> shard" where
  "evictEntry rnd sh =
     (case OnEvict rnd (sh_policy sh) of
        (r, pol) \<Rightarrow>
          (let a = (case r of None \<Rightarrow> sh_lruTail sh | Some a \<Rightarrow> a); e = sh_store sh ! a
           in (e_Size e,
               removeFromLRU a (sh\<lparr> sh_policy := pol, sh_entries := AList.delete (e_Key e) (sh_entries sh),
                                    sh_currentSize := sub64 (sh_currentSize sh) (e_Size e) \<rparr>))))"

partial_function (option) ensure_loop ::
    "(nat \<Rightarrow> nat \<Rightarrow> nat) \<Rightarrow> nat \<Rightarrow> int \<Rightarrow> int list \<Rightarrow> shard \<Rightarrow> (int list \<times> shard) option" where
  "ensure_loop rnd k newSize gone sh =
     (if add64 (sh_currentSize sh) newSize > sh_maxSize sh
      then ensure_loop rnd (Suc k) newSize (gone @ [fst (evictEntry (rnd k) sh)]) (snd (evictEntry (rnd k) sh))
      else Some (gone, sh))"

text \<open>The result is the list of the sizes taken out; \<open>Inl ()\<close> reports an entry that is too large.\<close>

definition ensureCapacity ::
    "(nat \<Rightarrow> nat \<Rightarrow> nat) \<Rightarrow> int \<Rightarrow> shard \<Rightarrow> ((unit + int list) \<times> shard) option" where
  "ensureCapacity rnd newSize sh =
     (if newSize > sh_maxSize sh then Some (Inl (), sh)
      else (let (gone, sh1) = (if int (length (sh_entries sh)) \<ge> sh_maxEntries sh
                               then (case evictEntry (rnd 0) sh of (s, sh') \<Rightarrow> ([s], sh')) else ([], sh))
            in map_option (\<lambda>(g, sh2). (Inr g, sh2)) (ensure_loop rnd 1 newSize gone sh1)))"

section \<open>The cache\<close>

record smart_cache =
  sc_DefaultTTL :: int
  sc_EnableCompression :: bool
  sc_shards :: "shard list"
  sc_shardMask :: u64
  sc_hits :: int
  sc_misses :: int
  sc_evictions :: int
  sc_currentSize :: int
  sc_currentCount :: int

definition NewSmartCache :: "int \<Rightarrow> int \<Rightarrow> int \<Rightarrow> string \<Rightarrow> bool \<Rightarrow> int \<Rightarrow> smart_cache" where
  "NewSmartCache maxSize maxEntries defaultTTL evictionPolicy compression shardCount0 =
     (let shardCount = (if shardCount0 \<le> 0 then 16 else shardCount0)
      in \<lparr> sc_DefaultTTL = defaultTTL, sc_EnableCompression = compression,
           sc_shards = replicate (nat shardCount)
             (new_shard (maxSize sdiv shardCount) (maxEntries sdiv shardCount) (createEvictionPolicy evictionPolicy)),
           sc_shardMask = of_int (shardCount - 1), sc_hits = 0, sc_misses = 0, sc_evictions = 0, sc_currentSize = 0,
           sc_currentCount = 0 \<rparr>)"

definition cache_hash :: "(string \<Rightarrow> byte list) \<Rightarrow> string \<Rightarrow> u64" where
  "cache_hash md5 key =
     (let h = md5 key; b = (\<lambda>i. ucast (h ! i) :: u64)
      in push_bit 56 (b 0) OR push_bit 48 (b 1) OR push_bit 40 (b 2) OR push_bit 32 (b 3) OR
         push_bit 24 (b 4) OR push_bit 16 (b 5) OR push_bit 8 (b 6) OR b 7)"

definition getShard :: "(string \<Rightarrow> byte list) \<Rightarrow> smart_cache \<Rightarrow> string \<Rightarrow> nat" where
  "getShard md5 sc key = unat (cache_hash md5 key AND sc_shardMask sc)"

definition on_shard :: "nat \<Rightarrow> shard \<Rightarrow> smart_cache \<Rightarrow> smart_cache" where
  "on_shard i sh sc = sc\<lparr> sc_shards := (sc_shards sc)[i := sh] \<rparr>"

text \<open>\<open>compress\<close> and \<open>decompress\<close> return their argument, so a compressed value is never shorter.\<close>

definition compress :: "byte list \<Rightarrow> byte list" where "compress data = data"
definition decompress :: "byte list \<Rightarrow> byte list" where "decompress data = data"

definition Cache_Delete :: "(string \<Rightarrow> byte list) \<Rightarrow> string \<Rightarrow> smart_cache \<Rightarrow> bool \<times> smart_cache" where
  "Cache_Delete md5 key sc =
     (let i = getShard md5 sc key; sh = sc_shards sc ! i in
      case map_of (sh_entries sh) key of
        None \<Rightarrow> (False, sc)
      | Some a \<Rightarrow>
          (let e = sh_store sh ! a;
               sh' = removeFromLRU a (sh\<lparr> sh_entries := AList.delete key (sh_entries sh),
                                          sh_currentSize := sub64 (sh_currentSize sh) (e_Size e) \<rparr>)
           in (True, (on_shard i sh' sc)\<lparr> sc_currentSize := add64 (sc_currentSize sc) (- e_Size e),
                                          sc_currentCount := add64 (sc_currentCount sc) (- 1) \<rparr>)))"

datatype cache_err = ErrCacheNotFound | ErrCacheExpired

text \<open>\<open>now0\<close> is the clock of the expiry test, \<open>now\<close> that of the access.\<close>

definition Cache_Get ::
    "(string \<Rightarrow> byte list) \<Rightarrow> int \<Rightarrow> int \<Rightarrow> string \<Rightarrow> smart_cache \<Rightarrow> ((cache_err + byte list) \<times> smart_cache) res" where
  "Cache_Get md5 now0 now key sc =
     (let i = getShard md5 sc key; sh = sc_shards sc ! i in
      case map_of (sh_entries sh) key of
        None \<Rightarrow> Inr (Inl ErrCacheNotFound, sc\<lparr> sc_misses := add64 (sc_misses sc) 1 \<rparr>)
      | Some a \<Rightarrow>
          if CacheEntry_IsExpired now0 (sh_store sh ! a)
          then (let sc1 = snd (Cache_Delete md5 key sc)
                in Inr (Inl ErrCacheExpired, sc1\<lparr> sc_misses := add64 (sc_misses sc1) 1 \<rparr>))
          else (let sh1 = put a (\<lambda>e. e\<lparr> e_AccessedAt := now, e_AccessCount := add64 (e_AccessCount e) 1 \<rparr>) sh;
                    e = sh_store sh1 ! a;
                    sh2 = sh1\<lparr> sh_policy := OnAccess a e (sh_policy sh1) \<rparr>
                in and_then (moveToFront a sh2) (\<lambda>sh3.
                     Inr (Inr (if e_Compressed e then decompress (e_Value e) else e_Value e),
                          (on_shard i sh3 sc)\<lparr> sc_hits := add64 (sc_hits sc) 1 \<rparr>))))"

datatype set_err = ErrEmptyValue | ErrTooLarge

text \<open>
  \<open>None\<close> when the call does not return; \<open>now1\<close> and \<open>now2\<close> are the two readings of the clock. On an error of
  \<open>ensureCapacity\<close> the changes made before it stay.
\<close>

definition Cache_Set ::
    "(string \<Rightarrow> byte list) \<Rightarrow> (nat \<Rightarrow> nat \<Rightarrow> nat) \<Rightarrow> int \<Rightarrow> int \<Rightarrow> string \<Rightarrow> byte list \<Rightarrow> int \<Rightarrow> smart_cache
       \<Rightarrow> (set_err option \<times> smart_cache) res option" where
  "Cache_Set md5 rnd now1 now2 key val ttl sc =
     (if val = [] then Some (Inr (Some ErrEmptyValue, sc))
      else
        (let comp = sc_EnableCompression sc \<and> length val > 1024 \<and> length (compress val) < length val;
             finalValue = (if comp then compress val else val);
             entry = \<lparr> e_Key = key, e_Value = finalValue, e_Size = int (length finalValue),
                       e_TTL = (if ttl \<le> 0 then sc_DefaultTTL sc else ttl), e_CreatedAt = now1, e_AccessedAt = now2,
                       e_AccessCount = 1, e_Compressed = comp, e_prev = None, e_next = None \<rparr>;
             i = getShard md5 sc key; sh = sc_shards sc ! i;
             sh1 = (case map_of (sh_entries sh) key of
                      None \<Rightarrow> sh
                    | Some a \<Rightarrow> removeFromLRU a (sh\<lparr> sh_currentSize := sub64 (sh_currentSize sh) (e_Size (sh_store sh ! a)) \<rparr>))
         in case ensureCapacity rnd (e_Size entry) sh1 of
              None \<Rightarrow> None
            | Some (Inl _, sh2) \<Rightarrow> Some (Inr (Some ErrTooLarge, on_shard i sh2 sc))
            | Some (Inr gone, sh2) \<Rightarrow>
                (let a = length (sh_store sh2);
                     sh3 = sh2\<lparr> sh_store := sh_store sh2 @ [entry], sh_entries := AList.update key a (sh_entries sh2),
                                sh_currentSize := add64 (sh_currentSize sh2) (e_Size entry),
                                sh_policy := OnAdd a entry (sh_policy sh2) \<rparr>
                 in Some (and_then (addToFront a sh3) (\<lambda>sh4.
                      Inr (None, (on_shard i sh4 sc)
                        \<lparr> sc_evictions := add64 (sc_evictions sc) (int (length gone)),
                          sc_currentSize := add64 (fold (\<lambda>s t. add64 t (- s)) gone (sc_currentSize sc)) (e_Size entry),
                          sc_currentCount := add64 (add64 (sc_currentCount sc) (- int (length gone))) 1 \<rparr>))))))"

definition Cache_Exists :: "(string \<Rightarrow> byte list) \<Rightarrow> int \<Rightarrow> string \<Rightarrow> smart_cache \<Rightarrow> bool" where
  "Cache_Exists md5 now key sc =
     (let sh = sc_shards sc ! getShard md5 sc key in
      case map_of (sh_entries sh) key of None \<Rightarrow> False | Some a \<Rightarrow> \<not> CacheEntry_IsExpired now (sh_store sh ! a))"

definition clear_shard :: "shard \<Rightarrow> shard" where
  "clear_shard sh = initLRUList (sh\<lparr> sh_entries := [], sh_currentSize := 0 \<rparr>)"

definition Cache_Clear :: "smart_cache \<Rightarrow> smart_cache" where
  "Cache_Clear sc = sc\<lparr> sc_shards := map clear_shard (sc_shards sc), sc_currentSize := 0, sc_currentCount := 0 \<rparr>"

text \<open>The clean-up visits the keys of each shard in the order \<open>ord\<close>; \<open>clk k\<close> is the clock at the test of the
  entry of \<open>k\<close>.\<close>

definition drop_entry :: "string \<Rightarrow> shard \<Rightarrow> shard" where
  "drop_entry key sh =
     (case map_of (sh_entries sh) key of
        None \<Rightarrow> sh
      | Some a \<Rightarrow> removeFromLRU a (sh\<lparr> sh_entries := AList.delete key (sh_entries sh),
                                       sh_currentSize := sub64 (sh_currentSize sh) (e_Size (sh_store sh ! a)) \<rparr>))"

definition expired_keys :: "(string \<Rightarrow> int) \<Rightarrow> string list \<Rightarrow> shard \<Rightarrow> string list" where
  "expired_keys clk ord sh = filter (\<lambda>k. CacheEntry_IsExpired (clk k) (sh_store sh ! the (map_of (sh_entries sh) k))) ord"

definition Cache_cleanup :: "(string \<Rightarrow> int) \<Rightarrow> string list list \<Rightarrow> smart_cache \<Rightarrow> smart_cache" where
  "Cache_cleanup clk ords sc =
     (let ps = zip ords (sc_shards sc)
      in sc\<lparr> sc_shards := map (\<lambda>(ord, sh). fold drop_entry (expired_keys clk ord sh) sh) ps,
             sc_currentCount := add64 (sc_currentCount sc)
               (- sum_list (map (\<lambda>(ord, sh). int (length (expired_keys clk ord sh))) ps)) \<rparr>)"

section \<open>The linked list\<close>

fun linked :: "centry list \<Rightarrow> nat list \<Rightarrow> bool" where
  "linked st (x # y # zs) \<longleftrightarrow> e_next (st ! x) = Some y \<and> e_prev (st ! y) = Some x \<and> linked st (y # zs)"
| "linked st zs \<longleftrightarrow> True"

lemma linked_append: "linked st (xs @ p # ys) \<longleftrightarrow> linked st (xs @ [p]) \<and> linked st (p # ys)"
proof (induction xs)
  case (Cons x xs)
  then show ?case by (cases xs) auto
qed simp

lemma linked_frame:
  assumes "linked st ps" "\<forall>x \<in> set (butlast ps). e_next (st' ! x) = e_next (st ! x)"
    and "\<forall>x \<in> set (tl ps). e_prev (st' ! x) = e_prev (st ! x)"
  shows "linked st' ps"
  using assms by (induction st ps rule: linked.induct) auto

lemma put_store [simp]:
  "length (sh_store (put a f sh)) = length (sh_store sh)" "sh_entries (put a f sh) = sh_entries sh"
  "sh_lruHead (put a f sh) = sh_lruHead sh" "sh_lruTail (put a f sh) = sh_lruTail sh"
  "sh_currentSize (put a f sh) = sh_currentSize sh" "sh_maxSize (put a f sh) = sh_maxSize sh"
  "sh_maxEntries (put a f sh) = sh_maxEntries sh" "sh_policy (put a f sh) = sh_policy sh"
  by (simp_all add: put_def)

lemma put_nth: "b < length (sh_store sh) \<Longrightarrow> sh_store (put a f sh) ! b = (if b = a then f (sh_store sh ! b) else sh_store sh ! b)"
  by (auto simp: put_def nth_list_update)

text \<open>\<open>same_data\<close>: nothing but the links of entries differs.\<close>

definition data_of :: "centry \<Rightarrow> centry" where
  "data_of e = e\<lparr> e_prev := None, e_next := None \<rparr>"

definition same_data :: "shard \<Rightarrow> shard \<Rightarrow> bool" where
  "same_data sh sh' \<longleftrightarrow> length (sh_store sh') = length (sh_store sh) \<and>
     (\<forall>b < length (sh_store sh). data_of (sh_store sh' ! b) = data_of (sh_store sh ! b)) \<and>
     sh_entries sh' = sh_entries sh \<and> sh_lruHead sh' = sh_lruHead sh \<and> sh_lruTail sh' = sh_lruTail sh \<and>
     sh_currentSize sh' = sh_currentSize sh \<and> sh_maxSize sh' = sh_maxSize sh \<and> sh_maxEntries sh' = sh_maxEntries sh \<and>
     sh_policy sh' = sh_policy sh"

lemma same_data_trans: "same_data a b \<Longrightarrow> same_data b c \<Longrightarrow> same_data a c"
  by (auto simp: same_data_def)

lemma same_data_put:
  assumes "\<And>e. data_of (f e) = data_of e"
  shows "same_data sh (put a f sh)"
  using assms by (auto simp: same_data_def put_nth)

lemma data_links [simp]:
  "data_of (e\<lparr> e_prev := p \<rparr>) = data_of e" "data_of (e\<lparr> e_next := n \<rparr>) = data_of e"
  "data_of (e\<lparr> e_prev := p, e_next := n \<rparr>) = data_of e" "data_of (e\<lparr> e_next := n, e_prev := p \<rparr>) = data_of e"
  by (simp_all add: data_of_def)

lemma removeFromLRU_same: "same_data sh (removeFromLRU a sh)"
proof -
  have 1: "same_data sh (case pv of None \<Rightarrow> sh | Some p \<Rightarrow> put p (\<lambda>e. e\<lparr> e_next := nx \<rparr>) sh)" for pv nx and sh :: shard
    by (cases pv) (auto intro: same_data_put simp: same_data_def [of sh sh])
  have 2: "same_data sh (case nx of None \<Rightarrow> sh | Some p \<Rightarrow> put p (\<lambda>e. e\<lparr> e_prev := pv \<rparr>) sh)" for pv nx and sh :: shard
    by (cases nx) (auto intro: same_data_put simp: same_data_def [of sh sh])
  show ?thesis unfolding removeFromLRU_def Let_def
    by (rule same_data_trans [OF same_data_trans [OF 1 2]]) (rule same_data_put, simp)
qed

lemma addToFront_same:
  assumes "addToFront a sh = Inr sh'"
  shows "same_data sh sh'"
proof -
  obtain n where "sh' = put (sh_lruHead sh) (\<lambda>e. e\<lparr> e_next := Some a \<rparr>) (put n (\<lambda>e. e\<lparr> e_prev := Some a \<rparr>)
      (put a (\<lambda>e. e\<lparr> e_next := Some n, e_prev := Some (sh_lruHead sh) \<rparr>) sh))"
    using assms by (auto simp: addToFront_def split: option.splits)
  then show ?thesis
    by (simp only:) (rule same_data_trans [OF same_data_trans]; rule same_data_put; simp)
qed

lemma removeFromLRU_linked:
  assumes l: "linked (sh_store sh) (h # us @ a # vs @ [t])" and d: "distinct (h # us @ a # vs @ [t])"
    and len: "\<forall>x \<in> set (h # us @ a # vs @ [t]). x < length (sh_store sh)"
  shows "linked (sh_store (removeFromLRU a sh)) (h # us @ vs @ [t])"
proof -
  obtain xs p where xs: "h # us = xs @ [p]" by (metis rev_exhaust list.distinct(1))
  obtain q ys where ys: "vs @ [t] = q # ys" by (metis list.exhaust append_is_Nil_conv list.distinct(1))
  have all: "h # us @ a # vs @ [t] = xs @ [p] @ a # q # ys" using xs ys by (metis append_Cons append.assoc)
  have d': "distinct (xs @ [p] @ a # q # ys)" "\<forall>x \<in> set (xs @ [p] @ a # q # ys). x < length (sh_store sh)"
    using d len unfolding all by blast+
  have l': "linked (sh_store sh) (xs @ [p])" "e_next (sh_store sh ! p) = Some a" "e_prev (sh_store sh ! a) = Some p"
      "e_next (sh_store sh ! a) = Some q" "e_prev (sh_store sh ! q) = Some a" "linked (sh_store sh) (q # ys)"
    using l linked_append [of "sh_store sh" xs p "a # q # ys"] unfolding all by auto
  let ?st = "sh_store (removeFromLRU a sh)"
  have new: "e_next (?st ! x) = (if x = p then Some q else e_next (sh_store sh ! x)) \<and>
      e_prev (?st ! x) = (if x = q then Some p else e_prev (sh_store sh ! x))" if "x \<in> set xs \<union> {p, q} \<union> set ys" for x
    using that l'(3,4) d' by (auto simp: removeFromLRU_def Let_def put_nth)
  have "set (butlast (xs @ [p])) = set xs" "set (tl (xs @ [p])) \<subseteq> set xs \<union> {p}" "p \<notin> set xs" "q \<notin> set xs \<union> {p}"
    using d' by (auto dest: list.set_sel(2) [rotated])
  then have "linked ?st (xs @ [p])" using new by (intro linked_frame [OF l'(1)]) auto
  moreover have "set (butlast (q # ys)) \<subseteq> {q} \<union> set ys" "set (tl (q # ys)) = set ys" "p \<notin> {q} \<union> set ys" "q \<notin> set ys"
    using d' by (auto dest: in_set_butlastD split: if_splits)
  then have "linked ?st (q # ys)" using new by (intro linked_frame [OF l'(6)]) auto
  ultimately have "linked ?st (xs @ p # q # ys)"
    using d' new by (subst linked_append) simp
  then show ?thesis using xs ys by (metis append_Cons append.assoc append_Nil)
qed

lemma addToFront_linked:
  assumes l: "linked (sh_store sh) (h # as @ [t])" and d: "distinct (h # a # as @ [t])" and h: "sh_lruHead sh = h"
    and len: "\<forall>x \<in> set (h # a # as @ [t]). x < length (sh_store sh)"
  shows "\<exists>sh'. addToFront a sh = Inr sh' \<and> linked (sh_store sh') (h # a # as @ [t])"
proof -
  obtain q ys where ys: "as @ [t] = q # ys" by (metis list.exhaust append_is_Nil_conv list.distinct(1))
  have l': "e_next (sh_store sh ! h) = Some q" "linked (sh_store sh) (q # ys)" using l by (auto simp: ys)
  have d': "distinct (h # a # q # ys)" "\<forall>x \<in> set (h # a # q # ys). x < length (sh_store sh)" using d len by (auto simp: ys)
  define sh' where "sh' = put h (\<lambda>e. e\<lparr> e_next := Some a \<rparr>) (put q (\<lambda>e. e\<lparr> e_prev := Some a \<rparr>)
      (put a (\<lambda>e. e\<lparr> e_next := Some q, e_prev := Some h \<rparr>) sh))"
  have "linked (sh_store sh') (q # ys)"
    by (rule linked_frame [OF l'(2)]) (use d' in \<open>auto simp: sh'_def put_nth dest: in_set_butlastD\<close>)
  then have "linked (sh_store sh') (h # a # q # ys)" using d' by (simp add: sh'_def put_nth)
  then show ?thesis using l'(1) h by (simp add: addToFront_def sh'_def ys)
qed

section \<open>The invariant of a shard\<close>

definition shard_list :: "shard \<Rightarrow> nat list \<Rightarrow> bool" where
  "shard_list sh as \<longleftrightarrow>
     (let ps = sh_lruHead sh # as @ [sh_lruTail sh]
      in linked (sh_store sh) ps \<and> distinct ps \<and> (\<forall>x \<in> set ps. x < length (sh_store sh)))"

definition entry_ok :: "string \<Rightarrow> centry \<Rightarrow> bool" where
  "entry_ok k e \<longleftrightarrow> e_Key e = k \<and> e_Size e = int (length (e_Value e)) \<and> \<not> e_Compressed e"

definition total_size :: "centry list \<Rightarrow> (string \<times> nat) list \<Rightarrow> int" where
  "total_size st m = sum_list (map (\<lambda>x. e_Size (st ! snd x)) m)"

definition shard_inv :: "shard \<Rightarrow> bool" where
  "shard_inv sh \<longleftrightarrow>
     map_ok (sh_entries sh) \<and>
     (\<exists>as. shard_list sh as \<and> set as = snd ` set (sh_entries sh)) \<and>
     (\<forall>x \<in> set (sh_entries sh). entry_ok (fst x) (sh_store sh ! snd x)) \<and>
     sh_currentSize sh = total_size (sh_store sh) (sh_entries sh) \<and>
     sh_currentSize sh \<le> sh_maxSize sh \<and> sh_maxSize sh < 2 ^ 63"

text \<open>What a shard stores under a key: the value, the time it was set and its time to live.\<close>

definition shard_abs :: "shard \<Rightarrow> string \<Rightarrow> (byte list \<times> int \<times> int) option" where
  "shard_abs sh k =
     map_option (\<lambda>a. (e_Value (sh_store sh ! a), e_CreatedAt (sh_store sh ! a), e_TTL (sh_store sh ! a)))
       (map_of (sh_entries sh) k)"

lemma data_fields:
  assumes "data_of e' = data_of e"
  shows "e_Key e' = e_Key e" "e_Value e' = e_Value e" "e_Size e' = e_Size e" "e_TTL e' = e_TTL e"
    "e_CreatedAt e' = e_CreatedAt e" "e_Compressed e' = e_Compressed e"
proof -
  have "e_Key (data_of x) = e_Key x" "e_Value (data_of x) = e_Value x" "e_Size (data_of x) = e_Size x" "e_TTL (data_of x) = e_TTL x"
    "e_CreatedAt (data_of x) = e_CreatedAt x" "e_Compressed (data_of x) = e_Compressed x" for x
    by (simp_all add: data_of_def)
  then show "e_Key e' = e_Key e" "e_Value e' = e_Value e" "e_Size e' = e_Size e" "e_TTL e' = e_TTL e"
    "e_CreatedAt e' = e_CreatedAt e" "e_Compressed e' = e_Compressed e" using assms by metis+
qed

lemma shard_inv_list:
  assumes "shard_inv sh"
  obtains as where "shard_list sh as" "set as = snd ` set (sh_entries sh)"
  using assms by (auto simp: shard_inv_def)

lemma entry_addr:
  assumes "shard_inv sh" "(k, a) \<in> set (sh_entries sh)"
  shows "a < length (sh_store sh)" "entry_ok k (sh_store sh ! a)"
proof -
  obtain as where "shard_list sh as" "set as = snd ` set (sh_entries sh)" using shard_inv_list [OF assms(1)] .
  then show "a < length (sh_store sh)" using assms(2) by (force simp: shard_list_def Let_def)
  show "entry_ok k (sh_store sh ! a)" using assms by (auto simp: shard_inv_def)
qed

lemma same_data_inv:
  assumes "shard_inv sh" "same_data sh sh'" "shard_list sh' as" "set as = snd ` set (sh_entries sh')"
  shows "shard_inv sh' \<and> shard_abs sh' = shard_abs sh"
proof -
  have e: "sh_entries sh' = sh_entries sh" "sh_currentSize sh' = sh_currentSize sh" "sh_maxSize sh' = sh_maxSize sh"
    using assms(2) by (simp_all add: same_data_def)
  have d: "data_of (sh_store sh' ! snd x) = data_of (sh_store sh ! snd x)" if "x \<in> set (sh_entries sh)" for x
    using assms(2) entry_addr(1) [OF assms(1), of "fst x" "snd x"] that by (simp add: same_data_def)
  have t: "total_size (sh_store sh') (sh_entries sh) = total_size (sh_store sh) (sh_entries sh)"
    unfolding total_size_def by (rule arg_cong [of _ _ sum_list], rule map_cong [OF refl]) (rule data_fields(3) [OF d])
  have ok: "\<forall>x \<in> set (sh_entries sh). entry_ok (fst x) (sh_store sh' ! snd x)"
  proof
    fix x assume x: "x \<in> set (sh_entries sh)"
    then have "entry_ok (fst x) (sh_store sh ! snd x)" using assms(1) by (simp add: shard_inv_def)
    then show "entry_ok (fst x) (sh_store sh' ! snd x)" unfolding entry_ok_def using data_fields [OF d [OF x]] by simp
  qed
  have "shard_abs sh' k = shard_abs sh k" for k
  proof (cases "map_of (sh_entries sh) k")
    case (Some a)
    then have "data_of (sh_store sh' ! a) = data_of (sh_store sh ! a)" using d [of "(k, a)"] by (simp add: map_of_SomeD)
    from data_fields [OF this] show ?thesis using Some by (simp add: shard_abs_def e)
  qed (simp add: shard_abs_def e)
  moreover have "\<exists>as. shard_list sh' as \<and> set as = snd ` set (sh_entries sh)"
    by (intro exI [of _ as] conjI) (use assms(3,4) in \<open>simp_all add: e\<close>)
  moreover have "map_ok (sh_entries sh)" "sh_currentSize sh = total_size (sh_store sh) (sh_entries sh)"
      "sh_currentSize sh \<le> sh_maxSize sh" "sh_maxSize sh < 2 ^ 63"
    using assms(1) unfolding shard_inv_def by blast+
  ultimately show ?thesis using t ok unfolding shard_inv_def e by (intro conjI ext) simp_all
qed

lemma unlink:
  assumes "shard_list sh as" "a \<in> set as"
  shows "shard_list (removeFromLRU a sh) (remove1 a as)"
proof -
  obtain us vs where as: "as = us @ a # vs" "a \<notin> set us" using assms(2) by (metis split_list_first)
  then have r: "remove1 a as = us @ vs" by (simp add: remove1_append)
  have same: "same_data sh (removeFromLRU a sh)" by (rule removeFromLRU_same)
  have "linked (sh_store (removeFromLRU a sh)) (sh_lruHead sh # us @ vs @ [sh_lruTail sh])"
    using assms(1) by (intro removeFromLRU_linked) (auto simp: shard_list_def Let_def as)
  then show ?thesis using assms(1) same unfolding r by (auto simp: shard_list_def Let_def as same_data_def)
qed

lemma link_front:
  assumes "shard_list sh as" "a \<notin> set (sh_lruHead sh # as @ [sh_lruTail sh])" "a < length (sh_store sh)"
  shows "\<exists>sh'. addToFront a sh = Inr sh' \<and> shard_list sh' (a # as)"
proof -
  have "\<exists>sh'. addToFront a sh = Inr sh' \<and> linked (sh_store sh') (sh_lruHead sh # a # as @ [sh_lruTail sh])"
    using assms by (intro addToFront_linked) (auto simp: shard_list_def Let_def)
  then obtain sh' where sh': "addToFront a sh = Inr sh'" "linked (sh_store sh') (sh_lruHead sh # a # as @ [sh_lruTail sh])" by blast
  then show ?thesis using addToFront_same [OF sh'(1)] assms by (auto simp: shard_list_def Let_def same_data_def)
qed

text \<open>An access moves the entry to the front of the list.\<close>

lemma moveToFront_inv:
  assumes "shard_inv sh" "a \<in> snd ` set (sh_entries sh)"
  shows "\<exists>sh'. moveToFront a sh = Inr sh' \<and> shard_inv sh' \<and> shard_abs sh' = shard_abs sh \<and> sh_maxSize sh' = sh_maxSize sh"
proof -
  obtain as where as: "shard_list sh as" "set as = snd ` set (sh_entries sh)" using shard_inv_list [OF assms(1)] .
  let ?r = "removeFromLRU a sh"
  have same: "same_data sh ?r" by (rule removeFromLRU_same)
  have r: "shard_list ?r (remove1 a as)" using unlink [OF as(1)] assms(2) as(2) by simp
  have da: "distinct (sh_lruHead sh # as @ [sh_lruTail sh])" using as(1) by (simp add: shard_list_def Let_def)
  have aas: "a \<in> set as" using assms(2) as(2) by simp
  have "a < length (sh_store ?r)" using as aas same by (auto simp: shard_list_def Let_def same_data_def)
  moreover have "a \<notin> set (sh_lruHead ?r # remove1 a as @ [sh_lruTail ?r])"
    using da aas same by (auto simp: same_data_def)
  ultimately obtain sh' where sh': "addToFront a ?r = Inr sh'" "shard_list sh' (a # remove1 a as)"
    using link_front [OF r] by blast
  have same': "same_data sh sh'" using same_data_trans [OF same addToFront_same [OF sh'(1)]] .
  have "set (a # remove1 a as) = snd ` set (sh_entries sh')"
    using da aas as(2) same' by (auto simp: same_data_def set_remove1_eq)
  then have "shard_inv sh' \<and> shard_abs sh' = shard_abs sh" by (rule same_data_inv [OF assms(1) same' sh'(2)])
  then show ?thesis using sh'(1) same' by (simp add: moveToFront_def same_data_def)
qed

lemma total_delete:
  assumes "map_ok m" "map_of m k = Some a"
  shows "total_size st m = e_Size (st ! a) + total_size st (AList.delete k m)"
  using assms
proof (induction m)
  case (Cons x m)
  show ?case
  proof (cases "fst x = k")
    case True
    then have "k \<notin> set (keys_of m)" using Cons.prems(1) by auto
    then show ?thesis using True Cons.prems(2) by (cases x) (simp add: total_size_def delete_idem)
  qed (use Cons in \<open>cases x, simp add: total_size_def\<close>)
qed simp

lemma total_update:
  assumes "map_ok m"
  shows "total_size st (AList.update k a m) = e_Size (st ! a) + total_size st (AList.delete k m)"
  using assms
proof (induction m)
  case (Cons x m)
  show ?case
  proof (cases "fst x = k")
    case True
    then have "k \<notin> set (keys_of m)" using Cons.prems by auto
    then show ?thesis using True by (cases x) (simp add: total_size_def delete_idem)
  qed (use Cons in \<open>cases x, simp add: total_size_def\<close>)
qed (simp add: total_size_def)

lemma total_nonneg:
  assumes "\<forall>x \<in> set m. entry_ok (fst x) (st ! snd x)"
  shows "0 \<le> total_size st m"
  using assms unfolding total_size_def by (intro sum_list_nonneg) (auto simp: entry_ok_def)

text \<open>The invariant without the list.\<close>

definition shard_data :: "shard \<Rightarrow> bool" where
  "shard_data sh \<longleftrightarrow>
     map_ok (sh_entries sh) \<and>
     (\<forall>x \<in> set (sh_entries sh). snd x < length (sh_store sh) \<and> entry_ok (fst x) (sh_store sh ! snd x)) \<and>
     sh_currentSize sh = total_size (sh_store sh) (sh_entries sh) \<and>
     sh_currentSize sh \<le> sh_maxSize sh \<and> sh_maxSize sh < 2 ^ 63"

lemma shard_inv_iff:
  "shard_inv sh \<longleftrightarrow> shard_data sh \<and> (\<exists>as. shard_list sh as \<and> set as = snd ` set (sh_entries sh))"
proof -
  have "snd x < length (sh_store sh)" if "shard_inv sh" "x \<in> set (sh_entries sh)" for x
    using entry_addr(1) [OF that(1), of "fst x" "snd x"] that(2) by simp
  then show ?thesis unfolding shard_inv_def shard_data_def by blast
qed

lemma shard_dataD:
  assumes "shard_data sh"
  shows "map_ok (sh_entries sh)" "\<And>k a. (k, a) \<in> set (sh_entries sh) \<Longrightarrow> a < length (sh_store sh) \<and> entry_ok k (sh_store sh ! a)"
    "sh_currentSize sh = total_size (sh_store sh) (sh_entries sh)" "sh_currentSize sh \<le> sh_maxSize sh" "sh_maxSize sh < 2 ^ 63"
  using assms unfolding shard_data_def by fastforce+

lemma total_delete_bounds:
  assumes "shard_data sh" "map_of (sh_entries sh) k = Some a"
  shows "sub64 (sh_currentSize sh) (e_Size (sh_store sh ! a)) = total_size (sh_store sh) (AList.delete k (sh_entries sh))"
    and "0 \<le> total_size (sh_store sh) (AList.delete k (sh_entries sh))"
    and "total_size (sh_store sh) (AList.delete k (sh_entries sh)) \<le> sh_currentSize sh"
proof -
  note d = shard_dataD [OF assms(1)]
  have t: "sh_currentSize sh = e_Size (sh_store sh ! a) + total_size (sh_store sh) (AList.delete k (sh_entries sh))"
    using total_delete [OF d(1) assms(2)] d(3) by simp
  have "entry_ok k (sh_store sh ! a)" using d(2) map_of_SomeD [OF assms(2)] by blast
  then have s: "0 \<le> e_Size (sh_store sh ! a)" by (simp add: entry_ok_def)
  show n: "0 \<le> total_size (sh_store sh) (AList.delete k (sh_entries sh))"
    by (rule total_nonneg) (use assms(1) in \<open>auto simp: shard_data_def\<close>)
  then show "total_size (sh_store sh) (AList.delete k (sh_entries sh)) \<le> sh_currentSize sh" using t s by simp
  show "sub64 (sh_currentSize sh) (e_Size (sh_store sh ! a)) = total_size (sh_store sh) (AList.delete k (sh_entries sh))"
    using t n s d(4,5) by simp
qed

lemma shard_data_delete:
  assumes "shard_data sh" "map_of (sh_entries sh) k = Some a"
  shows "shard_data (sh\<lparr> sh_entries := AList.delete k (sh_entries sh),
    sh_currentSize := sub64 (sh_currentSize sh) (e_Size (sh_store sh ! a)) \<rparr>)"
  using assms(1) total_delete_bounds [OF assms] unfolding shard_data_def by simp

lemma same_data_data:
  assumes "shard_data sh" "same_data sh sh'"
  shows "shard_data sh'" "shard_abs sh' = shard_abs sh"
proof -
  have e: "sh_entries sh' = sh_entries sh" "sh_currentSize sh' = sh_currentSize sh" "sh_maxSize sh' = sh_maxSize sh"
      "length (sh_store sh') = length (sh_store sh)"
    using assms(2) by (simp_all add: same_data_def)
  have d: "data_of (sh_store sh' ! snd x) = data_of (sh_store sh ! snd x)" if "x \<in> set (sh_entries sh)" for x
    using assms that by (simp add: shard_data_def same_data_def)
  have t: "total_size (sh_store sh') (sh_entries sh) = total_size (sh_store sh) (sh_entries sh)"
    unfolding total_size_def by (rule arg_cong [of _ _ sum_list], rule map_cong [OF refl]) (rule data_fields(3) [OF d])
  have "entry_ok (fst x) (sh_store sh' ! snd x) = entry_ok (fst x) (sh_store sh ! snd x)" if "x \<in> set (sh_entries sh)" for x
    unfolding entry_ok_def using data_fields [OF d [OF that]] by simp
  then show "shard_data sh'" using assms(1) t unfolding shard_data_def e by simp
  show "shard_abs sh' = shard_abs sh"
  proof
    fix k show "shard_abs sh' k = shard_abs sh k"
    proof (cases "map_of (sh_entries sh) k")
      case (Some a)
      then have "data_of (sh_store sh' ! a) = data_of (sh_store sh ! a)" using d [of "(k, a)"] by (simp add: map_of_SomeD)
      from data_fields [OF this] show ?thesis using Some by (simp add: shard_abs_def e)
    qed (simp add: shard_abs_def e)
  qed
qed

lemma addr_unique:
  assumes "shard_data sh" "(k, a) \<in> set (sh_entries sh)" "(k', a) \<in> set (sh_entries sh)"
  shows "k' = k"
  using shard_dataD(2) [OF assms(1,2)] shard_dataD(2) [OF assms(1,3)] by (simp add: entry_ok_def)

lemma delete_addrs:
  assumes "shard_data sh" "map_of (sh_entries sh) k = Some a"
  shows "snd ` set (AList.delete k (sh_entries sh)) = snd ` set (sh_entries sh) - {a}"
proof -
  note ka = map_of_SomeD [OF assms(2)]
  have "map_ok (sh_entries sh)" by (rule shard_dataD(1) [OF assms(1)])
  then have uk: "b = a" if "(k, b) \<in> set (sh_entries sh)" for b using that ka by (metis eq_key_imp_eq_value)
  show ?thesis
  proof (intro set_eqI iffI)
    fix b assume "b \<in> snd ` set (AList.delete k (sh_entries sh))"
    then obtain k' where k': "(k', b) \<in> set (sh_entries sh)" "k' \<noteq> k" by auto
    then have "b \<noteq> a" using addr_unique [OF assms(1) ka] by blast
    then show "b \<in> snd ` set (sh_entries sh) - {a}" using k'(1) by force
  next
    fix b assume "b \<in> snd ` set (sh_entries sh) - {a}"
    then obtain k' where k': "(k', b) \<in> set (sh_entries sh)" "b \<noteq> a" by auto
    then have "k' \<noteq> k" using uk by blast
    then have "(k', b) \<in> set (AList.delete k (sh_entries sh))" using k'(1) by simp
    then show "b \<in> snd ` set (AList.delete k (sh_entries sh))" by (metis snd_conv image_eqI)
  qed
qed

lemma drop_entry_inv:
  assumes "shard_inv sh"
  shows "shard_inv (drop_entry k sh) \<and> shard_abs (drop_entry k sh) = (shard_abs sh)(k := None) \<and>
    sh_maxSize (drop_entry k sh) = sh_maxSize sh"
proof (cases "map_of (sh_entries sh) k")
  case None
  then show ?thesis using assms by (auto simp: drop_entry_def shard_abs_def)
next
  case (Some a)
  let ?sh = "sh\<lparr> sh_entries := AList.delete k (sh_entries sh), sh_currentSize := sub64 (sh_currentSize sh) (e_Size (sh_store sh ! a)) \<rparr>"
  have data: "shard_data sh" using assms by (simp add: shard_inv_iff)
  obtain as where as: "shard_list sh as" "set as = snd ` set (sh_entries sh)" using shard_inv_list [OF assms] .
  have "shard_list ?sh as" using as(1) by (simp add: shard_list_def)
  moreover have a: "a \<in> set as" using as(2) map_of_SomeD [OF Some] by force
  ultimately have l: "shard_list (removeFromLRU a ?sh) (remove1 a as)" by (rule unlink)
  have same: "same_data ?sh (removeFromLRU a ?sh)" by (rule removeFromLRU_same)
  note dd = same_data_data [OF shard_data_delete [OF data Some] same]
  have "distinct as" using as(1) by (simp add: shard_list_def Let_def)
  then have "set (remove1 a as) = snd ` set (sh_entries (removeFromLRU a ?sh))"
    using same delete_addrs [OF data Some] as(2) by (simp add: same_data_def)
  then have "shard_inv (removeFromLRU a ?sh)" unfolding shard_inv_iff using dd(1) l by blast
  moreover have "shard_abs ?sh = (shard_abs sh)(k := None)" by (auto simp: shard_abs_def)
  moreover have "sh_maxSize (removeFromLRU a ?sh) = sh_maxSize sh" using same by (simp add: same_data_def)
  moreover have "drop_entry k sh = removeFromLRU a ?sh" using Some by (simp add: drop_entry_def)
  ultimately show ?thesis using dd(2) by simp
qed

text \<open>A new entry in a shard from which the old entry of the key is taken out.\<close>

lemma insert_inv:
  fixes pol :: policy
  assumes inv: "shard_inv (sh\<lparr> sh_entries := AList.delete k (sh_entries sh) \<rparr>)" and ok: "map_ok (sh_entries sh)"
    and e: "entry_ok k e" and room: "sh_currentSize sh + e_Size e \<le> sh_maxSize sh"
  defines "sh' \<equiv> sh\<lparr> sh_store := sh_store sh @ [e], sh_entries := AList.update k (length (sh_store sh)) (sh_entries sh),
    sh_currentSize := add64 (sh_currentSize sh) (e_Size e), sh_policy := pol \<rparr>"
  shows "\<exists>sh4. addToFront (length (sh_store sh)) sh' = Inr sh4 \<and> shard_inv sh4 \<and>
    shard_abs sh4 = (shard_abs sh)(k \<mapsto> (e_Value e, e_CreatedAt e, e_TTL e)) \<and> sh_maxSize sh4 = sh_maxSize sh"
proof -
  let ?d = "sh\<lparr> sh_entries := AList.delete k (sh_entries sh) \<rparr>" and ?a = "length (sh_store sh)"
  have data: "shard_data ?d" using inv by (simp add: shard_inv_iff)
  note dd = shard_dataD [OF data, simplified]
  obtain as where as: "shard_list ?d as" "set as = snd ` set (AList.delete k (sh_entries sh))"
    using shard_inv_list [OF inv] by auto
  have lt: "\<forall>x \<in> set (sh_lruHead sh # as @ [sh_lruTail sh]). x < ?a" using as(1) by (simp add: shard_list_def Let_def)
  have pos: "0 < length (as @ [sh_lruTail sh])" by simp
  have "linked (sh_store sh @ [e]) (sh_lruHead sh # as @ [sh_lruTail sh])"
  proof (rule linked_frame [of "sh_store sh"])
    show "linked (sh_store sh) (sh_lruHead sh # as @ [sh_lruTail sh])" using as(1) by (simp add: shard_list_def Let_def)
    show "\<forall>x \<in> set (butlast (sh_lruHead sh # as @ [sh_lruTail sh])). e_next ((sh_store sh @ [e]) ! x) = e_next (sh_store sh ! x)"
      using lt in_set_butlastD by (metis nth_append)
    show "\<forall>x \<in> set (tl (sh_lruHead sh # as @ [sh_lruTail sh])). e_prev ((sh_store sh @ [e]) ! x) = e_prev (sh_store sh ! x)"
      using lt by (simp add: nth_append)
  qed
  then have "shard_list sh' as" using as(1) lt by (auto simp: shard_list_def Let_def sh'_def)
  moreover have "?a \<notin> set (sh_lruHead sh' # as @ [sh_lruTail sh'])" using lt by (auto simp: sh'_def)
  ultimately obtain sh4 where sh4: "addToFront ?a sh' = Inr sh4" "shard_list sh4 (?a # as)"
    using link_front [of sh' as ?a] by (auto simp: sh'_def)
  have same: "same_data sh' sh4" by (rule addToFront_same [OF sh4(1)])
  have ents: "set (sh_entries sh') = insert (k, ?a) (set (AList.delete k (sh_entries sh)))"
    using ok by (auto simp: sh'_def set_alist_update_eq)
  have old: "e_Size ((sh_store sh @ [e]) ! snd x) = e_Size (sh_store sh ! snd x)" if "x \<in> set (AList.delete k (sh_entries sh))" for x
    using dd(2) [of "fst x" "snd x"] that by (auto simp: nth_append)
  have "total_size (sh_store sh @ [e]) (AList.delete k (sh_entries sh)) = total_size (sh_store sh) (AList.delete k (sh_entries sh))"
    unfolding total_size_def by (rule arg_cong [of _ _ sum_list], rule map_cong [OF refl]) (rule old)
  then have tot: "total_size (sh_store sh') (sh_entries sh') = e_Size e + sh_currentSize sh"
    using total_update [OF ok, of "sh_store sh @ [e]" k ?a] dd(3) by (simp add: sh'_def)
  have nn: "0 \<le> sh_currentSize sh" unfolding dd(3)
    by (rule total_nonneg) (use data in \<open>auto simp: shard_data_def\<close>)
  have cur: "sh_currentSize sh' = e_Size e + sh_currentSize sh"
    using nn room e dd(5) by (simp add: sh'_def entry_ok_def add.commute)
  have "snd x < length (sh_store sh') \<and> entry_ok (fst x) (sh_store sh' ! snd x)" if "x \<in> set (sh_entries sh')" for x
    using that dd(2) [of "fst x" "snd x"] e unfolding ents by (auto simp: sh'_def nth_append)
  then have "shard_data sh'"
    unfolding shard_data_def using tot cur room dd(5) ok by (simp add: sh'_def add.commute)
  note d4 = same_data_data [OF this same]
  have "set (?a # as) = snd ` set (sh_entries sh4)" using same ents as(2) by (simp add: same_data_def)
  then have "shard_inv sh4" unfolding shard_inv_iff using d4(1) sh4(2) by blast
  moreover have "shard_abs sh' = (shard_abs sh)(k \<mapsto> (e_Value e, e_CreatedAt e, e_TTL e))"
  proof
    fix j show "shard_abs sh' j = ((shard_abs sh)(k \<mapsto> (e_Value e, e_CreatedAt e, e_TTL e))) j"
    proof (cases "j = k \<or> map_of (sh_entries sh) j = None")
      case False
      then obtain b where b: "map_of (sh_entries sh) j = Some b" by auto
      then have "(j, b) \<in> set (AList.delete k (sh_entries sh))" using False by (auto dest: map_of_SomeD)
      then have "b < ?a" using dd(2) [of j b] by simp
      then show ?thesis using False b by (simp add: shard_abs_def sh'_def nth_append)
    qed (auto simp: shard_abs_def sh'_def)
  qed
  moreover have "sh_maxSize sh4 = sh_maxSize sh" using same by (simp add: same_data_def sh'_def)
  ultimately show ?thesis using sh4(1) d4(2) by simp
qed

lemma access_fields:
  "e_Key ((st[a := (st ! a)\<lparr> e_AccessedAt := t, e_AccessCount := c \<rparr>]) ! b) = e_Key (st ! b)"
  "e_Value ((st[a := (st ! a)\<lparr> e_AccessedAt := t, e_AccessCount := c \<rparr>]) ! b) = e_Value (st ! b)"
  "e_Size ((st[a := (st ! a)\<lparr> e_AccessedAt := t, e_AccessCount := c \<rparr>]) ! b) = e_Size (st ! b)"
  "e_TTL ((st[a := (st ! a)\<lparr> e_AccessedAt := t, e_AccessCount := c \<rparr>]) ! b) = e_TTL (st ! b)"
  "e_CreatedAt ((st[a := (st ! a)\<lparr> e_AccessedAt := t, e_AccessCount := c \<rparr>]) ! b) = e_CreatedAt (st ! b)"
  "e_Compressed ((st[a := (st ! a)\<lparr> e_AccessedAt := t, e_AccessCount := c \<rparr>]) ! b) = e_Compressed (st ! b)"
  "e_next ((st[a := (st ! a)\<lparr> e_AccessedAt := t, e_AccessCount := c \<rparr>]) ! b) = e_next (st ! b)"
  "e_prev ((st[a := (st ! a)\<lparr> e_AccessedAt := t, e_AccessCount := c \<rparr>]) ! b) = e_prev (st ! b)"
proof -
  have "(st[a := e]) ! b = (if b = a \<and> a < length st then e else st ! b)" for e
    by (cases "a < length st") (auto simp: nth_list_update list_update_beyond)
  then show "e_Key ((st[a := (st ! a)\<lparr> e_AccessedAt := t, e_AccessCount := c \<rparr>]) ! b) = e_Key (st ! b)"
  "e_Value ((st[a := (st ! a)\<lparr> e_AccessedAt := t, e_AccessCount := c \<rparr>]) ! b) = e_Value (st ! b)"
  "e_Size ((st[a := (st ! a)\<lparr> e_AccessedAt := t, e_AccessCount := c \<rparr>]) ! b) = e_Size (st ! b)"
  "e_TTL ((st[a := (st ! a)\<lparr> e_AccessedAt := t, e_AccessCount := c \<rparr>]) ! b) = e_TTL (st ! b)"
  "e_CreatedAt ((st[a := (st ! a)\<lparr> e_AccessedAt := t, e_AccessCount := c \<rparr>]) ! b) = e_CreatedAt (st ! b)"
  "e_Compressed ((st[a := (st ! a)\<lparr> e_AccessedAt := t, e_AccessCount := c \<rparr>]) ! b) = e_Compressed (st ! b)"
  "e_next ((st[a := (st ! a)\<lparr> e_AccessedAt := t, e_AccessCount := c \<rparr>]) ! b) = e_next (st ! b)"
  "e_prev ((st[a := (st ! a)\<lparr> e_AccessedAt := t, e_AccessCount := c \<rparr>]) ! b) = e_prev (st ! b)"
    by simp_all
qed

lemma access_inv:
  fixes a :: nat and t :: int
  assumes "shard_inv sh"
  defines "sh' \<equiv> (put a (\<lambda>e. e\<lparr> e_AccessedAt := t, e_AccessCount := add64 (e_AccessCount e) 1 \<rparr>) sh)"
  shows "shard_inv (sh'\<lparr> sh_policy := pol \<rparr>) \<and> shard_abs (sh'\<lparr> sh_policy := pol \<rparr>) = shard_abs sh"
proof -
  obtain as where as: "shard_list sh as" "set as = snd ` set (sh_entries sh)" using shard_inv_list [OF assms(1)] .
  have "linked (sh_store sh') ps = linked (sh_store sh) ps" for ps
    by (rule iffI; erule linked_frame) (simp_all add: sh'_def put_def access_fields)
  then have "shard_list (sh'\<lparr> sh_policy := pol \<rparr>) as" using as(1) by (simp add: shard_list_def sh'_def)
  then have "\<exists>as. shard_list (sh'\<lparr> sh_policy := pol \<rparr>) as \<and> set as = snd ` set (sh_entries sh)" using as(2) by blast
  then show ?thesis using assms(1)
    by (auto simp: shard_inv_def shard_abs_def sh'_def put_def access_fields entry_ok_def total_size_def fun_eq_iff)
qed

lemma initLRUList_inv:
  assumes "0 \<le> sh_maxSize sh" "sh_maxSize sh < 2 ^ 63"
  shows "shard_inv (initLRUList (sh\<lparr> sh_entries := [], sh_currentSize := 0 \<rparr>))"
    and "shard_abs (initLRUList (sh\<lparr> sh_entries := [], sh_currentSize := 0 \<rparr>)) = Map.empty"
    and "sh_maxSize (initLRUList (sh\<lparr> sh_entries := [], sh_currentSize := 0 \<rparr>)) = sh_maxSize sh"
  using assms
  by (auto simp: shard_inv_def shard_list_def initLRUList_def Let_def total_size_def nth_append shard_abs_def intro!: exI [of _ "[]"])

section \<open>The cache as a map\<close>

text \<open>\<open>cache_room\<close>: the shard of the key takes the value without evicting anything.\<close>

definition cache_room :: "(string \<Rightarrow> byte list) \<Rightarrow> string \<Rightarrow> byte list \<Rightarrow> smart_cache \<Rightarrow> bool" where
  "cache_room md5 key val sc \<longleftrightarrow>
     (let sh = sc_shards sc ! getShard md5 sc key in
      int (length (sh_entries sh)) < sh_maxEntries sh \<and>
      sh_currentSize sh - (case map_of (sh_entries sh) key of None \<Rightarrow> 0 | Some a \<Rightarrow> e_Size (sh_store sh ! a))
        + int (length val) \<le> sh_maxSize sh)"

type_synonym cached = "string \<Rightarrow> (byte list \<times> int \<times> int) option"

definition run_out :: "int \<Rightarrow> byte list \<times> int \<times> int \<Rightarrow> bool" where
  "run_out now = (\<lambda>(v, t, ttl). ttl > 0 \<and> now - t > ttl)"

inductive scache_run :: "(string \<Rightarrow> byte list) \<Rightarrow> smart_cache \<Rightarrow> cached \<Rightarrow> bool" where
  sca_new: "0 \<le> maxSize \<Longrightarrow> maxSize < 2 ^ 63 \<Longrightarrow> shardCount < 2 ^ 63 \<Longrightarrow>
    scache_run md5 (NewSmartCache maxSize maxEntries ttl0 policyName compression shardCount) Map.empty"
| sca_set: "scache_run md5 sc m \<Longrightarrow> val \<noteq> [] \<Longrightarrow> cache_room md5 key val sc \<Longrightarrow>
    Cache_Set md5 rnd now1 now2 key val ttl sc = Some (Inr (None, sc')) \<Longrightarrow>
    scache_run md5 sc' (m(key \<mapsto> (val, now1, if ttl \<le> 0 then sc_DefaultTTL sc else ttl)))"
| sca_get: "scache_run md5 sc m \<Longrightarrow> Cache_Get md5 now0 now key sc = Inr (r, sc') \<Longrightarrow>
    scache_run md5 sc' (if r = Inl ErrCacheExpired then m(key := None) else m)"
| sca_delete: "scache_run md5 sc m \<Longrightarrow> Cache_Delete md5 key sc = (b, sc') \<Longrightarrow> scache_run md5 sc' (m(key := None))"
| sca_clear: "scache_run md5 sc m \<Longrightarrow> scache_run md5 (Cache_Clear sc) Map.empty"
| sca_cleanup: "scache_run md5 sc m \<Longrightarrow> list_all2 (\<lambda>ord sh. range_order (sh_entries sh) ord) ords (sc_shards sc) \<Longrightarrow>
    scache_run md5 (Cache_cleanup clk ords sc)
      (\<lambda>k. case m k of None \<Rightarrow> None | Some x \<Rightarrow> if run_out (clk k) x then None else Some x)"

definition scache_inv :: "(string \<Rightarrow> byte list) \<Rightarrow> smart_cache \<Rightarrow> cached \<Rightarrow> bool" where
  "scache_inv md5 sc m \<longleftrightarrow>
     unat (sc_shardMask sc) < length (sc_shards sc) \<and> (\<forall>sh \<in> set (sc_shards sc). shard_inv sh) \<and>
     (\<forall>k. shard_abs (sc_shards sc ! getShard md5 sc k) k = m k)"

lemma getShard_less:
  assumes "unat (sc_shardMask sc) < length (sc_shards sc)"
  shows "getShard md5 sc k < length (sc_shards sc)"
proof -
  have "cache_hash md5 k AND sc_shardMask sc \<le> sc_shardMask sc" by (rule word_and_le1)
  then show ?thesis using assms by (simp add: getShard_def word_le_nat_alt)
qed

lemma getShard_mask: "sc_shardMask sc' = sc_shardMask sc \<Longrightarrow> getShard md5 sc' k = getShard md5 sc k"
  by (simp add: getShard_def)

text \<open>Replacing the shard of a key by one that differs only at that key.\<close>

lemma scache_inv_shard:
  assumes "scache_inv md5 sc m" "shard_inv sh'"
    and "shard_abs sh' = (shard_abs (sc_shards sc ! getShard md5 sc key))(key := x)"
    and "sc_shards sc' = (sc_shards sc)[getShard md5 sc key := sh']" "sc_shardMask sc' = sc_shardMask sc"
  shows "scache_inv md5 sc' (m(key := x))"
proof -
  have i: "getShard md5 sc key < length (sc_shards sc)" using assms(1) getShard_less by (simp add: scache_inv_def)
  have "shard_inv sh" if "sh \<in> set (sc_shards sc')" for sh
    using that assms(1,2,4) set_update_subset_insert by (fastforce simp: scache_inv_def)
  moreover have "shard_abs (sc_shards sc' ! getShard md5 sc' k) k = (m(key := x)) k" for k
  proof -
    have k: "shard_abs (sc_shards sc ! getShard md5 sc k) k = m k" using assms(1) by (simp add: scache_inv_def)
    show ?thesis
    proof (cases "getShard md5 sc k = getShard md5 sc key")
      case True
      then show ?thesis using k i assms(3) unfolding assms(4) getShard_mask [OF assms(5)] by simp
    next
      case False
      then have "k \<noteq> key" by auto
      then show ?thesis using k False unfolding assms(4) getShard_mask [OF assms(5)] by simp
    qed
  qed
  ultimately show ?thesis using assms(1,4,5) by (simp add: scache_inv_def)
qed

lemma scache_inv_at:
  assumes "scache_inv md5 sc m"
  shows "shard_inv (sc_shards sc ! getShard md5 sc key)" "shard_abs (sc_shards sc ! getShard md5 sc key) key = m key"
    "getShard md5 sc key < length (sc_shards sc)"
proof -
  show "getShard md5 sc key < length (sc_shards sc)" using assms getShard_less by (simp add: scache_inv_def)
  then show "shard_inv (sc_shards sc ! getShard md5 sc key)" using assms nth_mem by (simp add: scache_inv_def)
  show "shard_abs (sc_shards sc ! getShard md5 sc key) key = m key" using assms by (simp add: scache_inv_def)
qed

lemma Delete_eq:
  "Cache_Delete md5 key sc =
     (let i = getShard md5 sc key; sh = sc_shards sc ! i in
      case map_of (sh_entries sh) key of
        None \<Rightarrow> (False, sc)
      | Some a \<Rightarrow> (True, (on_shard i (drop_entry key sh) sc)
          \<lparr> sc_currentSize := add64 (sc_currentSize sc) (- e_Size (sh_store sh ! a)), sc_currentCount := add64 (sc_currentCount sc) (- 1) \<rparr>))"
  by (simp add: Cache_Delete_def drop_entry_def Let_def split: option.split)

lemma scache_inv_delete:
  assumes "scache_inv md5 sc m"
  shows "scache_inv md5 (snd (Cache_Delete md5 key sc)) (m(key := None))"
proof -
  let ?sh = "sc_shards sc ! getShard md5 sc key"
  note at = scache_inv_at [OF assms, of key]
  show ?thesis
  proof (cases "map_of (sh_entries ?sh) key")
    case None
    then have "m key = None" using at(2) by (simp add: shard_abs_def)
    then have "m(key := None) = m" by auto
    then show ?thesis using None assms by (simp add: Delete_eq Let_def)
  next
    case (Some a)
    note d = drop_entry_inv [OF at(1), of key]
    show ?thesis
      by (rule scache_inv_shard [OF assms, of "drop_entry key ?sh"]) (use Some d in \<open>simp_all add: Delete_eq Let_def on_shard_def\<close>)
  qed
qed

lemma scache_inv_get:
  assumes "scache_inv md5 sc m"
  shows "\<exists>r sc'. Cache_Get md5 now0 now key sc = Inr (r, sc') \<and>
    r = (case m key of None \<Rightarrow> Inl ErrCacheNotFound
         | Some x \<Rightarrow> if run_out now0 x then Inl ErrCacheExpired else Inr (fst x)) \<and>
    scache_inv md5 sc' (if r = Inl ErrCacheExpired then m(key := None) else m)"
proof -
  let ?sh = "sc_shards sc ! getShard md5 sc key"
  note at = scache_inv_at [OF assms, of key]
  have stats: "scache_inv md5 (sc\<lparr> sc_misses := x \<rparr>) m'" if "scache_inv md5 sc m'" for x sc m'
    using that by (simp add: scache_inv_def getShard_def)
  show ?thesis
  proof (cases "map_of (sh_entries ?sh) key")
    case None
    then have "m key = None" using at(2) by (simp add: shard_abs_def)
    then show ?thesis using None stats [OF assms] by (simp add: Cache_Get_def Let_def)
  next
    case (Some a)
    define e where "e = sh_store ?sh ! a"
    have mk: "m key = Some (e_Value e, e_CreatedAt e, e_TTL e)" using at(2) Some by (simp add: shard_abs_def e_def)
    have exp: "CacheEntry_IsExpired now0 e = run_out now0 (e_Value e, e_CreatedAt e, e_TTL e)"
      by (simp add: CacheEntry_IsExpired_def run_out_def)
    show ?thesis
    proof (cases "CacheEntry_IsExpired now0 e")
      case True
      then show ?thesis using Some mk exp stats [OF scache_inv_delete [OF assms]] by (simp add: Cache_Get_def Let_def e_def)
    next
      case False
      define sh1 where "sh1 = put a (\<lambda>e. e\<lparr> e_AccessedAt := now, e_AccessCount := add64 (e_AccessCount e) 1 \<rparr>) ?sh"
      define sh2 where "sh2 = sh1\<lparr> sh_policy := OnAccess a (sh_store sh1 ! a) (sh_policy sh1) \<rparr>"
      have i2: "shard_inv sh2" "shard_abs sh2 = shard_abs ?sh" using access_inv [OF at(1)] unfolding sh1_def sh2_def by blast+
      have "(key, a) \<in> set (sh_entries sh2)" using map_of_SomeD [OF Some] by (simp add: sh2_def sh1_def)
      then have "a \<in> snd ` set (sh_entries sh2)" by force
      from moveToFront_inv [OF i2(1) this] obtain sh3 where sh3: "moveToFront a sh2 = Inr sh3" "shard_inv sh3" "shard_abs sh3 = shard_abs ?sh"
        using i2(2) by auto
      have fields: "e_Value (sh_store sh1 ! a) = e_Value e" "e_Compressed (sh_store sh1 ! a) = e_Compressed e"
        by (simp_all add: sh1_def e_def put_def access_fields)
      have "entry_ok key e" using entry_addr(2) [OF at(1) map_of_SomeD [OF Some]] by (simp add: e_def)
      then have r: "Cache_Get md5 now0 now key sc = Inr (Inr (e_Value e),
          (on_shard (getShard md5 sc key) sh3 sc)\<lparr> sc_hits := add64 (sc_hits sc) 1 \<rparr>)"
        using Some False sh3(1) fields
        by (simp add: Cache_Get_def Let_def e_def [symmetric] sh1_def [symmetric] sh2_def [symmetric] entry_ok_def)
      have "scache_inv md5 ((on_shard (getShard md5 sc key) sh3 sc)\<lparr> sc_hits := add64 (sc_hits sc) 1 \<rparr>) (m(key := m key))"
        by (rule scache_inv_shard [OF assms sh3(2)]) (use sh3(3) at(2) in \<open>simp_all add: on_shard_def fun_upd_idem\<close>)
      then show ?thesis using r mk exp False by (simp add: fun_upd_idem)
    qed
  qed
qed

lemma compress_never: "(sc_EnableCompression sc \<and> length val > 1024 \<and> length (compress val) < length val) = False"
  by (simp add: compress_def)

lemma removeFromLRU_entries:
  "removeFromLRU a (sh\<lparr> sh_entries := m \<rparr>) = (removeFromLRU a sh)\<lparr> sh_entries := m \<rparr>"
  by (simp add: removeFromLRU_def put_def Let_def split: option.split)

text \<open>The shard a new value is put into: the old entry of the key is unlinked and its size given back.\<close>

definition vacated :: "string \<Rightarrow> shard \<Rightarrow> shard" where
  "vacated key sh =
     (case map_of (sh_entries sh) key of
        None \<Rightarrow> sh
      | Some a \<Rightarrow> removeFromLRU a (sh\<lparr> sh_currentSize := sub64 (sh_currentSize sh) (e_Size (sh_store sh ! a)) \<rparr>))"

lemma vacated_drop:
  "(vacated key sh)\<lparr> sh_entries := AList.delete key (sh_entries (vacated key sh)) \<rparr> = drop_entry key sh"
  "sh_entries (vacated key sh) = sh_entries sh" "sh_maxEntries (vacated key sh) = sh_maxEntries sh"
proof -
  have same: "same_data x (removeFromLRU a x)" for a x by (rule removeFromLRU_same)
  show "sh_entries (vacated key sh) = sh_entries sh" "sh_maxEntries (vacated key sh) = sh_maxEntries sh"
    using same by (auto simp: vacated_def same_data_def split: option.split)
  then show "(vacated key sh)\<lparr> sh_entries := AList.delete key (sh_entries (vacated key sh)) \<rparr> = drop_entry key sh"
  proof (cases "map_of (sh_entries sh) key")
    case None
    then have "AList.delete key (sh_entries sh) = sh_entries sh" by (simp add: delete_idem map_of_eq_None_iff)
    then show ?thesis using None by (simp add: vacated_def drop_entry_def)
  next
    case (Some a)
    let ?s = "sh\<lparr> sh_currentSize := sub64 (sh_currentSize sh) (e_Size (sh_store sh ! a)) \<rparr>"
    have swap: "sh\<lparr> sh_entries := m, sh_currentSize := c \<rparr> = sh\<lparr> sh_currentSize := c, sh_entries := m \<rparr>" for m c by simp
    have "sh_entries (removeFromLRU a ?s) = sh_entries sh" using same [of ?s a] by (simp add: same_data_def)
    then show ?thesis using Some removeFromLRU_entries [where a = a and sh = ?s and m = "AList.delete key (sh_entries sh)"]
      by (simp add: vacated_def drop_entry_def swap)
  qed
qed

lemma Cache_Set_fits:
  assumes "scache_inv md5 sc m" "val \<noteq> []" "cache_room md5 key val sc"
  shows "\<exists>sc'. Cache_Set md5 rnd now1 now2 key val ttl sc = Some (Inr (None, sc')) \<and>
    scache_inv md5 sc' (m(key \<mapsto> (val, now1, if ttl \<le> 0 then sc_DefaultTTL sc else ttl)))"
proof -
  let ?i = "getShard md5 sc key" and ?sh = "sc_shards sc ! getShard md5 sc key"
  note at = scache_inv_at [OF assms(1), of key]
  define e where "e = \<lparr> e_Key = key, e_Value = val, e_Size = int (length val),
      e_TTL = (if ttl \<le> 0 then sc_DefaultTTL sc else ttl), e_CreatedAt = now1, e_AccessedAt = now2,
      e_AccessCount = 1, e_Compressed = False, e_prev = None, e_next = None \<rparr>"
  let ?v = "vacated key ?sh"
  note d = drop_entry_inv [OF at(1), of key] and vd = vacated_drop [of key ?sh]
  have inv: "shard_inv (?v\<lparr> sh_entries := AList.delete key (sh_entries ?v) \<rparr>)" using d vd(1) by simp
  note dd = shard_dataD [OF conjunct1 [OF inv [unfolded shard_inv_iff]], simplified]
  have max: "sh_maxSize ?v = sh_maxSize ?sh" using d vd(1) by (metis shard.select_convs(6) shard.surjective shard.update_convs(2))
  have cur: "sh_currentSize ?v = sh_currentSize ?sh - (case map_of (sh_entries ?sh) key of None \<Rightarrow> 0 | Some a \<Rightarrow> e_Size (sh_store ?sh ! a))"
  proof (cases "map_of (sh_entries ?sh) key")
    case (Some a)
    have data: "shard_data ?sh" using at(1) by (simp add: shard_inv_iff)
    have "sub64 (sh_currentSize ?sh) (e_Size (sh_store ?sh ! a)) = sh_currentSize ?sh - e_Size (sh_store ?sh ! a)"
      using total_delete_bounds [OF data Some] total_delete [OF shard_dataD(1) [OF data] Some, of "sh_store ?sh"] shard_dataD(3) [OF data] by simp
    then show ?thesis using Some removeFromLRU_same [of "?sh\<lparr> sh_currentSize := sub64 (sh_currentSize ?sh) (e_Size (sh_store ?sh ! a)) \<rparr>" a]
      by (simp add: vacated_def same_data_def)
  qed (simp add: vacated_def)
  have room: "sh_currentSize ?v + e_Size e \<le> sh_maxSize ?v" "int (length (sh_entries ?v)) < sh_maxEntries ?v"
    using assms(3) cur max vd(2,3) by (simp_all add: cache_room_def Let_def e_def)
  have "0 \<le> sh_currentSize ?v" unfolding dd(3) by (rule total_nonneg) (use dd(2) in auto)
  then have fit: "add64 (sh_currentSize ?v) (e_Size e) \<le> sh_maxSize ?v" "e_Size e \<le> sh_maxSize ?v"
    using room(1) dd(5) by (simp_all add: e_def)
  have ens: "ensureCapacity rnd (e_Size e) ?v = Some (Inr [], ?v)"
    using fit room(2) by (simp add: ensureCapacity_def ensure_loop.simps Let_def)
  have ok: "map_ok (sh_entries ?v)" using at(1) vd(2) by (simp add: shard_inv_def)
  obtain sh4 where sh4: "addToFront (length (sh_store ?v)) (?v\<lparr> sh_store := sh_store ?v @ [e],
      sh_entries := AList.update key (length (sh_store ?v)) (sh_entries ?v),
      sh_currentSize := add64 (sh_currentSize ?v) (e_Size e), sh_policy := OnAdd (length (sh_store ?v)) e (sh_policy ?v) \<rparr>) = Inr sh4"
      "shard_inv sh4" "shard_abs sh4 = (shard_abs ?v)(key \<mapsto> (e_Value e, e_CreatedAt e, e_TTL e))"
    using insert_inv [OF inv ok _ room(1), of "OnAdd (length (sh_store ?v)) e (sh_policy ?v)"] by (auto simp: entry_ok_def e_def)
  have "shard_abs ?v k = shard_abs (?v\<lparr> sh_entries := AList.delete key (sh_entries ?v) \<rparr>) k" if "k \<noteq> key" for k
    using that by (simp add: shard_abs_def)
  then have "shard_abs sh4 = (shard_abs ?sh)(key \<mapsto> (e_Value e, e_CreatedAt e, e_TTL e))"
    using sh4(3) d vd(1) by (auto simp: fun_eq_iff)
  then have abs: "shard_abs sh4 = (shard_abs ?sh)(key := Some (val, now1, if ttl \<le> 0 then sc_DefaultTTL sc else ttl))"
    by (simp add: e_def)
  define sc' where "sc' = (on_shard ?i sh4 sc)\<lparr> sc_evictions := add64 (sc_evictions sc) 0,
      sc_currentSize := add64 (sc_currentSize sc) (e_Size e), sc_currentCount := add64 (add64 (sc_currentCount sc) 0) 1 \<rparr>"
  have "Cache_Set md5 rnd now1 now2 key val ttl sc = Some (Inr (None, sc'))"
    unfolding Cache_Set_def Let_def compress_never if_False vacated_def [symmetric] e_def [symmetric]
    using assms(2) ens sh4(1) by (simp add: sc'_def)
  moreover have "scache_inv md5 sc' (m(key := Some (val, now1, if ttl \<le> 0 then sc_DefaultTTL sc else ttl)))"
    by (rule scache_inv_shard [OF assms(1) sh4(2) abs]) (simp_all add: sc'_def on_shard_def)
  ultimately show ?thesis by blast
qed

text \<open>Creation, clearing and the clean-up.\<close>

lemma scache_inv_new:
  assumes "0 \<le> maxSize" "maxSize < 2 ^ 63" "shardCount < 2 ^ 63"
  shows "scache_inv md5 (NewSmartCache maxSize maxEntries ttl0 policyName compression shardCount) Map.empty"
proof -
  define n where "n = (if shardCount \<le> 0 then 16 else shardCount)"
  have n: "0 < n" "n < 2 ^ 63" using assms(3) by (simp_all add: n_def)
  let ?sh = "new_shard (maxSize sdiv n) (maxEntries sdiv n) (createEvictionPolicy policyName)"
  have sz: "0 \<le> maxSize sdiv n" "maxSize sdiv n < 2 ^ 63"
    using assms(1,2) n(1) zdiv_mono2 [of maxSize 1 n]
    by (cases "maxSize = 0"; simp add: signed_divide_int_def pos_imp_zdiv_nonneg_iff)+
  have "shard_inv ?sh" "shard_abs ?sh = Map.empty"
    unfolding new_shard_def
    using initLRUList_inv [of "\<lparr> sh_store = [], sh_entries = [], sh_lruHead = 0, sh_lruTail = 0, sh_currentSize = 0,
       sh_maxSize = maxSize sdiv n, sh_maxEntries = maxEntries sdiv n, sh_policy = createEvictionPolicy policyName \<rparr>"] sz
    by simp_all
  moreover have mask: "unat (of_int (n - 1) :: u64) < nat n"
    using n by (subst unsigned_of_int) (simp add: take_bit_int_eq_self)
  moreover have "getShard md5 (NewSmartCache maxSize maxEntries ttl0 policyName compression shardCount) k < nat n" for k
    using getShard_less [of "NewSmartCache maxSize maxEntries ttl0 policyName compression shardCount" md5 k] mask
    by (simp add: NewSmartCache_def Let_def n_def)
  ultimately show ?thesis by (simp add: scache_inv_def NewSmartCache_def Let_def n_def [symmetric])
qed

lemma scache_inv_clear:
  assumes "scache_inv md5 sc m"
  shows "scache_inv md5 (Cache_Clear sc) Map.empty"
proof -
  have c: "shard_inv (clear_shard sh) \<and> shard_abs (clear_shard sh) = Map.empty" if "shard_inv sh" for sh
  proof -
    have "shard_data sh" using that by (simp add: shard_inv_iff)
    note d = shard_dataD [OF this]
    have "0 \<le> sh_currentSize sh" unfolding d(3) by (rule total_nonneg) (use d(2) in auto)
    then have "0 \<le> sh_maxSize sh" "sh_maxSize sh < 2 ^ 63" using d(4,5) by simp_all
    from initLRUList_inv [OF this] show ?thesis by (simp add: clear_shard_def)
  qed
  have i: "getShard md5 sc k < length (sc_shards sc)" for k using scache_inv_at(3) [OF assms] .
  have g: "getShard md5 (Cache_Clear sc) k = getShard md5 sc k" for k by (rule getShard_mask) (simp add: Cache_Clear_def)
  have "shard_abs (clear_shard (sc_shards sc ! getShard md5 sc k)) k = None" for k using c scache_inv_at(1) [OF assms] by simp
  then show ?thesis unfolding scache_inv_def g using assms c i by (auto simp: scache_inv_def Cache_Clear_def)
qed

lemma fold_drop:
  assumes "shard_inv sh"
  shows "shard_inv (fold drop_entry ks sh) \<and> shard_abs (fold drop_entry ks sh) = (\<lambda>k. if k \<in> set ks then None else shard_abs sh k)"
  using assms
proof (induction ks arbitrary: sh)
  case (Cons k ks)
  then show ?case using drop_entry_inv [OF Cons.prems, of k] by (auto simp: fun_eq_iff)
qed simp

lemma scache_inv_cleanup:
  assumes "scache_inv md5 sc m" "list_all2 (\<lambda>ord sh. range_order (sh_entries sh) ord) ords (sc_shards sc)"
  shows "scache_inv md5 (Cache_cleanup clk ords sc)
    (\<lambda>k. case m k of None \<Rightarrow> None | Some x \<Rightarrow> if run_out (clk k) x then None else Some x)"
proof -
  let ?f = "\<lambda>ord sh. fold drop_entry (expired_keys clk ord sh) sh"
  have len: "length ords = length (sc_shards sc)" by (rule list_all2_lengthD [OF assms(2)])
  have g: "getShard md5 (Cache_cleanup clk ords sc) k = getShard md5 sc k" for k
    by (rule getShard_mask) (simp add: Cache_cleanup_def Let_def)
  have nth: "sc_shards (Cache_cleanup clk ords sc) ! i = ?f (ords ! i) (sc_shards sc ! i)" if "i < length (sc_shards sc)" for i
    using that len by (simp add: Cache_cleanup_def Let_def)
  have inv: "shard_inv sh" if "sh \<in> set (sc_shards (Cache_cleanup clk ords sc))" for sh
    using that assms(1) fold_drop by (auto simp: Cache_cleanup_def Let_def scache_inv_def dest!: set_zip_rightD)
  have "shard_abs (sc_shards (Cache_cleanup clk ords sc) ! getShard md5 sc k) k =
      (case m k of None \<Rightarrow> None | Some x \<Rightarrow> if run_out (clk k) x then None else Some x)" for k
  proof -
    let ?i = "getShard md5 sc k"
    let ?sh = "sc_shards sc ! getShard md5 sc k"
    note at = scache_inv_at [OF assms(1), of k]
    have "range_order (sh_entries ?sh) (ords ! ?i)" using list_all2_nthD2 [OF assms(2) at(3)] .
    then have ord: "set (ords ! ?i) = dom (map_of (sh_entries ?sh))" by (simp add: range_order_def dom_map_of_conv_image_fst)
    have "shard_abs (?f (ords ! ?i) ?sh) k = (if k \<in> set (expired_keys clk (ords ! ?i) ?sh) then None else m k)"
      using fold_drop [OF at(1)] at(2) by simp
    moreover have "k \<in> set (expired_keys clk (ords ! ?i) ?sh) \<longleftrightarrow> (\<exists>x. m k = Some x \<and> run_out (clk k) x)"
      unfolding expired_keys_def at(2) [symmetric] using ord
      by (auto simp: shard_abs_def CacheEntry_IsExpired_def run_out_def split: option.splits)
    ultimately show ?thesis using nth [OF at(3)] by (auto split: option.split)
  qed
  then show ?thesis unfolding scache_inv_def g using inv assms(1) len by (simp add: scache_inv_def Cache_cleanup_def Let_def)
qed

lemma scache_run_inv: "scache_run md5 sc m \<Longrightarrow> scache_inv md5 sc m"
proof (induction rule: scache_run.induct)
  case (sca_set md5 sc m val key rnd now1 now2 ttl sc')
  then show ?case using Cache_Set_fits [of md5 sc m val key rnd now1 now2 ttl] by (force simp: fun_upd_def)
next
  case (sca_get md5 sc m now0 now key r sc')
  then show ?case using scache_inv_get [of md5 sc m now0 now key] by auto
next
  case (sca_delete md5 sc m key b sc')
  then show ?case using scache_inv_delete [of md5 sc m key] by (simp add: fun_upd_def)
qed (auto intro: scache_inv_new scache_inv_clear scache_inv_cleanup)

lemma cache_Exists:
  assumes "scache_inv md5 sc m"
  shows "Cache_Exists md5 now key sc \<longleftrightarrow> (\<exists>x. m key = Some x \<and> \<not> run_out now x)"
  unfolding Cache_Exists_def Let_def scache_inv_at(2) [OF assms, symmetric]
  by (auto simp: shard_abs_def CacheEntry_IsExpired_def run_out_def split: option.split)


text \<open>Two values, one of them deleted again, and one that has run out.\<close>

abbreviation md5_zero :: "string \<Rightarrow> byte list" where
  "md5_zero \<equiv> \<lambda>_. replicate 16 0"

abbreviation small_cache :: smart_cache where
  "small_cache \<equiv> NewSmartCache 100 10 60 ''lru'' False 1"


text \<open>
  Eviction under the least-recently-used policy, the one the constructor picks by default: what is evicted is the
  entry at the tail of the list, and that is the sentinel, whose size is 0. So a value that does not fit keeps
  \<open>Set\<close> in its loop for ever, with the shard locked.
\<close>

lemma lru_evicts_sentinel:
  fixes r :: "nat \<Rightarrow> nat"
  assumes "sh_policy sh = P_LRU" "e_Size (sh_store sh ! sh_lruTail sh) = 0" "sh_lruTail sh < length (sh_store sh)"
    and "- (2 ^ 63) \<le> sh_currentSize sh" "sh_currentSize sh < 2 ^ 63"
  defines "sh' \<equiv> snd (evictEntry r sh)"
  shows "sh_policy sh' = P_LRU" "e_Size (sh_store sh' ! sh_lruTail sh') = 0" "sh_lruTail sh' < length (sh_store sh')"
    "sh_currentSize sh' = sh_currentSize sh" "sh_maxSize sh' = sh_maxSize sh"
proof -
  define sh0 where "sh0 = sh\<lparr> sh_policy := P_LRU, sh_entries := AList.delete (e_Key (sh_store sh ! sh_lruTail sh)) (sh_entries sh),
    sh_currentSize := sub64 (sh_currentSize sh) 0 \<rparr>"
  have e: "sh' = removeFromLRU (sh_lruTail sh) sh0"
    using assms(1,2) by (simp add: sh'_def sh0_def evictEntry_def OnEvict_def Let_def)
  have same: "same_data sh0 sh'" unfolding e by (rule removeFromLRU_same)
  have cur: "sub64 (sh_currentSize sh) 0 = sh_currentSize sh" using assms(4,5) by simp
  show "sh_policy sh' = P_LRU" "sh_lruTail sh' < length (sh_store sh')" "sh_currentSize sh' = sh_currentSize sh"
    "sh_maxSize sh' = sh_maxSize sh"
    using same assms(3) cur by (simp_all add: same_data_def sh0_def)
  have "data_of (sh_store sh' ! sh_lruTail sh) = data_of (sh_store sh ! sh_lruTail sh)" "sh_lruTail sh' = sh_lruTail sh"
    using same assms(3) by (simp_all add: same_data_def sh0_def)
  then show "e_Size (sh_store sh' ! sh_lruTail sh') = 0" using data_fields(3) assms(2) by metis
qed

lemma lru_loop_never_ends:
  assumes "sh_policy sh = P_LRU" "e_Size (sh_store sh ! sh_lruTail sh) = 0" "sh_lruTail sh < length (sh_store sh)"
    and "- (2 ^ 63) \<le> sh_currentSize sh" "sh_currentSize sh < 2 ^ 63" "add64 (sh_currentSize sh) newSize > sh_maxSize sh"
  shows "ensure_loop rnd k newSize gone sh = None"
proof -
  let ?P = "\<lambda>newSize sh. sh_policy sh = P_LRU \<and> e_Size (sh_store sh ! sh_lruTail sh) = 0 \<and> sh_lruTail sh < length (sh_store sh) \<and>
    - (2 ^ 63) \<le> sh_currentSize sh \<and> sh_currentSize sh < 2 ^ 63 \<and> add64 (sh_currentSize sh) newSize > sh_maxSize sh"
  have "\<not> ?P newSize sh" if "ensure_loop rnd k newSize gone sh = Some y" for y
  proof (rule ensure_loop.raw_induct [OF _ that, where P = "\<lambda>_ _ newSize _ sh _. \<not> ?P newSize sh"])
    fix loop rnd k newSize gone sh and y :: "int list \<times> shard"
    assume ih: "\<And>rnd k newSize gone sh y. loop rnd k newSize gone sh = Some y \<Longrightarrow> \<not> ?P newSize sh"
      and y: "(if sh_maxSize sh < add64 (sh_currentSize sh) newSize
        then loop rnd (Suc k) newSize (gone @ [fst (evictEntry (rnd k) sh)]) (snd (evictEntry (rnd k) sh))
        else Some (gone, sh)) = Some y"
    show "\<not> ?P newSize sh"
    proof
      assume P: "?P newSize sh"
      then have "loop rnd (Suc k) newSize (gone @ [fst (evictEntry (rnd k) sh)]) (snd (evictEntry (rnd k) sh)) = Some y"
        using y by simp
      from ih [OF this] show False using P lru_evicts_sentinel [of sh "rnd k"] by simp
    qed
  qed
  then show ?thesis using assms by (cases "ensure_loop rnd k newSize gone sh") auto
qed

lemma lru_full_set_hangs:
  fixes key :: string and md5 :: "string \<Rightarrow> byte list"
  defines "sh \<equiv> \<lambda>sc. sc_shards sc ! getShard md5 sc key"
  assumes "sh_policy (sh sc) = P_LRU" "e_Size (sh_store (sh sc) ! sh_lruTail (sh sc)) = 0"
    and "sh_lruTail (sh sc) < length (sh_store (sh sc))" "map_of (sh_entries (sh sc)) key = None"
    and "int (length (sh_entries (sh sc))) < sh_maxEntries (sh sc)" "0 \<le> sh_currentSize (sh sc)"
    and "sh_currentSize (sh sc) \<le> sh_maxSize (sh sc)" "sh_maxSize (sh sc) < 2 ^ 62" "val \<noteq> []"
    and "int (length val) \<le> sh_maxSize (sh sc)" "sh_currentSize (sh sc) + int (length val) > sh_maxSize (sh sc)"
  shows "Cache_Set md5 rnd now1 now2 key val ttl sc = None"
proof -
  have "ensure_loop rnd 1 (int (length val)) [] (sh sc) = None"
    by (rule lru_loop_never_ends) (use assms in simp_all)
  then have "ensureCapacity rnd (int (length val)) (sh sc) = None"
    using assms(6,11) by (simp add: ensureCapacity_def)
  then show ?thesis
    unfolding Cache_Set_def Let_def compress_never if_False using assms(5,10) by (simp add: sh_def)
qed

end
