(* ===== verification/Recovery_Manager.thy ===== *)
theory Recovery_Manager
  imports Retry Circuit_Breaker
begin

text \<open>
  The error recovery manager (\<open>client/internal/recovery/manager.go\<close>): reported errors are queued, the event loop
  turns each into a task with a handler and a strategy, and a goroutine per task runs the handler until it
  succeeds or the attempts are used up. A pointer to a task is its position in the list of all tasks ever made.
  The handlers are outside: what one answers is an argument. The goroutines interleave between the rounds of
  their loops. Logging and the display of statistics are left out.

  Lemmas: the invariant of the interleaved run (slots, counters, what a finished task has recorded), and the
  outcome of a task whose context stays alive.
\<close>

section \<open>State\<close>

datatype recovery_action =
    RecoveryActionRetry | RecoveryActionReconnect | RecoveryActionRestart | RecoveryActionSkip | RecoveryActionEscalate

fun RecoveryAction_String :: "recovery_action \<Rightarrow> string" where
  "RecoveryAction_String RecoveryActionRetry = ''RETRY''"
| "RecoveryAction_String RecoveryActionReconnect = ''RECONNECT''"
| "RecoveryAction_String RecoveryActionRestart = ''RESTART''"
| "RecoveryAction_String RecoveryActionSkip = ''SKIP''"
| "RecoveryAction_String RecoveryActionEscalate = ''ESCALATE''"

record error_event =
  ev_ID :: string
  ev_Type :: error_type
  ev_Component :: string
  ev_Error :: "string option"
  ev_Timestamp :: int
  ev_Severity :: int

record recovery_attempt =
  ra_EventID :: string
  ra_Attempt :: int
  ra_Action :: recovery_action
  ra_StartTime :: int
  ra_EndTime :: int
  ra_Success :: bool
  ra_Error :: "string option"
  ra_Duration :: int

datatype task_status = TaskPending | TaskRunning | TaskCompleted | TaskFailed | TaskTimeout

fun TaskStatus_String :: "task_status \<Rightarrow> string" where
  "TaskStatus_String TaskPending = ''PENDING''"
| "TaskStatus_String TaskRunning = ''RUNNING''"
| "TaskStatus_String TaskCompleted = ''COMPLETED''"
| "TaskStatus_String TaskFailed = ''FAILED''"
| "TaskStatus_String TaskTimeout = ''TIMEOUT''"

text \<open>A handler of the manager is known by what it can handle.\<close>

record recovery_task =
  tk_Event :: error_event
  tk_Handler :: "error_event \<Rightarrow> bool"
  tk_Strategy :: recovery_strategy
  tk_Attempts :: "recovery_attempt list"
  tk_StartTime :: int
  tk_Status :: task_status

record recovery_config =
  rc_Enabled :: bool
  rc_MaxConcurrentTasks :: nat
  rc_TaskTimeout :: int
  rc_DefaultStrategy :: recovery_strategy
  rc_TypeStrategies :: "(error_type \<times> recovery_strategy) list"
  rc_ComponentStrategies :: "(string \<times> recovery_strategy) list"
  rc_HealthCheckInterval :: int
  rc_MetricsEnabled :: bool
  rc_CircuitBreakerConfig :: cb_config

text \<open>\<open>rm_semaphore\<close> lists the tasks that hold a slot; the channel only counts them.\<close>

record recovery_manager =
  rm_config :: recovery_config
  rm_handlers :: "(error_event \<Rightarrow> bool) list"
  rm_events :: "error_event list"
  rm_eventsClosed :: bool
  rm_cancelled :: bool
  rm_tasks :: "recovery_task list"
  rm_active :: "(string \<times> nat) list"
  rm_history :: "recovery_attempt list"
  rm_breakers :: "(string \<times> breaker) list"
  rm_totalEvents :: int
  rm_successful :: int
  rm_failed :: int
  rm_semaphore :: "nat list"

abbreviation sec_ns :: int where
  "sec_ns \<equiv> 10 ^ 9"

definition DefaultRecoveryConfig :: recovery_config where
  "DefaultRecoveryConfig =
     \<lparr> rc_Enabled = True, rc_MaxConcurrentTasks = 10, rc_TaskTimeout = 5 * 60 * sec_ns,
       rc_DefaultStrategy = DefaultRecoveryStrategy, rc_TypeStrategies = [], rc_ComponentStrategies = [],
       rc_HealthCheckInterval = 30 * sec_ns, rc_MetricsEnabled = True,
       rc_CircuitBreakerConfig = \<lparr> cc_Enabled = True, cc_FailureThreshold = 5, cc_SuccessThreshold = 3, cc_Timeout = 60 * sec_ns \<rparr> \<rparr>"

definition NewRecoveryManager :: "recovery_config option \<Rightarrow> recovery_manager" where
  "NewRecoveryManager config =
     \<lparr> rm_config = (case config of None \<Rightarrow> DefaultRecoveryConfig | Some c \<Rightarrow> c), rm_handlers = [], rm_events = [],
       rm_eventsClosed = False, rm_cancelled = False, rm_tasks = [], rm_active = [], rm_history = [], rm_breakers = [],
       rm_totalEvents = 0, rm_successful = 0, rm_failed = 0, rm_semaphore = [] \<rparr>"

section \<open>Reporting and dispatching\<close>

definition randomInt :: "int \<Rightarrow> int \<Rightarrow> int \<Rightarrow> int" where
  "randomInt nano lo hi = lo + nano mod (hi - lo + 1)"

text \<open>The clock is read three times for an event: twice for the identifier and once for the time stamp.\<close>

definition generateEventID :: "int \<Rightarrow> int \<Rightarrow> string" where
  "generateEventID nano1 nano2 = ''evt_'' @ itoa_int nano1 @ ''_'' @ itoa_int (randomInt nano2 1000 9999)"

definition NewErrorEvent ::
    "int \<Rightarrow> int \<Rightarrow> int \<Rightarrow> error_type \<Rightarrow> string \<Rightarrow> string option \<Rightarrow> int \<Rightarrow> error_event" where
  "NewErrorEvent nano1 nano2 now errorType component err severity =
     \<lparr> ev_ID = generateEventID nano1 nano2, ev_Type = errorType, ev_Component = component, ev_Error = err,
       ev_Timestamp = now, ev_Severity = severity \<rparr>"

definition event_cap :: nat where "event_cap = 1000"

definition Recovery_ReportError ::
    "int \<Rightarrow> int \<Rightarrow> int \<Rightarrow> error_type \<Rightarrow> string \<Rightarrow> string option \<Rightarrow> int \<Rightarrow> recovery_manager \<Rightarrow> recovery_manager res" where
  "Recovery_ReportError nano1 nano2 now errorType component err severity m =
     (if rm_eventsClosed m then Inl SendOnClosedChannel
      else if length (rm_events m) < event_cap
      then Inr (m\<lparr> rm_events := rm_events m @ [NewErrorEvent nano1 nano2 now errorType component err severity],
                   rm_totalEvents := add64 (rm_totalEvents m) 1 \<rparr>)
      else Inr m)"

definition Recovery_RegisterHandler :: "(error_event \<Rightarrow> bool) \<Rightarrow> recovery_manager \<Rightarrow> recovery_manager" where
  "Recovery_RegisterHandler h m = m\<lparr> rm_handlers := rm_handlers m @ [h] \<rparr>"

definition Recovery_Stop :: "recovery_manager \<Rightarrow> recovery_manager res" where
  "Recovery_Stop m =
     (if rm_eventsClosed m then Inl CloseOfClosedChannel
      else Inr (m\<lparr> rm_cancelled := True, rm_eventsClosed := True \<rparr>))"

definition Recovery_findHandler :: "recovery_manager \<Rightarrow> error_event \<Rightarrow> (error_event \<Rightarrow> bool) option" where
  "Recovery_findHandler m event = find (\<lambda>h. h event) (rm_handlers m)"

definition Recovery_getStrategy :: "recovery_manager \<Rightarrow> error_event \<Rightarrow> recovery_strategy" where
  "Recovery_getStrategy m event =
     (case map_of (rc_ComponentStrategies (rm_config m)) (ev_Component event) of
        Some strategy \<Rightarrow> strategy
      | None \<Rightarrow> (case map_of (rc_TypeStrategies (rm_config m)) (ev_Type event) of
          Some strategy \<Rightarrow> strategy
        | None \<Rightarrow> rc_DefaultStrategy (rm_config m)))"

definition Recovery_processEvent :: "int \<Rightarrow> error_event \<Rightarrow> recovery_manager \<Rightarrow> recovery_manager" where
  "Recovery_processEvent now event m =
     (if Manager_isCircuitBreakerOpen (rc_CircuitBreakerConfig (rm_config m)) (rm_breakers m) (ev_Component event) (ev_Type event)
      then m
      else case Recovery_findHandler m event of
        None \<Rightarrow> m
      | Some h \<Rightarrow>
          m\<lparr> rm_tasks := rm_tasks m @ [\<lparr> tk_Event = event, tk_Handler = h, tk_Strategy = Recovery_getStrategy m event,
                                          tk_Attempts = [], tk_StartTime = now, tk_Status = TaskPending \<rparr>],
             rm_active := AList.update (ev_ID event) (length (rm_tasks m)) (rm_active m) \<rparr>)"

text \<open>One turn of the event loop that takes an event; a cancelled loop may still take one or stop.\<close>

definition Recovery_eventLoop_turn :: "int \<Rightarrow> recovery_manager \<Rightarrow> recovery_manager option" where
  "Recovery_eventLoop_turn now m =
     (case rm_events m of
        [] \<Rightarrow> None
      | event # rest \<Rightarrow> Some (Recovery_processEvent now event (m\<lparr> rm_events := rest \<rparr>)))"

section \<open>Running a task\<close>

text \<open>The waiting time before an attempt. \<open>oor\<close> converts floats out of range, \<open>rnd\<close> is \<open>randomFloat\<close>.\<close>

fun pow_loop :: "rat \<Rightarrow> nat \<Rightarrow> rat \<Rightarrow> rat" where
  "pow_loop base 0 result = result"
| "pow_loop base (Suc n) result = pow_loop base n (fmul result base)"

definition pow :: "rat \<Rightarrow> rat \<Rightarrow> rat" where
  "pow base ex = (if ex = 0 then 1 else pow_loop base (nat (trunc ex - 1)) base)"

definition Recovery_calculateDelay :: "(rat \<Rightarrow> int) \<Rightarrow> rat \<Rightarrow> recovery_strategy \<Rightarrow> int \<Rightarrow> int" where
  "Recovery_calculateDelay oor rnd strategy attempt =
     (if attempt \<le> 1 then 0
      else (let d0 = to_int64 oor (fmul (float64 (rs_InitialDelay strategy)) (pow (rs_BackoffFactor strategy) (float64 (attempt - 2))));
                d1 = (if d0 > rs_MaxDelay strategy then rs_MaxDelay strategy else d0)
            in if rs_Jitter strategy
               then add64 d1 (to_int64 oor (fmul (fmul (float64 d1) (fl (1 / 10))) (fsub rnd (fl (1 / 2)))))
               else d1))"

definition on_task :: "nat \<Rightarrow> (recovery_task \<Rightarrow> recovery_task) \<Rightarrow> recovery_manager \<Rightarrow> recovery_manager" where
  "on_task a f m = m\<lparr> rm_tasks := (rm_tasks m)[a := f (rm_tasks m ! a)] \<rparr>"

text \<open>
  What a round of a task's loop meets: whether its context has ended when it looks and while it waits, the random
  number of the waiting time, the clock, and the handler's answer, an attempt that may be nil and an error.
\<close>

record round_env =
  re_ctxDone :: bool
  re_waitDone :: bool
  re_rnd :: rat
  re_now :: int
  re_answer :: "recovery_attempt option \<times> string option"

definition Recovery_addToHistory :: "recovery_attempt \<Rightarrow> recovery_manager \<Rightarrow> recovery_manager" where
  "Recovery_addToHistory r m = m\<lparr> rm_history := rm_history m @ [r] \<rparr>"

text \<open>The goroutine of a task waits for a slot.\<close>

definition task_begin :: "nat \<Rightarrow> recovery_manager \<Rightarrow> recovery_manager" where
  "task_begin a m = on_task a (\<lambda>t. t\<lparr> tk_Status := TaskRunning \<rparr>) (m\<lparr> rm_semaphore := a # rm_semaphore m \<rparr>)"

text \<open>The goroutine returns: its slot is free again.\<close>

definition task_return :: "nat \<Rightarrow> recovery_manager \<Rightarrow> recovery_manager" where
  "task_return a m = m\<lparr> rm_semaphore := remove1 a (rm_semaphore m) \<rparr>"

definition task_finish :: "bool \<Rightarrow> nat \<Rightarrow> recovery_manager \<Rightarrow> recovery_manager" where
  "task_finish success a m =
     (let m1 = (if success then on_task a (\<lambda>t. t\<lparr> tk_Status := TaskCompleted \<rparr>) m
                else (on_task a (\<lambda>t. t\<lparr> tk_Status := TaskFailed \<rparr>) m)\<lparr> rm_failed := add64 (rm_failed m) 1 \<rparr>)
      in task_return a (m1\<lparr> rm_active := AList.delete (ev_ID (tk_Event (rm_tasks m ! a))) (rm_active m1) \<rparr>))"

text \<open>
  One round of the loop of \<open>executeRecoveryTask\<close>; the attempt's number is one more than the attempts recorded.
  The flag says that the goroutine has returned.
\<close>

definition task_round :: "(rat \<Rightarrow> int) \<Rightarrow> round_env \<Rightarrow> nat \<Rightarrow> recovery_manager \<Rightarrow> bool \<times> recovery_manager" where
  "task_round oor env a m =
     (let t = rm_tasks m ! a; ev = tk_Event t; attempt = int (length (tk_Attempts t)) + 1 in
      if attempt > rs_MaxAttempts (tk_Strategy t) then (True, task_finish False a m)
      else if re_ctxDone env
      then (True, task_return a ((on_task a (\<lambda>t. t\<lparr> tk_Status := TaskTimeout \<rparr>) m)
                    \<lparr> rm_active := AList.delete (ev_ID ev) (rm_active m) \<rparr>))
      else if attempt > 1 \<and> Recovery_calculateDelay oor (re_rnd env) (tk_Strategy t) attempt > 0 \<and> re_waitDone env
      then (True, task_return a m)
      else (let (answer, err) = re_answer env;
                r = (case answer of
                       Some r \<Rightarrow> r
                     | None \<Rightarrow> \<lparr> ra_EventID = ev_ID ev, ra_Attempt = attempt, ra_Action = RecoveryActionRetry,
                                 ra_StartTime = re_now env, ra_EndTime = re_now env, ra_Success = False,
                                 ra_Error = err, ra_Duration = 0 \<rparr>);
                m1 = Recovery_addToHistory r (on_task a (\<lambda>t. t\<lparr> tk_Attempts := tk_Attempts t @ [r] \<rparr>) m);
                ok = (err = None \<and> ra_Success r);
                m2 = (if ok then m1\<lparr> rm_successful := add64 (rm_successful m1) 1 \<rparr> else m1);
                m3 = m2\<lparr> rm_breakers := Manager_updateCircuitBreaker (rc_CircuitBreakerConfig (rm_config m)) (re_now env)
                                          (rm_breakers m2) (ev_Component ev) (ev_Type ev) ok \<rparr>
            in if ok then (True, task_finish True a m3) else (False, m3)))"

text \<open>The whole task, alone from its slot on: \<open>env k\<close> is what the \<open>k\<close>-th round meets.\<close>

fun task_rounds :: "(rat \<Rightarrow> int) \<Rightarrow> (nat \<Rightarrow> round_env) \<Rightarrow> nat \<Rightarrow> nat \<Rightarrow> recovery_manager \<Rightarrow> recovery_manager" where
  "task_rounds oor env 0 a m = task_finish False a m"
| "task_rounds oor env (Suc left) a m =
     (case task_round oor (env (length (tk_Attempts (rm_tasks m ! a)))) a m of
        (True, m') \<Rightarrow> m'
      | (False, m') \<Rightarrow> task_rounds oor env left a m')"

definition Recovery_executeRecoveryTask ::
    "(rat \<Rightarrow> int) \<Rightarrow> bool \<Rightarrow> (nat \<Rightarrow> round_env) \<Rightarrow> nat \<Rightarrow> recovery_manager \<Rightarrow> recovery_manager" where
  "Recovery_executeRecoveryTask oor slot env a m =
     (if \<not> slot then m
      else task_rounds oor env (nat (rs_MaxAttempts (tk_Strategy (rm_tasks m ! a)))) a (task_begin a m))"

section \<open>Housekeeping\<close>

definition Recovery_cleanupHistory :: "recovery_manager \<Rightarrow> recovery_manager" where
  "Recovery_cleanupHistory m =
     (if length (rm_history m) > 1000 then m\<lparr> rm_history := drop (length (rm_history m) - 1000) (rm_history m) \<rparr> else m)"

definition Recovery_checkLongRunningTasks :: "int \<Rightarrow> recovery_manager \<Rightarrow> string list" where
  "Recovery_checkLongRunningTasks now m =
     map fst (filter (\<lambda>(_, a). now - tk_StartTime (rm_tasks m ! a) > rc_TaskTimeout (rm_config m)) (rm_active m))"

definition Recovery_performHealthCheck :: "int \<Rightarrow> recovery_manager \<Rightarrow> recovery_manager" where
  "Recovery_performHealthCheck now m =
     (let m1 = Recovery_cleanupHistory m
      in m1\<lparr> rm_breakers := Manager_resetExpiredCircuitBreakers now (rm_breakers m1) \<rparr>)"

definition Recovery_GetRecoveryHistory :: "int \<Rightarrow> recovery_manager \<Rightarrow> recovery_attempt list" where
  "Recovery_GetRecoveryHistory limit' m =
     (let n = (if limit' \<le> 0 \<or> limit' > int (length (rm_history m)) then length (rm_history m) else nat limit')
      in drop (length (rm_history m) - n) (rm_history m))"

section \<open>Interleaved runs\<close>

text \<open>
  Every way the goroutines may interleave: errors are reported, the event loop dispatches them, tasks take a slot
  when one is free and run their rounds in any order, the health check runs, handlers are registered, and the
  manager is stopped. A task that gives up before it has a slot changes nothing.
\<close>

inductive recovery_run :: "(rat \<Rightarrow> int) \<Rightarrow> recovery_manager \<Rightarrow> bool" where
  rr_new: "recovery_run oor (NewRecoveryManager config)"
| rr_register: "recovery_run oor m \<Longrightarrow> recovery_run oor (Recovery_RegisterHandler h m)"
| rr_report: "recovery_run oor m \<Longrightarrow> Recovery_ReportError n1 n2 now errorType component err severity m = Inr m' \<Longrightarrow> recovery_run oor m'"
| rr_event: "recovery_run oor m \<Longrightarrow> Recovery_eventLoop_turn now m = Some m' \<Longrightarrow> recovery_run oor m'"
| rr_begin: "recovery_run oor m \<Longrightarrow> a < length (rm_tasks m) \<Longrightarrow> tk_Status (rm_tasks m ! a) = TaskPending \<Longrightarrow>
    length (rm_semaphore m) < rc_MaxConcurrentTasks (rm_config m) \<Longrightarrow> recovery_run oor (task_begin a m)"
| rr_round: "recovery_run oor m \<Longrightarrow> a \<in> set (rm_semaphore m) \<Longrightarrow> task_round oor env a m = (b, m') \<Longrightarrow> recovery_run oor m'"
| rr_health: "recovery_run oor m \<Longrightarrow> recovery_run oor (Recovery_performHealthCheck now m)"
| rr_stop: "recovery_run oor m \<Longrightarrow> Recovery_Stop m = Inr m' \<Longrightarrow> recovery_run oor m'"

definition task_ok :: "recovery_task \<Rightarrow> bool" where
  "task_ok t \<longleftrightarrow>
     int (length (tk_Attempts t)) \<le> max 0 (rs_MaxAttempts (tk_Strategy t)) \<and>
     (case tk_Status t of
        TaskPending \<Rightarrow> tk_Attempts t = []
      | TaskRunning \<Rightarrow> True
      | TaskCompleted \<Rightarrow> tk_Attempts t \<noteq> [] \<and> ra_Success (last (tk_Attempts t))
      | TaskFailed \<Rightarrow> int (length (tk_Attempts t)) = max 0 (rs_MaxAttempts (tk_Strategy t))
      | TaskTimeout \<Rightarrow> int (length (tk_Attempts t)) < rs_MaxAttempts (tk_Strategy t))"

definition in_status :: "task_status \<Rightarrow> recovery_task list \<Rightarrow> int" where
  "in_status st ts = int (length (filter (\<lambda>t. tk_Status t = st) ts))"

definition recovery_inv :: "recovery_manager \<Rightarrow> bool" where
  "recovery_inv m \<longleftrightarrow>
     (\<forall>t \<in> set (rm_tasks m). task_ok t) \<and>
     distinct (rm_semaphore m) \<and> length (rm_semaphore m) \<le> rc_MaxConcurrentTasks (rm_config m) \<and>
     (\<forall>a \<in> set (rm_semaphore m). a < length (rm_tasks m) \<and> tk_Status (rm_tasks m ! a) = TaskRunning) \<and>
     map_ok (rm_active m) \<and>
     (\<forall>x \<in> set (rm_active m). snd x < length (rm_tasks m) \<and> ev_ID (tk_Event (rm_tasks m ! snd x)) = fst x \<and>
        tk_Status (rm_tasks m ! snd x) \<in> {TaskPending, TaskRunning}) \<and>
     rm_successful m = wrap64 (in_status TaskCompleted (rm_tasks m)) \<and>
     rm_failed m = wrap64 (in_status TaskFailed (rm_tasks m)) \<and>
     length (rm_events m) \<le> event_cap"

lemma in_status_update:
  assumes "a < length ts"
  shows "in_status st (ts[a := t]) =
    in_status st ts - (if tk_Status (ts ! a) = st then 1 else 0) + (if tk_Status t = st then 1 else 0)"
proof -
  have "ts = take a ts @ ts ! a # drop (Suc a) ts" by (rule id_take_nth_drop [OF assms])
  then have "in_status st ts = in_status st (take a ts @ ts ! a # drop (Suc a) ts)" by simp
  moreover have "in_status st (ts[a := t]) = in_status st (take a ts @ t # drop (Suc a) ts)"
    using assms by (simp add: upd_conv_take_nth_drop)
  ultimately show ?thesis by (simp add: in_status_def)
qed

lemma in_status_append: "in_status st (ts @ [t]) = in_status st ts + (if tk_Status t = st then 1 else 0)"
  by (simp add: in_status_def)

lemma wrap64_add1: "add64 (wrap64 x) 1 = wrap64 (x + 1)"
  by (simp add: wrap64_def mod_simps)

text \<open>What a change of one running task must respect.\<close>

lemma recovery_inv_task:
  assumes "recovery_inv m" "a \<in> set (rm_semaphore m)" "task_ok t'" "tk_Event t' = tk_Event (rm_tasks m ! a)"
    and "rm_tasks m' = (rm_tasks m)[a := t']" "rm_config m' = rm_config m" "rm_events m' = rm_events m"
    and "tk_Status t' = TaskRunning \<and> rm_active m' = rm_active m \<or>
      tk_Status t' \<noteq> TaskPending \<and> rm_active m' = AList.delete (ev_ID (tk_Event (rm_tasks m ! a))) (rm_active m)"
    and "rm_semaphore m' = remove1 a (rm_semaphore m) \<or> tk_Status t' = TaskRunning \<and> rm_semaphore m' = rm_semaphore m"
    and "rm_successful m' = (if tk_Status t' = TaskCompleted then add64 (rm_successful m) 1 else rm_successful m)"
    and "rm_failed m' = (if tk_Status t' = TaskFailed then add64 (rm_failed m) 1 else rm_failed m)"
  shows "recovery_inv m'"
proof -
  have a: "a < length (rm_tasks m)" "tk_Status (rm_tasks m ! a) = TaskRunning"
    using assms(1,2) by (auto simp: recovery_inv_def)
  have tasks: "\<forall>t \<in> set (rm_tasks m'). task_ok t"
    using assms(1,3) a(1) unfolding assms(5) recovery_inv_def by (auto dest: set_update_subset_insert [THEN subsetD])
  have "set (rm_semaphore m') \<subseteq> set (rm_semaphore m)" using assms(9) by (auto dest: set_remove1_subset [THEN subsetD])
  moreover have "distinct (rm_semaphore m')" "length (rm_semaphore m') \<le> length (rm_semaphore m)"
    using assms(1,9) by (auto simp: recovery_inv_def length_remove1)
  moreover have "a \<notin> set (rm_semaphore m') \<or> tk_Status t' = TaskRunning"
    using assms(1,9) by (auto simp: recovery_inv_def)
  ultimately have sem: "distinct (rm_semaphore m')" "length (rm_semaphore m') \<le> rc_MaxConcurrentTasks (rm_config m')"
    "\<forall>b \<in> set (rm_semaphore m'). b < length (rm_tasks m') \<and> tk_Status (rm_tasks m' ! b) = TaskRunning"
    using assms(1) a unfolding assms(5,6) recovery_inv_def by (auto simp: nth_list_update)
  have act: "snd x < length (rm_tasks m') \<and> ev_ID (tk_Event (rm_tasks m' ! snd x)) = fst x \<and>
      tk_Status (rm_tasks m' ! snd x) \<in> {TaskPending, TaskRunning}" if x: "x \<in> set (rm_active m')" for x
  proof -
    have "x \<in> set (rm_active m)" using x assms(8) by auto
    then have old: "snd x < length (rm_tasks m)" "ev_ID (tk_Event (rm_tasks m ! snd x)) = fst x"
        "tk_Status (rm_tasks m ! snd x) \<in> {TaskPending, TaskRunning}"
      using assms(1) by (auto simp: recovery_inv_def)
    show ?thesis
    proof (cases "snd x = a")
      case True
      then have "tk_Status t' = TaskRunning" using x old(2) assms(8) by auto
      then show ?thesis using True old a(1) assms(4) by (simp add: assms(5))
    next
      case False
      then show ?thesis using old by (simp add: assms(5))
    qed
  qed
  have cnt: "rm_successful m' = wrap64 (in_status TaskCompleted (rm_tasks m'))" "rm_failed m' = wrap64 (in_status TaskFailed (rm_tasks m'))"
    using assms(1,10,11) a unfolding recovery_inv_def assms(5) by (auto simp: in_status_update wrap64_add1)
  have "map_ok (rm_active m')" "length (rm_events m') \<le> event_cap"
    using assms(1,7,8) by (auto simp: recovery_inv_def)
  then show ?thesis using tasks sem act cnt unfolding recovery_inv_def by blast
qed

lemma task_round_inv:
  assumes "recovery_inv m" "a \<in> set (rm_semaphore m)" "task_round oor env a m = (b, m')"
  shows "recovery_inv m'"
proof -
  let ?t = "rm_tasks m ! a"
  define attempt where "attempt = int (length (tk_Attempts ?t)) + 1"
  have a: "a < length (rm_tasks m)" "tk_Status ?t = TaskRunning" "task_ok ?t"
    using assms(1,2) nth_mem by (auto simp: recovery_inv_def)
  have le: "int (length (tk_Attempts ?t)) \<le> max 0 (rs_MaxAttempts (tk_Strategy ?t))" using a(3) by (simp add: task_ok_def)
  consider (all) "attempt > rs_MaxAttempts (tk_Strategy ?t)"
    | (ctx) "attempt \<le> rs_MaxAttempts (tk_Strategy ?t)" "re_ctxDone env"
    | (wait) "attempt \<le> rs_MaxAttempts (tk_Strategy ?t)" "\<not> re_ctxDone env"
        "attempt > 1 \<and> Recovery_calculateDelay oor (re_rnd env) (tk_Strategy ?t) attempt > 0 \<and> re_waitDone env"
    | (answer) "attempt \<le> rs_MaxAttempts (tk_Strategy ?t)" "\<not> re_ctxDone env"
        "\<not> (attempt > 1 \<and> Recovery_calculateDelay oor (re_rnd env) (tk_Strategy ?t) attempt > 0 \<and> re_waitDone env)"
    by linarith
  then show ?thesis
  proof cases
    case all
    then have m': "m' = task_finish False a m" using assms(3) by (simp add: task_round_def Let_def attempt_def)
    have "task_ok (?t\<lparr> tk_Status := TaskFailed \<rparr>)" using le all by (simp add: task_ok_def attempt_def)
    then show ?thesis unfolding m'
      by (rule recovery_inv_task [OF assms(1,2)]) (simp_all add: task_finish_def on_task_def task_return_def)
  next
    case ctx
    then have m': "m' = task_return a ((on_task a (\<lambda>t. t\<lparr> tk_Status := TaskTimeout \<rparr>) m)
        \<lparr> rm_active := AList.delete (ev_ID (tk_Event ?t)) (rm_active m) \<rparr>)"
      using assms(3) by (simp add: task_round_def Let_def attempt_def)
    have "task_ok (?t\<lparr> tk_Status := TaskTimeout \<rparr>)" using le ctx by (simp add: task_ok_def attempt_def)
    then show ?thesis unfolding m'
      by (rule recovery_inv_task [OF assms(1,2)]) (simp_all add: on_task_def task_return_def)
  next
    case wait
    then have m': "m' = task_return a m" using assms(3) by (simp add: task_round_def Let_def attempt_def)
    show ?thesis unfolding m'
      by (rule recovery_inv_task [OF assms(1,2) a(3)]) (simp_all add: task_return_def a)
  next
    case answer
    obtain ans err where ae: "re_answer env = (ans, err)" by fastforce
    define r where "r = (case ans of Some r \<Rightarrow> r
      | None \<Rightarrow> \<lparr> ra_EventID = ev_ID (tk_Event ?t), ra_Attempt = attempt, ra_Action = RecoveryActionRetry,
                  ra_StartTime = re_now env, ra_EndTime = re_now env, ra_Success = False, ra_Error = err, ra_Duration = 0 \<rparr>)"
    define ok where "ok \<longleftrightarrow> err = None \<and> ra_Success r"
    define t1 where "t1 = ?t\<lparr> tk_Attempts := tk_Attempts ?t @ [r] \<rparr>"
    have t1: "task_ok (t1\<lparr> tk_Status := st \<rparr>)" if "st = TaskRunning \<or> st = TaskCompleted \<and> ok" for st
      using that answer(1) by (auto simp: task_ok_def t1_def attempt_def ok_def)
    have round: "task_round oor env a m = (let m1 = Recovery_addToHistory r (on_task a (\<lambda>t. t\<lparr> tk_Attempts := tk_Attempts t @ [r] \<rparr>) m);
        m2 = (if ok then m1\<lparr> rm_successful := add64 (rm_successful m1) 1 \<rparr> else m1);
        m3 = m2\<lparr> rm_breakers := Manager_updateCircuitBreaker (rc_CircuitBreakerConfig (rm_config m)) (re_now env)
                                  (rm_breakers m2) (ev_Component (tk_Event ?t)) (ev_Type (tk_Event ?t)) ok \<rparr>
      in if ok then (True, task_finish True a m3) else (False, m3))"
    proof -
      have no: "(attempt > rs_MaxAttempts (tk_Strategy ?t)) = False" "re_ctxDone env = False"
          "(attempt > 1 \<and> Recovery_calculateDelay oor (re_rnd env) (tk_Strategy ?t) attempt > 0 \<and> re_waitDone env) = False"
        using answer by auto
      show ?thesis
        unfolding task_round_def Let_def attempt_def [symmetric] no if_False ae prod.case r_def [symmetric] ok_def [symmetric] by (rule refl)
    qed
    show ?thesis
    proof (cases ok)
      case True
      show ?thesis
        by (rule recovery_inv_task [OF assms(1,2) t1 [of TaskCompleted]])
          (use assms(3) True a(1) in \<open>auto simp: round Let_def t1_def on_task_def task_finish_def task_return_def Recovery_addToHistory_def\<close>)
    next
      case False
      have same: "t1\<lparr> tk_Status := TaskRunning \<rparr> = t1" using a(2) by (simp add: t1_def)
      show ?thesis
        by (rule recovery_inv_task [OF assms(1,2) t1 [of TaskRunning, unfolded same]])
          (use assms(3) False a(1,2) in \<open>auto simp: round Let_def t1_def on_task_def Recovery_addToHistory_def\<close>)
    qed
  qed
qed

lemma recovery_inv_begin:
  assumes "recovery_inv m" "a < length (rm_tasks m)" "tk_Status (rm_tasks m ! a) = TaskPending"
    and "length (rm_semaphore m) < rc_MaxConcurrentTasks (rm_config m)"
  shows "recovery_inv (task_begin a m)"
proof -
  have "a \<notin> set (rm_semaphore m)" using assms(1,3) by (auto simp: recovery_inv_def)
  moreover have "task_ok ((rm_tasks m ! a)\<lparr> tk_Status := TaskRunning \<rparr>)"
    using assms(1,2) nth_mem by (fastforce simp: recovery_inv_def task_ok_def)
  ultimately show ?thesis
    using assms unfolding recovery_inv_def task_begin_def on_task_def
    by (auto simp: in_status_update nth_list_update dest!: set_update_subset_insert [THEN subsetD])
qed

lemma recovery_inv_event:
  assumes "recovery_inv m" "Recovery_eventLoop_turn now m = Some m'"
  shows "recovery_inv m'"
proof -
  obtain ev rest where ev: "rm_events m = ev # rest" and m': "m' = Recovery_processEvent now ev (m\<lparr> rm_events := rest \<rparr>)"
    using assms(2) by (auto simp: Recovery_eventLoop_turn_def split: list.splits)
  let ?m = "m\<lparr> rm_events := rest \<rparr>"
  have inv: "recovery_inv ?m" using assms(1) ev by (simp add: recovery_inv_def)
  show ?thesis
  proof (cases "Manager_isCircuitBreakerOpen (rc_CircuitBreakerConfig (rm_config ?m)) (rm_breakers ?m) (ev_Component ev) (ev_Type ev)
      \<or> Recovery_findHandler ?m ev = None")
    case True
    then have "m' = ?m" unfolding m' Recovery_processEvent_def by (elim disjE) (simp_all only: if_True if_cancel option.case)
    then show ?thesis using inv by (simp only:)
  next
    case False
    then obtain h where h: "Recovery_findHandler ?m ev = Some h" by blast
    define t where "t = \<lparr> tk_Event = ev, tk_Handler = h, tk_Strategy = Recovery_getStrategy ?m ev,
      tk_Attempts = [], tk_StartTime = now, tk_Status = TaskPending \<rparr>"
    have m'': "m' = ?m\<lparr> rm_tasks := rm_tasks ?m @ [t], rm_active := AList.update (ev_ID ev) (length (rm_tasks ?m)) (rm_active ?m) \<rparr>"
      using False unfolding m' Recovery_processEvent_def t_def h de_Morgan_disj by (simp only: if_False option.case simp_thms)
    have t: "task_ok t" "tk_Status t = TaskPending" "ev_ID (tk_Event t) = ev_ID ev" by (simp_all add: task_ok_def t_def)
    have act: "snd x < length (rm_tasks m @ [t]) \<and> ev_ID (tk_Event ((rm_tasks m @ [t]) ! snd x)) = fst x \<and>
        tk_Status ((rm_tasks m @ [t]) ! snd x) \<in> {TaskPending, TaskRunning}"
      if x: "x \<in> set (AList.update (ev_ID ev) (length (rm_tasks m)) (rm_active m))" for x
    proof -
      consider "x = (ev_ID ev, length (rm_tasks m))" | "x \<in> set (rm_active m)"
        using insertE [OF set_alist_update [THEN subsetD, OF x]] by metis
      then show ?thesis
      proof cases
        case 2
        then have "snd x < length (rm_tasks m) \<and> ev_ID (tk_Event (rm_tasks m ! snd x)) = fst x \<and>
            tk_Status (rm_tasks m ! snd x) \<in> {TaskPending, TaskRunning}"
          using inv by (simp add: recovery_inv_def)
        then show ?thesis by (simp add: nth_append)
      qed (simp add: t)
    qed
    have sem: "b < length (rm_tasks m @ [t]) \<and> tk_Status ((rm_tasks m @ [t]) ! b) = TaskRunning" if "b \<in> set (rm_semaphore m)" for b
      using that inv by (auto simp: recovery_inv_def nth_append)
    have rest: "\<forall>t \<in> set (rm_tasks m @ [t]). task_ok t" "distinct (rm_semaphore m)" "length rest \<le> event_cap"
        "length (rm_semaphore m) \<le> rc_MaxConcurrentTasks (rm_config m)" "map_ok (rm_active m)"
        "rm_successful m = wrap64 (in_status TaskCompleted (rm_tasks m @ [t]))" "rm_failed m = wrap64 (in_status TaskFailed (rm_tasks m @ [t]))"
      using inv t by (simp_all add: recovery_inv_def in_status_append)
    have fields: "rm_tasks m' = rm_tasks m @ [t]" "rm_active m' = AList.update (ev_ID ev) (length (rm_tasks m)) (rm_active m)"
        "rm_events m' = rest" "rm_semaphore m' = rm_semaphore m" "rm_config m' = rm_config m"
        "rm_successful m' = rm_successful m" "rm_failed m' = rm_failed m"
      by (simp_all add: m'')
    show ?thesis unfolding recovery_inv_def fields
      by (intro conjI ballI; (rule rest sem act map_ok_update [OF rest(5)] rest(1) [rule_format] | erule act [THEN conjunct1] | assumption)?)
        (use sem act rest in blast)+
  qed
qed

lemma recovery_run_inv: "recovery_run oor m \<Longrightarrow> recovery_inv m"
proof (induction rule: recovery_run.induct)
  case (rr_new oor config)
  then show ?case by (simp add: recovery_inv_def NewRecoveryManager_def in_status_def)
next
  case (rr_register oor m h)
  then show ?case by (simp add: recovery_inv_def Recovery_RegisterHandler_def)
next
  case (rr_report oor m n1 n2 now errorType component err severity m')
  then consider "m' = m" | ev where "m' = m\<lparr> rm_events := rm_events m @ [ev], rm_totalEvents := add64 (rm_totalEvents m) 1 \<rparr>"
      "length (rm_events m) < event_cap"
    by (auto simp: Recovery_ReportError_def split: if_splits)
  then show ?case by cases (use rr_report.IH in \<open>simp_all add: recovery_inv_def\<close>)
next
  case (rr_health oor m now)
  then show ?case by (simp add: recovery_inv_def Recovery_performHealthCheck_def Recovery_cleanupHistory_def Let_def)
next
  case (rr_stop oor m m')
  then have "m' = m\<lparr> rm_cancelled := True, rm_eventsClosed := True \<rparr>" by (simp add: Recovery_Stop_def split: if_splits)
  then show ?case using rr_stop.IH by (simp add: recovery_inv_def)
qed (auto intro: recovery_inv_event recovery_inv_begin task_round_inv)


definition demo_answer :: "bool \<Rightarrow> round_env" where
  "demo_answer good = \<lparr> re_ctxDone = False, re_waitDone = False, re_rnd = 0, re_now = 0,
     re_answer = (Some \<lparr> ra_EventID = ''e'', ra_Attempt = 1, ra_Action = RecoveryActionReconnect, ra_StartTime = 0, ra_EndTime = 0,
        ra_Success = good, ra_Error = None, ra_Duration = 0 \<rparr>, None) \<rparr>"

definition demo_event :: error_event where
  "demo_event = \<lparr> ev_ID = ''e'', ev_Type = ErrorTypeNetwork, ev_Component = ''c'', ev_Error = None, ev_Timestamp = 0, ev_Severity = 1 \<rparr>"

text \<open>
  A task alone, from its slot on: the number of rounds is that of its strategy's attempts.
\<close>

definition answer_ok :: "round_env \<Rightarrow> bool" where
  "answer_ok env \<longleftrightarrow> snd (re_answer env) = None \<and> (\<exists>r. fst (re_answer env) = Some r \<and> ra_Success r)"

definition calm :: "round_env \<Rightarrow> bool" where
  "calm env \<longleftrightarrow> \<not> re_ctxDone env \<and> \<not> re_waitDone env"

text \<open>What a run of a task leaves alone and what it adds.\<close>

definition task_result :: "nat \<Rightarrow> recovery_manager \<Rightarrow> recovery_attempt list \<Rightarrow> bool \<Rightarrow> recovery_manager \<Rightarrow> bool" where
  "task_result a m rs good m' \<longleftrightarrow>
     rm_tasks m' = (rm_tasks m)[a := (rm_tasks m ! a)
       \<lparr> tk_Attempts := tk_Attempts (rm_tasks m ! a) @ rs, tk_Status := if good then TaskCompleted else TaskFailed \<rparr>] \<and>
     rm_history m' = rm_history m @ rs \<and>
     rm_active m' = AList.delete (ev_ID (tk_Event (rm_tasks m ! a))) (rm_active m) \<and>
     rm_semaphore m' = remove1 a (rm_semaphore m) \<and>
     rm_successful m' = (if good then add64 (rm_successful m) 1 else rm_successful m) \<and>
     rm_failed m' = (if good then rm_failed m else add64 (rm_failed m) 1) \<and>
     (good \<longrightarrow> rs \<noteq> [] \<and> ra_Success (last rs))"

lemma calm_round:
  assumes "a < length (rm_tasks m)" "calm env"
    and "int (length (tk_Attempts (rm_tasks m ! a))) < rs_MaxAttempts (tk_Strategy (rm_tasks m ! a))"
  shows "\<exists>r m1. task_round oor env a m = (answer_ok env, if answer_ok env then task_finish True a m1 else m1) \<and>
    rm_tasks m1 = (rm_tasks m)[a := (rm_tasks m ! a)\<lparr> tk_Attempts := tk_Attempts (rm_tasks m ! a) @ [r] \<rparr>] \<and>
    rm_history m1 = rm_history m @ [r] \<and> rm_active m1 = rm_active m \<and> rm_semaphore m1 = rm_semaphore m \<and>
    rm_successful m1 = (if answer_ok env then add64 (rm_successful m) 1 else rm_successful m) \<and>
    rm_failed m1 = rm_failed m \<and> (answer_ok env \<longrightarrow> ra_Success r)"
proof -
  let ?t = "rm_tasks m ! a"
  obtain ans err where ae: "re_answer env = (ans, err)" by fastforce
  define attempt where "attempt = int (length (tk_Attempts ?t)) + 1"
  define r where "r = (case ans of Some r \<Rightarrow> r
    | None \<Rightarrow> \<lparr> ra_EventID = ev_ID (tk_Event ?t), ra_Attempt = attempt, ra_Action = RecoveryActionRetry,
                ra_StartTime = re_now env, ra_EndTime = re_now env, ra_Success = False, ra_Error = err, ra_Duration = 0 \<rparr>)"
  define m0 where "m0 = Recovery_addToHistory r (on_task a (\<lambda>t. t\<lparr> tk_Attempts := tk_Attempts t @ [r] \<rparr>) m)"
  have ok: "(err = None \<and> ra_Success r) = answer_ok env"
    by (cases ans) (auto simp: answer_ok_def ae r_def)
  define m2 where "m2 = (if answer_ok env then m0\<lparr> rm_successful := add64 (rm_successful m0) 1 \<rparr> else m0)"
  define m3 where "m3 = m2\<lparr> rm_breakers := Manager_updateCircuitBreaker (rc_CircuitBreakerConfig (rm_config m)) (re_now env)
    (rm_breakers m2) (ev_Component (tk_Event ?t)) (ev_Type (tk_Event ?t)) (answer_ok env) \<rparr>"
  have no: "(attempt > rs_MaxAttempts (tk_Strategy ?t)) = False" "re_ctxDone env = False" "re_waitDone env = False"
    using assms(2,3) by (simp_all add: calm_def attempt_def)
  have "task_round oor env a m = (answer_ok env, if answer_ok env then task_finish True a m3 else m3)"
    unfolding task_round_def Let_def attempt_def [symmetric] no if_False simp_thms ae prod.case r_def [symmetric] ok
      m0_def [symmetric] m2_def [symmetric] m3_def [symmetric] by simp
  moreover have "answer_ok env \<longrightarrow> ra_Success r" using ok by blast
  ultimately show ?thesis
    by (intro exI [of _ r] exI [of _ m3]) (simp add: m3_def m2_def m0_def Recovery_addToHistory_def on_task_def)
qed

lemma task_finish_result:
  assumes "a < length (rm_tasks m)"
  shows "task_result a m [] False (task_finish False a m)"
    and "rm_tasks m1 = (rm_tasks m)[a := (rm_tasks m ! a)\<lparr> tk_Attempts := tk_Attempts (rm_tasks m ! a) @ [r] \<rparr>] \<Longrightarrow>
      rm_history m1 = rm_history m @ [r] \<Longrightarrow> rm_active m1 = rm_active m \<Longrightarrow> rm_semaphore m1 = rm_semaphore m \<Longrightarrow>
      rm_successful m1 = add64 (rm_successful m) 1 \<Longrightarrow> rm_failed m1 = rm_failed m \<Longrightarrow> ra_Success r \<Longrightarrow>
      task_result a m [r] True (task_finish True a m1)"
  using assms by (simp_all add: task_result_def task_finish_def task_return_def on_task_def)

lemma task_rounds_result:
  assumes "a < length (rm_tasks m)" "\<And>k. calm (env k)"
    and "rs_MaxAttempts (tk_Strategy (rm_tasks m ! a)) = int (length (tk_Attempts (rm_tasks m ! a)) + left)"
  defines "k0 \<equiv> length (tk_Attempts (rm_tasks m ! a))"
  shows "\<exists>rs. task_result a m rs (\<exists>k < left. answer_ok (env (k0 + k))) (task_rounds oor env left a m) \<and>
    length rs = (if \<exists>k < left. answer_ok (env (k0 + k)) then Suc (LEAST k. answer_ok (env (k0 + k))) else left)"
  using assms(1,3) unfolding k0_def
proof (induction left arbitrary: m)
  case 0
  then show ?case using task_finish_result(1) [of a m] by simp
next
  case (Suc left)
  let ?k0 = "length (tk_Attempts (rm_tasks m ! a))"
  let ?e = "env ?k0"
  obtain r m1 where round: "task_round oor ?e a m = (answer_ok ?e, if answer_ok ?e then task_finish True a m1 else m1)"
    and m1: "rm_tasks m1 = (rm_tasks m)[a := (rm_tasks m ! a)\<lparr> tk_Attempts := tk_Attempts (rm_tasks m ! a) @ [r] \<rparr>]"
      "rm_history m1 = rm_history m @ [r]" "rm_active m1 = rm_active m" "rm_semaphore m1 = rm_semaphore m"
      "rm_successful m1 = (if answer_ok ?e then add64 (rm_successful m) 1 else rm_successful m)"
      "rm_failed m1 = rm_failed m" "answer_ok ?e \<longrightarrow> ra_Success r"
    using calm_round [OF Suc.prems(1) assms(2) [of ?k0], of oor] Suc.prems(2) by auto
  show ?case
  proof (cases "answer_ok ?e")
    case True
    then have "task_result a m [r] True (task_rounds oor env (Suc left) a m)"
      using round task_finish_result(2) [OF Suc.prems(1) m1(1-4)] m1(5-7) by simp
    moreover have "(LEAST k. answer_ok (env (?k0 + k))) = 0" using True by (intro Least_eq_0) simp
    moreover have "\<exists>k < Suc left. answer_ok (env (?k0 + k))" using True by (intro exI [of _ 0]) simp
    ultimately show ?thesis by (intro exI [of _ "[r]"]) simp
  next
    case False
    have len: "length (tk_Attempts (rm_tasks m1 ! a)) = Suc ?k0" using Suc.prems(1) m1(1) by simp
    have pre: "a < length (rm_tasks m1)"
      "rs_MaxAttempts (tk_Strategy (rm_tasks m1 ! a)) = int (length (tk_Attempts (rm_tasks m1 ! a)) + left)"
      using Suc.prems m1(1) by simp_all
    have ex: "(\<exists>k < Suc left. answer_ok (env (?k0 + k))) \<longleftrightarrow> (\<exists>k < left. answer_ok (env (Suc ?k0 + k)))"
      using False by (auto simp: Ex_less_Suc2)
    have least: "(LEAST k. answer_ok (env (?k0 + k))) = Suc (LEAST k. answer_ok (env (Suc ?k0 + k)))"
      if some: "\<exists>k < left. answer_ok (env (Suc ?k0 + k))"
    proof -
      obtain k where "answer_ok (env (Suc ?k0 + k))" using some by blast
      then have "answer_ok (env (?k0 + Suc k))" by simp
      from Least_Suc [of "\<lambda>k. answer_ok (env (?k0 + k))", OF this] False show ?thesis by simp
    qed
    obtain rs where rs: "task_result a m1 rs (\<exists>k < left. answer_ok (env (Suc ?k0 + k))) (task_rounds oor env left a m1)"
      "length rs = (if \<exists>k < left. answer_ok (env (Suc ?k0 + k)) then Suc (LEAST k. answer_ok (env (Suc ?k0 + k))) else left)"
      using Suc.IH [OF pre] unfolding len by blast
    have "task_rounds oor env (Suc left) a m = task_rounds oor env left a m1" using round False by simp
    moreover have "task_result a m (r # rs) good m'" if "task_result a m1 rs good m'" for good m'
      using that m1 False Suc.prems(1) by (auto simp: task_result_def)
    ultimately have "task_result a m (r # rs) (\<exists>k < Suc left. answer_ok (env (?k0 + k))) (task_rounds oor env (Suc left) a m)"
      using rs(1) unfolding ex by simp
    moreover have "length (r # rs) = (if \<exists>k < left. answer_ok (env (Suc ?k0 + k))
        then Suc (LEAST k. answer_ok (env (?k0 + k))) else Suc left)"
      unfolding length_Cons rs(2) by (cases "\<exists>k < left. answer_ok (env (Suc ?k0 + k))") (simp_all only: if_True if_False least)
    ultimately show ?thesis unfolding ex by blast
  qed
qed

text \<open>
  A task that has its slot and whose context stays alive ends after at most \<open>MaxAttempts\<close> runs of its handler:
  completed at the first good answer, failed when there is none among them. Its attempts are in the history, its
  slot is free again, it is no longer active, and exactly one of the two counters has gone up by one.
\<close>

theorem recovery_task_outcome:
  assumes "a < length (rm_tasks m)" "tk_Attempts (rm_tasks m ! a) = []" "a \<notin> set (rm_semaphore m)" "\<And>k. calm (env k)"
  shows "let n = nat (rs_MaxAttempts (tk_Strategy (rm_tasks m ! a)));
    m' = Recovery_executeRecoveryTask oor True env a m; good = (\<exists>k < n. answer_ok (env k)); t' = rm_tasks m' ! a in
    tk_Status t' = (if good then TaskCompleted else TaskFailed) \<and>
    length (tk_Attempts t') = (if good then Suc (LEAST k. answer_ok (env k)) else n) \<and>
    (good \<longrightarrow> ra_Success (last (tk_Attempts t'))) \<and>
    rm_history m' = rm_history m @ tk_Attempts t' \<and> rm_semaphore m' = rm_semaphore m \<and>
    rm_active m' = AList.delete (ev_ID (tk_Event (rm_tasks m ! a))) (rm_active m) \<and>
    rm_successful m' = (if good then add64 (rm_successful m) 1 else rm_successful m) \<and>
    rm_failed m' = (if good then rm_failed m else add64 (rm_failed m) 1)"
proof -
  let ?m = "task_begin a m"
  define n where "n = nat (rs_MaxAttempts (tk_Strategy (rm_tasks m ! a)))"
  define m' where "m' = Recovery_executeRecoveryTask oor True env a m"
  have m: "a < length (rm_tasks ?m)" "rm_tasks ?m ! a = (rm_tasks m ! a)\<lparr> tk_Status := TaskRunning \<rparr>"
    using assms(1) by (simp_all add: task_begin_def on_task_def)
  have m': "m' = task_rounds oor env n a ?m" by (simp add: m'_def Recovery_executeRecoveryTask_def n_def)
  have "\<exists>rs. task_result a ?m rs (\<exists>k < n. answer_ok (env k)) m' \<and>
    length rs = (if \<exists>k < n. answer_ok (env k) then Suc (LEAST k. answer_ok (env k)) else n)"
  proof (cases "rs_MaxAttempts (tk_Strategy (rm_tasks m ! a)) \<ge> 0")
    case True
    then have "rs_MaxAttempts (tk_Strategy (rm_tasks ?m ! a)) = int (length (tk_Attempts (rm_tasks ?m ! a)) + n)"
      using assms(2) by (simp add: m(2) n_def)
    moreover have "length (tk_Attempts (rm_tasks ?m ! a)) = 0" using assms(2) by (simp add: m(2))
    ultimately show ?thesis
      using task_rounds_result [where env = env, OF m(1) assms(4), of n oor] unfolding m' by (simp only: add_0 add_0_left)
  next
    case False
    then have "n = 0" by (simp add: n_def)
    then show ?thesis using task_finish_result(1) [OF m(1)] unfolding m' by simp
  qed
  then obtain rs where rs: "task_result a ?m rs (\<exists>k < n. answer_ok (env k)) m'"
    "length rs = (if \<exists>k < n. answer_ok (env k) then Suc (LEAST k. answer_ok (env k)) else n)" by blast
  have att: "tk_Attempts (rm_tasks m' ! a) = rs" "tk_Status (rm_tasks m' ! a) = (if \<exists>k < n. answer_ok (env k) then TaskCompleted else TaskFailed)"
    using rs(1) m assms(2) by (simp_all add: task_result_def)
  have rest: "rm_history ?m = rm_history m" "rm_active ?m = rm_active m" "rm_semaphore ?m = a # rm_semaphore m"
    "rm_successful ?m = rm_successful m" "rm_failed ?m = rm_failed m" "ev_ID (tk_Event (rm_tasks ?m ! a)) = ev_ID (tk_Event (rm_tasks m ! a))"
    using m(2) by (simp_all add: task_begin_def on_task_def)
  show ?thesis
    unfolding Let_def n_def [symmetric] m'_def [symmetric] att
    using rs unfolding task_result_def rest by (auto simp: assms(3))
qed

text \<open>The handler fails twice and succeeds at the third call.\<close>

definition demo_manager :: recovery_manager where
  "demo_manager = Recovery_processEvent 0 demo_event (Recovery_RegisterHandler (\<lambda>_. True) (NewRecoveryManager None))"

lemma demo_task:
  "length (rm_tasks demo_manager) = 1" "tk_Attempts (rm_tasks demo_manager ! 0) = []" "rm_semaphore demo_manager = []"
  "rs_MaxAttempts (tk_Strategy (rm_tasks demo_manager ! 0)) = 5"
  by (simp_all add: demo_manager_def Recovery_processEvent_def Recovery_RegisterHandler_def NewRecoveryManager_def
      Manager_isCircuitBreakerOpen_def Recovery_findHandler_def Recovery_getStrategy_def DefaultRecoveryConfig_def
      DefaultRecoveryStrategy_def)

theorem recovery_task_outcome_witness:
  "tk_Status (rm_tasks (Recovery_executeRecoveryTask (\<lambda>_. 0) True (\<lambda>k. demo_answer (k = 2)) 0 demo_manager) ! 0) = TaskCompleted"
proof -
  have calm: "calm (demo_answer (k = 2))" for k by (simp add: calm_def demo_answer_def)
  have "\<exists>k < 5. answer_ok (demo_answer (k = (2 :: nat)))"
    by (intro exI [of _ 2]) (simp add: answer_ok_def demo_answer_def)
  then show ?thesis
    using recovery_task_outcome [of 0 demo_manager "\<lambda>k. demo_answer (k = 2)" "\<lambda>_. 0", OF _ demo_task(2) _ calm] demo_task
    by (simp add: Let_def)
qed


text \<open>A context that ends while the task waits leaves the task listed as active and running for ever.\<close>

lemma abandoned_task_stays_active:
  assumes "tk_Attempts (rm_tasks m ! a) \<noteq> []" "\<not> re_ctxDone env" "re_waitDone env"
    and "int (length (tk_Attempts (rm_tasks m ! a))) < rs_MaxAttempts (tk_Strategy (rm_tasks m ! a))"
    and "Recovery_calculateDelay oor (re_rnd env) (tk_Strategy (rm_tasks m ! a)) (int (length (tk_Attempts (rm_tasks m ! a))) + 1) > 0"
  shows "task_round oor env a m = (True, task_return a m) \<and> rm_active (task_return a m) = rm_active m \<and>
    rm_tasks (task_return a m) = rm_tasks m"
  using assms by (simp add: task_round_def Let_def task_return_def)

lemma report_after_stop_panics:
  "Recovery_Stop m = Inr m' \<Longrightarrow> Recovery_ReportError n1 n2 now errorType component err severity m' = Inl SendOnClosedChannel"
  by (auto simp: Recovery_Stop_def Recovery_ReportError_def split: if_splits)

end
