(* ===== verification/Acl.thy ===== *)
theory Acl
  imports Go_IP
begin

text \<open>
  Access rules of the control plane (\<open>plane/internal/service/acl.go\<close>): validation, the operations on the table
  \<open>rule_acls\<close>, and the decision for an access. The database is a list of rows; whether a statement fails is an
  argument, and so is the order the query gives rows of the same priority. Strings are ASCII.

  Lemmas: the decision against the rules of the highest priority, validated port ranges as intervals, and which
  rules the table can hold.
\<close>

section \<open>Rules and validation\<close>

record acl_rule =
  acl_ID :: string
  acl_RuleID :: string
  acl_Action :: string
  acl_Priority :: int
  acl_SourceIP :: string
  acl_DestIP :: string
  acl_Protocol :: string
  acl_PortRange :: string

datatype acl_err = AclNoRuleID | AclBadAction | AclBadSource | AclBadDest | AclBadProtocol | AclBadPorts | AclDatabase

definition lower_letter :: "char \<Rightarrow> char" where
  "lower_letter c = (let n = of_char c :: nat in if 65 \<le> n \<and> n \<le> 90 then char_of (n + 32) else c)"

definition ToLower :: "string \<Rightarrow> string" where
  "ToLower s = map lower_letter s"

definition EqualFold :: "string \<Rightarrow> string \<Rightarrow> bool" where
  "EqualFold a b \<longleftrightarrow> ToLower a = ToLower b"

definition validateCIDR :: "string \<Rightarrow> bool" where
  "validateCIDR cidr = (if CHR ''/'' \<notin> set cidr then ParseIP cidr \<noteq> None else ParseCIDR cidr \<noteq> None)"

definition isValidProtocol :: "string \<Rightarrow> bool" where
  "isValidProtocol protocol \<longleftrightarrow> list_ex (\<lambda>p. ToLower protocol = p) [''tcp'', ''udp'', ''icmp'', ''any'']"

definition validatePortRange :: "string \<Rightarrow> bool" where
  "validatePortRange portRange =
     (if CHR ''-'' \<notin> set portRange
      then (case Atoi portRange of None \<Rightarrow> False | Some port \<Rightarrow> \<not> (port < 1 \<or> port > 65535))
      else (case split_at (CHR ''-'') portRange of
              [a, b] \<Rightarrow>
                (case Atoi a of
                   None \<Rightarrow> False
                 | Some start \<Rightarrow> (case Atoi b of
                     None \<Rightarrow> False
                   | Some fin \<Rightarrow> \<not> (start < 1 \<or> start > 65535 \<or> fin < 1 \<or> fin > 65535 \<or> start > fin)))
            | _ \<Rightarrow> False))"

definition ACL_validateACLRule :: "acl_rule \<Rightarrow> acl_err option" where
  "ACL_validateACLRule acl =
     (if acl_RuleID acl = [] then Some AclNoRuleID
      else if acl_Action acl \<noteq> ''allow'' \<and> acl_Action acl \<noteq> ''deny'' then Some AclBadAction
      else if acl_SourceIP acl \<noteq> [] \<and> \<not> validateCIDR (acl_SourceIP acl) then Some AclBadSource
      else if acl_DestIP acl \<noteq> [] \<and> \<not> validateCIDR (acl_DestIP acl) then Some AclBadDest
      else if acl_Protocol acl \<noteq> [] \<and> \<not> isValidProtocol (acl_Protocol acl) then Some AclBadProtocol
      else if acl_PortRange acl \<noteq> [] \<and> \<not> validatePortRange (acl_PortRange acl) then Some AclBadPorts
      else None)"

section \<open>The table\<close>

text \<open>\<open>works\<close> says whether the statement succeeds; \<open>uuid\<close> is the identifier generated for a rule without one.\<close>

definition ACL_CreateACLRule :: "bool \<Rightarrow> string \<Rightarrow> acl_rule \<Rightarrow> acl_rule list \<Rightarrow> acl_err option \<times> acl_rule list" where
  "ACL_CreateACLRule works uuid acl db =
     (case ACL_validateACLRule acl of
        Some e \<Rightarrow> (Some e, db)
      | None \<Rightarrow>
          (let acl = (if acl_ID acl = [] then acl\<lparr> acl_ID := uuid \<rparr> else acl) in
           if works \<and> acl_ID acl \<notin> acl_ID ` set db then (None, db @ [acl]) else (Some AclDatabase, db)))"

definition ACL_UpdateACLRule :: "bool \<Rightarrow> acl_rule \<Rightarrow> acl_rule list \<Rightarrow> acl_err option \<times> acl_rule list" where
  "ACL_UpdateACLRule works acl db =
     (case ACL_validateACLRule acl of
        Some e \<Rightarrow> (Some e, db)
      | None \<Rightarrow>
          if \<not> works then (Some AclDatabase, db)
          else (None, map (\<lambda>r. if acl_ID r = acl_ID acl \<and> acl_RuleID r = acl_RuleID acl
                              then r\<lparr> acl_Action := acl_Action acl, acl_Priority := acl_Priority acl,
                                      acl_SourceIP := acl_SourceIP acl, acl_DestIP := acl_DestIP acl,
                                      acl_Protocol := acl_Protocol acl, acl_PortRange := acl_PortRange acl \<rparr>
                              else r) db))"

definition ACL_DeleteACLRule :: "bool \<Rightarrow> string \<Rightarrow> string \<Rightarrow> acl_rule list \<Rightarrow> acl_err option \<times> acl_rule list" where
  "ACL_DeleteACLRule works aclID ruleID db =
     (if \<not> works then (Some AclDatabase, db)
      else (None, filter (\<lambda>r. \<not> (acl_ID r = aclID \<and> acl_RuleID r = ruleID)) db))"

text \<open>The rows by descending priority; \<open>mix\<close> is the order in which the database holds rows, which decides
  between rows of the same priority.\<close>

definition ACL_GetACLRules :: "bool \<Rightarrow> (acl_rule list \<Rightarrow> acl_rule list) \<Rightarrow> string \<Rightarrow> acl_rule list \<Rightarrow> acl_err + acl_rule list" where
  "ACL_GetACLRules works mix ruleID db =
     (if \<not> works then Inl AclDatabase
      else Inr (sort_key (\<lambda>r. - acl_Priority r) (mix (filter (\<lambda>r. acl_RuleID r = ruleID) db))))"

section \<open>The decision\<close>

definition matchIP :: "string \<Rightarrow> string \<Rightarrow> bool" where
  "matchIP ip cidr =
     (if CHR ''/'' \<notin> set cidr then ip = cidr
      else (case ParseCIDR cidr of
              None \<Rightarrow> False
            | Some ipNet \<Rightarrow> IPNet_Contains ipNet (case ParseIP ip of None \<Rightarrow> [] | Some a \<Rightarrow> a)))"

definition matchProtocol :: "string \<Rightarrow> string \<Rightarrow> bool" where
  "matchProtocol protocol ruleProtocol = EqualFold protocol ruleProtocol"

definition matchPort :: "int \<Rightarrow> string \<Rightarrow> bool" where
  "matchPort port portRange =
     (if CHR ''-'' \<notin> set portRange
      then (case Atoi portRange of None \<Rightarrow> False | Some rulePort \<Rightarrow> port = rulePort)
      else (case split_at (CHR ''-'') portRange of
              [a, b] \<Rightarrow>
                (case Atoi a of
                   None \<Rightarrow> False
                 | Some start \<Rightarrow> (case Atoi b of
                     None \<Rightarrow> False
                   | Some fin \<Rightarrow> port \<ge> start \<and> port \<le> fin))
            | _ \<Rightarrow> False))"

definition acl_matches :: "string \<Rightarrow> string \<Rightarrow> string \<Rightarrow> int \<Rightarrow> acl_rule \<Rightarrow> bool" where
  "acl_matches sourceIP destIP protocol port r \<longleftrightarrow>
     \<not> (acl_SourceIP r \<noteq> [] \<and> \<not> matchIP sourceIP (acl_SourceIP r)) \<and>
     \<not> (acl_DestIP r \<noteq> [] \<and> \<not> matchIP destIP (acl_DestIP r)) \<and>
     \<not> (acl_Protocol r \<noteq> [] \<and> acl_Protocol r \<noteq> ''any'' \<and> \<not> matchProtocol protocol (acl_Protocol r)) \<and>
     \<not> (acl_PortRange r \<noteq> [] \<and> \<not> matchPort port (acl_PortRange r))"

fun check_loop :: "string \<Rightarrow> string \<Rightarrow> string \<Rightarrow> int \<Rightarrow> acl_rule list \<Rightarrow> bool" where
  "check_loop sourceIP destIP protocol port [] = True"
| "check_loop sourceIP destIP protocol port (r # rs) =
     (if acl_matches sourceIP destIP protocol port r then acl_Action r = ''allow''
      else check_loop sourceIP destIP protocol port rs)"

definition ACL_CheckAccess ::
    "bool \<Rightarrow> (acl_rule list \<Rightarrow> acl_rule list) \<Rightarrow> string \<Rightarrow> string \<Rightarrow> string \<Rightarrow> string \<Rightarrow> int \<Rightarrow> acl_rule list \<Rightarrow> bool \<times> acl_err option" where
  "ACL_CheckAccess works mix ruleID sourceIP destIP protocol port db =
     (case ACL_GetACLRules works mix ruleID db of
        Inl e \<Rightarrow> (False, Some e)
      | Inr rules \<Rightarrow>
          if rules = [] then (True, None) else (check_loop sourceIP destIP protocol port rules, None))"

section \<open>First match\<close>

lemma check_loop_find:
  "check_loop s d p q rs = (case find (acl_matches s d p q) rs of None \<Rightarrow> True | Some r \<Rightarrow> acl_Action r = ''allow'')"
  by (induction rs) auto

lemma find_sorted:
  assumes "sorted (map f rs)" "find P rs = Some r" "x \<in> set rs" "P x"
  shows "P r \<and> r \<in> set rs \<and> f r \<le> (f x :: int)"
  using assms
proof (induction rs)
  case (Cons y rs)
  then show ?case by (cases "P y") auto
qed simp

text \<open>
  When the query works, an access is allowed if no rule matches it, and otherwise the action of a matching rule
  with the highest priority among the matching ones decides; with several of them that agree, their action does,
  whatever the order of the rows.
\<close>

theorem acl_decision:
  assumes "\<And>rs. mset (mix rs) = mset rs"
  shows "let ms = {r \<in> set db. acl_RuleID r = ruleID \<and> acl_matches s d p q r} in
    \<exists>ok. ACL_CheckAccess True mix ruleID s d p q db = (ok, None) \<and>
    (ms = {} \<longrightarrow> ok) \<and>
    (ms \<noteq> {} \<longrightarrow> (\<exists>r \<in> ms. (\<forall>x \<in> ms. acl_Priority x \<le> acl_Priority r) \<and> ok = (acl_Action r = ''allow''))) \<and>
    (\<forall>act. ms \<noteq> {} \<and> (\<forall>r \<in> ms. (\<forall>x \<in> ms. acl_Priority x \<le> acl_Priority r) \<longrightarrow> acl_Action r = act) \<longrightarrow> ok = (act = ''allow''))"
proof -
  define ms where "ms = {r \<in> set db. acl_RuleID r = ruleID \<and> acl_matches s d p q r}"
  define rs where "rs = sort_key (\<lambda>r. - acl_Priority r) (mix (filter (\<lambda>r. acl_RuleID r = ruleID) db))"
  have "set (mix xs) = set xs" for xs using assms(1) [of xs] by (metis set_mset_mset)
  then have set: "set rs = {r \<in> set db. acl_RuleID r = ruleID}" by (simp add: rs_def)
  have sorted: "sorted (map (\<lambda>r. - acl_Priority r) rs)" by (simp add: rs_def)
  let ?f = "find (acl_matches s d p q) rs"
  have ok: "ACL_CheckAccess True mix ruleID s d p q db = (case ?f of None \<Rightarrow> True | Some r \<Rightarrow> acl_Action r = ''allow'', None)"
    unfolding ACL_CheckAccess_def ACL_GetACLRules_def by (simp add: rs_def [symmetric] check_loop_find)
  show ?thesis
  proof (cases ?f)
    case None
    then have "ms = {}" using set by (auto simp: find_None_iff ms_def)
    then show ?thesis using ok None unfolding Let_def ms_def [symmetric] by auto
  next
    case (Some r)
    have r: "r \<in> ms" using Some set by (auto simp: find_Some_iff ms_def)
    have top: "acl_Priority x \<le> acl_Priority r" if "x \<in> ms" for x
      using find_sorted [OF sorted Some, of x] that set by (auto simp: ms_def)
    have "\<exists>r \<in> ms. (\<forall>x \<in> ms. acl_Priority x \<le> acl_Priority r) \<and> (acl_Action r = ''allow'') = (acl_Action r = ''allow'')"
      using r top by blast
    then show ?thesis unfolding ok Let_def ms_def [symmetric] using Some r top by auto
  qed
qed

definition demo_acls :: "acl_rule list" where
  "demo_acls =
     [\<lparr> acl_ID = ''1'', acl_RuleID = ''r'', acl_Action = ''allow'', acl_Priority = 10, acl_SourceIP = ''10.0.0.0/8'', acl_DestIP = [],
        acl_Protocol = ''tcp'', acl_PortRange = ''80-90'' \<rparr>,
      \<lparr> acl_ID = ''2'', acl_RuleID = ''r'', acl_Action = ''deny'', acl_Priority = 1, acl_SourceIP = [], acl_DestIP = [],
        acl_Protocol = [], acl_PortRange = [] \<rparr>]"

theorem acl_decision_witness:
  "ACL_CheckAccess True (\<lambda>rs. rs) ''r'' ''10.1.2.3'' ''192.0.2.1'' ''tcp'' 85 demo_acls = (True, None)"
proof -
  have m: "acl_matches ''10.1.2.3'' ''192.0.2.1'' ''tcp'' 85 (demo_acls ! 0)" "acl_matches ''10.1.2.3'' ''192.0.2.1'' ''tcp'' 85 (demo_acls ! 1)"
    by code_simp+
  have ms: "{r \<in> set demo_acls. acl_RuleID r = ''r'' \<and> acl_matches ''10.1.2.3'' ''192.0.2.1'' ''tcp'' 85 r} = {demo_acls ! 0, demo_acls ! 1}"
    using m by (auto simp: demo_acls_def)
  have p: "acl_Priority (demo_acls ! 0) = 10" "acl_Priority (demo_acls ! 1) = 1" "acl_Action (demo_acls ! 0) = ''allow''"
    by (simp_all add: demo_acls_def)
  show ?thesis
    using acl_decision [of "\<lambda>rs. rs" demo_acls "''r''" "''10.1.2.3''" "''192.0.2.1''" "''tcp''" 85] p
    unfolding ms by (auto simp: Let_def)
qed

section \<open>Port ranges\<close>

text \<open>
  A port range that passed validation is an interval of ports between 1 and 65535, and the match is membership in
  it; a single port is the interval of one.
\<close>

theorem port_range_interval:
  assumes "validatePortRange r"
  shows "\<exists>a b. 1 \<le> a \<and> a \<le> b \<and> b \<le> 65535 \<and> (\<forall>port. matchPort port r \<longleftrightarrow> a \<le> port \<and> port \<le> b)"
proof (cases "CHR ''-'' \<in> set r")
  case False
  then obtain p where p: "Atoi r = Some p" "1 \<le> p" "p \<le> 65535"
    using assms by (auto simp: validatePortRange_def split: option.splits)
  then have "\<forall>port. matchPort port r \<longleftrightarrow> p \<le> port \<and> port \<le> p" using False by (auto simp: matchPort_def)
  then show ?thesis using p by blast
next
  case True
  then obtain x y a b where ab: "split_at (CHR ''-'') r = [x, y]" "Atoi x = Some a" "Atoi y = Some b"
      "1 \<le> a" "a \<le> b" "b \<le> 65535"
    using assms by (auto simp: validatePortRange_def split: option.splits list.splits)
  then have "\<forall>port. matchPort port r \<longleftrightarrow> a \<le> port \<and> port \<le> b" using True by (simp add: matchPort_def)
  then show ?thesis using ab by blast
qed

theorem port_range_interval_witness:
  "\<exists>a b. (\<forall>port. matchPort port ''80-90'' \<longleftrightarrow> a \<le> port \<and> port \<le> b) \<and> 1 \<le> a \<and> b \<le> 65535"
proof -
  have "validatePortRange ''80-90''" by code_simp
  from port_range_interval [OF this] show ?thesis by blast
qed

section \<open>What validation misses\<close>

text \<open>The name \<open>any\<close> is valid in any case, but only in lower case does it stand for every protocol.\<close>

lemma upper_case_any:
  "isValidProtocol ''ANY'' \<and> \<not> acl_matches s d ''tcp'' q (r\<lparr> acl_Protocol := ''ANY'' \<rparr>)"
proof
  show "isValidProtocol ''ANY''" by code_simp
  have "\<not> matchProtocol ''tcp'' ''ANY''" by code_simp
  then show "\<not> acl_matches s d ''tcp'' q (r\<lparr> acl_Protocol := ''ANY'' \<rparr>)" by (simp add: acl_matches_def)
qed

text \<open>A single address is compared as text: another way to write the same address is valid and never matches.\<close>

lemma single_address_as_text:
  "validateCIDR ''0:0::1'' \<and> ParseIP ''0:0::1'' = ParseIP ''::1'' \<and> \<not> matchIP ''::1'' ''0:0::1''"
proof -
  have "ParseIP ''0:0::1'' = Some (replicate 15 0 @ [1])" "ParseIP ''::1'' = Some (replicate 15 0 @ [1])" by code_simp+
  then show ?thesis by (simp add: validateCIDR_def matchIP_def)
qed

end
