(* ===== verification/Client_Ports.thy ===== *)
theory Client_Ports
  imports Prelude
begin

text \<open>
  The client's port manager (\<open>client/internal/ports/manager.go\<close>): which ports are handed out, to whom, and the
  listeners on them. The operating system is the set of TCP and UDP ports bound by anybody: listening on a port
  succeeds exactly when it is free, closing frees it, and port 0 stands for any free port and is never taken. The
  clock and the random choice of a port are arguments. The fields of a port that no code sets (process,
  meta-data), connection handlers, logging and statistics for display are left out.

  Lemmas: the ports a listener holds, what an allocation grants, and the list of available ports.
\<close>

section \<open>State\<close>

datatype port_type = PortTypeTCP | PortTypeUDP | PortTypeBoth

datatype port_status = PortStatusAvailable | PortStatusOccupied | PortStatusReserved | PortStatusConflict

datatype conflict_policy = ConflictPolicyError | ConflictPolicyRetry | ConflictPolicyForce

fun PortType_String :: "port_type \<Rightarrow> string" where
  "PortType_String PortTypeTCP = ''TCP''"
| "PortType_String PortTypeUDP = ''UDP''"
| "PortType_String PortTypeBoth = ''BOTH''"

fun PortStatus_String :: "port_status \<Rightarrow> string" where
  "PortStatus_String PortStatusAvailable = ''AVAILABLE''"
| "PortStatus_String PortStatusOccupied = ''OCCUPIED''"
| "PortStatus_String PortStatusReserved = ''RESERVED''"
| "PortStatus_String PortStatusConflict = ''CONFLICT''"

fun ConflictPolicy_String :: "conflict_policy \<Rightarrow> string" where
  "ConflictPolicy_String ConflictPolicyError = ''ERROR''"
| "ConflictPolicy_String ConflictPolicyRetry = ''RETRY''"
| "ConflictPolicy_String ConflictPolicyForce = ''FORCE''"

record port_info =
  pi_Port :: u16
  pi_Type :: port_type
  pi_Status :: port_status
  pi_Owner :: string
  pi_CreatedAt :: int
  pi_UpdatedAt :: int

definition NewPortInfo :: "int \<Rightarrow> u16 \<Rightarrow> port_type \<Rightarrow> string \<Rightarrow> port_info" where
  "NewPortInfo now port portType owner =
     \<lparr> pi_Port = port, pi_Type = portType, pi_Status = PortStatusAvailable, pi_Owner = owner, pi_CreatedAt = now, pi_UpdatedAt = now \<rparr>"

text \<open>\<open>pli_TCPConn\<close> and \<open>pli_UDPConn\<close> say whether the socket was opened, \<open>pli_accepting\<close> whether the loop that accepts
  TCP connections runs.\<close>

record port_listener =
  pli_Port :: u16
  pli_Type :: port_type
  pli_TCPConn :: bool
  pli_UDPConn :: bool
  pli_Owner :: string
  pli_CreatedAt :: int
  pli_Active :: bool
  pli_accepting :: bool

definition NewPortListener :: "int \<Rightarrow> u16 \<Rightarrow> port_type \<Rightarrow> string \<Rightarrow> port_listener" where
  "NewPortListener now port portType owner =
     \<lparr> pli_Port = port, pli_Type = portType, pli_TCPConn = False, pli_UDPConn = False, pli_Owner = owner, pli_CreatedAt = now,
       pli_Active = False, pli_accepting = False \<rparr>"

record os_ports =
  os_tcp :: "u16 list"
  os_udp :: "u16 list"

record ports_config =
  po_MinPort :: u16
  po_MaxPort :: u16
  po_ReservedPorts :: "u16 list"
  po_ScanEnabled :: bool
  po_ScanInterval :: int
  po_ScanTimeout :: int
  po_ConflictPolicy :: conflict_policy
  po_RetryAttempts :: int
  po_RetryDelay :: int
  po_MaxListeners :: int

definition DefaultPortsConfig :: ports_config where
  "DefaultPortsConfig =
     \<lparr> po_MinPort = 10000, po_MaxPort = 65535, po_ReservedPorts = [22, 80, 443, 8080, 9090], po_ScanEnabled = True,
       po_ScanInterval = 30 * 10 ^ 9, po_ScanTimeout = 5 * 10 ^ 9, po_ConflictPolicy = ConflictPolicyRetry,
       po_RetryAttempts = 10, po_RetryDelay = 100 * 10 ^ 6, po_MaxListeners = 1000 \<rparr>"

record ports_manager =
  pm_config :: ports_config
  pm_ports :: "(u16 \<times> port_info) list"
  pm_listeners :: "(u16 \<times> port_listener) list"
  pm_totalPorts :: int
  pm_occupiedPorts :: int
  pm_conflictCount :: int
  pm_os :: os_ports

definition NewPortsManager :: "os_ports \<Rightarrow> ports_config option \<Rightarrow> ports_manager" where
  "NewPortsManager os config =
     \<lparr> pm_config = (case config of None \<Rightarrow> DefaultPortsConfig | Some c \<Rightarrow> c), pm_ports = [], pm_listeners = [],
       pm_totalPorts = 0, pm_occupiedPorts = 0, pm_conflictCount = 0, pm_os = os \<rparr>"

section \<open>Listeners\<close>

definition listen_tcp :: "u16 \<Rightarrow> os_ports \<Rightarrow> os_ports option" where
  "listen_tcp p os =
     (if p = 0 then Some os else if p \<in> set (os_tcp os) then None else Some (os\<lparr> os_tcp := p # os_tcp os \<rparr>))"

definition listen_udp :: "u16 \<Rightarrow> os_ports \<Rightarrow> os_ports option" where
  "listen_udp p os =
     (if p = 0 then Some os else if p \<in> set (os_udp os) then None else Some (os\<lparr> os_udp := p # os_udp os \<rparr>))"

definition close_tcp :: "u16 \<Rightarrow> os_ports \<Rightarrow> os_ports" where
  "close_tcp p os = os\<lparr> os_tcp := removeAll p (os_tcp os) \<rparr>"

definition close_udp :: "u16 \<Rightarrow> os_ports \<Rightarrow> os_ports" where
  "close_udp p os = os\<lparr> os_udp := removeAll p (os_udp os) \<rparr>"

text \<open>
  \<open>Start\<close> starts the accepting goroutine before it sets \<open>Active\<close>, which the goroutine tests first: \<open>late\<close> says
  that it looks only afterwards. \<open>None\<close> is an error.
\<close>

definition PortListener_Start :: "bool \<Rightarrow> port_listener \<Rightarrow> os_ports \<Rightarrow> port_listener option \<times> os_ports" where
  "PortListener_Start late pl os =
     (if pli_Active pl then (None, os)
      else
        (let tcp = pli_Type pl = PortTypeTCP \<or> pli_Type pl = PortTypeBoth;
             udp = pli_Type pl = PortTypeUDP \<or> pli_Type pl = PortTypeBoth
         in case (if tcp then listen_tcp (pli_Port pl) os else Some os) of
              None \<Rightarrow> (None, os)
            | Some os1 \<Rightarrow>
                (case (if udp then listen_udp (pli_Port pl) os1 else Some os1) of
                   None \<Rightarrow> (None, if tcp then close_tcp (pli_Port pl) os1 else os1)
                 | Some os2 \<Rightarrow>
                     (Some (pl\<lparr> pli_TCPConn := tcp \<or> pli_TCPConn pl, pli_UDPConn := udp \<or> pli_UDPConn pl,
                               pli_Active := True, pli_accepting := tcp \<and> late \<rparr>), os2))))"

definition PortListener_Stop :: "port_listener \<Rightarrow> os_ports \<Rightarrow> port_listener \<times> os_ports" where
  "PortListener_Stop pl os =
     (if \<not> pli_Active pl then (pl, os)
      else (pl\<lparr> pli_Active := False, pli_accepting := False \<rparr>,
            (let os1 = (if pli_TCPConn pl then close_tcp (pli_Port pl) os else os)
             in if pli_UDPConn pl then close_udp (pli_Port pl) os1 else os1)))"

section \<open>Allocation\<close>

definition Ports_isPortInRange :: "ports_config \<Rightarrow> u16 \<Rightarrow> bool" where
  "Ports_isPortInRange c port \<longleftrightarrow> port \<ge> po_MinPort c \<and> port \<le> po_MaxPort c"

definition Ports_isReservedPort :: "ports_config \<Rightarrow> u16 \<Rightarrow> bool" where
  "Ports_isReservedPort c port \<longleftrightarrow> list_ex (\<lambda>reserved. port = reserved) (po_ReservedPorts c)"

definition Ports_checkTCPPortAvailable :: "os_ports \<Rightarrow> u16 \<Rightarrow> bool" where
  "Ports_checkTCPPortAvailable os port \<longleftrightarrow> listen_tcp port os \<noteq> None"

definition Ports_checkUDPPortAvailable :: "os_ports \<Rightarrow> u16 \<Rightarrow> bool" where
  "Ports_checkUDPPortAvailable os port \<longleftrightarrow> listen_udp port os \<noteq> None"

definition Ports_isPortAvailable :: "os_ports \<Rightarrow> u16 \<Rightarrow> port_type \<Rightarrow> bool" where
  "Ports_isPortAvailable os port portType =
     (if (portType = PortTypeTCP \<or> portType = PortTypeBoth) \<and> \<not> Ports_checkTCPPortAvailable os port then False
      else if (portType = PortTypeUDP \<or> portType = PortTypeBoth) \<and> \<not> Ports_checkUDPPortAvailable os port then False
      else True)"

datatype local_port_err = ErrOutOfRange | ErrReserved | ErrUnavailable | ErrNoPort | ErrNotAllocated | ErrNotOwner
  | ErrTooManyListeners | ErrHasListener | ErrStartFailed | ErrNoListener

definition Ports_allocateSpecificPort ::
    "int \<Rightarrow> u16 \<Rightarrow> port_type \<Rightarrow> string \<Rightarrow> ports_manager \<Rightarrow> (local_port_err + u16) \<times> ports_manager" where
  "Ports_allocateSpecificPort now port portType owner m =
     (if \<not> Ports_isPortInRange (pm_config m) port then (Inl ErrOutOfRange, m)
      else if Ports_isReservedPort (pm_config m) port then (Inl ErrReserved, m)
      else if \<not> Ports_isPortAvailable (pm_os m) port portType \<and> po_ConflictPolicy (pm_config m) \<noteq> ConflictPolicyForce
      then (Inl ErrUnavailable, m)
      else (Inr port,
            m\<lparr> pm_ports := AList.update port ((NewPortInfo now port portType owner)\<lparr> pi_Status := PortStatusOccupied \<rparr>) (pm_ports m),
               pm_occupiedPorts := add64 (pm_occupiedPorts m) 1 \<rparr>))"

definition Ports_generateRandomPort :: "int \<Rightarrow> ports_config \<Rightarrow> u16" where
  "Ports_generateRandomPort nano c =
     of_int (nano mod (int (unat (po_MaxPort c - po_MinPort c)) + 1)) + po_MinPort c"

text \<open>
  The retries, with the clock of each; between two of them the operating system may change, which the function
  \<open>world\<close> gives.
\<close>

fun allocate_attempts ::
    "(nat \<Rightarrow> int) \<Rightarrow> (nat \<Rightarrow> os_ports \<Rightarrow> os_ports) \<Rightarrow> nat \<Rightarrow> nat \<Rightarrow> port_type \<Rightarrow> string \<Rightarrow> ports_manager \<Rightarrow> (local_port_err + u16) \<times> ports_manager" where
  "allocate_attempts clk world attempt 0 portType owner m = (Inl ErrNoPort, m)"
| "allocate_attempts clk world attempt (Suc left) portType owner m0 =
     (let m = m0\<lparr> pm_os := world attempt (pm_os m0) \<rparr>; port = Ports_generateRandomPort (clk attempt) (pm_config m) in
      if Ports_isReservedPort (pm_config m) port then allocate_attempts clk world (Suc attempt) left portType owner m
      else if Ports_isPortAvailable (pm_os m) port portType
      then (case Ports_allocateSpecificPort (clk attempt) port portType owner m of
              (Inr p, m') \<Rightarrow> (Inr p, m')
            | (Inl _, m') \<Rightarrow> allocate_attempts clk world (Suc attempt) left portType owner m')
      else allocate_attempts clk world (Suc attempt) left portType owner m)"

definition Ports_allocateAvailablePort ::
    "(nat \<Rightarrow> int) \<Rightarrow> (nat \<Rightarrow> os_ports \<Rightarrow> os_ports) \<Rightarrow> port_type \<Rightarrow> string \<Rightarrow> ports_manager \<Rightarrow> (local_port_err + u16) \<times> ports_manager" where
  "Ports_allocateAvailablePort clk world portType owner m =
     allocate_attempts clk world 0 (nat (po_RetryAttempts (pm_config m))) portType owner m"

definition Ports_AllocatePort ::
    "int \<Rightarrow> (nat \<Rightarrow> int) \<Rightarrow> (nat \<Rightarrow> os_ports \<Rightarrow> os_ports) \<Rightarrow> port_type \<Rightarrow> string \<Rightarrow> u16 \<Rightarrow> ports_manager \<Rightarrow> (local_port_err + u16) \<times> ports_manager" where
  "Ports_AllocatePort now clk world portType owner preferredPort m =
     (if preferredPort \<noteq> 0
      then (case Ports_allocateSpecificPort now preferredPort portType owner m of
              (Inr port, m') \<Rightarrow> (Inr port, m')
            | (Inl _, m') \<Rightarrow>
                if po_ConflictPolicy (pm_config m') = ConflictPolicyError then (Inl ErrUnavailable, m')
                else Ports_allocateAvailablePort clk world portType owner m')
      else Ports_allocateAvailablePort clk world portType owner m)"

definition stop_listener :: "u16 \<Rightarrow> ports_manager \<Rightarrow> ports_manager" where
  "stop_listener port m =
     (case map_of (pm_listeners m) port of
        None \<Rightarrow> m
      | Some pl \<Rightarrow> m\<lparr> pm_os := snd (PortListener_Stop pl (pm_os m)), pm_listeners := AList.delete port (pm_listeners m) \<rparr>)"

definition Ports_ReleasePort :: "u16 \<Rightarrow> string \<Rightarrow> ports_manager \<Rightarrow> (local_port_err + unit) \<times> ports_manager" where
  "Ports_ReleasePort port owner m =
     (case map_of (pm_ports m) port of
        None \<Rightarrow> (Inl ErrNotAllocated, m)
      | Some info \<Rightarrow>
          if pi_Owner info \<noteq> owner then (Inl ErrNotOwner, m)
          else (let m1 = stop_listener port m
                in (Inr (), m1\<lparr> pm_ports := AList.delete port (pm_ports m1),
                                pm_occupiedPorts := add64 (pm_occupiedPorts m1) (- 1) \<rparr>)))"

definition Ports_StartListener ::
    "bool \<Rightarrow> int \<Rightarrow> u16 \<Rightarrow> port_type \<Rightarrow> string \<Rightarrow> ports_manager \<Rightarrow> (local_port_err + unit) \<times> ports_manager" where
  "Ports_StartListener late now port portType owner m =
     (if int (length (pm_listeners m)) \<ge> po_MaxListeners (pm_config m) then (Inl ErrTooManyListeners, m)
      else if map_of (pm_listeners m) port \<noteq> None then (Inl ErrHasListener, m)
      else (case PortListener_Start late (NewPortListener now port portType owner) (pm_os m) of
              (None, os) \<Rightarrow> (Inl ErrStartFailed, m\<lparr> pm_os := os \<rparr>)
            | (Some pl, os) \<Rightarrow>
                (let m1 = m\<lparr> pm_os := os, pm_listeners := AList.update port pl (pm_listeners m) \<rparr>
                 in (Inr (),
                     case map_of (pm_ports m1) port of
                       Some info \<Rightarrow> m1\<lparr> pm_ports := AList.update port (info\<lparr> pi_Status := PortStatusOccupied \<rparr>) (pm_ports m1) \<rparr>
                     | None \<Rightarrow> m1\<lparr> pm_ports := AList.update port
                                     ((NewPortInfo now port portType owner)\<lparr> pi_Status := PortStatusOccupied \<rparr>) (pm_ports m1),
                                   pm_occupiedPorts := add64 (pm_occupiedPorts m1) 1 \<rparr>))))"

definition Ports_StopListener :: "u16 \<Rightarrow> string \<Rightarrow> ports_manager \<Rightarrow> (local_port_err + unit) \<times> ports_manager" where
  "Ports_StopListener port owner m =
     (case map_of (pm_listeners m) port of
        None \<Rightarrow> (Inl ErrNoListener, m)
      | Some pl \<Rightarrow>
          if pli_Owner pl \<noteq> owner then (Inl ErrNotOwner, m)
          else (let m1 = stop_listener port m
                in (Inr (),
                    case map_of (pm_ports m1) port of
                      None \<Rightarrow> m1
                    | Some info \<Rightarrow> m1\<lparr> pm_ports := AList.update port (info\<lparr> pi_Status := PortStatusAvailable \<rparr>) (pm_ports m1) \<rparr>)))"

section \<open>Start, stop and scan\<close>

definition Ports_initReservedPorts :: "int \<Rightarrow> ports_manager \<Rightarrow> ports_manager" where
  "Ports_initReservedPorts now m =
     (let ports = fold (\<lambda>port. AList.update port ((NewPortInfo now port PortTypeBoth ''system'')\<lparr> pi_Status := PortStatusReserved \<rparr>))
                    (po_ReservedPorts (pm_config m)) (pm_ports m)
      in m\<lparr> pm_ports := ports, pm_totalPorts := int (length ports) \<rparr>)"

text \<open>\<open>Stop\<close> visits the listeners in the order \<open>ord\<close> and leaves them in the map.\<close>

definition Ports_Stop :: "u16 list \<Rightarrow> ports_manager \<Rightarrow> ports_manager" where
  "Ports_Stop ord m =
     fold (\<lambda>port m. case map_of (pm_listeners m) port of
              None \<Rightarrow> m
            | Some pl \<Rightarrow> (case PortListener_Stop pl (pm_os m) of
                (pl', os) \<Rightarrow> m\<lparr> pm_os := os, pm_listeners := AList.update port pl' (pm_listeners m) \<rparr>)) ord m"

definition Ports_scanPort :: "int \<Rightarrow> u16 \<Rightarrow> ports_manager \<Rightarrow> ports_manager" where
  "Ports_scanPort now port m =
     (case map_of (pm_ports m) port of
        None \<Rightarrow> m
      | Some info \<Rightarrow>
          (let actuallyAvailable = Ports_isPortAvailable (pm_os m) port (pi_Type info);
               freed = (pi_Status info = PortStatusOccupied \<and> actuallyAvailable \<and> map_of (pm_listeners m) port = None);
               clash = (pi_Status info = PortStatusAvailable \<and> \<not> actuallyAvailable);
               status = (if freed then PortStatusAvailable else if clash then PortStatusConflict else pi_Status info)
           in m\<lparr> pm_ports := AList.update port (info\<lparr> pi_Status := status, pi_UpdatedAt := now \<rparr>) (pm_ports m),
                 pm_occupiedPorts := (if freed then add64 (pm_occupiedPorts m) (- 1) else pm_occupiedPorts m),
                 pm_conflictCount := (if clash then add64 (pm_conflictCount m) 1 else pm_conflictCount m) \<rparr>))"

definition Ports_scanPorts :: "(u16 \<Rightarrow> int) \<Rightarrow> u16 list \<Rightarrow> ports_manager \<Rightarrow> ports_manager" where
  "Ports_scanPorts clk ord m = fold (\<lambda>port. Ports_scanPort (clk port) port) ord m"

definition Ports_GetPortInfo :: "u16 \<Rightarrow> ports_manager \<Rightarrow> port_info option" where
  "Ports_GetPortInfo port m = map_of (pm_ports m) port"

text \<open>The loop over the ports, whose counter has 16 bits; \<open>None\<close> when it does not end.\<close>

partial_function (option) available_loop :: "(u16 \<Rightarrow> bool) \<Rightarrow> u16 \<Rightarrow> int \<Rightarrow> u16 \<Rightarrow> u16 list \<Rightarrow> u16 list option" where
  "available_loop usable maxPort cnt port available =
     (if port \<le> maxPort \<and> int (length available) < cnt
      then available_loop usable maxPort cnt (port + 1) (if usable port then available @ [port] else available)
      else Some available)"

definition usable_port :: "ports_manager \<Rightarrow> u16 \<Rightarrow> bool" where
  "usable_port m port \<longleftrightarrow> \<not> Ports_isReservedPort (pm_config m) port \<and> Ports_isPortAvailable (pm_os m) port PortTypeBoth"

definition Ports_GetAvailablePorts :: "int \<Rightarrow> ports_manager \<Rightarrow> u16 list option" where
  "Ports_GetAvailablePorts cnt m =
     available_loop (usable_port m) (po_MaxPort (pm_config m)) cnt (po_MinPort (pm_config m)) []"

section \<open>What an allocation grants\<close>

lemma specific_granted:
  assumes "Ports_allocateSpecificPort now port portType owner m = (Inr p, m')"
  shows "p = port \<and> Ports_isPortInRange (pm_config m) p \<and> \<not> Ports_isReservedPort (pm_config m) p \<and>
    (Ports_isPortAvailable (pm_os m) p portType \<or> po_ConflictPolicy (pm_config m) = ConflictPolicyForce) \<and>
    pm_os m' = pm_os m \<and> pm_listeners m' = pm_listeners m \<and> pm_config m' = pm_config m \<and>
    (\<exists>info. map_of (pm_ports m') p = Some info \<and> pi_Owner info = owner \<and> pi_Status info = PortStatusOccupied)"
  using assms by (auto simp: Ports_allocateSpecificPort_def NewPortInfo_def split: if_splits)

lemma specific_refused:
  assumes "Ports_allocateSpecificPort now port portType owner m = (Inl e, m')"
  shows "m' = m"
  using assms by (auto simp: Ports_allocateSpecificPort_def split: if_splits)

lemma attempts_granted:
  assumes "allocate_attempts clk world k left portType owner m = (Inr p, m')"
  shows "Ports_isPortInRange (pm_config m) p \<and> \<not> Ports_isReservedPort (pm_config m) p \<and>
    Ports_isPortAvailable (pm_os m') p portType \<and> pm_config m' = pm_config m \<and> pm_listeners m' = pm_listeners m \<and>
    (\<exists>info. map_of (pm_ports m') p = Some info \<and> pi_Owner info = owner \<and> pi_Status info = PortStatusOccupied)"
  using assms
proof (induction left arbitrary: k m)
  case (Suc left)
  let ?m = "m\<lparr> pm_os := world k (pm_os m) \<rparr>"
  let ?port = "Ports_generateRandomPort (clk k) (pm_config ?m)"
  have IH: ?case if "allocate_attempts clk world (Suc k) left portType owner ?m = (Inr p, m')"
    using Suc.IH [OF that] by simp
  show ?case
  proof (cases "\<not> Ports_isReservedPort (pm_config ?m) ?port \<and> Ports_isPortAvailable (pm_os ?m) ?port portType")
    case True
    show ?thesis
    proof (cases "Ports_allocateSpecificPort (clk k) ?port portType owner ?m")
      case (Pair r m1)
      show ?thesis
      proof (cases r)
        case (Inr q)
        then have eq: "q = p" "m1 = m'" using Suc.prems True Pair by (simp_all add: Let_def)
        note g = specific_granted [OF Pair [unfolded Inr eq]]
        then have "p = ?port" by blast
        then show ?thesis using g True by auto
      next
        case (Inl e)
        then have "m1 = ?m" using specific_refused Pair by blast
        then show ?thesis using IH Suc.prems True Pair Inl by (simp add: Let_def)
      qed
    qed
  next
    case False
    then show ?thesis using IH Suc.prems by (auto simp: Let_def split: if_splits)
  qed
qed simp

text \<open>
  A port that is granted lies in the configured range and is not reserved, it was free in the operating system at
  that moment, unless it is the preferred port and the policy is to force it, and it is recorded as occupied by
  its owner.
\<close>

theorem allocate_port_spec:
  assumes "Ports_AllocatePort now clk world portType owner preferred m = (Inr p, m')"
  shows "po_MinPort (pm_config m) \<le> p \<and> p \<le> po_MaxPort (pm_config m) \<and> p \<notin> set (po_ReservedPorts (pm_config m)) \<and>
    (Ports_isPortAvailable (pm_os m') p portType \<or>
     p = preferred \<and> po_ConflictPolicy (pm_config m) = ConflictPolicyForce) \<and>
    (\<exists>info. Ports_GetPortInfo p m' = Some info \<and> pi_Owner info = owner \<and> pi_Status info = PortStatusOccupied)"
proof -
  have reserved: "Ports_isReservedPort c q \<longleftrightarrow> q \<in> set (po_ReservedPorts c)" for c q
    by (auto simp: Ports_isReservedPort_def list_ex_iff)
  have auto: ?thesis if "Ports_allocateAvailablePort clk world portType owner m = (Inr p, m')"
    using attempts_granted [OF that [unfolded Ports_allocateAvailablePort_def]]
    by (simp add: reserved Ports_isPortInRange_def Ports_GetPortInfo_def)
  show ?thesis
  proof (cases "preferred = 0")
    case True
    then show ?thesis using auto assms by (simp add: Ports_AllocatePort_def)
  next
    case False
    obtain r m1 where spec: "Ports_allocateSpecificPort now preferred portType owner m = (r, m1)" by fastforce
    show ?thesis
    proof (cases r)
      case (Inr q)
      then have eq: "q = p" "m1 = m'" using assms False spec by (simp_all add: Ports_AllocatePort_def)
      show ?thesis using specific_granted [OF spec [unfolded Inr eq]]
        by (auto simp: reserved Ports_isPortInRange_def Ports_GetPortInfo_def)
    next
      case (Inl e)
      then have "m1 = m" using specific_refused spec by blast
      then show ?thesis using auto assms False spec Inl by (simp add: Ports_AllocatePort_def split: if_splits)
    qed
  qed
qed

definition demo_ports :: ports_manager where
  "demo_ports = NewPortsManager \<lparr> os_tcp = [10000], os_udp = [] \<rparr> None"

theorem allocate_port_spec_witness:
  "\<exists>m'. Ports_AllocatePort 0 int (\<lambda>_ os. os) PortTypeTCP ''a'' 10000 demo_ports = (Inr 10001, m') \<and>
     Ports_isPortAvailable (pm_os m') 10001 PortTypeTCP"
proof -
  have ten: "nat (po_RetryAttempts (pm_config demo_ports)) = Suc (Suc 8)"
    by (simp add: demo_ports_def NewPortsManager_def DefaultPortsConfig_def)
  have cfg: "po_MinPort (pm_config demo_ports) = 10000" "po_MaxPort (pm_config demo_ports) = 65535"
    "po_ReservedPorts (pm_config demo_ports) = [22, 80, 443, 8080, 9090]" "po_ConflictPolicy (pm_config demo_ports) = ConflictPolicyRetry"
    "pm_os demo_ports = \<lparr> os_tcp = [10000], os_udp = [] \<rparr>"
    by (simp_all add: demo_ports_def NewPortsManager_def DefaultPortsConfig_def)
  have first: "Ports_allocateSpecificPort 0 10000 PortTypeTCP ''a'' demo_ports = (Inl ErrUnavailable, demo_ports)"
    by (simp add: Ports_allocateSpecificPort_def cfg Ports_isPortInRange_def Ports_isReservedPort_def Ports_isPortAvailable_def
        Ports_checkTCPPortAvailable_def listen_tcp_def)
  have gen: "Ports_generateRandomPort 0 (pm_config demo_ports) = 10000" "Ports_generateRandomPort 1 (pm_config demo_ports) = 10001"
    by (simp_all add: Ports_generateRandomPort_def cfg)
  have free: "\<not> Ports_isPortAvailable (pm_os demo_ports) 10000 PortTypeTCP" "Ports_isPortAvailable (pm_os demo_ports) 10001 PortTypeTCP"
    "\<not> Ports_isReservedPort (pm_config demo_ports) 10000" "\<not> Ports_isReservedPort (pm_config demo_ports) 10001"
    by (simp_all add: Ports_isPortAvailable_def Ports_checkTCPPortAvailable_def listen_tcp_def Ports_isReservedPort_def cfg)
  obtain m' where second: "Ports_allocateSpecificPort 1 10001 PortTypeTCP ''a'' demo_ports = (Inr 10001, m')"
    using free by (simp add: Ports_allocateSpecificPort_def Ports_isPortInRange_def cfg)
  have same: "demo_ports\<lparr> pm_os := pm_os demo_ports \<rparr> = demo_ports" by simp
  have "Ports_allocateAvailablePort int (\<lambda>_ os. os) PortTypeTCP ''a'' demo_ports = (Inr 10001, m')"
    unfolding Ports_allocateAvailablePort_def ten using second free gen by (simp add: Let_def del: Suc_numeral)
  then have "Ports_AllocatePort 0 int (\<lambda>_ os. os) PortTypeTCP ''a'' 10000 demo_ports = (Inr 10001, m')"
    using first by (simp add: Ports_AllocatePort_def cfg(4))
  then show ?thesis using allocate_port_spec [of 0 int "\<lambda>_ os. os" PortTypeTCP "''a''" 10000 demo_ports 10001]
    by (auto simp: cfg)
qed

text \<open>
  Nothing in an allocation looks at the table: as long as the first owner has not opened its socket, the same
  port is granted to a second owner, and the first can no longer release it.
\<close>

lemma port_granted_twice:
  assumes "Ports_allocateSpecificPort now port portType owner m = (Inr p, m')" "owner' \<noteq> owner"
  shows "\<exists>m''. Ports_allocateSpecificPort now' port portType owner' m' = (Inr p, m'') \<and>
    fst (Ports_ReleasePort p owner m'') = Inl ErrNotOwner"
  using assms by (auto simp: Ports_allocateSpecificPort_def Ports_ReleasePort_def NewPortInfo_def split: if_splits)

text \<open>When the accepting goroutine looks at \<open>Active\<close> before it is set, the listener never accepts a connection.\<close>

lemma early_goroutine_never_accepts:
  "PortListener_Start False pl os = (Some pl', os') \<Longrightarrow> pli_Active pl' \<and> \<not> pli_accepting pl'"
  by (auto simp: PortListener_Start_def Let_def split: if_splits option.splits)

section \<open>Listeners hold their ports\<close>

definition uses_tcp :: "port_listener \<Rightarrow> bool" where
  "uses_tcp pl \<longleftrightarrow> pli_Type pl = PortTypeTCP \<or> pli_Type pl = PortTypeBoth"

definition uses_udp :: "port_listener \<Rightarrow> bool" where
  "uses_udp pl \<longleftrightarrow> pli_Type pl = PortTypeUDP \<or> pli_Type pl = PortTypeBoth"

definition holds_port :: "os_ports \<Rightarrow> u16 \<times> port_listener \<Rightarrow> bool" where
  "holds_port os = (\<lambda>(p, pl). pli_Port pl = p \<and> pli_Active pl \<and> pli_TCPConn pl = uses_tcp pl \<and> pli_UDPConn pl = uses_udp pl \<and>
     (p \<noteq> 0 \<longrightarrow> (uses_tcp pl \<longrightarrow> p \<in> set (os_tcp os)) \<and> (uses_udp pl \<longrightarrow> p \<in> set (os_udp os))))"

definition ports_inv :: "ports_manager \<Rightarrow> bool" where
  "ports_inv m \<longleftrightarrow> map_ok (pm_listeners m) \<and> (\<forall>x \<in> set (pm_listeners m). holds_port (pm_os m) x) \<and>
     int (length (pm_listeners m)) \<le> max 0 (po_MaxListeners (pm_config m))"

text \<open>The operations in any order, and other processes, which bind and free ports the manager does not hold.\<close>

inductive ports_run :: "ports_manager \<Rightarrow> bool" where
  pr_new: "ports_run (NewPortsManager os config)"
| pr_start: "ports_run m \<Longrightarrow> ports_run (Ports_initReservedPorts now m)"
| pr_allocate: "ports_run m \<Longrightarrow> Ports_AllocatePort now clk (\<lambda>_ os. os) portType owner preferred m = (r, m') \<Longrightarrow> ports_run m'"
| pr_release: "ports_run m \<Longrightarrow> Ports_ReleasePort port owner m = (u, m') \<Longrightarrow> ports_run m'"
| pr_listen: "ports_run m \<Longrightarrow> Ports_StartListener late now port portType owner m = (u, m') \<Longrightarrow> ports_run m'"
| pr_unlisten: "ports_run m \<Longrightarrow> Ports_StopListener port owner m = (u, m') \<Longrightarrow> ports_run m'"
| pr_scan: "ports_run m \<Longrightarrow> ports_run (Ports_scanPort now port m)"
| pr_others: "ports_run m \<Longrightarrow> (\<forall>x \<in> set (pm_listeners m). holds_port os' x) \<Longrightarrow> ports_run (m\<lparr> pm_os := os' \<rparr>)"

lemma ports_inv_same:
  "ports_inv m \<Longrightarrow> pm_listeners m' = pm_listeners m \<Longrightarrow> pm_os m' = pm_os m \<Longrightarrow> pm_config m' = pm_config m \<Longrightarrow> ports_inv m'"
  by (simp add: ports_inv_def)

lemma specific_same:
  assumes "Ports_allocateSpecificPort now port portType owner m = (r, m')"
  shows "pm_listeners m' = pm_listeners m \<and> pm_os m' = pm_os m \<and> pm_config m' = pm_config m"
  using assms by (auto simp: Ports_allocateSpecificPort_def split: if_splits)

lemma attempts_same:
  assumes "allocate_attempts clk (\<lambda>_ os. os) k left portType owner m = (r, m')"
  shows "pm_listeners m' = pm_listeners m \<and> pm_os m' = pm_os m \<and> pm_config m' = pm_config m"
  using assms
proof (induction left arbitrary: k m)
  case (Suc left)
  let ?port = "Ports_generateRandomPort (clk k) (pm_config m)"
  obtain q m1 where spec: "Ports_allocateSpecificPort (clk k) ?port portType owner m = (q, m1)" by fastforce
  have m1: "pm_listeners m1 = pm_listeners m \<and> pm_os m1 = pm_os m \<and> pm_config m1 = pm_config m"
    by (rule specific_same [OF spec])
  have same: "m\<lparr> pm_os := pm_os m \<rparr> = m" by simp
  have next_m: ?case if "allocate_attempts clk (\<lambda>_ os. os) (Suc k) left portType owner m = (r, m')"
    by (rule Suc.IH [OF that])
  show ?case
  proof (cases "\<not> Ports_isReservedPort (pm_config m) ?port \<and> Ports_isPortAvailable (pm_os m) ?port portType")
    case True
    show ?thesis
    proof (cases q)
      case (Inl e)
      have "m1 = m" by (rule specific_refused [OF spec [unfolded Inl]])
      then show ?thesis using next_m Suc.prems True spec Inl by (simp add: same Let_def)
    next
      case (Inr p)
      then have "m' = m1" using Suc.prems True spec by (simp add: same Let_def)
      then show ?thesis using m1 by simp
    qed
  next
    case False
    then have "allocate_attempts clk (\<lambda>_ os. os) (Suc k) left portType owner m = (r, m')"
      using Suc.prems by (simp add: same Let_def split: if_splits)
    then show ?thesis by (rule next_m)
  qed
qed simp

lemma AllocatePort_same:
  assumes "Ports_AllocatePort now clk (\<lambda>_ os. os) portType owner preferred m = (r, m')"
  shows "pm_listeners m' = pm_listeners m \<and> pm_os m' = pm_os m \<and> pm_config m' = pm_config m"
proof -
  obtain q m1 where spec: "Ports_allocateSpecificPort now preferred portType owner m = (q, m1)" by fastforce
  have m1: "pm_listeners m1 = pm_listeners m \<and> pm_os m1 = pm_os m \<and> pm_config m1 = pm_config m"
    by (rule specific_same [OF spec])
  show ?thesis
  proof (cases "preferred \<noteq> 0 \<and> (\<exists>p. q = Inr p)")
    case True
    then have "m' = m1" using assms spec by (auto simp: Ports_AllocatePort_def)
    then show ?thesis using m1 by simp
  next
    case False
    have "m1 = m" if "preferred \<noteq> 0"
    proof (cases q)
      case (Inl e)
      show ?thesis by (rule specific_refused [OF spec [unfolded Inl]])
    qed (use False that in blast)
    then have "m' = m \<or> Ports_allocateAvailablePort clk (\<lambda>_ os. os) portType owner m = (r, m')"
      using assms spec False by (cases q) (auto simp: Ports_AllocatePort_def split: if_splits)
    then show ?thesis using attempts_same unfolding Ports_allocateAvailablePort_def by blast
  qed
qed

lemma stop_listener_inv:
  assumes "ports_inv m"
  shows "ports_inv (stop_listener port m)"
proof (cases "map_of (pm_listeners m) port")
  case None
  then show ?thesis using assms by (simp add: stop_listener_def)
next
  case (Some pl)
  have pl: "holds_port (pm_os m) (port, pl)" using assms map_of_SomeD [OF Some] by (auto simp: ports_inv_def)
  have keep: "holds_port (snd (PortListener_Stop pl (pm_os m))) x" if "x \<in> set (pm_listeners m)" "fst x \<noteq> port" for x
  proof -
    have "holds_port (pm_os m) x" using assms that(1) by (simp add: ports_inv_def)
    then show ?thesis using that(2) pl
      by (auto simp: holds_port_def PortListener_Stop_def close_tcp_def close_udp_def Let_def split: prod.splits)
  qed
  have "length (AList.delete port (pm_listeners m)) \<le> length (pm_listeners m)" by (simp add: length_delete_le)
  then show ?thesis using assms keep Some by (auto simp: ports_inv_def stop_listener_def)
qed

lemma Start_holds:
  assumes "PortListener_Start late (NewPortListener now port portType owner) os = (Some pl, os')"
  shows "holds_port os' (port, pl)" and "holds_port os x \<Longrightarrow> holds_port os' x"
  using assms
  by (auto simp: PortListener_Start_def NewPortListener_def holds_port_def uses_tcp_def uses_udp_def Let_def
      listen_tcp_def listen_udp_def split: if_splits option.splits prod.splits)

lemma Start_fails:
  assumes "PortListener_Start late (NewPortListener now port portType owner) os = (None, os')" "holds_port os x"
  shows "holds_port os' x"
  using assms
  by (auto simp: PortListener_Start_def NewPortListener_def holds_port_def Let_def
      listen_tcp_def listen_udp_def close_tcp_def split: if_splits option.splits prod.splits)

lemma StartListener_inv:
  assumes "ports_inv m" "Ports_StartListener late now port portType owner m = (u, m')"
  shows "ports_inv m'"
proof (cases "int (length (pm_listeners m)) \<ge> po_MaxListeners (pm_config m) \<or> map_of (pm_listeners m) port \<noteq> None")
  case True
  then show ?thesis using assms by (auto simp: Ports_StartListener_def split: if_splits)
next
  case False
  obtain r os' where st: "PortListener_Start late (NewPortListener now port portType owner) (pm_os m) = (r, os')" by fastforce
  show ?thesis
  proof (cases r)
    case None
    then have "m' = m\<lparr> pm_os := os' \<rparr>" using assms(2) False st by (simp add: Ports_StartListener_def)
    then show ?thesis using assms(1) Start_fails [OF st [unfolded None]] by (simp add: ports_inv_def)
  next
    case (Some pl)
    have m': "pm_listeners m' = AList.update port pl (pm_listeners m)" "pm_os m' = os'" "pm_config m' = pm_config m"
      using assms(2) False st Some by (auto simp: Ports_StartListener_def Let_def split: option.splits)
    have "holds_port os' x" if "x \<in> set (AList.update port pl (pm_listeners m))" for x
    proof (cases "x = (port, pl)")
      case True
      then show ?thesis using Start_holds(1) [OF st [unfolded Some]] by simp
    next
      case False
      then have "x \<in> set (pm_listeners m)" using set_alist_update [THEN subsetD, OF that] by blast
      then have "holds_port (pm_os m) x" using assms(1) by (simp add: ports_inv_def)
      then show ?thesis by (rule Start_holds(2) [OF st [unfolded Some]])
    qed
    moreover have "length (AList.update port pl (pm_listeners m)) \<le> Suc (length (pm_listeners m))" by (rule length_update_le)
    ultimately show ?thesis using assms(1) False by (simp add: ports_inv_def m')
  qed
qed

lemma ports_run_inv: "ports_run m \<Longrightarrow> ports_inv m"
proof (induction rule: ports_run.induct)
  case (pr_new os config)
  then show ?case by (simp add: ports_inv_def NewPortsManager_def)
next
  case (pr_allocate m now clk portType owner preferred r m')
  then show ?case using AllocatePort_same ports_inv_same by blast
next
  case (pr_release m port owner u m')
  then show ?case using stop_listener_inv [of m port]
    by (auto simp: Ports_ReleasePort_def Let_def split: option.splits if_splits intro: ports_inv_same)
next
  case (pr_unlisten m port owner u m')
  then show ?case using stop_listener_inv [of m port]
    by (auto simp: Ports_StopListener_def Let_def split: option.splits if_splits intro: ports_inv_same)
next
  case (pr_others m os')
  then show ?case by (simp add: ports_inv_def)
qed (auto intro: StartListener_inv ports_inv_same simp: Ports_initReservedPorts_def Ports_scanPort_def Let_def split: option.split)

text \<open>
  In every reachable state each listener of the table is active and listens on its own port with the sockets its
  type asks for, which are bound in the operating system, so nobody else can open them; at most \<open>MaxListeners\<close>
  listeners exist.
\<close>

theorem listeners_hold_ports:
  assumes "ports_run m"
  shows "(\<forall>(p, pl) \<in> set (pm_listeners m). pli_Active pl \<and> pli_Port pl = p \<and>
      (p \<noteq> 0 \<longrightarrow> \<not> Ports_isPortAvailable (pm_os m) p (pli_Type pl))) \<and>
    distinct (keys_of (pm_listeners m)) \<and> int (length (pm_listeners m)) \<le> max 0 (po_MaxListeners (pm_config m))"
proof -
  have inv: "ports_inv m" by (rule ports_run_inv [OF assms])
  have "pli_Active pl \<and> pli_Port pl = p \<and> (p \<noteq> 0 \<longrightarrow> \<not> Ports_isPortAvailable (pm_os m) p (pli_Type pl))"
    if "(p, pl) \<in> set (pm_listeners m)" for p pl
  proof -
    have "holds_port (pm_os m) (p, pl)" using inv that by (simp add: ports_inv_def)
    then show ?thesis
      by (cases "pli_Type pl") (auto simp: holds_port_def uses_tcp_def uses_udp_def Ports_isPortAvailable_def
          Ports_checkTCPPortAvailable_def Ports_checkUDPPortAvailable_def listen_tcp_def listen_udp_def)
  qed
  then show ?thesis using inv by (auto simp: ports_inv_def)
qed

theorem listeners_hold_ports_witness:
  "\<exists>m pl. ports_run m \<and> (10001, pl) \<in> set (pm_listeners m) \<and> \<not> Ports_isPortAvailable (pm_os m) 10001 (pli_Type pl)"
proof -
  have new: "ports_run demo_ports" unfolding demo_ports_def by (rule pr_new)
  obtain u m pl where st: "Ports_StartListener True 0 10001 PortTypeBoth ''a'' demo_ports = (u, m)" and pl: "(10001, pl) \<in> set (pm_listeners m)"
    by (simp add: Ports_StartListener_def demo_ports_def NewPortsManager_def DefaultPortsConfig_def PortListener_Start_def
        NewPortListener_def listen_tcp_def listen_udp_def Let_def)
  have run: "ports_run m" by (rule pr_listen [OF new st])
  then show ?thesis using listeners_hold_ports [OF run] pl by fastforce
qed

section \<open>The list of available ports\<close>

abbreviation max_u16 :: u16 where
  "max_u16 \<equiv> 65535"

lemma below_max_u16: "port < max_u16 \<Longrightarrow> unat (port + 1) = Suc (unat port)"
proof -
  assume less: "port < max_u16"
  have "(max_u16 :: u16) = - 1" by simp
  then have "1 + port \<noteq> 0" using less by (auto simp: add_eq_0_iff)
  from unatSuc [OF this] show ?thesis by (simp add: add.commute)
qed

lemma available_loop_spec:
  assumes "int (length acc) \<le> max 0 cnt" "maxPort < max_u16" "n = unat maxPort + 1 - unat port"
  shows "available_loop usable maxPort cnt port acc =
    Some (take (nat (max 0 cnt)) (acc @ filter usable (map of_nat [unat port..<Suc (unat maxPort)])))"
  using assms
proof (induction n arbitrary: port acc)
  case 0
  then have "\<not> port \<le> maxPort" by (simp add: word_le_nat_alt)
  moreover have "[unat port..<Suc (unat maxPort)] = []" using 0 by simp
  ultimately show ?case using 0 by (subst available_loop.simps) simp
next
  case (Suc n)
  have le: "port \<le> maxPort" using Suc.prems(3) by (simp add: word_le_nat_alt)
  have "port < max_u16" using le Suc.prems(2) by simp
  from below_max_u16 [OF this] have suc: "unat (port + 1) = Suc (unat port)" .
  have upt: "[unat port..<Suc (unat maxPort)] = unat port # [unat (port + 1)..<Suc (unat maxPort)]"
    using le upt_conv_Cons [of "unat port" "Suc (unat maxPort)"] by (simp add: word_le_nat_alt suc del: upt_Suc)
  show ?case
  proof (cases "int (length acc) < cnt")
    case True
    let ?acc = "if usable port then acc @ [port] else acc"
    have "int (length ?acc) \<le> max 0 cnt" using True by simp
    moreover have "n = unat maxPort + 1 - unat (port + 1)" using Suc.prems(3) suc by simp
    ultimately have "available_loop usable maxPort cnt (port + 1) ?acc =
        Some (take (nat (max 0 cnt)) (?acc @ filter usable (map of_nat [unat (port + 1)..<Suc (unat maxPort)])))"
      using Suc.IH Suc.prems(2) by blast
    moreover have "?acc @ filter usable (map of_nat [unat (port + 1)..<Suc (unat maxPort)]) =
        acc @ filter usable (map of_nat [unat port..<Suc (unat maxPort)])"
      unfolding upt by simp
    ultimately have "available_loop usable maxPort cnt (port + 1) ?acc =
        Some (take (nat (max 0 cnt)) (acc @ filter usable (map of_nat [unat port..<Suc (unat maxPort)])))"
      by (simp only:)
    then show ?thesis using le True by (subst available_loop.simps) (simp only: simp_thms if_True)
  next
    case False
    then have "length acc = nat (max 0 cnt)" using Suc.prems(1) by linarith
    then show ?thesis using False by (subst available_loop.simps) simp
  qed
qed

text \<open>
  While the upper end of the range is below 65535, the list of available ports returns, and holds the first
  \<open>count\<close> ports of the range that are neither reserved nor bound, in order.
\<close>

theorem available_ports_spec:
  assumes "po_MaxPort (pm_config m) < 65535"
  shows "Ports_GetAvailablePorts cnt m =
    Some (take (nat cnt) (filter (\<lambda>p. p \<notin> set (po_ReservedPorts (pm_config m)) \<and> Ports_isPortAvailable (pm_os m) p PortTypeBoth)
      (map of_nat [unat (po_MinPort (pm_config m))..<Suc (unat (po_MaxPort (pm_config m)))])))"
proof -
  have max: "po_MaxPort (pm_config m) < max_u16" using assms .
  have "usable_port m = (\<lambda>p. p \<notin> set (po_ReservedPorts (pm_config m)) \<and> Ports_isPortAvailable (pm_os m) p PortTypeBoth)"
    by (auto simp: fun_eq_iff usable_port_def Ports_isReservedPort_def list_ex_iff)
  moreover have "nat (max 0 cnt) = nat cnt" by simp
  ultimately show ?thesis
    unfolding Ports_GetAvailablePorts_def using available_loop_spec [of "[]" cnt, OF _ max refl] by simp
qed

theorem available_ports_spec_witness:
  "Ports_GetAvailablePorts 2 (NewPortsManager \<lparr> os_tcp = [21], os_udp = [] \<rparr>
     (Some (DefaultPortsConfig\<lparr> po_MinPort := 20, po_MaxPort := 24 \<rparr>))) = Some [20, 23]"
proof -
  define m where "m = NewPortsManager \<lparr> os_tcp = [21], os_udp = [] \<rparr> (Some (DefaultPortsConfig\<lparr> po_MinPort := 20, po_MaxPort := 24 \<rparr>))"
  have cfg: "po_MinPort (pm_config m) = 20" "po_MaxPort (pm_config m) = 24" "po_ReservedPorts (pm_config m) = [22, 80, 443, 8080, 9090]"
    "pm_os m = \<lparr> os_tcp = [21], os_udp = [] \<rparr>"
    by (simp_all add: m_def NewPortsManager_def DefaultPortsConfig_def)
  have upt: "[20..<Suc 24] = [20, 21, 22, 23, 24]" by (simp add: upt_rec)
  show ?thesis
    using available_ports_spec [of m 2] upt unfolding m_def [symmetric]
    by (simp add: cfg Ports_isPortAvailable_def Ports_checkTCPPortAvailable_def Ports_checkUDPPortAvailable_def listen_tcp_def
        listen_udp_def del: upt_Suc)
qed

text \<open>
  With the upper end 65535, the default, the 16-bit counter wraps round: when the range has no free port the list
  does not stay empty, it starts again at port 0, which can always be listened on.
\<close>

lemma wrapped_loop:
  assumes "\<And>p. port \<le> p \<Longrightarrow> \<not> usable p" "usable 0" "n = unat (max_u16 - port)"
  shows "available_loop usable max_u16 1 port [] = Some [0]"
  using assms(1,3)
proof (induction n arbitrary: port)
  case 0
  then have "port = max_u16" by (simp add: unat_eq_0)
  moreover have "available_loop usable max_u16 1 0 [] = Some [0]"
    using assms(2) by (subst available_loop.simps) (simp add: available_loop.simps)
  moreover have wrap: "(65536 :: u16) = 0" by simp
  ultimately show ?case using 0(1) [of max_u16] by (subst available_loop.simps) (simp add: wrap)
next
  case (Suc n)
  have "port \<noteq> max_u16" using Suc.prems(2) by auto
  have top: "p \<le> max_u16" for p :: u16
  proof -
    have "(max_u16 :: u16) = - 1" by simp
    moreover have "p \<le> - 1" by simp
    ultimately show ?thesis by (simp only:)
  qed
  then have small: "port < max_u16" using \<open>port \<noteq> max_u16\<close> by (simp add: order.not_eq_order_implies_strict)
  from below_max_u16 [OF this] have suc: "unat (port + 1) = Suc (unat port)" .
  have sub: "unat (max_u16 - q) = unat (max_u16 :: u16) - unat q" for q :: u16
    by (rule unat_sub) (rule top)
  have "n = unat (max_u16 - (port + 1))" using Suc.prems(2) unfolding sub suc by simp
  moreover have "\<not> usable p" if "port + 1 \<le> p" for p
  proof -
    have "port \<le> p" using that suc by (simp add: word_le_nat_alt)
    then show ?thesis by (rule Suc.prems(1))
  qed
  ultimately have "available_loop usable max_u16 1 (port + 1) [] = Some [0]" by (intro Suc.IH)
  then show ?case using Suc.prems(1) [of port] small by (subst available_loop.simps) simp
qed

lemma full_range_returns_port_0:
  assumes "po_MaxPort (pm_config m) = 65535" "\<And>p. po_MinPort (pm_config m) \<le> p \<Longrightarrow> \<not> usable_port m p"
    and "0 \<notin> set (po_ReservedPorts (pm_config m))"
  shows "Ports_GetAvailablePorts 1 m = Some [0]"
proof -
  have "usable_port m 0"
    using assms(3) by (auto simp: usable_port_def Ports_isReservedPort_def list_ex_iff Ports_isPortAvailable_def
        Ports_checkTCPPortAvailable_def Ports_checkUDPPortAvailable_def listen_tcp_def listen_udp_def)
  from wrapped_loop [of "po_MinPort (pm_config m)" "usable_port m", OF assms(2) this refl] show ?thesis
    by (simp add: Ports_GetAvailablePorts_def assms(1))
qed

end
