(* ===== verification/Udp_Sessions.thy ===== *)
theory Udp_Sessions
  imports Go_IP
begin

text \<open>
  UDP sessions of the client: \<open>client/internal/udp/session.go\<close> (five-tuples, sessions, the table of address
  translation) and \<open>client/internal/udp/manager.go\<close> (the session table, translated ports, clean-up). An address
  is its text; sockets are outside: what a read, a write or a dial answers is an argument, and so are the clock
  and the identifier made by MD5. The loops that forward data are given turn by turn. \<open>ParseFiveTuple\<close>,
  logging and statistics for display are left out.

  Lemmas: the hash identifies a five-tuple, the session table and its index agree, translated ports have one
  owner, a translation is found both ways, and what the limit of sessions really counts.
\<close>

section \<open>Five-tuples\<close>

record five_tuple =
  ft_SrcIP :: string
  ft_SrcPort :: u16
  ft_DstIP :: string
  ft_DstPort :: u16
  ft_Proto :: byte

definition port_text :: "u16 \<Rightarrow> string" where
  "port_text p = itoa (unat p)"

definition FiveTuple_String :: "five_tuple \<Rightarrow> string" where
  "FiveTuple_String ft =
     ft_SrcIP ft @ '':'' @ port_text (ft_SrcPort ft) @ ''->'' @ ft_DstIP ft @ '':'' @ port_text (ft_DstPort ft) @ ''/'' @
     itoa (unat (ft_Proto ft))"

definition FiveTuple_Hash :: "five_tuple \<Rightarrow> string" where
  "FiveTuple_Hash ft =
     ft_SrcIP ft @ '':'' @ port_text (ft_SrcPort ft) @ ''-'' @ ft_DstIP ft @ '':'' @ port_text (ft_DstPort ft) @ ''-'' @
     itoa (unat (ft_Proto ft))"

definition FiveTuple_Reverse :: "five_tuple \<Rightarrow> five_tuple" where
  "FiveTuple_Reverse ft =
     \<lparr> ft_SrcIP = ft_DstIP ft, ft_SrcPort = ft_DstPort ft, ft_DstIP = ft_SrcIP ft, ft_DstPort = ft_SrcPort ft,
       ft_Proto = ft_Proto ft \<rparr>"

section \<open>A session\<close>

datatype udp_state = SessionStateNew | SessionStateActive | SessionStateClosing | SessionStateClosed

fun UdpState_String :: "udp_state \<Rightarrow> string" where
  "UdpState_String SessionStateNew = ''NEW''"
| "UdpState_String SessionStateActive = ''ACTIVE''"
| "UdpState_String SessionStateClosing = ''CLOSING''"
| "UdpState_String SessionStateClosed = ''CLOSED''"

text \<open>The sockets are there or nil; \<open>us_lastActivity\<close> is in whole seconds.\<close>

record udp_session =
  us_id :: string
  us_tuple :: five_tuple
  us_reverseTuple :: five_tuple
  us_clientConn :: bool
  us_serverConn :: bool
  us_state :: udp_state
  us_createdAt :: int
  us_lastActivity :: int
  us_packetsIn :: int
  us_packetsOut :: int
  us_bytesIn :: int
  us_bytesOut :: int
  us_cancelled :: bool

definition UDPSession_updateActivity :: "int \<Rightarrow> udp_session \<Rightarrow> udp_session" where
  "UDPSession_updateActivity now s = s\<lparr> us_lastActivity := now div 10 ^ 9 \<rparr>"

definition NewUDPSession :: "int \<Rightarrow> string \<Rightarrow> five_tuple \<Rightarrow> udp_session" where
  "NewUDPSession now sid tuple =
     UDPSession_updateActivity now
       \<lparr> us_id = sid, us_tuple = tuple, us_reverseTuple = FiveTuple_Reverse tuple, us_clientConn = False,
         us_serverConn = False, us_state = SessionStateNew, us_createdAt = now, us_lastActivity = 0, us_packetsIn = 0,
         us_packetsOut = 0, us_bytesIn = 0, us_bytesOut = 0, us_cancelled = False \<rparr>"

definition UDPSession_Start :: "bool \<Rightarrow> udp_session \<Rightarrow> bool \<times> udp_session" where
  "UDPSession_Start dials s =
     (if us_state s \<noteq> SessionStateNew then (False, s)
      else if \<not> dials then (False, s)
      else (True, s\<lparr> us_serverConn := True, us_state := SessionStateActive \<rparr>))"

definition UDPSession_Stop :: "udp_session \<Rightarrow> udp_session" where
  "UDPSession_Stop s =
     (if us_state s = SessionStateClosed then s else s\<lparr> us_cancelled := True, us_state := SessionStateClosed \<rparr>)"

definition UDPSession_SetClientConn :: "udp_session \<Rightarrow> udp_session" where
  "UDPSession_SetClientConn s = s\<lparr> us_clientConn := True \<rparr>"

definition UDPSession_IsActive :: "udp_session \<Rightarrow> bool" where
  "UDPSession_IsActive s \<longleftrightarrow> us_state s = SessionStateActive"

text \<open>One turn of a forwarding loop; the read may time out, fail, or give a number of bytes.\<close>

datatype udp_read = ReadTimeout | ReadError | ReadBytes nat

datatype forward_turn = TurnAgain | TurnReturn

definition UDPSession_forwardToServer :: "int \<Rightarrow> udp_read \<Rightarrow> bool \<Rightarrow> udp_session \<Rightarrow> forward_turn \<times> udp_session" where
  "UDPSession_forwardToServer now r written s =
     (if us_cancelled s then (TurnReturn, s)
      else if \<not> us_clientConn s then (TurnAgain, s)
      else (case r of
              ReadTimeout \<Rightarrow> (TurnAgain, s)
            | ReadError \<Rightarrow> (TurnReturn, s)
            | ReadBytes n \<Rightarrow>
                if n > 0
                then (if \<not> written then (TurnReturn, s)
                      else (TurnAgain, UDPSession_updateActivity now
                              (s\<lparr> us_packetsOut := add64 (us_packetsOut s) 1, us_bytesOut := add64 (us_bytesOut s) (int n) \<rparr>)))
                else (TurnAgain, s)))"

definition UDPSession_forwardToClient :: "int \<Rightarrow> udp_read \<Rightarrow> bool \<Rightarrow> udp_session \<Rightarrow> forward_turn \<times> udp_session" where
  "UDPSession_forwardToClient now r written s =
     (if us_cancelled s then (TurnReturn, s)
      else if \<not> us_serverConn s then (TurnAgain, s)
      else (case r of
              ReadTimeout \<Rightarrow> (TurnAgain, s)
            | ReadError \<Rightarrow> (TurnReturn, s)
            | ReadBytes n \<Rightarrow>
                if n > 0
                then (if \<not> (us_clientConn s \<and> written) then (TurnReturn, s)
                      else (TurnAgain, UDPSession_updateActivity now
                              (s\<lparr> us_packetsIn := add64 (us_packetsIn s) 1, us_bytesIn := add64 (us_bytesIn s) (int n) \<rparr>)))
                else (TurnAgain, s)))"

section \<open>Address translation\<close>

record nat_table =
  nt_originalToMapped :: "(string \<times> five_tuple) list"
  nt_mappedToOriginal :: "(string \<times> five_tuple) list"

definition NewNATTable :: nat_table where
  "NewNATTable = \<lparr> nt_originalToMapped = [], nt_mappedToOriginal = [] \<rparr>"

definition NATTable_AddMapping :: "five_tuple \<Rightarrow> five_tuple \<Rightarrow> nat_table \<Rightarrow> nat_table" where
  "NATTable_AddMapping original mapped nt =
     \<lparr> nt_originalToMapped = AList.update (FiveTuple_Hash original) mapped (nt_originalToMapped nt),
       nt_mappedToOriginal = AList.update (FiveTuple_Hash mapped) original (nt_mappedToOriginal nt) \<rparr>"

definition NATTable_RemoveMapping :: "five_tuple \<Rightarrow> nat_table \<Rightarrow> nat_table" where
  "NATTable_RemoveMapping original nt =
     (case map_of (nt_originalToMapped nt) (FiveTuple_Hash original) of
        None \<Rightarrow> nt
      | Some mapped \<Rightarrow>
          \<lparr> nt_originalToMapped = AList.delete (FiveTuple_Hash original) (nt_originalToMapped nt),
            nt_mappedToOriginal = AList.delete (FiveTuple_Hash mapped) (nt_mappedToOriginal nt) \<rparr>)"

definition NATTable_LookupByOriginal :: "five_tuple \<Rightarrow> nat_table \<Rightarrow> five_tuple option" where
  "NATTable_LookupByOriginal original nt = map_of (nt_originalToMapped nt) (FiveTuple_Hash original)"

definition NATTable_LookupByMapped :: "five_tuple \<Rightarrow> nat_table \<Rightarrow> five_tuple option" where
  "NATTable_LookupByMapped mapped nt = map_of (nt_mappedToOriginal nt) (FiveTuple_Hash mapped)"

definition NATTable_Clear :: "nat_table \<Rightarrow> nat_table" where
  "NATTable_Clear nt = \<lparr> nt_originalToMapped = [], nt_mappedToOriginal = [] \<rparr>"

section \<open>The manager\<close>

record udp_config =
  uc_IdleTimeout :: int
  uc_SessionTimeout :: int
  uc_CleanupInterval :: int
  uc_BufferSize :: int
  uc_MaxSessions :: int
  uc_NATPortRange :: "int \<times> int"
  uc_EnableNAT :: bool

definition DefaultUdpConfig :: udp_config where
  "DefaultUdpConfig =
     \<lparr> uc_IdleTimeout = 30 * 10 ^ 9, uc_SessionTimeout = 10 * 60 * 10 ^ 9, uc_CleanupInterval = 10 * 10 ^ 9,
       uc_BufferSize = 65536, uc_MaxSessions = 10000, uc_NATPortRange = (20000, 30000), uc_EnableNAT = True \<rparr>"

text \<open>\<open>um_natPortInUse\<close> lists the ports whose entry is true.\<close>

record udp_manager =
  um_config :: udp_config
  um_sessions :: "(string \<times> udp_session) list"
  um_tupleMap :: "(string \<times> string) list"
  um_natTable :: nat_table
  um_totalSessions :: int
  um_activeSessions :: int
  um_expiredSessions :: int
  um_createdSessions :: int
  um_natPortCounter :: int
  um_natPortInUse :: "int list"

definition NewUdpManager :: "udp_config option \<Rightarrow> udp_manager" where
  "NewUdpManager config =
     (let c = (case config of None \<Rightarrow> DefaultUdpConfig | Some c \<Rightarrow> c)
      in \<lparr> um_config = c, um_sessions = [], um_tupleMap = [], um_natTable = NewNATTable, um_totalSessions = 0,
           um_activeSessions = 0, um_expiredSessions = 0, um_createdSessions = 0,
           um_natPortCounter = wrap32 (fst (uc_NATPortRange c)), um_natPortInUse = [] \<rparr>)"

datatype udp_err = UdpTooMany | UdpStartFailed | UdpNoSession | UdpNatDisabled | UdpNoPort

definition UdpManager_reuse :: "five_tuple \<Rightarrow> udp_manager \<Rightarrow> udp_session option" where
  "UdpManager_reuse tuple m =
     (case map_of (um_tupleMap m) (FiveTuple_Hash tuple) of
        None \<Rightarrow> None
      | Some sid \<Rightarrow> (case map_of (um_sessions m) sid of
          None \<Rightarrow> None
        | Some s \<Rightarrow> if UDPSession_IsActive s then Some s else None))"

text \<open>
  The second half of \<open>GetSession\<close>, under the lock; between the two halves other calls may run. A session
  that does not start is taken out again.
\<close>

definition UdpManager_create ::
    "bool \<Rightarrow> int \<Rightarrow> string \<Rightarrow> five_tuple \<Rightarrow> udp_manager \<Rightarrow> (udp_err + udp_session) \<times> udp_manager" where
  "UdpManager_create dials now sid tuple m =
     (let (ok, s) = UDPSession_Start dials (NewUDPSession now sid tuple);
          m1 = m\<lparr> um_sessions := AList.update sid s (um_sessions m),
                  um_tupleMap := AList.update (FiveTuple_Hash tuple) sid (um_tupleMap m) \<rparr>
      in if \<not> ok
         then (Inl UdpStartFailed, m1\<lparr> um_sessions := AList.delete sid (um_sessions m1),
                                       um_tupleMap := AList.delete (FiveTuple_Hash tuple) (um_tupleMap m1) \<rparr>)
         else (Inr s, m1\<lparr> um_activeSessions := add64 (um_activeSessions m) 1,
                          um_createdSessions := add64 (um_createdSessions m) 1,
                          um_totalSessions := add64 (um_totalSessions m) 1 \<rparr>))"

definition UdpManager_GetSession ::
    "bool \<Rightarrow> int \<Rightarrow> string \<Rightarrow> five_tuple \<Rightarrow> udp_manager \<Rightarrow> (udp_err + udp_session) \<times> udp_manager" where
  "UdpManager_GetSession dials now sid tuple m =
     (case UdpManager_reuse tuple m of
        Some s \<Rightarrow> (Inr s, m)
      | None \<Rightarrow>
          if um_activeSessions m \<ge> uc_MaxSessions (um_config m) then (Inl UdpTooMany, m)
          else UdpManager_create dials now sid tuple m)"

definition UdpManager_RemoveSession :: "string \<Rightarrow> udp_manager \<Rightarrow> udp_err option \<times> udp_manager" where
  "UdpManager_RemoveSession sid m =
     (case map_of (um_sessions m) sid of
        None \<Rightarrow> (Some UdpNoSession, m)
      | Some s0 \<Rightarrow>
          (let s = UDPSession_Stop s0
           in (None, m\<lparr> um_sessions := AList.delete sid (um_sessions m),
                        um_tupleMap := AList.delete (FiveTuple_Hash (us_tuple s)) (um_tupleMap m),
                        um_natTable := NATTable_RemoveMapping (us_tuple s) (um_natTable m),
                        um_activeSessions := (if UDPSession_IsActive s then add64 (um_activeSessions m) (- 1)
                                              else um_activeSessions m) \<rparr>)))"

definition UdpManager_GetSessionByTuple :: "five_tuple \<Rightarrow> udp_manager \<Rightarrow> udp_session option" where
  "UdpManager_GetSessionByTuple tuple m =
     (case map_of (um_tupleMap m) (FiveTuple_Hash tuple) of
        None \<Rightarrow> None
      | Some sid \<Rightarrow> map_of (um_sessions m) sid)"

text \<open>The search for a free port goes round the range once, from the counter on. Go's remainder has the sign of
  the dividend.\<close>

fun nat_port_loop :: "int \<Rightarrow> int \<Rightarrow> int \<Rightarrow> int list \<Rightarrow> nat \<Rightarrow> nat \<Rightarrow> int option" where
  "nat_port_loop start n current used i 0 = None"
| "nat_port_loop start n current used i (Suc left) =
     (let port = start + (current - start + int i) smod n in
      if port \<notin> set used then Some port else nat_port_loop start n current used (Suc i) left)"

definition UdpManager_AllocateNATPort :: "udp_manager \<Rightarrow> (udp_err + int) \<times> udp_manager" where
  "UdpManager_AllocateNATPort m =
     (if \<not> uc_EnableNAT (um_config m) then (Inl UdpNatDisabled, m)
      else (let (start, fin) = uc_NATPortRange (um_config m); n = fin - start + 1 in
            case nat_port_loop start n (um_natPortCounter m) (um_natPortInUse m) 0 (nat n) of
              None \<Rightarrow> (Inl UdpNoPort, m)
            | Some port \<Rightarrow> (Inr port, m\<lparr> um_natPortInUse := port # um_natPortInUse m, um_natPortCounter := wrap32 (port + 1) \<rparr>)))"

definition UdpManager_ReleaseNATPort :: "int \<Rightarrow> udp_manager \<Rightarrow> udp_manager" where
  "UdpManager_ReleaseNATPort port m =
     (if \<not> uc_EnableNAT (um_config m) then m else m\<lparr> um_natPortInUse := removeAll port (um_natPortInUse m) \<rparr>)"

definition UdpManager_CreateNATMapping ::
    "five_tuple \<Rightarrow> string \<Rightarrow> udp_manager \<Rightarrow> (udp_err + five_tuple) \<times> udp_manager" where
  "UdpManager_CreateNATMapping original targetIP m =
     (if \<not> uc_EnableNAT (um_config m) then (Inr original, m)
      else (case UdpManager_AllocateNATPort m of
              (Inl e, m1) \<Rightarrow> (Inl e, m1)
            | (Inr natPort, m1) \<Rightarrow>
                (let mapped = \<lparr> ft_SrcIP = targetIP, ft_SrcPort = of_int natPort, ft_DstIP = ft_DstIP original,
                                ft_DstPort = ft_DstPort original, ft_Proto = ft_Proto original \<rparr>
                 in (Inr mapped, m1\<lparr> um_natTable := NATTable_AddMapping original mapped (um_natTable m1) \<rparr>))))"

definition session_expired :: "udp_config \<Rightarrow> int \<Rightarrow> udp_session \<Rightarrow> bool" where
  "session_expired c now s =
     (if now - us_lastActivity s * 10 ^ 9 > uc_IdleTimeout c then True
      else if now - us_createdAt s > uc_SessionTimeout c then True
      else \<not> UDPSession_IsActive s)"

fun remove_expired :: "string list \<Rightarrow> udp_manager \<Rightarrow> udp_manager" where
  "remove_expired [] m = m"
| "remove_expired (sid # sids) m =
     (case UdpManager_RemoveSession sid m of
        (Some _, m') \<Rightarrow> remove_expired sids m'
      | (None, m') \<Rightarrow> remove_expired sids (m'\<lparr> um_expiredSessions := add64 (um_expiredSessions m') 1 \<rparr>))"

definition UdpManager_cleanup :: "int \<Rightarrow> string list \<Rightarrow> udp_manager \<Rightarrow> udp_manager" where
  "UdpManager_cleanup now ord m =
     remove_expired (filter (\<lambda>sid. session_expired (um_config m) now (the (map_of (um_sessions m) sid))) ord) m"

definition UdpManager_Stop :: "udp_manager \<Rightarrow> udp_manager" where
  "UdpManager_Stop m = m\<lparr> um_sessions := [], um_tupleMap := [], um_natTable := NATTable_Clear (um_natTable m) \<rparr>"

section \<open>The hash\<close>

abbreviation plain :: "string \<Rightarrow> bool" where
  "plain a \<equiv> CHR ''-'' \<notin> set a"

definition plain_tuple :: "five_tuple \<Rightarrow> bool" where
  "plain_tuple ft \<longleftrightarrow> plain (ft_SrcIP ft) \<and> plain (ft_DstIP ft)"

lemma port_text_plain: "plain (itoa n)" "CHR '':'' \<notin> set (itoa n)"
  by (rule itoa_no; code_simp)+

lemma hash_inject:
  assumes "plain_tuple a" "plain_tuple b"
  shows "FiveTuple_Hash a = FiveTuple_Hash b \<longleftrightarrow> a = b"
proof
  assume eq: "FiveTuple_Hash a = FiveTuple_Hash b"
  have parts: "split_at (CHR ''-'') (FiveTuple_Hash t) =
      [ft_SrcIP t @ '':'' @ port_text (ft_SrcPort t), ft_DstIP t @ '':'' @ port_text (ft_DstPort t), itoa (unat (ft_Proto t))]"
    if "plain_tuple t" for t
    using that port_text_plain split_at_join(2) [of "CHR ''-''" "ft_SrcIP t @ '':'' @ port_text (ft_SrcPort t)"]
      split_at_join(2) [of "CHR ''-''" "ft_DstIP t @ '':'' @ port_text (ft_DstPort t)" "itoa (unat (ft_Proto t))"]
      split_at_join(1) [of "CHR ''-''" "itoa (unat (ft_Proto t))"]
    by (simp add: FiveTuple_Hash_def plain_tuple_def port_text_def)
  have e: "ft_SrcIP a @ CHR '':'' # port_text (ft_SrcPort a) = ft_SrcIP b @ CHR '':'' # port_text (ft_SrcPort b)"
    "ft_DstIP a @ CHR '':'' # port_text (ft_DstPort a) = ft_DstIP b @ CHR '':'' # port_text (ft_DstPort b)"
    "itoa (unat (ft_Proto a)) = itoa (unat (ft_Proto b))"
    using parts [OF assms(1)] parts [OF assms(2)] eq by simp_all
  have "ft_SrcIP a = ft_SrcIP b \<and> port_text (ft_SrcPort a) = port_text (ft_SrcPort b)"
    "ft_DstIP a = ft_DstIP b \<and> port_text (ft_DstPort a) = port_text (ft_DstPort b)"
    using last_sep [OF e(1)] last_sep [OF e(2)] port_text_plain by (simp_all add: port_text_def)
  then show "a = b" using e(3) by (cases a, cases b) (simp add: port_text_def word_unat_eq_iff)
qed simp

text \<open>
  The hash under which sessions and translations are stored identifies the five-tuple, as long as the texts of the
  addresses have no dash, which no address text has.
\<close>

theorem hash_identifies:
  assumes "plain_tuple a" "plain_tuple b"
  shows "FiveTuple_Hash a = FiveTuple_Hash b \<longleftrightarrow> a = b"
  by (rule hash_inject [OF assms])

definition demo_tuple :: "u16 \<Rightarrow> five_tuple" where
  "demo_tuple p = \<lparr> ft_SrcIP = ''10.0.0.1'', ft_SrcPort = p, ft_DstIP = ''10.0.0.2'', ft_DstPort = 53, ft_Proto = 17 \<rparr>"

theorem hash_identifies_witness: "FiveTuple_Hash (demo_tuple 80) \<noteq> FiveTuple_Hash (demo_tuple 81)"
proof -
  have "plain_tuple (demo_tuple p)" for p by (simp add: plain_tuple_def demo_tuple_def)
  then show ?thesis using hash_identifies [of "demo_tuple 80" "demo_tuple 81"] by (simp add: demo_tuple_def)
qed

section \<open>Runs\<close>

definition session_step :: "udp_session \<Rightarrow> udp_session \<Rightarrow> bool" where
  "session_step s s' \<longleftrightarrow> s' = UDPSession_Stop s \<or> s' = UDPSession_SetClientConn s \<or>
     (\<exists>now r w. s' = snd (UDPSession_forwardToServer now r w s) \<or> s' = snd (UDPSession_forwardToClient now r w s))"

text \<open>
  The operations in any order, the two halves of \<open>GetSession\<close> apart: a creation may follow a test of long ago.
  Generated identifiers are new. \<open>rel\<close> allows the release of translated ports.
\<close>

inductive udp_run :: "bool \<Rightarrow> udp_config \<Rightarrow> udp_manager \<Rightarrow> bool" where
  ur_new: "udp_run rel c (NewUdpManager (Some c))"
| ur_create: "udp_run rel c m \<Longrightarrow> sid \<notin> set (keys_of (um_sessions m)) \<Longrightarrow> plain_tuple tuple \<Longrightarrow>
    UdpManager_create dials now sid tuple m = (r, m') \<Longrightarrow> udp_run rel c m'"
| ur_remove: "udp_run rel c m \<Longrightarrow> UdpManager_RemoveSession sid m = (e, m') \<Longrightarrow> udp_run rel c m'"
| ur_expired: "udp_run rel c m \<Longrightarrow> udp_run rel c (m\<lparr> um_expiredSessions := k \<rparr>)"
| ur_session: "udp_run rel c m \<Longrightarrow> map_of (um_sessions m) sid = Some s \<Longrightarrow> session_step s s' \<Longrightarrow>
    udp_run rel c (m\<lparr> um_sessions := AList.update sid s' (um_sessions m) \<rparr>)"
| ur_allocate: "udp_run rel c m \<Longrightarrow> UdpManager_AllocateNATPort m = (p, m') \<Longrightarrow> udp_run rel c m'"
| ur_release: "udp_run rel c m \<Longrightarrow> rel \<Longrightarrow> udp_run rel c (UdpManager_ReleaseNATPort port m)"
| ur_map: "udp_run rel c m \<Longrightarrow> plain_tuple original \<Longrightarrow> plain targetIP \<Longrightarrow>
    UdpManager_CreateNATMapping original targetIP m = (t, m') \<Longrightarrow> udp_run rel c m'"

text \<open>The clean-up is a sequence of such steps.\<close>

lemma udp_run_cleanup: "udp_run rel c m \<Longrightarrow> udp_run rel c (UdpManager_cleanup now ord m)"
proof -
  have "udp_run rel c (remove_expired sids m)" if "udp_run rel c m" for sids
    using that
  proof (induction sids arbitrary: m)
    case (Cons sid sids)
    obtain e m' where r: "UdpManager_RemoveSession sid m = (e, m')" by fastforce
    have "udp_run rel c m'" by (rule ur_remove [OF Cons.prems r])
    then show ?case using Cons.IH ur_expired by (cases e) (simp_all add: r)
  qed simp
  then show "udp_run rel c m \<Longrightarrow> udp_run rel c (UdpManager_cleanup now ord m)" by (simp add: UdpManager_cleanup_def)
qed

lemma session_step_tuple: "session_step s s' \<Longrightarrow> us_tuple s' = us_tuple s"
  by (auto simp: session_step_def UDPSession_Stop_def UDPSession_SetClientConn_def UDPSession_forwardToServer_def
      UDPSession_forwardToClient_def UDPSession_updateActivity_def split: udp_read.splits)

section \<open>The index of sessions\<close>

text \<open>\<open>index_ok\<close> is about the two maps as functions: the index leads to sessions of the right five-tuple.\<close>

definition index_ok :: "(string \<Rightarrow> udp_session option) \<Rightarrow> (string \<Rightarrow> string option) \<Rightarrow> bool" where
  "index_ok ss ts \<longleftrightarrow>
     (\<forall>h sid. ts h = Some sid \<longrightarrow> (\<exists>s. ss sid = Some s \<and> FiveTuple_Hash (us_tuple s) = h)) \<and>
     (\<forall>sid s. ss sid = Some s \<longrightarrow> plain_tuple (us_tuple s))"

definition index_inv :: "udp_manager \<Rightarrow> bool" where
  "index_inv m \<longleftrightarrow> map_ok (um_sessions m) \<and> map_ok (um_tupleMap m) \<and>
     index_ok (map_of (um_sessions m)) (map_of (um_tupleMap m)) \<and> um_activeSessions m = um_createdSessions m"

lemma index_ok_empty: "index_ok Map.empty Map.empty"
  by (simp add: index_ok_def)

lemma index_ok_add:
  assumes "index_ok ss ts" "ss sid = None" "plain_tuple (us_tuple s)" "h = FiveTuple_Hash (us_tuple s)"
  shows "index_ok (ss(sid \<mapsto> s)) (ts(h \<mapsto> sid))"
proof -
  have "sid' \<noteq> sid" if "ts h' = Some sid'" for h' sid' using that assms(1,2) unfolding index_ok_def by fastforce
  then show ?thesis using assms unfolding index_ok_def by auto
qed

lemma index_ok_drop:
  assumes "index_ok ss ts" "ss sid = Some s \<or> ss sid = None" "h = FiveTuple_Hash (us_tuple s)"
  shows "index_ok (ss(sid := None)) (ts(h := None))"
  unfolding index_ok_def
proof (intro conjI allI impI)
  fix h' sid' assume "(ts(h := None)) h' = Some sid'"
  then have h': "ts h' = Some sid'" "h' \<noteq> h" by (auto split: if_splits)
  then obtain s' where s': "ss sid' = Some s'" "FiveTuple_Hash (us_tuple s') = h'" using assms(1) unfolding index_ok_def by blast
  then have "sid' \<noteq> sid" using assms(2,3) h'(2) by auto
  then show "\<exists>s. (ss(sid := None)) sid' = Some s \<and> FiveTuple_Hash (us_tuple s) = h'" using s' by simp
next
  fix sid' s' assume "(ss(sid := None)) sid' = Some s'"
  then show "plain_tuple (us_tuple s')" using assms(1) unfolding index_ok_def by (auto split: if_splits)
qed

lemma index_ok_step:
  assumes "index_ok ss ts" "ss sid = Some s" "us_tuple s' = us_tuple s"
  shows "index_ok (ss(sid \<mapsto> s')) ts"
  unfolding index_ok_def
proof (intro conjI allI impI)
  fix h sid' assume "ts h = Some sid'"
  then obtain s1 where "ss sid' = Some s1" "FiveTuple_Hash (us_tuple s1) = h" using assms(1) unfolding index_ok_def by blast
  then show "\<exists>s. (ss(sid \<mapsto> s')) sid' = Some s \<and> FiveTuple_Hash (us_tuple s) = h"
    using assms(2,3) by (cases "sid' = sid") auto
next
  fix sid1 s1 assume "(ss(sid \<mapsto> s')) sid1 = Some s1"
  then show "plain_tuple (us_tuple s1)"
    using assms unfolding index_ok_def by (cases "sid1 = sid") auto
qed

lemma index_inv_same:
  "index_inv m \<Longrightarrow> um_sessions m' = um_sessions m \<Longrightarrow> um_tupleMap m' = um_tupleMap m \<Longrightarrow>
    um_activeSessions m' = um_activeSessions m \<Longrightarrow> um_createdSessions m' = um_createdSessions m \<Longrightarrow> index_inv m'"
  unfolding index_inv_def by (simp only:)

lemma NewUDPSession_tuple: "us_tuple (snd (UDPSession_Start dials (NewUDPSession now sid tuple))) = tuple"
  by (simp add: UDPSession_Start_def NewUDPSession_def UDPSession_updateActivity_def)

lemma index_inv_create:
  assumes "index_inv m" "sid \<notin> set (keys_of (um_sessions m))" "plain_tuple tuple"
    and "UdpManager_create dials now sid tuple m = (r, m')"
  shows "index_inv m'"
proof -
  obtain ok s where s: "UDPSession_Start dials (NewUDPSession now sid tuple) = (ok, s)" by fastforce
  have st: "us_tuple s = tuple" using NewUDPSession_tuple [of dials now sid tuple] s by simp
  have new: "map_of (um_sessions m) sid = None" using assms(2) by (simp add: map_of_eq_None_iff)
  have old: "map_ok (um_sessions m)" "map_ok (um_tupleMap m)" "index_ok (map_of (um_sessions m)) (map_of (um_tupleMap m))"
      "um_activeSessions m = um_createdSessions m"
    using assms(1) by (simp_all only: index_inv_def)
  show ?thesis
  proof (cases ok)
    case True
    then have "um_sessions m' = AList.update sid s (um_sessions m)" "um_activeSessions m' = um_createdSessions m'"
      "um_tupleMap m' = AList.update (FiveTuple_Hash tuple) sid (um_tupleMap m)"
      using assms(4) s old(4) by (auto simp: UdpManager_create_def Let_def)
    then show ?thesis using index_ok_add [OF old(3) new, of s] old(1,2) assms(3) st by (simp add: index_inv_def)
  next
    case False
    then have m': "um_sessions m' = AList.delete sid (AList.update sid s (um_sessions m))" "um_activeSessions m' = um_createdSessions m'"
      "um_tupleMap m' = AList.delete (FiveTuple_Hash tuple) (AList.update (FiveTuple_Hash tuple) sid (um_tupleMap m))"
      using assms(4) s old(4) by (auto simp: UdpManager_create_def Let_def)
    have "index_ok ((map_of (um_sessions m))(sid := None)) ((map_of (um_tupleMap m))(FiveTuple_Hash tuple := None))"
      by (rule index_ok_drop [OF old(3), where s = s]) (use new st in simp_all)
    then show ?thesis using old(1,2) m' by (simp add: index_inv_def)
  qed
qed

lemma index_inv_remove:
  assumes "index_inv m" "UdpManager_RemoveSession sid m = (e, m')"
  shows "index_inv m'"
proof (cases "map_of (um_sessions m) sid")
  case None
  then show ?thesis using assms by (simp add: UdpManager_RemoveSession_def)
next
  case (Some s)
  have stop: "us_tuple (UDPSession_Stop s) = us_tuple s" "\<not> UDPSession_IsActive (UDPSession_Stop s)"
    by (simp_all add: UDPSession_Stop_def UDPSession_IsActive_def)
  have old: "map_ok (um_sessions m)" "map_ok (um_tupleMap m)" "index_ok (map_of (um_sessions m)) (map_of (um_tupleMap m))"
      "um_activeSessions m = um_createdSessions m"
    using assms(1) by (simp_all only: index_inv_def)
  have m': "um_sessions m' = AList.delete sid (um_sessions m)" "um_activeSessions m' = um_createdSessions m'"
    "um_tupleMap m' = AList.delete (FiveTuple_Hash (us_tuple s)) (um_tupleMap m)"
    using assms(2) Some stop old(4) by (auto simp: UdpManager_RemoveSession_def Let_def)
  show ?thesis using index_ok_drop [OF old(3), of sid s] Some old(1,2) m' by (simp add: index_inv_def)
qed

lemma Allocate_same:
  assumes "UdpManager_AllocateNATPort m = (p, m')"
  shows "um_sessions m' = um_sessions m" "um_tupleMap m' = um_tupleMap m" "um_activeSessions m' = um_activeSessions m"
    "um_createdSessions m' = um_createdSessions m" "um_config m' = um_config m" "um_natTable m' = um_natTable m"
  using assms by (auto simp: UdpManager_AllocateNATPort_def Let_def split: if_splits prod.splits option.splits)

lemma Mapping_same:
  assumes "UdpManager_CreateNATMapping original targetIP m = (t, m')"
  shows "um_sessions m' = um_sessions m \<and> um_tupleMap m' = um_tupleMap m \<and> um_activeSessions m' = um_activeSessions m \<and>
    um_createdSessions m' = um_createdSessions m \<and> um_config m' = um_config m"
proof -
  obtain p m1 where a: "UdpManager_AllocateNATPort m = (p, m1)" by fastforce
  show ?thesis using assms a Allocate_same [OF a]
    by (auto simp: UdpManager_CreateNATMapping_def Let_def split: if_splits sum.splits)
qed

lemma udp_run_index: "udp_run rel c m \<Longrightarrow> index_inv m"
proof (induction rule: udp_run.induct)
  case (ur_new rel c)
  show ?case using index_ok_empty by (simp add: index_inv_def NewUdpManager_def Let_def)
next
  case (ur_session rel c m sid s s')
  have old: "map_ok (um_sessions m)" "map_ok (um_tupleMap m)" "index_ok (map_of (um_sessions m)) (map_of (um_tupleMap m))"
      "um_activeSessions m = um_createdSessions m"
    using ur_session.IH by (simp_all only: index_inv_def)
  show ?case using index_ok_step [OF old(3) ur_session.hyps(2) session_step_tuple [OF ur_session.hyps(3)]] old(1,2,4)
    by (simp add: index_inv_def)
next
  case (ur_allocate rel c m p m')
  show ?case by (rule index_inv_same [OF ur_allocate.IH]) (simp_all add: Allocate_same [OF ur_allocate.hyps(2)])
next
  case (ur_map rel c m original targetIP t m')
  show ?case by (rule index_inv_same [OF ur_map.IH]) (simp_all add: Mapping_same [OF ur_map.hyps(4)])
next
  case (ur_create rel c m sid tuple dials now r m')
  show ?case by (rule index_inv_create [OF ur_create.IH ur_create.hyps(2,3,4)])
next
  case (ur_remove rel c m sid e m')
  show ?case by (rule index_inv_remove [OF ur_remove.IH ur_remove.hyps(2)])
next
  case (ur_expired rel c m k)
  show ?case by (rule index_inv_same [OF ur_expired.IH]) simp_all
next
  case (ur_release rel c m port)
  show ?case by (rule index_inv_same [OF ur_release.IH]) (simp_all add: UdpManager_ReleaseNATPort_def)
qed

text \<open>
  Whatever the operations did before, a session found for a five-tuple, to be used again or by
  \<open>GetSessionByTuple\<close>, is a session of that five-tuple: packets never go into another's session.
\<close>

theorem udp_index_consistent:
  assumes "udp_run rel c m" "plain_tuple t" "UdpManager_GetSessionByTuple t m = Some s \<or> UdpManager_reuse t m = Some s"
  shows "us_tuple s = t"
proof -
  have ix: "index_ok (map_of (um_sessions m)) (map_of (um_tupleMap m))"
    using udp_run_index [OF assms(1)] by (simp only: index_inv_def)
  obtain sid where sid: "map_of (um_tupleMap m) (FiveTuple_Hash t) = Some sid" "map_of (um_sessions m) sid = Some s"
    using assms(3) by (auto simp: UdpManager_GetSessionByTuple_def UdpManager_reuse_def split: option.splits if_splits)
  have "FiveTuple_Hash (us_tuple s) = FiveTuple_Hash t" "plain_tuple (us_tuple s)"
    using ix sid unfolding index_ok_def by fastforce+
  then show ?thesis using hash_inject [OF _ assms(2)] by blast
qed

definition demo_udp :: udp_manager where
  "demo_udp = snd (UdpManager_create True 7 ''a'' (demo_tuple 80) (NewUdpManager (Some DefaultUdpConfig)))"

lemma demo_udp_run: "udp_run rel DefaultUdpConfig demo_udp"
  unfolding demo_udp_def
  by (rule ur_create [OF ur_new, where r = "fst (UdpManager_create True 7 ''a'' (demo_tuple 80) (NewUdpManager (Some DefaultUdpConfig)))"])
    (simp_all add: plain_tuple_def demo_tuple_def NewUdpManager_def Let_def)

theorem udp_index_consistent_witness:
  "\<exists>s. UdpManager_reuse (demo_tuple 80) demo_udp = Some s \<and> us_tuple s = demo_tuple 80"
proof -
  have "UdpManager_reuse (demo_tuple 80) demo_udp \<noteq> None"
    by (simp add: demo_udp_def UdpManager_create_def UDPSession_Start_def NewUDPSession_def UDPSession_updateActivity_def
        NewUdpManager_def UdpManager_reuse_def UDPSession_IsActive_def Let_def)
  then obtain s where s: "UdpManager_reuse (demo_tuple 80) demo_udp = Some s" by blast
  have "us_tuple s = demo_tuple 80"
    by (rule udp_index_consistent [OF demo_udp_run [of True]]) (use s in \<open>simp_all add: plain_tuple_def demo_tuple_def\<close>)
  then show ?thesis using s by blast
qed

text \<open>
  What the limit counts: the number called active is the number of sessions ever created, since \<open>RemoveSession\<close>
  stops the session first and then asks whether it is active. Once as many sessions as the limit have been
  created, no new five-tuple is served, even with an empty table.
\<close>

lemma limit_counts_creations:
  assumes "udp_run rel c m" "uc_MaxSessions (um_config m) \<le> um_createdSessions m" "UdpManager_reuse tuple m = None"
  shows "UdpManager_GetSession dials now sid tuple m = (Inl UdpTooMany, m)"
  using udp_run_index [OF assms(1)] assms(2,3) by (simp add: UdpManager_GetSession_def index_inv_def)

section \<open>Translated ports\<close>

lemma nat_port_loop_Some:
  "nat_port_loop start n current used i k = Some p \<Longrightarrow>
    p \<notin> set used \<and> (\<exists>j. i \<le> j \<and> j < i + k \<and> p = start + (current - start + int j) smod n)"
proof (induction start n current used i k rule: nat_port_loop.induct)
  case (2 start n current used i left)
  show ?case
  proof (cases "start + (current - start + int i) smod n \<in> set used")
    case True
    then obtain j where "p \<notin> set used" "Suc i \<le> j" "j < Suc i + left" "p = start + (current - start + int j) smod n"
      using 2 by auto
    then show ?thesis by (intro conjI exI [of _ j]) simp_all
  next
    case False
    then show ?thesis using "2.prems" by (auto simp: Let_def intro!: exI [of _ i])
  qed
qed simp

lemma nat_port_loop_None:
  "nat_port_loop start n current used i k = None \<longleftrightarrow>
    (\<forall>j. i \<le> j \<and> j < i + k \<longrightarrow> start + (current - start + int j) smod n \<in> set used)"
proof (induction start n current used i k rule: nat_port_loop.induct)
  case (2 start n current used i left)
  let ?hit = "\<lambda>j. start + (current - start + int j) smod n \<in> set used"
  have "(\<forall>j. i \<le> j \<and> j < i + Suc left \<longrightarrow> ?hit j) \<longleftrightarrow> ?hit i \<and> (\<forall>j. Suc i \<le> j \<and> j < Suc i + left \<longrightarrow> ?hit j)"
    by (metis Suc_le_eq add_Suc add_Suc_right le_eq_less_or_eq less_add_Suc1)
  then show ?case using 2 by (cases "?hit i") simp_all
qed auto

text \<open>The search visits every port of the range, wherever it begins.\<close>

lemma nat_port_search:
  fixes start :: int
  assumes "start \<le> fin" "start \<le> current"
  shows "{start + (current - start + int j) smod (fin - start + 1) |j. j < nat (fin - start + 1)} = {start..fin}"
proof (intro equalityI subsetI)
  let ?n = "fin - start + 1"
  fix p assume p: "p \<in> {start..fin}"
  let ?j = "nat ((p - current) mod ?n)"
  have "(current - start + int ?j) smod ?n = (current - start + (p - current) mod ?n) mod ?n"
    using assms by (subst smod_mod_positive) simp_all
  also have "\<dots> = (current - start + (p - current)) mod ?n" by (rule mod_add_right_eq)
  also have "\<dots> = p - start" using p by simp
  finally have "p = start + (current - start + int ?j) smod ?n" by simp
  moreover have "?j < nat ?n" using assms(1) pos_mod_bound [of ?n "p - current"] by simp
  ultimately show "p \<in> {start + (current - start + int j) smod ?n |j. j < nat ?n}" by blast
next
  let ?n = "fin - start + 1"
  fix p assume "p \<in> {start + (current - start + int j) smod ?n |j. j < nat ?n}"
  then obtain j where j: "p = start + (current - start + int j) smod ?n" by blast
  then show "p \<in> {start..fin}" using assms pos_mod_bound [of ?n "current - start + int j"] by (simp add: smod_mod_positive)
qed

definition nat_range :: "udp_config \<Rightarrow> bool" where
  "nat_range c \<longleftrightarrow> 0 \<le> fst (uc_NATPortRange c) \<and> fst (uc_NATPortRange c) \<le> snd (uc_NATPortRange c) \<and> snd (uc_NATPortRange c) < 65536"

text \<open>What one allocation does.\<close>

definition nat_ok :: "udp_config \<Rightarrow> udp_manager \<Rightarrow> bool" where
  "nat_ok c m \<longleftrightarrow> um_config m = c \<and> fst (uc_NATPortRange c) \<le> um_natPortCounter m"

lemma Allocate_spec:
  assumes "nat_ok c m" "nat_range c"
  shows "case UdpManager_AllocateNATPort m of
      (Inr p, m') \<Rightarrow> fst (uc_NATPortRange c) \<le> p \<and> p \<le> snd (uc_NATPortRange c) \<and> p \<notin> set (um_natPortInUse m) \<and>
        um_natPortInUse m' = p # um_natPortInUse m \<and> nat_ok c m'
    | (Inl e, m') \<Rightarrow> m' = m \<and>
        (if uc_EnableNAT c then e = UdpNoPort \<and> {fst (uc_NATPortRange c)..snd (uc_NATPortRange c)} \<subseteq> set (um_natPortInUse m)
         else e = UdpNatDisabled)"
proof (cases "uc_EnableNAT c")
  case False
  then show ?thesis using assms by (simp add: UdpManager_AllocateNATPort_def nat_ok_def)
next
  case True
  obtain start fin where r: "uc_NATPortRange c = (start, fin)" by fastforce
  have b: "0 \<le> start" "start \<le> fin" "fin < 65536" "start \<le> um_natPortCounter m" "um_config m = c"
    using assms r by (simp_all add: nat_range_def nat_ok_def)
  note search = nat_port_search [OF b(2,4)]
  let ?loop = "nat_port_loop start (fin - start + 1) (um_natPortCounter m) (um_natPortInUse m) 0 (nat (fin - start + 1))"
  show ?thesis
  proof (cases ?loop)
    case None
    then have "{start..fin} \<subseteq> set (um_natPortInUse m)" unfolding search [symmetric] nat_port_loop_None by auto
    then show ?thesis using None True r b(5) by (simp add: UdpManager_AllocateNATPort_def)
  next
    case (Some p)
    have p: "p \<in> {start..fin}" "p \<notin> set (um_natPortInUse m)"
      using nat_port_loop_Some [OF Some] unfolding search [symmetric] by auto
    have "wrap32 (p + 1) = p + 1" by (rule wrap32_id) (use p b in simp_all)
    then show ?thesis using Some True r b p by (simp add: UdpManager_AllocateNATPort_def nat_ok_def)
  qed
qed

lemma nat_ok_same:
  "nat_ok c m \<Longrightarrow> um_config m' = um_config m \<Longrightarrow> um_natPortCounter m' = um_natPortCounter m \<Longrightarrow> nat_ok c m'"
  unfolding nat_ok_def by (simp only:)

lemma Allocate_nat_ok:
  assumes "nat_ok c m" "nat_range c" "UdpManager_AllocateNATPort m = (r, m')"
  shows "nat_ok c m'"
  using Allocate_spec [OF assms(1,2)] assms(1,3) by (cases r) simp_all

lemma Mapping_nat_ok:
  assumes "nat_ok c m" "nat_range c" "UdpManager_CreateNATMapping original targetIP m = (t, m')"
  shows "nat_ok c m'"
proof (cases "uc_EnableNAT (um_config m)")
  case True
  obtain r m1 where a: "UdpManager_AllocateNATPort m = (r, m1)" by fastforce
  have "um_config m' = um_config m1 \<and> um_natPortCounter m' = um_natPortCounter m1"
    using assms(3) True a by (cases r) (auto simp: UdpManager_CreateNATMapping_def Let_def)
  then show ?thesis using nat_ok_same [OF Allocate_nat_ok [OF assms(1,2) a]] by blast
qed (use assms in \<open>simp add: UdpManager_CreateNATMapping_def\<close>)

lemma create_nat_same:
  assumes "UdpManager_create dials now sid tuple m = (r, m')"
  shows "um_config m' = um_config m" "um_natPortCounter m' = um_natPortCounter m"
    "um_natPortInUse m' = um_natPortInUse m" "um_natTable m' = um_natTable m"
  using assms by (auto simp: UdpManager_create_def Let_def split: prod.splits if_splits)

lemma remove_nat_same:
  assumes "UdpManager_RemoveSession sid m = (e, m')"
  shows "um_config m' = um_config m" "um_natPortCounter m' = um_natPortCounter m" "um_natPortInUse m' = um_natPortInUse m"
    "um_natTable m' = um_natTable m \<or> (\<exists>t. um_natTable m' = NATTable_RemoveMapping t (um_natTable m))"
  using assms by (auto simp: UdpManager_RemoveSession_def Let_def split: option.splits)

lemma udp_run_nat_ok: "udp_run rel c m \<Longrightarrow> nat_range c \<Longrightarrow> nat_ok c m"
proof (induction rule: udp_run.induct)
  case (ur_new rel c)
  then show ?case by (simp add: nat_ok_def NewUdpManager_def nat_range_def)
next
  case (ur_create rel c m sid tuple dials now r m')
  show ?case by (rule nat_ok_same [OF ur_create.IH [OF ur_create.prems] create_nat_same(1,2) [OF ur_create.hyps(4)]])
next
  case (ur_remove rel c m sid e m')
  show ?case by (rule nat_ok_same [OF ur_remove.IH [OF ur_remove.prems] remove_nat_same(1,2) [OF ur_remove.hyps(2)]])
next
  case (ur_expired rel c m k)
  show ?case by (rule nat_ok_same [OF ur_expired.IH [OF ur_expired.prems]]) simp_all
next
  case (ur_session rel c m sid s s')
  show ?case by (rule nat_ok_same [OF ur_session.IH [OF ur_session.prems]]) simp_all
next
  case (ur_allocate rel c m p m')
  show ?case by (rule Allocate_nat_ok [OF ur_allocate.IH [OF ur_allocate.prems] ur_allocate.prems ur_allocate.hyps(2)])
next
  case (ur_release rel c m port)
  show ?case by (rule nat_ok_same [OF ur_release.IH [OF ur_release.prems]]) (simp_all add: UdpManager_ReleaseNATPort_def)
next
  case (ur_map rel c m original targetIP t m')
  show ?case by (rule Mapping_nat_ok [OF ur_map.IH [OF ur_map.prems] ur_map.prems ur_map.hyps(4)])
qed

text \<open>
  A translated port is in the configured range and nobody holds it; with translation enabled, the search fails
  exactly when every port of the range is held.
\<close>

theorem nat_port_exclusive:
  assumes "udp_run rel c m" "nat_range c" "uc_EnableNAT c"
  shows "case UdpManager_AllocateNATPort m of
      (Inr p, m') \<Rightarrow> fst (uc_NATPortRange c) \<le> p \<and> p \<le> snd (uc_NATPortRange c) \<and> p \<notin> set (um_natPortInUse m) \<and>
        set (um_natPortInUse m') = insert p (set (um_natPortInUse m))
    | (Inl e, m') \<Rightarrow> m' = m \<and> e = UdpNoPort \<and> {fst (uc_NATPortRange c)..snd (uc_NATPortRange c)} \<subseteq> set (um_natPortInUse m)"
  using Allocate_spec [OF udp_run_nat_ok [OF assms(1,2)] assms(2)] assms(3) by (auto split: prod.splits sum.splits)

definition demo_nat_config :: udp_config where
  "demo_nat_config = DefaultUdpConfig\<lparr> uc_NATPortRange := (20000, 20001) \<rparr>"

theorem nat_port_exclusive_witness:
  "\<exists>p. fst (UdpManager_AllocateNATPort (NewUdpManager (Some demo_nat_config))) = Inr p \<and> 20000 \<le> p \<and> p \<le> 20001"
proof -
  have c: "nat_range demo_nat_config" "uc_EnableNAT demo_nat_config"
    "uc_NATPortRange demo_nat_config = (20000, 20001)" "um_natPortInUse (NewUdpManager (Some demo_nat_config)) = []"
    by (simp_all add: demo_nat_config_def DefaultUdpConfig_def nat_range_def NewUdpManager_def)
  show ?thesis using nat_port_exclusive [OF ur_new [of True demo_nat_config] c(1,2)] c(3,4)
    by (auto split: prod.splits sum.splits)
qed

section \<open>Translation both ways\<close>

definition nat_maps :: "(string \<Rightarrow> five_tuple option) \<Rightarrow> (string \<Rightarrow> five_tuple option) \<Rightarrow> int set \<Rightarrow> bool" where
  "nat_maps om mo used \<longleftrightarrow>
     (\<forall>h t. om h = Some t \<longrightarrow> plain_tuple t \<and> (\<exists>w. mo (FiveTuple_Hash t) = Some w \<and> FiveTuple_Hash w = h \<and> plain_tuple w)) \<and>
     (\<forall>k. mo k \<noteq> None \<longrightarrow> (\<exists>t. k = FiveTuple_Hash t \<and> plain_tuple t \<and> int (unat (ft_SrcPort t)) \<in> used))"

lemma nat_maps_more: "nat_maps om mo used \<Longrightarrow> used \<subseteq> used' \<Longrightarrow> nat_maps om mo used'"
  unfolding nat_maps_def by blast

lemma nat_maps_add:
  assumes "nat_maps om mo used" "plain_tuple w" "plain_tuple t" "int (unat (ft_SrcPort t)) \<notin> used"
  shows "nat_maps (om(FiveTuple_Hash w \<mapsto> t)) (mo(FiveTuple_Hash t \<mapsto> w)) (insert (int (unat (ft_SrcPort t))) used)"
proof -
  have new: "mo (FiveTuple_Hash t) = None"
  proof (rule ccontr)
    assume "mo (FiveTuple_Hash t) \<noteq> None"
    then obtain t' where "FiveTuple_Hash t = FiveTuple_Hash t'" "plain_tuple t'" "int (unat (ft_SrcPort t')) \<in> used"
      using assms(1) unfolding nat_maps_def by blast
    then show False using hash_inject [OF assms(3)] assms(4) by blast
  qed
  show ?thesis unfolding nat_maps_def
  proof (intro conjI allI impI)
    fix h t' assume h: "(om(FiveTuple_Hash w \<mapsto> t)) h = Some t'"
    show "plain_tuple t'" using h assms(1,3) unfolding nat_maps_def by (auto split: if_splits)
    show "\<exists>v. (mo(FiveTuple_Hash t \<mapsto> w)) (FiveTuple_Hash t') = Some v \<and> FiveTuple_Hash v = h \<and> plain_tuple v"
    proof (cases "h = FiveTuple_Hash w")
      case False
      then obtain v where "mo (FiveTuple_Hash t') = Some v" "FiveTuple_Hash v = h" "plain_tuple v"
        using h assms(1) unfolding nat_maps_def by auto
      then show ?thesis using new by auto
    qed (use h assms(2) in auto)
  next
    fix k assume "(mo(FiveTuple_Hash t \<mapsto> w)) k \<noteq> None"
    then show "\<exists>t'. k = FiveTuple_Hash t' \<and> plain_tuple t' \<and> int (unat (ft_SrcPort t')) \<in> insert (int (unat (ft_SrcPort t))) used"
      using assms(1,3) unfolding nat_maps_def by (cases "k = FiveTuple_Hash t") auto
  qed
qed

lemma nat_maps_remove:
  assumes "nat_maps om mo used" "om h = Some t"
  shows "nat_maps (om(h := None)) (mo(FiveTuple_Hash t := None)) used"
  unfolding nat_maps_def
proof (intro conjI allI impI)
  fix h' t' assume h': "(om(h := None)) h' = Some t'"
  then have "om h' = Some t'" "h' \<noteq> h" by (auto split: if_splits)
  moreover have "FiveTuple_Hash t' \<noteq> FiveTuple_Hash t"
    using assms calculation unfolding nat_maps_def by (metis option.inject)
  ultimately show "plain_tuple t'" "\<exists>v. (mo(FiveTuple_Hash t := None)) (FiveTuple_Hash t') = Some v \<and> FiveTuple_Hash v = h' \<and> plain_tuple v"
    using assms(1) unfolding nat_maps_def by simp_all
next
  fix k assume "(mo(FiveTuple_Hash t := None)) k \<noteq> None"
  then show "\<exists>t'. k = FiveTuple_Hash t' \<and> plain_tuple t' \<and> int (unat (ft_SrcPort t')) \<in> used"
    using assms(1) unfolding nat_maps_def by (auto split: if_splits)
qed

definition nat_inv :: "nat_table \<Rightarrow> int list \<Rightarrow> bool" where
  "nat_inv nt used \<longleftrightarrow> map_ok (nt_originalToMapped nt) \<and> map_ok (nt_mappedToOriginal nt) \<and>
     nat_maps (map_of (nt_originalToMapped nt)) (map_of (nt_mappedToOriginal nt)) (set used)"

lemma nat_inv_remove: "nat_inv nt used \<Longrightarrow> nat_inv (NATTable_RemoveMapping t nt) used"
  using nat_maps_remove [of "map_of (nt_originalToMapped nt)" "map_of (nt_mappedToOriginal nt)" "set used" "FiveTuple_Hash t"]
  by (simp add: NATTable_RemoveMapping_def nat_inv_def split: option.splits)

lemma nat_inv_add:
  assumes "nat_inv nt used" "plain_tuple w" "plain_tuple t" "int (unat (ft_SrcPort t)) = p" "p \<notin> set used"
  shows "nat_inv (NATTable_AddMapping w t nt) (p # used)"
  using nat_maps_add [of "map_of (nt_originalToMapped nt)" "map_of (nt_mappedToOriginal nt)" "set used" w t] assms
  by (simp add: NATTable_AddMapping_def nat_inv_def)

lemma nat_inv_map:
  assumes "nat_inv (um_natTable m) (um_natPortInUse m)" "nat_ok c m" "nat_range c" "plain_tuple original" "plain targetIP"
    and "UdpManager_CreateNATMapping original targetIP m = (t, m')"
  shows "nat_inv (um_natTable m') (um_natPortInUse m')"
proof (cases "uc_EnableNAT (um_config m)")
  case True
  obtain r m1 where a: "UdpManager_AllocateNATPort m = (r, m1)" by fastforce
  show ?thesis
  proof (cases r)
    case (Inl e)
    then show ?thesis using assms(1,6) True a Allocate_spec [OF assms(2,3)] by (simp add: UdpManager_CreateNATMapping_def)
  next
    case (Inr p)
    have p: "fst (uc_NATPortRange c) \<le> p" "p \<le> snd (uc_NATPortRange c)" "p \<notin> set (um_natPortInUse m)"
      "um_natPortInUse m1 = p # um_natPortInUse m"
      using Allocate_spec [OF assms(2,3)] a Inr by simp_all
    let ?t = "\<lparr> ft_SrcIP = targetIP, ft_SrcPort = of_int p, ft_DstIP = ft_DstIP original,
      ft_DstPort = ft_DstPort original, ft_Proto = ft_Proto original \<rparr>"
    have m': "um_natTable m' = NATTable_AddMapping original ?t (um_natTable m)" "um_natPortInUse m' = p # um_natPortInUse m"
      using assms(6) True a Inr p(4) Allocate_same(6) [OF a] by (auto simp: UdpManager_CreateNATMapping_def Let_def)
    have "0 \<le> p" "p < 65536" using p(1,2) assms(3) by (simp_all add: nat_range_def)
    then have "int (unat (ft_SrcPort ?t)) = p" by (simp add: unsigned_of_int nat_take_bit_eq take_bit_eq_mod)
    then show ?thesis unfolding m' using nat_inv_add [OF assms(1,4) _ _ p(3), of ?t] assms(4,5) by (simp add: plain_tuple_def)
  qed
qed (use assms in \<open>simp add: UdpManager_CreateNATMapping_def\<close>)

lemma nat_inv_allocate:
  assumes "nat_inv (um_natTable m) (um_natPortInUse m)" "nat_ok c m" "nat_range c" "UdpManager_AllocateNATPort m = (r, m')"
  shows "nat_inv (um_natTable m') (um_natPortInUse m')"
  using assms(1) Allocate_spec [OF assms(2,3)] assms(4) Allocate_same(6) [OF assms(4)]
  by (cases r) (auto simp: nat_inv_def elim: nat_maps_more)

lemma udp_run_translation: "udp_run rel c m \<Longrightarrow> \<not> rel \<Longrightarrow> nat_range c \<Longrightarrow> nat_inv (um_natTable m) (um_natPortInUse m)"
proof (induction rule: udp_run.induct)
  case (ur_new rel c)
  show ?case by (simp add: nat_inv_def nat_maps_def NewUdpManager_def NewNATTable_def Let_def)
next
  case (ur_create rel c m sid tuple dials now r m')
  show ?case using ur_create.IH [OF ur_create.prems] create_nat_same(3,4) [OF ur_create.hyps(4)] by simp
next
  case (ur_remove rel c m sid e m')
  show ?case using ur_remove.IH [OF ur_remove.prems] remove_nat_same(3,4) [OF ur_remove.hyps(2)] nat_inv_remove by fastforce
next
  case (ur_allocate rel c m p m')
  show ?case by (rule nat_inv_allocate [OF ur_allocate.IH [OF ur_allocate.prems]
      udp_run_nat_ok [OF ur_allocate.hyps(1) ur_allocate.prems(2)] ur_allocate.prems(2) ur_allocate.hyps(2)])
next
  case (ur_map rel c m original targetIP t m')
  show ?case by (rule nat_inv_map [OF ur_map.IH [OF ur_map.prems] udp_run_nat_ok [OF ur_map.hyps(1) ur_map.prems(2)]
      ur_map.prems(2) ur_map.hyps(2,3,4)])
qed simp_all

text \<open>
  While no translated port is given back, which nothing in the client does, the translation of a five-tuple
  leads back to it: the answers to its packets reach its owner.
\<close>

theorem translation_found_back:
  assumes "udp_run False c m" "nat_range c" "plain_tuple w" "NATTable_LookupByOriginal w (um_natTable m) = Some t"
  shows "NATTable_LookupByMapped t (um_natTable m) = Some w"
proof -
  obtain v where v: "NATTable_LookupByMapped t (um_natTable m) = Some v" "FiveTuple_Hash v = FiveTuple_Hash w" "plain_tuple v"
    using udp_run_translation [OF assms(1) _ assms(2)] assms(4)
    unfolding nat_inv_def nat_maps_def NATTable_LookupByOriginal_def NATTable_LookupByMapped_def by blast
  show ?thesis using v hash_inject [OF v(3) assms(3)] by simp
qed

definition demo_nat :: "(udp_err + five_tuple) \<times> udp_manager" where
  "demo_nat = UdpManager_CreateNATMapping (demo_tuple 80) ''10.9.9.9'' (NewUdpManager (Some demo_nat_config))"

lemma demo_nat_result:
  "fst demo_nat = Inr ((demo_tuple 80)\<lparr> ft_SrcIP := ''10.9.9.9'', ft_SrcPort := 20000 \<rparr>)"
  "NATTable_LookupByOriginal (demo_tuple 80) (um_natTable (snd demo_nat)) =
    Some ((demo_tuple 80)\<lparr> ft_SrcIP := ''10.9.9.9'', ft_SrcPort := 20000 \<rparr>)"
  by (simp_all add: demo_nat_def UdpManager_CreateNATMapping_def UdpManager_AllocateNATPort_def NewUdpManager_def
      demo_nat_config_def DefaultUdpConfig_def demo_tuple_def NATTable_AddMapping_def NATTable_LookupByOriginal_def Let_def
      smod_mod_positive numeral_2_eq_2)

theorem translation_found_back_witness:
  "NATTable_LookupByMapped ((demo_tuple 80)\<lparr> ft_SrcIP := ''10.9.9.9'', ft_SrcPort := 20000 \<rparr>) (um_natTable (snd demo_nat)) =
    Some (demo_tuple 80)"
proof (rule translation_found_back [OF ur_map [OF ur_new [of False demo_nat_config]] _ _ demo_nat_result(2)])
  show "UdpManager_CreateNATMapping (demo_tuple 80) ''10.9.9.9'' (NewUdpManager (Some demo_nat_config)) = (fst demo_nat, snd demo_nat)"
    by (simp add: demo_nat_def)
qed (simp_all add: plain_tuple_def demo_tuple_def nat_range_def demo_nat_config_def DefaultUdpConfig_def)

end
