(* ===== verification/Pool_Config.thy ===== *)
theory Pool_Config
  imports Go_Float
begin

text \<open>
  The settings of the client's connection pools, \<open>client/internal/pool/config.go\<close>: the three presets, their
  validation, and the names of the strategies. Durations are nanoseconds. \<open>Apply\<close> is with the pool it writes to.

  Lemmas: the presets are valid, the names round-trip, and what a valid configuration promises the pool.
\<close>

record pool_config =
  pf_MinConnections :: int
  pf_MaxConnections :: int
  pf_MaxIdleTime :: int
  pf_MaxConnAge :: int
  pf_MinQualityScore :: rat
  pf_MaxRTT :: int
  pf_MaxPacketLoss :: rat
  pf_MaxErrorRate :: rat
  pf_ScaleUpThreshold :: rat
  pf_ScaleDownThreshold :: rat
  pf_AdaptInterval :: int
  pf_QualityCheckInterval :: int
  pf_CleanupInterval :: int
  pf_RTTSampleSize :: int
  pf_EnablePreWarming :: bool
  pf_PreWarmingTargets :: int
  pf_LoadBalanceStrategy :: string
  pf_HealthCheckEnabled :: bool
  pf_HealthCheckInterval :: int

abbreviation secs :: "int \<Rightarrow> int" where
  "secs n \<equiv> n * 10 ^ 9"

definition DefaultPoolConfig :: pool_config where
  "DefaultPoolConfig =
     \<lparr> pf_MinConnections = 2, pf_MaxConnections = 20, pf_MaxIdleTime = secs (5 * 60), pf_MaxConnAge = secs (30 * 60),
       pf_MinQualityScore = 60, pf_MaxRTT = 500 * 10 ^ 6, pf_MaxPacketLoss = fl (5 / 100), pf_MaxErrorRate = fl (2 / 100),
       pf_ScaleUpThreshold = 80, pf_ScaleDownThreshold = 95, pf_AdaptInterval = secs 30,
       pf_QualityCheckInterval = secs 10, pf_CleanupInterval = secs 60, pf_RTTSampleSize = 20,
       pf_EnablePreWarming = True, pf_PreWarmingTargets = 3, pf_LoadBalanceStrategy = ''quality_based'',
       pf_HealthCheckEnabled = True, pf_HealthCheckInterval = secs 30 \<rparr>"

definition HighPerformanceConfig :: pool_config where
  "HighPerformanceConfig = DefaultPoolConfig
     \<lparr> pf_MinConnections := 5, pf_MaxConnections := 50, pf_MinQualityScore := 75, pf_MaxRTT := 200 * 10 ^ 6,
       pf_MaxPacketLoss := fl (2 / 100), pf_MaxErrorRate := fl (1 / 100), pf_ScaleUpThreshold := 85,
       pf_ScaleDownThreshold := 98, pf_AdaptInterval := secs 15, pf_QualityCheckInterval := secs 5,
       pf_HealthCheckInterval := secs 15, pf_PreWarmingTargets := 8 \<rparr>"

definition LowResourceConfig :: pool_config where
  "LowResourceConfig = DefaultPoolConfig
     \<lparr> pf_MinConnections := 1, pf_MaxConnections := 8, pf_MinQualityScore := 50, pf_MaxRTT := secs 1,
       pf_MaxPacketLoss := fl (1 / 10), pf_MaxErrorRate := fl (5 / 100), pf_AdaptInterval := secs 60,
       pf_QualityCheckInterval := secs 30, pf_CleanupInterval := secs 120, pf_HealthCheckInterval := secs 60,
       pf_EnablePreWarming := False, pf_PreWarmingTargets := 1 \<rparr>"

datatype lb_strategy = StrategyQualityBased | StrategyRoundRobin | StrategyLeastConn | StrategyRandom

fun LbStrategy_String :: "lb_strategy \<Rightarrow> string" where
  "LbStrategy_String StrategyQualityBased = ''quality_based''"
| "LbStrategy_String StrategyRoundRobin = ''round_robin''"
| "LbStrategy_String StrategyLeastConn = ''least_conn''"
| "LbStrategy_String StrategyRandom = ''random''"

definition ParseLoadBalanceStrategy :: "string \<Rightarrow> lb_strategy" where
  "ParseLoadBalanceStrategy strategy =
     (if strategy = ''quality_based'' then StrategyQualityBased
      else if strategy = ''round_robin'' then StrategyRoundRobin
      else if strategy = ''least_conn'' then StrategyLeastConn
      else if strategy = ''random'' then StrategyRandom
      else StrategyQualityBased)"

datatype config_err = BadMinConnections | BadMaxConnections | BadIdleTime | BadConnAge | BadQualityScore | BadPacketLoss
  | BadErrorRate | BadScaleUp | BadScaleDown | BadScaleOrder | BadSampleSize | BadStrategy

definition PoolConfig_Validate :: "pool_config \<Rightarrow> config_err option" where
  "PoolConfig_Validate c =
     (if pf_MinConnections c < 1 then Some BadMinConnections
      else if pf_MaxConnections c < pf_MinConnections c then Some BadMaxConnections
      else if pf_MaxIdleTime c \<le> 0 then Some BadIdleTime
      else if pf_MaxConnAge c \<le> 0 then Some BadConnAge
      else if pf_MinQualityScore c < 0 \<or> pf_MinQualityScore c > 100 then Some BadQualityScore
      else if pf_MaxPacketLoss c < 0 \<or> pf_MaxPacketLoss c > 1 then Some BadPacketLoss
      else if pf_MaxErrorRate c < 0 \<or> pf_MaxErrorRate c > 1 then Some BadErrorRate
      else if pf_ScaleUpThreshold c < 0 \<or> pf_ScaleUpThreshold c > 100 then Some BadScaleUp
      else if pf_ScaleDownThreshold c < 0 \<or> pf_ScaleDownThreshold c > 100 then Some BadScaleDown
      else if pf_ScaleUpThreshold c \<ge> pf_ScaleDownThreshold c then Some BadScaleOrder
      else if pf_RTTSampleSize c < 1 then Some BadSampleSize
      else if pf_LoadBalanceStrategy c \<notin> {''quality_based'', ''round_robin'', ''least_conn'', ''random''}
        then Some BadStrategy
      else None)"

lemma fl_unit: "0 \<le> x \<Longrightarrow> x \<le> 1 / 2 \<Longrightarrow> 0 \<le> fl x \<and> fl x \<le> 1"
  using fl_nonneg [of x] fl_bounds(1) [of x] mult_mono [of x "1 / 2" "1 + 1 / 2 ^ 53" 2] by simp

lemma presets_valid:
  "PoolConfig_Validate DefaultPoolConfig = None \<and> PoolConfig_Validate HighPerformanceConfig = None \<and>
   PoolConfig_Validate LowResourceConfig = None"
  using fl_unit [of "5 / 100"] fl_unit [of "2 / 100"] fl_unit [of "1 / 100"] fl_unit [of "1 / 10"]
  by (simp add: PoolConfig_Validate_def DefaultPoolConfig_def HighPerformanceConfig_def LowResourceConfig_def)

lemma strategy_roundtrip: "ParseLoadBalanceStrategy (LbStrategy_String s) = s"
  by (cases s) (simp_all add: ParseLoadBalanceStrategy_def)

lemma strategy_valid:
  "PoolConfig_Validate c = None \<Longrightarrow> LbStrategy_String (ParseLoadBalanceStrategy (pf_LoadBalanceStrategy c)) = pf_LoadBalanceStrategy c"
  by (auto simp: PoolConfig_Validate_def ParseLoadBalanceStrategy_def split: if_splits)

end
