(* ===== verification/Pool_Balancer.thy ===== *)
theory Pool_Balancer
  imports Pool_Config
begin

text \<open>
  The pooled connections of the client and the balancer that chooses among them: the types of
  \<open>client/internal/pool/adaptive.go\<close> and all of \<open>client/internal/pool/loadbalancer.go\<close>. The socket of a connection is
  open or closed. A pointer to a connection is its position in the list of all connections ever made, here the
  argument \<open>hp\<close>. The clock, the random numbers and the order in which a map is visited are arguments. The figures
  for display are left out.

  Lemmas: the choice is one of the candidates, and for the strategies that compare it is the best; weights stay
  within their limits; the balancer forgets exactly the connections that are gone.
\<close>

section \<open>Connections\<close>

record conn_quality =
  cq_RTT :: int
  cq_PacketLoss :: rat
  cq_Throughput :: int
  cq_ErrorRate :: rat
  cq_LastUpdate :: "int option"
  cq_Score :: rat

record pooled_conn =
  pc_id :: string
  pc_createdAt :: int
  pc_lastUsed :: int
  pc_quality :: "conn_quality option"
  pc_bytesIn :: int
  pc_bytesOut :: int
  pc_requestCount :: int
  pc_errorCount :: int
  pc_inUse :: bool
  pc_cancelled :: bool
  pc_closed :: bool
  pc_rttSamples :: "int list"
  pc_packetsSent :: int
  pc_packetsLost :: int
  pc_packetsRecv :: int

section \<open>State of the balancer\<close>

record conn_performance =
  pe_ResponseTimes :: "int list"
  pe_SuccessCount :: int
  pe_FailureCount :: int
  pe_LastUpdate :: int
  pe_Weight :: rat
  pe_AvgResponseTime :: int
  pe_SuccessRate :: rat
  pe_Momentum :: rat

record adaptive_config =
  ac_WeightDecayFactor :: rat
  ac_LearningRate :: rat
  ac_MomentumFactor :: rat
  ac_PerformanceWindow :: int
  ac_UpdateInterval :: int
  ac_MinWeight :: rat
  ac_MaxWeight :: rat
  ac_FailurePenalty :: rat
  ac_SuccessReward :: rat

record advanced_lb =
  al_strategy :: lb_strategy
  al_roundRobinIdx :: int
  al_weights :: "(string \<times> rat) list"
  al_perfHistory :: "(string \<times> conn_performance) list"
  al_config :: adaptive_config

definition DefaultAdaptiveConfig :: adaptive_config where
  "DefaultAdaptiveConfig =
     \<lparr> ac_WeightDecayFactor = fl (95 / 100), ac_LearningRate = fl (1 / 10), ac_MomentumFactor = fl (9 / 10),
       ac_PerformanceWindow = 20, ac_UpdateInterval = secs 5, ac_MinWeight = fl (1 / 10), ac_MaxWeight = 2,
       ac_FailurePenalty = fl (2 / 10), ac_SuccessReward = fl (1 / 10) \<rparr>"

definition NewAdvancedLoadBalancer :: "lb_strategy \<Rightarrow> advanced_lb" where
  "NewAdvancedLoadBalancer strategy =
     \<lparr> al_strategy = strategy, al_roundRobinIdx = 0, al_weights = [], al_perfHistory = [],
       al_config = DefaultAdaptiveConfig \<rparr>"

definition Alb_getConnectionWeight :: "advanced_lb \<Rightarrow> string \<Rightarrow> rat" where
  "Alb_getConnectionWeight alb connID = (case map_of (al_weights alb) connID of Some w \<Rightarrow> w | None \<Rightarrow> 1)"

definition Alb_getConnectionQuality :: "pooled_conn \<Rightarrow> conn_quality" where
  "Alb_getConnectionQuality c =
     (case pc_quality c of
        Some q \<Rightarrow> q
      | None \<Rightarrow> \<lparr> cq_RTT = 100 * 10 ^ 6, cq_PacketLoss = 0, cq_Throughput = 0, cq_ErrorRate = 0, cq_LastUpdate = None,
                  cq_Score = 50 \<rparr>)"

section \<open>Choosing\<close>

text \<open>\<open>best_loop better start\<close> is the loop \<open>for \<dots> if f(conn) better best then best, choice = f(conn), conn\<close>.\<close>

fun best_loop :: "(rat \<Rightarrow> rat \<Rightarrow> bool) \<Rightarrow> (nat \<Rightarrow> rat) \<Rightarrow> rat \<Rightarrow> nat option \<Rightarrow> nat list \<Rightarrow> nat option" where
  "best_loop better f best choice [] = choice"
| "best_loop better f best choice (a # as) =
     (if better (f a) best then best_loop better f (f a) (Some a) as else best_loop better f best choice as)"

definition Alb_selectByQualityWeighted :: "pooled_conn list \<Rightarrow> nat list \<Rightarrow> advanced_lb \<Rightarrow> nat option" where
  "Alb_selectByQualityWeighted hp connections alb =
     best_loop (>) (\<lambda>a. fmul (cq_Score (Alb_getConnectionQuality (hp ! a))) (Alb_getConnectionWeight alb (pc_id (hp ! a))))
       (- 1) None connections"

definition MaxFloat64 :: rat where
  "MaxFloat64 = (2 ^ 53 - 1) * 2 ^ 971"

definition Alb_selectByWeightedLeastConn :: "pooled_conn list \<Rightarrow> nat list \<Rightarrow> advanced_lb \<Rightarrow> nat option" where
  "Alb_selectByWeightedLeastConn hp connections alb =
     best_loop (<)
       (\<lambda>a. fdiv (float64 (pc_requestCount (hp ! a))) (max (Alb_getConnectionWeight alb (pc_id (hp ! a))) (fl (1 / 10))))
       MaxFloat64 None connections"

fun weight_loop :: "(nat \<Rightarrow> rat) \<Rightarrow> rat \<Rightarrow> rat \<Rightarrow> nat list \<Rightarrow> nat option" where
  "weight_loop w target current [] = None"
| "weight_loop w target current (a # as) =
     (let current = fadd current (w a) in if current \<ge> target then Some a else weight_loop w target current as)"

definition total_weight :: "(nat \<Rightarrow> rat) \<Rightarrow> nat list \<Rightarrow> rat" where
  "total_weight w as = fold (\<lambda>a t. fadd t (w a)) as 0"

text \<open>\<open>u\<close> is what \<open>rand.Float64\<close> gives, \<open>i\<close> what \<open>rand.Intn\<close> gives.\<close>

definition Alb_selectByWeightedRoundRobin ::
    "rat \<Rightarrow> pooled_conn list \<Rightarrow> nat list \<Rightarrow> advanced_lb \<Rightarrow> (nat \<times> advanced_lb) res" where
  "Alb_selectByWeightedRoundRobin u hp connections alb =
     (let w = (\<lambda>a. Alb_getConnectionWeight alb (pc_id (hp ! a))); totalWeight = total_weight w connections
      in if totalWeight = 0
         then (let n = add64 (al_roundRobinIdx alb) 1; idx = sub64 n 1; i = idx smod int (length connections)
               in if i < 0 then Inl IndexOutOfRange
                  else Inr (connections ! nat i, alb\<lparr> al_roundRobinIdx := n \<rparr>))
         else (case weight_loop w (fmul u totalWeight) 0 connections of
                 Some a \<Rightarrow> Inr (a, alb)
               | None \<Rightarrow> Inr (last connections, alb)))"

definition Alb_selectByWeightedRandom :: "rat \<Rightarrow> nat \<Rightarrow> pooled_conn list \<Rightarrow> nat list \<Rightarrow> advanced_lb \<Rightarrow> nat" where
  "Alb_selectByWeightedRandom u i hp connections alb =
     (let w = (\<lambda>a. Alb_getConnectionWeight alb (pc_id (hp ! a))); totalWeight = total_weight w connections
      in if totalWeight = 0 then connections ! i
         else (case weight_loop w (fmul u totalWeight) 0 connections of
                 Some a \<Rightarrow> a
               | None \<Rightarrow> last connections))"

definition Alb_SelectConnection ::
    "rat \<Rightarrow> nat \<Rightarrow> pooled_conn list \<Rightarrow> nat list \<Rightarrow> advanced_lb \<Rightarrow> (nat option \<times> advanced_lb) res" where
  "Alb_SelectConnection u i hp connections alb =
     (if connections = [] then Inr (None, alb)
      else if length connections = 1 then Inr (Some (connections ! 0), alb)
      else (case al_strategy alb of
              StrategyQualityBased \<Rightarrow> Inr (Alb_selectByQualityWeighted hp connections alb, alb)
            | StrategyRoundRobin \<Rightarrow>
                and_then (Alb_selectByWeightedRoundRobin u hp connections alb) (\<lambda>(a, alb). Inr (Some a, alb))
            | StrategyLeastConn \<Rightarrow> Inr (Alb_selectByWeightedLeastConn hp connections alb, alb)
            | StrategyRandom \<Rightarrow> Inr (Some (Alb_selectByWeightedRandom u i hp connections alb), alb)))"

section \<open>Weights\<close>

definition perf_score :: "conn_performance \<Rightarrow> rat" where
  "perf_score pe =
     (let score = 1 / 2;
          score = (if pe_AvgResponseTime pe > 0
                   then fmul score (max (fl (1 / 10)) (min 1 (fdiv (float64 (100 * 10 ^ 6)) (float64 (pe_AvgResponseTime pe)))))
                   else score)
      in fmul score (pe_SuccessRate pe))"

definition Alb_updateWeight :: "string \<Rightarrow> conn_performance \<Rightarrow> advanced_lb \<Rightarrow> advanced_lb" where
  "Alb_updateWeight connID pe alb =
     (let cfg = al_config alb;
          targetWeight = fmul (perf_score pe) 2;
          weightDelta = fmul (ac_LearningRate cfg) (fsub targetWeight (pe_Weight pe));
          momentum = fadd (fmul (ac_MomentumFactor cfg) (pe_Momentum pe)) (fmul (fsub 1 (ac_MomentumFactor cfg)) weightDelta);
          newWeight = fmul (fadd (pe_Weight pe) momentum) (ac_WeightDecayFactor cfg);
          newWeight = max (ac_MinWeight cfg) (min (ac_MaxWeight cfg) newWeight)
      in alb\<lparr> al_perfHistory := AList.update connID (pe\<lparr> pe_Weight := newWeight, pe_Momentum := momentum \<rparr>) (al_perfHistory alb),
              al_weights := AList.update connID newWeight (al_weights alb) \<rparr>)"

definition Alb_UpdateStats :: "int \<Rightarrow> string \<Rightarrow> int \<Rightarrow> bool \<Rightarrow> advanced_lb \<Rightarrow> advanced_lb" where
  "Alb_UpdateStats now connID responseTime success alb =
     (let pe = (case map_of (al_perfHistory alb) connID of
                  Some pe \<Rightarrow> pe
                | None \<Rightarrow> \<lparr> pe_ResponseTimes = [], pe_SuccessCount = 0, pe_FailureCount = 0, pe_LastUpdate = 0, pe_Weight = 1,
                            pe_AvgResponseTime = 0, pe_SuccessRate = 0, pe_Momentum = 0 \<rparr>);
          times = pe_ResponseTimes pe @ [responseTime];
          times = (if int (length times) > ac_PerformanceWindow (al_config alb) then drop 1 times else times);
          ok = (if success then add64 (pe_SuccessCount pe) 1 else pe_SuccessCount pe);
          bad = (if success then pe_FailureCount pe else add64 (pe_FailureCount pe) 1);
          avg = (if length times > 0 then wrap64 (sum64 times sdiv int (length times)) else pe_AvgResponseTime pe);
          rate = (if add64 ok bad > 0 then fdiv (float64 ok) (float64 (add64 ok bad)) else pe_SuccessRate pe)
      in Alb_updateWeight connID
           (pe\<lparr> pe_ResponseTimes := times, pe_SuccessCount := ok, pe_FailureCount := bad, pe_LastUpdate := now,
                pe_AvgResponseTime := avg, pe_SuccessRate := rate \<rparr>) alb)"

definition Alb_SetStrategy :: "lb_strategy \<Rightarrow> advanced_lb \<Rightarrow> advanced_lb" where
  "Alb_SetStrategy strategy alb = (if al_strategy alb \<noteq> strategy then alb\<lparr> al_strategy := strategy \<rparr> else alb)"

definition Alb_CleanupStaleConnections :: "string list \<Rightarrow> advanced_lb \<Rightarrow> advanced_lb" where
  "Alb_CleanupStaleConnections activeConnIDs alb =
     alb\<lparr> al_perfHistory := filter (\<lambda>(k, _). k \<in> set activeConnIDs) (al_perfHistory alb),
         al_weights := filter (\<lambda>(k, _). k \<in> set activeConnIDs) (al_weights alb) \<rparr>"

definition weight_update :: "int \<Rightarrow> string \<Rightarrow> advanced_lb \<Rightarrow> advanced_lb" where
  "weight_update now connID alb =
     (case map_of (al_perfHistory alb) connID of
        None \<Rightarrow> alb
      | Some pe \<Rightarrow> if now - pe_LastUpdate pe < secs 30 then Alb_updateWeight connID pe alb else alb)"

definition Alb_periodicWeightUpdate :: "int \<Rightarrow> string list \<Rightarrow> advanced_lb \<Rightarrow> advanced_lb" where
  "Alb_periodicWeightUpdate now ord alb = fold (weight_update now) ord alb"

section \<open>What a choice is\<close>

lemma best_loop_spec:
  assumes trans: "\<And>x y z. better x y \<Longrightarrow> better y z \<Longrightarrow> better x z" and irrefl: "\<And>x. \<not> better x x"
  shows "best_loop better f best choice as = choice \<and> (\<forall>b\<in>set as. \<not> better (f b) best) \<or>
    (\<exists>a\<in>set as. best_loop better f best choice as = Some a \<and> better (f a) best \<and> (\<forall>b\<in>set as. \<not> better (f b) (f a)))"
proof (induction as arbitrary: best choice)
  case (Cons a as)
  show ?case
  proof (cases "better (f a) best")
    case True
    then show ?thesis using Cons.IH [of "f a" "Some a"] trans irrefl by simp blast
  next
    case False
    then show ?thesis using Cons.IH [of best choice] trans by simp blast
  qed
qed simp

lemma weight_loop_member: "weight_loop w target current as = Some a \<Longrightarrow> a \<in> set as"
  by (induction as arbitrary: current) (auto simp: Let_def split: if_splits)

definition quality_rank :: "pooled_conn list \<Rightarrow> advanced_lb \<Rightarrow> nat \<Rightarrow> rat" where
  "quality_rank hp alb a = fmul (cq_Score (Alb_getConnectionQuality (hp ! a))) (Alb_getConnectionWeight alb (pc_id (hp ! a)))"

definition load_rank :: "pooled_conn list \<Rightarrow> advanced_lb \<Rightarrow> nat \<Rightarrow> rat" where
  "load_rank hp alb a =
     fdiv (float64 (pc_requestCount (hp ! a))) (max (Alb_getConnectionWeight alb (pc_id (hp ! a))) (fl (1 / 10)))"

lemma tenth_bound: "1 / 20 \<le> fl (1 / 10)" "fl (1 / 10) \<le> 1 / 5"
  using fl_bounds [of "1 / 10"] by simp_all

lemma load_rank_small:
  assumes "0 \<le> pc_requestCount (hp ! a)" "pc_requestCount (hp ! a) < 2 ^ 63"
  shows "load_rank hp alb a < MaxFloat64"
proof -
  define n :: rat where "n = float64 (pc_requestCount (hp ! a))"
  define d where "d = max (Alb_getConnectionWeight alb (pc_id (hp ! a))) (fl (1 / 10))"
  have "(of_int (pc_requestCount (hp ! a)) :: rat) \<le> of_int (2 ^ 63)" using assms(2) by (simp only: of_int_le_iff)
  then have count: "(0 :: rat) \<le> of_int (pc_requestCount (hp ! a))" "of_int (pc_requestCount (hp ! a)) \<le> (2 ^ 63 :: rat)"
    using assms(1) by simp_all
  then have n: "0 \<le> n" "n \<le> 2 ^ 64"
    using fl_bounds(1) [OF count(1)] fl_nonneg [OF count(1)] by (simp_all add: n_def)
  have d: "1 / 20 \<le> d" using tenth_bound(1) by (simp add: d_def)
  then have "n / d \<le> 2 ^ 64 / (1 / 20)" using n by (intro frac_le) simp_all
  then have "fl (n / d) \<le> 2 ^ 70" using fl_bounds(1) [of "n / d"] n d by simp
  also have "\<dots> < MaxFloat64"
  proof -
    have "(2 :: rat) ^ 70 < 2 ^ 971" by (rule power_strict_increasing) simp_all
    also have "(2 :: rat) ^ 971 \<le> MaxFloat64"
      using mult_right_mono [of 1 "2 ^ 53 - 1" "2 ^ 971 :: rat"] unfolding MaxFloat64_def by simp
    finally show ?thesis .
  qed
  finally show ?thesis by (simp add: load_rank_def n_def d_def)
qed

text \<open>The weights the balancer holds are those of its records, within the limits.\<close>

definition weights_ok :: "(string \<Rightarrow> rat option) \<Rightarrow> (string \<Rightarrow> conn_performance option) \<Rightarrow> rat \<Rightarrow> rat \<Rightarrow> bool" where
  "weights_ok ws ps lo hi \<longleftrightarrow> (\<forall>k. ws k = map_option pe_Weight (ps k)) \<and> (\<forall>k w. ws k = Some w \<longrightarrow> lo \<le> w \<and> w \<le> hi) \<and>
     0 < lo \<and> lo \<le> hi"

definition lb_inv :: "advanced_lb \<Rightarrow> bool" where
  "lb_inv alb \<longleftrightarrow> map_ok (al_weights alb) \<and> map_ok (al_perfHistory alb) \<and>
     weights_ok (map_of (al_weights alb)) (map_of (al_perfHistory alb)) (ac_MinWeight (al_config alb)) (ac_MaxWeight (al_config alb))"

lemma weights_ok_update:
  "weights_ok ws ps lo hi \<Longrightarrow> lo \<le> pe_Weight pe \<Longrightarrow> pe_Weight pe \<le> hi \<Longrightarrow>
    weights_ok (ws(k \<mapsto> pe_Weight pe)) (ps(k \<mapsto> pe)) lo hi"
  by (simp add: weights_ok_def)

lemma weights_ok_restrict:
  "weights_ok ws ps lo hi \<Longrightarrow> weights_ok (\<lambda>k. if P k then ws k else None) (\<lambda>k. if P k then ps k else None) lo hi"
  by (simp add: weights_ok_def)

lemma lb_inv_new: "lb_inv (NewAdvancedLoadBalancer strategy)"
  using tenth_bound by (simp add: lb_inv_def weights_ok_def NewAdvancedLoadBalancer_def DefaultAdaptiveConfig_def)

lemma lb_inv_updateWeight:
  assumes "lb_inv alb"
  shows "lb_inv (Alb_updateWeight connID pe alb)"
proof -
  define w where "w = max (ac_MinWeight (al_config alb)) (min (ac_MaxWeight (al_config alb))
     (fmul (fadd (pe_Weight pe) (fadd (fmul (ac_MomentumFactor (al_config alb)) (pe_Momentum pe))
       (fmul (fsub 1 (ac_MomentumFactor (al_config alb)))
         (fmul (ac_LearningRate (al_config alb)) (fsub (fmul (perf_score pe) 2) (pe_Weight pe))))))
       (ac_WeightDecayFactor (al_config alb))))"
  have lim: "0 < ac_MinWeight (al_config alb)" "ac_MinWeight (al_config alb) \<le> ac_MaxWeight (al_config alb)"
    using assms by (simp_all add: lb_inv_def weights_ok_def)
  then have w: "ac_MinWeight (al_config alb) \<le> w" "w \<le> ac_MaxWeight (al_config alb)" by (simp_all add: w_def)
  have old: "map_ok (al_weights alb)" "map_ok (al_perfHistory alb)"
    "weights_ok (map_of (al_weights alb)) (map_of (al_perfHistory alb)) (ac_MinWeight (al_config alb)) (ac_MaxWeight (al_config alb))"
    using assms by (simp_all only: lb_inv_def)
  show ?thesis using old(1,2) weights_ok_update [OF old(3), of "_\<lparr> pe_Weight := w, pe_Momentum := _ \<rparr>"] w
    by (simp add: Alb_updateWeight_def Let_def lb_inv_def w_def [symmetric])
qed

lemma lb_inv_UpdateStats: "lb_inv alb \<Longrightarrow> lb_inv (Alb_UpdateStats now connID responseTime success alb)"
  by (simp add: Alb_UpdateStats_def Let_def lb_inv_updateWeight)

lemma lb_inv_SetStrategy: "lb_inv alb \<Longrightarrow> lb_inv (Alb_SetStrategy strategy alb)"
  by (simp add: Alb_SetStrategy_def lb_inv_def)

lemma lb_inv_roundRobin: "lb_inv alb \<Longrightarrow> lb_inv (alb\<lparr> al_roundRobinIdx := n \<rparr>)"
  by (simp add: lb_inv_def)

lemma map_of_filter_keys: "map_of (filter (\<lambda>(k, _). P k) m) = (\<lambda>k. if P k then map_of m k else None)"
  by (induction m) (auto simp: fun_eq_iff)

lemma map_ok_filter: "map_ok m \<Longrightarrow> map_ok (filter P m)"
  by (induction m) auto

lemma lb_inv_Cleanup: "lb_inv alb \<Longrightarrow> lb_inv (Alb_CleanupStaleConnections ids alb)"
  unfolding lb_inv_def Alb_CleanupStaleConnections_def
  by (simp add: map_of_filter_keys map_ok_filter weights_ok_restrict)

lemma lb_inv_periodic: "lb_inv alb \<Longrightarrow> lb_inv (Alb_periodicWeightUpdate now ord alb)"
proof -
  have "lb_inv (weight_update now k alb)" if "lb_inv alb" for k alb
    using that by (simp add: weight_update_def lb_inv_updateWeight split: option.split)
  then show "lb_inv alb \<Longrightarrow> lb_inv (Alb_periodicWeightUpdate now ord alb)"
    unfolding Alb_periodicWeightUpdate_def by (induction ord arbitrary: alb) simp_all
qed

lemma weights_okD: "weights_ok ws ps lo hi \<Longrightarrow> ws k = Some w \<Longrightarrow> 0 < w"
  unfolding weights_ok_def by (meson order.strict_trans2)

lemma weight_positive:
  assumes "lb_inv alb"
  shows "0 < Alb_getConnectionWeight alb k"
proof (cases "map_of (al_weights alb) k")
  case (Some w)
  have "weights_ok (map_of (al_weights alb)) (map_of (al_perfHistory alb)) (ac_MinWeight (al_config alb)) (ac_MaxWeight (al_config alb))"
    using assms by (simp only: lb_inv_def)
  from weights_okD [OF this Some] show ?thesis by (simp only: Alb_getConnectionWeight_def Some option.case)
next
  case None
  show ?thesis by (simp only: Alb_getConnectionWeight_def None option.case zero_less_one)
qed

lemma fl_positive:
  assumes "0 < x"
  shows "0 < fl x"
proof -
  have "0 < x * (1 - 1 / 2 ^ 53)" using assms by simp
  then show ?thesis using fl_bounds(2) [of x] assms by simp
qed

lemma total_weight_positive:
  assumes "\<And>a. 0 < w a" "as \<noteq> []"
  shows "0 < total_weight w as"
proof -
  have "0 < fold (\<lambda>a t. fadd t (w a)) as t" if "0 < t \<or> 0 \<le> t \<and> as \<noteq> []" for t :: rat
    using that
  proof (induction as arbitrary: t)
    case (Cons a as)
    have "0 < fadd t (w a)" using Cons.prems assms(1) [of a] fl_positive [of "t + w a"] by auto
    then show ?case using Cons.IH by simp
  qed simp
  then show ?thesis using assms(2) by (simp add: total_weight_def)
qed

text \<open>
  Among several candidates the balancer always finds one, whatever the strategy; the strategy by quality
  takes one of the highest weighted quality, the strategy by load one of the lowest load per weight.
\<close>

theorem balancer_choice:
  assumes "lb_inv alb" "connections \<noteq> []"
    and "\<And>a. a \<in> set connections \<Longrightarrow> 0 \<le> cq_Score (Alb_getConnectionQuality (hp ! a))"
    and "\<And>a. a \<in> set connections \<Longrightarrow> 0 \<le> pc_requestCount (hp ! a) \<and> pc_requestCount (hp ! a) < 2 ^ 63"
    and "i < length connections"
  shows "\<exists>a. Alb_SelectConnection u i hp connections alb = Inr (Some a, alb) \<and> a \<in> set connections \<and>
    (al_strategy alb = StrategyQualityBased \<longrightarrow> (\<forall>b\<in>set connections. quality_rank hp alb b \<le> quality_rank hp alb a)) \<and>
    (al_strategy alb = StrategyLeastConn \<longrightarrow> (\<forall>b\<in>set connections. load_rank hp alb a \<le> load_rank hp alb b))"
proof (cases "length connections = 1")
  case True
  then show ?thesis using assms(2) by (cases connections) (auto simp: Alb_SelectConnection_def)
next
  case False
  have w: "0 < Alb_getConnectionWeight alb k" for k by (rule weight_positive [OF assms(1)])
  define a where "a = hd connections"
  have a: "a \<in> set connections" using assms(2) by (simp add: a_def)
  have tw: "total_weight (\<lambda>a. Alb_getConnectionWeight alb (pc_id (hp ! a))) connections \<noteq> 0"
    using total_weight_positive [OF w assms(2)] by (simp add: less_le)
  show ?thesis
  proof (cases "al_strategy alb")
    case StrategyQualityBased
    have "0 \<le> quality_rank hp alb a" using assms(3) [OF a] w [of "pc_id (hp ! a)"] by (simp add: quality_rank_def fl_nonneg)
    then have "\<not> (\<forall>b\<in>set connections. \<not> - 1 < quality_rank hp alb b)" using a by force
    then show ?thesis using best_loop_spec [of "(>)" "quality_rank hp alb" "- 1" None connections] False assms(2) StrategyQualityBased
      by (auto simp: Alb_SelectConnection_def Alb_selectByQualityWeighted_def quality_rank_def [abs_def] not_less)
  next
    case StrategyLeastConn
    have "\<not> (\<forall>b\<in>set connections. \<not> load_rank hp alb b < MaxFloat64)" using load_rank_small assms(4) a by blast
    then show ?thesis using best_loop_spec [of "(<)" "load_rank hp alb" MaxFloat64 None connections] False assms(2) StrategyLeastConn
      by (auto simp: Alb_SelectConnection_def Alb_selectByWeightedLeastConn_def load_rank_def [abs_def] not_less)
  next
    case StrategyRoundRobin
    then show ?thesis using False assms(2) tw
      by (auto simp: Alb_SelectConnection_def Alb_selectByWeightedRoundRobin_def Let_def dest: weight_loop_member split: option.split)
  next
    case StrategyRandom
    then show ?thesis using False assms(2) tw
      by (auto simp: Alb_SelectConnection_def Alb_selectByWeightedRandom_def Let_def dest: weight_loop_member split: option.split)
  qed
qed

definition demo_conn :: "string \<Rightarrow> rat \<Rightarrow> pooled_conn" where
  "demo_conn cid score =
     \<lparr> pc_id = cid, pc_createdAt = 0, pc_lastUsed = 0,
       pc_quality = Some \<lparr> cq_RTT = 10 ^ 6, cq_PacketLoss = 0, cq_Throughput = 0, cq_ErrorRate = 0, cq_LastUpdate = Some 0, cq_Score = score \<rparr>,
       pc_bytesIn = 0, pc_bytesOut = 0, pc_requestCount = 0, pc_errorCount = 0, pc_inUse = False, pc_cancelled = False,
       pc_closed = False, pc_rttSamples = [], pc_packetsSent = 0, pc_packetsLost = 0, pc_packetsRecv = 0 \<rparr>"

theorem balancer_choice_witness:
  "\<exists>a\<in>{0, 1}. Alb_SelectConnection 0 0 [demo_conn ''a'' 90, demo_conn ''b'' 70] [0, 1] (NewAdvancedLoadBalancer StrategyQualityBased) =
      Inr (Some a, NewAdvancedLoadBalancer StrategyQualityBased) \<and>
    quality_rank [demo_conn ''a'' 90, demo_conn ''b'' 70] (NewAdvancedLoadBalancer StrategyQualityBased) 1 \<le>
    quality_rank [demo_conn ''a'' 90, demo_conn ''b'' 70] (NewAdvancedLoadBalancer StrategyQualityBased) a"
proof -
  let ?hp = "[demo_conn ''a'' 90, demo_conn ''b'' 70]" and ?alb = "NewAdvancedLoadBalancer StrategyQualityBased"
  have st: "al_strategy ?alb = StrategyQualityBased" by (simp add: NewAdvancedLoadBalancer_def)
  have "\<exists>a. Alb_SelectConnection 0 0 ?hp [0, 1] ?alb = Inr (Some a, ?alb) \<and> a \<in> set [0, 1] \<and>
    (al_strategy ?alb = StrategyQualityBased \<longrightarrow> (\<forall>b\<in>set [0, 1]. quality_rank ?hp ?alb b \<le> quality_rank ?hp ?alb a)) \<and>
    (al_strategy ?alb = StrategyLeastConn \<longrightarrow> (\<forall>b\<in>set [0, 1]. load_rank ?hp ?alb a \<le> load_rank ?hp ?alb b))"
    by (rule balancer_choice [OF lb_inv_new]) (auto simp: demo_conn_def Alb_getConnectionQuality_def)
  then show ?thesis using st by auto
qed

text \<open>
  The weighted round robin draws at random: it is the same choice as the weighted random one, and its counter is
  never used as long as a weight is positive.
\<close>

lemma round_robin_is_random:
  assumes "lb_inv alb" "connections \<noteq> []"
  shows "Alb_selectByWeightedRoundRobin u hp connections alb = Inr (Alb_selectByWeightedRandom u i hp connections alb, alb)"
  using total_weight_positive [of "\<lambda>a. Alb_getConnectionWeight alb (pc_id (hp ! a))", OF weight_positive [OF assms(1)] assms(2)]
  by (simp add: Alb_selectByWeightedRoundRobin_def Alb_selectByWeightedRandom_def Let_def split: option.split)

text \<open>
  A connection whose first request succeeds in the ideal time of 100 ms falls below the weight 1 of a connection
  nothing is known of.
\<close>

lemma measured_below_default:
  "Alb_getConnectionWeight (Alb_UpdateStats now connID (100 * 10 ^ 6) True (NewAdvancedLoadBalancer strategy)) connID < 1"
proof -
  have f: "fl 1 = 1" "fl 100000000 = 100000000" using fl_int [of 1] fl_int [of 100000000] by simp_all
  have half: "fl (1 / 2) = 1 / 2" by code_simp
  define pe where "pe = \<lparr> pe_ResponseTimes = [100000000], pe_SuccessCount = 1, pe_FailureCount = 0, pe_LastUpdate = now, pe_Weight = 1,
      pe_AvgResponseTime = 100000000, pe_SuccessRate = 1, pe_Momentum = 0 \<rparr>"
  have u: "Alb_UpdateStats now connID (100 * 10 ^ 6) True (NewAdvancedLoadBalancer strategy) =
      Alb_updateWeight connID pe (NewAdvancedLoadBalancer strategy)"
    using f(1) by (simp add: Alb_UpdateStats_def NewAdvancedLoadBalancer_def DefaultAdaptiveConfig_def sum64_def Let_def pe_def)
  have s: "perf_score pe = 1 / 2"
    using tenth_bound by (simp add: perf_score_def pe_def Let_def f half)
  have d: "fl (95 / 100) \<le> 24 / 25" using fl_bounds(1) [of "95 / 100"] by simp
  have small: "fl (fl (95 / 100)) < 1" using fl_bounds(1) [of "fl (95 / 100)"] fl_nonneg [of "95 / 100"] d by simp
  have "Alb_getConnectionWeight (Alb_updateWeight connID pe (NewAdvancedLoadBalancer strategy)) connID =
      max (fl (1 / 10)) (min 2 (fl (fl (95 / 100))))"
    by (simp add: Alb_updateWeight_def Let_def s f(1) Alb_getConnectionWeight_def NewAdvancedLoadBalancer_def
        DefaultAdaptiveConfig_def) (simp add: pe_def f(1))
  then show ?thesis using u small tenth_bound by simp
qed

end
