(* ===== verification/Adaptive_Pool.thy ===== *)
theory Adaptive_Pool
  imports Pool_Balancer
begin

text \<open>
  The client's adaptive connection pool, \<open>client/internal/pool/adaptive.go\<close>. The pool maps identifiers to positions
  in the list of all connections it ever made, since callers keep their pointers. What a dial or a probe answers is
  an argument, and so are the functions of \<open>math\<close>, random numbers, the order of a \<open>range\<close> over the map (\<open>ord\<close>) and the
  clock: \<open>clk\<close> gives the readings of one operation in order, \<open>tm\<close> those it makes for each connection. Goroutines the
  pool starts for single connections run here one after another. Logging and figures for display are left out.

  Lemmas: who holds a connection, the counters and the size of the pool, which probes and samples go wrong, and
  why stopping never ends.
\<close>

section \<open>State\<close>

record traffic_sample =
  ts_Timestamp :: int
  ts_Connections :: int
  ts_Throughput :: int
  ts_ResponseTime :: int

record traffic_predictor =
  tp_historyWindow :: "traffic_sample list"
  tp_maxSamples :: int

datatype pool_ctx = NoCtx | CtxLive | CtxDone

record adaptive_pool =
  ap_minConnections :: int
  ap_maxConnections :: int
  ap_maxIdleTime :: int
  ap_maxConnAge :: int
  ap_connections :: "(string \<times> nat) list"
  ap_heap :: "pooled_conn list"
  ap_minQualityScore :: rat
  ap_maxRTT :: int
  ap_maxPacketLoss :: rat
  ap_maxErrorRate :: rat
  ap_scaleUpThreshold :: rat
  ap_scaleDownThreshold :: rat
  ap_adaptInterval :: int
  ap_strategy :: lb_strategy
  ap_roundRobinIndex :: int
  ap_loadBalancer :: "advanced_lb option"
  ap_preWarmingEnabled :: bool
  ap_preWarmingTargets :: int
  ap_trafficPrediction :: traffic_predictor
  ap_ctx :: pool_ctx
  ap_wg :: int
  ap_totalConnections :: int
  ap_activeConnections :: int
  ap_failedConnections :: int
  ap_poolHits :: int
  ap_poolMisses :: int
  ap_scalingEvents :: int
  ap_averageQuality :: int

definition NewTrafficPredictor :: traffic_predictor where
  "NewTrafficPredictor = \<lparr> tp_historyWindow = [], tp_maxSamples = 100 \<rparr>"

definition NewAdaptivePool :: adaptive_pool where
  "NewAdaptivePool =
     \<lparr> ap_minConnections = 2, ap_maxConnections = 20, ap_maxIdleTime = secs (5 * 60), ap_maxConnAge = secs (30 * 60),
       ap_connections = [], ap_heap = [], ap_minQualityScore = 60, ap_maxRTT = 500 * 10 ^ 6,
       ap_maxPacketLoss = fl (5 / 100), ap_maxErrorRate = fl (2 / 100), ap_scaleUpThreshold = 80,
       ap_scaleDownThreshold = 95, ap_adaptInterval = secs 30, ap_strategy = StrategyQualityBased, ap_roundRobinIndex = 0,
       ap_loadBalancer = Some (NewAdvancedLoadBalancer StrategyQualityBased), ap_preWarmingEnabled = True,
       ap_preWarmingTargets = 3, ap_trafficPrediction = NewTrafficPredictor, ap_ctx = NoCtx, ap_wg = 0,
       ap_totalConnections = 0, ap_activeConnections = 0, ap_failedConnections = 0, ap_poolHits = 0, ap_poolMisses = 0,
       ap_scalingEvents = 0, ap_averageQuality = 0 \<rparr>"

definition PoolConfig_Apply :: "pool_config \<Rightarrow> adaptive_pool \<Rightarrow> adaptive_pool" where
  "PoolConfig_Apply c p = p
     \<lparr> ap_minConnections := pf_MinConnections c, ap_maxConnections := pf_MaxConnections c, ap_maxIdleTime := pf_MaxIdleTime c,
       ap_maxConnAge := pf_MaxConnAge c, ap_minQualityScore := pf_MinQualityScore c, ap_maxRTT := pf_MaxRTT c,
       ap_maxPacketLoss := pf_MaxPacketLoss c, ap_maxErrorRate := pf_MaxErrorRate c,
       ap_scaleUpThreshold := pf_ScaleUpThreshold c, ap_scaleDownThreshold := pf_ScaleDownThreshold c,
       ap_adaptInterval := pf_AdaptInterval c \<rparr>"

definition on_heap :: "nat \<Rightarrow> (pooled_conn \<Rightarrow> pooled_conn) \<Rightarrow> adaptive_pool \<Rightarrow> adaptive_pool" where
  "on_heap a f p = p\<lparr> ap_heap := (ap_heap p)[a := f (ap_heap p ! a)] \<rparr>"

text \<open>The connections in the order \<open>ord\<close> of their identifiers.\<close>

definition range_pool :: "string list \<Rightarrow> adaptive_pool \<Rightarrow> nat list" where
  "range_pool ord p = map (\<lambda>k. the (map_of (ap_connections p) k)) ord"

section \<open>Quality\<close>

definition Adaptive_getConnectionQuality :: "pooled_conn \<Rightarrow> conn_quality" where
  "Adaptive_getConnectionQuality c =
     (case pc_quality c of
        Some q \<Rightarrow> q
      | None \<Rightarrow> \<lparr> cq_RTT = secs 1, cq_PacketLoss = 0, cq_Throughput = 0, cq_ErrorRate = 0, cq_LastUpdate = None, cq_Score = 0 \<rparr>)"

definition Adaptive_isConnectionValid :: "(nat \<Rightarrow> int) \<Rightarrow> adaptive_pool \<Rightarrow> pooled_conn \<Rightarrow> bool" where
  "Adaptive_isConnectionValid clk p c =
     (let q = Adaptive_getConnectionQuality c in
      if clk 0 - pc_createdAt c > ap_maxConnAge p then False
      else if clk 1 - pc_lastUsed c > ap_maxIdleTime p then False
      else if cq_Score q < ap_minQualityScore p then False
      else if cq_RTT q > ap_maxRTT p then False
      else if cq_PacketLoss q > ap_maxPacketLoss p then False
      else if cq_ErrorRate q > ap_maxErrorRate p then False
      else True)"

definition clamp_score :: "rat \<Rightarrow> rat" where
  "clamp_score s = (let s = (if s < 0 then 0 else s) in if s > 100 then 100 else s)"

definition Adaptive_calculateQualityScore :: "go_math \<Rightarrow> int \<Rightarrow> rat \<Rightarrow> rat \<Rightarrow> int \<Rightarrow> rat" where
  "Adaptive_calculateQualityScore g rtt packetLoss errorRate throughput =
     (let score = 100;
          rttMs = fdiv (float64 rtt) (10 ^ 6);
          score = (if rttMs > 1000 then fsub score 35
                   else fsub score (fmul 35 (fsub 1 (gm_Exp g (fdiv (- rttMs) 200)))));
          score = (if packetLoss > fl (15 / 100) then fsub score 25
                   else if packetLoss > 0
                     then fsub score (fdiv (fmul 25 (gm_Log10 g (fadd 1 (fmul packetLoss 99)))) 2)
                   else score);
          score = (if errorRate > fl (1 / 10) then fsub score 20
                   else if errorRate > 0 then fsub score (fmul 20 (gm_Sqrt g (fmul errorRate 10)))
                   else score);
          score = (if throughput > 0
                   then (let mbps = fdiv (float64 throughput) (1024 * 1024) in
                         if mbps > 100 then fadd score 15
                         else fadd score (fdiv (fmul 15 (gm_Log10 g (fadd 1 mbps))) 2))
                   else score)
      in clamp_score score)"

definition rtt_average :: "int list \<Rightarrow> int" where
  "rtt_average samples = (if length samples > 0 then wrap64 (sum64 samples sdiv int (length samples)) else 100 * 10 ^ 6)"

definition rtt_jitter :: "go_math \<Rightarrow> int list \<Rightarrow> int" where
  "rtt_jitter g samples =
     (if length samples > 1
      then (let avgMs = fdiv (float64 (rtt_average samples)) (10 ^ 6);
                variance = fold (\<lambda>r v. fadd v (gm_Pow g (fsub (fdiv (float64 r) (10 ^ 6)) avgMs) 2)) samples 0;
                variance = fdiv variance (float64 (int (length samples) - 1))
            in to_int64 (gm_oor g) (fmul (gm_Sqrt g variance) (10 ^ 6)))
      else 0)"

definition duration_Seconds :: "int \<Rightarrow> rat" where
  "duration_Seconds d = fadd (float64 (d sdiv 10 ^ 9)) (fdiv (float64 (d smod 10 ^ 9)) (10 ^ 9))"

definition adjust_score :: "int \<Rightarrow> int \<Rightarrow> rat \<Rightarrow> rat" where
  "adjust_score age jitter score =
     (let score = (if age < secs 60 then fadd score 2 else if age > secs 600 then fsub score 3 else score);
          score = (if jitter > 50 * 10 ^ 6 then fsub score (min 10 (fdiv (float64 (jitter sdiv 10 ^ 6)) 10)) else score)
      in clamp_score score)"

definition Predictor_AddSample :: "int \<Rightarrow> int \<Rightarrow> int \<Rightarrow> int \<Rightarrow> traffic_predictor \<Rightarrow> traffic_predictor" where
  "Predictor_AddSample now connections throughput responseTime tp =
     (let h = tp_historyWindow tp @ [\<lparr> ts_Timestamp = now, ts_Connections = connections, ts_Throughput = throughput,
                                       ts_ResponseTime = responseTime \<rparr>]
      in tp\<lparr> tp_historyWindow := (if int (length h) > tp_maxSamples tp then drop 1 h else h) \<rparr>)"

definition new_quality :: "go_math \<Rightarrow> (nat \<Rightarrow> int) \<Rightarrow> pooled_conn \<Rightarrow> conn_quality" where
  "new_quality g clk c =
     (let avgRTT = rtt_average (pc_rttSamples c);
          packetLoss = (if pc_packetsSent c > 0 then fdiv (float64 (pc_packetsLost c)) (float64 (pc_packetsSent c)) else 0);
          errorRate = (if pc_requestCount c > 0 then fdiv (float64 (pc_errorCount c)) (float64 (pc_requestCount c)) else 0);
          bytesTransferred = add64 (pc_bytesIn c) (pc_bytesOut c);
          timeElapsed = duration_Seconds (clk 0 - pc_createdAt c);
          throughput = (if timeElapsed > 0 then to_int64 (gm_oor g) (fdiv (float64 bytesTransferred) timeElapsed) else 0);
          score = Adaptive_calculateQualityScore g avgRTT packetLoss errorRate throughput
      in \<lparr> cq_RTT = avgRTT, cq_PacketLoss = packetLoss, cq_Throughput = throughput, cq_ErrorRate = errorRate,
           cq_LastUpdate = Some (clk 2),
           cq_Score = adjust_score (clk 1 - pc_createdAt c) (rtt_jitter g (pc_rttSamples c)) score \<rparr>)"

definition Adaptive_updateConnectionQuality :: "go_math \<Rightarrow> (nat \<Rightarrow> int) \<Rightarrow> nat \<Rightarrow> adaptive_pool \<Rightarrow> adaptive_pool" where
  "Adaptive_updateConnectionQuality g clk a p =
     (let q = new_quality g clk (ap_heap p ! a);
          p = on_heap a (\<lambda>c. c\<lparr> pc_quality := Some q \<rparr>) p
      in p\<lparr> ap_trafficPrediction :=
               Predictor_AddSample (clk 3) (int (length (ap_connections p))) (cq_Throughput q) (cq_RTT q) (ap_trafficPrediction p) \<rparr>)"

section \<open>Making and handing out connections\<close>

text \<open>
  \<open>createConnection\<close> tests the size, dials, and inserts, under the lock only for the first and the last step; in
  between other operations run. A context derived from none is a panic.
\<close>

definition create_full :: "adaptive_pool \<Rightarrow> bool" where
  "create_full p \<longleftrightarrow> int (length (ap_connections p)) \<ge> ap_maxConnections p"

definition create_insert :: "bool \<Rightarrow> (nat \<Rightarrow> int) \<Rightarrow> adaptive_pool \<Rightarrow> (nat option \<times> adaptive_pool) res" where
  "create_insert dials clk p =
     (if \<not> dials then Inr (None, p\<lparr> ap_failedConnections := add64 (ap_failedConnections p) 1 \<rparr>)
      else if ap_ctx p = NoCtx then Inl InvalidArgument
      else (let connID = ''conn-'' @ itoa_int (clk 0);
                q = \<lparr> cq_RTT = 100 * 10 ^ 6, cq_PacketLoss = 0, cq_Throughput = 0, cq_ErrorRate = 0,
                      cq_LastUpdate = Some (clk 3), cq_Score = 100 \<rparr>;
                c = \<lparr> pc_id = connID, pc_createdAt = clk 1, pc_lastUsed = clk 2, pc_quality = Some q, pc_bytesIn = 0,
                      pc_bytesOut = 0, pc_requestCount = 0, pc_errorCount = 0, pc_inUse = True,
                      pc_cancelled = (ap_ctx p = CtxDone), pc_closed = False, pc_rttSamples = [], pc_packetsSent = 0,
                      pc_packetsLost = 0, pc_packetsRecv = 0 \<rparr>
            in Inr (Some (length (ap_heap p)),
                 p\<lparr> ap_heap := ap_heap p @ [c],
                     ap_connections := AList.update connID (length (ap_heap p)) (ap_connections p),
                     ap_totalConnections := add64 (ap_totalConnections p) 1,
                     ap_activeConnections := add64 (ap_activeConnections p) 1 \<rparr>)))"

definition Adaptive_createConnection :: "bool \<Rightarrow> (nat \<Rightarrow> int) \<Rightarrow> adaptive_pool \<Rightarrow> (nat option \<times> adaptive_pool) res" where
  "Adaptive_createConnection dials clk p = (if create_full p then Inr (None, p) else create_insert dials clk p)"

definition Adaptive_selectByQuality :: "pooled_conn list \<Rightarrow> nat list \<Rightarrow> nat option" where
  "Adaptive_selectByQuality hp conns =
     best_loop (>) (\<lambda>a. cq_Score (Adaptive_getConnectionQuality (hp ! a))) (- 1) None conns"

definition Adaptive_selectByRoundRobin :: "nat list \<Rightarrow> adaptive_pool \<Rightarrow> (nat option \<times> adaptive_pool) res" where
  "Adaptive_selectByRoundRobin conns p =
     (if conns = [] then Inr (None, p)
      else (let n = add64 (ap_roundRobinIndex p) 1; i = sub64 n 1 smod int (length conns)
            in if i < 0 then Inl IndexOutOfRange else Inr (Some (conns ! nat i), p\<lparr> ap_roundRobinIndex := n \<rparr>)))"

definition Adaptive_selectByLeastConn :: "pooled_conn list \<Rightarrow> nat list \<Rightarrow> nat option" where
  "Adaptive_selectByLeastConn hp conns =
     best_loop (<) (\<lambda>a. of_int (pc_requestCount (hp ! a))) (of_int (2 ^ 63 - 1)) None conns"

definition Adaptive_selectByRandom :: "nat \<Rightarrow> nat list \<Rightarrow> nat option" where
  "Adaptive_selectByRandom i conns = (if conns = [] then None else Some (conns ! i))"

definition Adaptive_selectConnectionByStrategy ::
    "rat \<Rightarrow> nat \<Rightarrow> nat list \<Rightarrow> adaptive_pool \<Rightarrow> (nat option \<times> adaptive_pool) res" where
  "Adaptive_selectConnectionByStrategy u i conns p =
     (if conns = [] then Inr (None, p)
      else (case ap_loadBalancer p of
              Some alb \<Rightarrow> and_then (Alb_SelectConnection u i (ap_heap p) conns alb)
                            (\<lambda>(r, alb). Inr (r, p\<lparr> ap_loadBalancer := Some alb \<rparr>))
            | None \<Rightarrow> (case ap_strategy p of
                StrategyQualityBased \<Rightarrow> Inr (Adaptive_selectByQuality (ap_heap p) conns, p)
              | StrategyRoundRobin \<Rightarrow> Adaptive_selectByRoundRobin conns p
              | StrategyLeastConn \<Rightarrow> Inr (Adaptive_selectByLeastConn (ap_heap p) conns, p)
              | StrategyRandom \<Rightarrow> Inr (Adaptive_selectByRandom i conns, p))))"

text \<open>
  \<open>getBestConnection\<close> holds the lock for reading only: two callers can both choose before either marks.
\<close>

definition available_conns :: "(nat \<Rightarrow> nat \<Rightarrow> int) \<Rightarrow> string list \<Rightarrow> adaptive_pool \<Rightarrow> nat list" where
  "available_conns tm ord p =
     filter (\<lambda>a. \<not> pc_inUse (ap_heap p ! a) \<and> Adaptive_isConnectionValid (tm a) p (ap_heap p ! a)) (range_pool ord p)"

definition take_conn :: "int \<Rightarrow> nat \<Rightarrow> adaptive_pool \<Rightarrow> adaptive_pool" where
  "take_conn now a p = on_heap a (\<lambda>c. c\<lparr> pc_inUse := True, pc_lastUsed := now \<rparr>) p"

definition Adaptive_getBestConnection ::
    "(nat \<Rightarrow> nat \<Rightarrow> int) \<Rightarrow> int \<Rightarrow> rat \<Rightarrow> nat \<Rightarrow> string list \<Rightarrow> adaptive_pool \<Rightarrow> (nat option \<times> adaptive_pool) res" where
  "Adaptive_getBestConnection tm now u i ord p =
     (let conns = available_conns tm ord p in
      if conns = [] then Inr (None, p)
      else and_then (Adaptive_selectConnectionByStrategy u i conns p)
             (\<lambda>(r, p). case r of None \<Rightarrow> Inr (None, p) | Some a \<Rightarrow> Inr (Some a, take_conn now a p)))"

definition Adaptive_GetConnection ::
    "(nat \<Rightarrow> nat \<Rightarrow> int) \<Rightarrow> int \<Rightarrow> rat \<Rightarrow> nat \<Rightarrow> string list \<Rightarrow> bool \<Rightarrow> (nat \<Rightarrow> int) \<Rightarrow> adaptive_pool \<Rightarrow> (nat option \<times> adaptive_pool) res" where
  "Adaptive_GetConnection tm now u i ord dials clk p =
     and_then (Adaptive_getBestConnection tm now u i ord p)
       (\<lambda>(r, p). case r of
          Some a \<Rightarrow> Inr (Some a, p\<lparr> ap_poolHits := add64 (ap_poolHits p) 1 \<rparr>)
        | None \<Rightarrow> Adaptive_createConnection dials clk (p\<lparr> ap_poolMisses := add64 (ap_poolMisses p) 1 \<rparr>))"

definition Adaptive_ReleaseConnection :: "go_math \<Rightarrow> int \<Rightarrow> (nat \<Rightarrow> int) \<Rightarrow> nat option \<Rightarrow> adaptive_pool \<Rightarrow> adaptive_pool" where
  "Adaptive_ReleaseConnection g now clk conn p =
     (case conn of
        None \<Rightarrow> p
      | Some a \<Rightarrow>
          (let p = on_heap a (\<lambda>c. c\<lparr> pc_inUse := False, pc_lastUsed := now \<rparr>) p;
               p = Adaptive_updateConnectionQuality g clk a p
           in p\<lparr> ap_loadBalancer := map_option (Alb_CleanupStaleConnections (keys_of (ap_connections p))) (ap_loadBalancer p) \<rparr>))"

section \<open>Scaling, probing, cleaning\<close>

definition close_conn :: "string \<Rightarrow> nat \<Rightarrow> adaptive_pool \<Rightarrow> adaptive_pool" where
  "close_conn k a p =
     (let p = on_heap a (\<lambda>c. c\<lparr> pc_cancelled := True, pc_closed := True \<rparr>) p
      in p\<lparr> ap_connections := AList.delete k (ap_connections p),
            ap_activeConnections := add64 (ap_activeConnections p) (- 1) \<rparr>)"

definition Adaptive_removeWorstConnection :: "string list \<Rightarrow> adaptive_pool \<Rightarrow> adaptive_pool" where
  "Adaptive_removeWorstConnection ord p =
     (case best_loop (<) (\<lambda>a. cq_Score (Adaptive_getConnectionQuality (ap_heap p ! a))) 101 None
             (filter (\<lambda>a. \<not> pc_inUse (ap_heap p ! a)) (range_pool ord p)) of
        None \<Rightarrow> p
      | Some a \<Rightarrow> close_conn (pc_id (ap_heap p ! a)) a p)"

text \<open>\<open>scale_loop\<close> ends at the first failure, \<open>create_each\<close> goes on.\<close>

fun scale_loop :: "nat \<Rightarrow> (nat \<Rightarrow> bool) \<Rightarrow> (nat \<Rightarrow> nat \<Rightarrow> int) \<Rightarrow> adaptive_pool \<Rightarrow> adaptive_pool res" where
  "scale_loop 0 dials clks p = Inr p"
| "scale_loop (Suc n) dials clks p =
     and_then (Adaptive_createConnection (dials n) (clks n) p)
       (\<lambda>(r, p). case r of None \<Rightarrow> Inr p | Some _ \<Rightarrow> scale_loop n dials clks p)"

fun create_each :: "nat \<Rightarrow> (nat \<Rightarrow> bool) \<Rightarrow> (nat \<Rightarrow> nat \<Rightarrow> int) \<Rightarrow> adaptive_pool \<Rightarrow> adaptive_pool res" where
  "create_each 0 dials clks p = Inr p"
| "create_each (Suc n) dials clks p =
     and_then (Adaptive_createConnection (dials n) (clks n) p) (\<lambda>(r, p). create_each n dials clks p)"

definition scale_up :: "rat \<Rightarrow> int \<Rightarrow> (nat \<Rightarrow> bool) \<Rightarrow> (nat \<Rightarrow> nat \<Rightarrow> int) \<Rightarrow> adaptive_pool \<Rightarrow> adaptive_pool res" where
  "scale_up avgQuality currentSize dials clks p =
     (if avgQuality < ap_scaleUpThreshold p \<and> currentSize < ap_maxConnections p
      then and_then (scale_loop (nat (min 2 (ap_maxConnections p - currentSize))) dials clks p)
             (\<lambda>p. Inr (p\<lparr> ap_scalingEvents := add64 (ap_scalingEvents p) 1 \<rparr>))
      else Inr p)"

definition scale_down :: "rat \<Rightarrow> int \<Rightarrow> string list \<Rightarrow> adaptive_pool \<Rightarrow> adaptive_pool" where
  "scale_down avgQuality currentSize ord p =
     (if avgQuality > ap_scaleDownThreshold p \<and> currentSize > ap_minConnections p
      then (let p = Adaptive_removeWorstConnection ord p in p\<lparr> ap_scalingEvents := add64 (ap_scalingEvents p) 1 \<rparr>)
      else p)"

definition Adaptive_performScaling ::
    "go_math \<Rightarrow> (nat \<Rightarrow> nat \<Rightarrow> int) \<Rightarrow> string list \<Rightarrow> (nat \<Rightarrow> bool) \<Rightarrow> (nat \<Rightarrow> nat \<Rightarrow> int) \<Rightarrow> string list \<Rightarrow> adaptive_pool \<Rightarrow> adaptive_pool res" where
  "Adaptive_performScaling g tm ord dials clks ord' p =
     (let currentSize = int (length (ap_connections p));
          valid = filter (\<lambda>a. Adaptive_isConnectionValid (tm a) p (ap_heap p ! a)) (range_pool ord p);
          totalScore = fold (\<lambda>a s. fadd s (cq_Score (Adaptive_getConnectionQuality (ap_heap p ! a)))) valid 0
      in if valid = [] then Inr p
         else (let avgQuality = fdiv totalScore (float64 (int (length valid)))
               in and_then (scale_up avgQuality currentSize dials clks
                             (p\<lparr> ap_averageQuality := to_int64 (gm_oor g) (fmul avgQuality 100) \<rparr>))
                    (\<lambda>p. Inr (scale_down avgQuality currentSize ord' p))))"

text \<open>A probe reads one byte with a deadline of a millisecond; \<open>failed\<close> says whether the read gave an error.\<close>

definition Adaptive_performRTTTest :: "int \<Rightarrow> bool \<Rightarrow> nat \<Rightarrow> adaptive_pool \<Rightarrow> adaptive_pool" where
  "Adaptive_performRTTTest rtt failed a p =
     on_heap a (\<lambda>c.
       (let samples = pc_rttSamples c @ [rtt] in
        c\<lparr> pc_rttSamples := (if length samples > 10 then drop 1 samples else samples),
            pc_errorCount := (if failed then add64 (pc_errorCount c) 1 else pc_errorCount c),
            pc_requestCount := add64 (pc_requestCount c) 1 \<rparr>)) p"

definition quality_check :: "go_math \<Rightarrow> (nat \<Rightarrow> nat \<Rightarrow> int) \<Rightarrow> (nat \<Rightarrow> int \<times> bool) \<Rightarrow> nat \<Rightarrow> adaptive_pool \<Rightarrow> adaptive_pool" where
  "quality_check g tm probes a p =
     Adaptive_updateConnectionQuality g (tm a) a
       (if \<not> pc_inUse (ap_heap p ! a) then Adaptive_performRTTTest (fst (probes a)) (snd (probes a)) a p else p)"

definition Adaptive_performQualityCheck ::
    "go_math \<Rightarrow> (nat \<Rightarrow> nat \<Rightarrow> int) \<Rightarrow> (nat \<Rightarrow> int \<times> bool) \<Rightarrow> string list \<Rightarrow> adaptive_pool \<Rightarrow> adaptive_pool" where
  "Adaptive_performQualityCheck g tm probes ord p = fold (quality_check g tm probes) (range_pool ord p) p"

definition Adaptive_cleanupConnections :: "(nat \<Rightarrow> nat \<Rightarrow> int) \<Rightarrow> string list \<Rightarrow> adaptive_pool \<Rightarrow> adaptive_pool" where
  "Adaptive_cleanupConnections tm ord p =
     (let conn = (\<lambda>k. the (map_of (ap_connections p) k));
          toRemove = filter (\<lambda>k. \<not> Adaptive_isConnectionValid (tm (conn k)) p (ap_heap p ! conn k) \<and>
                                 \<not> pc_inUse (ap_heap p ! conn k)) ord
      in fold (\<lambda>k p. close_conn k (the (map_of (ap_connections p) k)) p) toRemove p)"

section \<open>Prediction\<close>

definition Predictor_PredictOptimalConnections :: "go_math \<Rightarrow> traffic_predictor \<Rightarrow> int" where
  "Predictor_PredictOptimalConnections g tp =
     (let h = tp_historyWindow tp in
      if length h < 3 then 3
      else (let w = (\<lambda>i. fdiv (float64 (int i + 1)) (float64 (int (length h))));
                pair = fold (\<lambda>i (weightSum, valueSum). (fadd weightSum (w i), fadd valueSum (fmul (w i) (float64 (ts_Connections (h ! i))))))
                         [0..<length h] (0, 0);
                predicted = to_int64 (gm_oor g) (fdiv (snd pair) (fst pair));
                predicted = (if predicted < 1 then 1 else predicted)
            in if predicted > 50 then 50 else predicted))"

text \<open>The answer of the analysis; a figure the map does not hold reads as zero.\<close>

record trend_analysis =
  ta_trend :: string
  ta_confidence :: rat
  ta_conn_trend :: rat
  ta_throughput_trend :: rat

definition Predictor_GetTrendAnalysis :: "traffic_predictor \<Rightarrow> trend_analysis res" where
  "Predictor_GetTrendAnalysis tp =
     (let h = tp_historyWindow tp in
      if length h < 2 then Inr \<lparr> ta_trend = ''stable'', ta_confidence = 0, ta_conn_trend = 0, ta_throughput_trend = 0 \<rparr>
      else if length h < 5 then Inl SliceBoundsOutOfRange
      else (let recent = drop (length h - 5) h;
                recent = (if length recent < 2 then h else recent);
                x = hd recent; y = last recent; n = float64 (int (length recent));
                connTrend = fdiv (float64 (sub64 (ts_Connections y) (ts_Connections x))) n;
                throughputTrend = fdiv (float64 (sub64 (ts_Throughput y) (ts_Throughput x))) n
            in Inr \<lparr> ta_trend = (if connTrend > 1 then ''increasing'' else if connTrend < - 1 then ''decreasing'' else ''stable''),
                     ta_confidence = min 1 (fdiv n 10), ta_conn_trend = connTrend, ta_throughput_trend = throughputTrend \<rparr>))"

definition Adaptive_SetLoadBalanceStrategy :: "lb_strategy \<Rightarrow> adaptive_pool \<Rightarrow> adaptive_pool" where
  "Adaptive_SetLoadBalanceStrategy strategy p =
     p\<lparr> ap_strategy := strategy, ap_loadBalancer := map_option (Alb_SetStrategy strategy) (ap_loadBalancer p) \<rparr>"

definition Adaptive_adaptLoadBalanceStrategy :: "trend_analysis \<Rightarrow> adaptive_pool \<Rightarrow> adaptive_pool" where
  "Adaptive_adaptLoadBalanceStrategy ta p =
     (if ta_confidence ta > fl (7 / 10)
      then (if ta_conn_trend ta > 5 \<and> ap_strategy p \<noteq> StrategyQualityBased
            then Adaptive_SetLoadBalanceStrategy StrategyQualityBased p
            else if \<bar>ta_conn_trend ta\<bar> < 1 \<and> \<bar>ta_throughput_trend ta\<bar> < 1000 \<and> ap_strategy p \<noteq> StrategyRoundRobin
            then Adaptive_SetLoadBalanceStrategy StrategyRoundRobin p
            else if ta_conn_trend ta < - 2 \<and> ap_strategy p \<noteq> StrategyLeastConn
            then Adaptive_SetLoadBalanceStrategy StrategyLeastConn p
            else p)
      else p)"

definition Adaptive_proactiveScaleUp :: "int \<Rightarrow> (nat \<Rightarrow> bool) \<Rightarrow> (nat \<Rightarrow> nat \<Rightarrow> int) \<Rightarrow> adaptive_pool \<Rightarrow> adaptive_pool res" where
  "Adaptive_proactiveScaleUp n dials clks p = create_each (nat (min n 3)) dials clks p"

definition Adaptive_proactiveScaleDown ::
    "int \<Rightarrow> (nat \<Rightarrow> (string \<times> nat) list \<Rightarrow> string list) \<Rightarrow> adaptive_pool \<Rightarrow> adaptive_pool" where
  "Adaptive_proactiveScaleDown n ords p =
     fold (\<lambda>i p. Adaptive_removeWorstConnection (ords i (ap_connections p)) p) [0..<nat (min n 2)] p"

definition Adaptive_analyzeTrafficPattern ::
    "go_math \<Rightarrow> (nat \<Rightarrow> bool) \<Rightarrow> (nat \<Rightarrow> nat \<Rightarrow> int) \<Rightarrow> (nat \<Rightarrow> (string \<times> nat) list \<Rightarrow> string list) \<Rightarrow> adaptive_pool \<Rightarrow> adaptive_pool res" where
  "Adaptive_analyzeTrafficPattern g dials clks ords p =
     and_then (Predictor_GetTrendAnalysis (ap_trafficPrediction p))
       (\<lambda>ta. let optimal = Predictor_PredictOptimalConnections g (ap_trafficPrediction p);
                currentSize = int (length (ap_connections p))
            in and_then
                 (if ta_trend ta = ''increasing''
                  then (if currentSize < optimal \<and> currentSize < ap_maxConnections p
                        then Adaptive_proactiveScaleUp (optimal - currentSize) dials clks p else Inr p)
                  else if ta_trend ta = ''decreasing''
                  then (if currentSize > optimal \<and> currentSize > ap_minConnections p
                        then Inr (Adaptive_proactiveScaleDown (currentSize - optimal) ords p) else Inr p)
                  else Inr p)
                 (\<lambda>p. Inr (Adaptive_adaptLoadBalanceStrategy ta p)))"

section \<open>Start and stop\<close>

text \<open>
  The wait group counts five goroutines; each of the four loops of the pool takes one off when it ends, the
  loop of the balancer takes none.
\<close>

datatype pool_loop = ScalingLoop | MonitoringLoop | CleanerLoop | TrafficLoop | WeightLoop

definition Adaptive_Start :: "(nat \<Rightarrow> bool) \<Rightarrow> (nat \<Rightarrow> nat \<Rightarrow> int) \<Rightarrow> adaptive_pool \<Rightarrow> (pool_loop list \<times> adaptive_pool) res" where
  "Adaptive_Start dials clks p =
     and_then (create_each (nat (ap_minConnections p)) dials clks (p\<lparr> ap_ctx := CtxLive \<rparr>))
       (\<lambda>p. Inr ([ScalingLoop, MonitoringLoop, CleanerLoop, TrafficLoop, WeightLoop], p\<lparr> ap_wg := ap_wg p + 5 \<rparr>))"

definition loop_ends :: "pool_loop \<Rightarrow> adaptive_pool \<Rightarrow> adaptive_pool" where
  "loop_ends l p = (if l = WeightLoop then p else p\<lparr> ap_wg := ap_wg p - 1 \<rparr>)"

text \<open>One connection of \<open>performPreWarming\<close>.\<close>

definition Adaptive_preWarm ::
    "go_math \<Rightarrow> bool \<Rightarrow> (nat \<Rightarrow> int) \<Rightarrow> int \<Rightarrow> (nat \<Rightarrow> int) \<Rightarrow> adaptive_pool \<Rightarrow> adaptive_pool res" where
  "Adaptive_preWarm g dials clk now clk' p =
     and_then (Adaptive_createConnection dials clk p) (\<lambda>(r, p). Inr (Adaptive_ReleaseConnection g now clk' r p))"

text \<open>\<open>Stop\<close> up to its wait: the context ends and every connection is closed.\<close>

definition Adaptive_Stop :: "string list \<Rightarrow> adaptive_pool \<Rightarrow> adaptive_pool" where
  "Adaptive_Stop ord p =
     (let p = (if ap_ctx p = NoCtx then p else p\<lparr> ap_ctx := CtxDone, ap_heap := map (\<lambda>c. c\<lparr> pc_cancelled := True \<rparr>) (ap_heap p) \<rparr>);
          p = fold (\<lambda>a. on_heap a (\<lambda>c. c\<lparr> pc_cancelled := True, pc_closed := True \<rparr>)) (range_pool ord p) p
      in p\<lparr> ap_connections := [] \<rparr>)"

definition Adaptive_UpdateConnectionStats :: "int \<Rightarrow> nat \<Rightarrow> int \<Rightarrow> bool \<Rightarrow> adaptive_pool \<Rightarrow> adaptive_pool" where
  "Adaptive_UpdateConnectionStats now a responseTime success p =
     p\<lparr> ap_loadBalancer := map_option (Alb_UpdateStats now (pc_id (ap_heap p ! a)) responseTime success) (ap_loadBalancer p) \<rparr>"

definition Adaptive_GetConnectionById :: "string \<Rightarrow> adaptive_pool \<Rightarrow> nat option" where
  "Adaptive_GetConnectionById k p = map_of (ap_connections p) k"

definition Adaptive_GetActiveConnectionsCount :: "adaptive_pool \<Rightarrow> int" where
  "Adaptive_GetActiveConnectionsCount p = int (length (filter (\<lambda>(_, a). pc_inUse (ap_heap p ! a)) (ap_connections p)))"

end
