(* ===== verification/Adaptive_Pool_Props.thy ===== *)
theory Adaptive_Pool_Props
  imports Adaptive_Pool
begin

text \<open>
  What the adaptive pool promises: a connection has one holder and stays open while it is held, the counters and
  the size of the pool; and where it goes wrong: probes that fail idle connections, connections nobody holds,
  an analysis that panics on few samples, and a stop that waits for ever.
\<close>

section \<open>Who holds a connection\<close>

lemma select_member:
  assumes "Alb_SelectConnection u i hp connections alb = Inr (Some a, alb')" "i < length connections"
  shows "a \<in> set connections \<and> (lb_inv alb \<longrightarrow> lb_inv alb')"
proof -
  have ne: "connections \<noteq> []" using assms(2) by auto
  have best: "a \<in> set connections" if "best_loop better f b None connections = Some a"
    "\<And>x y z. better x y \<Longrightarrow> better y z \<Longrightarrow> better x z" "\<And>x. \<not> better x x" for better f b
    using best_loop_spec [of better f b None connections] that by auto
  have idx: "connections ! nat (m smod int (length connections)) \<in> set connections" if "\<not> m smod int (length connections) < 0" for m
    using that ne smod_int_range [of "int (length connections)" m] by (auto simp: nat_less_iff intro!: nth_mem)
  show ?thesis
  proof (cases "length connections = 1")
    case True
    then show ?thesis using assms by (auto simp: Alb_SelectConnection_def split: if_splits)
  next
    case False
    show ?thesis
      using assms False ne
      by (cases "al_strategy alb")
        (auto simp: Alb_SelectConnection_def Alb_selectByQualityWeighted_def Alb_selectByWeightedLeastConn_def
          Alb_selectByWeightedRoundRobin_def Alb_selectByWeightedRandom_def Let_def and_then_eq_Inr_iff lb_inv_roundRobin idx
          split: if_splits option.splits dest: weight_loop_member best)
  qed
qed

lemma select_strategy_member:
  assumes "Adaptive_selectConnectionByStrategy u i conns p = Inr (Some a, p')" "i < length conns" "ap_loadBalancer p = Some alb"
  shows "a \<in> set conns \<and> (\<exists>alb'. p' = p\<lparr> ap_loadBalancer := Some alb' \<rparr> \<and> (lb_inv alb \<longrightarrow> lb_inv alb'))"
proof -
  have "conns \<noteq> []" using assms(2) by auto
  then obtain alb' where alb': "Alb_SelectConnection u i (ap_heap p) conns alb = Inr (Some a, alb')"
    "p' = p\<lparr> ap_loadBalancer := Some alb' \<rparr>"
    using assms(1,3) by (auto simp: Adaptive_selectConnectionByStrategy_def and_then_eq_Inr_iff)
  show ?thesis using select_member [OF alb'(1) assms(2)] alb'(2) by blast
qed

text \<open>
  \<open>slots_ok\<close> is about the map as a function and the list of all connections: what is in the map is open and under
  its own identifier, what is held is in the map and in use.
\<close>

definition slots_ok :: "(string \<Rightarrow> nat option) \<Rightarrow> pooled_conn list \<Rightarrow> nat set \<Rightarrow> bool" where
  "slots_ok mp hp held \<longleftrightarrow>
     (\<forall>k a. mp k = Some a \<longrightarrow> a < length hp \<and> pc_id (hp ! a) = k \<and> \<not> pc_closed (hp ! a)) \<and>
     (\<forall>a\<in>held. pc_inUse (hp ! a) \<and> mp (pc_id (hp ! a)) = Some a)"

definition pool_counts_ok :: "adaptive_pool \<Rightarrow> bool" where
  "pool_counts_ok p \<longleftrightarrow> ap_activeConnections p = wrap64 (int (length (ap_connections p))) \<and>
     ap_totalConnections p = wrap64 (int (length (ap_heap p))) \<and>
     int (length (ap_connections p)) \<le> max 0 (ap_maxConnections p)"

definition ap_inv :: "adaptive_pool \<Rightarrow> nat set \<Rightarrow> bool" where
  "ap_inv p held \<longleftrightarrow> map_ok (ap_connections p) \<and> slots_ok (map_of (ap_connections p)) (ap_heap p) held \<and> pool_counts_ok p \<and>
     (\<exists>alb. ap_loadBalancer p = Some alb \<and> lb_inv alb)"

lemma ap_invD:
  assumes "ap_inv p held"
  shows "map_ok (ap_connections p)" "slots_ok (map_of (ap_connections p)) (ap_heap p) held" "pool_counts_ok p"
    "\<exists>alb. ap_loadBalancer p = Some alb \<and> lb_inv alb"
  using assms by (simp_all only: ap_inv_def)

lemma slots_okD:
  "slots_ok mp hp held \<Longrightarrow> mp k = Some a \<Longrightarrow> a < length hp \<and> pc_id (hp ! a) = k \<and> \<not> pc_closed (hp ! a)"
  "slots_ok mp hp held \<Longrightarrow> a \<in> held \<Longrightarrow> pc_inUse (hp ! a) \<and> mp (pc_id (hp ! a)) = Some a"
  unfolding slots_ok_def by blast+

text \<open>Operations that leave identifiers and sockets alone, and the mark of the connections in \<open>held\<close>.\<close>

definition same_slots :: "nat set \<Rightarrow> pooled_conn list \<Rightarrow> pooled_conn list \<Rightarrow> bool" where
  "same_slots held hp hp' \<longleftrightarrow> length hp' = length hp \<and>
     (\<forall>a<length hp. pc_id (hp' ! a) = pc_id (hp ! a) \<and> pc_closed (hp' ! a) = pc_closed (hp ! a) \<and>
        (a \<in> held \<longrightarrow> pc_inUse (hp' ! a) = pc_inUse (hp ! a)))"

lemma same_slots_refl: "same_slots held hp hp"
  by (simp add: same_slots_def)

lemma same_slots_trans: "same_slots held hp hp' \<Longrightarrow> same_slots held hp' hp'' \<Longrightarrow> same_slots held hp hp''"
  by (simp add: same_slots_def)

lemma same_slots_on:
  "pc_id (f (hp ! a)) = pc_id (hp ! a) \<Longrightarrow> pc_closed (f (hp ! a)) = pc_closed (hp ! a) \<Longrightarrow>
    a \<notin> held \<or> pc_inUse (f (hp ! a)) = pc_inUse (hp ! a) \<Longrightarrow> same_slots held hp (hp[a := f (hp ! a)])"
  by (cases "a < length hp") (auto simp: same_slots_def nth_list_update)

lemma slots_ok_same:
  assumes "slots_ok mp hp held" "same_slots held hp hp'"
  shows "slots_ok mp hp' held"
proof -
  have "a < length hp" if "a \<in> held" for a using slots_okD [OF assms(1)] that by blast
  then show ?thesis using assms unfolding slots_ok_def same_slots_def by metis
qed

lemma ap_inv_same:
  assumes "ap_inv p held" "same_slots held (ap_heap p) (ap_heap p')" "ap_connections p' = ap_connections p"
    "ap_activeConnections p' = ap_activeConnections p" "ap_totalConnections p' = ap_totalConnections p"
    "ap_maxConnections p' = ap_maxConnections p" "\<exists>alb. ap_loadBalancer p' = Some alb \<and> lb_inv alb"
  shows "ap_inv p' held"
proof -
  have "pool_counts_ok p'" using ap_invD(3) [OF assms(1)] assms(2-6) by (simp add: pool_counts_ok_def same_slots_def)
  then show ?thesis using ap_invD(1,2) [OF assms(1)] slots_ok_same [OF _ assms(2)] assms(3,7) by (simp add: ap_inv_def)
qed

lemma slots_ok_less_held: "slots_ok mp hp held \<Longrightarrow> held' \<subseteq> held \<Longrightarrow> slots_ok mp hp held'"
  unfolding slots_ok_def by blast

text \<open>The steps that change the table.\<close>

lemma slots_ok_new:
  assumes "slots_ok mp hp held" "mp (pc_id c) = None" "\<not> pc_closed c"
  shows "slots_ok (mp(pc_id c \<mapsto> length hp)) (hp @ [c]) held"
    "pc_inUse c \<Longrightarrow> slots_ok (mp(pc_id c \<mapsto> length hp)) (hp @ [c]) (insert (length hp) held)"
proof -
  have old: "a < length hp \<and> pc_id (hp ! a) = k \<and> \<not> pc_closed (hp ! a)" if "mp k = Some a" for k a
    using slots_okD(1) [OF assms(1) that] .
  have h: "a < length hp" "pc_inUse (hp ! a)" "mp (pc_id (hp ! a)) = Some a" "pc_id (hp ! a) \<noteq> pc_id c" if "a \<in> held" for a
    using slots_okD(2) [OF assms(1) that] old assms(2) by auto
  show "slots_ok (mp(pc_id c \<mapsto> length hp)) (hp @ [c]) held"
    using old h assms(3) unfolding slots_ok_def by (auto simp: nth_append less_Suc_eq split: if_splits)
  then show "pc_inUse c \<Longrightarrow> slots_ok (mp(pc_id c \<mapsto> length hp)) (hp @ [c]) (insert (length hp) held)"
    unfolding slots_ok_def by (auto simp: nth_append)
qed

lemma slots_ok_close:
  assumes "slots_ok mp hp held" "mp k = Some a" "\<not> pc_inUse (hp ! a)" "pc_id (f (hp ! a)) = pc_id (hp ! a)"
    "pc_inUse (f (hp ! a)) = pc_inUse (hp ! a)"
  shows "slots_ok (mp(k := None)) (hp[a := f (hp ! a)]) held"
proof -
  have a: "a < length hp" "pc_id (hp ! a) = k" using slots_okD(1) [OF assms(1,2)] by auto
  have other: "b \<noteq> a" if "mp k' = Some b" "k' \<noteq> k" for k' b using slots_okD(1) [OF assms(1) that(1)] a that(2) by auto
  have held: "b \<noteq> a \<and> pc_id (hp ! b) \<noteq> k" if "b \<in> held" for b
    using slots_okD(2) [OF assms(1) that] assms(2,3) by (metis option.inject)
  show ?thesis unfolding slots_ok_def
  proof (intro conjI allI impI ballI)
    fix k' b assume "(mp(k := None)) k' = Some b"
    then have b: "mp k' = Some b" "k' \<noteq> k" by (auto split: if_splits)
    have "b \<noteq> a" by (rule other [OF b])
    then show "b < length (hp[a := f (hp ! a)])" "pc_id (hp[a := f (hp ! a)] ! b) = k'" "\<not> pc_closed (hp[a := f (hp ! a)] ! b)"
      using slots_okD(1) [OF assms(1) b(1)] by simp_all
  next
    fix b assume b: "b \<in> held"
    show "pc_inUse (hp[a := f (hp ! a)] ! b)" "(mp(k := None)) (pc_id (hp[a := f (hp ! a)] ! b)) = Some b"
      using slots_okD(2) [OF assms(1) b] held [OF b] by simp_all
  qed
qed

lemma slots_ok_take:
  assumes "slots_ok mp hp held" "mp k = Some a" "pc_id (f (hp ! a)) = pc_id (hp ! a)" "pc_closed (f (hp ! a)) = pc_closed (hp ! a)"
    "pc_inUse (f (hp ! a))"
  shows "slots_ok mp (hp[a := f (hp ! a)]) (insert a held)"
proof -
  have a: "a < length hp" "pc_id (hp ! a) = k" using slots_okD(1) [OF assms(1,2)] by auto
  show ?thesis unfolding slots_ok_def
  proof (intro conjI allI impI ballI)
    fix k' b assume b: "mp k' = Some b"
    show "b < length (hp[a := f (hp ! a)])" "pc_id (hp[a := f (hp ! a)] ! b) = k'" "\<not> pc_closed (hp[a := f (hp ! a)] ! b)"
      using slots_okD(1) [OF assms(1) b] assms(3,4) a by (cases "b = a", simp_all)+
  next
    fix b assume "b \<in> insert a held"
    then show "pc_inUse (hp[a := f (hp ! a)] ! b)" "mp (pc_id (hp[a := f (hp ! a)] ! b)) = Some b"
      using slots_okD(2) [OF assms(1)] a assms(2,3,5) by (auto simp: nth_list_update)
  qed
qed

section \<open>The operations\<close>

definition conn_name :: "(nat \<Rightarrow> int) \<Rightarrow> string" where
  "conn_name clk = ''conn-'' @ itoa_int (clk 0)"

lemma create_inv:
  assumes "ap_inv p held" "Adaptive_createConnection dials clk p = Inr (r, p')" "conn_name clk \<notin> set (keys_of (ap_connections p))"
  shows "ap_inv p' held \<and> (\<forall>a. r = Some a \<longrightarrow> a \<notin> held \<and> ap_inv p' (insert a held)) \<and>
    set (keys_of (ap_connections p)) \<subseteq> set (keys_of (ap_connections p')) \<and>
    set (keys_of (ap_connections p')) \<subseteq> insert (conn_name clk) (set (keys_of (ap_connections p)))"
proof (cases "create_full p \<or> \<not> dials")
  case True
  then have p': "r = None" "ap_heap p' = ap_heap p" "ap_connections p' = ap_connections p" "ap_activeConnections p' = ap_activeConnections p"
    "ap_totalConnections p' = ap_totalConnections p" "ap_maxConnections p' = ap_maxConnections p" "ap_loadBalancer p' = ap_loadBalancer p"
    using assms(2) by (auto simp: Adaptive_createConnection_def create_insert_def split: if_splits)
  have "ap_inv p' held" by (rule ap_inv_same [OF assms(1)]) (use p' ap_invD(4) [OF assms(1)] in \<open>simp_all add: same_slots_refl\<close>)
  then show ?thesis using p' by auto
next
  case False
  obtain c where c: "r = Some (length (ap_heap p))" "ap_heap p' = ap_heap p @ [c]" "pc_id c = conn_name clk" "pc_inUse c" "\<not> pc_closed c"
      "ap_connections p' = AList.update (conn_name clk) (length (ap_heap p)) (ap_connections p)"
      "ap_totalConnections p' = add64 (ap_totalConnections p) 1" "ap_activeConnections p' = add64 (ap_activeConnections p) 1"
      "ap_maxConnections p' = ap_maxConnections p" "ap_loadBalancer p' = ap_loadBalancer p"
    using assms(2) False by (auto simp: Adaptive_createConnection_def create_insert_def conn_name_def Let_def split: if_splits)
  have new: "map_of (ap_connections p) (pc_id c) = None" using assms(3) c(3) by (simp add: map_of_eq_None_iff)
  note len = length_update_new [OF assms(3), of "length (ap_heap p)"]
  have "int (length (ap_connections p)) < ap_maxConnections p" using False by (simp add: create_full_def)
  then have cnt: "pool_counts_ok p'" using ap_invD(3) [OF assms(1)] c len by (simp add: pool_counts_ok_def wrap64_wrap_add wrap64_add_wrap add.commute)
  note slots = slots_ok_new [OF ap_invD(2) [OF assms(1)] new c(5)]
  have base: "map_ok (ap_connections p')" "map_of (ap_connections p') = (map_of (ap_connections p))(pc_id c \<mapsto> length (ap_heap p))"
    "\<exists>alb. ap_loadBalancer p' = Some alb \<and> lb_inv alb"
    using ap_invD(1,4) [OF assms(1)] c by simp_all
  have fresh: "length (ap_heap p) \<notin> held" using slots_okD [OF ap_invD(2) [OF assms(1)]] by blast
  have "ap_inv p' held" unfolding ap_inv_def base(2) c(2) using base cnt slots(1) by blast
  moreover have "ap_inv p' (insert (length (ap_heap p)) held)" unfolding ap_inv_def base(2) c(2) using base cnt slots(2) c(4) by blast
  moreover have "set (keys_of (ap_connections p')) = insert (conn_name clk) (set (keys_of (ap_connections p)))"
    using c(6) by (simp add: dom_update flip: dom_map_of_conv_image_fst)
  ultimately show ?thesis using c(1) fresh by auto
qed

text \<open>Names the clock gives are new: different readings, none of them in the table.\<close>

definition fresh_names :: "(nat \<Rightarrow> nat \<Rightarrow> int) \<Rightarrow> adaptive_pool \<Rightarrow> bool" where
  "fresh_names clks p \<longleftrightarrow> inj (\<lambda>i. conn_name (clks i)) \<and> (\<forall>i. conn_name (clks i) \<notin> set (keys_of (ap_connections p)))"

lemma create_loops_step:
  assumes "inj (\<lambda>i. conn_name (clks i))" "ap_inv p held" "\<forall>i<Suc n. conn_name (clks i) \<notin> set (keys_of (ap_connections p))"
    and "Adaptive_createConnection (dials n) (clks n) p = Inr (r, p1)"
  shows "ap_inv p1 held" "\<forall>i<n. conn_name (clks i) \<notin> set (keys_of (ap_connections p1))"
    "set (keys_of (ap_connections p)) \<subseteq> set (keys_of (ap_connections p1))"
proof -
  have new: "conn_name (clks n) \<notin> set (keys_of (ap_connections p))" using assms(3) by blast
  note c = create_inv [OF assms(2,4) new]
  then show "ap_inv p1 held" "set (keys_of (ap_connections p)) \<subseteq> set (keys_of (ap_connections p1))" by blast+
  have "conn_name (clks i) \<noteq> conn_name (clks n)" if "i < n" for i using injD [OF assms(1), of i n] that by auto
  then show "\<forall>i<n. conn_name (clks i) \<notin> set (keys_of (ap_connections p1))" using c assms(3) less_SucI by blast
qed

lemma create_each_inv:
  assumes "inj (\<lambda>i. conn_name (clks i))"
  shows "ap_inv p held \<Longrightarrow> \<forall>i<n. conn_name (clks i) \<notin> set (keys_of (ap_connections p)) \<Longrightarrow>
    create_each n dials clks p = Inr p' \<Longrightarrow> ap_inv p' held"
proof (induction n arbitrary: p)
  case (Suc n)
  obtain r p1 where c: "Adaptive_createConnection (dials n) (clks n) p = Inr (r, p1)" "create_each n dials clks p1 = Inr p'"
    using Suc.prems(3) by (auto simp: and_then_eq_Inr_iff)
  note s = create_loops_step [where dials = dials and clks = clks and n = n, OF assms Suc.prems(1,2) c(1)]
  show ?case by (rule Suc.IH [OF s(1,2) c(2)])
qed simp

lemma scale_loop_inv:
  assumes "inj (\<lambda>i. conn_name (clks i))"
  shows "ap_inv p held \<Longrightarrow> \<forall>i<n. conn_name (clks i) \<notin> set (keys_of (ap_connections p)) \<Longrightarrow>
    scale_loop n dials clks p = Inr p' \<Longrightarrow> ap_inv p' held \<and> set (keys_of (ap_connections p)) \<subseteq> set (keys_of (ap_connections p'))"
proof (induction n arbitrary: p)
  case (Suc n)
  obtain r p1 where c: "Adaptive_createConnection (dials n) (clks n) p = Inr (r, p1)"
    "(case r of None \<Rightarrow> Inr p1 | Some _ \<Rightarrow> scale_loop n dials clks p1) = Inr p'"
    using Suc.prems(3) by (auto simp: and_then_eq_Inr_iff)
  note s = create_loops_step [where dials = dials and clks = clks and n = n, OF assms Suc.prems(1,2) c(1)]
  show ?case
  proof (cases r)
    case None
    then show ?thesis using c(2) s(1,3) by simp
  next
    case (Some _)
    then have "scale_loop n dials clks p1 = Inr p'" using c(2) by simp
    then show ?thesis using Suc.IH [OF s(1,2)] s(3) by blast
  qed
qed simp

lemma range_pool_member: "a \<in> set (range_pool ord p) \<Longrightarrow> set ord \<subseteq> set (keys_of (ap_connections p)) \<Longrightarrow>
    \<exists>k. map_of (ap_connections p) k = Some a"
proof -
  assume "a \<in> set (range_pool ord p)" "set ord \<subseteq> set (keys_of (ap_connections p))"
  moreover from this obtain k where "k \<in> set ord" "a = the (map_of (ap_connections p) k)"
    unfolding range_pool_def by auto
  ultimately have "k \<in> set (keys_of (ap_connections p))" "a = the (map_of (ap_connections p) k)" by blast+
  then have "map_of (ap_connections p) k = Some a" by (metis map_of_eq_None_iff option.exhaust_sel set_map)
  then show ?thesis ..
qed

lemma ap_inv_less: "ap_inv p held \<Longrightarrow> held' \<subseteq> held \<Longrightarrow> ap_inv p held'"
  unfolding ap_inv_def by (meson slots_ok_less_held)

lemma ap_inv_balancer: "ap_inv p held \<Longrightarrow> lb_inv alb \<Longrightarrow> ap_inv (p\<lparr> ap_loadBalancer := Some alb \<rparr>) held"
  by (rule ap_inv_same [where p = p]) (simp_all add: same_slots_refl)

lemma take_inv:
  assumes "ap_inv p held" "map_of (ap_connections p) k = Some a"
  shows "ap_inv (take_conn now a p) (insert a held)"
proof -
  let ?f = "\<lambda>c :: pooled_conn. c\<lparr> pc_inUse := True, pc_lastUsed := now \<rparr>"
  have "slots_ok (map_of (ap_connections p)) ((ap_heap p)[a := ?f (ap_heap p ! a)]) (insert a held)"
    by (rule slots_ok_take [OF ap_invD(2) [OF assms(1)] assms(2)]) simp_all
  then show ?thesis using ap_invD(1,3,4) [OF assms(1)] unfolding ap_inv_def take_conn_def on_heap_def pool_counts_ok_def by simp
qed

lemma select_strategy_None:
  assumes "Adaptive_selectConnectionByStrategy u i conns p = Inr (None, p')" "conns \<noteq> []" "ap_loadBalancer p = Some alb"
  shows "p' = p\<lparr> ap_loadBalancer := Some alb \<rparr>"
  using assms by (auto simp: Adaptive_selectConnectionByStrategy_def Alb_SelectConnection_def and_then_eq_Inr_iff
      split: if_splits lb_strategy.splits)

text \<open>A caller gets a connection nobody holds.\<close>

lemma GetConnection_inv:
  assumes "ap_inv p held" "Adaptive_GetConnection tm now u i ord dials clk p = Inr (r, p')"
    and "conn_name clk \<notin> set (keys_of (ap_connections p))" "set ord \<subseteq> set (keys_of (ap_connections p))"
    and "i < length (available_conns tm ord p)"
  shows "ap_inv p' held \<and> (\<forall>a. r = Some a \<longrightarrow> a \<notin> held \<and> ap_inv p' (insert a held))"
proof -
  obtain alb where alb: "ap_loadBalancer p = Some alb" "lb_inv alb" using ap_invD(4) [OF assms(1)] by blast
  obtain r1 p1 where b: "Adaptive_getBestConnection tm now u i ord p = Inr (r1, p1)"
    using assms(2) by (auto simp: Adaptive_GetConnection_def and_then_eq_Inr_iff)
  obtain r0 p0 where s: "Adaptive_selectConnectionByStrategy u i (available_conns tm ord p) p = Inr (r0, p0)"
      "r1 = r0" "p1 = (case r0 of None \<Rightarrow> p0 | Some a \<Rightarrow> take_conn now a p0)"
    using b assms(5) by (auto simp: Adaptive_getBestConnection_def and_then_eq_Inr_iff Let_def split: if_splits option.splits)
  have ne: "available_conns tm ord p \<noteq> []" using assms(5) by auto
  show ?thesis
  proof (cases r0)
    case (Some a)
    note m = select_strategy_member [OF s(1) [unfolded Some] assms(5) alb(1)]
    then obtain alb' where p0: "p0 = p\<lparr> ap_loadBalancer := Some alb' \<rparr>" "lb_inv alb'" using alb(2) by blast
    have a: "\<not> pc_inUse (ap_heap p ! a)" "a \<in> set (range_pool ord p)" using m by (auto simp: available_conns_def)
    obtain k where k: "map_of (ap_connections p) k = Some a" using range_pool_member [OF a(2) assms(4)] by blast
    have "a \<notin> held" using slots_okD(2) [OF ap_invD(2) [OF assms(1)]] a(1) by blast
    moreover have i: "ap_inv (take_conn now a p0) (insert a held)"
      by (rule take_inv [of _ _ k]) (use ap_inv_balancer [OF assms(1) p0(2)] p0(1) k in simp_all)
    ultimately have "r = Some a" "ap_inv p' (insert a held)" "a \<notin> held"
      using assms(2) b s(2,3) Some
      by (auto simp: Adaptive_GetConnection_def intro: ap_inv_same [OF i] simp: same_slots_refl ap_invD(4) [OF i])
    then show ?thesis using ap_inv_less by blast
  next
    case None
    have p0: "p0 = p\<lparr> ap_loadBalancer := Some alb \<rparr>" by (rule select_strategy_None [OF s(1) [unfolded None] ne alb(1)])
    define p2 where "p2 = p0\<lparr> ap_poolMisses := add64 (ap_poolMisses p0) 1 \<rparr>"
    have i: "ap_inv p2 held"
      by (rule ap_inv_same [OF assms(1)]) (use p0 alb(2) in \<open>simp_all add: p2_def same_slots_refl\<close>)
    have c: "Adaptive_createConnection dials clk p2 = Inr (r, p')"
      using assms(2) b s(2,3) None by (simp add: Adaptive_GetConnection_def p2_def)
    have "conn_name clk \<notin> set (keys_of (ap_connections p2))" using assms(3) p0 by (simp add: p2_def)
    from create_inv [OF i c this] show ?thesis by blast
  qed
qed

lemma update_quality_same:
  "ap_connections (Adaptive_updateConnectionQuality g clk a p) = ap_connections p"
  "ap_activeConnections (Adaptive_updateConnectionQuality g clk a p) = ap_activeConnections p"
  "ap_totalConnections (Adaptive_updateConnectionQuality g clk a p) = ap_totalConnections p"
  "ap_maxConnections (Adaptive_updateConnectionQuality g clk a p) = ap_maxConnections p"
  "ap_loadBalancer (Adaptive_updateConnectionQuality g clk a p) = ap_loadBalancer p"
  "same_slots held (ap_heap p) (ap_heap (Adaptive_updateConnectionQuality g clk a p))"
  by (simp_all add: Adaptive_updateConnectionQuality_def on_heap_def Let_def same_slots_on)

lemma ap_inv_quality: "ap_inv p held \<Longrightarrow> ap_inv (Adaptive_updateConnectionQuality g clk a p) held"
  by (rule ap_inv_same) (simp_all add: update_quality_same ap_invD(4))

lemma ap_inv_on_heap:
  assumes "ap_inv p held" "\<And>c. pc_id (f c) = pc_id c \<and> pc_closed (f c) = pc_closed c" "a \<notin> held \<or> (\<forall>c. pc_inUse (f c) = pc_inUse c)"
  shows "ap_inv (on_heap a f p) held"
proof (rule ap_inv_same [OF assms(1)])
  show "same_slots held (ap_heap p) (ap_heap (on_heap a f p))"
    using same_slots_on [of f "ap_heap p" a held] assms(2,3) by (auto simp: on_heap_def)
qed (use ap_invD(4) [OF assms(1)] in \<open>simp_all add: on_heap_def\<close>)

lemma release_inv:
  assumes "ap_inv p held" "\<forall>a. r = Some a \<longrightarrow> a \<notin> held"
  shows "ap_inv (Adaptive_ReleaseConnection g now clk r p) held"
proof (cases r)
  case (Some a)
  let ?p1 = "on_heap a (\<lambda>c. c\<lparr> pc_inUse := False, pc_lastUsed := now \<rparr>) p"
  let ?p2 = "Adaptive_updateConnectionQuality g clk a ?p1"
  have "ap_inv ?p1 held" by (rule ap_inv_on_heap [OF assms(1)]) (use assms(2) Some in auto)
  then have p2: "ap_inv ?p2 held" by (rule ap_inv_quality)
  obtain alb where alb: "ap_loadBalancer ?p2 = Some alb" "lb_inv alb" using ap_invD(4) [OF p2] by blast
  have "ap_inv (?p2\<lparr> ap_loadBalancer := Some (Alb_CleanupStaleConnections (keys_of (ap_connections ?p2)) alb) \<rparr>) held"
    by (rule ap_inv_balancer [OF p2 lb_inv_Cleanup [OF alb(2)]])
  then show ?thesis using Some alb(1) by (simp add: Adaptive_ReleaseConnection_def Let_def)
qed (use assms in \<open>simp add: Adaptive_ReleaseConnection_def\<close>)

lemma close_inv:
  assumes "ap_inv p held" "map_of (ap_connections p) k = Some a" "\<not> pc_inUse (ap_heap p ! a)"
  shows "ap_inv (close_conn k a p) held"
proof -
  let ?f = "\<lambda>c :: pooled_conn. c\<lparr> pc_cancelled := True, pc_closed := True \<rparr>"
  have slots: "slots_ok ((map_of (ap_connections p))(k := None)) ((ap_heap p)[a := ?f (ap_heap p ! a)]) held"
    by (rule slots_ok_close [OF ap_invD(2) [OF assms(1)] assms(2,3)]) simp_all
  have "k \<in> set (keys_of (ap_connections p))" using assms(2) by (metis map_of_eq_None_iff option.distinct(1) set_map)
  then have len: "length (ap_connections p) = Suc (length (AList.delete k (ap_connections p)))"
    using length_delete_old [OF ap_invD(1) [OF assms(1)]] by blast
  have cnt: "pool_counts_ok (close_conn k a p)"
    using ap_invD(3) [OF assms(1)] len by (simp add: pool_counts_ok_def close_conn_def on_heap_def wrap64_wrap_add wrap64_wrap_diff)
  show ?thesis unfolding ap_inv_def using ap_invD(1,4) [OF assms(1)] slots cnt by (simp add: close_conn_def on_heap_def)
qed

lemma removeWorst_inv:
  assumes "ap_inv p held" "set ord \<subseteq> set (keys_of (ap_connections p))"
  shows "ap_inv (Adaptive_removeWorstConnection ord p) held"
proof -
  let ?score = "\<lambda>a. cq_Score (Adaptive_getConnectionQuality (ap_heap p ! a))"
  let ?idle = "filter (\<lambda>a. \<not> pc_inUse (ap_heap p ! a)) (range_pool ord p)"
  show ?thesis
  proof (cases "best_loop (<) ?score 101 None ?idle")
    case (Some a)
    then have a: "a \<in> set ?idle" using best_loop_spec [of "(<)" ?score 101 None ?idle] by auto
    then obtain k where k: "map_of (ap_connections p) k = Some a" using range_pool_member [OF _ assms(2)] by auto
    have "pc_id (ap_heap p ! a) = k" using slots_okD(1) [OF ap_invD(2) [OF assms(1)] k] by blast
    then show ?thesis using close_inv [OF assms(1) k] a Some by (simp add: Adaptive_removeWorstConnection_def)
  qed (use assms in \<open>simp add: Adaptive_removeWorstConnection_def\<close>)
qed

lemma close_conn_map: "map_of (ap_connections (close_conn k a p)) = (map_of (ap_connections p))(k := None)"
  by (simp add: close_conn_def on_heap_def)

lemma close_conn_inUse: "pc_inUse (ap_heap (close_conn k a p) ! b) = pc_inUse (ap_heap p ! b)"
proof -
  have "ap_heap (close_conn k a p) = (ap_heap p)[a := (ap_heap p ! a)\<lparr> pc_cancelled := True, pc_closed := True \<rparr>]"
    by (simp add: close_conn_def on_heap_def)
  then show ?thesis by (cases "a < length (ap_heap p)"; cases "b = a") (simp_all add: list_update_beyond)
qed

lemma cleanup_inv:
  assumes "ap_inv p held" "range_order (ap_connections p) ord"
  shows "ap_inv (Adaptive_cleanupConnections tm ord p) held"
proof -
  let ?close = "\<lambda>k p. close_conn k (the (map_of (ap_connections p) k)) p"
  have fold: "ap_inv (fold ?close ks p) held" if "ap_inv p held" "distinct ks"
    "\<forall>k\<in>set ks. \<exists>a. map_of (ap_connections p) k = Some a \<and> \<not> pc_inUse (ap_heap p ! a)" for ks
    using that
  proof (induction ks arbitrary: p)
    case (Cons k ks)
    obtain a where a: "map_of (ap_connections p) k = Some a" "\<not> pc_inUse (ap_heap p ! a)" using Cons.prems(3) by auto
    have "\<forall>k'\<in>set ks. \<exists>b. map_of (ap_connections (close_conn k a p)) k' = Some b \<and> \<not> pc_inUse (ap_heap (close_conn k a p) ! b)"
    proof
      fix k' assume k': "k' \<in> set ks"
      then have "k' \<noteq> k" using Cons.prems(2) by auto
      moreover obtain b where "map_of (ap_connections p) k' = Some b" "\<not> pc_inUse (ap_heap p ! b)" using Cons.prems(3) k' by auto
      ultimately show "\<exists>b. map_of (ap_connections (close_conn k a p)) k' = Some b \<and> \<not> pc_inUse (ap_heap (close_conn k a p) ! b)"
        unfolding close_conn_map close_conn_inUse by auto
    qed
    then show ?case using Cons.IH [OF close_inv [OF Cons.prems(1) a]] Cons.prems(2) a(1) by simp
  qed simp
  have some: "map_of (ap_connections p) k = Some (the (map_of (ap_connections p) k))" if "k \<in> set ord" for k
    using assms(2) that by (metis range_order_def map_of_eq_None_iff option.exhaust_sel set_map)
  show ?thesis unfolding Adaptive_cleanupConnections_def Let_def
  proof (rule fold [OF assms(1)])
    show "distinct (filter P ord)" for P using assms(2) by (simp add: range_order_def)
  qed (use some in auto)
qed

lemma ap_inv_stat:
  "ap_inv p held \<Longrightarrow> ap_inv (p\<lparr> ap_scalingEvents := n \<rparr>) held" "ap_inv p held \<Longrightarrow> ap_inv (p\<lparr> ap_averageQuality := n \<rparr>) held"
  "ap_inv p held \<Longrightarrow> ap_inv (p\<lparr> ap_ctx := x \<rparr>) held" "ap_inv p held \<Longrightarrow> ap_inv (p\<lparr> ap_wg := n \<rparr>) held"
  "ap_inv p held \<Longrightarrow> ap_inv (p\<lparr> ap_strategy := s \<rparr>) held" "ap_inv p held \<Longrightarrow> ap_inv (p\<lparr> ap_trafficPrediction := tp \<rparr>) held"
  by (rule ap_inv_same [where p = p]; simp add: same_slots_refl ap_invD(4) [of p held])+

lemma fresh_below: "fresh_names clks p \<Longrightarrow> ap_connections p' = ap_connections p \<Longrightarrow>
    \<forall>i<n. conn_name (clks i) \<notin> set (keys_of (ap_connections p'))"
  by (simp add: fresh_names_def)

lemma scale_up_inv:
  assumes "ap_inv p held" "fresh_names clks p" "scale_up avg n dials clks p = Inr p'"
  shows "ap_inv p' held \<and> set (keys_of (ap_connections p)) \<subseteq> set (keys_of (ap_connections p'))"
proof (cases "avg < ap_scaleUpThreshold p \<and> n < ap_maxConnections p")
  case True
  then obtain p3 where p3: "scale_loop (nat (min 2 (ap_maxConnections p - n))) dials clks p = Inr p3"
    "p' = p3\<lparr> ap_scalingEvents := add64 (ap_scalingEvents p3) 1 \<rparr>"
    using assms(3) by (auto simp: scale_up_def and_then_eq_Inr_iff)
  have inj: "inj (\<lambda>i. conn_name (clks i))" using assms(2) by (simp add: fresh_names_def)
  show ?thesis using scale_loop_inv [OF inj assms(1) fresh_below [OF assms(2) refl] p3(1)] ap_inv_stat(1) p3(2) by simp
qed (use assms in \<open>auto simp: scale_up_def\<close>)

lemma scale_down_inv:
  assumes "ap_inv p held" "set ord \<subseteq> set (keys_of (ap_connections p))"
  shows "ap_inv (scale_down avg n ord p) held"
  using removeWorst_inv [OF assms] assms(1) ap_inv_stat(1) by (simp add: scale_down_def Let_def)

lemma scaling_inv:
  assumes "ap_inv p held" "Adaptive_performScaling g tm ord dials clks ord' p = Inr p'" "fresh_names clks p"
    "set ord' \<subseteq> set (keys_of (ap_connections p))"
  shows "ap_inv p' held"
proof -
  consider "p' = p" | avg n p1 m where "scale_up avg n dials clks (p\<lparr> ap_averageQuality := m \<rparr>) = Inr p1" "p' = scale_down avg n ord' p1"
    using assms(2) by (auto simp: Adaptive_performScaling_def Let_def and_then_eq_Inr_iff split: if_splits)
  then show ?thesis
  proof cases
    case 2
    have f: "fresh_names clks (p\<lparr> ap_averageQuality := m \<rparr>)" using assms(3) by (simp add: fresh_names_def)
    show ?thesis using scale_up_inv [OF ap_inv_stat(2) [OF assms(1)] f 2(1)] scale_down_inv [of p1 held ord'] assms(4) 2(2) by auto
  qed (use assms(1) in simp)
qed

lemma quality_check_inv:
  assumes "ap_inv p held"
  shows "ap_inv (Adaptive_performQualityCheck g tm probes ord p) held"
proof -
  have "ap_inv (quality_check g tm probes a p) held" if "ap_inv p held" for a p
    unfolding quality_check_def Adaptive_performRTTTest_def
    by (rule ap_inv_quality) (use that in \<open>auto simp: Let_def intro!: ap_inv_on_heap\<close>)
  then have "ap_inv (fold (quality_check g tm probes) as p) held" if "ap_inv p held" for as
    using that by (induction as arbitrary: p) simp_all
  then show ?thesis using assms by (simp add: Adaptive_performQualityCheck_def)
qed

lemma strategy_inv: "ap_inv p held \<Longrightarrow> ap_inv (Adaptive_SetLoadBalanceStrategy s p) held"
proof -
  assume p: "ap_inv p held"
  obtain alb where alb: "ap_loadBalancer p = Some alb" "lb_inv alb" using ap_invD(4) [OF p] by blast
  show ?thesis using ap_inv_balancer [OF ap_inv_stat(5) [OF p] lb_inv_SetStrategy [OF alb(2)]] alb(1)
    by (simp add: Adaptive_SetLoadBalanceStrategy_def)
qed

lemma stats_inv: "ap_inv p held \<Longrightarrow> ap_inv (Adaptive_UpdateConnectionStats now a rt ok p) held"
proof -
  assume p: "ap_inv p held"
  obtain alb where alb: "ap_loadBalancer p = Some alb" "lb_inv alb" using ap_invD(4) [OF p] by blast
  show ?thesis using ap_inv_balancer [OF p lb_inv_UpdateStats [OF alb(2)]] alb(1)
    by (simp add: Adaptive_UpdateConnectionStats_def)
qed

lemma weights_inv:
  assumes "ap_inv p held" "ap_loadBalancer p = Some alb"
  shows "ap_inv (p\<lparr> ap_loadBalancer := Some (Alb_periodicWeightUpdate now ord alb) \<rparr>) held"
proof -
  have "lb_inv alb" using ap_invD(4) [OF assms(1)] assms(2) by auto
  then show ?thesis using ap_inv_balancer [OF assms(1) lb_inv_periodic] by blast
qed

lemma analyze_inv:
  assumes "ap_inv p held" "Adaptive_analyzeTrafficPattern g dials clks ords p = Inr p'" "fresh_names clks p"
    "\<And>i m. set (ords i m) \<subseteq> set (keys_of m)"
  shows "ap_inv p' held"
proof -
  have adapt: "ap_inv (Adaptive_adaptLoadBalanceStrategy ta q) held" if "ap_inv q held" for ta q
    using that strategy_inv by (simp add: Adaptive_adaptLoadBalanceStrategy_def)
  have down: "ap_inv (Adaptive_proactiveScaleDown n ords q) held" if "ap_inv q held" for n q
  proof -
    have "ap_inv (fold (\<lambda>i p. Adaptive_removeWorstConnection (ords i (ap_connections p)) p) is q) held" if "ap_inv q held" for "is"
      using that by (induction "is" arbitrary: q) (simp_all add: removeWorst_inv [OF _ assms(4)])
    then show ?thesis using that by (simp add: Adaptive_proactiveScaleDown_def)
  qed
  have inj: "inj (\<lambda>i. conn_name (clks i))" using assms(3) by (simp add: fresh_names_def)
  have up: "ap_inv q held" if "Adaptive_proactiveScaleUp n dials clks p = Inr q" for n q
    using create_each_inv [OF inj assms(1) fresh_below [OF assms(3) refl]] that by (simp add: Adaptive_proactiveScaleUp_def)
  show ?thesis
    using assms(1,2) adapt down up
    by (auto simp: Adaptive_analyzeTrafficPattern_def and_then_eq_Inr_iff Let_def split: if_splits)
qed

lemma start_inv:
  assumes "ap_inv p held" "Adaptive_Start dials clks p = Inr (ls, p')" "fresh_names clks p"
  shows "ap_inv p' held"
proof -
  obtain q where q: "create_each (nat (ap_minConnections p)) dials clks (p\<lparr> ap_ctx := CtxLive \<rparr>) = Inr q" "p' = q\<lparr> ap_wg := ap_wg q + 5 \<rparr>"
    using assms(2) by (auto simp: Adaptive_Start_def and_then_eq_Inr_iff)
  have inj: "inj (\<lambda>i. conn_name (clks i))" using assms(3) by (simp add: fresh_names_def)
  have "\<forall>i<n. conn_name (clks i) \<notin> set (keys_of (ap_connections (p\<lparr> ap_ctx := CtxLive \<rparr>)))" for n
    using fresh_below [OF assms(3), of "p\<lparr> ap_ctx := CtxLive \<rparr>"] by simp
  from create_each_inv [OF inj ap_inv_stat(3) [OF assms(1)] this q(1)] show ?thesis using ap_inv_stat(4) q(2) by blast
qed

lemma prewarm_inv:
  assumes "ap_inv p held" "Adaptive_preWarm g dials clk now clk' p = Inr p'" "conn_name clk \<notin> set (keys_of (ap_connections p))"
  shows "ap_inv p' held"
proof -
  obtain r q where q: "Adaptive_createConnection dials clk p = Inr (r, q)" "p' = Adaptive_ReleaseConnection g now clk' r q"
    using assms(2) by (auto simp: Adaptive_preWarm_def and_then_eq_Inr_iff)
  note c = create_inv [OF assms(1) q(1) assms(3)]
  show ?thesis unfolding q(2) by (rule release_inv) (use c in blast)+
qed

section \<open>Runs\<close>

text \<open>
  The pool with its holders: those a call of \<open>GetConnection\<close> gave a connection and that have not released it. The
  operations run one after another; names from the clock are new, and random indices in range.
\<close>

inductive adaptive_run :: "adaptive_pool \<Rightarrow> nat set \<Rightarrow> bool" where
  ar_new: "adaptive_run (PoolConfig_Apply c NewAdaptivePool) {}"
| ar_start: "adaptive_run p held \<Longrightarrow> fresh_names clks p \<Longrightarrow> Adaptive_Start dials clks p = Inr (ls, p') \<Longrightarrow> adaptive_run p' held"
| ar_get: "adaptive_run p held \<Longrightarrow> conn_name clk \<notin> set (keys_of (ap_connections p)) \<Longrightarrow> range_order (ap_connections p) ord \<Longrightarrow>
    (available_conns tm ord p \<noteq> [] \<longrightarrow> i < length (available_conns tm ord p)) \<Longrightarrow>
    Adaptive_GetConnection tm now u i ord dials clk p = Inr (r, p') \<Longrightarrow> adaptive_run p' (held \<union> set_option r)"
| ar_release: "adaptive_run p held \<Longrightarrow> a \<in> held \<Longrightarrow> adaptive_run (Adaptive_ReleaseConnection g now clk (Some a) p) (held - {a})"
| ar_prewarm: "adaptive_run p held \<Longrightarrow> conn_name clk \<notin> set (keys_of (ap_connections p)) \<Longrightarrow>
    Adaptive_preWarm g dials clk now clk' p = Inr p' \<Longrightarrow> adaptive_run p' held"
| ar_scale: "adaptive_run p held \<Longrightarrow> fresh_names clks p \<Longrightarrow> range_order (ap_connections p) ord \<Longrightarrow>
    range_order (ap_connections p) ord' \<Longrightarrow> Adaptive_performScaling g tm ord dials clks ord' p = Inr p' \<Longrightarrow> adaptive_run p' held"
| ar_check: "adaptive_run p held \<Longrightarrow> range_order (ap_connections p) ord \<Longrightarrow>
    adaptive_run (Adaptive_performQualityCheck g tm probes ord p) held"
| ar_cleanup: "adaptive_run p held \<Longrightarrow> range_order (ap_connections p) ord \<Longrightarrow>
    adaptive_run (Adaptive_cleanupConnections tm ord p) held"
| ar_analyze: "adaptive_run p held \<Longrightarrow> fresh_names clks p \<Longrightarrow> (\<And>i m. set (ords i m) \<subseteq> set (keys_of m)) \<Longrightarrow>
    Adaptive_analyzeTrafficPattern g dials clks ords p = Inr p' \<Longrightarrow> adaptive_run p' held"
| ar_stats: "adaptive_run p held \<Longrightarrow> adaptive_run (Adaptive_UpdateConnectionStats now a rt ok p) held"
| ar_strategy: "adaptive_run p held \<Longrightarrow> adaptive_run (Adaptive_SetLoadBalanceStrategy s p) held"
| ar_weights: "adaptive_run p held \<Longrightarrow> ap_loadBalancer p = Some alb \<Longrightarrow>
    adaptive_run (p\<lparr> ap_loadBalancer := Some (Alb_periodicWeightUpdate now ord alb) \<rparr>) held"
| ar_traffic: "adaptive_run p held \<Longrightarrow>
    (\<And>c. pc_id (f c) = pc_id c \<and> pc_closed (f c) = pc_closed c \<and> pc_inUse (f c) = pc_inUse c) \<Longrightarrow> adaptive_run (on_heap a f p) held"

lemma ap_inv_new: "ap_inv (PoolConfig_Apply c NewAdaptivePool) {}"
  using lb_inv_new by (simp add: ap_inv_def PoolConfig_Apply_def NewAdaptivePool_def slots_ok_def pool_counts_ok_def)

lemma getBest_none:
  assumes "available_conns tm ord p = []" "Adaptive_GetConnection tm now u i ord dials clk p = Inr (r, p')"
  shows "Adaptive_createConnection dials clk (p\<lparr> ap_poolMisses := add64 (ap_poolMisses p) 1 \<rparr>) = Inr (r, p')"
  using assms by (simp add: Adaptive_GetConnection_def Adaptive_getBestConnection_def)

lemma get_inv:
  assumes "ap_inv p held" "conn_name clk \<notin> set (keys_of (ap_connections p))" "range_order (ap_connections p) ord"
    and "available_conns tm ord p \<noteq> [] \<longrightarrow> i < length (available_conns tm ord p)"
    and "Adaptive_GetConnection tm now u i ord dials clk p = Inr (r, p')"
  shows "ap_inv p' held \<and> (\<forall>a. r = Some a \<longrightarrow> a \<notin> held \<and> ap_inv p' (insert a held))"
proof (cases "available_conns tm ord p = []")
  case True
  have "ap_inv (p\<lparr> ap_poolMisses := add64 (ap_poolMisses p) 1 \<rparr>) held"
    by (rule ap_inv_same [OF assms(1)]) (simp_all add: same_slots_refl ap_invD(4) [OF assms(1)])
  from create_inv [OF this getBest_none [OF True assms(5)]] assms(2) show ?thesis by simp
next
  case False
  show ?thesis by (rule GetConnection_inv [OF assms(1,5,2)]) (use assms(3,4) False in \<open>auto simp: range_order_def\<close>)
qed

lemma adaptive_run_inv: "adaptive_run p held \<Longrightarrow> ap_inv p held"
proof (induction rule: adaptive_run.induct)
  case (ar_get p held clk ord tm i now u dials r p')
  show ?case using get_inv [OF ar_get.IH ar_get.hyps(2-5)] by (cases r) simp_all
next
  case (ar_release p held a g now clk)
  show ?case by (rule release_inv [OF ap_inv_less [OF ar_release.IH]]) auto
next
  case (ar_scale p held clks ord ord' g tm dials p')
  show ?case by (rule scaling_inv [OF ar_scale.IH ar_scale.hyps(5,2)]) (use ar_scale.hyps(4) in \<open>simp add: range_order_def\<close>)
next
  case (ar_traffic p held f a)
  show ?case by (rule ap_inv_on_heap [OF ar_traffic.IH]) (use ar_traffic.hyps in auto)
next
  case (ar_analyze p held clks ords g dials p')
  show ?case by (rule analyze_inv [OF ar_analyze.IH ar_analyze.hyps(4,2,3)])
next
  case (ar_start p held clks dials ls p')
  show ?case by (rule start_inv [OF ar_start.IH ar_start.hyps(3,2)])
next
  case (ar_prewarm p held clk g dials now clk' p')
  show ?case by (rule prewarm_inv [OF ar_prewarm.IH ar_prewarm.hyps(3,2)])
qed (simp_all only: ap_inv_new quality_check_inv cleanup_inv stats_inv strategy_inv weights_inv)


definition demo_pool :: adaptive_pool where
  "demo_pool = (PoolConfig_Apply DefaultPoolConfig NewAdaptivePool)\<lparr> ap_ctx := CtxLive, ap_failedConnections := 2, ap_wg := 5 \<rparr>"

lemma demo_pool_run: "adaptive_run demo_pool {}"
proof (rule ar_start [OF ar_new])
  show "fresh_names (\<lambda>i _. int i) (PoolConfig_Apply DefaultPoolConfig NewAdaptivePool)"
    by (simp add: fresh_names_def PoolConfig_Apply_def NewAdaptivePool_def conn_name_def inj_def)
  show "Adaptive_Start (\<lambda>_. False) (\<lambda>i _. int i) (PoolConfig_Apply DefaultPoolConfig NewAdaptivePool) =
      Inr ([ScalingLoop, MonitoringLoop, CleanerLoop, TrafficLoop, WeightLoop], demo_pool)"
    by (simp add: Adaptive_Start_def PoolConfig_Apply_def NewAdaptivePool_def DefaultPoolConfig_def demo_pool_def numeral_2_eq_2
        Adaptive_createConnection_def create_full_def create_insert_def)
qed


section \<open>Where it goes wrong\<close>

text \<open>
  The connections \<open>Start\<close> makes are marked as in use, and nobody has a pointer to release them: they fill the pool and
  are never handed out. The same holds for those of \<open>performScaling\<close>.
\<close>

definition all_in_use :: "adaptive_pool \<Rightarrow> bool" where
  "all_in_use p \<longleftrightarrow> (\<forall>k a. map_of (ap_connections p) k = Some a \<longrightarrow> a < length (ap_heap p) \<and> pc_inUse (ap_heap p ! a))"

lemma create_in_use:
  "all_in_use p \<Longrightarrow> Adaptive_createConnection dials clk p = Inr (r, p') \<Longrightarrow> all_in_use p'"
  by (auto simp: Adaptive_createConnection_def create_insert_def all_in_use_def Let_def nth_append less_Suc_eq split: if_splits)

lemma started_connections_unusable:
  assumes "Adaptive_Start dials clks (PoolConfig_Apply c NewAdaptivePool) = Inr (ls, p)" "range_order (ap_connections p) ord"
  shows "available_conns tm ord p = []"
proof -
  have loop: "create_each n dials clks q = Inr q' \<Longrightarrow> all_in_use q \<Longrightarrow> all_in_use q'" for n q q'
    by (induction n arbitrary: q) (auto simp: and_then_eq_Inr_iff dest: create_in_use)
  have "all_in_use ((PoolConfig_Apply c NewAdaptivePool)\<lparr> ap_ctx := CtxLive \<rparr>)"
    by (simp add: all_in_use_def PoolConfig_Apply_def NewAdaptivePool_def)
  then have "all_in_use p" using assms(1) loop by (auto simp: Adaptive_Start_def and_then_eq_Inr_iff all_in_use_def)
  then have "\<forall>a\<in>set (range_pool ord p). pc_inUse (ap_heap p ! a)"
    using range_pool_member [of _ ord p] assms(2) unfolding all_in_use_def range_order_def by blast
  then show ?thesis by (simp add: available_conns_def filter_empty_conv)
qed

text \<open>
  An idle connection has nothing to read, so the probe times out and counts as an error of the connection: after
  probes only, its error rate is 1, and the next clean-up closes it.
\<close>

lemma idle_probe_invalidates:
  assumes "a < length (ap_heap p)" "pc_errorCount (ap_heap p ! a) = pc_requestCount (ap_heap p ! a)"
    "0 \<le> pc_requestCount (ap_heap p ! a)" "pc_requestCount (ap_heap p ! a) < 2 ^ 62" "ap_maxErrorRate p < 1"
  shows "\<not> Adaptive_isConnectionValid clk' p
    (ap_heap (Adaptive_updateConnectionQuality g clk a (Adaptive_performRTTTest rtt True a p)) ! a)"
proof -
  define n where "n = pc_requestCount (ap_heap p ! a) + 1"
  have n: "0 < n" "wrap64 n = n" "add64 (pc_errorCount (ap_heap p ! a)) 1 = n" using assms(2-4) by (simp_all add: n_def)
  have "(0 :: rat) < of_int n" using n(1) by simp
  then have "float64 n \<noteq> 0" using fl_positive by (metis less_irrefl)
  moreover have "fl 1 = 1" using fl_int [of 1] by simp
  ultimately have "fdiv (float64 n) (float64 n) = 1" by simp
  then show ?thesis using assms(1,5) n
    by (simp add: Adaptive_updateConnectionQuality_def Adaptive_performRTTTest_def on_heap_def Let_def new_quality_def
        Adaptive_isConnectionValid_def Adaptive_getConnectionQuality_def n_def [symmetric])
qed

text \<open>With two to four samples the analysis of the traffic, every five seconds, takes a slice before the first one.\<close>

lemma few_samples_panic:
  assumes "2 \<le> length (tp_historyWindow (ap_trafficPrediction p))" "length (tp_historyWindow (ap_trafficPrediction p)) < 5"
  shows "Adaptive_analyzeTrafficPattern g dials clks ords p = Inl SliceBoundsOutOfRange"
  using assms by (simp add: Adaptive_analyzeTrafficPattern_def Predictor_GetTrendAnalysis_def Let_def)

text \<open>The confidence never exceeds one half, so the strategy is never adapted.\<close>

lemma strategy_never_adapted:
  assumes "Predictor_GetTrendAnalysis tp = Inr ta"
  shows "Adaptive_adaptLoadBalanceStrategy ta p = p"
proof -
  have five: "fl 5 = 5" "fl (1 / 2) = 1 / 2" using fl_int [of 5] by (simp, code_simp)
  have seven: "1 / 2 < fl (7 / 10)" using fl_bounds(2) [of "7 / 10"] by simp
  have conf: "ta_confidence ta = 0 \<or> ta_confidence ta = min 1 (fdiv (float64 5) 10)"
    using assms by (auto simp: Predictor_GetTrendAnalysis_def Let_def split: if_splits)
  have "min 1 (fdiv (float64 5) 10) = 1 / 2" using five by simp
  then have "\<not> ta_confidence ta > fl (7 / 10)" using conf seven by auto
  then show ?thesis by (simp add: Adaptive_adaptLoadBalanceStrategy_def)
qed

text \<open>The wait group never gets back to zero: \<open>Stop\<close> of a started pool does not return.\<close>

lemma stop_waits_for_ever:
  assumes "Adaptive_Start dials clks p = Inr (ls, p')" "ap_wg p = 0" "distinct ended"
  shows "0 < ap_wg (fold loop_ends ended p')"
proof -
  have keep: "ap_wg q' = ap_wg q" if "Adaptive_createConnection d k q = Inr (r, q')" for d k q r q'
    using that by (auto simp: Adaptive_createConnection_def create_insert_def Let_def split: if_splits)
  have loop: "create_each n dials clks q = Inr q' \<Longrightarrow> ap_wg q' = ap_wg q" for n q q'
    by (induction n arbitrary: q) (auto simp: and_then_eq_Inr_iff keep)
  have start: "ap_wg p' = 5"
    using assms(1,2) loop by (auto simp: Adaptive_Start_def and_then_eq_Inr_iff)
  have count: "ap_wg (fold loop_ends es q) = ap_wg q - int (length (filter (\<lambda>l. l \<noteq> WeightLoop) es))" for es q
    by (induction es arbitrary: q) (simp_all add: loop_ends_def)
  have "set (filter (\<lambda>l. l \<noteq> WeightLoop) ended) \<subseteq> {ScalingLoop, MonitoringLoop, CleanerLoop, TrafficLoop}"
    using pool_loop.exhaust by auto
  then have "card (set (filter (\<lambda>l. l \<noteq> WeightLoop) ended)) \<le> card {ScalingLoop, MonitoringLoop, CleanerLoop, TrafficLoop}"
    by (rule card_mono [rotated]) simp
  then have "length (filter (\<lambda>l. l \<noteq> WeightLoop) ended) \<le> 4" 
    using distinct_card [of "filter (\<lambda>l. l \<noteq> WeightLoop) ended"] assms(3) by simp
  then show ?thesis using start count [of ended p'] by simp
qed

text \<open>Before \<open>Start\<close> a pool has no context, and deriving one for a new connection panics.\<close>

lemma unstarted_pool_panics:
  assumes "0 < pf_MaxConnections c"
  shows "Adaptive_GetConnection tm now u i [] True clk (PoolConfig_Apply c NewAdaptivePool) = Inl InvalidArgument"
  using assms by (simp add: Adaptive_GetConnection_def Adaptive_getBestConnection_def available_conns_def range_pool_def
      Adaptive_createConnection_def create_full_def create_insert_def PoolConfig_Apply_def NewAdaptivePool_def)

text \<open>
  Two callers whose choices overlap: with one connection available both choose it, since the choice only reads,
  whatever their random numbers are.
\<close>

lemma overlapping_callers_share:
  assumes "available_conns tm ord p = [a]" "ap_loadBalancer p = Some alb"
  shows "Adaptive_selectConnectionByStrategy u i (available_conns tm ord p) p = Inr (Some a, p) \<and>
    Adaptive_selectConnectionByStrategy u' i' (available_conns tm ord p) p = Inr (Some a, p)"
  using assms by (simp add: Adaptive_selectConnectionByStrategy_def Alb_SelectConnection_def)

text \<open>
  A release does not ask who calls it: a second release by a former holder takes the mark off a connection that
  another caller holds by then.
\<close>

lemma release_by_anyone:
  "a < length (ap_heap p) \<Longrightarrow> \<not> pc_inUse (ap_heap (Adaptive_ReleaseConnection g now clk (Some a) p) ! a)"
  by (simp add: Adaptive_ReleaseConnection_def Adaptive_updateConnectionQuality_def on_heap_def Let_def)

end
