(* ===== verification/Pool_Manager.thy ===== *)
theory Pool_Manager
  imports Adaptive_Pool_Props
begin

text \<open>
  The connections callers use and the manager of the pools, \<open>client/internal/pool/connection.go\<close>. Pools are
  positions in a list of all pools ever made, since connections keep pointers to them; the manager maps a key,
  the transport and the target, to a position. The channel of configurations holds one element. What the socket
  answers is an argument. Logging and figures for display are left out.

  Lemmas: one pool per key, the counters of the traffic, which settings reach a pool.
\<close>

section \<open>Monitored connections\<close>

text \<open>\<open>err\<close> says whether the call gave an error, \<open>net\<close> whether it was one of the network (\<open>isNetworkError\<close>).\<close>

definition isNetworkError :: "bool \<Rightarrow> bool \<Rightarrow> bool \<Rightarrow> bool \<Rightarrow> bool" where
  "isNetworkError err netErr timeout temporary = (if \<not> err then False else netErr \<and> (timeout \<or> temporary))"

definition count_error :: "bool \<Rightarrow> bool \<Rightarrow> pooled_conn \<Rightarrow> pooled_conn" where
  "count_error err net c =
     (if err then c\<lparr> pc_errorCount := add64 (pc_errorCount c) 1,
                    pc_packetsLost := (if net then add64 (pc_packetsLost c) 1 else pc_packetsLost c) \<rparr> else c)"

definition Monitored_Read :: "nat \<Rightarrow> bool \<Rightarrow> bool \<Rightarrow> pooled_conn \<Rightarrow> pooled_conn" where
  "Monitored_Read n err net c =
     (let c = (if n > 0 then c\<lparr> pc_bytesIn := add64 (pc_bytesIn c) (int n), pc_packetsRecv := add64 (pc_packetsRecv c) 1 \<rparr> else c)
      in count_error err net c)"

definition Monitored_recordRTT :: "int \<Rightarrow> pooled_conn \<Rightarrow> pooled_conn" where
  "Monitored_recordRTT rtt c =
     (let samples = pc_rttSamples c @ [rtt] in
      c\<lparr> pc_rttSamples := (if length samples > 20 then take 19 (drop 1 samples @ [last samples]) else samples) \<rparr>)"

definition Monitored_Write :: "int \<Rightarrow> int \<Rightarrow> nat \<Rightarrow> bool \<Rightarrow> bool \<Rightarrow> pooled_conn \<Rightarrow> pooled_conn" where
  "Monitored_Write start end n err net c =
     (let rtt = wrap64 ((end - start) * 2);
          c = (if n > 0 then c\<lparr> pc_bytesOut := add64 (pc_bytesOut c) (int n), pc_packetsSent := add64 (pc_packetsSent c) 1 \<rparr> else c);
          c = (if err then count_error err net c else Monitored_recordRTT rtt c)
      in c\<lparr> pc_requestCount := add64 (pc_requestCount c) 1 \<rparr>)"

section \<open>The manager\<close>

record pool_manager =
  pom_pools :: "(string \<times> nat) list"
  pom_store :: "adaptive_pool list"
  pom_config :: pool_config
  pom_configWatcher :: "pool_config list"

definition NewPoolManager :: pool_manager where
  "NewPoolManager = \<lparr> pom_pools = [], pom_store = [], pom_config = DefaultPoolConfig, pom_configWatcher = [] \<rparr>"

definition New_pool_manager :: "pool_config \<Rightarrow> pool_manager" where
  "New_pool_manager config = NewPoolManager"

definition NewPoolManagerWithConfig :: "pool_config \<Rightarrow> pool_manager" where
  "NewPoolManagerWithConfig config =
     (let config = (if PoolConfig_Validate config \<noteq> None then DefaultPoolConfig else config)
      in \<lparr> pom_pools = [], pom_store = [], pom_config = config, pom_configWatcher = [] \<rparr>)"

definition pool_key :: "string \<Rightarrow> string \<Rightarrow> string" where
  "pool_key transportType targetAddr = transportType @ ''-'' @ targetAddr"

definition configured_pool :: "pool_config \<Rightarrow> adaptive_pool" where
  "configured_pool c =
     (PoolConfig_Apply c NewAdaptivePool)
       \<lparr> ap_strategy := ParseLoadBalanceStrategy (pf_LoadBalanceStrategy c), ap_preWarmingEnabled := pf_EnablePreWarming c,
         ap_preWarmingTargets := pf_PreWarmingTargets c \<rparr>"

definition PoolManager_GetOrCreatePool :: "string \<Rightarrow> string \<Rightarrow> pool_manager \<Rightarrow> nat \<times> pool_manager" where
  "PoolManager_GetOrCreatePool targetAddr transportType m =
     (case map_of (pom_pools m) (pool_key transportType targetAddr) of
        Some a \<Rightarrow> (a, m)
      | None \<Rightarrow> (length (pom_store m),
          m\<lparr> pom_store := pom_store m @ [configured_pool (pom_config m)],
             pom_pools := AList.update (pool_key transportType targetAddr) (length (pom_store m)) (pom_pools m) \<rparr>))"

text \<open>\<open>get\<close> is \<open>GetConnection\<close> of the pool with its arguments; the result is the pool and the connection in it.\<close>

definition PoolManager_GetConnection ::
    "(adaptive_pool \<Rightarrow> (nat option \<times> adaptive_pool) res) \<Rightarrow> string \<Rightarrow> string \<Rightarrow> pool_manager \<Rightarrow> ((nat \<times> nat) option \<times> pool_manager) res" where
  "PoolManager_GetConnection get targetAddr transportType m =
     (let (a, m) = PoolManager_GetOrCreatePool targetAddr transportType m
      in and_then (get (pom_store m ! a))
           (\<lambda>(r, p). Inr (map_option (\<lambda>c. (a, c)) r, m\<lparr> pom_store := (pom_store m)[a := p] \<rparr>)))"

text \<open>\<open>Close\<close> of a monitored connection releases it to its pool.\<close>

definition Monitored_Close :: "go_math \<Rightarrow> int \<Rightarrow> (nat \<Rightarrow> int) \<Rightarrow> nat \<times> nat \<Rightarrow> pool_manager \<Rightarrow> pool_manager" where
  "Monitored_Close g now clk mc m =
     m\<lparr> pom_store := (pom_store m)[fst mc := Adaptive_ReleaseConnection g now clk (Some (snd mc)) (pom_store m ! fst mc)] \<rparr>"

definition PoolManager_StopAll :: "(nat \<Rightarrow> string list) \<Rightarrow> pool_manager \<Rightarrow> pool_manager" where
  "PoolManager_StopAll ords m =
     m\<lparr> pom_store := fold (\<lambda>(_, a) st. st[a := Adaptive_Stop (ords a) (st ! a)]) (pom_pools m) (pom_store m), pom_pools := [] \<rparr>"

text \<open>The pools in the order of the range, with the dialling and the clock of each.\<close>

fun PoolManager_StartAll ::
    "(nat \<Rightarrow> nat \<Rightarrow> bool) \<Rightarrow> (nat \<Rightarrow> nat \<Rightarrow> nat \<Rightarrow> int) \<Rightarrow> nat list \<Rightarrow> pool_manager \<Rightarrow> pool_manager res" where
  "PoolManager_StartAll dials clks [] m = Inr m"
| "PoolManager_StartAll dials clks (a # ps) m =
     and_then (Adaptive_Start (dials a) (clks a) (pom_store m ! a))
       (\<lambda>(_, p). PoolManager_StartAll dials clks ps (m\<lparr> pom_store := (pom_store m)[a := p] \<rparr>))"

definition PoolManager_UpdateConfig :: "pool_config \<Rightarrow> pool_manager \<Rightarrow> (config_err option + unit) \<times> pool_manager" where
  "PoolManager_UpdateConfig config m =
     (case PoolConfig_Validate config of
        Some e \<Rightarrow> (Inl (Some e), m)
      | None \<Rightarrow> if length (pom_configWatcher m) < 1
                then (Inr (), m\<lparr> pom_configWatcher := pom_configWatcher m @ [config] \<rparr>) else (Inl None, m))"

text \<open>The second component tells whether the pool is to be warmed, by a goroutine of its own.\<close>

definition PoolManager_applyConfigToPool :: "pool_config \<Rightarrow> pool_config \<Rightarrow> adaptive_pool \<Rightarrow> adaptive_pool \<times> bool" where
  "PoolManager_applyConfigToPool oldConfig newConfig p =
     (let p = PoolConfig_Apply newConfig p;
          p = (if pf_LoadBalanceStrategy oldConfig \<noteq> pf_LoadBalanceStrategy newConfig
               then Adaptive_SetLoadBalanceStrategy (ParseLoadBalanceStrategy (pf_LoadBalanceStrategy newConfig)) p else p);
          p = p\<lparr> ap_preWarmingEnabled := pf_EnablePreWarming newConfig, ap_preWarmingTargets := pf_PreWarmingTargets newConfig \<rparr>
      in (p, pf_EnablePreWarming newConfig \<and> \<not> pf_EnablePreWarming oldConfig))"

definition PoolManager_applyNewConfig :: "pool_config \<Rightarrow> pool_manager \<Rightarrow> pool_manager" where
  "PoolManager_applyNewConfig newConfig m =
     m\<lparr> pom_config := newConfig,
        pom_store := fold (\<lambda>(_, a) st. st[a := fst (PoolManager_applyConfigToPool (pom_config m) newConfig (st ! a))])
                       (pom_pools m) (pom_store m) \<rparr>"

definition PoolManager_configWatchLoop_turn :: "pool_manager \<Rightarrow> pool_manager" where
  "PoolManager_configWatchLoop_turn m =
     (case pom_configWatcher m of
        [] \<Rightarrow> m
      | c # cs \<Rightarrow> PoolManager_applyNewConfig c (m\<lparr> pom_configWatcher := cs \<rparr>))"

section \<open>One pool per key\<close>

definition pools_ok :: "pool_manager \<Rightarrow> bool" where
  "pools_ok m \<longleftrightarrow> map_ok (pom_pools m) \<and> distinct (map snd (pom_pools m)) \<and> (\<forall>a\<in>snd ` set (pom_pools m). a < length (pom_store m))"

lemma length_fold_update: "length (fold (\<lambda>(_, a) st. st[a := f a st]) ps st) = length st"
  by (induction ps arbitrary: st) (auto simp: split_beta)

lemma pools_ok_create:
  assumes "pools_ok m" "PoolManager_GetOrCreatePool targetAddr transportType m = (a, m')"
  shows "pools_ok m'" "map_of (pom_pools m') (pool_key transportType targetAddr) = Some a"
proof -
  have "length (pom_store m) \<notin> snd ` set (pom_pools m)" using assms(1) by (auto simp: pools_ok_def)
  from distinct_vals_update [OF _ this, of "pool_key transportType targetAddr"]
  show "pools_ok m'" using assms set_alist_update [of "pool_key transportType targetAddr" "length (pom_store m)" "pom_pools m"]
    by (fastforce simp: PoolManager_GetOrCreatePool_def pools_ok_def split: option.splits)
  show "map_of (pom_pools m') (pool_key transportType targetAddr) = Some a"
    using assms(2) by (auto simp: PoolManager_GetOrCreatePool_def split: option.splits)
qed

inductive pools_run :: "pool_manager \<Rightarrow> bool" where
  mr_new: "pools_run (NewPoolManagerWithConfig c)"
| mr_create: "pools_run m \<Longrightarrow> PoolManager_GetOrCreatePool targetAddr transportType m = (a, m') \<Longrightarrow> pools_run m'"
| mr_pool: "pools_run m \<Longrightarrow> pools_run (m\<lparr> pom_store := (pom_store m)[a := p] \<rparr>)"
| mr_update: "pools_run m \<Longrightarrow> PoolManager_UpdateConfig c m = (r, m') \<Longrightarrow> pools_run m'"
| mr_watch: "pools_run m \<Longrightarrow> pools_run (PoolManager_configWatchLoop_turn m)"
| mr_start: "pools_run m \<Longrightarrow> PoolManager_StartAll dials clks ps m = Inr m' \<Longrightarrow> pools_run m'"
| mr_stop: "pools_run m \<Longrightarrow> pools_run (PoolManager_StopAll ords m)"

lemma start_all_pools:
  "PoolManager_StartAll dials clks ps m = Inr m' \<Longrightarrow>
     pom_pools m' = pom_pools m \<and> length (pom_store m') = length (pom_store m) \<and> pom_configWatcher m' = pom_configWatcher m"
proof (induction ps arbitrary: m)
  case (Cons a ps)
  from Cons.prems obtain l p where
      "PoolManager_StartAll dials clks ps (m\<lparr> pom_store := (pom_store m)[a := p] \<rparr>) = Inr m'"
    by (auto simp: and_then_eq_Inr_iff)
  from Cons.IH [OF this] show ?case by simp
qed simp

lemma pools_run_ok: "pools_run m \<Longrightarrow> pools_ok m \<and> length (pom_configWatcher m) \<le> 1"
proof (induction rule: pools_run.induct)
  case (mr_new c)
  show ?case by (simp add: pools_ok_def NewPoolManagerWithConfig_def Let_def)
next
  case (mr_create m targetAddr transportType a m')
  have "pom_configWatcher m' = pom_configWatcher m"
    using mr_create.hyps(2) by (auto simp: PoolManager_GetOrCreatePool_def split: option.splits)
  then show ?case using pools_ok_create(1) [OF _ mr_create.hyps(2)] mr_create.IH by simp
next
  case (mr_pool m a p)
  then show ?case by (simp add: pools_ok_def)
next
  case (mr_update m c r m')
  then have "pom_pools m' = pom_pools m" "pom_store m' = pom_store m" "length (pom_configWatcher m') \<le> 1"
    by (auto simp: PoolManager_UpdateConfig_def split: option.splits if_splits)
  then show ?case using mr_update.IH by (simp add: pools_ok_def)
next
  case (mr_watch m)
  then show ?case
    by (cases "pom_configWatcher m")
      (simp_all add: PoolManager_configWatchLoop_turn_def PoolManager_applyNewConfig_def pools_ok_def length_fold_update)
next
  case (mr_start m dials clks ps m')
  then show ?case using start_all_pools [OF mr_start.hyps(2)] by (simp add: pools_ok_def)
next
  case (mr_stop m ords)
  then show ?case by (simp add: PoolManager_StopAll_def pools_ok_def)
qed

text \<open>
  Two requests get the same pool exactly when they name the same transport and target (as long as the
  transport's name has no dash), at any time in a run of the manager.
\<close>

theorem one_pool_per_target:
  assumes "pools_run m" "CHR ''-'' \<notin> set t1" "CHR ''-'' \<notin> set t2"
    and "PoolManager_GetOrCreatePool x1 t1 m = (a1, m1)" "PoolManager_GetOrCreatePool x2 t2 m1 = (a2, m2)"
  shows "a1 = a2 \<longleftrightarrow> x1 = x2 \<and> t1 = t2"
proof -
  have ok: "pools_ok m1" using pools_ok_create(1) [OF _ assms(4)] pools_run_ok [OF assms(1)] by blast
  note ok2 = pools_ok_create [OF ok assms(5)]
  have old: "map_of (pom_pools m2) (pool_key t1 x1) = Some a1"
    using assms(5) pools_ok_create(2) [OF _ assms(4)] pools_run_ok [OF assms(1)]
    by (auto simp: PoolManager_GetOrCreatePool_def split: option.splits)
  have key: "pool_key t1 x1 = pool_key t2 x2 \<longleftrightarrow> x1 = x2 \<and> t1 = t2"
  proof
    assume "pool_key t1 x1 = pool_key t2 x2"
    then have "rev x1 @ CHR ''-'' # rev t1 = rev x2 @ CHR ''-'' # rev t2" unfolding pool_key_def by (metis append.assoc append_Cons append_Nil rev_append rev_singleton_conv)
    moreover have "takeWhile (\<lambda>c. c \<noteq> CHR ''-'') (t1 @ CHR ''-'' # x1) = t1" "takeWhile (\<lambda>c. c \<noteq> CHR ''-'') (t2 @ CHR ''-'' # x2) = t2"
      using assms(2,3) by (subst takeWhile_append2; auto)+
    ultimately have "t1 = t2" using \<open>pool_key t1 x1 = pool_key t2 x2\<close> by (simp add: pool_key_def)
    then show "x1 = x2 \<and> t1 = t2" using \<open>pool_key t1 x1 = pool_key t2 x2\<close> by (simp add: pool_key_def)
  qed simp
  have "a1 = a2 \<longleftrightarrow> pool_key t1 x1 = pool_key t2 x2"
  proof
    assume "a1 = a2"
    moreover have "(pool_key t1 x1, a1) \<in> set (pom_pools m2)" "(pool_key t2 x2, a2) \<in> set (pom_pools m2)"
      using map_of_SomeD [OF old] map_of_SomeD [OF ok2(2)] by blast+
    ultimately show "pool_key t1 x1 = pool_key t2 x2"
      using ok2(1) unfolding pools_ok_def by (metis distinct_map inj_onD prod.inject snd_conv)
  qed (use old ok2(2) in simp)
  then show ?thesis using key by simp
qed

theorem one_pool_per_target_witness:
  "fst (PoolManager_GetOrCreatePool ''h:1'' ''tcp'' NewPoolManager) \<noteq>
   fst (PoolManager_GetOrCreatePool ''h:1'' ''tls'' (snd (PoolManager_GetOrCreatePool ''h:1'' ''tcp'' NewPoolManager)))"
proof -
  have "pools_run (NewPoolManagerWithConfig DefaultPoolConfig)" by (rule mr_new)
  moreover have "NewPoolManagerWithConfig DefaultPoolConfig = NewPoolManager"
    by (simp add: NewPoolManagerWithConfig_def NewPoolManager_def Let_def)
  ultimately show ?thesis
    using one_pool_per_target [of NewPoolManager "''tcp''" "''tls''" "''h:1''" _ _ "''h:1''"] by (auto simp: prod_eq_iff)
qed

section \<open>Settings\<close>

text \<open>A new configuration reaches every pool of the manager.\<close>

lemma new_config_reaches_pools:
  assumes "pools_ok m" "map_of (pom_pools m) k = Some a"
  shows "pom_store (PoolManager_applyNewConfig c m) ! a = fst (PoolManager_applyConfigToPool (pom_config m) c (pom_store m ! a))"
proof -
  have fold: "fold (\<lambda>(_, b) st. st[b := f (st ! b)]) ps st ! a = (if a \<in> snd ` set ps then f (st ! a) else st ! a)"
    if "distinct (map snd ps)" "\<forall>b\<in>snd ` set ps. b < length st" for ps and st :: "adaptive_pool list" and f
    using that by (induction ps arbitrary: st) (auto simp: nth_list_update split_beta)
  moreover have "a \<in> snd ` set (pom_pools m)" using assms(2) by (force dest: map_of_SomeD)
  ultimately show ?thesis
    using fold [of "pom_pools m" "pom_store m" "\<lambda>p. fst (PoolManager_applyConfigToPool (pom_config m) c p)"] assms(1)
    by (simp add: PoolManager_applyNewConfig_def pools_ok_def)
qed

text \<open>
  The strategy of the first configuration does not reach the balancer of a pool, which does the choosing: it
  stays with the default.
\<close>

lemma configured_strategy_ignored:
  "\<exists>alb. ap_loadBalancer (configured_pool c) = Some alb \<and> al_strategy alb = StrategyQualityBased"
  by (simp add: configured_pool_def PoolConfig_Apply_def NewAdaptivePool_def NewAdvancedLoadBalancer_def)

text \<open>A full window of 20 samples loses the new one as well as the oldest.\<close>

lemma newest_sample_lost:
  assumes "length (pc_rttSamples c) = 20"
  shows "pc_rttSamples (Monitored_recordRTT rtt c) = tl (pc_rttSamples c)"
proof -
  obtain x xs where "pc_rttSamples c = x # xs" "length xs = 19" using assms by (cases "pc_rttSamples c") auto
  then show ?thesis by (simp add: Monitored_recordRTT_def)
qed

end
