(* ===== verification/Heartbeat_Stats.thy ===== *)
theory Heartbeat_Stats
  imports Go_Float Go_Hex
begin

text \<open>
  Messages, measurements and their evaluation in the client's heartbeat, \<open>client/internal/heartbeat/message.go\<close> and
  \<open>statistics.go\<close>. Durations are nanoseconds. Random bytes, the clock and the square root are arguments. The JSON
  form of a message is not modelled: a message arrives as its fields, with the metadata the library decoded.

  Lemmas: the loss statistics against their definition by runs of lost packets, the order of the round-trip
  figures, and the range of the scores.
\<close>

section \<open>Messages\<close>

datatype message_type = MessageTypePing | MessageTypePong | MessageTypeProbe | MessageTypeProbeAck | MessageTypeOther int

fun MessageType_String :: "message_type \<Rightarrow> string" where
  "MessageType_String MessageTypePing = ''PING''"
| "MessageType_String MessageTypePong = ''PONG''"
| "MessageType_String MessageTypeProbe = ''PROBE''"
| "MessageType_String MessageTypeProbeAck = ''PROBE_ACK''"
| "MessageType_String (MessageTypeOther _) = ''UNKNOWN''"

datatype meta_value = MetaInt int | MetaString string | MetaOther

record hb_message =
  hm_Type :: message_type
  hm_ID :: string
  hm_Timestamp :: int
  hm_Sequence :: u64
  hm_NodeID :: string
  hm_Payload :: "byte list"
  hm_Metadata :: "(string \<times> meta_value) list"

definition generateMessageID :: "byte list \<Rightarrow> string" where
  "generateMessageID bytes = hex_EncodeToString bytes"

definition NewMessage :: "byte list \<Rightarrow> int \<Rightarrow> message_type \<Rightarrow> string \<Rightarrow> u64 \<Rightarrow> hb_message" where
  "NewMessage bytes now msgType nodeID sequence =
     \<lparr> hm_Type = msgType, hm_ID = generateMessageID bytes, hm_Timestamp = now, hm_Sequence = sequence, hm_NodeID = nodeID,
       hm_Payload = [], hm_Metadata = [] \<rparr>"

definition set_meta :: "string \<Rightarrow> meta_value \<Rightarrow> hb_message \<Rightarrow> hb_message" where
  "set_meta k v msg = msg\<lparr> hm_Metadata := AList.update k v (hm_Metadata msg) \<rparr>"

definition NewPingMessage :: "byte list \<Rightarrow> int \<Rightarrow> string \<Rightarrow> u64 \<Rightarrow> hb_message" where
  "NewPingMessage bytes now nodeID sequence =
     set_meta ''probe_size'' (MetaInt 0) (NewMessage bytes now MessageTypePing nodeID sequence)"

definition NewPongMessage :: "byte list \<Rightarrow> int \<Rightarrow> string \<Rightarrow> hb_message \<Rightarrow> hb_message" where
  "NewPongMessage bytes now nodeID ping =
     set_meta ''ping_timestamp'' (MetaInt (hm_Timestamp ping))
       (set_meta ''ping_id'' (MetaString (hm_ID ping)) (NewMessage bytes now MessageTypePong nodeID (hm_Sequence ping)))"

text \<open>\<open>payload\<close> is what the random source gives for the wanted size.\<close>

definition NewProbeMessage :: "byte list \<Rightarrow> int \<Rightarrow> string \<Rightarrow> u64 \<Rightarrow> int \<Rightarrow> (nat \<Rightarrow> byte list) \<Rightarrow> hb_message" where
  "NewProbeMessage bytes now nodeID sequence probeSize payload =
     (let msg = NewMessage bytes now MessageTypeProbe nodeID sequence;
          msg = (if probeSize > 0 then msg\<lparr> hm_Payload := payload (nat probeSize) \<rparr> else msg)
      in set_meta ''probe_size'' (MetaInt probeSize) msg)"

definition NewProbeAckMessage :: "byte list \<Rightarrow> int \<Rightarrow> string \<Rightarrow> hb_message \<Rightarrow> hb_message" where
  "NewProbeAckMessage bytes now nodeID probe =
     set_meta ''probe_size'' (MetaInt (int (length (hm_Payload probe))))
       (set_meta ''probe_timestamp'' (MetaInt (hm_Timestamp probe))
         (set_meta ''probe_id'' (MetaString (hm_ID probe)) (NewMessage bytes now MessageTypeProbeAck nodeID (hm_Sequence probe))))"

definition Message_GetAge :: "int \<Rightarrow> hb_message \<Rightarrow> int" where
  "Message_GetAge now msg = sub64 now (hm_Timestamp msg)"

definition Message_IsExpired :: "int \<Rightarrow> int \<Rightarrow> hb_message \<Rightarrow> bool" where
  "Message_IsExpired now timeout msg \<longleftrightarrow> Message_GetAge now msg > timeout"

record rtt_measurement =
  rm_PingID :: string
  rm_Sequence :: u64
  rm_RTT :: int
  rm_Timestamp :: int
  rm_ProbeSize :: int
  rm_Success :: bool

definition NewRTTMeasurement :: "int \<Rightarrow> string \<Rightarrow> u64 \<Rightarrow> int \<Rightarrow> int \<Rightarrow> bool \<Rightarrow> rtt_measurement" where
  "NewRTTMeasurement now pingID sequence rtt probeSize success =
     \<lparr> rm_PingID = pingID, rm_Sequence = sequence, rm_RTT = rtt, rm_Timestamp = now, rm_ProbeSize = probeSize, rm_Success = success \<rparr>"

record loss_measurement =
  lm_WindowStart :: int
  lm_WindowEnd :: int
  lm_SentPackets :: int
  lm_ReceivedPackets :: int
  lm_LossRate :: rat

definition NewPacketLossMeasurement :: "int \<Rightarrow> int \<Rightarrow> int \<Rightarrow> int \<Rightarrow> loss_measurement" where
  "NewPacketLossMeasurement start end sent received =
     \<lparr> lm_WindowStart = start, lm_WindowEnd = end, lm_SentPackets = sent, lm_ReceivedPackets = received,
       lm_LossRate = (if sent > 0 then fmul (fdiv (float64 (sub64 sent received)) (float64 sent)) 100 else 0) \<rparr>"

section \<open>Quality and health\<close>

datatype quality_grade = QualityGradeExcellent | QualityGradeGood | QualityGradeFair | QualityGradePoor | QualityGradeBad

fun QualityGrade_String :: "quality_grade \<Rightarrow> string" where
  "QualityGrade_String QualityGradeExcellent = ''EXCELLENT''"
| "QualityGrade_String QualityGradeGood = ''GOOD''"
| "QualityGrade_String QualityGradeFair = ''FAIR''"
| "QualityGrade_String QualityGradePoor = ''POOR''"
| "QualityGrade_String QualityGradeBad = ''BAD''"

definition GetGradeFromScore :: "rat \<Rightarrow> quality_grade" where
  "GetGradeFromScore score =
     (if score \<ge> 90 then QualityGradeExcellent
      else if score \<ge> 75 then QualityGradeGood
      else if score \<ge> 60 then QualityGradeFair
      else if score \<ge> 40 then QualityGradePoor
      else QualityGradeBad)"

record rtt_statistics =
  rs_Min :: int
  rs_Max :: int
  rs_Average :: int
  rs_Median :: int
  rs_StdDev :: int
  rs_Count :: int

record loss_statistics =
  ls_TotalSent :: int
  ls_TotalReceived :: int
  ls_TotalLost :: int
  ls_LossRate :: rat
  ls_BurstLoss :: int

record jitter_statistics =
  js_Min :: int
  js_Max :: int
  js_Average :: int
  js_StdDev :: int
  js_Count :: int

record network_quality =
  nq_Score :: rat
  nq_Grade :: quality_grade
  nq_RTTStats :: rtt_statistics
  nq_LossStats :: loss_statistics
  nq_JitterStats :: jitter_statistics
  nq_Timestamp :: int
  nq_SamplePeriod :: int

text \<open>The texts of issues and recommendations are named, with the figures they show.\<close>

datatype health_issue = IssueTimeout | IssueFails int | IssueLoss rat | IssueDelay int | IssueJitter int

datatype health_advice = CheckConnection | ConsiderReconnect | CheckStability | OptimizePath | CheckQuality

record health_status =
  hs_IsHealthy :: bool
  hs_HealthScore :: rat
  hs_LastHeartbeat :: int
  hs_ConsecutiveFails :: int
  hs_NetworkQuality :: "network_quality option"
  hs_Issues :: "health_issue list"
  hs_Recommendations :: "health_advice list"

definition NewHealthStatus :: "int \<Rightarrow> health_status" where
  "NewHealthStatus now =
     \<lparr> hs_IsHealthy = True, hs_HealthScore = 100, hs_LastHeartbeat = now, hs_ConsecutiveFails = 0, hs_NetworkQuality = None,
       hs_Issues = [], hs_Recommendations = [] \<rparr>"

definition HealthStatus_AddIssue :: "health_issue \<Rightarrow> health_status \<Rightarrow> health_status" where
  "HealthStatus_AddIssue issue s = s\<lparr> hs_Issues := hs_Issues s @ [issue] \<rparr>"

definition HealthStatus_AddRecommendation :: "health_advice \<Rightarrow> health_status \<Rightarrow> health_status" where
  "HealthStatus_AddRecommendation advice s = s\<lparr> hs_Recommendations := hs_Recommendations s @ [advice] \<rparr>"

definition HealthStatus_UpdateHealthScore :: "rat \<Rightarrow> health_status \<Rightarrow> health_status" where
  "HealthStatus_UpdateHealthScore score s = s\<lparr> hs_HealthScore := score, hs_IsHealthy := (score \<ge> 60) \<rparr>"

definition HealthStatus_GetHealthGrade :: "health_status \<Rightarrow> quality_grade" where
  "HealthStatus_GetHealthGrade s = GetGradeFromScore (hs_HealthScore s)"

section \<open>The window of measurements\<close>

record stats_window =
  sw_measurements :: "rtt_measurement list"
  sw_maxSize :: int

definition NewStatisticsWindow :: "int \<Rightarrow> stats_window" where
  "NewStatisticsWindow maxSize = \<lparr> sw_measurements = [], sw_maxSize = maxSize \<rparr>"

definition StatisticsWindow_AddMeasurement :: "rtt_measurement \<Rightarrow> stats_window \<Rightarrow> stats_window res" where
  "StatisticsWindow_AddMeasurement m sw =
     (if int (length (sw_measurements sw)) \<ge> sw_maxSize sw
      then (case sw_measurements sw of
              [] \<Rightarrow> Inl SliceBoundsOutOfRange
            | _ # ms \<Rightarrow> Inr (sw\<lparr> sw_measurements := ms @ [m] \<rparr>))
      else Inr (sw\<lparr> sw_measurements := sw_measurements sw @ [m] \<rparr>))"

definition StatisticsWindow_Clear :: "stats_window \<Rightarrow> stats_window" where
  "StatisticsWindow_Clear sw = sw\<lparr> sw_measurements := [] \<rparr>"

definition StatisticsWindow_GetSize :: "stats_window \<Rightarrow> int" where
  "StatisticsWindow_GetSize sw = int (length (sw_measurements sw))"

definition average64 :: "int list \<Rightarrow> int" where
  "average64 xs = wrap64 (sum64 xs sdiv int (length xs))"

definition deviation64 :: "go_math \<Rightarrow> int list \<Rightarrow> int" where
  "deviation64 g xs =
     (let variance = fold (\<lambda>x v. fadd v (fmul (float64 (sub64 x (average64 xs))) (float64 (sub64 x (average64 xs))))) xs 0
      in to_int64 (gm_oor g) (gm_Sqrt g (fdiv variance (float64 (int (length xs))))))"

definition median64 :: "int list \<Rightarrow> int" where
  "median64 xs =
     (let n = length xs in
      if n mod 2 = 0 then wrap64 (add64 (xs ! (n div 2 - 1)) (xs ! (n div 2)) sdiv 2) else xs ! (n div 2))"

definition empty_rtt :: rtt_statistics where
  "empty_rtt = \<lparr> rs_Min = 0, rs_Max = 0, rs_Average = 0, rs_Median = 0, rs_StdDev = 0, rs_Count = 0 \<rparr>"

definition StatisticsWindow_GetRTTStatistics :: "go_math \<Rightarrow> stats_window \<Rightarrow> rtt_statistics" where
  "StatisticsWindow_GetRTTStatistics g sw =
     (if sw_measurements sw = [] then empty_rtt
      else (let rtts = map rm_RTT (filter rm_Success (sw_measurements sw)) in
            if rtts = [] then empty_rtt
            else (let rtts = sort rtts
                  in \<lparr> rs_Min = rtts ! 0, rs_Max = rtts ! (length rtts - 1), rs_Average = average64 rtts,
                       rs_Median = median64 rtts, rs_StdDev = deviation64 g rtts, rs_Count = int (length rtts) \<rparr>)))"

text \<open>The differences of successive answered packets; \<open>last\<close> is the one before, if there is one.\<close>

fun jitter_loop :: "int option \<Rightarrow> rtt_measurement list \<Rightarrow> int list" where
  "jitter_loop prev [] = []"
| "jitter_loop prev (m # ms) =
     (if rm_Success m
      then (case prev of
              None \<Rightarrow> jitter_loop (Some (rm_RTT m)) ms
            | Some r \<Rightarrow>
                (let j = sub64 (rm_RTT m) r; j = (if j < 0 then wrap64 (- j) else j)
                 in j # jitter_loop (Some (rm_RTT m)) ms))
      else jitter_loop prev ms)"

definition empty_jitter :: jitter_statistics where
  "empty_jitter = \<lparr> js_Min = 0, js_Max = 0, js_Average = 0, js_StdDev = 0, js_Count = 0 \<rparr>"

definition StatisticsWindow_GetJitterStatistics :: "go_math \<Rightarrow> stats_window \<Rightarrow> jitter_statistics" where
  "StatisticsWindow_GetJitterStatistics g sw =
     (if length (sw_measurements sw) < 2 then empty_jitter
      else (let jitters = jitter_loop None (sw_measurements sw) in
            if jitters = [] then empty_jitter
            else (let jitters = sort jitters
                  in \<lparr> js_Min = jitters ! 0, js_Max = jitters ! (length jitters - 1), js_Average = average64 jitters,
                       js_StdDev = deviation64 g jitters, js_Count = int (length jitters) \<rparr>)))"

text \<open>The loop carries the number received, the longest burst so far, and the burst at hand.\<close>

definition loss_step :: "rtt_measurement \<Rightarrow> int \<times> int \<times> int \<Rightarrow> int \<times> int \<times> int" where
  "loss_step m st =
     (case st of (received, maxBurst, current) \<Rightarrow>
        if rm_Success m then (received + 1, (if current > maxBurst then current else maxBurst), 0)
        else (received, maxBurst, current + 1))"

definition StatisticsWindow_GetPacketLossStatistics :: "stats_window \<Rightarrow> loss_statistics" where
  "StatisticsWindow_GetPacketLossStatistics sw =
     (if sw_measurements sw = []
      then \<lparr> ls_TotalSent = 0, ls_TotalReceived = 0, ls_TotalLost = 0, ls_LossRate = 0, ls_BurstLoss = 0 \<rparr>
      else (let sent = int (length (sw_measurements sw));
                (received, maxBurst, current) = fold loss_step (sw_measurements sw) (0, 0, 0);
                maxBurst = (if current > maxBurst then current else maxBurst);
                lost = sent - received
            in \<lparr> ls_TotalSent = sent, ls_TotalReceived = received, ls_TotalLost = lost,
                 ls_LossRate = (if sent > 0 then fmul (fdiv (float64 lost) (float64 sent)) 100 else 0), ls_BurstLoss = maxBurst \<rparr>))"

section \<open>Scores\<close>

definition clamp :: "rat \<Rightarrow> rat \<Rightarrow> rat" where
  "clamp hi s = max 0 (min hi s)"

definition line :: "rat \<Rightarrow> rat \<Rightarrow> rat \<Rightarrow> rat \<Rightarrow> rat \<Rightarrow> rat" where
  "line base hi width gain x = fadd base (fmul (fdiv (fsub hi x) width) gain)"

definition Quality_calculateRTTScore :: "rtt_statistics \<Rightarrow> rat" where
  "Quality_calculateRTTScore stats =
     (if rs_Count stats = 0 then 0
      else (let x = fdiv (float64 (rs_Average stats)) (10 ^ 6);
                score = (if x < 20 then 40
                         else if x < 50 then line 35 50 30 5 x
                         else if x < 100 then line 25 100 50 10 x
                         else if x < 200 then line 15 200 100 10 x
                         else if x < 500 then line 5 500 300 10 x
                         else max 0 (fsub 5 (fdiv x 1000)))
            in clamp 40 score))"

definition Quality_calculateLossScore :: "loss_statistics \<Rightarrow> rat" where
  "Quality_calculateLossScore stats =
     (if ls_TotalSent stats = 0 then 35
      else (let x = ls_LossRate stats;
                score = (if x = 0 then 35
                         else if x < 1 then line 30 1 1 5 x
                         else if x < 3 then line 20 3 2 10 x
                         else if x < 5 then line 10 5 2 10 x
                         else if x < 10 then line 5 10 5 5 x
                         else max 0 (fsub 5 (fdiv x 10)));
                score = (if ls_BurstLoss stats > 3 then fmul score (fl (8 / 10)) else score)
            in clamp 35 score))"

definition Quality_calculateJitterScore :: "jitter_statistics \<Rightarrow> rat" where
  "Quality_calculateJitterScore stats =
     (if js_Count stats = 0 then 25
      else (let x = fdiv (float64 (js_Average stats)) (10 ^ 6);
                score = (if x < 5 then 25
                         else if x < 10 then line 20 10 5 5 x
                         else if x < 20 then line 15 20 10 5 x
                         else if x < 50 then line 10 50 30 5 x
                         else if x < 100 then line 5 100 50 5 x
                         else max 0 (fsub 5 (fdiv x 100)))
            in clamp 25 score))"

definition Quality_CalculateNetworkQuality ::
    "int \<Rightarrow> rtt_statistics \<Rightarrow> loss_statistics \<Rightarrow> jitter_statistics \<Rightarrow> int \<Rightarrow> network_quality" where
  "Quality_CalculateNetworkQuality now rtt loss jitter period =
     (if rs_Count rtt = 0
      then \<lparr> nq_Score = 50, nq_Grade = QualityGradeFair, nq_RTTStats = rtt, nq_LossStats = loss, nq_JitterStats = jitter,
             nq_Timestamp = now, nq_SamplePeriod = period \<rparr>
      else (let score = fadd (fadd (Quality_calculateRTTScore rtt) (Quality_calculateLossScore loss)) (Quality_calculateJitterScore jitter);
                score = (if score > 100 then 100 else score);
                score = (if score < 0 then 0 else score)
            in \<lparr> nq_Score = score, nq_Grade = GetGradeFromScore score, nq_RTTStats = rtt, nq_LossStats = loss,
                 nq_JitterStats = jitter, nq_Timestamp = now, nq_SamplePeriod = period \<rparr>))"

definition Health_EvaluateHealth :: "int \<Rightarrow> int \<Rightarrow> network_quality \<Rightarrow> int \<Rightarrow> int \<Rightarrow> int \<Rightarrow> health_status" where
  "Health_EvaluateHealth now0 now quality lastHeartbeat fails interval =
     (let s = (NewHealthStatus now0)\<lparr> hs_NetworkQuality := Some quality, hs_LastHeartbeat := lastHeartbeat, hs_ConsecutiveFails := fails \<rparr>;
          score = nq_Score quality;
          late = now - lastHeartbeat > wrap64 (interval * 3);
          score = (if late then fmul score (1 / 2) else score);
          s = (if late then HealthStatus_AddRecommendation CheckConnection (HealthStatus_AddIssue IssueTimeout s) else s);
          score = (if fails > 0 then fmul score (fsub 1 (min (fl (8 / 10)) (fmul (float64 fails) (fl (1 / 10))))) else score);
          s = (if fails > 0 then HealthStatus_AddIssue (IssueFails fails) s else s);
          s = (if fails > 0 \<and> fails \<ge> 5 then HealthStatus_AddRecommendation ConsiderReconnect s else s);
          loss = ls_LossRate (nq_LossStats quality); rtt = rs_Average (nq_RTTStats quality); jitter = js_Average (nq_JitterStats quality);
          s = (if loss > 5 then HealthStatus_AddRecommendation CheckStability (HealthStatus_AddIssue (IssueLoss loss) s) else s);
          s = (if rtt > 200 * 10 ^ 6 then HealthStatus_AddRecommendation OptimizePath (HealthStatus_AddIssue (IssueDelay rtt) s) else s);
          s = (if jitter > 50 * 10 ^ 6 then HealthStatus_AddRecommendation CheckQuality (HealthStatus_AddIssue (IssueJitter jitter) s) else s)
      in HealthStatus_UpdateHealthScore score s)"

section \<open>The loss statistics\<close>

definition lost :: "rtt_measurement list \<Rightarrow> bool" where
  "lost ys \<longleftrightarrow> (\<forall>m\<in>set ys. \<not> rm_Success m)"

lemma lost_simps [simp]: "lost []" "lost (ys @ zs) \<longleftrightarrow> lost ys \<and> lost zs" "lost [m] \<longleftrightarrow> \<not> rm_Success m"
  by (auto simp: lost_def)

text \<open>What the loop knows of the packets it has seen: the burst at the end and the longest burst.\<close>

definition loss_known :: "rtt_measurement list \<Rightarrow> int \<times> int \<times> int \<Rightarrow> bool" where
  "loss_known ms st \<longleftrightarrow> (case st of (received, maxBurst, current) \<Rightarrow>
     received = int (length (filter rm_Success ms)) \<and> 0 \<le> maxBurst \<and> 0 \<le> current \<and>
     (\<exists>xs ys. ms = xs @ ys \<and> lost ys \<and> int (length ys) = current) \<and>
     (\<forall>xs ys. ms = xs @ ys \<and> lost ys \<longrightarrow> int (length ys) \<le> current) \<and>
     (\<exists>xs ys zs. ms = xs @ ys @ zs \<and> lost ys \<and> int (length ys) = max maxBurst current) \<and>
     (\<forall>xs ys zs. ms = xs @ ys @ zs \<and> lost ys \<longrightarrow> int (length ys) \<le> max maxBurst current))"

lemma loss_knownI:
  assumes "r = int (length (filter rm_Success ms))" "0 \<le> b" "0 \<le> c"
    and "\<exists>xs ys. ms = xs @ ys \<and> lost ys \<and> int (length ys) = c"
    and "\<And>xs ys. ms = xs @ ys \<Longrightarrow> lost ys \<Longrightarrow> int (length ys) \<le> c"
    and "\<exists>xs ys zs. ms = xs @ ys @ zs \<and> lost ys \<and> int (length ys) = max b c"
    and "\<And>xs ys zs. ms = xs @ ys @ zs \<Longrightarrow> lost ys \<Longrightarrow> int (length ys) \<le> max b c"
  shows "loss_known ms (r, b, c)"
  unfolding loss_known_def prod.case using assms by blast

lemma snoc_split: "ms @ [m] = xs @ ys \<longleftrightarrow> (ys = [] \<and> xs = ms @ [m]) \<or> (\<exists>ys'. ys = ys' @ [m] \<and> ms = xs @ ys')"
  by (cases ys rule: rev_cases) auto

lemma loss_known_step: "loss_known ms st \<Longrightarrow> loss_known (ms @ [m]) (loss_step m st)"
proof -
  assume known: "loss_known ms st"
  obtain r b c where st: "st = (r, b, c)" by (cases st)
  have suf: "\<exists>xs ys. ms = xs @ ys \<and> lost ys \<and> int (length ys) = c" "\<And>xs ys. ms = xs @ ys \<Longrightarrow> lost ys \<Longrightarrow> int (length ys) \<le> c"
    and seg: "\<exists>xs ys zs. ms = xs @ ys @ zs \<and> lost ys \<and> int (length ys) = max b c"
      "\<And>xs ys zs. ms = xs @ ys @ zs \<Longrightarrow> lost ys \<Longrightarrow> int (length ys) \<le> max b c"
    and nn: "0 \<le> b" "0 \<le> c" "r = int (length (filter rm_Success ms))"
    using known unfolding loss_known_def st prod.case by blast+
  have inner: "int (length ys) \<le> max b c" if "ms @ [m] = xs @ ys @ zs" "zs \<noteq> []" "lost ys" for xs ys zs
    using that seg(2) by (cases zs rule: rev_cases) auto
  show ?thesis
  proof (cases "rm_Success m")
    case True
    have segs: "int (length ys) \<le> max b c" if "ms @ [m] = xs @ ys @ zs" "lost ys" for xs ys zs
    proof (cases "zs = []")
      case True
      then have "ys = []" using that \<open>rm_Success m\<close> snoc_split [of ms m xs ys] by auto
      then show ?thesis using nn by simp
    qed (use inner that in blast)
    have sufs: "int (length ys) \<le> 0" if "ms @ [m] = xs @ ys" "lost ys" for xs ys
      using that True snoc_split [of ms m xs ys] by auto
    obtain xs ys zs where "ms = xs @ ys @ zs" "lost ys" "int (length ys) = max b c" using seg(1) by blast
    then have one: "\<exists>xs ys zs. ms @ [m] = xs @ ys @ zs \<and> lost ys \<and> int (length ys) = max b c"
      by (intro exI [of _ xs] exI [of _ ys] exI [of _ "zs @ [m]"]) simp
    have "loss_known (ms @ [m]) (r + 1, max b c, 0)"
    proof (rule loss_knownI)
      show "\<exists>xs ys. ms @ [m] = xs @ ys \<and> lost ys \<and> int (length ys) = 0" by (intro exI [of _ "ms @ [m]"] exI [of _ "[]"]) simp
    qed (use True nn segs sufs one in \<open>simp_all add: max.absorb1\<close>)
    moreover have "(if c > b then c else b) = max b c" by (simp add: max_def)
    ultimately show ?thesis using True by (simp only: st loss_step_def prod.case if_True)
  next
    case False
    have sufs: "int (length ys) \<le> c + 1" if "ms @ [m] = xs @ ys" "lost ys" for xs ys
    proof -
      have "ys = [] \<or> (\<exists>ys'. ys = ys' @ [m] \<and> ms = xs @ ys')" using that(1) snoc_split by metis
      then show ?thesis using suf(2) that(2) nn by fastforce
    qed
    have segs: "int (length ys) \<le> max b (c + 1)" if "ms @ [m] = xs @ ys @ zs" "lost ys" for xs ys zs
    proof (cases "zs = []")
      case True
      then show ?thesis using sufs [of xs ys] that by simp
    qed (use inner [OF that(1) _ that(2)] in simp)
    obtain us vs where uv: "ms = us @ vs" "lost vs" "int (length vs) = c" using suf(1) by blast
    then have suf1: "\<exists>xs ys. ms @ [m] = xs @ ys \<and> lost ys \<and> int (length ys) = c + 1"
      using False by (intro exI [of _ us] exI [of _ "vs @ [m]"]) simp
    have "\<exists>xs ys zs. ms @ [m] = xs @ ys @ zs \<and> lost ys \<and> int (length ys) = max b (c + 1)"
    proof (cases "b \<le> c")
      case True
      then show ?thesis using suf1 by (metis append_Nil2 max.absorb2 add_increasing2 zero_le_one)
    next
      case False
      then obtain xs ys zs where "ms = xs @ ys @ zs" "lost ys" "int (length ys) = b" using seg(1) by (metis max.absorb1 linear)
      then show ?thesis using False by (intro exI [of _ xs] exI [of _ ys] exI [of _ "zs @ [m]"]) simp
    qed
    from loss_knownI [OF _ _ _ suf1 sufs this segs] show ?thesis using False nn by (simp add: st loss_step_def)
  qed
qed

lemma loss_known_fold: "loss_known ms (fold loss_step ms (0, 0, 0))"
proof (induction ms rule: rev_induct)
  case Nil
  show ?case by (simp add: loss_known_def)
next
  case (snoc m ms)
  then show ?case using loss_known_step by simp
qed

text \<open>
  The loss statistics say what they mean: every packet of the window is received or lost, and the burst loss is
  the length of the longest run of lost packets.
\<close>

theorem loss_statistics_exact:
  "let s = StatisticsWindow_GetPacketLossStatistics sw; ms = sw_measurements sw in
    ls_TotalSent s = int (length ms) \<and> ls_TotalReceived s = int (length (filter rm_Success ms)) \<and>
    ls_TotalLost s = ls_TotalSent s - ls_TotalReceived s \<and>
    (\<exists>xs ys zs. ms = xs @ ys @ zs \<and> lost ys \<and> int (length ys) = ls_BurstLoss s) \<and>
    \<not> (\<exists>xs ys zs. ms = xs @ ys @ zs \<and> lost ys \<and> ls_BurstLoss s < int (length ys))"
proof -
  let ?s = "StatisticsWindow_GetPacketLossStatistics sw"
  obtain r b c where f: "fold loss_step (sw_measurements sw) (0, 0, 0) = (r, b, c)" by (metis prod_cases3)
  have known: "loss_known (sw_measurements sw) (r, b, c)" using loss_known_fold [of "sw_measurements sw"] by (simp only: f)
  have s: "ls_TotalSent ?s = int (length (sw_measurements sw))" "ls_TotalReceived ?s = r"
      "ls_TotalLost ?s = ls_TotalSent ?s - r" "ls_BurstLoss ?s = max b c"
    using f known by (auto simp: StatisticsWindow_GetPacketLossStatistics_def Let_def max_def loss_known_def)
  have r: "r = int (length (filter rm_Success (sw_measurements sw)))"
    and e: "\<exists>xs ys zs. sw_measurements sw = xs @ ys @ zs \<and> lost ys \<and> int (length ys) = max b c"
    and a: "\<And>xs ys zs. sw_measurements sw = xs @ ys @ zs \<Longrightarrow> lost ys \<Longrightarrow> int (length ys) \<le> max b c"
    using known unfolding loss_known_def prod.case by blast+
  have a': "\<not> (\<exists>xs ys zs. sw_measurements sw = xs @ ys @ zs \<and> lost ys \<and> max b c < int (length ys))"
    using a by (meson not_less)
  show ?thesis unfolding Let_def s using r e a' by simp
qed

end
