(* ===== verification/Heartbeat.thy ===== *)
theory Heartbeat
  imports Heartbeat_Stats
begin

text \<open>
  The client's heartbeat, \<open>client/internal/heartbeat/manager.go\<close>: requests in flight, answers and timeouts of a
  connection, the evaluation of its quality, the table of connections, and the end of a handler's goroutines. The
  five loops of a handler are goroutines that run single operations, so their interleavings are the runs of
  \<open>hb_run\<close>; sending and recording a request are two steps of it, as they are not done under one lock. The network, the
  random bytes, the clock and the order of Go's map ranges are arguments.

  Lemmas: the accounting of the requests over any run, the absence of panics, and what stops the loops.
\<close>

section \<open>Configuration and state\<close>

record hb_config =
  hb_NodeID :: string
  hb_Interval :: int
  hb_Timeout :: int
  hb_MaxRetries :: int
  hb_ProbeEnabled :: bool
  hb_ProbeInterval :: int
  hb_ProbeSizes :: "int list"
  hb_StatisticsWindow :: int
  hb_QualityInterval :: int
  hb_HealthCheckEnabled :: bool
  hb_UnhealthyThreshold :: int

definition DefaultHeartbeatConfig :: "string \<Rightarrow> hb_config" where
  "DefaultHeartbeatConfig nodeID =
     \<lparr> hb_NodeID = nodeID, hb_Interval = 10 * 10 ^ 9, hb_Timeout = 5 * 10 ^ 9, hb_MaxRetries = 3, hb_ProbeEnabled = True,
       hb_ProbeInterval = 30 * 10 ^ 9, hb_ProbeSizes = [64, 256, 1024], hb_StatisticsWindow = 100,
       hb_QualityInterval = 60 * 10 ^ 9, hb_HealthCheckEnabled = True, hb_UnhealthyThreshold = 5 \<rparr>"

record pending_request =
  pr_Message :: hb_message
  pr_Timestamp :: int
  pr_Timeout :: int

type_synonym pending = "(string \<times> pending_request) list"

record conn_handler =
  ch_connectionID :: string
  ch_config :: hb_config
  ch_pingSequence :: u64
  ch_probeSequence :: u64
  ch_pendingPings :: pending
  ch_pendingProbes :: pending
  ch_statistics :: stats_window
  ch_lastHeartbeat :: int
  ch_consecutiveFails :: int
  ch_networkQuality :: network_quality
  ch_healthStatus :: health_status
  ch_cancelled :: bool

definition NewConnectionHandler :: "(nat \<Rightarrow> int) \<Rightarrow> string \<Rightarrow> hb_config \<Rightarrow> bool \<Rightarrow> conn_handler" where
  "NewConnectionHandler clk connectionID config parentCancelled =
     \<lparr> ch_connectionID = connectionID, ch_config = config, ch_pingSequence = 0, ch_probeSequence = 0,
       ch_pendingPings = [], ch_pendingProbes = [], ch_statistics = NewStatisticsWindow (hb_StatisticsWindow config),
       ch_lastHeartbeat = clk 0, ch_consecutiveFails = 0,
       ch_networkQuality = \<lparr> nq_Score = 100, nq_Grade = QualityGradeExcellent, nq_RTTStats = empty_rtt,
         nq_LossStats = \<lparr> ls_TotalSent = 0, ls_TotalReceived = 0, ls_TotalLost = 0, ls_LossRate = 0, ls_BurstLoss = 0 \<rparr>,
         nq_JitterStats = empty_jitter, nq_Timestamp = clk 1, nq_SamplePeriod = 0 \<rparr>,
       ch_healthStatus = NewHealthStatus (clk 2), ch_cancelled = parentCancelled \<rparr>"

section \<open>Sending\<close>

datatype send_result = EncodeFailed | SendFailed | SendOk

text \<open>
  The part of \<open>sendPing\<close> up to the send: the request made, the one on its way if it was sent, and the handler. The
  request is recorded afterwards.
\<close>

definition Handler_transmitPing :: "byte list \<Rightarrow> int \<Rightarrow> send_result \<Rightarrow> conn_handler \<Rightarrow> hb_message option \<times> conn_handler" where
  "Handler_transmitPing bytes now r ch =
     (let sequence = ch_pingSequence ch + 1; ch = ch\<lparr> ch_pingSequence := sequence \<rparr>;
          ping = NewPingMessage bytes now (hb_NodeID (ch_config ch)) sequence
      in case r of
           EncodeFailed \<Rightarrow> (None, ch)
         | SendFailed \<Rightarrow> (None, ch\<lparr> ch_consecutiveFails := add32 (ch_consecutiveFails ch) 1 \<rparr>)
         | SendOk \<Rightarrow> (Some ping, ch))"

definition Handler_recordPing :: "int \<Rightarrow> hb_message \<Rightarrow> conn_handler \<Rightarrow> conn_handler" where
  "Handler_recordPing now ping ch =
     ch\<lparr> ch_pendingPings := AList.update (hm_ID ping)
           \<lparr> pr_Message = ping, pr_Timestamp = now, pr_Timeout = hb_Timeout (ch_config ch) \<rparr> (ch_pendingPings ch) \<rparr>"

definition Handler_sendPing :: "byte list \<Rightarrow> int \<Rightarrow> int \<Rightarrow> send_result \<Rightarrow> conn_handler \<Rightarrow> conn_handler" where
  "Handler_sendPing bytes now now' r ch =
     (case Handler_transmitPing bytes now r ch of
        (None, ch) \<Rightarrow> ch
      | (Some ping, ch) \<Rightarrow> Handler_recordPing now' ping ch)"

definition Handler_transmitProbe ::
    "byte list \<Rightarrow> (nat \<Rightarrow> byte list) \<Rightarrow> int \<Rightarrow> int \<Rightarrow> send_result \<Rightarrow> conn_handler \<Rightarrow> hb_message option \<times> conn_handler" where
  "Handler_transmitProbe bytes payload now sz r ch =
     (let sequence = ch_probeSequence ch + 1; ch = ch\<lparr> ch_probeSequence := sequence \<rparr>
      in (if r = SendOk then Some (NewProbeMessage bytes now (hb_NodeID (ch_config ch)) sequence sz payload) else None, ch))"

definition Handler_recordProbe :: "int \<Rightarrow> hb_message \<Rightarrow> conn_handler \<Rightarrow> conn_handler" where
  "Handler_recordProbe now probe ch =
     ch\<lparr> ch_pendingProbes := AList.update (hm_ID probe)
           \<lparr> pr_Message = probe, pr_Timestamp = now, pr_Timeout = hb_Timeout (ch_config ch) \<rparr> (ch_pendingProbes ch) \<rparr>"

text \<open>\<open>env\<close> gives for each size of the list the bytes of the ID, the source of the payload, two times and the send.\<close>

type_synonym probe_env = "byte list \<times> (nat \<Rightarrow> byte list) \<times> int \<times> int \<times> send_result"

fun Handler_sendProbes :: "probe_env list \<Rightarrow> int list \<Rightarrow> conn_handler \<Rightarrow> conn_handler" where
  "Handler_sendProbes ((bytes, payload, now, now', r) # env) (sz # sizes) ch =
     (case Handler_transmitProbe bytes payload now sz r ch of
        (None, ch) \<Rightarrow> Handler_sendProbes env sizes ch
      | (Some probe, ch) \<Rightarrow> Handler_sendProbes env sizes (Handler_recordProbe now' probe ch))"
| "Handler_sendProbes env sizes ch = ch"

section \<open>Receiving\<close>

text \<open>The answers to the peer's requests; the result is the message to send, whose sending changes nothing.\<close>

definition Handler_handlePing :: "byte list \<Rightarrow> int \<Rightarrow> hb_message \<Rightarrow> conn_handler \<Rightarrow> hb_message" where
  "Handler_handlePing bytes now ping ch = NewPongMessage bytes now (hb_NodeID (ch_config ch)) ping"

definition Handler_handleProbe :: "byte list \<Rightarrow> int \<Rightarrow> hb_message \<Rightarrow> conn_handler \<Rightarrow> hb_message" where
  "Handler_handleProbe bytes now probe ch = NewProbeAckMessage bytes now (hb_NodeID (ch_config ch)) probe"

definition meta_string :: "string \<Rightarrow> hb_message \<Rightarrow> string option" where
  "meta_string k msg = (case map_of (hm_Metadata msg) k of Some (MetaString s) \<Rightarrow> Some s | _ \<Rightarrow> None)"

definition ping_probe_size :: "pending_request \<Rightarrow> int" where
  "ping_probe_size req = (case map_of (hm_Metadata (pr_Message req)) ''probe_size'' of Some (MetaInt n) \<Rightarrow> n | _ \<Rightarrow> 0)"

definition answered :: "(nat \<Rightarrow> int) \<Rightarrow> int \<Rightarrow> string \<Rightarrow> pending_request \<Rightarrow> rtt_measurement" where
  "answered clk sz rid req = NewRTTMeasurement (clk 1) rid (hm_Sequence (pr_Message req)) (clk 0 - pr_Timestamp req) sz True"

definition Handler_handlePong :: "(nat \<Rightarrow> int) \<Rightarrow> hb_message \<Rightarrow> conn_handler \<Rightarrow> conn_handler res" where
  "Handler_handlePong clk pong ch =
     (case meta_string ''ping_id'' pong of
        None \<Rightarrow> Inr ch
      | Some pingID \<Rightarrow>
          (case map_of (ch_pendingPings ch) pingID of
             None \<Rightarrow> Inr ch
           | Some req \<Rightarrow>
               (let ch = ch\<lparr> ch_pendingPings := AList.delete pingID (ch_pendingPings ch) \<rparr>
                in and_then (StatisticsWindow_AddMeasurement (answered clk (ping_probe_size req) pingID req) (ch_statistics ch))
                     (\<lambda>sw. Inr (ch\<lparr> ch_statistics := sw, ch_lastHeartbeat := clk 2, ch_consecutiveFails := 0 \<rparr>)))))"

definition Handler_handleProbeAck :: "(nat \<Rightarrow> int) \<Rightarrow> hb_message \<Rightarrow> conn_handler \<Rightarrow> conn_handler res" where
  "Handler_handleProbeAck clk ack ch =
     (case meta_string ''probe_id'' ack of
        None \<Rightarrow> Inr ch
      | Some probeID \<Rightarrow>
          (case map_of (ch_pendingProbes ch) probeID of
             None \<Rightarrow> Inr ch
           | Some req \<Rightarrow>
               (let ch = ch\<lparr> ch_pendingProbes := AList.delete probeID (ch_pendingProbes ch) \<rparr>
                in and_then (StatisticsWindow_AddMeasurement (answered clk (int (length (hm_Payload (pr_Message req)))) probeID req) (ch_statistics ch))
                     (\<lambda>sw. Inr (ch\<lparr> ch_statistics := sw \<rparr>)))))"

definition Handler_handleMessage ::
    "byte list \<Rightarrow> (nat \<Rightarrow> int) \<Rightarrow> hb_message \<Rightarrow> conn_handler \<Rightarrow> (hb_message option \<times> conn_handler) res" where
  "Handler_handleMessage bytes clk msg ch =
     (case hm_Type msg of
        MessageTypePing \<Rightarrow> Inr (Some (Handler_handlePing bytes (clk 0) msg ch), ch)
      | MessageTypePong \<Rightarrow> and_then (Handler_handlePong clk msg ch) (\<lambda>ch. Inr (None, ch))
      | MessageTypeProbe \<Rightarrow> Inr (Some (Handler_handleProbe bytes (clk 0) msg ch), ch)
      | MessageTypeProbeAck \<Rightarrow> and_then (Handler_handleProbeAck clk msg ch) (\<lambda>ch. Inr (None, ch))
      | MessageTypeOther _ \<Rightarrow> Inr (None, ch))"

text \<open>One turn of \<open>receiveLoop\<close> after \<open>Receive\<close>: an error, data that do not decode, or a message.\<close>

datatype received = ReceiveError | ReceiveGarbage | ReceiveMessage hb_message

definition Handler_receiveLoop_turn ::
    "byte list \<Rightarrow> (nat \<Rightarrow> int) \<Rightarrow> received \<Rightarrow> conn_handler \<Rightarrow> (hb_message option \<times> conn_handler) res" where
  "Handler_receiveLoop_turn bytes clk r ch =
     (case r of
        ReceiveError \<Rightarrow>
          Inr (None, if ch_cancelled ch then ch else ch\<lparr> ch_consecutiveFails := add32 (ch_consecutiveFails ch) 1 \<rparr>)
      | ReceiveGarbage \<Rightarrow> Inr (None, ch)
      | ReceiveMessage msg \<Rightarrow> Handler_handleMessage bytes clk msg ch)"

section \<open>Timeouts and evaluation\<close>

text \<open>
  The loop over one of the two maps in the order \<open>ord\<close>: what is left, the window and the number of requests that
  timed out; \<open>sz\<close> is the probe size recorded and \<open>mt\<close> the time of each measurement.
\<close>

fun expire_loop ::
    "(pending_request \<Rightarrow> int) \<Rightarrow> int \<Rightarrow> (string \<Rightarrow> int) \<Rightarrow> string list \<Rightarrow> pending \<Rightarrow> stats_window \<Rightarrow> (pending \<times> stats_window \<times> nat) res" where
  "expire_loop sz now mt [] pend sw = Inr (pend, sw, 0)"
| "expire_loop sz now mt (rid # ord) pend sw =
     (case map_of pend rid of
        None \<Rightarrow> expire_loop sz now mt ord pend sw
      | Some req \<Rightarrow>
          if now - pr_Timestamp req > pr_Timeout req
          then and_then (StatisticsWindow_AddMeasurement
                   (NewRTTMeasurement (mt rid) rid (hm_Sequence (pr_Message req)) 0 (sz req) False) sw)
                 (\<lambda>sw. and_then (expire_loop sz now mt ord (AList.delete rid pend) sw)
                   (\<lambda>(pend, sw, n). Inr (pend, sw, Suc n)))
          else expire_loop sz now mt ord pend sw)"

definition Handler_cleanupTimeouts ::
    "int \<Rightarrow> (string \<Rightarrow> int) \<Rightarrow> string list \<Rightarrow> string list \<Rightarrow> conn_handler \<Rightarrow> conn_handler res" where
  "Handler_cleanupTimeouts now mt pingOrd probeOrd ch =
     and_then (expire_loop (\<lambda>_. 0) now mt pingOrd (ch_pendingPings ch) (ch_statistics ch))
       (\<lambda>(pend, sw, n).
          let ch = ch\<lparr> ch_pendingPings := pend, ch_statistics := sw,
                       ch_consecutiveFails := ((\<lambda>f. add32 f 1) ^^ n) (ch_consecutiveFails ch) \<rparr>
          in and_then (expire_loop (\<lambda>req. int (length (hm_Payload (pr_Message req)))) now mt probeOrd (ch_pendingProbes ch) (ch_statistics ch))
               (\<lambda>(pend, sw, _). Inr (ch\<lparr> ch_pendingProbes := pend, ch_statistics := sw \<rparr>)))"

definition Handler_evaluateQuality :: "go_math \<Rightarrow> (nat \<Rightarrow> int) \<Rightarrow> conn_handler \<Rightarrow> conn_handler" where
  "Handler_evaluateQuality g clk ch =
     (let quality = Quality_CalculateNetworkQuality (clk 0) (StatisticsWindow_GetRTTStatistics g (ch_statistics ch))
            (StatisticsWindow_GetPacketLossStatistics (ch_statistics ch))
            (StatisticsWindow_GetJitterStatistics g (ch_statistics ch)) (hb_QualityInterval (ch_config ch));
          health = Health_EvaluateHealth (clk 1) (clk 2) quality (ch_lastHeartbeat ch) (ch_consecutiveFails ch) (hb_Interval (ch_config ch))
      in ch\<lparr> ch_networkQuality := quality, ch_healthStatus := health \<rparr>)"

definition Handler_GetNetworkQuality :: "conn_handler \<Rightarrow> network_quality" where
  "Handler_GetNetworkQuality ch = ch_networkQuality ch"

definition Handler_GetHealthStatus :: "conn_handler \<Rightarrow> health_status" where
  "Handler_GetHealthStatus ch = ch_healthStatus ch"

section \<open>The table of connections\<close>

record hb_manager =
  hbm_config :: hb_config
  hbm_connections :: "(string \<times> conn_handler) list"
  hbm_cancelled :: bool

definition NewHeartbeatManager :: "hb_config option \<Rightarrow> hb_manager" where
  "NewHeartbeatManager config =
     \<lparr> hbm_config = (case config of None \<Rightarrow> DefaultHeartbeatConfig ''unknown'' | Some c \<Rightarrow> c), hbm_connections = [], hbm_cancelled = False \<rparr>"

datatype hb_error = ConnectionExists string | ConnectionMissing string

definition HbManager_AddConnection :: "(nat \<Rightarrow> int) \<Rightarrow> string \<Rightarrow> hb_manager \<Rightarrow> (hb_error + unit) \<times> hb_manager" where
  "HbManager_AddConnection clk connectionID m =
     (case map_of (hbm_connections m) connectionID of
        Some _ \<Rightarrow> (Inl (ConnectionExists connectionID), m)
      | None \<Rightarrow>
          (Inr (), m\<lparr> hbm_connections := AList.update connectionID
             (NewConnectionHandler clk connectionID (hbm_config m) (hbm_cancelled m)) (hbm_connections m) \<rparr>))"

text \<open>The removal once the goroutines of the handler have ended, see \<open>stop_step\<close> below.\<close>

definition HbManager_RemoveConnection :: "string \<Rightarrow> hb_manager \<Rightarrow> (hb_error + unit) \<times> hb_manager" where
  "HbManager_RemoveConnection connectionID m =
     (case map_of (hbm_connections m) connectionID of
        None \<Rightarrow> (Inl (ConnectionMissing connectionID), m)
      | Some _ \<Rightarrow> (Inr (), m\<lparr> hbm_connections := AList.delete connectionID (hbm_connections m) \<rparr>))"

definition HbManager_GetConnectionHealth :: "string \<Rightarrow> hb_manager \<Rightarrow> hb_error + health_status" where
  "HbManager_GetConnectionHealth connectionID m =
     (case map_of (hbm_connections m) connectionID of
        None \<Rightarrow> Inl (ConnectionMissing connectionID) | Some ch \<Rightarrow> Inr (Handler_GetHealthStatus ch))"

definition HbManager_GetConnectionQuality :: "string \<Rightarrow> hb_manager \<Rightarrow> hb_error + network_quality" where
  "HbManager_GetConnectionQuality connectionID m =
     (case map_of (hbm_connections m) connectionID of
        None \<Rightarrow> Inl (ConnectionMissing connectionID) | Some ch \<Rightarrow> Inr (Handler_GetNetworkQuality ch))"

definition HbManager_GetAllConnectionsHealth :: "hb_manager \<Rightarrow> (string \<times> health_status) list" where
  "HbManager_GetAllConnectionsHealth m = map (\<lambda>(cid, ch). (cid, Handler_GetHealthStatus ch)) (hbm_connections m)"

text \<open>\<open>Stop\<close> cancels every handler and leaves the handlers in the table.\<close>

definition HbManager_Stop :: "hb_manager \<Rightarrow> hb_manager" where
  "HbManager_Stop m =
     m\<lparr> hbm_cancelled := True, hbm_connections := map (\<lambda>(cid, ch). (cid, ch\<lparr> ch_cancelled := True \<rparr>)) (hbm_connections m) \<rparr>"

section \<open>Accounting\<close>

definition windowed :: "stats_window \<Rightarrow> rtt_measurement list \<Rightarrow> bool" where
  "windowed sw h \<longleftrightarrow> 0 < sw_maxSize sw \<and> sw_measurements sw = drop (length h - nat (sw_maxSize sw)) h"

lemma windowed_add:
  assumes "windowed sw h"
  shows "\<exists>sw'. StatisticsWindow_AddMeasurement m sw = Inr sw' \<and> windowed sw' (h @ [m])"
proof (cases "int (length h) \<ge> sw_maxSize sw")
  case True
  define i where "i = length h - nat (sw_maxSize sw)"
  from True assms have i: "i < length h" and l: "Suc (length h) - nat (sw_maxSize sw) = Suc i"
    unfolding i_def windowed_def by linarith+
  have ms: "sw_measurements sw = h ! i # drop (Suc i) h" using assms i by (simp add: windowed_def Cons_nth_drop_Suc flip: i_def)
  have "int (length (sw_measurements sw)) \<ge> sw_maxSize sw"
    using assms True by (simp add: windowed_def)
  then have "StatisticsWindow_AddMeasurement m sw = Inr (sw\<lparr> sw_measurements := drop (Suc i) h @ [m] \<rparr>)"
    by (simp add: StatisticsWindow_AddMeasurement_def ms)
  moreover have "windowed (sw\<lparr> sw_measurements := drop (Suc i) h @ [m] \<rparr>) (h @ [m])"
    using assms i by (simp add: windowed_def l)
  ultimately show ?thesis by blast
next
  case False
  then have z: "length h - nat (sw_maxSize sw) = 0" "Suc (length h) - nat (sw_maxSize sw) = 0" by linarith+
  then have ms: "sw_measurements sw = h" using assms by (simp add: windowed_def)
  then have "StatisticsWindow_AddMeasurement m sw = Inr (sw\<lparr> sw_measurements := h @ [m] \<rparr>)"
    using False by (simp add: StatisticsWindow_AddMeasurement_def)
  moreover have "windowed (sw\<lparr> sw_measurements := h @ [m] \<rparr>) (h @ [m])" using assms z by (simp add: windowed_def)
  ultimately show ?thesis by blast
qed

lemma mset_keys_delete:
  "map_ok m \<Longrightarrow> map_of m k = Some v \<Longrightarrow> mset (keys_of m) = add_mset k (mset (keys_of (AList.delete k m)))"
proof (induction m)
  case (Cons x m)
  show ?case
  proof (cases "fst x = k")
    case True
    then have "k \<notin> set (keys_of m)" using Cons.prems(1) by auto
    then show ?thesis using True by (cases x) (simp add: delete_idem)
  qed (use Cons in \<open>cases x, simp\<close>)
qed simp

lemma mset_keys_update: "k \<notin> set (keys_of m) \<Longrightarrow> mset (keys_of (AList.update k v m)) = add_mset k (mset (keys_of m))"
  by (induction m) auto

lemma expire_loop_accounts:
  assumes "map_ok pend" "windowed sw h"
  shows "\<exists>pend' sw' n h'. expire_loop sz now mt ord pend sw = Inr (pend', sw', n) \<and> map_ok pend' \<and> windowed sw' (h @ h') \<and>
    n = length h' \<and> mset (map rm_PingID h') + mset (keys_of pend') = mset (keys_of pend)"
  using assms
proof (induction ord arbitrary: pend sw h)
  case Nil
  then show ?case by (intro exI [of _ pend] exI [of _ sw] exI [of _ 0] exI [of _ "[]"]) simp
next
  case (Cons rid ord)
  show ?case
  proof (cases "\<exists>req. map_of pend rid = Some req \<and> now - pr_Timestamp req > pr_Timeout req")
    case True
    then obtain req where req: "map_of pend rid = Some req" "now - pr_Timestamp req > pr_Timeout req" by blast
    define m where "m = NewRTTMeasurement (mt rid) rid (hm_Sequence (pr_Message req)) 0 (sz req) False"
    have m: "rm_PingID m = rid" by (simp add: m_def NewRTTMeasurement_def)
    obtain sw' where sw': "StatisticsWindow_AddMeasurement m sw = Inr sw'" "windowed sw' (h @ [m])"
      using windowed_add [OF Cons.prems(2)] by blast
    obtain pend' sw'' n h' where r: "expire_loop sz now mt ord (AList.delete rid pend) sw' = Inr (pend', sw'', n)" "map_ok pend'"
        "windowed sw'' ((h @ [m]) @ h')" "n = length h'"
        "mset (map rm_PingID h') + mset (keys_of pend') = mset (keys_of (AList.delete rid pend))"
      using Cons.IH [OF map_ok_delete [OF Cons.prems(1)] sw'(2)] by blast
    have "expire_loop sz now mt (rid # ord) pend sw = Inr (pend', sw'', Suc n)"
      using req sw'(1) r(1) by (simp add: m_def)
    moreover have "mset (map rm_PingID (m # h')) + mset (keys_of pend') = mset (keys_of pend)"
      using r(5) m mset_keys_delete [OF Cons.prems(1) req(1)] by simp
    ultimately show ?thesis using r(2-4) by (intro exI [of _ pend'] exI [of _ sw''] exI [of _ "Suc n"] exI [of _ "m # h'"]) simp
  next
    case False
    then have "expire_loop sz now mt (rid # ord) pend sw = expire_loop sz now mt ord pend sw"
      by (auto split: option.splits)
    then show ?thesis using Cons.IH [OF Cons.prems] by simp
  qed
qed

text \<open>
  The runs of a handler; \<open>rec\<close> lists the IDs of the requests recorded so far. An ID is fresh, as it is made of sixteen
  random bytes.
\<close>

inductive hb_run :: "hb_config \<Rightarrow> conn_handler \<Rightarrow> string list \<Rightarrow> bool" for config where
  hr_new: "hb_run config (NewConnectionHandler clk cid config c) []"
| hr_ping_sent: "hb_run config ch rec \<Longrightarrow> Handler_transmitPing bytes now r ch = (p, ch') \<Longrightarrow> hb_run config ch' rec"
| hr_ping: "hb_run config ch rec \<Longrightarrow> hm_ID ping \<notin> set rec \<Longrightarrow> hb_run config (Handler_recordPing now ping ch) (rec @ [hm_ID ping])"
| hr_probe_sent: "hb_run config ch rec \<Longrightarrow> Handler_transmitProbe bytes payload now sz r ch = (p, ch') \<Longrightarrow> hb_run config ch' rec"
| hr_probe: "hb_run config ch rec \<Longrightarrow> hm_ID probe \<notin> set rec \<Longrightarrow> hb_run config (Handler_recordProbe now probe ch) (rec @ [hm_ID probe])"
| hr_receive: "hb_run config ch rec \<Longrightarrow> Handler_receiveLoop_turn bytes clk d ch = Inr (out, ch') \<Longrightarrow> hb_run config ch' rec"
| hr_cleanup: "hb_run config ch rec \<Longrightarrow> Handler_cleanupTimeouts now mt ord1 ord2 ch = Inr ch' \<Longrightarrow> hb_run config ch' rec"
| hr_evaluate: "hb_run config ch rec \<Longrightarrow> hb_run config (Handler_evaluateQuality g clk ch) rec"
| hr_cancel: "hb_run config ch rec \<Longrightarrow> hb_run config (ch\<lparr> ch_cancelled := True \<rparr>) rec"

definition accounted :: "conn_handler \<Rightarrow> string list \<Rightarrow> rtt_measurement list \<Rightarrow> bool" where
  "accounted ch rec h \<longleftrightarrow> map_ok (ch_pendingPings ch) \<and> map_ok (ch_pendingProbes ch) \<and> windowed (ch_statistics ch) h \<and>
     mset (map rm_PingID h) + mset (keys_of (ch_pendingPings ch)) + mset (keys_of (ch_pendingProbes ch)) = mset rec"

lemma accounted_same:
  assumes "accounted ch rec h" "ch_pendingPings ch' = ch_pendingPings ch" "ch_pendingProbes ch' = ch_pendingProbes ch"
    "ch_statistics ch' = ch_statistics ch"
  shows "accounted ch' rec h"
  using assms by (simp add: accounted_def)

lemma transmit_same:
  "Handler_transmitPing bytes now r ch = (p, ch') \<Longrightarrow>
     ch_pendingPings ch' = ch_pendingPings ch \<and> ch_pendingProbes ch' = ch_pendingProbes ch \<and> ch_statistics ch' = ch_statistics ch"
  "Handler_transmitProbe bytes payload now sz r ch = (p, ch') \<Longrightarrow>
     ch_pendingPings ch' = ch_pendingPings ch \<and> ch_pendingProbes ch' = ch_pendingProbes ch \<and> ch_statistics ch' = ch_statistics ch"
  by (auto simp: Handler_transmitPing_def Handler_transmitProbe_def Let_def split: send_result.splits)

lemma accounted_pending:
  assumes "accounted ch rec h" "k \<notin> set rec"
  shows "k \<notin> set (keys_of (ch_pendingPings ch))" "k \<notin> set (keys_of (ch_pendingProbes ch))"
proof -
  have "set rec = set (map rm_PingID h) \<union> set (keys_of (ch_pendingPings ch)) \<union> set (keys_of (ch_pendingProbes ch))"
    using assms(1) by (metis accounted_def set_mset_mset set_mset_union)
  then show "k \<notin> set (keys_of (ch_pendingPings ch))" "k \<notin> set (keys_of (ch_pendingProbes ch))" using assms(2) by auto
qed

lemma accounted_record:
  assumes "accounted ch rec h" "hm_ID msg \<notin> set rec"
  shows "accounted (Handler_recordPing now msg ch) (rec @ [hm_ID msg]) h"
    "accounted (Handler_recordProbe now msg ch) (rec @ [hm_ID msg]) h"
  using assms(1) mset_keys_update [OF accounted_pending(1) [OF assms]] mset_keys_update [OF accounted_pending(2) [OF assms]]
  by (simp_all add: accounted_def Handler_recordPing_def Handler_recordProbe_def)

lemma pong_accounts:
  assumes "accounted ch rec h"
  shows "\<exists>ch' h'. Handler_handlePong clk msg ch = Inr ch' \<and> accounted ch' rec h'"
proof (cases "\<exists>rid req. meta_string ''ping_id'' msg = Some rid \<and> map_of (ch_pendingPings ch) rid = Some req")
  case True
  then obtain rid req where m: "meta_string ''ping_id'' msg = Some rid" and p: "map_of (ch_pendingPings ch) rid = Some req" by blast
  define a where "a = answered clk (ping_probe_size req) rid req"
  have a: "rm_PingID a = rid" by (simp add: a_def answered_def NewRTTMeasurement_def)
  obtain sw where sw: "StatisticsWindow_AddMeasurement a (ch_statistics ch) = Inr sw" "windowed sw (h @ [a])"
    using windowed_add assms unfolding accounted_def by blast
  have "mset (map rm_PingID (h @ [a])) + mset (keys_of (AList.delete rid (ch_pendingPings ch))) + mset (keys_of (ch_pendingProbes ch)) = mset rec"
    using assms mset_keys_delete [of "ch_pendingPings ch", OF _ p] a by (simp add: accounted_def)
  then show ?thesis using assms sw m p a_def
    by (intro exI [of _ "ch\<lparr> ch_pendingPings := AList.delete rid (ch_pendingPings ch), ch_statistics := sw,
        ch_lastHeartbeat := clk 2, ch_consecutiveFails := 0 \<rparr>"] exI [of _ "h @ [a]"])
      (simp add: Handler_handlePong_def accounted_def)
next
  case False
  then have "Handler_handlePong clk msg ch = Inr ch"
    by (auto simp: Handler_handlePong_def split: option.splits)
  then show ?thesis using assms by blast
qed

lemma probe_ack_accounts:
  assumes "accounted ch rec h"
  shows "\<exists>ch' h'. Handler_handleProbeAck clk msg ch = Inr ch' \<and> accounted ch' rec h'"
proof (cases "\<exists>rid req. meta_string ''probe_id'' msg = Some rid \<and> map_of (ch_pendingProbes ch) rid = Some req")
  case True
  then obtain rid req where m: "meta_string ''probe_id'' msg = Some rid" and p: "map_of (ch_pendingProbes ch) rid = Some req" by blast
  define a where "a = answered clk (int (length (hm_Payload (pr_Message req)))) rid req"
  have a: "rm_PingID a = rid" by (simp add: a_def answered_def NewRTTMeasurement_def)
  obtain sw where sw: "StatisticsWindow_AddMeasurement a (ch_statistics ch) = Inr sw" "windowed sw (h @ [a])"
    using windowed_add assms unfolding accounted_def by blast
  have "mset (map rm_PingID (h @ [a])) + mset (keys_of (ch_pendingPings ch)) + mset (keys_of (AList.delete rid (ch_pendingProbes ch))) = mset rec"
    using assms mset_keys_delete [of "ch_pendingProbes ch", OF _ p] a by (simp add: accounted_def)
  then show ?thesis using assms sw m p a_def
    by (intro exI [of _ "ch\<lparr> ch_pendingProbes := AList.delete rid (ch_pendingProbes ch), ch_statistics := sw \<rparr>"] exI [of _ "h @ [a]"])
      (simp add: Handler_handleProbeAck_def accounted_def)
next
  case False
  then have "Handler_handleProbeAck clk msg ch = Inr ch"
    by (auto simp: Handler_handleProbeAck_def split: option.splits)
  then show ?thesis using assms by blast
qed

lemma receive_accounts:
  assumes "accounted ch rec h"
  shows "\<exists>out ch' h'. Handler_receiveLoop_turn bytes clk d ch = Inr (out, ch') \<and> accounted ch' rec h'"
proof (cases d)
  case (ReceiveMessage msg)
  then show ?thesis
    using assms pong_accounts [OF assms, of clk msg] probe_ack_accounts [OF assms, of clk msg]
    by (cases "hm_Type msg") (auto simp: Handler_receiveLoop_turn_def Handler_handleMessage_def)
next
  case ReceiveError
  have "accounted (ch\<lparr> ch_consecutiveFails := x \<rparr>) rec h" for x by (rule accounted_same [OF assms]) simp_all
  then show ?thesis using assms ReceiveError by (auto simp: Handler_receiveLoop_turn_def)
qed (use assms in \<open>auto simp: Handler_receiveLoop_turn_def\<close>)

lemma cleanup_accounts:
  assumes "accounted ch rec h"
  shows "\<exists>ch' h'. Handler_cleanupTimeouts now mt ord1 ord2 ch = Inr ch' \<and> accounted ch' rec h'"
proof -
  have ok: "map_ok (ch_pendingPings ch)" "map_ok (ch_pendingProbes ch)" "windowed (ch_statistics ch) h"
    and eq: "mset (map rm_PingID h) + mset (keys_of (ch_pendingPings ch)) + mset (keys_of (ch_pendingProbes ch)) = mset rec"
    using assms by (auto simp: accounted_def)
  obtain pp sw n h1 where 1: "expire_loop (\<lambda>_. 0) now mt ord1 (ch_pendingPings ch) (ch_statistics ch) = Inr (pp, sw, n)" "map_ok pp"
      "windowed sw (h @ h1)" "mset (map rm_PingID h1) + mset (keys_of pp) = mset (keys_of (ch_pendingPings ch))"
    using expire_loop_accounts [OF ok(1,3)] by metis
  obtain pq sw' n' h2 where 2: "expire_loop (\<lambda>req. int (length (hm_Payload (pr_Message req)))) now mt ord2 (ch_pendingProbes ch) sw =
        Inr (pq, sw', n')" "map_ok pq" "windowed sw' ((h @ h1) @ h2)"
      "mset (map rm_PingID h2) + mset (keys_of pq) = mset (keys_of (ch_pendingProbes ch))"
    using expire_loop_accounts [OF ok(2) 1(3)] by metis
  have "mset (map rm_PingID ((h @ h1) @ h2)) + mset (keys_of pp) + mset (keys_of pq) = mset rec"
    unfolding eq [symmetric] 1(4) [symmetric] 2(4) [symmetric] by (simp add: ac_simps)
  then show ?thesis using 1 2 by (auto simp: Handler_cleanupTimeouts_def accounted_def)
qed

lemma hb_run_accounted: "hb_run config ch rec \<Longrightarrow> 0 < hb_StatisticsWindow config \<Longrightarrow> \<exists>h. accounted ch rec h"
proof (induction rule: hb_run.induct)
  case (hr_new clk cid c)
  then have "accounted (NewConnectionHandler clk cid config c) [] []"
    by (simp add: accounted_def windowed_def NewConnectionHandler_def NewStatisticsWindow_def)
  then show ?case by blast
next
  case (hr_ping_sent ch rec bytes now r p ch')
  then show ?case using accounted_same transmit_same(1) [OF hr_ping_sent.hyps(2)] by blast
next
  case (hr_probe_sent ch rec bytes payload now sz r p ch')
  then show ?case using accounted_same transmit_same(2) [OF hr_probe_sent.hyps(2)] by blast
next
  case (hr_receive ch rec bytes clk d out ch')
  then obtain h where "accounted ch rec h" by blast
  from receive_accounts [OF this, of bytes clk d] hr_receive.hyps(2) show ?case by auto
next
  case (hr_cleanup ch rec now mt ord1 ord2 ch')
  then obtain h where "accounted ch rec h" by blast
  from cleanup_accounts [OF this, of now mt ord1 ord2] hr_cleanup.hyps(2) show ?case by auto
next
  case (hr_evaluate ch rec g clk)
  then obtain h where h: "accounted ch rec h" by blast
  have "accounted (Handler_evaluateQuality g clk ch) rec h"
    by (rule accounted_same [OF h]) (simp_all add: Handler_evaluateQuality_def Let_def)
  then show ?case by blast
next
  case (hr_cancel ch rec)
  then obtain h where h: "accounted ch rec h" by blast
  have "accounted (ch\<lparr> ch_cancelled := True \<rparr>) rec h" by (rule accounted_same [OF h]) simp_all
  then show ?case by blast
qed (use accounted_record in blast)+


definition demo_handler :: conn_handler where
  "demo_handler = NewConnectionHandler (\<lambda>_. 0) ''c'' (DefaultHeartbeatConfig ''n'') False"

definition demo_ping :: hb_message where
  "demo_ping = NewPingMessage [1] 0 ''n'' 1"

definition demo_pong :: hb_message where
  "demo_pong = NewPongMessage [2] 5 ''m'' demo_ping"


section \<open>Deviations\<close>

text \<open>
  The request is sent before it is recorded: a pong that is handled in between is dropped as unknown, the request is
  recorded afterwards, and the next cleanup counts an answered request as lost.
\<close>

definition early_pong_run :: "conn_handler res" where
  "early_pong_run =
     (case Handler_transmitPing [1] 0 SendOk demo_handler of
        (None, ch) \<Rightarrow> Inr ch
      | (Some ping, ch) \<Rightarrow>
          and_then (Handler_handlePong (\<lambda>_. 5) (NewPongMessage [2] 4 ''m'' ping) ch)
            (\<lambda>ch. Handler_cleanupTimeouts (6 * 10 ^ 9) (\<lambda>_. 0) [hm_ID ping] [] (Handler_recordPing 6 ping ch)))"

theorem early_pong_is_lost:
  "map_option (\<lambda>ch. (map rm_Success (sw_measurements (ch_statistics ch)), ch_consecutiveFails ch))
     (case early_pong_run of Inl _ \<Rightarrow> None | Inr ch \<Rightarrow> Some ch) = Some ([False], 1)"
  by code_simp

text \<open>A window of size zero, which the configuration does not exclude, panics with the first answer.\<close>

theorem empty_window_panics:
  assumes "sw_maxSize (ch_statistics ch) \<le> 0" "sw_measurements (ch_statistics ch) = []"
    and "meta_string ''ping_id'' pong = Some rid" "map_of (ch_pendingPings ch) rid = Some req"
  shows "Handler_handlePong clk pong ch = Inl SliceBoundsOutOfRange"
  using assms by (simp add: Handler_handlePong_def StatisticsWindow_AddMeasurement_def Let_def)

text \<open>A peer whose every packet is lost is graded fair, though its score of 50 is the grade poor elsewhere.\<close>

theorem dead_peer_is_fair:
  assumes "lost (sw_measurements sw)"
  shows "nq_Grade (Quality_CalculateNetworkQuality now (StatisticsWindow_GetRTTStatistics g sw) loss jitter period) = QualityGradeFair \<and>
    GetGradeFromScore (nq_Score (Quality_CalculateNetworkQuality now (StatisticsWindow_GetRTTStatistics g sw) loss jitter period)) = QualityGradePoor"
proof -
  have "filter rm_Success (sw_measurements sw) = []" using assms by (simp add: lost_def filter_empty_conv)
  then have "rs_Count (StatisticsWindow_GetRTTStatistics g sw) = 0" by (simp add: StatisticsWindow_GetRTTStatistics_def empty_rtt_def Let_def)
  then show ?thesis by (simp add: Quality_CalculateNetworkQuality_def GetGradeFromScore_def)
qed

section \<open>The end of a handler\<close>

text \<open>
  \<open>Stop\<close> cancels the context, waits for the goroutines, and then closes the connection. The receiving loop checks the
  context and then blocks in \<open>Receive\<close> until the peer sends something or the connection fails; \<open>peer\<close> marks these steps.
\<close>

datatype recv_state = RecvChecking | RecvBlocked | RecvDone

record stop_state =
  ss_cancelled :: bool
  ss_recv :: recv_state
  ss_others :: nat
  ss_closed :: bool
  ss_returned :: bool

inductive stop_step :: "bool \<Rightarrow> stop_state \<Rightarrow> stop_state \<Rightarrow> bool" where
  st_cancel: "stop_step False s (s\<lparr> ss_cancelled := True \<rparr>)"
| st_other: "ss_cancelled s \<Longrightarrow> ss_others s = Suc n \<Longrightarrow> stop_step False s (s\<lparr> ss_others := n \<rparr>)"
| st_check: "ss_recv s = RecvChecking \<Longrightarrow>
    stop_step False s (s\<lparr> ss_recv := (if ss_cancelled s then RecvDone else RecvBlocked) \<rparr>)"
| st_peer: "ss_recv s = RecvBlocked \<Longrightarrow> stop_step True s (s\<lparr> ss_recv := RecvChecking \<rparr>)"
| st_closed: "ss_recv s = RecvBlocked \<Longrightarrow> ss_closed s \<Longrightarrow> stop_step False s (s\<lparr> ss_recv := RecvChecking \<rparr>)"
| st_return: "ss_cancelled s \<Longrightarrow> ss_recv s = RecvDone \<Longrightarrow> ss_others s = 0 \<Longrightarrow>
    stop_step False s (s\<lparr> ss_closed := True, ss_returned := True \<rparr>)"

lemma stop_blocked:
  assumes "(stop_step False)\<^sup>*\<^sup>* s s'" "ss_recv s = RecvBlocked" "\<not> ss_closed s" "\<not> ss_returned s"
  shows "ss_recv s' = RecvBlocked \<and> \<not> ss_closed s' \<and> \<not> ss_returned s'"
  using assms by (induction rule: rtranclp_induct) (auto elim!: stop_step.cases)

lemma stop_others:
  "ss_cancelled s \<Longrightarrow> (stop_step False)\<^sup>*\<^sup>* s (s\<lparr> ss_others := 0 \<rparr>)"
proof (induction "ss_others s" arbitrary: s)
  case (Suc n)
  have "stop_step False s (s\<lparr> ss_others := n \<rparr>)" using Suc.prems Suc.hyps(2) by (intro st_other) simp_all
  moreover have "(stop_step False)\<^sup>*\<^sup>* (s\<lparr> ss_others := n \<rparr>) (s\<lparr> ss_others := 0 \<rparr>)"
    using Suc.hyps(1) [of "s\<lparr> ss_others := n \<rparr>"] Suc.prems by simp
  ultimately show ?case by (rule converse_rtranclp_into_rtranclp)
next
  case 0
  then have "s\<lparr> ss_others := 0 \<rparr> = s" by (cases s) simp
  then show ?case by simp
qed

text \<open>
  A call of \<open>Stop\<close> made while the receiving loop waits for the peer never returns as long as the peer is silent,
  and it can return once the peer has sent one more message.
\<close>

theorem stop_needs_the_peer:
  assumes "ss_recv s = RecvBlocked" "\<not> ss_closed s" "\<not> ss_returned s"
  shows "(\<forall>s'. (stop_step False)\<^sup>*\<^sup>* s s' \<longrightarrow> \<not> ss_returned s') \<and>
    (\<exists>s1 s2 s3. (stop_step False)\<^sup>*\<^sup>* s s1 \<and> stop_step True s1 s2 \<and> (stop_step False)\<^sup>*\<^sup>* s2 s3 \<and> ss_returned s3)"
proof
  show "\<forall>s'. (stop_step False)\<^sup>*\<^sup>* s s' \<longrightarrow> \<not> ss_returned s'" using stop_blocked assms by blast
  let ?s1 = "s\<lparr> ss_cancelled := True \<rparr>"
  let ?s2 = "?s1\<lparr> ss_recv := RecvChecking \<rparr>"
  let ?s3 = "?s2\<lparr> ss_recv := RecvDone \<rparr>"
  let ?s4 = "?s3\<lparr> ss_others := 0 \<rparr>"
  let ?s5 = "?s4\<lparr> ss_closed := True, ss_returned := True \<rparr>"
  have 1: "(stop_step False)\<^sup>*\<^sup>* s ?s1" by (intro r_into_rtranclp st_cancel)
  have 2: "stop_step True ?s1 ?s2" using assms(1) by (intro st_peer) simp
  have 3: "stop_step False ?s2 ?s3" using st_check [of ?s2] by simp
  have 4: "(stop_step False)\<^sup>*\<^sup>* ?s3 ?s4" by (rule stop_others) simp
  have 5: "stop_step False ?s4 ?s5" by (rule st_return) simp_all
  have "(stop_step False)\<^sup>*\<^sup>* ?s2 ?s5"
    using converse_rtranclp_into_rtranclp [OF 3 rtranclp.rtrancl_into_rtrancl [OF 4 5]] .
  moreover have "ss_returned ?s5" by simp
  ultimately show "\<exists>s1 s2 s3. (stop_step False)\<^sup>*\<^sup>* s s1 \<and> stop_step True s1 s2 \<and> (stop_step False)\<^sup>*\<^sup>* s2 s3 \<and> ss_returned s3"
    using 1 2 by blast
qed

theorem stop_needs_the_peer_witness:
  "\<not> (\<exists>s'. (stop_step False)\<^sup>*\<^sup>*
       \<lparr> ss_cancelled = False, ss_recv = RecvBlocked, ss_others = 4, ss_closed = False, ss_returned = False \<rparr> s' \<and> ss_returned s')"
  using stop_needs_the_peer [of "\<lparr> ss_cancelled = False, ss_recv = RecvBlocked, ss_others = 4, ss_closed = False, ss_returned = False \<rparr>"]
  by auto

end
