(* ===== verification/Detector.thy ===== *)
theory Detector
  imports Go_Float "HOL-Library.Sublist"
begin

text \<open>
  Protocol detection on the client, \<open>client/internal/detector/detector.go\<close> and \<open>connection.go\<close>, with the traffic
  classifier of \<open>client/internal/protocol/classifier.go\<close>. A connection is the list of what will still arrive on it.
  The buffered reader of \<open>bufio\<close> is its buffer. Whether the context of a detection has expired is an argument.

  Lemmas: a detecting connection delivers exactly the bytes of the connection, what the decision list of the
  detector answers and never answers, and what the other way of detecting loses.
\<close>

section \<open>Connections\<close>

datatype sock_err = ReadEOF | ReadTimeout | ReadBroken

text \<open>
  An arrival is a block of bytes with the error reported after its last byte. A read gives at most the bytes of one
  arrival; after the last one comes the end of the file.
\<close>

datatype arrival = Arrive "byte list" "sock_err option"

fun conn_read :: "nat \<Rightarrow> arrival list \<Rightarrow> (byte list \<times> sock_err option) \<times> arrival list" where
  "conn_read k [] = (([], if k = 0 then None else Some ReadEOF), [])"
| "conn_read k (Arrive bs e # s) =
     (if k = 0 then (([], None), Arrive bs e # s)
      else if length bs \<le> k then ((bs, e), s)
      else ((take k bs, None), Arrive (drop k bs) e # s))"

fun arrival_bytes :: "arrival \<Rightarrow> byte list" where
  "arrival_bytes (Arrive bs e) = bs"

definition stream_content :: "arrival list \<Rightarrow> byte list" where
  "stream_content s = concat (map arrival_bytes s)"

lemma content_simps [simp]: "stream_content [] = []" "stream_content (Arrive bs e # s) = bs @ stream_content s"
  by (simp_all add: stream_content_def)

lemma conn_read_content:
  assumes "conn_read k s = ((bs, e), s')"
  shows "bs @ stream_content s' = stream_content s" "length bs \<le> k"
  using assms by (cases "(k, s)" rule: conn_read.cases; auto split: if_splits)+

section \<open>The decision list\<close>

datatype protocol =
    ProtocolUnknown | ProtocolTCP | ProtocolUDP | ProtocolHTTP | ProtocolHTTPS | ProtocolTLS | ProtocolSSH | ProtocolSOCKS4
  | ProtocolSOCKS5 | ProtocolSMTP | ProtocolPOP3 | ProtocolIMAP | ProtocolFTP | ProtocolDNS | ProtocolRDP | ProtocolVNC
  | ProtocolMQTT | ProtocolAMQP | ProtocolPostgres | ProtocolMySQL | ProtocolRedis | ProtocolMongoDB | ProtocolMemcached
  | ProtocolSNMP | ProtocolNTP | ProtocolLDAP | ProtocolKerberos | ProtocolSMB | ProtocolRPC | ProtocolSIP | ProtocolRTSP
  | ProtocolRTMP | ProtocolWebsocket | ProtocolQUIC | ProtocolKCP | ProtocolWireGuard | ProtocolOpenVPN | ProtocolIKEv2
  | ProtocolGRE | ProtocolICMP | ProtocolText string

record detection_result =
  dr_Protocol :: protocol
  dr_Confidence :: rat
  dr_Buffer :: "byte list"

record detector_config =
  dt_BufferSize :: nat
  dt_Timeout :: int
  dt_MaxAttempts :: nat

definition DefaultDetectorConfig :: detector_config where
  "DefaultDetectorConfig = \<lparr> dt_BufferSize = 4096, dt_Timeout = 2 * 10 ^ 9, dt_MaxAttempts = 3 \<rparr>"

definition NewDetector :: "detector_config option \<Rightarrow> detector_config" where
  "NewDetector config = (case config of None \<Rightarrow> DefaultDetectorConfig | Some c \<Rightarrow> c)"

definition bytes_of :: "string \<Rightarrow> byte list" where
  "bytes_of s = map of_char s"

definition HasPrefix :: "byte list \<Rightarrow> string \<Rightarrow> bool" where
  "HasPrefix data s \<longleftrightarrow> prefix (bytes_of s) data"

fun Contains_bytes :: "byte list \<Rightarrow> byte list \<Rightarrow> bool" where
  "Contains_bytes [] p = (p = [])"
| "Contains_bytes (x # xs) p = (prefix p (x # xs) \<or> Contains_bytes xs p)"

definition detected_as :: "protocol \<Rightarrow> rat \<Rightarrow> detection_result" where
  "detected_as p c = \<lparr> dr_Protocol = p, dr_Confidence = fl c, dr_Buffer = [] \<rparr>"

definition http_method :: "byte list \<Rightarrow> bool" where
  "http_method data \<longleftrightarrow>
     list_ex (HasPrefix data) [''GET '', ''POST '', ''PUT '', ''HEAD '', ''DELETE '', ''OPTIONS '', ''CONNECT '', ''TRACE '']"

definition tls_hello :: "byte list \<Rightarrow> bool" where
  "tls_hello data \<longleftrightarrow> data ! 0 = 0x16 \<and> data ! 1 = 0x03 \<and> data ! 2 \<ge> 0x01 \<and> data ! 2 \<le> 0x04"

definition Detector_analyzeBuffer :: "byte list \<Rightarrow> detection_result" where
  "Detector_analyzeBuffer data =
     (if length data = 0 then detected_as ProtocolUnknown 0
      else if length data \<ge> 4 \<and> http_method data then detected_as ProtocolHTTP (9 / 10)
      else if length data \<ge> 4 \<and> tls_hello data then detected_as ProtocolTLS (95 / 100)
      else if HasPrefix data ''SSH-'' then detected_as ProtocolSSH (9 / 10)
      else if length data \<ge> 1 \<and> data ! 0 = 0x05 then detected_as ProtocolSOCKS5 (8 / 10)
      else if length data \<ge> 1 \<and> data ! 0 = 0x04 then detected_as ProtocolSOCKS4 (8 / 10)
      else if length data \<ge> 4 \<and>
          (HasPrefix data ''220 '' \<or> Contains_bytes data (bytes_of ''HELO'') \<or> Contains_bytes data (bytes_of ''EHLO''))
        then detected_as ProtocolSMTP (7 / 10)
      else if HasPrefix data ''+OK'' then detected_as ProtocolPOP3 (7 / 10)
      else if HasPrefix data ''* OK'' then detected_as ProtocolIMAP (7 / 10)
      else if length data \<ge> 4 \<and> (HasPrefix data ''220 '' \<or> Contains_bytes data (bytes_of ''FTP''))
        then detected_as ProtocolFTP (6 / 10)
      else if length data \<ge> 4 \<and> (data ! 2) AND 0x80 = 0 then detected_as ProtocolDNS (1 / 2)
      else if Contains_bytes data (bytes_of ''Upgrade: websocket'') then detected_as ProtocolWebsocket (85 / 100)
      else if length data > 0 then detected_as ProtocolTCP (1 / 10)
      else detected_as ProtocolUnknown 0)"

section \<open>Detection on a reader and on a connection\<close>

text \<open>\<open>avail\<close> is what the reader \<open>bufferReader\<close> holds; it fails with the end of file only.\<close>

definition DetectProtocolFromReader :: "detector_config \<Rightarrow> byte list \<Rightarrow> detection_result" where
  "DetectProtocolFromReader d avail =
     (let data = take (dt_BufferSize d) avail in (Detector_analyzeBuffer data)\<lparr> dr_Buffer := data \<rparr>)"

text \<open>
  \<open>DetectProtocol\<close>: \<open>buffered\<close> is what the buffered reader holds, \<open>i\<close> counts the attempts still to come, \<open>buffer\<close> is
  what was peeked so far. \<open>ReadByte\<close> fills an empty reader with one read, after up to a hundred empty ones, and
  takes one byte out of it; an error that came with bytes is kept for the next fill. The \<open>break\<close> statements of the source leave its \<open>select\<close> and not its loop.
\<close>

definition reader_size :: "detector_config \<Rightarrow> nat" where
  "reader_size d = max 16 (dt_BufferSize d)"

fun fill_loop :: "nat \<Rightarrow> nat \<Rightarrow> arrival list \<Rightarrow> (byte list \<times> sock_err option) \<times> arrival list" where
  "fill_loop n 0 s = (([], Some ReadBroken), s)"
| "fill_loop n (Suc i) s =
     (case conn_read n s of
        (([], None), s) \<Rightarrow> fill_loop n i s
      | r \<Rightarrow> r)"

definition ReadByte :: "nat \<Rightarrow> byte list \<Rightarrow> arrival list \<Rightarrow> (sock_err option \<times> byte list) \<times> arrival list" where
  "ReadByte n buffered s =
     (case buffered of
        _ # bs \<Rightarrow> ((None, bs), s)
      | [] \<Rightarrow>
          (case fill_loop n 100 s of
             ((_ # bs, None), s') \<Rightarrow> ((None, bs), s')
           | ((_ # bs, Some e), s') \<Rightarrow> ((None, bs), Arrive [] (Some e) # s')
           | (([], e), s') \<Rightarrow> ((e, []), s')))"

datatype detect_error = DetectTimedOut | DetectReadFailed

fun detect_loop ::
    "detector_config \<Rightarrow> (nat \<Rightarrow> bool) \<Rightarrow> nat \<Rightarrow> byte list \<Rightarrow> byte list \<Rightarrow> arrival list \<Rightarrow> (detect_error + detection_result) \<times> arrival list" where
  "detect_loop d expired 0 buffer buffered s =
     (Inr \<lparr> dr_Protocol = ProtocolUnknown, dr_Confidence = 0, dr_Buffer = buffer \<rparr>, s)"
| "detect_loop d expired (Suc i) buffer buffered s =
     (if expired i then (Inl DetectTimedOut, s)
      else (let buffer = buffer @ buffered; result = Detector_analyzeBuffer buffer in
            if dr_Protocol result \<noteq> ProtocolUnknown
            then (Inr \<lparr> dr_Protocol = dr_Protocol result, dr_Confidence = dr_Confidence result, dr_Buffer = buffer \<rparr>, s)
            else if length buffer < dt_BufferSize d
            then (case ReadByte (reader_size d) buffered s of
                    ((Some ReadTimeout, buffered), s) \<Rightarrow> detect_loop d expired i buffer buffered s
                  | ((Some ReadEOF, buffered), s) \<Rightarrow> detect_loop d expired i buffer buffered s
                  | ((Some ReadBroken, buffered), s) \<Rightarrow> (Inl DetectReadFailed, s)
                  | ((None, buffered), s) \<Rightarrow> detect_loop d expired i buffer buffered s)
            else detect_loop d expired i buffer buffered s))"

definition Detector_DetectProtocol ::
    "detector_config \<Rightarrow> (nat \<Rightarrow> bool) \<Rightarrow> arrival list \<Rightarrow> (detect_error + detection_result) \<times> arrival list" where
  "Detector_DetectProtocol d expired s = detect_loop d expired (dt_MaxAttempts d) [] [] s"

section \<open>Detecting connections\<close>

record detecting_conn =
  dc_Conn :: "arrival list"
  dc_detector :: detector_config
  dc_detected :: bool
  dc_detectionResult :: "detection_result option"
  dc_peekBuffer :: "byte list"
  dc_peekSize :: nat

definition NewDetectingConn :: "arrival list \<Rightarrow> detector_config \<Rightarrow> int \<Rightarrow> detecting_conn" where
  "NewDetectingConn c d peekSize =
     \<lparr> dc_Conn = c, dc_detector = d, dc_detected = False, dc_detectionResult = None, dc_peekBuffer = [],
       dc_peekSize = (if peekSize \<le> 0 then 1024 else nat peekSize) \<rparr>"

definition DetectingConn_detectProtocol :: "detecting_conn \<Rightarrow> detecting_conn" where
  "DetectingConn_detectProtocol dc =
     (if dc_detected dc \<or> dc_peekBuffer dc = [] then dc
      else dc\<lparr> dc_detectionResult := Some (DetectProtocolFromReader (dc_detector dc) (dc_peekBuffer dc)), dc_detected := True \<rparr>)"

definition pre_read :: "nat \<Rightarrow> detecting_conn \<Rightarrow> sock_err option \<times> detecting_conn" where
  "pre_read k dc =
     (if \<not> dc_detected dc \<and> length (dc_peekBuffer dc) < dc_peekSize dc
      then (let needed = min (dc_peekSize dc - length (dc_peekBuffer dc)) k;
                ((bs, e), s) = conn_read needed (dc_Conn dc);
                dc = dc\<lparr> dc_Conn := s, dc_peekBuffer := dc_peekBuffer dc @ bs \<rparr>
            in (e, if bs \<noteq> [] \<and> (length (dc_peekBuffer dc) \<ge> 16 \<or> e \<noteq> None) then DetectingConn_detectProtocol dc else dc))
      else (None, dc))"

definition DetectingConn_Read :: "nat \<Rightarrow> detecting_conn \<Rightarrow> (byte list \<times> sock_err option) \<times> detecting_conn" where
  "DetectingConn_Read k dc =
     (let (e, dc) = pre_read k dc in
      if e \<noteq> None \<and> e \<noteq> Some ReadEOF then (([], e), dc)
      else if dc_peekBuffer dc \<noteq> []
      then ((take k (dc_peekBuffer dc), None), dc\<lparr> dc_peekBuffer := drop k (dc_peekBuffer dc) \<rparr>)
      else (let (r, s) = conn_read k (dc_Conn dc) in (r, dc\<lparr> dc_Conn := s \<rparr>)))"

definition DetectingConn_GetDetectionResult :: "detecting_conn \<Rightarrow> detection_result option \<times> detecting_conn" where
  "DetectingConn_GetDetectionResult dc =
     (let dc = (if \<not> dc_detected dc \<and> dc_peekBuffer dc \<noteq> [] then DetectingConn_detectProtocol dc else dc)
      in (dc_detectionResult dc, dc))"

definition DetectingConn_IsDetected :: "detecting_conn \<Rightarrow> bool" where
  "DetectingConn_IsDetected dc = dc_detected dc"

lemma conn_read_progress:
  assumes "conn_read k s = ((bs, None), s')" "k > 0"
  shows "bs \<noteq> [] \<and> length s' \<le> length s \<or> length s' < length s"
  using assms by (cases "(k, s)" rule: conn_read.cases) (auto split: if_splits)

lemma peek_loop_decreases:
  assumes "length buf < n" "conn_read (n - length buf) s = ((bs, None), s')"
  shows "n - length (buf @ bs) + length s' < n + length s - length buf"
  using conn_read_progress [OF assms(2)] conn_read_content(2) [OF assms(2)] assms(1)
  by (cases bs) auto

text \<open>The loop of \<open>PeekProtocol\<close>: the error it returns with, the buffer, and what is left on the connection.\<close>

function peek_loop :: "nat \<Rightarrow> byte list \<Rightarrow> arrival list \<Rightarrow> (sock_err option \<times> byte list) \<times> arrival list" where
  "peek_loop n buf s =
     (if length buf < n
      then (case conn_read (n - length buf) s of
              ((bs, Some err), s') \<Rightarrow>
                if err = ReadEOF \<or> length (buf @ bs) > 0 then ((None, buf @ bs), s') else ((Some err, buf @ bs), s')
            | ((bs, None), s') \<Rightarrow> if length (buf @ bs) \<ge> 64 then ((None, buf @ bs), s') else peek_loop n (buf @ bs) s')
      else ((None, buf), s))"
  by pat_completeness auto

termination
  by (relation "measure (\<lambda>(n, buf, s). (n - length buf) + length s)") (auto intro!: peek_loop_decreases simp del: length_append)

declare peek_loop.simps [simp del]

definition DetectingConn_PeekProtocol :: "detecting_conn \<Rightarrow> (sock_err + detection_result option) \<times> detecting_conn" where
  "DetectingConn_PeekProtocol dc =
     (if dc_detected dc then (Inr (dc_detectionResult dc), dc)
      else (let ((e, buf), s) = peek_loop (dc_peekSize dc) (dc_peekBuffer dc) (dc_Conn dc);
                dc = dc\<lparr> dc_Conn := s, dc_peekBuffer := buf \<rparr>
            in case e of
                 Some err \<Rightarrow> (Inl err, dc)
               | None \<Rightarrow>
                   if dc_peekBuffer dc \<noteq> []
                   then (let dc = DetectingConn_detectProtocol dc in (Inr (dc_detectionResult dc), dc))
                   else (Inr (Some \<lparr> dr_Protocol = ProtocolUnknown, dr_Confidence = 0, dr_Buffer = [] \<rparr>), dc)))"

section \<open>Transparency\<close>

lemma peek_loop_content:
  "peek_loop n buf s = ((e, buf'), s') \<Longrightarrow> buf' @ stream_content s' = buf @ stream_content s \<and> prefix buf buf' \<and> (e \<noteq> None \<longrightarrow> buf' = [])"
proof (induction n buf s rule: peek_loop.induct)
  case (1 n buf s)
  show ?case
  proof (cases "length buf < n")
    case True
    obtain bs e1 s1 where r: "conn_read (n - length buf) s = ((bs, e1), s1)" by (metis prod_cases3 surj_pair)
    note c = conn_read_content(1) [OF r]
    show ?thesis
    proof (cases "e1 = None \<and> length (buf @ bs) < 64")
      case more: True
      then have "peek_loop n buf s = peek_loop n (buf @ bs) s1" using True r by (simp add: peek_loop.simps [of n buf s])
      with 1(1) [OF True r [symmetric] refl] more 1(2)
      have "buf' @ stream_content s' = (buf @ bs) @ stream_content s1 \<and> prefix (buf @ bs) buf' \<and> (e \<noteq> None \<longrightarrow> buf' = [])"
        by simp
      then show ?thesis using c by (auto dest: append_prefixD)
    next
      case False
      then show ?thesis using 1(2) True r c
        by (auto simp: peek_loop.simps [of n buf s] Let_def split: option.splits if_splits)
    qed
  next
    case False
    then show ?thesis using 1(2) by (simp add: peek_loop.simps [of n buf s])
  qed
qed

definition pending_bytes :: "detecting_conn \<Rightarrow> byte list" where
  "pending_bytes dc = dc_peekBuffer dc @ stream_content (dc_Conn dc)"

lemma detect_pending [simp]:
  "dc_peekBuffer (DetectingConn_detectProtocol dc) = dc_peekBuffer dc" "dc_Conn (DetectingConn_detectProtocol dc) = dc_Conn dc"
  "dc_peekSize (DetectingConn_detectProtocol dc) = dc_peekSize dc"
  by (simp_all add: DetectingConn_detectProtocol_def)

lemma pre_read_pending:
  assumes "pre_read k dc = (e, dc')"
  shows "pending_bytes dc' = pending_bytes dc"
proof (cases "\<not> dc_detected dc \<and> length (dc_peekBuffer dc) < dc_peekSize dc")
  case True
  obtain bs e1 s1 where r: "conn_read (min (dc_peekSize dc - length (dc_peekBuffer dc)) k) (dc_Conn dc) = ((bs, e1), s1)"
    by (metis prod_cases3 surj_pair)
  show ?thesis using assms True r conn_read_content(1) [OF r] by (auto simp: pre_read_def Let_def pending_bytes_def split: if_splits)
next
  case False
  then show ?thesis using assms by (auto simp: pre_read_def)
qed

lemma take_drop_append: "take k xs @ drop k xs @ ys = xs @ ys"
  by (simp flip: append_assoc)

lemma read_pending:
  assumes "DetectingConn_Read k dc = ((bs, e), dc')"
  shows "bs @ pending_bytes dc' = pending_bytes dc" "length bs \<le> k"
proof -
  obtain e1 dc1 where p: "pre_read k dc = (e1, dc1)" by fastforce
  obtain r s where s: "conn_read k (dc_Conn dc1) = (r, s)" by fastforce
  note m = pre_read_pending [OF p]
  show "bs @ pending_bytes dc' = pending_bytes dc"
    using assms p m s conn_read_content(1) [of k "dc_Conn dc1" "fst r" "snd r" s]
    by (cases r) (auto simp: DetectingConn_Read_def pending_bytes_def take_drop_append split: if_splits)
  show "length bs \<le> k"
    using assms p s conn_read_content(2) [of k "dc_Conn dc1" "fst r" "snd r" s]
    by (cases r) (auto simp: DetectingConn_Read_def split: if_splits)
qed

lemma peek_pending:
  assumes "DetectingConn_PeekProtocol dc = (r, dc')"
  shows "pending_bytes dc' = pending_bytes dc"
proof (cases "dc_detected dc")
  case False
  obtain e buf s where l: "peek_loop (dc_peekSize dc) (dc_peekBuffer dc) (dc_Conn dc) = ((e, buf), s)" by (metis prod_cases3 surj_pair)
  show ?thesis using assms False l peek_loop_content [OF l]
    by (auto simp: DetectingConn_PeekProtocol_def pending_bytes_def Let_def split: option.splits if_splits)
qed (use assms in \<open>auto simp: DetectingConn_PeekProtocol_def\<close>)

text \<open>The runs of a detecting connection on the arrivals \<open>s\<close>, with the bytes delivered so far.\<close>

inductive dc_run :: "arrival list \<Rightarrow> byte list \<Rightarrow> detecting_conn \<Rightarrow> bool" for s where
  dc_new: "dc_run s [] (NewDetectingConn s d n)"
| dc_read: "dc_run s out dc \<Longrightarrow> DetectingConn_Read k dc = ((bs, e), dc') \<Longrightarrow> dc_run s (out @ bs) dc'"
| dc_peek: "dc_run s out dc \<Longrightarrow> DetectingConn_PeekProtocol dc = (r, dc') \<Longrightarrow> dc_run s out dc'"
| dc_get: "dc_run s out dc \<Longrightarrow> DetectingConn_GetDetectionResult dc = (r, dc') \<Longrightarrow> dc_run s out dc'"

lemma dc_run_pending: "dc_run s out dc \<Longrightarrow> out @ pending_bytes dc = stream_content s"
proof (induction rule: dc_run.induct)
  case (dc_new d n)
  show ?case by (simp add: pending_bytes_def NewDetectingConn_def)
next
  case (dc_read out dc k bs e dc')
  then show ?case using read_pending(1) [OF dc_read.hyps(2)] by simp
next
  case (dc_peek out dc r dc')
  then show ?case using peek_pending [OF dc_peek.hyps(2)] by simp
next
  case (dc_get out dc r dc')
  then have "pending_bytes dc' = pending_bytes dc"
    by (auto simp: DetectingConn_GetDetectionResult_def pending_bytes_def Let_def split: if_splits)
  then show ?case using dc_get.IH by simp
qed

lemma proper_read:
  assumes "DetectingConn_Read k dc = (([], None), dc')" "0 < k"
  shows "Arrive [] None \<in> set (dc_Conn dc)"
proof -
  have c: "Arrive [] None \<in> set s" if "conn_read k s = (([], None), s')" "0 < k" for k s s'
    using that by (cases "(k, s)" rule: conn_read.cases) (auto split: if_splits)
  have sub: "set s' \<subseteq> set s \<union> {Arrive bs e |bs e. bs \<noteq> []}" if "conn_read k s = (r, s')" for k s s' r
    using that by (cases "(k, s)" rule: conn_read.cases) (auto split: if_splits)
  obtain e1 dc1 where p: "pre_read k dc = (e1, dc1)" by fastforce
  obtain r s where s: "conn_read k (dc_Conn dc1) = (r, s)" by fastforce
  have q: "dc_peekBuffer dc1 = []" "r = ([], None)"
    using assms p s by (auto simp: DetectingConn_Read_def split: if_splits)
  have in1: "Arrive [] None \<in> set (dc_Conn dc1)" using c s q(2) assms(2) by blast
  have "dc_Conn dc1 = snd (conn_read (min (dc_peekSize dc - length (dc_peekBuffer dc)) k) (dc_Conn dc)) \<or> dc_Conn dc1 = dc_Conn dc"
    using p by (auto simp: pre_read_def Let_def split: if_splits prod.splits)
  then have "set (dc_Conn dc1) \<subseteq> set (dc_Conn dc) \<union> {Arrive bs e |bs e. bs \<noteq> []}"
    using sub [OF prod.collapse [symmetric]] by (elim disjE) (simp, simp)
  then show ?thesis using in1 by auto
qed

text \<open>
  C27: whatever a caller does with a detecting connection, the bytes it has read, followed by those still to come, are
  exactly the bytes of the connection; a read gives at most what fits, and gives nothing without an error only when
  the connection itself did.
\<close>

theorem detecting_conn_transparent:
  assumes "dc_run s out dc" "DetectingConn_Read k dc = ((bs, e), dc')"
  shows "out @ bs @ dc_peekBuffer dc' @ stream_content (dc_Conn dc') = stream_content s \<and> length bs \<le> k \<and>
    (bs = [] \<and> e = None \<and> 0 < k \<longrightarrow> Arrive [] None \<in> set (dc_Conn dc))"
proof -
  have "out @ pending_bytes dc = stream_content s" using dc_run_pending [OF assms(1)] .
  then show ?thesis using read_pending [OF assms(2)] proper_read [of k dc dc'] assms(2)
    by (auto simp: pending_bytes_def)
qed

theorem detecting_conn_transparent_witness:
  "fst (DetectingConn_Read 2 (NewDetectingConn [Arrive [1, 2, 3] None] DefaultDetectorConfig 0)) = ([1, 2], None) \<and>
   [] @ [1, 2] @ dc_peekBuffer (snd (DetectingConn_Read 2 (NewDetectingConn [Arrive [1, 2, 3] None] DefaultDetectorConfig 0))) @
     stream_content (dc_Conn (snd (DetectingConn_Read 2 (NewDetectingConn [Arrive [1, 2, 3] None] DefaultDetectorConfig 0)))) = [1, 2, 3]"
proof -
  let ?dc = "NewDetectingConn [Arrive [1, 2, 3] None] DefaultDetectorConfig 0"
  have r: "fst (DetectingConn_Read 2 ?dc) = ([1, 2], None)"
    by (simp add: DetectingConn_Read_def pre_read_def NewDetectingConn_def Let_def)
  then have "DetectingConn_Read 2 ?dc = (([1, 2], None), snd (DetectingConn_Read 2 ?dc))" by (metis prod.collapse)
  from detecting_conn_transparent [OF dc_new this] r show ?thesis by simp
qed

text \<open>Detection before the first read looks at the beginning of the stream.\<close>

lemma peek_result_prefix:
  assumes "DetectingConn_PeekProtocol (NewDetectingConn s d n) = (Inr r, dc)"
  shows "\<exists>p. r = Some (Detector_analyzeBuffer p\<lparr> dr_Buffer := p \<rparr>) \<and> prefix p (stream_content s) \<or>
    r = Some \<lparr> dr_Protocol = ProtocolUnknown, dr_Confidence = 0, dr_Buffer = [] \<rparr>"
proof -
  let ?dc = "NewDetectingConn s d n"
  obtain e buf s' where l: "peek_loop (dc_peekSize ?dc) [] s = ((e, buf), s')" by (metis prod_cases3 surj_pair)
  have "prefix (take (dt_BufferSize d) buf) (stream_content s)"
    using peek_loop_content [OF l] by (metis append_Nil prefixI take_is_prefix prefix_order.trans)
  then show ?thesis using assms l
    by (auto simp: DetectingConn_PeekProtocol_def DetectingConn_detectProtocol_def NewDetectingConn_def
        DetectProtocolFromReader_def Let_def split: option.splits if_splits)
qed

section \<open>Deviations of the detection\<close>

text \<open>
  Of four bytes or more whose third is below 0x80, every text among them, none is detected as TCP, WebSocket or
  unknown: the test for DNS catches all that nothing else did. \<open>220\<close>, the greeting of FTP too, is always SMTP.
\<close>

theorem short_queries_are_dns:
  assumes "4 \<le> length data" "(data ! 2) AND 0x80 = 0"
  shows "dr_Protocol (Detector_analyzeBuffer data) \<notin> {ProtocolUnknown, ProtocolTCP, ProtocolWebsocket} \<and>
    (HasPrefix data ''220 '' \<longrightarrow> dr_Protocol (Detector_analyzeBuffer data) \<noteq> ProtocolFTP)"
proof -
  have "data \<noteq> []" using assms(1) by auto
  then show ?thesis using assms by (simp add: Detector_analyzeBuffer_def detected_as_def)
qed

text \<open>
  \<open>DetectProtocol\<close> looks at what the buffered reader holds before it has read anything, and then fills it with
  \<open>ReadByte\<close>, which takes the first byte: the detection sees the stream without its first byte, and so does the
  caller, who gets the peeked bytes in its place.
\<close>

lemma analyze_unknown: "dr_Protocol (Detector_analyzeBuffer data) = ProtocolUnknown \<longleftrightarrow> data = []"
  by (simp add: Detector_analyzeBuffer_def detected_as_def)

theorem detection_drops_first_byte:
  assumes "2 \<le> dt_MaxAttempts d" "0 < dt_BufferSize d" "bs \<noteq> []" "Suc (length bs) \<le> reader_size d"
  shows "Detector_DetectProtocol d (\<lambda>_. False) (Arrive (b # bs) None # s) =
    (Inr ((Detector_analyzeBuffer bs)\<lparr> dr_Buffer := bs \<rparr>), s)"
proof -
  obtain n where n: "dt_MaxAttempts d = Suc (Suc n)" using assms(1) by (metis Suc_le_D numeral_2_eq_2 Suc_le_D Suc_le_mono)
  have "ReadByte (reader_size d) [] (Arrive (b # bs) None # s) = ((None, bs), s)" using assms(4) by (simp add: ReadByte_def numeral_eq_Suc)
  moreover have "dr_Protocol (Detector_analyzeBuffer []) = ProtocolUnknown" "dr_Protocol (Detector_analyzeBuffer bs) \<noteq> ProtocolUnknown"
    using assms(3) analyze_unknown by blast+
  ultimately show ?thesis using assms(2)
    by (cases "Detector_analyzeBuffer bs") (simp add: Detector_DetectProtocol_def n Let_def)
qed

text \<open>So a GET request is not detected as HTTP.\<close>

theorem get_request_undetected:
  "map_sum id dr_Protocol (fst (Detector_DetectProtocol DefaultDetectorConfig (\<lambda>_. False)
     [Arrive (bytes_of ''GET / HTTP/1.1'') None])) = Inr ProtocolDNS"
proof -
  have g: "bytes_of ''GET / HTTP/1.1'' = of_char (CHR ''G'') # bytes_of ''ET / HTTP/1.1''" by (simp add: bytes_of_def)
  have "dr_Protocol (Detector_analyzeBuffer (bytes_of ''ET / HTTP/1.1'')) = ProtocolDNS"
    by (simp add: Detector_analyzeBuffer_def detected_as_def bytes_of_def http_method_def HasPrefix_def tls_hello_def)
  then show ?thesis unfolding g
    by (subst detection_drops_first_byte) (simp_all add: DefaultDetectorConfig_def reader_size_def bytes_of_def)
qed

text \<open>A caller that reads in blocks below sixteen bytes gets every byte of a block at once, and no detection ever runs.\<close>

theorem small_reads_undetected:
  assumes "\<not> dc_detected dc \<and> 0 < dc_peekSize dc" "dc_peekBuffer dc = []" "k < 16" "DetectingConn_Read k dc = ((bs, None), dc')"
    and "\<forall>b e. Arrive b e \<in> set (dc_Conn dc) \<longrightarrow> e = None"
  shows "\<not> dc_detected dc' \<and> dc_peekBuffer dc' = []"
proof -
  have c: "e = None \<or> s = []" if "conn_read k s = ((bs, e), s')" "\<forall>b e. Arrive b e \<in> set s \<longrightarrow> e = None" for k s bs e s'
    using that by (cases "(k, s)" rule: conn_read.cases) (auto split: if_splits)
  obtain bs1 e1 s1 where r: "conn_read (min (dc_peekSize dc) k) (dc_Conn dc) = ((bs1, e1), s1)" by (metis prod_cases3 surj_pair)
  have "length bs1 < 16" "e1 = None \<or> bs1 = []" "length bs1 \<le> k"
    using conn_read_content(2) [OF r] assms(3) c [OF r assms(5)] r by (auto split: if_splits)
  then show ?thesis using assms(1,2,4) r
    by (cases "conn_read k s1") (auto simp: DetectingConn_Read_def pre_read_def Let_def split: if_splits)
qed

text \<open>A first block of less than sixteen bytes is handed out undetected, and the detection judges the second block alone.\<close>

theorem second_block_is_judged:
  assumes "0 < length a \<and> length a < 16" "16 \<le> length b \<and> length b \<le> 1024" "length b \<le> dt_BufferSize d"
  shows "dc_detectionResult (snd (DetectingConn_Read 1024 (snd (DetectingConn_Read 1024
      (NewDetectingConn (Arrive a None # Arrive b None # s) d 0))))) = Some ((Detector_analyzeBuffer b)\<lparr> dr_Buffer := b \<rparr>)"
proof -
  have 1: "snd (DetectingConn_Read 1024 (NewDetectingConn (Arrive a None # Arrive b None # s) d 0)) =
      NewDetectingConn (Arrive b None # s) d 0"
    using assms(1) by (simp add: DetectingConn_Read_def pre_read_def NewDetectingConn_def Let_def)
  have "b \<noteq> []" using assms(2) by auto
  then show ?thesis unfolding 1 using assms(2,3)
    by (simp add: DetectingConn_Read_def pre_read_def NewDetectingConn_def Let_def DetectingConn_detectProtocol_def
        DetectProtocolFromReader_def)
qed

section \<open>Dispatch and rules\<close>

text \<open>A handler is named; handling a connection is giving it, with its result, to a handler.\<close>

record 'h connection_manager =
  cm_detector :: detector_config
  cm_handlers :: "(protocol \<times> 'h) list"
  cm_totalConnections :: int
  cm_detectedConnections :: int
  cm_handledConnections :: int

definition NewConnectionManager :: "'h connection_manager" where
  "NewConnectionManager =
     \<lparr> cm_detector = NewDetector None, cm_handlers = [], cm_totalConnections = 0, cm_detectedConnections = 0, cm_handledConnections = 0 \<rparr>"

definition ConnectionManager_RegisterHandler :: "protocol \<Rightarrow> 'h \<Rightarrow> 'h connection_manager \<Rightarrow> 'h connection_manager" where
  "ConnectionManager_RegisterHandler p h cm = cm\<lparr> cm_handlers := AList.update p h (cm_handlers cm) \<rparr>"

datatype 'h handled = PeekFailed sock_err | NoHandler | HandledBy 'h detecting_conn "detection_result option" | ResultNil

definition find_handler :: "protocol \<Rightarrow> (protocol \<times> 'h) list \<Rightarrow> 'h option" where
  "find_handler p hs = (case map_of hs p of Some h \<Rightarrow> Some h | None \<Rightarrow> map_of hs ProtocolUnknown)"

definition ConnectionManager_HandleConnection ::
    "arrival list \<Rightarrow> 'h connection_manager \<Rightarrow> 'h handled \<times> 'h connection_manager" where
  "ConnectionManager_HandleConnection conn cm =
     (let cm = cm\<lparr> cm_totalConnections := add64 (cm_totalConnections cm) 1 \<rparr>;
          (r, dc) = DetectingConn_PeekProtocol (NewDetectingConn conn (cm_detector cm) 1024)
      in case r of
           Inl e \<Rightarrow> (PeekFailed e, cm)
         | Inr None \<Rightarrow> (ResultNil, cm)
         | Inr (Some result) \<Rightarrow>
             (let cm = cm\<lparr> cm_detectedConnections := add64 (cm_detectedConnections cm) 1 \<rparr> in
              case find_handler (dr_Protocol result) (cm_handlers cm) of
                None \<Rightarrow> (NoHandler, cm)
              | Some h \<Rightarrow>
                  (HandledBy h dc (Some result), cm\<lparr> cm_handledConnections := add64 (cm_handledConnections cm) 1 \<rparr>)))"

record match_rule =
  mr_Protocol :: protocol
  mr_Confidence :: rat
  mr_Action :: string
  mr_Target :: string

fun ProtocolMatcher_Match :: "detection_result \<Rightarrow> match_rule list \<Rightarrow> match_rule option" where
  "ProtocolMatcher_Match result [] = None"
| "ProtocolMatcher_Match result (rule # rules) =
     (if mr_Protocol rule = dr_Protocol result \<and> dr_Confidence result \<ge> mr_Confidence rule then Some rule
      else ProtocolMatcher_Match result rules)"

definition ProtocolMatcher_AddRule :: "match_rule \<Rightarrow> match_rule list \<Rightarrow> match_rule list" where
  "ProtocolMatcher_AddRule rule rules = rules @ [rule]"

text \<open>
  A connection given to a handler comes with all its bytes, and the handler is that of the protocol of a beginning of
  them, or else the default one.
\<close>

theorem handler_gets_whole_stream:
  assumes "ConnectionManager_HandleConnection conn cm = (HandledBy h dc r, cm')"
  shows "dc_run conn [] dc \<and> pending_bytes dc = stream_content conn \<and>
    (\<exists>p. prefix p (stream_content conn) \<and> find_handler (dr_Protocol (Detector_analyzeBuffer p)) (cm_handlers cm) = Some h)"
proof -
  obtain result where p: "DetectingConn_PeekProtocol (NewDetectingConn conn (cm_detector cm) 1024) = (Inr (Some result), dc)"
    and h: "find_handler (dr_Protocol result) (cm_handlers cm) = Some h"
    using assms by (auto simp: ConnectionManager_HandleConnection_def Let_def split: prod.splits sum.splits option.splits)
  have run: "dc_run conn [] dc" by (rule dc_peek [OF dc_new p])
  have "\<exists>q. prefix q (stream_content conn) \<and> dr_Protocol (Detector_analyzeBuffer q) = dr_Protocol result"
  proof -
    from peek_result_prefix [OF p] obtain q where "result = Detector_analyzeBuffer q\<lparr> dr_Buffer := q \<rparr> \<and> prefix q (stream_content conn) \<or>
        result = \<lparr> dr_Protocol = ProtocolUnknown, dr_Confidence = 0, dr_Buffer = [] \<rparr>" by auto
    then show ?thesis
    proof
      assume "result = \<lparr> dr_Protocol = ProtocolUnknown, dr_Confidence = 0, dr_Buffer = [] \<rparr>"
      then have "dr_Protocol (Detector_analyzeBuffer []) = dr_Protocol result" using analyze_unknown [of "[]"] by simp
      then show ?thesis using Nil_prefix by blast
    qed auto
  qed
  then show ?thesis using run dc_run_pending [OF run] h by auto
qed

section \<open>Traffic classification\<close>

datatype traffic_type =
    TrafficTypeTCP | TrafficTypeUDP | TrafficTypeHTTP | TrafficTypeHTTPS | TrafficTypeWebSocket | TrafficTypeSSH
  | TrafficTypeDNS | TrafficTypeUnknown

fun traffic_text :: "traffic_type \<Rightarrow> string" where
  "traffic_text TrafficTypeTCP = ''tcp''"
| "traffic_text TrafficTypeUDP = ''udp''"
| "traffic_text TrafficTypeHTTP = ''http''"
| "traffic_text TrafficTypeHTTPS = ''https''"
| "traffic_text TrafficTypeWebSocket = ''websocket''"
| "traffic_text TrafficTypeSSH = ''ssh''"
| "traffic_text TrafficTypeDNS = ''dns''"
| "traffic_text TrafficTypeUnknown = ''unknown''"

record classification =
  cl_TrafficType :: traffic_type
  cl_Protocol :: protocol
  cl_Confidence :: rat
  cl_Buffer :: "byte list"

record classifier =
  cf_detector :: detector_config
  cf_EnableCache :: bool
  cf_cache :: "(string \<times> traffic_type) list"

definition NewClassifier :: "nat \<Rightarrow> int \<Rightarrow> bool \<Rightarrow> classifier" where
  "NewClassifier bufferSize timeout enableCache =
     \<lparr> cf_detector = \<lparr> dt_BufferSize = bufferSize, dt_Timeout = timeout, dt_MaxAttempts = 3 \<rparr>, cf_EnableCache = enableCache,
       cf_cache = [] \<rparr>"

fun mapProtocolToTrafficType :: "protocol \<Rightarrow> traffic_type" where
  "mapProtocolToTrafficType ProtocolTCP = TrafficTypeTCP"
| "mapProtocolToTrafficType ProtocolUDP = TrafficTypeUDP"
| "mapProtocolToTrafficType ProtocolHTTP = TrafficTypeHTTP"
| "mapProtocolToTrafficType ProtocolTLS = TrafficTypeHTTPS"
| "mapProtocolToTrafficType ProtocolHTTPS = TrafficTypeHTTPS"
| "mapProtocolToTrafficType ProtocolWebsocket = TrafficTypeWebSocket"
| "mapProtocolToTrafficType ProtocolSSH = TrafficTypeSSH"
| "mapProtocolToTrafficType ProtocolDNS = TrafficTypeDNS"
| "mapProtocolToTrafficType _ = TrafficTypeUnknown"

text \<open>\<open>connID\<close> is the two addresses of the connection. A cached type is cast to a protocol, as text.\<close>

definition Classifier_Classify ::
    "(nat \<Rightarrow> bool) \<Rightarrow> string \<Rightarrow> arrival list \<Rightarrow> classifier \<Rightarrow> (detect_error + classification) \<times> arrival list \<times> classifier" where
  "Classifier_Classify expired connID s c =
     (case (if cf_EnableCache c then map_of (cf_cache c) connID else None) of
        Some t \<Rightarrow>
          (Inr \<lparr> cl_TrafficType = t, cl_Protocol = ProtocolText (traffic_text t), cl_Confidence = 1, cl_Buffer = [] \<rparr>, s, c)
      | None \<Rightarrow>
          (case Detector_DetectProtocol (cf_detector c) expired s of
             (Inl e, s) \<Rightarrow> (Inl e, s, c)
           | (Inr r, s) \<Rightarrow>
               (let t = mapProtocolToTrafficType (dr_Protocol r)
                in (Inr \<lparr> cl_TrafficType = t, cl_Protocol = dr_Protocol r, cl_Confidence = dr_Confidence r, cl_Buffer = dr_Buffer r \<rparr>, s,
                    if cf_EnableCache c then c\<lparr> cf_cache := AList.update connID t (cf_cache c) \<rparr> else c))))"

definition Classifier_ClearCache :: "classifier \<Rightarrow> classifier" where
  "Classifier_ClearCache c = c\<lparr> cf_cache := [] \<rparr>"

text \<open>
  Until the cache is cleared, a second connection between the same two addresses is answered with the type of the
  first, whatever it sends, and with a protocol that is none of the detector's.
\<close>

theorem classification_sticks:
  assumes "Classifier_Classify expired connID s c = (Inr r, s', c')" "cf_EnableCache c"
  shows "\<exists>r'. Classifier_Classify expired' connID s2 c' = (Inr r', s2, c') \<and> cl_TrafficType r' = cl_TrafficType r \<and>
    cl_Protocol r' = ProtocolText (traffic_text (cl_TrafficType r))"
proof (cases "map_of (cf_cache c) connID")
  case None
  then show ?thesis using assms
    by (auto simp: Classifier_Classify_def Let_def split: prod.splits sum.splits)
next
  case (Some t)
  then show ?thesis using assms by (auto simp: Classifier_Classify_def)
qed

end
