(* ===== verification/Buffers.thy ===== *)
theory Buffers
  imports Go_Float
begin

text \<open>
  The buffer manager of the client's protocol layer, \<open>client/internal/protocol/buffer.go\<close>. The memory is a store of byte
  arrays, each of its capacity, that never shrinks; a slice is an array with a length (all slices start at the array's
  beginning). Handles (\<open>SmartBuffer\<close>), reference counters and the records of buffers are stores as well, since the
  source shares them by pointer. What \<open>sync.Pool\<close> does is left open as its documentation leaves it: \<open>Get\<close> gives any
  element or a new one (\<open>pick\<close>), and elements may vanish. A call of \<open>panic\<close> in the source is the panic
  \<open>InvalidArgument\<close>.

  Lemmas: two handles share memory only by cloning, the choice of a pool, and where writing and releasing go wrong.
\<close>

section \<open>State\<close>

record buffer_config =
  bf_PoolSizes :: "int list"
  bf_MaxPoolSize :: int
  bf_MinRetainTime :: int
  bf_MaxIdleTime :: int
  bf_MaxTotalMemory :: int
  bf_GCThreshold :: rat
  bf_EnableMonitoring :: bool
  bf_EnableWarmup :: bool
  bf_WarmupCount :: nat
  bf_EnableMetrics :: bool
  bf_EnableAlignment :: bool

definition DefaultBufferConfig :: buffer_config where
  "DefaultBufferConfig =
     \<lparr> bf_PoolSizes = [512, 1024, 2048, 4096, 8192, 16384, 32768, 65536], bf_MaxPoolSize = 1000,
       bf_MinRetainTime = 60 * 10 ^ 9, bf_MaxIdleTime = 600 * 10 ^ 9, bf_MaxTotalMemory = 512 * 1024 * 1024,
       bf_GCThreshold = fl (8 / 10), bf_EnableMonitoring = True, bf_EnableWarmup = True, bf_WarmupCount = 10,
       bf_EnableMetrics = True, bf_EnableAlignment = True \<rparr>"

record buffer_info =
  bi_Size :: int
  bi_AllocatedAt :: int
  bi_LastUsed :: int
  bi_UseCount :: int

record buffer_pool =
  bp_free :: "nat list"
  bp_allocated :: int
  bp_released :: int
  bp_inUse :: int
  bp_peak :: int
  bp_buffers :: "(nat \<times> nat) list"

record smart_buffer =
  sb_data :: "nat option"
  sb_len :: int
  sb_size :: int
  sb_capacity :: int
  sb_pool :: "int option"
  sb_info :: "nat option"
  sb_released :: bool
  sb_refCount :: nat

record buffer_manager =
  bm_config :: buffer_config
  bm_pools :: "(int \<times> buffer_pool) list"
  bm_store :: "byte list list"
  bm_refs :: "int list"
  bm_infos :: "buffer_info list"
  bm_handles :: "smart_buffer list"
  bm_totalAllocated :: int
  bm_totalReleased :: int
  bm_totalMemory :: int
  bm_poolHits :: int
  bm_poolMisses :: int
  bm_gcTriggers :: int
  bm_peakMemory :: int

definition empty_pool :: buffer_pool where
  "empty_pool = \<lparr> bp_free = [], bp_allocated = 0, bp_released = 0, bp_inUse = 0, bp_peak = 0, bp_buffers = [] \<rparr>"

definition NewBufferManager :: "buffer_config option \<Rightarrow> buffer_manager" where
  "NewBufferManager config =
     (let config = (case config of None \<Rightarrow> DefaultBufferConfig | Some c \<Rightarrow> c)
      in \<lparr> bm_config = config, bm_pools = fold (\<lambda>sz. AList.update sz empty_pool) (bf_PoolSizes config) [], bm_store = [],
           bm_refs = [], bm_infos = [], bm_handles = [], bm_totalAllocated = 0, bm_totalReleased = 0, bm_totalMemory = 0,
           bm_poolHits = 0, bm_poolMisses = 0, bm_gcTriggers = 0, bm_peakMemory = 0 \<rparr>)"

section \<open>Allocation\<close>

text \<open>The loop of \<open>findBestPoolSize\<close> over the keys of the map in the order \<open>ord\<close>.\<close>

definition findBestPoolSize :: "int list \<Rightarrow> int \<Rightarrow> int" where
  "findBestPoolSize ord sz =
     fold (\<lambda>poolSize best. if poolSize \<ge> sz \<and> (best = 0 \<or> poolSize < best) then poolSize else best) ord 0"

definition triggerGC :: "buffer_manager \<Rightarrow> buffer_manager" where
  "triggerGC m =
     m\<lparr> bm_gcTriggers := add64 (bm_gcTriggers m) 1,
        bm_peakMemory := (if bm_totalMemory m \<le> bm_peakMemory m then bm_peakMemory m else bm_totalMemory m) \<rparr>"

definition aligned_size :: "bool \<Rightarrow> int \<Rightarrow> int" where
  "aligned_size align sz = (if align then add64 sz 63 - add64 sz 63 mod 64 else sz)"

text \<open>The address of the new array; its capacity is the aligned size.\<close>

definition allocateBuffer :: "int \<Rightarrow> buffer_manager \<Rightarrow> (nat \<times> buffer_manager) res" where
  "allocateBuffer sz m =
     (let m = (if bm_totalMemory m > bf_MaxTotalMemory (bm_config m) then triggerGC m else m);
          n = aligned_size (bf_EnableAlignment (bm_config m)) sz
      in if n < 0 then Inl InvalidArgument
         else if sz < 0 \<or> sz > n then Inl SliceBoundsOutOfRange
         else Inr (length (bm_store m),
                m\<lparr> bm_store := bm_store m @ [replicate (nat n) 0], bm_totalMemory := add64 (bm_totalMemory m) n \<rparr>))"

definition new_handle :: "smart_buffer \<Rightarrow> buffer_manager \<Rightarrow> nat \<times> buffer_manager" where
  "new_handle sb m =
     (length (bm_handles m),
      m\<lparr> bm_refs := bm_refs m @ [1], bm_handles := bm_handles m @ [sb\<lparr> sb_refCount := length (bm_refs m) \<rparr>] \<rparr>)"

definition allocateDirectly :: "int \<Rightarrow> buffer_manager \<Rightarrow> (nat \<times> buffer_manager) res" where
  "allocateDirectly sz m =
     and_then (allocateBuffer sz m)
       (\<lambda>(a, m). Inr (new_handle \<lparr> sb_data = Some a, sb_len = sz, sb_size = sz, sb_capacity = sz, sb_pool = None,
                                   sb_info = None, sb_released = False, sb_refCount = 0 \<rparr> m))"

definition upd_pool :: "int \<Rightarrow> (buffer_pool \<Rightarrow> buffer_pool) \<Rightarrow> buffer_manager \<Rightarrow> buffer_manager" where
  "upd_pool k f m =
     (case map_of (bm_pools m) k of
        None \<Rightarrow> m
      | Some p \<Rightarrow> m\<lparr> bm_pools := AList.update k (f p) (bm_pools m) \<rparr>)"

text \<open>\<open>sync.Pool.Get\<close> of the pool \<open>k\<close> with the elements \<open>free\<close>.\<close>

definition pool_get :: "nat option \<Rightarrow> int \<Rightarrow> nat list \<Rightarrow> buffer_manager \<Rightarrow> (nat \<times> buffer_manager) res" where
  "pool_get pick k free m =
     (case pick of
        Some i \<Rightarrow>
          if i < length free
          then Inr (free ! i, upd_pool k (\<lambda>p. p\<lparr> bp_free := take i free @ drop (Suc i) free \<rparr>) m)
          else allocateBuffer k m
      | None \<Rightarrow> allocateBuffer k m)"

definition take_counts :: "int \<Rightarrow> buffer_manager \<Rightarrow> buffer_manager" where
  "take_counts k m =
     (upd_pool k (\<lambda>p. let c = add64 (bp_inUse p) 1 in
          p\<lparr> bp_allocated := add64 (bp_allocated p) 1, bp_inUse := c, bp_peak := (if c \<le> bp_peak p then bp_peak p else c) \<rparr>) m)
        \<lparr> bm_poolHits := add64 (bm_poolHits m) 1, bm_totalAllocated := add64 (bm_totalAllocated m) 1 \<rparr>"

definition note_info :: "int \<Rightarrow> nat \<Rightarrow> int \<Rightarrow> (nat \<Rightarrow> int) \<Rightarrow> buffer_manager \<Rightarrow> nat option \<times> buffer_manager" where
  "note_info k a sz clk m =
     (if bf_EnableMetrics (bm_config m)
      then (Some (length (bm_infos m)),
            (upd_pool k (\<lambda>p. p\<lparr> bp_buffers := AList.update a (length (bm_infos m)) (bp_buffers p) \<rparr>) m)
              \<lparr> bm_infos := bm_infos m @ [\<lparr> bi_Size = sz, bi_AllocatedAt = clk 0, bi_LastUsed = clk 1, bi_UseCount = 1 \<rparr>] \<rparr>)
      else (None, m))"

definition BufferManager_GetBuffer ::
    "int list \<Rightarrow> nat option \<Rightarrow> (nat \<Rightarrow> int) \<Rightarrow> int \<Rightarrow> buffer_manager \<Rightarrow> (nat \<times> buffer_manager) res" where
  "BufferManager_GetBuffer ord pick clk sz m =
     (let k = findBestPoolSize ord sz in
      case map_of (bm_pools m) k of
        None \<Rightarrow> allocateDirectly sz (m\<lparr> bm_poolMisses := add64 (bm_poolMisses m) 1 \<rparr>)
      | Some p \<Rightarrow>
          and_then (pool_get pick k (bp_free p) m)
            (\<lambda>(a, m).
               let m = take_counts k m in
               if sz < 0 \<or> sz > int (length (bm_store m ! a)) then Inl SliceBoundsOutOfRange
               else (let (info, m) = note_info k a sz clk m
                     in Inr (new_handle \<lparr> sb_data = Some a, sb_len = sz, sb_size = sz, sb_capacity = k, sb_pool = Some k,
                                          sb_info = info, sb_released = False, sb_refCount = 0 \<rparr> m))))"

text \<open>Warming takes an element of every pool and gives it back, \<open>WarmupCount\<close> times; one round on the pool \<open>k\<close>.\<close>

definition warm_pool :: "nat option \<Rightarrow> int \<Rightarrow> buffer_manager \<Rightarrow> buffer_manager res" where
  "warm_pool pick k m =
     (case map_of (bm_pools m) k of
        None \<Rightarrow> Inr m
      | Some p \<Rightarrow>
          and_then (pool_get pick k (bp_free p) m)
            (\<lambda>(a, m). Inr (upd_pool k (\<lambda>p. p\<lparr> bp_free := bp_free p @ [a] \<rparr>) m)))"

fun warmup_pools :: "(nat option \<times> int) list \<Rightarrow> buffer_manager \<Rightarrow> buffer_manager res" where
  "warmup_pools [] m = Inr m"
| "warmup_pools ((pick, k) # rounds) m = and_then (warm_pool pick k m) (warmup_pools rounds)"

section \<open>Handles\<close>

definition slice_bytes :: "buffer_manager \<Rightarrow> smart_buffer \<Rightarrow> byte list" where
  "slice_bytes m sb = (case sb_data sb of None \<Rightarrow> [] | Some a \<Rightarrow> take (nat (sb_len sb)) (bm_store m ! a))"

definition touch :: "nat option \<Rightarrow> int \<Rightarrow> buffer_manager \<Rightarrow> buffer_manager" where
  "touch info now m =
     (case info of
        None \<Rightarrow> m
      | Some i \<Rightarrow>
          m\<lparr> bm_infos := (bm_infos m)[i := (bm_infos m ! i)\<lparr> bi_LastUsed := now, bi_UseCount := add64 (bi_UseCount (bm_infos m ! i)) 1 \<rparr>] \<rparr>)"

definition SmartBuffer_Data :: "nat \<Rightarrow> buffer_manager \<Rightarrow> byte list res" where
  "SmartBuffer_Data h m =
     (let sb = bm_handles m ! h in if sb_released sb then Inl InvalidArgument else Inr (slice_bytes m sb))"

datatype buffer_error = ReleasedBuffer | OverCapacity

definition SmartBuffer_Resize :: "int \<Rightarrow> int \<Rightarrow> nat \<Rightarrow> buffer_manager \<Rightarrow> (buffer_error option \<times> buffer_manager) res" where
  "SmartBuffer_Resize now newSize h m =
     (let sb = bm_handles m ! h in
      if sb_released sb then Inr (Some ReleasedBuffer, m)
      else if newSize > sb_capacity sb then Inr (Some OverCapacity, m)
      else if newSize < 0 then Inl SliceBoundsOutOfRange
      else Inr (None, touch (sb_info sb) now (m\<lparr> bm_handles := (bm_handles m)[h := sb\<lparr> sb_len := newSize, sb_size := newSize \<rparr>] \<rparr>)))"

definition SmartBuffer_Clone :: "nat \<Rightarrow> buffer_manager \<Rightarrow> (nat \<times> buffer_manager) res" where
  "SmartBuffer_Clone h m =
     (let sb = bm_handles m ! h; r = sb_refCount sb in
      if sb_released sb then Inl InvalidArgument
      else Inr (length (bm_handles m),
             m\<lparr> bm_refs := (bm_refs m)[r := add64 (bm_refs m ! r) 1], bm_handles := bm_handles m @ [sb\<lparr> sb_released := False \<rparr>] \<rparr>))"

text \<open>The element given back to the pool is a copy in a new array.\<close>

definition give_back :: "int \<Rightarrow> int \<Rightarrow> smart_buffer \<Rightarrow> buffer_manager \<Rightarrow> buffer_manager" where
  "give_back now k sb m =
     (let data = slice_bytes m sb; n = nat (sb_capacity sb);
          m' = upd_pool k (\<lambda>p. p\<lparr> bp_free := bp_free p @ [length (bm_store m)], bp_released := add64 (bp_released p) 1,
                                  bp_inUse := add64 (bp_inUse p) (- 1) \<rparr>)
                 (m\<lparr> bm_store := bm_store m @ [take n data @ replicate (n - length data) 0],
                     bm_totalReleased := add64 (bm_totalReleased m) 1 \<rparr>)
      in case sb_info sb of
           None \<Rightarrow> m'
         | Some i \<Rightarrow> m'\<lparr> bm_infos := (bm_infos m')[i := (bm_infos m' ! i)\<lparr> bi_LastUsed := now \<rparr>] \<rparr>)"

definition SmartBuffer_Release :: "int \<Rightarrow> nat \<Rightarrow> buffer_manager \<Rightarrow> buffer_manager res" where
  "SmartBuffer_Release now h m =
     (let sb = bm_handles m ! h; r = sb_refCount sb in
      if sb_released sb then Inr m
      else (let n = add64 (bm_refs m ! r) (- 1); m = m\<lparr> bm_refs := (bm_refs m)[r := n] \<rparr> in
            if n > 0 then Inr m
            else (case sb_pool sb of
                    None \<Rightarrow> Inl NilDereference
                  | Some k \<Rightarrow>
                      (let m = give_back now k sb m
                       in Inr (m\<lparr> bm_handles := (bm_handles m)[h := sb\<lparr> sb_released := True, sb_data := None, sb_len := 0 \<rparr>] \<rparr>)))))"

text \<open>Overwriting a part of an array from position \<open>i\<close>, up to the end \<open>n\<close> of the slice.\<close>

definition copy_at :: "nat \<Rightarrow> nat \<Rightarrow> byte list \<Rightarrow> byte list \<Rightarrow> byte list" where
  "copy_at i n p xs = take i xs @ take (n - i) p @ drop (i + min (n - i) (length p)) xs"

definition store_at :: "nat option \<Rightarrow> nat \<Rightarrow> nat \<Rightarrow> byte list \<Rightarrow> buffer_manager \<Rightarrow> buffer_manager" where
  "store_at d i n p m =
     (case d of None \<Rightarrow> m | Some a \<Rightarrow> m\<lparr> bm_store := (bm_store m)[a := copy_at i n p (bm_store m ! a)] \<rparr>)"

definition SmartBuffer_Write :: "int \<Rightarrow> byte list \<Rightarrow> nat \<Rightarrow> buffer_manager \<Rightarrow> ((buffer_error + int) \<times> buffer_manager) res" where
  "SmartBuffer_Write now p h m =
     (let sb = bm_handles m ! h; needed = int (length p) in
      if sb_released sb then Inr (Inl ReleasedBuffer, m)
      else if add64 (sb_size sb) needed > sb_capacity sb then Inr (Inl OverCapacity, m)
      else if sb_size sb < 0 \<or> sb_size sb > sb_len sb then Inl SliceBoundsOutOfRange
      else (let m = store_at (sb_data sb) (nat (sb_size sb)) (nat (sb_len sb)) p m;
                m = m\<lparr> bm_handles := (bm_handles m)[h := sb\<lparr> sb_size := add64 (sb_size sb) needed \<rparr>] \<rparr>
            in Inr (Inr needed, touch (sb_info sb) now m)))"

definition SmartBuffer_Read :: "int \<Rightarrow> nat \<Rightarrow> nat \<Rightarrow> buffer_manager \<Rightarrow> (buffer_error + byte list) \<times> buffer_manager" where
  "SmartBuffer_Read now k h m =
     (let sb = bm_handles m ! h in
      if sb_released sb then (Inl ReleasedBuffer, m)
      else (Inr (take k (slice_bytes m sb)), touch (sb_info sb) now m))"

section \<open>Pressure and cleaning\<close>

definition drop_infos :: "(nat \<Rightarrow> bool) \<Rightarrow> buffer_manager \<Rightarrow> buffer_manager" where
  "drop_infos old m = m\<lparr> bm_pools := map (\<lambda>(k, p). (k, p\<lparr> bp_buffers := filter (\<lambda>(_, i). \<not> old i) (bp_buffers p) \<rparr>)) (bm_pools m) \<rparr>"

definition cleanupIdleBuffers :: "int \<Rightarrow> buffer_manager \<Rightarrow> buffer_manager" where
  "cleanupIdleBuffers now m =
     (if \<not> bf_EnableMetrics (bm_config m) then m
      else drop_infos (\<lambda>i. now - bi_LastUsed (bm_infos m ! i) > bf_MaxIdleTime (bm_config m)) m)"

definition checkMemoryPressure :: "(rat \<Rightarrow> int) \<Rightarrow> int \<Rightarrow> buffer_manager \<Rightarrow> buffer_manager" where
  "checkMemoryPressure oor now m =
     (let threshold = to_int64 oor (fmul (float64 (bf_MaxTotalMemory (bm_config m))) (bf_GCThreshold (bm_config m)))
      in if bm_totalMemory m > threshold then cleanupIdleBuffers now (triggerGC m) else m)"

text \<open>\<open>cleanup\<close>, the last act of \<open>Stop\<close>.\<close>

definition BufferManager_cleanup :: "buffer_manager \<Rightarrow> buffer_manager" where
  "BufferManager_cleanup m = drop_infos (\<lambda>_. True) m"

section \<open>Memory is shared by cloning only\<close>

definition free_at :: "buffer_manager \<Rightarrow> int \<Rightarrow> nat list" where
  "free_at m k = (case map_of (bm_pools m) k of None \<Rightarrow> [] | Some p \<Rightarrow> bp_free p)"

text \<open>\<open>U\<close> is a set of arrays in use: they are no elements of pools.\<close>

definition mem_ok :: "buffer_manager \<Rightarrow> nat set \<Rightarrow> bool" where
  "mem_ok m U \<longleftrightarrow> (\<forall>k. distinct (free_at m k)) \<and> (\<forall>k k'. k \<noteq> k' \<longrightarrow> set (free_at m k) \<inter> set (free_at m k') = {}) \<and>
     (\<forall>k. \<forall>a\<in>set (free_at m k). a < length (bm_store m) \<and> a \<notin> U \<and> k \<le> int (length (bm_store m ! a))) \<and>
     (\<forall>a\<in>U. a < length (bm_store m))"

definition owned :: "buffer_manager \<Rightarrow> nat set" where
  "owned m = {a. \<exists>sb\<in>set (bm_handles m). sb_data sb = Some a}"

definition handles_ok :: "buffer_manager \<Rightarrow> bool" where
  "handles_ok m \<longleftrightarrow> (\<forall>sb\<in>set (bm_handles m). \<forall>k. sb_pool sb = Some k \<longrightarrow> sb_capacity sb = k)"

definition sizes_ok :: "buffer_manager \<Rightarrow> bool" where
  "sizes_ok m \<longleftrightarrow> (\<forall>k\<in>set (keys_of (bm_pools m)). 0 < k \<and> k < 2 ^ 62)"

lemma keys_update_old: "map_of m k = Some v \<Longrightarrow> fst ` set (AList.update k w m) = fst ` set m"
  by (induction m) (auto split: if_splits)

lemma upd_pool_simps [simp]:
  "bm_store (upd_pool k f m) = bm_store m" "bm_handles (upd_pool k f m) = bm_handles m" "bm_config (upd_pool k f m) = bm_config m"
  "bm_infos (upd_pool k f m) = bm_infos m" "bm_refs (upd_pool k f m) = bm_refs m"
  "fst ` set (bm_pools (upd_pool k f m)) = fst ` set (bm_pools m)"
  by (simp_all add: upd_pool_def keys_update_old split: option.splits)

lemma free_at_upd:
  "free_at (upd_pool k f m) k' = (if k' = k then (case map_of (bm_pools m) k of None \<Rightarrow> [] | Some p \<Rightarrow> bp_free (f p)) else free_at m k')"
  by (simp add: upd_pool_def free_at_def split: option.splits)

lemma free_at_upd_same: "(\<And>p. bp_free (f p) = bp_free p) \<Longrightarrow> free_at (upd_pool k f m) k' = free_at m k'"
  by (cases "map_of (bm_pools m) k") (simp_all add: free_at_upd, simp_all add: free_at_def)

lemma mem_ok_cong:
  assumes "\<And>k. free_at m' k = free_at m k" "length (bm_store m') = length (bm_store m)"
    and "\<And>a. a \<notin> U \<Longrightarrow> bm_store m' ! a = bm_store m ! a"
  shows "mem_ok m' U = mem_ok m U"
proof -
  have "a \<notin> U \<and> k \<le> int (length (bm_store m' ! a)) \<longleftrightarrow> a \<notin> U \<and> k \<le> int (length (bm_store m ! a))" for a k
    using assms(3) by auto
  then show ?thesis by (simp only: mem_ok_def assms(1,2))
qed

lemma mem_ok_mono: "mem_ok m U \<Longrightarrow> P \<subseteq> U \<Longrightarrow> mem_ok m P"
  unfolding mem_ok_def by blast

lemma aligned_bounds: "0 \<le> sz \<Longrightarrow> sz < 2 ^ 62 \<Longrightarrow> sz \<le> aligned_size al sz"
proof -
  assume sz: "0 \<le> sz" "sz < 2 ^ 62"
  have "(sz + 63) mod 64 \<le> 63" using pos_mod_bound [of 64 "sz + 63"] by linarith
  moreover have "add64 sz 63 = sz + 63" using sz by (intro wrap64_id) simp
  ultimately show ?thesis by (simp add: aligned_size_def)
qed

lemma allocate_ok:
  assumes "mem_ok m U" "allocateBuffer sz m = Inr (a, m')"
  shows "mem_ok m' (insert a U) \<and> a \<notin> U \<and> bm_handles m' = bm_handles m \<and> bm_config m' = bm_config m \<and> bm_pools m' = bm_pools m \<and>
    sz \<le> int (length (bm_store m' ! a)) \<and> a < length (bm_store m')"
proof -
  obtain n m1 where a: "a = length (bm_store m)" and s: "bm_store m' = bm_store m @ [replicate (nat n) 0]" "sz \<le> n"
    and p: "bm_pools m' = bm_pools m" "bm_handles m' = bm_handles m" "bm_config m' = bm_config m"
    using assms(2) by (auto simp: allocateBuffer_def triggerGC_def Let_def split: if_splits)
  have f: "free_at m' k = free_at m k" for k by (simp add: free_at_def p)
  have o: "\<And>b. b \<in> U \<Longrightarrow> b < length (bm_store m)" "\<And>k b. b \<in> set (free_at m k) \<Longrightarrow> b < length (bm_store m)"
    using assms(1) by (auto simp: mem_ok_def)
  have "mem_ok m' (insert a U)"
    using assms(1) o unfolding mem_ok_def f s a by (auto simp: nth_append less_Suc_eq dest: o)
  then show ?thesis using o a p s by (auto simp: nth_append)
qed

lemma allocate_total: "0 \<le> sz \<Longrightarrow> sz < 2 ^ 62 \<Longrightarrow> \<exists>r. allocateBuffer sz m = Inr r"
  using aligned_bounds [of sz "bf_EnableAlignment (bm_config m)"] by (simp add: allocateBuffer_def triggerGC_def Let_def)

lemma pool_get_ok:
  assumes "mem_ok m U" "map_of (bm_pools m) k = Some p" "pool_get pick k (bp_free p) m = Inr (a, m')"
  shows "mem_ok m' (insert a U) \<and> a \<notin> U \<and> bm_handles m' = bm_handles m \<and> bm_config m' = bm_config m \<and>
    set (keys_of (bm_pools m')) = set (keys_of (bm_pools m)) \<and> k \<le> int (length (bm_store m' ! a)) \<and> a < length (bm_store m')"
proof (cases "\<exists>i. pick = Some i \<and> i < length (bp_free p)")
  case True
  then obtain i where i: "i < length (bp_free p)" "a = bp_free p ! i"
      "m' = upd_pool k (\<lambda>q. q\<lparr> bp_free := take i (bp_free p) @ drop (Suc i) (bp_free p) \<rparr>) m"
    using assms(3) by (auto simp: pool_get_def)
  let ?rest = "take i (bp_free p) @ drop (Suc i) (bp_free p)"
  have fk: "free_at m k = bp_free p" using assms(2) by (simp add: free_at_def)
  have split: "bp_free p = take i (bp_free p) @ a # drop (Suc i) (bp_free p)" using id_take_nth_drop [OF i(1)] i(2) by simp
  have d: "distinct (bp_free p)" using assms(1) fk unfolding mem_ok_def by metis
  then have "distinct (take i (bp_free p) @ a # drop (Suc i) (bp_free p))" using split by metis
  then have rest: "a \<notin> set ?rest" "distinct ?rest" by auto
  have "set (bp_free p) = set (take i (bp_free p) @ a # drop (Suc i) (bp_free p))" using split by metis
  then have rest1: "set (bp_free p) = insert a (set ?rest)" by auto
  have f: "free_at m' k' = (if k' = k then ?rest else free_at m k')" for k'
    unfolding i(3) free_at_upd using assms(2) by simp
  have ain: "a \<in> set (free_at m k)" using fk rest1 by simp
  have other: "a \<notin> set (free_at m k')" if "k' \<noteq> k" for k'
    using assms(1) ain that unfolding mem_ok_def by blast
  have sub: "set (free_at m' k') \<subseteq> set (free_at m k')" for k' using f fk rest1 by auto
  have "mem_ok m' (insert a U)"
    unfolding mem_ok_def
  proof (intro conjI allI ballI impI)
    fix k'
    show "distinct (free_at m' k')" using assms(1) rest(2) by (simp add: f mem_ok_def)
    show "set (free_at m' k') \<inter> set (free_at m' k'') = {}" if "k' \<noteq> k''" for k''
      using assms(1) that sub unfolding mem_ok_def by blast
    fix b assume b: "b \<in> set (free_at m' k')"
    then have bm: "b \<in> set (free_at m k')" using sub by blast
    then show "b < length (bm_store m')" "k' \<le> int (length (bm_store m' ! b))" using assms(1) i(3) by (auto simp: mem_ok_def)
    have "b \<notin> U" using bm assms(1) by (auto simp: mem_ok_def)
    moreover have "b \<noteq> a" using b other rest(1) by (cases "k' = k") (auto simp: f)
    ultimately show "b \<notin> insert a U" by simp
  next
    fix b assume "b \<in> insert a U"
    then show "b < length (bm_store m')" using assms(1) ain i(3) by (auto simp: mem_ok_def)
  qed
  moreover have "a \<notin> U" "k \<le> int (length (bm_store m ! a))" "a < length (bm_store m)"
    using assms(1) ain unfolding mem_ok_def by blast+
  moreover have "bm_handles m' = bm_handles m" "bm_config m' = bm_config m" "bm_store m' = bm_store m"
      "set (keys_of (bm_pools m')) = set (keys_of (bm_pools m))"
    unfolding i(3) by (simp_all only: upd_pool_simps set_map)
  ultimately show ?thesis by simp
next
  case False
  then have "allocateBuffer k m = Inr (a, m')" using assms(3) by (auto simp: pool_get_def split: option.splits if_splits)
  from allocate_ok [OF assms(1) this] show ?thesis by auto
qed

lemma pool_get_total:
  assumes "0 \<le> k" "k < 2 ^ 62"
  shows "\<exists>r. pool_get pick k free m = Inr r"
  using allocate_total [OF assms] by (cases pick) (auto simp: pool_get_def)

lemma best_size:
  assumes "\<forall>k\<in>set ord. 0 < k"
  shows "findBestPoolSize ord sz = 0 \<and> (\<forall>k\<in>set ord. k < sz) \<or>
    findBestPoolSize ord sz \<in> set ord \<and> sz \<le> findBestPoolSize ord sz \<and> (\<forall>k\<in>set ord. sz \<le> k \<longrightarrow> findBestPoolSize ord sz \<le> k)"
  using assms
proof (induction ord rule: rev_induct)
  case (snoc k ord)
  then have IH: "findBestPoolSize ord sz = 0 \<and> (\<forall>k\<in>set ord. k < sz) \<or>
      findBestPoolSize ord sz \<in> set ord \<and> sz \<le> findBestPoolSize ord sz \<and> (\<forall>k\<in>set ord. sz \<le> k \<longrightarrow> findBestPoolSize ord sz \<le> k)"
    by simp
  have step: "findBestPoolSize (ord @ [k]) sz =
      (if sz \<le> k \<and> (findBestPoolSize ord sz = 0 \<or> k < findBestPoolSize ord sz) then k else findBestPoolSize ord sz)"
    by (simp only: findBestPoolSize_def fold_append comp_apply fold_simps)
  have "0 < k" "findBestPoolSize ord sz \<in> set ord \<Longrightarrow> 0 < findBestPoolSize ord sz" using snoc.prems by auto
  then show ?case using IH unfolding step by (auto; linarith?)
qed (simp add: findBestPoolSize_def)

definition buf_inv :: "buffer_manager \<Rightarrow> bool" where
  "buf_inv m \<longleftrightarrow> mem_ok m (owned m) \<and> handles_ok m \<and> sizes_ok m"

lemma free_at_pools: "bm_pools m' = bm_pools m \<Longrightarrow> free_at m' k = free_at m k"
  by (simp add: free_at_def)

lemma counts_same:
  "free_at (take_counts k m) k' = free_at m k'" "bm_store (take_counts k m) = bm_store m"
  "bm_handles (take_counts k m) = bm_handles m" "bm_config (take_counts k m) = bm_config m"
  "set (keys_of (bm_pools (take_counts k m))) = set (keys_of (bm_pools m))"
proof -
  show "free_at (take_counts k m) k' = free_at m k'"
    unfolding take_counts_def by (subst free_at_pools [of _ "upd_pool k f m" for f], simp) (rule free_at_upd_same, simp add: Let_def)
qed (simp_all add: take_counts_def)

lemma note_same:
  assumes "note_info k a sz clk m = (i, m')"
  shows "free_at m' k' = free_at m k'" "bm_store m' = bm_store m" "bm_handles m' = bm_handles m"
    "set (keys_of (bm_pools m')) = set (keys_of (bm_pools m))"
proof -
  have m': "m' = snd (note_info k a sz clk m)" using assms by simp
  show "free_at m' k' = free_at m k'" "bm_store m' = bm_store m" "bm_handles m' = bm_handles m"
      "set (keys_of (bm_pools m')) = set (keys_of (bm_pools m))"
    using free_at_upd_same [of "\<lambda>p. p\<lparr> bp_buffers := AList.update a (length (bm_infos m)) (bp_buffers p) \<rparr>" k m k']
    unfolding m' note_info_def by (simp_all add: free_at_def)
qed

lemma owned_append: "bm_handles m' = bm_handles m @ [sb] \<Longrightarrow> owned m' = owned m \<union> {a. sb_data sb = Some a}"
  by (auto simp: owned_def)

lemma handles_ok_append:
  "bm_handles m' = bm_handles m @ [sb] \<Longrightarrow> handles_ok m' \<longleftrightarrow> handles_ok m \<and> (\<forall>k. sb_pool sb = Some k \<longrightarrow> sb_capacity sb = k)"
  by (auto simp: handles_ok_def)

lemma buf_inv_append:
  assumes "mem_ok m' (insert a (owned m))" "bm_handles m' = bm_handles m @ [sb]" "sb_data sb = Some a" "handles_ok m"
    "\<And>k. sb_pool sb = Some k \<Longrightarrow> sb_capacity sb = k" "sizes_ok m" "set (keys_of (bm_pools m')) = set (keys_of (bm_pools m))"
  shows "buf_inv m'"
proof -
  have "owned m' = insert a (owned m)" using owned_append [OF assms(2)] assms(3) by auto
  then show ?thesis using assms(1,4-7) handles_ok_append [OF assms(2)] unfolding buf_inv_def sizes_ok_def by metis
qed

lemma mem_ok_same: "(\<And>k. free_at m' k = free_at m k) \<Longrightarrow> bm_store m' = bm_store m \<Longrightarrow> mem_ok m' U = mem_ok m U"
  by (rule mem_ok_cong) simp_all

lemma direct_ok:
  assumes "buf_inv m" "allocateDirectly sz (m\<lparr> bm_poolMisses := c \<rparr>) = Inr (h, m')"
  shows "buf_inv m' \<and> h = length (bm_handles m) \<and> (\<exists>sb a. bm_handles m' = bm_handles m @ [sb] \<and> sb_data sb = Some a \<and> a \<notin> owned m)"
proof -
  let ?m = "m\<lparr> bm_poolMisses := c \<rparr>"
  have ok: "mem_ok ?m (owned m)" using assms(1) mem_ok_same [of ?m m "owned m"] by (simp add: buf_inv_def free_at_def)
  obtain a m1 where a: "allocateBuffer sz ?m = Inr (a, m1)"
    and r: "(h, m') = new_handle \<lparr> sb_data = Some a, sb_len = sz, sb_size = sz, sb_capacity = sz, sb_pool = None,
        sb_info = None, sb_released = False, sb_refCount = 0 \<rparr> m1"
    using assms(2) by (auto simp: allocateDirectly_def and_then_eq_Inr_iff)
  from allocate_ok [OF ok a] have m1: "mem_ok m1 (insert a (owned m))" "a \<notin> owned m" "bm_handles m1 = bm_handles m" "bm_pools m1 = bm_pools m" by auto
  obtain sb where sb: "bm_handles m' = bm_handles m @ [sb]" "sb_data sb = Some a" "sb_pool sb = None" "bm_pools m' = bm_pools m"
      "bm_store m' = bm_store m1" "h = length (bm_handles m)"
    using r m1 by (auto simp: new_handle_def)
  have "mem_ok m' (insert a (owned m))" using m1(1) mem_ok_same [of m' m1] sb(4,5) m1(4) by (simp add: free_at_def)
  then have "buf_inv m'" using assms(1) sb by (intro buf_inv_append [of m' a m sb]) (auto simp: buf_inv_def)
  then show ?thesis using sb m1(2) by blast
qed

lemma get_ok:
  assumes "buf_inv m" "range_order (bm_pools m) ord" "BufferManager_GetBuffer ord pick clk sz m = Inr (h, m')"
  shows "buf_inv m' \<and> h = length (bm_handles m) \<and> (\<exists>sb a. bm_handles m' = bm_handles m @ [sb] \<and> sb_data sb = Some a \<and> a \<notin> owned m)"
proof (cases "map_of (bm_pools m) (findBestPoolSize ord sz)")
  case None
  then show ?thesis using assms direct_ok by (simp add: BufferManager_GetBuffer_def Let_def)
next
  case (Some p)
  let ?k = "findBestPoolSize ord sz"
  obtain a m1 where g: "pool_get pick ?k (bp_free p) m = Inr (a, m1)"
    using assms(3) Some by (auto simp: BufferManager_GetBuffer_def Let_def and_then_eq_Inr_iff)
  obtain i m2 where n: "note_info ?k a sz clk (take_counts ?k m1) = (i, m2)" by fastforce
  have r: "(h, m') = new_handle \<lparr> sb_data = Some a, sb_len = sz, sb_size = sz, sb_capacity = ?k, sb_pool = Some ?k,
      sb_info = i, sb_released = False, sb_refCount = 0 \<rparr> m2"
    using assms(3) Some g n by (auto simp: BufferManager_GetBuffer_def Let_def split: if_splits)
  have ok: "mem_ok m (owned m)" using assms(1) by (simp add: buf_inv_def)
  note m1 = pool_get_ok [OF ok Some g]
  obtain sb where sb: "bm_handles m' = bm_handles m2 @ [sb]" "sb_data sb = Some a" "sb_pool sb = Some ?k" "sb_capacity sb = ?k"
      "bm_pools m' = bm_pools m2" "bm_store m' = bm_store m2" "h = length (bm_handles m2)"
    using r by (auto simp: new_handle_def)
  have same: "bm_handles m2 = bm_handles m" "set (keys_of (bm_pools m')) = set (keys_of (bm_pools m))"
    using note_same [OF n] counts_same m1 sb(5) by (auto simp only:)
  have "free_at m' k = free_at m1 k" for k
    using note_same(1) [OF n] counts_same(1) free_at_pools [OF sb(5)] by (simp only:)
  moreover have "bm_store m' = bm_store m1" using note_same(2) [OF n] counts_same(2) sb(6) by (simp only:)
  ultimately have "mem_ok m' (insert a (owned m))" using m1 mem_ok_same [of m' m1] by simp
  then have "buf_inv m'" using assms(1) sb same by (intro buf_inv_append [of m' a m sb]) (auto simp: buf_inv_def)
  then show ?thesis using sb same m1 by auto
qed

lemma get_total:
  assumes "buf_inv m" "range_order (bm_pools m) ord" "0 \<le> sz" "sz < 2 ^ 62"
  shows "\<exists>r. BufferManager_GetBuffer ord pick clk sz m = Inr r"
proof (cases "map_of (bm_pools m) (findBestPoolSize ord sz)")
  case None
  obtain a m1 where "allocateBuffer sz (m\<lparr> bm_poolMisses := add64 (bm_poolMisses m) 1 \<rparr>) = Inr (a, m1)"
    using allocate_total [OF assms(3,4)] by fastforce
  then show ?thesis using None by (simp add: BufferManager_GetBuffer_def Let_def allocateDirectly_def)
next
  case (Some p)
  let ?k = "findBestPoolSize ord sz"
  have pos: "\<forall>k\<in>set ord. 0 < k \<and> k < 2 ^ 62" using assms(1,2) by (auto simp: buf_inv_def sizes_ok_def range_order_def)
  have "?k \<in> set ord" using map_of_SomeD [OF Some] assms(2) by (force simp: range_order_def)
  then have k: "0 < ?k" "?k < 2 ^ 62" "sz \<le> ?k" using best_size [of ord sz] pos by auto
  obtain a m1 where g: "pool_get pick ?k (bp_free p) m = Inr (a, m1)" using pool_get_total [of ?k pick "bp_free p" m] k by fastforce
  have ok: "mem_ok m (owned m)" using assms(1) by (simp add: buf_inv_def)
  have "sz \<le> int (length (bm_store (take_counts ?k m1) ! a))"
    using pool_get_ok [OF ok Some g] k(3) counts_same(2) by simp
  then show ?thesis using Some g assms(3) by (simp add: BufferManager_GetBuffer_def Let_def split: prod.splits)
qed

lemma owned_handle: "h < length (bm_handles m) \<Longrightarrow> sb_data (bm_handles m ! h) = Some a \<Longrightarrow> a \<in> owned m"
  by (auto simp: owned_def)

lemma buf_inv_update:
  assumes "mem_ok m' (owned m)" "handles_ok m" "sizes_ok m" "h < length (bm_handles m)" "bm_handles m' = (bm_handles m)[h := sb]"
    and "sb_data sb = None \<or> sb_data sb = sb_data (bm_handles m ! h)" "sb_pool sb = sb_pool (bm_handles m ! h)"
    and "sb_capacity sb = sb_capacity (bm_handles m ! h)" "fst ` set (bm_pools m') = fst ` set (bm_pools m)"
  shows "buf_inv m'"
proof -
  have sub: "set (bm_handles m') \<subseteq> insert sb (set (bm_handles m))" unfolding assms(5) by (rule set_update_subset_insert)
  have "owned m' \<subseteq> owned m" using sub assms(6) nth_mem [OF assms(4)] by (fastforce simp: owned_def)
  then have "mem_ok m' (owned m')" by (rule mem_ok_mono [OF assms(1)])
  moreover have "handles_ok m'" using sub assms(2,4,7,8) by (fastforce simp: handles_ok_def)
  moreover have "sizes_ok m'" using assms(3,9) by (simp add: sizes_ok_def)
  ultimately show ?thesis by (simp add: buf_inv_def)
qed

lemma buf_inv_same:
  assumes "buf_inv m" "\<And>k. free_at m' k = free_at m k" "bm_store m' = bm_store m" "bm_handles m' = bm_handles m"
    "fst ` set (bm_pools m') = fst ` set (bm_pools m)"
  shows "buf_inv m'"
proof -
  have "owned m' = owned m" by (simp add: owned_def assms(4))
  then show ?thesis using assms mem_ok_same [of m' m "owned m"] by (simp add: buf_inv_def handles_ok_def sizes_ok_def)
qed

lemma touch_same [simp]:
  "bm_store (touch i now m) = bm_store m" "bm_handles (touch i now m) = bm_handles m" "bm_pools (touch i now m) = bm_pools m"
  "bm_config (touch i now m) = bm_config m"
  by (simp_all add: touch_def split: option.splits)

lemma give_back_ok:
  assumes "mem_ok m U" "sb_capacity sb = k"
  shows "mem_ok (give_back now k sb m) U" "bm_handles (give_back now k sb m) = bm_handles m"
    "fst ` set (bm_pools (give_back now k sb m)) = fst ` set (bm_pools m)"
proof -
  let ?m = "give_back now k sb m"
  let ?new = "take (nat k) (slice_bytes m sb) @ replicate (nat k - length (slice_bytes m sb)) 0"
  have st: "bm_store ?m = bm_store m @ [?new]" using assms(2) by (simp add: give_back_def Let_def split: option.splits)
  have new: "k \<le> int (length ?new)" by (cases "length (slice_bytes m sb) \<le> nat k") auto
  have f: "free_at ?m k' = (if k' = k \<and> map_of (bm_pools m) k \<noteq> None then free_at m k' @ [length (bm_store m)] else free_at m k')" for k'
    by (auto simp: give_back_def Let_def free_at_def upd_pool_def split: option.splits)
  have o: "\<And>b. b \<in> U \<Longrightarrow> b < length (bm_store m)" "\<And>k b. b \<in> set (free_at m k) \<Longrightarrow> b < length (bm_store m)"
    using assms(1) by (auto simp: mem_ok_def)
  show "mem_ok ?m U" unfolding mem_ok_def
  proof (intro conjI allI ballI impI)
    fix k'
    show "distinct (free_at ?m k')" using assms(1) o(2) [of "length (bm_store m)" k'] by (auto simp: f mem_ok_def)
    have disj: "set (free_at m k') \<inter> set (free_at m k'') = {}" if "k' \<noteq> k''" for k'' using assms(1) that by (simp add: mem_ok_def)
    show "set (free_at ?m k') \<inter> set (free_at ?m k'') = {}" if "k' \<noteq> k''" for k''
      using disj [OF that] that o(2) [of "length (bm_store m)" k'] o(2) [of "length (bm_store m)" k''] by (auto simp: f)
    fix b assume "b \<in> set (free_at ?m k')"
    then consider "b \<in> set (free_at m k')" | "b = length (bm_store m)" "k' = k" by (auto simp: f split: if_splits)
    then have "b < length (bm_store ?m) \<and> b \<notin> U \<and> k' \<le> int (length (bm_store ?m ! b))"
    proof cases
      case 1
      then have "b < length (bm_store m) \<and> b \<notin> U \<and> k' \<le> int (length (bm_store m ! b))" using assms(1) by (auto simp: mem_ok_def)
      then show ?thesis by (auto simp: st nth_append)
    next
      case 2
      then show ?thesis using new o(1) by (auto simp: st)
    qed
    then show "b < length (bm_store ?m)" "b \<notin> U" "k' \<le> int (length (bm_store ?m ! b))" by simp_all
  next
    fix b assume "b \<in> U"
    then show "b < length (bm_store ?m)" using o(1) by (fastforce simp: st)
  qed
  show "bm_handles ?m = bm_handles m" "fst ` set (bm_pools ?m) = fst ` set (bm_pools m)"
    by (simp_all add: give_back_def Let_def split: option.splits)
qed

lemma release_ok:
  assumes "buf_inv m" "h < length (bm_handles m)" "SmartBuffer_Release now h m = Inr m'"
  shows "buf_inv m'"
proof -
  let ?sb = "bm_handles m ! h"
  let ?m = "m\<lparr> bm_refs := (bm_refs m)[sb_refCount ?sb := add64 (bm_refs m ! sb_refCount ?sb) (- 1)] \<rparr>"
  have i1: "buf_inv ?m" by (rule buf_inv_same [OF assms(1)]) (simp_all add: free_at_def)
  consider "m' = m" | "m' = ?m" | k where "sb_pool ?sb = Some k"
      "m' = (give_back now k ?sb ?m)\<lparr> bm_handles := (bm_handles (give_back now k ?sb ?m))
        [h := ?sb\<lparr> sb_released := True, sb_data := None, sb_len := 0 \<rparr>] \<rparr>"
  proof (cases "sb_released ?sb \<or> add64 (bm_refs m ! sb_refCount ?sb) (- 1) > 0")
    case True
    then show thesis using assms(3) that(1,2) by (simp add: SmartBuffer_Release_def Let_def split: if_splits)
  next
    case False
    then show thesis using assms(3) that(3) by (cases "sb_pool ?sb") (simp_all add: SmartBuffer_Release_def Let_def)
  qed
  then show ?thesis
  proof cases
    case (3 k)
    have cap: "sb_capacity ?sb = k" using assms(1,2) 3(1) by (auto simp: buf_inv_def handles_ok_def)
    have ok: "mem_ok ?m (owned ?m)" using i1 by (simp add: buf_inv_def)
    note g = give_back_ok [OF ok cap, of now]
    have "mem_ok m' (owned ?m)" using g(1) mem_ok_same [of m' "give_back now k ?sb ?m"] 3(2) by (simp add: free_at_def)
    then show ?thesis
      by (rule buf_inv_update [where h = h and sb = "?sb\<lparr> sb_released := True, sb_data := None, sb_len := 0 \<rparr>"])
        (use i1 assms(2) g 3(2) in \<open>simp_all add: buf_inv_def\<close>)
  qed (use assms(1) i1 in simp_all)
qed

lemma store_at_ok:
  assumes "mem_ok m U" "\<And>a. d = Some a \<Longrightarrow> a \<in> U"
  shows "mem_ok (store_at d i n p m) U"
  using assms(1)
proof (subst mem_ok_cong [of "store_at d i n p m" m])
  show "free_at (store_at d i n p m) k = free_at m k" for k by (simp add: store_at_def free_at_def split: option.splits)
  show "length (bm_store (store_at d i n p m)) = length (bm_store m)" by (simp add: store_at_def split: option.splits)
  show "bm_store (store_at d i n p m) ! a = bm_store m ! a" if "a \<notin> U" for a
    using assms(2) that by (cases d) (auto simp: store_at_def intro!: nth_list_update_neq)
qed

lemma store_at_same [simp]: "bm_handles (store_at d i n p m) = bm_handles m" "bm_pools (store_at d i n p m) = bm_pools m"
  by (simp_all add: store_at_def split: option.splits)

lemma write_ok:
  assumes "buf_inv m" "h < length (bm_handles m)" "SmartBuffer_Write now p h m = Inr (r, m')"
  shows "buf_inv m'"
proof (cases "m' = m")
  case False
  let ?sb = "bm_handles m ! h"
  let ?s = "store_at (sb_data ?sb) (nat (sb_size ?sb)) (nat (sb_len ?sb)) p m"
  let ?sb' = "?sb\<lparr> sb_size := add64 (sb_size ?sb) (int (length p)) \<rparr>"
  have m': "m' = touch (sb_info ?sb) now (?s\<lparr> bm_handles := (bm_handles ?s)[h := ?sb'] \<rparr>)"
    using assms(3) False by (auto simp: SmartBuffer_Write_def Let_def split: if_splits)
  have "mem_ok ?s (owned m)" by (rule store_at_ok) (use assms(1,2) owned_handle in \<open>auto simp: buf_inv_def\<close>)
  then have "mem_ok m' (owned m)" using mem_ok_same [of m' ?s] m' by (simp add: free_at_def)
  then show ?thesis
    by (rule buf_inv_update [where h = h and sb = ?sb']) (use assms(1,2) m' in \<open>simp_all add: buf_inv_def\<close>)
qed (use assms(1) in simp)

lemma resize_ok:
  assumes "buf_inv m" "h < length (bm_handles m)" "SmartBuffer_Resize now n h m = Inr (r, m')"
  shows "buf_inv m'"
proof (cases "m' = m")
  case False
  let ?sb' = "(bm_handles m ! h)\<lparr> sb_len := n, sb_size := n \<rparr>"
  have m': "m' = touch (sb_info (bm_handles m ! h)) now (m\<lparr> bm_handles := (bm_handles m)[h := ?sb'] \<rparr>)"
    using assms(3) False by (auto simp: SmartBuffer_Resize_def Let_def split: if_splits)
  have "mem_ok m' (owned m)" using assms(1) mem_ok_same [of m' m] m' by (simp add: free_at_def buf_inv_def)
  then show ?thesis
    by (rule buf_inv_update [where h = h and sb = ?sb']) (use assms(1,2) m' in \<open>simp_all add: buf_inv_def\<close>)
qed (use assms(1) in simp)

lemma clone_ok:
  assumes "buf_inv m" "h < length (bm_handles m)" "SmartBuffer_Clone h m = Inr (c, m')"
  shows "buf_inv m'"
proof -
  let ?sb = "(bm_handles m ! h)\<lparr> sb_released := False \<rparr>"
  have m': "bm_handles m' = bm_handles m @ [?sb]" "bm_pools m' = bm_pools m" "bm_store m' = bm_store m"
    using assms(3) by (auto simp: SmartBuffer_Clone_def Let_def split: if_splits)
  have "owned m' = owned m" unfolding owned_append [OF m'(1)] using owned_handle [OF assms(2)] by auto
  moreover have "handles_ok m'" unfolding handles_ok_append [OF m'(1)] using assms(1,2) by (auto simp: buf_inv_def handles_ok_def)
  ultimately show ?thesis using assms(1) mem_ok_same [of m' m] m' by (simp add: buf_inv_def sizes_ok_def free_at_def)
qed

lemma put_ok:
  assumes "mem_ok m (insert a U)" "a \<notin> U" "k \<le> int (length (bm_store m ! a))"
  shows "mem_ok (upd_pool k (\<lambda>p. p\<lparr> bp_free := bp_free p @ [a] \<rparr>) m) U"
proof -
  let ?m = "upd_pool k (\<lambda>p. p\<lparr> bp_free := bp_free p @ [a] \<rparr>) m"
  have f: "free_at ?m k' = (if k' = k \<and> map_of (bm_pools m) k \<noteq> None then free_at m k' @ [a] else free_at m k')" for k'
    by (auto simp: free_at_def upd_pool_def split: option.splits)
  have a: "a < length (bm_store m)" "\<And>k'. a \<notin> set (free_at m k')" using assms(1) by (auto simp: mem_ok_def)
  show ?thesis unfolding mem_ok_def
  proof (intro conjI allI ballI impI)
    fix k'
    show "distinct (free_at ?m k')" using assms(1) a(2) by (simp add: f mem_ok_def)
    have "set (free_at m k') \<inter> set (free_at m k'') = {}" if "k' \<noteq> k''" for k'' using assms(1) that by (simp add: mem_ok_def)
    then show "set (free_at ?m k') \<inter> set (free_at ?m k'') = {}" if "k' \<noteq> k''" for k'' using that a(2) by (auto simp: f)
    fix b assume "b \<in> set (free_at ?m k')"
    then have "b \<in> set (free_at m k') \<or> b = a \<and> k' = k" by (auto simp: f split: if_splits)
    then have "b < length (bm_store m) \<and> b \<notin> U \<and> k' \<le> int (length (bm_store m ! b))" using assms a(1) by (auto simp: mem_ok_def)
    then show "b < length (bm_store ?m)" "b \<notin> U" "k' \<le> int (length (bm_store ?m ! b))" by simp_all
  next
    fix b assume "b \<in> U"
    then show "b < length (bm_store ?m)" using assms(1) by (simp add: mem_ok_def)
  qed
qed

lemma warm_ok:
  assumes "buf_inv m" "warm_pool pick k m = Inr m'"
  shows "buf_inv m'"
proof (cases "map_of (bm_pools m) k")
  case None
  then show ?thesis using assms by (simp add: warm_pool_def)
next
  case (Some p)
  obtain a m1 where g: "pool_get pick k (bp_free p) m = Inr (a, m1)" and m': "m' = upd_pool k (\<lambda>p. p\<lparr> bp_free := bp_free p @ [a] \<rparr>) m1"
    using assms(2) Some by (auto simp: warm_pool_def and_then_eq_Inr_iff)
  have ok: "mem_ok m (owned m)" using assms(1) by (simp add: buf_inv_def)
  note m1 = pool_get_ok [OF ok Some g]
  have h: "bm_handles m' = bm_handles m" "fst ` set (bm_pools m') = fst ` set (bm_pools m)" using m1 by (simp_all add: m')
  have "mem_ok m' (owned m)" unfolding m' using m1 by (intro put_ok) simp_all
  moreover have "owned m' = owned m" by (simp add: owned_def h)
  ultimately show ?thesis using assms(1) h by (simp add: buf_inv_def handles_ok_def sizes_ok_def)
qed

lemma vanish_ok:
  assumes "buf_inv m"
  shows "buf_inv (upd_pool k (\<lambda>p. p\<lparr> bp_free := filter P (bp_free p) \<rparr>) m)"
proof -
  let ?m = "upd_pool k (\<lambda>p. p\<lparr> bp_free := filter P (bp_free p) \<rparr>) m"
  have f: "free_at ?m k' = (if k' = k then filter P (free_at m k') else free_at m k')" for k'
    by (auto simp: free_at_def upd_pool_def split: option.splits)
  have "mem_ok ?m (owned m)" using assms unfolding buf_inv_def mem_ok_def f by (auto simp: disjoint_iff)
  moreover have "owned ?m = owned m" by (simp add: owned_def)
  ultimately show ?thesis using assms by (simp add: buf_inv_def handles_ok_def sizes_ok_def)
qed

lemma drop_infos_ok:
  assumes "buf_inv m"
  shows "buf_inv (drop_infos old m)"
proof (rule buf_inv_same [OF assms])
  show "free_at (drop_infos old m) k = free_at m k" for k
  proof -
    have "map_of (map (\<lambda>(k, p). (k, g p)) ps) k = map_option g (map_of ps k)" for g :: "buffer_pool \<Rightarrow> buffer_pool" and ps
      by (induction ps) auto
    then show ?thesis by (simp add: drop_infos_def free_at_def split: option.splits)
  qed
qed (simp_all add: drop_infos_def image_image case_prod_beta)

lemma new_manager_ok:
  assumes "\<forall>k\<in>set (bf_PoolSizes c). 0 < k \<and> k < 2 ^ 62"
  shows "buf_inv (NewBufferManager (Some c))"
proof -
  have keys: "fst ` set (fold (\<lambda>sz. AList.update sz empty_pool) ks ps) = set ks \<union> fst ` set ps" for ks :: "int list" and ps
    by (induction ks arbitrary: ps) (auto simp: dom_update)
  have pools: "\<forall>p\<in>snd ` set (fold (\<lambda>sz. AList.update sz empty_pool) ks ps). p = empty_pool"
    if "\<forall>p\<in>snd ` set ps. p = empty_pool" for ks :: "int list" and ps
    using that
  proof (induction ks arbitrary: ps)
    case (Cons k ks)
    have "\<forall>p\<in>snd ` set (AList.update k empty_pool ps). p = empty_pool" using Cons.prems set_alist_update [of k empty_pool ps] by auto
    from Cons.IH [OF this] show ?case by simp
  qed simp
  let ?m = "NewBufferManager (Some c)"
  have "free_at ?m k = []" for k
  proof (cases "map_of (bm_pools ?m) k")
    case (Some p)
    from map_of_SomeD [OF this] have "p \<in> snd ` set (bm_pools ?m)" by force
    then have "p = empty_pool" using pools [of "[]" "bf_PoolSizes c"] by (auto simp: NewBufferManager_def Let_def)
    then show ?thesis using Some by (simp add: free_at_def empty_pool_def)
  qed (simp add: free_at_def)
  then have "mem_ok ?m (owned ?m)" by (simp add: mem_ok_def owned_def NewBufferManager_def Let_def)
  moreover have "sizes_ok ?m" using assms keys [of "bf_PoolSizes c" "[]"] by (simp add: sizes_ok_def NewBufferManager_def Let_def)
  ultimately show ?thesis by (simp add: buf_inv_def handles_ok_def NewBufferManager_def Let_def)
qed

text \<open>
  The runs of a manager: the operations on it and on its handles, the bytes its callers store through \<open>Data\<close>, and the
  elements the pools lose.
\<close>

inductive buf_run :: "buffer_manager \<Rightarrow> bool" where
  br_new: "\<forall>k\<in>set (bf_PoolSizes c). 0 < k \<and> k < 2 ^ 62 \<Longrightarrow> buf_run (NewBufferManager (Some c))"
| br_get: "buf_run m \<Longrightarrow> range_order (bm_pools m) ord \<Longrightarrow> BufferManager_GetBuffer ord pick clk sz m = Inr (h, m') \<Longrightarrow> buf_run m'"
| br_warm: "buf_run m \<Longrightarrow> warm_pool pick k m = Inr m' \<Longrightarrow> buf_run m'"
| br_clone: "buf_run m \<Longrightarrow> h < length (bm_handles m) \<Longrightarrow> SmartBuffer_Clone h m = Inr (c, m') \<Longrightarrow> buf_run m'"
| br_release: "buf_run m \<Longrightarrow> h < length (bm_handles m) \<Longrightarrow> SmartBuffer_Release now h m = Inr m' \<Longrightarrow> buf_run m'"
| br_resize: "buf_run m \<Longrightarrow> h < length (bm_handles m) \<Longrightarrow> SmartBuffer_Resize now n h m = Inr (r, m') \<Longrightarrow> buf_run m'"
| br_write: "buf_run m \<Longrightarrow> h < length (bm_handles m) \<Longrightarrow> SmartBuffer_Write now p h m = Inr (w, m') \<Longrightarrow> buf_run m'"
| br_read: "buf_run m \<Longrightarrow> SmartBuffer_Read now k h m = (w, m') \<Longrightarrow> buf_run m'"
| br_store: "buf_run m \<Longrightarrow> h < length (bm_handles m) \<Longrightarrow> buf_run (store_at (sb_data (bm_handles m ! h)) i n p m)"
| br_pressure: "buf_run m \<Longrightarrow> buf_run (checkMemoryPressure oor now m)"
| br_cleanup: "buf_run m \<Longrightarrow> buf_run (BufferManager_cleanup m)"
| br_vanish: "buf_run m \<Longrightarrow> buf_run (upd_pool k (\<lambda>p. p\<lparr> bp_free := filter P (bp_free p) \<rparr>) m)"

lemma store_inv:
  assumes "buf_inv m" "h < length (bm_handles m)"
  shows "buf_inv (store_at (sb_data (bm_handles m ! h)) i n p m)"
proof -
  let ?m = "store_at (sb_data (bm_handles m ! h)) i n p m"
  have "mem_ok ?m (owned m)" by (rule store_at_ok) (use assms owned_handle in \<open>auto simp: buf_inv_def\<close>)
  moreover have "owned ?m = owned m" by (simp add: owned_def)
  ultimately show ?thesis using assms(1) by (simp add: buf_inv_def handles_ok_def sizes_ok_def)
qed

lemma pressure_ok: "buf_inv m \<Longrightarrow> buf_inv (checkMemoryPressure oor now m)"
proof -
  assume m: "buf_inv m"
  have "buf_inv (triggerGC m)" by (rule buf_inv_same [OF m]) (simp_all add: triggerGC_def free_at_def)
  then show ?thesis using m drop_infos_ok by (simp add: checkMemoryPressure_def cleanupIdleBuffers_def Let_def)
qed

lemma buf_run_inv: "buf_run m \<Longrightarrow> buf_inv m"
proof (induction rule: buf_run.induct)
  case (br_new c)
  then show ?case by (rule new_manager_ok)
next
  case (br_get m ord pick clk sz h m')
  then show ?case using get_ok by blast
next
  case (br_read m now k h w m')
  have "m' = m \<or> m' = touch (sb_info (bm_handles m ! h)) now m"
    using br_read.hyps(2) by (auto simp: SmartBuffer_Read_def Let_def split: if_splits)
  moreover have "buf_inv (touch (sb_info (bm_handles m ! h)) now m)"
    by (rule buf_inv_same [OF br_read.IH]) (simp_all add: free_at_def)
  ultimately show ?case using br_read.IH by auto
next
  case (br_cleanup m)
  then show ?case by (simp add: BufferManager_cleanup_def drop_infos_ok)
next
  case (br_warm m pick k m')
  show ?case by (rule warm_ok [OF br_warm.IH br_warm.hyps(2)])
next
  case (br_clone m h c m')
  show ?case by (rule clone_ok [OF br_clone.IH br_clone.hyps(2,3)])
next
  case (br_release m h now m')
  show ?case by (rule release_ok [OF br_release.IH br_release.hyps(2,3)])
next
  case (br_resize m h now n r m')
  show ?case by (rule resize_ok [OF br_resize.IH br_resize.hyps(2,3)])
next
  case (br_write m h now p w m')
  show ?case by (rule write_ok [OF br_write.IH br_write.hyps(2,3)])
next
  case (br_store m h i n p)
  show ?case by (rule store_inv [OF br_store.IH br_store.hyps(2)])
qed (simp_all only: pressure_ok vanish_ok)


definition small_pools :: buffer_config where
  "small_pools = \<lparr> bf_PoolSizes = [4], bf_MaxPoolSize = 1, bf_MinRetainTime = 0, bf_MaxIdleTime = 0, bf_MaxTotalMemory = 100,
     bf_GCThreshold = 1, bf_EnableMonitoring = False, bf_EnableWarmup = False, bf_WarmupCount = 0, bf_EnableMetrics = False,
     bf_EnableAlignment = False \<rparr>"

definition small_manager :: buffer_manager where
  "small_manager = NewBufferManager (Some small_pools)"


section \<open>Deviations\<close>

text \<open>
  \<open>Write\<close> copies behind the end of the slice, into a slice of no bytes: the first write to a buffer reports success and
  stores nothing, and the next one panics, as the recorded size is then past the slice.
\<close>

theorem write_is_lost:
  assumes "h < length (bm_handles m)" "\<not> sb_released (bm_handles m ! h)" "sb_size (bm_handles m ! h) = sb_len (bm_handles m ! h)"
    and "p \<noteq> []" "0 \<le> sb_size (bm_handles m ! h)" "sb_size (bm_handles m ! h) + int (length p) + int (length q) \<le> sb_capacity (bm_handles m ! h)"
    and "sb_capacity (bm_handles m ! h) < 2 ^ 62"
  shows "\<exists>m'. SmartBuffer_Write now p h m = Inr (Inr (int (length p)), m') \<and> bm_store m' = bm_store m \<and>
    SmartBuffer_Write now' q h m' = Inl SliceBoundsOutOfRange"
proof -
  let ?sb = "bm_handles m ! h"
  let ?sb' = "?sb\<lparr> sb_size := sb_size ?sb + int (length p) \<rparr>"
  let ?m' = "touch (sb_info ?sb) now ((store_at (sb_data ?sb) (nat (sb_size ?sb)) (nat (sb_len ?sb)) p m)\<lparr> bm_handles := (bm_handles m)[h := ?sb'] \<rparr>)"
  have w: "wrap64 (sb_size ?sb + int (length p)) = sb_size ?sb + int (length p)"
    "wrap64 (sb_size ?sb + int (length p) + int (length q)) = sb_size ?sb + int (length p) + int (length q)"
    using assms(5-7) by simp_all
  have l: "0 < length p" using assms(4) by simp
  have "SmartBuffer_Write now p h m = Inr (Inr (int (length p)), ?m')"
    using assms(2,3,5,6) w(1) by (simp add: SmartBuffer_Write_def Let_def)
  moreover have "copy_at (nat (sb_size ?sb)) (nat (sb_len ?sb)) p xs = xs" for xs using assms(3) by (simp add: copy_at_def)
  then have "bm_store ?m' = bm_store m" by (simp add: store_at_def split: option.splits)
  moreover have "SmartBuffer_Write now' q h ?m' = Inl SliceBoundsOutOfRange"
    using assms(1-3,6) w(2) l by (simp add: SmartBuffer_Write_def Let_def)
  ultimately show ?thesis by blast
qed

text \<open>A buffer larger than every pool belongs to none, and its release dereferences the pool it does not have.\<close>

theorem large_release_panics:
  assumes "sb_pool (bm_handles m ! h) = None" "\<not> sb_released (bm_handles m ! h)" "bm_refs m ! sb_refCount (bm_handles m ! h) = 1"
  shows "SmartBuffer_Release now h m = Inl NilDereference"
  using assms by (simp add: SmartBuffer_Release_def Let_def)

text \<open>A handle that is not the last is not marked when it is released: released twice, it gives the buffer back under its
  clone, and the clone's own release gives it back again.\<close>

definition twice_released :: "buffer_manager res" where
  "twice_released =
     and_then (BufferManager_GetBuffer [4] None (\<lambda>_. 0) 3 small_manager) (\<lambda>(a, m).
     and_then (SmartBuffer_Clone a m) (\<lambda>(b, m).
     and_then (SmartBuffer_Release 0 a m) (\<lambda>m.
     and_then (SmartBuffer_Release 0 a m) (SmartBuffer_Release 0 b))))"

theorem double_release_counts_twice:
  "(case twice_released of Inl _ \<Rightarrow> None | Inr m \<Rightarrow> map_option (\<lambda>p. (bp_inUse p, length (bp_free p))) (map_of (bm_pools m) 4)) = Some (- 1, 2)"
  by code_simp

text \<open>Reading never advances: the same bytes come again, and never an end.\<close>

theorem read_repeats:
  "fst (SmartBuffer_Read now' k h (snd (SmartBuffer_Read now k h m))) = fst (SmartBuffer_Read now k h m)"
  by (simp add: SmartBuffer_Read_def slice_bytes_def Let_def split: option.splits)

end
