(* ===== verification/Batching.thy ===== *)
theory Batching
  imports Go_Float "HOL-Library.Sublist"
begin

text \<open>
  The batch processor of the client's protocol layer, \<open>client/internal/protocol/batch.go\<close>: the queue of items, the
  collector that forms batches, the queue of batches, its workers, and the shutdown. A channel is the list of what is
  in it and whether it is closed. Where a \<open>select\<close> has several cases ready, the argument \<open>pick\<close> chooses (\<open>True\<close>
  takes the send). Items are values; the compression of the source only changes the size they record. The time a batch
  takes is an argument.

  Lemmas: items keep their order and are neither lost nor doubled unless a batch is dropped, and where batches are
  dropped, the collector panics, or the batches shrink to one item.
\<close>

section \<open>State\<close>

record batch_config =
  bc_MaxBatchSize :: int
  bc_MaxBatchDelay :: int
  bc_MaxMemoryUsage :: int
  bc_FlushThreshold :: rat
  bc_MaxWorkers :: nat
  bc_QueueSize :: nat
  bc_WorkerIdleTime :: int
  bc_EnableCompression :: bool
  bc_CompressionLevel :: int
  bc_EnablePriority :: bool
  bc_AdaptiveBatching :: bool

definition DefaultBatchConfig :: batch_config where
  "DefaultBatchConfig =
     \<lparr> bc_MaxBatchSize = 1000, bc_MaxBatchDelay = 10 * 10 ^ 6, bc_MaxMemoryUsage = 128 * 1024 * 1024,
       bc_FlushThreshold = fl (8 / 10), bc_MaxWorkers = 4, bc_QueueSize = 10000, bc_WorkerIdleTime = 30 * 10 ^ 9,
       bc_EnableCompression = True, bc_CompressionLevel = 6, bc_EnablePriority = True, bc_AdaptiveBatching = True \<rparr>"

record batch_item =
  it_ID :: string
  it_Data :: "byte list"
  it_Priority :: int
  it_Timestamp :: "int option"
  it_Callback :: bool
  it_size :: int
  it_compressed :: bool

record batch =
  ba_ID :: string
  ba_Items :: "batch_item list"
  ba_CreatedAt :: int
  ba_Priority :: int
  ba_ItemCount :: int
  ba_TotalSize :: int
  ba_ProcessingTime :: int

record batch_result =
  re_Success :: bool
  re_ProcessedCount :: int
  re_TotalSize :: int
  re_ProcessingTime :: int

record batch_processor =
  bp_config :: batch_config
  bp_workQueue :: "batch_item list"
  bp_workClosed :: bool
  bp_batchQueue :: "batch list"
  bp_batchCap :: nat
  bp_batchClosed :: bool
  bp_currentBatch :: "batch option"
  bp_batchTimer :: bool
  bp_started :: bool
  bp_cancelled :: bool
  bp_itemsProcessed :: int
  bp_batchesProcessed :: int
  bp_totalLatency :: int
  bp_avgBatchSize :: int
  bp_compressionRatio :: int
  bp_memoryUsage :: int
  bp_queueLength :: int
  bp_workCap :: nat

definition NewBatchProcessor :: "batch_config option \<Rightarrow> batch_processor" where
  "NewBatchProcessor config =
     (let c = (case config of None \<Rightarrow> DefaultBatchConfig | Some c \<Rightarrow> c)
      in \<lparr> bp_config = c, bp_workQueue = [], bp_workClosed = False, bp_batchQueue = [], bp_batchCap = bc_MaxWorkers c * 2,
           bp_batchClosed = False, bp_currentBatch = None, bp_batchTimer = False, bp_started = False, bp_cancelled = False,
           bp_itemsProcessed = 0, bp_batchesProcessed = 0, bp_totalLatency = 0, bp_avgBatchSize = 0,
           bp_compressionRatio = 0, bp_memoryUsage = 0, bp_queueLength = 0, bp_workCap = bc_QueueSize c \<rparr>)"

definition BatchProcessor_Start :: "batch_processor \<Rightarrow> batch_processor" where
  "BatchProcessor_Start bp = bp\<lparr> bp_started := True \<rparr>"

section \<open>Submitting\<close>

datatype submit_error = ItemNil | QueueFull | ContextDone

definition submit_defaults :: "int \<Rightarrow> batch_item \<Rightarrow> batch_item" where
  "submit_defaults now item =
     (let item = (if it_ID item = [] then item\<lparr> it_ID := ''item-'' @ itoa_int now \<rparr> else item);
          item = (if it_Timestamp item = None then item\<lparr> it_Timestamp := Some now \<rparr> else item)
      in if it_size item = 0 then item\<lparr> it_size := int (length (it_Data item)) \<rparr> else item)"

text \<open>A send to a closed channel is a ready case, which panics when it is taken. The result is the item in the queue.\<close>

definition BatchProcessor_Submit ::
    "bool \<Rightarrow> int \<Rightarrow> batch_item option \<Rightarrow> batch_processor \<Rightarrow> ((submit_error + batch_item) \<times> batch_processor) res" where
  "BatchProcessor_Submit pick now arg bp =
     (case arg of
        None \<Rightarrow> Inr (Inl ItemNil, bp)
      | Some item \<Rightarrow>
          (let item = submit_defaults now item; bp = bp\<lparr> bp_queueLength := int (length (bp_workQueue bp)) \<rparr>;
               ready = (bp_workClosed bp \<or> length (bp_workQueue bp) < bp_workCap bp)
           in if \<not> bp_started bp then Inl NilDereference
              else if ready \<and> (pick \<or> \<not> bp_cancelled bp)
              then (if bp_workClosed bp then Inl SendOnClosedChannel
                    else Inr (Inr item, bp\<lparr> bp_workQueue := bp_workQueue bp @ [item] \<rparr>))
              else if bp_cancelled bp then Inr (Inl ContextDone, bp)
              else Inr (Inl QueueFull, bp)))"

definition CreateBatchItem :: "int \<Rightarrow> byte list \<Rightarrow> int \<Rightarrow> bool \<Rightarrow> batch_item" where
  "CreateBatchItem now data priority callback =
     \<lparr> it_ID = ''item-'' @ itoa_int now, it_Data = data, it_Priority = priority, it_Timestamp = Some now,
       it_Callback = callback, it_size = int (length data), it_compressed = False \<rparr>"

definition BatchWriter_Write ::
    "bool \<Rightarrow> int \<Rightarrow> int \<Rightarrow> byte list \<Rightarrow> batch_processor \<Rightarrow> ((submit_error + int) \<times> batch_processor) res" where
  "BatchWriter_Write pick now priority data bp =
     (let item = \<lparr> it_ID = ''write-'' @ itoa_int now, it_Data = data, it_Priority = priority, it_Timestamp = Some now,
                   it_Callback = False, it_size = int (length data), it_compressed = False \<rparr>
      in and_then (BatchProcessor_Submit pick now (Some item) bp)
           (\<lambda>(r, bp). Inr (case r of Inl e \<Rightarrow> Inl e | Inr _ \<Rightarrow> Inr (int (length data)), bp)))"

section \<open>Forming batches\<close>

definition BatchProcessor_createNewBatch :: "int \<Rightarrow> batch_processor \<Rightarrow> batch_processor res" where
  "BatchProcessor_createNewBatch now bp =
     (if bc_MaxBatchSize (bp_config bp) < 0 then Inl InvalidArgument
      else Inr (bp\<lparr> bp_currentBatch := Some \<lparr> ba_ID = ''batch-'' @ itoa_int now, ba_Items = [], ba_CreatedAt = now,
                      ba_Priority = 0, ba_ItemCount = 0, ba_TotalSize = 0, ba_ProcessingTime = 0 \<rparr>,
                    bp_batchTimer := True \<rparr>))"

definition BatchProcessor_compressItem :: "batch_item \<Rightarrow> batch_processor \<Rightarrow> batch_item \<times> batch_processor" where
  "BatchProcessor_compressItem item bp =
     (if length (it_Data item) > 128
      then (let originalSize = int (length (it_Data item)); compressedSize = wrap64 (originalSize * 7) sdiv 10
            in (item\<lparr> it_size := compressedSize, it_compressed := True \<rparr>,
                bp\<lparr> bp_compressionRatio := wrap64 (compressedSize * 1000) sdiv originalSize \<rparr>))
      else (item, bp))"

definition BatchProcessor_shouldAdaptiveFlush :: "batch \<Rightarrow> batch_processor \<Rightarrow> bool" where
  "BatchProcessor_shouldAdaptiveFlush b bp =
     (if bp_queueLength bp > int (bc_QueueSize (bp_config bp) div 2) then ba_ItemCount b \<ge> bp_avgBatchSize bp sdiv 2
      else False)"

definition BatchProcessor_shouldFlushBatch :: "batch_processor \<Rightarrow> bool" where
  "BatchProcessor_shouldFlushBatch bp =
     (case bp_currentBatch bp of
        None \<Rightarrow> False
      | Some b \<Rightarrow>
          if ba_ItemCount b \<ge> bc_MaxBatchSize (bp_config bp) then True
          else if float64 (bp_memoryUsage bp) > fmul (float64 (bc_MaxMemoryUsage (bp_config bp))) (bc_FlushThreshold (bp_config bp)) then True
          else if bc_AdaptiveBatching (bp_config bp) then BatchProcessor_shouldAdaptiveFlush b bp
          else False)"

definition BatchProcessor_updateBatchStats :: "batch \<Rightarrow> batch_processor \<Rightarrow> batch_processor" where
  "BatchProcessor_updateBatchStats b bp =
     bp\<lparr> bp_avgBatchSize := wrap64 (bp_avgBatchSize bp * 9 + ba_ItemCount b) sdiv 10,
         bp_memoryUsage := add64 (bp_memoryUsage bp) (ba_TotalSize b) \<rparr>"

text \<open>The first component is the batch that was dropped, if one was.\<close>

definition BatchProcessor_flushCurrentBatchUnsafe :: "bool \<Rightarrow> batch_processor \<Rightarrow> (batch option \<times> batch_processor) res" where
  "BatchProcessor_flushCurrentBatchUnsafe pick bp =
     (case bp_currentBatch bp of
        None \<Rightarrow> Inr (None, bp)
      | Some b \<Rightarrow>
          if ba_ItemCount b = 0 then Inr (None, bp)
          else (let bp = bp\<lparr> bp_batchTimer := False \<rparr>;
                    ready = (bp_batchClosed bp \<or> length (bp_batchQueue bp) < bp_batchCap bp)
                in if ready \<and> (pick \<or> \<not> bp_cancelled bp)
                   then (if bp_batchClosed bp then Inl SendOnClosedChannel
                         else Inr (None, (BatchProcessor_updateBatchStats b (bp\<lparr> bp_batchQueue := bp_batchQueue bp @ [b] \<rparr>))
                                           \<lparr> bp_currentBatch := None \<rparr>))
                   else Inr (Some b, (BatchProcessor_updateBatchStats b bp)\<lparr> bp_currentBatch := None \<rparr>)))"

definition append_item :: "batch_item \<Rightarrow> batch_processor \<Rightarrow> batch_processor" where
  "append_item item bp =
     bp\<lparr> bp_currentBatch := map_option (\<lambda>b. b\<lparr> ba_Items := ba_Items b @ [item], ba_ItemCount := add64 (ba_ItemCount b) 1,
            ba_TotalSize := add64 (ba_TotalSize b) (it_size item),
            ba_Priority := (if bc_EnablePriority (bp_config bp) \<and> it_Priority item > ba_Priority b then it_Priority item else ba_Priority b) \<rparr>)
          (bp_currentBatch bp) \<rparr>"

text \<open>\<open>None\<close> is the nil item a receive from a closed channel gives.\<close>

definition BatchProcessor_addToBatch ::
    "bool \<Rightarrow> int \<Rightarrow> batch_item option \<Rightarrow> batch_processor \<Rightarrow> (batch option \<times> batch_processor) res" where
  "BatchProcessor_addToBatch pick now arg bp =
     and_then (if bp_currentBatch bp = None then BatchProcessor_createNewBatch now bp else Inr bp)
       (\<lambda>bp. case arg of
               None \<Rightarrow> Inl NilDereference
             | Some item \<Rightarrow>
                 (let (item, bp) = (if bc_EnableCompression (bp_config bp) \<and> \<not> it_compressed item
                                    then BatchProcessor_compressItem item bp else (item, bp));
                      bp = append_item item bp
                  in if BatchProcessor_shouldFlushBatch bp then BatchProcessor_flushCurrentBatchUnsafe pick bp else Inr (None, bp)))"

text \<open>
  One turn of \<open>batchCollector\<close>: \<open>pick\<close> takes the receive when the context is done too, \<open>pick'\<close> is that of a flush. The
  last component says whether the collector goes on.
\<close>

definition BatchProcessor_batchCollector_turn ::
    "bool \<Rightarrow> bool \<Rightarrow> int \<Rightarrow> batch_processor \<Rightarrow> (batch option \<times> batch_processor \<times> bool) res" where
  "BatchProcessor_batchCollector_turn pick pick' now bp =
     (let ready = (bp_workQueue bp \<noteq> [] \<or> bp_workClosed bp) in
      if ready \<and> (pick \<or> \<not> bp_cancelled bp)
      then (case bp_workQueue bp of
              [] \<Rightarrow> and_then (BatchProcessor_addToBatch pick' now None bp) (\<lambda>(d, bp). Inr (d, bp, True))
            | item # items \<Rightarrow>
                and_then (BatchProcessor_addToBatch pick' now (Some item) (bp\<lparr> bp_workQueue := items \<rparr>)) (\<lambda>(d, bp). Inr (d, bp, True)))
      else if bp_cancelled bp
      then and_then (BatchProcessor_flushCurrentBatchUnsafe pick' bp) (\<lambda>(d, bp). Inr (d, bp, False))
      else Inr (None, bp, True))"

section \<open>Processing\<close>

definition BatchProcessor_processBatch :: "int \<Rightarrow> batch \<Rightarrow> batch_processor \<Rightarrow> batch_result \<times> batch_processor" where
  "BatchProcessor_processBatch took b bp =
     (let n = int (length (ba_Items b))
      in (\<lparr> re_Success = True, re_ProcessedCount = n, re_TotalSize = ba_TotalSize b, re_ProcessingTime = took \<rparr>,
          bp\<lparr> bp_itemsProcessed := ((\<lambda>x. add64 x 1) ^^ length (ba_Items b)) (bp_itemsProcessed bp) \<rparr>))"

text \<open>The callbacks to run, with their results.\<close>

definition BatchProcessor_callItemCallbacks :: "batch \<Rightarrow> batch_result \<Rightarrow> (batch_item \<times> batch_result) list" where
  "BatchProcessor_callItemCallbacks b result =
     (let items = ba_Items b; n = int (length items)
      in map (\<lambda>(i, item). (item, \<lparr> re_Success = (int i < re_ProcessedCount result), re_ProcessedCount = 1, re_TotalSize = it_size item,
                                    re_ProcessingTime = re_ProcessingTime result sdiv n \<rparr>))
           (filter (\<lambda>(_, item). it_Callback item) (enumerate 0 items)))"

definition BatchProcessor_batchWorker_turn ::
    "int \<Rightarrow> int \<Rightarrow> batch_processor \<Rightarrow> (batch_item \<times> batch_result) list \<times> batch_processor" where
  "BatchProcessor_batchWorker_turn took elapsed bp =
     (case bp_batchQueue bp of
        [] \<Rightarrow> ([], bp)
      | b # bs \<Rightarrow>
          (let (result, bp) = BatchProcessor_processBatch took b (bp\<lparr> bp_batchQueue := bs \<rparr>)
           in (BatchProcessor_callItemCallbacks b result,
               bp\<lparr> bp_batchesProcessed := add64 (bp_batchesProcessed bp) 1, bp_totalLatency := add64 (bp_totalLatency bp) elapsed \<rparr>)))"

definition BatchProcessor_adjustParameters :: "batch_processor \<Rightarrow> batch_processor" where
  "BatchProcessor_adjustParameters bp =
     (if \<not> bc_AdaptiveBatching (bp_config bp) then bp
      else (let c = bp_config bp;
                newSize = wrap64 (bc_MaxBatchSize c * 3) sdiv 4;
                c = (if bp_queueLength bp > int (bc_QueueSize c * 3 div 4) \<and> newSize > 10 then c\<lparr> bc_MaxBatchSize := newSize \<rparr> else c);
                newDelay = wrap64 (bc_MaxBatchDelay c * 3) sdiv 4;
                c = (if fdiv (float64 (bp_totalLatency bp)) (10 ^ 6) > 100 \<and> newDelay > 10 ^ 6 then c\<lparr> bc_MaxBatchDelay := newDelay \<rparr> else c)
            in bp\<lparr> bp_config := c \<rparr>))"

text \<open>\<open>Stop\<close>: cancel and flush, close the queue of items, wait for the collector, close the queue of batches.\<close>

definition BatchProcessor_Stop_begin :: "bool \<Rightarrow> batch_processor \<Rightarrow> (batch option \<times> batch_processor) res" where
  "BatchProcessor_Stop_begin pick bp =
     and_then (BatchProcessor_flushCurrentBatchUnsafe pick (bp\<lparr> bp_cancelled := bp_started bp \<or> bp_cancelled bp \<rparr>))
       (\<lambda>(d, bp). if bp_workClosed bp then Inl CloseOfClosedChannel else Inr (d, bp\<lparr> bp_workClosed := True \<rparr>))"

definition BatchProcessor_Stop_end :: "batch_processor \<Rightarrow> batch_processor" where
  "BatchProcessor_Stop_end bp = bp\<lparr> bp_batchClosed := True \<rparr>"

section \<open>Order and conservation\<close>

text \<open>What identifies an item: all it carries but the size it records.\<close>

definition cargo :: "batch_item \<Rightarrow> string \<times> byte list \<times> int \<times> bool" where
  "cargo item = (it_ID item, it_Data item, it_Priority item, it_Callback item)"

definition current_items :: "batch_processor \<Rightarrow> batch_item list" where
  "current_items bp = (case bp_currentBatch bp of None \<Rightarrow> [] | Some b \<Rightarrow> ba_Items b)"

definition in_system :: "batch_processor \<Rightarrow> batch_item list" where
  "in_system bp = concat (map ba_Items (bp_batchQueue bp)) @ current_items bp @ bp_workQueue bp"

definition items_of :: "batch option \<Rightarrow> nat" where
  "items_of d = (case d of None \<Rightarrow> 0 | Some b \<Rightarrow> length (ba_Items b))"

text \<open>
  The runs of a started processor: \<open>acc\<close> are the items accepted, \<open>out\<close> those workers have taken, in this order, and \<open>n\<close>
  is the number of items in dropped batches.
\<close>

inductive batch_run :: "batch_processor \<Rightarrow> batch_item list \<Rightarrow> batch_item list \<Rightarrow> nat \<Rightarrow> bool" where
  bt_new: "batch_run (BatchProcessor_Start (NewBatchProcessor c)) [] [] 0"
| bt_refused: "batch_run bp acc out n \<Longrightarrow> BatchProcessor_Submit pick now arg bp = Inr (Inl e, bp') \<Longrightarrow> batch_run bp' acc out n"
| bt_submit: "batch_run bp acc out n \<Longrightarrow> BatchProcessor_Submit pick now arg bp = Inr (Inr item, bp') \<Longrightarrow> batch_run bp' (acc @ [item]) out n"
| bt_collect: "batch_run bp acc out n \<Longrightarrow> BatchProcessor_batchCollector_turn pick pick' now bp = Inr (d, bp', go) \<Longrightarrow>
    batch_run bp' acc out (n + items_of d)"
| bt_timer: "batch_run bp acc out n \<Longrightarrow> BatchProcessor_flushCurrentBatchUnsafe pick bp = Inr (d, bp') \<Longrightarrow>
    batch_run bp' acc out (n + items_of d)"
| bt_work: "batch_run bp acc out n \<Longrightarrow> bp_batchQueue bp = b # bs \<Longrightarrow>
    batch_run (snd (BatchProcessor_batchWorker_turn took elapsed bp)) acc (out @ ba_Items b) n"
| bt_adjust: "batch_run bp acc out n \<Longrightarrow> batch_run (BatchProcessor_adjustParameters bp) acc out n"
| bt_stop: "batch_run bp acc out n \<Longrightarrow> BatchProcessor_Stop_begin pick bp = Inr (d, bp') \<Longrightarrow> batch_run bp' acc out (n + items_of d)"
| bt_stopped: "batch_run bp acc out n \<Longrightarrow> batch_run (BatchProcessor_Stop_end bp) acc out n"

definition conserved :: "batch_processor \<Rightarrow> batch_item list \<Rightarrow> batch_item list \<Rightarrow> nat \<Rightarrow> bool" where
  "conserved bp acc out n \<longleftrightarrow> subseq (map cargo (out @ in_system bp)) (map cargo acc) \<and> length acc = length (out @ in_system bp) + n"

lemma conserved_same: "conserved bp acc out n \<Longrightarrow> in_system bp' = in_system bp \<Longrightarrow> conserved bp' acc out n"
  by (simp add: conserved_def)

lemma flush_conserves:
  assumes "conserved bp acc out n" "BatchProcessor_flushCurrentBatchUnsafe pick bp = Inr (d, bp')"
  shows "conserved bp' acc out (n + items_of d)"
proof (cases "bp_currentBatch bp")
  case None
  then show ?thesis using assms by (simp add: BatchProcessor_flushCurrentBatchUnsafe_def items_of_def)
next
  case (Some b)
  show ?thesis
  proof (cases d)
    case None
    then have "in_system bp' = in_system bp" using assms(2) Some
      by (auto simp: BatchProcessor_flushCurrentBatchUnsafe_def BatchProcessor_updateBatchStats_def Let_def in_system_def
          current_items_def split: if_splits)
    then show ?thesis using conserved_same [OF assms(1)] None by (simp add: items_of_def)
  next
    case (Some b')
    then have b: "b' = b" and s: "in_system bp' = concat (map ba_Items (bp_batchQueue bp)) @ bp_workQueue bp"
      using assms(2) \<open>bp_currentBatch bp = Some b\<close>
      by (auto simp: BatchProcessor_flushCurrentBatchUnsafe_def BatchProcessor_updateBatchStats_def Let_def in_system_def
          current_items_def split: if_splits)
    have old: "in_system bp = concat (map ba_Items (bp_batchQueue bp)) @ ba_Items b @ bp_workQueue bp"
      using \<open>bp_currentBatch bp = Some b\<close> by (simp add: in_system_def current_items_def)
    have "subseq (map cargo (out @ in_system bp')) (map cargo (out @ in_system bp))"
      unfolding s old map_append by (intro list_emb_append_mono subseq_order.order_refl list_emb_append2)
    then show ?thesis using assms(1) Some b s old
      by (auto simp: conserved_def items_of_def intro: subseq_order.trans)
  qed
qed

lemma compress_cargo: "BatchProcessor_compressItem item bp = (item', bp') \<Longrightarrow>
    cargo item' = cargo item \<and> in_system bp' = in_system bp \<and> bp_currentBatch bp' = bp_currentBatch bp \<and>
    bp_batchQueue bp' = bp_batchQueue bp \<and> bp_workQueue bp' = bp_workQueue bp"
  by (auto simp: BatchProcessor_compressItem_def cargo_def in_system_def current_items_def Let_def split: if_splits)

lemma add_conserves:
  assumes "conserved bp acc out n" "bp_workQueue bp = item # items"
    and "BatchProcessor_addToBatch pick now (Some item) (bp\<lparr> bp_workQueue := items \<rparr>) = Inr (d, bp')"
  shows "conserved bp' acc out (n + items_of d)"
proof -
  let ?bp = "bp\<lparr> bp_workQueue := items \<rparr>"
  obtain bp1 where 1: "(if bp_currentBatch ?bp = None then BatchProcessor_createNewBatch now ?bp else Inr ?bp) = Inr bp1"
    using assms(3) unfolding BatchProcessor_addToBatch_def and_then_eq_Inr_iff by blast
  obtain item' bp2 where 2: "(if bc_EnableCompression (bp_config bp1) \<and> \<not> it_compressed item
      then BatchProcessor_compressItem item bp1 else (item, bp1)) = (item', bp2)" by fastforce
  have s1: "bp_workQueue bp1 = items" "bp_batchQueue bp1 = bp_batchQueue bp" "current_items bp1 = current_items bp" "bp_currentBatch bp1 \<noteq> None"
    using 1 by (auto simp: BatchProcessor_createNewBatch_def current_items_def split: if_splits)
  have s2: "cargo item' = cargo item" "bp_workQueue bp2 = items" "bp_batchQueue bp2 = bp_batchQueue bp" "current_items bp2 = current_items bp"
      "bp_currentBatch bp2 \<noteq> None"
    using 2 s1 compress_cargo [of item bp1 item' bp2] by (auto simp: current_items_def split: if_splits)
  have "in_system (append_item item' bp2) = concat (map ba_Items (bp_batchQueue bp)) @ current_items bp @ item' # items"
    using s2 by (auto simp: in_system_def append_item_def current_items_def)
  then have "map cargo (in_system (append_item item' bp2)) = map cargo (in_system bp)" "length (in_system (append_item item' bp2)) = length (in_system bp)"
    using s2(1) assms(2) by (simp_all add: in_system_def)
  then have c: "conserved (append_item item' bp2) acc out n" using assms(1) by (simp add: conserved_def)
  have "Inr (d, bp') = (if BatchProcessor_shouldFlushBatch (append_item item' bp2)
      then BatchProcessor_flushCurrentBatchUnsafe pick (append_item item' bp2) else Inr (None, append_item item' bp2))"
    using assms(3) unfolding BatchProcessor_addToBatch_def 1 by (auto simp: 2 Let_def split: if_splits)
  then show ?thesis using c flush_conserves [OF c] by (auto simp: items_of_def split: if_splits)
qed

lemma batch_run_conserved: "batch_run bp acc out n \<Longrightarrow> conserved bp acc out n"
proof (induction rule: batch_run.induct)
  case (bt_new c)
  show ?case by (simp add: conserved_def in_system_def current_items_def BatchProcessor_Start_def NewBatchProcessor_def Let_def)
next
  case (bt_refused bp acc out n pick now arg e bp')
  then have "in_system bp' = in_system bp"
    by (auto simp: BatchProcessor_Submit_def in_system_def current_items_def Let_def split: option.splits if_splits)
  then show ?case using conserved_same [OF bt_refused.IH] by blast
next
  case (bt_submit bp acc out n pick now arg item bp')
  then have "in_system bp' = in_system bp @ [item]"
    by (auto simp: BatchProcessor_Submit_def in_system_def current_items_def Let_def split: option.splits if_splits)
  then show ?case using bt_submit.IH by (simp add: conserved_def subseq_append' list_emb_append_mono flip: append_assoc)
next
  case (bt_collect bp acc out n pick pick' now d bp' go)
  show ?case
  proof (cases "(bp_workQueue bp \<noteq> [] \<or> bp_workClosed bp) \<and> (pick \<or> \<not> bp_cancelled bp)")
    case True
    show ?thesis
    proof (cases "bp_workQueue bp")
      case Nil
      then show ?thesis using True bt_collect.hyps(2)
        by (auto simp: BatchProcessor_batchCollector_turn_def BatchProcessor_addToBatch_def Let_def and_then_eq_Inr_iff)
    next
      case (Cons item items)
      then have "BatchProcessor_addToBatch pick' now (Some item) (bp\<lparr> bp_workQueue := items \<rparr>) = Inr (d, bp')"
        using True bt_collect.hyps(2) by (auto simp: BatchProcessor_batchCollector_turn_def Let_def and_then_eq_Inr_iff)
      from add_conserves [OF bt_collect.IH Cons this] show ?thesis .
    qed
  next
    case False
    then have "BatchProcessor_flushCurrentBatchUnsafe pick' bp = Inr (d, bp') \<or> d = None \<and> bp' = bp"
      using bt_collect.hyps(2) by (auto simp: BatchProcessor_batchCollector_turn_def Let_def and_then_eq_Inr_iff split: if_splits)
    then show ?thesis using flush_conserves [OF bt_collect.IH] bt_collect.IH by (auto simp: items_of_def)
  qed
next
  case (bt_timer bp acc out n pick d bp')
  show ?case by (rule flush_conserves [OF bt_timer.IH bt_timer.hyps(2)])
next
  case (bt_work bp acc out n b bs took elapsed)
  then have "in_system bp = ba_Items b @ in_system (snd (BatchProcessor_batchWorker_turn took elapsed bp))"
    by (simp add: BatchProcessor_batchWorker_turn_def BatchProcessor_processBatch_def in_system_def current_items_def Let_def)
  then show ?case using bt_work.IH by (simp add: conserved_def)
next
  case (bt_adjust bp acc out n)
  have "in_system (BatchProcessor_adjustParameters bp) = in_system bp"
    by (simp add: BatchProcessor_adjustParameters_def in_system_def current_items_def Let_def)
  then show ?case using conserved_same [OF bt_adjust.IH] by blast
next
  case (bt_stop bp acc out n pick d bp')
  let ?bp = "bp\<lparr> bp_cancelled := bp_started bp \<or> bp_cancelled bp \<rparr>"
  obtain bp1 where f: "BatchProcessor_flushCurrentBatchUnsafe pick ?bp = Inr (d, bp1)" and s: "in_system bp' = in_system bp1"
    using bt_stop.hyps(2) by (auto simp: BatchProcessor_Stop_begin_def and_then_eq_Inr_iff in_system_def current_items_def split: if_splits)
  have "conserved ?bp acc out n" by (rule conserved_same [OF bt_stop.IH]) (simp add: in_system_def current_items_def)
  from flush_conserves [OF this f] show ?case by (rule conserved_same) (rule s)
next
  case (bt_stopped bp acc out n)
  show ?case by (rule conserved_same [OF bt_stopped.IH]) (simp add: BatchProcessor_Stop_end_def in_system_def current_items_def)
qed

text \<open>
  C29: over any run of submitters, collector, timer, workers and shutdown, the items the workers took, followed by those
  still inside, are the accepted items in their order, each at most once, and all of them when no batch was dropped.
\<close>

theorem batches_keep_items:
  assumes "batch_run bp acc out n"
  shows "subseq (map cargo (out @ in_system bp)) (map cargo acc) \<and> length acc = length (out @ in_system bp) + n \<and>
    (n = 0 \<longrightarrow> map cargo (out @ in_system bp) = map cargo acc)"
proof -
  have c: "subseq (map cargo (out @ in_system bp)) (map cargo acc)" "length acc = length (out @ in_system bp) + n"
    using batch_run_conserved [OF assms] by (simp_all add: conserved_def)
  moreover have "map cargo (out @ in_system bp) = map cargo acc" if "n = 0"
    using subseq_same_length [OF c(1)] c(2) that by simp
  ultimately show ?thesis by blast
qed

definition small_batches :: batch_config where
  "small_batches = \<lparr> bc_MaxBatchSize = 1, bc_MaxBatchDelay = 1, bc_MaxMemoryUsage = 100, bc_FlushThreshold = 1, bc_MaxWorkers = 1,
     bc_QueueSize = 2, bc_WorkerIdleTime = 0, bc_EnableCompression = False, bc_CompressionLevel = 0, bc_EnablePriority = False,
     bc_AdaptiveBatching = False \<rparr>"

theorem batches_keep_items_witness:
  "\<exists>bp item. batch_run bp [item] [] 0 \<and> map cargo (in_system bp) = [cargo item]"
proof -
  let ?bp = "BatchProcessor_Start (NewBatchProcessor (Some small_batches))"
  let ?item = "CreateBatchItem 1 [1, 2] 0 True"
  have s: "BatchProcessor_Submit True 1 (Some ?item) ?bp = Inr (Inr ?item, ?bp\<lparr> bp_queueLength := 0, bp_workQueue := [?item] \<rparr>)"
    by (simp add: BatchProcessor_Submit_def submit_defaults_def CreateBatchItem_def BatchProcessor_Start_def NewBatchProcessor_def
        small_batches_def Let_def)
  have run: "batch_run (?bp\<lparr> bp_queueLength := 0, bp_workQueue := [?item] \<rparr>) ([] @ [?item]) [] 0" by (rule bt_submit [OF bt_new s])
  then show ?thesis using batches_keep_items [OF run]
    by (intro exI [of _ "?bp\<lparr> bp_queueLength := 0, bp_workQueue := [?item] \<rparr>"] exI [of _ ?item]) simp
qed

section \<open>Deviations\<close>

text \<open>After \<open>Stop\<close> has closed the queue, the collector may still receive from it, gets a nil item, and panics.\<close>

theorem collector_receives_nil:
  assumes "bp_workQueue bp = []" "bp_workClosed bp" "0 \<le> bc_MaxBatchSize (bp_config bp)"
  shows "BatchProcessor_batchCollector_turn True pick' now bp = Inl NilDereference"
  using assms by (simp add: BatchProcessor_batchCollector_turn_def BatchProcessor_addToBatch_def BatchProcessor_createNewBatch_def Let_def)

text \<open>The collector that ends leaves the items of the queue where they are: they are accepted and never processed.\<close>

theorem stopping_abandons_items:
  assumes "bp_cancelled bp" "BatchProcessor_batchCollector_turn False pick' now bp = Inr (d, bp', go)"
  shows "\<not> go \<and> bp_workQueue bp' = bp_workQueue bp"
  using assms
  by (auto simp: BatchProcessor_batchCollector_turn_def BatchProcessor_flushCurrentBatchUnsafe_def BatchProcessor_updateBatchStats_def
      Let_def and_then_eq_Inr_iff split: option.splits if_splits)

text \<open>A submission that meets the closed queue panics.\<close>

theorem submit_after_stop_panics:
  assumes "bp_started bp" "bp_workClosed bp"
  shows "BatchProcessor_Submit True now (Some item) bp = Inl SendOnClosedChannel"
  using assms by (simp add: BatchProcessor_Submit_def Let_def)

text \<open>
  The recorded memory use is the sum of all batches ever formed and never falls; past the threshold every item is a batch
  of its own.
\<close>

theorem memory_use_never_falls:
  assumes "BatchProcessor_flushCurrentBatchUnsafe pick bp = Inr (d, bp')" "bp_currentBatch bp = Some b" "0 \<le> ba_TotalSize b"
    "0 \<le> bp_memoryUsage bp" "bp_memoryUsage bp + ba_TotalSize b < 2 ^ 63"
  shows "bp_memoryUsage bp \<le> bp_memoryUsage bp'"
proof -
  have "wrap64 (bp_memoryUsage bp + ba_TotalSize b) = bp_memoryUsage bp + ba_TotalSize b" using assms(3-5) by simp
  then show ?thesis using assms(1-3)
    by (auto simp: BatchProcessor_flushCurrentBatchUnsafe_def BatchProcessor_updateBatchStats_def Let_def split: if_splits)
qed

theorem full_memory_flushes:
  assumes "float64 (bp_memoryUsage bp) > fmul (float64 (bc_MaxMemoryUsage (bp_config bp))) (bc_FlushThreshold (bp_config bp))"
  shows "bp_currentBatch bp \<noteq> None \<longrightarrow> BatchProcessor_shouldFlushBatch bp"
  using assms by (simp add: BatchProcessor_shouldFlushBatch_def split: option.splits)

text \<open>The average starts at zero and is rounded down, so that batches of up to nine items leave it there.\<close>

theorem average_stays_zero:
  assumes "bp_avgBatchSize bp = 0" "0 \<le> ba_ItemCount b" "ba_ItemCount b < 10"
  shows "bp_avgBatchSize (BatchProcessor_updateBatchStats b bp) = 0"
  using assms by (simp add: BatchProcessor_updateBatchStats_def signed_divide_int_def)

text \<open>The parameters are adjusted by the sum of all latencies, not their average: past 0.1 s in sum the delay shrinks each time.\<close>

theorem delay_shrinks_by_sum:
  assumes "bc_AdaptiveBatching (bp_config bp)" "fdiv (float64 (bp_totalLatency bp)) (10 ^ 6) > 100"
    "2 * 10 ^ 6 \<le> bc_MaxBatchDelay (bp_config bp)" "bc_MaxBatchDelay (bp_config bp) < 2 ^ 60"
  shows "bc_MaxBatchDelay (bp_config (BatchProcessor_adjustParameters bp)) < bc_MaxBatchDelay (bp_config bp)"
proof -
  let ?d = "bc_MaxBatchDelay (bp_config bp)"
  have w: "wrap64 (?d * 3) = ?d * 3" using assms(3,4) by simp
  have "?d * 3 sdiv 4 = ?d * 3 div 4" using assms(3) by (simp add: signed_divide_int_def)
  moreover have "1000000 < ?d * 3 div 4" "?d * 3 div 4 < ?d" using assms(3) by simp_all
  ultimately have "10 ^ 6 < ?d * 3 sdiv 4" "?d * 3 sdiv 4 < ?d" by simp_all
  then show ?thesis using assms(1,2) w by (simp add: BatchProcessor_adjustParameters_def Let_def)
qed

end
