(* ===== verification/Go_Base64.thy ===== *)
theory Go_Base64
  imports Prelude
begin

text \<open>
  The standard encoding of Go's package \<open>encoding/base64\<close>: groups of three bytes as four characters, padded with \<open>=\<close>.
  The decoder skips line ends anywhere, wants the padding and nothing after it, and ignores left-over bits. The theorem
  is that decoding inverts encoding.
\<close>

definition b64_char :: "nat \<Rightarrow> byte" where
  "b64_char n =
     (if n < 26 then of_nat (65 + n) else if n < 52 then of_nat (71 + n) else if n < 62 then of_nat (n - 4)
      else if n = 62 then 43 else 47)"

definition b64_value :: "byte \<Rightarrow> nat option" where
  "b64_value c =
     (if 65 \<le> c \<and> c \<le> 90 then Some (unat c - 65)
      else if 97 \<le> c \<and> c \<le> 122 then Some (unat c - 71)
      else if 48 \<le> c \<and> c \<le> 57 then Some (unat c + 4)
      else if c = 43 then Some 62 else if c = 47 then Some 63 else None)"

definition b64_pad :: byte where
  "b64_pad = 61"

definition quad :: "byte \<Rightarrow> byte \<Rightarrow> byte \<Rightarrow> nat list" where
  "quad a b c = (let v = unat a * 65536 + unat b * 256 + unat c in [v div 262144, v div 4096 mod 64, v div 64 mod 64, v mod 64])"

fun base64_encode :: "byte list \<Rightarrow> byte list" where
  "base64_encode (a # b # c # r) = map b64_char (quad a b c) @ base64_encode r"
| "base64_encode [a, b] = map b64_char (take 3 (quad a b 0)) @ [b64_pad]"
| "base64_encode [a] = map b64_char (take 2 (quad a 0 0)) @ [b64_pad, b64_pad]"
| "base64_encode [] = []"

definition unquad :: "nat \<Rightarrow> nat \<Rightarrow> nat \<Rightarrow> nat \<Rightarrow> byte list" where
  "unquad w x y z = (let v = w * 262144 + x * 4096 + y * 64 + z in [of_nat (v div 65536), of_nat (v div 256), of_nat v])"

fun decode_quads :: "byte list \<Rightarrow> byte list option" where
  "decode_quads [] = Some []"
| "decode_quads (a # b # c # d # r) =
     (case (b64_value a, b64_value b) of
        (Some w, Some x) \<Rightarrow>
          (case b64_value c of
             Some y \<Rightarrow>
               (case b64_value d of
                  Some z \<Rightarrow> map_option (append (unquad w x y z)) (decode_quads r)
                | None \<Rightarrow> if d = b64_pad \<and> r = [] then Some (take 2 (unquad w x y 0)) else None)
           | None \<Rightarrow> if c = b64_pad \<and> d = b64_pad \<and> r = [] then Some (take 1 (unquad w x 0 0)) else None)
      | _ \<Rightarrow> None)"
| "decode_quads _ = None"

definition base64_decode :: "byte list \<Rightarrow> byte list option" where
  "base64_decode src = decode_quads (filter (\<lambda>c. c \<noteq> 10 \<and> c \<noteq> 13) src)"

text \<open>\<open>EncodedLen\<close> and \<open>DecodedLen\<close> of the standard encoding.\<close>

definition EncodedLen :: "nat \<Rightarrow> nat" where
  "EncodedLen n = (n + 2) div 3 * 4"

lemma b64_char_checked:
  "list_all (\<lambda>n. b64_value (b64_char n) = Some n \<and> b64_char n \<noteq> 10 \<and> b64_char n \<noteq> 13) [0..<64]"
  by code_simp

lemma b64_char_value [simp]:
  assumes "n < 64"
  shows "b64_value (b64_char n) = Some n" "b64_char n \<noteq> 10" "b64_char n \<noteq> 13"
  using b64_char_checked assms by (auto simp: list_all_iff)

lemma b64_pad_value [simp]: "b64_value b64_pad = None" "b64_pad \<noteq> 10" "b64_pad \<noteq> 13"
  by (simp_all add: b64_value_def b64_pad_def)

lemma byte_less: "unat (b :: byte) < 256"
  using unsigned_less [of b] by simp

lemma div64: "(v :: nat) = v div 64 * 64 + v mod 64"
  by simp

lemma quad_bounds:
  assumes "quad a b c = [w, x, y, z]"
  shows "w < 64 \<and> x < 64 \<and> y < 64 \<and> z < 64"
  using assms byte_less [of a] byte_less [of b] byte_less [of c] by (auto simp: quad_def Let_def)

lemma quad_sum:
  assumes "quad a b c = [w, x, y, z]"
  shows "w * 262144 + x * 4096 + y * 64 + z = unat a * 65536 + unat b * 256 + unat c"
proof -
  define v where "v = unat a * 65536 + unat b * 256 + unat c"
  have "w = v div 64 div 64 div 64" "x = v div 64 div 64 mod 64" "y = v div 64 mod 64" "z = v mod 64"
    using assms by (simp_all add: quad_def Let_def v_def div_mult2_eq [symmetric])
  then show ?thesis using div64 [of v] div64 [of "v div 64"] div64 [of "v div 64 div 64"] unfolding v_def [symmetric] by linarith
qed

lemma unquad_quad:
  assumes "quad a b c = [w, x, y, z]"
  shows "unquad w x y z = [a, b, c]"
proof -
  define v where "v = unat a * 65536 + unat b * 256 + unat c"
  have "v div 65536 = unat a" "v div 256 = unat a * 256 + unat b"
    using byte_less [of b] byte_less [of c] by (simp_all add: v_def)
  moreover have "(of_nat (k * 256 + unat e) :: byte) = e" for k e
  proof -
    have "(256 :: byte) = 0" by transfer simp
    then have "(of_nat k :: byte) * 256 = 0" by (metis mult_zero_right)
    then show ?thesis by simp
  qed
  from this [of "unat a * 256 + unat b" c] this [of "unat a" b]
  have "(of_nat v :: byte) = c" "(of_nat (unat a * 256 + unat b) :: byte) = b" by (simp_all add: v_def algebra_simps)
  ultimately show ?thesis using quad_sum [OF assms] by (simp add: unquad_def v_def [symmetric] Let_def)
qed

lemma obtain_quad: obtains w x y z where "quad a b c = [w, x, y, z]"
  by (simp add: quad_def Let_def)

lemma quad_padding:
  "quad a 0 0 = [w, x, y, z] \<Longrightarrow> y = 0 \<and> z = 0" "quad a b 0 = [w, x, y, z] \<Longrightarrow> z = 0"
  by (auto simp: quad_def Let_def mod_eq_0_iff_dvd)

lemma decode_encoded: "decode_quads (base64_encode xs) = Some xs"
proof (induction xs rule: base64_encode.induct)
  case (1 a b c r)
  obtain w x y z where q: "quad a b c = [w, x, y, z]" by (rule obtain_quad)
  show ?case using quad_bounds [OF q] unquad_quad [OF q] 1 q by simp
next
  case (2 a b)
  obtain w x y z where q: "quad a b 0 = [w, x, y, z]" by (rule obtain_quad)
  show ?case using quad_bounds [OF q] unquad_quad [OF q] quad_padding(2) [OF q] q by simp
next
  case (3 a)
  obtain w x y z where q: "quad a 0 0 = [w, x, y, z]" by (rule obtain_quad)
  show ?case using quad_bounds [OF q] unquad_quad [OF q] quad_padding(1) [OF q] q by simp
qed simp

lemma encoded_clean: "c \<in> set (base64_encode xs) \<Longrightarrow> c \<noteq> 10 \<and> c \<noteq> 13"
proof (induction xs rule: base64_encode.induct)
  case (1 a b c r)
  obtain w x y z where q: "quad a b c = [w, x, y, z]" by (rule obtain_quad)
  show ?case using 1 quad_bounds [OF q] q by auto
next
  case (2 a b)
  obtain w x y z where q: "quad a b 0 = [w, x, y, z]" by (rule obtain_quad)
  show ?case using 2 quad_bounds [OF q] q by auto
next
  case (3 a)
  obtain w x y z where q: "quad a 0 0 = [w, x, y, z]" by (rule obtain_quad)
  show ?case using 3 quad_bounds [OF q] q by auto
qed simp

lemma base64_roundtrip [simp]: "base64_decode (base64_encode xs) = Some xs"
proof -
  have "filter (\<lambda>c. c \<noteq> 10 \<and> c \<noteq> 13) (base64_encode xs) = base64_encode xs"
    by (rule filter_True) (use encoded_clean in blast)
  then show ?thesis by (simp only: base64_decode_def decode_encoded)
qed

lemma base64_length: "length (base64_encode xs) = EncodedLen (length xs)"
proof (induction xs rule: base64_encode.induct)
  case (1 a b c r)
  have "Suc (Suc (Suc (Suc (Suc (length r))))) div 3 = Suc (Suc (Suc (length r)) div 3)" by presburger
  then show ?case using 1 by (simp add: EncodedLen_def quad_def Let_def)
qed (simp_all add: EncodedLen_def quad_def Let_def)

end
