(* ===== verification/Encryption.thy ===== *)
theory Encryption
  imports Go_IO Go_Base64 "HOL-Library.AList" "HOL-Library.Sublist"
begin

text \<open>
  \<open>client/internal/encryption/crypto.go\<close> and \<open>transport.go\<close>: the data encryptors (AES, RSA, hybrid, Base64 around another)
  and the HTTP transport that encrypts the bodies of protected requests. The ciphers of Go's library (AES-GCM, RSA-OAEP)
  are the fields of an argument, with the law that opening undoes sealing as a named hypothesis; the random bytes an
  operation draws are arguments. The four implementations of the interface \<open>DataEncryptor\<close> are the constructors of a
  datatype, and the contract of the interface is the locale \<open>encryptor\<close>. Key files and PEM parsing are left out.
\<close>

section \<open>Ciphers\<close>

record ('pub, 'priv) ciphers =
  gcm_Seal :: "byte list \<Rightarrow> byte list \<Rightarrow> byte list \<Rightarrow> byte list"
  gcm_Open :: "byte list \<Rightarrow> byte list \<Rightarrow> byte list \<Rightarrow> byte list option"
  EncryptOAEP :: "'pub \<Rightarrow> byte list \<Rightarrow> byte list \<Rightarrow> byte list option"
  DecryptOAEP :: "'priv \<Rightarrow> byte list \<Rightarrow> byte list option"

definition gcm_NonceSize :: nat where
  "gcm_NonceSize = 12"

text \<open>The law of AES-GCM: key, nonce and ciphertext give the plaintext back.\<close>

definition gcm_law :: "('pub, 'priv, 'z) ciphers_scheme \<Rightarrow> bool" where
  "gcm_law c \<longleftrightarrow> (\<forall>key nonce x. length nonce = gcm_NonceSize \<longrightarrow> gcm_Open c key nonce (gcm_Seal c key nonce x) = Some x)"

text \<open>A key pair: what the public key encrypts the private key decrypts.\<close>

definition rsa_pair :: "('pub, 'priv, 'z) ciphers_scheme \<Rightarrow> 'pub \<Rightarrow> 'priv \<Rightarrow> bool" where
  "rsa_pair c pub priv \<longleftrightarrow> (\<forall>seed x y. EncryptOAEP c pub seed x = Some y \<longrightarrow> DecryptOAEP c priv y = Some x)"

text \<open>The reads from the random source in one call: \<open>None\<close> is a failed read.\<close>

record draws =
  dw_key :: "byte list option"
  dw_nonce :: "byte list option"
  dw_seed :: "byte list"

definition draws_ok :: "draws \<Rightarrow> bool" where
  "draws_ok r \<longleftrightarrow> (\<forall>k. dw_key r = Some k \<longrightarrow> length k = 32) \<and> (\<forall>n. dw_nonce r = Some n \<longrightarrow> length n = gcm_NonceSize)"

datatype crypt_error =
    KeyLength | NoRandom | TooShort | OpenFailed | NoPublicKey | NoPrivateKey | OAEPFailed | MissingKeyData | CorruptBase64

section \<open>The encryptors\<close>

definition NewAESEncryptor :: "byte list \<Rightarrow> byte list option" where
  "NewAESEncryptor key = (if length key \<noteq> 16 \<and> length key \<noteq> 24 \<and> length key \<noteq> 32 then None else Some key)"

text \<open>\<open>aes.NewCipher\<close> fails on the same key lengths.\<close>

definition AESEncryptor_Encrypt ::
    "('pub, 'priv, 'z) ciphers_scheme \<Rightarrow> byte list option \<Rightarrow> byte list \<Rightarrow> byte list \<Rightarrow> crypt_error + byte list" where
  "AESEncryptor_Encrypt c draw key plaintext =
     (if NewAESEncryptor key = None then Inl KeyLength
      else case draw of
             None \<Rightarrow> Inl NoRandom
           | Some nonce \<Rightarrow> Inr (nonce @ gcm_Seal c key nonce plaintext))"

definition AESEncryptor_Decrypt ::
    "('pub, 'priv, 'z) ciphers_scheme \<Rightarrow> byte list \<Rightarrow> byte list \<Rightarrow> crypt_error + byte list" where
  "AESEncryptor_Decrypt c key ciphertext =
     (if NewAESEncryptor key = None then Inl KeyLength
      else if length ciphertext < gcm_NonceSize then Inl TooShort
      else case gcm_Open c key (take gcm_NonceSize ciphertext) (drop gcm_NonceSize ciphertext) of
             None \<Rightarrow> Inl OpenFailed
           | Some plaintext \<Rightarrow> Inr plaintext)"

record ('pub, 'priv) rsa_encryptor =
  re_publicKey :: "'pub option"
  re_privateKey :: "'priv option"

definition RSAEncryptor_Encrypt ::
    "('pub, 'priv, 'z) ciphers_scheme \<Rightarrow> byte list \<Rightarrow> ('pub, 'priv) rsa_encryptor \<Rightarrow> byte list \<Rightarrow> crypt_error + byte list" where
  "RSAEncryptor_Encrypt c seed e plaintext =
     (case re_publicKey e of
        None \<Rightarrow> Inl NoPublicKey
      | Some pub \<Rightarrow> case EncryptOAEP c pub seed plaintext of None \<Rightarrow> Inl OAEPFailed | Some y \<Rightarrow> Inr y)"

definition RSAEncryptor_Decrypt ::
    "('pub, 'priv, 'z) ciphers_scheme \<Rightarrow> ('pub, 'priv) rsa_encryptor \<Rightarrow> byte list \<Rightarrow> crypt_error + byte list" where
  "RSAEncryptor_Decrypt c e ciphertext =
     (case re_privateKey e of
        None \<Rightarrow> Inl NoPrivateKey
      | Some priv \<Rightarrow> case DecryptOAEP c priv ciphertext of None \<Rightarrow> Inl OAEPFailed | Some x \<Rightarrow> Inr x)"

definition HybridEncryptor_Encrypt ::
    "('pub, 'priv, 'z) ciphers_scheme \<Rightarrow> draws \<Rightarrow> ('pub, 'priv) rsa_encryptor \<Rightarrow> byte list \<Rightarrow> crypt_error + byte list" where
  "HybridEncryptor_Encrypt c r e plaintext =
     (case dw_key r of
        None \<Rightarrow> Inl NoRandom
      | Some aesKey \<Rightarrow>
          (case AESEncryptor_Encrypt c (dw_nonce r) aesKey plaintext of
             Inl err \<Rightarrow> Inl err
           | Inr ciphertext \<Rightarrow>
               (case RSAEncryptor_Encrypt c (dw_seed r) e aesKey of
                  Inl err \<Rightarrow> Inl err
                | Inr encryptedKey \<Rightarrow> Inr (PutUint32 (of_nat (length encryptedKey)) @ encryptedKey @ ciphertext))))"

text \<open>The end of the key is computed in 32 bits, as in the source, the comparison before it in 64.\<close>

definition HybridEncryptor_Decrypt ::
    "('pub, 'priv, 'z) ciphers_scheme \<Rightarrow> ('pub, 'priv) rsa_encryptor \<Rightarrow> byte list \<Rightarrow> (crypt_error + byte list) res" where
  "HybridEncryptor_Decrypt c e data =
     (if length data < 4 then Inr (Inl TooShort)
      else and_then (Uint32 data) (\<lambda>keyLength.
        if length data < 4 + unat keyLength then Inr (Inl MissingKeyData)
        else (let keyEnd = unat (4 + keyLength) in
              if keyEnd < 4 then Inl SliceBoundsOutOfRange
              else Inr (case RSAEncryptor_Decrypt c e (drop 4 (take keyEnd data)) of
                          Inl err \<Rightarrow> Inl err
                        | Inr aesKey \<Rightarrow>
                            if NewAESEncryptor aesKey = None then Inl KeyLength
                            else AESEncryptor_Decrypt c aesKey (drop keyEnd data)))))"

text \<open>A \<open>Base64Encoder\<close> may hold a nil interface, whose methods cannot be called.\<close>

datatype ('pub, 'priv) data_encryptor =
    AESEncryptor "byte list"
  | RSAEncryptor "('pub, 'priv) rsa_encryptor"
  | HybridEncryptor "('pub, 'priv) rsa_encryptor"
  | Base64Encoder "('pub, 'priv) data_encryptor option"

fun Encrypt :: "('pub, 'priv, 'z) ciphers_scheme \<Rightarrow> draws \<Rightarrow> ('pub, 'priv) data_encryptor \<Rightarrow> byte list \<Rightarrow> (crypt_error + byte list) res" where
  "Encrypt c r (AESEncryptor key) x = Inr (AESEncryptor_Encrypt c (dw_nonce r) key x)"
| "Encrypt c r (RSAEncryptor e) x = Inr (RSAEncryptor_Encrypt c (dw_seed r) e x)"
| "Encrypt c r (HybridEncryptor e) x = Inr (HybridEncryptor_Encrypt c r e x)"
| "Encrypt c r (Base64Encoder (Some e)) x = and_then (Encrypt c r e x) (\<lambda>y. Inr (map_sum id base64_encode y))"
| "Encrypt c r (Base64Encoder None) x = Inl NilDereference"

text \<open>The decoder of \<open>Base64Encoder\<close> comes before the call of the wrapped encryptor.\<close>

fun Decrypt :: "('pub, 'priv, 'z) ciphers_scheme \<Rightarrow> ('pub, 'priv) data_encryptor \<Rightarrow> byte list \<Rightarrow> (crypt_error + byte list) res" where
  "Decrypt c (AESEncryptor key) y = Inr (AESEncryptor_Decrypt c key y)"
| "Decrypt c (RSAEncryptor e) y = Inr (RSAEncryptor_Decrypt c e y)"
| "Decrypt c (HybridEncryptor e) y = HybridEncryptor_Decrypt c e y"
| "Decrypt c (Base64Encoder (Some e)) y =
     (case base64_decode y of None \<Rightarrow> Inr (Inl CorruptBase64) | Some z \<Rightarrow> Decrypt c e z)"
| "Decrypt c (Base64Encoder None) y =
     (case base64_decode y of None \<Rightarrow> Inr (Inl CorruptBase64) | Some z \<Rightarrow> Inl NilDereference)"

definition GenerateAESKey :: "int \<Rightarrow> (nat \<Rightarrow> byte list option) \<Rightarrow> byte list option" where
  "GenerateAESKey bits rnd = (if bits \<noteq> 128 \<and> bits \<noteq> 192 \<and> bits \<noteq> 256 then None else rnd (nat bits div 8))"

section \<open>The contract of an encryptor\<close>

locale encryptor =
  fixes enc :: "'r \<Rightarrow> byte list \<Rightarrow> (crypt_error + byte list) res"
    and dec :: "byte list \<Rightarrow> (crypt_error + byte list) res"
    and fits :: "'r \<Rightarrow> bool"
  assumes decrypts: "fits r \<Longrightarrow> enc r x = Inr (Inr y) \<Longrightarrow> dec y = Inr (Inr x)"
begin

lemma encrypts_injectively:
  assumes "fits r" "fits r'" "enc r x = Inr (Inr y)" "enc r' x' = Inr (Inr y)"
  shows "x = x'"
  using decrypts [OF assms(1,3)] decrypts [OF assms(2,4)] by simp

text \<open>Base64 around an encryptor keeps the contract.\<close>

lemma base64_decrypts:
  assumes "fits r" "and_then (enc r x) (\<lambda>y. Inr (map_sum id base64_encode y)) = Inr (Inr z)"
  shows "(case base64_decode z of None \<Rightarrow> Inr (Inl CorruptBase64) | Some y \<Rightarrow> dec y) = Inr (Inr x)"
proof -
  obtain s where s: "enc r x = Inr s" "map_sum id base64_encode s = Inr z"
    using assms(2) by (auto simp: and_then_eq_Inr_iff)
  then obtain y where "s = Inr y" "z = base64_encode y" by (cases s) auto
  then show ?thesis using s decrypts [OF assms(1)] by simp
qed

end

lemma aes_decrypts:
  assumes "gcm_law c" "\<forall>n. draw = Some n \<longrightarrow> length n = gcm_NonceSize" "AESEncryptor_Encrypt c draw key x = Inr y"
  shows "AESEncryptor_Decrypt c key y = Inr x"
proof -
  obtain nonce where "NewAESEncryptor key \<noteq> None" "draw = Some nonce" "y = nonce @ gcm_Seal c key nonce x"
    using assms(3) by (auto simp: AESEncryptor_Encrypt_def split: if_splits option.splits)
  then show ?thesis using assms(1,2) by (simp add: AESEncryptor_Decrypt_def gcm_law_def)
qed

definition rsa_fits :: "('pub, 'priv, 'z) ciphers_scheme \<Rightarrow> ('pub, 'priv) rsa_encryptor \<Rightarrow> ('pub, 'priv) rsa_encryptor \<Rightarrow> bool" where
  "rsa_fits c e d \<longleftrightarrow> (case (re_publicKey e, re_privateKey d) of (Some pub, Some priv) \<Rightarrow> rsa_pair c pub priv | _ \<Rightarrow> False)"

lemma rsa_decrypts:
  assumes "rsa_fits c e d" "RSAEncryptor_Encrypt c seed e x = Inr y"
  shows "RSAEncryptor_Decrypt c d y = Inr x"
  using assms by (auto simp: rsa_fits_def rsa_pair_def RSAEncryptor_Encrypt_def RSAEncryptor_Decrypt_def split: option.splits)

text \<open>The encrypted key has at most \<open>2 ^ 32 - 5\<close> bytes, which an RSA ciphertext never exceeds.\<close>

definition short_keys :: "('pub, 'priv, 'z) ciphers_scheme \<Rightarrow> bool" where
  "short_keys c \<longleftrightarrow> (\<forall>pub seed x y. EncryptOAEP c pub seed x = Some y \<longrightarrow> length y < 2 ^ 32 - 4)"

lemma hybrid_decrypts:
  assumes law: "gcm_law c" "short_keys c" "rsa_fits c e d" "draws_ok r"
    and y: "HybridEncryptor_Encrypt c r e x = Inr y"
  shows "HybridEncryptor_Decrypt c d y = Inr (Inr x)"
proof -
  obtain k ct ek where k: "dw_key r = Some k" and ct: "AESEncryptor_Encrypt c (dw_nonce r) k x = Inr ct"
    and ek: "RSAEncryptor_Encrypt c (dw_seed r) e k = Inr ek" and y': "y = PutUint32 (of_nat (length ek)) @ ek @ ct"
    using y by (auto simp: HybridEncryptor_Encrypt_def split: option.splits sum.splits)
  have small: "length ek < 2 ^ 32 - 4"
    using law(2) ek by (auto simp: short_keys_def RSAEncryptor_Encrypt_def split: option.splits)
  then have len: "unat (of_nat (length ek) :: u32) = length ek" "unat (4 + of_nat (length ek) :: u32) = 4 + length ek"
    by (simp_all add: unat_word_ariths unat_of_nat take_bit_eq_mod)
  have "NewAESEncryptor k \<noteq> None" using k law(4) by (simp add: NewAESEncryptor_def draws_ok_def)
  moreover have "AESEncryptor_Decrypt c k ct = Inr x"
    by (rule aes_decrypts [OF law(1) _ ct]) (use law(4) in \<open>simp add: draws_ok_def\<close>)
  moreover have "RSAEncryptor_Decrypt c d ek = Inr k" by (rule rsa_decrypts [OF law(3) ek])
  ultimately show ?thesis by (simp add: HybridEncryptor_Decrypt_def y' len)
qed

text \<open>\<open>fits_with\<close>: the second encryptor holds what is needed to decrypt what the first encrypts.\<close>

fun fits_with :: "('pub, 'priv, 'z) ciphers_scheme \<Rightarrow> ('pub, 'priv) data_encryptor \<Rightarrow> ('pub, 'priv) data_encryptor \<Rightarrow> bool" where
  "fits_with c (AESEncryptor k) (AESEncryptor k') \<longleftrightarrow> k = k'"
| "fits_with c (RSAEncryptor e) (RSAEncryptor d) \<longleftrightarrow> rsa_fits c e d"
| "fits_with c (HybridEncryptor e) (HybridEncryptor d) \<longleftrightarrow> rsa_fits c e d"
| "fits_with c (Base64Encoder (Some e)) (Base64Encoder (Some d)) \<longleftrightarrow> fits_with c e d"
| "fits_with c _ _ \<longleftrightarrow> False"

definition ciphers_ok :: "('pub, 'priv, 'z) ciphers_scheme \<Rightarrow> bool" where
  "ciphers_ok c \<longleftrightarrow> gcm_law c \<and> short_keys c"

lemma decrypt_encrypt:
  "ciphers_ok c \<Longrightarrow> draws_ok r \<Longrightarrow> fits_with c e d \<Longrightarrow> Encrypt c r e x = Inr (Inr y) \<Longrightarrow> Decrypt c d y = Inr (Inr x)"
proof (induction c e d arbitrary: r x y rule: fits_with.induct)
  case (1 c k k')
  then show ?case using aes_decrypts [of c "dw_nonce r" k x y] by (simp add: ciphers_ok_def draws_ok_def)
next
  case (2 c e d) then show ?case by (simp add: rsa_decrypts)
next
  case (3 c e d) then show ?case by (simp add: hybrid_decrypts ciphers_ok_def)
next
  case (4 c e d)
  have law: "encryptor (\<lambda>r. Encrypt c r e) (Decrypt c d) (\<lambda>r. ciphers_ok c \<and> draws_ok r \<and> fits_with c e d)"
    by unfold_locales (use 4 in auto)
  show ?case using encryptor.base64_decrypts [OF law, of r x y] 4 by simp
qed simp_all

interpretation enc: encryptor "\<lambda>r. Encrypt c r e" "Decrypt c d" "\<lambda>r. ciphers_ok c \<and> draws_ok r \<and> fits_with c e d" for c e d
  by unfold_locales (auto intro: decrypt_encrypt)

text \<open>
  C31: whatever one encryptor makes of some bytes, an encryptor with the fitting keys gives back, for AES, RSA, the hybrid
  of both and Base64 around any of them, nested as deep as one likes; the laws of the ciphers are hypotheses.
\<close>

theorem encryption_roundtrip:
  assumes "gcm_law c" "short_keys c" "draws_ok r" "fits_with c e d" "Encrypt c r e x = Inr (Inr y)"
  shows "Decrypt c d y = Inr (Inr x)"
  by (rule enc.decrypts [of c r e d, OF _ assms(5)]) (simp add: ciphers_ok_def assms)

text \<open>Toy ciphers with the laws: sealing appends the key, OAEP prefixes a byte.\<close>

definition toy_ciphers :: "(byte, byte) ciphers" where
  "toy_ciphers =
     \<lparr> gcm_Seal = (\<lambda>key nonce x. rev x @ key),
        gcm_Open = (\<lambda>key nonce y. if drop (length y - length key) y = key then Some (rev (take (length y - length key) y)) else None),
        EncryptOAEP = (\<lambda>pub seed x. if length x < 200 then Some (pub # x) else None),
        DecryptOAEP = (\<lambda>priv y. case y of [] \<Rightarrow> None | b # x \<Rightarrow> if b = priv then Some x else None) \<rparr>"

lemma toy_laws: "gcm_law toy_ciphers" "short_keys toy_ciphers" "rsa_pair toy_ciphers k k"
  by (auto simp: gcm_law_def short_keys_def rsa_pair_def toy_ciphers_def)

definition toy_key :: "(byte, byte) rsa_encryptor" where
  "toy_key = \<lparr> re_publicKey = Some 7, re_privateKey = Some 7 \<rparr>"

definition toy_draws :: draws where
  "toy_draws = \<lparr> dw_key = Some (replicate 32 1), dw_nonce = Some (replicate 12 2), dw_seed = [] \<rparr>"

theorem encryption_roundtrip_witness:
  "\<exists>y. Encrypt toy_ciphers toy_draws (Base64Encoder (Some (HybridEncryptor toy_key))) [1, 2, 3] = Inr (Inr y) \<and>
     Decrypt toy_ciphers (Base64Encoder (Some (HybridEncryptor toy_key))) y = Inr (Inr [1, 2, 3])"
proof -
  obtain y where y: "Encrypt toy_ciphers toy_draws (Base64Encoder (Some (HybridEncryptor toy_key))) [1, 2, 3] = Inr (Inr y)"
    by (simp add: HybridEncryptor_Encrypt_def toy_draws_def AESEncryptor_Encrypt_def NewAESEncryptor_def
        RSAEncryptor_Encrypt_def toy_key_def toy_ciphers_def and_then_def)
  have "draws_ok toy_draws" by (simp add: draws_ok_def toy_draws_def gcm_NonceSize_def)
  moreover have "fits_with toy_ciphers (Base64Encoder (Some (HybridEncryptor toy_key))) (Base64Encoder (Some (HybridEncryptor toy_key)))"
    by (simp add: rsa_fits_def toy_key_def toy_laws)
  ultimately show ?thesis using encryption_roundtrip [OF toy_laws(1,2) _ _ y] y by blast
qed

text \<open>An encoder that wraps nothing panics; every other encryptor is complete.\<close>

fun complete :: "('pub, 'priv) data_encryptor \<Rightarrow> bool" where
  "complete (Base64Encoder None) \<longleftrightarrow> False"
| "complete (Base64Encoder (Some e)) \<longleftrightarrow> complete e"
| "complete _ \<longleftrightarrow> True"

lemma Uint32_no_panic: "4 \<le> length xs \<Longrightarrow> \<exists>v. Uint32 xs = Inr v"
  by (auto simp: Uint32_def)

lemma hybrid_total:
  assumes "length y < 2 ^ 32 - 4"
  shows "\<exists>z. HybridEncryptor_Decrypt c e y = Inr z"
proof (cases "length y < 4")
  case False
  then obtain v where v: "Uint32 y = Inr v" using Uint32_no_panic [of y] by auto
  show ?thesis
  proof (cases "length y < 4 + unat v")
    case True
    then show ?thesis using False v by (simp add: HybridEncryptor_Decrypt_def)
  next
    case big: False
    then have "unat (4 + v) = 4 + unat v" using assms by (simp add: unat_word_ariths take_bit_eq_mod)
    then show ?thesis using False v by (simp add: HybridEncryptor_Decrypt_def Let_def)
  qed
qed (simp add: HybridEncryptor_Decrypt_def)

lemma decoded_length: "decode_quads xs = Some ys \<Longrightarrow> length ys \<le> length xs"
proof (induction xs arbitrary: ys rule: decode_quads.induct)
  case (2 a b c d r)
  then show ?case by (auto simp: unquad_def Let_def split: option.splits if_splits) fastforce
qed simp_all

lemma base64_decoded_length:
  assumes "base64_decode xs = Some ys"
  shows "length ys \<le> length xs"
  using decoded_length [OF assms [unfolded base64_decode_def]] length_filter_le [of "\<lambda>c. c \<noteq> 10 \<and> c \<noteq> 13" xs] by linarith

text \<open>
  Nothing that arrives makes a decryption panic, however short, long (up to four gigabytes) or corrupted: the answer
  is a plaintext or an error, unless a Base64 encoder wraps nothing.
\<close>

theorem decrypt_no_panic:
  assumes "complete e" "length y < 2 ^ 32 - 4"
  shows "\<exists>z. Decrypt c e y = Inr z"
  using assms
proof (induction e arbitrary: y rule: complete.induct)
  case (2 e)
  then show ?case using base64_decoded_length [of y] by (fastforce split: option.split)
qed (simp_all add: hybrid_total)

theorem decrypt_no_panic_witness:
  "Decrypt toy_ciphers (Base64Encoder (Some (HybridEncryptor toy_key))) (base64_encode [255, 255, 255, 255, 0]) = Inr (Inl MissingKeyData)"
proof -
  have "\<exists>z. Decrypt toy_ciphers (Base64Encoder (Some (HybridEncryptor toy_key))) (base64_encode [255, 255, 255, 255, 0]) = Inr z"
    by (rule decrypt_no_panic) (simp, simp only: base64_length, simp add: EncodedLen_def)
  then show ?thesis by (auto simp: HybridEncryptor_Decrypt_def Uint32_def and_then_def simp del: base64_encode.simps)
qed

section \<open>The HTTP transport\<close>

text \<open>Canonical names of headers: \<open>textproto.CanonicalMIMEHeaderKey\<close>.\<close>

definition is_upper :: "char \<Rightarrow> bool" where
  "is_upper c \<longleftrightarrow> (let n = of_char c :: nat in 65 \<le> n \<and> n \<le> 90)"

definition is_lower :: "char \<Rightarrow> bool" where
  "is_lower c \<longleftrightarrow> (let n = of_char c :: nat in 97 \<le> n \<and> n \<le> 122)"

definition is_token :: "char \<Rightarrow> bool" where
  "is_token c \<longleftrightarrow> is_upper c \<or> is_lower c \<or> is_digit c \<or> c \<in> set (''!#$%&*+-.^_`|~'' @ [CHR 0x27])"

fun canonical :: "bool \<Rightarrow> string \<Rightarrow> string" where
  "canonical upper [] = []"
| "canonical upper (c # s) =
     (if upper \<and> is_lower c then char_of (of_char c - (32 :: nat))
      else if \<not> upper \<and> is_upper c then char_of (of_char c + (32 :: nat)) else c) # canonical (c = CHR ''-'') s"

definition CanonicalHeaderKey :: "string \<Rightarrow> string" where
  "CanonicalHeaderKey s = (if list_all is_token s then canonical True s else s)"

type_synonym header = "(string \<times> string list) list"

definition Header_Get :: "header \<Rightarrow> string \<Rightarrow> string" where
  "Header_Get h k = (case map_of h (CanonicalHeaderKey k) of Some (v # _) \<Rightarrow> v | _ \<Rightarrow> [])"

definition Header_Set :: "string \<Rightarrow> string \<Rightarrow> header \<Rightarrow> header" where
  "Header_Set k v h = AList.update (CanonicalHeaderKey k) [v] h"

definition Header_Del :: "string \<Rightarrow> header \<Rightarrow> header" where
  "Header_Del k h = AList.delete (CanonicalHeaderKey k) h"

text \<open>\<open>strings.Split\<close> at a comma, and \<open>TrimSpace\<close> of the white space that occurs in the names of headers.\<close>

fun split_commas :: "string \<Rightarrow> string list" where
  "split_commas [] = [[]]"
| "split_commas (c # s) =
     (if c = CHR '','' then [] # split_commas s
      else case split_commas s of [] \<Rightarrow> [[c]] | w # ws \<Rightarrow> (c # w) # ws)"

definition is_space :: "char \<Rightarrow> bool" where
  "is_space c \<longleftrightarrow> (let n = of_char c :: nat in n = 32 \<or> 9 \<le> n \<and> n \<le> 13)"

definition TrimSpace :: "string \<Rightarrow> string" where
  "TrimSpace s = rev (dropWhile is_space (rev (dropWhile is_space s)))"

definition string_bytes :: "string \<Rightarrow> byte list" where
  "string_bytes s = map of_char s"

definition bytes_string :: "byte list \<Rightarrow> string" where
  "bytes_string bs = map (\<lambda>b. char_of (unat b)) bs"

text \<open>Bodies are in memory; the flag of a response is false when reading its body fails.\<close>

record http_request =
  hq_Path :: string
  hq_Header :: header
  hq_Body :: "byte list option"
  hq_ContentLength :: int

record http_response =
  hr_Header :: header
  hr_Body :: "byte list option"
  hr_BodyReads :: bool
  hr_ContentLength :: int

record ('pub, 'priv) encrypted_transport =
  et_encryptor :: "('pub, 'priv) data_encryptor"
  et_encryptPaths :: "string list"
  et_encryptBodies :: bool
  et_encryptHeaders :: bool
  et_sensitiveHeaders :: "string list"

definition NewEncryptedTransport :: "('pub, 'priv) data_encryptor \<Rightarrow> ('pub, 'priv) encrypted_transport" where
  "NewEncryptedTransport e =
     \<lparr> et_encryptor = e, et_encryptPaths = [''/api/v1/auth'', ''/api/v1/users'', ''/api/v1/private''],
       et_encryptBodies = True, et_encryptHeaders = True,
       et_sensitiveHeaders = [''Authorization'', ''X-API-Key'', ''Cookie'', ''Set-Cookie'', ''X-Auth-Token''] \<rparr>"

datatype transport_error = EncryptFailed crypt_error | DecryptFailed crypt_error | BodyUnreadable | BaseFailed

definition shouldEncrypt :: "('pub, 'priv) encrypted_transport \<Rightarrow> string \<Rightarrow> bool" where
  "shouldEncrypt t path \<longleftrightarrow> list_ex (\<lambda>p. prefix p path) (et_encryptPaths t)"

definition cloneRequest :: "http_request \<Rightarrow> http_request" where
  "cloneRequest req =
     (case hq_Body req of None \<Rightarrow> req | Some b \<Rightarrow> req\<lparr> hq_ContentLength := int (length b) \<rparr>)"

definition encryptValue ::
    "('pub, 'priv, 'z) ciphers_scheme \<Rightarrow> draws \<Rightarrow> ('pub, 'priv) encrypted_transport \<Rightarrow> string \<Rightarrow> (crypt_error + string) res" where
  "encryptValue c r t value =
     and_then (Encrypt c r (et_encryptor t) (string_bytes value)) (\<lambda>res. case res of
        Inl e \<Rightarrow> Inr (Inl e)
      | Inr encryptedBytes \<Rightarrow> and_then (Encrypt c r (Base64Encoder None) encryptedBytes) (\<lambda>b. Inr (map_sum id bytes_string b)))"

definition decryptValue ::
    "('pub, 'priv, 'z) ciphers_scheme \<Rightarrow> ('pub, 'priv) encrypted_transport \<Rightarrow> string \<Rightarrow> (crypt_error + string) res" where
  "decryptValue c t encryptedValue =
     and_then (Decrypt c (Base64Encoder None) (string_bytes encryptedValue)) (\<lambda>res. case res of
        Inl e \<Rightarrow> Inr (Inl e)
      | Inr bs \<Rightarrow> and_then (Decrypt c (et_encryptor t) bs) (\<lambda>b. Inr (map_sum id bytes_string b)))"

text \<open>The look-up of a sensitive header takes its name as it is written; \<open>Set\<close> makes it canonical.\<close>

fun encrypt_headers ::
    "('pub, 'priv, 'z) ciphers_scheme \<Rightarrow> draws \<Rightarrow> ('pub, 'priv) encrypted_transport \<Rightarrow> string list \<Rightarrow> header \<Rightarrow> (crypt_error + header) res" where
  "encrypt_headers c r t [] h = Inr (Inr h)"
| "encrypt_headers c r t (name # names) h =
     (case map_of h name of
        Some (v # _) \<Rightarrow>
          and_then (encryptValue c r t v) (\<lambda>res. case res of
             Inl e \<Rightarrow> Inr (Inl e)
           | Inr w \<Rightarrow> encrypt_headers c r t names (Header_Set ''X-Encrypted-Headers'' name (Header_Set name w h)))
      | _ \<Rightarrow> encrypt_headers c r t names h)"

definition encrypt_body ::
    "(byte list \<Rightarrow> (crypt_error + byte list) res) \<Rightarrow> http_request \<Rightarrow> (crypt_error + http_request) res" where
  "encrypt_body enc req =
     (case hq_Body req of
        None \<Rightarrow> Inr (Inr req)
      | Some b \<Rightarrow> and_then (enc b) (\<lambda>res. case res of
          Inl e \<Rightarrow> Inr (Inl e)
        | Inr eb \<Rightarrow> Inr (Inr (req\<lparr> hq_Body := Some eb, hq_ContentLength := int (length eb),
            hq_Header := Header_Set ''Content-Type'' ''application/octet-stream''
                           (Header_Set ''X-Encrypted-Body'' ''true'' (hq_Header req)) \<rparr>))))"

definition encryptRequest ::
    "('pub, 'priv, 'z) ciphers_scheme \<Rightarrow> draws \<Rightarrow> ('pub, 'priv) encrypted_transport \<Rightarrow> http_request \<Rightarrow> (crypt_error + http_request) res" where
  "encryptRequest c r t req =
     and_then (if et_encryptHeaders t then encrypt_headers c r t (et_sensitiveHeaders t) (hq_Header req) else Inr (Inr (hq_Header req)))
       (\<lambda>res. case res of
          Inl e \<Rightarrow> Inr (Inl e)
        | Inr h \<Rightarrow> (let req = req\<lparr> hq_Header := h \<rparr> in
                    if et_encryptBodies t then encrypt_body (Encrypt c r (et_encryptor t)) req else Inr (Inr req)))"

definition decrypt_body ::
    "(byte list \<Rightarrow> (crypt_error + byte list) res) \<Rightarrow> http_response \<Rightarrow> (transport_error + http_response) res" where
  "decrypt_body dec resp =
     (case hr_Body resp of
        Some b \<Rightarrow>
          if Header_Get (hr_Header resp) ''X-Encrypted-Body'' \<noteq> ''true'' then Inr (Inr resp)
          else if \<not> hr_BodyReads resp then Inr (Inl BodyUnreadable)
          else and_then (dec b) (\<lambda>res. case res of
                 Inl e \<Rightarrow> Inr (Inl (DecryptFailed e))
               | Inr db \<Rightarrow> Inr (Inr (resp\<lparr> hr_Body := Some db, hr_ContentLength := int (length db),
                   hr_Header := Header_Del ''X-Encrypted-Body''
                     (Header_Set ''Content-Type'' ''application/json; charset=utf-8'' (hr_Header resp)) \<rparr>)))
      | None \<Rightarrow> Inr (Inr resp))"

fun decrypt_headers ::
    "('pub, 'priv, 'z) ciphers_scheme \<Rightarrow> ('pub, 'priv) encrypted_transport \<Rightarrow> string list \<Rightarrow> header \<Rightarrow> (crypt_error + header) res" where
  "decrypt_headers c t [] h = Inr (Inr h)"
| "decrypt_headers c t (name # names) h =
     (case map_of h (TrimSpace name) of
        Some (v # _) \<Rightarrow>
          and_then (decryptValue c t v) (\<lambda>res. case res of
             Inl e \<Rightarrow> Inr (Inl e)
           | Inr w \<Rightarrow> decrypt_headers c t names (Header_Set (TrimSpace name) w h))
      | _ \<Rightarrow> decrypt_headers c t names h)"

definition decryptResponse ::
    "('pub, 'priv, 'z) ciphers_scheme \<Rightarrow> ('pub, 'priv) encrypted_transport \<Rightarrow> http_response \<Rightarrow> (transport_error + http_response) res" where
  "decryptResponse c t resp =
     and_then (decrypt_body (Decrypt c (et_encryptor t)) resp) (\<lambda>res. case res of
        Inl e \<Rightarrow> Inr (Inl e)
      | Inr resp \<Rightarrow>
          (let encryptedHeaders = Header_Get (hr_Header resp) ''X-Encrypted-Headers'' in
           if encryptedHeaders \<noteq> [] \<and> et_encryptHeaders t
           then and_then (decrypt_headers c t (split_commas encryptedHeaders) (hr_Header resp)) (\<lambda>res. case res of
                  Inl e \<Rightarrow> Inr (Inl (DecryptFailed e))
                | Inr h \<Rightarrow> Inr (Inr (resp\<lparr> hr_Header := Header_Del ''X-Encrypted-Headers'' h \<rparr>)))
           else Inr (Inr resp)))"

text \<open>\<open>send\<close> is the base transport: the answer to a request, or \<open>None\<close> for its error.\<close>

definition RoundTrip ::
    "('pub, 'priv, 'z) ciphers_scheme \<Rightarrow> draws \<Rightarrow> ('pub, 'priv) encrypted_transport \<Rightarrow> (http_request \<Rightarrow> http_response option)
       \<Rightarrow> http_request \<Rightarrow> (transport_error + http_response) res" where
  "RoundTrip c r t send req =
     (if \<not> shouldEncrypt t (hq_Path req)
      then Inr (case send req of None \<Rightarrow> Inl BaseFailed | Some resp \<Rightarrow> Inr resp)
      else and_then (encryptRequest c r t (cloneRequest req)) (\<lambda>res. case res of
             Inl e \<Rightarrow> Inr (Inl (EncryptFailed e))
           | Inr req \<Rightarrow> case send req of
                          None \<Rightarrow> Inr (Inl BaseFailed)
                        | Some resp \<Rightarrow> decryptResponse c t resp))"

lemma Header_Set_Get [simp]:
  "Header_Get (Header_Set k v h) k' = (if CanonicalHeaderKey k = CanonicalHeaderKey k' then v else Header_Get h k')"
  by (simp add: Header_Get_def Header_Set_def update_conv)

lemma Header_Del_Get [simp]:
  "Header_Get (Header_Del k h) k' = (if CanonicalHeaderKey k = CanonicalHeaderKey k' then [] else Header_Get h k')"
  by (simp add: Header_Get_def Header_Del_def delete_conv)

lemma marker_names:
  "CanonicalHeaderKey ''X-Encrypted-Body'' = ''X-Encrypted-Body''" "CanonicalHeaderKey ''Content-Type'' = ''Content-Type''"
  "CanonicalHeaderKey ''X-Encrypted-Headers'' = ''X-Encrypted-Headers''" "CanonicalHeaderKey ''X-API-Key'' = ''X-Api-Key''"
  by code_simp+

text \<open>
  A peer that holds the fitting keys: it decrypts the body, answers, encrypts the answer and marks it.
\<close>

definition protected_server ::
    "('pub, 'priv, 'z) ciphers_scheme \<Rightarrow> draws \<Rightarrow> ('pub, 'priv) data_encryptor \<Rightarrow> (byte list \<Rightarrow> byte list) \<Rightarrow> http_request \<Rightarrow> http_response option" where
  "protected_server c r f answer q =
     (case hq_Body q of
        None \<Rightarrow> None
      | Some y \<Rightarrow>
          (case Decrypt c f y of
             Inr (Inr x) \<Rightarrow>
               (case Encrypt c r f (answer x) of
                  Inr (Inr z) \<Rightarrow> Some \<lparr> hr_Header = [(''X-Encrypted-Body'', [''true''])], hr_Body = Some z, hr_BodyReads = True,
                                       hr_ContentLength = int (length z) \<rparr>
                | _ \<Rightarrow> None)
           | _ \<Rightarrow> None))"

lemma encrypt_headers_none:
  "(\<And>name. name \<in> set names \<Longrightarrow> map_of h name = None) \<Longrightarrow> encrypt_headers c r t names h = Inr (Inr h)"
  by (induction names) auto

text \<open>
  A request to a protected path that carries none of the sensitive headers leaves the client with its body encrypted,
  is understood by a peer with the fitting keys, and the caller gets the peer's answer in clear.
\<close>

theorem transport_roundtrip:
  assumes "gcm_law c" "short_keys c" "draws_ok r" "draws_ok r'"
    and "fits_with c (et_encryptor t) f" "fits_with c f (et_encryptor t)"
    and "shouldEncrypt t (hq_Path req)" "et_encryptBodies t"
    and "\<And>name. name \<in> set (et_sensitiveHeaders t) \<Longrightarrow> map_of (hq_Header req) name = None"
    and "hq_Body req = Some b" "Encrypt c r (et_encryptor t) b = Inr (Inr eb)" "Encrypt c r' f (answer b) = Inr (Inr ea)"
  shows "\<exists>resp q. RoundTrip c r t (protected_server c r' f answer) req = Inr (Inr resp) \<and> hr_Body resp = Some (answer b) \<and>
    encryptRequest c r t (cloneRequest req) = Inr (Inr q) \<and> hq_Body q = Some eb \<and> hq_ContentLength q = int (length eb) \<and>
    Header_Get (hq_Header q) ''X-Encrypted-Body'' = ''true''"
proof -
  have there: "Decrypt c f eb = Inr (Inr b)" by (rule encryption_roundtrip [OF assms(1,2,3,5,11)])
  have home: "Decrypt c (et_encryptor t) ea = Inr (Inr (answer b))" by (rule encryption_roundtrip [OF assms(1,2,4,6,12)])
  have q: "\<exists>q. encryptRequest c r t (cloneRequest req) = Inr (Inr q) \<and> hq_Body q = Some eb \<and> hq_ContentLength q = int (length eb) \<and>
      Header_Get (hq_Header q) ''X-Encrypted-Body'' = ''true''"
    using assms(8-11) by (simp add: encryptRequest_def encrypt_headers_none cloneRequest_def encrypt_body_def marker_names)
  then obtain q where q: "encryptRequest c r t (cloneRequest req) = Inr (Inr q)" "hq_Body q = Some eb"
    "hq_ContentLength q = int (length eb)" "Header_Get (hq_Header q) ''X-Encrypted-Body'' = ''true''" by blast
  define resp where "resp = \<lparr> hr_Header = [(''X-Encrypted-Body'', [''true''])], hr_Body = Some ea, hr_BodyReads = True,
    hr_ContentLength = int (length ea) \<rparr>"
  have sent: "protected_server c r' f answer q = Some resp"
    using q(2) there assms(12) by (simp add: protected_server_def resp_def)
  have "\<exists>out. decryptResponse c t resp = Inr (Inr out) \<and> hr_Body out = Some (answer b)"
    using home by (simp add: decryptResponse_def decrypt_body_def resp_def marker_names Header_Get_def [of "[_]"])
  then show ?thesis using assms(7) q sent by (auto simp: RoundTrip_def)
qed

definition toy_transport :: "(byte, byte) encrypted_transport" where
  "toy_transport = NewEncryptedTransport (AESEncryptor (replicate 16 5))"

theorem transport_roundtrip_witness:
  "\<exists>resp. RoundTrip toy_ciphers toy_draws toy_transport
      (protected_server toy_ciphers toy_draws (AESEncryptor (replicate 16 5)) rev)
      \<lparr> hq_Path = ''/api/v1/users/7'', hq_Header = [(''Accept'', [''json''])], hq_Body = Some [1, 2, 3], hq_ContentLength = 3 \<rparr>
        = Inr (Inr resp) \<and> hr_Body resp = Some [3, 2, 1]"
proof -
  let ?req = "\<lparr> hq_Path = ''/api/v1/users/7'', hq_Header = [(''Accept'', [''json''])], hq_Body = Some [1, 2, 3 :: byte], hq_ContentLength = 3 \<rparr>"
  let ?e = "AESEncryptor (replicate 16 5) :: (byte, byte) data_encryptor"
  have enc: "\<exists>y. Encrypt toy_ciphers toy_draws ?e x = Inr (Inr y)" for x
    by (simp add: AESEncryptor_Encrypt_def NewAESEncryptor_def toy_draws_def)
  obtain eb ea where eb: "Encrypt toy_ciphers toy_draws ?e [1, 2, 3] = Inr (Inr eb)"
    and ea: "Encrypt toy_ciphers toy_draws ?e (rev [1, 2, 3]) = Inr (Inr ea)" using enc by blast
  have ok: "draws_ok toy_draws" by (simp add: draws_ok_def toy_draws_def gcm_NonceSize_def)
  have none: "map_of (hq_Header ?req) name = None" if "name \<in> set (et_sensitiveHeaders toy_transport)" for name
    using that by (auto simp: toy_transport_def NewEncryptedTransport_def)
  show ?thesis
    using transport_roundtrip [OF toy_laws(1,2) ok ok, of toy_transport ?e ?req "[1, 2, 3]" eb rev ea] none eb ea
    by (auto simp: toy_transport_def NewEncryptedTransport_def shouldEncrypt_def)
qed

text \<open>A sensitive header makes the request panic: the Base64 encoder of \<open>encryptValue\<close> wraps nothing.\<close>

theorem sensitive_header_panics:
  assumes "shouldEncrypt t (hq_Path req)" "et_encryptHeaders t" "et_sensitiveHeaders t = pre @ name # post"
    "\<And>n. n \<in> set pre \<Longrightarrow> map_of (hq_Header req) n = None" "map_of (hq_Header req) name = Some (v # vs)"
    "Encrypt c r (et_encryptor t) (string_bytes v) = Inr (Inr y)"
  shows "RoundTrip c r t send req = Inl NilDereference"
proof -
  have "encrypt_headers c r t (pre @ name # post) (hq_Header req) = Inl NilDereference"
    using assms(4) by (induction pre) (auto simp: assms(5,6) encryptValue_def)
  moreover have "hq_Header (cloneRequest req) = hq_Header req" by (simp add: cloneRequest_def split: option.split)
  ultimately show ?thesis using assms(1-3) by (simp add: RoundTrip_def encryptRequest_def)
qed

section \<open>Encrypted JSON\<close>

text \<open>
  \<open>EncryptJSON\<close> wraps the ciphertext in an object, which \<open>json.Marshal\<close> writes with sorted keys and the bytes in Base64.
  \<open>DecryptJSON\<close> takes the field \<open>data\<close> as raw JSON. Marshalling of the values themselves is an argument.
\<close>

definition wrap_json :: "byte list \<Rightarrow> byte list" where
  "wrap_json y = string_bytes (''{'' @ [CHR 0x22] @ ''data'' @ [CHR 0x22] @ '':'' @ [CHR 0x22]) @ base64_encode y @
     string_bytes ([CHR 0x22] @ '','' @ [CHR 0x22] @ ''encrypted'' @ [CHR 0x22] @ '':true}'')"

definition EncryptJSON ::
    "('pub, 'priv, 'z) ciphers_scheme \<Rightarrow> draws \<Rightarrow> ('pub, 'priv) data_encryptor \<Rightarrow> ('j \<Rightarrow> byte list option) \<Rightarrow> 'j \<Rightarrow> byte list option res" where
  "EncryptJSON c r e marshal x =
     (case marshal x of
        None \<Rightarrow> Inr None
      | Some jsonData \<Rightarrow> and_then (Encrypt c r e jsonData) (\<lambda>res. Inr (case res of Inl _ \<Rightarrow> None | Inr y \<Rightarrow> Some (wrap_json y))))"

definition DecryptJSON ::
    "('pub, 'priv, 'z) ciphers_scheme \<Rightarrow> ('pub, 'priv) data_encryptor \<Rightarrow> (byte list \<Rightarrow> (bool \<times> byte list) option) \<Rightarrow> (byte list \<Rightarrow> 'j option)
       \<Rightarrow> byte list \<Rightarrow> 'j option res" where
  "DecryptJSON c e unmarshal_wrapper unmarshal text =
     (case unmarshal_wrapper text of
        None \<Rightarrow> Inr (unmarshal text)
      | Some (encrypted, raw) \<Rightarrow>
          if \<not> encrypted then Inr (unmarshal raw)
          else and_then (Decrypt c e raw) (\<lambda>res. Inr (case res of Inl _ \<Rightarrow> None | Inr z \<Rightarrow> unmarshal z)))"

text \<open>
  The raw field is the quoted Base64 text, and that is what gets decrypted: for AES the nonce is then taken from the
  text, beginning with the quotation mark. The hypothesis says what \<open>json.Unmarshal\<close> makes of the wrapper.
\<close>

theorem json_decrypts_the_text:
  assumes "\<And>y. unmarshal_wrapper (wrap_json y) = Some (True, [34] @ base64_encode y @ [34])"
    and "EncryptJSON c r e marshal x = Inr (Some text)"
  shows "\<exists>y. Encrypt c r e (the (marshal x)) = Inr (Inr y) \<and>
    DecryptJSON c e unmarshal_wrapper unmarshal text =
      and_then (Decrypt c e ([34] @ base64_encode y @ [34])) (\<lambda>res. Inr (case res of Inl _ \<Rightarrow> None | Inr z \<Rightarrow> unmarshal z))"
proof -
  obtain j res where j: "marshal x = Some j" "Encrypt c r e j = Inr res" "(case res of Inl _ \<Rightarrow> None | Inr y \<Rightarrow> Some (wrap_json y)) = Some text"
    using assms(2) by (auto simp: EncryptJSON_def and_then_eq_Inr_iff split: option.splits)
  then obtain y where "res = Inr y" "text = wrap_json y" by (cases res) auto
  then show ?thesis using j assms(1) by (auto simp: DecryptJSON_def)
qed

end
