(* ===== verification/Tunnels.thy ===== *)
theory Tunnels
  imports Prelude
begin

text \<open>
  The tunnel service of the control plane, \<open>plane/internal/service/tunnel_gorm.go\<close>, with the rows of
  \<open>plane/internal/db/models/tunnel.go\<close>. A table is the list of its rows; queries see the rows that are not marked
  as deleted (\<open>DeletedAt\<close> of \<open>BaseModel\<close>), and a deletion marks them. Whether a call of the database succeeds is the
  argument \<open>works\<close>; clock readings and fresh identifiers are arguments. \<open>UpdatedAt\<close>, which nothing reads, and of the
  access rules everything but their key and their rule are left out, as is logging.
\<close>

section \<open>Rows\<close>

record tunnel =
  tn_ID :: string
  tn_CreatedAt :: int
  tn_DeletedAt :: "int option"
  tn_Name :: string
  tn_Description :: string
  tn_Enabled :: bool
  tn_CreatedBy :: string
  tn_IngressNodeID :: string
  tn_EgressNodeID :: string
  tn_IngressGroupID :: string
  tn_EgressGroupID :: string
  tn_Protocol :: string
  tn_IngressProtocol :: string
  tn_EgressProtocol :: string
  tn_ListenPort :: int
  tn_TargetAddress :: string
  tn_TargetPort :: int
  tn_EnableEncryption :: bool
  tn_EncryptionMethod :: string
  tn_RateLimitBPS :: int
  tn_MaxConnections :: int
  tn_IdleTimeout :: int
  tn_LoadBalanceMode :: string
  tn_ConnectionCount :: int
  tn_BytesIn :: int
  tn_BytesOut :: int
  tn_LastActive :: "int option"

record tunnel_rule =
  tr_ID :: string
  tr_DeletedAt :: "int option"
  tr_Name :: string
  tr_Description :: string
  tr_Enabled :: bool
  tr_Priority :: int
  tr_Version :: int
  tr_CreatedBy :: string
  tr_TunnelID :: string
  tr_GroupID :: string
  tr_Protocol :: string
  tr_ListenPort :: int
  tr_TargetAddress :: string
  tr_TargetPort :: int
  tr_IngressNodeID :: string
  tr_EgressNodeID :: string
  tr_IngressGroupID :: string
  tr_EgressGroupID :: string
  tr_IngressProtocol :: string
  tr_EgressProtocol :: string
  tr_EnableEncryption :: bool
  tr_RateLimitBPS :: int
  tr_MaxConnections :: int
  tr_IdleTimeout :: int

record tunnel_target =
  tg_DeletedAt :: "int option"
  tg_TunnelID :: string
  tg_Host :: string
  tg_Port :: int
  tg_Weight :: int
  tg_Enabled :: bool

record acl_entry =
  ae_DeletedAt :: "int option"
  ae_RuleID :: string

record tunnel_db =
  td_tunnels :: "tunnel list"
  td_rules :: "tunnel_rule list"
  td_targets :: "tunnel_target list"
  td_acls :: "acl_entry list"

record tunnel_request =
  rq_Name :: string
  rq_Description :: string
  rq_IngressNodeID :: string
  rq_EgressNodeID :: string
  rq_IngressGroupID :: string
  rq_EgressGroupID :: string
  rq_Protocol :: string
  rq_IngressProtocol :: string
  rq_EgressProtocol :: string
  rq_ListenPort :: int
  rq_TargetAddress :: string
  rq_TargetPort :: int
  rq_EnableEncryption :: bool
  rq_EncryptionMethod :: string
  rq_RateLimitBPS :: int
  rq_MaxConnections :: int
  rq_IdleTimeout :: int
  rq_LoadBalanceMode :: string

datatype tunnel_call =
    Q_name | Q_port | Q_create_tunnel | Q_create_rule | Q_first | Q_update | Q_sync_rules | Q_version
  | Q_acls | Q_rules | Q_targets | Q_delete | Q_toggle | Q_toggle_rules | Q_traffic | Q_list | Q_commit

datatype tunnel_error =
    TE_name | TE_listen_port | TE_target_port | TE_target_address | TE_name_taken | TE_port_check | TE_port_taken
  | TE_unknown | TE_db

definition live :: "tunnel list \<Rightarrow> tunnel list" where
  "live ts = filter (\<lambda>t. tn_DeletedAt t = None) ts"

definition live_rules :: "tunnel_rule list \<Rightarrow> tunnel_rule list" where
  "live_rules rs = filter (\<lambda>r. tr_DeletedAt r = None) rs"

text \<open>\<open>Updates\<close> with a condition changes the live rows that satisfy it.\<close>

definition update_tunnels :: "(tunnel \<Rightarrow> bool) \<Rightarrow> (tunnel \<Rightarrow> tunnel) \<Rightarrow> tunnel_db \<Rightarrow> tunnel_db" where
  "update_tunnels P f db =
     db\<lparr> td_tunnels := map (\<lambda>t. if tn_DeletedAt t = None \<and> P t then f t else t) (td_tunnels db) \<rparr>"

definition update_rules :: "string \<Rightarrow> (tunnel_rule \<Rightarrow> tunnel_rule) \<Rightarrow> tunnel_db \<Rightarrow> tunnel_db" where
  "update_rules tid f db =
     db\<lparr> td_rules := map (\<lambda>r. if tr_DeletedAt r = None \<and> tr_TunnelID r = tid then f r else r) (td_rules db) \<rparr>"

definition find_tunnel :: "string \<Rightarrow> tunnel_db \<Rightarrow> tunnel option" where
  "find_tunnel tid db = find (\<lambda>t. tn_ID t = tid) (live (td_tunnels db))"

section \<open>Creating\<close>

definition or_default :: "string \<Rightarrow> string \<Rightarrow> string" where
  "or_default s d = (if s = [] then d else s)"

definition validate_request :: "tunnel_request \<Rightarrow> tunnel_error option" where
  "validate_request req =
     (if rq_Name req = [] then Some TE_name
      else if rq_ListenPort req \<le> 0 \<or> rq_ListenPort req > 65535 then Some TE_listen_port
      else if rq_TargetPort req \<le> 0 \<or> rq_TargetPort req > 65535 then Some TE_target_port
      else if rq_TargetAddress req = [] then Some TE_target_address
      else None)"

definition checkPortConflict ::
    "(tunnel_call \<Rightarrow> bool) \<Rightarrow> string \<Rightarrow> int \<Rightarrow> string \<Rightarrow> tunnel_db \<Rightarrow> tunnel_error option" where
  "checkPortConflict works ingressGroupID p excludeTunnelID db =
     (if ingressGroupID = [] then None
      else if \<not> works Q_port then Some TE_port_check
      else if \<exists>t \<in> set (live (td_tunnels db)). tn_IngressGroupID t = ingressGroupID \<and> tn_ListenPort t = p \<and> tn_Enabled t \<and>
                (excludeTunnelID \<noteq> [] \<longrightarrow> tn_ID t \<noteq> excludeTunnelID)
      then Some TE_port_taken else None)"

text \<open>An error of the count of names is not looked at; the count stays zero.\<close>

definition CreateTunnel_checks :: "(tunnel_call \<Rightarrow> bool) \<Rightarrow> tunnel_request \<Rightarrow> tunnel_db \<Rightarrow> tunnel_error option" where
  "CreateTunnel_checks works req db =
     (case validate_request req of
        Some e \<Rightarrow> Some e
      | None \<Rightarrow> if works Q_name \<and> (\<exists>t \<in> set (live (td_tunnels db)). tn_Name t = rq_Name req) then Some TE_name_taken
                else checkPortConflict works (rq_IngressGroupID req) (rq_ListenPort req) [] db)"

definition new_tunnel :: "string \<Rightarrow> int \<Rightarrow> string \<Rightarrow> tunnel_request \<Rightarrow> tunnel" where
  "new_tunnel newID now userID req =
     (let protocol = or_default (rq_Protocol req) ''tcp'' in
      \<lparr> tn_ID = newID, tn_CreatedAt = now, tn_DeletedAt = None, tn_Name = rq_Name req, tn_Description = rq_Description req,
        tn_Enabled = True, tn_CreatedBy = userID,
        tn_IngressNodeID = rq_IngressNodeID req, tn_EgressNodeID = rq_EgressNodeID req,
        tn_IngressGroupID = rq_IngressGroupID req, tn_EgressGroupID = rq_EgressGroupID req,
        tn_Protocol = protocol, tn_IngressProtocol = or_default (rq_IngressProtocol req) protocol,
        tn_EgressProtocol = or_default (rq_EgressProtocol req) protocol,
        tn_ListenPort = rq_ListenPort req, tn_TargetAddress = rq_TargetAddress req, tn_TargetPort = rq_TargetPort req,
        tn_EnableEncryption = rq_EnableEncryption req,
        tn_EncryptionMethod = or_default (rq_EncryptionMethod req) ''aes-256-gcm'',
        tn_RateLimitBPS = rq_RateLimitBPS req, tn_MaxConnections = rq_MaxConnections req,
        tn_IdleTimeout = (if rq_IdleTimeout req = 0 then 300 else rq_IdleTimeout req),
        tn_LoadBalanceMode = or_default (rq_LoadBalanceMode req) ''round-robin'',
        tn_ConnectionCount = 0, tn_BytesIn = 0, tn_BytesOut = 0, tn_LastActive = None \<rparr>)"

text \<open>The texts of the source are bytes of UTF-8.\<close>

definition utf8 :: "nat list \<Rightarrow> string" where
  "utf8 bs = map char_of bs"

definition default_rule_suffix :: string where
  "default_rule_suffix = '' - '' @ utf8 [0xE9, 0xBB, 0x98, 0xE8, 0xAE, 0xA4, 0xE8, 0xA7, 0x84, 0xE5, 0x88, 0x99]"

definition default_rule_description :: string where
  "default_rule_description =
     utf8 [0xE9, 0x9A, 0xA7, 0xE9, 0x81, 0x93, 0xE8, 0x87, 0xAA, 0xE5, 0x8A, 0xA8, 0xE5, 0x88, 0x9B, 0xE5, 0xBB, 0xBA, 0xE7, 0x9A,
           0x84, 0xE9, 0xBB, 0x98, 0xE8, 0xAE, 0xA4, 0xE8, 0xBD, 0xAC, 0xE5, 0x8F, 0x91, 0xE8, 0xA7, 0x84, 0xE5, 0x88, 0x99]"

definition default_rule :: "string \<Rightarrow> string \<Rightarrow> tunnel \<Rightarrow> tunnel_rule" where
  "default_rule newID userID t =
     \<lparr> tr_ID = newID, tr_DeletedAt = None, tr_Name = tn_Name t @ default_rule_suffix, tr_Description = default_rule_description,
       tr_Enabled = True, tr_Priority = 0, tr_Version = 1, tr_CreatedBy = userID, tr_TunnelID = tn_ID t,
       tr_GroupID = tn_IngressGroupID t, tr_Protocol = tn_Protocol t, tr_ListenPort = tn_ListenPort t,
       tr_TargetAddress = tn_TargetAddress t, tr_TargetPort = tn_TargetPort t, tr_IngressNodeID = tn_IngressNodeID t,
       tr_EgressNodeID = tn_EgressNodeID t, tr_IngressGroupID = tn_IngressGroupID t, tr_EgressGroupID = tn_EgressGroupID t,
       tr_IngressProtocol = tn_IngressProtocol t, tr_EgressProtocol = tn_EgressProtocol t,
       tr_EnableEncryption = tn_EnableEncryption t, tr_RateLimitBPS = tn_RateLimitBPS t,
       tr_MaxConnections = tn_MaxConnections t, tr_IdleTimeout = tn_IdleTimeout t \<rparr>"

text \<open>The transaction: both rows or none. A key that is in the table makes the insertion fail.\<close>

definition CreateTunnel_commit ::
    "(tunnel_call \<Rightarrow> bool) \<Rightarrow> string \<Rightarrow> string \<Rightarrow> int \<Rightarrow> string \<Rightarrow> tunnel_request \<Rightarrow> tunnel_db \<Rightarrow> (tunnel_error + tunnel) \<times> tunnel_db" where
  "CreateTunnel_commit works newID newRuleID now userID req db =
     (let t = new_tunnel newID now userID req in
      if \<not> works Q_create_tunnel \<or> newID \<in> tn_ID ` set (td_tunnels db) then (Inl TE_db, db)
      else if \<not> works Q_create_rule \<or> newRuleID \<in> tr_ID ` set (td_rules db) then (Inl TE_db, db)
      else if \<not> works Q_commit then (Inl TE_db, db)
      else (Inr t, db\<lparr> td_tunnels := td_tunnels db @ [t], td_rules := td_rules db @ [default_rule newRuleID userID t] \<rparr>))"

definition CreateTunnel ::
    "(tunnel_call \<Rightarrow> bool) \<Rightarrow> string \<Rightarrow> string \<Rightarrow> int \<Rightarrow> tunnel_request \<Rightarrow> string \<Rightarrow> tunnel_db \<Rightarrow> (tunnel_error + tunnel) \<times> tunnel_db" where
  "CreateTunnel works newID newRuleID now req userID db =
     (case CreateTunnel_checks works req db of
        Some e \<Rightarrow> (Inl e, db)
      | None \<Rightarrow> CreateTunnel_commit works newID newRuleID now userID req db)"

section \<open>Reading\<close>

definition preload :: "tunnel_db \<Rightarrow> tunnel \<Rightarrow> tunnel \<times> tunnel_rule list \<times> tunnel_target list" where
  "preload db t = (t, filter (\<lambda>r. tr_TunnelID r = tn_ID t) (live_rules (td_rules db)),
                      filter (\<lambda>g. tg_DeletedAt g = None \<and> tg_TunnelID g = tn_ID t) (td_targets db))"

definition GetTunnel :: "(tunnel_call \<Rightarrow> bool) \<Rightarrow> string \<Rightarrow> tunnel_db \<Rightarrow> tunnel_error + tunnel \<times> tunnel_rule list \<times> tunnel_target list" where
  "GetTunnel works tid db =
     (if \<not> works Q_first then Inl TE_unknown
      else case find_tunnel tid db of None \<Rightarrow> Inl TE_unknown | Some t \<Rightarrow> Inr (preload db t))"

definition ListTunnels ::
    "(tunnel_call \<Rightarrow> bool) \<Rightarrow> string \<Rightarrow> bool \<Rightarrow> tunnel_db \<Rightarrow> tunnel_error + (tunnel \<times> tunnel_rule list \<times> tunnel_target list) list" where
  "ListTunnels works userID enabledOnly db =
     (if \<not> works Q_list then Inl TE_db
      else Inr (map (preload db) (sort_key (\<lambda>t. - tn_CreatedAt t)
             (filter (\<lambda>t. (userID \<noteq> [] \<longrightarrow> tn_CreatedBy t = userID) \<and> (enabledOnly \<longrightarrow> tn_Enabled t)) (live (td_tunnels db))))))"

definition GetTunnelsByGroupID ::
    "(tunnel_call \<Rightarrow> bool) \<Rightarrow> string \<Rightarrow> tunnel_db \<Rightarrow> tunnel_error + (tunnel \<times> tunnel_rule list \<times> tunnel_target list) list" where
  "GetTunnelsByGroupID works groupID db =
     (if \<not> works Q_list then Inl TE_db
      else Inr (map (preload db) (filter (\<lambda>t. tn_Enabled t \<and> (tn_IngressGroupID t = groupID \<or> tn_EgressGroupID t = groupID))
             (live (td_tunnels db)))))"

definition GetRulesByTunnelID :: "(tunnel_call \<Rightarrow> bool) \<Rightarrow> string \<Rightarrow> tunnel_db \<Rightarrow> tunnel_error + tunnel_rule list" where
  "GetRulesByTunnelID works tunnelID db =
     (if \<not> works Q_list then Inl TE_db
      else Inr (sort_key tr_Priority (filter (\<lambda>r. tr_TunnelID r = tunnelID) (live_rules (td_rules db)))))"

section \<open>Changing\<close>

definition UpdateTunnel_checks :: "(tunnel_call \<Rightarrow> bool) \<Rightarrow> string \<Rightarrow> tunnel_request \<Rightarrow> tunnel_db \<Rightarrow> tunnel_error option" where
  "UpdateTunnel_checks works tid req db =
     (case (if works Q_first then find_tunnel tid db else None) of
        None \<Rightarrow> Some TE_unknown
      | Some t \<Rightarrow>
          if rq_Name req \<noteq> [] \<and> rq_Name req \<noteq> tn_Name t \<and> works Q_name \<and>
             (\<exists>u \<in> set (live (td_tunnels db)). tn_Name u = rq_Name req \<and> tn_ID u \<noteq> tid)
          then Some TE_name_taken
          else if rq_ListenPort req \<noteq> tn_ListenPort t
          then checkPortConflict works (if rq_IngressGroupID req = [] then tn_IngressGroupID t else rq_IngressGroupID req)
                 (rq_ListenPort req) tid db
          else None)"

definition apply_request :: "tunnel_request \<Rightarrow> tunnel \<Rightarrow> tunnel" where
  "apply_request req t =
     (let t = t\<lparr> tn_Name := rq_Name req, tn_Description := rq_Description req,
                 tn_IngressNodeID := rq_IngressNodeID req, tn_EgressNodeID := rq_EgressNodeID req,
                 tn_IngressGroupID := rq_IngressGroupID req, tn_EgressGroupID := rq_EgressGroupID req,
                 tn_ListenPort := rq_ListenPort req, tn_TargetAddress := rq_TargetAddress req,
                 tn_TargetPort := rq_TargetPort req, tn_EnableEncryption := rq_EnableEncryption req,
                 tn_RateLimitBPS := rq_RateLimitBPS req, tn_MaxConnections := rq_MaxConnections req,
                 tn_IdleTimeout := rq_IdleTimeout req \<rparr>;
          t = (if rq_Protocol req \<noteq> []
               then t\<lparr> tn_Protocol := rq_Protocol req, tn_IngressProtocol := rq_IngressProtocol req,
                       tn_EgressProtocol := rq_EgressProtocol req \<rparr> else t);
          t = (if rq_EncryptionMethod req \<noteq> [] then t\<lparr> tn_EncryptionMethod := rq_EncryptionMethod req \<rparr> else t)
      in if rq_LoadBalanceMode req \<noteq> [] then t\<lparr> tn_LoadBalanceMode := rq_LoadBalanceMode req \<rparr> else t)"

definition apply_to_rule :: "tunnel_request \<Rightarrow> tunnel_rule \<Rightarrow> tunnel_rule" where
  "apply_to_rule req r =
     r\<lparr> tr_ListenPort := rq_ListenPort req, tr_TargetAddress := rq_TargetAddress req, tr_TargetPort := rq_TargetPort req,
        tr_IngressNodeID := rq_IngressNodeID req, tr_EgressNodeID := rq_EgressNodeID req,
        tr_IngressGroupID := rq_IngressGroupID req, tr_EgressGroupID := rq_EgressGroupID req,
        tr_EnableEncryption := rq_EnableEncryption req, tr_RateLimitBPS := rq_RateLimitBPS req,
        tr_MaxConnections := rq_MaxConnections req, tr_IdleTimeout := rq_IdleTimeout req \<rparr>"

definition UpdateTunnel_commit ::
    "(tunnel_call \<Rightarrow> bool) \<Rightarrow> string \<Rightarrow> tunnel_request \<Rightarrow> tunnel_db \<Rightarrow> tunnel_error option \<times> tunnel_db" where
  "UpdateTunnel_commit works tid req db =
     (if \<not> works Q_update \<or> \<not> works Q_sync_rules \<or> \<not> works Q_commit then (Some TE_db, db)
      else (let db1 = update_rules tid (apply_to_rule req) (update_tunnels (\<lambda>t. tn_ID t = tid) (apply_request req) db)
            in (None, if works Q_version then update_rules tid (\<lambda>r. r\<lparr> tr_Version := tr_Version r + 1 \<rparr>) db1 else db1)))"

definition UpdateTunnel ::
    "(tunnel_call \<Rightarrow> bool) \<Rightarrow> string \<Rightarrow> tunnel_request \<Rightarrow> tunnel_db
       \<Rightarrow> (tunnel_error + tunnel \<times> tunnel_rule list \<times> tunnel_target list) \<times> tunnel_db" where
  "UpdateTunnel works tid req db =
     (case UpdateTunnel_checks works tid req db of
        Some e \<Rightarrow> (Inl e, db)
      | None \<Rightarrow> case UpdateTunnel_commit works tid req db of
                  (Some e, db) \<Rightarrow> (Inl e, db)
                | (None, db) \<Rightarrow> (GetTunnel works tid db, db))"

definition DeleteTunnel :: "(tunnel_call \<Rightarrow> bool) \<Rightarrow> int \<Rightarrow> string \<Rightarrow> tunnel_db \<Rightarrow> tunnel_error option \<times> tunnel_db" where
  "DeleteTunnel works now tid db =
     (let ruleIDs = tr_ID ` set (filter (\<lambda>r. tr_TunnelID r = tid) (live_rules (td_rules db)));
          db1 = (if works Q_acls
                 then db\<lparr> td_acls := map (\<lambda>a. if ae_DeletedAt a = None \<and> ae_RuleID a \<in> ruleIDs
                                              then a\<lparr> ae_DeletedAt := Some now \<rparr> else a) (td_acls db) \<rparr>
                 else db);
          db2 = update_rules tid (\<lambda>r. r\<lparr> tr_DeletedAt := Some now \<rparr>) db1;
          db3 = db2\<lparr> td_targets := map (\<lambda>g. if tg_DeletedAt g = None \<and> tg_TunnelID g = tid
                                            then g\<lparr> tg_DeletedAt := Some now \<rparr> else g) (td_targets db2) \<rparr>
      in if \<not> works Q_rules \<or> \<not> works Q_targets \<or> \<not> works Q_delete then (Some TE_db, db)
         else if find_tunnel tid db = None then (Some TE_unknown, db)
         else if \<not> works Q_commit then (Some TE_db, db)
         else (None, update_tunnels (\<lambda>t. tn_ID t = tid) (\<lambda>t. t\<lparr> tn_DeletedAt := Some now \<rparr>) db3))"

text \<open>The tunnel \<open>ToggleTunnel\<close> returns is always nil; the model gives the error alone.\<close>

definition ToggleTunnel :: "(tunnel_call \<Rightarrow> bool) \<Rightarrow> string \<Rightarrow> bool \<Rightarrow> tunnel_db \<Rightarrow> tunnel_error option \<times> tunnel_db" where
  "ToggleTunnel works tid enabled db =
     (if \<not> works Q_toggle \<or> \<not> works Q_commit then (Some TE_db, db)
      else (let db1 = update_tunnels (\<lambda>t. tn_ID t = tid) (\<lambda>t. t\<lparr> tn_Enabled := enabled \<rparr>) db
            in (None, if works Q_toggle_rules then update_rules tid (\<lambda>r. r\<lparr> tr_Enabled := enabled \<rparr>) db1 else db1)))"

definition UpdateTraffic ::
    "(tunnel_call \<Rightarrow> bool) \<Rightarrow> int \<Rightarrow> string \<Rightarrow> int \<Rightarrow> int \<Rightarrow> tunnel_db \<Rightarrow> tunnel_error option \<times> tunnel_db" where
  "UpdateTraffic works now tunnelID bytesIn bytesOut db =
     (if \<not> works Q_traffic then (Some TE_db, db)
      else (None, update_tunnels (\<lambda>t. tn_ID t = tunnelID)
              (\<lambda>t. t\<lparr> tn_BytesIn := tn_BytesIn t + bytesIn, tn_BytesOut := tn_BytesOut t + bytesOut,
                      tn_ConnectionCount := tn_ConnectionCount t + 1, tn_LastActive := Some now \<rparr>) db))"

section \<open>The rules of a tunnel mirror it\<close>

definition rule_mirrors :: "tunnel \<Rightarrow> tunnel_rule \<Rightarrow> bool" where
  "rule_mirrors t r \<longleftrightarrow>
     tr_TunnelID r = tn_ID t \<and> tr_Enabled r = tn_Enabled t \<and> tr_ListenPort r = tn_ListenPort t \<and>
     tr_TargetAddress r = tn_TargetAddress t \<and> tr_TargetPort r = tn_TargetPort t \<and>
     tr_IngressNodeID r = tn_IngressNodeID t \<and> tr_EgressNodeID r = tn_EgressNodeID t \<and>
     tr_IngressGroupID r = tn_IngressGroupID t \<and> tr_EgressGroupID r = tn_EgressGroupID t \<and>
     tr_EnableEncryption r = tn_EnableEncryption t \<and> tr_RateLimitBPS r = tn_RateLimitBPS t \<and>
     tr_MaxConnections r = tn_MaxConnections t \<and> tr_IdleTimeout r = tn_IdleTimeout t"

definition rules_of :: "string \<Rightarrow> tunnel_db \<Rightarrow> tunnel_rule list" where
  "rules_of tid db = filter (\<lambda>r. tr_TunnelID r = tid) (live_rules (td_rules db))"

definition tunnels_ok :: "tunnel_db \<Rightarrow> bool" where
  "tunnels_ok db \<longleftrightarrow>
     distinct (map tn_ID (td_tunnels db)) \<and>
     (\<forall>r \<in> set (live_rules (td_rules db)). \<exists>t \<in> set (live (td_tunnels db)). rule_mirrors t r) \<and>
     (\<forall>t \<in> set (live (td_tunnels db)). length (rules_of (tn_ID t) db) = 1)"

lemma update_simps [simp]:
  "td_tunnels (update_rules tid g db) = td_tunnels db" "td_rules (update_tunnels P f db) = td_rules db"
  by (simp_all add: update_rules_def update_tunnels_def)

lemma update_tunnels_IDs: "(\<And>t. tn_ID (f t) = tn_ID t) \<Longrightarrow> map tn_ID (td_tunnels (update_tunnels P f db)) = map tn_ID (td_tunnels db)"
  by (simp add: update_tunnels_def)

lemma live_update:
  assumes "\<And>t. tn_DeletedAt (f t) = tn_DeletedAt t"
  shows "live (td_tunnels (update_tunnels P f db)) = map (\<lambda>t. if P t then f t else t) (live (td_tunnels db))"
  using assms by (induction "td_tunnels db" arbitrary: db) (auto simp: live_def update_tunnels_def filter_map comp_def intro!: map_cong filter_cong)

lemma live_rules_update:
  assumes "\<And>r. tr_DeletedAt (g r) = tr_DeletedAt r"
  shows "live_rules (td_rules (update_rules tid g db)) =
    map (\<lambda>r. if tr_TunnelID r = tid then g r else r) (live_rules (td_rules db))"
  using assms by (auto simp: live_rules_def update_rules_def filter_map comp_def intro!: map_cong filter_cong)

lemma rules_of_update:
  assumes "\<And>r. tr_DeletedAt (g r) = tr_DeletedAt r" "\<And>r. tr_TunnelID (g r) = tr_TunnelID r"
  shows "length (rules_of k (update_rules tid g db)) = length (rules_of k db)"
  unfolding rules_of_def live_rules_update [OF assms(1)]
  by (simp add: filter_map comp_def assms(2) if_distrib [of tr_TunnelID] cong: if_cong)

lemma rules_of_tunnels [simp]: "rules_of k (update_tunnels P f db) = rules_of k db"
  by (simp add: rules_of_def)

lemma update_both_ok:
  assumes ok: "tunnels_ok db"
    and f: "\<And>t. tn_DeletedAt (f t) = tn_DeletedAt t" "\<And>t. tn_ID (f t) = tn_ID t"
    and g: "\<And>r. tr_DeletedAt (g r) = tr_DeletedAt r" "\<And>r. tr_TunnelID (g r) = tr_TunnelID r"
    and both: "\<And>t r. rule_mirrors t r \<Longrightarrow> rule_mirrors (f t) (g r)"
  shows "tunnels_ok (update_rules tid g (update_tunnels (\<lambda>t. tn_ID t = tid) f db))"
    (is "tunnels_ok (update_rules tid g ?db)")
  unfolding tunnels_ok_def
proof (intro conjI ballI)
  show "distinct (map tn_ID (td_tunnels (update_rules tid g ?db)))"
    using ok by (simp add: tunnels_ok_def update_tunnels_IDs [OF f(2)] del: One_nat_def)
next
  fix r assume "r \<in> set (live_rules (td_rules (update_rules tid g ?db)))"
  then obtain r0 where r: "r0 \<in> set (live_rules (td_rules db))" "r = (if tr_TunnelID r0 = tid then g r0 else r0)"
    by (auto simp: live_rules_update [OF g(1)])
  then obtain t where t: "t \<in> set (live (td_tunnels db))" "rule_mirrors t r0" using ok by (auto simp: tunnels_ok_def)
  have "rule_mirrors (if tn_ID t = tid then f t else t) r" using t(2) r(2) both by (auto simp: rule_mirrors_def)
  then show "\<exists>t \<in> set (live (td_tunnels (update_rules tid g ?db))). rule_mirrors t r"
    using t(1) by (intro bexI [of _ "if tn_ID t = tid then f t else t"]) (simp_all add: live_update [OF f(1)] image_def, blast)
next
  fix t assume "t \<in> set (live (td_tunnels (update_rules tid g ?db)))"
  then obtain t0 where "t0 \<in> set (live (td_tunnels db))" "tn_ID t = tn_ID t0"
    using f(2) by (auto simp: live_update [OF f(1)] split: if_splits)
  then show "length (rules_of (tn_ID t) (update_rules tid g ?db)) = 1"
    using ok by (simp add: rules_of_update [OF g] tunnels_ok_def)
qed

lemma update_rules_id: "update_rules tid (\<lambda>r. r) db = db"
  by (simp add: update_rules_def)

lemma update_tunnels_id: "update_tunnels P (\<lambda>t. t) db = db"
  by (simp add: update_tunnels_def)

lemma update_version_ok: "tunnels_ok db \<Longrightarrow> tunnels_ok (update_rules tid (\<lambda>r. r\<lparr> tr_Version := v r \<rparr>) db)"
  using update_both_ok [of db "\<lambda>t. t" "\<lambda>r. r\<lparr> tr_Version := v r \<rparr>" tid] by (simp add: update_tunnels_id rule_mirrors_def)

lemma apply_request_same [simp]: "tn_DeletedAt (apply_request req t) = tn_DeletedAt t" "tn_ID (apply_request req t) = tn_ID t"
    "tn_Enabled (apply_request req t) = tn_Enabled t"
  by (simp_all add: apply_request_def Let_def)

lemma apply_request_mirrors: "rule_mirrors t r \<Longrightarrow> rule_mirrors (apply_request req t) (apply_to_rule req r)"
  by (simp add: rule_mirrors_def apply_request_def apply_to_rule_def Let_def)

lemma update_commit_ok:
  assumes "tunnels_ok db"
  shows "tunnels_ok (snd (UpdateTunnel_commit works tid req db))"
proof -
  have "tunnels_ok (update_rules tid (apply_to_rule req) (update_tunnels (\<lambda>t. tn_ID t = tid) (apply_request req) db))"
    by (rule update_both_ok [OF assms _ _ _ _ apply_request_mirrors]) (simp_all add: apply_to_rule_def)
  then show ?thesis
    using assms update_version_ok by (simp add: UpdateTunnel_commit_def Let_def)
qed

lemma toggle_ok:
  assumes "tunnels_ok db" "works Q_toggle_rules"
  shows "tunnels_ok (snd (ToggleTunnel works tid e db))"
proof -
  have "tunnels_ok (update_rules tid (\<lambda>r. r\<lparr> tr_Enabled := e \<rparr>)
          (update_tunnels (\<lambda>t. tn_ID t = tid) (\<lambda>t. t\<lparr> tn_Enabled := e \<rparr>) db))"
    by (rule update_both_ok [OF assms(1)]) (simp_all add: rule_mirrors_def)
  then show ?thesis using assms by (simp add: ToggleTunnel_def Let_def)
qed

lemma traffic_ok:
  assumes "tunnels_ok db"
  shows "tunnels_ok (snd (UpdateTraffic works now tid i out db))"
proof -
  have "tunnels_ok (update_rules tid (\<lambda>r. r) (snd (UpdateTraffic (\<lambda>_. True) now tid i out db)))"
    unfolding UpdateTraffic_def by simp (rule update_both_ok [OF assms]; simp add: rule_mirrors_def)
  then show ?thesis using assms by (simp add: UpdateTraffic_def update_rules_id)
qed

lemma live_append: "live (ts @ us) = live ts @ live us" "live_rules (rs @ qs) = live_rules rs @ live_rules qs"
  by (simp_all add: live_def live_rules_def)

lemma live_new [simp]:
  "live [new_tunnel i now u req] = [new_tunnel i now u req]" "live_rules [default_rule j u t] = [default_rule j u t]"
  "tn_ID (new_tunnel i now u req) = i" "tr_TunnelID (default_rule j u t) = tn_ID t" "tn_Enabled (new_tunnel i now u req)"
  "tn_IngressGroupID (new_tunnel i now u req) = rq_IngressGroupID req" "tn_ListenPort (new_tunnel i now u req) = rq_ListenPort req"
  by (simp_all add: live_def live_rules_def new_tunnel_def default_rule_def Let_def)

lemma default_rule_mirrors: "rule_mirrors (new_tunnel i now u req) (default_rule j u (new_tunnel i now u req))"
  by (simp add: rule_mirrors_def default_rule_def new_tunnel_def Let_def)

lemma live_rule_tunnel: "tunnels_ok db \<Longrightarrow> r \<in> set (live_rules (td_rules db)) \<Longrightarrow> tr_TunnelID r \<in> tn_ID ` set (td_tunnels db)"
  by (fastforce simp: tunnels_ok_def rule_mirrors_def live_def)

lemma create_commit_ok:
  assumes "tunnels_ok db"
  shows "tunnels_ok (snd (CreateTunnel_commit works i j now u req db))"
proof (cases "CreateTunnel_commit works i j now u req db")
  case (Pair r db')
  show ?thesis
  proof (cases r)
    case (Inr t)
    define t1 where "t1 = new_tunnel i now u req"
    have new: "i \<notin> tn_ID ` set (td_tunnels db)"
      and db': "db' = db\<lparr> td_tunnels := td_tunnels db @ [t1], td_rules := td_rules db @ [default_rule j u t1] \<rparr>"
      using Pair Inr by (auto simp: CreateTunnel_commit_def t1_def Let_def split: if_splits)
    have none: "rules_of i db = []"
      using live_rule_tunnel [OF assms] new by (auto simp: rules_of_def filter_empty_conv)
    have of_new: "rules_of k db' = rules_of k db @ (if k = i then [default_rule j u t1] else [])" for k
      by (simp add: db' rules_of_def live_append t1_def)
    have one: "rule_mirrors t1 (default_rule j u t1)" by (simp add: t1_def default_rule_mirrors)
    have id1: "tn_ID t1 = i" "live [t1] = [t1]" "live_rules [default_rule j u t1] = [default_rule j u t1]" by (simp_all add: t1_def)
    have old: "tn_ID t \<noteq> i" if "t \<in> set (live (td_tunnels db))" for t using that new by (auto simp: live_def)
    show ?thesis unfolding Pair snd_conv tunnels_ok_def
    proof (intro conjI ballI)
      show "distinct (map tn_ID (td_tunnels db'))" using assms new by (simp add: db' tunnels_ok_def id1)
    next
      fix r assume "r \<in> set (live_rules (td_rules db'))"
      then consider "r \<in> set (live_rules (td_rules db))" | "r = default_rule j u t1" by (auto simp: db' live_append id1)
      then show "\<exists>t \<in> set (live (td_tunnels db')). rule_mirrors t r"
        using assms one by cases (auto simp: db' live_append id1 tunnels_ok_def)
    next
      fix t assume "t \<in> set (live (td_tunnels db'))"
      then consider "t \<in> set (live (td_tunnels db))" | "t = t1" by (auto simp: db' live_append id1)
      then show "length (rules_of (tn_ID t) db') = 1"
        using assms old by cases (simp_all add: of_new none id1 tunnels_ok_def)
    qed
  next
    case (Inl e)
    then have "db' = db" using Pair by (auto simp: CreateTunnel_commit_def Let_def split: if_splits)
    then show ?thesis using Pair assms by simp
  qed
qed

lemma find_live:
  assumes "find_tunnel tid db = Some t"
  shows "t \<in> set (live (td_tunnels db)) \<and> tn_ID t = tid"
  using assms by (auto simp: find_tunnel_def find_Some_iff)

lemma filter_marked:
  assumes "\<And>x. \<not> L (f x)"
  shows "filter L (map (\<lambda>x. if L x \<and> P x then f x else x) xs) = filter (\<lambda>x. \<not> P x) (filter L xs)"
  using assms by (induction xs) auto

lemma live_delete:
  "live_rules (td_rules (update_rules tid (\<lambda>r. r\<lparr> tr_DeletedAt := Some now \<rparr>) db)) =
     filter (\<lambda>r. tr_TunnelID r \<noteq> tid) (live_rules (td_rules db))"
  "live (td_tunnels (update_tunnels (\<lambda>t. tn_ID t = tid) (\<lambda>t. t\<lparr> tn_DeletedAt := Some now \<rparr>) db)) =
     filter (\<lambda>t. tn_ID t \<noteq> tid) (live (td_tunnels db))"
  unfolding live_rules_def update_rules_def live_def update_tunnels_def by (simp_all add: filter_marked)

lemma delete_parts:
  obtains "snd (DeleteTunnel works now tid db) = db"
  | "map tn_ID (td_tunnels (snd (DeleteTunnel works now tid db))) = map tn_ID (td_tunnels db)"
    "live (td_tunnels (snd (DeleteTunnel works now tid db))) = filter (\<lambda>t. tn_ID t \<noteq> tid) (live (td_tunnels db))"
    "live_rules (td_rules (snd (DeleteTunnel works now tid db))) = filter (\<lambda>r. tr_TunnelID r \<noteq> tid) (live_rules (td_rules db))"
proof -
  let ?f = "\<lambda>db. update_tunnels (\<lambda>t. tn_ID t = tid) (\<lambda>t. t\<lparr> tn_DeletedAt := Some now \<rparr>) db"
  let ?g = "\<lambda>db. update_rules tid (\<lambda>r. r\<lparr> tr_DeletedAt := Some now \<rparr>) db"
  define a where "a = (if works Q_acls then map (\<lambda>a. if ae_DeletedAt a = None \<and>
      ae_RuleID a \<in> tr_ID ` set (filter (\<lambda>r. tr_TunnelID r = tid) (live_rules (td_rules db)))
      then a\<lparr> ae_DeletedAt := Some now \<rparr> else a) (td_acls db) else td_acls db)"
  define g where "g = map (\<lambda>g. if tg_DeletedAt g = None \<and> tg_TunnelID g = tid then g\<lparr> tg_DeletedAt := Some now \<rparr> else g) (td_targets db)"
  have "snd (DeleteTunnel works now tid db) = db \<or>
      snd (DeleteTunnel works now tid db) = ?f ((?g (db\<lparr> td_acls := a \<rparr>))\<lparr> td_targets := g \<rparr>)"
    by (simp add: DeleteTunnel_def Let_def a_def g_def update_rules_def)
  then consider "snd (DeleteTunnel works now tid db) = db"
    | "snd (DeleteTunnel works now tid db) = ?f ((?g (db\<lparr> td_acls := a \<rparr>))\<lparr> td_targets := g \<rparr>)" by blast
  then show ?thesis
  proof cases
    case 2
    then show ?thesis using that(2) live_delete(1) [of tid now "db\<lparr> td_acls := a \<rparr>"]
        live_delete(2) [of tid now "(?g (db\<lparr> td_acls := a \<rparr>))\<lparr> td_targets := g \<rparr>"]
      by (simp add: update_tunnels_IDs)
  qed (rule that(1))
qed

lemma delete_ok:
  assumes "tunnels_ok db"
  shows "tunnels_ok (snd (DeleteTunnel works now tid db))"
proof (cases rule: delete_parts [of works now tid db])
  case 2
  show ?thesis unfolding tunnels_ok_def rules_of_def 2
  proof (intro conjI ballI)
    fix r assume "r \<in> set (filter (\<lambda>r. tr_TunnelID r \<noteq> tid) (live_rules (td_rules db)))"
    then show "\<exists>t \<in> set (filter (\<lambda>t. tn_ID t \<noteq> tid) (live (td_tunnels db))). rule_mirrors t r"
      using assms by (fastforce simp: tunnels_ok_def rule_mirrors_def)
  next
    fix t assume t: "t \<in> set (filter (\<lambda>t. tn_ID t \<noteq> tid) (live (td_tunnels db)))"
    then have "filter (\<lambda>r. tr_TunnelID r = tn_ID t) (filter (\<lambda>r. tr_TunnelID r \<noteq> tid) (live_rules (td_rules db))) =
        rules_of (tn_ID t) db" by (auto simp: rules_of_def intro!: filter_cong)
    then show "length (filter (\<lambda>r. tr_TunnelID r = tn_ID t) (filter (\<lambda>r. tr_TunnelID r \<noteq> tid) (live_rules (td_rules db)))) = 1"
      using assms t by (simp add: tunnels_ok_def)
  qed (use assms in \<open>simp add: tunnels_ok_def\<close>)
qed (use assms in simp)

text \<open>
  The runs of the database: tunnel operations, the checks of a creation or an update any number of steps before its
  transaction, and rows of targets and access rules written by anybody. Failing statements are part of the runs, except
  that the second statement of \<open>ToggleTunnel\<close>, whose error the source only logs, works.
\<close>

inductive tunnel_run :: "tunnel_db \<Rightarrow> bool" where
  tu_empty: "tunnel_run \<lparr> td_tunnels = [], td_rules = [], td_targets = g, td_acls = a \<rparr>"
| tu_create: "tunnel_run db \<Longrightarrow> tunnel_run (snd (CreateTunnel_commit works i j now u req db))"
| tu_update: "tunnel_run db \<Longrightarrow> tunnel_run (snd (UpdateTunnel_commit works tid req db))"
| tu_delete: "tunnel_run db \<Longrightarrow> tunnel_run (snd (DeleteTunnel works now tid db))"
| tu_toggle: "tunnel_run db \<Longrightarrow> works Q_toggle_rules \<Longrightarrow> tunnel_run (snd (ToggleTunnel works tid e db))"
| tu_traffic: "tunnel_run db \<Longrightarrow> tunnel_run (snd (UpdateTraffic works now tid x y db))"
| tu_rows: "tunnel_run db \<Longrightarrow> tunnel_run (db\<lparr> td_targets := g, td_acls := a \<rparr>)"

lemma tunnels_ok_rows: "tunnels_ok (db\<lparr> td_targets := g, td_acls := a \<rparr>) = tunnels_ok db"
  by (simp add: tunnels_ok_def rules_of_def)

lemma tunnel_run_ok: "tunnel_run db \<Longrightarrow> tunnels_ok db"
proof (induction rule: tunnel_run.induct)
  case (tu_empty g a) show ?case by (simp add: tunnels_ok_def live_def live_rules_def)
qed (simp_all only: create_commit_ok update_commit_ok delete_ok toggle_ok traffic_ok tunnels_ok_rows)


definition demo_request :: tunnel_request where
  "demo_request =
     \<lparr> rq_Name = ''web'', rq_Description = [], rq_IngressNodeID = [], rq_EgressNodeID = [], rq_IngressGroupID = ''g'',
       rq_EgressGroupID = [], rq_Protocol = [], rq_IngressProtocol = [], rq_EgressProtocol = [], rq_ListenPort = 80,
       rq_TargetAddress = ''h'', rq_TargetPort = 8080, rq_EnableEncryption = False, rq_EncryptionMethod = [],
       rq_RateLimitBPS = 0, rq_MaxConnections = 0, rq_IdleTimeout = 0, rq_LoadBalanceMode = [] \<rparr>"

definition no_tunnels :: tunnel_db where
  "no_tunnels = \<lparr> td_tunnels = [], td_rules = [], td_targets = [], td_acls = [] \<rparr>"


section \<open>Ports\<close>

definition port_taken_by :: "tunnel \<Rightarrow> tunnel \<Rightarrow> bool" where
  "port_taken_by t u \<longleftrightarrow> tn_Enabled t \<and> tn_Enabled u \<and> tn_IngressGroupID t \<noteq> [] \<and>
     tn_IngressGroupID u = tn_IngressGroupID t \<and> tn_ListenPort u = tn_ListenPort t"

definition ports_ok :: "tunnel_db \<Rightarrow> bool" where
  "ports_ok db \<longleftrightarrow> distinct (map tn_ID (td_tunnels db)) \<and>
     (\<forall>t \<in> set (live (td_tunnels db)). tn_ID t \<noteq> []) \<and>
     (\<forall>t \<in> set (live (td_tunnels db)). \<forall>u \<in> set (live (td_tunnels db)). port_taken_by t u \<longrightarrow> tn_ID t = tn_ID u)"

lemma ports_okD:
  assumes "ports_ok db"
  shows "distinct (map tn_ID (td_tunnels db))"
    "t \<in> set (live (td_tunnels db)) \<Longrightarrow> tn_ID t \<noteq> []"
    "t \<in> set (live (td_tunnels db)) \<Longrightarrow> u \<in> set (live (td_tunnels db)) \<Longrightarrow> port_taken_by t u \<Longrightarrow> tn_ID t = tn_ID u"
  using assms unfolding ports_ok_def by blast+

lemma ports_okI:
  assumes "distinct (map tn_ID (td_tunnels db))" "\<And>t. t \<in> set (live (td_tunnels db)) \<Longrightarrow> tn_ID t \<noteq> []"
    "\<And>t u. t \<in> set (live (td_tunnels db)) \<Longrightarrow> u \<in> set (live (td_tunnels db)) \<Longrightarrow> port_taken_by t u \<Longrightarrow> tn_ID t = tn_ID u"
  shows "ports_ok db"
  using assms unfolding ports_ok_def by blast

lemma live_same:
  assumes "distinct (map tn_ID ts)" "t \<in> set (live ts)" "u \<in> set (live ts)" "tn_ID t = tn_ID u"
  shows "t = u"
proof (rule inj_onD [of tn_ID "set ts"])
  show "inj_on tn_ID (set ts)" using assms(1) by (simp add: distinct_map)
qed (use assms in \<open>simp_all add: live_def\<close>)

lemma check_clear:
  assumes "checkPortConflict works g p x db = None" "v \<in> set (live (td_tunnels db))" "x = [] \<or> tn_ID v \<noteq> x"
  shows "g = [] \<or> tn_IngressGroupID v \<noteq> g \<or> tn_ListenPort v \<noteq> p \<or> \<not> tn_Enabled v"
  using assms by (auto simp: checkPortConflict_def split: if_splits)

lemma check_not_taken:
  assumes "checkPortConflict works (tn_IngressGroupID w) (tn_ListenPort w) x db = None" "v \<in> set (live (td_tunnels db))"
    "x = [] \<or> tn_ID v \<noteq> x"
  shows "\<not> port_taken_by w v \<and> \<not> port_taken_by v w"
  using check_clear [OF assms] unfolding port_taken_by_def by metis

lemma ports_changed:
  assumes ok: "ports_ok db"
    and IDs: "map tn_ID (td_tunnels db') = map tn_ID (td_tunnels db)"
    and came: "\<And>t'. t' \<in> set (live (td_tunnels db')) \<Longrightarrow> \<exists>t \<in> set (live (td_tunnels db)). tn_ID t' = tn_ID t \<and>
      (tn_Enabled t' \<longrightarrow> tn_Enabled t \<and> tn_IngressGroupID t' = tn_IngressGroupID t \<and> tn_ListenPort t' = tn_ListenPort t)"
  shows "ports_ok db'"
proof (rule ports_okI)
  fix t' u' assume mem: "t' \<in> set (live (td_tunnels db'))" "u' \<in> set (live (td_tunnels db'))" and taken: "port_taken_by t' u'"
  obtain t u where "t \<in> set (live (td_tunnels db))" "u \<in> set (live (td_tunnels db))" and eq: "tn_ID t' = tn_ID t" "tn_ID u' = tn_ID u"
    and "port_taken_by t u" using came [OF mem(1)] came [OF mem(2)] taken unfolding port_taken_by_def by metis
  then have "tn_ID t = tn_ID u" by (intro ports_okD(3) [OF ok])
  then show "tn_ID t' = tn_ID u'" using eq by simp
next
  fix t' assume "t' \<in> set (live (td_tunnels db'))"
  then show "tn_ID t' \<noteq> []" using came [of t'] ports_okD(2) [OF ok] by metis
qed (simp add: IDs ports_okD(1) [OF ok])

lemma create_commit_cases:
  obtains "snd (CreateTunnel_commit works i j now u req db) = db"
  | "i \<notin> tn_ID ` set (td_tunnels db)"
    "td_tunnels (snd (CreateTunnel_commit works i j now u req db)) = td_tunnels db @ [new_tunnel i now u req]"
proof (cases "works Q_create_tunnel \<and> i \<notin> tn_ID ` set (td_tunnels db) \<and> works Q_create_rule \<and>
    j \<notin> tr_ID ` set (td_rules db) \<and> works Q_commit")
  case True
  then show ?thesis by (intro that(2)) (simp_all add: CreateTunnel_commit_def Let_def)
next
  case False
  then show ?thesis by (intro that(1)) (auto simp: CreateTunnel_commit_def Let_def simp del: not_ex not_all)
qed

lemma create_ports_ok:
  assumes ok: "ports_ok db" and i: "i \<noteq> []"
  shows "ports_ok (snd (CreateTunnel works i j now req u db))"
proof (cases "CreateTunnel_checks works req db")
  case None
  then have eq: "CreateTunnel works i j now req u db = CreateTunnel_commit works i j now u req db"
    by (simp add: CreateTunnel_def)
  show ?thesis
  proof (cases rule: create_commit_cases [of works i j now u req db])
    case 2
    have chk: "checkPortConflict works (rq_IngressGroupID req) (rq_ListenPort req) [] db = None"
      using None by (simp add: CreateTunnel_checks_def split: option.splits if_splits)
    have clear: "\<not> port_taken_by (new_tunnel i now u req) v \<and> \<not> port_taken_by v (new_tunnel i now u req)"
      if "v \<in> set (live (td_tunnels db))" for v
      by (rule check_not_taken [of works _ "[]" db]) (simp_all add: chk that)
    have mem: "v \<in> set (live (td_tunnels db)) \<or> v = new_tunnel i now u req"
      if "v \<in> set (live (td_tunnels (snd (CreateTunnel_commit works i j now u req db))))" for v
      using that unfolding 2(2) by (simp add: live_append) blast
    show ?thesis unfolding eq
    proof (rule ports_okI)
      fix a b assume "a \<in> set (live (td_tunnels (snd (CreateTunnel_commit works i j now u req db))))"
        "b \<in> set (live (td_tunnels (snd (CreateTunnel_commit works i j now u req db))))" "port_taken_by a b"
      then show "tn_ID a = tn_ID b" using mem [of a] mem [of b] clear ports_okD(3) [OF ok, of a b] by blast
    next
      fix a assume "a \<in> set (live (td_tunnels (snd (CreateTunnel_commit works i j now u req db))))"
      then show "tn_ID a \<noteq> []" using mem [of a] ports_okD(2) [OF ok, of a] i by auto
    qed (use 2 ports_okD(1) [OF ok] in simp)
  qed (use ok eq in simp)
qed (use ok in \<open>simp add: CreateTunnel_def\<close>)

lemma update_commit_tunnels:
  assumes "fst (UpdateTunnel_commit works tid req db) = None"
  shows "td_tunnels (snd (UpdateTunnel_commit works tid req db)) =
    td_tunnels (update_tunnels (\<lambda>t. tn_ID t = tid) (apply_request req) db)"
  using assms by (auto simp: UpdateTunnel_commit_def Let_def split: if_splits)

lemma apply_request_ports [simp]:
  "tn_IngressGroupID (apply_request req t) = rq_IngressGroupID req" "tn_ListenPort (apply_request req t) = rq_ListenPort req"
  by (simp_all add: apply_request_def Let_def)

lemma update_snd: "UpdateTunnel_checks w tid req db = None \<Longrightarrow> snd (UpdateTunnel w tid req db) = snd (UpdateTunnel_commit w tid req db)"
  by (auto simp: UpdateTunnel_def split: prod.split option.split)

lemma update_cases:
  obtains "snd (UpdateTunnel works tid req db) = db"
  | t where "find_tunnel tid db = Some t"
    "rq_ListenPort req = tn_ListenPort t \<or>
       checkPortConflict works (if rq_IngressGroupID req = [] then tn_IngressGroupID t else rq_IngressGroupID req)
         (rq_ListenPort req) tid db = None"
    "td_tunnels (snd (UpdateTunnel works tid req db)) = td_tunnels (update_tunnels (\<lambda>t. tn_ID t = tid) (apply_request req) db)"
proof (cases "UpdateTunnel_checks works tid req db")
  case None
  show ?thesis
  proof (cases "fst (UpdateTunnel_commit works tid req db)")
    case None1: None
    obtain t where "find_tunnel tid db = Some t" using None by (cases "find_tunnel tid db") (simp_all add: UpdateTunnel_checks_def split: if_splits)
    moreover have "rq_ListenPort req = tn_ListenPort t \<or>
       checkPortConflict works (if rq_IngressGroupID req = [] then tn_IngressGroupID t else rq_IngressGroupID req)
         (rq_ListenPort req) tid db = None"
      using None \<open>find_tunnel tid db = Some t\<close> unfolding UpdateTunnel_checks_def by (simp split: if_splits)
    moreover have "snd (UpdateTunnel works tid req db) = snd (UpdateTunnel_commit works tid req db)"
      by (rule update_snd [OF None])
    ultimately show ?thesis by (intro that(2)) (simp_all only: update_commit_tunnels [OF None1])
  next
    case (Some e)
    then have "snd (UpdateTunnel_commit works tid req db) = db" by (auto simp: UpdateTunnel_commit_def Let_def split: if_splits)
    then show ?thesis by (intro that(1)) (simp add: update_snd [OF None])
  qed
qed (intro that(1), simp add: UpdateTunnel_def)

lemma update_ports_ok:
  assumes ok: "ports_ok db"
    and same: "\<And>t. find_tunnel tid db = Some t \<Longrightarrow> rq_IngressGroupID req = tn_IngressGroupID t"
  shows "ports_ok (snd (UpdateTunnel works tid req db))"
proof (cases rule: update_cases [of works tid req db])
  case (2 t)
  define db' where "db' = snd (UpdateTunnel works tid req db)"
  have tuns: "td_tunnels db' = td_tunnels (update_tunnels (\<lambda>t. tn_ID t = tid) (apply_request req) db)" by (simp add: db'_def 2(3))
  have live': "live (td_tunnels db') = map (\<lambda>t. if tn_ID t = tid then apply_request req t else t) (live (td_tunnels db))"
    unfolding tuns by (rule live_update) simp
  have t_in: "t \<in> set (live (td_tunnels db))" "tn_ID t = tid" using find_live [OF 2(1)] by auto
  have only: "v = t" if "v \<in> set (live (td_tunnels db))" "tn_ID v = tid" for v
    using live_same [OF ports_okD(1) [OF ok] that(1) t_in(1)] that(2) t_in(2) by simp
  have clear: "\<not> port_taken_by (apply_request req t) v \<and> \<not> port_taken_by v (apply_request req t)"
    if v: "v \<in> set (live (td_tunnels db))" "tn_ID v \<noteq> tid" for v
    using 2(2)
  proof
    assume "rq_ListenPort req = tn_ListenPort t"
    then have "port_taken_by (apply_request req t) v = port_taken_by t v" "port_taken_by v (apply_request req t) = port_taken_by v t"
      using same [OF 2(1)] by (simp_all add: port_taken_by_def)
    then show ?thesis using ports_okD(3) [OF ok v(1) t_in(1)] ports_okD(3) [OF ok t_in(1) v(1)] v(2) t_in(2) by metis
  next
    assume "checkPortConflict works (if rq_IngressGroupID req = [] then tn_IngressGroupID t else rq_IngressGroupID req)
         (rq_ListenPort req) tid db = None"
    then have "checkPortConflict works (tn_IngressGroupID (apply_request req t)) (tn_ListenPort (apply_request req t)) tid db = None"
      using same [OF 2(1)] by (simp split: if_splits)
    then show ?thesis by (rule check_not_taken) (use v in simp_all)
  qed
  have img: "c \<in> set (live (td_tunnels db)) \<and> tn_ID c \<noteq> tid \<or> c = apply_request req t"
    if "c \<in> set (live (td_tunnels db'))" for c
    using that only unfolding live' by (auto split: if_splits)
  have "ports_ok db'"
  proof (rule ports_okI)
    fix a b assume "a \<in> set (live (td_tunnels db'))" "b \<in> set (live (td_tunnels db'))" "port_taken_by a b"
    then show "tn_ID a = tn_ID b" using img [of a] img [of b] clear ports_okD(3) [OF ok, of a b] by blast
  next
    fix a assume "a \<in> set (live (td_tunnels db'))"
    then show "tn_ID a \<noteq> []" using img [of a] ports_okD(2) [OF ok] t_in(1) by (metis apply_request_same(2))
  next
    have "map tn_ID (td_tunnels db') = map tn_ID (td_tunnels db)" unfolding tuns by (rule update_tunnels_IDs) simp
    then show "distinct (map tn_ID (td_tunnels db'))" using ports_okD(1) [OF ok] by simp
  qed
  then show ?thesis by (simp only: db'_def)
qed (simp add: ok)

text \<open>
  The runs in which no update moves a tunnel to another ingress group, no tunnel is enabled again, and the checks of an
  operation are not separated from its transaction.
\<close>

inductive calm_run :: "tunnel_db \<Rightarrow> bool" where
  ca_empty: "calm_run \<lparr> td_tunnels = [], td_rules = [], td_targets = g, td_acls = a \<rparr>"
| ca_create: "calm_run db \<Longrightarrow> i \<noteq> [] \<Longrightarrow> calm_run (snd (CreateTunnel works i j now req u db))"
| ca_update: "calm_run db \<Longrightarrow> (\<And>t. find_tunnel tid db = Some t \<Longrightarrow> rq_IngressGroupID req = tn_IngressGroupID t) \<Longrightarrow>
    calm_run (snd (UpdateTunnel works tid req db))"
| ca_delete: "calm_run db \<Longrightarrow> calm_run (snd (DeleteTunnel works now tid db))"
| ca_disable: "calm_run db \<Longrightarrow> calm_run (snd (ToggleTunnel works tid False db))"
| ca_traffic: "calm_run db \<Longrightarrow> calm_run (snd (UpdateTraffic works now tid x y db))"

lemma delete_ports_ok: "ports_ok db \<Longrightarrow> ports_ok (snd (DeleteTunnel works now tid db))"
  by (cases rule: delete_parts [of works now tid db]) (simp, rule ports_changed, auto)

lemma calm_run_ok: "calm_run db \<Longrightarrow> ports_ok db"
proof (induction rule: calm_run.induct)
  case (ca_empty g a) show ?case by (simp add: ports_ok_def live_def)
next
  case (ca_disable db works tid)
  show ?case
  proof (cases "works Q_toggle \<and> works Q_commit")
    case True
    then have "td_tunnels (snd (ToggleTunnel works tid False db)) =
        td_tunnels (update_tunnels (\<lambda>t. tn_ID t = tid) (\<lambda>t. t\<lparr> tn_Enabled := False \<rparr>) db)"
      by (simp add: ToggleTunnel_def Let_def)
    then show ?thesis
      by (intro ports_changed [OF ca_disable.IH]) (auto simp: live_update update_tunnels_IDs split: if_splits)
  qed (use ca_disable.IH in \<open>auto simp: ToggleTunnel_def\<close>)
next
  case (ca_traffic db works now tid x y)
  show ?case
  proof (cases "works Q_traffic")
    case True
    then show ?thesis
      by (intro ports_changed [OF ca_traffic.IH]) (auto simp: UpdateTraffic_def live_update update_tunnels_IDs split: if_splits)
  qed (use ca_traffic.IH in \<open>simp add: UpdateTraffic_def\<close>)
next
  case (ca_create db i works j now req u) then show ?case by (intro create_ports_ok)
next
  case (ca_update db tid req works) then show ?case by (intro update_ports_ok)
next
  case (ca_delete db works now tid) then show ?case by (intro delete_ports_ok)
qed

text \<open>
  As long as updates keep the ingress group, nothing is enabled again and operations do not overlap, two enabled
  tunnels with the same ingress group and the same listening port are the same tunnel.
\<close>

theorem enabled_ports_distinct:
  assumes "calm_run db" "t \<in> set (live (td_tunnels db))" "u \<in> set (live (td_tunnels db))"
    "tn_Enabled t" "tn_Enabled u" "tn_IngressGroupID t \<noteq> []" "tn_IngressGroupID u = tn_IngressGroupID t"
    "tn_ListenPort u = tn_ListenPort t"
  shows "u = t"
proof -
  have ok: "ports_ok db" by (rule calm_run_ok [OF assms(1)])
  have "port_taken_by t u" using assms(4-8) by (simp add: port_taken_by_def)
  from ports_okD(3) [OF ok assms(2,3) this] live_same [OF ports_okD(1) [OF ok] assms(3,2)] show ?thesis by simp
qed

lemma demo_created:
  "td_tunnels (snd (CreateTunnel (\<lambda>_. True) ''t'' ''r'' 0 demo_request ''u'' no_tunnels)) = [new_tunnel ''t'' 0 ''u'' demo_request]"
  by (simp add: CreateTunnel_def CreateTunnel_checks_def validate_request_def checkPortConflict_def CreateTunnel_commit_def
      no_tunnels_def demo_request_def live_def Let_def)

theorem enabled_ports_distinct_witness:
  "\<exists>!t. t \<in> set (live (td_tunnels (snd (CreateTunnel (\<lambda>_. True) ''t'' ''r'' 0 demo_request ''u'' no_tunnels)))) \<and>
     tn_Enabled t \<and> tn_IngressGroupID t = ''g'' \<and> tn_ListenPort t = 80"
proof (rule ex1I)
  let ?t = "new_tunnel ''t'' 0 ''u'' demo_request"
  have run: "calm_run (snd (CreateTunnel (\<lambda>_. True) ''t'' ''r'' 0 demo_request ''u'' no_tunnels))"
    unfolding no_tunnels_def by (intro ca_create ca_empty) simp
  show t: "?t \<in> set (live (td_tunnels (snd (CreateTunnel (\<lambda>_. True) ''t'' ''r'' 0 demo_request ''u'' no_tunnels)))) \<and>
     tn_Enabled ?t \<and> tn_IngressGroupID ?t = ''g'' \<and> tn_ListenPort ?t = 80"
    by (simp add: demo_created) (simp add: demo_request_def)
  fix u assume "u \<in> set (live (td_tunnels (snd (CreateTunnel (\<lambda>_. True) ''t'' ''r'' 0 demo_request ''u'' no_tunnels)))) \<and>
     tn_Enabled u \<and> tn_IngressGroupID u = ''g'' \<and> tn_ListenPort u = 80"
  then show "u = ?t" using t by (intro enabled_ports_distinct [OF run]) simp_all
qed

section \<open>Where the checks miss a conflict\<close>

definition works_all :: "tunnel_call \<Rightarrow> bool" where
  "works_all q = True"

definition clash :: "tunnel_db \<Rightarrow> bool" where
  "clash db \<longleftrightarrow> (\<exists>t \<in> set (live (td_tunnels db)). \<exists>u \<in> set (live (td_tunnels db)). tn_ID t \<noteq> tn_ID u \<and> port_taken_by t u)"

text \<open>\<open>UpdateTunnel\<close> checks the port only when the port changes; a move to a group where it is taken passes.\<close>

theorem group_move_conflict:
  assumes "find_tunnel tid db = Some t" "u \<in> set (live (td_tunnels db))" "tn_ID u \<noteq> tid" "tn_Enabled t" "tn_Enabled u"
    "tn_IngressGroupID u \<noteq> []" "tn_ListenPort u = tn_ListenPort t"
    "rq_Name req = tn_Name t" "rq_ListenPort req = tn_ListenPort t" "rq_IngressGroupID req = tn_IngressGroupID u"
  shows "UpdateTunnel_checks works_all tid req db = None \<and> clash (snd (UpdateTunnel works_all tid req db))"
proof -
  have chk: "UpdateTunnel_checks works_all tid req db = None" using assms(1,8,9) by (simp add: UpdateTunnel_checks_def works_all_def)
  define db' where "db' = snd (UpdateTunnel works_all tid req db)"
  have none: "fst (UpdateTunnel_commit works_all tid req db) = None" by (simp add: UpdateTunnel_commit_def works_all_def Let_def)
  have "snd (UpdateTunnel works_all tid req db) = snd (UpdateTunnel_commit works_all tid req db)"
    by (rule update_snd [OF chk])
  then have live': "live (td_tunnels db') = map (\<lambda>t. if tn_ID t = tid then apply_request req t else t) (live (td_tunnels db))"
    unfolding db'_def by (simp only: update_commit_tunnels [OF none]) (rule live_update, simp)
  have "apply_request req t \<in> set (live (td_tunnels db'))" "u \<in> set (live (td_tunnels db'))"
    using find_live [OF assms(1)] assms(2,3) unfolding live' by (auto simp: image_def)
  moreover have "port_taken_by (apply_request req t) u" using assms(4-7,9,10) by (simp add: port_taken_by_def)
  moreover have "tn_ID (apply_request req t) \<noteq> tn_ID u" using find_live [OF assms(1)] assms(3) by simp
  ultimately show ?thesis using chk unfolding db'_def clash_def by blast
qed

text \<open>Enabling a tunnel does not look at the port that another tunnel took meanwhile.\<close>

theorem reenable_conflict:
  assumes "find_tunnel tid db = Some t" "u \<in> set (live (td_tunnels db))" "tn_ID u \<noteq> tid" "tn_Enabled u"
    "tn_IngressGroupID u \<noteq> []" "tn_IngressGroupID t = tn_IngressGroupID u" "tn_ListenPort u = tn_ListenPort t"
  shows "fst (ToggleTunnel works_all tid True db) = None \<and> clash (snd (ToggleTunnel works_all tid True db))"
proof -
  let ?f = "\<lambda>t. t\<lparr> tn_Enabled := True \<rparr>"
  have live': "live (td_tunnels (snd (ToggleTunnel works_all tid True db))) =
      map (\<lambda>t. if tn_ID t = tid then ?f t else t) (live (td_tunnels db))"
    by (simp add: ToggleTunnel_def works_all_def Let_def live_update)
  have "?f t \<in> set (live (td_tunnels (snd (ToggleTunnel works_all tid True db))))"
    "u \<in> set (live (td_tunnels (snd (ToggleTunnel works_all tid True db))))"
    using find_live [OF assms(1)] assms(2,3) unfolding live' by (auto simp: image_def)
  moreover have "port_taken_by (?f t) u" using assms(4-7) by (simp add: port_taken_by_def)
  moreover have "tn_ID (?f t) \<noteq> tn_ID u" using find_live [OF assms(1)] assms(3) by simp
  ultimately have "clash (snd (ToggleTunnel works_all tid True db))" unfolding clash_def by blast
  then show ?thesis by (simp add: ToggleTunnel_def works_all_def Let_def)
qed

text \<open>The checks are outside the transaction: of two overlapping creations both pass them.\<close>

theorem overlapping_creations_conflict:
  "CreateTunnel_checks works_all demo_request no_tunnels = None \<and>
   CreateTunnel_checks works_all (demo_request\<lparr> rq_Name := ''x'' \<rparr>) no_tunnels = None \<and>
   clash (snd (CreateTunnel_commit works_all ''b'' ''s'' 0 ''u'' (demo_request\<lparr> rq_Name := ''x'' \<rparr>)
           (snd (CreateTunnel_commit works_all ''a'' ''r'' 0 ''u'' demo_request no_tunnels))))"
  by code_simp

text \<open>An update is not validated, and changes the protocols of the tunnel but not those of its rules.\<close>

theorem update_unvalidated:
  fixes db1 req
  defines "req \<equiv> demo_request\<lparr> rq_Name := [], rq_ListenPort := 0, rq_Protocol := ''udp'' \<rparr>"
  defines "db1 \<equiv> snd (UpdateTunnel works_all ''a'' req (snd (CreateTunnel works_all ''a'' ''r'' 0 demo_request ''u'' no_tunnels)))"
  shows "validate_request req \<noteq> None \<and>
    map (\<lambda>t. (tn_Name t, tn_ListenPort t, tn_Protocol t, tn_IngressProtocol t)) (td_tunnels db1) = [([], 0, ''udp'', [])] \<and>
    map (\<lambda>r. (tr_ListenPort r, tr_Protocol r, tr_IngressProtocol r)) (td_rules db1) = [(0, ''tcp'', ''tcp'')]"
  unfolding db1_def req_def by code_simp

text \<open>Traffic is booked on deleted or unknown tunnels without an error, and negative amounts take traffic back.\<close>

theorem traffic_unchecked:
  assumes "find_tunnel tid db = None" "works Q_traffic"
  shows "fst (UpdateTraffic works now tid x y db) = None \<and> live (td_tunnels (snd (UpdateTraffic works now tid x y db))) = live (td_tunnels db)"
proof -
  have "tn_ID t \<noteq> tid" if "t \<in> set (live (td_tunnels db))" for t
    using that assms(1) by (auto simp: find_tunnel_def find_None_iff)
  then show ?thesis using assms(2) by (auto simp: UpdateTraffic_def live_update intro!: map_idI)
qed

end
