(* ===== verification/Users.thy ===== *)
theory Users
  imports Prelude
begin

text \<open>
  The user service of the control plane, \<open>plane/internal/service/user_gorm.go\<close>: checks of names, addresses and passwords,
  registration with the first user as administrator, log-in, password, status and role changes, deletion. Tables are
  lists of rows, marked when deleted; whether a database call succeeds is the argument \<open>works\<close>. The hash function bcrypt,
  outside the repository, is an argument with the law that a password matches its own hash; so is the table of Unicode
  letters beyond ASCII. Columns are compared exactly. Fields of a user that the service neither reads nor sets are left out.
\<close>

section \<open>Characters\<close>

definition ch :: "char \<Rightarrow> nat" where
  "ch c = of_char c"

definition ascii_upper :: "nat \<Rightarrow> bool" where
  "ascii_upper n \<longleftrightarrow> 65 \<le> n \<and> n \<le> 90"

definition ascii_lower :: "nat \<Rightarrow> bool" where
  "ascii_lower n \<longleftrightarrow> 97 \<le> n \<and> n \<le> 122"

definition ascii_digit :: "nat \<Rightarrow> bool" where
  "ascii_digit n \<longleftrightarrow> 48 \<le> n \<and> n \<le> 57"

definition ascii_letter :: "nat \<Rightarrow> bool" where
  "ascii_letter n \<longleftrightarrow> ascii_upper n \<or> ascii_lower n"

definition to_lower :: "string \<Rightarrow> string" where
  "to_lower s = map (\<lambda>c. if ascii_upper (ch c) then char_of (ch c + 32) else c) s"

text \<open>
  Ranging over a string decodes UTF-8: a continuation byte is between 128 and 191; what is not well-formed, or is too long
  an encoding, a surrogate or too large, yields the replacement character and skips one byte.
\<close>

definition cont :: "nat \<Rightarrow> bool" where
  "cont n \<longleftrightarrow> 128 \<le> n \<and> n < 192"

definition bad_rune :: nat where
  "bad_rune = 0xFFFD"

function runes :: "nat list \<Rightarrow> nat list" where
  "runes [] = []"
| "runes (a # s) =
     (if a < 128 then a # runes s
      else case s of
        [] \<Rightarrow> [bad_rune]
      | b # s1 \<Rightarrow>
          if 194 \<le> a \<and> a < 224 \<and> cont b then ((a - 192) * 64 + (b - 128)) # runes s1
          else case s1 of
            [] \<Rightarrow> bad_rune # runes s
          | d # s2 \<Rightarrow>
              if 224 \<le> a \<and> a < 240 \<and> cont b \<and> cont d \<and> (a = 224 \<longrightarrow> 160 \<le> b) \<and> (a = 237 \<longrightarrow> b < 160)
              then ((a - 224) * 4096 + (b - 128) * 64 + (d - 128)) # runes s2
              else case s2 of
                [] \<Rightarrow> bad_rune # runes s
              | e # s3 \<Rightarrow>
                  if 240 \<le> a \<and> a < 245 \<and> cont b \<and> cont d \<and> cont e \<and> (a = 240 \<longrightarrow> 144 \<le> b) \<and> (a = 244 \<longrightarrow> b < 144)
                  then ((a - 240) * 262144 + (b - 128) * 4096 + (d - 128) * 64 + (e - 128)) # runes s3
                  else bad_rune # runes s)"
  by pat_completeness auto
termination
  by (relation "measure length") (auto simp: less_Suc_eq)

text \<open>The class Unicode gives a letter beyond ASCII.\<close>

datatype rune_class = Upper | Lower | Digit | Neither

definition classify :: "(nat \<Rightarrow> rune_class) \<Rightarrow> nat \<Rightarrow> rune_class" where
  "classify unicode n =
     (if n < 128 then (if ascii_upper n then Upper else if ascii_lower n then Lower else if ascii_digit n then Digit else Neither)
      else unicode n)"

section \<open>Checks of input\<close>

datatype user_error =
    UE_username | UE_reserved | UE_email | UE_disposable | UE_password_short | UE_password_long
  | UE_no_upper | UE_no_lower | UE_no_digit | UE_unavailable | UE_name_taken | UE_email_taken | UE_hash | UE_db
  | UE_credentials | UE_disabled | UE_unknown | UE_old_password | UE_self | UE_role

definition ValidatePasswordStrength :: "(nat \<Rightarrow> rune_class) \<Rightarrow> string \<Rightarrow> user_error option" where
  "ValidatePasswordStrength unicode password =
     (if length password < 8 then Some UE_password_short
      else if length password > 72 then Some UE_password_long
      else (let cs = map (classify unicode) (runes (map ch password)) in
            if Upper \<notin> set cs then Some UE_no_upper
            else if Lower \<notin> set cs then Some UE_no_lower
            else if Digit \<notin> set cs then Some UE_no_digit
            else None))"

definition username_char :: "char \<Rightarrow> bool" where
  "username_char c \<longleftrightarrow> ascii_letter (ch c) \<or> ascii_digit (ch c) \<or> c = CHR ''_'' \<or> c = CHR ''-''"

definition reserved_names :: "string list" where
  "reserved_names = [''admin'', ''root'', ''system'', ''api'', ''www'', ''mail'', ''support'']"

definition ValidateUsername :: "string \<Rightarrow> user_error option" where
  "ValidateUsername username =
     (if \<not> (list_all username_char username \<and> 3 \<le> length username \<and> length username \<le> 32) then Some UE_username
      else if to_lower username \<in> set reserved_names then Some UE_reserved
      else None)"

text \<open>The regular expression of addresses: both of its classes exclude \<open>@\<close>, and the last class excludes dots.\<close>

definition local_char :: "char \<Rightarrow> bool" where
  "local_char c \<longleftrightarrow> ascii_letter (ch c) \<or> ascii_digit (ch c) \<or> c \<in> set ''._%+-''"

definition domain_char :: "char \<Rightarrow> bool" where
  "domain_char c \<longleftrightarrow> ascii_letter (ch c) \<or> ascii_digit (ch c) \<or> c \<in> set ''.-''"

definition email_domain :: "string \<Rightarrow> string" where
  "email_domain email = drop 1 (dropWhile (\<lambda>c. c \<noteq> CHR ''@'') email)"

definition email_matches :: "string \<Rightarrow> bool" where
  "email_matches email \<longleftrightarrow>
     (let localpart = takeWhile (\<lambda>c. c \<noteq> CHR ''@'') email; domain = email_domain email;
          top = rev (takeWhile (\<lambda>c. c \<noteq> CHR ''.'') (rev domain))
      in localpart \<noteq> [] \<and> list_all local_char localpart \<and> CHR ''@'' \<in> set email \<and>
         list_all domain_char domain \<and> list_all (\<lambda>c. ascii_letter (ch c)) top \<and> 2 \<le> length top \<and>
         length top + 2 \<le> length domain)"

definition disposableEmailDomains :: "string list" where
  "disposableEmailDomains =
     [''tempmail.com'', ''throwaway.email'', ''guerrillamail.com'', ''mailinator.com'', ''yopmail.com'', ''10minutemail.com'',
      ''trashmail.com'', ''fakeinbox.com'', ''sharklasers.com'', ''grr.la'', ''guerrillamailblock.com'', ''dispostable.com'']"

definition ValidateEmail :: "string \<Rightarrow> user_error option" where
  "ValidateEmail email =
     (if \<not> email_matches email then Some UE_email
      else if to_lower (email_domain email) \<in> set disposableEmailDomains then Some UE_disposable
      else None)"

section \<open>Tables\<close>

record bcrypt =
  bc_Generate :: "string \<Rightarrow> string \<Rightarrow> string option"
  bc_Compare :: "string \<Rightarrow> string \<Rightarrow> bool"

text \<open>The law of bcrypt: a password matches what \<open>GenerateFromPassword\<close> made of it, whatever the salt.\<close>

definition bcrypt_law :: "bcrypt \<Rightarrow> bool" where
  "bcrypt_law bc \<longleftrightarrow> (\<forall>salt pw h. bc_Generate bc salt pw = Some h \<longrightarrow> bc_Compare bc h pw)"

definition CheckPassword :: "bcrypt \<Rightarrow> string \<Rightarrow> string \<Rightarrow> bool" where
  "CheckPassword bc hashed password = bc_Compare bc hashed password"

record user_row =
  us_ID :: string
  us_CreatedAt :: int
  us_DeletedAt :: "int option"
  us_Username :: string
  us_Email :: string
  us_Password :: string
  us_Role :: string
  us_Enabled :: bool
  us_LastLogin :: "int option"

record wallet_row =
  wl_ID :: string
  wl_UserID :: string
  wl_DeletedAt :: "int option"

text \<open>Of notifications, subscriptions and transactions the owner and the mark.\<close>

record owned_row =
  ow_Owner :: string
  ow_DeletedAt :: "int option"

record user_db =
  ud_users :: "user_row list"
  ud_wallets :: "wallet_row list"
  ud_notifications :: "owned_row list"
  ud_subscriptions :: "owned_row list"
  ud_transactions :: "owned_row list"

datatype user_call =
    UQ_name | UQ_email | UQ_count | UQ_create_user | UQ_create_wallet | UQ_commit | UQ_find | UQ_login | UQ_get | UQ_list
  | UQ_password | UQ_status | UQ_role | UQ_notifications | UQ_subscriptions | UQ_transactions | UQ_wallets | UQ_delete

definition live_users :: "user_db \<Rightarrow> user_row list" where
  "live_users db = filter (\<lambda>u. us_DeletedAt u = None) (ud_users db)"

definition update_user :: "string \<Rightarrow> (user_row \<Rightarrow> user_row) \<Rightarrow> user_db \<Rightarrow> user_db" where
  "update_user uid f db =
     db\<lparr> ud_users := map (\<lambda>u. if us_DeletedAt u = None \<and> us_ID u = uid then f u else u) (ud_users db) \<rparr>"

section \<open>Registration\<close>

record register_request =
  rr_Username :: string
  rr_Password :: string
  rr_Email :: string

definition register_checks ::
    "(nat \<Rightarrow> rune_class) \<Rightarrow> (user_call \<Rightarrow> bool) \<Rightarrow> register_request \<Rightarrow> user_db \<Rightarrow> user_error option" where
  "register_checks unicode works req db =
     (case ValidateUsername (rr_Username req) of Some e \<Rightarrow> Some e | None \<Rightarrow>
      case ValidateEmail (rr_Email req) of Some e \<Rightarrow> Some e | None \<Rightarrow>
      case ValidatePasswordStrength unicode (rr_Password req) of Some e \<Rightarrow> Some e | None \<Rightarrow>
      if \<not> works UQ_name then Some UE_unavailable
      else if \<exists>u \<in> set (live_users db). us_Username u = rr_Username req then Some UE_name_taken
      else if \<not> works UQ_email then Some UE_unavailable
      else if \<exists>u \<in> set (live_users db). us_Email u = rr_Email req then Some UE_email_taken
      else None)"

text \<open>The error of the count is not looked at: the number stays zero.\<close>

definition is_first_user :: "(user_call \<Rightarrow> bool) \<Rightarrow> user_db \<Rightarrow> bool" where
  "is_first_user works db \<longleftrightarrow> (if works UQ_count then int (length (live_users db)) else 0) = 0"

text \<open>
  The transaction. The keys, the names and addresses of users and the owners of wallets are unique in the tables, deleted
  rows included.
\<close>

definition register_commit ::
    "(user_call \<Rightarrow> bool) \<Rightarrow> string \<Rightarrow> string \<Rightarrow> user_row \<Rightarrow> user_db \<Rightarrow> user_error option \<times> user_db" where
  "register_commit works newID walletID user db =
     (if \<not> works UQ_create_user \<or> newID \<in> us_ID ` set (ud_users db) \<or> us_Username user \<in> us_Username ` set (ud_users db) \<or>
         us_Email user \<in> us_Email ` set (ud_users db)
      then (Some UE_db, db)
      else if \<not> works UQ_create_wallet \<or> walletID \<in> wl_ID ` set (ud_wallets db) \<or> newID \<in> wl_UserID ` set (ud_wallets db)
      then (Some UE_db, db)
      else if \<not> works UQ_commit then (Some UE_db, db)
      else (None, db\<lparr> ud_users := ud_users db @ [user],
                     ud_wallets := ud_wallets db @ [\<lparr> wl_ID = walletID, wl_UserID = newID, wl_DeletedAt = None \<rparr>] \<rparr>))"

definition Register ::
    "bcrypt \<Rightarrow> (nat \<Rightarrow> rune_class) \<Rightarrow> (user_call \<Rightarrow> bool) \<Rightarrow> string \<Rightarrow> string \<Rightarrow> string \<Rightarrow> int \<Rightarrow> register_request \<Rightarrow> user_db
       \<Rightarrow> (user_error + user_row \<times> bool) \<times> user_db" where
  "Register bc unicode works salt newID walletID now req db =
     (case register_checks unicode works req db of
        Some e \<Rightarrow> (Inl e, db)
      | None \<Rightarrow>
          (let isFirstUser = is_first_user works db in
           case bc_Generate bc salt (rr_Password req) of
             None \<Rightarrow> (Inl UE_hash, db)
           | Some hashedPwd \<Rightarrow>
               (let user = \<lparr> us_ID = newID, us_CreatedAt = now, us_DeletedAt = None, us_Username = rr_Username req,
                             us_Email = rr_Email req, us_Password = hashedPwd,
                             us_Role = (if isFirstUser then ''admin'' else ''user''), us_Enabled = True, us_LastLogin = None \<rparr>
                in case register_commit works newID walletID user db of
                     (Some e, db) \<Rightarrow> (Inl e, db)
                   | (None, db) \<Rightarrow> (Inr (user, isFirstUser), db))))"

section \<open>Log-in and changes\<close>

definition Authenticate ::
    "bcrypt \<Rightarrow> (user_call \<Rightarrow> bool) \<Rightarrow> int \<Rightarrow> string \<Rightarrow> string \<Rightarrow> user_db \<Rightarrow> (user_error + user_row) \<times> user_db" where
  "Authenticate bc works now username password db =
     (case (if works UQ_find then find (\<lambda>u. us_Username u = username) (live_users db) else None) of
        None \<Rightarrow> (Inl UE_credentials, db)
      | Some user \<Rightarrow>
          if \<not> us_Enabled user then (Inl UE_disabled, db)
          else if \<not> CheckPassword bc (us_Password user) password then (Inl UE_credentials, db)
          else (Inr (user\<lparr> us_LastLogin := Some now \<rparr>),
                if works UQ_login then update_user (us_ID user) (\<lambda>u. u\<lparr> us_LastLogin := Some now \<rparr>) db else db))"

definition GetUser :: "(user_call \<Rightarrow> bool) \<Rightarrow> string \<Rightarrow> user_db \<Rightarrow> user_error + user_row" where
  "GetUser works uid db =
     (if \<not> works UQ_get then Inl UE_db
      else case find (\<lambda>u. us_ID u = uid) (live_users db) of None \<Rightarrow> Inl UE_unknown | Some u \<Rightarrow> Inr u)"

text \<open>A negative limit is no limit.\<close>

definition ListUsers ::
    "(user_call \<Rightarrow> bool) \<Rightarrow> int \<Rightarrow> int \<Rightarrow> string \<Rightarrow> user_db \<Rightarrow> (user_row list \<times> int) option" where
  "ListUsers works page pageSize roleFilter db =
     (let rows = filter (\<lambda>u. roleFilter = [] \<or> us_Role u = roleFilter) (live_users db);
          offset = (page - 1) * pageSize;
          sorted = drop (nat offset) (sort_key (\<lambda>u. - us_CreatedAt u) rows)
      in if \<not> works UQ_list then None
         else Some (if pageSize < 0 then sorted else take (nat pageSize) sorted, if works UQ_count then int (length rows) else 0))"

definition UpdatePassword ::
    "bcrypt \<Rightarrow> (nat \<Rightarrow> rune_class) \<Rightarrow> (user_call \<Rightarrow> bool) \<Rightarrow> string \<Rightarrow> string \<Rightarrow> string \<Rightarrow> string \<Rightarrow> user_db \<Rightarrow> user_error option \<times> user_db" where
  "UpdatePassword bc unicode works salt userID oldPassword newPassword db =
     (case GetUser works userID db of
        Inl e \<Rightarrow> (Some e, db)
      | Inr user \<Rightarrow>
          if \<not> CheckPassword bc (us_Password user) oldPassword then (Some UE_old_password, db)
          else (case ValidatePasswordStrength unicode newPassword of
                  Some e \<Rightarrow> (Some e, db)
                | None \<Rightarrow> (case bc_Generate bc salt newPassword of
                             None \<Rightarrow> (Some UE_hash, db)
                           | Some hashedPwd \<Rightarrow>
                               if \<not> works UQ_password then (Some UE_db, db)
                               else (None, update_user (us_ID user) (\<lambda>u. u\<lparr> us_Password := hashedPwd \<rparr>) db))))"

definition ToggleUserStatus :: "(user_call \<Rightarrow> bool) \<Rightarrow> string \<Rightarrow> string \<Rightarrow> user_db \<Rightarrow> (user_error + bool) \<times> user_db" where
  "ToggleUserStatus works targetID operatorID db =
     (if targetID = operatorID then (Inl UE_self, db)
      else case GetUser works targetID db of
             Inl e \<Rightarrow> (Inl e, db)
           | Inr user \<Rightarrow>
               (let newStatus = \<not> us_Enabled user in
                if \<not> works UQ_status then (Inl UE_db, db)
                else (Inr newStatus, update_user (us_ID user) (\<lambda>u. u\<lparr> us_Enabled := newStatus \<rparr>) db)))"

definition UpdateUserRole :: "(user_call \<Rightarrow> bool) \<Rightarrow> string \<Rightarrow> string \<Rightarrow> string \<Rightarrow> user_db \<Rightarrow> user_error option \<times> user_db" where
  "UpdateUserRole works targetID operatorID newRole db =
     (if targetID = operatorID then (Some UE_self, db)
      else if newRole \<noteq> ''admin'' \<and> newRole \<noteq> ''user'' then (Some UE_role, db)
      else case GetUser works targetID db of
             Inl e \<Rightarrow> (Some e, db)
           | Inr user \<Rightarrow>
               if \<not> works UQ_role then (Some UE_db, db)
               else (None, update_user (us_ID user) (\<lambda>u. u\<lparr> us_Role := newRole \<rparr>) db))"

definition mark_owned :: "bool \<Rightarrow> int \<Rightarrow> string set \<Rightarrow> owned_row list \<Rightarrow> owned_row list" where
  "mark_owned ok now owners rows =
     (if ok then map (\<lambda>r. if ow_DeletedAt r = None \<and> ow_Owner r \<in> owners then r\<lparr> ow_DeletedAt := Some now \<rparr> else r) rows
      else rows)"

text \<open>The errors of the first four deletions are not looked at.\<close>

definition DeleteUser :: "(user_call \<Rightarrow> bool) \<Rightarrow> int \<Rightarrow> string \<Rightarrow> string \<Rightarrow> user_db \<Rightarrow> user_error option \<times> user_db" where
  "DeleteUser works now targetID operatorID db =
     (if targetID = operatorID then (Some UE_self, db)
      else case GetUser works targetID db of
             Inl e \<Rightarrow> (Some e, db)
           | Inr _ \<Rightarrow>
               (let wallets = wl_ID ` set (filter (\<lambda>w. wl_DeletedAt w = None \<and> wl_UserID w = targetID) (ud_wallets db));
                    db1 = db\<lparr> ud_notifications := mark_owned (works UQ_notifications) now {targetID} (ud_notifications db),
                              ud_subscriptions := mark_owned (works UQ_subscriptions) now {targetID} (ud_subscriptions db),
                              ud_transactions := mark_owned (works UQ_transactions) now wallets (ud_transactions db),
                              ud_wallets := (if works UQ_wallets
                                then map (\<lambda>w. if wl_DeletedAt w = None \<and> wl_UserID w = targetID then w\<lparr> wl_DeletedAt := Some now \<rparr> else w)
                                       (ud_wallets db)
                                else ud_wallets db) \<rparr>
                in if \<not> works UQ_delete \<or> \<not> works UQ_commit then (Some UE_db, db)
                   else (None, update_user targetID (\<lambda>u. u\<lparr> us_DeletedAt := Some now \<rparr>) db1)))"

definition UpdateLastLogin :: "(user_call \<Rightarrow> bool) \<Rightarrow> int \<Rightarrow> string \<Rightarrow> user_db \<Rightarrow> user_db" where
  "UpdateLastLogin works now userID db =
     (if works UQ_login then update_user userID (\<lambda>u. u\<lparr> us_LastLogin := Some now \<rparr>) db else db)"

definition GetUserCount :: "(user_call \<Rightarrow> bool) \<Rightarrow> user_db \<Rightarrow> int option" where
  "GetUserCount works db = (if works UQ_count then Some (int (length (live_users db))) else None)"

section \<open>Runs\<close>

definition is_admin :: "user_db \<Rightarrow> string \<Rightarrow> bool" where
  "is_admin db uid \<longleftrightarrow> (\<exists>u \<in> set (live_users db). us_ID u = uid \<and> us_Role u = ''admin'' \<and> us_Enabled u)"

text \<open>
  A step changes none of the accounts in \<open>X\<close> other than by logging in; whoever changes the status, the role or the
  existence of an account is an enabled administrator at that moment.
\<close>

inductive user_step :: "string set \<Rightarrow> user_db \<Rightarrow> user_db \<Rightarrow> bool" for X where
  st_register: "user_step X db (snd (Register bc unicode works salt newID walletID now req db))"
| st_login: "user_step X db (snd (Authenticate bc works now username password db))"
| st_seen: "user_step X db (UpdateLastLogin works now uid db)"
| st_password: "uid \<notin> X \<Longrightarrow> user_step X db (snd (UpdatePassword bc unicode works salt uid old new db))"
| st_status: "is_admin db op \<Longrightarrow> uid \<notin> X \<Longrightarrow> user_step X db (snd (ToggleUserStatus works uid op db))"
| st_role: "is_admin db op \<Longrightarrow> uid \<notin> X \<Longrightarrow> user_step X db (snd (UpdateUserRole works uid op role db))"
| st_delete: "is_admin db op \<Longrightarrow> uid \<notin> X \<Longrightarrow> user_step X db (snd (DeleteUser works now uid op db))"

definition no_users :: user_db where
  "no_users = \<lparr> ud_users = [], ud_wallets = [], ud_notifications = [], ud_subscriptions = [], ud_transactions = [] \<rparr>"

definition user_run :: "user_db \<Rightarrow> bool" where
  "user_run db \<longleftrightarrow> (user_step {})\<^sup>*\<^sup>* no_users db"

text \<open>What a step can do to the tables: append a user, or apply a change to the live rows of one user.\<close>

definition same_login :: "user_row \<Rightarrow> user_row \<Rightarrow> bool" where
  "same_login u u' \<longleftrightarrow> us_ID u' = us_ID u \<and> us_DeletedAt u' = us_DeletedAt u \<and> us_Username u' = us_Username u \<and>
     us_Email u' = us_Email u \<and> us_Password u' = us_Password u \<and> us_Role u' = us_Role u \<and> us_Enabled u' = us_Enabled u"

definition same_identity :: "user_row \<Rightarrow> user_row \<Rightarrow> bool" where
  "same_identity u u' \<longleftrightarrow> us_ID u' = us_ID u \<and> us_Username u' = us_Username u \<and> us_Email u' = us_Email u"

lemma register_cases:
  obtains e where "Register bc unicode works salt newID walletID now req db = (Inl e, db)"
  | h where "Register bc unicode works salt newID walletID now req db =
      (let user = \<lparr> us_ID = newID, us_CreatedAt = now, us_DeletedAt = None, us_Username = rr_Username req,
             us_Email = rr_Email req, us_Password = h, us_Role = (if is_first_user works db then ''admin'' else ''user''),
             us_Enabled = True, us_LastLogin = None \<rparr>
       in (Inr (user, is_first_user works db), db\<lparr> ud_users := ud_users db @ [user],
             ud_wallets := ud_wallets db @ [\<lparr> wl_ID = walletID, wl_UserID = newID, wl_DeletedAt = None \<rparr>] \<rparr>))"
    "bc_Generate bc salt (rr_Password req) = Some h"
    "newID \<notin> us_ID ` set (ud_users db)" "rr_Username req \<notin> us_Username ` set (ud_users db)"
    "rr_Email req \<notin> us_Email ` set (ud_users db)" "newID \<notin> wl_UserID ` set (ud_wallets db)"
proof (cases "register_checks unicode works req db")
  case None
  show ?thesis
  proof (cases "bc_Generate bc salt (rr_Password req)")
    case (Some h)
    define user where "user = \<lparr> us_ID = newID, us_CreatedAt = now, us_DeletedAt = None, us_Username = rr_Username req,
             us_Email = rr_Email req, us_Password = h, us_Role = (if is_first_user works db then ''admin'' else ''user''),
             us_Enabled = True, us_LastLogin = None \<rparr>"
    have reg: "Register bc unicode works salt newID walletID now req db =
        (case register_commit works newID walletID user db of
           (Some e, db1) \<Rightarrow> (Inl e, db1) | (None, db1) \<Rightarrow> (Inr (user, is_first_user works db), db1))"
      unfolding Register_def None Some user_def Let_def option.case by (rule refl)
    show ?thesis
    proof (cases "fst (register_commit works newID walletID user db) = None")
      case True
      then have "newID \<notin> us_ID ` set (ud_users db)" "us_Username user \<notin> us_Username ` set (ud_users db)"
        "us_Email user \<notin> us_Email ` set (ud_users db)" "newID \<notin> wl_UserID ` set (ud_wallets db)"
        "register_commit works newID walletID user db = (None, db\<lparr> ud_users := ud_users db @ [user],
             ud_wallets := ud_wallets db @ [\<lparr> wl_ID = walletID, wl_UserID = newID, wl_DeletedAt = None \<rparr>] \<rparr>)"
        unfolding register_commit_def by (simp_all split: if_splits)
      then show ?thesis using reg Some by (intro that(2) [of h]) (simp_all add: user_def Let_def)
    next
      case False
      then have "\<exists>e. register_commit works newID walletID user db = (Some e, db)"
        unfolding register_commit_def by (simp split: if_splits)
      then show ?thesis using reg that(1) by auto
    qed
  qed (use None that(1) in \<open>simp add: Register_def\<close>)
qed (use that(1) in \<open>simp add: Register_def\<close>)

text \<open>The four things a step can do: nothing, append a user with a wallet, change the live row of a user, delete a user.\<close>

definition keeps_tables :: "user_db \<Rightarrow> user_db \<Rightarrow> bool" where
  "keeps_tables db db' \<longleftrightarrow> ud_users db' = ud_users db \<and> ud_wallets db' = ud_wallets db"

definition appends_user :: "user_row \<Rightarrow> user_db \<Rightarrow> user_db \<Rightarrow> bool" where
  "appends_user user db db' \<longleftrightarrow>
     ud_users db' = ud_users db @ [user] \<and> us_DeletedAt user = None \<and> us_Enabled user \<and>
     (live_users db = [] \<longrightarrow> us_Role user = ''admin'') \<and>
     us_ID user \<notin> us_ID ` set (ud_users db) \<and> us_Username user \<notin> us_Username ` set (ud_users db) \<and>
     us_Email user \<notin> us_Email ` set (ud_users db) \<and> us_ID user \<notin> wl_UserID ` set (ud_wallets db) \<and>
     (\<exists>wid. ud_wallets db' = ud_wallets db @ [\<lparr> wl_ID = wid, wl_UserID = us_ID user, wl_DeletedAt = None \<rparr>])"

definition changes_user :: "string set \<Rightarrow> string \<Rightarrow> (user_row \<Rightarrow> user_row) \<Rightarrow> user_db \<Rightarrow> user_db \<Rightarrow> bool" where
  "changes_user X uid f db db' \<longleftrightarrow>
     ud_users db' = ud_users (update_user uid f db) \<and> ud_wallets db' = ud_wallets db \<and>
     (\<forall>u. same_identity u (f u) \<and> us_DeletedAt (f u) = us_DeletedAt u) \<and>
     (uid \<in> X \<longrightarrow> (\<forall>u. same_login u (f u))) \<and>
     ((\<forall>u. us_Role (f u) = us_Role u \<and> us_Enabled (f u) = us_Enabled u) \<or> (\<exists>op. op \<noteq> uid \<and> is_admin db op))"

definition deletes_user :: "string set \<Rightarrow> string \<Rightarrow> int \<Rightarrow> user_db \<Rightarrow> user_db \<Rightarrow> bool" where
  "deletes_user X uid now db db' \<longleftrightarrow>
     uid \<notin> X \<and> (\<exists>op. op \<noteq> uid \<and> is_admin db op) \<and>
     ud_users db' = ud_users (update_user uid (\<lambda>u. u\<lparr> us_DeletedAt := Some now \<rparr>) db) \<and>
     (\<exists>P. (\<forall>w. P w \<longrightarrow> wl_UserID w = uid) \<and>
          ud_wallets db' = map (\<lambda>w. if P w then w\<lparr> wl_DeletedAt := Some now \<rparr> else w) (ud_wallets db))"

definition step_shape :: "string set \<Rightarrow> user_db \<Rightarrow> user_db \<Rightarrow> bool" where
  "step_shape X db db' \<longleftrightarrow> keeps_tables db db' \<or> (\<exists>user. appends_user user db db') \<or> (\<exists>uid f. changes_user X uid f db db') \<or>
     (\<exists>uid now. deletes_user X uid now db db')"

lemma shape_same: "step_shape X db db"
  by (simp add: step_shape_def keeps_tables_def)

lemma shape_changes: "changes_user X uid f db db' \<Longrightarrow> step_shape X db db'"
  unfolding step_shape_def by blast

lemma shape_seen: "step_shape X db (update_user uid (\<lambda>u. u\<lparr> us_LastLogin := t \<rparr>) db)"
  by (rule shape_changes [of _ uid "\<lambda>u. u\<lparr> us_LastLogin := t \<rparr>"])
    (simp add: changes_user_def same_identity_def same_login_def update_user_def)

lemma GetUser_ID: "GetUser works uid db = Inr u \<Longrightarrow> us_ID u = uid"
  by (auto simp: GetUser_def find_Some_iff split: option.splits if_splits)

lemma shape_register: "step_shape X db (snd (Register bc unicode works salt newID walletID now req db))"
proof (cases rule: register_cases [of bc unicode works salt newID walletID now req db])
  case (1 e)
  then show ?thesis by (simp add: shape_same)
next
  case (2 h)
  define user where "user = \<lparr> us_ID = newID, us_CreatedAt = now, us_DeletedAt = None, us_Username = rr_Username req,
             us_Email = rr_Email req, us_Password = h, us_Role = (if is_first_user works db then ''admin'' else ''user''),
             us_Enabled = True, us_LastLogin = None \<rparr>"
  have "appends_user user db (snd (Register bc unicode works salt newID walletID now req db))"
    unfolding 2(1) Let_def snd_conv user_def [symmetric] using 2(3-6)
    by (simp add: appends_user_def, simp add: user_def is_first_user_def)
  then show ?thesis unfolding step_shape_def by blast
qed

lemma shape_login: "step_shape X db (snd (Authenticate bc works now username password db))"
  by (auto simp: Authenticate_def shape_seen shape_same split: option.split)

lemma shape_last_login: "step_shape X db (UpdateLastLogin works now uid db)"
  by (simp add: UpdateLastLogin_def shape_seen shape_same)

lemma shape_password:
  assumes "uid \<notin> X"
  shows "step_shape X db (snd (UpdatePassword bc unicode works salt uid old new db))"
proof -
  have "step_shape X db (update_user uid (\<lambda>u. u\<lparr> us_Password := h \<rparr>) db)" for h
    by (rule shape_changes [of _ uid "\<lambda>u. u\<lparr> us_Password := h \<rparr>"])
      (simp add: changes_user_def same_identity_def update_user_def assms)
  note upd = this
  show ?thesis
  proof (cases "GetUser works uid db")
    case (Inr u)
    have "us_ID u = uid" by (rule GetUser_ID [OF Inr])
    then show ?thesis using Inr by (simp add: UpdatePassword_def Let_def shape_same upd split: option.split)
  qed (simp add: UpdatePassword_def shape_same)
qed

lemma shape_status:
  assumes "is_admin db op" "uid \<notin> X"
  shows "step_shape X db (snd (ToggleUserStatus works uid op db))"
proof (cases "uid = op")
  case False
  then have other: "\<exists>op. op \<noteq> uid \<and> is_admin db op" using assms(1) by (intro exI [of _ op]) simp
  have "step_shape X db (update_user uid (\<lambda>u. u\<lparr> us_Enabled := b \<rparr>) db)" for b
    by (rule shape_changes [of _ uid "\<lambda>u. u\<lparr> us_Enabled := b \<rparr>"])
      (simp add: changes_user_def same_identity_def update_user_def assms(2) other)
  note upd = this
  show ?thesis
  proof (cases "GetUser works uid db")
    case (Inr u)
    have "us_ID u = uid" by (rule GetUser_ID [OF Inr])
    then show ?thesis using Inr by (simp add: ToggleUserStatus_def Let_def shape_same upd split: option.split)
  qed (simp add: ToggleUserStatus_def shape_same)
qed (simp add: ToggleUserStatus_def shape_same)

lemma shape_role:
  assumes "is_admin db op" "uid \<notin> X"
  shows "step_shape X db (snd (UpdateUserRole works uid op role db))"
proof (cases "uid = op")
  case False
  then have other: "\<exists>op. op \<noteq> uid \<and> is_admin db op" using assms(1) by (intro exI [of _ op]) simp
  have "step_shape X db (update_user uid (\<lambda>u. u\<lparr> us_Role := r \<rparr>) db)" for r
    by (rule shape_changes [of _ uid "\<lambda>u. u\<lparr> us_Role := r \<rparr>"])
      (simp add: changes_user_def same_identity_def update_user_def assms(2) other)
  note upd = this
  show ?thesis
  proof (cases "GetUser works uid db")
    case (Inr u)
    have "us_ID u = uid" by (rule GetUser_ID [OF Inr])
    then show ?thesis using Inr by (simp add: UpdateUserRole_def Let_def shape_same upd split: option.split)
  qed (simp add: UpdateUserRole_def shape_same)
qed (simp add: UpdateUserRole_def shape_same)

lemma shape_delete:
  assumes "is_admin db op" "uid \<notin> X"
  shows "step_shape X db (snd (DeleteUser works now uid op db))"
proof (cases "uid = op")
  case False
  define P where "P w \<longleftrightarrow> works UQ_wallets \<and> wl_DeletedAt w = None \<and> wl_UserID w = uid" for w :: wallet_row
  define n where "n = mark_owned (works UQ_notifications) now {uid} (ud_notifications db)"
  define ss where "ss = mark_owned (works UQ_subscriptions) now {uid} (ud_subscriptions db)"
  define ts where "ts = mark_owned (works UQ_transactions) now
    (wl_ID ` set (filter (\<lambda>w. wl_DeletedAt w = None \<and> wl_UserID w = uid) (ud_wallets db))) (ud_transactions db)"
  define ws where "ws = map (\<lambda>w. if P w then w\<lparr> wl_DeletedAt := Some now \<rparr> else w) (ud_wallets db)"
  have ws: "ws = (if works UQ_wallets
      then map (\<lambda>w. if wl_DeletedAt w = None \<and> wl_UserID w = uid then w\<lparr> wl_DeletedAt := Some now \<rparr> else w) (ud_wallets db)
      else ud_wallets db)" by (simp add: ws_def P_def)
  define db1 where "db1 = update_user uid (\<lambda>u. u\<lparr> us_DeletedAt := Some now \<rparr>)
    (db\<lparr> ud_notifications := n, ud_subscriptions := ss, ud_transactions := ts, ud_wallets := ws \<rparr>)"
  have "ud_users db1 = ud_users (update_user uid (\<lambda>u. u\<lparr> us_DeletedAt := Some now \<rparr>) db)" "ud_wallets db1 = ws"
    by (simp_all add: db1_def update_user_def)
  moreover have "\<exists>op. op \<noteq> uid \<and> is_admin db op" using assms(1) False by (intro exI [of _ op]) simp
  moreover have "\<forall>w. P w \<longrightarrow> wl_UserID w = uid" by (simp add: P_def)
  ultimately have "deletes_user X uid now db db1"
    unfolding deletes_user_def ws_def using assms(2) by (intro conjI exI [of _ P]) simp_all
  then have "step_shape X db db1" unfolding step_shape_def by blast
  moreover have "snd (DeleteUser works now uid op db) = db \<or> snd (DeleteUser works now uid op db) = db1"
    unfolding DeleteUser_def Let_def db1_def n_def ss_def ts_def ws by (cases "GetUser works uid db") simp_all
  ultimately show ?thesis using shape_same by metis
qed (simp add: DeleteUser_def shape_same)

lemmas step_shapes = shape_register shape_login shape_last_login shape_password shape_status shape_role shape_delete

lemma step_cases:
  assumes "user_step X db db'"
  obtains "keeps_tables db db'" | user where "appends_user user db db'" | uid f where "changes_user X uid f db db'"
  | uid now where "deletes_user X uid now db db'"
proof -
  have "step_shape X db db'" using assms by cases (blast intro: step_shapes)+
  then show ?thesis using that unfolding step_shape_def by blast
qed

lemma live_users_update:
  assumes "\<And>u. us_DeletedAt (f u) = us_DeletedAt u"
  shows "filter (\<lambda>u. us_DeletedAt u = None) (ud_users (update_user uid f db)) =
    map (\<lambda>u. if us_ID u = uid then f u else u) (live_users db)"
  using assms by (auto simp: live_users_def update_user_def filter_map comp_def intro!: map_cong filter_cong)

lemma changed_live:
  assumes "changes_user X uid f db db'"
  shows "live_users db' = map (\<lambda>u. if us_ID u = uid then f u else u) (live_users db)"
  using assms live_users_update [of f uid db] by (simp add: changes_user_def live_users_def)

lemma deleted_live:
  assumes "deletes_user X uid now db db'"
  shows "live_users db' = filter (\<lambda>u. us_ID u \<noteq> uid) (live_users db)"
proof -
  have "filter (\<lambda>u. us_DeletedAt u = None) (map (\<lambda>u. if us_DeletedAt u = None \<and> us_ID u = uid
      then u\<lparr> us_DeletedAt := Some now \<rparr> else u) us) = filter (\<lambda>u. us_ID u \<noteq> uid) (filter (\<lambda>u. us_DeletedAt u = None) us)" for us
    by (induction us) auto
  then show ?thesis using assms by (simp add: deletes_user_def live_users_def update_user_def)
qed

lemma appended_live: "appends_user user db db' \<Longrightarrow> live_users db' = live_users db @ [user]"
  by (simp add: appends_user_def live_users_def)

section \<open>An administrator remains\<close>

definition admin_ok :: "user_db \<Rightarrow> bool" where
  "admin_ok db \<longleftrightarrow> live_users db = [] \<or> (\<exists>uid. is_admin db uid)"

lemma step_admin_ok:
  assumes "user_step X db db'" "admin_ok db"
  shows "admin_ok db'"
  using assms(1)
proof (cases rule: step_cases)
  case 1
  then have "live_users db' = live_users db" by (simp add: keeps_tables_def live_users_def)
  then show ?thesis using assms(2) by (simp add: admin_ok_def is_admin_def)
next
  case (2 user)
  note live' = appended_live [OF 2]
  show ?thesis
  proof (cases "live_users db = []")
    case True
    then have "is_admin db' (us_ID user)" using 2 live' by (simp add: is_admin_def appends_user_def)
    then show ?thesis unfolding admin_ok_def by (intro disjI2 exI)
  next
    case False
    then obtain uid where "is_admin db uid" using assms(2) by (auto simp: admin_ok_def)
    then have "is_admin db' uid" using live' by (auto simp: is_admin_def)
    then show ?thesis unfolding admin_ok_def by (intro disjI2 exI)
  qed
next
  case (3 uid f)
  note live' = changed_live [OF 3]
  show ?thesis
  proof (cases "\<exists>op. op \<noteq> uid \<and> is_admin db op")
    case True
    then obtain op a where "op \<noteq> uid" "a \<in> set (live_users db)" "us_ID a = op" "us_Role a = ''admin''" "us_Enabled a"
      by (auto simp: is_admin_def)
    then have "is_admin db' op" using live' by (auto simp: is_admin_def intro!: bexI [of _ a])
    then show ?thesis unfolding admin_ok_def by (intro disjI2 exI)
  next
    case False
    have "(\<forall>u. us_Role (f u) = us_Role u \<and> us_Enabled (f u) = us_Enabled u) \<or> (\<exists>op. op \<noteq> uid \<and> is_admin db op)"
      using 3 by (simp only: changes_user_def)
    with False have "\<forall>u. us_Role (f u) = us_Role u \<and> us_Enabled (f u) = us_Enabled u" by argo
    then have f: "us_Role (f u) = us_Role u" "us_Enabled (f u) = us_Enabled u" for u by simp_all
    have g: "us_ID (f u) = us_ID u" for u using 3 by (simp add: changes_user_def same_identity_def)
    have "is_admin db' k" if k: "is_admin db k" for k
    proof -
      obtain a where a: "a \<in> set (live_users db)" "us_ID a = k" "us_Role a = ''admin''" "us_Enabled a"
        using k by (auto simp: is_admin_def)
      then have "(if us_ID a = uid then f a else a) \<in> set (live_users db')" by (auto simp: live' image_def)
      then show ?thesis using a f g unfolding is_admin_def by (intro bexI [of _ "if us_ID a = uid then f a else a"]) auto
    qed
    then show ?thesis using assms(2) live' by (auto simp: admin_ok_def)
  qed
next
  case (4 uid now)
  note live' = deleted_live [OF 4]
  obtain op a where "op \<noteq> uid" "a \<in> set (live_users db)" "us_ID a = op" "us_Role a = ''admin''" "us_Enabled a"
    using 4 by (auto simp: deletes_user_def is_admin_def)
  then have "is_admin db' op" using live' by (auto simp: is_admin_def)
  then show ?thesis unfolding admin_ok_def by (intro disjI2 exI)
qed

text \<open>
  C32: over any run in which every change of status, role or existence is made by somebody who is an enabled administrator
  at that moment, there is an enabled administrator as long as there is a user, also when database calls fail.
\<close>

theorem admin_remains:
  assumes "user_run db" "live_users db \<noteq> []"
  shows "\<exists>u. u \<in> set (live_users db) \<and> us_Role u = ''admin'' \<and> us_Enabled u"
proof -
  have "admin_ok no_users" by (simp add: admin_ok_def live_users_def no_users_def)
  with assms(1) [unfolded user_run_def] have "admin_ok db"
    by (induction rule: rtranclp_induct) (assumption, rule step_admin_ok)
  then show ?thesis using assms(2) by (auto simp: admin_ok_def is_admin_def)
qed

section \<open>Accounts are unique and stay usable\<close>

definition accounts_ok :: "user_db \<Rightarrow> bool" where
  "accounts_ok db \<longleftrightarrow> distinct (map us_ID (ud_users db)) \<and> distinct (map us_Username (ud_users db)) \<and>
     distinct (map us_Email (ud_users db))"

lemma step_accounts_ok:
  assumes "user_step X db db'" "accounts_ok db"
  shows "accounts_ok db'"
  using assms(1)
proof (cases rule: step_cases)
  case 1 then show ?thesis using assms(2) by (simp add: keeps_tables_def accounts_ok_def)
next
  case (2 user) then show ?thesis using assms(2) by (simp add: appends_user_def accounts_ok_def)
next
  case (3 uid f)
  then have "map us_ID (ud_users db') = map us_ID (ud_users db)" "map us_Username (ud_users db') = map us_Username (ud_users db)"
    "map us_Email (ud_users db') = map us_Email (ud_users db)"
    by (simp_all add: changes_user_def update_user_def same_identity_def)
  then show ?thesis using assms(2) by (simp add: accounts_ok_def)
next
  case (4 uid now)
  then have "map us_ID (ud_users db') = map us_ID (ud_users db)" "map us_Username (ud_users db') = map us_Username (ud_users db)"
    "map us_Email (ud_users db') = map us_Email (ud_users db)"
    by (simp_all add: deletes_user_def update_user_def)
  then show ?thesis using assms(2) by (simp add: accounts_ok_def)
qed

lemma user_run_accounts_ok: "user_run db \<Longrightarrow> accounts_ok db"
  unfolding user_run_def
proof (induction rule: rtranclp_induct)
  case base show ?case by (simp add: accounts_ok_def no_users_def)
next
  case (step db1 db2) show ?case by (rule step_accounts_ok [OF step(2,3)])
qed

lemma step_keeps_login:
  assumes "user_step X db db'" "u \<in> set (live_users db)" "us_ID u \<in> X"
  shows "\<exists>u' \<in> set (live_users db'). same_login u u'"
  using assms(1)
proof (cases rule: step_cases)
  case 1
  then have "live_users db' = live_users db" by (simp add: keeps_tables_def live_users_def)
  then show ?thesis using assms(2) by (auto simp: same_login_def)
next
  case (2 user) then show ?thesis using assms(2) appended_live [OF 2] by (auto simp: same_login_def)
next
  case (3 uid f)
  show ?thesis
  proof (cases "us_ID u = uid")
    case True
    then have "same_login u (f u)" using 3 assms(3) by (simp add: changes_user_def)
    then show ?thesis using True assms(2) by (intro bexI [of _ "f u"]) (auto simp: changed_live [OF 3] image_def)
  next
    case False
    then show ?thesis using assms(2) by (intro bexI [of _ u]) (auto simp: changed_live [OF 3] same_login_def image_def)
  qed
next
  case (4 uid now)
  then have "us_ID u \<noteq> uid" using assms(3) by (auto simp: deletes_user_def)
  then show ?thesis using assms(2) deleted_live [OF 4] by (auto simp: same_login_def)
qed

lemma steps_keep_login:
  assumes "(user_step X)\<^sup>*\<^sup>* db db'" "u \<in> set (live_users db)" "us_ID u \<in> X"
  shows "\<exists>u' \<in> set (live_users db'). same_login u u'"
  using assms(1)
proof (induction rule: rtranclp_induct)
  case base then show ?case using assms(2) by (auto simp: same_login_def)
next
  case (step db1 db2)
  then obtain u1 where u1: "u1 \<in> set (live_users db1)" "same_login u u1" by blast
  then have "us_ID u1 \<in> X" using assms(3) by (simp add: same_login_def)
  from step_keeps_login [OF step(2) u1(1) this] obtain u2 where "u2 \<in> set (live_users db2)" "same_login u1 u2" by blast
  then show ?case using u1(2) by (auto simp: same_login_def)
qed

text \<open>
  C33: somebody who has registered can log in with the name and the password given, and gets the account, after any run of
  other people's registrations, log-ins and changes that leave this account alone.
\<close>

theorem registered_can_login:
  assumes "bcrypt_law bc" "user_run db"
    and "Register bc unicode works salt newID walletID now req db = (Inr (user, first), db1)"
    and "(user_step {newID})\<^sup>*\<^sup>* db1 db2" "works' UQ_find"
  shows "\<exists>u. fst (Authenticate bc works' later (rr_Username req) (rr_Password req) db2) = Inr u \<and>
    us_ID u = newID \<and> us_Username u = rr_Username req \<and> us_Role u = us_Role user"
proof (cases rule: register_cases [of bc unicode works salt newID walletID now req db])
  case (1 e)
  then show ?thesis using assms(3) by simp
next
  case (2 h)
  have user: "us_ID user = newID" "us_Username user = rr_Username req" "us_Password user = h" "us_Enabled user"
    "us_DeletedAt user = None" "ud_users db1 = ud_users db @ [user]"
    using 2(1) assms(3) by (auto simp: Let_def)
  have "user_step {} db db1" using assms(3) st_register [of "{}" db bc unicode works salt newID walletID now req] by simp
  then have "accounts_ok db1" using step_accounts_ok user_run_accounts_ok [OF assms(2)] by blast
  with assms(4) have ok: "accounts_ok db2"
    by (induction rule: rtranclp_induct) (assumption, rule step_accounts_ok)
  have "user \<in> set (live_users db1)" using user by (simp add: live_users_def)
  then obtain u where u: "u \<in> set (live_users db2)" "same_login user u"
    using steps_keep_login [OF assms(4)] user(1) by blast
  have "find (\<lambda>v. us_Username v = rr_Username req) (live_users db2) = Some u"
  proof (cases "find (\<lambda>v. us_Username v = rr_Username req) (live_users db2)")
    case None
    then show ?thesis using u user(2) by (auto simp: find_None_iff same_login_def)
  next
    case (Some v)
    then have v: "v \<in> set (live_users db2)" "us_Username v = rr_Username req" by (auto simp: find_Some_iff)
    have "inj_on us_Username (set (ud_users db2))" using ok by (simp add: accounts_ok_def distinct_map)
    then have "v = u"
      by (rule inj_onD) (use u v user(2) in \<open>simp_all add: same_login_def live_users_def\<close>)
    then show ?thesis using Some by simp
  qed
  moreover have "CheckPassword bc (us_Password u) (rr_Password req)"
    using assms(1) 2(2) u(2) user(3) by (auto simp: CheckPassword_def bcrypt_law_def same_login_def)
  ultimately show ?thesis using assms(5) u(2) user by (simp add: Authenticate_def same_login_def)
qed

text \<open>A toy hash that appends the salt's length, two accounts, and what happens to them.\<close>

definition toy_bcrypt :: bcrypt where
  "toy_bcrypt = \<lparr> bc_Generate = (\<lambda>salt pw. if length pw \<le> 72 then Some (salt @ pw) else None),
                  bc_Compare = (\<lambda>h pw. drop (length h - length pw) h = pw) \<rparr>"

lemma toy_bcrypt_law: "bcrypt_law toy_bcrypt"
  by (auto simp: bcrypt_law_def toy_bcrypt_def)

definition no_letters :: "nat \<Rightarrow> rune_class" where
  "no_letters n = Neither"

definition alice :: register_request where
  "alice = \<lparr> rr_Username = ''alice'', rr_Password = ''Secret42'', rr_Email = ''alice@example.org'' \<rparr>"

definition bob :: register_request where
  "bob = \<lparr> rr_Username = ''bob'', rr_Password = ''Secret43'', rr_Email = ''bob@example.org'' \<rparr>"

definition up :: "user_call \<Rightarrow> bool" where
  "up q = True"

definition register_toy :: "(user_call \<Rightarrow> bool) \<Rightarrow> string \<Rightarrow> register_request \<Rightarrow> user_db \<Rightarrow> (user_error + user_row \<times> bool) \<times> user_db" where
  "register_toy works k req db = Register toy_bcrypt no_letters works ''s'' k k 0 req db"

lemma alice_checked: "register_checks no_letters up alice no_users = None"
  by code_simp

lemma alice_registered:
  "register_toy up ''a'' alice no_users =
     (Inr (\<lparr> us_ID = ''a'', us_CreatedAt = 0, us_DeletedAt = None, us_Username = ''alice'', us_Email = ''alice@example.org'',
             us_Password = ''sSecret42'', us_Role = ''admin'', us_Enabled = True, us_LastLogin = None \<rparr>, True),
      no_users\<lparr> ud_users := [\<lparr> us_ID = ''a'', us_CreatedAt = 0, us_DeletedAt = None, us_Username = ''alice'',
             us_Email = ''alice@example.org'', us_Password = ''sSecret42'', us_Role = ''admin'', us_Enabled = True, us_LastLogin = None \<rparr>],
         ud_wallets := [\<lparr> wl_ID = ''a'', wl_UserID = ''a'', wl_DeletedAt = None \<rparr>] \<rparr>)"
  unfolding register_toy_def Register_def alice_checked
  by (simp add: Let_def is_first_user_def live_users_def register_commit_def toy_bcrypt_def alice_def no_users_def up_def)

theorem admin_remains_witness:
  "\<exists>u. u \<in> set (live_users (snd (register_toy up ''a'' alice no_users))) \<and> us_Role u = ''admin'' \<and> us_Enabled u"
proof (rule admin_remains)
  show "user_run (snd (register_toy up ''a'' alice no_users))"
    unfolding user_run_def register_toy_def by (intro r_into_rtranclp st_register)
  show "live_users (snd (register_toy up ''a'' alice no_users)) \<noteq> []" by (simp add: alice_registered live_users_def)
qed

theorem registered_can_login_witness:
  "\<exists>u. fst (Authenticate toy_bcrypt up 5 ''alice'' ''Secret42'' (snd (register_toy up ''a'' alice no_users))) = Inr u \<and> us_ID u = ''a''"
proof -
  have "user_run no_users" by (simp add: user_run_def)
  from registered_can_login [OF toy_bcrypt_law this, of no_letters up "''s''" "''a''" "''a''" 0 alice _ _ _
      "snd (register_toy up ''a'' alice no_users)" up 5]
  show ?thesis using alice_registered unfolding register_toy_def by (fastforce simp: alice_def up_def)
qed

section \<open>Where the service goes wrong\<close>

text \<open>When the count of users fails, whoever registers becomes an administrator.\<close>

theorem failed_count_makes_admin:
  assumes "\<not> works UQ_count" "fst (Register bc unicode works salt newID walletID now req db) = Inr (user, first)"
  shows "us_Role user = ''admin'' \<and> first"
proof (cases rule: register_cases [of bc unicode works salt newID walletID now req db])
  case (1 e) then show ?thesis using assms(2) by simp
next
  case (2 h) then show ?thesis using assms by (auto simp: Let_def is_first_user_def)
qed

text \<open>
  The operator of a change is taken from a token, whose role is not looked up again: of two administrators with tokens
  each can demote the other.
\<close>

theorem two_tokens_no_admin:
  assumes "live_users db = [a, b]" "us_ID a \<noteq> us_ID b" "works UQ_get" "works UQ_role"
  shows "let db1 = snd (UpdateUserRole works (us_ID b) (us_ID a) ''user'' db);
             db2 = snd (UpdateUserRole works (us_ID a) (us_ID b) ''user'' db1)
         in (\<forall>u \<in> set (live_users db2). us_Role u = ''user'')"
proof -
  let ?f = "\<lambda>u. u\<lparr> us_Role := ''user'' \<rparr>"
  have live: "live_users (update_user k ?f d) = map (\<lambda>u. if us_ID u = k then ?f u else u) (live_users d)" for k d
    using live_users_update [of ?f k d] by (simp add: live_users_def)
  have get: "GetUser works k d = (case find (\<lambda>u. us_ID u = k) (live_users d) of None \<Rightarrow> Inl UE_unknown | Some u \<Rightarrow> Inr u)" for k d
    using assms(3) by (simp add: GetUser_def)
  define db1 where "db1 = snd (UpdateUserRole works (us_ID b) (us_ID a) ''user'' db)"
  have db1: "live_users db1 = [a, ?f b]" using assms by (simp add: db1_def UpdateUserRole_def get live)
  have "live_users (snd (UpdateUserRole works (us_ID a) (us_ID b) ''user'' db1)) = [?f a, ?f b]"
    using assms by (simp add: UpdateUserRole_def get live db1)
  then show ?thesis by (simp add: db1_def)
qed

text \<open>
  The name of a deleted user passes the check for duplicates, which sees live rows only, and then fails in the table.
\<close>

theorem deleted_name_unusable:
  assumes "register_checks unicode works req db = None" "rr_Username req \<in> us_Username ` set (ud_users db)"
    "bc_Generate bc salt (rr_Password req) \<noteq> None"
  shows "Register bc unicode works salt newID walletID now req db = (Inl UE_db, db)"
  using assms by (auto simp: Register_def register_commit_def Let_def)

end
