(* ===== verification/Access.thy ===== *)
theory Access
  imports Users Plane_Keys "HOL-Library.AList" "HOL-Library.Sublist"
begin

text \<open>
  Who may call the control plane: \<open>api/middleware/auth.go\<close>, \<open>admin.go\<close>, \<open>context.go\<close>, \<open>ck.go\<close>, the handlers of
  \<open>api/handler/security/auth.go\<close>, \<open>service/auth.go\<close>, \<open>service/jwt_manager.go\<close> and the check of captchas in
  \<open>db/cache/captcha.go\<close>. Tokens are made and opened by a JWT library outside the repository: an argument, with the law
  that a token opens with the secret it was signed with until it expires. A handler's outcome is a value, and the context
  it fills is a map; the values in a context keep the Go type they were stored with. Times are in nanoseconds.
\<close>

section \<open>Contexts\<close>

text \<open>A value of an interface: nil, a string, a \<open>models.UserRole\<close>, or something else with its printed form.\<close>

datatype cval = CNil | CStr string | CRole string | COther string

type_synonym gin_context = "(string \<times> cval) list"

definition ctx_Get :: "gin_context \<Rightarrow> string \<Rightarrow> cval" where
  "ctx_Get c k = (case map_of c k of None \<Rightarrow> CNil | Some v \<Rightarrow> v)"

definition as_string :: "cval \<Rightarrow> string" where
  "as_string v = (case v of CStr s \<Rightarrow> s | _ \<Rightarrow> [])"

definition GetUserID :: "gin_context \<Rightarrow> string" where
  "GetUserID c = as_string (ctx_Get c ''user_id'')"

definition GetUsername :: "gin_context \<Rightarrow> string" where
  "GetUsername c = as_string (ctx_Get c ''username'')"

definition GetRole :: "gin_context \<Rightarrow> string" where
  "GetRole c = (case ctx_Get c ''role'' of CStr s \<Rightarrow> s | CRole s \<Rightarrow> s | COther s \<Rightarrow> s | CNil \<Rightarrow> [])"

definition IsAdmin :: "gin_context \<Rightarrow> bool" where
  "IsAdmin c \<longleftrightarrow> GetRole c = ''admin''"

text \<open>The middleware lets a request pass when the role is a string, by type, and \<open>admin\<close>.\<close>

definition AdminAuth :: "gin_context \<Rightarrow> bool" where
  "AdminAuth c \<longleftrightarrow> (case map_of c ''role'' of None \<Rightarrow> False | Some v \<Rightarrow> (case v of CStr s \<Rightarrow> s = ''admin'' | _ \<Rightarrow> False))"

section \<open>Tokens\<close>

record claims =
  cl_fields :: "(string \<times> cval) list"
  cl_iat :: int
  cl_exp :: int

record jwt =
  jw_Sign :: "string \<Rightarrow> claims \<Rightarrow> string option"
  jw_HMAC :: "string \<Rightarrow> bool"
  jw_Parse :: "string \<Rightarrow> int \<Rightarrow> string \<Rightarrow> claims option"

definition one_second :: int where
  "one_second = 1000000000"

definition jwt_law :: "jwt \<Rightarrow> bool" where
  "jwt_law j \<longleftrightarrow> (\<forall>secret c t now. jw_Sign j secret c = Some t \<longrightarrow>
     jw_HMAC j t \<and> (now < cl_exp c * one_second \<longrightarrow> jw_Parse j secret now t = Some c))"

definition token_lifetime :: "int \<Rightarrow> int" where
  "token_lifetime hours = wrap64 (hours * 3600 * one_second)"

definition GenerateJWT :: "jwt \<Rightarrow> int \<Rightarrow> string \<Rightarrow> string \<Rightarrow> string \<Rightarrow> string \<Rightarrow> int \<Rightarrow> string option" where
  "GenerateJWT j now userID username role jwtSecret expiresInHours =
     jw_Sign j jwtSecret
       \<lparr> cl_fields = [(''user_id'', CStr userID), (''username'', CStr username), (''role'', CStr role)],
         cl_iat = now div one_second, cl_exp = (now + token_lifetime expiresInHours) div one_second \<rparr>"

datatype outcome = Unauthorized | Forbidden | Next gin_context

definition JWTAuth :: "jwt \<Rightarrow> string \<Rightarrow> int \<Rightarrow> string \<Rightarrow> outcome" where
  "JWTAuth j secret now authHeader =
     (if authHeader = [] then Unauthorized
      else if \<not> prefix ''Bearer '' authHeader then Unauthorized
      else (let tokenStr = drop 7 authHeader in
            if \<not> jw_HMAC j tokenStr then Unauthorized
            else case jw_Parse j secret now tokenStr of
                   None \<Rightarrow> Unauthorized
                 | Some c \<Rightarrow> Next [(''user_id'', ctx_Get (cl_fields c) ''user_id''), (''username'', ctx_Get (cl_fields c) ''username''),
                                   (''role'', ctx_Get (cl_fields c) ''role'')]))"

section \<open>Connection keys\<close>

record ck_request =
  cr_XConnectionKey :: string
  cr_Authorization :: string
  cr_QueryCK :: string

definition extractCK :: "ck_request \<Rightarrow> string" where
  "extractCK r =
     (if cr_XConnectionKey r \<noteq> [] then cr_XConnectionKey r
      else if prefix ''CK '' (cr_Authorization r) then drop 3 (cr_Authorization r)
      else cr_QueryCK r)"

definition GetCKByKey :: "int \<Rightarrow> string \<Rightarrow> connection_key list \<Rightarrow> connection_key option" where
  "GetCKByKey now key tab = find (\<lambda>k. ck_Key k = key \<and> \<not> ck_Revoked k \<and> ck_ExpiresAt k > now) tab"

definition DAO_GetUser :: "string \<Rightarrow> user_db \<Rightarrow> user_row option" where
  "DAO_GetUser uid db = find (\<lambda>u. us_ID u = uid) (live_users db)"

definition ck_checks :: "bool \<Rightarrow> int \<Rightarrow> int \<Rightarrow> string \<Rightarrow> ck_request \<Rightarrow> connection_key list \<Rightarrow> outcome + connection_key" where
  "ck_checks found now now' typ r tab =
     (let ck = extractCK r in
      if ck = [] then Inl Unauthorized
      else if ValidateCK ck \<noteq> None then Inl Unauthorized
      else case (if found then GetCKByKey now ck tab else None) of
             None \<Rightarrow> Inl Unauthorized
           | Some k \<Rightarrow> if ck_Revoked k then Inl Unauthorized
                       else if CK_IsExpired now' k then Inl Unauthorized
                       else if ck_Type k \<noteq> typ then Inl Forbidden
                       else Inr k)"

text \<open>The role goes into the context with its own type.\<close>

definition CKAuth :: "bool \<Rightarrow> bool \<Rightarrow> int \<Rightarrow> int \<Rightarrow> ck_request \<Rightarrow> connection_key list \<Rightarrow> user_db \<Rightarrow> outcome" where
  "CKAuth found works now now' r tab db =
     (case ck_checks found now now' ''user'' r tab of
        Inl out \<Rightarrow> out
      | Inr k \<Rightarrow> (case (if works then DAO_GetUser (ck_NodeID k) db else None) of
                    None \<Rightarrow> Unauthorized
                  | Some u \<Rightarrow> if \<not> us_Enabled u then Forbidden
                              else Next [(''user_id'', CStr (us_ID u)), (''username'', CStr (us_Username u)),
                                         (''role'', CRole (us_Role u)), (''ck'', CStr (extractCK r))]))"

definition NodeCKAuth :: "bool \<Rightarrow> bool \<Rightarrow> int \<Rightarrow> int \<Rightarrow> ck_request \<Rightarrow> connection_key list \<Rightarrow> (string \<times> string) list \<Rightarrow> outcome" where
  "NodeCKAuth found works now now' r tab nodes =
     (case ck_checks found now now' ''node'' r tab of
        Inl out \<Rightarrow> out
      | Inr k \<Rightarrow> (case (if works then map_of nodes (ck_NodeID k) else None) of
                    None \<Rightarrow> Unauthorized
                  | Some name \<Rightarrow> Next [(''node_id'', CStr (ck_NodeID k)), (''node_name'', CStr name), (''ck'', CStr (extractCK r))]))"

section \<open>Logging in\<close>

record captcha_session =
  cs_Code :: string
  cs_ExpiresAt :: int

text \<open>\<open>None\<close> is an error of the cache, as a missing key is; the second component is the cache afterwards.\<close>

definition VerifyAndDeleteCaptcha ::
    "bool \<Rightarrow> bool \<Rightarrow> int \<Rightarrow> string \<Rightarrow> string \<Rightarrow> (string \<times> captcha_session) list \<Rightarrow> bool option \<times> (string \<times> captcha_session) list" where
  "VerifyAndDeleteCaptcha reads deletes now cid code store =
     (let rest = (if deletes then AList.delete cid store else store) in
      if \<not> reads then (None, store)
      else case map_of store cid of
             None \<Rightarrow> (None, store)
           | Some s \<Rightarrow> if now > cs_ExpiresAt s then (Some False, rest) else (Some (cs_Code s = code), rest))"

datatype login_outcome =
    BadRequest | LoginDenied | LoginFailed
  | LoggedIn (lo_token: string) (lo_user_id: string) (lo_username: string) (lo_role: string) (lo_expires: int)

definition captcha_passes ::
    "bool \<Rightarrow> bool \<Rightarrow> bool \<Rightarrow> bool \<Rightarrow> int \<Rightarrow> string \<Rightarrow> string \<Rightarrow> (string \<times> captcha_session) list \<Rightarrow> bool \<times> (string \<times> captcha_session) list" where
  "captcha_passes required hasCache reads deletes now cid code store =
     (if \<not> required then (True, store)
      else if cid = [] \<or> code = [] then (False, store)
      else if \<not> hasCache then (True, store)
      else case VerifyAndDeleteCaptcha reads deletes now cid code store of (v, store) \<Rightarrow> (v = Some True, store))"

definition issue :: "jwt \<Rightarrow> int \<Rightarrow> int \<Rightarrow> string \<Rightarrow> int \<Rightarrow> string \<Rightarrow> string \<Rightarrow> string \<Rightarrow> login_outcome" where
  "issue j now now' secret hours uid username role =
     (case GenerateJWT j now uid username role secret hours of
        None \<Rightarrow> LoginFailed
      | Some token \<Rightarrow> LoggedIn token uid username role ((now' + token_lifetime hours) div one_second))"

definition Login ::
    "jwt \<Rightarrow> bcrypt \<Rightarrow> (user_call \<Rightarrow> bool) \<Rightarrow> bool \<Rightarrow> int \<Rightarrow> int \<Rightarrow> int \<Rightarrow> string \<Rightarrow> int \<Rightarrow> string \<Rightarrow> string \<Rightarrow> user_db \<Rightarrow> login_outcome \<times> user_db" where
  "Login j bc works captcha_ok now now1 now2 secret hours username password db =
     (if \<not> captcha_ok then (BadRequest, db)
      else case Authenticate bc works now username password db of
             (Inl e, db) \<Rightarrow> (LoginDenied, db)
           | (Inr u, db) \<Rightarrow> (issue j now1 now2 secret hours (us_ID u) (us_Username u) (us_Role u), db))"

text \<open>The store of sessions, which \<open>JWTAuth\<close> does not read.\<close>

definition Logout :: "bool \<Rightarrow> bool \<Rightarrow> string \<Rightarrow> string list \<Rightarrow> string list" where
  "Logout hasCache works authHeader sessions =
     (if hasCache \<and> length authHeader > 7 \<and> take 7 authHeader = ''Bearer '' \<and> works
      then removeAll (drop 7 authHeader) sessions else sessions)"

definition RefreshToken ::
    "jwt \<Rightarrow> (user_call \<Rightarrow> bool) \<Rightarrow> int \<Rightarrow> int \<Rightarrow> string \<Rightarrow> int \<Rightarrow> gin_context \<Rightarrow> user_db \<Rightarrow> login_outcome" where
  "RefreshToken j works now now' secret hours c db =
     (if GetUserID c = [] then LoginDenied
      else case GetUser works (GetUserID c) db of
             Inl e \<Rightarrow> LoginDenied
           | Inr u \<Rightarrow> if \<not> us_Enabled u then LoginDenied
                      else issue j now now' secret hours (GetUserID c) (GetUsername c) (GetRole c))"

section \<open>Secrets\<close>

definition JWTSecretLength :: nat where
  "JWTSecretLength = 64"

definition generateSecret :: "rand_source \<Rightarrow> string option" where
  "generateSecret rnd = map_option hex_EncodeToString (rnd JWTSecretLength)"

text \<open>The Redis key with the secret: \<open>None\<close> when it is missing. The booleans say whether the calls work.\<close>

definition loadOrGenerateSecret :: "bool \<Rightarrow> bool \<Rightarrow> bool \<Rightarrow> rand_source \<Rightarrow> string option \<Rightarrow> string option \<times> string option" where
  "loadOrGenerateSecret hasCache reads writes rnd redis =
     (if \<not> hasCache then (generateSecret rnd, redis)
      else case (if reads then redis else None) of
             Some (c # cs) \<Rightarrow> (Some (c # cs), redis)
           | _ \<Rightarrow> (case generateSecret rnd of
                     None \<Rightarrow> (None, redis)
                   | Some secret \<Rightarrow> (Some secret, if writes then Some secret else redis)))"

definition refreshSecret :: "bool \<Rightarrow> bool \<Rightarrow> rand_source \<Rightarrow> string \<Rightarrow> string option \<Rightarrow> bool \<times> string \<times> string option" where
  "refreshSecret hasCache writes rnd current redis =
     (case generateSecret rnd of
        None \<Rightarrow> (False, current, redis)
      | Some newSecret \<Rightarrow> if \<not> hasCache \<or> \<not> writes then (False, current, redis) else (True, newSecret, Some newSecret))"

definition refreshLoop_turn :: "bool \<Rightarrow> bool \<Rightarrow> string \<Rightarrow> string option \<Rightarrow> string" where
  "refreshLoop_turn hasCache reads current redis =
     (if hasCache then (case (if reads then redis else None) of Some (c # cs) \<Rightarrow> c # cs | _ \<Rightarrow> current) else current)"

text \<open>API keys: a prefix and its authentication code, the code an argument.\<close>

datatype api_key_error = KeyEmpty | KeyFormat | NoSecret | BadSignature

definition ValidateAPIKey :: "(string \<Rightarrow> string \<Rightarrow> byte list) \<Rightarrow> string \<Rightarrow> string \<Rightarrow> api_key_error option" where
  "ValidateAPIKey hmac_sha256 secret apiKey =
     (let p0 = takeWhile (\<lambda>c. c \<noteq> CHR ''.'') apiKey; p1 = drop (length p0 + 1) apiKey in
      if apiKey = [] then Some KeyEmpty
      else if CHR ''.'' \<notin> set apiKey \<or> p0 = [] \<or> p1 = [] then Some KeyFormat
      else if secret = [] then Some NoSecret
      else if p1 \<noteq> hex_EncodeToString (hmac_sha256 secret p0) then Some BadSignature
      else None)"

section \<open>What a token gives access to\<close>

lemma ctx_Get_simps [simp]:
  "ctx_Get ((k, v) # c) k' = (if k = k' then v else ctx_Get c k')" "ctx_Get [] k' = CNil"
  by (simp_all add: ctx_Get_def)

lemma token_accepted:
  assumes "jwt_law j" "GenerateJWT j now uid username role secret hours = Some token"
    and "later < (now + token_lifetime hours) div one_second * one_second"
  shows "JWTAuth j secret later (''Bearer '' @ token) = Next [(''user_id'', CStr uid), (''username'', CStr username), (''role'', CStr role)]"
  using assms by (auto simp: jwt_law_def GenerateJWT_def JWTAuth_def Let_def)

lemma authenticated_user:
  assumes "Authenticate bc works now username password db = (Inr u, db')"
  shows "\<exists>v. v \<in> set (live_users db) \<and> us_Enabled v \<and> CheckPassword bc (us_Password v) password \<and> us_Username v = username \<and>
    us_ID u = us_ID v \<and> us_Role u = us_Role v"
proof -
  obtain v where v: "find (\<lambda>u. us_Username u = username) (live_users db) = Some v" "us_Enabled v"
    "CheckPassword bc (us_Password v) password" "us_ID u = us_ID v" "us_Role u = us_Role v"
    using assms by (auto simp: Authenticate_def split: option.splits if_splits)
  then have "v \<in> set (live_users db) \<and> us_Username v = username" by (auto simp: find_Some_iff)
  then show ?thesis using v by blast
qed

text \<open>
  C34: a log-in that succeeds proves the password of an enabled account, and until it expires its token gives exactly the
  access of that account: the requests it authorises carry the account's key and role, and pass as an administrator's
  if and only if the account was one at the log-in.
\<close>

theorem login_gives_access:
  assumes "jwt_law j" "Login j bc works captcha_ok now now1 now2 secret hours username password db = (LoggedIn token uid name role expires, db')"
    and "later < (now1 + token_lifetime hours) div one_second * one_second"
  shows "\<exists>u c. u \<in> set (live_users db) \<and> us_Username u = username \<and> us_Enabled u \<and> CheckPassword bc (us_Password u) password \<and>
    us_ID u = uid \<and> us_Role u = role \<and> JWTAuth j secret later (''Bearer '' @ token) = Next c \<and> GetUserID c = uid \<and> GetRole c = role \<and>
    (AdminAuth c \<longleftrightarrow> us_Role u = ''admin'') \<and> (IsAdmin c \<longleftrightarrow> us_Role u = ''admin'')"
proof -
  obtain v where auth: "Authenticate bc works now username password db = (Inr v, db')"
    and iss: "issue j now1 now2 secret hours (us_ID v) (us_Username v) (us_Role v) = LoggedIn token uid name role expires"
    using assms(2) by (auto simp: Login_def split: prod.splits sum.splits if_splits)
  obtain u where u: "u \<in> set (live_users db)" "us_Enabled u" "CheckPassword bc (us_Password u) password"
    "us_Username u = username" "us_ID v = us_ID u" "us_Role v = us_Role u"
    using authenticated_user [OF auth] by blast
  have gen: "GenerateJWT j now1 uid name role secret hours = Some token" "uid = us_ID u" "role = us_Role u"
    using iss u(5,6) by (auto simp: issue_def split: option.splits)
  from token_accepted [OF assms(1) gen(1) assms(3)] show ?thesis
    using u gen(2,3) by (auto simp: GetUserID_def GetRole_def as_string_def AdminAuth_def IsAdmin_def)
qed

text \<open>
  C35: a connection key opens the user interface only when it is well-formed, in the table, not revoked, not expired and
  of type \<open>user\<close>, and its owner is an enabled user now.
\<close>

theorem ck_access_current:
  assumes "CKAuth found works now now' r tab db = Next c"
  shows "\<exists>k u. k \<in> set tab \<and> ck_Key k = extractCK r \<and> ValidateCK (ck_Key k) = None \<and> \<not> ck_Revoked k \<and> now < ck_ExpiresAt k \<and>
    now' \<le> ck_ExpiresAt k \<and> ck_Type k = ''user'' \<and> u \<in> set (live_users db) \<and> us_ID u = ck_NodeID k \<and> us_Enabled u \<and>
    GetUserID c = us_ID u \<and> GetRole c = us_Role u"
proof -
  obtain k where k: "ck_checks found now now' ''user'' r tab = Inr k"
    using assms by (auto simp: CKAuth_def ck_checks_def Let_def split: sum.splits option.splits if_splits)
  then have key: "GetCKByKey now (extractCK r) tab = Some k" "ValidateCK (extractCK r) = None" "\<not> CK_IsExpired now' k" "ck_Type k = ''user''"
    by (auto simp: ck_checks_def Let_def split: option.splits if_splits)
  then have "k \<in> set tab" "ck_Key k = extractCK r" "\<not> ck_Revoked k" "now < ck_ExpiresAt k"
    by (auto simp: GetCKByKey_def find_Some_iff)
  moreover obtain u where u: "DAO_GetUser (ck_NodeID k) db = Some u" "us_Enabled u"
    "c = [(''user_id'', CStr (us_ID u)), (''username'', CStr (us_Username u)), (''role'', CRole (us_Role u)), (''ck'', CStr (extractCK r))]"
    using assms k by (auto simp: CKAuth_def split: option.splits if_splits)
  moreover have "u \<in> set (live_users db)" "us_ID u = ck_NodeID k" using u(1) by (auto simp: DAO_GetUser_def find_Some_iff)
  ultimately show ?thesis using key
    by (intro exI [of _ k] exI [of _ u]) (simp add: CK_IsExpired_def GetUserID_def GetRole_def as_string_def)
qed

section \<open>Where access goes wrong\<close>

text \<open>An administrator with a connection key is no administrator for \<open>AdminAuth\<close>, which wants the type \<open>string\<close>.\<close>

theorem ck_admin_refused:
  assumes "CKAuth found works now now' r tab db = Next c"
  shows "\<not> AdminAuth c"
proof -
  obtain role where "map_of c ''role'' = Some (CRole role)"
    using assms by (auto simp: CKAuth_def ck_checks_def Let_def split: sum.splits option.splits if_splits)
  then show ?thesis by (simp add: AdminAuth_def)
qed

text \<open>A token is renewed with the role it says, not with the role of the account.\<close>

theorem refresh_keeps_old_role:
  assumes "jwt_law j" "GetUserID c = uid" "uid \<noteq> []" "GetRole c = ''admin''" "find (\<lambda>u. us_ID u = uid) (live_users db) = Some u"
    "us_Role u = ''user''" "us_Enabled u" "works UQ_get"
    and "RefreshToken j works now now' secret hours c db = LoggedIn token uid' name role expires"
    and "later < (now + token_lifetime hours) div one_second * one_second"
  shows "\<exists>c'. JWTAuth j secret later (''Bearer '' @ token) = Next c' \<and> AdminAuth c'"
proof -
  have "GenerateJWT j now uid (GetUsername c) ''admin'' secret hours = Some token"
    using assms by (auto simp: RefreshToken_def GetUser_def issue_def split: option.splits)
  from token_accepted [OF assms(1) this assms(10)] show ?thesis by (simp add: AdminAuth_def)
qed

text \<open>With captchas switched on and no cache, any two non-empty strings pass.\<close>

theorem captcha_without_cache:
  assumes "cid \<noteq> []" "code \<noteq> []"
  shows "captcha_passes True False reads deletes now cid code store = (True, store)"
  using assms by (simp add: captcha_passes_def)

text \<open>A captcha that can be deleted is good for one attempt.\<close>

lemma captcha_once:
  assumes "VerifyAndDeleteCaptcha True True now cid code store = (Some True, store')"
  shows "VerifyAndDeleteCaptcha reads' deletes' now' cid code' store' = (None, store')"
  using assms by (auto simp: VerifyAndDeleteCaptcha_def Let_def delete_conv split: option.splits if_splits)

text \<open>A secret that was generated has 128 hexadecimal digits; a one_second instance that can read takes the first one's.\<close>

lemma generated_secret_length:
  assumes "rand_fills rnd" "generateSecret rnd = Some s"
  shows "length s = 128"
  using assms by (auto simp: generateSecret_def rand_fills_def JWTSecretLength_def hex_EncodeToString_def length_concat comp_def sum_list_triv)

lemma instances_share_secret:
  assumes "loadOrGenerateSecret True True True rnd redis = (Some s, redis')" "s \<noteq> []"
  shows "loadOrGenerateSecret True True writes rnd' redis' = (Some s, redis')" "refreshLoop_turn True True current redis' = s"
proof -
  have "redis' = Some s" using assms by (auto simp: loadOrGenerateSecret_def split: option.splits list.splits)
  moreover obtain c cs where "s = c # cs" using assms(2) by (cases s) auto
  ultimately show "loadOrGenerateSecret True True writes rnd' redis' = (Some s, redis')" "refreshLoop_turn True True current redis' = s"
    by (simp_all add: loadOrGenerateSecret_def refreshLoop_turn_def)
qed

section \<open>Witnesses\<close>

text \<open>A toy library whose tokens are the fields, written out, and whose only secret is \<open>s\<close>.\<close>

definition toy_claims :: claims where
  "toy_claims = \<lparr> cl_fields = [(''user_id'', CStr ''a''), (''username'', CStr ''alice''), (''role'', CStr ''admin'')], cl_iat = 0, cl_exp = 3600 \<rparr>"

definition toy_jwt :: jwt where
  "toy_jwt = \<lparr> jw_Sign = (\<lambda>s c. if s = ''s'' \<and> c = toy_claims then Some ''t'' else None), jw_HMAC = (\<lambda>t. t = ''t''),
               jw_Parse = (\<lambda>s now t. if s = ''s'' \<and> t = ''t'' \<and> now < 3600 * one_second then Some toy_claims else None) \<rparr>"

lemma toy_jwt_law: "jwt_law toy_jwt"
  by (auto simp: jwt_law_def toy_jwt_def toy_claims_def)

theorem login_gives_access_witness:
  "\<exists>c. JWTAuth toy_jwt ''s'' 5 ''Bearer t'' = Next c \<and> AdminAuth c \<and> GetUserID c = ''a''"
proof -
  let ?db = "snd (register_toy up ''a'' alice no_users)"
  have log: "Login toy_jwt toy_bcrypt up True 0 0 0 ''s'' 1 ''alice'' ''Secret42'' ?db =
      (LoggedIn ''t'' ''a'' ''alice'' ''admin'' 3600, snd (Authenticate toy_bcrypt up 0 ''alice'' ''Secret42'' ?db))"
    unfolding Login_def alice_registered snd_conv
    by (simp add: Authenticate_def live_users_def up_def CheckPassword_def toy_bcrypt_def issue_def GenerateJWT_def toy_jwt_def
        toy_claims_def token_lifetime_def one_second_def wrap64_def)
  have "(5 :: int) < (0 + token_lifetime 1) div one_second * one_second" by (simp add: token_lifetime_def one_second_def wrap64_def)
  from login_gives_access [OF toy_jwt_law log this] show ?thesis by auto
qed

definition toy_ck :: string where
  "toy_ck = ''gkp_'' @ replicate 64 CHR ''0''"

definition toy_keys :: "connection_key list" where
  "toy_keys = [\<lparr> ck_NodeID = ''a'', ck_Key = toy_ck, ck_Type = ''user'', ck_Label = ''user-ck'', ck_ExpiresAt = 9, ck_Revoked = False, ck_LastUsed = None \<rparr>]"

theorem ck_access_current_witness:
  "\<exists>c k. CKAuth True True 5 6 \<lparr> cr_XConnectionKey = [], cr_Authorization = ''CK '' @ toy_ck, cr_QueryCK = [] \<rparr> toy_keys
       (snd (register_toy up ''a'' alice no_users)) = Next c \<and> k \<in> set toy_keys \<and> GetUserID c = ck_NodeID k"
proof -
  let ?r = "\<lparr> cr_XConnectionKey = [], cr_Authorization = ''CK '' @ toy_ck, cr_QueryCK = [] \<rparr>"
  have "hex_value CHR ''0'' = Some 0" by code_simp
  then have "ValidateCK toy_ck = None" by (simp add: ValidateCK_iff toy_ck_def list_all_iff)
  moreover have "extractCK ?r = toy_ck" "toy_ck \<noteq> []" by (simp_all add: extractCK_def toy_ck_def)
  ultimately have "ck_checks True 5 6 ''user'' ?r toy_keys = Inr (hd toy_keys)"
    by (simp add: ck_checks_def toy_keys_def GetCKByKey_def CK_IsExpired_def)
  then obtain c where c: "CKAuth True True 5 6 ?r toy_keys (snd (register_toy up ''a'' alice no_users)) = Next c"
    by (simp add: CKAuth_def toy_keys_def alice_registered DAO_GetUser_def live_users_def)
  from ck_access_current [OF c] c show ?thesis by metis
qed

end
