(* ===== verification/Nodes.thy ===== *)
theory Nodes
  imports Prelude "HOL-Library.List_Lexorder" "HOL-Library.Char_ord"
begin

text \<open>
  The tables of nodes and node groups of the control plane: the queries of \<open>plane/internal/db/dao/node.go\<close> over the
  rows of \<open>plane/internal/db/models/node.go\<close>. A table is the list of its rows; queries see the rows that are not
  marked as deleted, and a deletion marks them. Whether a statement succeeds is the argument \<open>ok\<close>. Of a node the
  columns that the modelled callers read or write are kept. \<open>Save\<close> of the database library updates the row with the
  identifier of its argument; what it does when no row was updated is the argument \<open>upsert\<close> (the library inserts the row
  and lets it replace a row with the same identifier).
\<close>

section \<open>Rows\<close>

record node_row =
  nd_ID :: string
  nd_CreatedAt :: int
  nd_UpdatedAt :: int
  nd_DeletedAt :: "int option"
  nd_Name :: string
  nd_Status :: string
  nd_LastOnline :: int
  nd_Version :: string
  nd_Role :: string
  nd_PublicIP :: string
  nd_Port :: int
  nd_Token :: string
  nd_APIKey :: string

record group_row =
  ng_ID :: string
  ng_CreatedAt :: int
  ng_DeletedAt :: "int option"
  ng_Name :: string
  ng_Role :: string

text \<open>A row of \<open>node_group_nodes\<close> is a pair of a node and a group.\<close>

record node_db =
  nb_nodes :: "node_row list"
  nb_groups :: "group_row list"
  nb_members :: "(string \<times> string) list"

text \<open>\<open>models.Node\<close> and \<open>models.NodeGroup\<close> in memory: the columns and the association, which stays empty unless the query
  preloads it.\<close>

record node_obj =
  no_row :: node_row
  no_Groups :: "group_row list"

record group_obj =
  go_row :: group_row
  go_Nodes :: "node_row list"

datatype dao_error = Dao_failed | Dao_not_found

section \<open>Queries on nodes\<close>

definition live_nodes :: "node_db \<Rightarrow> node_row list" where
  "live_nodes db = filter (\<lambda>n. nd_DeletedAt n = None) (nb_nodes db)"

definition live_groups :: "node_db \<Rightarrow> group_row list" where
  "live_groups db = filter (\<lambda>g. ng_DeletedAt g = None) (nb_groups db)"

text \<open>\<open>First\<close> takes the row with the least primary key.\<close>

definition first_node :: "(node_row \<Rightarrow> bool) \<Rightarrow> node_db \<Rightarrow> node_obj option" where
  "first_node P db =
     (case sort_key nd_ID (filter P (live_nodes db)) of
        [] \<Rightarrow> None | n # _ \<Rightarrow> Some \<lparr> no_row = n, no_Groups = [] \<rparr>)"

definition CreateNode :: "bool \<Rightarrow> node_row \<Rightarrow> node_db \<Rightarrow> dao_error option \<times> node_db" where
  "CreateNode ok n db =
     (if \<not> ok \<or> nd_ID n \<in> nd_ID ` set (nb_nodes db) then (Some Dao_failed, db)
      else (None, db\<lparr> nb_nodes := nb_nodes db @ [n] \<rparr>))"

definition GetNode :: "bool \<Rightarrow> string \<Rightarrow> node_db \<Rightarrow> dao_error + node_obj option" where
  "GetNode ok i db = (if ok then Inr (first_node (\<lambda>n. nd_ID n = i) db) else Inl Dao_failed)"

definition GetNodeByAPIKey :: "bool \<Rightarrow> string \<Rightarrow> node_db \<Rightarrow> dao_error + node_obj option" where
  "GetNodeByAPIKey ok apiKey db = (if ok then Inr (first_node (\<lambda>n. nd_APIKey n = apiKey) db) else Inl Dao_failed)"

definition GetNodeByToken :: "bool \<Rightarrow> string \<Rightarrow> node_db \<Rightarrow> dao_error + node_obj option" where
  "GetNodeByToken ok token db = (if ok then Inr (first_node (\<lambda>n. nd_Token n = token) db) else Inl Dao_failed)"

definition SanitizePagination :: "int \<Rightarrow> int \<Rightarrow> int \<Rightarrow> int \<times> int" where
  "SanitizePagination limit offset maxLimit =
     (let m = (if maxLimit \<le> 0 then 200 else maxLimit)
      in (if limit \<le> 0 then 20 else if limit > m then m else limit, if offset < 0 then 0 else offset))"

text \<open>The join yields a row for every membership; rows created at the same time keep the order of the table.\<close>

definition joined_nodes :: "string \<Rightarrow> node_db \<Rightarrow> node_row list" where
  "joined_nodes gid db =
     (if gid = [] then live_nodes db
      else concat (map (\<lambda>n. map (\<lambda>_. n) (filter (\<lambda>m. m = (nd_ID n, gid)) (nb_members db))) (live_nodes db)))"

definition ListNodes :: "bool \<Rightarrow> string \<Rightarrow> string \<Rightarrow> int \<Rightarrow> int \<Rightarrow> node_db \<Rightarrow> dao_error + node_row list" where
  "ListNodes ok gid status limit offset db =
     (if \<not> ok then Inl Dao_failed
      else (case SanitizePagination limit offset 1000 of (l, off) \<Rightarrow>
        Inr (take (nat l) (drop (nat off)
          (sort_key (\<lambda>n. - nd_CreatedAt n)
            (filter (\<lambda>n. status \<noteq> [] \<longrightarrow> nd_Status n = status) (joined_nodes gid db)))))))"

definition put_node :: "node_row \<Rightarrow> node_row list \<Rightarrow> node_row list" where
  "put_node n ns =
     (if nd_ID n \<in> nd_ID ` set ns then map (\<lambda>m. if nd_ID m = nd_ID n then n else m) ns else ns @ [n])"

definition UpdateNode :: "bool \<Rightarrow> bool \<Rightarrow> int \<Rightarrow> node_obj \<Rightarrow> node_db \<Rightarrow> dao_error option \<times> node_db" where
  "UpdateNode ok upsert now n db =
     (let r = (no_row n)\<lparr> nd_UpdatedAt := now \<rparr> in
      if \<not> ok then (Some Dao_failed, db)
      else if nd_ID r \<in> nd_ID ` set (live_nodes db) \<or> upsert
      then (None, db\<lparr> nb_nodes := put_node r (nb_nodes db) \<rparr>)
      else (None, db))"

definition UpdateNodeStatus :: "bool \<Rightarrow> int \<Rightarrow> string \<Rightarrow> string \<Rightarrow> node_db \<Rightarrow> dao_error option \<times> node_db" where
  "UpdateNodeStatus ok now i status db =
     (if \<not> ok then (Some Dao_failed, db)
      else (None, db\<lparr> nb_nodes := map (\<lambda>n. if nd_ID n = i \<and> nd_DeletedAt n = None
                then n\<lparr> nd_Status := status, nd_UpdatedAt := now,
                        nd_LastOnline := (if status = ''online'' then now else nd_LastOnline n) \<rparr>
                else n) (nb_nodes db) \<rparr>))"

definition DeleteNode :: "bool \<Rightarrow> int \<Rightarrow> string \<Rightarrow> node_db \<Rightarrow> dao_error option \<times> node_db" where
  "DeleteNode ok now i db =
     (if \<not> ok then (Some Dao_failed, db)
      else if i \<notin> nd_ID ` set (live_nodes db) then (Some Dao_not_found, db)
      else (None, db\<lparr> nb_nodes := map (\<lambda>n. if nd_ID n = i \<and> nd_DeletedAt n = None then n\<lparr> nd_DeletedAt := Some now \<rparr> else n)
                        (nb_nodes db) \<rparr>))"

definition CountNodes :: "bool \<Rightarrow> string \<Rightarrow> node_db \<Rightarrow> dao_error + nat" where
  "CountNodes ok status db =
     (if \<not> ok then Inl Dao_failed
      else Inr (length (filter (\<lambda>n. status \<noteq> [] \<longrightarrow> nd_Status n = status) (live_nodes db))))"

section \<open>Queries on groups\<close>

definition group_nodes :: "string \<Rightarrow> node_db \<Rightarrow> node_row list" where
  "group_nodes gid db = filter (\<lambda>n. (nd_ID n, gid) \<in> set (nb_members db)) (live_nodes db)"

definition find_group :: "string \<Rightarrow> node_db \<Rightarrow> group_row option" where
  "find_group gid db = find (\<lambda>g. ng_ID g = gid) (live_groups db)"

definition CreateNodeGroup :: "bool \<Rightarrow> group_row \<Rightarrow> node_db \<Rightarrow> dao_error option \<times> node_db" where
  "CreateNodeGroup ok g db =
     (if \<not> ok \<or> ng_ID g \<in> ng_ID ` set (nb_groups db) \<or> ng_Name g \<in> ng_Name ` set (nb_groups db)
      then (Some Dao_failed, db) else (None, db\<lparr> nb_groups := nb_groups db @ [g] \<rparr>))"

definition GetNodeGroup :: "bool \<Rightarrow> string \<Rightarrow> node_db \<Rightarrow> dao_error + group_obj option" where
  "GetNodeGroup ok gid db =
     (if ok then Inr (map_option (\<lambda>g. \<lparr> go_row = g, go_Nodes = [] \<rparr>) (find_group gid db)) else Inl Dao_failed)"

definition GetNodeGroupWithNodes :: "bool \<Rightarrow> string \<Rightarrow> node_db \<Rightarrow> dao_error + group_obj option" where
  "GetNodeGroupWithNodes ok gid db =
     (if ok then Inr (map_option (\<lambda>g. \<lparr> go_row = g, go_Nodes = group_nodes gid db \<rparr>) (find_group gid db)) else Inl Dao_failed)"

definition ListNodeGroups :: "bool \<Rightarrow> string \<Rightarrow> node_db \<Rightarrow> dao_error + group_obj list" where
  "ListNodeGroups ok role db =
     (if \<not> ok then Inl Dao_failed
      else Inr (map (\<lambda>g. \<lparr> go_row = g, go_Nodes = group_nodes (ng_ID g) db \<rparr>)
                 (sort_key (\<lambda>g. - ng_CreatedAt g) (filter (\<lambda>g. role \<noteq> [] \<longrightarrow> ng_Role g = role) (live_groups db)))))"

definition UpdateNodeGroup :: "bool \<Rightarrow> bool \<Rightarrow> group_row \<Rightarrow> node_db \<Rightarrow> dao_error option \<times> node_db" where
  "UpdateNodeGroup ok upsert g db =
     (if \<not> ok \<or> (\<exists>h \<in> set (nb_groups db). ng_Name h = ng_Name g \<and> ng_ID h \<noteq> ng_ID g) then (Some Dao_failed, db)
      else if ng_ID g \<in> ng_ID ` set (live_groups db) \<or> upsert
      then (None, db\<lparr> nb_groups := (if ng_ID g \<in> ng_ID ` set (nb_groups db)
              then map (\<lambda>h. if ng_ID h = ng_ID g then g else h) (nb_groups db) else nb_groups db @ [g]) \<rparr>)
      else (None, db))"

definition DeleteNodeGroup :: "bool \<Rightarrow> int \<Rightarrow> string \<Rightarrow> node_db \<Rightarrow> dao_error option \<times> node_db" where
  "DeleteNodeGroup ok now gid db =
     (if \<not> ok then (Some Dao_failed, db)
      else if gid \<notin> ng_ID ` set (live_groups db) then (Some Dao_not_found, db)
      else (None, db\<lparr> nb_groups := map (\<lambda>g. if ng_ID g = gid \<and> ng_DeletedAt g = None then g\<lparr> ng_DeletedAt := Some now \<rparr> else g)
                        (nb_groups db) \<rparr>))"

definition GetNodesInGroup :: "bool \<Rightarrow> string \<Rightarrow> node_db \<Rightarrow> dao_error + node_row list" where
  "GetNodesInGroup ok gid db =
     (if \<not> ok then Inl Dao_failed
      else case find_group gid db of None \<Rightarrow> Inl Dao_not_found | Some _ \<Rightarrow> Inr (group_nodes gid db))"

definition AddNodeToGroup :: "bool \<Rightarrow> string \<Rightarrow> string \<Rightarrow> node_db \<Rightarrow> dao_error option \<times> node_db" where
  "AddNodeToGroup ok i gid db =
     (if \<not> ok then (Some Dao_failed, db)
      else (None, db\<lparr> nb_members := (if (i, gid) \<in> set (nb_members db) then nb_members db else nb_members db @ [(i, gid)]) \<rparr>))"

definition RemoveNodeFromGroup :: "bool \<Rightarrow> string \<Rightarrow> string \<Rightarrow> node_db \<Rightarrow> dao_error option \<times> node_db" where
  "RemoveNodeFromGroup ok i gid db =
     (if \<not> ok then (Some Dao_failed, db)
      else (None, db\<lparr> nb_members := filter (\<lambda>m. m \<noteq> (i, gid)) (nb_members db) \<rparr>))"

section \<open>The tables of a run\<close>

definition node_db_ok :: "node_db \<Rightarrow> bool" where
  "node_db_ok db \<longleftrightarrow> distinct (map nd_ID (nb_nodes db)) \<and> distinct (map ng_ID (nb_groups db)) \<and> distinct (nb_members db)"

lemma put_node_IDs:
  "map nd_ID (put_node n ns) = (if nd_ID n \<in> nd_ID ` set ns then map nd_ID ns else map nd_ID ns @ [nd_ID n])"
  by (auto simp: put_node_def)

lemma put_node_distinct: "distinct (map nd_ID ns) \<Longrightarrow> distinct (map nd_ID (put_node n ns))"
  by (simp add: put_node_IDs)

lemma map_keeps: "(\<And>x. g (f x) = g x) \<Longrightarrow> distinct (map g xs) \<Longrightarrow> distinct (map g (map f xs))"
  by (simp add: comp_def)

lemma CreateNode_ok: "node_db_ok db \<Longrightarrow> node_db_ok (snd (CreateNode ok n db))"
  by (simp add: node_db_ok_def CreateNode_def)

lemma UpdateNode_ok: "node_db_ok db \<Longrightarrow> node_db_ok (snd (UpdateNode ok u now n db))"
  by (simp add: node_db_ok_def UpdateNode_def Let_def put_node_distinct)

lemma UpdateNodeStatus_ok: "node_db_ok db \<Longrightarrow> node_db_ok (snd (UpdateNodeStatus ok now i s db))"
  unfolding node_db_ok_def UpdateNodeStatus_def
  by (cases ok) (simp_all del: map_map, intro map_keeps, simp_all)

lemma DeleteNode_ok: "node_db_ok db \<Longrightarrow> node_db_ok (snd (DeleteNode ok now i db))"
  unfolding node_db_ok_def DeleteNode_def
  by (cases "ok \<and> i \<in> nd_ID ` set (live_nodes db)") (auto simp del: map_map intro!: map_keeps)

lemma CreateNodeGroup_ok: "node_db_ok db \<Longrightarrow> node_db_ok (snd (CreateNodeGroup ok g db))"
  by (simp add: node_db_ok_def CreateNodeGroup_def)

lemma UpdateNodeGroup_ok: "node_db_ok db \<Longrightarrow> node_db_ok (snd (UpdateNodeGroup ok u g db))"
  unfolding node_db_ok_def UpdateNodeGroup_def by (auto simp del: map_map intro!: map_keeps)

lemma DeleteNodeGroup_ok: "node_db_ok db \<Longrightarrow> node_db_ok (snd (DeleteNodeGroup ok now i db))"
  unfolding node_db_ok_def DeleteNodeGroup_def
  by (cases "ok \<and> i \<in> ng_ID ` set (live_groups db)") (auto simp del: map_map intro!: map_keeps)

lemma members_ok:
  "node_db_ok db \<Longrightarrow> node_db_ok (snd (AddNodeToGroup ok i j db))"
  "node_db_ok db \<Longrightarrow> node_db_ok (snd (RemoveNodeFromGroup ok i j db))"
  by (simp_all add: node_db_ok_def AddNodeToGroup_def RemoveNodeFromGroup_def)

lemmas node_ops_ok = CreateNode_ok UpdateNode_ok UpdateNodeStatus_ok DeleteNode_ok
  CreateNodeGroup_ok UpdateNodeGroup_ok DeleteNodeGroup_ok members_ok

section \<open>Lookups\<close>

lemma first_node_Some:
  assumes "first_node P db = Some n"
  shows "no_row n \<in> set (live_nodes db) \<and> P (no_row n) \<and> no_Groups n = []"
proof -
  obtain m ms where m: "sort_key nd_ID (filter P (live_nodes db)) = m # ms" "n = \<lparr> no_row = m, no_Groups = [] \<rparr>"
    using assms by (auto simp: first_node_def split: list.splits)
  have "m \<in> set (sort_key nd_ID (filter P (live_nodes db)))" using m(1) by simp
  then show ?thesis using m(2) by simp
qed

lemma first_node_None: "first_node P db = None \<longleftrightarrow> (\<forall>n \<in> set (live_nodes db). \<not> P n)"
proof -
  have "first_node P db = None \<longleftrightarrow> set (sort_key nd_ID (filter P (live_nodes db))) = {}"
    by (auto simp: first_node_def split: list.splits simp del: set_sort)
  then show ?thesis by auto
qed

lemma live_distinct: "node_db_ok db \<Longrightarrow> distinct (map nd_ID (live_nodes db))"
  by (simp add: node_db_ok_def live_nodes_def distinct_map_filter)

lemma same_row: "node_db_ok db \<Longrightarrow> m \<in> set (nb_nodes db) \<Longrightarrow> n \<in> set (nb_nodes db) \<Longrightarrow> nd_ID m = nd_ID n \<Longrightarrow> m = n"
  by (auto simp: node_db_ok_def distinct_map inj_on_def)

lemma GetNode_Some:
  assumes "GetNode ok i db = Inr (Some n)"
  shows "no_row n \<in> set (nb_nodes db)" "nd_DeletedAt (no_row n) = None" "nd_ID (no_row n) = i" "no_Groups n = []" "ok"
  using first_node_Some [of "\<lambda>n. nd_ID n = i" db n] assms by (auto simp: GetNode_def live_nodes_def split: if_splits)

lemma GetNode_iff:
  assumes "node_db_ok db"
  shows "GetNode True i db = Inr (Some n) \<longleftrightarrow>
    no_row n \<in> set (nb_nodes db) \<and> nd_DeletedAt (no_row n) = None \<and> nd_ID (no_row n) = i \<and> no_Groups n = []"
    (is "?l \<longleftrightarrow> ?r")
proof
  assume ?l then show ?r using GetNode_Some by auto
next
  assume r: ?r
  then have "first_node (\<lambda>n. nd_ID n = i) db \<noteq> None" unfolding first_node_None by (auto simp: live_nodes_def)
  then obtain m where m: "first_node (\<lambda>n. nd_ID n = i) db = Some m" by auto
  then have m': "no_row m \<in> set (nb_nodes db)" "nd_ID (no_row m) = i" "no_Groups m = []"
    using first_node_Some [OF m] by (auto simp: live_nodes_def)
  have "no_row m = no_row n" using same_row [OF assms m'(1), of "no_row n"] r m'(2) by simp
  then have "m = n" using m'(3) r by (cases m, cases n) simp
  then show ?l using m by (simp add: GetNode_def)
qed

lemma joined_nodes_group:
  assumes "distinct (nb_members db)" "gid \<noteq> []"
  shows "joined_nodes gid db = group_nodes gid db"
proof -
  have one: "filter (\<lambda>m. m = x) ms = (if x \<in> set ms then [x] else [])" if "distinct ms" for x :: "string \<times> string" and ms
    using that by (induction ms) auto
  have "concat (map (\<lambda>n. map (\<lambda>_. n) (filter (\<lambda>m. m = (nd_ID n, gid)) (nb_members db))) ns)
      = filter (\<lambda>n. (nd_ID n, gid) \<in> set (nb_members db)) ns" for ns :: "node_row list"
    by (induction ns) (simp_all add: one [OF assms(1)])
  then show ?thesis using assms(2) by (simp add: joined_nodes_def group_nodes_def)
qed

lemma ListNodes_set:
  "ListNodes ok gid status limit offset db = Inr ns \<Longrightarrow> n \<in> set ns \<Longrightarrow>
     n \<in> set (live_nodes db) \<and> (status \<noteq> [] \<longrightarrow> nd_Status n = status)
     \<and> (gid \<noteq> [] \<longrightarrow> (nd_ID n, gid) \<in> set (nb_members db))"
  by (cases "gid = []")
    (auto simp: ListNodes_def joined_nodes_def split: if_splits prod.splits dest!: in_set_takeD in_set_dropD)

text \<open>
  Listing the members of a group: with at most a page of them, the listing is exactly the live nodes that belong to the
  group and have the status, newest first, each once.
\<close>

lemma members_listed:
  assumes "node_db_ok db" and "gid \<noteq> []" and "0 < limit" and "limit \<le> 1000"
    and "int (length (group_nodes gid db)) \<le> limit"
  shows "\<exists>ns. ListNodes True gid status limit 0 db = Inr ns \<and> distinct (map nd_ID ns) \<and> sorted (map (\<lambda>n. - nd_CreatedAt n) ns) \<and>
    set ns = {n. n \<in> set (live_nodes db) \<and> (nd_ID n, gid) \<in> set (nb_members db) \<and> (status = [] \<or> nd_Status n = status)}"
proof -
  let ?fs = "filter (\<lambda>n. status \<noteq> [] \<longrightarrow> nd_Status n = status) (group_nodes gid db)"
  let ?ns = "sort_key (\<lambda>n. - nd_CreatedAt n) ?fs"
  have "length (group_nodes gid db) \<le> nat limit" using assms(3,5) by simp
  then have "length ?ns \<le> nat limit" by (simp add: le_trans [OF length_filter_le])
  then have "ListNodes True gid status limit 0 db = Inr ?ns"
    using assms joined_nodes_group [of db gid] by (simp add: ListNodes_def SanitizePagination_def node_db_ok_def)
  moreover have "distinct (map nd_ID ?fs)"
    using live_distinct [OF assms(1)] by (simp add: group_nodes_def distinct_map_filter)
  then have "distinct (map nd_ID ?ns)" by (auto simp: distinct_map)
  ultimately show ?thesis by (intro exI [of _ ?ns]) (auto simp: group_nodes_def)
qed

end
