(* ===== verification/Monitoring.thy ===== *)
theory Monitoring
  imports Nodes Go_Float Access
begin

text \<open>
  Monitoring of the nodes: \<open>plane/internal/service/node_monitoring.go\<close>, \<open>alert_system.go\<close>, the queries of
  \<open>plane/internal/db/dao/monitoring.go\<close> and the decisions of \<open>plane/internal/api/handler/system/monitoring.go\<close>.
  Floating-point metrics are the rationals of \<open>Go_Float\<close> (a JSON report holds no other value); times are nanoseconds.
  Whether a statement succeeds is the argument \<open>works\<close>. The columns of a report that are only stored and shown, texts of
  messages and logging are left out.
\<close>

section \<open>Rows\<close>

record mon_sample =
  ms_Uptime :: int
  ms_CPUUsage :: rat
  ms_MemoryUsage :: rat
  ms_DiskUsage :: rat
  ms_BandwidthIn :: int
  ms_BandwidthOut :: int
  ms_ActiveTunnels :: int
  ms_TotalConnections :: int
  ms_TrafficIn :: int
  ms_TrafficOut :: int
  ms_PacketsIn :: int
  ms_PacketsOut :: int
  ms_ConnectionErrors :: int
  ms_TunnelErrors :: int
  ms_AvgResponseTime :: rat

record mon_data =
  md_NodeID :: string
  md_Timestamp :: int
  md_sample :: mon_sample

record mon_config =
  mc_ID :: string
  mc_NodeID :: string
  mc_MonitoringEnabled :: bool
  mc_DataRetentionDays :: int

record alert_rule =
  al_ID :: string
  al_NodeID :: string
  al_MetricType :: string
  al_Operator :: string
  al_ThresholdValue :: rat
  al_DurationSeconds :: int
  al_Severity :: string
  al_Enabled :: bool

record alert_row =
  ah_ID :: string
  ah_RuleID :: string
  ah_NodeID :: string
  ah_AlertType :: string
  ah_Severity :: string
  ah_MetricValue :: rat
  ah_Status :: string
  ah_TriggeredAt :: int
  ah_AcknowledgedAt :: "int option"
  ah_AcknowledgedBy :: string
  ah_ResolvedAt :: "int option"

record mon_perm =
  mp_ID :: string
  mp_UserID :: string
  mp_NodeID :: string
  mp_PermissionType :: string
  mp_Enabled :: bool

record mon_history =
  mh_NodeID :: string
  mh_AggregationTime :: int
  mh_AvgCPU :: rat
  mh_AvgMemory :: rat
  mh_AvgDisk :: rat
  mh_AvgBandwidthIn :: int
  mh_AvgBandwidthOut :: int
  mh_AvgConnections :: int
  mh_AvgResponseTime :: rat
  mh_MaxCPU :: rat
  mh_MaxMemory :: rat
  mh_MaxConnections :: int
  mh_MaxResponseTime :: rat
  mh_TotalTrafficIn :: int
  mh_TotalTrafficOut :: int
  mh_TotalPacketsIn :: int
  mh_TotalPacketsOut :: int
  mh_TotalErrors :: int

record mon_db =
  mb_configs :: "mon_config list"
  mb_data :: "mon_data list"
  mb_history :: "mon_history list"
  mb_rules :: "alert_rule list"
  mb_alerts :: "alert_row list"
  mb_perms :: "mon_perm list"

datatype mon_query =
    MQ_node | MQ_config | MQ_upsert | MQ_store | MQ_rules | MQ_alert | MQ_nodes | MQ_status | MQ_list | MQ_history | MQ_clean
  | MQ_perm | MQ_user | MQ_key

datatype mon_error = ME_no_node | ME_config | ME_disabled | ME_store

section \<open>Queries\<close>

definition GetNodeMonitoringConfig :: "string \<Rightarrow> mon_db \<Rightarrow> mon_config option" where
  "GetNodeMonitoringConfig i db = find (\<lambda>c. mc_NodeID c = i) (mb_configs db)"

definition DefaultNodeMonitoringConfig :: "string \<Rightarrow> mon_config" where
  "DefaultNodeMonitoringConfig i = \<lparr> mc_ID = [], mc_NodeID = i, mc_MonitoringEnabled = True, mc_DataRetentionDays = 30 \<rparr>"

text \<open>\<open>Save\<close> with an identifier updates that row or inserts one; the node of a configuration is unique. \<open>newID\<close> is fresh.\<close>

definition UpsertNodeMonitoringConfig :: "bool \<Rightarrow> string \<Rightarrow> mon_config \<Rightarrow> mon_db \<Rightarrow> bool \<times> mon_db" where
  "UpsertNodeMonitoringConfig ok newID cfg db =
     (let c = (if mc_ID cfg = [] then cfg\<lparr> mc_ID := newID \<rparr> else cfg);
          others = filter (\<lambda>d. mc_ID d \<noteq> mc_ID c) (mb_configs db) in
      if \<not> ok \<or> mc_NodeID c \<in> mc_NodeID ` set others then (False, db)
      else if mc_ID c \<in> mc_ID ` set (mb_configs db)
      then (True, db\<lparr> mb_configs := map (\<lambda>d. if mc_ID d = mc_ID c then c else d) (mb_configs db) \<rparr>)
      else (True, db\<lparr> mb_configs := mb_configs db @ [c] \<rparr>))"

definition GetLatestNodeMonitoringData :: "string \<Rightarrow> mon_db \<Rightarrow> mon_data option" where
  "GetLatestNodeMonitoringData i db =
     (case sort_key (\<lambda>d. - md_Timestamp d) (filter (\<lambda>d. md_NodeID d = i) (mb_data db)) of [] \<Rightarrow> None | d # _ \<Rightarrow> Some d)"

definition ListNodeMonitoringData :: "string \<Rightarrow> int \<Rightarrow> int \<Rightarrow> nat \<Rightarrow> mon_db \<Rightarrow> mon_data list" where
  "ListNodeMonitoringData i lo hi limit db =
     take limit (sort_key md_Timestamp (filter (\<lambda>d. md_NodeID d = i \<and> md_Timestamp d \<ge> lo \<and> md_Timestamp d < hi) (mb_data db)))"

text \<open>\<open>AddDate(0, 0, -days)\<close> of the clock is taken as so many days of 24 hours.\<close>

definition one_day :: int where "one_day = 24 * 3600 * 10 ^ 9"

definition DeleteOldMonitoringData :: "int \<Rightarrow> string \<Rightarrow> int \<Rightarrow> mon_db \<Rightarrow> mon_db" where
  "DeleteOldMonitoringData now i retentionDays db =
     db\<lparr> mb_data := filter (\<lambda>d. \<not> (md_NodeID d = i \<and> md_Timestamp d < now - retentionDays * one_day)) (mb_data db) \<rparr>"

definition ListNodeAlertRules :: "string \<Rightarrow> mon_db \<Rightarrow> alert_rule list" where
  "ListNodeAlertRules i db = filter (\<lambda>r. al_NodeID r = i) (mb_rules db)"

definition ListNodeAlertHistory :: "string \<Rightarrow> nat \<Rightarrow> mon_db \<Rightarrow> alert_row list" where
  "ListNodeAlertHistory i limit db = take limit (sort_key (\<lambda>a. - ah_TriggeredAt a) (filter (\<lambda>a. ah_NodeID a = i) (mb_alerts db)))"

definition UpdateNodeAlertHistoryStatus :: "int \<Rightarrow> string \<Rightarrow> string \<Rightarrow> string \<Rightarrow> mon_db \<Rightarrow> mon_db" where
  "UpdateNodeAlertHistoryStatus now i status acknowledgedBy db =
     db\<lparr> mb_alerts := map (\<lambda>a. if ah_ID a \<noteq> i then a
            else if status = ''acknowledged''
            then a\<lparr> ah_Status := status, ah_AcknowledgedAt := Some now, ah_AcknowledgedBy := acknowledgedBy \<rparr>
            else if status = ''resolved'' then a\<lparr> ah_Status := status, ah_ResolvedAt := Some now \<rparr>
            else a\<lparr> ah_Status := status \<rparr>) (mb_alerts db) \<rparr>"

definition GetMonitoringPermission :: "string \<Rightarrow> string \<Rightarrow> mon_db \<Rightarrow> mon_perm option" where
  "GetMonitoringPermission uid i db =
     (case sort_key mp_ID (filter (\<lambda>p. mp_UserID p = uid \<and> mp_NodeID p = i) (mb_perms db)) of [] \<Rightarrow> None | p # _ \<Rightarrow> Some p)"

section \<open>Notifications\<close>

text \<open>
  \<open>webhook\<close> and \<open>telegram\<close> are what the two requests give: no answer, or the status of the answer. The result is the
  channels in which an error was seen and those in which the alert was sent.
\<close>

record alert_system =
  as_webhook :: bool
  as_telegram :: bool

definition NewAlertSystem :: alert_system where
  "NewAlertSystem = \<lparr> as_webhook = False, as_telegram = False \<rparr>"

definition sendWebhook :: "nat option \<Rightarrow> bool" where
  "sendWebhook ans = (case ans of None \<Rightarrow> False | Some st \<Rightarrow> st < 400)"

definition sendTelegram :: "nat option \<Rightarrow> bool" where
  "sendTelegram ans = (ans \<noteq> None)"

definition AlertSystem_Send :: "nat option \<Rightarrow> nat option \<Rightarrow> alert_system \<Rightarrow> string list \<times> string list" where
  "AlertSystem_Send webhook telegram a =
     (filter (\<lambda>c. c = ''webhook'' \<and> as_webhook a \<and> \<not> sendWebhook webhook \<or> c = ''telegram'' \<and> as_telegram a \<and> \<not> sendTelegram telegram)
        [''webhook'', ''telegram''],
      filter (\<lambda>c. c = ''webhook'' \<and> as_webhook a \<or> c = ''telegram'' \<and> as_telegram a) [''webhook'', ''telegram''])"

section \<open>Reports and alerts\<close>

definition convertToMonitoringData :: "int \<Rightarrow> string \<Rightarrow> mon_sample \<Rightarrow> mon_data" where
  "convertToMonitoringData now i s = \<lparr> md_NodeID = i, md_Timestamp = now, md_sample = s \<rparr>"

definition ReportMonitoringData ::
    "(mon_query \<Rightarrow> bool) \<Rightarrow> string \<Rightarrow> int \<Rightarrow> string \<Rightarrow> mon_sample \<Rightarrow> node_db \<Rightarrow> mon_db \<Rightarrow> mon_error option \<times> mon_db" where
  "ReportMonitoringData works newID now i s nodes db =
     (case GetNode (works MQ_node) i nodes of
        Inl _ \<Rightarrow> (Some ME_no_node, db)
      | Inr None \<Rightarrow> (Some ME_no_node, db)
      | Inr (Some _) \<Rightarrow>
          if \<not> works MQ_config then (Some ME_config, db)
          else (let (config, db1) =
                  (case GetNodeMonitoringConfig i db of
                     Some c \<Rightarrow> (c, db)
                   | None \<Rightarrow> (DefaultNodeMonitoringConfig i,
                       snd (UpsertNodeMonitoringConfig (works MQ_upsert) newID (DefaultNodeMonitoringConfig i) db))) in
                if \<not> mc_MonitoringEnabled config then (Some ME_disabled, db1)
                else if \<not> works MQ_store then (Some ME_store, db1)
                else (None, db1\<lparr> mb_data := mb_data db1 @ [convertToMonitoringData now i s] \<rparr>)))"

definition metric_value :: "string \<Rightarrow> mon_sample \<Rightarrow> rat option" where
  "metric_value ty s =
     (if ty = ''cpu'' then Some (ms_CPUUsage s)
      else if ty = ''memory'' then Some (ms_MemoryUsage s)
      else if ty = ''disk'' then Some (ms_DiskUsage s)
      else if ty = ''response_time'' then Some (ms_AvgResponseTime s)
      else if ty = ''connections'' then Some (float64 (ms_TotalConnections s))
      else None)"

definition compare_metric :: "string \<Rightarrow> rat \<Rightarrow> rat \<Rightarrow> bool" where
  "compare_metric oper v t =
     (if oper = ''>'' then v > t else if oper = ''<'' then v < t
      else if oper = ''>='' then v \<ge> t else if oper = ''<='' then v \<le> t
      else if oper = ''='' then v = t else if oper = ''!='' then v \<noteq> t else False)"

definition triggerAlert :: "bool \<Rightarrow> string \<Rightarrow> int \<Rightarrow> alert_rule \<Rightarrow> string \<Rightarrow> rat \<Rightarrow> mon_db \<Rightarrow> mon_db" where
  "triggerAlert ok newID now r i v db =
     (if \<not> ok then db
      else db\<lparr> mb_alerts := mb_alerts db @
        [\<lparr> ah_ID = newID, ah_RuleID = al_ID r, ah_NodeID = i, ah_AlertType = al_MetricType r, ah_Severity = al_Severity r,
           ah_MetricValue = v, ah_Status = ''triggered'', ah_TriggeredAt = now, ah_AcknowledgedAt = None,
           ah_AcknowledgedBy = [], ah_ResolvedAt = None \<rparr>] \<rparr>)"

definition rule_fires :: "alert_rule \<Rightarrow> mon_sample \<Rightarrow> rat option" where
  "rule_fires r s =
     (if \<not> al_Enabled r then None
      else case metric_value (al_MetricType r) s of
             None \<Rightarrow> None
           | Some v \<Rightarrow> if compare_metric (al_Operator r) v (al_ThresholdValue r) then Some v else None)"

text \<open>\<open>newID\<close> gives the identifier of the alert of a rule.\<close>

primrec check_rules :: "bool \<Rightarrow> (string \<Rightarrow> string) \<Rightarrow> int \<Rightarrow> string \<Rightarrow> mon_sample \<Rightarrow> alert_rule list \<Rightarrow> mon_db \<Rightarrow> mon_db" where
  "check_rules ok newID now i s [] db = db"
| "check_rules ok newID now i s (r # rs) db =
     check_rules ok newID now i s rs
       (case rule_fires r s of None \<Rightarrow> db | Some v \<Rightarrow> triggerAlert ok (newID (al_ID r)) now r i v db)"

definition checkAlerts :: "(mon_query \<Rightarrow> bool) \<Rightarrow> (string \<Rightarrow> string) \<Rightarrow> int \<Rightarrow> string \<Rightarrow> mon_sample \<Rightarrow> mon_db \<Rightarrow> mon_db" where
  "checkAlerts works newID now i s db =
     (if works MQ_rules then check_rules (works MQ_alert) newID now i s (ListNodeAlertRules i db) db else db)"

definition updateNodeStatus :: "bool \<Rightarrow> int \<Rightarrow> string \<Rightarrow> node_db \<Rightarrow> node_db" where
  "updateNodeStatus ok now i nodes = snd (UpdateNodeStatus ok now i ''online'' nodes)"

section \<open>Aggregation\<close>

definition fsum :: "rat list \<Rightarrow> rat" where
  "fsum xs = fold (\<lambda>x t. fadd t x) xs 0"

definition running_max :: "('a :: linorder) \<Rightarrow> 'a list \<Rightarrow> 'a" where
  "running_max z xs = fold (\<lambda>x m. if x > m then x else m) xs z"

definition hourly_history :: "string \<Rightarrow> int \<Rightarrow> mon_sample list \<Rightarrow> mon_history" where
  "hourly_history i from_time ss =
     (let n = int (length ss); fmean = (\<lambda>g. fdiv (fsum (map g ss)) (float64 n)); imean = (\<lambda>g. sum64 (map g ss) sdiv n) in
      \<lparr> mh_NodeID = i, mh_AggregationTime = from_time,
        mh_AvgCPU = fmean ms_CPUUsage, mh_AvgMemory = fmean ms_MemoryUsage, mh_AvgDisk = fmean ms_DiskUsage,
        mh_AvgBandwidthIn = imean ms_BandwidthIn, mh_AvgBandwidthOut = imean ms_BandwidthOut,
        mh_AvgConnections = imean ms_TotalConnections, mh_AvgResponseTime = fmean ms_AvgResponseTime,
        mh_MaxCPU = running_max 0 (map ms_CPUUsage ss), mh_MaxMemory = running_max 0 (map ms_MemoryUsage ss),
        mh_MaxConnections = running_max 0 (map ms_TotalConnections ss),
        mh_MaxResponseTime = running_max 0 (map ms_AvgResponseTime ss),
        mh_TotalTrafficIn = sum64 (map ms_TrafficIn ss), mh_TotalTrafficOut = sum64 (map ms_TrafficOut ss),
        mh_TotalPacketsIn = sum64 (map ms_PacketsIn ss), mh_TotalPacketsOut = sum64 (map ms_PacketsOut ss),
        mh_TotalErrors = sum64 (map (\<lambda>s. add64 (ms_ConnectionErrors s) (ms_TunnelErrors s)) ss) \<rparr>)"

definition aggregateNodeHourlyData :: "(mon_query \<Rightarrow> bool) \<Rightarrow> string \<Rightarrow> int \<Rightarrow> int \<Rightarrow> mon_db \<Rightarrow> mon_db" where
  "aggregateNodeHourlyData works i lo hi db =
     (let ds = ListNodeMonitoringData i lo hi 1000 db in
      if \<not> works MQ_list \<or> ds = [] \<or> \<not> works MQ_history then db
      else db\<lparr> mb_history := mb_history db @ [hourly_history i lo (map md_sample ds)] \<rparr>)"

text \<open>The hour before the one of the clock; \<open>lo\<close> is its beginning.\<close>

definition aggregateHourlyData :: "(mon_query \<Rightarrow> bool) \<Rightarrow> int \<Rightarrow> node_db \<Rightarrow> mon_db \<Rightarrow> mon_db" where
  "aggregateHourlyData works lo nodes db =
     (case ListNodes (works MQ_nodes) [] [] 1000 0 nodes of
        Inl _ \<Rightarrow> db
      | Inr ns \<Rightarrow> fold (\<lambda>n. aggregateNodeHourlyData works (nd_ID n) lo (lo + 3600 * 10 ^ 9)) ns db)"

definition cleanupExpiredData :: "(mon_query \<Rightarrow> bool) \<Rightarrow> int \<Rightarrow> node_db \<Rightarrow> mon_db \<Rightarrow> mon_db" where
  "cleanupExpiredData works now nodes db =
     (case ListNodes (works MQ_nodes) [] [] 1000 0 nodes of
        Inl _ \<Rightarrow> db
      | Inr ns \<Rightarrow> fold (\<lambda>n d. case (if works MQ_config then GetNodeMonitoringConfig (nd_ID n) d else None) of
                                None \<Rightarrow> d
                              | Some c \<Rightarrow> if works MQ_clean then DeleteOldMonitoringData now (nd_ID n) (mc_DataRetentionDays c) d else d)
                  ns db)"

section \<open>Offline nodes\<close>

definition offline_after :: int where "offline_after = 5 * 60 * 10 ^ 9"

definition goes_offline :: "int \<Rightarrow> node_row \<Rightarrow> bool" where
  "goes_offline now n \<longleftrightarrow> nd_Status n = ''online'' \<and> now - nd_LastOnline n > offline_after"

text \<open>The result has the nodes an alert was raised for.\<close>

definition checkOfflineNodes :: "(mon_query \<Rightarrow> bool) \<Rightarrow> int \<Rightarrow> node_db \<Rightarrow> string list \<times> node_db" where
  "checkOfflineNodes works now nodes =
     (case ListNodes (works MQ_nodes) [] [] 1000 0 nodes of
        Inl _ \<Rightarrow> ([], nodes)
      | Inr ns \<Rightarrow> (let gone = map nd_ID (filter (goes_offline now) ns) in
          (gone, fold (\<lambda>i d. snd (UpdateNodeStatus (works MQ_status) now i ''offline'' d)) gone nodes)))"

section \<open>Status and permissions\<close>

record mon_status =
  st_NodeID :: string
  st_IsOnline :: bool
  st_HasData :: bool
  st_sample :: "mon_sample option"
  st_ActiveAlerts :: nat

definition GetNodeMonitoringStatus :: "(mon_query \<Rightarrow> bool) \<Rightarrow> int \<Rightarrow> string \<Rightarrow> mon_db \<Rightarrow> mon_status option" where
  "GetNodeMonitoringStatus works now i db =
     (if \<not> works MQ_list then None
      else case GetLatestNodeMonitoringData i db of
        None \<Rightarrow> Some \<lparr> st_NodeID = i, st_IsOnline = False, st_HasData = False, st_sample = None, st_ActiveAlerts = 0 \<rparr>
      | Some d \<Rightarrow>
          Some \<lparr> st_NodeID = i, st_IsOnline = (now - md_Timestamp d < offline_after), st_HasData = True,
                 st_sample = Some (md_sample d),
                 st_ActiveAlerts = (if works MQ_alert
                   then length (filter (\<lambda>a. ah_Status a = ''triggered'') (ListNodeAlertHistory i 10 db)) else 0) \<rparr>)"

definition perm_allows :: "mon_perm \<Rightarrow> string \<Rightarrow> bool" where
  "perm_allows p requiredLevel \<longleftrightarrow>
     (if \<not> mp_Enabled p \<or> mp_PermissionType p = ''disabled'' then False
      else if requiredLevel = ''view_basic'' then True
      else if requiredLevel = ''view_detailed''
      then mp_PermissionType p = ''view_detailed'' \<or> mp_PermissionType p = ''view_system'' \<or> mp_PermissionType p = ''view_network''
      else if requiredLevel = ''view_system'' then mp_PermissionType p = ''view_system''
      else if requiredLevel = ''view_network'' then mp_PermissionType p = ''view_network'' \<or> mp_PermissionType p = ''view_system''
      else False)"

definition CheckMonitoringPermission ::
    "(mon_query \<Rightarrow> bool) \<Rightarrow> string \<Rightarrow> string \<Rightarrow> string \<Rightarrow> user_db \<Rightarrow> mon_db \<Rightarrow> bool" where
  "CheckMonitoringPermission works uid i requiredLevel users db =
     (if works MQ_user \<and> (case DAO_GetUser uid users of Some u \<Rightarrow> us_Role u = ''admin'' | None \<Rightarrow> False) then True
      else case (if works MQ_perm then GetMonitoringPermission uid i db else None) of
        None \<Rightarrow> False
      | Some p \<Rightarrow> perm_allows p requiredLevel)"

section \<open>The handlers\<close>

datatype api_answer = Bad_request | Not_found | Internal_error | Not_authorized | Done

text \<open>\<open>stored\<close> is the value that the database library writes for a flag of a new row whose column has the default
  \<open>true\<close>.\<close>

definition CreateMonitoringPermission ::
    "(mon_query \<Rightarrow> bool) \<Rightarrow> (bool \<Rightarrow> bool) \<Rightarrow> string \<Rightarrow> string \<Rightarrow> string \<Rightarrow> string \<Rightarrow> bool \<Rightarrow> node_db \<Rightarrow> user_db \<Rightarrow> mon_db \<Rightarrow>
     api_answer \<times> mon_db" where
  "CreateMonitoringPermission works stored newID uid i typ enabled nodes users db =
     (if uid = [] \<or> typ = [] then (Bad_request, db)
      else if typ \<notin> {''view_basic'', ''view_detailed'', ''view_system'', ''view_network'', ''disabled''} then (Bad_request, db)
      else if i \<noteq> [] \<and> (case GetNode (works MQ_node) i nodes of Inr (Some _) \<Rightarrow> False | _ \<Rightarrow> True) then (Not_found, db)
      else if \<not> works MQ_user \<or> DAO_GetUser uid users = None then (Not_found, db)
      else if \<not> works MQ_store then (Internal_error, db)
      else (Done, db\<lparr> mb_perms := mb_perms db @
        [\<lparr> mp_ID = newID, mp_UserID = uid, mp_NodeID = i, mp_PermissionType = typ, mp_Enabled = stored enabled \<rparr>] \<rparr>))"

definition validateNodeAccess ::
    "(mon_query \<Rightarrow> bool) \<Rightarrow> int \<Rightarrow> string \<Rightarrow> string \<Rightarrow> string \<Rightarrow> node_db \<Rightarrow> connection_key list \<Rightarrow> bool" where
  "validateNodeAccess works now apiKey connectionKey i nodes keys =
     (if apiKey \<noteq> []
      then (case GetNodeByAPIKey (works MQ_node) apiKey nodes of Inr (Some n) \<Rightarrow> nd_ID (no_row n) = i | _ \<Rightarrow> False)
      else if connectionKey \<noteq> []
      then (case (if works MQ_key then GetCKByKey now connectionKey keys else None) of
              Some k \<Rightarrow> ck_NodeID k = i \<and> ck_Type k = ''node'' | None \<Rightarrow> False)
      else False)"

definition ReportNodeMonitoringData ::
    "(mon_query \<Rightarrow> bool) \<Rightarrow> string \<Rightarrow> int \<Rightarrow> string \<Rightarrow> string \<Rightarrow> string \<Rightarrow> mon_sample option \<Rightarrow> node_db \<Rightarrow> connection_key list \<Rightarrow>
     mon_db \<Rightarrow> api_answer \<times> mon_db" where
  "ReportNodeMonitoringData works newID now apiKey connectionKey i body nodes keys db =
     (case body of
        None \<Rightarrow> (Bad_request, db)
      | Some s \<Rightarrow>
          if \<not> validateNodeAccess works now apiKey connectionKey i nodes keys then (Not_authorized, db)
          else case ReportMonitoringData works newID now i s nodes db of
                 (Some _, db1) \<Rightarrow> (Internal_error, db1)
               | (None, db1) \<Rightarrow> (Done, db1))"

text \<open>The tag \<open>required\<close> refuses the zero value of a field.\<close>

definition CreateAlertRule ::
    "(mon_query \<Rightarrow> bool) \<Rightarrow> (bool \<Rightarrow> bool) \<Rightarrow> string \<Rightarrow> string \<Rightarrow> string \<Rightarrow> alert_rule \<Rightarrow> node_db \<Rightarrow> mon_db \<Rightarrow> api_answer \<times> mon_db" where
  "CreateAlertRule works stored newID i ruleName req nodes db =
     (if ruleName = [] \<or> al_MetricType req = [] \<or> al_Operator req = [] \<or> al_ThresholdValue req = 0 \<or> al_Severity req = []
      then (Bad_request, db)
      else if al_MetricType req \<notin> {''cpu'', ''memory'', ''disk'', ''response_time'', ''connections''} then (Bad_request, db)
      else if al_Operator req \<notin> {''>'', ''<'', ''>='', ''<='', ''='', ''!=''} then (Bad_request, db)
      else if al_Severity req \<notin> {''info'', ''warning'', ''critical''} then (Bad_request, db)
      else if (case GetNode (works MQ_node) i nodes of Inr (Some _) \<Rightarrow> False | _ \<Rightarrow> True) then (Not_found, db)
      else if \<not> works MQ_store then (Internal_error, db)
      else (Done, db\<lparr> mb_rules := mb_rules db @ [req\<lparr> al_ID := newID, al_NodeID := i, al_Enabled := stored (al_Enabled req) \<rparr>] \<rparr>))"

record rule_patch =
  rp_MetricType :: "string option"
  rp_Operator :: "string option"
  rp_ThresholdValue :: "rat option"
  rp_DurationSeconds :: "int option"
  rp_Severity :: "string option"
  rp_Enabled :: "bool option"

definition patch_rule :: "rule_patch \<Rightarrow> alert_rule \<Rightarrow> alert_rule" where
  "patch_rule q r =
     r\<lparr> al_MetricType := case_option (al_MetricType r) id (rp_MetricType q),
        al_Operator := case_option (al_Operator r) id (rp_Operator q),
        al_ThresholdValue := case_option (al_ThresholdValue r) id (rp_ThresholdValue q),
        al_DurationSeconds := case_option (al_DurationSeconds r) id (rp_DurationSeconds q),
        al_Severity := case_option (al_Severity r) id (rp_Severity q),
        al_Enabled := case_option (al_Enabled r) id (rp_Enabled q) \<rparr>"

definition UpdateAlertRule :: "(mon_query \<Rightarrow> bool) \<Rightarrow> string \<Rightarrow> rule_patch option \<Rightarrow> mon_db \<Rightarrow> api_answer \<times> mon_db" where
  "UpdateAlertRule works ruleID body db =
     (if \<not> works MQ_rules \<or> ruleID \<notin> al_ID ` set (mb_rules db) then (Not_found, db)
      else case body of
        None \<Rightarrow> (Bad_request, db)
      | Some q \<Rightarrow> if \<not> works MQ_store then (Internal_error, db)
                  else (Done, db\<lparr> mb_rules := map (\<lambda>r. if al_ID r = ruleID then patch_rule q r else r) (mb_rules db) \<rparr>))"

definition DeleteAlertRule :: "(mon_query \<Rightarrow> bool) \<Rightarrow> string \<Rightarrow> mon_db \<Rightarrow> api_answer \<times> mon_db" where
  "DeleteAlertRule works ruleID db =
     (if \<not> works MQ_rules \<or> ruleID \<notin> al_ID ` set (mb_rules db) then (Not_found, db)
      else if \<not> works MQ_store then (Internal_error, db)
      else (Done, db\<lparr> mb_rules := filter (\<lambda>r. al_ID r \<noteq> ruleID) (mb_rules db) \<rparr>))"

definition AcknowledgeAlert :: "(mon_query \<Rightarrow> bool) \<Rightarrow> int \<Rightarrow> string \<Rightarrow> string \<Rightarrow> mon_db \<Rightarrow> api_answer \<times> mon_db" where
  "AcknowledgeAlert works now alertID userID db =
     (if works MQ_alert then (Done, UpdateNodeAlertHistoryStatus now alertID ''acknowledged'' userID db) else (Internal_error, db))"

definition ResolveAlert :: "(mon_query \<Rightarrow> bool) \<Rightarrow> int \<Rightarrow> string \<Rightarrow> mon_db \<Rightarrow> api_answer \<times> mon_db" where
  "ResolveAlert works now alertID db =
     (if works MQ_alert then (Done, UpdateNodeAlertHistoryStatus now alertID ''resolved'' [] db) else (Internal_error, db))"

datatype config_answer = Forbidden_config | Answer api_answer

definition UpdateNodeMonitoringConfig ::
    "(mon_query \<Rightarrow> bool) \<Rightarrow> bool \<Rightarrow> string \<Rightarrow> string \<Rightarrow> mon_config option \<Rightarrow> mon_db \<Rightarrow> config_answer \<times> mon_db" where
  "UpdateNodeMonitoringConfig works isAdmin newID i body db =
     (if \<not> isAdmin then (Forbidden_config, db)
      else case body of
        None \<Rightarrow> (Answer Bad_request, db)
      | Some c \<Rightarrow> (case UpsertNodeMonitoringConfig (works MQ_upsert) newID (c\<lparr> mc_NodeID := i \<rparr>) db of
                     (True, db1) \<Rightarrow> (Answer Done, db1) | (False, db1) \<Rightarrow> (Answer Internal_error, db1)))"

record mon_summary =
  sm_TotalNodes :: nat
  sm_OnlineNodes :: nat
  sm_MonitoredNodes :: nat
  sm_TotalAlerts :: nat
  sm_AvgCPUUsage :: rat
  sm_AvgMemoryUsage :: rat
  sm_TotalConnections :: int
  sm_TotalTraffic :: int

definition NodeMonitoringSummary :: "(mon_query \<Rightarrow> bool) \<Rightarrow> int \<Rightarrow> node_db \<Rightarrow> mon_db \<Rightarrow> mon_summary option" where
  "NodeMonitoringSummary works now nodes db =
     (case ListNodes (works MQ_nodes) [] [] 1000 0 nodes of
        Inl _ \<Rightarrow> None
      | Inr ns \<Rightarrow>
          (let sts = List.map_filter (\<lambda>n. GetNodeMonitoringStatus works now (nd_ID n) db) ns;
               ss = List.map_filter st_sample sts; n = int (length ss) in
           Some \<lparr> sm_TotalNodes = length ns, sm_OnlineNodes = length (filter st_IsOnline sts), sm_MonitoredNodes = length ss,
                  sm_TotalAlerts = sum_list (map st_ActiveAlerts sts),
                  sm_AvgCPUUsage = (if n > 0 then fdiv (fsum (map ms_CPUUsage ss)) (float64 n) else 0),
                  sm_AvgMemoryUsage = (if n > 0 then fdiv (fsum (map ms_MemoryUsage ss)) (float64 n) else 0),
                  sm_TotalConnections = sum64 (map ms_TotalConnections ss),
                  sm_TotalTraffic = sum64 (map (\<lambda>s. add64 (ms_TrafficIn s) (ms_TrafficOut s)) ss) \<rparr>))"

section \<open>Aggregation is exact\<close>

lemma sum64_gen: "fold (\<lambda>x t. add64 t x) xs a = wrap64 (a + sum_list xs)" if "in_int64 a"
  using that
proof (induction xs arbitrary: a)
  case (Cons x xs)
  have "fold (\<lambda>x t. add64 t x) xs (add64 a x) = wrap64 (add64 a x + sum_list xs)"
    using wrap64_range [of "a + x"] by (intro Cons.IH) simp
  then show ?case by (simp add: wrap64_wrap_add add.assoc)
qed simp

lemma sum64_sum_list: "sum64 xs = wrap64 (sum_list xs)"
  using sum64_gen [of 0 xs] by (simp add: sum64_def)

lemma running_max_Max: "running_max z xs = Max (insert z (set xs))"
proof -
  have "(\<lambda>x m. if x > m then x else m) = (max :: 'a \<Rightarrow> 'a \<Rightarrow> 'a)" by (auto simp: fun_eq_iff max_def)
  then show ?thesis using Max.set_eq_fold [of z xs] by (simp add: running_max_def)
qed

lemma sum_list_le:
  assumes "\<forall>x \<in> set xs. x \<le> (m :: int)"
  shows "sum_list xs \<le> int (length xs) * m"
  using assms by (induction xs) (auto simp: distrib_right intro: add_mono)

lemma mean_between:
  assumes "\<forall>x \<in> set xs. 0 \<le> x \<and> x \<le> (m :: int)" and "xs \<noteq> []"
  shows "0 \<le> sum_list xs sdiv int (length xs) \<and> sum_list xs sdiv int (length xs) \<le> m"
proof -
  let ?n = "int (length xs)"
  have n: "0 < ?n" using assms(2) by simp
  have s: "0 \<le> sum_list xs" using assms(1) by (simp add: sum_list_nonneg)
  then have "sum_list xs sdiv ?n = sum_list xs div ?n" using n by (simp add: signed_divide_int_def sgn_if)
  moreover have "sum_list xs div ?n \<le> (?n * m) div ?n"
    by (rule zdiv_mono1) (use sum_list_le assms(1) n in auto)
  then have "sum_list xs div ?n \<le> m" using n by simp
  moreover have "0 \<le> sum_list xs div ?n" using s n by (simp only: pos_imp_zdiv_nonneg_iff)
  ultimately show ?thesis by (simp only: conj_commute simp_thms)
qed

definition in_hour :: "string \<Rightarrow> int \<Rightarrow> mon_data \<Rightarrow> bool" where
  "in_hour i lo d \<longleftrightarrow> md_NodeID d = i \<and> lo \<le> md_Timestamp d \<and> md_Timestamp d < lo + 3600 * 10 ^ 9"

definition hour_samples :: "string \<Rightarrow> int \<Rightarrow> mon_db \<Rightarrow> mon_sample list" where
  "hour_samples i lo db = map md_sample (filter (in_hour i lo) (mb_data db))"

lemma listed_hour:
  assumes "length (hour_samples i lo db) \<le> 1000"
  shows "mset (map md_sample (ListNodeMonitoringData i lo (lo + 3600 * 10 ^ 9) 1000 db)) = mset (hour_samples i lo db)"
proof -
  have f: "filter (\<lambda>d. md_NodeID d = i \<and> md_Timestamp d \<ge> lo \<and> md_Timestamp d < lo + 3600 * 10 ^ 9) (mb_data db)
      = filter (in_hour i lo) (mb_data db)"
    by (simp add: in_hour_def cong: filter_cong)
  have "ListNodeMonitoringData i lo (lo + 3600 * 10 ^ 9) 1000 db = sort_key md_Timestamp (filter (in_hour i lo) (mb_data db))"
    unfolding ListNodeMonitoringData_def f using assms by (simp add: hour_samples_def)
  then show ?thesis by (simp add: hour_samples_def)
qed

lemma sum_list_mset_eq: "mset ss = mset rs \<Longrightarrow> sum_list (map g ss) = (sum_list (map g rs) :: int)"
  by (metis mset_map sum_mset_sum_list)


definition sample_of :: "int \<Rightarrow> int \<Rightarrow> mon_sample" where
  "sample_of traffic conns =
     \<lparr> ms_Uptime = 0, ms_CPUUsage = 0, ms_MemoryUsage = 0, ms_DiskUsage = 0, ms_BandwidthIn = 0, ms_BandwidthOut = 0,
       ms_ActiveTunnels = 0, ms_TotalConnections = conns, ms_TrafficIn = traffic, ms_TrafficOut = 0, ms_PacketsIn = 0,
       ms_PacketsOut = 0, ms_ConnectionErrors = 0, ms_TunnelErrors = 0, ms_AvgResponseTime = 0 \<rparr>"

definition two_samples :: mon_db where
  "two_samples =
     \<lparr> mb_configs = [], mb_data = [convertToMonitoringData 5 ''n'' (sample_of 100 3), convertToMonitoringData 9 ''n'' (sample_of 20 7)],
       mb_history = [], mb_rules = [], mb_alerts = [], mb_perms = [] \<rparr>"

lemma two_samples_hour: "hour_samples ''n'' 0 two_samples = [sample_of 100 3, sample_of 20 7]"
  by (simp add: hour_samples_def two_samples_def convertToMonitoringData_def in_hour_def)


section \<open>Offline nodes are found\<close>

definition mark_offline :: "int \<Rightarrow> string set \<Rightarrow> node_row \<Rightarrow> node_row" where
  "mark_offline now is n =
     (if nd_ID n \<in> is \<and> nd_DeletedAt n = None then n\<lparr> nd_Status := ''offline'', nd_UpdatedAt := now \<rparr> else n)"

lemma mark_offline_twice: "mark_offline now T (mark_offline now S n) = mark_offline now (S \<union> T) n"
  by (auto simp: mark_offline_def)

lemma set_offline:
  "snd (UpdateNodeStatus True now i ''offline'' db) = db\<lparr> nb_nodes := map (mark_offline now {i}) (nb_nodes db) \<rparr>"
  by (simp add: UpdateNodeStatus_def mark_offline_def cong: if_cong)

lemma offline_nodes:
  "nb_nodes (fold (\<lambda>i d. snd (UpdateNodeStatus True now i ''offline'' d)) is db) = map (mark_offline now (set is)) (nb_nodes db)"
proof (induction "is" arbitrary: db)
  case Nil show ?case by (simp add: mark_offline_def map_idI)
next
  case (Cons i "is") show ?case by (simp add: Cons.IH) (simp add: set_offline mark_offline_twice)
qed

definition offline_row :: "int \<Rightarrow> node_row \<Rightarrow> node_row" where
  "offline_row now n =
     (if nd_DeletedAt n = None \<and> goes_offline now n then n\<lparr> nd_Status := ''offline'', nd_UpdatedAt := now \<rparr> else n)"

lemma offline_row_fresh: "nd_DeletedAt (offline_row now n) = None \<Longrightarrow> \<not> goes_offline now (offline_row now n)"
  by (auto simp: offline_row_def goes_offline_def split: if_splits)


definition row_of :: "string \<Rightarrow> string \<Rightarrow> int \<Rightarrow> node_row" where
  "row_of i status seen =
     \<lparr> nd_ID = i, nd_CreatedAt = 0, nd_UpdatedAt = 0, nd_DeletedAt = None, nd_Name = i, nd_Status = status, nd_LastOnline = seen,
       nd_Version = [], nd_Role = ''ingress'', nd_PublicIP = [], nd_Port = 0, nd_Token = [], nd_APIKey = [] \<rparr>"

definition two_nodes :: node_db where
  "two_nodes = \<lparr> nb_nodes = [row_of ''a'' ''online'' 0, row_of ''b'' ''disabled'' 0], nb_groups = [], nb_members = [] \<rparr>"


section \<open>Permissions\<close>

definition levels_of :: "string \<Rightarrow> string set" where
  "levels_of typ =
     (if typ = ''disabled'' then {}
      else {''view_basic''}
        \<union> (if typ \<in> {''view_detailed'', ''view_system'', ''view_network''} then {''view_detailed''} else {})
        \<union> (if typ = ''view_system'' then {''view_system'', ''view_network''} else {})
        \<union> (if typ = ''view_network'' then {''view_network''} else {}))"

lemma perm_allows_levels: "perm_allows p level \<longleftrightarrow> mp_Enabled p \<and> level \<in> levels_of (mp_PermissionType p)"
proof -
  consider "level = ''view_basic''" | "level = ''view_detailed''" | "level = ''view_system''" | "level = ''view_network''"
    | "level \<notin> {''view_basic'', ''view_detailed'', ''view_system'', ''view_network''}" by blast
  then show ?thesis by cases (simp_all add: levels_of_def perm_allows_def)
qed

text \<open>
  Who may look at a node. Administrators may at every level. Any other user may exactly at the levels that the type of the
  least permission row of that user and node carries, while the row is enabled: all levels for \<open>view_system\<close>, none for
  \<open>disabled\<close>, none without a row or on a failed query.
\<close>

theorem permission_levels:
  "CheckMonitoringPermission works uid i level users db \<longleftrightarrow>
     (works MQ_user \<and> (\<exists>u. DAO_GetUser uid users = Some u \<and> us_Role u = ''admin'')) \<or>
     (works MQ_perm \<and> (\<exists>p. GetMonitoringPermission uid i db = Some p \<and> mp_Enabled p \<and> level \<in> levels_of (mp_PermissionType p)))"
  unfolding CheckMonitoringPermission_def perm_allows_levels [symmetric]
  by (cases "DAO_GetUser uid users"; cases "GetMonitoringPermission uid i db") auto

section \<open>Reports\<close>

lemma upsert_data: "mb_data (snd (UpsertNodeMonitoringConfig ok newID c db)) = mb_data db"
  by (simp add: UpsertNodeMonitoringConfig_def Let_def)

text \<open>
  A report is stored exactly when it is answered with success: one row more, with the node of the credentials, the time and
  the sample; on every error the stored data stays. The success needs credentials of this very node.
\<close>

theorem report_stored_once:
  assumes "ReportNodeMonitoringData works newID now apiKey connectionKey i body nodes keys db = (ans, db')"
  shows "(ans = Done \<and> (\<exists>s. body = Some s \<and> mb_data db' = mb_data db @ [convertToMonitoringData now i s]) \<and>
      validateNodeAccess works now apiKey connectionKey i nodes keys \<and> (\<exists>n. GetNode (works MQ_node) i nodes = Inr (Some n))) \<or>
    (ans \<noteq> Done \<and> mb_data db' = mb_data db)"
proof (cases body)
  case None then show ?thesis using assms by (simp add: ReportNodeMonitoringData_def)
next
  case (Some s)
  show ?thesis
  proof (cases "validateNodeAccess works now apiKey connectionKey i nodes keys")
    case False then show ?thesis using assms Some by (auto simp: ReportNodeMonitoringData_def)
  next
    case True
    obtain e db1 where r: "ReportMonitoringData works newID now i s nodes db = (e, db1)" by fastforce
    then have "(e = None \<and> mb_data db1 = mb_data db @ [convertToMonitoringData now i s] \<and>
        (\<exists>n. GetNode (works MQ_node) i nodes = Inr (Some n))) \<or> (e \<noteq> None \<and> mb_data db1 = mb_data db)"
      by (auto simp: ReportMonitoringData_def upsert_data split: sum.splits option.splits if_splits prod.splits)
    then show ?thesis using assms Some True r by (auto simp: ReportNodeMonitoringData_def split: option.splits)
  qed
qed

definition report_keys :: "connection_key list" where
  "report_keys = [\<lparr> ck_NodeID = ''a'', ck_Key = ''k'', ck_Type = ''node'', ck_Label = [], ck_ExpiresAt = 100, ck_Revoked = False,
                    ck_LastUsed = None \<rparr>]"

definition empty_mon :: mon_db where
  "empty_mon = \<lparr> mb_configs = [], mb_data = [], mb_history = [], mb_rules = [], mb_alerts = [], mb_perms = [] \<rparr>"

theorem report_stored_once_witness:
  "mb_data (snd (ReportNodeMonitoringData (\<lambda>_. True) ''c'' 5 [] ''k'' ''a'' (Some (sample_of 1 1)) two_nodes report_keys empty_mon)) =
     [convertToMonitoringData 5 ''a'' (sample_of 1 1)]"
proof -
  obtain ans db' where r: "ReportNodeMonitoringData (\<lambda>_. True) ''c'' 5 [] ''k'' ''a'' (Some (sample_of 1 1)) two_nodes report_keys empty_mon
      = (ans, db')" by fastforce
  have "GetNode True ''a'' two_nodes = Inr (Some \<lparr> no_row = row_of ''a'' ''online'' 0, no_Groups = [] \<rparr>)"
    by (simp add: GetNode_iff two_nodes_def row_of_def node_db_ok_def)
  then have "ans = Done"
    using r by (simp add: ReportNodeMonitoringData_def validateNodeAccess_def report_keys_def GetCKByKey_def ReportMonitoringData_def
        GetNodeMonitoringConfig_def empty_mon_def UpsertNodeMonitoringConfig_def DefaultNodeMonitoringConfig_def)
  then show ?thesis using report_stored_once [OF r] r by (simp add: empty_mon_def)
qed

section \<open>What the code does otherwise\<close>

text \<open>The duration of a rule plays no role: one sample above the threshold raises the alert.\<close>

theorem duration_ignored: "rule_fires (r\<lparr> al_DurationSeconds := d \<rparr>) s = rule_fires r s"
  by (cases "metric_value (al_MetricType r) s") (simp_all add: rule_fires_def)

text \<open>
  A permission without a node, which the handler offers as a global one, allows nothing for a node: the lookup compares
  the node of the row with the node that is asked for.
\<close>

theorem global_permission_ignored:
  assumes "i \<noteq> []"
  shows "CheckMonitoringPermission works uid i level users
           (db\<lparr> mb_perms := mb_perms db @ [\<lparr> mp_ID = pid, mp_UserID = uid, mp_NodeID = [], mp_PermissionType = typ, mp_Enabled = e \<rparr>] \<rparr>) =
         CheckMonitoringPermission works uid i level users db"
  using assms by (simp add: CheckMonitoringPermission_def GetMonitoringPermission_def)

theorem global_permission_ignored_witness:
  "\<not> CheckMonitoringPermission (\<lambda>_. True) ''u'' ''n'' ''view_basic'' \<lparr> ud_users = [], ud_wallets = [], ud_notifications = [], ud_subscriptions = [], ud_transactions = [] \<rparr>
     (empty_mon\<lparr> mb_perms := mb_perms empty_mon @
        [\<lparr> mp_ID = ''p'', mp_UserID = ''u'', mp_NodeID = [], mp_PermissionType = ''view_system'', mp_Enabled = True \<rparr>] \<rparr>)"
  unfolding global_permission_ignored [of "''n''", OF list.distinct(2)]
  by (simp add: CheckMonitoringPermission_def GetMonitoringPermission_def empty_mon_def DAO_GetUser_def live_users_def)

text \<open>The status of a node counts the triggered alerts among the last ten alerts only.\<close>

theorem alerts_counted_to_ten:
  "GetNodeMonitoringStatus works now i db = Some st \<Longrightarrow> st_ActiveAlerts st \<le> 10"
proof -
  have "length (filter P (ListNodeAlertHistory i 10 db)) \<le> 10" for P
    by (rule le_trans [OF length_filter_le]) (simp add: ListNodeAlertHistory_def)
  then show "GetNodeMonitoringStatus works now i db = Some st \<Longrightarrow> st_ActiveAlerts st \<le> 10"
    by (auto simp: GetNodeMonitoringStatus_def split: if_splits option.splits)
qed

text \<open>The alert system of the service has no channel, and nothing sets one: no alert is sent, no error reported.\<close>

theorem alerts_never_sent: "AlertSystem_Send webhook telegram NewAlertSystem = ([], [])"
  by (simp add: AlertSystem_Send_def NewAlertSystem_def)

text \<open>A refusal of Telegram is no error.\<close>

theorem telegram_refusal_hidden:
  "AlertSystem_Send webhook (Some 401) \<lparr> as_webhook = False, as_telegram = True \<rparr> = ([], [''telegram''])"
  by (simp add: AlertSystem_Send_def sendTelegram_def)

text \<open>A rule with the threshold zero is refused.\<close>

theorem zero_threshold_refused:
  "al_ThresholdValue req = 0 \<Longrightarrow> CreateAlertRule works stored newID i name req nodes db = (Bad_request, db)"
  by (simp add: CreateAlertRule_def)

text \<open>An update does not check the operator; a rule with an unknown one stays enabled and never fires.\<close>

theorem updated_rule_silent:
  assumes "works MQ_rules" and "works MQ_store" and "r \<in> set (mb_rules db)"
  shows "\<exists>db' r'. UpdateAlertRule works (al_ID r)
      (Some \<lparr> rp_MetricType = None, rp_Operator = Some ''=>'', rp_ThresholdValue = None, rp_DurationSeconds = None, rp_Severity = None,
              rp_Enabled = Some True \<rparr>) db = (Done, db') \<and> r' \<in> set (mb_rules db') \<and> al_ID r' = al_ID r \<and> al_Enabled r' \<and>
    rule_fires r' s = None"
proof -
  let ?q = "\<lparr> rp_MetricType = None, rp_Operator = Some ''=>'', rp_ThresholdValue = None, rp_DurationSeconds = None, rp_Severity = None,
              rp_Enabled = Some True \<rparr>"
  have p: "al_ID (patch_rule ?q r) = al_ID r \<and> al_Enabled (patch_rule ?q r) \<and> rule_fires (patch_rule ?q r) s = None"
    by (simp add: patch_rule_def rule_fires_def compare_metric_def split: option.split)
  have "UpdateAlertRule works (al_ID r) (Some ?q) db =
      (Done, db\<lparr> mb_rules := map (\<lambda>x. if al_ID x = al_ID r then patch_rule ?q x else x) (mb_rules db) \<rparr>)"
    using assms by (auto simp: UpdateAlertRule_def)
  moreover have "patch_rule ?q r \<in> set (map (\<lambda>x. if al_ID x = al_ID r then patch_rule ?q x else x) (mb_rules db))"
    unfolding set_map by (rule image_eqI [OF _ assms(3)]) simp
  then have "patch_rule ?q r \<in> set (mb_rules (db\<lparr> mb_rules := map (\<lambda>x. if al_ID x = al_ID r then patch_rule ?q x else x) (mb_rules db) \<rparr>))"
    by simp
  ultimately show ?thesis using p by blast
qed

text \<open>A report makes the node online again, also one that was disabled.\<close>

theorem report_enables_node:
  "nd_ID n = i \<Longrightarrow> nd_DeletedAt n = None \<Longrightarrow> n \<in> set (nb_nodes db) \<Longrightarrow>
     \<exists>n'. n' \<in> set (nb_nodes (updateNodeStatus True now i db)) \<and> nd_ID n' = i \<and> nd_Status n' = ''online''"
  by (rule exI [of _ "n\<lparr> nd_Status := ''online'', nd_UpdatedAt := now, nd_LastOnline := now \<rparr>"])
    (auto simp: updateNodeStatus_def UpdateNodeStatus_def intro!: image_eqI [of _ _ n])

text \<open>
  A configuration posted without an identifier is refused once the node has one, since the new row would name the node a
  second time.
\<close>

theorem config_without_id_refused:
  assumes "d \<in> set (mb_configs db)" and "mc_NodeID d = i" and "newID \<notin> mc_ID ` set (mb_configs db)" and "mc_ID c = []" and "newID \<noteq> []"
  shows "UpdateNodeMonitoringConfig works True newID i (Some c) db = (Answer Internal_error, db)"
proof -
  have "mc_ID d \<noteq> newID" using assms(1,3) by auto
  then have "i \<in> mc_NodeID ` set (filter (\<lambda>d. mc_ID d \<noteq> newID) (mb_configs db))" using assms(1,2) by auto
  then show ?thesis using assms(4) by (simp add: UpdateNodeMonitoringConfig_def UpsertNodeMonitoringConfig_def Let_def)
qed

text \<open>A resolved alert can be acknowledged afterwards, and is then no longer resolved.\<close>

theorem resolved_alert_reopens:
  assumes "a \<in> set (mb_alerts db)" and "ah_Status a = ''resolved''" and "works MQ_alert"
  shows "\<exists>db' a'. AcknowledgeAlert works now (ah_ID a) uid db = (Done, db') \<and> a' \<in> set (mb_alerts db') \<and> ah_ID a' = ah_ID a \<and>
    ah_Status a' = ''acknowledged''"
proof -
  let ?a = "a\<lparr> ah_Status := ''acknowledged'', ah_AcknowledgedAt := Some now, ah_AcknowledgedBy := uid \<rparr>"
  have "?a \<in> set (mb_alerts (UpdateNodeAlertHistoryStatus now (ah_ID a) ''acknowledged'' uid db))"
  proof -
    let ?f = "\<lambda>b. if ah_ID b \<noteq> ah_ID a then b
      else b\<lparr> ah_Status := ''acknowledged'', ah_AcknowledgedAt := Some now, ah_AcknowledgedBy := uid \<rparr>"
    have "mb_alerts (UpdateNodeAlertHistoryStatus now (ah_ID a) ''acknowledged'' uid db) = map ?f (mb_alerts db)"
      by (simp add: UpdateNodeAlertHistoryStatus_def)
    moreover have "?a \<in> ?f ` set (mb_alerts db)" by (rule image_eqI [OF _ assms(1)]) simp
    ultimately show ?thesis by (simp only: set_map)
  qed
  then show ?thesis using assms(3)
    by (intro exI [of _ "UpdateNodeAlertHistoryStatus now (ah_ID a) ''acknowledged'' uid db"] exI [of _ ?a]) (simp add: AcknowledgeAlert_def)
qed

end
