(* ===== verification/Node_Handler.thy ===== *)
theory Node_Handler
  imports Monitoring Tunnels Ws_Hub Failover
begin

text \<open>
  The node side of the control plane: the handler of the nodes' connections (\<open>plane/internal/ws/handler.go\<close>) over the
  hub of \<open>Ws_Hub\<close>, and the configuration a node is sent (\<open>plane/internal/modules/node/manager.go\<close>). A message that
  cannot be parsed is \<open>None\<close>; the database is there (the handler is built with one); whether a statement succeeds is the
  argument \<open>works\<close>, and \<open>PC_drain\<close> tells whether the write loop makes room in a full channel.
\<close>

section \<open>State\<close>

record peer_server =
  pr_ServerID :: string
  pr_ServerName :: string
  pr_Host :: string
  pr_Port :: int
  pr_Type :: string

record tunnel_config =
  tc_TunnelID :: string
  tc_Name :: string
  tc_Protocol :: string
  tc_LocalPort :: int
  tc_TargetHost :: string
  tc_TargetPort :: int
  tc_MaxBandwidth :: int
  tc_MaxConnections :: int

record node_config =
  nf_NodeID :: string
  nf_NodeName :: string
  nf_NodeType :: string
  nf_GroupID :: string
  nf_GroupName :: string
  nf_Tunnels :: "tunnel_config list"
  nf_PeerServers :: "peer_server list"
  nf_UpdatedAt :: int

record pushed_rule =
  sr_TunnelID :: string
  sr_Name :: string
  sr_Protocol :: string
  sr_LocalPort :: int
  sr_TargetHost :: string
  sr_TargetPort :: int
  sr_Enabled :: bool
  sr_UserID :: string

datatype out_msg =
    M_error string
  | M_register_ack string
  | M_heartbeat int
  | M_traffic
  | M_failover_ack string
  | M_monitoring_ack int
  | M_full_config node_config
  | M_sync_rules "pushed_rule list"

record node_registration =
  rr_NodeID :: string
  rr_NodeName :: string
  rr_Version :: string
  rr_IP :: string
  rr_Port :: int
  rr_CK :: string

datatype in_msg =
    I_register "node_registration option"
  | I_heartbeat "(string \<times> string) option"
  | I_traffic "(string \<times> int \<times> int) option"
  | I_node_status
  | I_monitoring "mon_sample option"
  | I_failover "failover_report option"
  | I_pong
  | I_other

record plane =
  pl_hub :: "out_msg hub"
  pl_nodes :: node_db
  pl_keys :: "connection_key list"
  pl_tunnels :: tunnel_db
  pl_failover :: "failover_service option"
  pl_events :: "failover_event list"
  pl_mon :: mon_db

datatype plane_call =
    PC_key | PC_get | PC_update | PC_groups | PC_peers string | PC_tunnels | PC_event | PC_drain
  | PC_tunnel tunnel_call | PC_mon mon_query

section \<open>The configuration of a node\<close>

definition getTunnelsByGroupID :: "bool \<Rightarrow> string \<Rightarrow> tunnel_db \<Rightarrow> tunnel list" where
  "getTunnelsByGroupID ok gid db =
     (if ok then filter (\<lambda>t. (tn_IngressGroupID t = gid \<or> tn_EgressGroupID t = gid) \<and> tn_Enabled t) (live (td_tunnels db)) else [])"

definition tunnel_config_of :: "tunnel \<Rightarrow> tunnel_config" where
  "tunnel_config_of t =
     \<lparr> tc_TunnelID = tn_ID t, tc_Name = tn_Name t, tc_Protocol = tn_Protocol t, tc_LocalPort = tn_ListenPort t,
       tc_TargetHost = tn_TargetAddress t, tc_TargetPort = tn_TargetPort t, tc_MaxBandwidth = tn_RateLimitBPS t,
       tc_MaxConnections = tn_MaxConnections t \<rparr>"

definition peer_of :: "node_row \<Rightarrow> peer_server" where
  "peer_of n = \<lparr> pr_ServerID = nd_ID n, pr_ServerName = nd_Name n, pr_Host = nd_PublicIP n, pr_Port = nd_Port n, pr_Type = nd_Role n \<rparr>"

definition target_role :: "string \<Rightarrow> string" where
  "target_role role = (if role = ''ingress'' \<or> role = ''entry'' then ''egress'' else ''ingress'')"

definition getPeerServers :: "(plane_call \<Rightarrow> bool) \<Rightarrow> string \<Rightarrow> string \<Rightarrow> node_db \<Rightarrow> peer_server list" where
  "getPeerServers works nodeRole groupID db =
     (case ListNodeGroups (works PC_groups) (target_role nodeRole) db of
        Inl _ \<Rightarrow> []
      | Inr gs \<Rightarrow> concat (map (\<lambda>g. case ListNodes (works (PC_peers (ng_ID (go_row g)))) (ng_ID (go_row g)) ''online'' 100 0 db of
                                     Inl _ \<Rightarrow> [] | Inr ns \<Rightarrow> map peer_of ns) gs))"

text \<open>The configuration from the node as it was loaded, with the groups that were loaded with it.\<close>

definition config_of :: "(plane_call \<Rightarrow> bool) \<Rightarrow> node_obj \<Rightarrow> node_db \<Rightarrow> tunnel_db \<Rightarrow> node_config" where
  "config_of works n db tdb =
     (let (groupID, groupName) = (case no_Groups n of [] \<Rightarrow> ([], []) | g # _ \<Rightarrow> (ng_ID g, ng_Name g));
          tunnels = (if groupID \<noteq> [] then getTunnelsByGroupID (works PC_tunnels) groupID tdb else []) in
      \<lparr> nf_NodeID = nd_ID (no_row n), nf_NodeName = nd_Name (no_row n), nf_NodeType = nd_Role (no_row n),
        nf_GroupID = groupID, nf_GroupName = groupName,
        nf_Tunnels = map tunnel_config_of (filter tn_Enabled tunnels),
        nf_PeerServers = getPeerServers works (nd_Role (no_row n)) groupID db, nf_UpdatedAt = nd_UpdatedAt (no_row n) \<rparr>)"

definition GetNodeConfig :: "(plane_call \<Rightarrow> bool) \<Rightarrow> string \<Rightarrow> node_db \<Rightarrow> tunnel_db \<Rightarrow> node_config option" where
  "GetNodeConfig works i db tdb =
     (case GetNode (works PC_get) i db of
        Inl _ \<Rightarrow> None | Inr None \<Rightarrow> None | Inr (Some n) \<Rightarrow> Some (config_of works n db tdb))"

section \<open>Sending\<close>

text \<open>
  A send on the channel of a connection: \<open>None\<close> when it waits for ever. The hub sends with a timeout of its own
  (\<open>Hub_SendToNode\<close>).
\<close>

definition conn_send :: "bool \<Rightarrow> nat \<Rightarrow> 'm \<Rightarrow> 'm hub \<Rightarrow> 'm hub res option" where
  "conn_send drained a m h =
     (let c = hub_heap h ! a in
      if nc_SendClosed c then Some (Inl SendOnClosedChannel)
      else if length (nc_Send c) < send_cap then Some (Inr (on_conn a (\<lambda>c. c\<lparr> nc_Send := nc_Send c @ [m] \<rparr>) h))
      else if drained then Some (Inr (on_conn a (\<lambda>c. c\<lparr> nc_Send := drop 1 (nc_Send c) @ [m] \<rparr>) h))
      else None)"

text \<open>A panic while a message is handled is caught; what was done before stays.\<close>

definition respond :: "(plane_call \<Rightarrow> bool) \<Rightarrow> nat \<Rightarrow> out_msg \<Rightarrow> plane \<Rightarrow> plane option" where
  "respond works a m pl =
     (case conn_send (works PC_drain) a m (pl_hub pl) of
        None \<Rightarrow> None | Some (Inl _) \<Rightarrow> Some pl | Some (Inr h) \<Rightarrow> Some (pl\<lparr> pl_hub := h \<rparr>))"

definition sendFullNodeConfig :: "(plane_call \<Rightarrow> bool) \<Rightarrow> string \<Rightarrow> plane \<Rightarrow> (ws_err option \<times> plane) res" where
  "sendFullNodeConfig works i pl =
     (case GetNodeConfig works i (pl_nodes pl) (pl_tunnels pl) of
        None \<Rightarrow> Inr (None, pl)
      | Some cfg \<Rightarrow> and_then (Hub_SendToNode (works PC_drain) i (M_full_config cfg) (pl_hub pl))
                     (\<lambda>(e, h). Inr (e, pl\<lparr> pl_hub := h \<rparr>)))"

section \<open>Registration\<close>

definition GetConnectionKeyByKey :: "int \<Rightarrow> string \<Rightarrow> connection_key list \<Rightarrow> connection_key option" where
  "GetConnectionKeyByKey now key tab = find (\<lambda>k. ck_Key k = key \<and> \<not> ck_Revoked k \<and> ck_ExpiresAt k > now) tab"

text \<open>The clock is read twice: by the query and for the comparison after it.\<close>

definition validateCK :: "bool \<Rightarrow> int \<Rightarrow> int \<Rightarrow> string \<Rightarrow> string \<Rightarrow> connection_key list \<Rightarrow> bool" where
  "validateCK ok now now' ck nodeID tab =
     (if length ck < 10 then False
      else case (if ok then GetConnectionKeyByKey now ck tab else None) of
             None \<Rightarrow> False
           | Some k \<Rightarrow> if ck_Revoked k then False
                       else if now' > ck_ExpiresAt k then False
                       else if ck_NodeID k \<noteq> nodeID then False
                       else ck_Type k = ''node'')"

definition updateNodeInfo :: "(plane_call \<Rightarrow> bool) \<Rightarrow> bool \<Rightarrow> int \<Rightarrow> node_registration \<Rightarrow> node_db \<Rightarrow> bool \<times> node_db" where
  "updateNodeInfo works upsert now req db =
     (case GetNode (works PC_get) (rr_NodeID req) db of
        Inl _ \<Rightarrow> (False, db)
      | Inr None \<Rightarrow> (False, db)
      | Inr (Some n) \<Rightarrow>
          (case UpdateNode (works PC_update) upsert now
             (n\<lparr> no_row := (no_row n)\<lparr> nd_Name := rr_NodeName req, nd_Status := ''online'', nd_PublicIP := rr_IP req,
                                       nd_Port := rr_Port req, nd_Version := rr_Version req, nd_LastOnline := now \<rparr> \<rparr>) db of
             (None, db') \<Rightarrow> (True, db') | (Some _, db') \<Rightarrow> (False, db')))"

datatype connect_result = Closed | Refused string | Connected nat

text \<open>
  The first message of a connection, \<open>None\<close> when it cannot be read. The whole result is \<open>None\<close> when the channel of
  registrations is full and the hub does not take from it.
\<close>

definition HandleConnection ::
    "(plane_call \<Rightarrow> bool) \<Rightarrow> bool \<Rightarrow> int \<Rightarrow> int \<Rightarrow> in_msg option \<Rightarrow> plane \<Rightarrow> (connect_result \<times> plane) option" where
  "HandleConnection works upsert now now' msg pl =
     (case msg of
        None \<Rightarrow> Some (Closed, pl)
      | Some (I_register None) \<Rightarrow> Some (Refused ''INVALID_REQUEST'', pl)
      | Some (I_register (Some req)) \<Rightarrow>
          if \<not> validateCK (works PC_key) now now' (rr_CK req) (rr_NodeID req) (pl_keys pl) then Some (Refused ''AUTH_FAILED'', pl)
          else (case updateNodeInfo works upsert now' req (pl_nodes pl) of
                  (False, db) \<Rightarrow> Some (Refused ''UPDATE_FAILED'', pl\<lparr> pl_nodes := db \<rparr>)
                | (True, db) \<Rightarrow>
                    (let a = length (hub_heap (pl_hub pl)) in
                     case Handler_connect now' (rr_NodeID req) (pl_hub pl) of
                       None \<Rightarrow> None
                     | Some h \<Rightarrow> map_option (Pair (Connected a))
                         (respond works a (M_register_ack (rr_NodeID req)) (pl\<lparr> pl_nodes := db, pl_hub := h \<rparr>))))
      | Some _ \<Rightarrow> Some (Refused ''INVALID_FIRST_MESSAGE'', pl))"

section \<open>Messages of a node\<close>

text \<open>The heartbeat loads the row and saves it again; the two statements are two steps.\<close>

definition heartbeat_save ::
    "(plane_call \<Rightarrow> bool) \<Rightarrow> bool \<Rightarrow> int \<Rightarrow> string \<times> string \<Rightarrow> node_obj \<Rightarrow> node_db \<Rightarrow> node_db" where
  "heartbeat_save works upsert now req n db =
     (case req of (status, version) \<Rightarrow>
        snd (UpdateNode (works PC_update) upsert now
          (n\<lparr> no_row := (no_row n)\<lparr> nd_Status := status, nd_LastOnline := now,
                                    nd_Version := (if version \<noteq> [] then version else nd_Version (no_row n)) \<rparr> \<rparr>) db))"

definition handleHeartbeat ::
    "(plane_call \<Rightarrow> bool) \<Rightarrow> bool \<Rightarrow> int \<Rightarrow> nat \<Rightarrow> (string \<times> string) option \<Rightarrow> plane \<Rightarrow> plane option" where
  "handleHeartbeat works upsert now a req pl =
     (case req of
        None \<Rightarrow> Some pl
      | Some r \<Rightarrow>
          (let db = (case GetNode (works PC_get) (nc_NodeID (hub_heap (pl_hub pl) ! a)) (pl_nodes pl) of
                       Inl _ \<Rightarrow> pl_nodes pl
                     | Inr None \<Rightarrow> pl_nodes pl
                     | Inr (Some n) \<Rightarrow> heartbeat_save works upsert now r n (pl_nodes pl)) in
           respond works a (M_heartbeat now) (pl\<lparr> pl_nodes := db \<rparr>)))"

definition handleTrafficReport ::
    "(plane_call \<Rightarrow> bool) \<Rightarrow> int \<Rightarrow> nat \<Rightarrow> (string \<times> int \<times> int) option \<Rightarrow> plane \<Rightarrow> plane option" where
  "handleTrafficReport works now a req pl =
     (case req of
        None \<Rightarrow> Some pl
      | Some (tid, bytesIn, bytesOut) \<Rightarrow>
          respond works a M_traffic
            (pl\<lparr> pl_tunnels := snd (UpdateTraffic (\<lambda>q. works (PC_tunnel q)) now tid bytesIn bytesOut (pl_tunnels pl)) \<rparr>))"

definition handleFailoverEvent ::
    "(plane_call \<Rightarrow> bool) \<Rightarrow> int \<Rightarrow> nat \<Rightarrow> failover_report option \<Rightarrow> plane \<Rightarrow> plane option" where
  "handleFailoverEvent works now a req pl =
     (case req of
        None \<Rightarrow> Some pl
      | Some r0 \<Rightarrow>
          (let r = r0\<lparr> fr_NodeID := nc_NodeID (hub_heap (pl_hub pl) ! a) \<rparr>;
               pl1 = (case pl_failover pl of
                        None \<Rightarrow> pl
                      | Some s \<Rightarrow> (case FailoverService_HandleEvent (works PC_event) now r (s, pl_events pl) of
                                     (_, s', ev) \<Rightarrow> pl\<lparr> pl_failover := Some s', pl_events := ev \<rparr>)) in
           respond works a (M_failover_ack (fr_TunnelID r)) pl1))"

definition handleMonitoringReport ::
    "(plane_call \<Rightarrow> bool) \<Rightarrow> string \<Rightarrow> int \<Rightarrow> nat \<Rightarrow> mon_sample option \<Rightarrow> plane \<Rightarrow> plane option" where
  "handleMonitoringReport works newID now a req pl =
     (case req of
        None \<Rightarrow> Some pl
      | Some s \<Rightarrow>
          (case ReportMonitoringData (\<lambda>q. works (PC_mon q)) newID now (nc_NodeID (hub_heap (pl_hub pl) ! a)) s (pl_nodes pl) (pl_mon pl) of
             (Some _, db) \<Rightarrow> Some (pl\<lparr> pl_mon := db \<rparr>)
           | (None, db) \<Rightarrow> respond works a (M_monitoring_ack now) (pl\<lparr> pl_mon := db \<rparr>)))"

definition handleMessage ::
    "(plane_call \<Rightarrow> bool) \<Rightarrow> bool \<Rightarrow> string \<Rightarrow> int \<Rightarrow> nat \<Rightarrow> in_msg \<Rightarrow> plane \<Rightarrow> plane option" where
  "handleMessage works upsert newID now a m pl =
     (case m of
        I_heartbeat r \<Rightarrow> handleHeartbeat works upsert now a r pl
      | I_traffic r \<Rightarrow> handleTrafficReport works now a r pl
      | I_monitoring r \<Rightarrow> handleMonitoringReport works newID now a r pl
      | I_failover r \<Rightarrow> handleFailoverEvent works now a r pl
      | I_node_status \<Rightarrow> Some pl | I_pong \<Rightarrow> Some pl | I_register _ \<Rightarrow> Some pl | I_other \<Rightarrow> Some pl)"

text \<open>The read loop: every message read marks the connection as seen and is handled.\<close>

definition readPump_step ::
    "(plane_call \<Rightarrow> bool) \<Rightarrow> bool \<Rightarrow> string \<Rightarrow> int \<Rightarrow> nat \<Rightarrow> in_msg \<Rightarrow> plane \<Rightarrow> plane option" where
  "readPump_step works upsert newID now a m pl =
     handleMessage works upsert newID now a m (pl\<lparr> pl_hub := on_conn a (NodeConnection_UpdateLastSeen now) (pl_hub pl) \<rparr>)"

section \<open>Rules pushed to nodes\<close>

definition sync_rule_of :: "string \<Rightarrow> tunnel \<Rightarrow> pushed_rule" where
  "sync_rule_of nodeType t =
     \<lparr> sr_TunnelID = tn_ID t, sr_Name = tn_Name t,
       sr_Protocol = (if nodeType = ''egress'' \<or> nodeType = ''exit'' then tn_EgressProtocol t else tn_IngressProtocol t),
       sr_LocalPort = tn_ListenPort t, sr_TargetHost = tn_TargetAddress t, sr_TargetPort = tn_TargetPort t,
       sr_Enabled = tn_Enabled t, sr_UserID = tn_CreatedBy t \<rparr>"

definition syncRulesToNode :: "(plane_call \<Rightarrow> bool) \<Rightarrow> string \<Rightarrow> string \<Rightarrow> string \<Rightarrow> plane \<Rightarrow> (ws_err option \<times> plane) res" where
  "syncRulesToNode works i gid nodeType pl =
     (case GetTunnelsByGroupID (\<lambda>q. works (PC_tunnel q)) gid (pl_tunnels pl) of
        Inl _ \<Rightarrow> Inr (None, pl)
      | Inr ts \<Rightarrow> and_then (Hub_SendToNode (works PC_drain) i (M_sync_rules (map (sync_rule_of nodeType \<circ> fst) ts)) (pl_hub pl))
                    (\<lambda>(e, h). Inr (e, pl\<lparr> pl_hub := h \<rparr>)))"

definition getOnlineNodesInGroup :: "(plane_call \<Rightarrow> bool) \<Rightarrow> string list \<Rightarrow> string \<Rightarrow> plane \<Rightarrow> string list" where
  "getOnlineNodesInGroup works allNodeIDs gid pl =
     filter (\<lambda>i. case GetNode (works PC_get) i (pl_nodes pl) of
                   Inr (Some n) \<Rightarrow> (\<exists>g \<in> set (no_Groups n). ng_ID g = gid) | _ \<Rightarrow> False) allNodeIDs"

text \<open>The nodes to which a change of a rule is announced, each by \<open>sendFullNodeConfig\<close>; \<open>ord\<close> is the order of the map.\<close>

definition NotifyRuleChange :: "(plane_call \<Rightarrow> bool) \<Rightarrow> string list \<Rightarrow> string \<Rightarrow> plane \<Rightarrow> string list" where
  "NotifyRuleChange works ord gid pl = getOnlineNodesInGroup works ord gid pl"

section \<open>The server\<close>

definition NewServer_hub :: "int \<Rightarrow> 'm hub" where
  "NewServer_hub maxConnections = Hub_SetOnDisconnect (NewHub [maxConnections])"

text \<open>The callback of a disconnect.\<close>

definition on_disconnect :: "bool \<Rightarrow> int \<Rightarrow> string \<Rightarrow> node_db \<Rightarrow> node_db" where
  "on_disconnect ok now i db =
     (if ok then db\<lparr> nb_nodes := map (\<lambda>n. if nd_ID n = i \<and> nd_DeletedAt n = None
                then n\<lparr> nd_Status := ''offline'', nd_UpdatedAt := now \<rparr> else n) (nb_nodes db) \<rparr>
      else db)"

definition HandleWebSocket :: "bool \<Rightarrow> 'm hub \<Rightarrow> bool" where
  "HandleWebSocket upgraded h \<longleftrightarrow> \<not> Hub_IsAtCapacity h \<and> upgraded"

section \<open>What a response changes\<close>

lemma respond_hub:
  assumes "respond works a m pl = Some pl'"
  shows "\<exists>h. pl' = pl\<lparr> pl_hub := h \<rparr> \<and> length (hub_heap h) = length (hub_heap (pl_hub pl)) \<and>
    (\<forall>b. b \<noteq> a \<longrightarrow> hub_heap h ! b = hub_heap (pl_hub pl) ! b) \<and>
    (a < length (hub_heap (pl_hub pl)) \<longrightarrow> nc_NodeID (hub_heap h ! a) = nc_NodeID (hub_heap (pl_hub pl) ! a))"
proof -
  let ?h = "pl_hub pl"
  consider "pl' = pl" | f where "pl' = pl\<lparr> pl_hub := on_conn a f ?h \<rparr>" "\<And>c. nc_NodeID (f c) = nc_NodeID c"
    using assms by (auto simp: respond_def conn_send_def Let_def split: if_splits)
  then show ?thesis
  proof cases
    case 1 then show ?thesis by (intro exI [of _ ?h]) simp
  next
    case 2 then show ?thesis by (intro exI [of _ "on_conn a f ?h"]) (simp add: on_conn_def)
  qed
qed

lemma respond_room:
  assumes "\<not> nc_SendClosed (hub_heap (pl_hub pl) ! a)" and "length (nc_Send (hub_heap (pl_hub pl) ! a)) < send_cap"
  shows "respond works a m pl = Some (pl\<lparr> pl_hub := on_conn a (\<lambda>c. c\<lparr> nc_Send := nc_Send c @ [m] \<rparr>) (pl_hub pl) \<rparr>)"
  using assms by (simp add: respond_def conn_send_def Let_def)

lemma put_node_others:
  "nd_ID m \<noteq> nd_ID n \<Longrightarrow> m \<in> set (put_node n ns) \<longleftrightarrow> m \<in> set ns"
  by (auto simp: put_node_def split: if_splits)

lemma UpdateNode_others:
  "nd_ID m \<noteq> nd_ID (no_row n) \<Longrightarrow> m \<in> set (nb_nodes (snd (UpdateNode ok u now n db))) \<longleftrightarrow> m \<in> set (nb_nodes db)"
  by (simp add: UpdateNode_def Let_def put_node_others)

lemma UpdateNode_row:
  assumes "UpdateNode ok u now n db = (None, db')" and "nd_ID (no_row n) \<in> nd_ID ` set (live_nodes db)"
  shows "(no_row n)\<lparr> nd_UpdatedAt := now \<rparr> \<in> set (nb_nodes db')"
proof -
  have "nd_ID (no_row n) \<in> nd_ID ` set (nb_nodes db)" using assms(2) by (auto simp: live_nodes_def)
  then show ?thesis using assms by (auto simp: UpdateNode_def Let_def put_node_def split: if_splits)
qed

lemma GetNode_live:
  assumes "GetNode ok i db = Inr (Some n)"
  shows "i \<in> nd_ID ` set (live_nodes db)"
  by (rule image_eqI [of _ _ "no_row n"]) (use GetNode_Some [OF assms] in \<open>simp_all add: live_nodes_def\<close>)

lemma updateNodeInfo_others:
  assumes "updateNodeInfo works upsert now req db = (ok, db')" and "nd_ID m \<noteq> rr_NodeID req"
  shows "m \<in> set (nb_nodes db') \<longleftrightarrow> m \<in> set (nb_nodes db)"
proof (cases "\<exists>n. GetNode (works PC_get) (rr_NodeID req) db = Inr (Some n)")
  case True
  then obtain n where n: "GetNode (works PC_get) (rr_NodeID req) db = Inr (Some n)" by blast
  let ?n = "n\<lparr> no_row := (no_row n)\<lparr> nd_Name := rr_NodeName req, nd_Status := ''online'', nd_PublicIP := rr_IP req,
      nd_Port := rr_Port req, nd_Version := rr_Version req, nd_LastOnline := now \<rparr> \<rparr>"
  have "db' = snd (UpdateNode (works PC_update) upsert now ?n db)"
    using assms(1) n by (auto simp: updateNodeInfo_def split: option.splits prod.splits)
  then show ?thesis using UpdateNode_others [of m ?n "works PC_update" upsert now db] assms(2) GetNode_Some(3) [OF n] by simp
qed (use assms(1) in \<open>auto simp: updateNodeInfo_def split: sum.splits option.splits\<close>)

section \<open>Who gets a connection\<close>

lemma validateCK_key:
  assumes "validateCK ok now now' ck i tab"
  shows "\<exists>k. k \<in> set tab \<and> ck_Key k = ck \<and> \<not> ck_Revoked k \<and> now < ck_ExpiresAt k \<and> now' \<le> ck_ExpiresAt k \<and> ck_NodeID k = i \<and>
    ck_Type k = ''node''"
proof -
  obtain k where k: "GetConnectionKeyByKey now ck tab = Some k" "now' \<le> ck_ExpiresAt k" "ck_NodeID k = i" "ck_Type k = ''node''"
    using assms by (auto simp: validateCK_def split: if_splits option.splits)
  then show ?thesis unfolding GetConnectionKeyByKey_def find_Some_iff by (metis nth_mem)
qed

lemma accepted_connection:
  assumes "HandleConnection works upsert now now' msg pl = Some (Connected a, pl')"
  obtains req db h where "msg = Some (I_register (Some req))"
    and "validateCK (works PC_key) now now' (rr_CK req) (rr_NodeID req) (pl_keys pl)"
    and "updateNodeInfo works upsert now' req (pl_nodes pl) = (True, db)"
    and "Handler_connect now' (rr_NodeID req) (pl_hub pl) = Some h" and "a = length (hub_heap (pl_hub pl))"
    and "hub_heap h = hub_heap (pl_hub pl) @ [\<lparr> nc_NodeID = rr_NodeID req, nc_Send = [], nc_SendClosed = False,
           nc_ConnClosed = False, nc_LastSeen = now', nc_IsAlive = True \<rparr>]"
    and "pl' = pl\<lparr> pl_nodes := db, pl_hub := on_conn a (\<lambda>c. c\<lparr> nc_Send := nc_Send c @ [M_register_ack (rr_NodeID req)] \<rparr>) h \<rparr>"
proof -
  obtain req where msg: "msg = Some (I_register (Some req))"
    using assms by (cases msg) (auto simp: HandleConnection_def split: in_msg.splits option.splits)
  let ?i = "rr_NodeID req"
  have v: "validateCK (works PC_key) now now' (rr_CK req) ?i (pl_keys pl)"
    using assms msg by (auto simp: HandleConnection_def split: if_splits)
  obtain db where db: "updateNodeInfo works upsert now' req (pl_nodes pl) = (True, db)"
    using assms msg v by (cases "updateNodeInfo works upsert now' req (pl_nodes pl)") (auto simp: HandleConnection_def split: if_splits bool.splits)
  obtain h where h: "Handler_connect now' ?i (pl_hub pl) = Some h"
      "map_option (Pair (Connected (length (hub_heap (pl_hub pl)))))
         (respond works (length (hub_heap (pl_hub pl))) (M_register_ack ?i) (pl\<lparr> pl_nodes := db, pl_hub := h \<rparr>)) = Some (Connected a, pl')"
    using assms msg v db by (auto simp: HandleConnection_def Let_def split: option.splits)
  then have a: "a = length (hub_heap (pl_hub pl))"
    and r: "respond works a (M_register_ack ?i) (pl\<lparr> pl_nodes := db, pl_hub := h \<rparr>) = Some pl'" by auto
  have hh: "hub_heap h = hub_heap (pl_hub pl) @ [\<lparr> nc_NodeID = ?i, nc_Send = [], nc_SendClosed = False, nc_ConnClosed = False,
      nc_LastSeen = now', nc_IsAlive = True \<rparr>]"
    using h(1) by (auto simp: Handler_connect_def split: if_splits)
  have c: "hub_heap h ! a = \<lparr> nc_NodeID = ?i, nc_Send = [], nc_SendClosed = False, nc_ConnClosed = False,
      nc_LastSeen = now', nc_IsAlive = True \<rparr>" by (simp add: hh a)
  have "pl' = pl\<lparr> pl_nodes := db, pl_hub := on_conn a (\<lambda>c. c\<lparr> nc_Send := nc_Send c @ [M_register_ack ?i] \<rparr>) h \<rparr>"
    using r respond_room [of "pl\<lparr> pl_nodes := db, pl_hub := h \<rparr>" a works "M_register_ack ?i"] c by (simp add: send_cap_def)
  then show thesis by (rule that [OF msg v db h(1) a hh])
qed

text \<open>
  C36: a connection is accepted only with a key of this node: the first message is a registration whose key is in the table,
  is neither revoked nor expired, is bound to the node that registers and is a node key; the node exists. Afterwards its
  row is online with the reported address, no other row has changed, and the connection carries the node's identifier
  and the acknowledgement alone.
\<close>

theorem connection_authenticated:
  assumes "HandleConnection works upsert now now' msg pl = Some (Connected a, pl')"
  shows "\<exists>req k. msg = Some (I_register (Some req)) \<and>
    k \<in> set (pl_keys pl) \<and> ck_Key k = rr_CK req \<and> \<not> ck_Revoked k \<and> now' \<le> ck_ExpiresAt k \<and> ck_NodeID k = rr_NodeID req \<and>
    ck_Type k = ''node'' \<and> rr_NodeID req \<in> nd_ID ` set (live_nodes (pl_nodes pl)) \<and>
    (\<exists>n. n \<in> set (nb_nodes (pl_nodes pl')) \<and> nd_ID n = rr_NodeID req \<and> nd_Status n = ''online'' \<and> nd_PublicIP n = rr_IP req \<and>
         nd_Port n = rr_Port req) \<and>
    (\<forall>m. nd_ID m \<noteq> rr_NodeID req \<longrightarrow> (m \<in> set (nb_nodes (pl_nodes pl')) \<longleftrightarrow> m \<in> set (nb_nodes (pl_nodes pl)))) \<and>
    a = length (hub_heap (pl_hub pl)) \<and> nc_NodeID (hub_heap (pl_hub pl') ! a) = rr_NodeID req \<and>
    nc_Send (hub_heap (pl_hub pl') ! a) = [M_register_ack (rr_NodeID req)]"
proof -
  obtain req db h where acc: "msg = Some (I_register (Some req))"
      "validateCK (works PC_key) now now' (rr_CK req) (rr_NodeID req) (pl_keys pl)"
      "updateNodeInfo works upsert now' req (pl_nodes pl) = (True, db)" "Handler_connect now' (rr_NodeID req) (pl_hub pl) = Some h"
      "a = length (hub_heap (pl_hub pl))"
    and hh: "hub_heap h = hub_heap (pl_hub pl) @ [\<lparr> nc_NodeID = rr_NodeID req, nc_Send = [], nc_SendClosed = False,
           nc_ConnClosed = False, nc_LastSeen = now', nc_IsAlive = True \<rparr>]"
    and pl': "pl' = pl\<lparr> pl_nodes := db, pl_hub := on_conn a (\<lambda>c. c\<lparr> nc_Send := nc_Send c @ [M_register_ack (rr_NodeID req)] \<rparr>) h \<rparr>"
    by (rule accepted_connection [OF assms])
  note msg = acc(1) and v = acc(2) and db = acc(3) and a = acc(5)
  let ?i = "rr_NodeID req"
  have conn: "nc_NodeID (hub_heap (pl_hub pl') ! a) = ?i" "nc_Send (hub_heap (pl_hub pl') ! a) = [M_register_ack ?i]"
    by (simp_all add: pl' on_conn_def hh a)
  obtain n where n: "GetNode (works PC_get) ?i (pl_nodes pl) = Inr (Some n)"
    using db by (auto simp: updateNodeInfo_def split: sum.splits option.splits)
  let ?n = "n\<lparr> no_row := (no_row n)\<lparr> nd_Name := rr_NodeName req, nd_Status := ''online'', nd_PublicIP := rr_IP req,
      nd_Port := rr_Port req, nd_Version := rr_Version req, nd_LastOnline := now' \<rparr> \<rparr>"
  have u: "UpdateNode (works PC_update) upsert now' ?n (pl_nodes pl) = (None, db)"
    using db n by (auto simp: updateNodeInfo_def split: option.splits prod.splits)
  have live: "?i \<in> nd_ID ` set (live_nodes (pl_nodes pl))"
    by (rule GetNode_live [OF n])
  have row: "(no_row ?n)\<lparr> nd_UpdatedAt := now' \<rparr> \<in> set (nb_nodes db)"
    by (rule UpdateNode_row [OF u]) (use live GetNode_Some(3) [OF n] in simp)
  have row': "\<exists>m. m \<in> set (nb_nodes (pl_nodes pl')) \<and> nd_ID m = ?i \<and> nd_Status m = ''online'' \<and> nd_PublicIP m = rr_IP req \<and>
      nd_Port m = rr_Port req"
    by (rule exI, rule conjI, simp only: pl', simp, rule row [simplified]) (simp add: GetNode_Some(3) [OF n])
  obtain k where k: "k \<in> set (pl_keys pl)" "ck_Key k = rr_CK req" "\<not> ck_Revoked k" "now' \<le> ck_ExpiresAt k" "ck_NodeID k = ?i"
      "ck_Type k = ''node''"
    using validateCK_key [OF v] by blast
  have others': "m \<in> set (nb_nodes (pl_nodes pl')) \<longleftrightarrow> m \<in> set (nb_nodes (pl_nodes pl))" if "nd_ID m \<noteq> ?i" for m
    using updateNodeInfo_others [OF db that] by (simp add: pl')
  show ?thesis
    by (intro exI [of _ req] exI [of _ k] conjI msg k live row' conn a allI impI others')
qed

definition node_key :: connection_key where
  "node_key = \<lparr> ck_NodeID = ''a'', ck_Key = ''0123456789'', ck_Type = ''node'', ck_Label = [], ck_ExpiresAt = 100, ck_Revoked = False,
                ck_LastUsed = None \<rparr>"

definition demo_plane :: plane where
  "demo_plane =
     \<lparr> pl_hub = NewServer_hub 0, pl_nodes = two_nodes, pl_keys = [node_key],
       pl_tunnels = \<lparr> td_tunnels = [], td_rules = [], td_targets = [], td_acls = [] \<rparr>, pl_failover = None, pl_events = [],
       pl_mon = empty_mon \<rparr>"

definition demo_register :: node_registration where
  "demo_register = \<lparr> rr_NodeID = ''a'', rr_NodeName = ''a'', rr_Version = [], rr_IP = ''ip'', rr_Port = 7, rr_CK = ''0123456789'' \<rparr>"

lemma demo_node: "GetNode True ''a'' two_nodes = Inr (Some \<lparr> no_row = row_of ''a'' ''online'' 0, no_Groups = [] \<rparr>)"
  by (simp add: GetNode_iff two_nodes_def row_of_def node_db_ok_def)

lemma demo_connects:
  "\<exists>pl'. HandleConnection (\<lambda>_. True) False 5 5 (Some (I_register (Some demo_register))) demo_plane = Some (Connected 0, pl')"
proof -
  have v: "validateCK True 5 5 (rr_CK demo_register) (rr_NodeID demo_register) (pl_keys demo_plane)"
    by (simp add: validateCK_def demo_register_def demo_plane_def node_key_def GetConnectionKeyByKey_def)
  have live: "''a'' \<in> nd_ID ` set (live_nodes two_nodes)" by (rule GetNode_live [OF demo_node])
  obtain db where db: "updateNodeInfo (\<lambda>_. True) False 5 demo_register (pl_nodes demo_plane) = (True, db)"
    using live by (simp add: updateNodeInfo_def demo_register_def demo_plane_def demo_node UpdateNode_def Let_def row_of_def)
  have hub: "hub_heap (pl_hub demo_plane) = []" "hub_register (pl_hub demo_plane) = []"
    by (simp_all add: demo_plane_def NewServer_hub_def Hub_SetOnDisconnect_def NewHub_def)
  show ?thesis
    unfolding HandleConnection_def
    by (simp add: v db Let_def hub Handler_connect_def queue_cap_def respond_def conn_send_def send_cap_def)
qed

theorem connection_authenticated_witness:
  "\<exists>pl' n. HandleConnection (\<lambda>_. True) False 5 5 (Some (I_register (Some demo_register))) demo_plane = Some (Connected 0, pl') \<and>
     n \<in> set (nb_nodes (pl_nodes pl')) \<and> nd_ID n = ''a'' \<and> nd_PublicIP n = ''ip'' \<and>
     nc_Send (hub_heap (pl_hub pl') ! 0) = [M_register_ack ''a'']"
proof -
  obtain pl' where pl': "HandleConnection (\<lambda>_. True) False 5 5 (Some (I_register (Some demo_register))) demo_plane = Some (Connected 0, pl')"
    using demo_connects by blast
  have r: "rr_NodeID demo_register = ''a''" "rr_IP demo_register = ''ip''" by (simp_all add: demo_register_def)
  show ?thesis using connection_authenticated [OF pl'] r pl' by auto
qed

section \<open>Messages act for their own node\<close>

text \<open>Everything a message of the node \<open>i\<close> on the connection \<open>a\<close> may change.\<close>

definition confined :: "string \<Rightarrow> nat \<Rightarrow> plane \<Rightarrow> plane \<Rightarrow> bool" where
  "confined i a pl pl' \<longleftrightarrow>
     (\<forall>m. nd_ID m \<noteq> i \<longrightarrow> (m \<in> set (nb_nodes (pl_nodes pl')) \<longleftrightarrow> m \<in> set (nb_nodes (pl_nodes pl)))) \<and>
     nb_groups (pl_nodes pl') = nb_groups (pl_nodes pl) \<and> nb_members (pl_nodes pl') = nb_members (pl_nodes pl) \<and>
     pl_keys pl' = pl_keys pl \<and> td_rules (pl_tunnels pl') = td_rules (pl_tunnels pl) \<and>
     (\<exists>ev. pl_events pl' = pl_events pl @ ev \<and> (\<forall>e. e \<in> set ev \<longrightarrow> fe_NodeID e = i)) \<and>
     (\<exists>ds. mb_data (pl_mon pl') = mb_data (pl_mon pl) @ ds \<and> (\<forall>d. d \<in> set ds \<longrightarrow> md_NodeID d = i)) \<and>
     (\<forall>b. b \<noteq> a \<longrightarrow> hub_heap (pl_hub pl') ! b = hub_heap (pl_hub pl) ! b) \<and>
     nc_NodeID (hub_heap (pl_hub pl') ! a) = i"

lemma confined_respond:
  assumes "respond works a m pl1 = Some pl'" and "confined i a pl pl1" and "a < length (hub_heap (pl_hub pl1))"
  shows "confined i a pl pl'"
proof -
  obtain h where h: "pl' = pl1\<lparr> pl_hub := h \<rparr>" "\<And>b. b \<noteq> a \<Longrightarrow> hub_heap h ! b = hub_heap (pl_hub pl1) ! b"
      "nc_NodeID (hub_heap h ! a) = nc_NodeID (hub_heap (pl_hub pl1) ! a)"
    using respond_hub [OF assms(1)] assms(3) by blast
  show ?thesis using assms(2) unfolding confined_def h(1) by (simp add: h(2,3))
qed

lemma confined_nodes:
  assumes "confined i a pl pl" and "\<And>m. nd_ID m \<noteq> i \<Longrightarrow> m \<in> set (nb_nodes db) \<longleftrightarrow> m \<in> set (nb_nodes (pl_nodes pl))"
    and "nb_groups db = nb_groups (pl_nodes pl)" and "nb_members db = nb_members (pl_nodes pl)"
  shows "confined i a pl (pl\<lparr> pl_nodes := db \<rparr>)"
  using assms unfolding confined_def by simp

lemma heartbeat_others:
  "nd_ID (no_row n) = i \<Longrightarrow> nd_ID m \<noteq> i \<Longrightarrow> m \<in> set (nb_nodes (heartbeat_save works u now r n db)) \<longleftrightarrow> m \<in> set (nb_nodes db)"
  by (cases r) (simp add: heartbeat_save_def UpdateNode_others)

lemma heartbeat_groups:
  "nb_groups (heartbeat_save works u now r n db) = nb_groups db" "nb_members (heartbeat_save works u now r n db) = nb_members db"
  by (cases r, simp add: heartbeat_save_def UpdateNode_def Let_def)+

lemma heartbeat_confined:
  assumes "handleHeartbeat works u now a req pl = Some pl'" and "a < length (hub_heap (pl_hub pl))"
    and "i = nc_NodeID (hub_heap (pl_hub pl) ! a)"
  shows "confined i a pl pl'"
proof (cases req)
  case None then show ?thesis using assms by (simp add: handleHeartbeat_def confined_def)
next
  case (Some r)
  let ?db = "case GetNode (works PC_get) i (pl_nodes pl) of Inl _ \<Rightarrow> pl_nodes pl | Inr None \<Rightarrow> pl_nodes pl
               | Inr (Some n) \<Rightarrow> heartbeat_save works u now r n (pl_nodes pl)"
  have db: "(\<forall>m. nd_ID m \<noteq> i \<longrightarrow> (m \<in> set (nb_nodes ?db) \<longleftrightarrow> m \<in> set (nb_nodes (pl_nodes pl)))) \<and>
      nb_groups ?db = nb_groups (pl_nodes pl) \<and> nb_members ?db = nb_members (pl_nodes pl)"
    by (auto simp: heartbeat_groups dest: GetNode_Some(3) heartbeat_others split: sum.split option.split)
  have r: "respond works a (M_heartbeat now) (pl\<lparr> pl_nodes := ?db \<rparr>) = Some pl'"
    using assms(1,3) Some by (simp add: handleHeartbeat_def Let_def)
  have "confined i a pl pl" using assms(3) by (simp add: confined_def)
  then have "confined i a pl (pl\<lparr> pl_nodes := ?db \<rparr>)" using db by (intro confined_nodes) auto
  then show ?thesis by (rule confined_respond [OF r]) (simp add: assms(2))
qed

lemma traffic_confined:
  assumes "handleTrafficReport works now a req pl = Some pl'" and "a < length (hub_heap (pl_hub pl))"
    and "i = nc_NodeID (hub_heap (pl_hub pl) ! a)"
  shows "confined i a pl pl'"
proof (cases req)
  case None then show ?thesis using assms by (simp add: handleTrafficReport_def confined_def)
next
  case (Some t)
  obtain tid x y where t: "t = (tid, x, y)" by (cases t) auto
  let ?pl = "pl\<lparr> pl_tunnels := snd (UpdateTraffic (\<lambda>q. works (PC_tunnel q)) now tid x y (pl_tunnels pl)) \<rparr>"
  have r: "respond works a M_traffic ?pl = Some pl'" using assms(1) Some t by (simp add: handleTrafficReport_def)
  have "confined i a pl ?pl" using assms(3) by (simp add: confined_def UpdateTraffic_def update_tunnels_def)
  then show ?thesis by (rule confined_respond [OF r]) (simp add: assms(2))
qed

lemma failover_confined:
  assumes "handleFailoverEvent works now a req pl = Some pl'" and "a < length (hub_heap (pl_hub pl))"
    and "i = nc_NodeID (hub_heap (pl_hub pl) ! a)"
  shows "confined i a pl pl'"
proof (cases req)
  case None then show ?thesis using assms by (simp add: handleFailoverEvent_def confined_def)
next
  case (Some r0)
  let ?r = "r0\<lparr> fr_NodeID := i \<rparr>"
  let ?pl = "case pl_failover pl of None \<Rightarrow> pl
      | Some s \<Rightarrow> (case FailoverService_HandleEvent (works PC_event) now ?r (s, pl_events pl) of
                     (_, s', ev) \<Rightarrow> pl\<lparr> pl_failover := Some s', pl_events := ev \<rparr>)"
  have r: "respond works a (M_failover_ack (fr_TunnelID ?r)) ?pl = Some pl'"
    using assms(1) Some by (simp add: handleFailoverEvent_def Let_def flip: assms(3))
  have ev: "fe_NodeID (event_of now ?r) = i" by (simp add: event_of_def)
  have "confined i a pl ?pl \<and> length (hub_heap (pl_hub ?pl)) = length (hub_heap (pl_hub pl))"
    using assms(3) ev by (auto simp: confined_def FailoverService_HandleEvent_def Let_def split: option.split)
  then show ?thesis using confined_respond [OF r] assms(2) by simp
qed

lemma monitoring_confined:
  assumes "handleMonitoringReport works newID now a req pl = Some pl'" and "a < length (hub_heap (pl_hub pl))"
    and "i = nc_NodeID (hub_heap (pl_hub pl) ! a)"
  shows "confined i a pl pl'"
proof (cases req)
  case None then show ?thesis using assms by (simp add: handleMonitoringReport_def confined_def)
next
  case (Some s)
  obtain e db where r: "ReportMonitoringData (\<lambda>q. works (PC_mon q)) newID now i s (pl_nodes pl) (pl_mon pl) = (e, db)" by fastforce
  then have d: "mb_data db = mb_data (pl_mon pl) @ (if e = None then [convertToMonitoringData now i s] else [])"
    by (auto simp: ReportMonitoringData_def upsert_data split: sum.splits option.splits if_splits prod.splits)
  have c: "confined i a pl (pl\<lparr> pl_mon := db \<rparr>)"
    using assms(3) by (simp add: confined_def d convertToMonitoringData_def)
  show ?thesis
  proof (cases e)
    case None
    then have "respond works a (M_monitoring_ack now) (pl\<lparr> pl_mon := db \<rparr>) = Some pl'"
      using assms(1,3) Some r by (simp add: handleMonitoringReport_def)
    then show ?thesis by (rule confined_respond [OF _ c]) (simp add: assms(2))
  qed (use assms(1,3) Some r c in \<open>simp add: handleMonitoringReport_def\<close>)
qed



section \<open>Peers\<close>


definition paired_nodes :: node_db where
  "paired_nodes =
     \<lparr> nb_nodes = [row_of ''a'' ''online'' 0, row_of ''b'' ''online'' 0],
       nb_groups = [\<lparr> ng_ID = ''g'', ng_CreatedAt = 0, ng_DeletedAt = None, ng_Name = ''g'', ng_Role = ''egress'' \<rparr>],
       nb_members = [(''b'', ''g'')] \<rparr>"


section \<open>What the code does otherwise\<close>

text \<open>
  No configuration that is sent carries a tunnel: the query that loads the node does not load its groups, so its group
  stays empty and no tunnel is looked for. For the same reason no node is found in a group, and a change of a rule is
  announced to nobody.
\<close>

theorem config_without_tunnels:
  assumes "GetNodeConfig works i db tdb = Some c"
  shows "nf_Tunnels c = [] \<and> nf_GroupID c = []"
proof -
  obtain n where n: "GetNode (works PC_get) i db = Inr (Some n)" "c = config_of works n db tdb"
    using assms by (auto simp: GetNodeConfig_def split: sum.splits option.splits)
  then show ?thesis using GetNode_Some(4) [OF n(1)] by (simp add: config_of_def)
qed

theorem config_without_tunnels_witness:
  "\<exists>c. GetNodeConfig (\<lambda>_. True) ''a'' two_nodes
       \<lparr> td_tunnels = [(new_tunnel ''t'' 0 ''u'' r)\<lparr> tn_IngressNodeID := ''a'' \<rparr>], td_rules = [], td_targets = [], td_acls = [] \<rparr> = Some c \<and>
     nf_Tunnels c = []"
proof -
  have "GetNode True ''a'' two_nodes = Inr (Some \<lparr> no_row = row_of ''a'' ''online'' 0, no_Groups = [] \<rparr>)"
    by (simp add: GetNode_iff two_nodes_def row_of_def node_db_ok_def)
  then obtain c where c: "GetNodeConfig (\<lambda>_. True) ''a'' two_nodes
       \<lparr> td_tunnels = [(new_tunnel ''t'' 0 ''u'' r)\<lparr> tn_IngressNodeID := ''a'' \<rparr>], td_rules = [], td_targets = [], td_acls = [] \<rparr> = Some c"
    by (simp add: GetNodeConfig_def)
  then show ?thesis using config_without_tunnels [OF c] by blast
qed

theorem no_node_in_group: "NotifyRuleChange works ord gid pl = []"
proof -
  have "filter (\<lambda>i. case GetNode (works PC_get) i (pl_nodes pl) of
      Inr (Some n) \<Rightarrow> (\<exists>g \<in> set (no_Groups n). ng_ID g = gid) | _ \<Rightarrow> False) ord = []"
    by (auto simp: filter_empty_conv dest: GetNode_Some(4) split: sum.splits option.splits)
  then show ?thesis by (simp add: NotifyRuleChange_def getOnlineNodesInGroup_def)
qed

text \<open>With the group loaded the configuration would carry the enabled tunnels of the group.\<close>

lemma config_of_group:
  assumes "works PC_tunnels" and "no_Groups n = g # gs" and "ng_ID g \<noteq> []"
  shows "nf_Tunnels (config_of works n db tdb) =
    map tunnel_config_of (filter (\<lambda>t. (tn_IngressGroupID t = ng_ID g \<or> tn_EgressGroupID t = ng_ID g) \<and> tn_Enabled t) (live (td_tunnels tdb)))"
  using assms by (simp add: config_of_def getTunnelsByGroupID_def conj_ac)

text \<open>A node of a group for both roles is no peer of anybody through that group.\<close>

theorem both_is_no_peer: "target_role role \<noteq> ''both''"
  by (simp add: target_role_def)

text \<open>A heartbeat stores the status that the node claims, also over the status an administrator has set.\<close>

theorem heartbeat_overwrites_status:
  assumes "GetNode True i db = Inr (Some n)" and "nd_Status (no_row n) = ''disabled''" and "works PC_update"
  shows "\<exists>m. m \<in> set (nb_nodes (heartbeat_save works upsert now (''online'', []) n db)) \<and> nd_ID m = i \<and> nd_Status m = ''online''"
proof -
  let ?n = "n\<lparr> no_row := (no_row n)\<lparr> nd_Status := ''online'', nd_LastOnline := now \<rparr> \<rparr>"
  have live: "nd_ID (no_row ?n) \<in> nd_ID ` set (live_nodes db)" using GetNode_live [OF assms(1)] GetNode_Some(3) [OF assms(1)] by simp
  obtain db' where u: "UpdateNode True upsert now ?n db = (None, db')"
    using live by (auto simp: UpdateNode_def Let_def)
  have "heartbeat_save works upsert now (''online'', []) n db = db'" using u assms(3) by (simp add: heartbeat_save_def)
  then show ?thesis using UpdateNode_row [OF u live] GetNode_Some(3) [OF assms(1)]
    by (intro exI [of _ "(no_row ?n)\<lparr> nd_UpdatedAt := now \<rparr>"]) simp
qed

text \<open>
  Between the two statements of a heartbeat the node may be deleted. When the second one inserts the row that it could
  not update, the node is there again.
\<close>

theorem heartbeat_revives_node:
  assumes "node_db_ok db" and "GetNode True i db = Inr (Some n)" and "works PC_update"
  shows "i \<notin> nd_ID ` set (live_nodes (snd (DeleteNode True t i db))) \<and>
    i \<in> nd_ID ` set (live_nodes (heartbeat_save works True now r n (snd (DeleteNode True t i db))))"
proof -
  let ?db = "snd (DeleteNode True t i db)"
  define f where "f m = (if nd_ID m = i \<and> nd_DeletedAt m = None then m\<lparr> nd_DeletedAt := Some t \<rparr> else m)" for m :: node_row
  have f: "nd_DeletedAt (f m) = None \<Longrightarrow> nd_ID (f m) \<noteq> i" for m by (auto simp: f_def split: if_splits)
  have "nb_nodes ?db = map f (nb_nodes db)"
    using GetNode_live [OF assms(2)] by (simp add: DeleteNode_def f_def cong: if_cong)
  then have gone: "i \<notin> nd_ID ` set (live_nodes ?db)" using f by (auto simp: live_nodes_def)
  obtain st v where r: "r = (st, v)" by (cases r) auto
  let ?n = "(no_row n)\<lparr> nd_Status := st, nd_LastOnline := now, nd_Version := (if v \<noteq> [] then v else nd_Version (no_row n)), nd_UpdatedAt := now \<rparr>"
  have "nb_nodes (heartbeat_save works True now r n ?db) = put_node ?n (nb_nodes ?db)"
    using assms(3) by (simp add: heartbeat_save_def r UpdateNode_def Let_def)
  moreover have "?n \<in> set (put_node ?n (nb_nodes ?db))" by (auto simp: put_node_def)
  moreover have "nd_DeletedAt ?n = None" "nd_ID ?n = i" using GetNode_Some(2,3) [OF assms(2)] by simp_all
  ultimately have "i \<in> nd_ID ` set (live_nodes (heartbeat_save works True now r n ?db))"
    by (intro image_eqI [of _ _ ?n]) (simp_all add: live_nodes_def)
  then show ?thesis using gone by blast
qed

text \<open>
  The configuration is sent by a goroutine that does not wait for the hub. When it runs before the hub has taken the
  registration, a node that was not connected gets nothing, and for a node that was connected the configuration goes to
  the connection that the registration is about to close.
\<close>

theorem config_before_registration:
  assumes "HandleConnection works upsert now now' msg pl = Some (Connected a, pl')"
    and "map_of (hub_connections (pl_hub pl)) (nc_NodeID (hub_heap (pl_hub pl') ! a)) = None"
  shows "\<exists>e. sendFullNodeConfig works' (nc_NodeID (hub_heap (pl_hub pl') ! a)) pl' = Inr (e, pl') \<and> e \<in> {None, Some ErrNodeNotConnected}"
proof -
  let ?i = "nc_NodeID (hub_heap (pl_hub pl') ! a)"
  obtain req db h where "msg = Some (I_register (Some req))"
      "validateCK (works PC_key) now now' (rr_CK req) (rr_NodeID req) (pl_keys pl)"
      "updateNodeInfo works upsert now' req (pl_nodes pl) = (True, db)"
    and h: "Handler_connect now' (rr_NodeID req) (pl_hub pl) = Some h" and "a = length (hub_heap (pl_hub pl))"
      "hub_heap h = hub_heap (pl_hub pl) @ [\<lparr> nc_NodeID = rr_NodeID req, nc_Send = [], nc_SendClosed = False,
           nc_ConnClosed = False, nc_LastSeen = now', nc_IsAlive = True \<rparr>]"
    and pl': "pl' = pl\<lparr> pl_nodes := db, pl_hub := on_conn a (\<lambda>c. c\<lparr> nc_Send := nc_Send c @ [M_register_ack (rr_NodeID req)] \<rparr>) h \<rparr>"
    by (rule accepted_connection [OF assms(1)])
  have "hub_connections h = hub_connections (pl_hub pl)" using h by (auto simp: Handler_connect_def split: if_splits)
  then have "hub_connections (pl_hub pl') = hub_connections (pl_hub pl)" by (simp add: pl' on_conn_def)
  then have "map_of (hub_connections (pl_hub pl')) ?i = None" using assms(2) by simp
  then show ?thesis
    by (cases "GetNodeConfig works' ?i (pl_nodes pl') (pl_tunnels pl')") (simp_all add: sendFullNodeConfig_def Hub_SendToNode_def)
qed

text \<open>A node may report traffic for a tunnel that is not its own; the counters of that tunnel grow.\<close>

theorem foreign_traffic_counted:
  assumes "t \<in> set (live (td_tunnels (pl_tunnels pl)))" and "tn_IngressNodeID t \<noteq> nc_NodeID (hub_heap (pl_hub pl) ! a)"
    and "tn_EgressNodeID t \<noteq> nc_NodeID (hub_heap (pl_hub pl) ! a)" and "works (PC_tunnel Q_traffic)"
    and "\<not> nc_SendClosed (hub_heap (pl_hub pl) ! a)" and "length (nc_Send (hub_heap (pl_hub pl) ! a)) < send_cap"
  shows "\<exists>pl'. handleTrafficReport works now a (Some (tn_ID t, x, y)) pl = Some pl' \<and>
    t\<lparr> tn_BytesIn := tn_BytesIn t + x, tn_BytesOut := tn_BytesOut t + y, tn_ConnectionCount := tn_ConnectionCount t + 1,
       tn_LastActive := Some now \<rparr> \<in> set (td_tunnels (pl_tunnels pl'))"
proof -
  let ?tdb = "snd (UpdateTraffic (\<lambda>q. works (PC_tunnel q)) now (tn_ID t) x y (pl_tunnels pl))"
  let ?f = "\<lambda>t. t\<lparr> tn_BytesIn := tn_BytesIn t + x, tn_BytesOut := tn_BytesOut t + y, tn_ConnectionCount := tn_ConnectionCount t + 1,
       tn_LastActive := Some now \<rparr>"
  have tdb: "td_tunnels ?tdb = map (\<lambda>u. if tn_DeletedAt u = None \<and> tn_ID u = tn_ID t then ?f u else u) (td_tunnels (pl_tunnels pl))"
    using assms(4) by (simp add: UpdateTraffic_def update_tunnels_def)
  have "t \<in> set (td_tunnels (pl_tunnels pl))" "tn_DeletedAt t = None" using assms(1) by (auto simp: live_def)
  then have "?f t \<in> set (td_tunnels ?tdb)" unfolding tdb set_map by (intro image_eqI [of _ _ t]) simp_all
  then show ?thesis using respond_room [of "pl\<lparr> pl_tunnels := ?tdb \<rparr>" a works M_traffic] assms(5,6)
    by (simp add: handleTrafficReport_def)
qed

end
