(* ===== verification/Spec2Isabelle.thy ===== *)
theory Spec2Isabelle
  imports Session_Lifecycle Mux_Manager Flow_Controller Circuit_Breaker Retry Rule_Manager_Props
    Login_Limiter Plane_Ports Billing Failover Incremental_Sync Group_Cache Plane_Keys
    Load_Balancer Wallet Ws_Hub Ws_Pool Smart_Cache Recovery_Manager
    Acl Client_Ports Udp_Sessions Pool_Manager Heartbeat
    Detector Buffers Batching Encryption Tunnels Access Node_Handler
begin

text \<open>
  GKI Pass is a tunnelling system of two Go programs. The control plane (\<open>plane/\<close>) keeps users, plans,
  wallets, nodes, tunnels and rules in a database and talks to the nodes over WebSocket. The client
  (\<open>client/\<close>), which runs on every node, receives the rules and forwards traffic: it multiplexes streams over
  one connection, shapes and queues packets, translates UDP, and recovers from errors. This development is a
  model of the parts of both programs that hold state and take decisions, translated from the source, with the
  theorems that make them correct.

  \<^bold>\<open>Conventions.\<close> A struct is a record whose fields carry a prefix of their type, an enumeration a datatype, a
  method \<open>T.Op\<close> the definition \<open>T_Op\<close>. Fixed-width integers are words, or integers with the wrap-around
  written out (\<open>wrap32\<close>, \<open>add64\<close> of \<open>Prelude\<close>); \<open>float64\<close> is a rational with every operation rounded (\<open>Go_Float\<close>).
  A Go map is an association list with distinct keys, a table of the database the list of its rows; the order in
  which a map is ranged over is an argument. A pointer whose aliasing matters is a position in a store that
  never shrinks (streams of a session, backends, cache entries, connections of a hub, recovery tasks). Errors
  are values; a run-time panic is the left side of a sum; an operation that would wait for ever has no result or
  a waiting result. Clock readings, random numbers, fresh identifiers, answers of sockets, databases and
  handlers are arguments. A method under one lock is one step; where the source gives up the lock in between,
  the parts are separate steps, and the interleavings are the runs of an inductive relation.

  \<^bold>\<open>The client's multiplexer\<close> (\<open>client/internal/multiplex\<close>). \<open>Frame\<close> is \<open>frame.go\<close>: constructors, encoder, decoder,
  validator; encoding and decoding are inverse for sequences of frames, truncated input is an error, validated
  frames do not panic. \<open>Fifo\<close> is the interface of a bounded byte queue as a locale; \<open>Ring_Buffer\<close> interprets it on
  the buffer of \<open>stream.go\<close>. \<open>Stream\<close> and \<open>Stream_Props\<close> are the stream and its flow control, with the invariant of
  every reachable stream, what \<open>Read\<close> and \<open>Write\<close> do, and the ways closing goes wrong. \<open>Session\<close>, \<open>Session_Props\<close>
  and \<open>Session_Wire\<close> are \<open>session.go\<close>: the stream table, the read loop, the transfer of bytes from one peer to
  the other, closing. \<open>Session_Lifecycle\<close> is the goroutines of a session as a step relation, and when a close can
  finish. \<open>Mux_Manager\<close> is the registry of sessions and the connection pool of \<open>manager.go\<close>.

  \<^bold>\<open>Traffic\<close> (\<open>client/internal/traffic\<close>). \<open>Priority_Queue\<close> and its \<open>_Props\<close> are \<open>queue.go\<close> over the heap of \<open>Go_Heap\<close>,
  whose order is a locale; \<open>Token_Bucket\<close> is \<open>bucket.go\<close> with a bound on the granted tokens that accounts for the
  rounding of every refill; \<open>Flow_Controller\<close> is \<open>controller.go\<close> on top of both.

  \<^bold>\<open>Recovery\<close> (\<open>client/internal/recovery\<close>). \<open>Circuit_Breaker\<close>, \<open>Retry\<close> and \<open>Recovery_Manager\<close> are the breaker with
  its transitions, the retry policies and loop, and the manager whose tasks interleave with its event loop.

  \<^bold>\<open>Rules\<close> (\<open>client/internal/rules\<close>). \<open>Rules\<close> and \<open>Rules_Props\<close> are \<open>types.go\<close>: ranges, predicates, the sort of a rule
  set. \<open>Rule_Manager\<close> and its \<open>_Props\<close> are \<open>manager.go\<close>: the table, its files, backups and synchronisation, and that
  a restart restores the table.

  \<^bold>\<open>Other client parts.\<close> \<open>Load_Balancer\<close> (\<open>relay/load_balancer.go\<close>): every mode answers with a healthy backend.
  \<open>Smart_Cache\<close> (\<open>cache/cache.go\<close>, \<open>eviction.go\<close>): linked lists in a store refine a map. \<open>Client_Ports\<close>
  (\<open>ports/manager.go\<close>): allocation and listeners over the sockets of the system. \<open>Udp_Sessions\<close> (\<open>udp/session.go\<close>,
  \<open>udp/manager.go\<close>): sessions found by five-tuple, translated ports, translation both ways.

  \<^bold>\<open>The client's connection pool\<close> (\<open>client/internal/pool\<close>). \<open>Pool_Config\<close> (\<open>config.go\<close>), \<open>Pool_Balancer\<close>
  (\<open>loadbalancer.go\<close>: the choice among several connections), \<open>Adaptive_Pool\<close> and its \<open>_Props\<close> (\<open>adaptive.go\<close>: nobody gets
  a connection another caller holds, sizes and counters, and the paths that make a pool unusable) and
  \<open>Pool_Manager\<close> (\<open>connection.go\<close>: one pool per transport and target). The functions of package \<open>math\<close> are the fields of
  an argument, the record \<open>go_math\<close>.

  \<^bold>\<open>The client's heartbeat\<close> (\<open>client/internal/heartbeat\<close>). \<open>Heartbeat_Stats\<close> is \<open>message.go\<close> and \<open>statistics.go\<close>: messages,
  statistics, scores. \<open>Heartbeat\<close> is \<open>manager.go\<close>: the requests in flight and their accounting over every interleaving
  of a handler's loops, and what the shutdown waits for.

  \<^bold>\<open>The client's protocol layer.\<close> \<open>Detector\<close> (\<open>detector/detector.go\<close>, \<open>connection.go\<close>, \<open>protocol/classifier.go\<close>):
  what the first bytes of a connection are taken for, and that a detecting connection hands on every byte.
  \<open>Buffers\<close> (\<open>protocol/buffer.go\<close>): pooled buffers as positions in a store, so that sharing shows. \<open>Batching\<close>
  (\<open>protocol/batch.go\<close>): the way of an item through queue, batch and worker over every interleaving.
  \<open>Encryption\<close> (\<open>encryption/crypto.go\<close>, \<open>transport.go\<close>): the encryptors with their contract, a locale, and the HTTP
  transport that encrypts protected requests.

  \<^bold>\<open>Users and tunnels of the control plane.\<close> \<open>Users\<close> (\<open>service/user_gorm.go\<close>): registration, log-in, changes, and
  that an administrator remains. \<open>Access\<close> (\<open>api/middleware\<close>, \<open>api/handler/security/auth.go\<close>, \<open>service/jwt_manager.go\<close>): what a token
  or a connection key gives access to. \<open>Tunnels\<close> (\<open>service/tunnel_gorm.go\<close>): tunnels with the rules that mirror them, and
  when their ports are distinct.

  \<^bold>\<open>Nodes of the control plane.\<close> \<open>Nodes\<close> (\<open>db/dao/node.go\<close>) is the table of nodes and groups with its queries.
  \<open>Monitoring\<close> (\<open>service/node_monitoring.go\<close>, \<open>db/dao/monitoring.go\<close>, \<open>api/handler/system/monitoring.go\<close>): reports, alerts, the
  hourly record, offline nodes, permissions. \<open>Node_Handler\<close> (\<open>ws/handler.go\<close>, \<open>modules/node/manager.go\<close>) puts the hub, the
  keys, the nodes, the tunnels, the failover events and the monitoring together: who gets a connection, what a message
  of a node may change, and which configuration a node is sent.

  \<^bold>\<open>The control plane.\<close> \<open>Ws_Hub\<close> (\<open>ws/manager.go\<close> with the connection part of \<open>ws/handler.go\<close>) and \<open>Ws_Pool\<close>
  (\<open>ws/pool.go\<close>) are the nodes' connections. \<open>Billing\<close> (\<open>service/plan.go\<close>, \<open>dao/plan.go\<close>, \<open>service/traffic_limiter.go\<close>)
  and \<open>Wallet\<close> (handlers \<open>wallet.go\<close>, \<open>payment.go\<close>, \<open>service/payment_monitor.go\<close> and their queries) are the money.
  \<open>Plane_Keys\<close> (\<open>auth/ck.go\<close>, \<open>service/encryption_key.go\<close>), \<open>Plane_Ports\<close> (\<open>service/port_manager.go\<close>),
  \<open>Failover\<close>, \<open>Incremental_Sync\<close>, \<open>Group_Cache\<close> (\<open>service/failover.go\<close>, \<open>incremental_sync.go\<close>,
  \<open>node_group_cache.go\<close>), \<open>Acl\<close> (\<open>service/acl.go\<close>) and \<open>Login_Limiter\<close> (\<open>middleware/rate_limit.go\<close>) are services that
  each stand alone.

  \<^bold>\<open>Go's library.\<close> \<open>Go_IO\<close>, \<open>Go_Heap\<close>, \<open>Go_Float\<close>, \<open>Go_Hex\<close>, \<open>Go_Base64\<close> and \<open>Go_IP\<close> model what the source uses of \<open>io\<close>,
  \<open>container/heap\<close>, \<open>float64\<close>, \<open>encoding/hex\<close>, \<open>encoding/base64\<close>, \<open>strconv\<close> and \<open>net\<close>.

  \<^bold>\<open>Interfaces.\<close> The locales are the bounded byte queue (\<open>Fifo\<close>, interpreted by the ring buffer), the order of a
  heap (\<open>Go_Heap\<close>, interpreted by packets and by cache frequencies), the contract of an encryptor (\<open>Encryption\<close>,
  interpreted by its four implementations) and the registry of ports (\<open>Plane_Ports\<close>,
  interpreted by the two-level map).

  \<^bold>\<open>Bounds and fuel.\<close> Loops that end by their data are structural or have a measure: the read loop the bytes left,
  \<open>Stream_Write\<close> the bytes unsent, the retry loop and recovery tasks the attempts left. Loops the source does not
  bound are partial functions in the option monad, so that not returning is the value \<open>None\<close>, and that they return is
  a theorem or its failure a finding: \<open>ensure_loop\<close> of the cache (a full lru shard never makes room), \<open>available_loop\<close>
  of the ports (with the highest port 65535 the counter wraps). The processing loop of the flow controller has
  fuel, and the theorem on its shutdown says how much is enough. Floats are assumed in the range where nothing
  overflows, as said in \<open>Go_Float\<close>, and conversions out of range are an argument; the bound of the token bucket
  carries a slack of \<open>2 ^ -50\<close> per step. Times and counters that could overflow carry the hypothesis that they do not,
  and a lemma shows where the code itself can reach the overflow.

  \<^bold>\<open>Not modelled.\<close> Byte-copying loops over live sockets, TLS and certificates, WebSocket and HTTP plumbing, JSON forms,
  logging, statistics for display, system probes, start-up wiring, and the queries that only list rows. They hold no
  decision that a model could state beyond the calls of outside libraries. Data races of the source (unsynchronised
  reads of a field) are atomic steps in the model.
\<close>

end
